(* ===== verification/Gateway_Prelude.thy ===== *)
theory Gateway_Prelude
  imports Main "HOL-Library.Sublist" "HOL-Library.AList" "HOL-Library.Word"
begin

text \<open>
  Shared vocabulary of the development: Go strings as byte lists with the operations of the
  package \<open>strings\<close> that the modelled code calls, Go's \<open>time.Time\<close> and \<open>time.Duration\<close> as
  nanosecond counts, and the collections of facts the component proofs use.

  A Go \<open>string\<close> is a sequence of bytes and \<open>len\<close> counts bytes, so it is HOL's \<open>string\<close>
  (a \<open>char\<close> is a byte).  The zero \<open>time.Time\<close> is the number 0, so \<open>IsZero\<close> is a test against 0
  and \<open>Before\<close>, \<open>After\<close>, \<open>Add\<close>, \<open>Sub\<close> are the order, the sum and the difference of integers.
\<close>

named_theorems state_defs \<open>initial states and state accessors\<close>
named_theorems handler_defs \<open>operations of a component, one per handler of the code\<close>

section \<open>Strings\<close>

text \<open>\<open>strings.HasPrefix\<close>, \<open>strings.HasSuffix\<close>, \<open>strings.Contains\<close>, \<open>strings.CutPrefix\<close>.\<close>

definition HasPrefix :: "string \<Rightarrow> string \<Rightarrow> bool" where
  "HasPrefix s p = prefix p s"

definition HasSuffix :: "string \<Rightarrow> string \<Rightarrow> bool" where
  "HasSuffix s p = prefix (rev p) (rev s)"

definition Contains :: "string \<Rightarrow> string \<Rightarrow> bool" where
  "Contains s p = sublist p s"

definition CutPrefix :: "string \<Rightarrow> string \<Rightarrow> string \<times> bool" where
  "CutPrefix s p = (if HasPrefix s p then (drop (length p) s, True) else (s, False))"

lemma HasPrefix_append [simp]: "HasPrefix (p @ s) p"
  by (simp add: HasPrefix_def)

lemma HasPrefix_iff: "HasPrefix s p \<longleftrightarrow> (\<exists>r. s = p @ r)"
  by (auto simp: HasPrefix_def prefix_def)

lemma HasSuffix_iff: "HasSuffix s p \<longleftrightarrow> (\<exists>r. s = r @ p)"
  by (simp add: HasSuffix_def flip: suffix_to_prefix) (auto simp: suffix_def)

text \<open>
  \<open>strings.TrimSpace\<close> removes, at both ends, every code point that \<open>unicode.IsSpace\<close> holds of.
  The list gives the UTF-8 encodings of all of them.  UTF-8 is self-synchronising, so removing
  such an encoding from an end of the byte sequence is removing one code point there.
\<close>

definition go_spaces :: "string list" where
  "go_spaces =
     [[CHR 0x09], [CHR 0x0A], [CHR 0x0B], [CHR 0x0C], [CHR 0x0D], [CHR 0x20],
      [CHR 0xC2, CHR 0x85], [CHR 0xC2, CHR 0xA0], [CHR 0xE1, CHR 0x9A, CHR 0x80],
      [CHR 0xE2, CHR 0x80, CHR 0x80], [CHR 0xE2, CHR 0x80, CHR 0x81], [CHR 0xE2, CHR 0x80, CHR 0x82],
      [CHR 0xE2, CHR 0x80, CHR 0x83], [CHR 0xE2, CHR 0x80, CHR 0x84], [CHR 0xE2, CHR 0x80, CHR 0x85],
      [CHR 0xE2, CHR 0x80, CHR 0x86], [CHR 0xE2, CHR 0x80, CHR 0x87], [CHR 0xE2, CHR 0x80, CHR 0x88],
      [CHR 0xE2, CHR 0x80, CHR 0x89], [CHR 0xE2, CHR 0x80, CHR 0x8A], [CHR 0xE2, CHR 0x80, CHR 0xA8],
      [CHR 0xE2, CHR 0x80, CHR 0xA9], [CHR 0xE2, CHR 0x80, CHR 0xAF], [CHR 0xE2, CHR 0x81, CHR 0x9F],
      [CHR 0xE3, CHR 0x80, CHR 0x80]]"

text \<open>\<open>trim_encs encs s\<close> removes members of \<open>encs\<close> from the front of \<open>s\<close> as long as there is one.\<close>

definition find_enc :: "string list \<Rightarrow> string \<Rightarrow> string option" where
  "find_enc encs s = find (\<lambda>e. e \<noteq> [] \<and> prefix e s) encs"

lemma find_enc_SomeD: "find_enc encs s = Some e \<Longrightarrow> e \<in> set encs \<and> e \<noteq> [] \<and> prefix e s"
  by (auto simp: find_enc_def find_Some_iff)

function trim_encs :: "string list \<Rightarrow> string \<Rightarrow> string" where
  "trim_encs encs s = (case find_enc encs s of None \<Rightarrow> s | Some e \<Rightarrow> trim_encs encs (drop (length e) s))"
  by pat_completeness auto
termination
  by (relation "measure (\<lambda>(encs, s). length s)")
     (auto dest!: find_enc_SomeD simp: prefix_def)

declare trim_encs.simps [simp del]

definition TrimSpace :: "string \<Rightarrow> string" where
  "TrimSpace s = rev (trim_encs (map rev go_spaces) (rev (trim_encs go_spaces s)))"

lemma trim_encs_done: "find_enc encs (trim_encs encs s) = None"
proof (induction encs s rule: trim_encs.induct)
  case (1 encs s)
  then show ?case
    by (cases "find_enc encs s") (simp_all add: trim_encs.simps [of encs s])
qed

lemma trim_encs_suffix: "\<exists>p. s = p @ trim_encs encs s"
proof (induction encs s rule: trim_encs.induct)
  case (1 encs s)
  show ?case
  proof (cases "find_enc encs s")
    case None
    then show ?thesis by (simp add: trim_encs.simps [of encs s])
  next
    case (Some e)
    with "1.IH" obtain p where "drop (length e) s = p @ trim_encs encs (drop (length e) s)"
      by blast
    moreover from Some obtain r where "s = e @ r"
      by (auto dest!: find_enc_SomeD simp: prefix_def)
    moreover have "trim_encs encs s = trim_encs encs (drop (length e) s)"
      using Some by (simp add: trim_encs.simps [of encs s])
    ultimately have "s = (e @ p) @ trim_encs encs s" by simp
    then show ?thesis by blast
  qed
qed

lemma trim_encs_id: "find_enc encs s = None \<Longrightarrow> trim_encs encs s = s"
  by (simp add: trim_encs.simps [of encs s])

lemma find_enc_append_None: "find_enc encs (s @ t) = None \<Longrightarrow> find_enc encs s = None"
  by (auto simp: find_enc_def find_None_iff)

lemma TrimSpace_Nil [simp]: "TrimSpace [] = []"
  by (simp add: TrimSpace_def trim_encs_id find_enc_def find_None_iff)

text \<open>Trimming twice is trimming once.\<close>

lemma TrimSpace_idem [simp]: "TrimSpace (TrimSpace s) = TrimSpace s"
proof -
  let ?l = "trim_encs go_spaces s"
  let ?t = "trim_encs (map rev go_spaces) (rev ?l)"
  obtain p where "rev ?l = p @ ?t"
    using trim_encs_suffix by blast
  then have "?l = rev ?t @ rev p"
    by (metis rev_append rev_rev_ident)
  then have "find_enc go_spaces (rev ?t) = None"
    using trim_encs_done [of go_spaces s] by (metis find_enc_append_None)
  then show ?thesis
    by (simp add: TrimSpace_def trim_encs_id trim_encs_done)
qed

text \<open>\<open>strings.Join\<close> and \<open>strconv.Itoa\<close> on natural numbers.\<close>

definition joinWith :: "string \<Rightarrow> string list \<Rightarrow> string" where
  "joinWith sep xs = (case xs of [] \<Rightarrow> [] | y # ys \<Rightarrow> y @ concat (map (\<lambda>z. sep @ z) ys))"

fun Itoa :: "nat \<Rightarrow> string" where
  "Itoa n = (if n < 10 then [char_of (48 + n)] else Itoa (n div 10) @ [char_of (48 + n mod 10)])"

declare Itoa.simps [simp del]

text \<open>UTF-8: the length of the rune at the front of a byte sequence, if there is a valid one.\<close>

definition inRange :: "nat \<Rightarrow> nat \<Rightarrow> char \<Rightarrow> bool" where
  "inRange lo hi c \<longleftrightarrow> lo \<le> of_char c \<and> of_char c \<le> hi"

definition runeLength :: "string \<Rightarrow> nat option" where
  "runeLength s = (case s of
     [] \<Rightarrow> None
   | a # t \<Rightarrow>
       let second = (if inRange 0xE0 0xE0 a then inRange 0xA0 0xBF
                     else if inRange 0xED 0xED a then inRange 0x80 0x9F
                     else if inRange 0xF0 0xF0 a then inRange 0x90 0xBF
                     else if inRange 0xF4 0xF4 a then inRange 0x80 0x8F
                     else inRange 0x80 0xBF);
           n = (if inRange 0x00 0x7F a then 1 else if inRange 0xC2 0xDF a then 2
                else if inRange 0xE0 0xEF a then 3 else if inRange 0xF0 0xF4 a then 4 else 0)
       in if n = 0 \<or> length s < n then None
          else if n \<ge> 2 \<and> \<not> second (t ! 0) then None
          else if n \<ge> 3 \<and> \<not> inRange 0x80 0xBF (t ! 1) then None
          else if n \<ge> 4 \<and> \<not> inRange 0x80 0xBF (t ! 2) then None
          else Some n)"

lemma runeLength_pos: "runeLength s = Some n \<Longrightarrow> 0 < n \<and> n \<le> length s"
  by (auto simp: runeLength_def Let_def Suc_le_eq split: list.splits if_splits)

section \<open>Time\<close>

text \<open>Nanoseconds since Go's zero time; a \<open>time.Duration\<close> is a nanosecond count.\<close>

type_synonym time = int
type_synonym duration = int

definition IsZero :: "time \<Rightarrow> bool" where "IsZero t = (t = 0)"

definition Millisecond :: duration where "Millisecond = 1000000"
definition Second :: duration where "Second = 1000000000"
definition Minute :: duration where "Minute = 60 * Second"
definition Hour :: duration where "Hour = 60 * Minute"
definition Day :: duration where "Day = 24 * Hour"

lemmas time_units = Millisecond_def Second_def Minute_def Hour_def Day_def

text \<open>\<open>t.UnixNano()\<close>: nanoseconds since 1970-01-01, which is 719162 days after Go's zero time.\<close>

definition UnixNano :: "time \<Rightarrow> int" where
  "UnixNano t = t - 719162 * Day"

section \<open>Integers\<close>

text \<open>Go's integer division and remainder truncate towards zero.\<close>

definition go_div :: "int \<Rightarrow> int \<Rightarrow> int" where
  "go_div a b = sgn a * sgn b * (\<bar>a\<bar> div \<bar>b\<bar>)"

definition go_mod :: "int \<Rightarrow> int \<Rightarrow> int" where
  "go_mod a b = a - b * go_div a b"

lemma go_div_nonneg: "0 \<le> a \<Longrightarrow> 0 < b \<Longrightarrow> go_div a b = a div b"
  by (simp add: go_div_def sgn_if)

lemma go_mod_nonneg: "0 \<le> a \<Longrightarrow> 0 < b \<Longrightarrow> go_mod a b = a mod b"
  by (simp add: go_mod_def go_div_nonneg minus_mult_div_eq_mod)

section \<open>Databases\<close>

text \<open>What happens to a statement: it may fail before or after it took effect.\<close>

datatype fault = NoFault | NotApplied | Applied

text \<open>Looking a row up in a table that is extended, filtered or updated.\<close>

lemma find_append_None: "find p xs = None \<Longrightarrow> find p (xs @ ys) = find p ys"
  by (induction xs) (simp_all split: if_splits)

lemma find_append_Some: "find p xs = Some x \<Longrightarrow> find p (xs @ ys) = Some x"
  by (induction xs) (auto split: if_splits)

lemma find_filter_Some: "find p xs = Some x \<Longrightarrow> q x \<Longrightarrow> find p (filter q xs) = Some x"
  by (induction xs) (auto split: if_splits)

lemma find_unique:
  "distinct (map g xs) \<Longrightarrow> x \<in> set xs \<Longrightarrow> find (\<lambda>y. g y = g x) xs = Some x"
  by (induction xs) (auto simp: image_iff)

lemma find_map_if:
  "(\<And>x. g (f x) = g x) \<Longrightarrow> find (\<lambda>x. g x = i) (map (\<lambda>x. if p x then f x else x) xs)
     = map_option (\<lambda>x. if p x then f x else x) (find (\<lambda>x. g x = i) xs)"
  by (induction xs) auto

section \<open>Association lists\<close>

text \<open>A Go map with a loop over it or a length is an association list with distinct keys.\<close>

lemma map_of_key: "map_of xs k = Some v \<Longrightarrow> k \<in> fst ` set xs"
  by (force dest: map_of_SomeD)

lemma length_delete:
  assumes "distinct (map fst xs)" and "k \<in> fst ` set xs"
  shows "Suc (length (AList.delete k xs)) = length xs"
  using assms
proof (induction xs)
  case (Cons x xs)
  show ?case
  proof (cases "fst x = k")
    case True
    with Cons.prems(1) have "AList.delete k xs = xs" by (auto intro: delete_id)
    with True show ?thesis by (simp add: AList.delete_eq case_prod_unfold)
  next
    case False
    with Cons have "Suc (length (AList.delete k xs)) = length xs" by auto
    with False show ?thesis by (simp add: AList.delete_eq case_prod_unfold)
  qed
qed simp

lemma length_update: "length (AList.update k v xs) = (if k \<in> fst ` set xs then length xs else Suc (length xs))"
  by (induction xs) auto

lemma map_of_filter_value:
  assumes "distinct (map fst xs)"
  shows "map_of (filter (\<lambda>(_, v). P v) xs) k =
    (case map_of xs k of None \<Rightarrow> None | Some v \<Rightarrow> if P v then Some v else None)"
  using assms
proof (induction xs)
  case (Cons x xs)
  show ?case
  proof (cases "fst x = k")
    case True
    with Cons.prems have "map_of xs k = None" by (simp add: map_of_eq_None_iff)
    with True Cons show ?thesis by (cases x) (simp split: option.split)
  next
    case False
    with Cons show ?thesis by (cases x) simp
  qed
qed simp

section \<open>Runs of a state machine that emits output\<close>

text \<open>
  Every stream translator is a function from an input event and a state to the events it emits
  and the next state; a run threads the state through the input list and concatenates the output.
\<close>

fun run_machine :: "('e \<Rightarrow> 's \<Rightarrow> 'o list \<times> 's) \<Rightarrow> 'e list \<Rightarrow> 's \<Rightarrow> 'o list \<times> 's" where
  "run_machine f [] s = ([], s)"
| "run_machine f (e # es) s =
     (let (os, s') = f e s; (os', s'') = run_machine f es s' in (os @ os', s''))"

lemma run_machine_Cons [simp]:
  "fst (run_machine f (e # es) s) = fst (f e s) @ fst (run_machine f es (snd (f e s)))"
  "snd (run_machine f (e # es) s) = snd (run_machine f es (snd (f e s)))"
  by (simp_all add: case_prod_unfold Let_def)

declare run_machine.simps(2) [simp del]

lemma run_machine_append:
  "run_machine f (xs @ ys) s =
     (let (os, s') = run_machine f xs s; (os', s'') = run_machine f ys s' in (os @ os', s''))"
  by (induction xs arbitrary: s) (simp_all add: run_machine.simps(2) case_prod_unfold Let_def)

lemma run_machine_invariant:
  assumes "\<And>e s. I s \<Longrightarrow> I (snd (f e s))" and "I s"
  shows "I (snd (run_machine f es s))"
  using assms(2)
proof (induction es arbitrary: s)
  case (Cons e es)
  then show ?case
    using assms(1) [OF Cons.prems, of e] by simp
qed simp

text \<open>Two emitting operations one after the other.\<close>

definition seqE :: "'o list \<times> 's \<Rightarrow> ('s \<Rightarrow> 'o list \<times> 's) \<Rightarrow> 'o list \<times> 's" where
  "seqE r f = (let (os, s) = r; (os', s') = f s in (os @ os', s'))"

lemma seqE_simps [simp]:
  "fst (seqE r f) = fst r @ fst (f (snd r))"
  "snd (seqE r f) = snd (f (snd r))"
  by (simp_all add: seqE_def case_prod_unfold Let_def)

lemma seqE_skip: "seqE ([], s) f = f s"
  by (simp add: prod_eq_iff)

lemma seqE_assoc: "seqE (seqE r f) g = seqE r (\<lambda>s. seqE (f s) g)"
  by (simp add: prod_eq_iff)

lemma run_machine_seqE: "run_machine f (e # es) s = seqE (f e s) (run_machine f es)"
  by (simp add: prod_eq_iff)

text \<open>A projection of the output that each step determines is determined by the whole run.\<close>

lemma run_machine_concat:
  assumes "\<And>e s. concat (map g (fst (f e s))) = h e"
  shows "concat (map g (fst (run_machine f es s))) = concat (map h es)"
  by (induction es arbitrary: s) (simp_all add: assms)

text \<open>A set that each step adds a determined part to.\<close>

lemma run_machine_collect:
  assumes "\<And>e s. D (snd (f e s)) = D s \<union> h e"
  shows "D (snd (run_machine f es s)) = D s \<union> \<Union> (h ` set es)"
  by (induction es arbitrary: s) (auto simp: assms)

text \<open>A specification automaton over the output: \<open>None\<close> is rejection.\<close>

fun accepts_from :: "('p \<Rightarrow> 'o \<Rightarrow> 'p option) \<Rightarrow> 'p \<Rightarrow> 'o list \<Rightarrow> 'p option" where
  "accepts_from d p [] = Some p"
| "accepts_from d p (x # xs) = (case d p x of None \<Rightarrow> None | Some p' \<Rightarrow> accepts_from d p' xs)"

lemma accepts_from_append:
  "accepts_from d p (xs @ ys) =
     (case accepts_from d p xs of None \<Rightarrow> None | Some p' \<Rightarrow> accepts_from d p' ys)"
  by (induction xs arbitrary: p) (auto split: option.splits)

text \<open>
  Functional refinement of a specification automaton over the output, for upstream events that come
  in order.  The order is an automaton over the upstream events (\<open>None\<close>: out of order), \<open>link\<close> ties
  its state to the state of the program; if the output of every step in order takes the specification
  from the abstraction of the state to the abstraction of the next state, so does a run.
\<close>

locale ordered_refinement =
  fixes step :: "'e \<Rightarrow> 's \<Rightarrow> 'o list \<times> 's"
    and order :: "'m \<Rightarrow> 'e \<Rightarrow> 'm option"
    and link :: "'m \<Rightarrow> 's \<Rightarrow> bool"
    and spec :: "'p \<Rightarrow> 'o \<Rightarrow> 'p option"
    and abs :: "'s \<Rightarrow> 'p"
  assumes step_link: "link m s \<Longrightarrow> order m e = Some m' \<Longrightarrow> link m' (snd (step e s))"
    and step_accepted: "link m s \<Longrightarrow> order m e = Some m' \<Longrightarrow>
      accepts_from spec (abs s) (fst (step e s)) = Some (abs (snd (step e s)))"
begin

lemma run_link:
  "link m s \<Longrightarrow> accepts_from order m es = Some m' \<Longrightarrow> link m' (snd (run_machine step es s))"
proof (induction es arbitrary: m s)
  case (Cons e es)
  then show ?case
    using step_link [of m s e] by (auto split: option.splits)
qed simp

lemma run_accepted:
  "link m s \<Longrightarrow> accepts_from order m es = Some m' \<Longrightarrow>
     accepts_from spec (abs s) (fst (run_machine step es s)) = Some (abs (snd (run_machine step es s)))"
proof (induction es arbitrary: m s)
  case (Cons e es)
  obtain m1 where m1: "order m e = Some m1" and rest: "accepts_from order m1 es = Some m'"
    using Cons.prems(2) by (auto split: option.splits)
  note link = step_link [OF Cons.prems(1) m1] and sim = step_accepted [OF Cons.prems(1) m1]
  from Cons.IH [OF link rest] sim show ?case
    by (simp add: accepts_from_append)
qed simp

end

text \<open>
  The special case where every event that satisfies \<open>ok\<close> is in order, wherever it comes, and the
  link is an invariant of the state.
\<close>

locale stream_refinement =
  fixes step :: "'e \<Rightarrow> 's \<Rightarrow> 'o list \<times> 's"
    and inv :: "'s \<Rightarrow> bool"
    and ok :: "'e \<Rightarrow> bool"
    and spec :: "'p \<Rightarrow> 'o \<Rightarrow> 'p option"
    and abs :: "'s \<Rightarrow> 'p"
  assumes step_inv: "inv s \<Longrightarrow> ok e \<Longrightarrow> inv (snd (step e s))"
    and step_sim: "inv s \<Longrightarrow> ok e \<Longrightarrow>
      accepts_from spec (abs s) (fst (step e s)) = Some (abs (snd (step e s)))"

lemma accepts_from_all:
  "\<forall>e \<in> set es. b e \<Longrightarrow> accepts_from (\<lambda>u e. if b e then Some u else None) u es = Some u"
  by (induction es) simp_all

sublocale stream_refinement \<subseteq> every:
  ordered_refinement step "\<lambda>u e. if ok e then Some u else None" "\<lambda>_. inv" spec abs
  by unfold_locales (auto simp: step_inv step_sim split: if_splits)

context stream_refinement
begin

lemma run_inv: "inv s \<Longrightarrow> \<forall>e \<in> set es. ok e \<Longrightarrow> inv (snd (run_machine step es s))"
  by (rule every.run_link [OF _ accepts_from_all])

lemma run_sim:
  "inv s \<Longrightarrow> \<forall>e \<in> set es. ok e \<Longrightarrow>
     accepts_from spec (abs s) (fst (run_machine step es s)) = Some (abs (snd (run_machine step es s)))"
  by (rule every.run_accepted [OF _ accepts_from_all])

end

text \<open>
  The same for programs composed with \<open>seqE\<close>, in the style of Hoare triples: from a state where
  \<open>P\<close> holds, the output of \<open>m\<close> takes the specification from the abstraction of the state to that
  of the next state, where \<open>Q\<close> holds.
\<close>

definition triple ::
  "('p \<Rightarrow> 'o \<Rightarrow> 'p option) \<Rightarrow> ('s \<Rightarrow> 'p) \<Rightarrow> ('s \<Rightarrow> bool) \<Rightarrow> ('s \<Rightarrow> 'o list \<times> 's) \<Rightarrow> ('s \<Rightarrow> bool) \<Rightarrow> bool" where
  "triple spec \<alpha> P m Q \<longleftrightarrow>
     (\<forall>s. P s \<longrightarrow> Q (snd (m s)) \<and> accepts_from spec (\<alpha> s) (fst (m s)) = Some (\<alpha> (snd (m s))))"

lemma tripleI:
  assumes "\<And>s. P s \<Longrightarrow> Q (snd (m s))"
    and "\<And>s. P s \<Longrightarrow> accepts_from spec (\<alpha> s) (fst (m s)) = Some (\<alpha> (snd (m s)))"
  shows "triple spec \<alpha> P m Q"
  using assms by (simp add: triple_def)

lemma tripleD:
  assumes "triple spec \<alpha> P m Q" and "P s"
  shows "Q (snd (m s))" and "accepts_from spec (\<alpha> s) (fst (m s)) = Some (\<alpha> (snd (m s)))"
  using assms by (simp_all add: triple_def)

lemma triple_seqE:
  assumes "triple spec \<alpha> P m Q" and "\<And>t. triple spec \<alpha> Q (f t) R"
  shows "triple spec \<alpha> P (\<lambda>s. seqE (m s) (f s)) R"
  using assms by (simp add: triple_def accepts_from_append)

lemma triple_cong:
  assumes "\<And>s. P s \<Longrightarrow> m s = m' s" and "triple spec \<alpha> P m' Q"
  shows "triple spec \<alpha> P m Q"
  using assms by (simp add: triple_def)

lemma triple_if:
  assumes "triple spec \<alpha> (\<lambda>s. P s \<and> b s) m Q" and "triple spec \<alpha> (\<lambda>s. P s \<and> \<not> b s) m' Q"
  shows "triple spec \<alpha> P (\<lambda>s. if b s then m s else m' s) Q"
  using assms by (simp add: triple_def)

lemma triple_conseq:
  assumes "triple spec \<alpha> P m Q" and "\<And>s. P' s \<Longrightarrow> P s" and "\<And>s. Q s \<Longrightarrow> Q' s"
  shows "triple spec \<alpha> P' m Q'"
  using assms by (simp add: triple_def)

lemma triple_frame:
  assumes "triple spec \<alpha> P m Q" and "\<And>s. P s \<Longrightarrow> R s \<Longrightarrow> R' (snd (m s))"
  shows "triple spec \<alpha> (\<lambda>s. P s \<and> R s) m (\<lambda>s. Q s \<and> R' s)"
  using assms by (simp add: triple_def)

lemma triple_silent:
  assumes "\<And>s. P s \<Longrightarrow> Q (g s) \<and> \<alpha> (g s) = \<alpha> s"
  shows "triple spec \<alpha> P (\<lambda>s. ([], g s)) Q"
  using assms by (simp add: triple_def)

lemma triple_update:
  assumes "\<And>s. P s \<Longrightarrow> P' (g s) \<and> \<alpha> (g s) = \<alpha> s" and "triple spec \<alpha> P' m Q"
  shows "triple spec \<alpha> P (\<lambda>s. m (g s)) Q"
  using assms by (simp add: triple_def) metis

lemma triple_skip: "(\<And>s. P s \<Longrightarrow> Q s) \<Longrightarrow> triple spec \<alpha> P (Pair []) Q"
  by (simp add: triple_def)

lemma triple_run:
  assumes "\<And>e. triple spec \<alpha> I (f e) I"
  shows "triple spec \<alpha> I (run_machine f es) I"
proof (induction es)
  case Nil
  show ?case by (simp add: triple_def)
next
  case (Cons e es)
  show ?case
    using triple_seqE [OF assms Cons.IH] by (simp add: run_machine_seqE)
qed

lemma triple_run_ordered:
  assumes "\<And>m e m'. order m e = Some m' \<Longrightarrow> triple spec \<alpha> (link m) (f e) (link m')"
    and "accepts_from order m es = Some m'"
  shows "triple spec \<alpha> (link m) (run_machine f es) (link m')"
proof -
  have *: "ordered_refinement f order link spec \<alpha>"
    by unfold_locales (use assms(1) in \<open>auto simp: triple_def\<close>)
  show ?thesis
    using ordered_refinement.run_link [OF * _ assms(2)] ordered_refinement.run_accepted [OF * _ assms(2)]
    by (rule tripleI)
qed

text \<open>
  The same at one pair of specification and program states, for an abstraction that is a relation:
  the specification accepts the output, and the states after it are related by \<open>Q\<close>.
\<close>

definition reaches :: "('p \<Rightarrow> 'o \<Rightarrow> 'p option) \<Rightarrow> 'p \<Rightarrow> 'o list \<times> 's \<Rightarrow> ('p \<Rightarrow> 's \<Rightarrow> bool) \<Rightarrow> bool" where
  "reaches spec p r Q \<longleftrightarrow> (\<exists>p'. accepts_from spec p (fst r) = Some p' \<and> Q p' (snd r))"

lemma reachesE:
  assumes "reaches spec p r Q"
  obtains p' where "accepts_from spec p (fst r) = Some p'" and "Q p' (snd r)"
  using assms by (auto simp: reaches_def)

lemma reaches_conseq: "reaches spec p r Q \<Longrightarrow> (\<And>p'. Q p' (snd r) \<Longrightarrow> Q' p' (snd r)) \<Longrightarrow> reaches spec p r Q'"
  by (auto simp: reaches_def)

lemma reaches_silent: "Q p s \<Longrightarrow> reaches spec p ([], s) Q"
  by (simp add: reaches_def)

lemma reaches_seqE:
  assumes "reaches spec p r Q" and "\<And>p'. Q p' (snd r) \<Longrightarrow> reaches spec p' (f (snd r)) Q'"
  shows "reaches spec p (seqE r f) Q'"
  using assms by (force simp: reaches_def accepts_from_append)

lemma reaches_run:
  assumes "\<And>e p s. e \<in> set es \<Longrightarrow> R p s \<Longrightarrow> reaches spec p (f e s) R" and "R p s"
  shows "reaches spec p (run_machine f es s) R"
  using assms
proof (induction es arbitrary: p s)
  case Nil
  then show ?case by (simp add: reaches_silent)
next
  case (Cons e es)
  show ?case
    unfolding run_machine_seqE
    by (rule reaches_seqE [where Q = R]) (simp_all add: Cons)
qed

end
