(* ===== verification/Compat_Types.thy ===== *)
theory Compat_Types
  imports Gateway_Prelude
begin

text \<open>
  The wire types of the protocol translators, from \<open>internal/pkg/apicompat/types.go\<close>: one record
  per Go struct, one field per struct field in the struct's order.  A pointer is an \<open>option\<close>, a
  slice is a list, a \<open>json.RawMessage\<close> is its bytes.  The constants \<open>zero\<dots>\<close> are Go's zero
  values, from which the code's composite literals are written as record updates.
\<close>

section \<open>Anthropic Messages\<close>

record AnthropicCacheControl =
  acc_Type :: string
  acc_TTL :: string

record AnthropicImageSource =
  ais_Type :: string
  ais_MediaType :: string
  ais_Data :: string

record AnthropicContentBlock =
  acb_Type :: string
  acb_CacheControl :: "AnthropicCacheControl option"
  acb_Text :: string
  acb_Thinking :: string
  acb_Signature :: string
  acb_Source :: "AnthropicImageSource option"
  acb_ID :: string
  acb_Name :: string
  acb_Input :: string
  acb_ToolUseID :: string
  acb_Content :: string
  acb_IsError :: bool

definition zeroAnthropicContentBlock :: AnthropicContentBlock where
  "zeroAnthropicContentBlock =
     \<lparr>acb_Type = [], acb_CacheControl = None, acb_Text = [], acb_Thinking = [], acb_Signature = [],
      acb_Source = None, acb_ID = [], acb_Name = [], acb_Input = [], acb_ToolUseID = [],
      acb_Content = [], acb_IsError = False\<rparr>"

record AnthropicPromptTokensDetails =
  aptd_CachedTokens :: int

record AnthropicUsage =
  au_InputTokens :: int
  au_OutputTokens :: int
  au_CacheCreationInputTokens :: int
  au_CacheReadInputTokens :: int
  au_PromptTokens :: int
  au_CachedTokens :: int
  au_PromptTokensDetails :: "AnthropicPromptTokensDetails option"
  au_PromptCacheHitTokens :: "int option"
  au_PromptCacheMissTokens :: "int option"

definition zeroAnthropicUsage :: AnthropicUsage where
  "zeroAnthropicUsage =
     \<lparr>au_InputTokens = 0, au_OutputTokens = 0, au_CacheCreationInputTokens = 0,
      au_CacheReadInputTokens = 0, au_PromptTokens = 0, au_CachedTokens = 0,
      au_PromptTokensDetails = None, au_PromptCacheHitTokens = None, au_PromptCacheMissTokens = None\<rparr>"

record AnthropicResponse =
  ar_ID :: string
  ar_Type :: string
  ar_Role :: string
  ar_Content :: "AnthropicContentBlock list"
  ar_Model :: string
  ar_StopReason :: "string option"
  ar_StopSequence :: "string option"
  ar_Usage :: AnthropicUsage

definition zeroAnthropicResponse :: AnthropicResponse where
  "zeroAnthropicResponse =
     \<lparr>ar_ID = [], ar_Type = [], ar_Role = [], ar_Content = [], ar_Model = [],
      ar_StopReason = None, ar_StopSequence = None, ar_Usage = zeroAnthropicUsage\<rparr>"

definition AnthropicStopReasonPtr :: "string \<Rightarrow> string option" where
  "AnthropicStopReasonPtr s = Some s"

definition AnthropicStopReasonString :: "string option \<Rightarrow> string" where
  "AnthropicStopReasonString p = (case p of None \<Rightarrow> [] | Some s \<Rightarrow> s)"

record AnthropicDelta =
  ad_Type :: string
  ad_Text :: string
  ad_PartialJSON :: string
  ad_Thinking :: string
  ad_Signature :: string
  ad_StopReason :: string
  ad_StopSequence :: "string option"

definition zeroAnthropicDelta :: AnthropicDelta where
  "zeroAnthropicDelta =
     \<lparr>ad_Type = [], ad_Text = [], ad_PartialJSON = [], ad_Thinking = [], ad_Signature = [],
      ad_StopReason = [], ad_StopSequence = None\<rparr>"

record AnthropicStreamEvent =
  ase_Type :: string
  ase_Message :: "AnthropicResponse option"
  ase_Index :: "int option"
  ase_ContentBlock :: "AnthropicContentBlock option"
  ase_Delta :: "AnthropicDelta option"
  ase_Usage :: "AnthropicUsage option"

definition zeroAnthropicStreamEvent :: AnthropicStreamEvent where
  "zeroAnthropicStreamEvent =
     \<lparr>ase_Type = [], ase_Message = None, ase_Index = None, ase_ContentBlock = None,
      ase_Delta = None, ase_Usage = None\<rparr>"

section \<open>OpenAI Responses\<close>

record ResponsesContentPart =
  rcp_Type :: string
  rcp_Text :: string
  rcp_ImageURL :: string
  rcp_Filename :: string
  rcp_FileData :: string
  rcp_FileID :: string

definition zeroResponsesContentPart :: ResponsesContentPart where
  "zeroResponsesContentPart =
     \<lparr>rcp_Type = [], rcp_Text = [], rcp_ImageURL = [], rcp_Filename = [], rcp_FileData = [],
      rcp_FileID = []\<rparr>"

record ResponsesSummary =
  rsm_Type :: string
  rsm_Text :: string

record WebSearchAction =
  wsa_Type :: string
  wsa_Query :: string

record ResponsesIncompleteDetails =
  rid_Reason :: string

record ResponsesError =
  rer_Code :: string
  rer_Message :: string

record ResponsesInputTokensDetails =
  ritd_CachedTokens :: int
  ritd_AudioTokens :: int
  ritd_CacheCreationTokens :: int
  ritd_CacheWriteTokens :: int

definition zeroResponsesInputTokensDetails :: ResponsesInputTokensDetails where
  "zeroResponsesInputTokensDetails =
     \<lparr>ritd_CachedTokens = 0, ritd_AudioTokens = 0, ritd_CacheCreationTokens = 0,
      ritd_CacheWriteTokens = 0\<rparr>"

record ResponsesOutputTokensDetails =
  rotd_ReasoningTokens :: int
  rotd_AudioTokens :: int
  rotd_AcceptedPredictionTokens :: int
  rotd_RejectedPredictionTokens :: int

record ResponsesUsage =
  ru_InputTokens :: int
  ru_OutputTokens :: int
  ru_TotalTokens :: int
  ru_CacheCreationInputTokens :: int
  ru_InputTokensDetails :: "ResponsesInputTokensDetails option"
  ru_OutputTokensDetails :: "ResponsesOutputTokensDetails option"

record ResponsesOutput =
  ro_Type :: string
  ro_ID :: string
  ro_Role :: string
  ro_Content :: "ResponsesContentPart list"
  ro_Status :: string
  ro_EncryptedContent :: string
  ro_Summary :: "ResponsesSummary list"
  ro_CallID :: string
  ro_Name :: string
  ro_Arguments :: string
  ro_Namespace :: string
  ro_Input :: string
  ro_Action :: "WebSearchAction option"

definition zeroResponsesOutput :: ResponsesOutput where
  "zeroResponsesOutput =
     \<lparr>ro_Type = [], ro_ID = [], ro_Role = [], ro_Content = [], ro_Status = [],
      ro_EncryptedContent = [], ro_Summary = [], ro_CallID = [], ro_Name = [], ro_Arguments = [],
      ro_Namespace = [], ro_Input = [], ro_Action = None\<rparr>"

record ResponsesResponse =
  rr_ID :: string
  rr_Object :: string
  rr_CreatedAt :: int
  rr_Model :: string
  rr_Status :: string
  rr_Output :: "ResponsesOutput list"
  rr_Usage :: "ResponsesUsage option"
  rr_ServiceTier :: string
  rr_IncompleteDetails :: "ResponsesIncompleteDetails option"
  rr_Error :: "ResponsesError option"

definition zeroResponsesResponse :: ResponsesResponse where
  "zeroResponsesResponse =
     \<lparr>rr_ID = [], rr_Object = [], rr_CreatedAt = 0, rr_Model = [], rr_Status = [], rr_Output = [],
      rr_Usage = None, rr_ServiceTier = [], rr_IncompleteDetails = None, rr_Error = None\<rparr>"

record ResponsesStreamEvent =
  rse_Type :: string
  rse_Response :: "ResponsesResponse option"
  rse_Usage :: "ResponsesUsage option"
  rse_Item :: "ResponsesOutput option"
  rse_OutputIndex :: int
  rse_ContentIndex :: int
  rse_Delta :: string
  rse_Text :: string
  rse_ItemID :: string
  rse_CallID :: string
  rse_Name :: string
  rse_Arguments :: string
  rse_Input :: string
  rse_SummaryIndex :: int
  rse_Part :: "ResponsesContentPart option"
  rse_Code :: string
  rse_Param :: string
  rse_SequenceNumber :: int

definition zeroResponsesStreamEvent :: ResponsesStreamEvent where
  "zeroResponsesStreamEvent =
     \<lparr>rse_Type = [], rse_Response = None, rse_Usage = None, rse_Item = None, rse_OutputIndex = 0,
      rse_ContentIndex = 0, rse_Delta = [], rse_Text = [], rse_ItemID = [], rse_CallID = [],
      rse_Name = [], rse_Arguments = [], rse_Input = [], rse_SummaryIndex = 0, rse_Part = None,
      rse_Code = [], rse_Param = [], rse_SequenceNumber = 0\<rparr>"

section \<open>OpenAI Chat Completions\<close>

record ChatTokenDetails =
  ctd_CachedTokens :: int
  ctd_AudioTokens :: int
  ctd_CacheCreationTokens :: int
  ctd_CacheWriteTokens :: int
  ctd_ReasoningTokens :: int
  ctd_AcceptedPredictionTokens :: int
  ctd_RejectedPredictionTokens :: int

definition zeroChatTokenDetails :: ChatTokenDetails where
  "zeroChatTokenDetails =
     \<lparr>ctd_CachedTokens = 0, ctd_AudioTokens = 0, ctd_CacheCreationTokens = 0,
      ctd_CacheWriteTokens = 0, ctd_ReasoningTokens = 0, ctd_AcceptedPredictionTokens = 0,
      ctd_RejectedPredictionTokens = 0\<rparr>"

record ChatUsage =
  cu_PromptTokens :: int
  cu_CompletionTokens :: int
  cu_TotalTokens :: int
  cu_PromptTokensDetails :: "ChatTokenDetails option"
  cu_CompletionTokensDetails :: "ChatTokenDetails option"

record ChatFunctionCall =
  cfc_Name :: string
  cfc_Arguments :: string

record ChatToolCall =
  ctc_Index :: "int option"
  ctc_ID :: string
  ctc_Type :: string
  ctc_Function :: ChatFunctionCall

record ChatMessage =
  cm_Role :: string
  cm_Content :: string
  cm_ReasoningContent :: string
  cm_Reasoning :: string
  cm_Name :: string
  cm_ToolCalls :: "ChatToolCall list"
  cm_ToolCallID :: string
  cm_FunctionCall :: "ChatFunctionCall option"

definition zeroChatMessage :: ChatMessage where
  "zeroChatMessage =
     \<lparr>cm_Role = [], cm_Content = [], cm_ReasoningContent = [], cm_Reasoning = [], cm_Name = [],
      cm_ToolCalls = [], cm_ToolCallID = [], cm_FunctionCall = None\<rparr>"

record ChatChoice =
  cch_Index :: int
  cch_Message :: ChatMessage
  cch_FinishReason :: string

record ChatCompletionsResponse =
  ccr_ID :: string
  ccr_Object :: string
  ccr_Created :: int
  ccr_Model :: string
  ccr_Choices :: "ChatChoice list"
  ccr_Usage :: "ChatUsage option"
  ccr_SystemFingerprint :: string
  ccr_ServiceTier :: string

record ChatDelta =
  cd_Role :: string
  cd_Content :: "string option"
  cd_ReasoningContent :: "string option"
  cd_Reasoning :: "string option"
  cd_ToolCalls :: "ChatToolCall list"

definition zeroChatDelta :: ChatDelta where
  "zeroChatDelta =
     \<lparr>cd_Role = [], cd_Content = None, cd_ReasoningContent = None, cd_Reasoning = None,
      cd_ToolCalls = []\<rparr>"

record ChatChunkChoice =
  cck_Index :: int
  cck_Delta :: ChatDelta
  cck_FinishReason :: "string option"

record ChatCompletionsChunk =
  ccc_ID :: string
  ccc_Object :: string
  ccc_Created :: int
  ccc_Model :: string
  ccc_Choices :: "ChatChunkChoice list"
  ccc_Usage :: "ChatUsage option"
  ccc_SystemFingerprint :: string
  ccc_ServiceTier :: string

lemmas zero_defs =
  zeroAnthropicContentBlock_def zeroAnthropicUsage_def zeroAnthropicResponse_def
  zeroAnthropicDelta_def zeroAnthropicStreamEvent_def zeroResponsesContentPart_def
  zeroResponsesInputTokensDetails_def zeroResponsesOutput_def zeroResponsesResponse_def
  zeroResponsesStreamEvent_def zeroChatTokenDetails_def zeroChatMessage_def zeroChatDelta_def

section \<open>Tool call identifiers\<close>

text \<open>\<open>toResponsesCallID\<close> and \<open>fromResponsesCallID\<close> of \<open>anthropic_to_responses.go\<close>.\<close>

definition toResponsesCallID :: "string \<Rightarrow> string" where
  "toResponsesCallID id' = id'"

definition fromResponsesCallID :: "string \<Rightarrow> string" where
  "fromResponsesCallID id' =
     (let (after, ok) = CutPrefix id' ''fc_''
      in if ok \<and> (HasPrefix after ''toolu_'' \<or> HasPrefix after ''call_'') then after else id')"

text \<open>
  The parts of \<open>encoding/json\<close> the response translators call, on raw bytes: validity, decoding an
  object into its raw members, encoding such a member map, and encoding a map of strings.
\<close>

record json_lib =
  json_Valid :: "string \<Rightarrow> bool"
  json_UnmarshalObject :: "string \<Rightarrow> (string \<rightharpoonup> string) option"
  json_MarshalObject :: "(string \<rightharpoonup> string) \<Rightarrow> string option"
  json_MarshalStringMap :: "(string \<rightharpoonup> string) \<Rightarrow> string"
  json_MarshalString :: "string \<Rightarrow> string"

text \<open>\<open>sanitizeAnthropicToolUseInput\<close>: the tool \<open>Read\<close> must not receive an empty \<open>pages\<close> member.\<close>

definition sanitizeAnthropicToolUseInput :: "json_lib \<Rightarrow> string \<Rightarrow> string \<Rightarrow> string" where
  "sanitizeAnthropicToolUseInput J name raw =
     (if name \<noteq> ''Read'' \<or> raw = [] then raw
      else case json_UnmarshalObject J raw of
        None \<Rightarrow> raw
      | Some input \<Rightarrow>
          (if input ''pages'' \<noteq> Some [CHR 0x22, CHR 0x22] then raw
           else case json_MarshalObject J (input(''pages'' := None)) of
             None \<Rightarrow> raw
           | Some sanitized \<Rightarrow> sanitized))"

text \<open>A tool identifier that never carried the old prefix survives the round trip.\<close>

lemma fromResponsesCallID_id: "\<not> HasPrefix i ''fc_'' \<Longrightarrow> fromResponsesCallID (toResponsesCallID i) = i"
  by (simp add: fromResponsesCallID_def toResponsesCallID_def CutPrefix_def)

lemma fromResponsesCallID_old:
  "HasPrefix i ''toolu_'' \<or> HasPrefix i ''call_'' \<Longrightarrow> fromResponsesCallID (''fc_'' @ i) = i"
  by (auto simp: fromResponsesCallID_def CutPrefix_def HasPrefix_def)

text \<open>A concrete codec, used where a statement is instantiated.\<close>

definition plain_json :: json_lib where
  "plain_json =
     \<lparr>json_Valid = (\<lambda>s. s \<noteq> [] \<and> last s = CHR ''}''), json_UnmarshalObject = (\<lambda>_. None),
      json_MarshalObject = (\<lambda>_. None), json_MarshalStringMap = (\<lambda>_. ''{}''),
      json_MarshalString = (\<lambda>s. [CHR 0x22] @ s @ [CHR 0x22])\<rparr>"

end
