(* ===== verification/Responses_To_Anthropic.thy ===== *)
theory Responses_To_Anthropic
  imports Compat_Types
begin

text \<open>
  \<open>internal/pkg/apicompat/responses_to_anthropic.go\<close>: the translation of an OpenAI Responses
  answer into an Anthropic Messages answer, as one object and as a stream.

  A stream handler of the code takes an event and a pointer to the state and returns events; here
  it returns the events and the next state.  \<open>Created\<close> (the Unix time at which the state is made)
  is an argument of the constructor.  Lemmas: the usage arithmetic, the refinement of the
  translator by an automaton of well-formed Anthropic streams, the conservation of text, and the
  streams that do break the protocol.
\<close>

section \<open>One object\<close>

text \<open>\<open>anthropicUsageFromResponsesUsage\<close>: Anthropic's input count excludes cached tokens.\<close>

definition anthropicUsageFromResponsesUsage :: "ResponsesUsage option \<Rightarrow> AnthropicUsage" where
  "anthropicUsageFromResponsesUsage usage =
     (case usage of
        None \<Rightarrow> zeroAnthropicUsage
      | Some u \<Rightarrow>
          let cachedTokens = (case ru_InputTokensDetails u of None \<Rightarrow> 0 | Some d \<Rightarrow> ritd_CachedTokens d);
              inputTokens = ru_InputTokens u - cachedTokens - ru_CacheCreationInputTokens u;
              inputTokens = (if inputTokens < 0 then 0 else inputTokens)
          in zeroAnthropicUsage
               \<lparr>au_InputTokens := inputTokens,
                au_OutputTokens := ru_OutputTokens u,
                au_CacheReadInputTokens := cachedTokens,
                au_CacheCreationInputTokens := ru_CacheCreationInputTokens u\<rparr>)"

definition containsAnthropicToolUseBlock :: "AnthropicContentBlock list \<Rightarrow> bool" where
  "containsAnthropicToolUseBlock blocks = (\<exists>b \<in> set blocks. acb_Type b = ''tool_use'')"

definition responsesStatusToAnthropicStopReason ::
  "string \<Rightarrow> ResponsesIncompleteDetails option \<Rightarrow> AnthropicContentBlock list \<Rightarrow> string" where
  "responsesStatusToAnthropicStopReason status details blocks =
     (if status = ''incomplete'' then
        (case details of
           Some d \<Rightarrow> if rid_Reason d = ''max_output_tokens'' then ''max_tokens'' else ''end_turn''
         | None \<Rightarrow> ''end_turn'')
      else if status = ''completed'' then
        (if containsAnthropicToolUseBlock blocks then ''tool_use'' else ''end_turn'')
      else ''end_turn'')"

text \<open>The body of the loop over \<open>resp.Output\<close>: the blocks one output item contributes.\<close>

definition summaryTextOf :: "ResponsesSummary list \<Rightarrow> string" where
  "summaryTextOf ss =
     concat (map rsm_Text (filter (\<lambda>s. rsm_Type s = ''summary_text'' \<and> rsm_Text s \<noteq> []) ss))"

definition anthropicBlocksOfItem :: "json_lib \<Rightarrow> ResponsesOutput \<Rightarrow> AnthropicContentBlock list" where
  "anthropicBlocksOfItem J item =
     (if ro_Type item = ''reasoning'' then
        (let summaryText = summaryTextOf (ro_Summary item)
         in if summaryText \<noteq> [] \<or> TrimSpace (ro_EncryptedContent item) \<noteq> []
            then [zeroAnthropicContentBlock
                    \<lparr>acb_Type := ''thinking'', acb_Thinking := summaryText,
                     acb_Signature := ro_EncryptedContent item\<rparr>]
            else [])
      else if ro_Type item = ''message'' then
        map (\<lambda>part. zeroAnthropicContentBlock\<lparr>acb_Type := ''text'', acb_Text := rcp_Text part\<rparr>)
            (filter (\<lambda>part. rcp_Type part = ''output_text'' \<and> rcp_Text part \<noteq> []) (ro_Content item))
      else if ro_Type item = ''function_call'' then
        [zeroAnthropicContentBlock
           \<lparr>acb_Type := ''tool_use'', acb_ID := fromResponsesCallID (ro_CallID item),
            acb_Name := ro_Name item,
            acb_Input := sanitizeAnthropicToolUseInput J (ro_Name item) (ro_Arguments item)\<rparr>]
      else if ro_Type item = ''web_search_call'' then
        (let toolUseID = ''srvtoolu_'' @ ro_ID item;
             query = (case ro_Action item of None \<Rightarrow> [] | Some a \<Rightarrow> wsa_Query a);
             inputJSON = json_MarshalStringMap J [''query'' \<mapsto> query]
         in [zeroAnthropicContentBlock
               \<lparr>acb_Type := ''server_tool_use'', acb_ID := toolUseID, acb_Name := ''web_search'',
                acb_Input := inputJSON\<rparr>,
             zeroAnthropicContentBlock
               \<lparr>acb_Type := ''web_search_tool_result'', acb_ToolUseID := toolUseID,
                acb_Content := ''[]''\<rparr>])
      else [])"

definition ResponsesToAnthropic :: "json_lib \<Rightarrow> ResponsesResponse \<Rightarrow> string \<Rightarrow> AnthropicResponse" where
  "ResponsesToAnthropic J resp model =
     (let blocks = concat (map (anthropicBlocksOfItem J) (rr_Output resp));
          blocks = (if blocks = []
                    then [zeroAnthropicContentBlock\<lparr>acb_Type := ''text'', acb_Text := []\<rparr>]
                    else blocks);
          out = zeroAnthropicResponse
                  \<lparr>ar_ID := rr_ID resp, ar_Type := ''message'', ar_Role := ''assistant'',
                   ar_Model := model, ar_Content := blocks,
                   ar_StopReason := AnthropicStopReasonPtr
                     (responsesStatusToAnthropicStopReason (rr_Status resp) (rr_IncompleteDetails resp)
                        blocks)\<rparr>
      in case rr_Usage resp of
           None \<Rightarrow> out
         | Some u \<Rightarrow> out\<lparr>ar_Usage := anthropicUsageFromResponsesUsage (Some u)\<rparr>)"

section \<open>The stream state\<close>

record ResponsesEventToAnthropicState =
  MessageStartSent :: bool
  MessageStopSent :: bool
  ContentBlockIndex :: int
  ContentBlockOpen :: bool
  CurrentBlockType :: string
  CurrentToolName :: string
  CurrentToolArgs :: string
  CurrentToolHadDelta :: bool
  PendingThinkingSignature :: string
  HasToolCall :: bool
  OutputIndexToBlockIdx :: "int \<rightharpoonup> int"
  st_InputTokens :: int
  st_OutputTokens :: int
  st_CacheReadInputTokens :: int
  st_CacheCreationInputTokens :: int
  st_ResponseID :: string
  st_Model :: string
  st_Created :: int

definition NewResponsesEventToAnthropicState :: "int \<Rightarrow> ResponsesEventToAnthropicState" where [state_defs]:
  "NewResponsesEventToAnthropicState now =
     \<lparr>MessageStartSent = False, MessageStopSent = False, ContentBlockIndex = 0,
      ContentBlockOpen = False, CurrentBlockType = [], CurrentToolName = [], CurrentToolArgs = [],
      CurrentToolHadDelta = False, PendingThinkingSignature = [], HasToolCall = False,
      OutputIndexToBlockIdx = Map.empty, st_InputTokens = 0, st_OutputTokens = 0,
      st_CacheReadInputTokens = 0, st_CacheCreationInputTokens = 0, st_ResponseID = [],
      st_Model = [], st_Created = now\<rparr>"

type_synonym r2a_result = "AnthropicStreamEvent list \<times> ResponsesEventToAnthropicState"

section \<open>Event constructors\<close>

text \<open>The composite literals that occur in several handlers.\<close>

definition blockStart :: "int \<Rightarrow> AnthropicContentBlock \<Rightarrow> AnthropicStreamEvent" where
  "blockStart idx block = zeroAnthropicStreamEvent
     \<lparr>ase_Type := ''content_block_start'', ase_Index := Some idx, ase_ContentBlock := Some block\<rparr>"

definition blockDelta :: "int \<Rightarrow> AnthropicDelta \<Rightarrow> AnthropicStreamEvent" where
  "blockDelta idx delta = zeroAnthropicStreamEvent
     \<lparr>ase_Type := ''content_block_delta'', ase_Index := Some idx, ase_Delta := Some delta\<rparr>"

definition blockStop :: "int \<Rightarrow> AnthropicStreamEvent" where
  "blockStop idx = zeroAnthropicStreamEvent
     \<lparr>ase_Type := ''content_block_stop'', ase_Index := Some idx\<rparr>"

definition inputJSONDelta :: "string \<Rightarrow> AnthropicDelta" where
  "inputJSONDelta s = zeroAnthropicDelta\<lparr>ad_Type := ''input_json_delta'', ad_PartialJSON := s\<rparr>"

text \<open>The closing pair \<open>message_delta\<close>, \<open>message_stop\<close> with the usage the state holds.\<close>

definition messageEnd :: "string \<Rightarrow> ResponsesEventToAnthropicState \<Rightarrow> AnthropicStreamEvent list" where
  "messageEnd stopReason state =
     [zeroAnthropicStreamEvent
        \<lparr>ase_Type := ''message_delta'',
         ase_Delta := Some (zeroAnthropicDelta\<lparr>ad_StopReason := stopReason\<rparr>),
         ase_Usage := Some (zeroAnthropicUsage
           \<lparr>au_InputTokens := st_InputTokens state,
            au_OutputTokens := st_OutputTokens state,
            au_CacheReadInputTokens := st_CacheReadInputTokens state,
            au_CacheCreationInputTokens := st_CacheCreationInputTokens state\<rparr>)\<rparr>,
      zeroAnthropicStreamEvent\<lparr>ase_Type := ''message_stop''\<rparr>]"

section \<open>Handlers\<close>

definition closeCurrentBlock :: "ResponsesEventToAnthropicState \<Rightarrow> r2a_result" where [handler_defs]:
  "closeCurrentBlock state =
     (if \<not> ContentBlockOpen state then ([], state)
      else
        let idx = ContentBlockIndex state;
            thinking = (CurrentBlockType state = ''thinking'');
            sig = TrimSpace (PendingThinkingSignature state);
            events = (if thinking \<and> sig \<noteq> []
                      then [blockDelta idx
                              (zeroAnthropicDelta\<lparr>ad_Type := ''signature_delta'', ad_Signature := sig\<rparr>)]
                      else []);
            state = (if thinking then state\<lparr>PendingThinkingSignature := []\<rparr> else state)
        in (events @ [blockStop idx],
            state\<lparr>ContentBlockOpen := False, ContentBlockIndex := idx + 1, CurrentToolName := [],
                  CurrentToolArgs := [], CurrentToolHadDelta := False\<rparr>))"

definition resToAnthHandleCreated ::
  "ResponsesStreamEvent \<Rightarrow> ResponsesEventToAnthropicState \<Rightarrow> r2a_result" where [handler_defs]:
  "resToAnthHandleCreated evt state =
     (let state = (case rse_Response evt of
            None \<Rightarrow> state
          | Some r \<Rightarrow> state\<lparr>st_ResponseID := rr_ID r,
                           st_Model := (if st_Model state = [] then rr_Model r else st_Model state)\<rparr>)
      in if MessageStartSent state then ([], state)
         else
           ([zeroAnthropicStreamEvent
               \<lparr>ase_Type := ''message_start'',
                ase_Message := Some (zeroAnthropicResponse
                  \<lparr>ar_ID := st_ResponseID state, ar_Type := ''message'', ar_Role := ''assistant'',
                   ar_Content := [], ar_Model := st_Model state, ar_StopReason := None\<rparr>)\<rparr>],
            state\<lparr>MessageStartSent := True\<rparr>))"

definition resToAnthHandleOutputItemAdded ::
  "ResponsesStreamEvent \<Rightarrow> ResponsesEventToAnthropicState \<Rightarrow> r2a_result" where [handler_defs]:
  "resToAnthHandleOutputItemAdded evt state =
     (case rse_Item evt of
        None \<Rightarrow> ([], state)
      | Some item \<Rightarrow>
          if ro_Type item = ''function_call'' \<or> ro_Type item = ''custom_tool_call'' then
            (let (events, state) = closeCurrentBlock state;
                 idx = ContentBlockIndex state
             in (events @ [blockStart idx (zeroAnthropicContentBlock
                   \<lparr>acb_Type := ''tool_use'', acb_ID := fromResponsesCallID (ro_CallID item),
                    acb_Name := ro_Name item, acb_Input := ''{}''\<rparr>)],
                 state\<lparr>OutputIndexToBlockIdx := (OutputIndexToBlockIdx state)(rse_OutputIndex evt \<mapsto> idx),
                       ContentBlockOpen := True, CurrentBlockType := ''tool_use'',
                       CurrentToolName := ro_Name item, CurrentToolArgs := [],
                       CurrentToolHadDelta := False, HasToolCall := True\<rparr>))
          else if ro_Type item = ''reasoning'' then
            (let (events, state) = closeCurrentBlock state;
                 idx = ContentBlockIndex state
             in (events @ [blockStart idx (zeroAnthropicContentBlock
                   \<lparr>acb_Type := ''thinking'', acb_Thinking := []\<rparr>)],
                 state\<lparr>OutputIndexToBlockIdx := (OutputIndexToBlockIdx state)(rse_OutputIndex evt \<mapsto> idx),
                       ContentBlockOpen := True, CurrentBlockType := ''thinking'',
                       PendingThinkingSignature := TrimSpace (ro_EncryptedContent item)\<rparr>))
          else ([], state))"

definition resToAnthHandleTextDelta ::
  "ResponsesStreamEvent \<Rightarrow> ResponsesEventToAnthropicState \<Rightarrow> r2a_result" where [handler_defs]:
  "resToAnthHandleTextDelta evt state =
     (if rse_Delta evt = [] then ([], state)
      else
        let (events, state) =
              (if \<not> ContentBlockOpen state \<or> CurrentBlockType state \<noteq> ''text'' then
                 let (events, state) = closeCurrentBlock state;
                     idx = ContentBlockIndex state
                 in (events @ [blockStart idx (zeroAnthropicContentBlock
                                 \<lparr>acb_Type := ''text'', acb_Text := []\<rparr>)],
                     state\<lparr>ContentBlockOpen := True, CurrentBlockType := ''text''\<rparr>)
               else ([], state))
        in (events @ [blockDelta (ContentBlockIndex state)
                        (zeroAnthropicDelta\<lparr>ad_Type := ''text_delta'', ad_Text := rse_Delta evt\<rparr>)],
            state))"

definition resToAnthHandleFuncArgsDelta ::
  "json_lib \<Rightarrow> ResponsesStreamEvent \<Rightarrow> ResponsesEventToAnthropicState \<Rightarrow> r2a_result" where [handler_defs]:
  "resToAnthHandleFuncArgsDelta J evt state =
     (if rse_Delta evt = [] then ([], state)
      else if CurrentBlockType state = ''tool_use'' \<and> CurrentToolName state = ''Read'' then
        (let state = state\<lparr>CurrentToolArgs := CurrentToolArgs state @ rse_Delta evt\<rparr>
         in if CurrentToolHadDelta state \<or> \<not> json_Valid J (CurrentToolArgs state) then ([], state)
            else case OutputIndexToBlockIdx state (rse_OutputIndex evt) of
                None \<Rightarrow> ([], state)
              | Some blockIdx \<Rightarrow>
                  let state = state\<lparr>CurrentToolHadDelta := True\<rparr>;
                      sanitized = sanitizeAnthropicToolUseInput J (CurrentToolName state)
                                    (CurrentToolArgs state)
                  in ([blockDelta blockIdx (inputJSONDelta sanitized)], state))
      else
        let state = (if CurrentBlockType state = ''tool_use''
                     then state\<lparr>CurrentToolHadDelta := True\<rparr> else state)
        in case OutputIndexToBlockIdx state (rse_OutputIndex evt) of
             None \<Rightarrow> ([], state)
           | Some blockIdx \<Rightarrow> ([blockDelta blockIdx (inputJSONDelta (rse_Delta evt))], state))"

definition resToAnthHandleBlockDone :: "ResponsesEventToAnthropicState \<Rightarrow> r2a_result" where [handler_defs]:
  "resToAnthHandleBlockDone state =
     (if \<not> ContentBlockOpen state then ([], state) else closeCurrentBlock state)"

definition resToAnthHandleFuncArgsDone ::
  "json_lib \<Rightarrow> ResponsesStreamEvent \<Rightarrow> ResponsesEventToAnthropicState \<Rightarrow> r2a_result" where [handler_defs]:
  "resToAnthHandleFuncArgsDone J evt state =
     (if \<not> ContentBlockOpen state then ([], state)
      else if CurrentBlockType state \<noteq> ''tool_use'' then resToAnthHandleBlockDone state
      else
        let raw = (if rse_Arguments evt = [] then CurrentToolArgs state else rse_Arguments evt)
        in if raw = [] \<or> CurrentToolHadDelta state then closeCurrentBlock state
           else
             let isRead = (CurrentToolName state = ''Read'');
                 sanitized = sanitizeAnthropicToolUseInput J (CurrentToolName state) raw
             in if isRead \<and> length sanitized = 0 then closeCurrentBlock state
                else
                  let raw = (if isRead then sanitized else raw);
                      blockIdx = (case OutputIndexToBlockIdx state (rse_OutputIndex evt) of
                                    None \<Rightarrow> ContentBlockIndex state | Some i \<Rightarrow> i)
                  in if \<not> ContentBlockOpen state \<or> blockIdx \<noteq> ContentBlockIndex state then ([], state)
                     else
                       let events = [blockDelta blockIdx (inputJSONDelta raw)];
                           (closing, state) = closeCurrentBlock state
                       in (events @ closing, state))"

definition resToAnthHandleReasoningDelta ::
  "ResponsesStreamEvent \<Rightarrow> ResponsesEventToAnthropicState \<Rightarrow> r2a_result" where [handler_defs]:
  "resToAnthHandleReasoningDelta evt state =
     (if rse_Delta evt = [] then ([], state)
      else case OutputIndexToBlockIdx state (rse_OutputIndex evt) of
          None \<Rightarrow> ([], state)
        | Some blockIdx \<Rightarrow>
            ([blockDelta blockIdx
                (zeroAnthropicDelta\<lparr>ad_Type := ''thinking_delta'', ad_Thinking := rse_Delta evt\<rparr>)],
             state))"

definition resToAnthHandleWebSearchDone ::
  "json_lib \<Rightarrow> ResponsesOutput \<Rightarrow> ResponsesEventToAnthropicState \<Rightarrow> r2a_result" where [handler_defs]:
  "resToAnthHandleWebSearchDone J item state =
     (let (events, state) = closeCurrentBlock state;
          toolUseID = ''srvtoolu_'' @ ro_ID item;
          query = (case ro_Action item of None \<Rightarrow> [] | Some a \<Rightarrow> wsa_Query a);
          inputJSON = json_MarshalStringMap J [''query'' \<mapsto> query];
          idx1 = ContentBlockIndex state;
          state = state\<lparr>ContentBlockIndex := idx1 + 1\<rparr>;
          idx2 = ContentBlockIndex state;
          state = state\<lparr>ContentBlockIndex := idx2 + 1\<rparr>
      in (events @
          [blockStart idx1 (zeroAnthropicContentBlock
             \<lparr>acb_Type := ''server_tool_use'', acb_ID := toolUseID, acb_Name := ''web_search'',
              acb_Input := inputJSON\<rparr>),
           blockStop idx1,
           blockStart idx2 (zeroAnthropicContentBlock
             \<lparr>acb_Type := ''web_search_tool_result'', acb_ToolUseID := toolUseID,
              acb_Content := ''[]''\<rparr>),
           blockStop idx2],
          state))"

definition resToAnthHandleOutputItemDone ::
  "json_lib \<Rightarrow> ResponsesStreamEvent \<Rightarrow> ResponsesEventToAnthropicState \<Rightarrow> r2a_result" where [handler_defs]:
  "resToAnthHandleOutputItemDone J evt state =
     (case rse_Item evt of
        None \<Rightarrow> ([], state)
      | Some item \<Rightarrow>
          if ro_Type item = ''web_search_call'' \<and> ro_Status item = ''completed''
          then resToAnthHandleWebSearchDone J item state
          else
            let sig = TrimSpace (ro_EncryptedContent item);
                state = (if ro_Type item = ''reasoning'' \<and> sig \<noteq> []
                         then state\<lparr>PendingThinkingSignature := sig\<rparr> else state)
            in if ContentBlockOpen state then closeCurrentBlock state else ([], state))"

definition setUsage :: "ResponsesUsage \<Rightarrow> ResponsesEventToAnthropicState \<Rightarrow> ResponsesEventToAnthropicState" where
  [handler_defs]:
  "setUsage u state =
     (let usage = anthropicUsageFromResponsesUsage (Some u)
      in state\<lparr>st_InputTokens := au_InputTokens usage, st_OutputTokens := au_OutputTokens usage,
               st_CacheReadInputTokens := au_CacheReadInputTokens usage,
               st_CacheCreationInputTokens := au_CacheCreationInputTokens usage\<rparr>)"

definition resToAnthHandleCompleted ::
  "ResponsesStreamEvent \<Rightarrow> ResponsesEventToAnthropicState \<Rightarrow> r2a_result" where [handler_defs]:
  "resToAnthHandleCompleted evt state =
     (if MessageStopSent state then ([], state)
      else
        let (events, state) = closeCurrentBlock state;
            state = (case rse_Usage evt of None \<Rightarrow> state | Some u \<Rightarrow> setUsage u state);
            state = (case rse_Response evt of
                None \<Rightarrow> state
              | Some r \<Rightarrow> (case rr_Usage r of None \<Rightarrow> state | Some u \<Rightarrow> setUsage u state));
            stopReason = (case rse_Response evt of
                None \<Rightarrow> ''end_turn''
              | Some r \<Rightarrow>
                  if rr_Status r = ''incomplete'' then
                    (case rr_IncompleteDetails r of
                       Some d \<Rightarrow> if rid_Reason d = ''max_output_tokens'' then ''max_tokens'' else ''end_turn''
                     | None \<Rightarrow> ''end_turn'')
                  else if rr_Status r = ''completed'' then
                    (if HasToolCall state then ''tool_use'' else ''end_turn'')
                  else ''end_turn'')
        in (events @ messageEnd stopReason state, state\<lparr>MessageStopSent := True\<rparr>))"

definition isResponsesTerminal :: "string \<Rightarrow> bool" where
  "isResponsesTerminal t \<longleftrightarrow>
     t \<in> {''response.completed'', ''response.done'', ''response.incomplete'', ''response.failed''}"

definition ResponsesEventToAnthropicEvents ::
  "json_lib \<Rightarrow> ResponsesStreamEvent \<Rightarrow> ResponsesEventToAnthropicState \<Rightarrow> r2a_result" where
  "ResponsesEventToAnthropicEvents J evt state =
     (let t = rse_Type evt
      in if t = ''response.created'' then resToAnthHandleCreated evt state
         else if t = ''response.output_item.added'' then resToAnthHandleOutputItemAdded evt state
         else if t = ''response.output_text.delta'' then resToAnthHandleTextDelta evt state
         else if t = ''response.output_text.done'' then resToAnthHandleBlockDone state
         else if t = ''response.function_call_arguments.delta''
               \<or> t = ''response.custom_tool_call_input.delta''
           then resToAnthHandleFuncArgsDelta J evt state
         else if t = ''response.function_call_arguments.done'' then resToAnthHandleFuncArgsDone J evt state
         else if t = ''response.output_item.done'' then resToAnthHandleOutputItemDone J evt state
         else if t = ''response.reasoning_summary_text.delta'' \<or> t = ''response.reasoning_text.delta''
           then resToAnthHandleReasoningDelta evt state
         else if t = ''response.reasoning_summary_text.done'' then ([], state)
         else if isResponsesTerminal t then resToAnthHandleCompleted evt state
         else ([], state))"

definition FinalizeResponsesAnthropicStream :: "ResponsesEventToAnthropicState \<Rightarrow> r2a_result" where
  [handler_defs]:
  "FinalizeResponsesAnthropicStream state =
     (if \<not> MessageStartSent state \<or> MessageStopSent state then ([], state)
      else
        let (events, state) = closeCurrentBlock state;
            stopReason = (if HasToolCall state then ''tool_use'' else ''end_turn'')
        in (events @ messageEnd stopReason state, state\<lparr>MessageStopSent := True\<rparr>))"

section \<open>The specification: well-formed Anthropic streams\<close>

text \<open>
  A client of the Messages API reads \<open>message_start\<close>, then content blocks numbered from 0, each
  opened, filled and stopped before the next one opens, then \<open>message_delta\<close> and
  \<open>message_stop\<close>.  \<open>Streaming n b\<close>: \<open>n\<close> blocks are complete and block \<open>n\<close> is open iff \<open>b\<close>.
  The protocol proper is \<open>anthSpec True\<close>: a delta names the open block.  \<open>anthSpec False\<close> also lets a
  delta name a block that has been stopped, which the translators emit when upstream returns to a
  call it has left.
\<close>

datatype anth_phase = NotStarted | Streaming int bool | Stopping | Stopped

definition anthSpec :: "bool \<Rightarrow> anth_phase \<Rightarrow> AnthropicStreamEvent \<Rightarrow> anth_phase option" where
  "anthSpec strict p e =
     (case p of
        NotStarted \<Rightarrow> if ase_Type e = ''message_start'' then Some (Streaming 0 False) else None
      | Streaming n opened \<Rightarrow>
          if ase_Type e = ''content_block_start'' then
            (if \<not> opened \<and> ase_Index e = Some n then Some (Streaming n True) else None)
          else if ase_Type e = ''content_block_delta'' then
            (case ase_Index e of
               Some i \<Rightarrow> if 0 \<le> i \<and> (\<not> strict \<and> i < n \<or> i = n \<and> opened) then Some p else None
             | None \<Rightarrow> None)
          else if ase_Type e = ''content_block_stop'' then
            (if opened \<and> ase_Index e = Some n then Some (Streaming (n + 1) False) else None)
          else if ase_Type e = ''message_delta'' then (if opened then None else Some Stopping)
          else None
      | Stopping \<Rightarrow> if ase_Type e = ''message_stop'' then Some Stopped else None
      | Stopped \<Rightarrow> None)"

definition r2aAbs :: "ResponsesEventToAnthropicState \<Rightarrow> anth_phase" where
  "r2aAbs s =
     (if MessageStopSent s then Stopped
      else if MessageStartSent s then Streaming (ContentBlockIndex s) (ContentBlockOpen s)
      else NotStarted)"

text \<open>Every output index the state remembers belongs to a block that has been started.\<close>

definition idxInv :: "ResponsesEventToAnthropicState \<Rightarrow> bool" where
  "idxInv s \<longleftrightarrow> 0 \<le> ContentBlockIndex s \<and>
     (\<forall>oi i. OutputIndexToBlockIdx s oi = Some i \<longrightarrow>
        0 \<le> i \<and> (i < ContentBlockIndex s \<or> i = ContentBlockIndex s \<and> ContentBlockOpen s))"

definition streamingInv :: "ResponsesEventToAnthropicState \<Rightarrow> bool" where
  "streamingInv s \<longleftrightarrow> idxInv s \<and> MessageStartSent s \<and> \<not> MessageStopSent s"

lemma anthSpec_events [simp]:
  "anthSpec strict (Streaming n opened) (blockStart i b) =
     (if \<not> opened \<and> i = n then Some (Streaming n True) else None)"
  "anthSpec strict (Streaming n opened) (blockDelta i d) =
     (if 0 \<le> i \<and> (\<not> strict \<and> i < n \<or> i = n \<and> opened) then Some (Streaming n opened) else None)"
  "anthSpec strict (Streaming n opened) (blockStop i) =
     (if opened \<and> i = n then Some (Streaming (n + 1) False) else None)"
  by (simp_all add: anthSpec_def blockStart_def blockDelta_def blockStop_def
        zeroAnthropicStreamEvent_def)

lemma accepts_messageEnd [simp]:
  "accepts_from (anthSpec strict) (Streaming n False) (messageEnd r s) = Some Stopped"
  by (simp add: anthSpec_def messageEnd_def zeroAnthropicStreamEvent_def)

section \<open>Closing the open block\<close>

lemma closeCurrentBlock_state [simp]:
  "ContentBlockOpen (snd (closeCurrentBlock s)) = False"
  "ContentBlockIndex (snd (closeCurrentBlock s)) = ContentBlockIndex s + of_bool (ContentBlockOpen s)"
  "MessageStartSent (snd (closeCurrentBlock s)) = MessageStartSent s"
  "MessageStopSent (snd (closeCurrentBlock s)) = MessageStopSent s"
  "OutputIndexToBlockIdx (snd (closeCurrentBlock s)) = OutputIndexToBlockIdx s"
  "HasToolCall (snd (closeCurrentBlock s)) = HasToolCall s"
  "st_Model (snd (closeCurrentBlock s)) = st_Model s"
  by (simp_all add: closeCurrentBlock_def Let_def)

lemma closeCurrentBlock_closed [simp]: "\<not> ContentBlockOpen s \<Longrightarrow> closeCurrentBlock s = ([], s)"
  by (simp add: closeCurrentBlock_def)

lemma closeCurrentBlock_accepts:
  "0 \<le> ContentBlockIndex s \<Longrightarrow>
   accepts_from (anthSpec strict) (Streaming (ContentBlockIndex s) (ContentBlockOpen s)) (fst (closeCurrentBlock s))
     = Some (Streaming (ContentBlockIndex s + of_bool (ContentBlockOpen s)) False)"
  by (cases "ContentBlockOpen s") (simp_all add: closeCurrentBlock_def Let_def)

lemma closeCurrentBlock_idxInv: "idxInv s \<Longrightarrow> idxInv (snd (closeCurrentBlock s))"
  by (cases "ContentBlockOpen s") (force simp: idxInv_def)+

section \<open>Each handler refines the specification\<close>

definition refines :: "bool \<Rightarrow> ResponsesEventToAnthropicState \<Rightarrow> r2a_result \<Rightarrow> bool" where
  "refines strict s r \<longleftrightarrow> streamingInv (snd r) \<and>
     accepts_from (anthSpec strict) (r2aAbs s) (fst r) = Some (r2aAbs (snd r))"

lemma refines_silent: "streamingInv s' \<Longrightarrow> r2aAbs s' = r2aAbs s \<Longrightarrow> refines strict s ([], s')"
  by (simp add: refines_def)

lemma streamingInv_abs:
  "streamingInv s \<Longrightarrow> r2aAbs s = Streaming (ContentBlockIndex s) (ContentBlockOpen s)"
  by (simp add: streamingInv_def r2aAbs_def)

lemma closeCurrentBlock_refines: "streamingInv s \<Longrightarrow> refines strict s (closeCurrentBlock s)"
  unfolding refines_def streamingInv_def
  using closeCurrentBlock_idxInv [of s] closeCurrentBlock_accepts [of s]
  by (simp add: r2aAbs_def idxInv_def)

lemma refines_append:
  assumes "refines strict s (xs, s')" and "refines strict s' (ys, s'')"
  shows "refines strict s (xs @ ys, s'')"
  using assms by (simp add: refines_def accepts_from_append)

text \<open>Opening a block when none is open, and emitting a delta for a block that was started.\<close>

lemma open_refines:
  assumes "streamingInv s" and "\<not> ContentBlockOpen s" and "MessageStartSent s'"
    and "\<not> MessageStopSent s'" and "ContentBlockIndex s' = ContentBlockIndex s" and "ContentBlockOpen s'"
    and "OutputIndexToBlockIdx s' = OutputIndexToBlockIdx s \<or>
         OutputIndexToBlockIdx s' = (OutputIndexToBlockIdx s)(oi \<mapsto> ContentBlockIndex s)"
  shows "refines strict s ([blockStart (ContentBlockIndex s) b], s')"
  using assms by (auto simp: refines_def streamingInv_def r2aAbs_def idxInv_def split: if_splits)

lemma delta_refines:
  assumes "streamingInv s" and "0 \<le> i"
    and "\<not> strict \<and> i < ContentBlockIndex s \<or> i = ContentBlockIndex s \<and> ContentBlockOpen s"
    and "streamingInv s'" and "r2aAbs s' = r2aAbs s"
  shows "refines strict s ([blockDelta i d], s')"
  using assms by (auto simp: refines_def streamingInv_abs)

text \<open>An increment for an item comes in time while the block of the item is open.\<close>

definition inTime :: "int \<Rightarrow> ResponsesEventToAnthropicState \<Rightarrow> bool" where
  "inTime oi s \<longleftrightarrow> (\<forall>i. OutputIndexToBlockIdx s oi = Some i \<longrightarrow> i = ContentBlockIndex s \<and> ContentBlockOpen s)"

lemma mapped_delta_refines:
  assumes "streamingInv s" and "OutputIndexToBlockIdx s oi = Some i" and "strict \<longrightarrow> inTime oi s"
    and "streamingInv s'" and "r2aAbs s' = r2aAbs s"
  shows "refines strict s ([blockDelta i d], s')"
  using assms by (intro delta_refines) (auto simp: streamingInv_def idxInv_def inTime_def)

lemma created_refines: "streamingInv s \<Longrightarrow> refines strict s (resToAnthHandleCreated evt s)"
  by (auto simp: resToAnthHandleCreated_def refines_def streamingInv_def idxInv_def r2aAbs_def
      split: option.splits)

lemma close_then_open_refines:
  assumes "streamingInv s" and "closeCurrentBlock s = (ev, t)"
    and "MessageStartSent s'" and "\<not> MessageStopSent s'"
    and "ContentBlockIndex s' = ContentBlockIndex t" and "ContentBlockOpen s'"
    and "OutputIndexToBlockIdx s' = OutputIndexToBlockIdx t \<or>
         OutputIndexToBlockIdx s' = (OutputIndexToBlockIdx t)(oi \<mapsto> ContentBlockIndex t)"
  shows "refines strict s (ev @ [blockStart (ContentBlockIndex t) b], s')"
proof -
  have *: "refines strict s (ev, t)"
    using closeCurrentBlock_refines [OF assms(1)] assms(2) by simp
  then have "streamingInv t" by (simp add: refines_def)
  moreover have "\<not> ContentBlockOpen t"
    using closeCurrentBlock_state(1) [of s] assms(2) by simp
  ultimately have "refines strict t ([blockStart (ContentBlockIndex t) b], s')"
    using assms(3-) by (intro open_refines)
  with * show ?thesis by (rule refines_append)
qed

lemma outputItemAdded_refines:
  assumes "streamingInv s"
  shows "refines strict s (resToAnthHandleOutputItemAdded evt s)"
proof -
  obtain ev t where t: "closeCurrentBlock s = (ev, t)" by fastforce
  then have "MessageStartSent t" and "\<not> MessageStopSent t"
    using assms closeCurrentBlock_state(3,4) [of s] by (auto simp: streamingInv_def)
  with assms t show ?thesis
    by (auto simp: resToAnthHandleOutputItemAdded_def Let_def
        intro!: close_then_open_refines [where oi = "rse_OutputIndex evt"] refines_silent
        split: option.splits)
qed

lemma textDelta_refines:
  assumes "streamingInv s"
  shows "refines strict s (resToAnthHandleTextDelta evt s)"
proof -
  let ?d = "zeroAnthropicDelta\<lparr>ad_Type := ''text_delta'', ad_Text := rse_Delta evt\<rparr>"
  show ?thesis
  proof (cases "rse_Delta evt = [] \<or> (ContentBlockOpen s \<and> CurrentBlockType s = ''text'')")
    case True
    with assms show ?thesis
      by (auto simp: resToAnthHandleTextDelta_def
          intro!: refines_silent delta_refines simp: streamingInv_def idxInv_def)
  next
    case False
    obtain ev t where t: "closeCurrentBlock s = (ev, t)" by fastforce
    let ?s' = "t\<lparr>ContentBlockOpen := True, CurrentBlockType := ''text''\<rparr>"
    have "refines strict s (ev @ [blockStart (ContentBlockIndex t)
              (zeroAnthropicContentBlock\<lparr>acb_Type := ''text'', acb_Text := []\<rparr>)], ?s')"
      using assms t closeCurrentBlock_state(3,4) [of s]
      by (intro close_then_open_refines) (auto simp: streamingInv_def)
    moreover from this have "refines strict ?s' ([blockDelta (ContentBlockIndex t) ?d], ?s')"
      by (intro delta_refines) (auto simp: refines_def streamingInv_def idxInv_def)
    ultimately have "refines strict s ((ev @ [blockStart (ContentBlockIndex t)
              (zeroAnthropicContentBlock\<lparr>acb_Type := ''text'', acb_Text := []\<rparr>)]) @
              [blockDelta (ContentBlockIndex t) ?d], ?s')"
      by (rule refines_append)
    with False t show ?thesis
      by (simp add: resToAnthHandleTextDelta_def Let_def)
  qed
qed

lemma funcArgsDelta_refines:
  "streamingInv s \<Longrightarrow> strict \<and> rse_Delta evt \<noteq> [] \<longrightarrow> inTime (rse_OutputIndex evt) s \<Longrightarrow>
   refines strict s (resToAnthHandleFuncArgsDelta J evt s)"
  by (auto simp: resToAnthHandleFuncArgsDelta_def Let_def
      intro!: refines_silent mapped_delta_refines simp: streamingInv_def idxInv_def r2aAbs_def inTime_def
      split: option.splits)

lemma blockDone_refines: "streamingInv s \<Longrightarrow> refines strict s (resToAnthHandleBlockDone s)"
  by (simp add: resToAnthHandleBlockDone_def closeCurrentBlock_refines refines_silent)

lemma delta_then_close_refines:
  assumes "streamingInv s" and "ContentBlockOpen s"
  shows "refines strict s (blockDelta (ContentBlockIndex s) d # fst (closeCurrentBlock s),
                    snd (closeCurrentBlock s))"
proof -
  have "refines strict s ([blockDelta (ContentBlockIndex s) d], s)"
    using assms by (intro delta_refines) (auto simp: streamingInv_def idxInv_def)
  from refines_append [OF this, of "fst (closeCurrentBlock s)" "snd (closeCurrentBlock s)"]
  show ?thesis
    using closeCurrentBlock_refines [OF assms(1)] by simp
qed

lemma funcArgsDone_refines: "streamingInv s \<Longrightarrow> refines strict s (resToAnthHandleFuncArgsDone J evt s)"
  by (auto simp: resToAnthHandleFuncArgsDone_def Let_def case_prod_unfold
      intro: refines_silent blockDone_refines closeCurrentBlock_refines delta_then_close_refines
      split: option.splits)

lemma reasoningDelta_refines:
  "streamingInv s \<Longrightarrow> strict \<and> rse_Delta evt \<noteq> [] \<longrightarrow> inTime (rse_OutputIndex evt) s \<Longrightarrow>
   refines strict s (resToAnthHandleReasoningDelta evt s)"
  by (auto simp: resToAnthHandleReasoningDelta_def
      intro: refines_silent mapped_delta_refines split: option.splits)

lemma webSearchDone_refines:
  assumes "streamingInv s"
  shows "refines strict s (resToAnthHandleWebSearchDone J item s)"
  using assms closeCurrentBlock_refines [OF assms] closeCurrentBlock_state(1) [of s]
  by (force simp: resToAnthHandleWebSearchDone_def Let_def case_prod_unfold refines_def
      accepts_from_append streamingInv_def r2aAbs_def idxInv_def)

lemma outputItemDone_refines: "streamingInv s \<Longrightarrow> refines strict s (resToAnthHandleOutputItemDone J evt s)"
proof -
  assume s: "streamingInv s"
  have *: "refines strict s (closeCurrentBlock t)" if "t = s\<lparr>PendingThinkingSignature := g\<rparr>" for t g
  proof -
    have "streamingInv t" and "r2aAbs t = r2aAbs s"
      using s that by (simp_all add: streamingInv_def idxInv_def r2aAbs_def)
    with closeCurrentBlock_refines [of t] show ?thesis by (simp add: refines_def)
  qed
  have **: "refines strict s ([], s\<lparr>PendingThinkingSignature := g\<rparr>)" for g
    using s by (intro refines_silent) (simp_all add: streamingInv_def idxInv_def r2aAbs_def)
  show ?thesis
    using s * [OF refl] **
    by (auto simp: resToAnthHandleOutputItemDone_def Let_def
        intro: webSearchDone_refines closeCurrentBlock_refines refines_silent split: option.splits)
qed

text \<open>The increments of a call or of a reasoning item.\<close>

definition isIncrement :: "ResponsesStreamEvent \<Rightarrow> bool" where
  "isIncrement evt \<longleftrightarrow> rse_Delta evt \<noteq> [] \<and>
     rse_Type evt \<in> {''response.function_call_arguments.delta'', ''response.custom_tool_call_input.delta'',
       ''response.reasoning_summary_text.delta'', ''response.reasoning_text.delta''}"

lemma event_refines:
  assumes "streamingInv s" and "\<not> isResponsesTerminal (rse_Type evt)"
    and "strict \<and> isIncrement evt \<longrightarrow> inTime (rse_OutputIndex evt) s"
  shows "refines strict s (ResponsesEventToAnthropicEvents J evt s)"
  using assms unfolding ResponsesEventToAnthropicEvents_def Let_def
  by (simp add: created_refines outputItemAdded_refines textDelta_refines blockDone_refines
      funcArgsDelta_refines funcArgsDone_refines outputItemDone_refines reasoningDelta_refines
      refines_silent isIncrement_def)

interpretation r2a: stream_refinement "ResponsesEventToAnthropicEvents J" streamingInv
    "\<lambda>e. \<not> isResponsesTerminal (rse_Type e)" "anthSpec False" r2aAbs for J
  by unfold_locales (use event_refines in \<open>auto simp: refines_def\<close>)

section \<open>Upstreams that do not return to an item they have left\<close>

text \<open>
  The order of the Responses API: after the announcement of a call or a reasoning item come its
  increments, before upstream ends it or goes on to text or to another item.  The state of the order
  is the set of the announced items and the item that may still receive increments.
\<close>

type_synonym item_order = "int set \<times> int option"

definition announcesItem :: "ResponsesStreamEvent \<Rightarrow> bool" where
  "announcesItem evt \<longleftrightarrow> rse_Type evt = ''response.output_item.added'' \<and>
     (\<exists>item. rse_Item evt = Some item \<and>
        ro_Type item \<in> {''function_call'', ''custom_tool_call'', ''reasoning''})"

definition leavesItem :: "ResponsesStreamEvent \<Rightarrow> bool" where
  "leavesItem evt \<longleftrightarrow>
     rse_Type evt = ''response.output_text.delta'' \<and> rse_Delta evt \<noteq> [] \<or>
     rse_Type evt \<in> {''response.output_text.done'', ''response.function_call_arguments.done'',
       ''response.output_item.done''}"

definition itemOrder :: "item_order \<Rightarrow> ResponsesStreamEvent \<Rightarrow> item_order option" where
  "itemOrder m evt =
     (let (announced, current) = m; oi = rse_OutputIndex evt
      in if isResponsesTerminal (rse_Type evt) then None
         else if announcesItem evt then Some (insert oi announced, Some oi)
         else if leavesItem evt then Some (announced, None)
         else if isIncrement evt \<and> oi \<in> announced \<and> current \<noteq> Some oi then None
         else Some m)"

definition itemLink :: "item_order \<Rightarrow> ResponsesEventToAnthropicState \<Rightarrow> bool" where
  "itemLink m s \<longleftrightarrow> streamingInv s \<and> dom (OutputIndexToBlockIdx s) \<subseteq> fst m \<and>
     (\<forall>oi. snd m = Some oi \<longrightarrow>
        OutputIndexToBlockIdx s oi = Some (ContentBlockIndex s) \<and> ContentBlockOpen s)"

lemma itemLink_inTime:
  "itemLink m s \<Longrightarrow> itemOrder m evt = Some m' \<Longrightarrow> isIncrement evt \<Longrightarrow> inTime (rse_OutputIndex evt) s"
  by (auto simp: itemOrder_def itemLink_def inTime_def Let_def announcesItem_def leavesItem_def
      isIncrement_def dom_def split: if_splits prod.splits)

lemma announced_step:
  assumes "announcesItem evt" and "s' = snd (ResponsesEventToAnthropicEvents J evt s)"
  shows "OutputIndexToBlockIdx s' = (OutputIndexToBlockIdx s)(rse_OutputIndex evt \<mapsto> ContentBlockIndex s') \<and>
    ContentBlockOpen s'"
  using assms by (auto simp: announcesItem_def ResponsesEventToAnthropicEvents_def Let_def
      resToAnthHandleOutputItemAdded_def case_prod_unfold)

lemma leaving_map [simp]:
  "OutputIndexToBlockIdx (snd (resToAnthHandleTextDelta evt s)) = OutputIndexToBlockIdx s"
  "OutputIndexToBlockIdx (snd (resToAnthHandleBlockDone s)) = OutputIndexToBlockIdx s"
  "OutputIndexToBlockIdx (snd (resToAnthHandleFuncArgsDone J evt s)) = OutputIndexToBlockIdx s"
  "OutputIndexToBlockIdx (snd (resToAnthHandleWebSearchDone J item s)) = OutputIndexToBlockIdx s"
  "OutputIndexToBlockIdx (snd (resToAnthHandleOutputItemDone J evt s)) = OutputIndexToBlockIdx s"
proof -
  show "OutputIndexToBlockIdx (snd (resToAnthHandleTextDelta evt s)) = OutputIndexToBlockIdx s"
    by (simp add: resToAnthHandleTextDelta_def Let_def case_prod_unfold)
  show 1: "OutputIndexToBlockIdx (snd (resToAnthHandleBlockDone s)) = OutputIndexToBlockIdx s"
    by (simp add: resToAnthHandleBlockDone_def)
  show "OutputIndexToBlockIdx (snd (resToAnthHandleFuncArgsDone J evt s)) = OutputIndexToBlockIdx s"
    by (simp add: resToAnthHandleFuncArgsDone_def Let_def case_prod_unfold 1)
  show 2: "OutputIndexToBlockIdx (snd (resToAnthHandleWebSearchDone J item s)) = OutputIndexToBlockIdx s" for item
    by (simp add: resToAnthHandleWebSearchDone_def Let_def case_prod_unfold)
  show "OutputIndexToBlockIdx (snd (resToAnthHandleOutputItemDone J evt s)) = OutputIndexToBlockIdx s"
    by (simp add: resToAnthHandleOutputItemDone_def Let_def case_prod_unfold 2 split: option.split)
qed

lemma left_step:
  assumes "leavesItem evt"
  shows "OutputIndexToBlockIdx (snd (ResponsesEventToAnthropicEvents J evt s)) = OutputIndexToBlockIdx s"
proof -
  consider "rse_Type evt = ''response.output_text.delta''" | "rse_Type evt = ''response.output_text.done''"
    | "rse_Type evt = ''response.function_call_arguments.done''" | "rse_Type evt = ''response.output_item.done''"
    using assms by (auto simp: leavesItem_def)
  then show ?thesis
    by cases (simp_all add: ResponsesEventToAnthropicEvents_def)
qed

text \<open>Every other event leaves the blocks alone.\<close>

definition sameBlocks :: "ResponsesEventToAnthropicState \<Rightarrow> ResponsesEventToAnthropicState \<Rightarrow> bool" where
  "sameBlocks s s' \<longleftrightarrow> OutputIndexToBlockIdx s' = OutputIndexToBlockIdx s \<and>
     ContentBlockIndex s' = ContentBlockIndex s \<and> ContentBlockOpen s' = ContentBlockOpen s"

lemma sameBlocks_handlers:
  "sameBlocks s (snd (resToAnthHandleCreated evt s))"
  "rse_Delta evt = [] \<Longrightarrow> sameBlocks s (snd (resToAnthHandleTextDelta evt s))"
  "sameBlocks s (snd (resToAnthHandleFuncArgsDelta J evt s))"
  "sameBlocks s (snd (resToAnthHandleReasoningDelta evt s))"
  "rse_Type evt = ''response.output_item.added'' \<Longrightarrow> \<not> announcesItem evt \<Longrightarrow>
     sameBlocks s (snd (resToAnthHandleOutputItemAdded evt s))"
  "sameBlocks s s"
  by (simp_all add: sameBlocks_def resToAnthHandleCreated_def resToAnthHandleTextDelta_def
      resToAnthHandleFuncArgsDelta_def resToAnthHandleReasoningDelta_def Let_def
      resToAnthHandleOutputItemAdded_def announcesItem_def split: option.split)

lemma other_step:
  assumes "\<not> leavesItem evt" and "\<not> announcesItem evt" and "\<not> isResponsesTerminal (rse_Type evt)"
  shows "sameBlocks s (snd (ResponsesEventToAnthropicEvents J evt s))"
proof -
  have "rse_Type evt = ''response.output_text.delta'' \<Longrightarrow> rse_Delta evt = []"
    and "rse_Type evt \<noteq> ''response.output_text.done''"
    and "rse_Type evt \<noteq> ''response.function_call_arguments.done''"
    and "rse_Type evt \<noteq> ''response.output_item.done''"
    using assms(1) by (auto simp: leavesItem_def)
  with assms(2,3) show ?thesis
    unfolding ResponsesEventToAnthropicEvents_def Let_def
    by (simp add: sameBlocks_handlers)
qed

lemma ordered_refines:
  assumes "itemLink m s" and "itemOrder m evt = Some m'"
  shows "refines True s (ResponsesEventToAnthropicEvents J evt s)"
proof (rule event_refines)
  show "streamingInv s" using assms(1) by (simp add: itemLink_def)
  show "\<not> isResponsesTerminal (rse_Type evt)"
    using assms(2) by (auto simp: itemOrder_def Let_def split: if_splits prod.splits)
qed (use itemLink_inTime [OF assms] in simp)

lemma ordered_link:
  assumes "itemLink m s" and "itemOrder m evt = Some m'"
  shows "itemLink m' (snd (ResponsesEventToAnthropicEvents J evt s))"
proof -
  let ?s' = "snd (ResponsesEventToAnthropicEvents J evt s)"
  have inv: "streamingInv ?s'"
    using ordered_refines [OF assms] by (simp add: refines_def)
  have live: "\<not> isResponsesTerminal (rse_Type evt)"
    using assms(2) by (auto simp: itemOrder_def Let_def split: if_splits prod.splits)
  consider (announced) "announcesItem evt" | (left) "\<not> announcesItem evt" "leavesItem evt"
    | (other) "\<not> announcesItem evt" "\<not> leavesItem evt" by blast
  then show ?thesis
  proof cases
    case announced
    then have "m' = (insert (rse_OutputIndex evt) (fst m), Some (rse_OutputIndex evt))"
      using assms(2) live by (auto simp: itemOrder_def Let_def split: prod.splits)
    with announced_step [OF announced refl] inv assms(1) show ?thesis
      by (auto simp: itemLink_def)
  next
    case left
    then have "m' = (fst m, None)"
      using assms(2) live by (auto simp: itemOrder_def Let_def split: prod.splits)
    with left_step [OF left(2)] inv assms(1) show ?thesis
      by (simp add: itemLink_def)
  next
    case other
    then have "m' = m"
      using assms(2) by (auto simp: itemOrder_def Let_def split: prod.splits if_splits)
    with other_step [OF other(2,1) live] inv assms(1) show ?thesis
      by (simp add: itemLink_def sameBlocks_def)
  qed
qed

interpretation r2aOrdered: ordered_refinement "ResponsesEventToAnthropicEvents J" itemOrder itemLink
    "anthSpec True" r2aAbs for J
  by unfold_locales (use ordered_refines ordered_link in \<open>auto simp: refines_def\<close>)

section \<open>Whole streams\<close>

text \<open>
  What a caller of the translator writes to its client: the translation of each upstream event,
  then, when the upstream has closed, the finaliser's events.
\<close>

definition translateStream ::
  "json_lib \<Rightarrow> int \<Rightarrow> ResponsesStreamEvent list \<Rightarrow> AnthropicStreamEvent list" where
  "translateStream J now es =
     (let (out, s) = run_machine (ResponsesEventToAnthropicEvents J) es
                       (NewResponsesEventToAnthropicState now);
          (out', s') = FinalizeResponsesAnthropicStream s
      in out @ out')"

lemma finalize_accepts:
  assumes "streamingInv s"
  shows "accepts_from (anthSpec strict) (r2aAbs s) (fst (FinalizeResponsesAnthropicStream s)) = Some Stopped"
    and "MessageStopSent (snd (FinalizeResponsesAnthropicStream s))"
  using closeCurrentBlock_refines [OF assms, of strict] assms closeCurrentBlock_state [of s]
  by (auto simp: FinalizeResponsesAnthropicStream_def Let_def case_prod_unfold refines_def
      streamingInv_def accepts_from_append r2aAbs_def simp del: closeCurrentBlock_state)

lemma setUsage_frame [simp]:
  "MessageStopSent (setUsage u s) = MessageStopSent s"
  "MessageStartSent (setUsage u s) = MessageStartSent s"
  "HasToolCall (setUsage u s) = HasToolCall s"
  by (simp_all add: setUsage_def Let_def)

lemma completed_accepts:
  assumes "streamingInv s"
  shows "accepts_from (anthSpec strict) (r2aAbs s) (fst (resToAnthHandleCompleted evt s)) = Some Stopped"
    and "MessageStopSent (snd (resToAnthHandleCompleted evt s))"
  using closeCurrentBlock_refines [OF assms, of strict] assms closeCurrentBlock_state [of s]
  by (auto simp: resToAnthHandleCompleted_def Let_def case_prod_unfold refines_def
      streamingInv_def accepts_from_append r2aAbs_def simp del: closeCurrentBlock_state)

lemma first_created:
  assumes "rse_Type c = ''response.created''"
  shows "streamingInv (snd (ResponsesEventToAnthropicEvents J c (NewResponsesEventToAnthropicState now)))"
    and "accepts_from (anthSpec strict) NotStarted
           (fst (ResponsesEventToAnthropicEvents J c (NewResponsesEventToAnthropicState now)))
         = Some (r2aAbs (snd (ResponsesEventToAnthropicEvents J c (NewResponsesEventToAnthropicState now))))"
  using assms
  by (auto simp: ResponsesEventToAnthropicEvents_def resToAnthHandleCreated_def
      NewResponsesEventToAnthropicState_def streamingInv_def idxInv_def r2aAbs_def anthSpec_def
      zeroAnthropicStreamEvent_def split: option.splits)

lemma first_created_itemLink:
  assumes "rse_Type c = ''response.created''"
  shows "itemLink ({}, None) (snd (ResponsesEventToAnthropicEvents J c (NewResponsesEventToAnthropicState now)))"
  using first_created(1) [OF assms, of J now] assms
  by (auto simp: itemLink_def ResponsesEventToAnthropicEvents_def resToAnthHandleCreated_def
      NewResponsesEventToAnthropicState_def split: option.splits)

lemma run_created_body:
  assumes "rse_Type c = ''response.created''" and "\<forall>e \<in> set body. \<not> isResponsesTerminal (rse_Type e)"
    and "strict \<longrightarrow> accepts_from itemOrder ({}, None) body \<noteq> None"
    and "m = run_machine (ResponsesEventToAnthropicEvents J) (c # body)
                 (NewResponsesEventToAnthropicState now)"
  shows "streamingInv (snd m)"
    and "accepts_from (anthSpec strict) NotStarted (fst m) = Some (r2aAbs (snd m))"
proof -
  let ?s = "snd (ResponsesEventToAnthropicEvents J c (NewResponsesEventToAnthropicState now))"
  let ?r = "run_machine (ResponsesEventToAnthropicEvents J) body ?s"
  note first = first_created [OF assms(1), where J = J and now = now]
  from r2a.run_inv [OF first(1) assms(2)] show "streamingInv (snd m)"
    by (simp add: assms(4))
  have "accepts_from (anthSpec strict) (r2aAbs ?s) (fst ?r) = Some (r2aAbs (snd ?r))"
  proof (cases strict)
    case False
    with r2a.run_sim [OF first(1) assms(2)] show ?thesis by simp
  next
    case True
    then obtain m' where "accepts_from itemOrder ({}, None) body = Some m'" using assms(3) by blast
    with True r2aOrdered.run_accepted [OF first_created_itemLink [OF assms(1)]] show ?thesis by simp
  qed
  with first(2) show "accepts_from (anthSpec strict) NotStarted (fst m) = Some (r2aAbs (snd m))"
    by (simp add: assms(4) accepts_from_append)
qed

lemma translateStream_accepted:
  assumes "rse_Type c = ''response.created''"
    and "\<forall>e \<in> set body. \<not> isResponsesTerminal (rse_Type e)"
    and "tail = [] \<or> (\<exists>t. tail = [t] \<and> isResponsesTerminal (rse_Type t))"
    and "strict \<longrightarrow> accepts_from itemOrder ({}, None) body \<noteq> None"
  shows "accepts_from (anthSpec strict) NotStarted (translateStream J now (c # body @ tail)) = Some Stopped"
proof -
  obtain m where m_eq: "m = run_machine (ResponsesEventToAnthropicEvents J) (c # body)
      (NewResponsesEventToAnthropicState now)" by blast
  note m = run_created_body [OF assms(1,2,4) m_eq]
  from assms(3) show ?thesis
  proof (elim disjE exE conjE)
    assume "tail = []"
    then have "translateStream J now (c # body @ tail) = fst m @ fst (FinalizeResponsesAnthropicStream (snd m))"
      by (simp add: translateStream_def Let_def case_prod_unfold m_eq del: run_machine_Cons)
    with m finalize_accepts [OF m(1)] show ?thesis
      by (simp add: accepts_from_append)
  next
    fix t assume t: "tail = [t]" "isResponsesTerminal (rse_Type t)"
    let ?r = "resToAnthHandleCompleted t (snd m)"
    have step: "ResponsesEventToAnthropicEvents J t (snd m) = ?r"
      using t(2) by (auto simp: ResponsesEventToAnthropicEvents_def isResponsesTerminal_def)
    have run: "run_machine (ResponsesEventToAnthropicEvents J) (c # body @ tail)
        (NewResponsesEventToAnthropicState now) = (fst m @ fst ?r, snd ?r)"
      using run_machine_append [of "ResponsesEventToAnthropicEvents J" "c # body" "[t]"]
      by (simp add: t(1) case_prod_unfold Let_def step run_machine.simps(2) [of _ t]
          flip: m_eq del: run_machine_Cons)
    have "fst (FinalizeResponsesAnthropicStream (snd ?r)) = []"
      using completed_accepts(2) [OF m(1), of t] by (simp add: FinalizeResponsesAnthropicStream_def)
    with m(2) completed_accepts(1) [OF m(1), of strict t] show ?thesis
      unfolding translateStream_def run by (simp add: Let_def case_prod_unfold accepts_from_append)
  qed
qed

text \<open>
  C35: for any upstream stream that begins with \<open>response.created\<close> and contains at most one
  terminal event, which is then its last, the events written to the Anthropic client form exactly
  one message stream: one \<open>message_start\<close>, content blocks numbered consecutively from 0, each opened
  and stopped before the next opens, every delta naming a block that was started, then
  \<open>message_delta\<close> and \<open>message_stop\<close> once.  When upstream moreover sends no increment for an
  announced call or reasoning item after it has ended it or gone on to text or to another item
  (\<open>itemOrder\<close>), the stream is well formed in the full sense: every delta names the block that is
  open.  This holds whether the upstream ends with its terminal event or breaks off, in which case
  the finaliser closes the message.
\<close>

theorem translateStream_wellformed:
  assumes "rse_Type c = ''response.created''"
    and "\<forall>e \<in> set body. \<not> isResponsesTerminal (rse_Type e)"
    and "tail = [] \<or> (\<exists>t. tail = [t] \<and> isResponsesTerminal (rse_Type t))"
  shows "accepts_from (anthSpec False) NotStarted (translateStream J now (c # body @ tail)) = Some Stopped \<and>
    (accepts_from itemOrder ({}, None) body \<noteq> None \<longrightarrow>
     accepts_from (anthSpec True) NotStarted (translateStream J now (c # body @ tail)) = Some Stopped)"
  using translateStream_accepted [OF assms, of False] translateStream_accepted [OF assms, of True] by simp

section \<open>Nothing the model said is lost\<close>

definition anthText :: "AnthropicStreamEvent \<Rightarrow> string" where
  "anthText e = (case ase_Delta e of
     Some d \<Rightarrow> if ase_Type e = ''content_block_delta'' \<and> ad_Type d = ''text_delta'' then ad_Text d else []
   | None \<Rightarrow> [])"

definition responsesText :: "ResponsesStreamEvent \<Rightarrow> string" where
  "responsesText e = (if rse_Type e = ''response.output_text.delta'' then rse_Delta e else [])"

lemma anthText_events [simp]:
  "anthText (blockStart i b) = []"
  "anthText (blockStop i) = []"
  "anthText (blockDelta i (inputJSONDelta x)) = []"
  "anthText (blockDelta i (zeroAnthropicDelta\<lparr>ad_Type := ''thinking_delta'', ad_Thinking := x\<rparr>)) = []"
  "anthText (blockDelta i (zeroAnthropicDelta\<lparr>ad_Type := ''signature_delta'', ad_Signature := x\<rparr>)) = []"
  "anthText (blockDelta i (zeroAnthropicDelta\<lparr>ad_Type := ''text_delta'', ad_Text := x\<rparr>)) = x"
  by (simp_all add: anthText_def blockStart_def blockStop_def blockDelta_def inputJSONDelta_def zero_defs)

lemma anthText_messageEnd [simp]: "e \<in> set (messageEnd r s) \<Longrightarrow> anthText e = []"
  by (auto simp: messageEnd_def anthText_def zero_defs)

lemma anthText_close [simp]: "e \<in> set (fst (closeCurrentBlock s)) \<Longrightarrow> anthText e = []"
  by (auto simp: closeCurrentBlock_def Let_def split: if_splits)

lemma anthText_step:
  "concat (map anthText (fst (ResponsesEventToAnthropicEvents J evt s))) = responsesText evt"
proof -
  have "concat (map anthText (fst (resToAnthHandleTextDelta evt s))) = rse_Delta evt"
    by (simp add: resToAnthHandleTextDelta_def Let_def case_prod_unfold)
  moreover have "concat (map anthText (fst (resToAnthHandleCreated evt s))) = []"
    by (simp add: resToAnthHandleCreated_def Let_def anthText_def zero_defs split: option.splits)
  moreover have "concat (map anthText (fst (resToAnthHandleOutputItemAdded evt s))) = []"
    by (simp add: resToAnthHandleOutputItemAdded_def Let_def case_prod_unfold split: option.splits)
  moreover have "concat (map anthText (fst (resToAnthHandleFuncArgsDelta J evt s))) = []"
    by (simp add: resToAnthHandleFuncArgsDelta_def Let_def split: option.splits)
  moreover have "concat (map anthText (fst (resToAnthHandleFuncArgsDone J evt s))) = []"
    by (simp add: resToAnthHandleFuncArgsDone_def resToAnthHandleBlockDone_def Let_def case_prod_unfold)
  moreover have "concat (map anthText (fst (resToAnthHandleOutputItemDone J evt s))) = []"
    by (simp add: resToAnthHandleOutputItemDone_def resToAnthHandleWebSearchDone_def Let_def
        case_prod_unfold split: option.splits)
  moreover have "concat (map anthText (fst (resToAnthHandleReasoningDelta evt s))) = []"
    by (simp add: resToAnthHandleReasoningDelta_def split: option.splits)
  moreover have "concat (map anthText (fst (resToAnthHandleCompleted evt s))) = []"
    by (auto simp add: resToAnthHandleCompleted_def Let_def case_prod_unfold)
  moreover have "concat (map anthText (fst (resToAnthHandleBlockDone s))) = []"
    by (simp add: resToAnthHandleBlockDone_def)
  ultimately show ?thesis
    by (simp add: ResponsesEventToAnthropicEvents_def Let_def responsesText_def)
qed

lemma anthText_stream:
  "concat (map anthText (translateStream J now es)) = concat (map responsesText es)"
proof -
  have "concat (map anthText (fst (FinalizeResponsesAnthropicStream s))) = []" for s
    by (auto simp: FinalizeResponsesAnthropicStream_def Let_def case_prod_unfold)
  then show ?thesis
    by (simp add: translateStream_def Let_def case_prod_unfold
        run_machine_concat [of anthText _ responsesText] anthText_step)
qed

text \<open>
  C36: the text the Anthropic client receives, over all \<open>text_delta\<close> events of the stream, is
  exactly the concatenation of the upstream's \<open>response.output_text.delta\<close> increments, in order,
  for every upstream stream whatsoever (interleaved with tool calls, reasoning and searches, out of
  protocol, broken off).
\<close>

theorem translateStream_text:
  "concat (map anthText (translateStream J now es)) = concat (map responsesText es)"
  by (rule anthText_stream)

section \<open>Tool calls\<close>

text \<open>The three upstream events of a function call, as the Responses API sends them.\<close>

definition callAdded :: "int \<Rightarrow> ResponsesOutput \<Rightarrow> ResponsesStreamEvent" where
  "callAdded oi item = zeroResponsesStreamEvent
     \<lparr>rse_Type := ''response.output_item.added'', rse_OutputIndex := oi, rse_Item := Some item\<rparr>"

definition argsDelta :: "int \<Rightarrow> string \<Rightarrow> ResponsesStreamEvent" where
  "argsDelta oi d = zeroResponsesStreamEvent
     \<lparr>rse_Type := ''response.function_call_arguments.delta'', rse_OutputIndex := oi, rse_Delta := d\<rparr>"

definition argsDone :: "int \<Rightarrow> string \<Rightarrow> ResponsesStreamEvent" where
  "argsDone oi full = zeroResponsesStreamEvent
     \<lparr>rse_Type := ''response.function_call_arguments.done'', rse_OutputIndex := oi,
      rse_Arguments := full\<rparr>"

definition anthArgs :: "int \<Rightarrow> AnthropicStreamEvent \<Rightarrow> string" where
  "anthArgs n e = (case ase_Delta e of
     Some d \<Rightarrow> if ase_Index e = Some n \<and> ad_Type d = ''input_json_delta'' then ad_PartialJSON d else []
   | None \<Rightarrow> [])"

lemma anthArgs_events [simp]:
  "anthArgs n (blockStart i b) = []"
  "anthArgs n (blockStop i) = []"
  "anthArgs n (blockDelta i (inputJSONDelta x)) = (if i = n then x else [])"
  "anthArgs n (blockDelta i (zeroAnthropicDelta\<lparr>ad_Type := ''signature_delta'', ad_Signature := x\<rparr>)) = []"
  by (simp_all add: anthArgs_def blockStart_def blockStop_def blockDelta_def inputJSONDelta_def zero_defs)

lemma anthArgs_close [simp]: "e \<in> set (fst (closeCurrentBlock s)) \<Longrightarrow> anthArgs n e = []"
  by (auto simp: closeCurrentBlock_def Let_def split: if_splits)

text \<open>The state while a tool call other than \<open>Read\<close> streams its arguments into block \<open>n\<close>.\<close>

definition inToolCall :: "int \<Rightarrow> int \<Rightarrow> bool \<Rightarrow> ResponsesEventToAnthropicState \<Rightarrow> bool" where
  "inToolCall n oi hadDelta s \<longleftrightarrow> ContentBlockOpen s \<and> CurrentBlockType s = ''tool_use'' \<and>
     CurrentToolName s \<noteq> ''Read'' \<and> CurrentToolArgs s = [] \<and> ContentBlockIndex s = n \<and>
     OutputIndexToBlockIdx s oi = Some n \<and> CurrentToolHadDelta s = hadDelta"

text \<open>The block of a call, and the events that fill it.\<close>

definition toolBlock :: "int \<Rightarrow> ResponsesOutput \<Rightarrow> AnthropicStreamEvent" where
  "toolBlock n item = blockStart n (zeroAnthropicContentBlock\<lparr>acb_Type := ''tool_use'',
     acb_ID := fromResponsesCallID (ro_CallID item), acb_Name := ro_Name item, acb_Input := ''{}''\<rparr>)"

definition argsEvents :: "int \<Rightarrow> string list \<Rightarrow> AnthropicStreamEvent list" where
  "argsEvents n ds = map (\<lambda>d. blockDelta n (inputJSONDelta d)) (filter (\<lambda>d. d \<noteq> []) ds)"

lemma callAdded_step:
  assumes "ro_Type item = ''function_call''" and "ro_Name item \<noteq> ''Read''"
    and "n = ContentBlockIndex s + of_bool (ContentBlockOpen s)"
  shows "inToolCall n oi False (snd (ResponsesEventToAnthropicEvents J (callAdded oi item) s))"
    and "fst (ResponsesEventToAnthropicEvents J (callAdded oi item) s)
      = fst (closeCurrentBlock s) @ [toolBlock n item]"
  using assms
  by (auto simp: ResponsesEventToAnthropicEvents_def callAdded_def zeroResponsesStreamEvent_def Let_def
      resToAnthHandleOutputItemAdded_def case_prod_unfold inToolCall_def toolBlock_def)

lemma argsDelta_step:
  assumes "inToolCall n oi b s"
  shows "inToolCall n oi (b \<or> d \<noteq> []) (snd (ResponsesEventToAnthropicEvents J (argsDelta oi d) s))"
    and "fst (ResponsesEventToAnthropicEvents J (argsDelta oi d) s) = argsEvents n [d]"
  using assms
  by (auto simp: ResponsesEventToAnthropicEvents_def argsDelta_def zeroResponsesStreamEvent_def Let_def
      resToAnthHandleFuncArgsDelta_def inToolCall_def argsEvents_def)

lemma argsDeltas_run:
  assumes "inToolCall n oi b s"
  shows "inToolCall n oi (b \<or> concat ds \<noteq> [])
           (snd (run_machine (ResponsesEventToAnthropicEvents J) (map (argsDelta oi) ds) s))"
    and "fst (run_machine (ResponsesEventToAnthropicEvents J) (map (argsDelta oi) ds) s) = argsEvents n ds"
  using assms
proof (induction ds arbitrary: b s)
  case (Cons d ds)
  {
    case 1
    from Cons.IH(1) [OF argsDelta_step(1) [OF 1, of d J]] show ?case by (simp add: disj_assoc)
  next
    case 2
    from Cons.IH(2) [OF argsDelta_step(1) [OF 2, of d J]] show ?case
      by (simp add: argsDelta_step(2) [OF 2]) (simp add: argsEvents_def)
  }
qed (simp_all add: argsEvents_def)

lemma argsDone_step:
  assumes "inToolCall n oi b s"
  shows "fst (ResponsesEventToAnthropicEvents J (argsDone oi full) s)
           = (if b then [] else argsEvents n [full]) @ [blockStop n]"
    and "\<not> ContentBlockOpen (snd (ResponsesEventToAnthropicEvents J (argsDone oi full) s))"
  using assms
  by (auto simp: ResponsesEventToAnthropicEvents_def argsDone_def zeroResponsesStreamEvent_def Let_def
      resToAnthHandleFuncArgsDone_def inToolCall_def case_prod_unfold closeCurrentBlock_def argsEvents_def)

text \<open>
  C37: a function call of any tool but \<open>Read\<close> (whose input is rewritten) that upstream announces,
  streams in any number of increments and completes, with no other event in between, reaches the
  client, whatever the translator has done before, as exactly these events: those that end the block
  open before, the start of a \<open>tool_use\<close> block with the call's identifier and name, one
  \<open>input_json_delta\<close> for each increment that is not empty, in order, and the stop of the block.  The
  arguments of the completion event are sent, in one delta, exactly if there was no increment.
\<close>

theorem toolCall_arguments:
  assumes "ro_Type item = ''function_call''" and "ro_Name item \<noteq> ''Read''"
    and "n = ContentBlockIndex s + of_bool (ContentBlockOpen s)"
    and "r = run_machine (ResponsesEventToAnthropicEvents J)
               (callAdded oi item # map (argsDelta oi) ds @ [argsDone oi full]) s"
  shows "fst r = fst (closeCurrentBlock s) @ [toolBlock n item] @
      argsEvents n (if concat ds = [] then [full] else ds) @ [blockStop n] \<and>
    \<not> ContentBlockOpen (snd r)"
proof -
  note added = callAdded_step [OF assms(1-3), where oi = oi and J = J]
  note deltas = argsDeltas_run [OF added(1), where ds = ds and J = J]
  note complete = argsDone_step [OF deltas(1), where J = J and full = full]
  have "argsEvents n ds = []" if "concat ds = []"
    using that by (auto simp: argsEvents_def filter_empty_conv)
  with added(2) deltas(2) complete show ?thesis
    by (auto simp: assms(4) run_machine_append case_prod_unfold Let_def)
qed

section \<open>Usage\<close>

text \<open>
  C38: the translated usage never has a negative input count and keeps the output count and the cached
  count, and the three disjoint Anthropic input buckets add up to the larger of the upstream's input
  total and the sum of its cached and cache-written parts; so they add up to the total exactly when
  it covers those parts.
\<close>

theorem usage_buckets:
  assumes "a = anthropicUsageFromResponsesUsage (Some u)"
    and "cached = (case ru_InputTokensDetails u of None \<Rightarrow> 0 | Some d \<Rightarrow> ritd_CachedTokens d)"
  shows "0 \<le> au_InputTokens a \<and> au_OutputTokens a = ru_OutputTokens u \<and>
    au_CacheReadInputTokens a = cached \<and>
    au_InputTokens a + au_CacheReadInputTokens a + au_CacheCreationInputTokens a
      = max (ru_InputTokens u) (cached + ru_CacheCreationInputTokens u)"
  using assms by (auto simp: anthropicUsageFromResponsesUsage_def zeroAnthropicUsage_def Let_def)

section \<open>Instances\<close>

definition exCreated :: ResponsesStreamEvent where
  "exCreated = zeroResponsesStreamEvent\<lparr>rse_Type := ''response.created''\<rparr>"

definition exText :: "string \<Rightarrow> ResponsesStreamEvent" where
  "exText d = zeroResponsesStreamEvent\<lparr>rse_Type := ''response.output_text.delta'', rse_Delta := d\<rparr>"

definition exCompleted :: ResponsesStreamEvent where
  "exCompleted = zeroResponsesStreamEvent\<lparr>rse_Type := ''response.completed''\<rparr>"

definition exCall :: "string \<Rightarrow> ResponsesOutput" where
  "exCall name = zeroResponsesOutput
     \<lparr>ro_Type := ''function_call'', ro_CallID := ''call_1'', ro_Name := name\<rparr>"

lemmas ex_defs = exCreated_def exText_def exCompleted_def exCall_def callAdded_def argsDelta_def argsDone_def

theorem translateStream_wellformed_witness:
  "accepts_from (anthSpec True) NotStarted
     (translateStream plain_json 7
        (exCreated # [exText ''Hi'', callAdded 1 (exCall ''ls''), argsDelta 1 ''{'', argsDelta 1 ''}''] @ [exCompleted]))
   = Some Stopped"
  by (rule translateStream_wellformed [THEN conjunct2, rule_format])
     (auto simp add: ex_defs isResponsesTerminal_def zeroResponsesStreamEvent_def zeroResponsesOutput_def
       itemOrder_def announcesItem_def leavesItem_def isIncrement_def)

theorem toolCall_arguments_witness:
  "fst (run_machine (ResponsesEventToAnthropicEvents plain_json)
     (callAdded 0 (exCall ''ls'') # map (argsDelta 0) [''{'', ''}''] @ [argsDone 0 ''{}''])
     (NewResponsesEventToAnthropicState 7))
   = [toolBlock 0 (exCall ''ls''), blockDelta 0 (inputJSONDelta ''{''), blockDelta 0 (inputJSONDelta ''}''),
      blockStop 0]"
  by (subst toolCall_arguments [OF _ _ _ refl, where n = 0, THEN conjunct1])
     (simp_all add: exCall_def zeroResponsesOutput_def NewResponsesEventToAnthropicState_def argsEvents_def)

theorem usage_buckets_witness:
  "let u = \<lparr>ru_InputTokens = 10, ru_OutputTokens = 3, ru_TotalTokens = 13, ru_CacheCreationInputTokens = 2,
             ru_InputTokensDetails = Some (zeroResponsesInputTokensDetails\<lparr>ritd_CachedTokens := 5\<rparr>),
             ru_OutputTokensDetails = None\<rparr>;
       a = anthropicUsageFromResponsesUsage (Some u)
   in au_InputTokens a + au_CacheReadInputTokens a + au_CacheCreationInputTokens a = 10"
  unfolding Let_def
  by (subst usage_buckets [OF refl refl, THEN conjunct2, THEN conjunct2, THEN conjunct2])
     (simp add: zeroResponsesInputTokensDetails_def)

text \<open>
  When upstream interleaves the increments of two calls, the increment of the first call that
  arrives after the second call was announced is sent for a block that has already been stopped:
  the handlers close the open block on every announcement but keep translating increments by
  output index.
\<close>

lemma interleaved_calls_delta_after_stop:
  "fst (run_machine (ResponsesEventToAnthropicEvents plain_json)
     [callAdded 0 (exCall ''ls''), callAdded 1 (exCall ''cat''), argsDelta 0 ''{}'']
     (NewResponsesEventToAnthropicState 7))
   = [blockStart 0 (zeroAnthropicContentBlock\<lparr>acb_Type := ''tool_use'', acb_ID := ''call_1'',
        acb_Name := ''ls'', acb_Input := ''{}''\<rparr>),
      blockStop 0,
      blockStart 1 (zeroAnthropicContentBlock\<lparr>acb_Type := ''tool_use'', acb_ID := ''call_1'',
        acb_Name := ''cat'', acb_Input := ''{}''\<rparr>),
      blockDelta 0 (inputJSONDelta ''{}'')]"
  by (simp add: ex_defs zero_defs ResponsesEventToAnthropicEvents_def
      resToAnthHandleOutputItemAdded_def resToAnthHandleFuncArgsDelta_def closeCurrentBlock_def
      NewResponsesEventToAnthropicState_def fromResponsesCallID_def CutPrefix_def HasPrefix_def Let_def)

end
