(* ===== verification/Anthropic_To_Responses.thy ===== *)
theory Anthropic_To_Responses
  imports Responses_To_Anthropic
begin

text \<open>
  \<open>internal/pkg/apicompat/anthropic_to_responses_response.go\<close>: the translation of an Anthropic
  Messages answer into an OpenAI Responses answer, as one object and as a stream.

  \<open>generateItemID\<close> and \<open>generateResponsesID\<close> draw random identifiers.  A stream handler draws at
  most one, so it takes the identifier as the argument \<open>newID\<close>; the conversion of a whole object
  draws several and takes a supply \<open>gen\<close>, whose \<open>n\<close>-th member is the \<open>n\<close>-th identifier drawn.
  Lemmas: sequence numbers, the conservation of text, the agreement of the terminal event with the
  items closed before it, and the refinement by an automaton of well-formed Responses streams.
\<close>

section \<open>One object\<close>

definition anthropicStopReasonToResponsesStatus ::
  "string \<Rightarrow> AnthropicContentBlock list \<Rightarrow> string" where
  "anthropicStopReasonToResponsesStatus stopReason blocks =
     (if stopReason = ''max_tokens'' then ''incomplete''
      else if stopReason \<in> {''end_turn'', ''tool_use'', ''stop_sequence''} then ''completed''
      else ''completed'')"

definition textPart :: "string \<Rightarrow> ResponsesContentPart" where
  "textPart t = zeroResponsesContentPart\<lparr>rcp_Type := ''output_text'', rcp_Text := t\<rparr>"

text \<open>The loop over \<open>resp.Content\<close>: output items, message parts, and the count of identifiers drawn.\<close>

fun collectBlocks ::
  "(nat \<Rightarrow> string) \<Rightarrow> nat \<Rightarrow> AnthropicContentBlock list
     \<Rightarrow> ResponsesOutput list \<times> ResponsesContentPart list \<times> nat" where
  "collectBlocks gen n [] = ([], [], n)"
| "collectBlocks gen n (block # rest) =
     (if acb_Type block = ''thinking'' \<and> acb_Thinking block \<noteq> [] then
        (let (outputs, parts, n') = collectBlocks gen (Suc n) rest
         in (zeroResponsesOutput
               \<lparr>ro_Type := ''reasoning'', ro_ID := gen n,
                ro_Summary := [\<lparr>rsm_Type = ''summary_text'', rsm_Text = acb_Thinking block\<rparr>]\<rparr> # outputs,
             parts, n'))
      else if acb_Type block = ''text'' \<and> acb_Text block \<noteq> [] then
        (let (outputs, parts, n') = collectBlocks gen n rest
         in (outputs, textPart (acb_Text block) # parts, n'))
      else if acb_Type block = ''tool_use'' then
        (let (outputs, parts, n') = collectBlocks gen (Suc n) rest
         in (zeroResponsesOutput
               \<lparr>ro_Type := ''function_call'', ro_ID := gen n,
                ro_CallID := toResponsesCallID (acb_ID block), ro_Name := acb_Name block,
                ro_Arguments := (if length (acb_Input block) > 0 then acb_Input block else ''{}''),
                ro_Status := ''completed''\<rparr> # outputs,
             parts, n'))
      else collectBlocks gen n rest)"

definition responsesUsageFromCounts :: "int \<Rightarrow> int \<Rightarrow> int \<Rightarrow> int \<Rightarrow> ResponsesUsage" where
  "responsesUsageFromCounts input output cacheRead cacheCreation =
     (let totalInputTokens = input + cacheRead + cacheCreation
      in \<lparr>ru_InputTokens = totalInputTokens, ru_OutputTokens = output,
          ru_TotalTokens = totalInputTokens + output, ru_CacheCreationInputTokens = cacheCreation,
          ru_InputTokensDetails =
            (if cacheRead > 0
             then Some (zeroResponsesInputTokensDetails\<lparr>ritd_CachedTokens := cacheRead\<rparr>) else None),
          ru_OutputTokensDetails = None\<rparr>)"

definition AnthropicToResponsesResponse ::
  "(nat \<Rightarrow> string) \<Rightarrow> int \<Rightarrow> AnthropicResponse \<Rightarrow> ResponsesResponse" where
  "AnthropicToResponsesResponse gen now resp =
     (let (id', n) = (if ar_ID resp = [] then (gen 0, 1) else (ar_ID resp, 0));
          (outputs, msgParts, n) = collectBlocks gen n (ar_Content resp);
          (outputs, n) =
            (if length msgParts > 0 then
               (outputs @ [zeroResponsesOutput\<lparr>ro_Type := ''message'', ro_ID := gen n,
                  ro_Role := ''assistant'', ro_Content := msgParts, ro_Status := ''completed''\<rparr>], Suc n)
             else (outputs, n));
          outputs =
            (if length outputs = 0 then
               [zeroResponsesOutput\<lparr>ro_Type := ''message'', ro_ID := gen n,
                  ro_Role := ''assistant'', ro_Content := [textPart []], ro_Status := ''completed''\<rparr>]
             else outputs);
          status = anthropicStopReasonToResponsesStatus (AnthropicStopReasonString (ar_StopReason resp))
                     (ar_Content resp);
          usage = ar_Usage resp
      in zeroResponsesResponse
           \<lparr>rr_ID := id', rr_Object := ''response'', rr_CreatedAt := now, rr_Model := ar_Model resp,
            rr_Output := outputs, rr_Status := status,
            rr_IncompleteDetails :=
              (if status = ''incomplete'' then Some \<lparr>rid_Reason = ''max_output_tokens''\<rparr> else None),
            rr_Usage := Some (responsesUsageFromCounts (au_InputTokens usage) (au_OutputTokens usage)
              (au_CacheReadInputTokens usage) (au_CacheCreationInputTokens usage))\<rparr>)"

section \<open>The stream state\<close>

record AnthropicEventToResponsesState =
  as_ResponseID :: string
  as_Model :: string
  as_Created :: int
  as_SequenceNumber :: int
  as_CreatedSent :: bool
  as_CompletedSent :: bool
  as_OutputIndex :: int
  as_CurrentItemID :: string
  as_CurrentItemType :: string
  as_ContentIndex :: int
  as_TextAccum :: string
  as_CurrentCallID :: string
  as_CurrentName :: string
  as_CurrentContent :: "ResponsesContentPart list"
  as_CurrentArgs :: string
  as_CurrentSummary :: string
  as_Outputs :: "ResponsesOutput list"
  as_InputTokens :: int
  as_OutputTokens :: int
  as_CacheReadInputTokens :: int
  as_CacheCreationInputTokens :: int
  as_StopReason :: string

definition NewAnthropicEventToResponsesState :: "int \<Rightarrow> AnthropicEventToResponsesState" where [state_defs]:
  "NewAnthropicEventToResponsesState now =
     \<lparr>as_ResponseID = [], as_Model = [], as_Created = now, as_SequenceNumber = 0,
      as_CreatedSent = False, as_CompletedSent = False, as_OutputIndex = 0, as_CurrentItemID = [],
      as_CurrentItemType = [], as_ContentIndex = 0, as_TextAccum = [], as_CurrentCallID = [],
      as_CurrentName = [], as_CurrentContent = [], as_CurrentArgs = [], as_CurrentSummary = [],
      as_Outputs = [], as_InputTokens = 0, as_OutputTokens = 0, as_CacheReadInputTokens = 0,
      as_CacheCreationInputTokens = 0, as_StopReason = []\<rparr>"

type_synonym a2r_result = "ResponsesStreamEvent list \<times> AnthropicEventToResponsesState"

section \<open>Events\<close>

definition makeResponsesEvent ::
  "AnthropicEventToResponsesState \<Rightarrow> string \<Rightarrow> ResponsesStreamEvent
     \<Rightarrow> ResponsesStreamEvent \<times> AnthropicEventToResponsesState" where
  "makeResponsesEvent state eventType template =
     (template\<lparr>rse_Type := eventType, rse_SequenceNumber := as_SequenceNumber state\<rparr>,
      state\<lparr>as_SequenceNumber := as_SequenceNumber state + 1\<rparr>)"

text \<open>A handler that emits one event.\<close>

definition emit1 :: "ResponsesStreamEvent \<times> AnthropicEventToResponsesState \<Rightarrow> a2r_result" where
  "emit1 r = ([fst r], snd r)"

text \<open>Emission of one handler's events after another's.\<close>

definition andThen ::
  "a2r_result \<Rightarrow> (AnthropicEventToResponsesState \<Rightarrow> a2r_result) \<Rightarrow> a2r_result" where
  "andThen r f = (fst r @ fst (f (snd r)), snd (f (snd r)))"

definition makeResponsesCreatedEvent ::
  "AnthropicEventToResponsesState \<Rightarrow> ResponsesStreamEvent \<times> AnthropicEventToResponsesState" where
  "makeResponsesCreatedEvent state =
     (zeroResponsesStreamEvent
        \<lparr>rse_Type := ''response.created'', rse_SequenceNumber := as_SequenceNumber state,
         rse_Response := Some (zeroResponsesResponse
           \<lparr>rr_ID := as_ResponseID state, rr_Object := ''response'', rr_CreatedAt := as_Created state,
            rr_Model := as_Model state, rr_Status := ''in_progress'', rr_Output := []\<rparr>)\<rparr>,
      state\<lparr>as_SequenceNumber := as_SequenceNumber state + 1\<rparr>)"

definition makeResponsesCompletedEvent ::
  "AnthropicEventToResponsesState \<Rightarrow> string \<Rightarrow> ResponsesIncompleteDetails option
     \<Rightarrow> ResponsesStreamEvent \<times> AnthropicEventToResponsesState" where
  "makeResponsesCompletedEvent state status incompleteDetails =
     (zeroResponsesStreamEvent
        \<lparr>rse_Type := (if status = ''incomplete'' then ''response.incomplete'' else ''response.completed''),
         rse_SequenceNumber := as_SequenceNumber state,
         rse_Response := Some (zeroResponsesResponse
           \<lparr>rr_ID := as_ResponseID state, rr_Object := ''response'', rr_CreatedAt := as_Created state,
            rr_Model := as_Model state, rr_Status := status, rr_Output := as_Outputs state,
            rr_Usage := Some (responsesUsageFromCounts (as_InputTokens state) (as_OutputTokens state)
              (as_CacheReadInputTokens state) (as_CacheCreationInputTokens state)),
            rr_IncompleteDetails := incompleteDetails\<rparr>)\<rparr>,
      state\<lparr>as_SequenceNumber := as_SequenceNumber state + 1\<rparr>)"

definition anthropicResponsesStreamTerminalState ::
  "string \<Rightarrow> string \<times> ResponsesIncompleteDetails option" where
  "anthropicResponsesStreamTerminalState stopReason =
     (if stopReason = ''max_tokens'' then (''incomplete'', Some \<lparr>rid_Reason = ''max_output_tokens''\<rparr>)
      else (''completed'', None))"

section \<open>Handlers\<close>

text \<open>The item that \<open>closeCurrentResponsesItem\<close> assembles from the state.\<close>

definition currentItem :: "AnthropicEventToResponsesState \<Rightarrow> ResponsesOutput" where
  "currentItem state =
     (let item = zeroResponsesOutput\<lparr>ro_Type := as_CurrentItemType state, ro_ID := as_CurrentItemID state,
                   ro_Status := ''completed''\<rparr>
      in if as_CurrentItemType state = ''message'' then
           item\<lparr>ro_Role := ''assistant'', ro_Content := as_CurrentContent state\<rparr>
         else if as_CurrentItemType state = ''function_call'' then
           item\<lparr>ro_CallID := as_CurrentCallID state, ro_Name := as_CurrentName state,
                ro_Arguments := (if as_CurrentArgs state = [] then ''{}'' else as_CurrentArgs state)\<rparr>
         else if as_CurrentItemType state = ''reasoning'' then
           (if as_CurrentSummary state \<noteq> []
            then item\<lparr>ro_Summary := [\<lparr>rsm_Type = ''summary_text'', rsm_Text = as_CurrentSummary state\<rparr>]\<rparr>
            else item)
         else item)"

definition closeCurrentResponsesItem :: "AnthropicEventToResponsesState \<Rightarrow> a2r_result" where
  "closeCurrentResponsesItem state =
     (if as_CurrentItemType state = [] then ([], state)
      else
        let item = currentItem state;
            state = state
              \<lparr>as_Outputs := as_Outputs state @ [item], as_CurrentItemType := [], as_CurrentItemID := [],
               as_CurrentCallID := [], as_CurrentName := [], as_CurrentContent := [],
               as_CurrentArgs := [], as_CurrentSummary := [], as_TextAccum := [],
               as_OutputIndex := as_OutputIndex state + 1, as_ContentIndex := 0\<rparr>
        in emit1 (makeResponsesEvent state ''response.output_item.done''
             (zeroResponsesStreamEvent
                \<lparr>rse_OutputIndex := as_OutputIndex state - 1, rse_Item := Some item\<rparr>)))"

definition anthToResHandleMessageStart ::
  "AnthropicStreamEvent \<Rightarrow> AnthropicEventToResponsesState \<Rightarrow> a2r_result" where
  "anthToResHandleMessageStart evt state =
     (let state = (case ase_Message evt of
            None \<Rightarrow> state
          | Some m \<Rightarrow>
              let u = ar_Usage m;
                  state = state\<lparr>as_ResponseID := ar_ID m,
                                as_Model := (if as_Model state = [] then ar_Model m else as_Model state)\<rparr>;
                  state = (if au_InputTokens u > 0 then state\<lparr>as_InputTokens := au_InputTokens u\<rparr> else state);
                  state = (if au_CacheReadInputTokens u > 0
                           then state\<lparr>as_CacheReadInputTokens := au_CacheReadInputTokens u\<rparr> else state)
              in if au_CacheCreationInputTokens u > 0
                 then state\<lparr>as_CacheCreationInputTokens := au_CacheCreationInputTokens u\<rparr> else state)
      in if as_CreatedSent state then ([], state)
         else emit1 (makeResponsesCreatedEvent (state\<lparr>as_CreatedSent := True\<rparr>)))"

text \<open>\<open>response.output_item.added\<close> for the item the state describes.\<close>

definition emitItemAdded :: "ResponsesOutput \<Rightarrow> AnthropicEventToResponsesState \<Rightarrow> a2r_result" where
  "emitItemAdded item state =
     emit1 (makeResponsesEvent state ''response.output_item.added''
       (zeroResponsesStreamEvent\<lparr>rse_OutputIndex := as_OutputIndex state, rse_Item := Some item\<rparr>))"

definition anthToResHandleContentBlockStart ::
  "string \<Rightarrow> AnthropicStreamEvent \<Rightarrow> AnthropicEventToResponsesState \<Rightarrow> a2r_result" where
  "anthToResHandleContentBlockStart newID evt state =
     (case ase_ContentBlock evt of
        None \<Rightarrow> ([], state)
      | Some block \<Rightarrow>
          if acb_Type block = ''thinking'' then
            andThen (closeCurrentResponsesItem state) (\<lambda>state.
              let state = state\<lparr>as_CurrentItemID := newID, as_CurrentItemType := ''reasoning'',
                                as_ContentIndex := 0\<rparr>
              in emitItemAdded (zeroResponsesOutput
                   \<lparr>ro_Type := ''reasoning'', ro_ID := as_CurrentItemID state\<rparr>) state)
          else if acb_Type block = ''text'' then
            andThen
              (if as_CurrentItemType state \<noteq> ''message'' then
                 andThen (closeCurrentResponsesItem state) (\<lambda>state.
                   let state = state\<lparr>as_CurrentItemID := newID, as_CurrentItemType := ''message'',
                                     as_ContentIndex := 0\<rparr>
                   in emitItemAdded (zeroResponsesOutput
                        \<lparr>ro_Type := ''message'', ro_ID := as_CurrentItemID state,
                         ro_Role := ''assistant'', ro_Status := ''in_progress''\<rparr>) state)
               else ([], state))
              (\<lambda>state.
                 let (ev, state) = makeResponsesEvent state ''response.content_part.added''
                       (zeroResponsesStreamEvent
                          \<lparr>rse_OutputIndex := as_OutputIndex state,
                           rse_ContentIndex := as_ContentIndex state,
                           rse_ItemID := as_CurrentItemID state, rse_Part := Some (textPart [])\<rparr>)
                 in ([ev], state\<lparr>as_TextAccum := []\<rparr>))
          else if acb_Type block = ''tool_use'' then
            andThen (closeCurrentResponsesItem state) (\<lambda>state.
              let state = state\<lparr>as_CurrentItemID := newID, as_CurrentItemType := ''function_call'',
                                as_CurrentCallID := toResponsesCallID (acb_ID block),
                                as_CurrentName := acb_Name block\<rparr>
              in emitItemAdded (zeroResponsesOutput
                   \<lparr>ro_Type := ''function_call'', ro_ID := as_CurrentItemID state,
                    ro_CallID := as_CurrentCallID state, ro_Name := as_CurrentName state,
                    ro_Status := ''in_progress''\<rparr>) state)
          else ([], state))"

definition anthToResHandleContentBlockDelta ::
  "AnthropicStreamEvent \<Rightarrow> AnthropicEventToResponsesState \<Rightarrow> a2r_result" where
  "anthToResHandleContentBlockDelta evt state =
     (case ase_Delta evt of
        None \<Rightarrow> ([], state)
      | Some d \<Rightarrow>
          if ad_Type d = ''text_delta'' then
            (if ad_Text d = [] then ([], state)
             else
               let state = state\<lparr>as_TextAccum := as_TextAccum state @ ad_Text d\<rparr>
               in emit1 (makeResponsesEvent state ''response.output_text.delta''
                    (zeroResponsesStreamEvent
                       \<lparr>rse_OutputIndex := as_OutputIndex state, rse_ContentIndex := as_ContentIndex state,
                        rse_Delta := ad_Text d, rse_ItemID := as_CurrentItemID state\<rparr>)))
          else if ad_Type d = ''thinking_delta'' then
            (if ad_Thinking d = [] then ([], state)
             else
               let state = state\<lparr>as_CurrentSummary := as_CurrentSummary state @ ad_Thinking d\<rparr>
               in emit1 (makeResponsesEvent state ''response.reasoning_summary_text.delta''
                    (zeroResponsesStreamEvent
                       \<lparr>rse_OutputIndex := as_OutputIndex state, rse_SummaryIndex := 0,
                        rse_Delta := ad_Thinking d, rse_ItemID := as_CurrentItemID state\<rparr>)))
          else if ad_Type d = ''input_json_delta'' then
            (if ad_PartialJSON d = [] then ([], state)
             else
               let state = state\<lparr>as_CurrentArgs := as_CurrentArgs state @ ad_PartialJSON d\<rparr>
               in emit1 (makeResponsesEvent state ''response.function_call_arguments.delta''
                    (zeroResponsesStreamEvent
                       \<lparr>rse_OutputIndex := as_OutputIndex state, rse_Delta := ad_PartialJSON d,
                        rse_ItemID := as_CurrentItemID state, rse_CallID := as_CurrentCallID state,
                        rse_Name := as_CurrentName state\<rparr>)))
          else ([], state))"

definition anthToResHandleContentBlockStop ::
  "AnthropicStreamEvent \<Rightarrow> AnthropicEventToResponsesState \<Rightarrow> a2r_result" where
  "anthToResHandleContentBlockStop evt state =
     (if as_CurrentItemType state = ''reasoning'' then
        andThen (emit1 (makeResponsesEvent state ''response.reasoning_summary_text.done''
                   (zeroResponsesStreamEvent
                      \<lparr>rse_OutputIndex := as_OutputIndex state, rse_SummaryIndex := 0,
                       rse_ItemID := as_CurrentItemID state\<rparr>)))
          closeCurrentResponsesItem
      else if as_CurrentItemType state = ''function_call'' then
        andThen (emit1 (makeResponsesEvent state ''response.function_call_arguments.done''
                   (zeroResponsesStreamEvent
                      \<lparr>rse_OutputIndex := as_OutputIndex state, rse_ItemID := as_CurrentItemID state,
                       rse_CallID := as_CurrentCallID state, rse_Name := as_CurrentName state\<rparr>)))
          closeCurrentResponsesItem
      else if as_CurrentItemType state = ''message'' then
        (let text = as_TextAccum state;
             contentIndex = as_ContentIndex state;
             state = state\<lparr>as_TextAccum := [], as_CurrentContent := as_CurrentContent state @ [textPart text],
                           as_ContentIndex := contentIndex + 1\<rparr>
         in andThen (emit1 (makeResponsesEvent state ''response.output_text.done''
                       (zeroResponsesStreamEvent
                          \<lparr>rse_OutputIndex := as_OutputIndex state, rse_ContentIndex := contentIndex,
                           rse_ItemID := as_CurrentItemID state, rse_Text := text\<rparr>)))
              (\<lambda>state. emit1 (makeResponsesEvent state ''response.content_part.done''
                       (zeroResponsesStreamEvent
                          \<lparr>rse_OutputIndex := as_OutputIndex state, rse_ContentIndex := contentIndex,
                           rse_ItemID := as_CurrentItemID state, rse_Part := Some (textPart text)\<rparr>))))
      else ([], state))"

definition anthToResHandleMessageDelta ::
  "AnthropicStreamEvent \<Rightarrow> AnthropicEventToResponsesState \<Rightarrow> a2r_result" where
  "anthToResHandleMessageDelta evt state =
     (let state = (case ase_Usage evt of
            None \<Rightarrow> state
          | Some u \<Rightarrow>
              let state = state\<lparr>as_OutputTokens := au_OutputTokens u\<rparr>;
                  state = (if au_InputTokens u > 0 then state\<lparr>as_InputTokens := au_InputTokens u\<rparr> else state);
                  state = (if au_CacheReadInputTokens u > 0
                           then state\<lparr>as_CacheReadInputTokens := au_CacheReadInputTokens u\<rparr> else state)
              in if au_CacheCreationInputTokens u > 0
                 then state\<lparr>as_CacheCreationInputTokens := au_CacheCreationInputTokens u\<rparr> else state);
          state = (case ase_Delta evt of
            None \<Rightarrow> state
          | Some d \<Rightarrow> if ad_StopReason d \<noteq> [] then state\<lparr>as_StopReason := ad_StopReason d\<rparr> else state)
      in ([], state))"

text \<open>Closing the message: the last item, then the terminal event.\<close>

definition finishMessage :: "AnthropicEventToResponsesState \<Rightarrow> a2r_result" where
  "finishMessage state =
     andThen (closeCurrentResponsesItem state) (\<lambda>state.
       let (status, incompleteDetails) = anthropicResponsesStreamTerminalState (as_StopReason state);
           (ev, state) = makeResponsesCompletedEvent state status incompleteDetails
       in ([ev], state\<lparr>as_CompletedSent := True\<rparr>))"

definition anthToResHandleMessageStop :: "AnthropicEventToResponsesState \<Rightarrow> a2r_result" where
  "anthToResHandleMessageStop state =
     (if as_CompletedSent state then ([], state) else finishMessage state)"

definition AnthropicEventToResponsesEvents ::
  "string \<times> AnthropicStreamEvent \<Rightarrow> AnthropicEventToResponsesState \<Rightarrow> a2r_result" where
  "AnthropicEventToResponsesEvents input state =
     (let (newID, evt) = input; t = ase_Type evt
      in if t = ''message_start'' then anthToResHandleMessageStart evt state
         else if t = ''content_block_start'' then anthToResHandleContentBlockStart newID evt state
         else if t = ''content_block_delta'' then anthToResHandleContentBlockDelta evt state
         else if t = ''content_block_stop'' then anthToResHandleContentBlockStop evt state
         else if t = ''message_delta'' then anthToResHandleMessageDelta evt state
         else if t = ''message_stop'' then anthToResHandleMessageStop state
         else ([], state))"

definition FinalizeAnthropicResponsesStream :: "AnthropicEventToResponsesState \<Rightarrow> a2r_result" where
  "FinalizeAnthropicResponsesStream state =
     (if \<not> as_CreatedSent state \<or> as_CompletedSent state then ([], state) else finishMessage state)"

lemmas a2r_defs =
  anthToResHandleMessageStart_def anthToResHandleContentBlockStart_def
  anthToResHandleContentBlockDelta_def anthToResHandleContentBlockStop_def
  anthToResHandleMessageDelta_def anthToResHandleMessageStop_def finishMessage_def
  closeCurrentResponsesItem_def emitItemAdded_def makeResponsesEvent_def
  makeResponsesCreatedEvent_def makeResponsesCompletedEvent_def emit1_def andThen_def Let_def
  case_prod_unfold

text \<open>The stream a caller writes to its client.\<close>

definition responsesStream ::
  "int \<Rightarrow> (string \<times> AnthropicStreamEvent) list \<Rightarrow> a2r_result" where
  "responsesStream now es =
     andThen (run_machine AnthropicEventToResponsesEvents es (NewAnthropicEventToResponsesState now))
       FinalizeAnthropicResponsesStream"

section \<open>Every stream is a consistent Responses stream\<close>

text \<open>
  The specification automaton of a Responses stream.  Its state is what a client that accumulates
  the stream knows: the next sequence number, the next output index, the item being streamed (its
  identifier and type), the items finished so far, and whether the response was created and ended.
\<close>

record resp_phase =
  sp_seq :: int
  sp_created :: bool
  sp_next :: int
  sp_open :: "(string \<times> string) option"
  sp_items :: "ResponsesOutput list"
  sp_over :: bool

definition respStart :: resp_phase where
  "respStart = \<lparr>sp_seq = 0, sp_created = False, sp_next = 0, sp_open = None, sp_items = [],
                sp_over = False\<rparr>"

definition respSpec :: "resp_phase \<Rightarrow> ResponsesStreamEvent \<Rightarrow> resp_phase option" where
  "respSpec p e =
     (let t = rse_Type e; q = p\<lparr>sp_seq := sp_seq p + 1\<rparr>
      in if rse_SequenceNumber e \<noteq> sp_seq p then None
         else if t = ''response.created'' then
           (if sp_created p then None else Some (q\<lparr>sp_created := True\<rparr>))
         else if t = ''response.output_item.added'' then
           (case rse_Item e of
              None \<Rightarrow> None
            | Some it \<Rightarrow>
                if sp_open p = None \<and> rse_OutputIndex e = sp_next p \<and> ro_Type it \<noteq> []
                then Some (q\<lparr>sp_open := Some (ro_ID it, ro_Type it)\<rparr>) else None)
         else if t = ''response.output_item.done'' then
           (case rse_Item e of
              None \<Rightarrow> None
            | Some it \<Rightarrow>
                if sp_open p = Some (ro_ID it, ro_Type it) \<and> rse_OutputIndex e = sp_next p
                then Some (q\<lparr>sp_open := None, sp_next := sp_next p + 1, sp_items := sp_items p @ [it]\<rparr>)
                else None)
         else if t \<in> {''response.completed'', ''response.incomplete''} then
           (case rse_Response e of
              None \<Rightarrow> None
            | Some r \<Rightarrow>
                if sp_open p = None \<and> \<not> sp_over p \<and> rr_Output r = sp_items p
                then Some (q\<lparr>sp_over := True\<rparr>) else None)
         else if rse_OutputIndex e = sp_next p \<and>
                 (case sp_open p of None \<Rightarrow> True | Some (i, _) \<Rightarrow> rse_ItemID e = i)
              then Some q else None)"

text \<open>What the state of the translator means to the client.\<close>

definition a2rAbs :: "AnthropicEventToResponsesState \<Rightarrow> resp_phase" where
  "a2rAbs s = \<lparr>sp_seq = as_SequenceNumber s, sp_created = as_CreatedSent s, sp_next = as_OutputIndex s,
     sp_open = (if as_CurrentItemType s = [] then None
                else Some (as_CurrentItemID s, as_CurrentItemType s)),
     sp_items = as_Outputs s, sp_over = as_CompletedSent s\<rparr>"

definition simulates :: "AnthropicEventToResponsesState \<Rightarrow> a2r_result \<Rightarrow> bool" where
  "simulates s r \<longleftrightarrow> accepts_from respSpec (a2rAbs s) (fst r) = Some (a2rAbs (snd r))"

lemma simulates_silent: "a2rAbs s' = a2rAbs s \<Longrightarrow> simulates s ([], s')"
  by (simp add: simulates_def)

lemma simulates_andThen:
  "simulates s r \<Longrightarrow> simulates (snd r) (f (snd r)) \<Longrightarrow> simulates s (andThen r f)"
  by (simp add: simulates_def andThen_def accepts_from_append)

lemma simulates_one: "respSpec (a2rAbs s) e = Some (a2rAbs s') \<Longrightarrow> simulates s ([e], s')"
  by (simp add: simulates_def)

lemmas simulates_intros = simulates_silent simulates_andThen simulates_one

lemma ro_currentItem [simp]:
  "ro_Type (currentItem s) = as_CurrentItemType s" "ro_ID (currentItem s) = as_CurrentItemID s"
  by (simp_all add: currentItem_def Let_def)

lemma close_simulates: "simulates s (closeCurrentResponsesItem s)"
  by (auto simp: closeCurrentResponsesItem_def Let_def emit1_def makeResponsesEvent_def respSpec_def
      a2rAbs_def intro!: simulates_intros)

lemma close_state [simp]:
  "as_CurrentItemType (snd (closeCurrentResponsesItem s)) = []"
  "as_SequenceNumber (snd (closeCurrentResponsesItem s))
     = as_SequenceNumber s + of_bool (as_CurrentItemType s \<noteq> [])"
  "as_CreatedSent (snd (closeCurrentResponsesItem s)) = as_CreatedSent s"
  "as_CompletedSent (snd (closeCurrentResponsesItem s)) = as_CompletedSent s"
  "as_StopReason (snd (closeCurrentResponsesItem s)) = as_StopReason s"
  by (simp_all add: closeCurrentResponsesItem_def Let_def emit1_def makeResponsesEvent_def)

text \<open>Events inside the current item.\<close>

definition insideTypes :: "string set" where
  "insideTypes = {''response.content_part.added'', ''response.output_text.delta'',
     ''response.reasoning_summary_text.delta'', ''response.function_call_arguments.delta'',
     ''response.reasoning_summary_text.done'', ''response.function_call_arguments.done'',
     ''response.output_text.done'', ''response.content_part.done''}"

lemma a2rAbs_seq [simp]:
  "a2rAbs (s\<lparr>as_SequenceNumber := n\<rparr>) = (a2rAbs s)\<lparr>sp_seq := n\<rparr>"
  "sp_seq (a2rAbs s) = as_SequenceNumber s"
  by (simp_all add: a2rAbs_def)

lemma inside_respSpec:
  assumes "t \<in> insideTypes" and "rse_OutputIndex e = as_OutputIndex s" and "rse_ItemID e = as_CurrentItemID s"
    and "s' = s\<lparr>as_SequenceNumber := as_SequenceNumber s + 1\<rparr>"
  shows "respSpec (a2rAbs s) (e\<lparr>rse_Type := t, rse_SequenceNumber := as_SequenceNumber s\<rparr>) = Some (a2rAbs s')"
  using assms by (auto simp: insideTypes_def respSpec_def a2rAbs_def)

lemma inside_simulates:
  assumes "t \<in> insideTypes" and "rse_OutputIndex e = as_OutputIndex s" and "rse_ItemID e = as_CurrentItemID s"
    and "a2rAbs s' = a2rAbs s"
  shows "simulates s (emit1 (makeResponsesEvent s' t e))"
proof -
  have "as_SequenceNumber s' = as_SequenceNumber s"
    using arg_cong [OF assms(4), of sp_seq] by simp
  then show ?thesis
    using inside_respSpec [OF assms(1-3) refl] assms(4)
    by (auto simp: emit1_def makeResponsesEvent_def intro!: simulates_one)
qed

lemma messageStart_simulates: "simulates s (anthToResHandleMessageStart evt s)"
  by (cases "ase_Message evt")
     (auto simp: anthToResHandleMessageStart_def Let_def emit1_def makeResponsesCreatedEvent_def
      respSpec_def a2rAbs_def zeroResponsesStreamEvent_def intro!: simulates_intros)

lemma messageDelta_simulates: "simulates s (anthToResHandleMessageDelta evt s)"
  by (auto simp: anthToResHandleMessageDelta_def Let_def a2rAbs_def intro!: simulates_silent
      split: option.splits)

lemma blockDelta_simulates: "simulates s (anthToResHandleContentBlockDelta evt s)"
  by (auto simp: anthToResHandleContentBlockDelta_def Let_def a2rAbs_def insideTypes_def
      intro!: simulates_silent inside_simulates split: option.splits)

lemma item_open_simulates:
  assumes "as_CurrentItemType s = []" and "ro_Type item \<noteq> []"
    and "a2rAbs s' = (a2rAbs s)\<lparr>sp_open := Some (ro_ID item, ro_Type item)\<rparr>"
  shows "simulates s (emitItemAdded item s')"
  using assms arg_cong [OF assms(3), of sp_seq] arg_cong [OF assms(3), of sp_next]
  by (auto simp: emitItemAdded_def emit1_def makeResponsesEvent_def respSpec_def
      a2rAbs_def intro!: simulates_one)

lemma close_open_simulates:
  assumes "\<And>s. a2rAbs (f s) = (a2rAbs s)\<lparr>sp_open := Some (ro_ID (item s), ro_Type (item s))\<rparr>"
    and "\<And>s. ro_Type (item s) \<noteq> []"
  shows "simulates s (andThen (closeCurrentResponsesItem s) (\<lambda>s. emitItemAdded (item s) (f s)))"
  by (intro simulates_andThen close_simulates item_open_simulates close_state assms)

lemma partAdded_simulates:
  assumes "rse_OutputIndex e = as_OutputIndex s" and "rse_ItemID e = as_CurrentItemID s"
    and "r = makeResponsesEvent s ''response.content_part.added'' e"
  shows "simulates s ([fst r], snd r\<lparr>as_TextAccum := []\<rparr>)"
  using inside_respSpec [OF _ assms(1,2) refl, of "''response.content_part.added''"]
  by (auto simp: insideTypes_def a2rAbs_def makeResponsesEvent_def assms(3) intro!: simulates_one)

lemma blockStart_simulates: "simulates s (anthToResHandleContentBlockStart newID evt s)"
proof (cases "ase_ContentBlock evt")
  case None
  then show ?thesis by (simp add: anthToResHandleContentBlockStart_def simulates_def)
next
  case (Some block)
  consider "acb_Type block = ''thinking''" | "acb_Type block = ''text''" "as_CurrentItemType s = ''message''"
    | "acb_Type block = ''text''" "as_CurrentItemType s \<noteq> ''message''" | "acb_Type block = ''tool_use''"
    | "acb_Type block \<notin> {''thinking'', ''text'', ''tool_use''}"
    by auto
  then show ?thesis
  proof cases
    case 1
    then show ?thesis
      by (simp add: anthToResHandleContentBlockStart_def Some)
         (rule close_open_simulates; simp add: a2rAbs_def)
  next
    case 2
    then show ?thesis
      by (simp add: anthToResHandleContentBlockStart_def Some case_prod_unfold)
         (intro simulates_andThen simulates_silent refl, simp add: Let_def, rule partAdded_simulates; simp)
  next
    case 3
    then show ?thesis
      by (simp add: anthToResHandleContentBlockStart_def Some case_prod_unfold)
         (rule simulates_andThen, rule close_open_simulates; simp add: a2rAbs_def Let_def;
          rule partAdded_simulates; simp)
  next
    case 4
    then show ?thesis
      by (simp add: anthToResHandleContentBlockStart_def Some)
         (rule close_open_simulates; simp add: a2rAbs_def)
  next
    case 5
    then show ?thesis
      by (simp add: anthToResHandleContentBlockStart_def Some simulates_def)
  qed
qed

lemma blockStop_simulates: "simulates s (anthToResHandleContentBlockStop evt s)"
  unfolding anthToResHandleContentBlockStop_def Let_def
  by (auto intro!: simulates_silent simulates_andThen inside_simulates close_simulates
      simp: insideTypes_def a2rAbs_def)

text \<open>The terminal event, and the finaliser that stands in for it.\<close>

lemma finish_simulates:
  assumes "\<not> as_CompletedSent s"
  shows "simulates s (finishMessage s)"
  unfolding finishMessage_def
proof (rule simulates_andThen [OF close_simulates], goal_cases)
  case 1
  have "as_CurrentItemType (snd (closeCurrentResponsesItem s)) = []"
    and "\<not> as_CompletedSent (snd (closeCurrentResponsesItem s))"
    using assms by simp_all
  then show ?case
    by (simp add: case_prod_unfold makeResponsesCompletedEvent_def respSpec_def a2rAbs_def
        anthropicResponsesStreamTerminalState_def simulates_one)
qed

lemma event_simulates: "simulates s (AnthropicEventToResponsesEvents input s)"
  by (cases input)
     (simp add: AnthropicEventToResponsesEvents_def Let_def messageStart_simulates blockStart_simulates
      blockDelta_simulates blockStop_simulates messageDelta_simulates finish_simulates simulates_silent
      anthToResHandleMessageStop_def)

interpretation a2r: stream_refinement AnthropicEventToResponsesEvents "\<lambda>_. True" "\<lambda>_. True"
  respSpec a2rAbs
  using event_simulates by unfold_locales (simp_all add: simulates_def)

lemma a2rAbs_New: "a2rAbs (NewAnthropicEventToResponsesState now) = respStart"
  by (simp add: a2rAbs_def NewAnthropicEventToResponsesState_def respStart_def)

lemma finalize_simulates: "simulates s (FinalizeAnthropicResponsesStream s)"
  by (simp add: FinalizeAnthropicResponsesStream_def finish_simulates simulates_silent)

lemma responsesStream_simulates:
  "simulates (NewAnthropicEventToResponsesState now) (responsesStream now es)"
  unfolding responsesStream_def
  by (intro simulates_andThen finalize_simulates)
     (use a2r.run_sim [of es "NewAnthropicEventToResponsesState now"] in \<open>simp add: simulates_def\<close>)

lemmas responsesStream_accepted = responsesStream_simulates [unfolded simulates_def a2rAbs_New]

text \<open>
  C31: for every sequence of upstream Anthropic events, in or out of protocol, the events the
  translator and its finaliser write form a consistent Responses stream: they are numbered 0, 1,
  2, and so on without a gap; \<open>response.created\<close> is sent at most once; output items are opened and
  finished one at a time with consecutive output indices, each finished under the identifier and
  type it was opened with; every event between them names the item being streamed; and there is at
  most one terminal event, it comes when no item is open, and the output it reports is the list of
  the items finished before it, with their contents.
\<close>

theorem responsesStream_consistent:
  "accepts_from respSpec respStart (fst (responsesStream now es))
     = Some (a2rAbs (snd (responsesStream now es)))"
  by (rule responsesStream_accepted)

section \<open>One terminal event\<close>

definition isTerminalEvent :: "ResponsesStreamEvent \<Rightarrow> bool" where
  "isTerminalEvent e \<longleftrightarrow> rse_Type e \<in> {''response.completed'', ''response.incomplete''}"

lemma respSpec_over:
  "respSpec p e = Some q \<Longrightarrow> isTerminalEvent e \<longleftrightarrow> sp_over q \<and> \<not> sp_over p"
  "respSpec p e = Some q \<Longrightarrow> sp_over p \<Longrightarrow> sp_over q"
  by (auto simp: respSpec_def isTerminalEvent_def Let_def split: if_splits option.splits)

lemma accepted_terminals:
  "accepts_from respSpec p es = Some q \<Longrightarrow>
     (sp_over p \<longrightarrow> sp_over q) \<and>
     length (filter isTerminalEvent es) + of_bool (sp_over p) = of_bool (sp_over q)"
proof (induction es arbitrary: p)
  case (Cons e es)
  then obtain p' where "respSpec p e = Some p'" and "accepts_from respSpec p' es = Some q"
    by (auto split: option.splits)
  with Cons.IH [of p'] respSpec_over [of p e p'] show ?case by auto
qed simp

lemma emit1_state [simp]: "snd (emit1 (makeResponsesEvent s t e)) = s\<lparr>as_SequenceNumber := as_SequenceNumber s + 1\<rparr>"
  by (simp add: emit1_def makeResponsesEvent_def)

lemma snd_andThen [simp]: "snd (andThen r f) = snd (f (snd r))"
  by (simp add: andThen_def)

lemma snd_makeResponsesEvent [simp]:
  "snd (makeResponsesEvent s t e) = s\<lparr>as_SequenceNumber := as_SequenceNumber s + 1\<rparr>"
  by (simp add: makeResponsesEvent_def)

lemma block_flags [simp]:
  "as_CreatedSent (snd (anthToResHandleContentBlockStart newID evt s)) = as_CreatedSent s"
  "as_CompletedSent (snd (anthToResHandleContentBlockStart newID evt s)) = as_CompletedSent s"
  "as_CreatedSent (snd (anthToResHandleContentBlockDelta evt s)) = as_CreatedSent s"
  "as_CompletedSent (snd (anthToResHandleContentBlockDelta evt s)) = as_CompletedSent s"
  "as_CreatedSent (snd (anthToResHandleContentBlockStop evt s)) = as_CreatedSent s"
  "as_CompletedSent (snd (anthToResHandleContentBlockStop evt s)) = as_CompletedSent s"
  by (simp_all add: anthToResHandleContentBlockStart_def anthToResHandleContentBlockDelta_def
      anthToResHandleContentBlockStop_def emitItemAdded_def Let_def case_prod_unfold split: option.split)

lemma message_flags [simp]:
  "as_CreatedSent (snd (anthToResHandleMessageDelta evt s)) = as_CreatedSent s"
  "as_CompletedSent (snd (anthToResHandleMessageDelta evt s)) = as_CompletedSent s"
  "as_CreatedSent (snd (anthToResHandleMessageStart evt s))"
  "as_CompletedSent (snd (anthToResHandleMessageStart evt s)) = as_CompletedSent s"
  by (simp_all add: anthToResHandleMessageDelta_def anthToResHandleMessageStart_def Let_def emit1_def
      makeResponsesCreatedEvent_def split: option.split)

lemma finish_flags [simp]:
  "as_CreatedSent (snd (finishMessage s)) = as_CreatedSent s"
  "as_CompletedSent (snd (finishMessage s))"
  by (simp_all add: finishMessage_def Let_def case_prod_unfold makeResponsesCompletedEvent_def)

lemma event_flags:
  "as_CreatedSent (snd (AnthropicEventToResponsesEvents input s))
     \<longleftrightarrow> as_CreatedSent s \<or> ase_Type (snd input) = ''message_start''"
  "as_CompletedSent (snd (AnthropicEventToResponsesEvents input s))
     \<longleftrightarrow> as_CompletedSent s \<or> ase_Type (snd input) = ''message_stop''"
  by (cases input; simp add: AnthropicEventToResponsesEvents_def anthToResHandleMessageStop_def Let_def)+

lemma run_flags:
  "as_CreatedSent (snd (run_machine AnthropicEventToResponsesEvents es s))
     \<longleftrightarrow> as_CreatedSent s \<or> (\<exists>e \<in> set es. ase_Type (snd e) = ''message_start'')"
  "as_CompletedSent (snd (run_machine AnthropicEventToResponsesEvents es s))
     \<longleftrightarrow> as_CompletedSent s \<or> (\<exists>e \<in> set es. ase_Type (snd e) = ''message_stop'')"
  by (induction es arbitrary: s) (simp_all add: event_flags disj_assoc)

lemma finalize_flag:
  "as_CompletedSent (snd (FinalizeAnthropicResponsesStream s)) \<longleftrightarrow> as_CompletedSent s \<or> as_CreatedSent s"
  by (auto simp: FinalizeAnthropicResponsesStream_def)

text \<open>
  C33: the client is told that the response ended exactly once for every upstream stream that began
  or ended a message, whether upstream sent its own \<open>message_stop\<close>, several of them, or broke off
  after \<open>message_start\<close>; a stream with neither gets no terminal event.
\<close>

theorem responsesStream_one_terminal:
  "length (filter isTerminalEvent (fst (responsesStream now es)))
     = of_bool (\<exists>e \<in> set es. ase_Type (snd e) \<in> {''message_start'', ''message_stop''})"
proof -
  have "sp_over (a2rAbs (snd (responsesStream now es)))
      \<longleftrightarrow> (\<exists>e \<in> set es. ase_Type (snd e) \<in> {''message_start'', ''message_stop''})"
    by (auto simp: a2rAbs_def responsesStream_def andThen_def finalize_flag run_flags
        NewAnthropicEventToResponsesState_def)
  with accepted_terminals [OF responsesStream_accepted, of now es] show ?thesis
    by (simp add: respStart_def)
qed

section \<open>Text\<close>

lemma responsesText_close [simp]:
  "e \<in> set (fst (closeCurrentResponsesItem s)) \<Longrightarrow> responsesText e = []"
  by (auto simp: closeCurrentResponsesItem_def Let_def emit1_def makeResponsesEvent_def responsesText_def
      split: if_splits)

lemma responsesText_event [simp]:
  "responsesText (fst (makeResponsesEvent s t e)) = (if t = ''response.output_text.delta'' then rse_Delta e else [])"
  by (simp add: makeResponsesEvent_def responsesText_def)

lemma fst_emit1 [simp]: "fst (emit1 r) = [fst r]"
  by (simp add: emit1_def)

lemma set_andThen [simp]: "set (fst (andThen r f)) = set (fst r) \<union> set (fst (f (snd r)))"
  by (simp add: andThen_def)

lemma responsesText_completed [simp]: "responsesText (fst (makeResponsesCompletedEvent s st d)) = []"
  by (simp add: makeResponsesCompletedEvent_def responsesText_def)

lemma responsesText_finish [simp]: "e \<in> set (fst (finishMessage s)) \<Longrightarrow> responsesText e = []"
  by (auto simp: finishMessage_def andThen_def case_prod_unfold Let_def)

lemma responsesText_step:
  "concat (map responsesText (fst (AnthropicEventToResponsesEvents input s))) = anthText (snd input)"
proof -
  obtain newID evt where input: "input = (newID, evt)" by fastforce
  have "concat (map responsesText (fst (anthToResHandleContentBlockStart newID evt s))) = []"
    by (auto simp: anthToResHandleContentBlockStart_def emitItemAdded_def Let_def case_prod_unfold
        split: option.split)
  moreover have "concat (map responsesText (fst (anthToResHandleContentBlockStop evt s))) = []"
    by (auto simp: anthToResHandleContentBlockStop_def Let_def)
  moreover have "concat (map responsesText (fst (anthToResHandleMessageStart evt s))) = []"
    by (simp add: anthToResHandleMessageStart_def Let_def emit1_def makeResponsesCreatedEvent_def
        responsesText_def split: option.split)
  moreover have "ase_Type evt = ''content_block_delta'' \<Longrightarrow>
      concat (map responsesText (fst (anthToResHandleContentBlockDelta evt s))) = anthText evt"
    by (simp add: anthToResHandleContentBlockDelta_def anthText_def Let_def split: option.split)
  moreover have "ase_Type evt \<noteq> ''content_block_delta'' \<Longrightarrow> anthText evt = []"
    by (simp add: anthText_def split: option.split)
  moreover have "concat (map responsesText (fst (anthToResHandleMessageDelta evt s))) = []"
    by (simp add: anthToResHandleMessageDelta_def Let_def)
  moreover have "concat (map responsesText (fst (anthToResHandleMessageStop s))) = []"
    by (auto simp: anthToResHandleMessageStop_def)
  ultimately show ?thesis
    by (auto simp: input AnthropicEventToResponsesEvents_def Let_def)
qed

lemma responsesText_stream:
  "concat (map responsesText (fst (responsesStream now es))) = concat (map (anthText \<circ> snd) es)"
proof -
  have "concat (map responsesText (fst (FinalizeAnthropicResponsesStream s))) = []" for s
    by (auto simp: FinalizeAnthropicResponsesStream_def)
  then show ?thesis
    by (simp add: responsesStream_def andThen_def run_machine_concat [of responsesText _ "anthText \<circ> snd"]
        responsesText_step)
qed

section \<open>The response a client assembles\<close>

text \<open>
  The content blocks of an Anthropic answer with the increments they are streamed in, each with the
  identifier drawn when it starts, and their events.
\<close>

datatype anth_block =
    TextBlock "string list"
  | ThinkingBlock "string list"
  | ToolUseBlock string string "string list"

definition textDelta :: "string \<Rightarrow> AnthropicDelta" where
  "textDelta d = zeroAnthropicDelta\<lparr>ad_Type := ''text_delta'', ad_Text := d\<rparr>"

definition thinkingDelta :: "string \<Rightarrow> AnthropicDelta" where
  "thinkingDelta d = zeroAnthropicDelta\<lparr>ad_Type := ''thinking_delta'', ad_Thinking := d\<rparr>"

fun blockEvents :: "int \<Rightarrow> string \<times> anth_block \<Rightarrow> (string \<times> AnthropicStreamEvent) list" where
  "blockEvents i (u, b) =
     (let (start, deltas) = (case b of
            TextBlock ds \<Rightarrow> (zeroAnthropicContentBlock\<lparr>acb_Type := ''text''\<rparr>, map textDelta ds)
          | ThinkingBlock ds \<Rightarrow> (zeroAnthropicContentBlock\<lparr>acb_Type := ''thinking''\<rparr>, map thinkingDelta ds)
          | ToolUseBlock callID name ds \<Rightarrow>
              (zeroAnthropicContentBlock\<lparr>acb_Type := ''tool_use'', acb_ID := callID, acb_Name := name\<rparr>,
               map inputJSONDelta ds))
      in map (Pair u) (blockStart i start # map (blockDelta i) deltas @ [blockStop i]))"

text \<open>
  The output items the answer stands for.  Consecutive text blocks are the parts of one message
  item, which takes its identifier from the first; \<open>pending\<close> is the message item still open.
\<close>

type_synonym pending_message = "(string \<times> ResponsesContentPart list) option"

definition pendingItems :: "pending_message \<Rightarrow> ResponsesOutput list" where
  "pendingItems pending = (case pending of None \<Rightarrow> []
     | Some (u, parts) \<Rightarrow> [zeroResponsesOutput\<lparr>ro_Type := ''message'', ro_ID := u, ro_Role := ''assistant'',
                             ro_Content := parts, ro_Status := ''completed''\<rparr>])"

fun outputItems :: "pending_message \<Rightarrow> (string \<times> anth_block) list \<Rightarrow> ResponsesOutput list" where
  "outputItems pending [] = pendingItems pending"
| "outputItems pending ((u, TextBlock ds) # bs) =
     (case pending of
        None \<Rightarrow> outputItems (Some (u, [textPart (concat ds)])) bs
      | Some (v, parts) \<Rightarrow> outputItems (Some (v, parts @ [textPart (concat ds)])) bs)"
| "outputItems pending ((u, ThinkingBlock ds) # bs) =
     pendingItems pending
     @ zeroResponsesOutput
         \<lparr>ro_Type := ''reasoning'', ro_ID := u, ro_Status := ''completed'',
          ro_Summary := (if concat ds = [] then [] else [\<lparr>rsm_Type = ''summary_text'', rsm_Text = concat ds\<rparr>])\<rparr>
       # outputItems None bs"
| "outputItems pending ((u, ToolUseBlock callID name ds) # bs) =
     pendingItems pending
     @ zeroResponsesOutput
         \<lparr>ro_Type := ''function_call'', ro_ID := u, ro_CallID := toResponsesCallID callID, ro_Name := name,
          ro_Arguments := (if concat ds = [] then ''{}'' else concat ds), ro_Status := ''completed''\<rparr>
       # outputItems None bs"

text \<open>The state between two blocks.\<close>

definition between :: "pending_message \<Rightarrow> AnthropicEventToResponsesState \<Rightarrow> bool" where
  "between pending s \<longleftrightarrow> as_CurrentArgs s = [] \<and> as_CurrentSummary s = [] \<and>
     (case pending of
        None \<Rightarrow> as_CurrentItemType s = [] \<and> as_CurrentContent s = []
      | Some (u, parts) \<Rightarrow> as_CurrentItemType s = ''message'' \<and> as_CurrentItemID s = u \<and>
          as_CurrentContent s = parts)"

lemma between_close:
  "between pending s \<Longrightarrow> between None (snd (closeCurrentResponsesItem s)) \<and>
     as_Outputs (snd (closeCurrentResponsesItem s)) = as_Outputs s @ pendingItems pending"
  by (auto simp: between_def pendingItems_def closeCurrentResponsesItem_def currentItem_def Let_def
      zeroResponsesOutput_def split: option.splits)

text \<open>Increments go to the accumulator of their kind and nowhere else.\<close>

lemma deltas_run:
  "snd (run_machine AnthropicEventToResponsesEvents (map (Pair u) (map (blockDelta i) (map textDelta ds))) s)
     = s\<lparr>as_TextAccum := as_TextAccum s @ concat ds,
         as_SequenceNumber := as_SequenceNumber s + int (length (filter (\<lambda>d. d \<noteq> []) ds))\<rparr>"
  "snd (run_machine AnthropicEventToResponsesEvents (map (Pair u) (map (blockDelta i) (map thinkingDelta ds))) s)
     = s\<lparr>as_CurrentSummary := as_CurrentSummary s @ concat ds,
         as_SequenceNumber := as_SequenceNumber s + int (length (filter (\<lambda>d. d \<noteq> []) ds))\<rparr>"
  "snd (run_machine AnthropicEventToResponsesEvents (map (Pair u) (map (blockDelta i) (map inputJSONDelta ds))) s)
     = s\<lparr>as_CurrentArgs := as_CurrentArgs s @ concat ds,
         as_SequenceNumber := as_SequenceNumber s + int (length (filter (\<lambda>d. d \<noteq> []) ds))\<rparr>"
  by (induction ds arbitrary: s)
     (simp_all add: AnthropicEventToResponsesEvents_def anthToResHandleContentBlockDelta_def blockDelta_def
      textDelta_def thinkingDelta_def inputJSONDelta_def zero_defs Let_def)

text \<open>What the terminal event reports besides the items is untouched by content blocks.\<close>

definition responseMeta ::
  "AnthropicEventToResponsesState \<Rightarrow> bool \<times> bool \<times> string \<times> string \<times> int \<times> int \<times> int \<times> int \<times> int \<times> string" where
  "responseMeta s = (as_CreatedSent s, as_CompletedSent s, as_ResponseID s, as_Model s, as_Created s,
     as_InputTokens s, as_OutputTokens s, as_CacheReadInputTokens s, as_CacheCreationInputTokens s,
     as_StopReason s)"

lemma meta_close [simp]: "responseMeta (snd (closeCurrentResponsesItem s)) = responseMeta s"
  by (simp add: closeCurrentResponsesItem_def responseMeta_def Let_def)

lemma event_block [simp]:
  "AnthropicEventToResponsesEvents (u, blockStart i b) s = anthToResHandleContentBlockStart u (blockStart i b) s"
  "AnthropicEventToResponsesEvents (u, blockStop i) s = anthToResHandleContentBlockStop (blockStop i) s"
  "ase_ContentBlock (blockStart i b) = Some b"
  by (simp_all add: AnthropicEventToResponsesEvents_def blockStart_def blockStop_def Let_def)

lemma start_text:
  assumes "between pending s"
    and "s1 = snd (anthToResHandleContentBlockStart u
               (blockStart i (zeroAnthropicContentBlock\<lparr>acb_Type := ''text''\<rparr>)) s)"
  shows "between (Some (case pending of None \<Rightarrow> (u, []) | Some m \<Rightarrow> m)) s1 \<and> as_TextAccum s1 = []
         \<and> as_Outputs s1 = as_Outputs s \<and> responseMeta s1 = responseMeta s"
  using assms by (cases pending)
    (auto simp: anthToResHandleContentBlockStart_def emitItemAdded_def Let_def case_prod_unfold
      between_def responseMeta_def closeCurrentResponsesItem_def)

lemma stop_text:
  assumes "as_CurrentItemType s = ''message''"
  shows "snd (anthToResHandleContentBlockStop evt s)
     = s\<lparr>as_TextAccum := [], as_CurrentContent := as_CurrentContent s @ [textPart (as_TextAccum s)],
         as_ContentIndex := as_ContentIndex s + 1, as_SequenceNumber := as_SequenceNumber s + 2\<rparr>"
  using assms by (simp add: anthToResHandleContentBlockStop_def Let_def)

lemma snd_run_append:
  "snd (run_machine f (xs @ ys) s) = snd (run_machine f ys (snd (run_machine f xs s)))"
  by (simp add: run_machine_append case_prod_unfold Let_def)

lemma block_run_split:
  "snd (run_machine AnthropicEventToResponsesEvents
       (map (Pair u) (blockStart i b # map (blockDelta i) ds @ [blockStop i])) s)
     = snd (anthToResHandleContentBlockStop (blockStop i)
         (snd (run_machine AnthropicEventToResponsesEvents (map (Pair u) (map (blockDelta i) ds))
           (snd (anthToResHandleContentBlockStart u (blockStart i b) s)))))"
  by (simp add: snd_run_append del: map_map)

lemma text_block_run:
  assumes "between pending s"
    and "s' = snd (run_machine AnthropicEventToResponsesEvents (blockEvents i (u, TextBlock ds)) s)"
  shows "between (Some (case pending of None \<Rightarrow> (u, [textPart (concat ds)])
             | Some (v, parts) \<Rightarrow> (v, parts @ [textPart (concat ds)]))) s'
         \<and> as_Outputs s' = as_Outputs s \<and> responseMeta s' = responseMeta s"
proof -
  obtain s1 where s1: "s1 = snd (anthToResHandleContentBlockStart u
               (blockStart i (zeroAnthropicContentBlock\<lparr>acb_Type := ''text''\<rparr>)) s)" by blast
  note started = start_text [OF assms(1) s1]
  have "s' = snd (anthToResHandleContentBlockStop (blockStop i)
      (s1\<lparr>as_TextAccum := as_TextAccum s1 @ concat ds,
         as_SequenceNumber := as_SequenceNumber s1 + int (length (filter (\<lambda>d. d \<noteq> []) ds))\<rparr>))"
    by (simp only: assms(2) blockEvents.simps Let_def anth_block.case prod.case block_run_split
        deltas_run flip: s1)
  with started show ?thesis
    by (cases pending) (auto simp: between_def stop_text responseMeta_def)
qed

text \<open>The two kinds of block that are an item of their own.\<close>

lemma start_thinking:
  assumes "between pending s"
    and "s1 = snd (anthToResHandleContentBlockStart u
               (blockStart i (zeroAnthropicContentBlock\<lparr>acb_Type := ''thinking''\<rparr>)) s)"
  shows "as_CurrentItemType s1 = ''reasoning'' \<and> as_CurrentItemID s1 = u \<and> as_CurrentSummary s1 = []
     \<and> as_CurrentArgs s1 = [] \<and> as_CurrentContent s1 = []
     \<and> as_Outputs s1 = as_Outputs s @ pendingItems pending \<and> responseMeta s1 = responseMeta s"
  using between_close [OF assms(1)] meta_close [of s]
  by (auto simp: assms(2) anthToResHandleContentBlockStart_def emitItemAdded_def Let_def
      between_def responseMeta_def simp del: meta_close)

lemma start_tool:
  assumes "between pending s"
    and "s1 = snd (anthToResHandleContentBlockStart u
               (blockStart i (zeroAnthropicContentBlock\<lparr>acb_Type := ''tool_use'', acb_ID := c, acb_Name := n\<rparr>)) s)"
  shows "as_CurrentItemType s1 = ''function_call'' \<and> as_CurrentItemID s1 = u \<and> as_CurrentSummary s1 = []
     \<and> as_CurrentArgs s1 = [] \<and> as_CurrentContent s1 = [] \<and> as_CurrentCallID s1 = toResponsesCallID c
     \<and> as_CurrentName s1 = n
     \<and> as_Outputs s1 = as_Outputs s @ pendingItems pending \<and> responseMeta s1 = responseMeta s"
  using between_close [OF assms(1)] meta_close [of s]
  by (auto simp: assms(2) anthToResHandleContentBlockStart_def emitItemAdded_def Let_def
      between_def responseMeta_def simp del: meta_close)

lemma stop_item:
  assumes "as_CurrentItemType s \<in> {''reasoning'', ''function_call''}"
    and "s' = snd (anthToResHandleContentBlockStop evt s)"
  shows "between None s' \<and> as_Outputs s' = as_Outputs s @ [currentItem s] \<and> responseMeta s' = responseMeta s"
  using assms by (auto simp: anthToResHandleContentBlockStop_def closeCurrentResponsesItem_def Let_def
      between_def responseMeta_def currentItem_def)

lemma thinking_block_run:
  assumes "between pending s"
    and "s' = snd (run_machine AnthropicEventToResponsesEvents (blockEvents i (u, ThinkingBlock ds)) s)"
  shows "between None s' \<and> as_Outputs s' @ items = as_Outputs s @ pendingItems pending
           @ outputItems None [(u, ThinkingBlock ds)] @ items \<and> responseMeta s' = responseMeta s"
proof -
  obtain s1 where s1: "s1 = snd (anthToResHandleContentBlockStart u
               (blockStart i (zeroAnthropicContentBlock\<lparr>acb_Type := ''thinking''\<rparr>)) s)" by blast
  note started = start_thinking [OF assms(1) s1]
  obtain s2 where s2: "s2 = s1\<lparr>as_CurrentSummary := as_CurrentSummary s1 @ concat ds,
         as_SequenceNumber := as_SequenceNumber s1 + int (length (filter (\<lambda>d. d \<noteq> []) ds))\<rparr>" by blast
  have s': "s' = snd (anthToResHandleContentBlockStop (blockStop i) s2)"
    by (simp only: assms(2) blockEvents.simps Let_def anth_block.case prod.case block_run_split
        deltas_run s2 flip: s1)
  have "responseMeta s2 = responseMeta s" and "as_Outputs s2 = as_Outputs s @ pendingItems pending"
    and "currentItem s2 # items = outputItems None [(u, ThinkingBlock ds)] @ items"
    and "as_CurrentItemType s2 = ''reasoning''"
    using started by (simp_all add: s2 responseMeta_def currentItem_def pendingItems_def zeroResponsesOutput_def)
  with stop_item [OF _ s'] show ?thesis by simp
qed

lemma tool_block_run:
  assumes "between pending s"
    and "s' = snd (run_machine AnthropicEventToResponsesEvents (blockEvents i (u, ToolUseBlock c n ds)) s)"
  shows "between None s' \<and> as_Outputs s' @ items = as_Outputs s @ pendingItems pending
           @ outputItems None [(u, ToolUseBlock c n ds)] @ items \<and> responseMeta s' = responseMeta s"
proof -
  obtain s1 where s1: "s1 = snd (anthToResHandleContentBlockStart u
      (blockStart i (zeroAnthropicContentBlock\<lparr>acb_Type := ''tool_use'', acb_ID := c, acb_Name := n\<rparr>)) s)" by blast
  note started = start_tool [OF assms(1) s1]
  obtain s2 where s2: "s2 = s1\<lparr>as_CurrentArgs := as_CurrentArgs s1 @ concat ds,
         as_SequenceNumber := as_SequenceNumber s1 + int (length (filter (\<lambda>d. d \<noteq> []) ds))\<rparr>" by blast
  have s': "s' = snd (anthToResHandleContentBlockStop (blockStop i) s2)"
    by (simp only: assms(2) blockEvents.simps Let_def anth_block.case prod.case block_run_split
        deltas_run s2 flip: s1)
  have "responseMeta s2 = responseMeta s" and "as_Outputs s2 = as_Outputs s @ pendingItems pending"
    and "currentItem s2 # items = outputItems None [(u, ToolUseBlock c n ds)] @ items"
    and "as_CurrentItemType s2 = ''function_call''"
    using started by (simp_all add: s2 responseMeta_def currentItem_def pendingItems_def zeroResponsesOutput_def)
  with stop_item [OF _ s'] show ?thesis by simp
qed

fun answerBlocks :: "int \<Rightarrow> (string \<times> anth_block) list \<Rightarrow> (string \<times> AnthropicStreamEvent) list" where
  "answerBlocks i [] = []"
| "answerBlocks i (b # bs) = blockEvents i b @ answerBlocks (i + 1) bs"

lemma outputItems_flush:
  "outputItems pending ((u, ThinkingBlock ds) # bs)
     = pendingItems pending @ outputItems None [(u, ThinkingBlock ds)] @ outputItems None bs"
  "outputItems pending ((u, ToolUseBlock c n ds) # bs)
     = pendingItems pending @ outputItems None [(u, ToolUseBlock c n ds)] @ outputItems None bs"
  by (simp_all add: pendingItems_def)

lemma answerBlocks_run:
  assumes "between pending s"
    and "s' = snd (run_machine AnthropicEventToResponsesEvents (answerBlocks i bs) s)"
  shows "\<exists>pending'. between pending' s' \<and> as_Outputs s' @ pendingItems pending'
           = as_Outputs s @ outputItems pending bs \<and> responseMeta s' = responseMeta s"
  using assms
proof (induction bs arbitrary: pending s i)
  case (Cons b bs)
  obtain u blk where b: "b = (u, blk)" by fastforce
  obtain s1 where s1: "s1 = snd (run_machine AnthropicEventToResponsesEvents (blockEvents i (u, blk)) s)" by blast
  have s': "s' = snd (run_machine AnthropicEventToResponsesEvents (answerBlocks (i + 1) bs) s1)"
    by (simp only: Cons.prems(2) answerBlocks.simps b snd_run_append s1)
  show ?case
  proof (cases blk)
    case (TextBlock ds)
    from text_block_run [OF Cons.prems(1) s1 [unfolded this]]
    show ?thesis using Cons.IH [OF _ s'] by (cases pending) (fastforce simp: b TextBlock)+
  next
    case (ThinkingBlock ds)
    have "between None s1 \<and> as_Outputs s1 @ outputItems None bs = as_Outputs s @ outputItems pending (b # bs)
        \<and> responseMeta s1 = responseMeta s"
      unfolding b ThinkingBlock outputItems_flush(1) [of pending u ds bs]
      by (rule thinking_block_run [OF Cons.prems(1) s1 [unfolded ThinkingBlock]])
    with Cons.IH [OF _ s', of None] show ?thesis by simp
  next
    case (ToolUseBlock c n ds)
    have "between None s1 \<and> as_Outputs s1 @ outputItems None bs = as_Outputs s @ outputItems pending (b # bs)
        \<and> responseMeta s1 = responseMeta s"
      unfolding b ToolUseBlock outputItems_flush(2) [of pending u c n ds bs]
      by (rule tool_block_run [OF Cons.prems(1) s1 [unfolded ToolUseBlock]])
    with Cons.IH [OF _ s', of None] show ?thesis by simp
  qed
qed auto

text \<open>A whole message, and the counts it reports: a positive count replaces the one before.\<close>

definition answerStream ::
  "AnthropicResponse \<Rightarrow> (string \<times> anth_block) list \<Rightarrow> string \<Rightarrow> AnthropicUsage
     \<Rightarrow> (string \<times> AnthropicStreamEvent) list" where
  "answerStream m bs stopReason u =
     ([], zeroAnthropicStreamEvent\<lparr>ase_Type := ''message_start'', ase_Message := Some m\<rparr>)
     # answerBlocks 0 bs
     @ [([], zeroAnthropicStreamEvent
          \<lparr>ase_Type := ''message_delta'', ase_Usage := Some u,
           ase_Delta := Some (zeroAnthropicDelta\<lparr>ad_StopReason := stopReason\<rparr>)\<rparr>),
        ([], zeroAnthropicStreamEvent\<lparr>ase_Type := ''message_stop''\<rparr>)]"

definition latest :: "int \<Rightarrow> int \<Rightarrow> int" where
  "latest a b = (if b > 0 then b else max a 0)"

lemma run_machine_first_last:
  "run_machine f (e # xs @ ys) s
     = (fst (f e s) @ fst (run_machine f xs (snd (f e s)))
          @ fst (run_machine f ys (snd (run_machine f xs (snd (f e s))))),
        snd (run_machine f ys (snd (run_machine f xs (snd (f e s))))))"
  by (simp add: run_machine.simps(2) run_machine_append case_prod_unfold Let_def)

lemma start_message:
  assumes "s = snd (AnthropicEventToResponsesEvents
      (v, zeroAnthropicStreamEvent\<lparr>ase_Type := ''message_start'', ase_Message := Some m\<rparr>)
      (NewAnthropicEventToResponsesState now))"
  shows "between None s" and "as_Outputs s = []"
    and "responseMeta s = (True, False, ar_ID m, ar_Model m, now, max 0 (au_InputTokens (ar_Usage m)), 0,
           max 0 (au_CacheReadInputTokens (ar_Usage m)), max 0 (au_CacheCreationInputTokens (ar_Usage m)), [])"
  by (auto simp: assms AnthropicEventToResponsesEvents_def anthToResHandleMessageStart_def emit1_def
      makeResponsesCreatedEvent_def NewAnthropicEventToResponsesState_def between_def responseMeta_def Let_def)

lemma end_message:
  assumes "between pending s" and "responseMeta s = (True, False, i, m, now, it, ot, cr, cc, sr)"
    and "0 \<le> it" "0 \<le> cr" "0 \<le> cc"
    and "r = run_machine AnthropicEventToResponsesEvents
        [(v, zeroAnthropicStreamEvent\<lparr>ase_Type := ''message_delta'', ase_Usage := Some u,
           ase_Delta := Some (zeroAnthropicDelta\<lparr>ad_StopReason := stopReason\<rparr>)\<rparr>),
         (w, zeroAnthropicStreamEvent\<lparr>ase_Type := ''message_stop''\<rparr>)] s"
    and "sr' = (if stopReason = [] then sr else stopReason)"
  shows "as_CompletedSent (snd r) \<and> fst r \<noteq> [] \<and> rse_Response (last (fst r)) = Some (zeroResponsesResponse
     \<lparr>rr_ID := i, rr_Object := ''response'', rr_CreatedAt := now, rr_Model := m,
      rr_Status := fst (anthropicResponsesStreamTerminalState sr'),
      rr_Output := as_Outputs s @ pendingItems pending,
      rr_Usage := Some (responsesUsageFromCounts (latest it (au_InputTokens u)) (au_OutputTokens u)
        (latest cr (au_CacheReadInputTokens u)) (latest cc (au_CacheCreationInputTokens u))),
      rr_IncompleteDetails := snd (anthropicResponsesStreamTerminalState sr')\<rparr>)"
proof -
  obtain s1 where s1: "s1 = snd (AnthropicEventToResponsesEvents
      (v, zeroAnthropicStreamEvent\<lparr>ase_Type := ''message_delta'', ase_Usage := Some u,
           ase_Delta := Some (zeroAnthropicDelta\<lparr>ad_StopReason := stopReason\<rparr>)\<rparr>) s)" by blast
  have m1: "between pending s1 \<and> as_Outputs s1 = as_Outputs s \<and> responseMeta s1 = (True, False, i, m, now,
      latest it (au_InputTokens u), au_OutputTokens u, latest cr (au_CacheReadInputTokens u),
      latest cc (au_CacheCreationInputTokens u), sr')"
    using assms(1-5,7) unfolding s1
    by (auto simp: AnthropicEventToResponsesEvents_def anthToResHandleMessageDelta_def between_def
        responseMeta_def latest_def Let_def split: option.splits)
  obtain s2 where s2: "s2 = snd (closeCurrentResponsesItem s1)" by blast
  have m2: "as_Outputs s2 = as_Outputs s @ pendingItems pending" "responseMeta s2 = responseMeta s1"
    using between_close [of pending s1] m1 by (simp_all add: s2)
  have step: "fst r = fst (anthToResHandleMessageStop s1)" "snd r = snd (anthToResHandleMessageStop s1)"
    by (simp_all add: assms(6) s1)
       (simp_all add: AnthropicEventToResponsesEvents_def anthToResHandleMessageDelta_def Let_def)
  show ?thesis
    using m1 m2 by (simp add: step anthToResHandleMessageStop_def finishMessage_def andThen_def
        case_prod_unfold makeResponsesCompletedEvent_def responseMeta_def Let_def flip: s2)
qed

text \<open>
  C32: for every Anthropic answer (any number of text, thinking and tool blocks in any order, each
  streamed in any increments), the terminal event carries the complete response: its output is
  exactly the answer's items with their full texts, summaries and arguments, consecutive text
  blocks joined as the parts of one message, and its status and usage are those the answer
  reported.
\<close>

theorem responsesStream_answer:
  "rse_Response (last (fst (responsesStream now (answerStream m bs stopReason u)))) = Some (zeroResponsesResponse
     \<lparr>rr_ID := ar_ID m, rr_Object := ''response'', rr_CreatedAt := now, rr_Model := ar_Model m,
      rr_Status := (if stopReason = ''max_tokens'' then ''incomplete'' else ''completed''),
      rr_IncompleteDetails :=
        (if stopReason = ''max_tokens'' then Some \<lparr>rid_Reason = ''max_output_tokens''\<rparr> else None),
      rr_Output := outputItems None bs,
      rr_Usage := Some (responsesUsageFromCounts
        (latest (au_InputTokens (ar_Usage m)) (au_InputTokens u)) (au_OutputTokens u)
        (latest (au_CacheReadInputTokens (ar_Usage m)) (au_CacheReadInputTokens u))
        (latest (au_CacheCreationInputTokens (ar_Usage m)) (au_CacheCreationInputTokens u)))\<rparr>)"
proof -
  let ?f = AnthropicEventToResponsesEvents
  let ?start = "([], zeroAnthropicStreamEvent\<lparr>ase_Type := ''message_start'', ase_Message := Some m\<rparr>)"
  obtain s0 where s0: "s0 = snd (?f ?start (NewAnthropicEventToResponsesState now))" by blast
  note started = start_message [OF s0]
  obtain s1 where s1: "s1 = snd (run_machine ?f (answerBlocks 0 bs) s0)" by blast
  from answerBlocks_run [OF started(1) s1] obtain pending where between: "between pending s1"
    and items: "as_Outputs s1 @ pendingItems pending = outputItems None bs"
    and meta: "responseMeta s1 = responseMeta s0"
    by (auto simp: started(2))
  obtain tail where tail: "tail = [([] :: string, zeroAnthropicStreamEvent
          \<lparr>ase_Type := ''message_delta'', ase_Usage := Some u,
           ase_Delta := Some (zeroAnthropicDelta\<lparr>ad_StopReason := stopReason\<rparr>)\<rparr>),
        ([], zeroAnthropicStreamEvent\<lparr>ase_Type := ''message_stop''\<rparr>)]" by blast
  obtain r where r: "r = run_machine ?f tail s1" by blast
  note ending = end_message [OF between meta [unfolded started(3)] _ _ _ r [unfolded tail] refl]
  have run: "run_machine ?f (answerStream m bs stopReason u) (NewAnthropicEventToResponsesState now)
      = ((fst (?f ?start (NewAnthropicEventToResponsesState now)) @ fst (run_machine ?f (answerBlocks 0 bs) s0))
           @ fst r, snd r)"
    by (simp only: answerStream_def tail [symmetric] run_machine_first_last s0 [symmetric] s1 [symmetric]
        r [symmetric] append_assoc)
  have "fst (responsesStream now (answerStream m bs stopReason u)) =
      (fst (?f ?start (NewAnthropicEventToResponsesState now)) @ fst (run_machine ?f (answerBlocks 0 bs) s0)) @ fst r"
    using ending by (simp add: responsesStream_def andThen_def run FinalizeAnthropicResponsesStream_def)
  with ending show ?thesis
    by (simp add: items anthropicResponsesStreamTerminalState_def latest_def max.commute)
qed

section \<open>Usage\<close>

text \<open>
  C34: translating Anthropic counts to Responses usage and back gives the counts again, whenever
  they are non-negative: the total the Responses API reports contains the cached parts, and the way
  back takes them out.
\<close>

theorem usage_roundtrip:
  assumes "0 \<le> input" and "0 \<le> cacheRead" and "0 \<le> cacheCreation"
  shows "anthropicUsageFromResponsesUsage (Some (responsesUsageFromCounts input output cacheRead cacheCreation))
     = zeroAnthropicUsage\<lparr>au_InputTokens := input, au_OutputTokens := output,
         au_CacheReadInputTokens := cacheRead, au_CacheCreationInputTokens := cacheCreation\<rparr>"
  using assms
  by (auto simp: anthropicUsageFromResponsesUsage_def responsesUsageFromCounts_def Let_def zero_defs)

theorem usage_roundtrip_witness:
  "anthropicUsageFromResponsesUsage (Some (responsesUsageFromCounts 10 4 90 3))
     = zeroAnthropicUsage\<lparr>au_InputTokens := 10, au_OutputTokens := 4,
         au_CacheReadInputTokens := 90, au_CacheCreationInputTokens := 3\<rparr>"
  by (rule usage_roundtrip) simp_all

section \<open>Blocks of other types\<close>

text \<open>
  The input increments of a block the translator skips (its start and stop emit nothing, as for
  \<open>server_tool_use\<close>) stay in the argument accumulator, and the next tool call is reported with
  them in front of its own arguments, whatever both were.
\<close>

lemma skipped_block_leaks_arguments:
  "as_Outputs (snd (run_machine AnthropicEventToResponsesEvents
     (map (Pair u)
       [blockStart 0 (zeroAnthropicContentBlock\<lparr>acb_Type := ''server_tool_use''\<rparr>),
        blockDelta 0 (inputJSONDelta x), blockStop 0,
        blockStart 1 (zeroAnthropicContentBlock\<lparr>acb_Type := ''tool_use'', acb_ID := c, acb_Name := name\<rparr>),
        blockDelta 1 (inputJSONDelta y), blockStop 1]) (NewAnthropicEventToResponsesState now)))
   = [zeroResponsesOutput
        \<lparr>ro_Type := ''function_call'', ro_ID := u, ro_CallID := toResponsesCallID c, ro_Name := name,
         ro_Arguments := (if x @ y = [] then ''{}'' else x @ y), ro_Status := ''completed''\<rparr>]"
proof -
  have delta: "snd (AnthropicEventToResponsesEvents (u, blockDelta i (inputJSONDelta d)) s)
      = s\<lparr>as_CurrentArgs := as_CurrentArgs s @ d, as_SequenceNumber := as_SequenceNumber s + of_bool (d \<noteq> [])\<rparr>"
    for i d s
    using deltas_run(3) [of u i "[d]" s] by simp
  show ?thesis
    by (simp add: delta anthToResHandleContentBlockStart_def anthToResHandleContentBlockStop_def
        closeCurrentResponsesItem_def emitItemAdded_def currentItem_def
        NewAnthropicEventToResponsesState_def zeroResponsesOutput_def Let_def)
qed

end
