(* ===== verification/Responses_To_Chat.thy ===== *)
theory Responses_To_Chat
  imports Compat_Types
begin

text \<open>
  \<open>internal/pkg/apicompat/responses_to_chatcompletions.go\<close>: an OpenAI Responses answer as a Chat
  Completions answer, in one object and as a stream of chunks, and the accumulator that rebuilds a
  response from its stream when the terminal event carries no output.

  The identifier \<open>generateChatCmplID\<close> draws and the current time are arguments.  Lemmas: the
  message a streaming client assembles is the message the buffered path returns, the number of
  finish chunks, and what \<open>SupplementResponseOutput\<close> may change.
\<close>

section \<open>Usage\<close>

definition promptDetailsFromResponses ::
  "ResponsesInputTokensDetails option \<Rightarrow> ChatTokenDetails option" where
  "promptDetailsFromResponses src = (case src of
     None \<Rightarrow> None
   | Some d \<Rightarrow>
       if ritd_CachedTokens d = 0 \<and> ritd_AudioTokens d = 0 \<and> ritd_CacheCreationTokens d = 0
          \<and> ritd_CacheWriteTokens d = 0 then None
       else Some (zeroChatTokenDetails
         \<lparr>ctd_CachedTokens := ritd_CachedTokens d, ctd_AudioTokens := ritd_AudioTokens d,
          ctd_CacheCreationTokens := ritd_CacheCreationTokens d,
          ctd_CacheWriteTokens := ritd_CacheWriteTokens d\<rparr>))"

definition completionDetailsFromResponses ::
  "ResponsesOutputTokensDetails option \<Rightarrow> ChatTokenDetails option" where
  "completionDetailsFromResponses src = (case src of
     None \<Rightarrow> None
   | Some d \<Rightarrow>
       if rotd_ReasoningTokens d = 0 \<and> rotd_AudioTokens d = 0 \<and>
          rotd_AcceptedPredictionTokens d = 0 \<and> rotd_RejectedPredictionTokens d = 0 then None
       else Some (zeroChatTokenDetails
         \<lparr>ctd_ReasoningTokens := rotd_ReasoningTokens d, ctd_AudioTokens := rotd_AudioTokens d,
          ctd_AcceptedPredictionTokens := rotd_AcceptedPredictionTokens d,
          ctd_RejectedPredictionTokens := rotd_RejectedPredictionTokens d\<rparr>))"

definition chatUsageFromResponsesUsage :: "ResponsesUsage option \<Rightarrow> ChatUsage option" where
  "chatUsageFromResponsesUsage u' = (case u' of
     None \<Rightarrow> None
   | Some u \<Rightarrow>
       let details = promptDetailsFromResponses (ru_InputTokensDetails u);
           details =
             (if ru_CacheCreationInputTokens u > 0 then
                (let d = (case details of None \<Rightarrow> zeroChatTokenDetails | Some d \<Rightarrow> d)
                 in Some (if ctd_CacheWriteTokens d = 0 \<and> ctd_CacheCreationTokens d = 0
                          then d\<lparr>ctd_CacheCreationTokens := ru_CacheCreationInputTokens u\<rparr> else d))
              else details)
       in Some \<lparr>cu_PromptTokens = ru_InputTokens u, cu_CompletionTokens = ru_OutputTokens u,
                cu_TotalTokens = ru_InputTokens u + ru_OutputTokens u,
                cu_PromptTokensDetails = details,
                cu_CompletionTokensDetails = completionDetailsFromResponses (ru_OutputTokensDetails u)\<rparr>)"

section \<open>One object\<close>

definition responsesStatusToChatFinishReason ::
  "string \<Rightarrow> ResponsesIncompleteDetails option \<Rightarrow> ChatToolCall list \<Rightarrow> string" where
  "responsesStatusToChatFinishReason status details toolCalls =
     (if status = ''incomplete'' then
        (case details of
           Some d \<Rightarrow> (if rid_Reason d = ''max_output_tokens'' then ''length''
                      else if rid_Reason d = ''content_filter'' then ''content_filter'' else ''stop'')
         | None \<Rightarrow> ''stop'')
      else if status = ''completed'' then (if length toolCalls > 0 then ''tool_calls'' else ''stop'')
      else ''stop'')"

text \<open>The loop over \<open>resp.Output\<close>: content text, reasoning text and tool calls.\<close>

definition partText :: "ResponsesContentPart \<Rightarrow> string" where
  "partText part = (if rcp_Type part = ''output_text'' \<and> rcp_Text part \<noteq> [] then rcp_Text part else [])"

definition summaryText :: "ResponsesSummary \<Rightarrow> string" where
  "summaryText s = (if rsm_Type s = ''summary_text'' \<and> rsm_Text s \<noteq> [] then rsm_Text s else [])"

fun collectOutput ::
  "ResponsesOutput list \<Rightarrow> string \<times> string \<times> ChatToolCall list \<Rightarrow> string \<times> string \<times> ChatToolCall list" where
  "collectOutput [] acc = acc"
| "collectOutput (item # rest) (contentText, reasoningText, toolCalls) = collectOutput rest
     (if ro_Type item = ''message'' then
        (contentText @ concat (map partText (ro_Content item)), reasoningText, toolCalls)
      else if ro_Type item = ''function_call'' then
        (contentText, reasoningText, toolCalls @
           [\<lparr>ctc_Index = None, ctc_ID = ro_CallID item, ctc_Type = ''function'',
             ctc_Function = \<lparr>cfc_Name = ro_Name item, cfc_Arguments = ro_Arguments item\<rparr>\<rparr>])
      else if ro_Type item = ''reasoning'' then
        (contentText, reasoningText @ concat (map summaryText (ro_Summary item)), toolCalls)
      else (contentText, reasoningText, toolCalls))"

definition ResponsesToChatCompletions ::
  "json_lib \<Rightarrow> string \<Rightarrow> int \<Rightarrow> ResponsesResponse \<Rightarrow> string \<Rightarrow> ChatCompletionsResponse" where
  "ResponsesToChatCompletions J newID now resp model =
     (let (contentText, reasoningText, toolCalls) = collectOutput (rr_Output resp) ([], [], []);
          msg = zeroChatMessage
            \<lparr>cm_Role := ''assistant'', cm_ToolCalls := toolCalls,
             cm_Content := (if contentText \<noteq> [] then json_MarshalString J contentText else []),
             cm_ReasoningContent := reasoningText\<rparr>
      in \<lparr>ccr_ID = (if rr_ID resp = [] then newID else rr_ID resp), ccr_Object = ''chat.completion'',
          ccr_Created = now, ccr_Model = model,
          ccr_Choices = [\<lparr>cch_Index = 0, cch_Message = msg,
            cch_FinishReason = responsesStatusToChatFinishReason (rr_Status resp)
              (rr_IncompleteDetails resp) toolCalls\<rparr>],
          ccr_Usage = chatUsageFromResponsesUsage (rr_Usage resp),
          ccr_SystemFingerprint = [], ccr_ServiceTier = rr_ServiceTier resp\<rparr>)"

section \<open>The stream state\<close>

record ResponsesEventToChatState =
  cs_ID :: string
  cs_Model :: string
  cs_Created :: int
  cs_ServiceTier :: string
  cs_SentRole :: bool
  cs_SawToolCall :: bool
  cs_SawText :: bool
  cs_Finalized :: bool
  cs_NextToolCallIndex :: int
  cs_OutputIndexToToolIndex :: "int \<rightharpoonup> int"
  cs_OutputIndexToArguments :: "int \<rightharpoonup> string"
  cs_IncludeUsage :: bool
  cs_Usage :: "ChatUsage option"

definition NewResponsesEventToChatState :: "string \<Rightarrow> int \<Rightarrow> ResponsesEventToChatState" where [state_defs]:
  "NewResponsesEventToChatState newID now =
     \<lparr>cs_ID = newID, cs_Model = [], cs_Created = now, cs_ServiceTier = [], cs_SentRole = False,
      cs_SawToolCall = False, cs_SawText = False, cs_Finalized = False, cs_NextToolCallIndex = 0,
      cs_OutputIndexToToolIndex = Map.empty, cs_OutputIndexToArguments = Map.empty,
      cs_IncludeUsage = False, cs_Usage = None\<rparr>"

type_synonym r2c_result = "ChatCompletionsChunk list \<times> ResponsesEventToChatState"

definition argumentsAt :: "ResponsesEventToChatState \<Rightarrow> int \<Rightarrow> string" where
  "argumentsAt state oi = (case cs_OutputIndexToArguments state oi of None \<Rightarrow> [] | Some a \<Rightarrow> a)"

section \<open>Chunks\<close>

definition makeChatDeltaChunk :: "ResponsesEventToChatState \<Rightarrow> ChatDelta \<Rightarrow> ChatCompletionsChunk" where
  "makeChatDeltaChunk state delta =
     \<lparr>ccc_ID = cs_ID state, ccc_Object = ''chat.completion.chunk'', ccc_Created = cs_Created state,
      ccc_Model = cs_Model state,
      ccc_Choices = [\<lparr>cck_Index = 0, cck_Delta = delta, cck_FinishReason = None\<rparr>],
      ccc_Usage = None, ccc_SystemFingerprint = [], ccc_ServiceTier = cs_ServiceTier state\<rparr>"

definition makeChatFinishChunk :: "ResponsesEventToChatState \<Rightarrow> string \<Rightarrow> ChatCompletionsChunk" where
  "makeChatFinishChunk state finishReason =
     \<lparr>ccc_ID = cs_ID state, ccc_Object = ''chat.completion.chunk'', ccc_Created = cs_Created state,
      ccc_Model = cs_Model state,
      ccc_Choices = [\<lparr>cck_Index = 0, cck_Delta = zeroChatDelta\<lparr>cd_Content := Some []\<rparr>,
                      cck_FinishReason = Some finishReason\<rparr>],
      ccc_Usage = None, ccc_SystemFingerprint = [], ccc_ServiceTier = cs_ServiceTier state\<rparr>"

text \<open>The finish chunk, and the usage chunk when the client asked for usage and it is known.\<close>

definition finishChunks :: "ResponsesEventToChatState \<Rightarrow> string \<Rightarrow> ChatCompletionsChunk list" where
  "finishChunks state finishReason = makeChatFinishChunk state finishReason #
     (if cs_IncludeUsage state \<and> cs_Usage state \<noteq> None then
        [\<lparr>ccc_ID = cs_ID state, ccc_Object = ''chat.completion.chunk'', ccc_Created = cs_Created state,
          ccc_Model = cs_Model state, ccc_Choices = [], ccc_Usage = cs_Usage state,
          ccc_SystemFingerprint = [], ccc_ServiceTier = cs_ServiceTier state\<rparr>]
      else [])"

section \<open>Handlers\<close>

definition resToChatHandleCreated ::
  "ResponsesStreamEvent \<Rightarrow> ResponsesEventToChatState \<Rightarrow> r2c_result" where
  "resToChatHandleCreated evt state =
     (let state = (case rse_Response evt of
            None \<Rightarrow> state
          | Some r \<Rightarrow> state
              \<lparr>cs_ID := (if rr_ID r \<noteq> [] then rr_ID r else cs_ID state),
               cs_Model := (if cs_Model state = [] \<and> rr_Model r \<noteq> [] then rr_Model r else cs_Model state),
               cs_ServiceTier := (if rr_ServiceTier r \<noteq> [] then rr_ServiceTier r else cs_ServiceTier state)\<rparr>)
      in if cs_SentRole state then ([], state)
         else let state = state\<lparr>cs_SentRole := True\<rparr>
              in ([makeChatDeltaChunk state (zeroChatDelta\<lparr>cd_Role := ''assistant''\<rparr>)], state))"

definition resToChatHandleTextDelta ::
  "ResponsesStreamEvent \<Rightarrow> ResponsesEventToChatState \<Rightarrow> r2c_result" where
  "resToChatHandleTextDelta evt state =
     (if rse_Delta evt = [] then ([], state)
      else let state = state\<lparr>cs_SawText := True\<rparr>
           in ([makeChatDeltaChunk state (zeroChatDelta\<lparr>cd_Content := Some (rse_Delta evt)\<rparr>)], state))"

definition resToChatHandleOutputItemAdded ::
  "ResponsesStreamEvent \<Rightarrow> ResponsesEventToChatState \<Rightarrow> r2c_result" where
  "resToChatHandleOutputItemAdded evt state =
     (case rse_Item evt of
        None \<Rightarrow> ([], state)
      | Some item \<Rightarrow>
          if ro_Type item \<noteq> ''function_call'' \<and> ro_Type item \<noteq> ''custom_tool_call'' then ([], state)
          else
            let idx = cs_NextToolCallIndex state;
                state = state
                  \<lparr>cs_SawToolCall := True,
                   cs_OutputIndexToToolIndex := (cs_OutputIndexToToolIndex state)(rse_OutputIndex evt \<mapsto> idx),
                   cs_NextToolCallIndex := idx + 1\<rparr>
            in ([makeChatDeltaChunk state (zeroChatDelta
                   \<lparr>cd_ToolCalls := [\<lparr>ctc_Index = Some idx, ctc_ID = ro_CallID item, ctc_Type = ''function'',
                      ctc_Function = \<lparr>cfc_Name = ro_Name item, cfc_Arguments = []\<rparr>\<rparr>]\<rparr>)], state))"

definition argumentsChunk :: "ResponsesEventToChatState \<Rightarrow> int \<Rightarrow> string \<Rightarrow> ChatCompletionsChunk" where
  "argumentsChunk state idx args = makeChatDeltaChunk state (zeroChatDelta
     \<lparr>cd_ToolCalls := [\<lparr>ctc_Index = Some idx, ctc_ID = [], ctc_Type = [],
        ctc_Function = \<lparr>cfc_Name = [], cfc_Arguments = args\<rparr>\<rparr>]\<rparr>)"

definition resToChatHandleFuncArgsDelta ::
  "ResponsesStreamEvent \<Rightarrow> ResponsesEventToChatState \<Rightarrow> r2c_result" where
  "resToChatHandleFuncArgsDelta evt state =
     (if rse_Delta evt = [] then ([], state)
      else case cs_OutputIndexToToolIndex state (rse_OutputIndex evt) of
        None \<Rightarrow> ([], state)
      | Some idx \<Rightarrow>
          let state = state
                \<lparr>cs_OutputIndexToArguments := (cs_OutputIndexToArguments state)
                   (rse_OutputIndex evt \<mapsto> argumentsAt state (rse_OutputIndex evt) @ rse_Delta evt)\<rparr>
          in ([argumentsChunk state idx (rse_Delta evt)], state))"

definition completedArguments :: "ResponsesStreamEvent \<Rightarrow> string" where
  "completedArguments evt =
     (if rse_Type evt = ''response.custom_tool_call_input.done'' then rse_Input evt else rse_Arguments evt)"

definition resToChatHandleFuncArgsDone ::
  "ResponsesStreamEvent \<Rightarrow> ResponsesEventToChatState \<Rightarrow> r2c_result" where
  "resToChatHandleFuncArgsDone evt state =
     (case cs_OutputIndexToToolIndex state (rse_OutputIndex evt) of
        None \<Rightarrow> ([], state)
      | Some idx \<Rightarrow>
          let completed = completedArguments evt;
              current = argumentsAt state (rse_OutputIndex evt)
          in if completed = [] \<or> \<not> HasPrefix completed current \<or> completed = current then ([], state)
             else
               let remainder = drop (length current) completed;
                   state = state\<lparr>cs_OutputIndexToArguments :=
                     (cs_OutputIndexToArguments state)(rse_OutputIndex evt \<mapsto> completed)\<rparr>
               in ([argumentsChunk state idx remainder], state))"

definition resToChatHandleReasoningDelta ::
  "ResponsesStreamEvent \<Rightarrow> ResponsesEventToChatState \<Rightarrow> r2c_result" where
  "resToChatHandleReasoningDelta evt state =
     (if rse_Delta evt = [] then ([], state)
      else ([makeChatDeltaChunk state (zeroChatDelta\<lparr>cd_ReasoningContent := Some (rse_Delta evt)\<rparr>)], state))"

definition resToChatHandleCompleted ::
  "ResponsesStreamEvent \<Rightarrow> ResponsesEventToChatState \<Rightarrow> r2c_result" where
  "resToChatHandleCompleted evt state =
     (let state = state\<lparr>cs_Finalized := True\<rparr>;
          state = (if rse_Usage evt \<noteq> None
                   then state\<lparr>cs_Usage := chatUsageFromResponsesUsage (rse_Usage evt)\<rparr> else state);
          (finishReason, state) = (case rse_Response evt of
             None \<Rightarrow> (if cs_SawToolCall state then ''tool_calls'' else ''stop'', state)
           | Some r \<Rightarrow>
               (if rr_Status r = ''incomplete'' then
                  (case rr_IncompleteDetails r of
                     Some d \<Rightarrow> (if rid_Reason d = ''max_output_tokens'' then ''length''
                                else if rid_Reason d = ''content_filter'' then ''content_filter'' else ''stop'')
                   | None \<Rightarrow> ''stop'')
                else if rr_Status r = ''completed'' then
                  (if cs_SawToolCall state then ''tool_calls'' else ''stop'')
                else ''stop'',
                state
                  \<lparr>cs_Usage := (if rr_Usage r \<noteq> None then chatUsageFromResponsesUsage (rr_Usage r)
                               else cs_Usage state),
                   cs_ServiceTier := (if rr_ServiceTier r \<noteq> [] then rr_ServiceTier r
                                      else cs_ServiceTier state)\<rparr>))
      in (finishChunks state finishReason, state))"

definition isTerminalType :: "string \<Rightarrow> bool" where
  "isTerminalType t \<longleftrightarrow>
     t \<in> {''response.completed'', ''response.done'', ''response.incomplete'', ''response.failed''}"

definition ResponsesEventToChatChunks ::
  "ResponsesStreamEvent \<Rightarrow> ResponsesEventToChatState \<Rightarrow> r2c_result" where
  "ResponsesEventToChatChunks evt state =
     (let t = rse_Type evt
      in if t = ''response.created'' then resToChatHandleCreated evt state
         else if t = ''response.output_text.delta'' then resToChatHandleTextDelta evt state
         else if t = ''response.output_item.added'' then resToChatHandleOutputItemAdded evt state
         else if t = ''response.function_call_arguments.delta'' \<or> t = ''response.custom_tool_call_input.delta''
           then resToChatHandleFuncArgsDelta evt state
         else if t = ''response.function_call_arguments.done'' \<or> t = ''response.custom_tool_call_input.done''
           then resToChatHandleFuncArgsDone evt state
         else if t = ''response.reasoning_summary_text.delta'' \<or> t = ''response.reasoning_text.delta''
           then resToChatHandleReasoningDelta evt state
         else if isTerminalType t then resToChatHandleCompleted evt state
         else ([], state))"

definition FinalizeResponsesChatStream :: "ResponsesEventToChatState \<Rightarrow> r2c_result" where
  "FinalizeResponsesChatStream state =
     (if cs_Finalized state then ([], state)
      else let state = state\<lparr>cs_Finalized := True\<rparr>
           in (finishChunks state (if cs_SawToolCall state then ''tool_calls'' else ''stop''), state))"

section \<open>The buffered accumulator\<close>

text \<open>
  The \<open>strings.Builder\<close> \<open>Args\<close> is held by value: \<open>fc_Args\<close> is its content and \<open>fc_addr\<close> the pointer
  to itself it keeps from its first write on.  A slice is an array with a capacity; an element that
  is appended beyond the capacity moves all of them to a new array, so a pointer into the slice is
  the number of the array.  The capacity the runtime gives a new array is the parameter \<open>grow\<close>.
\<close>

record bufferedFuncCall =
  fc_OutputIndex :: int
  fc_CallID :: string
  fc_Name :: string
  fc_Args :: string
  fc_addr :: "nat option"

record BufferedResponseAccumulator =
  ba_text :: string
  ba_reasoning :: string
  ba_funcCalls :: "bufferedFuncCall list"
  ba_capacity :: nat
  ba_array :: nat
  ba_outputIndexToFuncIdx :: "int \<rightharpoonup> nat"

definition NewBufferedResponseAccumulator :: BufferedResponseAccumulator where [state_defs]:
  "NewBufferedResponseAccumulator =
     \<lparr>ba_text = [], ba_reasoning = [], ba_funcCalls = [], ba_capacity = 0, ba_array = 0,
      ba_outputIndexToFuncIdx = Map.empty\<rparr>"

text \<open>
  Writing to a builder that was written at another address panics (\<open>None\<close>); a reset builder forgets
  the address.
\<close>

definition builderWrite :: "nat \<Rightarrow> string \<Rightarrow> bufferedFuncCall \<Rightarrow> bufferedFuncCall option" where
  "builderWrite array d call =
     (if fc_addr call = None \<or> fc_addr call = Some array
      then Some (call\<lparr>fc_addr := Some array, fc_Args := fc_Args call @ d\<rparr>) else None)"

definition builderReset :: "bufferedFuncCall \<Rightarrow> bufferedFuncCall" where
  "builderReset call = call\<lparr>fc_addr := None, fc_Args := []\<rparr>"

definition appendCall ::
  "(nat \<Rightarrow> nat) \<Rightarrow> bufferedFuncCall \<Rightarrow> BufferedResponseAccumulator \<Rightarrow> BufferedResponseAccumulator" where
  "appendCall grow call a =
     (let n = length (ba_funcCalls a) + 1;
          a = (if n \<le> ba_capacity a then a
               else a\<lparr>ba_capacity := grow n, ba_array := ba_array a + 1\<rparr>)
      in a\<lparr>ba_funcCalls := ba_funcCalls a @ [call]\<rparr>)"

text \<open>Operating on the builder \<open>a.funcCalls[idx].Args\<close> of an output index, when it has one.\<close>

definition updateArgs ::
  "int \<Rightarrow> (bufferedFuncCall \<Rightarrow> bufferedFuncCall option) \<Rightarrow> BufferedResponseAccumulator \<Rightarrow>
     BufferedResponseAccumulator option" where
  "updateArgs oi f a = (case ba_outputIndexToFuncIdx a oi of
     None \<Rightarrow> Some a
   | Some idx \<Rightarrow> (case f (ba_funcCalls a ! idx) of
       None \<Rightarrow> None
     | Some call \<Rightarrow> Some (a\<lparr>ba_funcCalls := (ba_funcCalls a)[idx := call]\<rparr>)))"

definition ProcessEvent ::
  "(nat \<Rightarrow> nat) \<Rightarrow> ResponsesStreamEvent \<Rightarrow> BufferedResponseAccumulator \<Rightarrow> BufferedResponseAccumulator option" where
  "ProcessEvent grow event a =
     (let t = rse_Type event; oi = rse_OutputIndex event
      in if t = ''response.output_text.delta'' then
           Some (if rse_Delta event \<noteq> [] then a\<lparr>ba_text := ba_text a @ rse_Delta event\<rparr> else a)
         else if t = ''response.output_item.added'' then
           Some (case rse_Item event of
              None \<Rightarrow> a
            | Some item \<Rightarrow>
                if ro_Type item = ''function_call'' \<or> ro_Type item = ''custom_tool_call'' then
                  appendCall grow
                    \<lparr>fc_OutputIndex = oi, fc_CallID = ro_CallID item, fc_Name = ro_Name item, fc_Args = [],
                     fc_addr = None\<rparr>
                    (a\<lparr>ba_outputIndexToFuncIdx :=
                         (ba_outputIndexToFuncIdx a)(oi \<mapsto> length (ba_funcCalls a))\<rparr>)
                else a)
         else if t = ''response.function_call_arguments.delta'' \<or> t = ''response.custom_tool_call_input.delta'' then
           (if rse_Delta event \<noteq> [] then updateArgs oi (builderWrite (ba_array a) (rse_Delta event)) a else Some a)
         else if t = ''response.function_call_arguments.done'' \<or> t = ''response.custom_tool_call_input.done'' then
           (let completed = completedArguments event
            in if completed \<noteq> []
               then updateArgs oi (\<lambda>call. builderWrite (ba_array a) completed (builderReset call)) a else Some a)
         else if t = ''response.reasoning_summary_text.delta'' \<or> t = ''response.reasoning_text.delta'' then
           Some (if rse_Delta event \<noteq> [] then a\<lparr>ba_reasoning := ba_reasoning a @ rse_Delta event\<rparr> else a)
         else Some a)"

text \<open>The accumulator of a caller that hands it every event it reads.\<close>

fun processEvents ::
  "(nat \<Rightarrow> nat) \<Rightarrow> ResponsesStreamEvent list \<Rightarrow> BufferedResponseAccumulator \<Rightarrow> BufferedResponseAccumulator option" where
  "processEvents grow [] a = Some a"
| "processEvents grow (e # es) a = (case ProcessEvent grow e a of
     None \<Rightarrow> None
   | Some a \<Rightarrow> processEvents grow es a)"

lemma processEvents_append:
  "processEvents grow (es @ fs) a = (case processEvents grow es a of
     None \<Rightarrow> None | Some a \<Rightarrow> processEvents grow fs a)"
  by (induction es arbitrary: a) (simp_all split: option.split)

lemma appendCall_frame [simp]:
  "ba_funcCalls (appendCall grow call a) = ba_funcCalls a @ [call]"
  "ba_text (appendCall grow call a) = ba_text a"
  "ba_reasoning (appendCall grow call a) = ba_reasoning a"
  "ba_outputIndexToFuncIdx (appendCall grow call a) = ba_outputIndexToFuncIdx a"
  by (simp_all add: appendCall_def Let_def)

definition HasContent :: "BufferedResponseAccumulator \<Rightarrow> bool" where
  "HasContent a \<longleftrightarrow> length (ba_text a) > 0 \<or> length (ba_funcCalls a) > 0 \<or> length (ba_reasoning a) > 0"

definition BuildOutput :: "BufferedResponseAccumulator \<Rightarrow> ResponsesOutput list" where
  "BuildOutput a =
     (if length (ba_reasoning a) > 0 then
        [zeroResponsesOutput\<lparr>ro_Type := ''reasoning'',
           ro_Summary := [\<lparr>rsm_Type = ''summary_text'', rsm_Text = ba_reasoning a\<rparr>]\<rparr>]
      else [])
     @ (if length (ba_text a) > 0 then
          [zeroResponsesOutput\<lparr>ro_Type := ''message'', ro_Role := ''assistant'',
             ro_Content := [zeroResponsesContentPart\<lparr>rcp_Type := ''output_text'', rcp_Text := ba_text a\<rparr>]\<rparr>]
        else [])
     @ map (\<lambda>c. zeroResponsesOutput\<lparr>ro_Type := ''function_call'', ro_CallID := fc_CallID c,
                  ro_Name := fc_Name c, ro_Arguments := fc_Args c\<rparr>) (ba_funcCalls a)"

text \<open>The inner loop of \<open>SupplementResponseOutput\<close>: the call of an item.\<close>

fun matchCall ::
  "int \<Rightarrow> string \<Rightarrow> bufferedFuncCall option \<Rightarrow> bufferedFuncCall list \<Rightarrow> bufferedFuncCall option" where
  "matchCall outputIndex callID matched [] = matched"
| "matchCall outputIndex callID matched (call # calls) =
     (if callID \<noteq> [] \<and> callID = fc_CallID call then Some call
      else matchCall outputIndex callID
        (if fc_OutputIndex call = outputIndex \<and> (callID = [] \<or> fc_CallID call = []) then Some call
         else matched) calls)"

definition supplementItem ::
  "BufferedResponseAccumulator \<Rightarrow> int \<times> ResponsesOutput \<Rightarrow> ResponsesOutput" where
  "supplementItem a = (\<lambda>(outputIndex, item).
     if ro_Type item \<noteq> ''function_call'' \<or> ro_Arguments item \<noteq> [] then item
     else case matchCall outputIndex (ro_CallID item) None (ba_funcCalls a) of
       None \<Rightarrow> item
     | Some call \<Rightarrow> if length (fc_Args call) > 0 then item\<lparr>ro_Arguments := fc_Args call\<rparr> else item)"

definition SupplementResponseOutput ::
  "BufferedResponseAccumulator \<Rightarrow> ResponsesResponse \<Rightarrow> ResponsesResponse" where
  "SupplementResponseOutput a resp =
     (if length (rr_Output resp) = 0 then
        (if HasContent a then resp\<lparr>rr_Output := BuildOutput a\<rparr> else resp)
      else resp\<lparr>rr_Output :=
        map (supplementItem a) (zip (map int [0..<length (rr_Output resp)]) (rr_Output resp))\<rparr>)"

section \<open>What a streaming client assembles\<close>

text \<open>
  A Chat Completions client: it appends content and reasoning increments, opens a tool call at the
  next index, appends argument increments to the call their index names, and notes finish reasons.
\<close>

record chat_client =
  cl_content :: string
  cl_reasoning :: string
  cl_calls :: "ChatToolCall list"
  cl_finish :: "string list"

definition emptyClient :: chat_client where
  "emptyClient = \<lparr>cl_content = [], cl_reasoning = [], cl_calls = [], cl_finish = []\<rparr>"

definition appendArguments :: "string \<Rightarrow> ChatToolCall \<Rightarrow> ChatToolCall" where
  "appendArguments args call = call\<lparr>ctc_Function := (ctc_Function call)
     \<lparr>cfc_Arguments := cfc_Arguments (ctc_Function call) @ args\<rparr>\<rparr>"

definition clientCall :: "ChatToolCall \<Rightarrow> ChatToolCall list \<Rightarrow> ChatToolCall list" where
  "clientCall tc calls = (case ctc_Index tc of
     None \<Rightarrow> calls
   | Some i \<Rightarrow>
       if i = int (length calls) then calls @ [tc\<lparr>ctc_Index := None\<rparr>]
       else if 0 \<le> i \<and> i < int (length calls)
       then calls[nat i := appendArguments (cfc_Arguments (ctc_Function tc)) (calls ! nat i)]
       else calls)"

definition clientChoice :: "ChatChunkChoice \<Rightarrow> chat_client \<Rightarrow> chat_client" where
  "clientChoice choice c =
     (let d = cck_Delta choice
      in \<lparr>cl_content = cl_content c @ (case cd_Content d of None \<Rightarrow> [] | Some x \<Rightarrow> x),
          cl_reasoning = cl_reasoning c @ (case cd_ReasoningContent d of None \<Rightarrow> [] | Some x \<Rightarrow> x),
          cl_calls = fold clientCall (cd_ToolCalls d) (cl_calls c),
          cl_finish = cl_finish c @ (case cck_FinishReason choice of None \<Rightarrow> [] | Some r \<Rightarrow> [r])\<rparr>)"

definition clientChunk :: "ChatCompletionsChunk \<Rightarrow> chat_client \<Rightarrow> chat_client" where
  "clientChunk chunk = fold clientChoice (ccc_Choices chunk)"

lemma clientChunk_delta [simp]:
  "clientChunk (makeChatDeltaChunk s (zeroChatDelta\<lparr>cd_Role := r\<rparr>)) c = c"
  "clientChunk (makeChatDeltaChunk s (zeroChatDelta\<lparr>cd_Content := Some x\<rparr>)) c
     = c\<lparr>cl_content := cl_content c @ x\<rparr>"
  "clientChunk (makeChatDeltaChunk s (zeroChatDelta\<lparr>cd_ReasoningContent := Some x\<rparr>)) c
     = c\<lparr>cl_reasoning := cl_reasoning c @ x\<rparr>"
  "clientChunk (makeChatDeltaChunk s (zeroChatDelta\<lparr>cd_ToolCalls := [tc]\<rparr>)) c
     = c\<lparr>cl_calls := clientCall tc (cl_calls c)\<rparr>"
  by (simp_all add: clientChunk_def clientChoice_def makeChatDeltaChunk_def zeroChatDelta_def Let_def)

lemma clientChunk_finish [simp]:
  "fold clientChunk (finishChunks s r) c = c\<lparr>cl_finish := cl_finish c @ [r]\<rparr>"
  by (simp add: clientChunk_def clientChoice_def finishChunks_def makeChatFinishChunk_def zeroChatDelta_def
      Let_def)

text \<open>The tool call a buffered call stands for.\<close>

definition callOf :: "bufferedFuncCall \<Rightarrow> ChatToolCall" where
  "callOf f = \<lparr>ctc_Index = None, ctc_ID = fc_CallID f, ctc_Type = ''function'',
     ctc_Function = \<lparr>cfc_Name = fc_Name f, cfc_Arguments = fc_Args f\<rparr>\<rparr>"

text \<open>The client, the translator and the accumulator after the same events.\<close>

definition agree :: "chat_client \<Rightarrow> ResponsesEventToChatState \<Rightarrow> BufferedResponseAccumulator \<Rightarrow> bool" where
  "agree c s a \<longleftrightarrow>
     cl_content c = ba_text a \<and> cl_reasoning c = ba_reasoning a \<and>
     cl_calls c = map callOf (ba_funcCalls a) \<and>
     cs_NextToolCallIndex s = int (length (ba_funcCalls a)) \<and>
     (cs_SawToolCall s \<longleftrightarrow> ba_funcCalls a \<noteq> []) \<and>
     cs_OutputIndexToToolIndex s = map_option int \<circ> ba_outputIndexToFuncIdx a \<and>
     inj_on (ba_outputIndexToFuncIdx a) (dom (ba_outputIndexToFuncIdx a)) \<and>
     (\<forall>oi. ba_outputIndexToFuncIdx a oi = None \<longrightarrow> argumentsAt s oi = []) \<and>
     (\<forall>oi i. ba_outputIndexToFuncIdx a oi = Some i \<longrightarrow>
        i < length (ba_funcCalls a) \<and> argumentsAt s oi = fc_Args (ba_funcCalls a ! i))"

text \<open>
  Upstream keeps the protocol: an output index is announced once, and completed arguments extend
  the increments sent for them.
\<close>

definition isArgsDone :: "string \<Rightarrow> bool" where
  "isArgsDone t \<longleftrightarrow> t \<in> {''response.function_call_arguments.done'', ''response.custom_tool_call_input.done''}"

definition okEvent :: "ResponsesStreamEvent \<Rightarrow> ResponsesEventToChatState \<Rightarrow> bool" where
  "okEvent e s \<longleftrightarrow>
     (rse_Type e = ''response.output_item.added'' \<longrightarrow> cs_OutputIndexToToolIndex s (rse_OutputIndex e) = None) \<and>
     (isArgsDone (rse_Type e) \<longrightarrow> completedArguments e = []
        \<or> HasPrefix (completedArguments e) (argumentsAt s (rse_OutputIndex e)))"

fun okStream :: "ResponsesStreamEvent list \<Rightarrow> ResponsesEventToChatState \<Rightarrow> bool" where
  "okStream [] s \<longleftrightarrow> True"
| "okStream (e # es) s \<longleftrightarrow> okEvent e s \<and> okStream es (snd (ResponsesEventToChatChunks e s))"

lemma argumentsAt_write [simp]:
  "argumentsAt (s\<lparr>cs_OutputIndexToArguments := m(oi \<mapsto> x)\<rparr>) oi'
     = (if oi' = oi then x else argumentsAt (s\<lparr>cs_OutputIndexToArguments := m\<rparr>) oi')"
  "argumentsAt (s\<lparr>cs_OutputIndexToArguments := cs_OutputIndexToArguments s\<rparr>) oi' = argumentsAt s oi'"
  by (simp_all add: argumentsAt_def)

text \<open>Where a builder lives does not matter to the client.\<close>

lemma agree_calls:
  assumes "agree c s a" and "map callOf (ba_funcCalls a') = map callOf (ba_funcCalls a)"
    and "ba_text a' = ba_text a" and "ba_reasoning a' = ba_reasoning a"
    and "ba_outputIndexToFuncIdx a' = ba_outputIndexToFuncIdx a"
  shows "agree c s a'"
proof -
  have len: "length (ba_funcCalls a') = length (ba_funcCalls a)"
    using assms(2) by (metis length_map)
  have "fc_Args (ba_funcCalls a' ! i) = fc_Args (ba_funcCalls a ! i)" if "i < length (ba_funcCalls a)" for i
  proof -
    have "callOf (ba_funcCalls a' ! i) = callOf (ba_funcCalls a ! i)"
      using that len assms(2) by (metis nth_map)
    then show ?thesis by (simp add: callOf_def)
  qed
  moreover have "ba_funcCalls a' = [] \<longleftrightarrow> ba_funcCalls a = []"
    using len by auto
  ultimately show ?thesis
    using assms len by (auto simp: agree_def)
qed

text \<open>Two ways of writing to a call's arguments that agree.\<close>

lemma agree_write:
  assumes "agree c s a" and "cs_OutputIndexToToolIndex s oi = Some idx"
    and "\<And>call call'. f call = Some call' \<Longrightarrow> fc_Args call = argumentsAt s oi \<Longrightarrow>
      callOf call' = appendArguments d (callOf call)"
    and "s' = s\<lparr>cs_OutputIndexToArguments := (cs_OutputIndexToArguments s)(oi \<mapsto> argumentsAt s oi @ d)\<rparr>"
    and "updateArgs oi f a = Some a'"
  shows "agree (clientChunk (argumentsChunk st idx d) c) s' a'"
proof -
  from assms(1,2) obtain i where i: "ba_outputIndexToFuncIdx a oi = Some i" "idx = int i"
      "i < length (ba_funcCalls a)" "argumentsAt s oi = fc_Args (ba_funcCalls a ! i)"
    by (auto simp: agree_def)
  obtain call' where f: "f (ba_funcCalls a ! i) = Some call'"
      and a': "a' = a\<lparr>ba_funcCalls := (ba_funcCalls a)[i := call']\<rparr>"
    using assms(5) i(1) by (auto simp: updateArgs_def split: option.splits)
  have call': "callOf call' = appendArguments d (callOf (ba_funcCalls a ! i))"
    using assms(3) [OF f] i(4) by simp
  then have args: "fc_Args call' = argumentsAt s oi @ d"
    by (simp add: i(4) callOf_def appendArguments_def)
  have other: "ba_outputIndexToFuncIdx a oi' = Some j \<Longrightarrow> oi' \<noteq> oi \<Longrightarrow> j \<noteq> i" for oi' j
    using assms(1) i(1) unfolding agree_def by (metis domI inj_onD)
  have calls: "cl_calls c = map callOf (ba_funcCalls a)"
    using assms(1) by (simp add: agree_def)
  have "clientChunk (argumentsChunk st idx d) c = c\<lparr>cl_calls := (cl_calls c)
      [i := appendArguments d (cl_calls c ! i)]\<rparr>"
    using i(2,3) by (simp add: argumentsChunk_def clientCall_def calls)
  moreover have "argumentsAt s oi' = [] \<Longrightarrow> ba_outputIndexToFuncIdx a oi' = None \<Longrightarrow> oi' \<noteq> oi" for oi'
    using i(1) by auto
  ultimately show ?thesis
    using assms(1) i other call' args
    by (auto simp: agree_def a' assms(4) map_update nth_list_update)
qed

lemma agree_announce:
  assumes "agree c s a" and "cs_OutputIndexToToolIndex s oi = None"
    and "s' = s\<lparr>cs_SawToolCall := True,
           cs_OutputIndexToToolIndex := (cs_OutputIndexToToolIndex s)(oi \<mapsto> cs_NextToolCallIndex s),
           cs_NextToolCallIndex := cs_NextToolCallIndex s + 1\<rparr>"
    and "call = \<lparr>fc_OutputIndex = oi, fc_CallID = i, fc_Name = n, fc_Args = [], fc_addr = None\<rparr>"
    and "a' = appendCall grow call (a\<lparr>ba_outputIndexToFuncIdx :=
           (ba_outputIndexToFuncIdx a)(oi \<mapsto> length (ba_funcCalls a))\<rparr>)"
  shows "agree (c\<lparr>cl_calls := clientCall (callOf call\<lparr>ctc_Index := Some (cs_NextToolCallIndex s)\<rparr>) (cl_calls c)\<rparr>) s' a'"
proof -
  have fresh: "ba_outputIndexToFuncIdx a oi = None"
    using assms(1,2) by (auto simp: agree_def)
  have bound: "ba_outputIndexToFuncIdx a oi' = Some j \<Longrightarrow> j < length (ba_funcCalls a)" for oi' j
    using assms(1) by (simp add: agree_def)
  have "inj_on (ba_outputIndexToFuncIdx a') (dom (ba_outputIndexToFuncIdx a'))"
  proof (rule inj_onI)
    fix x y
    assume "x \<in> dom (ba_outputIndexToFuncIdx a')" "y \<in> dom (ba_outputIndexToFuncIdx a')"
      "ba_outputIndexToFuncIdx a' x = ba_outputIndexToFuncIdx a' y"
    moreover have "inj_on (ba_outputIndexToFuncIdx a) (dom (ba_outputIndexToFuncIdx a))"
      using assms(1) by (simp add: agree_def)
    ultimately show "x = y"
      by (auto simp: assms(5) dest: bound inj_onD split: if_splits)
  qed
  moreover have "argumentsAt s oi = []"
    using assms(1) fresh by (simp add: agree_def)
  moreover have "argumentsAt s' = argumentsAt s"
    by (simp add: assms(3) argumentsAt_def fun_eq_iff)
  moreover have "cs_OutputIndexToToolIndex s' = map_option int \<circ> ba_outputIndexToFuncIdx a'"
    using assms(1) by (auto simp: agree_def assms(3,5))
  moreover have "callOf call\<lparr>ctc_Index := None\<rparr> = callOf call"
    by (simp add: callOf_def)
  ultimately show ?thesis
    using assms(1) bound
    by (auto simp: agree_def assms(3-5) clientCall_def nth_append callOf_def intro: less_SucI split: if_splits)
qed

lemma agree_frame:
  assumes "agree c s a" and "cs_OutputIndexToArguments s' = cs_OutputIndexToArguments s"
    and "cs_OutputIndexToToolIndex s' = cs_OutputIndexToToolIndex s"
    and "cs_NextToolCallIndex s' = cs_NextToolCallIndex s" and "cs_SawToolCall s' = cs_SawToolCall s"
  shows "agree (c\<lparr>cl_finish := f\<rparr>) s' a"
    and "agree c s' a"
    and "agree (c\<lparr>cl_content := cl_content c @ d\<rparr>) s' (a\<lparr>ba_text := ba_text a @ d\<rparr>)"
    and "agree (c\<lparr>cl_reasoning := cl_reasoning c @ d\<rparr>) s' (a\<lparr>ba_reasoning := ba_reasoning a @ d\<rparr>)"
proof -
  have "argumentsAt s' = argumentsAt s"
    by (simp add: fun_eq_iff argumentsAt_def assms(2))
  with assms(1,3-5) show "agree (c\<lparr>cl_finish := f\<rparr>) s' a"
    and "agree c s' a"
    and "agree (c\<lparr>cl_content := cl_content c @ d\<rparr>) s' (a\<lparr>ba_text := ba_text a @ d\<rparr>)"
    and "agree (c\<lparr>cl_reasoning := cl_reasoning c @ d\<rparr>) s' (a\<lparr>ba_reasoning := ba_reasoning a @ d\<rparr>)"
    by (simp_all add: agree_def)
qed

lemma added_agrees:
  assumes "agree c s a" and "okEvent e s" and "ProcessEvent grow e a = Some a'"
    and "rse_Type e = ''response.output_item.added''"
  shows "agree (fold clientChunk (fst (resToChatHandleOutputItemAdded e s)) c)
    (snd (resToChatHandleOutputItemAdded e s)) a'"
proof -
  have "cs_OutputIndexToToolIndex s (rse_OutputIndex e) = None"
    using assms(2,4) by (simp add: okEvent_def)
  from agree_announce [OF assms(1) this refl refl refl, of _ _ grow] assms(1,3,4) show ?thesis
    by (auto simp: resToChatHandleOutputItemAdded_def ProcessEvent_def Let_def callOf_def
        split: option.splits if_splits)
qed

lemma callOf_write:
  "builderWrite array d call = Some call' \<Longrightarrow> callOf call' = appendArguments d (callOf call)"
  by (auto simp: builderWrite_def callOf_def appendArguments_def split: if_splits)

lemma callOf_rewrite:
  "builderWrite array (fc_Args call @ d) (builderReset call) = Some call' \<Longrightarrow>
     callOf call' = appendArguments d (callOf call)"
  by (auto simp: builderWrite_def builderReset_def callOf_def appendArguments_def)

lemma argsDelta_agrees:
  assumes "agree c s a" and "ProcessEvent grow e a = Some a'"
    and "rse_Type e \<in> {''response.function_call_arguments.delta'', ''response.custom_tool_call_input.delta''}"
  shows "agree (fold clientChunk (fst (resToChatHandleFuncArgsDelta e s)) c)
    (snd (resToChatHandleFuncArgsDelta e s)) a'"
proof -
  let ?oi = "rse_OutputIndex e"
  have process: "(if rse_Delta e \<noteq> [] then updateArgs ?oi (builderWrite (ba_array a) (rse_Delta e)) a else Some a)
      = Some a'"
    using assms(2,3) by (auto simp: ProcessEvent_def Let_def)
  show ?thesis
  proof (cases "cs_OutputIndexToToolIndex s ?oi")
    case None
    then have "ba_outputIndexToFuncIdx a ?oi = None"
      using assms(1) by (simp add: agree_def)
    with process have "a' = a" by (simp add: updateArgs_def split: if_splits)
    with None assms show ?thesis
      by (auto simp: resToChatHandleFuncArgsDelta_def)
  next
    case (Some idx)
    show ?thesis
    proof (cases "rse_Delta e = []")
      case True
      with process assms(1) show ?thesis by (simp add: resToChatHandleFuncArgsDelta_def)
    next
      case False
      with process have "updateArgs ?oi (builderWrite (ba_array a) (rse_Delta e)) a = Some a'" by simp
      from agree_write [OF assms(1) Some callOf_write refl this] False Some show ?thesis
        by (simp add: resToChatHandleFuncArgsDelta_def Let_def)
    qed
  qed
qed

lemma argsDone_agrees:
  assumes "agree c s a" and "okEvent e s" and "ProcessEvent grow e a = Some a'" and "isArgsDone (rse_Type e)"
  shows "agree (fold clientChunk (fst (resToChatHandleFuncArgsDone e s)) c)
    (snd (resToChatHandleFuncArgsDone e s)) a'"
proof -
  let ?oi = "rse_OutputIndex e" and ?full = "completedArguments e"
  let ?rewrite = "\<lambda>call. builderWrite (ba_array a) ?full (builderReset call)"
  have process: "(if ?full \<noteq> [] then updateArgs ?oi ?rewrite a else Some a) = Some a'"
    using assms(3,4) by (auto simp: ProcessEvent_def isArgsDone_def Let_def)
  show ?thesis
  proof (cases "cs_OutputIndexToToolIndex s ?oi")
    case None
    then have "ba_outputIndexToFuncIdx a ?oi = None"
      using assms(1) by (simp add: agree_def)
    with process have "a' = a" by (simp add: updateArgs_def split: if_splits)
    with None assms(1) show ?thesis
      by (simp add: resToChatHandleFuncArgsDone_def)
  next
    case (Some idx)
    then obtain i where i: "ba_outputIndexToFuncIdx a ?oi = Some i" "i < length (ba_funcCalls a)"
        "argumentsAt s ?oi = fc_Args (ba_funcCalls a ! i)"
      using assms(1) by (auto simp: agree_def)
    consider "?full = []" | "?full \<noteq> []" "?full = argumentsAt s ?oi"
      | r where "?full = argumentsAt s ?oi @ r" "r \<noteq> []"
      using assms(2,4) unfolding okEvent_def HasPrefix_iff by (metis append_Nil2)
    then show ?thesis
    proof cases
      case 1
      with assms(1) Some process show ?thesis by (simp add: resToChatHandleFuncArgsDone_def)
    next
      case 2
      then have same: "callOf call' = callOf (ba_funcCalls a ! i)" if "?rewrite (ba_funcCalls a ! i) = Some call'" for call'
        using that i(3) by (auto simp: builderWrite_def builderReset_def callOf_def)
      from process 2(1) have "updateArgs ?oi ?rewrite a = Some a'" by simp
      then obtain call' where "?rewrite (ba_funcCalls a ! i) = Some call'"
          and a': "a' = a\<lparr>ba_funcCalls := (ba_funcCalls a)[i := call']\<rparr>"
        using i(1) by (auto simp: updateArgs_def split: option.splits)
      then have "map callOf (ba_funcCalls a') = map callOf (ba_funcCalls a)"
        using same i(2) by (simp add: map_update list_update_same_conv)
      then have "agree c s a'"
        by (rule agree_calls [OF assms(1)]) (simp_all add: a')
      with 2 Some show ?thesis by (simp add: resToChatHandleFuncArgsDone_def)
    next
      case 3
      with process have written: "updateArgs ?oi ?rewrite a = Some a'" by simp
      have "callOf call' = appendArguments r (callOf call)"
        if "?rewrite call = Some call'" "fc_Args call = argumentsAt s ?oi" for call call'
        using that 3(1) callOf_rewrite [of "ba_array a" call r call'] by simp
      from agree_write [OF assms(1) Some this refl written] 3 Some show ?thesis
        by (simp add: resToChatHandleFuncArgsDone_def Let_def)
    qed
  qed
qed

lemma created_agrees:
  assumes "agree c s a" and "ProcessEvent grow e a = Some a'" and "rse_Type e = ''response.created''"
  shows "agree (fold clientChunk (fst (resToChatHandleCreated e s)) c)
    (snd (resToChatHandleCreated e s)) a'"
  using assms by (auto simp: resToChatHandleCreated_def ProcessEvent_def Let_def
      intro: agree_frame(2) split: option.split)

lemma textDelta_agrees:
  assumes "agree c s a" and "ProcessEvent grow e a = Some a'" and "rse_Type e = ''response.output_text.delta''"
  shows "agree (fold clientChunk (fst (resToChatHandleTextDelta e s)) c)
    (snd (resToChatHandleTextDelta e s)) a'"
  using assms by (auto simp: resToChatHandleTextDelta_def ProcessEvent_def Let_def intro!: agree_frame(3))

lemma reasoningDelta_agrees:
  assumes "agree c s a" and "ProcessEvent grow e a = Some a'"
    and "rse_Type e \<in> {''response.reasoning_summary_text.delta'', ''response.reasoning_text.delta''}"
  shows "agree (fold clientChunk (fst (resToChatHandleReasoningDelta e s)) c)
    (snd (resToChatHandleReasoningDelta e s)) a'"
  using assms by (auto simp: resToChatHandleReasoningDelta_def ProcessEvent_def Let_def intro!: agree_frame(4))

lemma completed_state:
  "\<exists>r. fst (resToChatHandleCompleted e s) = finishChunks (snd (resToChatHandleCompleted e s)) r"
  "cs_OutputIndexToArguments (snd (resToChatHandleCompleted e s)) = cs_OutputIndexToArguments s"
  "cs_OutputIndexToToolIndex (snd (resToChatHandleCompleted e s)) = cs_OutputIndexToToolIndex s"
  "cs_NextToolCallIndex (snd (resToChatHandleCompleted e s)) = cs_NextToolCallIndex s"
  "cs_SawToolCall (snd (resToChatHandleCompleted e s)) = cs_SawToolCall s"
  "cs_Finalized (snd (resToChatHandleCompleted e s))"
  by (auto simp: resToChatHandleCompleted_def Let_def case_prod_unfold split: option.split)

lemma completed_agrees:
  assumes "agree c s a" and "ProcessEvent grow e a = Some a'" and "isTerminalType (rse_Type e)"
  shows "agree (fold clientChunk (fst (resToChatHandleCompleted e s)) c)
    (snd (resToChatHandleCompleted e s)) a'"
proof -
  obtain r where "fst (resToChatHandleCompleted e s) = finishChunks (snd (resToChatHandleCompleted e s)) r"
    using completed_state(1) by blast
  moreover have "a' = a"
    using assms(2,3) by (auto simp: ProcessEvent_def isTerminalType_def)
  ultimately show ?thesis
    by (simp add: agree_frame(1) [OF assms(1)] completed_state)
qed

lemma event_agrees:
  assumes "agree c s a" and "okEvent e s" and "ProcessEvent grow e a = Some a'"
  shows "agree (fold clientChunk (fst (ResponsesEventToChatChunks e s)) c)
    (snd (ResponsesEventToChatChunks e s)) a'"
proof -
  let ?t = "rse_Type e"
  consider "?t = ''response.created''" | "?t = ''response.output_text.delta''"
    | "?t = ''response.output_item.added''"
    | "?t \<in> {''response.function_call_arguments.delta'', ''response.custom_tool_call_input.delta''}"
    | "isArgsDone ?t"
    | "?t \<in> {''response.reasoning_summary_text.delta'', ''response.reasoning_text.delta''}"
    | "isTerminalType ?t"
    | "?t \<noteq> ''response.created''" "?t \<noteq> ''response.output_text.delta''" "?t \<noteq> ''response.output_item.added''"
      "?t \<notin> {''response.function_call_arguments.delta'', ''response.custom_tool_call_input.delta''}"
      "\<not> isArgsDone ?t" "?t \<notin> {''response.reasoning_summary_text.delta'', ''response.reasoning_text.delta''}"
      "\<not> isTerminalType ?t"
    by blast
  then show ?thesis
  proof cases
    case 1
    then have "ResponsesEventToChatChunks e s = resToChatHandleCreated e s"
      by (simp add: ResponsesEventToChatChunks_def)
    with created_agrees [OF assms(1,3) 1] show ?thesis by simp
  next
    case 2
    then have "ResponsesEventToChatChunks e s = resToChatHandleTextDelta e s"
      by (simp add: ResponsesEventToChatChunks_def)
    with textDelta_agrees [OF assms(1,3) 2] show ?thesis by simp
  next
    case 3
    then have "ResponsesEventToChatChunks e s = resToChatHandleOutputItemAdded e s"
      by (simp add: ResponsesEventToChatChunks_def)
    with added_agrees [OF assms 3] show ?thesis by simp
  next
    case 4
    then have "ResponsesEventToChatChunks e s = resToChatHandleFuncArgsDelta e s"
      by (auto simp: ResponsesEventToChatChunks_def)
    with argsDelta_agrees [OF assms(1,3) 4] show ?thesis by simp
  next
    case 5
    then have "ResponsesEventToChatChunks e s = resToChatHandleFuncArgsDone e s"
      by (auto simp: ResponsesEventToChatChunks_def isArgsDone_def)
    with argsDone_agrees [OF assms 5] show ?thesis by simp
  next
    case 6
    then have "ResponsesEventToChatChunks e s = resToChatHandleReasoningDelta e s"
      by (auto simp: ResponsesEventToChatChunks_def)
    with reasoningDelta_agrees [OF assms(1,3) 6] show ?thesis by simp
  next
    case 7
    then have "ResponsesEventToChatChunks e s = resToChatHandleCompleted e s"
      by (auto simp: ResponsesEventToChatChunks_def isTerminalType_def)
    with completed_agrees [OF assms(1,3) 7] show ?thesis by simp
  next
    case 8
    then have "ResponsesEventToChatChunks e s = ([], s)" and "a' = a"
      using assms(3) by (simp_all add: ResponsesEventToChatChunks_def ProcessEvent_def isArgsDone_def Let_def)
    with assms(1) show ?thesis by simp
  qed
qed

lemma run_agrees:
  assumes "agree c s a" and "okStream es s" and "processEvents grow es a = Some a'"
  shows "agree (fold clientChunk (fst (run_machine ResponsesEventToChatChunks es s)) c)
    (snd (run_machine ResponsesEventToChatChunks es s)) a'"
  using assms
proof (induction es arbitrary: c s a)
  case (Cons e es)
  then obtain a1 where "ProcessEvent grow e a = Some a1" and "processEvents grow es a1 = Some a'"
    by (auto split: option.splits)
  with Cons event_agrees [of c s a e grow a1] show ?case by simp
qed simp

section \<open>When the accumulator does not panic\<close>

text \<open>
  Upstream sends the increments of a call before it announces the next one.  The state of the order
  is the set of the announced indices and the last of them.
\<close>

type_synonym call_turn = "int set \<times> int option"

definition announcesCall :: "ResponsesStreamEvent \<Rightarrow> bool" where
  "announcesCall e \<longleftrightarrow> rse_Type e = ''response.output_item.added'' \<and>
     (\<exists>item. rse_Item e = Some item \<and> ro_Type item \<in> {''function_call'', ''custom_tool_call''})"

definition isCallIncrement :: "ResponsesStreamEvent \<Rightarrow> bool" where
  "isCallIncrement e \<longleftrightarrow> rse_Delta e \<noteq> [] \<and>
     rse_Type e \<in> {''response.function_call_arguments.delta'', ''response.custom_tool_call_input.delta''}"

definition callTurn :: "call_turn \<Rightarrow> ResponsesStreamEvent \<Rightarrow> call_turn option" where
  "callTurn m e =
     (if announcesCall e then Some (insert (rse_OutputIndex e) (fst m), Some (rse_OutputIndex e))
      else if isCallIncrement e \<and> rse_OutputIndex e \<in> fst m \<and> snd m \<noteq> Some (rse_OutputIndex e) then None
      else Some m)"

text \<open>The builder of the call announced last has never been moved since it was written.\<close>

definition turnInv :: "call_turn \<Rightarrow> BufferedResponseAccumulator \<Rightarrow> bool" where
  "turnInv m a \<longleftrightarrow> dom (ba_outputIndexToFuncIdx a) \<subseteq> fst m \<and>
     (\<forall>oi. snd m = Some oi \<longrightarrow> (\<exists>i < length (ba_funcCalls a). ba_outputIndexToFuncIdx a oi = Some i \<and>
        fc_addr (ba_funcCalls a ! i) \<in> {None, Some (ba_array a)}))"

lemma turnInv_write:
  assumes "turnInv m a" and "\<And>i. ba_outputIndexToFuncIdx a oi = Some i \<Longrightarrow> f (ba_funcCalls a ! i) \<noteq> None"
    and "\<And>call call'. f call = Some call' \<Longrightarrow> fc_addr call' = Some (ba_array a)"
  shows "\<exists>a'. updateArgs oi f a = Some a' \<and> turnInv m a'"
proof (cases "ba_outputIndexToFuncIdx a oi")
  case None
  with assms(1) show ?thesis by (simp add: updateArgs_def)
next
  case (Some i)
  then obtain call where call: "f (ba_funcCalls a ! i) = Some call" using assms(2) by blast
  have "fc_addr ((ba_funcCalls a)[i := call] ! j) \<in> {None, Some (ba_array a)}"
    if "j < length (ba_funcCalls a)" "fc_addr (ba_funcCalls a ! j) \<in> {None, Some (ba_array a)}" for j
    using that assms(3) [OF call] by (cases "i = j") simp_all
  with assms(1) have "turnInv m (a\<lparr>ba_funcCalls := (ba_funcCalls a)[i := call]\<rparr>)"
    unfolding turnInv_def by (fastforce)
  then show ?thesis by (simp add: updateArgs_def Some call)
qed

lemma turnInv_frame:
  "turnInv m a \<Longrightarrow> turnInv m (a\<lparr>ba_text := x\<rparr>)" "turnInv m a \<Longrightarrow> turnInv m (a\<lparr>ba_reasoning := x\<rparr>)"
  by (simp_all add: turnInv_def)

lemma turnInv_append:
  assumes "turnInv m a" and "fc_addr call = None"
  shows "turnInv (insert oi (fst m), Some oi)
    (appendCall grow call (a\<lparr>ba_outputIndexToFuncIdx := (ba_outputIndexToFuncIdx a)(oi \<mapsto> length (ba_funcCalls a))\<rparr>))"
  using assms by (auto simp: turnInv_def)

lemma turnInv_increment:
  assumes "turnInv m a" and "oi \<in> fst m \<longrightarrow> snd m = Some oi" and "ba_outputIndexToFuncIdx a oi = Some i"
  shows "builderWrite (ba_array a) d (ba_funcCalls a ! i) \<noteq> None"
proof -
  have "oi \<in> fst m" using assms(1,3) by (auto simp: turnInv_def)
  with assms have "fc_addr (ba_funcCalls a ! i) \<in> {None, Some (ba_array a)}"
    by (auto simp: turnInv_def)
  then show ?thesis by (auto simp: builderWrite_def)
qed

lemma builderWrite_addr: "builderWrite array d call = Some call' \<Longrightarrow> fc_addr call' = Some array"
  by (auto simp: builderWrite_def split: if_splits)

lemma event_turn:
  assumes "turnInv m a" and "callTurn m e = Some m'"
  shows "\<exists>a'. ProcessEvent grow e a = Some a' \<and> turnInv m' a'"
proof -
  let ?oi = "rse_OutputIndex e" and ?t = "rse_Type e"
  consider (added) "announcesCall e" | (args) "isCallIncrement e" "\<not> announcesCall e"
    | (full) "isArgsDone ?t" | (other) "\<not> announcesCall e" "\<not> isCallIncrement e" "\<not> isArgsDone ?t" by blast
  then show ?thesis
  proof cases
    case added
    then obtain item where "rse_Item e = Some item" "?t = ''response.output_item.added''"
        "ro_Type item \<in> {''function_call'', ''custom_tool_call''}"
      by (auto simp: announcesCall_def)
    moreover have "m' = (insert ?oi (fst m), Some ?oi)"
      using assms(2) added by (simp add: callTurn_def)
    ultimately show ?thesis
      using turnInv_append [OF assms(1)] by (auto simp: ProcessEvent_def Let_def)
  next
    case args
    then have "m' = m" and turn: "?oi \<in> fst m \<longrightarrow> snd m = Some ?oi"
      using assms(2) by (auto simp: callTurn_def split: if_splits)
    moreover have "ProcessEvent grow e a = updateArgs ?oi (builderWrite (ba_array a) (rse_Delta e)) a"
      using args by (auto simp: isCallIncrement_def ProcessEvent_def)
    moreover have "\<exists>a'. updateArgs ?oi (builderWrite (ba_array a) (rse_Delta e)) a = Some a' \<and> turnInv m a'"
      by (rule turnInv_write [OF assms(1)]) (erule turnInv_increment [OF assms(1) turn], erule builderWrite_addr)
    ultimately show ?thesis by simp
  next
    case full
    then have "m' = m"
      using assms(2) by (auto simp: callTurn_def announcesCall_def isCallIncrement_def isArgsDone_def)
    moreover have "ProcessEvent grow e a = (if completedArguments e = [] then Some a else
        updateArgs ?oi (\<lambda>call. builderWrite (ba_array a) (completedArguments e) (builderReset call)) a)"
      using full by (auto simp: isArgsDone_def ProcessEvent_def Let_def)
    moreover have "\<exists>a'. updateArgs ?oi (\<lambda>call. builderWrite (ba_array a) (completedArguments e) (builderReset call)) a
        = Some a' \<and> turnInv m a'"
      by (rule turnInv_write [OF assms(1)]) (auto simp: builderWrite_def builderReset_def)
    ultimately show ?thesis using assms(1) by simp
  next
    case other
    then have "m' = m" using assms(2) by (simp add: callTurn_def)
    with other assms(1) show ?thesis
      by (auto simp: ProcessEvent_def Let_def announcesCall_def isCallIncrement_def isArgsDone_def
          turnInv_frame split: option.split)
  qed
qed

lemma run_turn:
  assumes "turnInv m a" and "accepts_from callTurn m es \<noteq> None"
  shows "processEvents grow es a \<noteq> None"
  using assms
proof (induction es arbitrary: m a)
  case (Cons e es)
  then obtain m1 where m1: "callTurn m e = Some m1" "accepts_from callTurn m1 es \<noteq> None"
    by (auto split: option.splits)
  from event_turn [OF Cons.prems(1) m1(1)] obtain a1 where "ProcessEvent grow e a = Some a1" "turnInv m1 a1"
    by blast
  with Cons.IH [OF this(2) m1(2)] show ?case by simp
qed simp

section \<open>Finish chunks\<close>

definition finishReasons :: "ChatCompletionsChunk \<Rightarrow> string list" where
  "finishReasons chunk = concat (map (\<lambda>choice. case cck_FinishReason choice of None \<Rightarrow> [] | Some r \<Rightarrow> [r])
     (ccc_Choices chunk))"

lemma cl_finish_chunks:
  "cl_finish (fold clientChunk chunks c) = cl_finish c @ concat (map finishReasons chunks)"
proof -
  have "cl_finish (fold clientChoice choices c)
      = cl_finish c @ concat (map (\<lambda>choice. case cck_FinishReason choice of None \<Rightarrow> [] | Some r \<Rightarrow> [r]) choices)"
    for choices c
    by (induction choices arbitrary: c) (simp_all add: clientChoice_def Let_def)
  then show ?thesis
    by (induction chunks arbitrary: c) (simp_all add: clientChunk_def finishReasons_def)
qed

lemma finishReasons_chunks [simp]:
  "finishReasons (makeChatDeltaChunk s d) = []"
  "finishReasons (argumentsChunk s i x) = []"
  "concat (map finishReasons (finishChunks s r)) = [r]"
  by (simp_all add: finishReasons_def makeChatDeltaChunk_def argumentsChunk_def finishChunks_def
      makeChatFinishChunk_def)

lemma finishes_step:
  "concat (map (map (\<lambda>_. ()) \<circ> finishReasons) (fst (ResponsesEventToChatChunks e s)))
     = (if isTerminalType (rse_Type e) then [()] else [])"
proof -
  let ?f = "\<lambda>chunks. concat (map (map (\<lambda>_. ()) \<circ> finishReasons) chunks)"
  have "?f (finishChunks s' r) = [()]" for s' r
    by (simp add: finishChunks_def finishReasons_def makeChatFinishChunk_def)
  then have "?f (fst (resToChatHandleCompleted e s)) = [()]"
    using completed_state(1) [of e s] by auto
  moreover have "?f (fst (resToChatHandleCreated e s)) = []"
    by (simp add: resToChatHandleCreated_def Let_def split: option.split)
  moreover have "?f (fst (resToChatHandleTextDelta e s)) = []"
    by (simp add: resToChatHandleTextDelta_def Let_def)
  moreover have "?f (fst (resToChatHandleOutputItemAdded e s)) = []"
    by (simp add: resToChatHandleOutputItemAdded_def Let_def split: option.split)
  moreover have "?f (fst (resToChatHandleFuncArgsDelta e s)) = []"
    by (simp add: resToChatHandleFuncArgsDelta_def Let_def split: option.split)
  moreover have "?f (fst (resToChatHandleFuncArgsDone e s)) = []"
    by (simp add: resToChatHandleFuncArgsDone_def Let_def split: option.split)
  moreover have "?f (fst (resToChatHandleReasoningDelta e s)) = []"
    by (simp add: resToChatHandleReasoningDelta_def)
  ultimately show ?thesis
    by (simp add: ResponsesEventToChatChunks_def isTerminalType_def Let_def)
qed

lemma finalized_step:
  "cs_Finalized (snd (ResponsesEventToChatChunks e s)) \<longleftrightarrow> cs_Finalized s \<or> isTerminalType (rse_Type e)"
proof -
  have "cs_Finalized (snd (resToChatHandleCreated e s)) = cs_Finalized s"
    by (simp add: resToChatHandleCreated_def Let_def split: option.split)
  moreover have "cs_Finalized (snd (resToChatHandleTextDelta e s)) = cs_Finalized s"
    by (simp add: resToChatHandleTextDelta_def Let_def)
  moreover have "cs_Finalized (snd (resToChatHandleOutputItemAdded e s)) = cs_Finalized s"
    by (simp add: resToChatHandleOutputItemAdded_def Let_def split: option.split)
  moreover have "cs_Finalized (snd (resToChatHandleFuncArgsDelta e s)) = cs_Finalized s"
    by (simp add: resToChatHandleFuncArgsDelta_def Let_def split: option.split)
  moreover have "cs_Finalized (snd (resToChatHandleFuncArgsDone e s)) = cs_Finalized s"
    by (simp add: resToChatHandleFuncArgsDone_def Let_def split: option.split)
  moreover have "cs_Finalized (snd (resToChatHandleReasoningDelta e s)) = cs_Finalized s"
    by (simp add: resToChatHandleReasoningDelta_def)
  ultimately show ?thesis
    by (simp add: ResponsesEventToChatChunks_def isTerminalType_def completed_state(6) Let_def)
qed

lemma finalized_run:
  "cs_Finalized (snd (run_machine ResponsesEventToChatChunks es s))
     \<longleftrightarrow> cs_Finalized s \<or> (\<exists>e \<in> set es. isTerminalType (rse_Type e))"
  by (induction es arbitrary: s) (simp_all add: finalized_step disj_assoc)

text \<open>The chunks a caller writes: the translation of every event, then the finaliser's.\<close>

definition chatStream :: "ResponsesStreamEvent list \<Rightarrow> ResponsesEventToChatState \<Rightarrow> ChatCompletionsChunk list" where
  "chatStream es s =
     (let (out, s') = run_machine ResponsesEventToChatChunks es s
      in out @ fst (FinalizeResponsesChatStream s'))"

lemma finishes_run:
  "length (concat (map finishReasons (fst (run_machine ResponsesEventToChatChunks es s))))
     = length (filter (\<lambda>e. isTerminalType (rse_Type e)) es)"
proof -
  have "length (concat (map finishReasons chunks)) = length (concat (map (map (\<lambda>_. ()) \<circ> finishReasons) chunks))"
    for chunks :: "ChatCompletionsChunk list"
    by (induction chunks) simp_all
  moreover have "length (concat (map (\<lambda>e. if isTerminalType (rse_Type e) then [()] else []) es))
      = length (filter (\<lambda>e. isTerminalType (rse_Type e)) es)"
    by (induction es) simp_all
  ultimately show ?thesis
    by (simp add: run_machine_concat [of "map (\<lambda>_. ()) \<circ> finishReasons"
          _ "\<lambda>e. if isTerminalType (rse_Type e) then [()] else []"] finishes_step)
qed

text \<open>
  C20: over a whole stream the client gets one finish chunk for every terminal event upstream sent,
  and one from the finaliser exactly when upstream sent none.  So a stream always finishes, and it
  finishes once unless upstream repeats its terminal event under another name: the handler of
  terminal events does not look at \<open>Finalized\<close>, the finaliser does.
\<close>

theorem chatStream_finish_chunks:
  assumes "\<not> cs_Finalized s"
  shows "length (concat (map finishReasons (chatStream es s)))
     = max 1 (length (filter (\<lambda>e. isTerminalType (rse_Type e)) es))"
proof -
  let ?r = "run_machine ResponsesEventToChatChunks es s"
  have "length (concat (map finishReasons (fst (FinalizeResponsesChatStream (snd ?r)))))
      = (if \<exists>e \<in> set es. isTerminalType (rse_Type e) then 0 else 1)"
    using assms by (simp add: FinalizeResponsesChatStream_def finalized_run Let_def)
  moreover have "(\<exists>e \<in> set es. isTerminalType (rse_Type e))
      \<longleftrightarrow> length (filter (\<lambda>e. isTerminalType (rse_Type e)) es) > 0"
    by (induction es) auto
  ultimately show ?thesis
    by (cases "filter (\<lambda>e. isTerminalType (rse_Type e)) es")
       (simp_all add: chatStream_def case_prod_unfold finishes_run Let_def)
qed

section \<open>Streaming and buffered answers agree\<close>

lemma collectOutput_calls:
  "collectOutput (map (\<lambda>c. zeroResponsesOutput\<lparr>ro_Type := ''function_call'', ro_CallID := fc_CallID c,
       ro_Name := fc_Name c, ro_Arguments := fc_Args c\<rparr>) fs) (x, y, z) = (x, y, z @ map callOf fs)"
  by (induction fs arbitrary: z) (simp_all add: callOf_def)

lemma collectOutput_BuildOutput:
  "collectOutput (BuildOutput a) ([], [], []) = (ba_text a, ba_reasoning a, map callOf (ba_funcCalls a))"
  by (simp add: BuildOutput_def collectOutput_calls partText_def summaryText_def)

lemma supplement_output:
  "rr_Output r = [] \<Longrightarrow> collectOutput (rr_Output (SupplementResponseOutput a r)) ([], [], [])
     = (ba_text a, ba_reasoning a, map callOf (ba_funcCalls a))"
  by (auto simp: SupplementResponseOutput_def collectOutput_BuildOutput HasContent_def)

lemma supplement_frame [simp]:
  "rr_Status (SupplementResponseOutput a r) = rr_Status r"
  "rr_IncompleteDetails (SupplementResponseOutput a r) = rr_IncompleteDetails r"
  "rr_Usage (SupplementResponseOutput a r) = rr_Usage r"
  by (simp_all add: SupplementResponseOutput_def)

lemma completed_reason:
  assumes "rse_Response t = Some r" and "cs_SawToolCall s \<longleftrightarrow> calls \<noteq> []"
  shows "concat (map finishReasons (fst (resToChatHandleCompleted t s)))
     = [responsesStatusToChatFinishReason (rr_Status r) (rr_IncompleteDetails r) calls]"
  using assms by (simp add: resToChatHandleCompleted_def responsesStatusToChatFinishReason_def Let_def
      split: option.split)

lemma agree_New:
  "agree emptyClient (NewResponsesEventToChatState newID now\<lparr>cs_Model := m, cs_IncludeUsage := u\<rparr>)
     NewBufferedResponseAccumulator"
  by (simp add: agree_def emptyClient_def NewResponsesEventToChatState_def
      NewBufferedResponseAccumulator_def argumentsAt_def fun_eq_iff)

lemma turnInv_New: "turnInv ({}, None) NewBufferedResponseAccumulator"
  by (simp add: turnInv_def NewBufferedResponseAccumulator_def)

lemma terminal_ignored: "isTerminalType (rse_Type t) \<Longrightarrow> ProcessEvent grow t a = Some a"
  by (auto simp: ProcessEvent_def isTerminalType_def)

lemma assembled_message:
  assumes "okStream body s" and "s = NewResponsesEventToChatState newID now\<lparr>cs_Model := m, cs_IncludeUsage := u\<rparr>"
    and "\<forall>e \<in> set body. \<not> isTerminalType (rse_Type e)"
    and "isTerminalType (rse_Type t)" and "rse_Response t = Some r" and "rr_Output r = []"
    and "c = fold clientChunk (chatStream (body @ [t]) s) emptyClient"
    and "processEvents grow (body @ [t]) NewBufferedResponseAccumulator = Some a"
    and "choice = hd (ccr_Choices (ResponsesToChatCompletions J newID' now' (SupplementResponseOutput a r) model))"
  shows "cm_Content (cch_Message choice) = (if cl_content c = [] then [] else json_MarshalString J (cl_content c))
    \<and> cm_ReasoningContent (cch_Message choice) = cl_reasoning c
    \<and> cm_ToolCalls (cch_Message choice) = cl_calls c
    \<and> cl_finish c = [cch_FinishReason choice]"
proof -
  obtain out s1 where run: "run_machine ResponsesEventToChatChunks body s = (out, s1)" by fastforce
  obtain c1 where c1: "c1 = fold clientChunk out emptyClient" by blast
  have ignored: "ProcessEvent grow t a' = Some a'" for a'
    by (rule terminal_ignored [OF assms(4)])
  have a: "processEvents grow body NewBufferedResponseAccumulator = Some a"
    using assms(8) by (auto simp: processEvents_append ignored split: option.splits)
  have rel: "agree c1 s1 a"
    using run_agrees [OF agree_New assms(1) [unfolded assms(2)] a] run by (simp add: c1 assms(2))
  have step: "ResponsesEventToChatChunks t s1 = resToChatHandleCompleted t s1"
    using assms(4) by (auto simp: ResponsesEventToChatChunks_def isTerminalType_def)
  have stream: "chatStream (body @ [t]) s = out @ fst (resToChatHandleCompleted t s1)"
    by (simp add: chatStream_def run_machine_append run run_machine.simps(2) [of _ t] step case_prod_unfold
        FinalizeResponsesChatStream_def completed_state(6) Let_def del: run_machine_Cons)
  have final: "agree c (snd (resToChatHandleCompleted t s1)) a"
    using completed_agrees [OF rel ignored assms(4)] by (simp add: assms(7) stream c1)
  have "concat (map finishReasons out) = []"
    using finishes_run [of body s] assms(3) by (simp add: run)
  then have "cl_finish c = [responsesStatusToChatFinishReason (rr_Status r) (rr_IncompleteDetails r)
      (map callOf (ba_funcCalls a))]"
    using completed_reason [OF assms(5), of s1 "map callOf (ba_funcCalls a)"] rel
    by (simp add: assms(7) stream cl_finish_chunks emptyClient_def agree_def)
  then show ?thesis
    using final by (simp add: assms(9) ResponsesToChatCompletions_def Let_def case_prod_unfold
        supplement_output assms(6) agree_def)
qed

text \<open>
  C13: a client that streams and a client that waits get the same answer.  Let upstream announce each
  output index once, let completed arguments extend the increments sent for them, and let the stream
  end with its only terminal event, whose response carries no output.  Then, unless the accumulator
  of the buffered path panics, the message a streaming client assembles from the chunks has the
  content, the reasoning, the tool calls (identifiers, names, full arguments, order) and the finish
  reason of the message the buffered path builds from the same events; and the accumulator does not
  panic when upstream sends the increments of each call before it announces the next one
  (\<open>callTurn\<close>), however the runtime grows slices.
\<close>

theorem stream_equals_buffered:
  assumes "okStream body s" and "s = NewResponsesEventToChatState newID now\<lparr>cs_Model := m, cs_IncludeUsage := u\<rparr>"
    and "\<forall>e \<in> set body. \<not> isTerminalType (rse_Type e)"
    and "isTerminalType (rse_Type t)" and "rse_Response t = Some r" and "rr_Output r = []"
    and "c = fold clientChunk (chatStream (body @ [t]) s) emptyClient"
    and "buffered = processEvents grow (body @ [t]) NewBufferedResponseAccumulator"
  shows "(\<forall>a choice. buffered = Some a \<longrightarrow>
      choice = hd (ccr_Choices (ResponsesToChatCompletions J newID' now' (SupplementResponseOutput a r) model)) \<longrightarrow>
      cm_Content (cch_Message choice) = (if cl_content c = [] then [] else json_MarshalString J (cl_content c))
      \<and> cm_ReasoningContent (cch_Message choice) = cl_reasoning c
      \<and> cm_ToolCalls (cch_Message choice) = cl_calls c
      \<and> cl_finish c = [cch_FinishReason choice]) \<and>
    (accepts_from callTurn ({}, None) body \<noteq> None \<longrightarrow> buffered \<noteq> None)"
proof (intro conjI allI impI)
  assume "accepts_from callTurn ({}, None) body \<noteq> None"
  then obtain a where "processEvents grow body NewBufferedResponseAccumulator = Some a"
    using run_turn [OF turnInv_New] by blast
  then show "buffered \<noteq> None"
    by (simp add: assms(8) processEvents_append terminal_ignored [OF assms(4)])
qed (use assembled_message [OF assms(1-7) assms(8) [symmetric, THEN trans] refl] in blast)+

theorem chatStream_finish_chunks_witness:
  "length (concat (map finishReasons (chatStream
     [zeroResponsesStreamEvent\<lparr>rse_Type := ''response.completed''\<rparr>,
      zeroResponsesStreamEvent\<lparr>rse_Type := ''response.done''\<rparr>] (NewResponsesEventToChatState ''c'' 7)))) = 2"
  by (subst chatStream_finish_chunks) (simp_all add: NewResponsesEventToChatState_def isTerminalType_def)

definition exCallAdded :: ResponsesStreamEvent where
  "exCallAdded = zeroResponsesStreamEvent\<lparr>rse_Type := ''response.output_item.added'', rse_OutputIndex := 3,
     rse_Item := Some (zeroResponsesOutput
       \<lparr>ro_Type := ''function_call'', ro_CallID := ''call_1'', ro_Name := ''ls''\<rparr>)\<rparr>"

definition exArgsDelta :: "string \<Rightarrow> ResponsesStreamEvent" where
  "exArgsDelta d = zeroResponsesStreamEvent
     \<lparr>rse_Type := ''response.function_call_arguments.delta'', rse_OutputIndex := 3, rse_Delta := d\<rparr>"

definition exArgsDone :: "string \<Rightarrow> ResponsesStreamEvent" where
  "exArgsDone full = zeroResponsesStreamEvent
     \<lparr>rse_Type := ''response.function_call_arguments.done'', rse_OutputIndex := 3, rse_Arguments := full\<rparr>"

lemma exStream_ok:
  "okStream [exCallAdded, exArgsDelta ''{'', exArgsDone ''{}'']
     (NewResponsesEventToChatState ''c'' 7\<lparr>cs_Model := ''m'', cs_IncludeUsage := True\<rparr>)"
  by (simp add: okEvent_def exCallAdded_def exArgsDelta_def exArgsDone_def ResponsesEventToChatChunks_def
      resToChatHandleOutputItemAdded_def resToChatHandleFuncArgsDelta_def isArgsDone_def
      completedArguments_def argumentsAt_def HasPrefix_def NewResponsesEventToChatState_def Let_def)

theorem stream_equals_buffered_witness:
  "let r = zeroResponsesResponse\<lparr>rr_Status := ''completed''\<rparr>;
       t = zeroResponsesStreamEvent\<lparr>rse_Type := ''response.completed'', rse_Response := Some r\<rparr>;
       es = [exCallAdded, exArgsDelta ''{'', exArgsDone ''{}''] @ [t];
       c = fold clientChunk (chatStream es (NewResponsesEventToChatState ''c'' 7
             \<lparr>cs_Model := ''m'', cs_IncludeUsage := True\<rparr>)) emptyClient
   in \<exists>a. processEvents id es NewBufferedResponseAccumulator = Some a \<and>
      (let choice = hd (ccr_Choices (ResponsesToChatCompletions plain_json ''n'' 8 (SupplementResponseOutput a r) ''m''))
       in cm_ToolCalls (cch_Message choice) = cl_calls c \<and> cl_finish c = [cch_FinishReason choice])"
proof -
  let ?r = "zeroResponsesResponse\<lparr>rr_Status := ''completed''\<rparr>"
  let ?t = "zeroResponsesStreamEvent\<lparr>rse_Type := ''response.completed'', rse_Response := Some ?r\<rparr>"
  let ?body = "[exCallAdded, exArgsDelta ''{'', exArgsDone ''{}'']"
  have "\<forall>e \<in> set ?body. \<not> isTerminalType (rse_Type e)" and "isTerminalType (rse_Type ?t)"
    and "rse_Response ?t = Some ?r" and "rr_Output ?r = []"
    by (simp_all add: isTerminalType_def exCallAdded_def exArgsDelta_def exArgsDone_def zeroResponsesResponse_def)
  note both = stream_equals_buffered [OF exStream_ok refl this refl refl, where grow = id and J = plain_json
      and newID' = "''n''" and now' = 8 and model = "''m''"]
  have "accepts_from callTurn ({}, None) ?body \<noteq> None"
    by (simp add: callTurn_def announcesCall_def isCallIncrement_def exCallAdded_def exArgsDelta_def
        exArgsDone_def zeroResponsesOutput_def)
  with both obtain a where "processEvents id (?body @ [?t]) NewBufferedResponseAccumulator = Some a" by blast
  with both show ?thesis unfolding Let_def by blast
qed

text \<open>
  The accumulator does panic on interleaved calls.  The slice starts without capacity and Go gives it
  room for one element of this size at the first append, so the announcement of the second call moves
  the builder of the first one, and the next increment of the first call writes to the moved builder.
\<close>

definition exEventFor :: "int \<Rightarrow> ResponsesStreamEvent \<Rightarrow> ResponsesStreamEvent" where
  "exEventFor oi e = e\<lparr>rse_OutputIndex := oi\<rparr>"

lemma interleaved_calls_panic:
  assumes "grow 1 = 1"
  shows "processEvents grow [exEventFor 0 exCallAdded, exEventFor 0 (exArgsDelta ''{''),
    exEventFor 1 exCallAdded, exEventFor 0 (exArgsDelta ''}'')] NewBufferedResponseAccumulator = None"
  using assms
  by (simp add: ProcessEvent_def exEventFor_def exCallAdded_def exArgsDelta_def updateArgs_def builderWrite_def
      appendCall_def NewBufferedResponseAccumulator_def zeroResponsesOutput_def zeroResponsesStreamEvent_def Let_def)

section \<open>Filling in missing arguments\<close>

text \<open>Which call the search settles on.\<close>

lemma matchCall_id:
  assumes "\<exists>call \<in> set calls. callID \<noteq> [] \<and> fc_CallID call = callID"
  shows "matchCall oi callID m calls = find (\<lambda>call. fc_CallID call = callID) calls"
  using assms by (induction calls arbitrary: m) auto

lemma matchCall_index:
  assumes "\<forall>call \<in> set calls. callID = [] \<or> fc_CallID call \<noteq> callID"
    and "matchCall oi callID m calls = Some call" and "m \<noteq> Some call"
  shows "call \<in> set calls \<and> fc_OutputIndex call = oi \<and> (callID = [] \<or> fc_CallID call = [])"
  using assms by (induction calls arbitrary: m) (auto split: if_splits)

text \<open>
  C21: completing the output of a terminal event never puts one call's arguments on another.  Items
  keep their number, order and every other member; only a function call that arrived without
  arguments is filled in, and its arguments are those of the first streamed call with its call
  identifier, or, when no streamed call has that identifier, of a call at the same output index
  where one of the two has no identifier.
\<close>

theorem supplement_matches:
  assumes "i < length (rr_Output r)"
    and "item = rr_Output r ! i" and "item' = rr_Output (SupplementResponseOutput a r) ! i"
  shows "length (rr_Output (SupplementResponseOutput a r)) = length (rr_Output r) \<and>
    (item' = item \<or>
     (\<exists>call. ro_Type item = ''function_call'' \<and> ro_Arguments item = [] \<and> fc_Args call \<noteq> [] \<and>
        item' = item\<lparr>ro_Arguments := fc_Args call\<rparr> \<and> call \<in> set (ba_funcCalls a) \<and>
        (if ro_CallID item \<noteq> [] \<and> (\<exists>c \<in> set (ba_funcCalls a). fc_CallID c = ro_CallID item)
         then Some call = find (\<lambda>c. fc_CallID c = ro_CallID item) (ba_funcCalls a)
         else fc_OutputIndex call = int i \<and> (ro_CallID item = [] \<or> fc_CallID call = []))))"
proof -
  have item': "item' = supplementItem a (int i, item)"
    using assms by (auto simp: SupplementResponseOutput_def)
  have len: "length (rr_Output (SupplementResponseOutput a r)) = length (rr_Output r)"
    using assms(1) by (auto simp: SupplementResponseOutput_def)
  show ?thesis
  proof (cases "item' = item")
    case False
    then obtain call where call: "ro_Type item = ''function_call''" "ro_Arguments item = []" "fc_Args call \<noteq> []"
        "matchCall (int i) (ro_CallID item) None (ba_funcCalls a) = Some call"
        "item' = item\<lparr>ro_Arguments := fc_Args call\<rparr>"
      by (auto simp: item' supplementItem_def split: if_splits option.splits)
    show ?thesis
    proof (cases "\<exists>c \<in> set (ba_funcCalls a). ro_CallID item \<noteq> [] \<and> fc_CallID c = ro_CallID item")
      case True
      from matchCall_id [OF this, of "int i" None] call(4)
      have "find (\<lambda>c. fc_CallID c = ro_CallID item) (ba_funcCalls a) = Some call" by simp
      moreover from this have "call \<in> set (ba_funcCalls a)"
        by (metis find_Some_iff nth_mem)
      ultimately show ?thesis using call True len by auto
    next
      case None: False
      have "\<forall>call \<in> set (ba_funcCalls a). ro_CallID item = [] \<or> fc_CallID call \<noteq> ro_CallID item"
        using None by blast
      from matchCall_index [OF this call(4)] call None len show ?thesis by auto
    qed
  qed (simp add: len)
qed

theorem supplement_matches_witness:
  "let r = zeroResponsesResponse\<lparr>rr_Output :=
         [zeroResponsesOutput\<lparr>ro_Type := ''function_call'', ro_CallID := ''call_1'', ro_Name := ''ls''\<rparr>]\<rparr>;
       a = the (processEvents id [exCallAdded, exArgsDelta ''{}''] NewBufferedResponseAccumulator)
   in length (rr_Output (SupplementResponseOutput a r)) = 1"
  using supplement_matches [OF _ refl refl, where i = 0
      and r = "zeroResponsesResponse\<lparr>rr_Output :=
         [zeroResponsesOutput\<lparr>ro_Type := ''function_call'', ro_CallID := ''call_1'', ro_Name := ''ls''\<rparr>]\<rparr>"
      and a = "the (processEvents id [exCallAdded, exArgsDelta ''{}''] NewBufferedResponseAccumulator)", THEN conjunct1]
  by (simp add: Let_def)

end
