(* ===== verification/Idempotency_Store.thy ===== *)
theory Idempotency_Store
  imports Gateway_Prelude
begin

text \<open>
  The store of idempotency records: \<open>IdempotencyRepository\<close> of \<open>service/idempotency.go\<close> as an
  interface, and \<open>repository/idempotency_repo.go\<close>, its SQL implementation, as operations on a
  table.  The interface's laws are the locale \<open>idempotency_store\<close>; the table is shown to satisfy
  them, so everything proved from the laws holds of the code's store.

  A statement runs atomically, as one SQL statement does.  The database may fail at any statement,
  before or after it took effect; the list \<open>db_faults\<close> says what happens to the coming statements.
\<close>

section \<open>Records\<close>

definition IdempotencyStatusProcessing :: string where "IdempotencyStatusProcessing = ''processing''"
definition IdempotencyStatusSucceeded :: string where "IdempotencyStatusSucceeded = ''succeeded''"
definition IdempotencyStatusFailedRetryable :: string where
  "IdempotencyStatusFailedRetryable = ''failed_retryable''"

lemmas status_defs = IdempotencyStatusProcessing_def IdempotencyStatusSucceeded_def
  IdempotencyStatusFailedRetryable_def

lemma status_distinct [simp]:
  "IdempotencyStatusProcessing \<noteq> IdempotencyStatusSucceeded"
  "IdempotencyStatusProcessing \<noteq> IdempotencyStatusFailedRetryable"
  "IdempotencyStatusSucceeded \<noteq> IdempotencyStatusProcessing"
  "IdempotencyStatusSucceeded \<noteq> IdempotencyStatusFailedRetryable"
  "IdempotencyStatusFailedRetryable \<noteq> IdempotencyStatusProcessing"
  "IdempotencyStatusFailedRetryable \<noteq> IdempotencyStatusSucceeded"
  by (simp_all add: status_defs)

record IdempotencyRecord =
  ir_ID :: int
  ir_Scope :: string
  ir_IdempotencyKeyHash :: string
  ir_RequestFingerprint :: string
  ir_Status :: string
  ir_ResponseStatus :: "int option"
  ir_ResponseBody :: "string option"
  ir_ErrorReason :: "string option"
  ir_LockedUntil :: "time option"
  ir_ExpiresAt :: time
  ir_CreatedAt :: time
  ir_UpdatedAt :: time

section \<open>The interface\<close>

text \<open>
  Every operation returns \<open>None\<close> for an error.  \<open>CreateProcessing\<close> also returns its argument, into
  which the code scans the new identifier and time stamps.
\<close>

record 's IdempotencyRepository =
  repo_CreateProcessing :: "IdempotencyRecord \<Rightarrow> 's \<Rightarrow> (bool \<times> IdempotencyRecord) option \<times> 's"
  repo_GetByScopeAndKeyHash :: "string \<Rightarrow> string \<Rightarrow> 's \<Rightarrow> IdempotencyRecord option option \<times> 's"
  repo_TryReclaim :: "int \<Rightarrow> string \<Rightarrow> time \<Rightarrow> time \<Rightarrow> time \<Rightarrow> 's \<Rightarrow> bool option \<times> 's"
  repo_ExtendProcessingLock :: "int \<Rightarrow> string \<Rightarrow> time \<Rightarrow> time \<Rightarrow> 's \<Rightarrow> bool option \<times> 's"
  repo_MarkSucceeded :: "int \<Rightarrow> int \<Rightarrow> string \<Rightarrow> time \<Rightarrow> 's \<Rightarrow> unit option \<times> 's"
  repo_MarkFailedRetryable :: "int \<Rightarrow> string \<Rightarrow> time \<Rightarrow> time \<Rightarrow> 's \<Rightarrow> unit option \<times> 's"
  repo_DeleteExpired :: "time \<Rightarrow> int \<Rightarrow> 's \<Rightarrow> int option \<times> 's"

text \<open>The columns the update statements set; \<open>updated_at\<close> is the database's clock.\<close>

definition reclaimRow :: "time \<Rightarrow> time \<Rightarrow> time \<Rightarrow> IdempotencyRecord \<Rightarrow> IdempotencyRecord" where
  "reclaimRow clock newLockedUntil newExpiresAt r = r
     \<lparr>ir_Status := IdempotencyStatusProcessing, ir_LockedUntil := Some newLockedUntil,
      ir_ErrorReason := None, ir_UpdatedAt := clock, ir_ExpiresAt := newExpiresAt\<rparr>"

definition extendRow :: "time \<Rightarrow> time \<Rightarrow> time \<Rightarrow> IdempotencyRecord \<Rightarrow> IdempotencyRecord" where
  "extendRow clock newLockedUntil newExpiresAt r = r
     \<lparr>ir_LockedUntil := Some newLockedUntil, ir_ExpiresAt := newExpiresAt, ir_UpdatedAt := clock\<rparr>"

definition succeedRow :: "time \<Rightarrow> int \<Rightarrow> string \<Rightarrow> time \<Rightarrow> IdempotencyRecord \<Rightarrow> IdempotencyRecord" where
  "succeedRow clock responseStatus responseBody expiresAt r = r
     \<lparr>ir_Status := IdempotencyStatusSucceeded, ir_ResponseStatus := Some responseStatus,
      ir_ResponseBody := Some responseBody, ir_ErrorReason := None, ir_LockedUntil := None,
      ir_ExpiresAt := expiresAt, ir_UpdatedAt := clock\<rparr>"

definition failRow :: "time \<Rightarrow> string \<Rightarrow> time \<Rightarrow> time \<Rightarrow> IdempotencyRecord \<Rightarrow> IdempotencyRecord" where
  "failRow clock errorReason lockedUntil expiresAt r = r
     \<lparr>ir_Status := IdempotencyStatusFailedRetryable, ir_ErrorReason := Some errorReason,
      ir_LockedUntil := Some lockedUntil, ir_ExpiresAt := expiresAt, ir_UpdatedAt := clock\<rparr>"

lemmas row_updates = reclaimRow_def extendRow_def succeedRow_def failRow_def

definition reclaimable :: "string \<Rightarrow> time \<Rightarrow> IdempotencyRecord \<Rightarrow> bool" where
  "reclaimable fromStatus now r \<longleftrightarrow> ir_Status r = fromStatus \<and>
     (case ir_LockedUntil r of None \<Rightarrow> True | Some l \<Rightarrow> l \<le> now)"

text \<open>
  The laws: what the store keeps of its invariant, what the record of one scope and key is after an
  operation that reports no error, and which records every operation leaves alone, error or not.
  \<open>row\<close> is the abstraction, \<open>tick\<close> the store's clock, and \<open>healthy\<close> says that no error is coming.
\<close>

locale idempotency_store =
  fixes R :: "'s IdempotencyRepository"
    and row :: "'s \<Rightarrow> string \<Rightarrow> string \<Rightarrow> IdempotencyRecord option"
    and inv :: "'s \<Rightarrow> bool"
    and tick :: "'s \<Rightarrow> time"
    and healthy :: "'s \<Rightarrow> bool"
  assumes create_inv: "inv s \<Longrightarrow> inv (snd (repo_CreateProcessing R rec s))"
    and create_new: "inv s \<Longrightarrow> repo_CreateProcessing R rec s = (Some (True, rec'), s') \<Longrightarrow>
      row s (ir_Scope rec) (ir_IdempotencyKeyHash rec) = None \<and>
      rec' = rec\<lparr>ir_ID := ir_ID rec', ir_CreatedAt := tick s, ir_UpdatedAt := tick s\<rparr> \<and> ir_ID rec' \<noteq> 0 \<and>
      row s' (ir_Scope rec) (ir_IdempotencyKeyHash rec) = Some (rec'\<lparr>ir_ResponseStatus := None,
        ir_ResponseBody := None, ir_ErrorReason := None\<rparr>)"
    and create_old: "inv s \<Longrightarrow> repo_CreateProcessing R rec s = (Some (False, rec'), s') \<Longrightarrow>
      row s (ir_Scope rec) (ir_IdempotencyKeyHash rec) \<noteq> None \<and> rec' = rec \<and> row s' = row s"
    and get_inv: "inv s \<Longrightarrow> inv (snd (repo_GetByScopeAndKeyHash R scope kh s))"
    and get_row: "inv s \<Longrightarrow> repo_GetByScopeAndKeyHash R scope kh s = (Some res, s') \<Longrightarrow>
      res = row s scope kh \<and> row s' = row s"
    and reclaim_inv: "inv s \<Longrightarrow> inv (snd (repo_TryReclaim R i fromStatus now l x s))"
    and reclaim_row: "inv s \<Longrightarrow> repo_TryReclaim R i fromStatus now l x s = (Some taken, s') \<Longrightarrow>
      row s scope kh = Some r \<Longrightarrow> ir_ID r = i \<Longrightarrow>
      taken = reclaimable fromStatus now r \<and>
      row s' scope kh = Some (if taken then reclaimRow (tick s) l x r else r)"
    and succeed_inv: "inv s \<Longrightarrow> inv (snd (repo_MarkSucceeded R i status body x s))"
    and succeed_row: "inv s \<Longrightarrow> repo_MarkSucceeded R i status body x s = (Some (), s') \<Longrightarrow>
      row s scope kh = Some r \<Longrightarrow> ir_ID r = i \<Longrightarrow> row s' scope kh = Some (succeedRow (tick s) status body x r)"
    and fail_inv: "inv s \<Longrightarrow> inv (snd (repo_MarkFailedRetryable R i reason l x s))"
    and fail_row: "inv s \<Longrightarrow> repo_MarkFailedRetryable R i reason l x s = (Some (), s') \<Longrightarrow>
      row s scope kh = Some r \<Longrightarrow> ir_ID r = i \<Longrightarrow> row s' scope kh = Some (failRow (tick s) reason l x r)"
    and delete_inv: "inv s \<Longrightarrow> inv (snd (repo_DeleteExpired R now limit s))"
    and row_key: "inv s \<Longrightarrow> row s scope kh = Some r \<Longrightarrow>
      ir_ID r \<noteq> 0 \<and> ir_Scope r = scope \<and> ir_IdempotencyKeyHash r = kh"
    and row_unique: "inv s \<Longrightarrow> row s scope kh = Some r \<Longrightarrow> row s scope' kh' = Some r' \<Longrightarrow>
      ir_ID r = ir_ID r' \<Longrightarrow> r = r'"
    and create_keeps: "inv s \<Longrightarrow> row s scope kh = Some r \<Longrightarrow>
      row (snd (repo_CreateProcessing R rec s)) scope kh = Some r"
    and get_keeps: "inv s \<Longrightarrow> row (snd (repo_GetByScopeAndKeyHash R scope' kh' s)) = row s"
    and reclaim_keeps: "inv s \<Longrightarrow> row s scope kh = Some r \<Longrightarrow> ir_ID r \<noteq> i \<Longrightarrow>
      row (snd (repo_TryReclaim R i fromStatus now l x s)) scope kh = Some r"
    and succeed_keeps: "inv s \<Longrightarrow> row s scope kh = Some r \<Longrightarrow> ir_ID r \<noteq> i \<Longrightarrow>
      row (snd (repo_MarkSucceeded R i status body x s)) scope kh = Some r"
    and fail_keeps: "inv s \<Longrightarrow> row s scope kh = Some r \<Longrightarrow> ir_ID r \<noteq> i \<Longrightarrow>
      row (snd (repo_MarkFailedRetryable R i reason l x s)) scope kh = Some r"
    and delete_keeps: "inv s \<Longrightarrow> row s scope kh = Some r \<Longrightarrow> now < ir_ExpiresAt r \<Longrightarrow>
      row (snd (repo_DeleteExpired R now limit s)) scope kh = Some r"
    and create_total: "healthy s \<Longrightarrow> \<exists>x s'. repo_CreateProcessing R rec s = (Some x, s') \<and> healthy s'"
    and reclaim_total: "healthy s \<Longrightarrow> \<exists>x s'. repo_TryReclaim R i fromStatus now l x' s = (Some x, s') \<and> healthy s'"
    and fail_total: "healthy s \<Longrightarrow> \<exists>s'. repo_MarkFailedRetryable R i reason l x' s = (Some (), s') \<and> healthy s'"
    and get_total: "healthy s \<Longrightarrow> \<exists>x s'. repo_GetByScopeAndKeyHash R scope kh s = (Some x, s') \<and> healthy s'"

section \<open>The table\<close>

record idem_db =
  db_rows :: "IdempotencyRecord list"
  db_next :: int
  db_clock :: time
  db_faults :: "fault list"

text \<open>Running one statement under the coming fault.\<close>

definition statement :: "(idem_db \<Rightarrow> 'a \<times> idem_db) \<Rightarrow> idem_db \<Rightarrow> 'a option \<times> idem_db" where
  "statement f db =
     (let prior = db\<lparr>db_faults := tl (db_faults db)\<rparr>; result = f prior
      in case db_faults db of
           NotApplied # _ \<Rightarrow> (None, prior)
         | Applied # _ \<Rightarrow> (None, snd result)
         | _ \<Rightarrow> (Some (fst result), snd result))"

definition hasKey :: "string \<Rightarrow> string \<Rightarrow> IdempotencyRecord \<Rightarrow> bool" where
  "hasKey scope keyHash r \<longleftrightarrow> ir_Scope r = scope \<and> ir_IdempotencyKeyHash r = keyHash"

definition CreateProcessing ::
  "IdempotencyRecord \<Rightarrow> idem_db \<Rightarrow> (bool \<times> IdempotencyRecord) option \<times> idem_db" where
  "CreateProcessing rec = statement (\<lambda>db.
     if (\<exists>r \<in> set (db_rows db). hasKey (ir_Scope rec) (ir_IdempotencyKeyHash rec) r) then ((False, rec), db)
     else
       let rec' = rec\<lparr>ir_ID := db_next db, ir_CreatedAt := db_clock db, ir_UpdatedAt := db_clock db\<rparr>
       in ((True, rec'),
           db\<lparr>db_rows := db_rows db @
                [rec'\<lparr>ir_ResponseStatus := None, ir_ResponseBody := None, ir_ErrorReason := None\<rparr>],
              db_next := db_next db + 1\<rparr>))"

definition GetByScopeAndKeyHash ::
  "string \<Rightarrow> string \<Rightarrow> idem_db \<Rightarrow> IdempotencyRecord option option \<times> idem_db" where
  "GetByScopeAndKeyHash scope keyHash = statement (\<lambda>db. (find (hasKey scope keyHash) (db_rows db), db))"

text \<open>\<open>UPDATE ... WHERE\<close>, with the number of rows it affected.\<close>

definition updateRows ::
  "(IdempotencyRecord \<Rightarrow> bool) \<Rightarrow> (IdempotencyRecord \<Rightarrow> IdempotencyRecord) \<Rightarrow> idem_db \<Rightarrow> nat \<times> idem_db" where
  "updateRows p f db = (length (filter p (db_rows db)),
     db\<lparr>db_rows := map (\<lambda>r. if p r then f r else r) (db_rows db)\<rparr>)"

definition TryReclaim ::
  "int \<Rightarrow> string \<Rightarrow> time \<Rightarrow> time \<Rightarrow> time \<Rightarrow> idem_db \<Rightarrow> bool option \<times> idem_db" where
  "TryReclaim i fromStatus now newLockedUntil newExpiresAt = statement (\<lambda>db.
     map_prod (\<lambda>affected. affected > 0) id
       (updateRows (\<lambda>r. ir_ID r = i \<and> reclaimable fromStatus now r)
          (reclaimRow (db_clock db) newLockedUntil newExpiresAt) db))"

definition ExtendProcessingLock ::
  "int \<Rightarrow> string \<Rightarrow> time \<Rightarrow> time \<Rightarrow> idem_db \<Rightarrow> bool option \<times> idem_db" where
  "ExtendProcessingLock i requestFingerprint newLockedUntil newExpiresAt = statement (\<lambda>db.
     map_prod (\<lambda>affected. affected > 0) id
       (updateRows (\<lambda>r. ir_ID r = i \<and> ir_Status r = IdempotencyStatusProcessing \<and>
                        ir_RequestFingerprint r = requestFingerprint)
          (extendRow (db_clock db) newLockedUntil newExpiresAt) db))"

definition MarkSucceeded :: "int \<Rightarrow> int \<Rightarrow> string \<Rightarrow> time \<Rightarrow> idem_db \<Rightarrow> unit option \<times> idem_db" where
  "MarkSucceeded i responseStatus responseBody expiresAt = statement (\<lambda>db.
     map_prod (\<lambda>_. ()) id
       (updateRows (\<lambda>r. ir_ID r = i) (succeedRow (db_clock db) responseStatus responseBody expiresAt) db))"

definition MarkFailedRetryable :: "int \<Rightarrow> string \<Rightarrow> time \<Rightarrow> time \<Rightarrow> idem_db \<Rightarrow> unit option \<times> idem_db" where
  "MarkFailedRetryable i errorReason lockedUntil expiresAt = statement (\<lambda>db.
     map_prod (\<lambda>_. ()) id
       (updateRows (\<lambda>r. ir_ID r = i) (failRow (db_clock db) errorReason lockedUntil expiresAt) db))"

definition DeleteExpired :: "time \<Rightarrow> int \<Rightarrow> idem_db \<Rightarrow> int option \<times> idem_db" where
  "DeleteExpired now limit = statement (\<lambda>db.
     let limit = (if limit \<le> 0 then 500 else limit);
         victims = take (nat limit)
           (sort_key ir_ExpiresAt (filter (\<lambda>r. ir_ExpiresAt r \<le> now) (db_rows db)));
         kept = filter (\<lambda>r. ir_ID r \<notin> ir_ID ` set victims) (db_rows db)
     in (int (length (db_rows db)) - int (length kept), db\<lparr>db_rows := kept\<rparr>))"

definition sql_repository :: "idem_db IdempotencyRepository" where
  "sql_repository =
     \<lparr>repo_CreateProcessing = CreateProcessing, repo_GetByScopeAndKeyHash = GetByScopeAndKeyHash,
      repo_TryReclaim = TryReclaim, repo_ExtendProcessingLock = ExtendProcessingLock,
      repo_MarkSucceeded = MarkSucceeded, repo_MarkFailedRetryable = MarkFailedRetryable,
      repo_DeleteExpired = DeleteExpired\<rparr>"

section \<open>The table satisfies the laws\<close>

text \<open>The constraints of the schema: a primary key drawn from a sequence, a unique scope and key.\<close>

definition db_inv :: "idem_db \<Rightarrow> bool" where
  "db_inv db \<longleftrightarrow> distinct (map ir_ID (db_rows db)) \<and>
     distinct (map (\<lambda>r. (ir_Scope r, ir_IdempotencyKeyHash r)) (db_rows db)) \<and>
     (\<forall>r \<in> set (db_rows db). 0 < ir_ID r \<and> ir_ID r < db_next db) \<and> 0 < db_next db"

definition db_row :: "idem_db \<Rightarrow> string \<Rightarrow> string \<Rightarrow> IdempotencyRecord option" where
  "db_row db scope keyHash = find (hasKey scope keyHash) (db_rows db)"

lemma statement_inv:
  assumes "P db" and "\<And>db. P db \<Longrightarrow> P (snd (f db))" and "\<And>db fs. P (db\<lparr>db_faults := fs\<rparr>) = P db"
  shows "P (snd (statement f db))"
  using assms by (auto simp: statement_def Let_def split: list.split fault.split)

lemma statement_Some:
  "statement f db = (Some x, db') \<Longrightarrow> f (db\<lparr>db_faults := tl (db_faults db)\<rparr>) = (x, db')"
  by (auto simp: statement_def Let_def prod_eq_iff split: list.splits fault.splits)

lemma db_inv_faults [simp]: "db_inv (db\<lparr>db_faults := fs\<rparr>) = db_inv db"
  by (simp add: db_inv_def)

lemma db_row_faults [simp]: "db_row (db\<lparr>db_faults := fs\<rparr>) = db_row db"
  by (simp add: db_row_def fun_eq_iff)

text \<open>An update that keeps identifiers and keys.\<close>

definition keepsKey :: "(IdempotencyRecord \<Rightarrow> IdempotencyRecord) \<Rightarrow> bool" where
  "keepsKey f \<longleftrightarrow> (\<forall>r. ir_ID (f r) = ir_ID r \<and> ir_Scope (f r) = ir_Scope r \<and>
     ir_IdempotencyKeyHash (f r) = ir_IdempotencyKeyHash r)"

lemma keepsKey_updates [simp]:
  "keepsKey (reclaimRow c l x)" "keepsKey (extendRow c l x)" "keepsKey (succeedRow c st b x)"
  "keepsKey (failRow c e l x)"
  by (simp_all add: keepsKey_def row_updates)

lemma updateRows_inv: "keepsKey f \<Longrightarrow> db_inv db \<Longrightarrow> db_inv (snd (updateRows p f db))"
  by (auto simp: db_inv_def updateRows_def keepsKey_def comp_def if_distrib cong: if_cong)

lemma find_map_key:
  "keepsKey f \<Longrightarrow> find (hasKey sc kh) (map (\<lambda>r. if p r then f r else r) rs)
     = map_option (\<lambda>r. if p r then f r else r) (find (hasKey sc kh) rs)"
  by (induction rs) (auto simp: hasKey_def keepsKey_def)

lemma updateRows_row:
  assumes "keepsKey f"
  shows "db_row (snd (updateRows p f db)) scope kh = map_option (\<lambda>r. if p r then f r else r) (db_row db scope kh)"
  using find_map_key [OF assms] by (simp add: db_row_def updateRows_def)

lemma updateRows_affected:
  assumes "db_inv db" and "db_row db scope kh = Some r" and "ir_ID r = i"
  shows "fst (updateRows (\<lambda>r. ir_ID r = i \<and> q r) f db) > 0 \<longleftrightarrow> q r"
proof -
  from assms(2) have r: "r \<in> set (db_rows db)"
    by (auto simp: db_row_def find_Some_iff)
  have inj: "inj_on ir_ID (set (db_rows db))"
    using assms(1) by (simp add: db_inv_def distinct_map)
  have "(\<exists>r' \<in> set (db_rows db). ir_ID r' = i \<and> q r') \<longleftrightarrow> q r"
  proof
    assume "\<exists>r' \<in> set (db_rows db). ir_ID r' = i \<and> q r'"
    then obtain r' where "r' \<in> set (db_rows db)" "ir_ID r' = i" "q r'" by blast
    moreover from this have "r' = r" using inj r assms(3) by (blast dest: inj_onD)
    ultimately show "q r" by simp
  qed (use r assms(3) in blast)
  moreover have "fst (updateRows (\<lambda>r. ir_ID r = i \<and> q r) f db) > 0
      \<longleftrightarrow> (\<exists>r' \<in> set (db_rows db). ir_ID r' = i \<and> q r')"
    by (simp add: updateRows_def filter_empty_conv)
  ultimately show ?thesis by simp
qed

lemma updateRows_other:
  assumes "db_row db scope kh = Some r" and "ir_ID r \<noteq> i" and "keepsKey f"
  shows "db_row (snd (updateRows (\<lambda>r. ir_ID r = i \<and> q r) f db)) scope kh = Some r"
  using assms by (simp add: updateRows_row)

lemma insert_row:
  assumes "db_row db (ir_Scope r) (ir_IdempotencyKeyHash r) = None" and "db_inv db" and "ir_ID r = db_next db"
  shows "db_inv (db\<lparr>db_rows := db_rows db @ [r], db_next := db_next db + 1\<rparr>)"
    and "db_row (db\<lparr>db_rows := db_rows db @ [r], db_next := n\<rparr>) (ir_Scope r) (ir_IdempotencyKeyHash r) = Some r"
proof -
  from assms(1) have "\<forall>x \<in> set (db_rows db). \<not> hasKey (ir_Scope r) (ir_IdempotencyKeyHash r) x"
    by (auto simp: db_row_def find_None_iff)
  then show "db_row (db\<lparr>db_rows := db_rows db @ [r], db_next := n\<rparr>) (ir_Scope r) (ir_IdempotencyKeyHash r) = Some r"
    and "db_inv (db\<lparr>db_rows := db_rows db @ [r], db_next := db_next db + 1\<rparr>)"
    using assms(2,3)
    by (auto simp: db_row_def find_append_None find_None_iff hasKey_def db_inv_def)
qed

lemma db_inv_filter [simp]: "db_inv db \<Longrightarrow> db_inv (db\<lparr>db_rows := filter q (db_rows db)\<rparr>)"
  by (auto simp: db_inv_def distinct_map inj_on_def)

text \<open>A record that has not expired is not among the victims.\<close>

lemma delete_victims:
  assumes "db_inv db" and "db_row db scope kh = Some r" and "now < ir_ExpiresAt r"
    and "victims = take n (sort_key ir_ExpiresAt (filter (\<lambda>r. ir_ExpiresAt r \<le> now) (db_rows db)))"
    and "kept = filter (\<lambda>r. ir_ID r \<notin> ir_ID ` set victims) (db_rows db)"
  shows "db_row (db\<lparr>db_rows := kept\<rparr>) scope kh = Some r"
proof -
  have mem: "r \<in> set (db_rows db)"
    using assms(2) by (auto simp: db_row_def find_Some_iff)
  have "v \<in> set (db_rows db) \<and> ir_ExpiresAt v \<le> now" if "v \<in> set victims" for v
    using in_set_takeD [OF that [unfolded assms(4)]] by simp
  moreover have "inj_on ir_ID (set (db_rows db))"
    using assms(1) by (simp add: db_inv_def distinct_map)
  ultimately have "ir_ID r \<notin> ir_ID ` set victims"
    using mem assms(3) by (force dest: inj_onD)
  then show ?thesis
    using assms(2) by (simp add: db_row_def assms(5) find_filter_Some)
qed

interpretation sql: idempotency_store sql_repository db_row db_inv db_clock "\<lambda>db. db_faults db = []"
proof unfold_locales
  fix s s' :: idem_db and rec rec' :: IdempotencyRecord
  let ?s = "s\<lparr>db_faults := tl (db_faults s)\<rparr>"
  assume inv: "db_inv s"
  show "db_inv (snd (repo_CreateProcessing sql_repository rec s))"
    unfolding sql_repository_def IdempotencyRepository.simps CreateProcessing_def
    by (rule statement_inv) (use inv insert_row(1) in \<open>auto simp: db_row_def find_None_iff Let_def\<close>)
  show "db_row s (ir_Scope rec) (ir_IdempotencyKeyHash rec) = None \<and>
      rec' = rec\<lparr>ir_ID := ir_ID rec', ir_CreatedAt := db_clock s, ir_UpdatedAt := db_clock s\<rparr> \<and> ir_ID rec' \<noteq> 0 \<and>
      db_row s' (ir_Scope rec) (ir_IdempotencyKeyHash rec) = Some (rec'\<lparr>ir_ResponseStatus := None,
        ir_ResponseBody := None, ir_ErrorReason := None\<rparr>)"
    if "repo_CreateProcessing sql_repository rec s = (Some (True, rec'), s')"
  proof -
    let ?new = "rec\<lparr>ir_ID := db_next s, ir_CreatedAt := db_clock s, ir_UpdatedAt := db_clock s\<rparr>"
    let ?row = "?new\<lparr>ir_ResponseStatus := None, ir_ResponseBody := None, ir_ErrorReason := None\<rparr>"
    from that have none: "\<not> (\<exists>r \<in> set (db_rows s). hasKey (ir_Scope rec) (ir_IdempotencyKeyHash rec) r)"
      and new: "rec' = ?new" "s' = ?s\<lparr>db_rows := db_rows ?s @ [?row], db_next := db_next s + 1\<rparr>"
      by (auto dest!: statement_Some simp: sql_repository_def CreateProcessing_def Let_def split: if_splits)
    from none have "db_row ?s (ir_Scope ?row) (ir_IdempotencyKeyHash ?row) = None"
      by (simp add: db_row_def find_None_iff)
    from insert_row(2) [OF this] inv this show ?thesis by (simp add: new db_inv_def)
  qed
  show "db_row s (ir_Scope rec) (ir_IdempotencyKeyHash rec) \<noteq> None \<and> rec' = rec \<and> db_row s' = db_row s"
    if "repo_CreateProcessing sql_repository rec s = (Some (False, rec'), s')"
    using statement_Some [OF that [unfolded sql_repository_def IdempotencyRepository.simps CreateProcessing_def]]
    by (auto simp: db_row_def find_None_iff Let_def fun_eq_iff split: if_splits)
next
  fix s s' :: idem_db and scope kh :: string and res
  assume "db_inv s"
  then show "db_inv (snd (repo_GetByScopeAndKeyHash sql_repository scope kh s))"
    unfolding sql_repository_def IdempotencyRepository.simps GetByScopeAndKeyHash_def
    by (rule statement_inv) simp_all
  show "res = db_row s scope kh \<and> db_row s' = db_row s"
    if "repo_GetByScopeAndKeyHash sql_repository scope kh s = (Some res, s')"
    using statement_Some [OF that [unfolded sql_repository_def IdempotencyRepository.simps GetByScopeAndKeyHash_def]]
    by (auto simp: db_row_def fun_eq_iff)
next
  fix s s' :: idem_db and i fromStatus now l x taken scope kh r
  assume inv: "db_inv s"
  then show "db_inv (snd (repo_TryReclaim sql_repository i fromStatus now l x s))"
    unfolding sql_repository_def IdempotencyRepository.simps TryReclaim_def
    by (rule statement_inv) (simp_all add: updateRows_inv)
  assume m: "repo_TryReclaim sql_repository i fromStatus now l x s = (Some taken, s')"
    and r: "db_row s scope kh = Some r" "ir_ID r = i"
  let ?s = "s\<lparr>db_faults := tl (db_faults s)\<rparr>"
  let ?u = "updateRows (\<lambda>r. ir_ID r = i \<and> reclaimable fromStatus now r) (reclaimRow (db_clock s) l x) ?s"
  have "map_prod (\<lambda>affected. affected > 0) id ?u = (taken, s')"
    using statement_Some [OF m [unfolded sql_repository_def IdempotencyRepository.simps TryReclaim_def]]
    by (simp del: neq0_conv)
  then have u: "taken = (fst ?u > 0)" "s' = snd ?u"
    by (auto simp: prod_eq_iff simp del: neq0_conv)
  have "taken = reclaimable fromStatus now r"
    unfolding u(1) by (rule updateRows_affected [where scope = scope and kh = kh]) (use inv r in simp_all)
  moreover have "db_row s' scope kh = Some (if reclaimable fromStatus now r then reclaimRow (db_clock s) l x r else r)"
    using r by (simp add: u(2) updateRows_row)
  ultimately show "taken = reclaimable fromStatus now r \<and>
      db_row s' scope kh = Some (if taken then reclaimRow (db_clock s) l x r else r)" by simp
next
  fix s s' :: idem_db and i status body x scope kh r
  assume inv: "db_inv s"
  then show "db_inv (snd (repo_MarkSucceeded sql_repository i status body x s))"
    unfolding sql_repository_def IdempotencyRepository.simps MarkSucceeded_def
    by (rule statement_inv) (simp_all add: updateRows_inv)
  assume m: "repo_MarkSucceeded sql_repository i status body x s = (Some (), s')"
    and r: "db_row s scope kh = Some r" "ir_ID r = i"
  from statement_Some [OF m [unfolded sql_repository_def IdempotencyRepository.simps MarkSucceeded_def]] r
  show "db_row s' scope kh = Some (succeedRow (db_clock s) status body x r)"
    by (auto simp: map_prod_def case_prod_unfold updateRows_row)
next
  fix s s' :: idem_db and i reason l x scope kh r
  assume inv: "db_inv s"
  then show "db_inv (snd (repo_MarkFailedRetryable sql_repository i reason l x s))"
    unfolding sql_repository_def IdempotencyRepository.simps MarkFailedRetryable_def
    by (rule statement_inv) (simp_all add: updateRows_inv)
  assume m: "repo_MarkFailedRetryable sql_repository i reason l x s = (Some (), s')"
    and r: "db_row s scope kh = Some r" "ir_ID r = i"
  from statement_Some [OF m [unfolded sql_repository_def IdempotencyRepository.simps MarkFailedRetryable_def]] r
  show "db_row s' scope kh = Some (failRow (db_clock s) reason l x r)"
    by (auto simp: map_prod_def case_prod_unfold updateRows_row)
next
  fix s :: idem_db and now limit
  assume "db_inv s"
  then show "db_inv (snd (repo_DeleteExpired sql_repository now limit s))"
    unfolding sql_repository_def IdempotencyRepository.simps DeleteExpired_def
    by (rule statement_inv) (simp_all add: Let_def)
next
  fix s :: idem_db and scope kh r scope' kh' r'
  assume inv: "db_inv s" and r: "db_row s scope kh = Some r"
  then have mem: "r \<in> set (db_rows s)"
    by (auto simp: db_row_def find_Some_iff)
  with inv r show "ir_ID r \<noteq> 0 \<and> ir_Scope r = scope \<and> ir_IdempotencyKeyHash r = kh"
    by (auto simp: db_inv_def db_row_def find_Some_iff hasKey_def)
  assume "db_row s scope' kh' = Some r'" and "ir_ID r = ir_ID r'"
  then have "r' \<in> set (db_rows s)"
    by (auto simp: db_row_def find_Some_iff)
  moreover have "inj_on ir_ID (set (db_rows s))"
    using inv by (simp add: db_inv_def distinct_map)
  ultimately show "r = r'"
    using mem \<open>ir_ID r = ir_ID r'\<close> by (blast dest: inj_onD)
next
  fix s :: idem_db and scope kh scope' kh' r rec i fromStatus now l x status body reason limit
  show "db_row (snd (repo_GetByScopeAndKeyHash sql_repository scope' kh' s)) = db_row s"
    unfolding sql_repository_def IdempotencyRepository.simps GetByScopeAndKeyHash_def
    by (rule statement_inv [where P = "\<lambda>db. db_row db = db_row s"]) simp_all
  assume inv: "db_inv s" and r: "db_row s scope kh = Some r"
  from r show "db_row (snd (repo_CreateProcessing sql_repository rec s)) scope kh = Some r"
    unfolding sql_repository_def IdempotencyRepository.simps CreateProcessing_def
    by (rule statement_inv [where P = "\<lambda>db. db_row db scope kh = Some r"])
       (simp_all add: db_row_def find_append_Some Let_def)
  show "db_row (snd (repo_DeleteExpired sql_repository now limit s)) scope kh = Some r" if "now < ir_ExpiresAt r"
    unfolding sql_repository_def IdempotencyRepository.simps DeleteExpired_def
    by (rule statement_inv [where P = "\<lambda>db. db_inv db \<and> db_row db scope kh = Some r", THEN conjunct2])
       (use inv r that in \<open>simp_all add: Let_def delete_victims [OF _ _ _ refl refl]\<close>)
  assume i: "ir_ID r \<noteq> i"
  from r show "db_row (snd (repo_TryReclaim sql_repository i fromStatus now l x s)) scope kh = Some r"
    unfolding sql_repository_def IdempotencyRepository.simps TryReclaim_def
    by (rule statement_inv [where P = "\<lambda>db. db_row db scope kh = Some r"]) (simp_all add: updateRows_row i)
  from r show "db_row (snd (repo_MarkSucceeded sql_repository i status body x s)) scope kh = Some r"
    unfolding sql_repository_def IdempotencyRepository.simps MarkSucceeded_def
    by (rule statement_inv [where P = "\<lambda>db. db_row db scope kh = Some r"]) (simp_all add: updateRows_row i)
  from r show "db_row (snd (repo_MarkFailedRetryable sql_repository i reason l x s)) scope kh = Some r"
    unfolding sql_repository_def IdempotencyRepository.simps MarkFailedRetryable_def
    by (rule statement_inv [where P = "\<lambda>db. db_row db scope kh = Some r"]) (simp_all add: updateRows_row i)
next
  fix s :: idem_db and rec scope kh i fromStatus now l x' reason
  assume "db_faults s = []"
  then show "\<exists>x s'. repo_CreateProcessing sql_repository rec s = (Some x, s') \<and> db_faults s' = []"
    and "\<exists>x s'. repo_TryReclaim sql_repository i fromStatus now l x' s = (Some x, s') \<and> db_faults s' = []"
    and "\<exists>s'. repo_MarkFailedRetryable sql_repository i reason l x' s = (Some (), s') \<and> db_faults s' = []"
    and "\<exists>x s'. repo_GetByScopeAndKeyHash sql_repository scope kh s = (Some x, s') \<and> db_faults s' = []"
    by (simp_all add: sql_repository_def CreateProcessing_def GetByScopeAndKeyHash_def TryReclaim_def
        MarkFailedRetryable_def updateRows_def statement_def Let_def)
qed

end
