(* ===== verification/Idempotency.thy ===== *)
theory Idempotency
  imports Idempotency_Store
begin

text \<open>
  \<open>service/idempotency.go\<close>: the coordinator that runs a request at most once per idempotency key.

  \<open>Execute\<close> is written in the phases the code has: validating the options, claiming the key
  (inserting a record, or reading the existing one and possibly taking it over), running the
  operation and recording its outcome.  The operation is a function on a world \<open>'w\<close>, so that
  running it is visible.  \<open>now\<close> is the time at entry and \<open>later\<close> the time when a failed operation
  returned.  \<open>encoding/json\<close>, the log redaction, SHA-256 and \<open>strings.ToUpper\<close> are the fields of a
  record of parameters.  Metrics and audit log lines are left out.

  Lemmas: what a claim and a run leave in the store, and that a stored success answers every later
  request with its key.
\<close>

section \<open>Keys, fingerprints and stored bodies\<close>

datatype 'e idem_error =
    ExecutorNil | KeyRequired | KeyInvalid | KeyConflict | InProgress "int option"
  | RetryBackoff "int option" | StoreUnavail | InvalidPayload | ScopeRequired | ExecFailed 'e

record ('d, 'e) idem_lib =
  lib_Marshal :: "'d \<Rightarrow> string option"
  lib_Unmarshal :: "string \<Rightarrow> 'd option"
  lib_EmptyObject :: 'd
  lib_RedactText :: "string \<Rightarrow> string"
  lib_Sha256Hex :: "string \<Rightarrow> string"
  lib_ToUpper :: "string \<Rightarrow> string"
  lib_Reason :: "'e \<Rightarrow> string"

record IdempotencyConfig =
  cfg_DefaultTTL :: duration
  cfg_SystemOperationTTL :: duration
  cfg_ProcessingTimeout :: duration
  cfg_FailedRetryBackoff :: duration
  cfg_MaxStoredResponseLen :: int
  cfg_ObserveOnly :: bool

definition DefaultIdempotencyConfig :: IdempotencyConfig where
  "DefaultIdempotencyConfig =
     \<lparr>cfg_DefaultTTL = 24 * Hour, cfg_SystemOperationTTL = 1 * Hour, cfg_ProcessingTimeout = 30 * Second,
      cfg_FailedRetryBackoff = 5 * Second, cfg_MaxStoredResponseLen = 64 * 1024, cfg_ObserveOnly = True\<rparr>"

text \<open>The coordinator is the configuration of \<open>DefaultIdempotencyCoordinator()\<close>, if one is set.\<close>

definition DefaultWriteIdempotencyTTL :: "IdempotencyConfig option \<Rightarrow> duration" where
  "DefaultWriteIdempotencyTTL coordinator = (case coordinator of
     Some cfg \<Rightarrow> if cfg_DefaultTTL cfg > 0 then cfg_DefaultTTL cfg else cfg_DefaultTTL DefaultIdempotencyConfig
   | None \<Rightarrow> cfg_DefaultTTL DefaultIdempotencyConfig)"

definition DefaultSystemOperationIdempotencyTTL :: "IdempotencyConfig option \<Rightarrow> duration" where
  "DefaultSystemOperationIdempotencyTTL coordinator = (case coordinator of
     Some cfg \<Rightarrow> if cfg_SystemOperationTTL cfg > 0 then cfg_SystemOperationTTL cfg
                else cfg_SystemOperationTTL DefaultIdempotencyConfig
   | None \<Rightarrow> cfg_SystemOperationTTL DefaultIdempotencyConfig)"

text \<open>
  The code tests runes.  A byte above 126 starts or continues a rune above 126, or decodes to the
  replacement character, so testing bytes is the same.  \<open>None\<close> is \<open>ErrIdempotencyKeyInvalid\<close>.
\<close>

definition NormalizeIdempotencyKey :: "string \<Rightarrow> string option" where
  "NormalizeIdempotencyKey raw =
     (let key = TrimSpace raw
      in if key = [] then Some []
         else if length key > 128 then None
         else if (\<exists>c \<in> set key. (of_char c :: nat) < 33 \<or> (of_char c :: nat) > 126) then None
         else Some key)"

definition HashIdempotencyKey :: "('d, 'e) idem_lib \<Rightarrow> string \<Rightarrow> string" where
  "HashIdempotencyKey L key = lib_Sha256Hex L key"

definition BuildIdempotencyFingerprint ::
  "('d, 'e) idem_lib \<Rightarrow> string \<Rightarrow> string \<Rightarrow> string \<Rightarrow> 'd \<Rightarrow> 'e idem_error + string" where
  "BuildIdempotencyFingerprint L method route actorScope payload =
     (let method = (if method = [] then ''POST'' else method);
          route = (if route = [] then ''/'' else route);
          actorScope = (if actorScope = [] then ''anonymous'' else actorScope)
      in case lib_Marshal L payload of
           None \<Rightarrow> Inl InvalidPayload
         | Some raw \<Rightarrow> Inr (lib_Sha256Hex L
             (lib_ToUpper L method @ [CHR 0x0A] @ route @ [CHR 0x0A] @ actorScope @ [CHR 0x0A] @ raw)))"

text \<open>\<open>utf8.ValidString\<close>.\<close>

function ValidString :: "string \<Rightarrow> bool" where
  "ValidString s = (if s = [] then True
     else case runeLength s of None \<Rightarrow> False | Some n \<Rightarrow> ValidString (drop n s))"
  by pat_completeness auto
termination
  by (relation "measure length") (auto dest: runeLength_pos)

declare ValidString.simps [simp del]

lemma ValidString_Nil [simp]: "ValidString []"
  by (simp add: ValidString.simps)

text \<open>The loop that shortens \<open>s[:maxBytes]\<close> until it is valid.\<close>

fun shortenToValid :: "string \<Rightarrow> nat \<Rightarrow> string" where
  "shortenToValid s 0 = []"
| "shortenToValid s (Suc n) = (if ValidString (take (Suc n) s) then take (Suc n) s else shortenToValid s n)"

definition truncateUTF8 :: "string \<Rightarrow> int \<Rightarrow> string" where
  "truncateUTF8 s maxBytes =
     (if maxBytes \<le> 0 \<or> int (length s) \<le> maxBytes then s else shortenToValid s (nat maxBytes))"

definition marshalStoredResponse :: "('d, 'e) idem_lib \<Rightarrow> IdempotencyConfig \<Rightarrow> 'd \<Rightarrow> string option" where
  "marshalStoredResponse L cfg data = (case lib_Marshal L data of
     None \<Rightarrow> None
   | Some raw \<Rightarrow>
       let redacted = lib_RedactText L raw
       in Some (if cfg_MaxStoredResponseLen cfg > 0 \<and> int (length redacted) > cfg_MaxStoredResponseLen cfg
                then truncateUTF8 redacted (cfg_MaxStoredResponseLen cfg) @ ''...(truncated)''
                else redacted))"

definition decodeStoredResponse :: "('d, 'e) idem_lib \<Rightarrow> string option \<Rightarrow> 'd option" where
  "decodeStoredResponse L stored = (case stored of
     None \<Rightarrow> Some (lib_EmptyObject L)
   | Some s \<Rightarrow> if TrimSpace s = [] then Some (lib_EmptyObject L) else lib_Unmarshal L s)"

text \<open>
  \<open>conflictWithRetryAfter\<close>: the seconds a client is told to wait.  The code goes through a
  \<open>float64\<close>, which holds every duration below 48 days to the nanosecond.
\<close>

definition retryAfter :: "time option \<Rightarrow> time \<Rightarrow> int option" where
  "retryAfter lockedUntil now = (case lockedUntil of
     None \<Rightarrow> None
   | Some l \<Rightarrow> let sec = go_div (l - now) Second in Some (if sec \<le> 0 then 1 else sec))"

section \<open>Claiming a key\<close>

record 'd IdempotencyExecuteOptions =
  opt_Scope :: string
  opt_ActorScope :: string
  opt_Method :: string
  opt_Route :: string
  opt_IdempotencyKey :: string
  opt_Payload :: 'd
  opt_TTL :: duration
  opt_RequireKey :: bool

record 'd IdempotencyExecuteResult =
  res_Data :: 'd
  res_Replayed :: bool

type_synonym ('d, 'e) outcome = "'e idem_error + 'd IdempotencyExecuteResult"

text \<open>A claim either owns the record with the identifier, or has its answer.\<close>

datatype ('d, 'e) claim = Claimed int | Answer "('d, 'e) outcome"

text \<open>The request as the claim sees it.\<close>

record claim_request =
  cr_Scope :: string
  cr_KeyHash :: string
  cr_Fingerprint :: string
  cr_Now :: time
  cr_LockedUntil :: time
  cr_ExpiresAt :: time

definition processingRecord :: "claim_request \<Rightarrow> IdempotencyRecord" where
  "processingRecord q =
     \<lparr>ir_ID = 0, ir_Scope = cr_Scope q, ir_IdempotencyKeyHash = cr_KeyHash q,
      ir_RequestFingerprint = cr_Fingerprint q, ir_Status = IdempotencyStatusProcessing,
      ir_ResponseStatus = None, ir_ResponseBody = None, ir_ErrorReason = None,
      ir_LockedUntil = Some (cr_LockedUntil q), ir_ExpiresAt = cr_ExpiresAt q, ir_CreatedAt = 0,
      ir_UpdatedAt = 0\<rparr>"

text \<open>The switch on the status of the existing record.\<close>

definition claimByStatus ::
  "('d, 'e) idem_lib \<Rightarrow> 's IdempotencyRepository \<Rightarrow> claim_request \<Rightarrow> IdempotencyRecord \<Rightarrow> 's
     \<Rightarrow> ('d, 'e) claim \<times> 's" where
  "claimByStatus L R q existing s =
     (if ir_Status existing = IdempotencyStatusSucceeded then
        (case decodeStoredResponse L (ir_ResponseBody existing) of
           None \<Rightarrow> (Answer (Inl StoreUnavail), s)
         | Some d \<Rightarrow> (Answer (Inr \<lparr>res_Data = d, res_Replayed = True\<rparr>), s))
      else if ir_Status existing = IdempotencyStatusProcessing then
        (Answer (Inl (InProgress (retryAfter (ir_LockedUntil existing) (cr_Now q)))), s)
      else if ir_Status existing = IdempotencyStatusFailedRetryable then
        (if (case ir_LockedUntil existing of None \<Rightarrow> False | Some l \<Rightarrow> l > cr_Now q) then
           (Answer (Inl (RetryBackoff (retryAfter (ir_LockedUntil existing) (cr_Now q)))), s)
         else
           case repo_TryReclaim R (ir_ID existing) IdempotencyStatusFailedRetryable (cr_Now q)
                  (cr_LockedUntil q) (cr_ExpiresAt q) s of
             (None, s) \<Rightarrow> (Answer (Inl StoreUnavail), s)
           | (Some True, s) \<Rightarrow> (Claimed (ir_ID existing), s)
           | (Some False, s) \<Rightarrow>
               (Answer (Inl (InProgress (retryAfter (ir_LockedUntil existing) (cr_Now q)))), s))
      else (Answer (Inl KeyConflict), s))"

text \<open>Taking over a record that has expired, or reading again what became of it.\<close>

definition claimExpired ::
  "('d, 'e) idem_lib \<Rightarrow> 's IdempotencyRepository \<Rightarrow> claim_request \<Rightarrow> IdempotencyRecord \<Rightarrow> 's
     \<Rightarrow> ('d, 'e) claim \<times> 's" where
  "claimExpired L R q existing s =
     (case repo_TryReclaim R (ir_ID existing) (ir_Status existing) (cr_Now q)
             (cr_LockedUntil q) (cr_ExpiresAt q) s of
        (None, s) \<Rightarrow> (Answer (Inl StoreUnavail), s)
      | (Some True, s) \<Rightarrow> (Claimed (ir_ID existing), s)
      | (Some False, s) \<Rightarrow>
          (case repo_GetByScopeAndKeyHash R (cr_Scope q) (cr_KeyHash q) s of
             (None, s) \<Rightarrow> (Answer (Inl StoreUnavail), s)
           | (Some None, s) \<Rightarrow> (Answer (Inl StoreUnavail), s)
           | (Some (Some latest), s) \<Rightarrow>
               if ir_RequestFingerprint latest \<noteq> cr_Fingerprint q then (Answer (Inl KeyConflict), s)
               else claimByStatus L R q latest s))"

definition claimExisting ::
  "('d, 'e) idem_lib \<Rightarrow> 's IdempotencyRepository \<Rightarrow> claim_request \<Rightarrow> 's \<Rightarrow> ('d, 'e) claim \<times> 's" where
  "claimExisting L R q s =
     (case repo_GetByScopeAndKeyHash R (cr_Scope q) (cr_KeyHash q) s of
        (None, s) \<Rightarrow> (Answer (Inl StoreUnavail), s)
      | (Some None, s) \<Rightarrow> (Answer (Inl StoreUnavail), s)
      | (Some (Some existing), s) \<Rightarrow>
          if ir_RequestFingerprint existing \<noteq> cr_Fingerprint q then (Answer (Inl KeyConflict), s)
          else if \<not> ir_ExpiresAt existing > cr_Now q then claimExpired L R q existing s
          else claimByStatus L R q existing s)"

definition claimKey ::
  "('d, 'e) idem_lib \<Rightarrow> 's IdempotencyRepository \<Rightarrow> claim_request \<Rightarrow> 's \<Rightarrow> ('d, 'e) claim \<times> 's" where
  "claimKey L R q s =
     (case repo_CreateProcessing R (processingRecord q) s of
        (None, s) \<Rightarrow> (Answer (Inl StoreUnavail), s)
      | (Some (True, rec), s) \<Rightarrow> (Claimed (ir_ID rec), s)
      | (Some (False, rec), s) \<Rightarrow> claimExisting L R q s)"

section \<open>Running the operation\<close>

type_synonym ('d, 'e, 'w) operation = "'w \<Rightarrow> ('e + 'd) \<times> 'w"

definition runClaimed ::
  "('d, 'e) idem_lib \<Rightarrow> IdempotencyConfig \<Rightarrow> 's IdempotencyRepository \<Rightarrow> ('d, 'e, 'w) operation \<Rightarrow>
     int \<Rightarrow> time \<Rightarrow> time \<Rightarrow> 's \<times> 'w \<Rightarrow> ('d, 'e) outcome \<times> 's \<times> 'w" where
  "runClaimed L cfg R execute i expiresAt later = (\<lambda>(s, w).
     if i = 0 then (Inl StoreUnavail, s, w)
     else case execute w of
       (Inl e, w) \<Rightarrow>
         let backoffUntil = later + cfg_FailedRetryBackoff cfg;
             reason = (if lib_Reason L e = [] then ''EXECUTION_FAILED'' else lib_Reason L e);
             (_, s) = repo_MarkFailedRetryable R i reason backoffUntil expiresAt s
         in (Inl (ExecFailed e), s, w)
     | (Inr d, w) \<Rightarrow>
         (case marshalStoredResponse L cfg d of
            None \<Rightarrow> (Inl StoreUnavail, s, w)
          | Some body \<Rightarrow>
              (case repo_MarkSucceeded R i 200 body expiresAt s of
                 (None, s) \<Rightarrow> (Inl StoreUnavail, s, w)
               | (Some _, s) \<Rightarrow> (Inr \<lparr>res_Data = d, res_Replayed = False\<rparr>, s, w))))"

definition effectiveTTL :: "IdempotencyConfig \<Rightarrow> 'd IdempotencyExecuteOptions \<Rightarrow> duration" where
  "effectiveTTL cfg opts = (if opt_TTL opts \<le> 0 then cfg_DefaultTTL cfg else opt_TTL opts)"

definition claimRequest ::
  "('d, 'e) idem_lib \<Rightarrow> IdempotencyConfig \<Rightarrow> 'd IdempotencyExecuteOptions \<Rightarrow> string \<Rightarrow> string \<Rightarrow> time
     \<Rightarrow> claim_request" where
  "claimRequest L cfg opts key fingerprint now =
     \<lparr>cr_Scope = opt_Scope opts, cr_KeyHash = HashIdempotencyKey L key, cr_Fingerprint = fingerprint,
      cr_Now = now, cr_LockedUntil = now + cfg_ProcessingTimeout cfg,
      cr_ExpiresAt = now + effectiveTTL cfg opts\<rparr>"

definition Execute ::
  "('d, 'e) idem_lib \<Rightarrow> IdempotencyConfig \<Rightarrow> 's IdempotencyRepository option \<Rightarrow>
     'd IdempotencyExecuteOptions \<Rightarrow> ('d, 'e, 'w) operation option \<Rightarrow> time \<Rightarrow> time \<Rightarrow> 's \<times> 'w
     \<Rightarrow> ('d, 'e) outcome \<times> 's \<times> 'w" where
  "Execute L cfg repo opts exec now later = (\<lambda>(s, w).
     case exec of
       None \<Rightarrow> (Inl ExecutorNil, s, w)
     | Some execute \<Rightarrow>
     (case NormalizeIdempotencyKey (opt_IdempotencyKey opts) of
       None \<Rightarrow> (Inl KeyInvalid, s, w)
     | Some key \<Rightarrow>
     (if key = [] then
        (if opt_RequireKey opts \<and> \<not> cfg_ObserveOnly cfg then (Inl KeyRequired, s, w)
         else case execute w of
           (Inl e, w) \<Rightarrow> (Inl (ExecFailed e), s, w)
         | (Inr d, w) \<Rightarrow> (Inr \<lparr>res_Data = d, res_Replayed = False\<rparr>, s, w))
      else case repo of
        None \<Rightarrow> (Inl StoreUnavail, s, w)
      | Some R \<Rightarrow>
      (if opt_Scope opts = [] then (Inl ScopeRequired, s, w)
       else case BuildIdempotencyFingerprint L (opt_Method opts) (opt_Route opts) (opt_ActorScope opts)
                   (opt_Payload opts) of
         Inl e \<Rightarrow> (Inl e, s, w)
       | Inr fingerprint \<Rightarrow>
           (let q = claimRequest L cfg opts key fingerprint now
            in case claimKey L R q s of
                 (Answer a, s) \<Rightarrow> (a, s, w)
               | (Claimed i, s) \<Rightarrow> runClaimed L cfg R execute i (cr_ExpiresAt q) later (s, w))))))"

section \<open>What a claim leaves in the store\<close>

text \<open>Case rules for the calls on the store: the three results of a fallible operation.\<close>

lemma case_store:
  "(case x of (None, s) \<Rightarrow> a s | (Some y, s) \<Rightarrow> b y s)
     = (case fst x of None \<Rightarrow> a (snd x) | Some y \<Rightarrow> b y (snd x))"
  by (cases x) (simp split: option.split)

lemma case_claim:
  "(case x of (Claimed i, s) \<Rightarrow> a i s | (Answer y, s) \<Rightarrow> b y s)
     = (case fst x of Claimed i \<Rightarrow> a i (snd x) | Answer y \<Rightarrow> b y (snd x))"
  by (cases x) (simp split: claim.split)

text \<open>A claimed run runs the operation, whatever becomes of its outcome.\<close>

lemma runClaimed_world:
  "snd (snd (runClaimed L cfg R execute i exp later (s, w))) = (if i = 0 then w else snd (execute w))"
proof (cases "execute w")
  case (Pair out w1)
  then show ?thesis
    by (cases out) (simp_all add: runClaimed_def Let_def case_prod_unfold split: option.split)
qed

text \<open>A claim answers with no failure of the operation, and with a result only to replay it.\<close>

lemma claimByStatus_not_run: "claimByStatus L R q r s \<noteq> (Answer (Inl (ExecFailed e)), s')"
  by (auto simp: claimByStatus_def split: option.splits prod.splits bool.splits)

lemma claimKey_not_run: "claimKey L R q s \<noteq> (Answer (Inl (ExecFailed e)), s')"
  by (auto simp: claimKey_def claimExisting_def claimExpired_def claimByStatus_not_run
      split: option.split prod.split bool.split)

lemma claimByStatus_replayed: "claimByStatus L R q r s = (Answer (Inr res), s') \<Longrightarrow> res_Replayed res"
  by (auto simp: claimByStatus_def split: if_splits option.splits prod.splits bool.splits)

lemma claimExpired_replayed: "claimExpired L R q r s = (Answer (Inr res), s') \<Longrightarrow> res_Replayed res"
  by (auto simp: claimExpired_def split: if_splits option.splits prod.splits bool.splits
      dest: claimByStatus_replayed)

lemma claimExisting_replayed: "claimExisting L R q s = (Answer (Inr res), s') \<Longrightarrow> res_Replayed res"
  by (auto simp: claimExisting_def split: if_splits option.splits prod.splits
      dest: claimByStatus_replayed claimExpired_replayed)

lemma claimKey_replayed: "claimKey L R q s = (Answer (Inr res), s') \<Longrightarrow> res_Replayed res"
  by (auto simp: claimKey_def split: option.splits prod.splits bool.splits dest: claimExisting_replayed)

context idempotency_store
begin

lemma inv_after:
  "inv s \<Longrightarrow> repo_CreateProcessing R rec s = (c, s') \<Longrightarrow> inv s'"
  "inv s \<Longrightarrow> repo_GetByScopeAndKeyHash R scope kh s = (g, s') \<Longrightarrow> inv s'"
  "inv s \<Longrightarrow> repo_TryReclaim R i st now l x s = (b, s') \<Longrightarrow> inv s'"
  "inv s \<Longrightarrow> repo_MarkSucceeded R i status body x s = (u, s') \<Longrightarrow> inv s'"
  "inv s \<Longrightarrow> repo_MarkFailedRetryable R i reason l x s = (u, s') \<Longrightarrow> inv s'"
  using create_inv [of s rec] get_inv [of s scope kh] reclaim_inv [of s i st now l x]
    succeed_inv [of s i status body x] fail_inv [of s i reason l x] by auto

lemma reclaim_True:
  assumes "inv s" and "repo_TryReclaim R i st now l x s = (Some True, s')" and "row s scope kh = Some r"
    and "ir_ID r = i"
  shows "row s' scope kh = Some (reclaimRow (tick s) l x r)"
  using reclaim_row [OF assms] by simp

lemma claimByStatus_claimed:
  assumes "inv s" and "row s scope kh = Some r" and "claimByStatus L R q r s = (Claimed i, s')"
  shows "i = ir_ID r \<and> inv s' \<and>
    row s' scope kh = Some (reclaimRow (tick s) (cr_LockedUntil q) (cr_ExpiresAt q) r)"
proof -
  obtain res s1 where t: "repo_TryReclaim R (ir_ID r) IdempotencyStatusFailedRetryable (cr_Now q)
      (cr_LockedUntil q) (cr_ExpiresAt q) s = (res, s1)" by fastforce
  from assms(3) have "res = Some True" "i = ir_ID r" "s' = s1"
    by (auto simp: claimByStatus_def t split: if_splits option.splits bool.splits)
  with t reclaim_True [OF assms(1) _ assms(2) refl] inv_after(3) [OF assms(1) t] show ?thesis
    by simp
qed

lemma claimByStatus_inv:
  assumes "inv s"
  shows "inv (snd (claimByStatus L R q r s))"
proof -
  obtain res s1 where t: "repo_TryReclaim R (ir_ID r) IdempotencyStatusFailedRetryable (cr_Now q)
      (cr_LockedUntil q) (cr_ExpiresAt q) s = (res, s1)" by fastforce
  with inv_after(3) [OF assms t] assms show ?thesis
    by (simp add: claimByStatus_def split: option.split bool.split)
qed

text \<open>A claim that succeeds owns the record of the key, in status processing, under its fingerprint.\<close>

definition owned :: "'s \<Rightarrow> claim_request \<Rightarrow> int \<Rightarrow> bool" where
  "owned s q i \<longleftrightarrow> inv s \<and> (\<exists>r. row s (cr_Scope q) (cr_KeyHash q) = Some r \<and> ir_ID r = i \<and>
     ir_RequestFingerprint r = cr_Fingerprint q \<and> ir_Status r = IdempotencyStatusProcessing \<and>
     ir_LockedUntil r = Some (cr_LockedUntil q) \<and> ir_ExpiresAt r = cr_ExpiresAt q)"

lemma claimByStatus_owned:
  assumes "inv s" and "row s (cr_Scope q) (cr_KeyHash q) = Some r" and "ir_RequestFingerprint r = cr_Fingerprint q"
    and "claimByStatus L R q r s = (Claimed i, s')"
  shows "owned s' q i"
  using claimByStatus_claimed [OF assms(1,2,4)] assms(3) by (simp add: owned_def reclaimRow_def)

lemma claimExpired_owned:
  assumes "inv s" and "row s (cr_Scope q) (cr_KeyHash q) = Some r" and "ir_RequestFingerprint r = cr_Fingerprint q"
    and "claimExpired L R q r s = (Claimed i, s')"
  shows "owned s' q i"
proof -
  obtain res s1 where t: "repo_TryReclaim R (ir_ID r) (ir_Status r) (cr_Now q)
      (cr_LockedUntil q) (cr_ExpiresAt q) s = (res, s1)" by fastforce
  note inv1 = inv_after(3) [OF assms(1) t]
  obtain latest s2 where g: "repo_GetByScopeAndKeyHash R (cr_Scope q) (cr_KeyHash q) s1 = (latest, s2)" by fastforce
  note inv2 = inv_after(2) [OF inv1 g]
  consider "res = Some True" "i = ir_ID r" "s' = s1"
    | r2 where "latest = Some (Some r2)" "ir_RequestFingerprint r2 = cr_Fingerprint q"
        "claimByStatus L R q r2 s2 = (Claimed i, s')"
    using assms(4) by (auto simp: claimExpired_def t g split: if_splits option.splits bool.splits)
  then show ?thesis
  proof cases
    case 1
    with reclaim_True [OF assms(1) _ assms(2) refl] t inv1 assms(3) show ?thesis
      by (simp add: owned_def reclaimRow_def)
  next
    case 2
    with get_row [OF inv1] g have "row s2 (cr_Scope q) (cr_KeyHash q) = Some r2" by auto
    with 2 inv2 show ?thesis by (intro claimByStatus_owned)
  qed
qed

lemma claimExisting_owned:
  assumes "inv s" and "claimExisting L R q s = (Claimed i, s')"
  shows "owned s' q i"
proof -
  obtain found s1 where g: "repo_GetByScopeAndKeyHash R (cr_Scope q) (cr_KeyHash q) s = (found, s1)" by fastforce
  note inv1 = inv_after(2) [OF assms(1) g]
  from assms(2) obtain r where r: "found = Some (Some r)" "ir_RequestFingerprint r = cr_Fingerprint q"
      "claimExpired L R q r s1 = (Claimed i, s') \<or> claimByStatus L R q r s1 = (Claimed i, s')"
    by (auto simp: claimExisting_def g split: if_splits option.splits)
  with get_row [OF assms(1)] g have "row s1 (cr_Scope q) (cr_KeyHash q) = Some r" by auto
  with r inv1 show ?thesis using claimExpired_owned claimByStatus_owned by blast
qed

lemma claimKey_owned:
  assumes "inv s" and "claimKey L R q s = (Claimed i, s')"
  shows "owned s' q i"
proof -
  obtain res s1 where c: "repo_CreateProcessing R (processingRecord q) s = (res, s1)" by fastforce
  note inv1 = inv_after(1) [OF assms(1) c]
  show ?thesis
  proof (cases "\<exists>rec. res = Some (True, rec)")
    case True
    then obtain rec where 1: "res = Some (True, rec)" "i = ir_ID rec" "s' = s1"
      using assms(2) by (auto simp: claimKey_def c)
    have new: "rec = processingRecord q\<lparr>ir_ID := ir_ID rec, ir_CreatedAt := tick s, ir_UpdatedAt := tick s\<rparr>"
      and row: "row s1 (ir_Scope (processingRecord q)) (ir_IdempotencyKeyHash (processingRecord q))
        = Some (rec\<lparr>ir_ResponseStatus := None, ir_ResponseBody := None, ir_ErrorReason := None\<rparr>)"
      using create_new [OF assms(1) c [unfolded 1(1)]] by simp_all
    from new obtain n where "rec = processingRecord q\<lparr>ir_ID := n, ir_CreatedAt := tick s, ir_UpdatedAt := tick s\<rparr>"
      by blast
    with row 1 inv1 show ?thesis
      by (simp add: owned_def processingRecord_def)
  next
    case False
    with assms(2) have "claimExisting L R q s1 = (Claimed i, s')"
      by (cases res) (auto simp: claimKey_def c)
    with inv1 show ?thesis by (rule claimExisting_owned)
  qed
qed

lemma runClaimed_success:
  assumes "owned s q i" and "runClaimed L cfg R execute i (cr_ExpiresAt q) later (s, w) = (Inr res, s', w')"
  shows "\<exists>body r. inv s' \<and> marshalStoredResponse L cfg (res_Data res) = Some body \<and> \<not> res_Replayed res \<and>
    row s' (cr_Scope q) (cr_KeyHash q) = Some r \<and> ir_Status r = IdempotencyStatusSucceeded \<and>
    ir_ResponseBody r = Some body \<and> ir_RequestFingerprint r = cr_Fingerprint q \<and>
    ir_ExpiresAt r = cr_ExpiresAt q"
proof -
  obtain r where inv: "inv s" and r: "row s (cr_Scope q) (cr_KeyHash q) = Some r" "ir_ID r = i"
      "ir_RequestFingerprint r = cr_Fingerprint q"
    using assms(1) by (auto simp: owned_def)
  obtain out w1 where ex: "execute w = (out, w1)" by fastforce
  from assms(2) obtain d where d: "out = Inr d" "i \<noteq> 0"
    by (auto simp: runClaimed_def ex Let_def case_prod_unfold split: if_splits sum.splits)
  from assms(2) d obtain body where body: "marshalStoredResponse L cfg d = Some body"
    by (auto simp: runClaimed_def ex split: option.splits)
  obtain u s1 where m: "repo_MarkSucceeded R i 200 body (cr_ExpiresAt q) s = (u, s1)" by fastforce
  from assms(2) d body have "u = Some ()" "s' = s1" "res = \<lparr>res_Data = d, res_Replayed = False\<rparr>"
    by (auto simp: runClaimed_def ex m split: option.splits)
  with succeed_row [OF inv _ r(1,2), of 200 body "cr_ExpiresAt q" s1] inv_after(4) [OF inv m] m body r(3)
  show ?thesis by (auto simp: succeedRow_def)
qed

section \<open>A stored record is left alone\<close>

text \<open>The record \<open>r\<close> of one key holds an unexpired success.\<close>

definition holds :: "'s \<Rightarrow> string \<Rightarrow> string \<Rightarrow> IdempotencyRecord \<Rightarrow> bool" where
  "holds s scope kh r \<longleftrightarrow> inv s \<and> row s scope kh = Some r \<and> ir_Status r = IdempotencyStatusSucceeded"

lemma holds_keeps:
  assumes "holds s scope kh r"
  shows "holds (snd (repo_CreateProcessing R rec s)) scope kh r"
    and "holds (snd (repo_GetByScopeAndKeyHash R scope' kh' s)) scope kh r"
    and "ir_ID r \<noteq> i \<Longrightarrow> holds (snd (repo_TryReclaim R i st now l x s)) scope kh r"
    and "ir_ID r \<noteq> i \<Longrightarrow> holds (snd (repo_MarkSucceeded R i status body x s)) scope kh r"
    and "ir_ID r \<noteq> i \<Longrightarrow> holds (snd (repo_MarkFailedRetryable R i reason l x s)) scope kh r"
    and "now < ir_ExpiresAt r \<Longrightarrow> holds (snd (repo_DeleteExpired R now limit s)) scope kh r"
  using assms by (simp_all add: holds_def create_inv get_inv reclaim_inv succeed_inv fail_inv delete_inv
      create_keeps get_keeps reclaim_keeps succeed_keeps fail_keeps delete_keeps)

lemma other_id:
  assumes "holds s scope kh r" and "row s scope' kh' = Some r'" and "(scope', kh') \<noteq> (scope, kh)"
  shows "ir_ID r \<noteq> ir_ID r'"
proof
  assume "ir_ID r = ir_ID r'"
  with assms have "r = r'" using row_unique [of s scope kh r scope' kh' r'] by (simp add: holds_def)
  with assms row_key [of s scope kh r] row_key [of s scope' kh' r'] show False
    by (auto simp: holds_def)
qed

lemma claimByStatus_holds:
  assumes "holds s scope kh r" and "ir_ID r \<noteq> ir_ID r'"
  shows "holds (snd (claimByStatus L R q r' s)) scope kh r"
proof -
  obtain b s1 where t: "repo_TryReclaim R (ir_ID r') IdempotencyStatusFailedRetryable (cr_Now q)
      (cr_LockedUntil q) (cr_ExpiresAt q) s = (b, s1)" by fastforce
  with holds_keeps(3) [OF assms, of IdempotencyStatusFailedRetryable "cr_Now q" "cr_LockedUntil q" "cr_ExpiresAt q"]
  have "holds s1 scope kh r" by simp
  with assms(1) t show ?thesis
    by (simp add: claimByStatus_def split: option.split bool.split)
qed

lemma claimExpired_holds:
  assumes "holds s scope kh r" and "ir_ID r \<noteq> ir_ID r'" and "(cr_Scope q, cr_KeyHash q) \<noteq> (scope, kh)"
  shows "holds (snd (claimExpired L R q r' s)) scope kh r"
proof -
  obtain b s1 where t: "repo_TryReclaim R (ir_ID r') (ir_Status r') (cr_Now q)
      (cr_LockedUntil q) (cr_ExpiresAt q) s = (b, s1)" by fastforce
  with holds_keeps(3) [OF assms(1,2), of "ir_Status r'" "cr_Now q" "cr_LockedUntil q" "cr_ExpiresAt q"]
  have h1: "holds s1 scope kh r" by simp
  obtain g s2 where g: "repo_GetByScopeAndKeyHash R (cr_Scope q) (cr_KeyHash q) s1 = (g, s2)" by fastforce
  with holds_keeps(2) [OF h1, of "cr_Scope q" "cr_KeyHash q"] have h2: "holds s2 scope kh r" by simp
  have "holds (snd (claimByStatus L R q r2 s2)) scope kh r" if "g = Some (Some r2)" for r2
  proof (rule claimByStatus_holds [OF h2])
    from get_row [of s1 "cr_Scope q" "cr_KeyHash q"] g that h1
    have "row s2 (cr_Scope q) (cr_KeyHash q) = Some r2" by (auto simp: holds_def)
    with other_id [OF h2] assms(3) show "ir_ID r \<noteq> ir_ID r2" by blast
  qed
  with h1 h2 t g show ?thesis
    by (simp add: claimExpired_def split: option.split bool.split)
qed

text \<open>A claim of the key itself answers from the record; a claim of another key passes it by.\<close>

lemma claimExisting_holds:
  assumes "holds s scope kh r" and "cr_Now q < ir_ExpiresAt r"
  shows "holds (snd (claimExisting L R q s)) scope kh r"
    and "(cr_Scope q, cr_KeyHash q) = (scope, kh) \<Longrightarrow>
      fst (claimExisting L R q s) = Answer (Inl StoreUnavail) \<and> \<not> healthy s \<or>
      fst (claimExisting L R q s) = Answer
        (if ir_RequestFingerprint r \<noteq> cr_Fingerprint q then Inl KeyConflict
         else case decodeStoredResponse L (ir_ResponseBody r) of
           None \<Rightarrow> Inl StoreUnavail | Some d \<Rightarrow> Inr \<lparr>res_Data = d, res_Replayed = True\<rparr>)"
proof -
  obtain g s1 where g: "repo_GetByScopeAndKeyHash R (cr_Scope q) (cr_KeyHash q) s = (g, s1)" by fastforce
  with holds_keeps(2) [OF assms(1), of "cr_Scope q" "cr_KeyHash q"] have h1: "holds s1 scope kh r" by simp
  have found: "row s1 (cr_Scope q) (cr_KeyHash q) = y \<and> row s (cr_Scope q) (cr_KeyHash q) = y" if "g = Some y" for y
    using get_row [of s "cr_Scope q" "cr_KeyHash q"] g that assms(1) by (auto simp: holds_def)
  have g_None: "\<not> healthy s" if "g = None"
    using get_total [of s "cr_Scope q" "cr_KeyHash q"] that by (auto simp: g)
  show "holds (snd (claimExisting L R q s)) scope kh r"
  proof (cases "(cr_Scope q, cr_KeyHash q) = (scope, kh)")
    case True
    then have "y = Some r" if "g = Some y" for y
      using found [OF that] assms(1) by (simp add: holds_def)
    with assms h1 show ?thesis
      by (cases g) (simp_all add: claimExisting_def g claimByStatus_def holds_def split: option.split)
  next
    case False
    then have "ir_ID r \<noteq> ir_ID r2" if "g = Some (Some r2)" for r2
      using other_id [OF h1 conjunct1 [OF found [OF that]]] by simp
    then have "holds (snd (claimByStatus L R q r2 s1)) scope kh r \<and> holds (snd (claimExpired L R q r2 s1)) scope kh r"
      if "g = Some (Some r2)" for r2
      using that by (intro conjI claimByStatus_holds [OF h1] claimExpired_holds [OF h1 _ False]) simp_all
    with h1 show ?thesis
      by (simp add: claimExisting_def g split: option.split)
  qed
  assume True: "(cr_Scope q, cr_KeyHash q) = (scope, kh)"
  then have "y = Some r" if "g = Some y" for y
    using found [OF that] assms(1) by (simp add: holds_def)
  with g_None show "fst (claimExisting L R q s) = Answer (Inl StoreUnavail) \<and> \<not> healthy s \<or>
      fst (claimExisting L R q s) = Answer
        (if ir_RequestFingerprint r \<noteq> cr_Fingerprint q then Inl KeyConflict
         else case decodeStoredResponse L (ir_ResponseBody r) of
           None \<Rightarrow> Inl StoreUnavail | Some d \<Rightarrow> Inr \<lparr>res_Data = d, res_Replayed = True\<rparr>)"
    using assms by (cases g) (simp_all add: claimExisting_def g claimByStatus_def holds_def split: option.split)
qed

lemma claimKey_holds:
  assumes "holds s scope kh r" and "cr_Now q < ir_ExpiresAt r"
  shows "holds (snd (claimKey L R q s)) scope kh r"
    and "(cr_Scope q, cr_KeyHash q) = (scope, kh) \<Longrightarrow>
      fst (claimKey L R q s) = Answer (Inl StoreUnavail) \<and> \<not> healthy s \<or>
      fst (claimKey L R q s) = Answer
        (if ir_RequestFingerprint r \<noteq> cr_Fingerprint q then Inl KeyConflict
         else case decodeStoredResponse L (ir_ResponseBody r) of
           None \<Rightarrow> Inl StoreUnavail | Some d \<Rightarrow> Inr \<lparr>res_Data = d, res_Replayed = True\<rparr>)"
proof -
  obtain c s1 where c: "repo_CreateProcessing R (processingRecord q) s = (c, s1)" by fastforce
  with holds_keeps(1) [OF assms(1), of "processingRecord q"] have h1: "holds s1 scope kh r" by simp
  note ex = claimExisting_holds [OF h1 assms(2), where L = L]
  have "c \<noteq> None \<and> healthy s1" if "healthy s"
    using create_total [OF that, of "processingRecord q"] by (auto simp: c)
  note total = this
  from ex(1) h1 show "holds (snd (claimKey L R q s)) scope kh r"
    by (simp add: claimKey_def c split: option.split prod.split bool.split)
  assume True: "(cr_Scope q, cr_KeyHash q) = (scope, kh)"
  have "row s (ir_Scope (processingRecord q)) (ir_IdempotencyKeyHash (processingRecord q)) = Some r"
    using assms(1) True by (simp add: holds_def processingRecord_def)
  then have "\<not> owner" if "c = Some (owner, rec)" for owner rec
    using create_new [of s "processingRecord q" rec s1] c that assms(1) by (cases owner) (auto simp: holds_def)
  then have "fst (claimKey L R q s) = (if c = None then Answer (Inl StoreUnavail) else fst (claimExisting L R q s1))"
    by (cases c) (auto simp: claimKey_def c split: bool.split)
  with ex(2) [OF True] total show "fst (claimKey L R q s) = Answer (Inl StoreUnavail) \<and> \<not> healthy s \<or>
      fst (claimKey L R q s) = Answer
        (if ir_RequestFingerprint r \<noteq> cr_Fingerprint q then Inl KeyConflict
         else case decodeStoredResponse L (ir_ResponseBody r) of
           None \<Rightarrow> Inl StoreUnavail | Some d \<Rightarrow> Inr \<lparr>res_Data = d, res_Replayed = True\<rparr>)"
    by (cases "c = None") auto
qed

lemma runClaimed_holds:
  assumes "holds s scope kh r" and "ir_ID r \<noteq> i"
  shows "holds (fst (snd (runClaimed L cfg R execute i exp later (s, w)))) scope kh r"
proof -
  obtain out w1 where ex: "execute w = (out, w1)" by fastforce
  have "holds (fst (snd (runClaimed L cfg R execute i exp later (s, w)))) scope kh r" if "out = Inl e" for e
    using assms holds_keeps(5) [OF assms]
    by (simp add: runClaimed_def ex that Let_def case_prod_unfold)
  moreover have "holds (fst (snd (runClaimed L cfg R execute i exp later (s, w)))) scope kh r" if "out = Inr d" for d
    using assms(1) holds_keeps(4) [OF assms]
    by (simp add: runClaimed_def ex that case_prod_unfold split: option.split)
  ultimately show ?thesis by (cases out) simp_all
qed

text \<open>A whole request, of this key or of another.\<close>

lemma Execute_holds:
  assumes "holds s scope kh r" and "now < ir_ExpiresAt r"
  shows "holds (fst (snd (Execute L cfg (Some R) opts ex now later (s, w)))) scope kh r"
proof -
  have claimed: "holds (fst (snd (case claimKey L R q s of (Answer a, s) \<Rightarrow> (a, s, w)
      | (Claimed i, s) \<Rightarrow> runClaimed L cfg R execute i (cr_ExpiresAt q) later (s, w)))) scope kh r"
    if "cr_Now q = now" for q execute
  proof -
    obtain cl s1 where cl: "claimKey L R q s = (cl, s1)" by fastforce
    have h1: "holds s1 scope kh r"
      using claimKey_holds(1) [OF assms(1), of q L, unfolded cl snd_conv] assms(2) that by simp
    show ?thesis
    proof (cases cl)
      case (Claimed i)
      have owned: "owned s1 q i"
        using claimKey_owned cl Claimed assms(1) by (auto simp: holds_def)
      have "(cr_Scope q, cr_KeyHash q) \<noteq> (scope, kh)"
        using claimKey_holds(2) [OF assms(1), of q L] assms(2) that by (auto simp: cl Claimed)
      moreover from owned obtain r' where r': "row s1 (cr_Scope q) (cr_KeyHash q) = Some r'" "ir_ID r' = i"
        by (auto simp: owned_def)
      ultimately have "ir_ID r \<noteq> i"
        using other_id [OF h1 r'(1)] by (simp add: r'(2))
      with runClaimed_holds [OF h1] show ?thesis
        by (simp add: cl Claimed)
    qed (use h1 in \<open>simp add: cl\<close>)
  qed
  show ?thesis
  proof (cases "\<exists>execute key fp. ex = Some execute \<and> NormalizeIdempotencyKey (opt_IdempotencyKey opts) = Some key
      \<and> key \<noteq> [] \<and> opt_Scope opts \<noteq> [] \<and> BuildIdempotencyFingerprint L (opt_Method opts) (opt_Route opts)
          (opt_ActorScope opts) (opt_Payload opts) = Inr fp")
    case True
    then obtain execute key fp where "Execute L cfg (Some R) opts ex now later (s, w) =
        (let q = claimRequest L cfg opts key fp now in case claimKey L R q s of (Answer a, s) \<Rightarrow> (a, s, w)
          | (Claimed i, s) \<Rightarrow> runClaimed L cfg R execute i (cr_ExpiresAt q) later (s, w))"
      by (auto simp: Execute_def)
    moreover have "cr_Now (claimRequest L cfg opts key fp now) = now"
      by (simp add: claimRequest_def)
    ultimately show ?thesis
      using claimed by (simp add: Let_def)
  next
    case False
    then have "fst (snd (Execute L cfg (Some R) opts ex now later (s, w))) = s"
      by (auto simp: Execute_def split: option.split sum.split prod.split)
    with assms(1) show ?thesis by simp
  qed
qed

lemma Execute_answers:
  assumes "holds s scope kh r" and "now < ir_ExpiresAt r" and "opt_Scope opts = scope" and "scope \<noteq> []"
    and "NormalizeIdempotencyKey (opt_IdempotencyKey opts) = Some key" and "key \<noteq> []"
    and "HashIdempotencyKey L key = kh"
    and "BuildIdempotencyFingerprint L (opt_Method opts) (opt_Route opts) (opt_ActorScope opts) (opt_Payload opts) = Inr fp"
    and "Execute L cfg (Some R) opts (Some execute) now later (s, w) = (out, s', w')"
  shows "w' = w \<and> (out = Inl StoreUnavail \<and> \<not> healthy s \<or>
     out = (if ir_RequestFingerprint r \<noteq> fp then Inl KeyConflict
            else case decodeStoredResponse L (ir_ResponseBody r) of
              None \<Rightarrow> Inl StoreUnavail | Some d \<Rightarrow> Inr \<lparr>res_Data = d, res_Replayed = True\<rparr>))"
proof -
  let ?q = "claimRequest L cfg opts key fp now"
  obtain cl s1 where cl: "claimKey L R ?q s = (cl, s1)" by fastforce
  have "cl = Answer (Inl StoreUnavail) \<and> \<not> healthy s \<or> cl = Answer (if ir_RequestFingerprint r \<noteq> fp then Inl KeyConflict
            else case decodeStoredResponse L (ir_ResponseBody r) of
              None \<Rightarrow> Inl StoreUnavail | Some d \<Rightarrow> Inr \<lparr>res_Data = d, res_Replayed = True\<rparr>)"
    using claimKey_holds(2) [OF assms(1), of ?q L, unfolded cl fst_conv] assms(2,3,7)
    by (simp add: claimRequest_def)
  moreover have "(out, s', w') = (case claimKey L R ?q s of (Answer a, s) \<Rightarrow> (a, s, w)
      | (Claimed i, s) \<Rightarrow> runClaimed L cfg R execute i (cr_ExpiresAt ?q) later (s, w))"
    using assms(3-6,8) unfolding assms(9) [symmetric] by (simp add: Execute_def Let_def)
  ultimately show ?thesis by (auto simp: cl)
qed

text \<open>The first execution of a key leaves such a record.\<close>

lemma Execute_stores:
  assumes "inv s" and "opt_Scope opts \<noteq> []"
    and "NormalizeIdempotencyKey (opt_IdempotencyKey opts) = Some key" and "key \<noteq> []"
    and "BuildIdempotencyFingerprint L (opt_Method opts) (opt_Route opts) (opt_ActorScope opts) (opt_Payload opts) = Inr fp"
    and "Execute L cfg (Some R) opts (Some execute) now later (s, w) = (Inr res, s', w')" and "\<not> res_Replayed res"
  shows "\<exists>body r. marshalStoredResponse L cfg (res_Data res) = Some body \<and>
     holds s' (opt_Scope opts) (HashIdempotencyKey L key) r \<and> ir_ResponseBody r = Some body \<and>
     ir_RequestFingerprint r = fp \<and> ir_ExpiresAt r = now + effectiveTTL cfg opts"
proof -
  let ?q = "claimRequest L cfg opts key fp now"
  obtain cl s1 where cl: "claimKey L R ?q s = (cl, s1)" by fastforce
  have run: "(Inr res, s', w') = (case claimKey L R ?q s of (Answer a, s) \<Rightarrow> (a, s, w)
      | (Claimed i, s) \<Rightarrow> runClaimed L cfg R execute i (cr_ExpiresAt ?q) later (s, w))"
    using assms(2-5) unfolding assms(6) [symmetric] by (simp add: Execute_def Let_def)
  show ?thesis
  proof (cases cl)
    case (Claimed i)
    have "runClaimed L cfg R execute i (cr_ExpiresAt ?q) later (s1, w) = (Inr res, s', w')"
      using run by (simp add: cl Claimed)
    from runClaimed_success [OF claimKey_owned [OF assms(1) cl [unfolded Claimed]] this]
    show ?thesis by (auto simp: holds_def claimRequest_def)
  next
    case (Answer a)
    with run have "a = Inr res" by (simp add: cl)
    with claimKey_replayed [of L R ?q s res s1] assms(7) show ?thesis by (simp add: cl Answer)
  qed
qed

section \<open>Failures\<close>

text \<open>On a healthy store every phase of a claim goes through, and the store stays healthy.\<close>

lemma claimByStatus_healthy: "healthy s \<Longrightarrow> healthy (snd (claimByStatus L R q r s))"
  using reclaim_total [of s "ir_ID r" IdempotencyStatusFailedRetryable "cr_Now q" "cr_LockedUntil q" "cr_ExpiresAt q"]
  by (auto simp: claimByStatus_def split: option.split bool.split)

lemma claimExpired_healthy:
  assumes "healthy s"
  shows "healthy (snd (claimExpired L R q r s))"
proof -
  obtain b s1 where t: "repo_TryReclaim R (ir_ID r) (ir_Status r) (cr_Now q) (cr_LockedUntil q) (cr_ExpiresAt q) s
      = (Some b, s1)" "healthy s1"
    using reclaim_total [OF assms] by blast
  obtain g s2 where "repo_GetByScopeAndKeyHash R (cr_Scope q) (cr_KeyHash q) s1 = (Some g, s2)" "healthy s2"
    using get_total [OF t(2)] by blast
  with t show ?thesis
    by (simp add: claimExpired_def claimByStatus_healthy split: option.split bool.split)
qed

lemma claimKey_healthy:
  assumes "healthy s"
  shows "healthy (snd (claimKey L R q s))"
proof -
  obtain o' rec s1 where c: "repo_CreateProcessing R (processingRecord q) s = (Some (o', rec), s1)" "healthy s1"
    using create_total [OF assms] by (metis prod.exhaust)
  obtain g s2 where "repo_GetByScopeAndKeyHash R (cr_Scope q) (cr_KeyHash q) s1 = (Some g, s2)" "healthy s2"
    using get_total [OF c(2)] by blast
  with c show ?thesis
    by (simp add: claimKey_def claimExisting_def claimByStatus_healthy claimExpired_healthy split: option.split bool.split)
qed

text \<open>A failed operation leaves the record in backoff, under its fingerprint.\<close>

lemma runClaimed_failure:
  assumes "owned s q i" and "healthy s"
    and "runClaimed L cfg R execute i (cr_ExpiresAt q) later (s, w) = (Inl (ExecFailed e), s', w')"
  shows "inv s' \<and> healthy s' \<and> (\<exists>r. row s' (cr_Scope q) (cr_KeyHash q) = Some r \<and>
    ir_Status r = IdempotencyStatusFailedRetryable \<and> ir_RequestFingerprint r = cr_Fingerprint q \<and>
    ir_LockedUntil r = Some (later + cfg_FailedRetryBackoff cfg) \<and> ir_ExpiresAt r = cr_ExpiresAt q)"
proof -
  obtain r where inv: "inv s" and r: "row s (cr_Scope q) (cr_KeyHash q) = Some r" "ir_ID r = i"
      "ir_RequestFingerprint r = cr_Fingerprint q"
    using assms(1) by (auto simp: owned_def)
  obtain res w1 where ex: "execute w = (res, w1)" by fastforce
  have "i \<noteq> 0" using assms(3) by (auto simp: runClaimed_def)
  have res: "res = Inl e"
    using assms(3) by (cases res) (auto simp: runClaimed_def ex Let_def case_prod_unfold split: if_splits option.splits)
  let ?reason = "if lib_Reason L e = [] then ''EXECUTION_FAILED'' else lib_Reason L e"
  obtain s1 where m: "repo_MarkFailedRetryable R i ?reason (later + cfg_FailedRetryBackoff cfg) (cr_ExpiresAt q) s
      = (Some (), s1)" "healthy s1"
    using fail_total [OF assms(2)] by blast
  have "s' = s1"
    using assms(3) \<open>i \<noteq> 0\<close> m(1) by (simp add: runClaimed_def ex res Let_def case_prod_unfold split: if_splits)
  with fail_row [OF inv m(1) r(1,2)] inv_after(5) [OF inv m(1)] m(2) r(3) show ?thesis
    by (simp add: failRow_def)
qed

text \<open>What a request finds when the record of its key is in backoff.\<close>

lemma Execute_backoff:
  assumes "inv s" and "healthy s" and "row s scope kh = Some r" and "ir_Status r = IdempotencyStatusFailedRetryable"
    and "ir_LockedUntil r = Some l" and "now < ir_ExpiresAt r" and "opt_Scope opts = scope" and "scope \<noteq> []"
    and "NormalizeIdempotencyKey (opt_IdempotencyKey opts) = Some key" and "key \<noteq> []"
    and "HashIdempotencyKey L key = kh"
    and "BuildIdempotencyFingerprint L (opt_Method opts) (opt_Route opts) (opt_ActorScope opts) (opt_Payload opts)
           = Inr (ir_RequestFingerprint r)"
    and "Execute L cfg (Some R) opts (Some execute) now later (s, w) = (out, s', w')"
  shows "if now < l then w' = w \<and> out = Inl (RetryBackoff (retryAfter (Some l) now)) else w' = snd (execute w)"
proof -
  let ?q = "claimRequest L cfg opts key (ir_RequestFingerprint r) now"
  have q: "cr_Scope ?q = scope" "cr_KeyHash ?q = kh" "cr_Fingerprint ?q = ir_RequestFingerprint r" "cr_Now ?q = now"
    using assms(7,11) by (simp_all add: claimRequest_def)
  obtain own rec s1 where c: "repo_CreateProcessing R (processingRecord ?q) s = (Some (own, rec), s1)" "healthy s1"
    using create_total [OF assms(2)] by (metis prod.exhaust)
  have "\<not> own"
    using create_new [OF assms(1), of "processingRecord ?q" rec s1] c(1) assms(3) q
    by (cases own) (auto simp: processingRecord_def)
  have row1: "row s1 scope kh = Some r" and inv1: "inv s1"
    using create_keeps [OF assms(1,3), of "processingRecord ?q"] inv_after(1) [OF assms(1) c(1)] by (simp_all add: c(1))
  obtain g s2 where g: "repo_GetByScopeAndKeyHash R scope kh s1 = (Some g, s2)" "healthy s2"
    using get_total [OF c(2)] by blast
  have found: "g = Some r" "row s2 scope kh = Some r" "inv s2"
    using get_row [OF inv1 g(1)] inv_after(2) [OF inv1 g(1)] row1 by simp_all
  have claim: "claimKey L R ?q s = claimByStatus L R ?q r s2"
    using \<open>\<not> own\<close> g(1) assms(6) by (simp add: claimKey_def claimExisting_def c(1) q found(1))
  obtain b s3 where t: "repo_TryReclaim R (ir_ID r) IdempotencyStatusFailedRetryable (cr_Now ?q) (cr_LockedUntil ?q)
      (cr_ExpiresAt ?q) s2 = (Some b, s3)"
    using reclaim_total [OF g(2)] by blast
  have b: "b = (l \<le> now)"
    using reclaim_row [OF found(3) t found(2) refl] assms(4,5) q by (simp add: reclaimable_def)
  have run: "(out, s', w') = (case claimByStatus L R ?q r s2 of (Answer a, s) \<Rightarrow> (a, s, w)
      | (Claimed i, s) \<Rightarrow> runClaimed L cfg R execute i (cr_ExpiresAt ?q) later (s, w))"
    using assms(7-10,12) unfolding assms(13) [symmetric] by (simp add: Execute_def Let_def claim)
  have i: "ir_ID r \<noteq> 0"
    using row_key [OF assms(1,3)] by simp
  show ?thesis
  proof (cases "now < l")
    case True
    with run assms(4,5) show ?thesis by (simp add: claimByStatus_def q)
  next
    case False
    then have "(out, s', w') = runClaimed L cfg R execute (ir_ID r) (cr_ExpiresAt ?q) later (s3, w)"
      using run t b assms(4,5) by (simp add: claimByStatus_def q)
    then have "w' = snd (snd (runClaimed L cfg R execute (ir_ID r) (cr_ExpiresAt ?q) later (s3, w)))"
      by (metis snd_conv)
    then show ?thesis
      using i False by (simp add: runClaimed_world)
  qed
qed

end

section \<open>At most one execution\<close>

text \<open>The requests and clean-ups a server processes, and what they do to the store and the world.\<close>

datatype ('d, 'e, 'w) idem_event =
    Request "'d IdempotencyExecuteOptions" "('d, 'e, 'w) operation option" time time
  | Cleanup time int

fun eventTime :: "('d, 'e, 'w) idem_event \<Rightarrow> time" where
  "eventTime (Request opts ex now later) = now"
| "eventTime (Cleanup now limit) = now"

fun serve ::
  "('d, 'e) idem_lib \<Rightarrow> IdempotencyConfig \<Rightarrow> ('d, 'e, 'w) idem_event \<Rightarrow> idem_db \<times> 'w \<Rightarrow> idem_db \<times> 'w" where
  "serve L cfg (Request opts ex now later) sw = snd (Execute L cfg (Some sql_repository) opts ex now later sw)"
| "serve L cfg (Cleanup now limit) (s, w) = (snd (repo_DeleteExpired sql_repository now limit s), w)"

lemma serve_holds:
  "sql.holds s scope kh r \<Longrightarrow> eventTime e < ir_ExpiresAt r \<Longrightarrow> sql.holds (fst (serve L cfg e (s, w))) scope kh r"
  by (cases e) (simp_all add: sql.Execute_holds sql.holds_keeps(6))

lemma history_holds:
  "sql.holds s scope kh r \<Longrightarrow> \<forall>e \<in> set es. eventTime e < ir_ExpiresAt r \<Longrightarrow>
     sql.holds (fst (fold (serve L cfg) es (s, w))) scope kh r"
proof (induction es arbitrary: s w)
  case (Cons e es)
  then show ?case
    using serve_holds [of s scope kh r e L cfg w] by (cases "serve L cfg e (s, w)") simp
qed simp

text \<open>
  C11: a request whose operation succeeded is not run again under its key until its record expires,
  whatever requests (with this key or others, succeeding, failing, with failing databases) and
  clean-ups come in between.  A later request with the same key and the same payload leaves the
  world untouched and is answered with the stored response, marked as replayed; with a different
  payload it leaves the world untouched and is refused as a conflict.  Only a failing store can
  change the answer, and then only to \<open>ErrIdempotencyStoreUnavail\<close>.
\<close>

theorem at_most_once:
  assumes "db_inv s" and "opt_Scope opts \<noteq> []"
    and "NormalizeIdempotencyKey (opt_IdempotencyKey opts) = Some key" and "key \<noteq> []"
    and "BuildIdempotencyFingerprint L (opt_Method opts) (opt_Route opts) (opt_ActorScope opts)
           (opt_Payload opts) = Inr fp"
    and "first = Execute L cfg (Some sql_repository) opts (Some execute) now later (s, w)"
    and "fst first = Inr res" and "\<not> res_Replayed res"
    and "\<forall>e \<in> set history. eventTime e < now + effectiveTTL cfg opts"
    and "(s2, w2) = fold (serve L cfg) history (snd first)"
    and "opt_Scope opts' = opt_Scope opts"
    and "NormalizeIdempotencyKey (opt_IdempotencyKey opts') = Some key"
    and "BuildIdempotencyFingerprint L (opt_Method opts') (opt_Route opts') (opt_ActorScope opts')
           (opt_Payload opts') = Inr fp'"
    and "now' < now + effectiveTTL cfg opts"
    and "(out, s3, w3) = Execute L cfg (Some sql_repository) opts' (Some execute') now' later' (s2, w2)"
  shows "w3 = w2 \<and> (out = Inl StoreUnavail \<and> db_faults s2 \<noteq> [] \<or>
    out = (if fp' \<noteq> fp then Inl KeyConflict
           else case decodeStoredResponse L (marshalStoredResponse L cfg (res_Data res)) of
             None \<Rightarrow> Inl StoreUnavail | Some d \<Rightarrow> Inr \<lparr>res_Data = d, res_Replayed = True\<rparr>))"
proof -
  obtain s1 w1 where first: "Execute L cfg (Some sql_repository) opts (Some execute) now later (s, w) = (Inr res, s1, w1)"
    using assms(6,7) by (metis prod.collapse)
  from sql.Execute_stores [OF assms(1-5) first assms(8)] obtain body r
    where r: "marshalStoredResponse L cfg (res_Data res) = Some body"
      "sql.holds s1 (opt_Scope opts) (HashIdempotencyKey L key) r" "ir_ResponseBody r = Some body"
      "ir_RequestFingerprint r = fp" "ir_ExpiresAt r = now + effectiveTTL cfg opts"
    by blast
  have "(s2, w2) = fold (serve L cfg) history (s1, w1)"
    using assms(10) by (simp add: assms(6) first)
  with history_holds [OF r(2), of history L cfg w1] assms(9) r(5)
  have "sql.holds s2 (opt_Scope opts) (HashIdempotencyKey L key) r"
    by (metis fst_conv)
  from sql.Execute_answers [OF this _ assms(11,2,12,4) refl assms(13) assms(15) [symmetric]] assms(14) r
  show ?thesis by auto
qed

definition exLib :: "(string, string) idem_lib" where
  "exLib = \<lparr>lib_Marshal = Some, lib_Unmarshal = Some, lib_EmptyObject = [], lib_RedactText = id,
     lib_Sha256Hex = id, lib_ToUpper = id, lib_Reason = id\<rparr>"

definition exOpts :: "string \<Rightarrow> string \<Rightarrow> string IdempotencyExecuteOptions" where
  "exOpts key payload = \<lparr>opt_Scope = ''pay'', opt_ActorScope = ''u1'', opt_Method = ''POST'', opt_Route = ''/r'',
     opt_IdempotencyKey = key, opt_Payload = payload, opt_TTL = 100, opt_RequireKey = True\<rparr>"

definition exDb :: idem_db where
  "exDb = \<lparr>db_rows = [], db_next = 1, db_clock = 0, db_faults = []\<rparr>"

definition exOperation :: "(string, string, nat) operation" where
  "exOperation w = (Inr ''ok'', Suc w)"

lemma exKey: "NormalizeIdempotencyKey ''k'' = Some ''k''"
  by code_simp

definition exFirst :: "(string, string) outcome \<times> idem_db \<times> nat" where
  "exFirst = Execute exLib DefaultIdempotencyConfig (Some sql_repository) (exOpts ''k'' ''p'') (Some exOperation)
     1000 1001 (exDb, 0)"

definition exHistory :: "(string, string, nat) idem_event list" where
  "exHistory = [Request (exOpts ''k'' ''q'') (Some exOperation) 1010 1011, Cleanup 1020 10,
     Request (exOpts ''j'' ''p'') (Some exOperation) 1030 1031]"

lemma exFirst_result: "fst exFirst = Inr \<lparr>res_Data = ''ok'', res_Replayed = False\<rparr>"
  by code_simp

lemma exHistory_state: "snd (fold (serve exLib DefaultIdempotencyConfig) exHistory (snd exFirst)) = 2"
  by code_simp

lemma exHistory_faults: "db_faults (fst (fold (serve exLib DefaultIdempotencyConfig) exHistory (snd exFirst))) = []"
  by code_simp

theorem at_most_once_witness:
  "let (s2, w2) = fold (serve exLib DefaultIdempotencyConfig) exHistory (snd exFirst);
       (out, s3, w3) = Execute exLib DefaultIdempotencyConfig (Some sql_repository) (exOpts ''k'' ''p'')
         (Some exOperation) 1040 1041 (s2, w2)
   in w3 = 2 \<and> out = Inr \<lparr>res_Data = ''ok'', res_Replayed = True\<rparr>"
proof -
  obtain s2 w2 where h: "fold (serve exLib DefaultIdempotencyConfig) exHistory (snd exFirst) = (s2, w2)" by fastforce
  obtain out s3 w3 where e: "Execute exLib DefaultIdempotencyConfig (Some sql_repository) (exOpts ''k'' ''p'')
         (Some exOperation) 1040 1041 (s2, w2) = (out, s3, w3)" by (metis prod.exhaust)
  have fp: "BuildIdempotencyFingerprint exLib (opt_Method (exOpts ''k'' ''p'')) (opt_Route (exOpts ''k'' ''p''))
      (opt_ActorScope (exOpts ''k'' ''p'')) (opt_Payload (exOpts ''k'' ''p''))
      = Inr (''POST'' @ [CHR 0x0A] @ ''/r'' @ [CHR 0x0A] @ ''u1'' @ [CHR 0x0A] @ ''p'')"
    by (simp add: BuildIdempotencyFingerprint_def exLib_def exOpts_def)
  have decode: "decodeStoredResponse exLib (marshalStoredResponse exLib DefaultIdempotencyConfig ''ok'') = Some ''ok''"
    by code_simp
  have "w3 = w2 \<and> out = Inr \<lparr>res_Data = ''ok'', res_Replayed = True\<rparr>"
    using at_most_once [OF _ _ _ _ fp exFirst_def exFirst_result _ _ h [symmetric] _ _ fp _ e [symmetric], of "''k''"]
      exHistory_faults
    by (simp add: h decode exKey)
       (simp add: exDb_def db_inv_def exOpts_def exKey exHistory_def effectiveTTL_def)
  moreover have "w2 = 2" using exHistory_state by (simp add: h)
  ultimately show ?thesis unfolding Let_def h prod.case e by simp
qed

section \<open>Retry after a failure\<close>

text \<open>
  C18: a request whose operation failed is not run again under its key during the retry backoff: it
  is refused with the time left, and the world is untouched.  After the backoff the next request
  with the key runs its operation, as long as the record has not expired.
\<close>

theorem failure_backoff:
  assumes "db_inv s" and "db_faults s = []" and "opt_Scope opts \<noteq> []"
    and "NormalizeIdempotencyKey (opt_IdempotencyKey opts) = Some key" and "key \<noteq> []"
    and "BuildIdempotencyFingerprint L (opt_Method opts) (opt_Route opts) (opt_ActorScope opts)
           (opt_Payload opts) = Inr fp"
    and "(Inl (ExecFailed e), s1, w1) = Execute L cfg (Some sql_repository) opts (Some execute) now later (s, w)"
    and "now' < now + effectiveTTL cfg opts" and "backoffUntil = later + cfg_FailedRetryBackoff cfg"
    and "(out, s2, w2) = Execute L cfg (Some sql_repository) opts (Some execute') now' later' (s1, w1)"
  shows "if now' < backoffUntil then w2 = w1 \<and> out = Inl (RetryBackoff (retryAfter (Some backoffUntil) now'))
    else w2 = snd (execute' w1)"
proof -
  let ?q = "claimRequest L cfg opts key fp now"
  obtain cl s0 where cl: "claimKey L sql_repository ?q s = (cl, s0)" by fastforce
  have run: "(Inl (ExecFailed e), s1, w1) = (case claimKey L sql_repository ?q s of (Answer a, s) \<Rightarrow> (a, s, w)
      | (Claimed i, s) \<Rightarrow> runClaimed L cfg sql_repository execute i (cr_ExpiresAt ?q) later (s, w))"
    using assms(3-6) unfolding assms(7) by (simp add: Execute_def Let_def)
  with claimKey_not_run [of L sql_repository ?q s e s0] obtain i where i: "cl = Claimed i"
    by (cases cl) (auto simp: cl)
  with run have "runClaimed L cfg sql_repository execute i (cr_ExpiresAt ?q) later (s0, w) = (Inl (ExecFailed e), s1, w1)"
    by (simp add: cl)
  from sql.runClaimed_failure [OF sql.claimKey_owned [OF assms(1) cl [unfolded i]] _ this]
    sql.claimKey_healthy [OF assms(2), of L ?q, unfolded cl snd_conv]
  obtain r where r: "db_inv s1" "db_faults s1 = []" "db_row s1 (cr_Scope ?q) (cr_KeyHash ?q) = Some r"
      "ir_Status r = IdempotencyStatusFailedRetryable" "ir_RequestFingerprint r = cr_Fingerprint ?q"
      "ir_LockedUntil r = Some backoffUntil" "ir_ExpiresAt r = cr_ExpiresAt ?q"
    unfolding assms(9) by auto
  have fields: "cr_Scope ?q = opt_Scope opts" "cr_KeyHash ?q = HashIdempotencyKey L key" "cr_Fingerprint ?q = fp"
      "cr_ExpiresAt ?q = now + effectiveTTL cfg opts"
    by (simp_all add: claimRequest_def)
  have "now' < ir_ExpiresAt r" and "BuildIdempotencyFingerprint L (opt_Method opts) (opt_Route opts)
      (opt_ActorScope opts) (opt_Payload opts) = Inr (ir_RequestFingerprint r)"
    using assms(6,8) r fields by simp_all
  from sql.Execute_backoff [OF r(1-4,6) this(1) fields(1) [symmetric] _ assms(4,5) fields(2) [symmetric] this(2)
      assms(10) [symmetric]] assms(3) fields(1) show ?thesis
    by simp
qed

definition exFailing :: "(string, string, nat) operation" where
  "exFailing w = (Inl ''DOWN'', Suc w)"

definition exFailed :: "(string, string) outcome \<times> idem_db \<times> nat" where
  "exFailed = Execute exLib DefaultIdempotencyConfig (Some sql_repository) (exOpts ''k'' ''p'') (Some exFailing)
     1000 1001 (exDb, 0)"

lemma exFailed_result: "fst exFailed = Inl (ExecFailed ''DOWN'')"
  by code_simp

theorem failure_backoff_witness:
  "fst (Execute exLib DefaultIdempotencyConfig (Some sql_repository) (exOpts ''k'' ''p'') (Some exOperation)
     1050 1051 (snd exFailed)) = Inl (RetryBackoff (Some 4))"
proof -
  obtain s1 w1 where f: "exFailed = (Inl (ExecFailed ''DOWN''), s1, w1)"
    using exFailed_result by (metis prod.collapse)
  obtain out s2 w2 where e: "Execute exLib DefaultIdempotencyConfig (Some sql_repository) (exOpts ''k'' ''p'')
      (Some exOperation) 1050 1051 (s1, w1) = (out, s2, w2)" by (metis prod.exhaust)
  have "BuildIdempotencyFingerprint exLib (opt_Method (exOpts ''k'' ''p'')) (opt_Route (exOpts ''k'' ''p''))
      (opt_ActorScope (exOpts ''k'' ''p'')) (opt_Payload (exOpts ''k'' ''p''))
      = Inr (''POST'' @ [CHR 0x0A] @ ''/r'' @ [CHR 0x0A] @ ''u1'' @ [CHR 0x0A] @ ''p'')"
    by (simp add: BuildIdempotencyFingerprint_def exLib_def exOpts_def)
  from failure_backoff [OF _ _ _ _ _ this f [unfolded exFailed_def, symmetric] _ refl e [symmetric], of "''k''"]
  have "out = Inl (RetryBackoff (Some 4))"
    by (simp add: exDb_def db_inv_def exOpts_def exKey effectiveTTL_def retryAfter_def go_div_def
        DefaultIdempotencyConfig_def time_units)
  then show ?thesis by (simp add: f e)
qed

section \<open>Stored bodies\<close>

lemma shortenToValid_spec:
  "ValidString (shortenToValid s n) \<and> length (shortenToValid s n) \<le> n \<and>
     shortenToValid s n = take (length (shortenToValid s n)) s \<and>
     (\<forall>m \<le> n. m \<le> length s \<longrightarrow> ValidString (take m s) \<longrightarrow> m \<le> length (shortenToValid s n))"
proof (induction n)
  case (Suc n)
  show ?case
  proof (cases "ValidString (take (Suc n) s)")
    case True
    then show ?thesis by (auto simp: min_def)
  next
    case False
    then have "m \<le> n" if "m \<le> Suc n" "ValidString (take m s)" for m
      using that le_Suc_eq by auto
    with Suc False show ?thesis by auto
  qed
qed simp

text \<open>
  C19: a response body longer than the limit is stored as the longest prefix within the limit that
  is whole UTF-8 characters, with the marker behind it; it never exceeds the limit by more than the
  marker and never ends inside a character.
\<close>

theorem truncateUTF8_longest:
  assumes "0 < maxBytes" and "maxBytes < int (length s)" and "t = truncateUTF8 s maxBytes"
  shows "prefix t s \<and> int (length t) \<le> maxBytes \<and> ValidString t \<and>
    (\<forall>m. int m \<le> maxBytes \<longrightarrow> ValidString (take m s) \<longrightarrow> m \<le> length t)"
proof -
  have "t = shortenToValid s (nat maxBytes)"
    using assms by (simp add: truncateUTF8_def)
  with shortenToValid_spec [of s "nat maxBytes"] assms(1,2) show ?thesis
    by (auto simp: prefix_def) (metis append_take_drop_id)
qed

theorem truncateUTF8_longest_witness:
  "let t = truncateUTF8 [CHR ''a'', CHR 0xE4, CHR 0xBD, CHR 0xA0, CHR ''b''] 3
   in ValidString t \<and> t = ''a''"
proof -
  let ?t = "truncateUTF8 [CHR ''a'', CHR 0xE4, CHR 0xBD, CHR 0xA0, CHR ''b''] 3"
  have "ValidString ?t"
    using truncateUTF8_longest [of 3 "[CHR ''a'', CHR 0xE4, CHR 0xBD, CHR 0xA0, CHR ''b'']" ?t] by simp
  moreover have "?t = ''a''" by code_simp
  ultimately show ?thesis by simp
qed

end
