(* ===== verification/Idempotency_Concurrency.thy ===== *)
theory Idempotency_Concurrency
  imports Idempotency
begin

text \<open>
  Requests that run at the same time.  A request of \<open>Execute\<close> is a sequence of single SQL
  statements; here each statement is a step of its own, and the steps of any number of requests, on
  any keys, interleave with the clean-up and the passing of time.  \<open>advance\<close> is a request's next
  statement; \<open>claimKey_steps\<close> shows that a request that is left alone takes the steps that
  \<open>claimKey\<close> of theory \<open>Idempotency\<close> composes.

  The invariant proved by rule induction is that the owner of a key, the request that is running
  its operation, is unique as long as requests are not late.  A request is late when it claims the
  key after the lock time it wrote had already passed, or is still running when its record expires.
\<close>

section \<open>Requests in steps\<close>

datatype pc =
    Idle
  | Creating claim_request
  | Getting claim_request
  | TakingOver claim_request IdempotencyRecord
  | Rereading claim_request
  | Retaking claim_request IdempotencyRecord
  | Running claim_request int

text \<open>The decisions between two statements.\<close>

definition afterStatus :: "claim_request \<Rightarrow> IdempotencyRecord \<Rightarrow> pc" where
  "afterStatus q existing =
     (if ir_Status existing = IdempotencyStatusFailedRetryable \<and>
         \<not> (case ir_LockedUntil existing of None \<Rightarrow> False | Some l \<Rightarrow> l > cr_Now q)
      then Retaking q existing else Idle)"

definition afterRead :: "claim_request \<Rightarrow> IdempotencyRecord \<Rightarrow> pc" where
  "afterRead q existing =
     (if ir_RequestFingerprint existing \<noteq> cr_Fingerprint q then Idle
      else if \<not> ir_ExpiresAt existing > cr_Now q then TakingOver q existing
      else afterStatus q existing)"

definition advance :: "pc \<Rightarrow> idem_db \<Rightarrow> pc \<times> idem_db" where
  "advance p db = (case p of
     Creating q \<Rightarrow>
       (case CreateProcessing (processingRecord q) db of
          (None, db) \<Rightarrow> (Idle, db)
        | (Some (True, rec), db) \<Rightarrow> (Running q (ir_ID rec), db)
        | (Some (False, rec), db) \<Rightarrow> (Getting q, db))
   | Getting q \<Rightarrow>
       (case GetByScopeAndKeyHash (cr_Scope q) (cr_KeyHash q) db of
          (Some (Some existing), db) \<Rightarrow> (afterRead q existing, db)
        | (_, db) \<Rightarrow> (Idle, db))
   | TakingOver q existing \<Rightarrow>
       (case TryReclaim (ir_ID existing) (ir_Status existing) (cr_Now q) (cr_LockedUntil q) (cr_ExpiresAt q) db of
          (None, db) \<Rightarrow> (Idle, db)
        | (Some True, db) \<Rightarrow> (Running q (ir_ID existing), db)
        | (Some False, db) \<Rightarrow> (Rereading q, db))
   | Rereading q \<Rightarrow>
       (case GetByScopeAndKeyHash (cr_Scope q) (cr_KeyHash q) db of
          (Some (Some latest), db) \<Rightarrow>
            (if ir_RequestFingerprint latest \<noteq> cr_Fingerprint q then Idle else afterStatus q latest, db)
        | (_, db) \<Rightarrow> (Idle, db))
   | Retaking q existing \<Rightarrow>
       (case TryReclaim (ir_ID existing) IdempotencyStatusFailedRetryable (cr_Now q) (cr_LockedUntil q)
               (cr_ExpiresAt q) db of
          (Some True, db) \<Rightarrow> (Running q (ir_ID existing), db)
        | (_, db) \<Rightarrow> (Idle, db))
   | Idle \<Rightarrow> (Idle, db)
   | Running q i \<Rightarrow> (Running q i, db))"

section \<open>The system\<close>

record idem_system =
  sy_db :: idem_db
  sy_clock :: time
  sy_pc :: "nat \<Rightarrow> pc"
  sy_late :: bool

text \<open>A claim is late when its lock or its record has already run out when it lands.\<close>

definition lateClaim :: "time \<Rightarrow> pc \<Rightarrow> bool" where
  "lateClaim clock p = (case p of
     Running q i \<Rightarrow> cr_LockedUntil q \<le> clock \<or> cr_ExpiresAt q \<le> clock | _ \<Rightarrow> False)"

definition expired :: "time \<Rightarrow> pc \<Rightarrow> bool" where
  "expired clock p = (case p of Running q i \<Rightarrow> cr_ExpiresAt q \<le> clock | _ \<Rightarrow> False)"

definition isRunning :: "pc \<Rightarrow> bool" where
  "isRunning p = (case p of Running q i \<Rightarrow> True | _ \<Rightarrow> False)"

inductive idem_step :: "idem_system \<Rightarrow> idem_system \<Rightarrow> bool" where
  Begin: "sy_pc s c = Idle \<Longrightarrow> cr_Now q = sy_clock s \<Longrightarrow>
    idem_step s (s\<lparr>sy_pc := (sy_pc s)(c := Creating q)\<rparr>)"
| Advance: "\<not> isRunning (sy_pc s c) \<Longrightarrow> advance (sy_pc s c) (sy_db s) = (p, db) \<Longrightarrow>
    idem_step s (s\<lparr>sy_db := db, sy_pc := (sy_pc s)(c := p), sy_late := sy_late s \<or> lateClaim (sy_clock s) p\<rparr>)"
| Succeed: "sy_pc s c = Running q i \<Longrightarrow>
    idem_step s (s\<lparr>sy_db := snd (MarkSucceeded i 200 body (cr_ExpiresAt q) (sy_db s)),
                   sy_pc := (sy_pc s)(c := Idle)\<rparr>)"
| Fail: "sy_pc s c = Running q i \<Longrightarrow>
    idem_step s (s\<lparr>sy_db := snd (MarkFailedRetryable i reason (sy_clock s + backoff) (cr_ExpiresAt q) (sy_db s)),
                   sy_pc := (sy_pc s)(c := Idle)\<rparr>)"
| Abandon: "idem_step s (s\<lparr>sy_pc := (sy_pc s)(c := Idle)\<rparr>)"
| Tick: "sy_clock s \<le> t \<Longrightarrow>
    idem_step s (s\<lparr>sy_clock := t, sy_late := sy_late s \<or> (\<exists>c. expired t (sy_pc s c))\<rparr>)"
| Clean: "idem_step s (s\<lparr>sy_db := snd (DeleteExpired (sy_clock s) limit (sy_db s))\<rparr>)"

inductive reachable :: "idem_system \<Rightarrow> bool" where
  Start: "db_inv (sy_db s) \<Longrightarrow> sy_pc s = (\<lambda>_. Idle) \<Longrightarrow> \<not> sy_late s \<Longrightarrow> reachable s"
| Step: "reachable s \<Longrightarrow> idem_step s s' \<Longrightarrow> reachable s'"

section \<open>What one statement changes\<close>

definition rowOf :: "idem_db \<Rightarrow> claim_request \<Rightarrow> IdempotencyRecord option" where
  "rowOf db q = db_row db (cr_Scope q) (cr_KeyHash q)"

definition sameKey :: "claim_request \<Rightarrow> claim_request \<Rightarrow> bool" where
  "sameKey q q' \<longleftrightarrow> cr_Scope q = cr_Scope q' \<and> cr_KeyHash q = cr_KeyHash q'"

definition sameID :: "IdempotencyRecord \<Rightarrow> IdempotencyRecord \<Rightarrow> bool" where
  "sameID x y \<longleftrightarrow> ir_ID x = ir_ID y \<and> ir_Scope x = ir_Scope y \<and> ir_IdempotencyKeyHash x = ir_IdempotencyKeyHash y"

text \<open>Every statement keeps the schema and the keys of records; new records have new identifiers.\<close>

definition dbExt :: "idem_db \<Rightarrow> idem_db \<Rightarrow> bool" where
  "dbExt db db' \<longleftrightarrow> db_inv db' \<and> db_next db \<le> db_next db' \<and>
     (\<forall>x \<in> set (db_rows db'). (\<exists>y \<in> set (db_rows db). sameID x y) \<or> db_next db \<le> ir_ID x)"

lemma dbExt_refl: "db_inv db \<Longrightarrow> dbExt db db"
  by (auto simp: dbExt_def sameID_def)

lemma statement_ext:
  assumes "db_inv db" and "\<And>db. db_inv db \<Longrightarrow> dbExt db (snd (f db))"
  shows "dbExt db (snd (statement f db))"
proof -
  have "dbExt db (db\<lparr>db_faults := fs\<rparr>)" for fs
    using assms(1) by (auto simp: dbExt_def sameID_def)
  moreover have "dbExt db (snd (f (db\<lparr>db_faults := fs\<rparr>)))" for fs
    using assms(2) [of "db\<lparr>db_faults := fs\<rparr>"] assms(1) by (simp add: dbExt_def)
  ultimately show ?thesis
    by (simp add: statement_def Let_def split: list.split fault.split)
qed

lemma updateRows_ext:
  assumes "db_inv db" and "keepsKey f"
  shows "dbExt db (snd (updateRows p f db))"
proof -
  have "\<exists>y \<in> set (db_rows db). sameID x y" if "x \<in> set (db_rows (snd (updateRows p f db)))" for x
    using that assms(2) by (force simp: updateRows_def keepsKey_def sameID_def)
  with updateRows_inv [OF assms(2,1), of p] show ?thesis
    by (auto simp: dbExt_def updateRows_def)
qed

lemma create_ext: "db_inv db \<Longrightarrow> dbExt db (snd (CreateProcessing rec db))"
  using sql.create_inv [of db rec]
  unfolding sql_repository_def IdempotencyRepository.simps
  by (auto simp: CreateProcessing_def statement_def dbExt_def sameID_def Let_def split: list.splits fault.splits if_splits)

lemma get_ext: "db_inv db \<Longrightarrow> dbExt db (snd (GetByScopeAndKeyHash scope kh db))"
  unfolding GetByScopeAndKeyHash_def by (rule statement_ext) (simp_all add: dbExt_refl)

lemma reclaim_ext: "db_inv db \<Longrightarrow> dbExt db (snd (TryReclaim i st now l x db))"
  unfolding TryReclaim_def by (rule statement_ext) (simp_all add: updateRows_ext)

lemma mark_ext:
  "db_inv db \<Longrightarrow> dbExt db (snd (MarkSucceeded i status body x db))"
  "db_inv db \<Longrightarrow> dbExt db (snd (MarkFailedRetryable i reason l x db))"
  unfolding MarkSucceeded_def MarkFailedRetryable_def
  by (rule statement_ext; simp add: updateRows_ext)+

lemma delete_ext: "db_inv db \<Longrightarrow> dbExt db (snd (DeleteExpired now limit db))"
  unfolding DeleteExpired_def
  by (rule statement_ext) (auto simp: Let_def dbExt_def sameID_def)

text \<open>A record whose lock is held, or that is in another status, is not reclaimed.\<close>

lemma reclaim_passes:
  assumes "db_row db scope kh = Some r" and "\<not> (ir_ID r = i \<and> reclaimable st now r)"
  shows "db_row (snd (TryReclaim i st now l x db)) scope kh = Some r"
  unfolding TryReclaim_def using assms(1)
  by (rule statement_inv [where P = "\<lambda>db. db_row db scope kh = Some r"])
     (use assms(2) in \<open>auto simp: updateRows_row\<close>)

lemma reclaim_taken:
  assumes "TryReclaim i st now l x db = (Some True, db')"
  shows "\<exists>r \<in> set (db_rows db). ir_ID r = i \<and> reclaimable st now r \<and>
    reclaimRow (db_clock db) l x r \<in> set (db_rows db')"
proof -
  let ?s = "db\<lparr>db_faults := tl (db_faults db)\<rparr>"
  let ?u = "updateRows (\<lambda>r. ir_ID r = i \<and> reclaimable st now r) (reclaimRow (db_clock db) l x) ?s"
  have "map_prod (\<lambda>affected. affected > 0) id ?u = (True, db')"
    using statement_Some [OF assms [unfolded TryReclaim_def]] by (simp del: neq0_conv)
  then have u: "0 < fst ?u" "db' = snd ?u"
    by (auto simp: prod_eq_iff)
  from u(1) obtain r where "r \<in> set (db_rows db)" "ir_ID r = i" "reclaimable st now r"
    by (auto simp: updateRows_def filter_empty_conv)
  then show ?thesis by (auto simp: u(2) updateRows_def intro!: bexI [of _ r])
qed

lemma row_in:
  "db_inv db \<Longrightarrow> db_row db scope kh = Some r \<longleftrightarrow> r \<in> set (db_rows db) \<and> hasKey scope kh r"
proof
  assume inv: "db_inv db" and "r \<in> set (db_rows db) \<and> hasKey scope kh r"
  moreover from this obtain r' where r': "db_row db scope kh = Some r'"
    by (cases "db_row db scope kh") (auto simp: db_row_def find_None_iff)
  moreover from r' have "r' \<in> set (db_rows db) \<and> hasKey scope kh r'"
    by (auto simp: db_row_def find_Some_iff)
  moreover have "inj_on (\<lambda>r. (ir_Scope r, ir_IdempotencyKeyHash r)) (set (db_rows db))"
    using inv by (simp add: db_inv_def distinct_map)
  ultimately have "r' = r"
    by (auto simp: hasKey_def dest: inj_onD)
  with r' show "db_row db scope kh = Some r" by simp
qed (auto simp: db_row_def find_Some_iff)

section \<open>The invariant\<close>

text \<open>The owner's record.\<close>

definition ownedRow :: "idem_db \<Rightarrow> claim_request \<Rightarrow> int \<Rightarrow> bool" where
  "ownedRow db q i \<longleftrightarrow> (\<exists>r. rowOf db q = Some r \<and> ir_ID r = i \<and> ir_Status r = IdempotencyStatusProcessing \<and>
     ir_LockedUntil r = Some (cr_LockedUntil q) \<and> ir_ExpiresAt r = cr_ExpiresAt q)"

text \<open>What a request remembers of a record it read is still about its own key.\<close>

definition remembers :: "idem_db \<Rightarrow> time \<Rightarrow> claim_request \<Rightarrow> IdempotencyRecord \<Rightarrow> bool" where
  "remembers db clock q r \<longleftrightarrow> ir_ID r < db_next db \<and>
     (\<forall>x \<in> set (db_rows db). ir_ID x = ir_ID r \<longrightarrow> hasKey (cr_Scope q) (cr_KeyHash q) x)"

definition pcOK :: "idem_db \<Rightarrow> time \<Rightarrow> pc \<Rightarrow> bool" where
  "pcOK db clock p = (case p of
     Creating q \<Rightarrow> cr_Now q \<le> clock
   | Getting q \<Rightarrow> cr_Now q \<le> clock
   | Rereading q \<Rightarrow> cr_Now q \<le> clock
   | TakingOver q r \<Rightarrow> cr_Now q \<le> clock \<and> remembers db clock q r
   | Retaking q r \<Rightarrow> cr_Now q \<le> clock \<and> remembers db clock q r
   | _ \<Rightarrow> True)"

definition inv_rows :: "idem_system \<Rightarrow> bool" where
  "inv_rows s \<longleftrightarrow> db_inv (sy_db s) \<and> (\<forall>c. pcOK (sy_db s) (sy_clock s) (sy_pc s c)) \<and>
     (\<forall>c q i. sy_pc s c = Running q i \<longrightarrow> ownedRow (sy_db s) q i \<and> sy_clock s < cr_ExpiresAt q)"

definition inv_owner :: "idem_system \<Rightarrow> bool" where
  "inv_owner s \<longleftrightarrow>
     (\<forall>c c' q q' i i'. sy_pc s c = Running q i \<longrightarrow> sy_pc s c' = Running q' i' \<longrightarrow> sameKey q q' \<longrightarrow> c = c') \<and>
     (\<forall>c c' q q' i r. sy_pc s c = Running q i \<longrightarrow> sy_pc s c' = TakingOver q' r \<longrightarrow>
        ir_Status r = IdempotencyStatusProcessing \<longrightarrow> sameKey q q' \<longrightarrow> cr_Now q' < cr_LockedUntil q)"

definition idem_inv :: "idem_system \<Rightarrow> bool" where
  "idem_inv s \<longleftrightarrow> inv_rows s \<and> inv_owner s"

lemma pcOK_ext:
  assumes "dbExt db db'" and "clock \<le> clock'" and "pcOK db clock p"
  shows "pcOK db' clock' p"
proof -
  have "remembers db' clock' q r" if "remembers db clock q r" for q r
    using that assms(1) unfolding remembers_def dbExt_def sameID_def hasKey_def by fastforce
  with assms(2,3) show ?thesis
    by (cases p) (auto simp: pcOK_def)
qed

text \<open>A client moves on: what is to show for the system to stay in the invariant.\<close>

lemma client_moves:
  assumes "idem_inv s" and "dbExt (sy_db s) db"
    and "\<And>c' q i. c' \<noteq> c \<Longrightarrow> sy_pc s c' = Running q i \<Longrightarrow> ownedRow db q i"
    and "pcOK db (sy_clock s) p"
    and "\<And>q i. p = Running q i \<Longrightarrow> ownedRow db q i \<and> sy_clock s < cr_ExpiresAt q \<and> sy_clock s < cr_LockedUntil q"
    and "\<And>q i c' q' i'. p = Running q i \<Longrightarrow> c' \<noteq> c \<Longrightarrow> sy_pc s c' = Running q' i' \<Longrightarrow> \<not> sameKey q q'"
    and "\<And>q r c' q' i'. p = TakingOver q r \<Longrightarrow> ir_Status r = IdempotencyStatusProcessing \<Longrightarrow>
           c' \<noteq> c \<Longrightarrow> sy_pc s c' = Running q' i' \<Longrightarrow> \<not> sameKey q q'"
  shows "idem_inv (s\<lparr>sy_db := db, sy_pc := (sy_pc s)(c := p), sy_late := l\<rparr>)"
proof -
  have sym: "sameKey q q' \<Longrightarrow> sameKey q' q" for q q'
    by (simp add: sameKey_def)
  have rows: "db_inv db" "\<And>c'. pcOK db (sy_clock s) (sy_pc s c')"
    using assms(1,2) pcOK_ext [OF assms(2) order_refl] by (auto simp: idem_inv_def inv_rows_def dbExt_def)
  have now: "sy_pc s c' = TakingOver q r \<Longrightarrow> cr_Now q \<le> sy_clock s" for c' q r
    using rows(2) [of c'] by (simp add: pcOK_def)
  have "inv_rows (s\<lparr>sy_db := db, sy_pc := (sy_pc s)(c := p), sy_late := l\<rparr>)"
    using assms(1,3-5) rows by (auto simp: inv_rows_def idem_inv_def)
  moreover have "inv_owner (s\<lparr>sy_db := db, sy_pc := (sy_pc s)(c := p), sy_late := l\<rparr>)"
    unfolding inv_owner_def
  proof (intro conjI allI impI, goal_cases)
    case (1 c1 c2 q q' i i')
    then show ?case
      using assms(1,6) sym unfolding idem_inv_def inv_owner_def
      by (auto split: if_splits) blast+
  next
    case (2 c1 c2 q q' i r)
    then show ?case
      using assms(1,5,7) now [of c2 q' r] sym unfolding idem_inv_def inv_owner_def
      by (auto split: if_splits) (fastforce dest: assms(7))+
  qed
  ultimately show ?thesis by (simp add: idem_inv_def)
qed

section \<open>Every step keeps the invariant\<close>

lemma owner_row:
  assumes "idem_inv s" and "sy_pc s c = Running q i"
  obtains r where "db_row (sy_db s) (cr_Scope q) (cr_KeyHash q) = Some r" "ir_ID r = i"
    "ir_Status r = IdempotencyStatusProcessing" "ir_LockedUntil r = Some (cr_LockedUntil q)"
    "ir_ExpiresAt r = cr_ExpiresAt q" "sy_clock s < cr_ExpiresAt q"
  using assms unfolding idem_inv_def inv_rows_def ownedRow_def rowOf_def by blast

lemma ownedRow_keeps:
  assumes "ownedRow db q i"
    and "\<And>r. db_row db (cr_Scope q) (cr_KeyHash q) = Some r \<Longrightarrow> ir_ID r = i \<Longrightarrow>
           ir_Status r = IdempotencyStatusProcessing \<Longrightarrow> ir_LockedUntil r = Some (cr_LockedUntil q) \<Longrightarrow>
           ir_ExpiresAt r = cr_ExpiresAt q \<Longrightarrow> db_row db' (cr_Scope q) (cr_KeyHash q) = Some r"
  shows "ownedRow db' q i"
  using assms by (auto simp: ownedRow_def rowOf_def)

lemma inv_parts:
  assumes "idem_inv s"
  shows "db_inv (sy_db s)" and "pcOK (sy_db s) (sy_clock s) (sy_pc s c)"
    and "sy_pc s c = Running q i \<Longrightarrow> ownedRow (sy_db s) q i"
  using assms by (auto simp: idem_inv_def inv_rows_def)

text \<open>Inserting a record: it is the client's, and nobody owned the key.\<close>

lemma create_step:
  assumes "idem_inv s" and "sy_pc s c = Creating q" and "advance (Creating q) (sy_db s) = (p, db)"
    and "\<not> lateClaim (sy_clock s) p"
  shows "idem_inv (s\<lparr>sy_db := db, sy_pc := (sy_pc s)(c := p), sy_late := l\<rparr>)"
proof -
  let ?rec = "processingRecord q"
  obtain res db1 where cr: "CreateProcessing ?rec (sy_db s) = (res, db1)" by fastforce
  note inv = inv_parts [OF assms(1)]
  have now: "cr_Now q \<le> sy_clock s" using inv(2) [of c] assms(2) by (simp add: pcOK_def)
  have moved: "(p, db) = (case res of None \<Rightarrow> (Idle, db1)
      | Some (own, rec) \<Rightarrow> (if own then Running q (ir_ID rec) else Getting q, db1))"
    unfolding assms(3) [symmetric] by (simp add: advance_def cr split: option.split prod.split bool.split)
  then have db: "db = db1"
    by (cases res) auto
  have ext: "dbExt (sy_db s) db"
    using create_ext [OF inv(1), of ?rec] by (simp add: cr db)
  have keeps: "ownedRow db q' i'" if "ownedRow (sy_db s) q' i'" for q' i'
  proof (rule ownedRow_keeps [OF that])
    fix r assume "db_row (sy_db s) (cr_Scope q') (cr_KeyHash q') = Some r"
    from sql.create_keeps [OF inv(1) this, of ?rec] show "db_row db (cr_Scope q') (cr_KeyHash q') = Some r"
      by (simp add: sql_repository_def cr db)
  qed
  consider rec where "res = Some (True, rec)" "p = Running q (ir_ID rec)" | "p = Getting q" | "p = Idle"
    using moved by (cases res) (auto split: if_splits)
  then show ?thesis
  proof cases
    case 1
    with sql.create_new [OF inv(1), of ?rec rec db1] cr
    have none: "db_row (sy_db s) (cr_Scope q) (cr_KeyHash q) = None"
      and new: "rec = ?rec\<lparr>ir_ID := ir_ID rec, ir_CreatedAt := db_clock (sy_db s), ir_UpdatedAt := db_clock (sy_db s)\<rparr>"
      and row: "db_row db1 (cr_Scope q) (cr_KeyHash q) = Some (rec\<lparr>ir_ResponseStatus := None,
        ir_ResponseBody := None, ir_ErrorReason := None\<rparr>)"
      by (simp_all add: sql_repository_def processingRecord_def)
    from new obtain n where "rec = ?rec\<lparr>ir_ID := n, ir_CreatedAt := db_clock (sy_db s), ir_UpdatedAt := db_clock (sy_db s)\<rparr>"
      by blast
    with row have "ownedRow db q (ir_ID rec)"
      by (simp add: ownedRow_def rowOf_def db processingRecord_def)
    moreover have "\<not> sameKey q q'" if "sy_pc s c' = Running q' i'" for c' q' i'
      using inv(3) [OF that] none by (auto simp: ownedRow_def rowOf_def sameKey_def)
    ultimately show ?thesis
      using assms(4) keeps inv(3) 1 by (intro client_moves [OF assms(1) ext]) (auto simp: pcOK_def lateClaim_def)
  qed (use keeps inv(3) now in \<open>auto intro!: client_moves [OF assms(1) ext] simp: pcOK_def\<close>)
qed

text \<open>Reading a record: the owner's is neither expired nor failed, so the reader does not go on.\<close>

lemma read_step:
  assumes "idem_inv s" and "cr_Now q \<le> sy_clock s" and "db_row (sy_db s) (cr_Scope q) (cr_KeyHash q) = Some r"
    and "dbExt (sy_db s) db" and "\<And>scope kh. db_row db scope kh = db_row (sy_db s) scope kh"
    and "p \<in> {Idle, afterRead q r, afterStatus q r}"
    and "remembers db (sy_clock s) q r"
  shows "idem_inv (s\<lparr>sy_db := db, sy_pc := (sy_pc s)(c := p), sy_late := l\<rparr>)"
proof -
  note inv = inv_parts [OF assms(1)]
  have "p = Idle \<or> p = Retaking q r \<or> p = TakingOver q r \<and> \<not> cr_Now q < ir_ExpiresAt r"
    using assms(6) by (auto simp: afterRead_def afterStatus_def split: if_splits)
  moreover have "\<not> sameKey q q'" if exp: "\<not> cr_Now q < ir_ExpiresAt r" and run: "sy_pc s c' = Running q' i'" for c' q' i'
  proof
    assume "sameKey q q'"
    moreover obtain r' where "db_row (sy_db s) (cr_Scope q') (cr_KeyHash q') = Some r'"
        "ir_ExpiresAt r' = cr_ExpiresAt q'" "sy_clock s < cr_ExpiresAt q'"
      using owner_row [OF assms(1) run] by blast
    ultimately show False
      using assms(2,3) exp by (simp add: sameKey_def)
  qed
  moreover have "ownedRow db q' i'" if "ownedRow (sy_db s) q' i'" for q' i'
    using that assms(5) by (simp add: ownedRow_def rowOf_def)
  ultimately show ?thesis
    using inv(3) assms(2,7) by (intro client_moves [OF assms(1,4)]) (auto simp: pcOK_def)
qed

text \<open>Taking a record over: the owner's record is not reclaimable, so there was no owner.\<close>

lemma reclaim_step:
  assumes "idem_inv s" and "cr_Now q \<le> sy_clock s" and "remembers (sy_db s) (sy_clock s) q r"
    and "st \<noteq> IdempotencyStatusProcessing \<or> sy_pc s c = TakingOver q r \<and> ir_Status r = st"
    and "TryReclaim (ir_ID r) st (cr_Now q) (cr_LockedUntil q) (cr_ExpiresAt q) (sy_db s) = (res, db)"
    and "p \<in> {Idle, Rereading q} \<or> res = Some True \<and> p = Running q (ir_ID r)"
    and "\<not> lateClaim (sy_clock s) p"
  shows "idem_inv (s\<lparr>sy_db := db, sy_pc := (sy_pc s)(c := p), sy_late := l\<rparr>)"
proof -
  note inv = inv_parts [OF assms(1)]
  have db: "db = snd (TryReclaim (ir_ID r) st (cr_Now q) (cr_LockedUntil q) (cr_ExpiresAt q) (sy_db s))"
    by (simp add: assms(5))
  have ext: "dbExt (sy_db s) db"
    unfolding db by (rule reclaim_ext [OF inv(1)])
  then have inv': "db_inv db" by (simp add: dbExt_def)
  have blocked: "\<not> reclaimable st (cr_Now q) r'"
    if run: "sy_pc s c' = Running q' i'" and r': "db_row (sy_db s) (cr_Scope q') (cr_KeyHash q') = Some r'"
      and same: "sameKey q q'" for c' q' i' r'
  proof -
    obtain r2 where "db_row (sy_db s) (cr_Scope q') (cr_KeyHash q') = Some r2"
        "ir_Status r2 = IdempotencyStatusProcessing" "ir_LockedUntil r2 = Some (cr_LockedUntil q')"
      using owner_row [OF assms(1) run] by blast
    moreover have "cr_Now q < cr_LockedUntil q'" if "st = IdempotencyStatusProcessing"
    proof -
      have "sy_pc s c = TakingOver q r" "ir_Status r = IdempotencyStatusProcessing"
        using assms(4) that by auto
      moreover have "sameKey q' q" using same by (simp add: sameKey_def)
      ultimately show ?thesis
        using assms(1) run unfolding idem_inv_def inv_owner_def by blast
    qed
    ultimately show ?thesis
      using r' by (auto simp: reclaimable_def)
  qed
  have other: "sameKey q q'"
    if "r' \<in> set (db_rows (sy_db s))" "ir_ID r' = ir_ID r" "hasKey (cr_Scope q') (cr_KeyHash q') r'" for r' q'
    using assms(3) that by (auto simp: remembers_def hasKey_def sameKey_def)
  have keeps: "ownedRow db q' i'" if run: "sy_pc s c' = Running q' i'" for c' q' i'
  proof (rule ownedRow_keeps [OF inv(3) [OF run]])
    fix r' assume row: "db_row (sy_db s) (cr_Scope q') (cr_KeyHash q') = Some r'"
    show "db_row db (cr_Scope q') (cr_KeyHash q') = Some r'"
      unfolding db using blocked [OF run row] other [of r' q'] row_in [OF inv(1)] row
      by (intro reclaim_passes) auto
  qed
  have taken: "ownedRow db q (ir_ID r) \<and> (\<exists>r0. db_row (sy_db s) (cr_Scope q) (cr_KeyHash q) = Some r0 \<and>
      reclaimable st (cr_Now q) r0)" if "res = Some True"
  proof -
    from reclaim_taken [OF assms(5) [unfolded that]] obtain r0 where r0: "r0 \<in> set (db_rows (sy_db s))"
        "ir_ID r0 = ir_ID r" "reclaimable st (cr_Now q) r0"
        "reclaimRow (db_clock (sy_db s)) (cr_LockedUntil q) (cr_ExpiresAt q) r0 \<in> set (db_rows db)"
      by blast
    then have key: "hasKey (cr_Scope q) (cr_KeyHash q) r0"
      using assms(3) by (simp add: remembers_def)
    then have "hasKey (cr_Scope q) (cr_KeyHash q) (reclaimRow (db_clock (sy_db s)) (cr_LockedUntil q) (cr_ExpiresAt q) r0)"
      by (simp add: hasKey_def reclaimRow_def)
    with r0(4) row_in [OF inv'] have "db_row db (cr_Scope q) (cr_KeyHash q)
        = Some (reclaimRow (db_clock (sy_db s)) (cr_LockedUntil q) (cr_ExpiresAt q) r0)" by blast
    with r0(1-3) key row_in [OF inv(1)] show ?thesis
      by (auto simp: ownedRow_def rowOf_def reclaimRow_def)
  qed
  have alone: "\<not> sameKey q q'" if "res = Some True" and run: "sy_pc s c' = Running q' i'" for c' q' i'
  proof
    assume same: "sameKey q q'"
    from taken [OF that(1)] obtain r0 where "db_row (sy_db s) (cr_Scope q') (cr_KeyHash q') = Some r0"
        "reclaimable st (cr_Now q) r0"
      using same by (auto simp: sameKey_def)
    with blocked [OF run _ same] show False by blast
  qed
  show ?thesis
    using assms(2,6,7) keeps taken alone
    by (intro client_moves [OF assms(1) ext]) (auto simp: pcOK_def lateClaim_def)
qed

text \<open>Finishing: other owners have other records.\<close>

lemma mark_step:
  assumes "idem_inv s" and "sy_pc s c = Running q i" and "dbExt (sy_db s) db"
    and "\<And>scope kh r. db_row (sy_db s) scope kh = Some r \<Longrightarrow> ir_ID r \<noteq> i \<Longrightarrow> db_row db scope kh = Some r"
  shows "idem_inv (s\<lparr>sy_db := db, sy_pc := (sy_pc s)(c := Idle)\<rparr>)"
proof -
  note inv = inv_parts [OF assms(1)]
  have "ownedRow db q' i'" if "c' \<noteq> c" and run: "sy_pc s c' = Running q' i'" for c' q' i'
  proof (rule ownedRow_keeps [OF inv(3) [OF run]])
    fix r' assume row: "db_row (sy_db s) (cr_Scope q') (cr_KeyHash q') = Some r'"
    obtain r where r: "db_row (sy_db s) (cr_Scope q) (cr_KeyHash q) = Some r" "ir_ID r = i"
      using owner_row [OF assms(1,2)] by blast
    have "\<not> sameKey q' q"
      using assms(1,2) that unfolding idem_inv_def inv_owner_def by blast
    then have "ir_ID r' \<noteq> i"
      using sql.row_unique [OF inv(1) row r(1)] sql.row_key [OF inv(1) row] sql.row_key [OF inv(1) r(1)] r(2)
      by (auto simp: sameKey_def)
    with row show "db_row db (cr_Scope q') (cr_KeyHash q') = Some r'" by (rule assms(4))
  qed
  then have "idem_inv (s\<lparr>sy_db := db, sy_pc := (sy_pc s)(c := Idle), sy_late := sy_late s\<rparr>)"
    by (intro client_moves [OF assms(1,3)]) (auto simp: pcOK_def)
  then show ?thesis by simp
qed

lemma clean_step:
  assumes "idem_inv s"
  shows "idem_inv (s\<lparr>sy_db := snd (DeleteExpired (sy_clock s) limit (sy_db s))\<rparr>)"
proof -
  note inv = inv_parts [OF assms]
  let ?db = "snd (DeleteExpired (sy_clock s) limit (sy_db s))"
  note ext = delete_ext [OF inv(1), of "sy_clock s" limit]
  have keeps: "ownedRow ?db q i" if run: "sy_pc s c = Running q i" for c q i
  proof (rule ownedRow_keeps [OF inv(3) [OF run]])
    fix r assume row: "db_row (sy_db s) (cr_Scope q) (cr_KeyHash q) = Some r" "ir_ExpiresAt r = cr_ExpiresAt q"
    have "sy_clock s < ir_ExpiresAt r"
      using owner_row [OF assms run] row by (metis option.inject)
    from sql.delete_keeps [OF inv(1) row(1) this, of limit]
    show "db_row ?db (cr_Scope q) (cr_KeyHash q) = Some r"
      by (simp add: sql_repository_def)
  qed
  have "inv_rows (s\<lparr>sy_db := ?db\<rparr>)"
    using assms keeps pcOK_ext [OF ext order_refl] ext
    by (auto simp: idem_inv_def inv_rows_def dbExt_def)
  with assms show ?thesis
    by (simp add: idem_inv_def inv_owner_def)
qed

lemma tick_step:
  assumes "idem_inv s" and "sy_clock s \<le> t" and "\<not> (\<exists>c. expired t (sy_pc s c))"
  shows "idem_inv (s\<lparr>sy_clock := t, sy_late := l\<rparr>)"
proof -
  have "t < cr_ExpiresAt q" if "sy_pc s c = Running q i" for c q i
  proof -
    have "\<not> expired t (sy_pc s c)" using assms(3) by blast
    then show ?thesis by (simp add: expired_def that)
  qed
  moreover have "pcOK (sy_db s) t (sy_pc s c)" for c
    using inv_parts(1,2) [OF assms(1)] pcOK_ext [OF dbExt_refl assms(2)] by blast
  ultimately show ?thesis
    using assms(1) by (auto simp: idem_inv_def inv_rows_def inv_owner_def)
qed

lemma remembers_row:
  assumes "db_inv db" and "db_row db (cr_Scope q) (cr_KeyHash q) = Some r"
  shows "remembers db clock q r"
proof -
  have r: "r \<in> set (db_rows db)" "hasKey (cr_Scope q) (cr_KeyHash q) r"
    using assms row_in by blast+
  moreover have "inj_on ir_ID (set (db_rows db))"
    using assms(1) by (simp add: db_inv_def distinct_map)
  ultimately have "hasKey (cr_Scope q) (cr_KeyHash q) x" if "x \<in> set (db_rows db)" "ir_ID x = ir_ID r" for x
    using that by (metis inj_onD)
  with assms(1) r show ?thesis
    by (auto simp: remembers_def db_inv_def)
qed

lemma get_step:
  assumes "idem_inv s" and "cr_Now q \<le> sy_clock s"
    and "GetByScopeAndKeyHash (cr_Scope q) (cr_KeyHash q) (sy_db s) = (res, db)"
    and "p = Idle \<or> (\<exists>r. res = Some (Some r) \<and> p \<in> {Idle, afterRead q r, afterStatus q r})"
  shows "idem_inv (s\<lparr>sy_db := db, sy_pc := (sy_pc s)(c := p), sy_late := l\<rparr>)"
proof -
  note inv = inv_parts [OF assms(1)]
  have ext: "dbExt (sy_db s) db"
    using get_ext [OF inv(1), of "cr_Scope q" "cr_KeyHash q"] by (simp add: assms(3))
  have rows: "db_row db = db_row (sy_db s)"
    using sql.get_keeps [OF inv(1), of "cr_Scope q" "cr_KeyHash q"] by (simp add: sql_repository_def assms(3))
  show ?thesis
  proof (cases "p = Idle")
    case True
    then show ?thesis
      using inv(3) rows by (intro client_moves [OF assms(1) ext]) (auto simp: pcOK_def ownedRow_def rowOf_def)
  next
    case False
    with assms(4) obtain r where r: "res = Some (Some r)" "p \<in> {Idle, afterRead q r, afterStatus q r}" by blast
    have row: "db_row (sy_db s) (cr_Scope q) (cr_KeyHash q) = Some r"
      using sql.get_row [OF inv(1), of "cr_Scope q" "cr_KeyHash q" "Some r" db] assms(3) r(1)
      by (simp add: sql_repository_def)
    have "remembers db (sy_clock s) q r"
      using remembers_row [of db q r "sy_clock s"] ext row by (simp add: rows dbExt_def)
    with read_step [OF assms(1,2) row ext _ r(2)] rows show ?thesis by simp
  qed
qed

lemma advance_step:
  assumes "idem_inv s" and "\<not> isRunning (sy_pc s c)" and "advance (sy_pc s c) (sy_db s) = (p, db)"
    and "\<not> lateClaim (sy_clock s) p"
  shows "idem_inv (s\<lparr>sy_db := db, sy_pc := (sy_pc s)(c := p), sy_late := l\<rparr>)"
proof -
  note ok = inv_parts(2) [OF assms(1), of c]
  show ?thesis
  proof (cases "sy_pc s c")
    case Idle
    with assms(3) have "p = Idle" "db = sy_db s" by (auto simp: advance_def)
    with inv_parts [OF assms(1)] show ?thesis
      by (intro client_moves [OF assms(1)]) (auto simp: pcOK_def dbExt_refl)
  next
    case (Creating q)
    with create_step [OF assms(1) _ _ assms(4)] assms(3) show ?thesis by simp
  next
    case (Getting q)
    obtain res db1 where g: "GetByScopeAndKeyHash (cr_Scope q) (cr_KeyHash q) (sy_db s) = (res, db1)" by fastforce
    with assms(3) Getting have "db = db1" and "p = Idle \<or> (\<exists>r. res = Some (Some r) \<and> p = afterRead q r)"
      by (auto simp: advance_def split: option.splits)
    with get_step [OF assms(1) _ g] ok Getting show ?thesis by (auto simp: pcOK_def)
  next
    case (TakingOver q r)
    obtain res db1 where t: "TryReclaim (ir_ID r) (ir_Status r) (cr_Now q) (cr_LockedUntil q) (cr_ExpiresAt q) (sy_db s)
        = (res, db1)" by fastforce
    with assms(3) TakingOver have "db = db1" and "p \<in> {Idle, Rereading q} \<or> res = Some True \<and> p = Running q (ir_ID r)"
      by (auto simp: advance_def split: option.splits bool.splits)
    with reclaim_step [OF assms(1) _ _ _ t _ assms(4)] ok TakingOver show ?thesis by (simp add: pcOK_def)
  next
    case (Rereading q)
    obtain res db1 where g: "GetByScopeAndKeyHash (cr_Scope q) (cr_KeyHash q) (sy_db s) = (res, db1)" by fastforce
    with assms(3) Rereading have "db = db1" and "p = Idle \<or> (\<exists>r. res = Some (Some r) \<and> p = afterStatus q r)"
      by (auto simp: advance_def split: option.splits if_splits)
    with get_step [OF assms(1) _ g] ok Rereading show ?thesis by (auto simp: pcOK_def)
  next
    case (Retaking q r)
    obtain res db1 where t: "TryReclaim (ir_ID r) IdempotencyStatusFailedRetryable (cr_Now q) (cr_LockedUntil q)
        (cr_ExpiresAt q) (sy_db s) = (res, db1)" by fastforce
    with assms(3) Retaking have "db = db1" and "p \<in> {Idle, Rereading q} \<or> res = Some True \<and> p = Running q (ir_ID r)"
      by (auto simp: advance_def split: option.splits bool.splits)
    with reclaim_step [OF assms(1) _ _ _ t _ assms(4)] ok Retaking show ?thesis by (simp add: pcOK_def)
  qed (use assms(2) in \<open>simp add: isRunning_def\<close>)
qed

lemma step_inv:
  assumes "idem_step s s'" and "\<not> sy_late s'" and "\<not> sy_late s \<Longrightarrow> idem_inv s"
  shows "idem_inv s'"
  using assms
proof (induction rule: idem_step.induct)
  case (Begin s c q)
  then have inv: "idem_inv s" by simp
  have "idem_inv (s\<lparr>sy_db := sy_db s, sy_pc := (sy_pc s)(c := Creating q), sy_late := sy_late s\<rparr>)"
    using inv_parts [OF inv] Begin(2) by (intro client_moves [OF inv]) (auto simp: pcOK_def dbExt_refl)
  then show ?case by simp
next
  case (Advance s c p db)
  then have "\<not> lateClaim (sy_clock s) p" and "idem_inv s" by simp_all
  with advance_step Advance(1,2) show ?case by blast
next
  case (Succeed s c q i body)
  then have inv: "idem_inv s" by simp
  from mark_step [OF inv Succeed(1) mark_ext(1) [OF inv_parts(1) [OF inv]]]
    sql.succeed_keeps [OF inv_parts(1) [OF inv]] show ?case
    by (simp add: sql_repository_def)
next
  case (Fail s c q i reason backoff)
  then have inv: "idem_inv s" by simp
  from mark_step [OF inv Fail(1) mark_ext(2) [OF inv_parts(1) [OF inv]]]
    sql.fail_keeps [OF inv_parts(1) [OF inv]] show ?case
    by (simp add: sql_repository_def)
next
  case (Abandon s c)
  then have inv: "idem_inv s" by simp
  have "idem_inv (s\<lparr>sy_db := sy_db s, sy_pc := (sy_pc s)(c := Idle), sy_late := sy_late s\<rparr>)"
    using inv_parts [OF inv] by (intro client_moves [OF inv]) (auto simp: pcOK_def dbExt_refl)
  then show ?case by simp
next
  case (Tick s t)
  then have "\<not> (\<exists>c. expired t (sy_pc s c))" and "idem_inv s" by simp_all
  with tick_step Tick(1) show ?case by blast
next
  case (Clean s limit)
  then have "idem_inv s" by simp
  with clean_step show ?case by blast
qed

lemma reachable_inv: "reachable s \<Longrightarrow> \<not> sy_late s \<Longrightarrow> idem_inv s"
proof (induction rule: reachable.induct)
  case (Start s)
  then show ?case by (simp add: idem_inv_def inv_rows_def inv_owner_def pcOK_def)
next
  case (Step s s')
  then show ?case using step_inv by blast
qed

text \<open>
  C12: however the SQL statements of any number of concurrent requests interleave with one another,
  with database failures, with crashes between any two statements and with the clean-up, at most
  one request at a time runs the operation of a key, and while it runs the key's record is in
  processing, under its lock and unexpired.  This holds as long as no request was late: each claim
  landed before the lock time it wrote, and no operation was still running when its record expired.
\<close>

theorem exclusive_owner:
  assumes "reachable s" and "\<not> sy_late s" and "sy_pc s c = Running q i" and "sy_pc s c' = Running q' i'"
    and "cr_Scope q = cr_Scope q'" and "cr_KeyHash q = cr_KeyHash q'"
  shows "c = c' \<and> (\<exists>r. db_row (sy_db s) (cr_Scope q) (cr_KeyHash q) = Some r \<and> ir_ID r = i \<and>
    ir_Status r = IdempotencyStatusProcessing \<and> ir_LockedUntil r = Some (cr_LockedUntil q) \<and>
    sy_clock s < ir_ExpiresAt r)"
proof -
  have inv: "idem_inv s"
    using reachable_inv [OF assms(1,2)] .
  have "c = c'"
    using inv assms(3-6) unfolding idem_inv_def inv_owner_def sameKey_def by blast
  with owner_row [OF inv assms(3)] show ?thesis by metis
qed

section \<open>The steps are those of the coordinator\<close>

lemma advance_final [simp]: "advance Idle db = (Idle, db)" "advance (Running q i) db = (Running q i, db)"
  by (simp_all add: advance_def)

definition solo :: "pc \<times> idem_db \<Rightarrow> pc \<times> idem_db" where
  "solo = (\<lambda>(p, db). advance p db)"

lemma solo_final [simp]: "(solo ^^ n) (Idle, db) = (Idle, db)" "(solo ^^ n) (Running q i, db) = (Running q i, db)"
  by (induction n) (simp_all add: solo_def)

definition claimed :: "claim_request \<Rightarrow> ('d, 'e) claim \<times> idem_db \<Rightarrow> pc \<times> idem_db" where
  "claimed q r = (case fst r of Claimed i \<Rightarrow> Running q i | Answer a \<Rightarrow> Idle, snd r)"

lemma sql_ops:
  "repo_CreateProcessing sql_repository = CreateProcessing"
  "repo_GetByScopeAndKeyHash sql_repository = GetByScopeAndKeyHash"
  "repo_TryReclaim sql_repository = TryReclaim"
  by (simp_all add: sql_repository_def)

lemma solo_status: "(solo ^^ Suc n) (afterStatus q r, db) = claimed q (claimByStatus L sql_repository q r db)"
proof -
  obtain res db1 where t: "TryReclaim (ir_ID r) IdempotencyStatusFailedRetryable (cr_Now q) (cr_LockedUntil q)
      (cr_ExpiresAt q) db = (res, db1)" by fastforce
  then have "solo (Retaking q r, db) = (if res = Some True then Running q (ir_ID r) else Idle, db1)"
    by (simp add: solo_def advance_def split: option.split bool.split)
  then have "(solo ^^ Suc n) (Retaking q r, db) = (if res = Some True then Running q (ir_ID r) else Idle, db1)"
    by (simp add: funpow_Suc_right del: funpow.simps)
  then show ?thesis
    by (auto simp: afterStatus_def claimed_def claimByStatus_def sql_ops t
        simp del: funpow.simps split: option.split bool.split)
qed

lemma solo_Rereading:
  "(solo ^^ Suc (Suc n)) (Rereading q, db) = claimed q
     (case GetByScopeAndKeyHash (cr_Scope q) (cr_KeyHash q) db of
        (None, s) \<Rightarrow> (Answer (Inl StoreUnavail), s)
      | (Some None, s) \<Rightarrow> (Answer (Inl StoreUnavail), s)
      | (Some (Some latest), s) \<Rightarrow>
          if ir_RequestFingerprint latest \<noteq> cr_Fingerprint q then (Answer (Inl KeyConflict), s)
          else claimByStatus L sql_repository q latest s)"
proof -
  obtain res db1 where g: "GetByScopeAndKeyHash (cr_Scope q) (cr_KeyHash q) db = (res, db1)" by fastforce
  have "(solo ^^ Suc (Suc n)) (Rereading q, db) = (solo ^^ Suc n) (solo (Rereading q, db))"
    by (simp only: funpow_Suc_right comp_apply)
  also have "solo (Rereading q, db) = (case res of Some (Some r) \<Rightarrow>
      (if ir_RequestFingerprint r \<noteq> cr_Fingerprint q then Idle else afterStatus q r) | _ \<Rightarrow> Idle, db1)"
    by (simp add: solo_def advance_def g split: option.split)
  finally show ?thesis
    by (simp add: g claimed_def [of q "(Answer _, _)"] solo_status [of _ _ _ _ L] del: funpow.simps split: option.split)
qed

lemma solo_TakingOver:
  "(solo ^^ Suc (Suc (Suc n))) (TakingOver q r, db) = claimed q (claimExpired L sql_repository q r db)"
proof -
  obtain res db1 where t: "TryReclaim (ir_ID r) (ir_Status r) (cr_Now q) (cr_LockedUntil q) (cr_ExpiresAt q) db
      = (res, db1)" by fastforce
  have "(solo ^^ Suc (Suc (Suc n))) (TakingOver q r, db) = (solo ^^ Suc (Suc n)) (solo (TakingOver q r, db))"
    by (simp only: funpow_Suc_right comp_apply)
  also have "solo (TakingOver q r, db) = (case res of None \<Rightarrow> Idle | Some b \<Rightarrow>
      if b then Running q (ir_ID r) else Rereading q, db1)"
    by (simp add: solo_def advance_def t split: option.split bool.split)
  finally show ?thesis
    by (simp add: claimExpired_def sql_ops t
        claimed_def [of q "(Answer _, _)"] claimed_def [of q "(Claimed _, _)"]
        solo_Rereading [of _ _ _ L] del: funpow.simps split: option.split bool.split)
qed

text \<open>
  The two renderings of the claim phase agree: a request whose statements run without interference
  takes steps of the interleaved system, and ends where \<open>claimKey\<close> of \<open>Execute\<close> ends.
\<close>

lemma claimKey_steps:
  "(solo ^^ 5) (Creating q, db) = claimed q (claimKey L sql_repository q db)"
proof -
  obtain res db1 where c: "CreateProcessing (processingRecord q) db = (res, db1)" by fastforce
  obtain g db2 where g: "GetByScopeAndKeyHash (cr_Scope q) (cr_KeyHash q) db1 = (g, db2)" by fastforce
  have five: "(solo ^^ 5) x = (solo ^^ 4) (solo x)" and four: "(solo ^^ 4) x = (solo ^^ 3) (solo x)" for x
    using funpow_Suc_right [of 4 solo] funpow_Suc_right [of 3 solo] by simp_all
  have three: "(solo ^^ 3) (TakingOver q r, db2) = claimed q (claimExpired L sql_repository q r db2)"
    "(solo ^^ 3) (afterStatus q r, db2) = claimed q (claimByStatus L sql_repository q r db2)" for r
    using solo_TakingOver [of 0 q r db2 L] solo_status [of 2 q r db2 L] by (simp_all add: numeral_3_eq_3 numeral_2_eq_2)
  have "solo (Getting q, db1) = (case g of Some (Some r) \<Rightarrow> afterRead q r | _ \<Rightarrow> Idle, db2)"
    by (simp add: solo_def advance_def g split: option.split)
  then have getting: "(solo ^^ 4) (Getting q, db1) = claimed q (claimExisting L sql_repository q db1)"
    by (simp add: four claimExisting_def sql_ops g
        afterRead_def three claimed_def [of q "(Answer _, _)"] split: option.split)
  have "solo (Creating q, db) = (case res of None \<Rightarrow> Idle | Some (own, rec) \<Rightarrow>
      if own then Running q (ir_ID rec) else Getting q, db1)"
    by (simp add: solo_def advance_def c split: option.split prod.split bool.split)
  then show ?thesis
    by (simp add: five getting claimKey_def sql_ops c
        claimed_def [of q "(Answer _, _)"] claimed_def [of q "(Claimed _, _)"] split: option.split prod.split bool.split)
qed

section \<open>Schedules\<close>

text \<open>A schedule names, step by step, which request moves and how far time goes.\<close>

datatype action = DoBegin nat claim_request | DoAdvance nat | DoAbandon nat | DoTick time

fun act :: "action \<Rightarrow> idem_db \<times> time \<times> (nat \<Rightarrow> pc) \<Rightarrow> (idem_db \<times> time \<times> (nat \<Rightarrow> pc)) option" where
  "act (DoBegin c q) (db, clock, pcs) =
     (if pcs c = Idle \<and> cr_Now q = clock then Some (db, clock, pcs(c := Creating q)) else None)"
| "act (DoAdvance c) (db, clock, pcs) =
     (if isRunning (pcs c) then None
      else let (p, db') = advance (pcs c) db in Some (db', clock, pcs(c := p)))"
| "act (DoAbandon c) (db, clock, pcs) = Some (db, clock, pcs(c := Idle))"
| "act (DoTick t) (db, clock, pcs) = (if clock \<le> t then Some (db, t, pcs) else None)"

fun acts :: "action list \<Rightarrow> idem_db \<times> time \<times> (nat \<Rightarrow> pc) \<Rightarrow> (idem_db \<times> time \<times> (nat \<Rightarrow> pc)) option" where
  "acts [] x = Some x"
| "acts (a # as) x = (case act a x of None \<Rightarrow> None | Some y \<Rightarrow> acts as y)"

definition system :: "idem_db \<times> time \<times> (nat \<Rightarrow> pc) \<Rightarrow> bool \<Rightarrow> idem_system" where
  "system x late = (case x of (db, clock, pcs) \<Rightarrow>
     \<lparr>sy_db = db, sy_clock = clock, sy_pc = pcs, sy_late = late\<rparr>)"

lemma act_step: "act a x = Some y \<Longrightarrow> \<exists>late'. idem_step (system x late) (system y late')"
proof (cases x)
  case (fields db clock pcs)
  assume y: "act a x = Some y"
  let ?s = "system x late"
  show ?thesis
  proof (cases a)
    case (DoBegin c q)
    with y fields idem_step.Begin [of ?s c q] show ?thesis
      by (auto simp: system_def split: if_splits intro!: exI [of _ late])
  next
    case (DoAdvance c)
    obtain p db' where "advance (pcs c) db = (p, db')" by fastforce
    with y fields DoAdvance idem_step.Advance [of ?s c p db'] show ?thesis
      by (auto simp: system_def split: if_splits intro!: exI [of _ "late \<or> lateClaim clock p"])
  next
    case (DoAbandon c)
    with y fields idem_step.Abandon [of ?s c] show ?thesis
      by (auto simp: system_def intro!: exI [of _ late])
  next
    case (DoTick t)
    with y fields idem_step.Tick [of ?s t] show ?thesis
      by (auto simp: system_def split: if_splits intro!: exI [of _ "late \<or> (\<exists>c. expired t (pcs c))"])
  qed
qed

lemma acts_reachable: "acts as x = Some y \<Longrightarrow> reachable (system x late) \<Longrightarrow> \<exists>late'. reachable (system y late')"
proof (induction as arbitrary: x late)
  case (Cons a as)
  then obtain z where z: "act a x = Some z" "acts as z = Some y"
    by (auto split: option.splits)
  from act_step [OF z(1), of late] obtain late' where "idem_step (system x late) (system z late')" by blast
  with Cons.prems(2) have "reachable (system z late')" by (rule reachable.Step)
  with Cons.IH z(2) show ?case by blast
qed auto

definition exRequest :: "time \<Rightarrow> claim_request" where
  "exRequest now = \<lparr>cr_Scope = ''pay'', cr_KeyHash = ''k'', cr_Fingerprint = ''f'', cr_Now = now,
     cr_LockedUntil = now + 30, cr_ExpiresAt = now + 100\<rparr>"

definition exStart :: "idem_db \<times> time \<times> (nat \<Rightarrow> pc)" where
  "exStart = (exDb, 0, \<lambda>_. Idle)"

lemma exStart_reachable: "reachable (system exStart False)"
  by (rule reachable.Start) (simp_all add: system_def exStart_def exDb_def db_inv_def)

lemma exRunning_reachable:
  "reachable (system (snd (advance (Creating (exRequest 0)) exDb), 0, (\<lambda>_. Idle)(0 := Running (exRequest 0) 1)) False)"
proof -
  let ?s = "system (exDb, 0, (\<lambda>_. Idle)(0 := Creating (exRequest 0))) False"
  have "reachable ?s"
    using reachable.Step [OF exStart_reachable idem_step.Begin [of _ 0 "exRequest 0"]]
    by (simp add: system_def exStart_def exRequest_def)
  moreover have "fst (advance (Creating (exRequest 0)) exDb) = Running (exRequest 0) 1"
    by code_simp
  then have "advance (Creating (exRequest 0)) exDb = (Running (exRequest 0) 1, snd (advance (Creating (exRequest 0)) exDb))"
    by (metis prod.collapse)
  ultimately show ?thesis
    using reachable.Step [OF _ idem_step.Advance [of ?s 0]]
    by (fastforce simp: system_def isRunning_def lateClaim_def exRequest_def)
qed

theorem exclusive_owner_witness:
  "\<exists>r. db_row (snd (advance (Creating (exRequest 0)) exDb)) ''pay'' ''k'' = Some r \<and> ir_ID r = 1 \<and>
     ir_Status r = IdempotencyStatusProcessing"
  using exclusive_owner [OF exRunning_reachable, of 0 "exRequest 0" 1 0 "exRequest 0" 1]
  by (auto simp: system_def exRequest_def)

text \<open>
  Without that condition the key is not exclusive, although every database call succeeds.  A
  request writes the lock time it computed on entry; when thirty seconds pass before its take-over
  of an expired record lands, a second request that entered later finds the lock already over and
  takes the record over again, and both run the operation.
\<close>

lemma late_claims_overlap:
  "\<exists>s q q'. reachable s \<and> db_faults (sy_db s) = [] \<and> sy_pc s 1 = Running q 1 \<and> sy_pc s 2 = Running q' 1 \<and>
     cr_Scope q = cr_Scope q' \<and> cr_KeyHash q = cr_KeyHash q' \<and>
     sy_clock s < cr_ExpiresAt q \<and> sy_clock s < cr_ExpiresAt q'"
proof -
  let ?as = "[DoBegin 0 (exRequest 0), DoAdvance 0, DoAbandon 0, DoTick 100, DoBegin 1 (exRequest 100),
     DoAdvance 1, DoAdvance 1, DoTick 131, DoBegin 2 (exRequest 131), DoAdvance 2, DoAdvance 2,
     DoAdvance 1, DoAdvance 2]"
  have run: "case acts ?as exStart of None \<Rightarrow> False | Some (db, clock, pcs) \<Rightarrow> db_faults db = [] \<and> clock = 131 \<and>
      pcs 1 = Running (exRequest 100) 1 \<and> pcs 2 = Running (exRequest 131) 1"
    by code_simp
  then obtain db pcs where end': "acts ?as exStart = Some (db, 131, pcs)" "db_faults db = []"
      "pcs 1 = Running (exRequest 100) 1" "pcs 2 = Running (exRequest 131) 1"
    by (auto split: option.splits prod.splits)
  from acts_reachable [OF end'(1) exStart_reachable] obtain late where "reachable (system (db, 131, pcs) late)" by blast
  with end' show ?thesis
    by (intro exI [of _ "system (db, 131, pcs) late"] exI [of _ "exRequest 100"] exI [of _ "exRequest 131"])
       (simp add: system_def exRequest_def)
qed

end
