(* ===== verification/Proxy_Circuit.thy ===== *)
theory Proxy_Circuit
  imports Gateway_Prelude
begin

text \<open>
  \<open>service/openai_proxy_stream_circuit.go\<close>: the circuit breaker that quarantines a proxy after
  repeated stream disconnects.  The map of entries is an association list with distinct keys.  Go
  visits a map in an arbitrary order, so the operation with a loop over the map takes the order in
  which the loop visits the keys.  The mutex makes every operation atomic.

  Lemmas: the bound on the table, the collapse of a burst into one failure, and how long a
  quarantine lasts.
\<close>

section \<open>Settings and state\<close>

record openAIProxyStreamCircuitSettings =
  pc_disabled :: bool
  pc_failureThreshold :: int
  pc_failureWindow :: duration
  pc_quarantineTTL :: duration
  pc_collapseInterval :: duration
  pc_maxEntries :: int

record openAIProxyStreamCircuitEntry =
  pe_failureCount :: int
  pe_windowStart :: time
  pe_lastFailureAt :: time
  pe_blockedUntil :: time
  pe_lastTouched :: time

definition zeroCircuitEntry :: openAIProxyStreamCircuitEntry where
  "zeroCircuitEntry = \<lparr>pe_failureCount = 0, pe_windowStart = 0, pe_lastFailureAt = 0, pe_blockedUntil = 0,
     pe_lastTouched = 0\<rparr>"

record openAIProxyStreamCircuit =
  pc_settings :: openAIProxyStreamCircuitSettings
  pc_entries :: "(int \<times> openAIProxyStreamCircuitEntry) list"

definition defaultOpenAIProxyStreamFailureThreshold :: int where
  "defaultOpenAIProxyStreamFailureThreshold = 2"
definition defaultOpenAIProxyStreamFailureWindow :: duration where
  "defaultOpenAIProxyStreamFailureWindow = Minute"
definition defaultOpenAIProxyStreamQuarantineTTL :: duration where
  "defaultOpenAIProxyStreamQuarantineTTL = 10 * Minute"
definition defaultOpenAIProxyStreamCircuitMaxEntries :: int where
  "defaultOpenAIProxyStreamCircuitMaxEntries = 4096"
definition defaultOpenAIProxyStreamFailureCollapse :: duration where
  "defaultOpenAIProxyStreamFailureCollapse = 3 * Second"

lemmas circuit_defaults = defaultOpenAIProxyStreamFailureThreshold_def
  defaultOpenAIProxyStreamFailureWindow_def defaultOpenAIProxyStreamQuarantineTTL_def
  defaultOpenAIProxyStreamCircuitMaxEntries_def defaultOpenAIProxyStreamFailureCollapse_def

text \<open>The section of the configuration the settings come from; \<open>None\<close> is a missing configuration.\<close>

record proxy_circuit_config =
  pcc_Disabled :: bool
  pcc_FailureThreshold :: int
  pcc_WindowSeconds :: int
  pcc_TTLSeconds :: int

definition resolveOpenAIProxyStreamCircuitSettings ::
  "proxy_circuit_config option \<Rightarrow> openAIProxyStreamCircuitSettings" where
  "resolveOpenAIProxyStreamCircuitSettings config =
     (let settings =
        \<lparr>pc_disabled = False, pc_failureThreshold = defaultOpenAIProxyStreamFailureThreshold,
         pc_failureWindow = defaultOpenAIProxyStreamFailureWindow,
         pc_quarantineTTL = defaultOpenAIProxyStreamQuarantineTTL,
         pc_collapseInterval = defaultOpenAIProxyStreamFailureCollapse,
         pc_maxEntries = defaultOpenAIProxyStreamCircuitMaxEntries\<rparr>
      in case config of
           None \<Rightarrow> settings
         | Some cfg \<Rightarrow>
             let settings = settings\<lparr>pc_disabled := pcc_Disabled cfg\<rparr>;
                 settings = (if pcc_FailureThreshold cfg > 0
                             then settings\<lparr>pc_failureThreshold := pcc_FailureThreshold cfg\<rparr> else settings);
                 settings = (if pcc_WindowSeconds cfg > 0
                             then settings\<lparr>pc_failureWindow := pcc_WindowSeconds cfg * Second\<rparr> else settings)
             in if pcc_TTLSeconds cfg > 0
                then settings\<lparr>pc_quarantineTTL := pcc_TTLSeconds cfg * Second\<rparr> else settings)"

definition newOpenAIProxyStreamCircuit :: "openAIProxyStreamCircuitSettings \<Rightarrow> openAIProxyStreamCircuit" where
  "newOpenAIProxyStreamCircuit settings =
     (let settings = (if pc_failureThreshold settings \<le> 0
            then settings\<lparr>pc_failureThreshold := defaultOpenAIProxyStreamFailureThreshold\<rparr> else settings);
          settings = (if pc_failureWindow settings \<le> 0
            then settings\<lparr>pc_failureWindow := defaultOpenAIProxyStreamFailureWindow\<rparr> else settings);
          settings = (if pc_quarantineTTL settings \<le> 0
            then settings\<lparr>pc_quarantineTTL := defaultOpenAIProxyStreamQuarantineTTL\<rparr> else settings);
          settings = (if pc_maxEntries settings \<le> 0
            then settings\<lparr>pc_maxEntries := defaultOpenAIProxyStreamCircuitMaxEntries\<rparr> else settings);
          settings = (if pc_collapseInterval settings < 0
            then settings\<lparr>pc_collapseInterval := 0\<rparr> else settings)
      in \<lparr>pc_settings = settings, pc_entries = []\<rparr>)"

section \<open>Operations\<close>

text \<open>The search for the entry touched longest ago, over the keys in the order they are visited.\<close>

fun oldestEntry :: "(int \<times> openAIProxyStreamCircuitEntry) list \<Rightarrow> int list \<Rightarrow> int \<times> time \<Rightarrow> int \<times> time" where
  "oldestEntry entries [] acc = acc"
| "oldestEntry entries (proxyID # order) (oldestProxyID, oldest) =
     oldestEntry entries order
       (case map_of entries proxyID of
          None \<Rightarrow> (oldestProxyID, oldest)
        | Some entry \<Rightarrow>
            if oldestProxyID = 0 \<or> pe_lastTouched entry < oldest then (proxyID, pe_lastTouched entry)
            else (oldestProxyID, oldest))"

definition disposable ::
  "openAIProxyStreamCircuitSettings \<Rightarrow> time \<Rightarrow> openAIProxyStreamCircuitEntry \<Rightarrow> bool" where
  "disposable settings now entry \<longleftrightarrow>
     IsZero (pe_blockedUntil entry) \<and> now - pe_lastTouched entry > pc_failureWindow settings \<or>
     \<not> IsZero (pe_blockedUntil entry) \<and> \<not> now < pe_blockedUntil entry"

definition ensureCapacityLocked ::
  "int list \<Rightarrow> time \<Rightarrow> openAIProxyStreamCircuit \<Rightarrow> openAIProxyStreamCircuit" where
  "ensureCapacityLocked order now c =
     (if int (length (pc_entries c)) < pc_maxEntries (pc_settings c) then c
      else
        let entries = filter (\<lambda>(_, entry). \<not> disposable (pc_settings c) now entry) (pc_entries c);
            c = c\<lparr>pc_entries := entries\<rparr>
        in if int (length entries) < pc_maxEntries (pc_settings c) then c
           else
             let (oldestProxyID, _) = oldestEntry entries order (0, 0)
             in if oldestProxyID > 0 then c\<lparr>pc_entries := AList.delete oldestProxyID entries\<rparr> else c)"

definition recordFailure ::
  "int list \<Rightarrow> int \<Rightarrow> time \<Rightarrow> openAIProxyStreamCircuit \<Rightarrow> (bool \<times> time) \<times> openAIProxyStreamCircuit" where
  "recordFailure order proxyID now c =
     (if pc_disabled (pc_settings c) \<or> proxyID \<le> 0 then ((False, 0), c)
      else
        let found = map_of (pc_entries c) proxyID;
            entry = (case found of None \<Rightarrow> zeroCircuitEntry | Some e \<Rightarrow> e)
        in if found \<noteq> None \<and> now < pe_blockedUntil entry then
             ((False, pe_blockedUntil entry),
              c\<lparr>pc_entries := AList.update proxyID (entry\<lparr>pe_lastTouched := now\<rparr>) (pc_entries c)\<rparr>)
           else
             let c = (if found = None then ensureCapacityLocked order now c else c);
                 entry = (if IsZero (pe_windowStart entry) \<or> now < pe_windowStart entry \<or>
                             now - pe_windowStart entry > pc_failureWindow (pc_settings c)
                          then entry\<lparr>pe_failureCount := 0, pe_windowStart := now, pe_blockedUntil := 0\<rparr>
                          else entry)
             in if pc_collapseInterval (pc_settings c) > 0 \<and> \<not> IsZero (pe_lastFailureAt entry) \<and>
                   now - pe_lastFailureAt entry \<ge> 0 \<and>
                   now - pe_lastFailureAt entry < pc_collapseInterval (pc_settings c) then
                  ((False, 0),
                   c\<lparr>pc_entries := AList.update proxyID (entry\<lparr>pe_lastTouched := now\<rparr>) (pc_entries c)\<rparr>)
                else
                  let entry = entry\<lparr>pe_failureCount := pe_failureCount entry + 1, pe_lastFailureAt := now,
                                    pe_lastTouched := now\<rparr>;
                      tripped = pe_failureCount entry \<ge> pc_failureThreshold (pc_settings c);
                      entry = (if tripped
                               then entry\<lparr>pe_blockedUntil := now + pc_quarantineTTL (pc_settings c)\<rparr> else entry)
                  in ((tripped, pe_blockedUntil entry),
                      c\<lparr>pc_entries := AList.update proxyID entry (pc_entries c)\<rparr>))"

definition recordSuccess :: "int \<Rightarrow> openAIProxyStreamCircuit \<Rightarrow> bool \<times> openAIProxyStreamCircuit" where
  "recordSuccess proxyID c =
     (if proxyID \<le> 0 then (False, c)
      else if map_of (pc_entries c) proxyID = None then (False, c)
      else (True, c\<lparr>pc_entries := AList.delete proxyID (pc_entries c)\<rparr>))"

definition isBlocked :: "int \<Rightarrow> time \<Rightarrow> openAIProxyStreamCircuit \<Rightarrow> bool \<times> openAIProxyStreamCircuit" where
  "isBlocked proxyID now c =
     (if pc_disabled (pc_settings c) \<or> proxyID \<le> 0 then (False, c)
      else case map_of (pc_entries c) proxyID of
        None \<Rightarrow> (False, c)
      | Some entry \<Rightarrow>
          if IsZero (pe_blockedUntil entry) then (False, c)
          else if \<not> now < pe_blockedUntil entry
            then (False, c\<lparr>pc_entries := AList.delete proxyID (pc_entries c)\<rparr>)
          else (True, c))"

definition activeBlockCount :: "time \<Rightarrow> openAIProxyStreamCircuit \<Rightarrow> int" where
  "activeBlockCount now c =
     (if pc_disabled (pc_settings c) then 0
      else int (length (filter (\<lambda>(_, entry). \<not> IsZero (pe_blockedUntil entry) \<and> now < pe_blockedUntil entry)
                  (pc_entries c))))"

text \<open>
  The service's entry points.  An account is what they read of it; of an error they ask only whether
  it wraps \<open>context.Canceled\<close> or \<open>context.DeadlineExceeded\<close>.
\<close>

record circuit_account =
  ca_Platform :: string
  ca_ProxyID :: "int option"

record stream_error =
  se_Canceled :: bool
  se_DeadlineExceeded :: bool

definition PlatformOpenAI :: string where "PlatformOpenAI = ''openai''"

definition openAIProxyStreamCircuitProxyID :: "circuit_account option \<Rightarrow> int \<times> bool" where
  "openAIProxyStreamCircuitProxyID account =
     (case account of
        None \<Rightarrow> (0, False)
      | Some a \<Rightarrow>
          if ca_Platform a \<noteq> PlatformOpenAI then (0, False)
          else case ca_ProxyID a of
            None \<Rightarrow> (0, False)
          | Some proxyID \<Rightarrow> if proxyID \<le> 0 then (0, False) else (proxyID, True))"

definition recordOpenAIProxyStreamDisconnect ::
  "int list \<Rightarrow> circuit_account option \<Rightarrow> stream_error option \<Rightarrow> time \<Rightarrow> openAIProxyStreamCircuit \<Rightarrow>
   openAIProxyStreamCircuit" where
  "recordOpenAIProxyStreamDisconnect order account streamErr now c =
     (let (proxyID, ok) = openAIProxyStreamCircuitProxyID account
      in case streamErr of
           None \<Rightarrow> c
         | Some err \<Rightarrow>
             if \<not> ok \<or> se_Canceled err \<or> se_DeadlineExceeded err then c
             else snd (recordFailure order proxyID now c))"

definition clearOpenAIProxyStreamDisconnect ::
  "circuit_account option \<Rightarrow> openAIProxyStreamCircuit \<Rightarrow> openAIProxyStreamCircuit" where
  "clearOpenAIProxyStreamDisconnect account c =
     (let (proxyID, ok) = openAIProxyStreamCircuitProxyID account
      in if \<not> ok then c else snd (recordSuccess proxyID c))"

definition isOpenAIProxyStreamQuarantined ::
  "bool \<Rightarrow> circuit_account option \<Rightarrow> time \<Rightarrow> openAIProxyStreamCircuit \<Rightarrow> bool \<times> openAIProxyStreamCircuit" where
  "isOpenAIProxyStreamQuarantined bypassed account now c =
     (let (proxyID, ok) = openAIProxyStreamCircuitProxyID account
      in if \<not> ok then (False, c)
         else if bypassed then (False, c)
         else isBlocked proxyID now c)"

section \<open>Runs\<close>

datatype circuit_op = Failure "int list" int time | Success int | Query int time

fun circuit_step :: "circuit_op \<Rightarrow> openAIProxyStreamCircuit \<Rightarrow> openAIProxyStreamCircuit" where
  "circuit_step (Failure order p now) c = snd (recordFailure order p now c)"
| "circuit_step (Success p) c = snd (recordSuccess p c)"
| "circuit_step (Query p now) c = snd (isBlocked p now c)"

section \<open>The table is bounded\<close>

definition circuit_inv :: "openAIProxyStreamCircuit \<Rightarrow> bool" where
  "circuit_inv c \<longleftrightarrow> distinct (map fst (pc_entries c)) \<and> (\<forall>p \<in> fst ` set (pc_entries c). 0 < p) \<and>
     int (length (pc_entries c)) \<le> pc_maxEntries (pc_settings c) \<and> 0 < pc_maxEntries (pc_settings c)"

text \<open>The order a loop visits the keys in contains every key.\<close>

definition visits :: "int list \<Rightarrow> openAIProxyStreamCircuit \<Rightarrow> bool" where
  "visits order c \<longleftrightarrow> fst ` set (pc_entries c) \<subseteq> set order"

fun fairOp :: "circuit_op \<Rightarrow> openAIProxyStreamCircuit \<Rightarrow> bool" where
  "fairOp (Failure order p now) c = visits order c"
| "fairOp _ c = True"

lemma settings_kept [simp]:
  "pc_settings (ensureCapacityLocked order now c) = pc_settings c"
  by (simp add: ensureCapacityLocked_def Let_def case_prod_unfold)

lemma step_settings [simp]: "pc_settings (circuit_step op c) = pc_settings c"
  by (cases op) (simp_all add: recordFailure_def recordSuccess_def isBlocked_def Let_def split: option.split)

text \<open>The search finds an entry whenever there is one.\<close>

lemma oldestEntry_key:
  "old \<in> fst ` set entries \<Longrightarrow> fst (oldestEntry entries order (old, t)) \<in> fst ` set entries"
proof (induction order arbitrary: old t)
  case (Cons p order)
  show ?case
  proof (cases "map_of entries p")
    case None
    with Cons show ?thesis by simp
  next
    case (Some e)
    with Cons.IH [OF map_of_key [OF Some]] Cons.IH [OF Cons.prems] show ?thesis by simp
  qed
qed simp

lemma oldestEntry_found:
  assumes "entries \<noteq> []" and "fst ` set entries \<subseteq> set order" and "\<forall>p \<in> fst ` set entries. 0 < p"
  shows "fst (oldestEntry entries order (0, t)) \<in> fst ` set entries"
  using assms(2)
proof (induction order arbitrary: t)
  case Nil
  with assms(1) show ?case by (cases entries) auto
next
  case (Cons p order)
  show ?case
  proof (cases "map_of entries p")
    case None
    then have "p \<notin> fst ` set entries" by (simp add: map_of_eq_None_iff)
    with Cons.prems have "fst ` set entries \<subseteq> set order" by auto
    with None show ?thesis by (simp add: Cons.IH)
  next
    case (Some e)
    then have p: "p \<in> fst ` set entries" by (force dest: map_of_SomeD)
    with assms(3) have "p \<noteq> 0" by force
    with Some oldestEntry_key [OF p] show ?thesis by simp
  qed
qed

lemma ensureCapacity_subset:
  "set (pc_entries (ensureCapacityLocked order now c)) \<subseteq> set (pc_entries c)"
  by (auto simp: ensureCapacityLocked_def Let_def case_prod_unfold AList.delete_eq)

lemma ensureCapacity_distinct:
  "distinct (map fst (pc_entries c)) \<Longrightarrow> distinct (map fst (pc_entries (ensureCapacityLocked order now c)))"
  by (simp add: ensureCapacityLocked_def Let_def case_prod_unfold distinct_delete distinct_map_filter)

lemma ensureCapacity_length:
  assumes "circuit_inv c" and "visits order c" and "es = pc_entries (ensureCapacityLocked order now c)"
  shows "int (length es) < pc_maxEntries (pc_settings c)"
proof -
  let ?es = "filter (\<lambda>(_, entry). \<not> disposable (pc_settings c) now entry) (pc_entries c)"
  obtain old where old: "old = fst (oldestEntry ?es order (0, 0))" by blast
  have es: "es = (if int (length (pc_entries c)) < pc_maxEntries (pc_settings c) then pc_entries c
      else if int (length ?es) < pc_maxEntries (pc_settings c) then ?es
      else if old > 0 then AList.delete old ?es else ?es)"
    by (simp add: assms(3) ensureCapacityLocked_def Let_def case_prod_unfold old)
  have distinct: "distinct (map fst ?es)"
    using assms(1) by (simp add: circuit_inv_def distinct_map_filter)
  have len: "int (length ?es) \<le> pc_maxEntries (pc_settings c)"
    using assms(1) length_filter_le [of "\<lambda>(_, entry). \<not> disposable (pc_settings c) now entry" "pc_entries c"]
    unfolding circuit_inv_def by linarith
  show "int (length es) < pc_maxEntries (pc_settings c)"
  proof (cases "int (length ?es) < pc_maxEntries (pc_settings c)")
    case False
    with len assms(1) have "int (length ?es) = pc_maxEntries (pc_settings c)" "?es \<noteq> []"
      by (auto simp: circuit_inv_def)
    moreover from this have mem: "old \<in> fst ` set ?es"
      unfolding old using assms(1,2) by (intro oldestEntry_found) (auto simp: circuit_inv_def visits_def)
    moreover from this have "old > 0"
      using assms(1) by (auto simp: circuit_inv_def)
    moreover note length_delete [OF distinct mem]
    ultimately have "int (length (AList.delete old ?es)) < pc_maxEntries (pc_settings c)"
      and "old > 0" by linarith+
    with False es show ?thesis by presburger
  qed (use es in presburger)
qed

lemma circuit_inv_update:
  assumes "circuit_inv c" and "0 < p"
    and "map_of (pc_entries c) p \<noteq> None \<or> int (length (pc_entries c)) < pc_maxEntries (pc_settings c)"
  shows "circuit_inv (c\<lparr>pc_entries := AList.update p e (pc_entries c)\<rparr>)"
  using assms
  by (auto simp: circuit_inv_def length_update distinct_update dom_update map_of_eq_None_iff
      split: if_splits)

lemma circuit_inv_delete:
  assumes "circuit_inv c"
  shows "circuit_inv (c\<lparr>pc_entries := AList.delete p (pc_entries c)\<rparr>)"
proof -
  have "set (AList.delete p (pc_entries c)) \<subseteq> set (pc_entries c)"
    by (auto simp: AList.delete_eq)
  with assms length_delete_le [of p "pc_entries c"] show ?thesis
    by (fastforce simp: circuit_inv_def distinct_delete)
qed

lemma ensureCapacity_inv:
  assumes "circuit_inv c" and "visits order c"
  shows "circuit_inv (ensureCapacityLocked order now c)"
  using ensureCapacity_length [OF assms refl, of now] ensureCapacity_subset [of order now c]
    ensureCapacity_distinct [of c order now] assms(1)
  by (auto simp: circuit_inv_def)

lemma circuit_step_inv:
  assumes "circuit_inv c" and "fairOp op c"
  shows "circuit_inv (circuit_step op c)"
proof (cases op)
  case (Failure order p now)
  let ?c = "ensureCapacityLocked order now c"
  from assms Failure have "visits order c" by simp
  note cap = ensureCapacity_inv [OF assms(1) this, of now]
    ensureCapacity_length [OF assms(1) this refl, of now]
  have new: "circuit_inv (?c\<lparr>pc_entries := AList.update p e (pc_entries ?c)\<rparr>)" if "0 < p" for e
    using cap that by (intro circuit_inv_update) simp_all
  show ?thesis
  proof (cases "map_of (pc_entries c) p")
    case None
    with Failure assms(1) new show ?thesis
      by (simp add: recordFailure_def Let_def)
  next
    case (Some e)
    with assms(1) have "circuit_inv (c\<lparr>pc_entries := AList.update p e' (pc_entries c)\<rparr>)" if "0 < p" for e'
      using that by (intro circuit_inv_update) simp_all
    with Some Failure assms(1) show ?thesis
      by (simp add: recordFailure_def Let_def)
  qed
next
  case (Success p)
  with assms(1) show ?thesis by (simp add: recordSuccess_def circuit_inv_delete)
next
  case (Query p now)
  with assms(1) show ?thesis by (simp add: isBlocked_def circuit_inv_delete split: option.split)
qed

fun fairRun :: "circuit_op list \<Rightarrow> openAIProxyStreamCircuit \<Rightarrow> bool" where
  "fairRun [] c = True"
| "fairRun (op # ops) c \<longleftrightarrow> fairOp op c \<and> fairRun ops (circuit_step op c)"

definition runCircuit :: "circuit_op list \<Rightarrow> openAIProxyStreamCircuit \<Rightarrow> openAIProxyStreamCircuit" where
  "runCircuit ops c = fold circuit_step ops c"

lemma runCircuit_simps [simp]:
  "runCircuit [] c = c"
  "runCircuit (op # ops) c = runCircuit ops (circuit_step op c)"
  by (simp_all add: runCircuit_def)

lemma runCircuit_settings [simp]: "pc_settings (runCircuit ops c) = pc_settings c"
  by (induction ops arbitrary: c) simp_all

lemma runCircuit_inv: "circuit_inv c \<Longrightarrow> fairRun ops c \<Longrightarrow> circuit_inv (runCircuit ops c)"
  by (induction ops arbitrary: c) (simp_all add: circuit_step_inv)

lemma newCircuit_inv: "circuit_inv (newOpenAIProxyStreamCircuit settings)"
  by (simp add: circuit_inv_def newOpenAIProxyStreamCircuit_def Let_def circuit_defaults)

section \<open>What an operation does to the entry of a proxy\<close>

text \<open>The outcome of a failure as a function of the proxy's own entry.\<close>

definition failedEntry ::
  "openAIProxyStreamCircuitSettings \<Rightarrow> openAIProxyStreamCircuitEntry option \<Rightarrow> time \<Rightarrow>
   (bool \<times> time) \<times> openAIProxyStreamCircuitEntry" where
  "failedEntry s found now =
     (let entry = (case found of None \<Rightarrow> zeroCircuitEntry | Some e \<Rightarrow> e)
      in if found \<noteq> None \<and> now < pe_blockedUntil entry
         then ((False, pe_blockedUntil entry), entry\<lparr>pe_lastTouched := now\<rparr>)
         else
           let entry = (if IsZero (pe_windowStart entry) \<or> now < pe_windowStart entry \<or>
                           now - pe_windowStart entry > pc_failureWindow s
                        then entry\<lparr>pe_failureCount := 0, pe_windowStart := now, pe_blockedUntil := 0\<rparr>
                        else entry)
           in if pc_collapseInterval s > 0 \<and> \<not> IsZero (pe_lastFailureAt entry) \<and>
                 now - pe_lastFailureAt entry \<ge> 0 \<and> now - pe_lastFailureAt entry < pc_collapseInterval s
              then ((False, 0), entry\<lparr>pe_lastTouched := now\<rparr>)
              else
                let entry = entry\<lparr>pe_failureCount := pe_failureCount entry + 1, pe_lastFailureAt := now,
                                  pe_lastTouched := now\<rparr>;
                    tripped = pe_failureCount entry \<ge> pc_failureThreshold s;
                    entry = (if tripped then entry\<lparr>pe_blockedUntil := now + pc_quarantineTTL s\<rparr> else entry)
                in ((tripped, pe_blockedUntil entry), entry))"

lemma recordFailure_failedEntry:
  assumes "\<not> pc_disabled (pc_settings c)" and "0 < p"
  shows "recordFailure order p now c =
    (let (res, e) = failedEntry (pc_settings c) (map_of (pc_entries c) p) now;
         c' = (if map_of (pc_entries c) p = None then ensureCapacityLocked order now c else c)
     in (res, c'\<lparr>pc_entries := AList.update p e (pc_entries c')\<rparr>))"
  using assms by (cases "map_of (pc_entries c) p")
    (simp_all add: recordFailure_def failedEntry_def Let_def)

lemma failure_own:
  assumes "\<not> pc_disabled (pc_settings c)" and "0 < p"
  shows "fst (recordFailure order p now c) = fst (failedEntry (pc_settings c) (map_of (pc_entries c) p) now)"
    and "map_of (pc_entries (snd (recordFailure order p now c))) p =
         Some (snd (failedEntry (pc_settings c) (map_of (pc_entries c) p) now))"
  by (simp_all add: recordFailure_failedEntry [OF assms] Let_def case_prod_unfold update_conv')

lemma ensureCapacity_lookup:
  assumes "distinct (map fst (pc_entries c))"
  shows "map_of (pc_entries (ensureCapacityLocked order now c)) q \<in> {None, map_of (pc_entries c) q}"
proof (cases "map_of (pc_entries (ensureCapacityLocked order now c)) q")
  case (Some e)
  then have "(q, e) \<in> set (pc_entries c)"
    using ensureCapacity_subset [of order now c] by (auto dest: map_of_SomeD)
  with Some assms show ?thesis by simp
qed simp

text \<open>No operation on another proxy changes the entry, except that it may evict it.\<close>

definition opProxy :: "circuit_op \<Rightarrow> int" where
  "opProxy op = (case op of Failure order p now \<Rightarrow> p | Success p \<Rightarrow> p | Query p now \<Rightarrow> p)"

lemma other_entry:
  assumes "distinct (map fst (pc_entries c))" and "opProxy op \<noteq> q"
  shows "map_of (pc_entries (circuit_step op c)) q \<in> {None, map_of (pc_entries c) q}"
proof (cases op)
  case (Failure order p now)
  with assms ensureCapacity_lookup [OF assms(1), of order now q] show ?thesis
    by (cases "pc_disabled (pc_settings c) \<or> p \<le> 0")
      (simp_all add: recordFailure_failedEntry recordFailure_def [of _ _ _ c] opProxy_def
        Let_def case_prod_unfold update_conv')
next
  case (Success p)
  with assms show ?thesis by (simp add: recordSuccess_def opProxy_def)
next
  case (Query p now)
  with assms show ?thesis by (simp add: isBlocked_def opProxy_def split: option.split)
qed

lemma step_distinct:
  assumes "distinct (map fst (pc_entries c))"
  shows "distinct (map fst (pc_entries (circuit_step op c)))"
proof (cases op)
  case (Failure order p now)
  have "distinct (map fst (pc_entries (ensureCapacityLocked order now c)))"
    using assms by (rule ensureCapacity_distinct)
  with Failure assms show ?thesis
    by (simp add: recordFailure_def Let_def distinct_update split: option.split)
next
  case (Success p)
  with assms show ?thesis by (simp add: recordSuccess_def distinct_delete)
next
  case (Query p now)
  with assms show ?thesis by (simp add: isBlocked_def distinct_delete split: option.split)
qed

text \<open>With no more proxies in use than the table holds nothing is evicted.\<close>

definition roomy :: "int set \<Rightarrow> openAIProxyStreamCircuit \<Rightarrow> bool" where
  "roomy K c \<longleftrightarrow> finite K \<and> distinct (map fst (pc_entries c)) \<and> fst ` set (pc_entries c) \<subseteq> K \<and>
     int (card K) \<le> pc_maxEntries (pc_settings c)"

lemma roomy_capacity:
  assumes "roomy K c" and "p \<in> K" and "map_of (pc_entries c) p = None"
  shows "ensureCapacityLocked order now c = c"
proof -
  from assms(3) have "p \<notin> fst ` set (pc_entries c)"
    by (simp add: map_of_eq_None_iff)
  with assms(1,2) have "fst ` set (pc_entries c) \<subset> K"
    by (auto simp: roomy_def)
  with assms(1) have "card (fst ` set (pc_entries c)) < card K"
    by (intro psubset_card_mono) (simp_all add: roomy_def)
  moreover have "card (fst ` set (pc_entries c)) = length (pc_entries c)"
    using assms(1) distinct_card [of "map fst (pc_entries c)"] by (simp add: roomy_def)
  ultimately show ?thesis
    using assms(1) by (simp add: roomy_def ensureCapacityLocked_def)
qed

lemma roomy_failure:
  assumes "roomy K c" and "p \<in> K"
  shows "pc_entries (snd (recordFailure order p now c)) =
    (if pc_disabled (pc_settings c) \<or> p \<le> 0 then pc_entries c
     else AList.update p (snd (failedEntry (pc_settings c) (map_of (pc_entries c) p) now)) (pc_entries c))"
proof (cases "pc_disabled (pc_settings c) \<or> p \<le> 0")
  case True
  then show ?thesis by (simp add: recordFailure_def)
next
  case False
  have "(if map_of (pc_entries c) p = None then ensureCapacityLocked order now c else c) = c"
    using roomy_capacity [OF assms] by simp
  with False show ?thesis
    by (simp add: recordFailure_failedEntry Let_def case_prod_unfold)
qed

lemma roomy_step:
  assumes "roomy K c" and "opProxy op \<in> K"
  shows "roomy K (circuit_step op c)"
    and "q \<noteq> opProxy op \<Longrightarrow> map_of (pc_entries (circuit_step op c)) q = map_of (pc_entries c) q"
proof -
  from assms(1) have distinct: "distinct (map fst (pc_entries (circuit_step op c)))"
    by (intro step_distinct) (simp add: roomy_def)
  have keys: "fst ` set (pc_entries (circuit_step op c)) \<subseteq> K \<and>
    (q \<noteq> opProxy op \<longrightarrow> map_of (pc_entries (circuit_step op c)) q = map_of (pc_entries c) q)"
  proof (cases op)
    case (Failure order p now)
    with assms(2) have "p \<in> K" by (simp add: opProxy_def)
    note roomy_failure [OF assms(1) this, of order now]
    with Failure assms(1) \<open>p \<in> K\<close> show ?thesis
      by (simp add: roomy_def dom_update update_conv' opProxy_def)
  next
    case (Success p)
    with assms show ?thesis
      using dom_delete_subset [of p "pc_entries c"] by (auto simp: recordSuccess_def opProxy_def roomy_def)
  next
    case (Query p now)
    with assms show ?thesis
      using dom_delete_subset [of p "pc_entries c"]
      by (auto simp: isBlocked_def opProxy_def roomy_def split: option.split)
  qed
  with distinct assms(1) show "roomy K (circuit_step op c)"
    by (simp add: roomy_def)
  show "q \<noteq> opProxy op \<Longrightarrow> map_of (pc_entries (circuit_step op c)) q = map_of (pc_entries c) q"
    using keys by simp
qed

section \<open>A burst is one failure\<close>

text \<open>The entry of a proxy that has seen one burst starting at \<open>t0\<close>.\<close>

definition burstEntry :: "time \<Rightarrow> duration \<Rightarrow> openAIProxyStreamCircuitEntry \<Rightarrow> bool" where
  "burstEntry t0 d e \<longleftrightarrow> pe_failureCount e \<le> 1 \<and> pe_blockedUntil e = 0 \<and> t0 \<le> pe_lastFailureAt e \<and>
     pe_lastFailureAt e < t0 + d \<and> pe_lastFailureAt e \<le> pe_windowStart e"

lemma burst_failure:
  assumes "0 < t0" and "t0 \<le> now" and "now < t0 + pc_collapseInterval s" and "2 \<le> pc_failureThreshold s"
    and "found = None \<or> (\<exists>e. found = Some e \<and> burstEntry t0 (pc_collapseInterval s) e)"
  shows "burstEntry t0 (pc_collapseInterval s) (snd (failedEntry s found now)) \<and> \<not> fst (fst (failedEntry s found now))"
proof (cases found)
  case None
  with assms(1-4) show ?thesis
    by (simp add: failedEntry_def burstEntry_def zeroCircuitEntry_def IsZero_def)
next
  case (Some e)
  with assms(5) have e: "burstEntry t0 (pc_collapseInterval s) e" by simp
  show ?thesis
  proof (cases "now < pe_windowStart e \<or> now - pe_windowStart e > pc_failureWindow s")
    case True
    with Some e assms(1-4) show ?thesis
      by (cases "pe_lastFailureAt e \<le> now") (simp_all add: failedEntry_def burstEntry_def IsZero_def)
  next
    case False
    with Some e assms(1-4) show ?thesis
      by (simp add: failedEntry_def burstEntry_def IsZero_def)
  qed
qed

definition burstTable :: "int \<Rightarrow> time \<Rightarrow> openAIProxyStreamCircuit \<Rightarrow> bool" where
  "burstTable p t0 c \<longleftrightarrow> distinct (map fst (pc_entries c)) \<and>
     (\<forall>e. map_of (pc_entries c) p = Some e \<longrightarrow> burstEntry t0 (pc_collapseInterval (pc_settings c)) e)"

text \<open>The failures of the proxy \<open>p\<close> in a run all lie in one collapse interval.\<close>

definition burstOps :: "int \<Rightarrow> time \<Rightarrow> duration \<Rightarrow> circuit_op list \<Rightarrow> bool" where
  "burstOps p t0 d ops \<longleftrightarrow>
     list_all (\<lambda>op. case op of Failure order q now \<Rightarrow> q = p \<longrightarrow> t0 \<le> now \<and> now < t0 + d | _ \<Rightarrow> True) ops"

lemma burst_step:
  assumes "burstTable p t0 c" and "0 < t0" and "2 \<le> pc_failureThreshold (pc_settings c)"
    and "burstOps p t0 (pc_collapseInterval (pc_settings c)) [op]"
  shows "burstTable p t0 (circuit_step op c)"
proof (cases "opProxy op = p")
  case False
  with assms(1) other_entry [of c op p] step_distinct [of c op] show ?thesis
    by (auto simp: burstTable_def)
next
  case True
  have "burstEntry t0 (pc_collapseInterval (pc_settings c)) e"
    if e: "map_of (pc_entries (circuit_step op c)) p = Some e" for e
  proof (cases op)
    case (Failure order q now)
    show ?thesis
    proof (cases "pc_disabled (pc_settings c) \<or> p \<le> 0")
      case True
      with e Failure \<open>opProxy op = p\<close> assms(1) show ?thesis
        by (simp add: recordFailure_def opProxy_def burstTable_def)
    next
      case False
      then have *: "\<not> pc_disabled (pc_settings c)" "0 < p" by simp_all
      have "e = snd (failedEntry (pc_settings c) (map_of (pc_entries c) p) now)"
        using e Failure True failure_own(2) [OF *, of order now] by (simp add: opProxy_def)
      with Failure True assms burst_failure [of t0 now "pc_settings c" "map_of (pc_entries c) p"] show ?thesis
        by (cases "map_of (pc_entries c) p") (simp_all add: burstTable_def burstOps_def opProxy_def)
    qed
  next
    case (Success q)
    with True e assms(1) show ?thesis
      by (auto simp: recordSuccess_def opProxy_def burstTable_def delete_conv' split: if_splits)
  next
    case (Query q now)
    with True e assms(1) show ?thesis
      by (auto simp: isBlocked_def opProxy_def burstTable_def delete_conv' split: if_splits option.splits)
  qed
  with assms(1) step_distinct [of c op] show ?thesis
    by (simp add: burstTable_def)
qed

lemma burst_run:
  assumes "burstTable p t0 c" and "0 < t0" and "2 \<le> pc_failureThreshold (pc_settings c)"
    and "burstOps p t0 (pc_collapseInterval (pc_settings c)) ops"
  shows "burstTable p t0 (runCircuit ops c)"
  using assms
proof (induction ops arbitrary: c)
  case (Cons op ops)
  then have "burstTable p t0 (circuit_step op c)"
    by (intro burst_step) (simp_all add: burstOps_def)
  with Cons show ?case by (simp add: burstOps_def)
qed simp

section \<open>A quarantine\<close>

definition quarantined :: "int \<Rightarrow> time \<Rightarrow> openAIProxyStreamCircuit \<Rightarrow> bool" where
  "quarantined p until c \<longleftrightarrow> (\<exists>e. map_of (pc_entries c) p = Some e \<and> pe_blockedUntil e = until)"

fun opBefore :: "time \<Rightarrow> circuit_op \<Rightarrow> bool" where
  "opBefore until (Failure order p now) \<longleftrightarrow> now < until"
| "opBefore until (Query p now) \<longleftrightarrow> now < until"
| "opBefore until (Success p) \<longleftrightarrow> True"

lemma quarantined_step:
  assumes "roomy K c" and "opProxy op \<in> K" and "quarantined p until c" and "op \<noteq> Success p" and "opBefore until op"
  shows "quarantined p until (circuit_step op c)"
proof (cases "opProxy op = p")
  case False
  with roomy_step(2) [OF assms(1,2), of p] assms(3) show ?thesis
    by (simp add: quarantined_def)
next
  case True
  from assms(3) obtain e where e: "map_of (pc_entries c) p = Some e" "pe_blockedUntil e = until"
    by (auto simp: quarantined_def)
  show ?thesis
  proof (cases op)
    case (Failure order q now)
    with True e assms(5) show ?thesis
      by (cases "pc_disabled (pc_settings c) \<or> p \<le> 0")
        (simp_all add: quarantined_def recordFailure_def opProxy_def update_conv')
  next
    case (Success q)
    with True assms(4) show ?thesis by (simp add: opProxy_def)
  next
    case (Query q now)
    with True e assms(5) show ?thesis by (simp add: quarantined_def isBlocked_def opProxy_def)
  qed
qed

lemma quarantined_run:
  assumes "roomy K c" and "opProxy ` set ops \<subseteq> K" and "quarantined p until c"
    and "Success p \<notin> set ops" and "\<forall>op \<in> set ops. opBefore until op"
  shows "quarantined p until (runCircuit ops c)"
  using assms
proof (induction ops arbitrary: c)
  case (Cons op ops)
  then have "roomy K (circuit_step op c)" and "quarantined p until (circuit_step op c)"
    using roomy_step(1) quarantined_step by (simp, metis insert_subset image_insert list.simps(15) list.set_intros(1))
  with Cons show ?case by simp
qed simp

lemma quarantined_blocked:
  assumes "quarantined p until c" and "until \<noteq> 0" and "\<not> pc_disabled (pc_settings c)" and "0 < p"
  shows "fst (isBlocked p t c) \<longleftrightarrow> t < until"
  using assms by (auto simp: quarantined_def isBlocked_def IsZero_def split: if_splits)

lemma tripped_entry:
  assumes "fst (fst (failedEntry s found now))"
  shows "snd (fst (failedEntry s found now)) = now + pc_quarantineTTL s \<and>
    pe_blockedUntil (snd (failedEntry s found now)) = now + pc_quarantineTTL s"
proof -
  let ?e = "case found of None \<Rightarrow> zeroCircuitEntry | Some e \<Rightarrow> e"
  obtain e where e: "e = (if IsZero (pe_windowStart ?e) \<or> now < pe_windowStart ?e \<or>
      now - pe_windowStart ?e > pc_failureWindow s
    then ?e\<lparr>pe_failureCount := 0, pe_windowStart := now, pe_blockedUntil := 0\<rparr> else ?e)" by blast
  show ?thesis
  proof (cases "found \<noteq> None \<and> now < pe_blockedUntil ?e")
    case True
    with assms show ?thesis by (simp add: failedEntry_def Let_def)
  next
    case open': False
    show ?thesis
    proof (cases "pc_collapseInterval s > 0 \<and> \<not> IsZero (pe_lastFailureAt e) \<and>
        now - pe_lastFailureAt e \<ge> 0 \<and> now - pe_lastFailureAt e < pc_collapseInterval s")
      case True
      with open' assms show ?thesis
        unfolding failedEntry_def Let_def e [symmetric] by (simp only: simp_thms if_True if_False fst_conv)
    next
      case False
      with open' assms show ?thesis
        unfolding failedEntry_def Let_def e [symmetric] by (simp only: simp_thms if_True if_False fst_conv snd_conv) (simp split: if_splits)
    qed
  qed
qed

lemma tripped_quarantined:
  assumes "recordFailure order p now c = ((True, until), c')"
  shows "until = now + pc_quarantineTTL (pc_settings c)" and "quarantined p until c'"
    and "pc_settings c' = pc_settings c" and "0 < p" and "\<not> pc_disabled (pc_settings c)"
proof -
  show on: "\<not> pc_disabled (pc_settings c)" "0 < p"
    using assms by (auto simp: recordFailure_def split: if_splits)
  note own = failure_own [OF on, of order now]
  from assms own(1) have trip: "failedEntry (pc_settings c) (map_of (pc_entries c) p) now =
      ((True, until), snd (failedEntry (pc_settings c) (map_of (pc_entries c) p) now))"
    by (metis fst_conv prod.collapse)
  with tripped_entry [of "pc_settings c" "map_of (pc_entries c) p" now]
  show until: "until = now + pc_quarantineTTL (pc_settings c)"
    by (metis fst_conv snd_conv)
  show "quarantined p until c'"
    using own(2) assms trip tripped_entry [of "pc_settings c" "map_of (pc_entries c) p" now] until
    by (simp add: quarantined_def) (metis fst_conv snd_conv)
  show "pc_settings c' = pc_settings c"
    using step_settings [of "Failure order p now" c] assms by simp
qed

section \<open>Reaching the threshold\<close>

fun failAll :: "int list \<Rightarrow> int \<Rightarrow> time list \<Rightarrow> openAIProxyStreamCircuit \<Rightarrow> bool list \<times> openAIProxyStreamCircuit" where
  "failAll order p [] c = ([], c)"
| "failAll order p (t # ts) c =
     (let ((tripped, _), c) = recordFailure order p t c; (flags, c) = failAll order p ts c in (tripped # flags, c))"

text \<open>An entry with \<open>k\<close> counted failures, the first at \<open>t0\<close> and the last at \<open>l\<close>.\<close>

definition countedEntry :: "nat \<Rightarrow> time \<Rightarrow> time \<Rightarrow> openAIProxyStreamCircuitEntry \<Rightarrow> bool" where
  "countedEntry k t0 l e \<longleftrightarrow> pe_failureCount e = int k \<and> pe_windowStart e = t0 \<and> pe_lastFailureAt e = l \<and>
     pe_blockedUntil e = 0"

lemma counted_first:
  assumes "0 < now" and "2 \<le> pc_failureThreshold s"
  shows "\<not> fst (fst (failedEntry s None now)) \<and> countedEntry 1 now now (snd (failedEntry s None now))"
  using assms by (simp add: failedEntry_def zeroCircuitEntry_def countedEntry_def IsZero_def)

lemma counted_next:
  assumes "countedEntry k t0 l e" and "0 < t0" and "t0 \<le> now" and "now \<le> t0 + pc_failureWindow s"
    and "l + pc_collapseInterval s \<le> now"
  shows "fst (fst (failedEntry s (Some e) now)) \<longleftrightarrow> pc_failureThreshold s \<le> int k + 1"
    and "int k + 1 < pc_failureThreshold s \<Longrightarrow> countedEntry (Suc k) t0 now (snd (failedEntry s (Some e) now))"
  using assms by (simp_all add: failedEntry_def countedEntry_def IsZero_def Let_def)

lemma failAll_counted:
  assumes "map_of (pc_entries c) p = Some e" and "countedEntry k t0 l e" and "0 < t0" and "t0 \<le> l"
    and "successively (\<lambda>a b. a + pc_collapseInterval (pc_settings c) \<le> b) (l # ts)"
    and "0 \<le> pc_collapseInterval (pc_settings c)"
    and "\<forall>t \<in> set ts. t \<le> t0 + pc_failureWindow (pc_settings c)"
    and "int k + int (length ts) = pc_failureThreshold (pc_settings c)" and "ts \<noteq> []"
    and "\<not> pc_disabled (pc_settings c)" and "0 < p"
  shows "fst (failAll order p ts c) = replicate (length ts - 1) False @ [True]"
  using assms
proof (induction ts arbitrary: c e k l)
  case (Cons t ts)
  note on = Cons.prems(10,11)
  let ?c = "snd (recordFailure order p t c)" and ?f = "failedEntry (pc_settings c) (Some e) t"
  have t: "l + pc_collapseInterval (pc_settings c) \<le> t"
    using Cons.prems(5) by simp
  have set: "pc_settings ?c = pc_settings c"
    using step_settings [of "Failure order p t" c] by simp
  have next': "fst (fst ?f) \<longleftrightarrow> pc_failureThreshold (pc_settings c) \<le> int k + 1"
    "int k + 1 < pc_failureThreshold (pc_settings c) \<Longrightarrow> countedEntry (Suc k) t0 t (snd ?f)"
    using counted_next [OF Cons.prems(2,3), of t "pc_settings c"] Cons.prems(4,6,7) t by simp_all
  note own = failure_own [OF on, of order t, unfolded Cons.prems(1)]
  show ?case
  proof (cases "ts = []")
    case True
    with Cons.prems(8) own(1) next'(1) show ?thesis
      by (simp add: Let_def case_prod_unfold)
  next
    case False
    then have len: "0 < length ts" by simp
    with Cons.prems(8) have less: "int k + 1 < pc_failureThreshold (pc_settings c)" by (simp only: length_Cons)
    have "fst (failAll order p ts ?c) = replicate (length ts - 1) False @ [True]"
      using False own(2) next'(2) [OF less] Cons.prems t set
      by (intro Cons.IH [of ?c "snd ?f" "Suc k" t]) (simp_all add: successively_Cons)
    with own(1) next'(1) less len show ?thesis
      by (cases ts) (simp_all add: Let_def case_prod_unfold)
  qed
qed simp

text \<open>
  C28: Whatever requests fail, succeed and are tested, and in whatever order the loops visit the map,
  the circuit never holds more entries than its capacity (the configured one, or 4096 when it is not
  positive), at most one for each proxy and none for an invalid proxy id.  Every loop over the map
  visits all its keys.
\<close>

theorem circuit_bounded:
  assumes "fairRun ops (newOpenAIProxyStreamCircuit settings)"
    and "c = runCircuit ops (newOpenAIProxyStreamCircuit settings)"
  shows "int (length (pc_entries c)) \<le> (if 0 < pc_maxEntries settings then pc_maxEntries settings else 4096) \<and>
    distinct (map fst (pc_entries c)) \<and> (\<forall>p \<in> fst ` set (pc_entries c). 0 < p)"
proof -
  have "pc_maxEntries (pc_settings c) = (if 0 < pc_maxEntries settings then pc_maxEntries settings else 4096)"
    by (simp add: assms(2) newOpenAIProxyStreamCircuit_def Let_def circuit_defaults)
  with runCircuit_inv [OF newCircuit_inv assms(1)] assms(2) show ?thesis
    by (simp add: circuit_inv_def)
qed

definition tinyCircuit :: openAIProxyStreamCircuitSettings where
  "tinyCircuit = (resolveOpenAIProxyStreamCircuitSettings None)\<lparr>pc_maxEntries := 1\<rparr>"

theorem circuit_bounded_witness:
  "int (length (pc_entries (runCircuit [Failure [] 7 Second, Failure [7] 8 (2 * Second)]
      (newOpenAIProxyStreamCircuit tinyCircuit)))) \<le> 1"
proof -
  have "fairRun [Failure [] 7 Second, Failure [7] 8 (2 * Second)] (newOpenAIProxyStreamCircuit tinyCircuit)"
    by code_simp
  from circuit_bounded [OF this refl] show ?thesis
    by (simp add: tinyCircuit_def)
qed

text \<open>
  C23: A burst of disconnects is one failure.  For a proxy that has no entry yet and a threshold of at
  least two: if all failures of the proxy fall within one collapse interval, in any order and among
  any other operations, then the proxy is not blocked afterwards, whenever it is asked, and at most
  one failure is on its record.
\<close>

theorem burst_counts_once:
  assumes "distinct (map fst (pc_entries c))" and "map_of (pc_entries c) p = None"
    and "0 < t0" and "2 \<le> pc_failureThreshold (pc_settings c)"
    and "burstOps p t0 (pc_collapseInterval (pc_settings c)) ops"
  shows "\<not> fst (isBlocked p t (runCircuit ops c)) \<and>
    (\<forall>e. map_of (pc_entries (runCircuit ops c)) p = Some e \<longrightarrow> pe_failureCount e \<le> 1)"
proof -
  from assms(1,2) have "burstTable p t0 c" by (simp add: burstTable_def)
  from burst_run [OF this assms(3-5)] show ?thesis
    by (auto simp: burstTable_def burstEntry_def isBlocked_def IsZero_def split: option.split)
qed

definition freshCircuit :: openAIProxyStreamCircuit where
  "freshCircuit = newOpenAIProxyStreamCircuit (resolveOpenAIProxyStreamCircuitSettings None)"

theorem burst_counts_once_witness:
  "\<not> fst (isBlocked 7 (3 * Second) (runCircuit [Failure [] 7 (2 * Second), Failure [] 7 Second,
      Failure [] 7 (3 * Second)] freshCircuit))"
  using burst_counts_once [of freshCircuit 7 Second
      "[Failure [] 7 (2 * Second), Failure [] 7 Second, Failure [] 7 (3 * Second)]" "3 * Second"]
  by (simp add: freshCircuit_def newOpenAIProxyStreamCircuit_def resolveOpenAIProxyStreamCircuitSettings_def
      Let_def circuit_defaults burstOps_def time_units)

text \<open>
  C22: A quarantine lasts exactly its time.  After the failure that trips the circuit, the proxy's
  accounts are excluded at every time before \<open>now + quarantineTTL\<close> and at none after it, whatever
  operations on whatever proxies happen before that time, provided that no success of the proxy is
  recorded and that no more proxies are in use than the table holds.
\<close>

theorem quarantine_lasts:
  assumes "recordFailure order p now c = ((True, until), c')" and "0 < now" and "0 < pc_quarantineTTL (pc_settings c)"
    and "roomy K c'" and "opProxy ` set ops \<subseteq> K" and "Success p \<notin> set ops"
    and "\<forall>op \<in> set ops. opBefore until op"
  shows "until = now + pc_quarantineTTL (pc_settings c) \<and>
    (fst (isOpenAIProxyStreamQuarantined False (Some \<lparr>ca_Platform = PlatformOpenAI, ca_ProxyID = Some p\<rparr>) t
        (runCircuit ops c')) \<longleftrightarrow> t < until)"
proof -
  note trip = tripped_quarantined [OF assms(1)]
  from quarantined_run [OF assms(4,5) trip(2) assms(6,7)]
  have "fst (isBlocked p t (runCircuit ops c')) \<longleftrightarrow> t < until"
    using trip assms(2,3) by (intro quarantined_blocked) simp_all
  with trip(1,4) show ?thesis
    by (simp add: isOpenAIProxyStreamQuarantined_def openAIProxyStreamCircuitProxyID_def)
qed

definition failedOnce :: openAIProxyStreamCircuit where
  "failedOnce = snd (recordFailure [] 7 Second freshCircuit)"
definition failedTwice :: openAIProxyStreamCircuit where
  "failedTwice = snd (recordFailure [] 7 (10 * Second) failedOnce)"

theorem quarantine_lasts_witness:
  "fst (isOpenAIProxyStreamQuarantined False (Some \<lparr>ca_Platform = PlatformOpenAI, ca_ProxyID = Some 7\<rparr>)
      (609 * Second) (runCircuit [Failure [] 7 (20 * Second), Failure [] 8 (30 * Second), Success 8] failedTwice))"
proof -
  have "recordFailure [] 7 (10 * Second) failedOnce = ((True, 610 * Second), failedTwice)"
    by (simp add: failedTwice_def prod_eq_iff) code_simp
  note lasts = quarantine_lasts [OF this, of "{7, 8}" "[Failure [] 7 (20 * Second), Failure [] 8 (30 * Second), Success 8]"
      "609 * Second"]
  have "0 < pc_quarantineTTL (pc_settings failedOnce)" by code_simp
  moreover have "distinct (map fst (pc_entries failedTwice)) \<and> map fst (pc_entries failedTwice) = [7] \<and>
      2 \<le> pc_maxEntries (pc_settings failedTwice)"
    by code_simp
  then have "roomy {7, 8} failedTwice"
    unfolding roomy_def by (simp flip: set_map)
  ultimately show ?thesis
    using lasts by (simp add: time_units opProxy_def)
qed

text \<open>
  C27: The circuit trips exactly at the threshold.  As many failures as the threshold, each a collapse
  interval or more after the one before and all within the window of the first, trip the circuit with
  the last one and not with an earlier one.
\<close>

theorem trips_at_threshold:
  assumes "map_of (pc_entries c) p = None" and "\<not> pc_disabled (pc_settings c)" and "0 < p" and "0 < t0"
    and "2 \<le> pc_failureThreshold (pc_settings c)" and "0 \<le> pc_collapseInterval (pc_settings c)"
    and "successively (\<lambda>a b. a + pc_collapseInterval (pc_settings c) \<le> b) (t0 # ts)"
    and "\<forall>t \<in> set ts. t \<le> t0 + pc_failureWindow (pc_settings c)"
    and "1 + int (length ts) = pc_failureThreshold (pc_settings c)"
  shows "fst (failAll order p (t0 # ts) c) = replicate (length ts) False @ [True]"
proof -
  let ?c = "snd (recordFailure order p t0 c)"
  note own = failure_own [OF assms(2,3), of order t0, unfolded assms(1)]
  note first = counted_first [OF assms(4,5)]
  have set: "pc_settings ?c = pc_settings c"
    using step_settings [of "Failure order p t0" c] by simp
  from assms(5,9) have ts: "ts \<noteq> []" by auto
  have "fst (failAll order p ts ?c) = replicate (length ts - 1) False @ [True]"
    using own(2) first assms set ts
    by (intro failAll_counted [of ?c p "snd (failedEntry (pc_settings c) None t0)" 1 t0 t0]) simp_all
  with own(1) first ts show ?thesis
    by (cases ts) (simp_all add: Let_def case_prod_unfold)
qed

theorem trips_at_threshold_witness:
  "fst (failAll [] 7 [Second, 61 * Second] freshCircuit) = [False, True]"
  using trips_at_threshold [of freshCircuit 7 Second "[61 * Second]" "[]"]
  by (simp add: freshCircuit_def newOpenAIProxyStreamCircuit_def resolveOpenAIProxyStreamCircuitSettings_def
      Let_def circuit_defaults time_units del: failAll.simps)

lemma counted_early:
  assumes "countedEntry k t0 l e" and "0 < t0" and "t0 \<le> now" and "now \<le> t0 + pc_failureWindow s" and "now < l"
  shows "fst (fst (failedEntry s (Some e) now)) \<longleftrightarrow> pc_failureThreshold s \<le> int k + 1"
  using assms by (simp add: failedEntry_def countedEntry_def IsZero_def Let_def)

lemma counted_collapsed:
  assumes "countedEntry k t0 l e" and "0 < t0" and "t0 \<le> l" and "now \<le> t0 + pc_failureWindow s"
    and "l \<le> now" and "now < l + pc_collapseInterval s"
  shows "\<not> fst (fst (failedEntry s (Some e) now))"
  using assms by (simp add: failedEntry_def countedEntry_def IsZero_def Let_def)

lemma failAll_three:
  assumes "map_of (pc_entries c) p = None" and "\<not> pc_disabled (pc_settings c)" and "0 < p" and "0 < t1"
    and "3 \<le> pc_failureThreshold (pc_settings c)" and "t1 + pc_collapseInterval (pc_settings c) \<le> t2"
    and "t2 \<le> t1 + pc_failureWindow (pc_settings c)" and "t1 \<le> t2"
  obtains e where "countedEntry 2 t1 t2 e"
    and "fst (failAll order p [t1, t2, t3] c) = [False, False, fst (fst (failedEntry (pc_settings c) (Some e) t3))]"
proof -
  let ?s = "pc_settings c" and ?c1 = "snd (recordFailure order p t1 c)"
  let ?c2 = "snd (recordFailure order p t2 ?c1)"
  let ?e1 = "snd (failedEntry ?s None t1)"
  let ?e2 = "snd (failedEntry ?s (Some ?e1) t2)"
  have set: "pc_settings ?c1 = ?s" "pc_settings ?c2 = ?s"
    using step_settings [of "Failure order p t1" c] step_settings [of "Failure order p t2" ?c1] by simp_all
  note own1 = failure_own [OF assms(2,3), of order t1, unfolded assms(1)]
  have on1: "\<not> pc_disabled (pc_settings ?c1)" using assms(2) set by simp
  note own2 = failure_own [OF on1 assms(3), of order t2, unfolded own1(2) set]
  have on2: "\<not> pc_disabled (pc_settings ?c2)" using assms(2) set by simp
  note own3 = failure_own [OF on2 assms(3), of order t3, unfolded own2(2) set]
  have first: "\<not> fst (fst (failedEntry ?s None t1))" "countedEntry 1 t1 t1 ?e1"
    using counted_first [of t1 ?s] assms by simp_all
  have second: "\<not> fst (fst (failedEntry ?s (Some ?e1) t2))" "countedEntry 2 t1 t2 ?e2"
    using counted_next [OF first(2) assms(4), of t2 ?s] assms by (simp_all add: numeral_2_eq_2)
  have "fst (failAll order p [t1, t2, t3] c) = [False, False, fst (fst (failedEntry ?s (Some ?e2) t3))]"
    using own1(1) own2(1) own3(1) first(1) second(1) by (simp add: Let_def case_prod_unfold)
  with that second(2) show thesis by blast
qed

text \<open>
  The collapse of a burst depends on the order in which its failures take the lock.  The time of
  a failure is read before the lock is taken.  With the threshold at three, a first incident at
  \<open>t1\<close> and two disconnects of one second incident at \<open>t2\<close> and \<open>t3\<close>, less than the collapse
  interval apart, do not trip the circuit when they are recorded in the order of their times, but
  they do when the later one takes the lock first.
\<close>

lemma burst_order_matters:
  assumes "map_of (pc_entries c) p = None" and "\<not> pc_disabled (pc_settings c)" and "0 < p" and "0 < t1"
    and "pc_failureThreshold (pc_settings c) = 3" and "0 < pc_collapseInterval (pc_settings c)"
    and "t1 + pc_collapseInterval (pc_settings c) \<le> t2" and "t2 < t3"
    and "t3 < t2 + pc_collapseInterval (pc_settings c)" and "t3 \<le> t1 + pc_failureWindow (pc_settings c)"
  shows "fst (failAll order p [t1, t2, t3] c) = [False, False, False] \<and>
    fst (failAll order p [t1, t3, t2] c) = [False, False, True]"
proof
  obtain e where "countedEntry 2 t1 t2 e"
    and "fst (failAll order p [t1, t2, t3] c) = [False, False, fst (fst (failedEntry (pc_settings c) (Some e) t3))]"
    using assms by (rule_tac failAll_three [of c p t1 t2 order t3]) simp_all
  with assms counted_collapsed [of 2 t1 t2 e t3 "pc_settings c"]
  show "fst (failAll order p [t1, t2, t3] c) = [False, False, False]"
    by simp
next
  obtain e where "countedEntry 2 t1 t3 e"
    and "fst (failAll order p [t1, t3, t2] c) = [False, False, fst (fst (failedEntry (pc_settings c) (Some e) t2))]"
    using assms by (rule_tac failAll_three [of c p t1 t3 order t2]) simp_all
  with assms counted_early [of 2 t1 t3 e t2 "pc_settings c"]
  show "fst (failAll order p [t1, t3, t2] c) = [False, False, True]"
    by simp
qed

lemma burst_order_matters_witness:
  "fst (failAll [] 7 [Second, 10 * Second, 11 * Second]
      (freshCircuit\<lparr>pc_settings := (pc_settings freshCircuit)\<lparr>pc_failureThreshold := 3\<rparr>\<rparr>)) = [False, False, False] \<and>
   fst (failAll [] 7 [Second, 11 * Second, 10 * Second]
      (freshCircuit\<lparr>pc_settings := (pc_settings freshCircuit)\<lparr>pc_failureThreshold := 3\<rparr>\<rparr>)) = [False, False, True]"
  by (rule burst_order_matters)
    (simp_all add: freshCircuit_def newOpenAIProxyStreamCircuit_def resolveOpenAIProxyStreamCircuitSettings_def
      Let_def circuit_defaults time_units)

end
