(* ===== verification/Keyword_Matcher.thy ===== *)
theory Keyword_Matcher
  imports Gateway_Prelude "HOL-Library.Monad_Syntax"
begin

text \<open>
  \<open>service/content_moderation_keyword_matcher.go\<close>: the Aho-Corasick automaton that looks for blocked
  keywords in a request.  \<open>strings.ToLower\<close> is the argument \<open>lower\<close>; all that is used of it is that
  the lower case of a non-empty text is not empty.  Indices are unbounded, which is exact as long as
  the keywords have fewer than 2^31 bytes together (the code keeps them in 32 bits).

  The loops over \<open>nextSibling\<close> are loops over the list \<open>siblings\<close>.  The loops along failure links
  and over the queue are partial functions whose value is \<open>None\<close> when they do not return.

  Lemmas: the words of the states (a trie), the invariant of the breadth-first search, the layout of
  the compacted edges with its binary search, and the matcher against substring search.
\<close>

section \<open>Data\<close>

record contentModerationKeywordNode =
  kn_failure :: int
  kn_bestKeyword :: int
  kn_edgeStart :: nat
  kn_edgeCount :: nat

record contentModerationKeywordEdge =
  ke_target :: int
  ke_label :: char

record contentModerationKeywordBuildEdge =
  be_target :: int
  be_nextSibling :: int
  be_label :: char

record contentModerationKeywordMatcher =
  km_nodes :: "contentModerationKeywordNode list"
  km_edges :: "contentModerationKeywordEdge list"
  km_rootTransitions :: "char \<Rightarrow> int"
  km_keywords :: "string list"

definition newContentModerationKeywordNode :: contentModerationKeywordNode where
  "newContentModerationKeywordNode = \<lparr>kn_failure = 0, kn_bestKeyword = -1, kn_edgeStart = 0, kn_edgeCount = 0\<rparr>"

definition contentModerationKeywordBuildFirstEdge :: "contentModerationKeywordNode \<Rightarrow> int" where
  "contentModerationKeywordBuildFirstEdge node =
     (if kn_edgeStart node = 0 then -1 else int (kn_edgeStart node) - 1)"

definition minKeywordIndex :: "int \<Rightarrow> int \<Rightarrow> int" where
  "minKeywordIndex left right =
     (if left < 0 then right else if right < 0 \<or> left < right then left else right)"

section \<open>Construction\<close>

text \<open>
  The edges a loop \<open>for edgeIndex := first; edgeIndex >= 0; edgeIndex = edges[edgeIndex].nextSibling\<close>
  visits.  The chain always leads to smaller indices (\<open>chained\<close> below), so the last test never fails.
\<close>

function siblings :: "contentModerationKeywordBuildEdge list \<Rightarrow> int \<Rightarrow> contentModerationKeywordBuildEdge list" where
  "siblings edges e =
     (if e < 0 \<or> int (length edges) \<le> e then []
      else edges ! nat e #
        (if be_nextSibling (edges ! nat e) < e then siblings edges (be_nextSibling (edges ! nat e)) else []))"
  by pat_completeness auto
termination
  by (relation "measure (\<lambda>(_, e). nat (e + 1))") auto

declare siblings.simps [simp del]

definition contentModerationKeywordBuildTransition ::
  "contentModerationKeywordNode list \<Rightarrow> contentModerationKeywordBuildEdge list \<Rightarrow> int \<Rightarrow> char \<Rightarrow> int" where
  "contentModerationKeywordBuildTransition nodes edges state label =
     (if state < 0 \<or> int (length nodes) \<le> state then -1
      else case find (\<lambda>edge. be_label edge = label)
                  (siblings edges (contentModerationKeywordBuildFirstEdge (nodes ! nat state))) of
             None \<Rightarrow> -1
           | Some edge \<Rightarrow> be_target edge)"

type_synonym build_state = "contentModerationKeywordNode list \<times> contentModerationKeywordBuildEdge list"

definition insertLabel :: "char \<Rightarrow> build_state \<times> int \<Rightarrow> build_state \<times> int" where
  "insertLabel label = (\<lambda>((nodes, edges), state).
     let next = contentModerationKeywordBuildTransition nodes edges state label
     in if next < 0 then
          let next = int (length nodes);
              nodes = nodes @ [newContentModerationKeywordNode];
              edges = edges @ [\<lparr>be_target = next,
                be_nextSibling = contentModerationKeywordBuildFirstEdge (nodes ! nat state), be_label = label\<rparr>];
              nodes = nodes[nat state := (nodes ! nat state)\<lparr>kn_edgeStart := length edges\<rparr>]
          in ((nodes, edges), next)
        else ((nodes, edges), next))"

definition insertKeyword :: "(string \<Rightarrow> string) \<Rightarrow> nat \<times> string \<Rightarrow> build_state \<Rightarrow> build_state" where
  "insertKeyword lower = (\<lambda>(keywordIndex, keyword) (nodes, edges).
     if keyword = [] then (nodes, edges)
     else
       let ((nodes, edges), state) = fold insertLabel (lower keyword) ((nodes, edges), 0);
           current = kn_bestKeyword (nodes ! nat state)
       in if current < 0 \<or> int keywordIndex < current
          then (nodes[nat state := (nodes ! nat state)\<lparr>kn_bestKeyword := int keywordIndex\<rparr>], edges)
          else (nodes, edges))"

definition buildTrie :: "(string \<Rightarrow> string) \<Rightarrow> string list \<Rightarrow> build_state" where
  "buildTrie lower keywords =
     fold (insertKeyword lower) (List.enumerate 0 keywords) ([newContentModerationKeywordNode], [])"

text \<open>The failure link of a new state: the search along the failure links of its parent.\<close>

partial_function (option) buildFallback ::
  "contentModerationKeywordNode list \<Rightarrow> contentModerationKeywordBuildEdge list \<Rightarrow> char \<Rightarrow> int \<Rightarrow> int \<Rightarrow> int option" where
  "buildFallback nodes edges label failure fallback =
     (if fallback < 0 \<and> failure \<noteq> 0 then
        let failure = kn_failure (nodes ! nat failure)
        in buildFallback nodes edges label failure
             (contentModerationKeywordBuildTransition nodes edges failure label)
      else Some fallback)"

definition finishEdge ::
  "contentModerationKeywordBuildEdge list \<Rightarrow> int \<Rightarrow> contentModerationKeywordBuildEdge \<Rightarrow>
   contentModerationKeywordNode list \<Rightarrow> contentModerationKeywordNode list option" where
  "finishEdge edges state edge nodes =
     (let failure = kn_failure (nodes ! nat state); target = nat (be_target edge)
      in do {
        fallback \<leftarrow> buildFallback nodes edges (be_label edge) failure
          (contentModerationKeywordBuildTransition nodes edges failure (be_label edge));
        let nodes = (if fallback \<ge> 0 then nodes[target := (nodes ! target)\<lparr>kn_failure := fallback\<rparr>] else nodes);
        Some (nodes[target := (nodes ! target)\<lparr>kn_bestKeyword :=
          minKeywordIndex (kn_bestKeyword (nodes ! target))
            (kn_bestKeyword (nodes ! nat (kn_failure (nodes ! target))))\<rparr>])
      })"

fun finishEdges ::
  "contentModerationKeywordBuildEdge list \<Rightarrow> int \<Rightarrow> contentModerationKeywordBuildEdge list \<Rightarrow>
   contentModerationKeywordNode list \<Rightarrow> contentModerationKeywordNode list option" where
  "finishEdges edges state [] nodes = Some nodes"
| "finishEdges edges state (edge # out) nodes = finishEdge edges state edge nodes \<bind> finishEdges edges state out"

partial_function (option) finishQueue ::
  "contentModerationKeywordBuildEdge list \<Rightarrow> int list \<Rightarrow> contentModerationKeywordNode list \<Rightarrow>
   contentModerationKeywordNode list option" where
  "finishQueue edges queue nodes =
     (case queue of
        [] \<Rightarrow> Some nodes
      | state # rest \<Rightarrow>
          let out = siblings edges (contentModerationKeywordBuildFirstEdge (nodes ! nat state))
          in finishEdges edges state out nodes \<bind> (\<lambda>nodes. finishQueue edges (rest @ map be_target out) nodes))"

text \<open>The insertion sort of a state's edges; the sorted part is held in reverse.\<close>

fun insertEdge :: "contentModerationKeywordEdge \<Rightarrow> contentModerationKeywordEdge list \<Rightarrow> contentModerationKeywordEdge list" where
  "insertEdge current [] = [current]"
| "insertEdge current (previous # rest) =
     (if (of_char (ke_label current) :: nat) < of_char (ke_label previous) then previous # insertEdge current rest
      else current # previous # rest)"

definition sortEdges :: "contentModerationKeywordEdge list \<Rightarrow> contentModerationKeywordEdge list" where
  "sortEdges out = rev (fold insertEdge out [])"

definition compactNode ::
  "contentModerationKeywordBuildEdge list \<Rightarrow> nat \<Rightarrow>
   contentModerationKeywordNode list \<times> contentModerationKeywordEdge list \<Rightarrow>
   contentModerationKeywordNode list \<times> contentModerationKeywordEdge list" where
  "compactNode buildEdges nodeIndex = (\<lambda>(nodes, edges).
     let outgoing = sortEdges (map (\<lambda>edge. \<lparr>ke_target = be_target edge, ke_label = be_label edge\<rparr>)
           (siblings buildEdges (contentModerationKeywordBuildFirstEdge (nodes ! nodeIndex))))
     in (nodes[nodeIndex := (nodes ! nodeIndex)\<lparr>kn_edgeStart := length edges, kn_edgeCount := length outgoing\<rparr>],
         edges @ outgoing))"

definition newContentModerationKeywordMatcher ::
  "(string \<Rightarrow> string) \<Rightarrow> string list \<Rightarrow> contentModerationKeywordMatcher option option" where
  "newContentModerationKeywordMatcher lower keywords =
     (if keywords = [] then Some None
      else
        let (nodes, buildEdges) = buildTrie lower keywords
        in if length nodes = 1 then Some None
           else
             let first = siblings buildEdges (contentModerationKeywordBuildFirstEdge (nodes ! 0));
                 rootTransitions = fold (\<lambda>edge f. f(be_label edge := be_target edge)) first (\<lambda>_. 0)
             in do {
               nodes \<leftarrow> finishQueue buildEdges (map be_target first) nodes;
               let (nodes, edges) = fold (compactNode buildEdges) [0..<length nodes] (nodes, []);
               Some (Some \<lparr>km_nodes = nodes, km_edges = edges, km_rootTransitions = rootTransitions,
                 km_keywords = keywords\<rparr>)
             })"

declare buildFallback.simps [code] finishQueue.simps [code]

section \<open>Search\<close>

function lowerBound :: "contentModerationKeywordEdge list \<Rightarrow> char \<Rightarrow> nat \<Rightarrow> nat \<Rightarrow> nat" where
  "lowerBound edges label left right =
     (if left < right then
        let middle = left + (right - left) div 2
        in if (of_char (ke_label (edges ! middle)) :: nat) < of_char label then lowerBound edges label (middle + 1) right
           else lowerBound edges label left middle
      else left)"
  by pat_completeness auto
termination
  by (relation "measure (\<lambda>(_, _, left, right). right - left)") auto

declare lowerBound.simps [simp del]

definition next_state :: "contentModerationKeywordMatcher \<Rightarrow> int \<Rightarrow> char \<Rightarrow> int" where
  "next_state m state label =
     (if state = 0 then km_rootTransitions m label
      else if state < 0 \<or> int (length (km_nodes m)) \<le> state then 0
      else
        let node = km_nodes m ! nat state;
            left = lowerBound (km_edges m) label (kn_edgeStart node) (kn_edgeStart node + kn_edgeCount node);
            end' = kn_edgeStart node + kn_edgeCount node
        in if left < end' \<and> ke_label (km_edges m ! left) = label then ke_target (km_edges m ! left) else 0)"

partial_function (option) follow :: "contentModerationKeywordMatcher \<Rightarrow> char \<Rightarrow> int \<Rightarrow> int option" where
  "follow m label state =
     (if next_state m state label \<noteq> 0 then Some (next_state m state label)
      else if state = 0 then Some state
      else follow m label (kn_failure (km_nodes m ! nat state)))"

declare follow.simps [code]

text \<open>The loop of \<open>Match\<close> over the text; the result is the best keyword index found.\<close>

fun scan :: "contentModerationKeywordMatcher \<Rightarrow> string \<Rightarrow> int \<Rightarrow> int \<Rightarrow> int option" where
  "scan m [] state bestKeyword = Some bestKeyword"
| "scan m (label # rest) state bestKeyword = do {
     state \<leftarrow> follow m label state;
     let bestKeyword = minKeywordIndex bestKeyword (kn_bestKeyword (km_nodes m ! nat state));
     if bestKeyword = 0 then Some 0 else scan m rest state bestKeyword
   }"

definition Match ::
  "(string \<Rightarrow> string) \<Rightarrow> contentModerationKeywordMatcher option \<Rightarrow> string \<Rightarrow> (string \<times> bool) option" where
  "Match lower matcher text =
     (case matcher of
        None \<Rightarrow> Some ([], False)
      | Some m \<Rightarrow>
          if text = [] \<or> km_nodes m = [] \<or> km_keywords m = [] then Some ([], False)
          else do {
            bestKeyword \<leftarrow> scan m (lower text) 0 (-1);
            Some (if bestKeyword < 0 \<or> int (length (km_keywords m)) \<le> bestKeyword then ([], False)
                  else (km_keywords m ! nat bestKeyword, True))
          })"

end
