(* ===== verification/Keyword_Trie.thy ===== *)
theory Keyword_Trie
  imports Keyword_Matcher
begin

text \<open>
  The construction of the keyword automaton (\<open>service/content_moderation_keyword_matcher.go\<close>): every
  state stands for a word, the states' words form a trie that contains every lower-cased keyword, and
  the breadth-first search gives every state the failure link and the keyword index that the
  automaton needs.
\<close>

section \<open>Positions of words\<close>

definition pos :: "'a list \<Rightarrow> 'a \<Rightarrow> nat" where
  "pos W w = length (takeWhile (\<lambda>x. x \<noteq> w) W)"

lemma pos_less [simp]: "w \<in> set W \<Longrightarrow> pos W w < length W"
  by (induction W) (auto simp: pos_def)

lemma nth_pos [simp]: "w \<in> set W \<Longrightarrow> W ! pos W w = w"
  by (induction W) (auto simp: pos_def)

lemma pos_nth: "distinct W \<Longrightarrow> s < length W \<Longrightarrow> pos W (W ! s) = s"
  by (meson nth_eq_iff_index_eq nth_mem nth_pos pos_less)

lemma pos_append [simp]: "w \<in> set W \<Longrightarrow> pos (W @ V) w = pos W w"
  by (induction W) (auto simp: pos_def)

lemma pos_new [simp]: "w \<notin> set W \<Longrightarrow> pos (W @ [w]) w = length W"
  by (induction W) (auto simp: pos_def)

lemma pos_inj: "v \<in> set W \<Longrightarrow> w \<in> set W \<Longrightarrow> pos W v = pos W w \<longleftrightarrow> v = w"
  by (metis nth_pos)

section \<open>Chains of edges\<close>

definition chained :: "contentModerationKeywordBuildEdge list \<Rightarrow> bool" where
  "chained edges \<longleftrightarrow> (\<forall>k < length edges. be_nextSibling (edges ! k) < int k)"

lemma siblings_neg [simp]: "e < 0 \<Longrightarrow> siblings edges e = []"
  by (simp add: siblings.simps [of edges e])

lemma siblings_step:
  assumes "chained edges" and "k < length edges"
  shows "siblings edges (int k) = edges ! k # siblings edges (be_nextSibling (edges ! k))"
proof -
  have "be_nextSibling (edges ! k) < int k"
    using assms by (simp add: chained_def)
  with assms(2) show ?thesis
    by (simp add: siblings.simps [of edges "int k"])
qed

lemma siblings_append:
  assumes "chained edges" and "e < int (length edges)"
  shows "siblings (edges @ news) e = siblings edges e"
  using assms
proof (induction edges e rule: siblings.induct)
  case (1 edges e)
  show ?case
  proof (cases "e < 0")
    case False
    with 1 have lt: "nat e < length edges" "\<not> (e < 0 \<or> int (length edges) \<le> e)" by simp_all
    with 1 have chain: "be_nextSibling (edges ! nat e) < e"
      by (simp add: chained_def) (metis int_nat_eq lt(1) False linorder_not_less)
    have "siblings (edges @ news) (be_nextSibling (edges ! nat e)) = siblings edges (be_nextSibling (edges ! nat e))"
      using "1.IH" [OF lt(2) chain] "1.prems" chain by simp
    with lt chain show ?thesis
      by (simp add: siblings.simps [of _ e] nth_append)
  qed simp
qed

section \<open>The trie\<close>

definition outOf :: "contentModerationKeywordNode list \<Rightarrow> contentModerationKeywordBuildEdge list \<Rightarrow> nat \<Rightarrow>
    contentModerationKeywordBuildEdge list" where
  "outOf nodes edges s = siblings edges (contentModerationKeywordBuildFirstEdge (nodes ! s))"

text \<open>The edges of the state with word \<open>w\<close>: one for each letter that extends \<open>w\<close> in the trie.\<close>

definition edges_ok :: "string list \<Rightarrow> string \<Rightarrow> contentModerationKeywordBuildEdge list \<Rightarrow> bool" where
  "edges_ok W w out \<longleftrightarrow> distinct (map be_label out) \<and> be_label ` set out = {a. w @ [a] \<in> set W} \<and>
     (\<forall>e \<in> set out. be_target e = int (pos W (w @ [be_label e])))"

definition trie :: "string list \<Rightarrow> contentModerationKeywordNode list \<Rightarrow> contentModerationKeywordBuildEdge list \<Rightarrow> bool" where
  "trie W nodes edges \<longleftrightarrow> length W = length nodes \<and> distinct W \<and> W \<noteq> [] \<and> W ! 0 = [] \<and>
     (\<forall>w a. w @ [a] \<in> set W \<longrightarrow> w \<in> set W) \<and> chained edges \<and>
     (\<forall>s < length W. kn_edgeStart (nodes ! s) \<le> length edges \<and> edges_ok W (W ! s) (outOf nodes edges s))"

lemma trieD:
  assumes "trie W nodes edges"
  shows "length nodes = length W" "distinct W" "W ! 0 = []" "[] \<in> set W" "chained edges"
    "w @ [a] \<in> set W \<Longrightarrow> w \<in> set W"
    "s < length W \<Longrightarrow> edges_ok W (W ! s) (outOf nodes edges s)"
    "s < length W \<Longrightarrow> kn_edgeStart (nodes ! s) \<le> length edges"
    "pos W [] = 0"
proof -
  show "[] \<in> set W"
    using assms nth_mem [of 0 W] by (simp add: trie_def flip: length_greater_0_conv)
  show "pos W [] = 0"
    using assms pos_nth [of W 0] by (simp add: trie_def flip: length_greater_0_conv)
qed (use assms in \<open>auto simp: trie_def\<close>)

lemma trie_edges: "trie W nodes edges \<Longrightarrow> w \<in> set W \<Longrightarrow> edges_ok W w (outOf nodes edges (pos W w))"
  using trieD(7) [of W nodes edges "pos W w"] by simp

lemma trie_prefix: "trie W nodes edges \<Longrightarrow> u @ v \<in> set W \<Longrightarrow> u \<in> set W"
proof (induction v rule: rev_induct)
  case (snoc a v)
  then show ?case using trieD(6) [of W nodes edges "u @ v" a] by simp
qed simp

lemma find_label:
  "distinct (map be_label out) \<Longrightarrow> e \<in> set out \<Longrightarrow> find (\<lambda>edge. be_label edge = be_label e) out = Some e"
  by (induction out) auto

lemma buildTransition_trie:
  assumes "trie W nodes edges" and "w \<in> set W"
  shows "contentModerationKeywordBuildTransition nodes edges (int (pos W w)) a =
    (if w @ [a] \<in> set W then int (pos W (w @ [a])) else -1)"
proof -
  let ?out = "outOf nodes edges (pos W w)"
  note ok = trie_edges [OF assms, unfolded edges_ok_def]
  have len: "pos W w < length nodes"
    using assms trieD(1) [OF assms(1)] by simp
  show ?thesis
  proof (cases "w @ [a] \<in> set W")
    case True
    with ok have "a \<in> be_label ` set ?out" by simp
    then obtain e where "e \<in> set ?out" "be_label e = a" by blast
    with ok find_label [of ?out e] len True show ?thesis
      by (simp add: contentModerationKeywordBuildTransition_def outOf_def)
  next
    case False
    with ok have "find (\<lambda>edge. be_label edge = a) ?out = None"
      by (auto simp: find_None_iff)
    with len False show ?thesis
      by (simp add: contentModerationKeywordBuildTransition_def outOf_def)
  qed
qed

text \<open>The keyword index of the state of a word, -1 for a word without a state.\<close>

definition bestAt :: "string list \<Rightarrow> contentModerationKeywordNode list \<Rightarrow> string \<Rightarrow> int" where
  "bestAt W nodes w = (if w \<in> set W then kn_bestKeyword (nodes ! pos W w) else -1)"

definition noFailures :: "contentModerationKeywordNode list \<Rightarrow> bool" where
  "noFailures nodes \<longleftrightarrow> (\<forall>s < length nodes. kn_failure (nodes ! s) = 0)"

lemma edges_ok_other:
  assumes "edges_ok W v out" and "v \<noteq> w"
  shows "edges_ok (W @ [w @ [a]]) v out"
proof -
  from assms(1) have "v @ [be_label e] \<in> set W" if "e \<in> set out" for e
    using that by (auto simp: edges_ok_def)
  with assms show ?thesis by (auto simp: edges_ok_def)
qed

lemma edges_ok_new:
  assumes "edges_ok W w out" and "w @ [a] \<notin> set W" and "be_label e = a" and "be_target e = int (length W)"
  shows "edges_ok (W @ [w @ [a]]) w (e # out)"
proof -
  from assms(1) have "w @ [be_label e'] \<in> set W" if "e' \<in> set out" for e'
    using that by (auto simp: edges_ok_def)
  with assms show ?thesis by (auto simp: edges_ok_def)
qed

lemma trie_insert:
  assumes trie: "trie W nodes edges" and w: "w \<in> set W" and new: "w @ [a] \<notin> set W"
    and nodes': "nodes' = (nodes @ [newContentModerationKeywordNode])
      [pos W w := (nodes ! pos W w)\<lparr>kn_edgeStart := Suc (length edges)\<rparr>]"
    and edges': "edges' = edges @ [\<lparr>be_target = int (length nodes),
      be_nextSibling = contentModerationKeywordBuildFirstEdge (nodes ! pos W w), be_label = a\<rparr>]"
  shows "trie (W @ [w @ [a]]) nodes' edges'"
proof -
  let ?s = "pos W w" and ?n = "length W" and ?W = "W @ [w @ [a]]"
  note D = trieD [OF trie]
  have s: "?s < ?n" "W ! ?s = w" using w by simp_all
  have first: "contentModerationKeywordBuildFirstEdge (nodes ! t) < int (length edges)" if "t < ?n" for t
    using D(8) [OF that] by (simp add: contentModerationKeywordBuildFirstEdge_def)
  have chain: "chained edges'"
    using D(5) first [OF s(1)] by (auto simp: chained_def edges' nth_append less_Suc_eq)
  have nth': "nodes' ! t = nodes ! t" if "t < ?n" "t \<noteq> ?s" for t
    using that D(1) by (simp add: nodes' nth_append)
  have nth_s: "nodes' ! ?s = (nodes ! ?s)\<lparr>kn_edgeStart := Suc (length edges)\<rparr>"
    using s D(1) by (simp add: nodes')
  have nth_n: "nodes' ! ?n = newContentModerationKeywordNode"
    using s D(1) by (simp add: nodes' nth_append)
  have ok: "edges_ok ?W (?W ! t) (outOf nodes' edges' t) \<and> kn_edgeStart (nodes' ! t) \<le> length edges'"
    if t: "t < length ?W" for t
  proof -
    consider "t < ?n" "t \<noteq> ?s" | "t = ?s" | "t = ?n" using t by fastforce
    then show ?thesis
    proof cases
      case 1
      then have "outOf nodes' edges' t = outOf nodes edges t"
        using first D(5) by (simp add: outOf_def nth' edges' siblings_append)
      moreover have "W ! t \<noteq> w"
        using 1 D(2) s by (metis nth_eq_iff_index_eq)
      ultimately show ?thesis
        using 1 D(7,8) [of t] by (simp add: edges_ok_other nth_append nth' edges')
    next
      case 2
      have "outOf nodes' edges' ?s = edges' ! length edges # outOf nodes edges ?s"
        using siblings_step [OF chain, of "length edges"] first [OF s(1)] D(5)
        by (simp add: outOf_def nth_s contentModerationKeywordBuildFirstEdge_def [of "_ \<lparr>kn_edgeStart := _\<rparr>"])
          (simp add: edges' siblings_append)
      then show ?thesis
        using 2 s D(1) edges_ok_new [OF D(7) [OF s(1), unfolded s(2)] new]
        by (simp add: nth_append edges' nth_s)
    next
      case 3
      have "outOf nodes' edges' ?n = []"
        by (simp add: outOf_def nth_n newContentModerationKeywordNode_def contentModerationKeywordBuildFirstEdge_def)
      moreover have "(w @ [a]) @ [b] \<notin> set W" for b
        using new D(6) by blast
      ultimately show ?thesis
        using 3 by (simp add: edges_ok_def nth_n newContentModerationKeywordNode_def)
    qed
  qed
  have "W \<noteq> []" using w by auto
  then show ?thesis
    unfolding trie_def using D chain ok w new by (auto simp: nodes' nth_append)
qed

text \<open>One letter of a keyword: the state of the extended word exists afterwards, all else is kept.\<close>

lemma insertLabel_trie:
  assumes "trie W nodes edges" and "w \<in> set W" and "noFailures nodes"
  obtains W' nodes' edges' where
    "insertLabel a ((nodes, edges), int (pos W w)) = ((nodes', edges'), int (pos W' (w @ [a])))"
    "trie W' nodes' edges'" "set W \<subseteq> set W'" "w @ [a] \<in> set W'" "bestAt W' nodes' = bestAt W nodes"
    "noFailures nodes'"
proof (cases "w @ [a] \<in> set W")
  case True
  then have "insertLabel a ((nodes, edges), int (pos W w)) = ((nodes, edges), int (pos W (w @ [a])))"
    by (simp add: insertLabel_def buildTransition_trie [OF assms(1,2)])
  with assms True that show ?thesis by blast
next
  case False
  let ?W = "W @ [w @ [a]]" and ?s = "pos W w"
  let ?nodes = "(nodes @ [newContentModerationKeywordNode])
      [?s := (nodes ! ?s)\<lparr>kn_edgeStart := Suc (length edges)\<rparr>]"
  let ?edges = "edges @ [\<lparr>be_target = int (length nodes),
      be_nextSibling = contentModerationKeywordBuildFirstEdge (nodes ! ?s), be_label = a\<rparr>]"
  have len: "length nodes = length W" "?s < length W"
    using assms(1,2) by (simp_all add: trieD)
  have "insertLabel a ((nodes, edges), int ?s) = ((?nodes, ?edges), int (pos ?W (w @ [a])))"
    using False len by (simp add: insertLabel_def buildTransition_trie [OF assms(1,2)] Let_def nth_append)
  moreover have "trie ?W ?nodes ?edges"
    using trie_insert [OF assms(1,2) False refl refl] .
  moreover have "bestAt ?W ?nodes = bestAt W nodes"
  proof
    fix v
    show "bestAt ?W ?nodes v = bestAt W nodes v"
    proof (cases "v \<in> set W")
      case True
      then have "pos W v < length W" by simp
      with True len show ?thesis
        by (cases "pos W v = ?s") (simp_all add: bestAt_def nth_append)
    next
      case v: False
      then have "v \<noteq> w" using assms(2) by blast
      with v False len show ?thesis
        by (auto simp: bestAt_def nth_append newContentModerationKeywordNode_def)
    qed
  qed
  moreover have "noFailures ?nodes"
    using assms(3) len
    by (auto simp: noFailures_def nth_append nth_list_update newContentModerationKeywordNode_def less_Suc_eq)
  ultimately show ?thesis
    by (intro that [of ?nodes ?edges ?W]) auto
qed

lemma insertLabels_trie:
  assumes "trie W nodes edges" and "w \<in> set W" and "noFailures nodes"
  obtains W' nodes' edges' where
    "fold insertLabel v ((nodes, edges), int (pos W w)) = ((nodes', edges'), int (pos W' (w @ v)))"
    "trie W' nodes' edges'" "set W \<subseteq> set W'" "w @ v \<in> set W'" "bestAt W' nodes' = bestAt W nodes"
    "noFailures nodes'"
  using assms
proof (induction v arbitrary: w W nodes edges thesis)
  case Nil
  then show ?case by auto
next
  case (Cons a v)
  obtain W1 n1 e1 where one:
    "insertLabel a ((nodes, edges), int (pos W w)) = ((n1, e1), int (pos W1 (w @ [a])))"
    "trie W1 n1 e1" "set W \<subseteq> set W1" "w @ [a] \<in> set W1" "bestAt W1 n1 = bestAt W nodes" "noFailures n1"
    by (rule insertLabel_trie [OF Cons.prems(2-4), of a])
  obtain W2 n2 e2 where
    "fold insertLabel v ((n1, e1), int (pos W1 (w @ [a]))) = ((n2, e2), int (pos W2 ((w @ [a]) @ v)))"
    "trie W2 n2 e2" "set W1 \<subseteq> set W2" "(w @ [a]) @ v \<in> set W2" "bestAt W2 n2 = bestAt W1 n1" "noFailures n2"
    by (rule Cons.IH [OF _ one(2,4,6)])
  with one show ?case
    by (intro Cons.prems(1) [of n2 e2 W2]) simp_all
qed

section \<open>The keywords\<close>

text \<open>The least index of a set of keywords, -1 for none, as the code represents it.\<close>

definition bestOf :: "nat set \<Rightarrow> int" where
  "bestOf S = (if S = {} then -1 else int (Min S))"

definition hits :: "(string \<Rightarrow> string) \<Rightarrow> string list \<Rightarrow> (string \<Rightarrow> bool) \<Rightarrow> nat set" where
  "hits lower ks P = {i. i < length ks \<and> ks ! i \<noteq> [] \<and> P (lower (ks ! i))}"

lemma finite_hits [simp]: "finite (hits lower ks P)"
  by (simp add: hits_def)

lemma bestOf_empty [simp]: "bestOf {} = -1"
  by (simp add: bestOf_def)

lemma bestOf_single [simp]: "bestOf {i} = int i"
  by (simp add: bestOf_def)

lemma bestOf_neg [simp]: "bestOf S < 0 \<longleftrightarrow> S = {}"
  by (simp add: bestOf_def)

lemma minKeywordIndex_bestOf:
  "finite A \<Longrightarrow> finite B \<Longrightarrow> minKeywordIndex (bestOf A) (bestOf B) = bestOf (A \<union> B)"
proof -
  assume fin: "finite A" "finite B"
  show ?thesis
  proof (cases "A = {} \<or> B = {}")
    case False
    with fin have "Min (A \<union> B) = min (Min A) (Min B)" by (simp add: Min_Un)
    with False show ?thesis
      unfolding minKeywordIndex_def bestOf_def by (simp only: Un_empty if_False simp_thms) (simp add: min_def)
  qed (auto simp: minKeywordIndex_def)
qed

lemma hits_Un: "hits lower ks P \<union> hits lower ks Q = hits lower ks (\<lambda>v. P v \<or> Q v)"
  by (auto simp: hits_def)

lemma hits_snoc:
  "hits lower (ks @ [k]) P =
     hits lower ks P \<union> (if k \<noteq> [] \<and> P (lower k) then {length ks} else {})"
  by (auto simp: hits_def nth_append less_Suc_eq)

lemma hits_cong:
  "(\<And>k. k \<in> set ks \<Longrightarrow> k \<noteq> [] \<Longrightarrow> P (lower k) = Q (lower k)) \<Longrightarrow> hits lower ks P = hits lower ks Q"
  by (auto simp: hits_def)

lemma bestOf_hits_snoc:
  "bestOf (insert (length ks) (hits lower ks P)) =
     (if hits lower ks P = {} then int (length ks) else bestOf (hits lower ks P))"
proof (cases "hits lower ks P = {}")
  case False
  have "Min (hits lower ks P) < length ks"
    using Min_in [OF finite_hits False] by (simp add: hits_def)
  with False show ?thesis
    by (simp add: bestOf_def Min_Un min_absorb1 min.absorb1 del: Min_le_iff)
qed (simp add: bestOf_def)

lemma trie_best:
  assumes "trie W nodes edges"
  shows "trie W (nodes[s := (nodes ! s)\<lparr>kn_bestKeyword := b\<rparr>]) edges"
    and "trie W (nodes[s := (nodes ! s)\<lparr>kn_failure := f\<rparr>]) edges"
proof -
  have first: "contentModerationKeywordBuildFirstEdge (nodes[s := (nodes ! s)\<lparr>kn_bestKeyword := b\<rparr>] ! t) =
      contentModerationKeywordBuildFirstEdge (nodes ! t)"
    "contentModerationKeywordBuildFirstEdge (nodes[s := (nodes ! s)\<lparr>kn_failure := f\<rparr>] ! t) =
      contentModerationKeywordBuildFirstEdge (nodes ! t)"
    "kn_edgeStart (nodes[s := (nodes ! s)\<lparr>kn_bestKeyword := b\<rparr>] ! t) = kn_edgeStart (nodes ! t)"
    "kn_edgeStart (nodes[s := (nodes ! s)\<lparr>kn_failure := f\<rparr>] ! t) = kn_edgeStart (nodes ! t)" for t
    by (cases "s < length nodes"; cases "s = t";
      simp add: contentModerationKeywordBuildFirstEdge_def list_update_beyond)+
  from assms show "trie W (nodes[s := (nodes ! s)\<lparr>kn_bestKeyword := b\<rparr>]) edges"
    and "trie W (nodes[s := (nodes ! s)\<lparr>kn_failure := f\<rparr>]) edges"
    by (simp_all add: trie_def outOf_def first)
qed

lemma buildTrie_ok:
  obtains W nodes edges where "buildTrie lower ks = (nodes, edges)" "trie W nodes edges" "noFailures nodes"
    "\<forall>k \<in> set ks. k \<noteq> [] \<longrightarrow> lower k \<in> set W"
    "\<And>w. bestAt W nodes w = bestOf (hits lower ks (\<lambda>v. v = w))"
proof (induction ks arbitrary: thesis rule: rev_induct)
  case Nil
  have "trie [[]] [newContentModerationKeywordNode] []"
    by (simp add: trie_def chained_def edges_ok_def outOf_def newContentModerationKeywordNode_def
        contentModerationKeywordBuildFirstEdge_def)
  then show ?case
    by (intro Nil [of "[newContentModerationKeywordNode]" "[]" "[[]]"])
      (simp_all add: buildTrie_def noFailures_def newContentModerationKeywordNode_def bestAt_def hits_def pos_def)
next
  case (snoc k ks)
  obtain W nodes edges where ih: "buildTrie lower ks = (nodes, edges)" "trie W nodes edges" "noFailures nodes"
    "\<forall>k \<in> set ks. k \<noteq> [] \<longrightarrow> lower k \<in> set W"
    "\<And>w. bestAt W nodes w = bestOf (hits lower ks (\<lambda>v. v = w))"
    by (rule snoc.IH) (rule that)
  have step: "buildTrie lower (ks @ [k]) = insertKeyword lower (length ks, k) (nodes, edges)"
    using ih(1) by (simp add: buildTrie_def enumerate_append_eq)
  show ?case
  proof (cases "k = []")
    case True
    with ih step show ?thesis
      by (intro snoc.prems [of nodes edges W]) (simp_all add: insertKeyword_def hits_snoc)
  next
    case False
    obtain W' n e where ins: "fold insertLabel (lower k) ((nodes, edges), int (pos W [])) = ((n, e), int (pos W' ([] @ lower k)))"
      "trie W' n e" "set W \<subseteq> set W'" "[] @ lower k \<in> set W'" "bestAt W' n = bestAt W nodes" "noFailures n"
      by (rule insertLabels_trie [OF ih(2) _ ih(3), of "[]" "lower k"]) (rule trieD(4) [OF ih(2)])
    let ?s = "pos W' (lower k)" and ?H = "hits lower ks (\<lambda>v. v = lower k)"
    have mem: "lower k \<in> set W'" and s: "?s < length n"
      using ins(2,4) by (simp_all add: trieD)
    have cur: "kn_bestKeyword (n ! ?s) = bestOf ?H"
      using ins(5) ih(5) [of "lower k"] mem by (simp add: bestAt_def fun_eq_iff split: if_splits) metis
    have "\<not> (int (length ks) < bestOf ?H)"
      using Min_in [of ?H] by (auto simp: bestOf_def hits_def)
    then have eq: "insertKeyword lower (length ks, k) (nodes, edges) =
      ((if ?H = {} then n[?s := (n ! ?s)\<lparr>kn_bestKeyword := int (length ks)\<rparr>] else n), e)"
      using False ins(1) trieD(9) [OF ih(2)] cur by (simp add: insertKeyword_def Let_def)
    let ?n = "if ?H = {} then n[?s := (n ! ?s)\<lparr>kn_bestKeyword := int (length ks)\<rparr>] else n"
    have "bestAt W' ?n w = bestOf (hits lower (ks @ [k]) (\<lambda>v. v = w))" for w
    proof (cases "w = lower k")
      case True
      with False mem s cur show ?thesis
        by (simp add: hits_snoc bestOf_hits_snoc) (simp add: bestAt_def)
    next
      case w: False
      then have "bestAt W' ?n w = bestAt W' n w"
        using mem by (simp add: bestAt_def pos_inj)
      with w ins(5) ih(5) show ?thesis by (simp add: hits_snoc)
    qed
    moreover have "noFailures ?n"
      using ins(6) s by (auto simp: noFailures_def nth_list_update)
    ultimately show ?thesis
      using eq step ins ih(4) trie_best(1) [OF ins(2)]
      by (intro snoc.prems [of ?n e W']) auto
  qed
qed

section \<open>Failure links\<close>

text \<open>\<open>f\<close> is the longest proper suffix of \<open>w\<close> that is a word of the trie.\<close>

definition isFail :: "string list \<Rightarrow> string \<Rightarrow> string \<Rightarrow> bool" where
  "isFail W f w \<longleftrightarrow> f \<in> set W \<and> strict_suffix f w \<and> (\<forall>u \<in> set W. strict_suffix u w \<longrightarrow> suffix u f)"

lemma isFailD:
  assumes "isFail W f w"
  shows "f \<in> set W" "suffix f w" "strict_suffix f w" "length f < length w"
  using assms suffix_length_less [of f w] by (simp_all add: isFail_def strict_suffix_def)

text \<open>A node before the search has reached it, and after.\<close>

definition initialNode ::
  "(string \<Rightarrow> string) \<Rightarrow> string list \<Rightarrow> string \<Rightarrow> contentModerationKeywordNode \<Rightarrow> bool" where
  "initialNode lower ks w x \<longleftrightarrow> kn_failure x = 0 \<and> kn_bestKeyword x = bestOf (hits lower ks (\<lambda>v. v = w))"

definition settledNode ::
  "(string \<Rightarrow> string) \<Rightarrow> string list \<Rightarrow> string list \<Rightarrow> string \<Rightarrow> contentModerationKeywordNode \<Rightarrow> bool" where
  "settledNode lower ks W w x \<longleftrightarrow>
     (w \<noteq> [] \<longrightarrow> (\<exists>f. isFail W f w \<and> kn_failure x = int (pos W f))) \<and>
     kn_bestKeyword x = bestOf (hits lower ks (\<lambda>v. suffix v w))"

lemma pos_zero:
  assumes "trie W nodes edges" and "w \<in> set W"
  shows "pos W w = 0 \<longleftrightarrow> w = []"
  using trieD(4,9) [OF assms(1)] assms(2) by (metis pos_inj)

lemma trie_update:
  assumes "trie W nodes edges" and "kn_edgeStart x = kn_edgeStart (nodes ! s)"
  shows "trie W (nodes[s := x]) edges"
proof -
  have start: "kn_edgeStart (nodes[s := x] ! t) = kn_edgeStart (nodes ! t)" for t
    using assms(2) by (cases "s < length nodes"; cases "s = t"; simp add: list_update_beyond)
  then have "outOf (nodes[s := x]) edges t = outOf nodes edges t" for t
    by (simp add: outOf_def contentModerationKeywordBuildFirstEdge_def)
  with assms(1) start show ?thesis by (simp add: trie_def)
qed

text \<open>The target of the longest suffix of \<open>f\<close> that has an edge with the letter, -1 if there is none.\<close>

definition fallbackFrom :: "string list \<Rightarrow> char \<Rightarrow> string \<Rightarrow> int \<Rightarrow> bool" where
  "fallbackFrom W a f r \<longleftrightarrow>
     r = -1 \<and> (\<forall>u. suffix u f \<longrightarrow> u @ [a] \<notin> set W) \<or>
     (\<exists>g. suffix g f \<and> g @ [a] \<in> set W \<and> r = int (pos W (g @ [a])) \<and>
        (\<forall>u. suffix u f \<longrightarrow> u @ [a] \<in> set W \<longrightarrow> suffix u g))"

text \<open>The loop along the failure links returns, with the longest suffix that the letter extends.\<close>

lemma buildFallback_ok:
  assumes trie: "trie W nodes edges" and "f \<in> set W"
    and "\<And>u. u \<in> set W \<Longrightarrow> length u \<le> length f \<Longrightarrow> settledNode lower ks W u (nodes ! pos W u)"
  shows "\<exists>r. buildFallback nodes edges a (int (pos W f))
        (contentModerationKeywordBuildTransition nodes edges (int (pos W f)) a) = Some r \<and>
      fallbackFrom W a f r"
  using assms(2,3)
proof (induction "length f" arbitrary: f rule: less_induct)
  case less
  note eq = buildFallback.simps [of nodes edges a "int (pos W f)"] buildTransition_trie [OF trie less.prems(1)]
  consider "f @ [a] \<in> set W" | "f @ [a] \<notin> set W" "f = []" | "f @ [a] \<notin> set W" "f \<noteq> []" by blast
  then show ?case
  proof cases
    case 1
    then show ?thesis by (auto simp: eq fallbackFrom_def)
  next
    case 2
    with trieD(9) [OF trie] buildTransition_trie [OF trie less.prems(1), of a]
    have "contentModerationKeywordBuildTransition nodes edges 0 a = -1" by simp
    with 2 trieD(9) [OF trie] show ?thesis by (simp add: buildFallback.simps [of _ _ _ 0] fallbackFrom_def)
  next
    case 3
    then obtain f' where f': "isFail W f' f" "kn_failure (nodes ! pos W f) = int (pos W f')"
      using less.prems by (auto simp: settledNode_def)
    note len = isFailD(4) [OF f'(1)] and mem = isFailD(1) [OF f'(1)]
    have shrink: "suffix u f' " if "suffix u f" "u @ [a] \<in> set W" for u
      using that 3 f'(1) trieD(6) [OF trie, of u a] by (auto simp: isFail_def strict_suffix_def)
    have grow: "suffix u f" if "suffix u f'" for u
      using that f'(1) by (auto simp: isFail_def strict_suffix_def intro: suffix_order.trans)
    have "buildFallback nodes edges a (int (pos W f))
        (contentModerationKeywordBuildTransition nodes edges (int (pos W f)) a) =
      buildFallback nodes edges a (int (pos W f')) (contentModerationKeywordBuildTransition nodes edges (int (pos W f')) a)"
      using 3 f'(2) pos_zero [OF trie less.prems(1)] by (simp add: eq Let_def)
    moreover have "\<exists>r. buildFallback nodes edges a (int (pos W f'))
        (contentModerationKeywordBuildTransition nodes edges (int (pos W f')) a) = Some r \<and> fallbackFrom W a f' r"
      using len less.prems(2) by (intro less.hyps [OF len mem]) simp
    moreover have "fallbackFrom W a f r" if "fallbackFrom W a f' r" for r
    proof (cases "r = -1")
      case True
      with that shrink show ?thesis by (auto simp: fallbackFrom_def)
    next
      case False
      with that obtain g where "suffix g f'" "g @ [a] \<in> set W" "r = int (pos W (g @ [a]))"
        "\<forall>u. suffix u f' \<longrightarrow> u @ [a] \<in> set W \<longrightarrow> suffix u g" by (auto simp: fallbackFrom_def)
      with shrink grow show ?thesis unfolding fallbackFrom_def by blast
    qed
    ultimately show ?thesis by auto
  qed
qed

lemma strict_suffix_snoc:
  "strict_suffix u (w @ [a]) \<longleftrightarrow> u = [] \<or> (\<exists>u'. u = u' @ [a] \<and> strict_suffix u' w)"
  by (cases u rule: rev_cases) (auto simp: strict_suffix_def suffix_def)

lemma suffix_snoc: "suffix u (w @ [a]) \<longleftrightarrow> u = [] \<or> (\<exists>u'. u = u' @ [a] \<and> suffix u' w)"
  by (cases u rule: rev_cases) (auto simp: suffix_def)

text \<open>The keywords that end a word are its own and those that end its longest proper suffix.\<close>

lemma best_fail:
  assumes "isFail W f w" and "\<forall>k \<in> set ks. k \<noteq> [] \<longrightarrow> lower k \<in> set W"
  shows "minKeywordIndex (bestOf (hits lower ks (\<lambda>v. v = w))) (bestOf (hits lower ks (\<lambda>v. suffix v f))) =
    bestOf (hits lower ks (\<lambda>v. suffix v w))"
proof -
  have "v = w \<or> suffix v f \<longleftrightarrow> suffix v w" if "v \<in> set W" for v
    using that assms(1) suffix_order.trans [of v f w] by (auto simp: isFail_def strict_suffix_def)
  with assms(2) have "hits lower ks (\<lambda>v. v = w \<or> suffix v f) = hits lower ks (\<lambda>v. suffix v w)"
    by (intro hits_cong) simp
  then show ?thesis by (simp add: minKeywordIndex_bestOf hits_Un)
qed

lemma zero_failure: "kn_failure x = 0 \<Longrightarrow> x\<lparr>kn_failure := 0\<rparr> = x"
  by (cases x) simp

lemma finishEdge_ok:
  assumes trie: "trie W nodes edges" and ks: "\<forall>k \<in> set ks. k \<noteq> [] \<longrightarrow> lower k \<in> set W"
    and w: "w \<in> set W" "w \<noteq> []" and t: "w @ [a] \<in> set W"
    and settled: "\<And>u. u \<in> set W \<Longrightarrow> length u \<le> length w \<Longrightarrow> settledNode lower ks W u (nodes ! pos W u)"
    and init: "initialNode lower ks (w @ [a]) (nodes ! pos W (w @ [a]))"
    and e: "be_label e = a" "be_target e = int (pos W (w @ [a]))"
  obtains x where "finishEdge edges (int (pos W w)) e nodes = Some (nodes[pos W (w @ [a]) := x])"
    "kn_edgeStart x = kn_edgeStart (nodes ! pos W (w @ [a]))" "settledNode lower ks W (w @ [a]) x"
proof -
  let ?t = "pos W (w @ [a])"
  obtain f where f: "isFail W f w" "kn_failure (nodes ! pos W w) = int (pos W f)"
    using settled [OF w(1)] w(2) by (auto simp: settledNode_def)
  note f_mem = isFailD(1) [OF f(1)] and f_len = isFailD(4) [OF f(1)]
  have below: "suffix u f" if "strict_suffix u w" "u @ [a] \<in> set W" for u
    using that f(1) trieD(6) [OF trie, of u a] by (simp add: isFail_def)
  have above: "strict_suffix u w" if "suffix u f" for u
    using that f(1) f_len suffix_length_le [OF that]
    by (auto simp: isFail_def strict_suffix_def intro: suffix_order.trans)
  obtain r where r: "buildFallback nodes edges a (int (pos W f))
        (contentModerationKeywordBuildTransition nodes edges (int (pos W f)) a) = Some r"
    "fallbackFrom W a f r"
  proof -
    have "\<And>u. u \<in> set W \<Longrightarrow> length u \<le> length f \<Longrightarrow> settledNode lower ks W u (nodes ! pos W u)"
      using settled f_len by simp
    from buildFallback_ok [OF trie f_mem this, of a] that show thesis by blast
  qed
  obtain g where g: "isFail W g (w @ [a])" "length g \<le> length w"
    "(if r \<ge> 0 then r else 0) = int (pos W g)"
  proof (cases "r = -1")
    case True
    with r(2) have "u @ [a] \<notin> set W" if "suffix u f" for u using that by (auto simp: fallbackFrom_def)
    then have "isFail W [] (w @ [a])"
      using below trieD(4) [OF trie] by (auto simp: isFail_def strict_suffix_snoc)
    with True that [of "[]"] trieD(9) [OF trie] show thesis by simp
  next
    case False
    with r(2) obtain g where g: "suffix g f" "g @ [a] \<in> set W" "r = int (pos W (g @ [a]))"
      "\<forall>u. suffix u f \<longrightarrow> u @ [a] \<in> set W \<longrightarrow> suffix u g" by (auto simp: fallbackFrom_def)
    have "isFail W (g @ [a]) (w @ [a])"
      using g(2,4) above [OF g(1)] below by (auto simp: isFail_def strict_suffix_snoc)
    moreover have "length (g @ [a]) \<le> length w"
      using suffix_length_le [OF g(1)] f_len by simp
    ultimately show thesis using that [of "g @ [a]"] g(3) by simp
  qed
  have g_mem: "g \<in> set W" and ne: "g \<noteq> w @ [a]"
    using g(1,2) by (auto simp: isFail_def)
  have len: "?t < length nodes" using t trieD(1) [OF trie] by simp
  have kf: "kn_failure (nodes ! ?t) = 0" and kb: "kn_bestKeyword (nodes ! ?t) = bestOf (hits lower ks (\<lambda>v. v = w @ [a]))"
    using init by (simp_all add: initialNode_def)
  let ?x = "(nodes ! ?t)\<lparr>kn_failure := int (pos W g), kn_bestKeyword := bestOf (hits lower ks (\<lambda>v. suffix v (w @ [a])))\<rparr>"
  have gbest: "kn_bestKeyword (nodes ! pos W g) = bestOf (hits lower ks (\<lambda>v. suffix v g))"
    using settled [OF g_mem g(2)] by (simp add: settledNode_def)
  have neq: "pos W g \<noteq> ?t" using ne g_mem t by (simp add: pos_inj)
  have "finishEdge edges (int (pos W w)) e nodes = Some (nodes[?t := ?x])"
  proof (cases "r \<ge> 0")
    case True
    with r(1) e f(2) g(3) len gbest neq kb best_fail [OF g(1) ks] show ?thesis
      by (simp add: finishEdge_def Let_def)
  next
    case False
    with g(3) have "pos W g = 0" by simp
    with False r(1) e f(2) len gbest neq kb kf best_fail [OF g(1) ks] show ?thesis
      by (simp add: finishEdge_def Let_def zero_failure [OF kf])
  qed
  with that [of ?x] g(1) show thesis by (simp add: settledNode_def) blast
qed

text \<open>One state of the queue: all its children are settled, nothing else changes.\<close>

lemma finishEdges_ok:
  assumes ks: "\<forall>k \<in> set ks. k \<noteq> [] \<longrightarrow> lower k \<in> set W" and w: "w \<in> set W" "w \<noteq> []"
    and "trie W nodes edges" and "distinct (map be_label es)"
    and "\<And>e. e \<in> set es \<Longrightarrow> w @ [be_label e] \<in> set W \<and> be_target e = int (pos W (w @ [be_label e])) \<and>
      initialNode lower ks (w @ [be_label e]) (nodes ! pos W (w @ [be_label e]))"
    and "\<And>u. u \<in> set W \<Longrightarrow> length u \<le> length w \<Longrightarrow> settledNode lower ks W u (nodes ! pos W u)"
  shows "\<exists>nodes'. finishEdges edges (int (pos W w)) es nodes = Some nodes' \<and> trie W nodes' edges \<and>
      (\<forall>e \<in> set es. settledNode lower ks W (w @ [be_label e]) (nodes' ! pos W (w @ [be_label e]))) \<and>
      (\<forall>u \<in> set W. u \<notin> (\<lambda>e. w @ [be_label e]) ` set es \<longrightarrow> nodes' ! pos W u = nodes ! pos W u)"
  using assms(4-)
proof (induction es arbitrary: nodes)
  case (Cons e es)
  let ?a = "be_label e" let ?t = "pos W (w @ [?a])"
  have e: "w @ [?a] \<in> set W" "be_target e = int ?t" "initialNode lower ks (w @ [?a]) (nodes ! ?t)"
    using Cons.prems(3) [of e] by simp_all
  obtain x where x: "finishEdge edges (int (pos W w)) e nodes = Some (nodes[?t := x])"
    "kn_edgeStart x = kn_edgeStart (nodes ! ?t)" "settledNode lower ks W (w @ [?a]) x"
    by (rule finishEdge_ok [OF Cons.prems(1) ks w e(1) Cons.prems(4) e(3) refl e(2)])
  let ?n = "nodes[?t := x]"
  have other: "?n ! pos W u = nodes ! pos W u" if "u \<in> set W" "u \<noteq> w @ [?a]" for u
    using that e(1) by (simp add: pos_inj)
  have "?t < length nodes" using e(1) trieD(1) [OF Cons.prems(1)] by simp
  then have here: "?n ! ?t = x" by simp
  have "be_label e' \<noteq> ?a" if "e' \<in> set es" for e'
    using that Cons.prems(2) by (auto simp: image_iff)
  then have pre: "w @ [be_label e'] \<in> set W \<and> be_target e' = int (pos W (w @ [be_label e'])) \<and>
      initialNode lower ks (w @ [be_label e']) (?n ! pos W (w @ [be_label e']))" if "e' \<in> set es" for e'
    using that Cons.prems(3) [of e'] other by simp
  have low: "settledNode lower ks W u (?n ! pos W u)" if "u \<in> set W" "length u \<le> length w" for u
  proof -
    have "u \<noteq> w @ [?a]" using that(2) by auto
    with that Cons.prems(4) other show ?thesis by simp
  qed
  have "distinct (map be_label es)" using Cons.prems(2) by simp
  from Cons.IH [OF trie_update [OF Cons.prems(1) x(2)] this pre low]
  obtain n' where n': "finishEdges edges (int (pos W w)) es ?n = Some n'" "trie W n' edges"
    "\<forall>e \<in> set es. settledNode lower ks W (w @ [be_label e]) (n' ! pos W (w @ [be_label e]))"
    "\<forall>u \<in> set W. u \<notin> (\<lambda>e. w @ [be_label e]) ` set es \<longrightarrow> n' ! pos W u = ?n ! pos W u"
    by blast
  have "w @ [?a] \<notin> (\<lambda>e. w @ [be_label e]) ` set es"
    using Cons.prems(2) by (auto simp: image_iff)
  with n'(4) e(1) here x(3) have "settledNode lower ks W (w @ [?a]) (n' ! ?t)" by metis
  with n' x(1) other show ?case by auto
qed simp

text \<open>
  The invariant of the search: the queue is ordered by depth, no state in it lies below another, and
  exactly the states below one in the queue are still untouched.
\<close>

definition searchInv ::
  "(string \<Rightarrow> string) \<Rightarrow> string list \<Rightarrow> string list \<Rightarrow> contentModerationKeywordNode list \<Rightarrow> string list \<Rightarrow> bool" where
  "searchInv lower ks W nodes Q \<longleftrightarrow>
     set Q \<subseteq> set W - {[]} \<and> distinct Q \<and> sorted (map length Q) \<and>
     (\<forall>x \<in> set Q. length x \<le> Suc (length (hd Q))) \<and>
     (\<forall>q \<in> set Q. \<forall>x \<in> set Q. \<not> strict_prefix q x) \<and>
     (\<forall>u \<in> set W. if \<exists>q \<in> set Q. strict_prefix q u then initialNode lower ks u (nodes ! pos W u)
                  else settledNode lower ks W u (nodes ! pos W u))"

lemma strict_prefix_snoc: "strict_prefix q (w @ [a]) \<longleftrightarrow> prefix q w"
  by (auto simp: strict_prefix_def dest: prefix_length_le)

lemma strict_prefix_child:
  assumes "strict_prefix w u"
  obtains a where "prefix (w @ [a]) u"
proof -
  from assms obtain zs where u: "u = w @ zs" "zs \<noteq> []" by (auto simp: strict_prefix_def prefix_def)
  then obtain a zs' where "zs = a # zs'" by (cases zs) auto
  with u that [of a] show thesis by (simp add: prefix_def)
qed

lemma child_in_trie:
  assumes "trie W nodes edges" and "u \<in> set W" and "strict_prefix w u"
  obtains a where "w @ [a] \<in> set W" "prefix (w @ [a]) u"
proof -
  obtain a where a: "prefix (w @ [a]) u" by (rule strict_prefix_child [OF assms(3)])
  then obtain v where "u = (w @ [a]) @ v" by (auto simp: prefix_def)
  with assms(1,2) have "w @ [a] \<in> set W" by (metis trie_prefix)
  with a that show thesis by blast
qed

lemma searchInv_step:
  assumes trie: "trie W nodes edges" and inv: "searchInv lower ks W nodes (w # R)"
    and out: "outOf nodes edges (pos W w) = out" and C: "C = map (\<lambda>e. w @ [be_label e]) out"
    and settled: "\<forall>u \<in> set C. settledNode lower ks W u (nodes' ! pos W u)"
    and same: "\<forall>u \<in> set W. u \<notin> set C \<longrightarrow> nodes' ! pos W u = nodes ! pos W u"
  shows "searchInv lower ks W nodes' (R @ C)"
proof -
  have w: "w \<in> set W" "w \<noteq> []" and wR: "w \<notin> set R" "\<And>q. q \<in> set R \<Longrightarrow> \<not> strict_prefix q w \<and> \<not> strict_prefix w q"
    and lenR: "\<And>q. q \<in> set R \<Longrightarrow> length w \<le> length q \<and> length q \<le> Suc (length w)"
    and RR: "\<And>q x. q \<in> set R \<Longrightarrow> x \<in> set R \<Longrightarrow> \<not> strict_prefix q x"
    using inv by (auto simp: searchInv_def)
  note ok = trie_edges [OF trie w(1), unfolded out edges_ok_def]
  have setC: "set C = {w @ [a] | a. w @ [a] \<in> set W}"
    using ok by (auto simp: C image_iff set_eq_iff)
  have distinctC: "distinct C"
    using ok by (simp add: C distinct_map inj_on_def)
  have RC: "set R \<inter> set C = {}"
    using wR(2) setC by (fastforce simp: strict_prefix_def)
  have lenC: "map length C = replicate (length C) (Suc (length w))"
    by (simp add: C comp_def map_replicate_const)
  have "sorted (map length (R @ C))"
    using inv lenR by (auto simp: searchInv_def sorted_append lenC)
  moreover have "\<forall>x \<in> set (R @ C). length x \<le> Suc (length (hd (R @ C)))"
  proof
    fix x assume x: "x \<in> set (R @ C)"
    have *: "length w \<le> length y \<and> length y \<le> Suc (length w)" if "y \<in> set (R @ C)" for y
      using that lenR setC by auto
    from x have "hd (R @ C) \<in> set (R @ C)" by (intro hd_in_set) auto
    from * [OF this] * [OF x] show "length x \<le> Suc (length (hd (R @ C)))" by simp
  qed
  moreover have "\<not> strict_prefix q x" if "q \<in> set (R @ C)" "x \<in> set (R @ C)" for q x
  proof
    assume pre: "strict_prefix q x"
    consider "q \<in> set R" "x \<in> set R" | "q \<in> set R" "x \<in> set C" | "q \<in> set C" "x \<in> set R" | "q \<in> set C" "x \<in> set C"
      using \<open>q \<in> set (R @ C)\<close> \<open>x \<in> set (R @ C)\<close> by auto
    then show False
    proof cases
      case 1
      with RR pre show ?thesis by blast
    next
      case 2
      with pre setC have "prefix q w" by (auto simp: strict_prefix_snoc)
      with 2 wR show ?thesis by (auto simp: strict_prefix_def)
    next
      case 3
      with pre setC have "strict_prefix w x"
        by (auto simp: strict_prefix_def prefix_def)
      with 3 wR show ?thesis by blast
    next
      case 4
      with pre setC show ?thesis by (auto simp: strict_prefix_def prefix_def)
    qed
  qed
  moreover have "if \<exists>q \<in> set (R @ C). strict_prefix q u then initialNode lower ks u (nodes' ! pos W u)
      else settledNode lower ks W u (nodes' ! pos W u)" if u: "u \<in> set W" for u
  proof (cases "\<exists>q \<in> set (R @ C). strict_prefix q u")
    case True
    then have "\<exists>q \<in> set (w # R). strict_prefix q u"
      using setC by (auto simp: strict_prefix_def prefix_def)
    with inv u have "initialNode lower ks u (nodes ! pos W u)"
      by (auto simp: searchInv_def)
    moreover from True calculation have "u \<notin> set C"
      using \<open>\<And>x q. q \<in> set (R @ C) \<Longrightarrow> x \<in> set (R @ C) \<Longrightarrow> \<not> strict_prefix q x\<close> by auto
    ultimately show ?thesis using True same u by simp
  next
    case False
    show ?thesis
    proof (cases "u \<in> set C")
      case True
      with False settled show ?thesis by simp
    next
      case uC: False
      have "\<not> strict_prefix w u"
      proof
        assume "strict_prefix w u"
        then obtain a where "w @ [a] \<in> set W" "prefix (w @ [a]) u"
          by (rule child_in_trie [OF trie u])
        with setC uC False show False by (auto simp: strict_prefix_def)
      qed
      with False inv u have "settledNode lower ks W u (nodes ! pos W u)"
        by (auto simp: searchInv_def)
      with False same u uC show ?thesis by simp
    qed
  qed
  moreover have "set (R @ C) \<subseteq> set W - {[]}" and "distinct (R @ C)"
    using inv setC distinctC RC by (auto simp: searchInv_def)
  ultimately show ?thesis
    unfolding searchInv_def by blast
qed

definition settledTrie ::
  "(string \<Rightarrow> string) \<Rightarrow> string list \<Rightarrow> string list \<Rightarrow> contentModerationKeywordNode list \<Rightarrow> bool" where
  "settledTrie lower ks W nodes \<longleftrightarrow> (\<forall>u \<in> set W. settledNode lower ks W u (nodes ! pos W u))"

lemma search_measure:
  assumes "searchInv lower ks W nodes (w # R)" and "searchInv lower ks W nodes' (R @ C)"
    and "set C \<subseteq> {w @ [a] | a. True}"
  shows "card {u \<in> set W. \<exists>q \<in> set (R @ C). prefix q u} < card {u \<in> set W. \<exists>q \<in> set (w # R). prefix q u}"
proof (rule psubset_card_mono)
  have "w \<in> set W" "w \<notin> set R" "\<And>q. q \<in> set R \<Longrightarrow> \<not> strict_prefix q w"
    using assms(1) by (auto simp: searchInv_def)
  then have "\<not> (\<exists>q \<in> set (R @ C). prefix q w)"
    using assms(3) by (auto simp: strict_prefix_def dest: prefix_length_le)
  moreover have "{u \<in> set W. \<exists>q \<in> set (R @ C). prefix q u} \<subseteq> {u \<in> set W. \<exists>q \<in> set (w # R). prefix q u}"
    using assms(3) by (auto dest: append_prefixD)
  ultimately show "{u \<in> set W. \<exists>q \<in> set (R @ C). prefix q u} \<subset> {u \<in> set W. \<exists>q \<in> set (w # R). prefix q u}"
    using \<open>w \<in> set W\<close> by auto
qed simp

text \<open>The search over the queue returns, and then every state has its failure link and keyword.\<close>

lemma finishQueue_ok:
  assumes ks: "\<forall>k \<in> set ks. k \<noteq> [] \<longrightarrow> lower k \<in> set W"
    and "trie W nodes edges" and "searchInv lower ks W nodes Q"
  shows "\<exists>nodes'. finishQueue edges (map (\<lambda>w. int (pos W w)) Q) nodes = Some nodes' \<and>
    trie W nodes' edges \<and> settledTrie lower ks W nodes'"
  using assms(2,3)
proof (induction "card {u \<in> set W. \<exists>q \<in> set Q. prefix q u}" arbitrary: nodes Q rule: less_induct)
  case less
  show ?case
  proof (cases Q)
    case Nil
    with less.prems show ?thesis
      by (simp add: finishQueue.simps [of edges "[]"] searchInv_def settledTrie_def)
  next
    case (Cons w R)
    let ?out = "outOf nodes edges (pos W w)" and ?C = "map (\<lambda>e. w @ [be_label e]) (outOf nodes edges (pos W w))"
    note inv = less.prems(2) [unfolded Cons]
    have w: "w \<in> set W" "w \<noteq> []" using inv by (auto simp: searchInv_def)
    note ok = trie_edges [OF less.prems(1) w(1), unfolded edges_ok_def]
    have low: "settledNode lower ks W u (nodes ! pos W u)" if "u \<in> set W" "length u \<le> length w" for u
    proof -
      have "\<not> strict_prefix q u" if "q \<in> set (w # R)" for q
        using \<open>length u \<le> length w\<close> that inv prefix_length_less [of q u] by (auto simp: searchInv_def)
      with inv that(1) show ?thesis by (auto simp: searchInv_def)
    qed
    have kids: "w @ [be_label e] \<in> set W \<and> be_target e = int (pos W (w @ [be_label e])) \<and>
        initialNode lower ks (w @ [be_label e]) (nodes ! pos W (w @ [be_label e]))" if "e \<in> set ?out" for e
    proof -
      have "w @ [be_label e] \<in> set W" using ok that by (auto simp: set_eq_iff image_iff)
      moreover have "strict_prefix w (w @ [be_label e])" by (simp add: strict_prefix_snoc)
      ultimately show ?thesis
        using ok that inv by (auto simp: searchInv_def)
    qed
    have "distinct (map be_label ?out)" using ok by simp
    from finishEdges_ok [OF ks w less.prems(1) this kids low]
    obtain n where n: "finishEdges edges (int (pos W w)) ?out nodes = Some n" "trie W n edges"
      "\<forall>e \<in> set ?out. settledNode lower ks W (w @ [be_label e]) (n ! pos W (w @ [be_label e]))"
      "\<forall>u \<in> set W. u \<notin> (\<lambda>e. w @ [be_label e]) ` set ?out \<longrightarrow> n ! pos W u = nodes ! pos W u" by blast
    have inv': "searchInv lower ks W n (R @ ?C)"
      using n(3,4) by (intro searchInv_step [OF less.prems(1) inv refl refl]) auto
    have "card {u \<in> set W. \<exists>q \<in> set (R @ ?C). prefix q u} < card {u \<in> set W. \<exists>q \<in> set Q. prefix q u}"
      unfolding Cons by (rule search_measure [OF inv inv']) auto
    from less.hyps [OF this n(2) inv']
    obtain nodes' where fin: "finishQueue edges (map (\<lambda>w. int (pos W w)) (R @ ?C)) n = Some nodes'"
      "trie W nodes' edges" "settledTrie lower ks W nodes'" by blast
    have "map (\<lambda>w. int (pos W w)) (R @ ?C) = map (\<lambda>w. int (pos W w)) R @ map be_target ?out"
      using kids by simp
    with fin(1) have "finishQueue edges (map (\<lambda>w. int (pos W w)) R @ map be_target ?out) n = Some nodes'"
      by (simp only:)
    with fin(2,3) n(1) show ?thesis
      by (simp add: Cons finishQueue.simps [of edges "_ # _"] outOf_def)
  qed
qed

text \<open>The search starts from the children of the root.\<close>

lemma searchInv_start:
  assumes trie: "trie W nodes edges" and "noFailures nodes"
    and best: "\<And>w. bestAt W nodes w = bestOf (hits lower ks (\<lambda>v. v = w))"
    and nonempty: "\<And>k. k \<noteq> [] \<Longrightarrow> lower k \<noteq> []"
  shows "searchInv lower ks W nodes (map (\<lambda>e. [be_label e]) (outOf nodes edges 0))"
proof -
  let ?Q = "map (\<lambda>e. [be_label e]) (outOf nodes edges 0)"
  have ok: "distinct (map be_label (outOf nodes edges 0)) \<and> be_label ` set (outOf nodes edges 0) = {a. [a] \<in> set W}"
    using trie_edges [OF trie trieD(4) [OF trie]] trieD(9) [OF trie] by (simp add: edges_ok_def)
  then have Q: "set ?Q = {[a] | a. [a] \<in> set W}"
    by (auto simp: image_iff set_eq_iff)
  have init: "initialNode lower ks u (nodes ! pos W u)" if "u \<in> set W" for u
    using that assms(2) best [of u] trieD(1) [OF trie] by (simp add: initialNode_def noFailures_def bestAt_def)
  have "settledNode lower ks W u (nodes ! pos W u)" if u: "u \<in> set W" "\<not> (\<exists>q \<in> set ?Q. strict_prefix q u)" for u
  proof -
    have short: "length u \<le> 1"
    proof (rule ccontr)
      assume "\<not> length u \<le> 1"
      then obtain a b v where ab: "u = [a] @ b # v" by (cases u; cases "tl u") auto
      with u(1) have "[a] \<in> set W" by (metis trie trie_prefix)
      with Q ab u(2) show False by auto
    qed
    then have suf: "suffix v u \<longleftrightarrow> v = [] \<or> v = u" for v
      by (cases u) (auto simp: suffix_Cons)
    have "hits lower ks (\<lambda>v. suffix v u) = hits lower ks (\<lambda>v. v = u)"
      using nonempty by (intro hits_cong) (auto simp: suf)
    moreover have "isFail W [] u" if "u \<noteq> []"
      using that trieD(4) [OF trie] by (auto simp: isFail_def strict_suffix_def suf)
    ultimately show ?thesis
      using init [OF u(1)] trieD(9) [OF trie] by (auto simp: settledNode_def initialNode_def)
  qed
  with init have "\<forall>u \<in> set W. if \<exists>q \<in> set ?Q. strict_prefix q u then initialNode lower ks u (nodes ! pos W u)
      else settledNode lower ks W u (nodes ! pos W u)"
    by (meson if_split)
  moreover have "sorted (map length ?Q)"
    by (simp add: comp_def map_replicate_const)
  moreover have "distinct ?Q"
    using ok by (simp add: distinct_map inj_on_def)
  moreover have "length x \<le> Suc (length (hd ?Q))" if "x \<in> set ?Q" for x
    using that Q by auto
  moreover have "\<not> strict_prefix q x" if "q \<in> set ?Q" "x \<in> set ?Q" for q x
    using that Q by (auto simp: strict_prefix_def)
  moreover have "set ?Q \<subseteq> set W - {[]}" using Q by auto
  ultimately show ?thesis
    unfolding searchInv_def by blast
qed

end
