(* ===== verification/Keyword_Search.thy ===== *)
theory Keyword_Search
  imports Keyword_Trie
begin

text \<open>
  The search of the keyword automaton (\<open>service/content_moderation_keyword_matcher.go\<close>): the
  compacted, sorted edges and their binary search give the transitions of the trie, the state after
  a text is its longest suffix in the trie, and \<open>Match\<close> returns the first keyword of the list that
  occurs in the text.
\<close>

section \<open>Sorted edges\<close>

abbreviation label_nat :: "contentModerationKeywordEdge \<Rightarrow> nat" where
  "label_nat e \<equiv> of_char (ke_label e)"

lemma insertEdge_set [simp]: "set (insertEdge e es) = insert e (set es)"
  by (induction es) auto

lemma insertEdge_sorted:
  "sorted_wrt (\<lambda>a b. label_nat b < label_nat a) es \<Longrightarrow> ke_label e \<notin> ke_label ` set es \<Longrightarrow>
   sorted_wrt (\<lambda>a b. label_nat b < label_nat a) (insertEdge e es)"
proof (induction es)
  case (Cons x es)
  have "label_nat e \<noteq> label_nat x"
    using Cons.prems(2) by (auto simp: of_char_eq_iff)
  with Cons show ?case by force
qed simp

lemma sortEdges_fold:
  assumes "sorted_wrt (\<lambda>a b. label_nat b < label_nat a) acc" and "distinct (map ke_label (out @ acc))"
  shows "sorted_wrt (\<lambda>a b. label_nat b < label_nat a) (fold insertEdge out acc) \<and>
    set (fold insertEdge out acc) = set out \<union> set acc"
  using assms
proof (induction out arbitrary: acc)
  case (Cons e out)
  have "distinct (map ke_label (insertEdge e es)) \<longleftrightarrow> distinct (map ke_label (e # es))" for e es
    by (induction es) auto
  with Cons show ?case by (auto simp: insertEdge_sorted)
qed simp

lemma sortEdges_ok:
  assumes "distinct (map ke_label out)"
  shows "sorted_wrt (\<lambda>a b. label_nat a < label_nat b) (sortEdges out)" and "set (sortEdges out) = set out"
  using sortEdges_fold [of "[]" out] assms by (simp_all add: sortEdges_def sorted_wrt_rev)

text \<open>The binary search splits its range at the label.\<close>

lemma lowerBound_ok:
  assumes "left \<le> right" and "\<And>i j. left \<le> i \<Longrightarrow> i < j \<Longrightarrow> j < right \<Longrightarrow> label_nat (edges ! i) < label_nat (edges ! j)"
  shows "left \<le> lowerBound edges label left right \<and> lowerBound edges label left right \<le> right \<and>
    (\<forall>i. left \<le> i \<and> i < lowerBound edges label left right \<longrightarrow> label_nat (edges ! i) < of_char label) \<and>
    (\<forall>i. lowerBound edges label left right \<le> i \<and> i < right \<longrightarrow> \<not> label_nat (edges ! i) < of_char label)"
  using assms
proof (induction edges label left right rule: lowerBound.induct)
  case (1 edges label left right)
  show ?case
  proof (cases "left < right")
    case True
    define mid where "mid = left + (right - left) div 2"
    have mid: "left \<le> mid" "mid < right" using True by (auto simp: mid_def)
    show ?thesis
    proof (cases "label_nat (edges ! mid) < of_char label")
      case lt: True
      have eq: "lowerBound edges label left right = lowerBound edges label (mid + 1) right"
        using True lt by (simp add: lowerBound.simps [of _ _ left right] mid_def Let_def)
      have low: "label_nat (edges ! i) < of_char label" if "left \<le> i" "i \<le> mid" for i
        using that lt mid "1.prems"(2) [of i mid] by (cases "i = mid") auto
      have "mid + 1 \<le> right" using mid by simp
      moreover have "label_nat (edges ! i) < label_nat (edges ! j)" if "mid + 1 \<le> i" "i < j" "j < right" for i j
        using that mid "1.prems"(2) by simp
      ultimately have "mid + 1 \<le> lowerBound edges label (mid + 1) right \<and>
          lowerBound edges label (mid + 1) right \<le> right \<and>
          (\<forall>i. mid + 1 \<le> i \<and> i < lowerBound edges label (mid + 1) right \<longrightarrow> label_nat (edges ! i) < of_char label) \<and>
          (\<forall>i. lowerBound edges label (mid + 1) right \<le> i \<and> i < right \<longrightarrow> \<not> label_nat (edges ! i) < of_char label)"
        using "1.IH"(1) [OF True mid_def lt] by blast
      with low mid show ?thesis
        unfolding eq by (metis Suc_eq_plus1 Suc_leI le_trans linorder_not_less le_SucI)
    next
      case ge: False
      have eq: "lowerBound edges label left right = lowerBound edges label left mid"
        using True ge by (simp add: lowerBound.simps [of _ _ left right] mid_def Let_def)
      have high: "\<not> label_nat (edges ! i) < of_char label" if "mid \<le> i" "i < right" for i
        using that ge mid "1.prems"(2) [of mid i] by (cases "i = mid") auto
      have "label_nat (edges ! i) < label_nat (edges ! j)" if "left \<le> i" "i < j" "j < mid" for i j
        using that mid "1.prems"(2) by simp
      then have "left \<le> lowerBound edges label left mid \<and> lowerBound edges label left mid \<le> mid \<and>
          (\<forall>i. left \<le> i \<and> i < lowerBound edges label left mid \<longrightarrow> label_nat (edges ! i) < of_char label) \<and>
          (\<forall>i. lowerBound edges label left mid \<le> i \<and> i < mid \<longrightarrow> \<not> label_nat (edges ! i) < of_char label)"
        using "1.IH"(2) [OF True mid_def ge mid(1)] by blast
      with high mid show ?thesis
        unfolding eq by (metis le_trans less_imp_le linorder_not_less)
    qed
  next
    case False
    then have "lowerBound edges label left right = left"
      by (simp add: lowerBound.simps [of _ _ left right])
    with False "1.prems"(1) show ?thesis by simp
  qed
qed

section \<open>Compacted edges\<close>

definition rowOf ::
  "contentModerationKeywordNode list \<Rightarrow> contentModerationKeywordBuildEdge list \<Rightarrow> nat \<Rightarrow>
   contentModerationKeywordEdge list" where
  "rowOf nodes buildEdges s = sortEdges (map (\<lambda>edge. \<lparr>ke_target = be_target edge, ke_label = be_label edge\<rparr>)
     (outOf nodes buildEdges s))"

definition compactEdges ::
  "contentModerationKeywordNode list \<Rightarrow> contentModerationKeywordBuildEdge list \<Rightarrow> nat \<Rightarrow>
   contentModerationKeywordEdge list" where
  "compactEdges nodes buildEdges n = concat (map (rowOf nodes buildEdges) [0..<n])"

text \<open>The edges of each state are a segment of the compacted edges.\<close>

lemma compact_fold:
  assumes "n \<le> length nodes"
  shows "\<exists>nodes'. fold (compactNode be) [0..<n] (nodes, []) = (nodes', compactEdges nodes be n) \<and>
    length nodes' = length nodes \<and>
    (\<forall>s < length nodes. nodes' ! s =
      (if s < n then (nodes ! s)\<lparr>kn_edgeStart := length (compactEdges nodes be s), kn_edgeCount := length (rowOf nodes be s)\<rparr>
       else nodes ! s))"
  using assms
proof (induction n)
  case (Suc n)
  then obtain nodes' where ih: "fold (compactNode be) [0..<n] (nodes, []) = (nodes', compactEdges nodes be n)"
    "length nodes' = length nodes"
    "\<forall>s < length nodes. nodes' ! s =
      (if s < n then (nodes ! s)\<lparr>kn_edgeStart := length (compactEdges nodes be s), kn_edgeCount := length (rowOf nodes be s)\<rparr>
       else nodes ! s)" by auto
  from ih(3) Suc.prems have n: "nodes' ! n = nodes ! n" by simp
  have "fold (compactNode be) [0..<Suc n] (nodes, []) =
    (nodes'[n := (nodes ! n)\<lparr>kn_edgeStart := length (compactEdges nodes be n), kn_edgeCount := length (rowOf nodes be n)\<rparr>],
     compactEdges nodes be (Suc n))"
    by (simp add: ih(1) n compactNode_def Let_def rowOf_def outOf_def compactEdges_def)
  with ih(2,3) Suc.prems show ?case by (auto simp: nth_list_update less_Suc_eq)
qed (simp add: compactEdges_def)

lemma compactEdges_nth:
  assumes "s < n" and "j < length (rowOf nodes be s)"
  shows "compactEdges nodes be n ! (length (compactEdges nodes be s) + j) = rowOf nodes be s ! j"
proof -
  have "[0..<n] = [0..<s] @ s # [Suc s..<n]"
    using assms(1) by (metis less_imp_le upt_add_eq_append le_add_diff_inverse upt_conv_Cons zero_le)
  then have "compactEdges nodes be n = compactEdges nodes be s @ rowOf nodes be s @ concat (map (rowOf nodes be) [Suc s..<n])"
    by (simp add: compactEdges_def)
  with assms(2) show ?thesis by (simp add: nth_append)
qed

section \<open>Transitions\<close>

text \<open>What the search needs of a matcher: the transitions of the trie and settled states.\<close>

definition compiled ::
  "(string \<Rightarrow> string) \<Rightarrow> string list \<Rightarrow> string list \<Rightarrow> contentModerationKeywordMatcher \<Rightarrow> bool" where
  "compiled lower ks W m \<longleftrightarrow> [] \<in> set W \<and> pos W [] = 0 \<and> (\<forall>w a. w @ [a] \<in> set W \<longrightarrow> w \<in> set W) \<and>
     (\<forall>k \<in> set ks. k \<noteq> [] \<longrightarrow> lower k \<in> set W) \<and> km_nodes m \<noteq> [] \<and> km_keywords m = ks \<and>
     (\<forall>w \<in> set W. \<forall>a. next_state m (int (pos W w)) a = (if w @ [a] \<in> set W then int (pos W (w @ [a])) else 0)) \<and>
     settledTrie lower ks W (km_nodes m)"

lemma rootTransitions_fold:
  assumes "distinct (map be_label es)"
  shows "fold (\<lambda>edge f. f(be_label edge := be_target edge)) es f a =
    (case find (\<lambda>e. be_label e = a) es of None \<Rightarrow> f a | Some e \<Rightarrow> be_target e)"
  using assms
proof (induction es arbitrary: f)
  case (Cons e es)
  then have "find (\<lambda>e'. be_label e' = be_label e) es = None"
    by (auto simp: find_None_iff image_iff)
  with Cons show ?case by auto
qed simp

lemma row_search:
  assumes "edges_ok W w out" and row: "row = sortEdges (map (\<lambda>edge. \<lparr>ke_target = be_target edge, ke_label = be_label edge\<rparr>) out)"
    and seg: "\<And>j. j < length row \<Longrightarrow> edges ! (start + j) = row ! j"
    and i: "i = lowerBound edges a start (start + length row)"
  shows "(if i < start + length row \<and> ke_label (edges ! i) = a then ke_target (edges ! i) else 0) =
    (if w @ [a] \<in> set W then int (pos W (w @ [a])) else 0)"
proof -
  have "distinct (map ke_label (map (\<lambda>edge. \<lparr>ke_target = be_target edge, ke_label = be_label edge\<rparr>) out))"
    using assms(1) by (simp add: edges_ok_def comp_def)
  note sort = sortEdges_ok [OF this, folded row]
  have mem: "x \<in> set row \<longleftrightarrow> (\<exists>e \<in> set out. x = \<lparr>ke_target = be_target e, ke_label = be_label e\<rparr>)" for x
    using sort(2) by auto
  have "label_nat (edges ! p) < label_nat (edges ! q)" if "start \<le> p" "p < q" "q < start + length row" for p q
    using that seg [of "p - start"] seg [of "q - start"] sort(1)
    by (simp add: sorted_wrt_iff_nth_less)
  from lowerBound_ok [of start "start + length row" edges a, OF _ this]
  have bound: "start \<le> i" "\<And>k. start \<le> k \<Longrightarrow> k < i \<Longrightarrow> label_nat (edges ! k) < of_char a"
    "\<And>k. i \<le> k \<Longrightarrow> k < start + length row \<Longrightarrow> \<not> label_nat (edges ! k) < of_char a"
    by (auto simp: i)
  show ?thesis
  proof (cases "w @ [a] \<in> set W")
    case True
    then have "a \<in> be_label ` set out" using assms(1) by (simp add: edges_ok_def)
    then obtain e where e: "e \<in> set out" "be_label e = a" by blast
    with mem have "\<lparr>ke_target = be_target e, ke_label = a\<rparr> \<in> set row" by auto
    then obtain j where j: "j < length row" "row ! j = \<lparr>ke_target = be_target e, ke_label = a\<rparr>"
      by (auto simp: in_set_conv_nth)
    have "i = start + j"
    proof (rule antisym)
      show "i \<le> start + j" using bound(2) [of "start + j"] j seg [OF j(1)] by fastforce
      show "start + j \<le> i"
      proof (rule ccontr)
        assume "\<not> start + j \<le> i"
        then have lt: "i - start < j" "start + (i - start) = i" using bound(1) by auto
        then have "label_nat (row ! (i - start)) < label_nat (row ! j)"
          using sort(1) j(1) by (simp add: sorted_wrt_iff_nth_less)
        moreover have "edges ! i = row ! (i - start)" using seg [of "i - start"] lt j(1) by simp
        ultimately show False using bound(3) [of i] j lt by simp
      qed
    qed
    with True j e assms(1) seg [OF j(1)] show ?thesis by (simp add: edges_ok_def)
  next
    case False
    have "ke_label (edges ! i) \<noteq> a" if "i < start + length row"
    proof
      assume a: "ke_label (edges ! i) = a"
      have "row ! (i - start) \<in> set row" using that bound(1) by simp
      moreover have "edges ! i = row ! (i - start)" using seg [of "i - start"] that bound(1) by simp
      ultimately obtain e where "e \<in> set out" "be_label e = a" using mem a by auto
      with False assms(1) show False by (auto simp: edges_ok_def set_eq_iff)
    qed
    with False show ?thesis by auto
  qed
qed

lemma next_state_compiled:
  assumes trie: "trie W n0 be" and trie': "trie W nodes be" and w: "w \<in> set W"
    and comp: "fold (compactNode be) [0..<length nodes] (nodes, []) = (nodes', edges)"
    and m: "m = \<lparr>km_nodes = nodes', km_edges = edges,
      km_rootTransitions = fold (\<lambda>edge f. f(be_label edge := be_target edge)) (outOf n0 be 0) (\<lambda>_. 0), km_keywords = ks\<rparr>"
  shows "next_state m (int (pos W w)) a = (if w @ [a] \<in> set W then int (pos W (w @ [a])) else 0)"
proof (cases "w = []")
  case True
  have ok: "edges_ok W [] (outOf n0 be 0)"
    using trie_edges [OF trie trieD(4) [OF trie]] trieD(9) [OF trie] by simp
  then have root: "km_rootTransitions m a =
      (case find (\<lambda>e. be_label e = a) (outOf n0 be 0) of None \<Rightarrow> 0 | Some e \<Rightarrow> be_target e)"
    by (simp add: m edges_ok_def rootTransitions_fold)
  have "km_rootTransitions m a = (if [a] \<in> set W then int (pos W [a]) else 0)"
  proof (cases "[a] \<in> set W")
    case True
    with ok have "a \<in> be_label ` set (outOf n0 be 0)" by (simp add: edges_ok_def)
    then obtain e where e: "e \<in> set (outOf n0 be 0)" "be_label e = a" by blast
    with ok find_label [of "outOf n0 be 0" e] True show ?thesis
      by (simp add: root edges_ok_def)
  next
    case False
    with ok have "find (\<lambda>e. be_label e = a) (outOf n0 be 0) = None"
      by (auto simp: edges_ok_def find_None_iff set_eq_iff)
    with False show ?thesis by (simp add: root)
  qed
  with True trieD(9) [OF trie] show ?thesis by (simp add: next_state_def)
next
  case False
  let ?s = "pos W w"
  have s: "?s < length nodes" "?s \<noteq> 0"
    using w trieD(1) [OF trie'] pos_zero [OF trie' w] False by simp_all
  obtain n' where n': "fold (compactNode be) [0..<length nodes] (nodes, []) = (n', compactEdges nodes be (length nodes))"
    "length n' = length nodes"
    "\<forall>s < length nodes. n' ! s =
      (if s < length nodes then (nodes ! s)\<lparr>kn_edgeStart := length (compactEdges nodes be s), kn_edgeCount := length (rowOf nodes be s)\<rparr>
       else nodes ! s)"
    using compact_fold [of "length nodes" nodes be] by blast
  with comp s have node: "nodes' ! ?s = (nodes ! ?s)\<lparr>kn_edgeStart := length (compactEdges nodes be ?s),
      kn_edgeCount := length (rowOf nodes be ?s)\<rparr>"
    and edges: "edges = compactEdges nodes be (length nodes)" and len: "length nodes' = length nodes" by simp_all
  have layout: "kn_edgeStart (nodes' ! ?s) = length (compactEdges nodes be ?s)"
    "kn_edgeCount (nodes' ! ?s) = length (rowOf nodes be ?s)" by (simp_all add: node)
  have "edges_ok W w (outOf nodes be ?s)" by (rule trie_edges [OF trie' w])
  from row_search [OF this rowOf_def compactEdges_nth [OF s(1)] refl, of a, folded edges]
  have "(let node = nodes' ! ?s; left = lowerBound edges a (kn_edgeStart node) (kn_edgeStart node + kn_edgeCount node)
      in if left < kn_edgeStart node + kn_edgeCount node \<and> ke_label (edges ! left) = a then ke_target (edges ! left) else 0) =
    (if w @ [a] \<in> set W then int (pos W (w @ [a])) else 0)"
    by (simp only: Let_def layout)
  moreover have "next_state m (int ?s) a =
    (let node = nodes' ! ?s; left = lowerBound edges a (kn_edgeStart node) (kn_edgeStart node + kn_edgeCount node)
      in if left < kn_edgeStart node + kn_edgeCount node \<and> ke_label (edges ! left) = a then ke_target (edges ! left) else 0)"
    using s len by (simp only: next_state_def m Let_def) simp
  ultimately show ?thesis by (simp only:)
qed

lemma settledNode_layout:
  "settledNode lower ks W w (x\<lparr>kn_edgeStart := s, kn_edgeCount := c\<rparr>) = settledNode lower ks W w x"
  by (simp add: settledNode_def)

text \<open>The automaton has at most one state for each byte of the keywords, and the root.\<close>

lemma insertLabels_length: "length (fst (fst (fold insertLabel v ((nodes, edges), s)))) \<le> length nodes + length v"
proof (induction v arbitrary: nodes edges s)
  case (Cons a v)
  obtain n e t where one: "insertLabel a ((nodes, edges), s) = ((n, e), t)" by (metis prod.exhaust)
  then have "length n \<le> Suc (length nodes)"
    by (auto simp: insertLabel_def Let_def split: if_splits)
  with one Cons [of n e t] show ?case by simp
qed simp

lemma buildTrie_length: "length (fst (buildTrie lower ks)) \<le> Suc (sum_list (map (\<lambda>k. length (lower k)) ks))"
proof (induction ks rule: rev_induct)
  case (snoc k ks)
  obtain n e where ks: "buildTrie lower ks = (n, e)" by fastforce
  obtain n' e' s where ins: "fold insertLabel (lower k) ((n, e), 0) = ((n', e'), s)" by (metis prod.exhaust)
  have "buildTrie lower (ks @ [k]) = insertKeyword lower (length ks, k) (n, e)"
    using ks by (simp add: buildTrie_def enumerate_append_eq)
  moreover have "length (fst (insertKeyword lower (length ks, k) (n, e))) \<le> length n + length (lower k)"
    using insertLabels_length [of "lower k" n e 0] by (simp add: insertKeyword_def ins Let_def)
  ultimately show ?case using snoc ks by simp
qed (simp add: buildTrie_def)

lemma rowOf_length: "edges_ok W w (outOf nodes be s) \<Longrightarrow> length (rowOf nodes be s) \<le> 256"
proof -
  assume ok: "edges_ok W w (outOf nodes be s)"
  have "length (fold insertEdge out acc) = length out + length acc" for out acc
  proof (induction out arbitrary: acc)
    case (Cons e out)
    have "length (insertEdge e acc) = Suc (length acc)" for acc by (induction acc) auto
    with Cons show ?case by simp
  qed simp
  then have "length (rowOf nodes be s) = length (map be_label (outOf nodes be s))"
    by (simp add: rowOf_def sortEdges_def)
  also have "\<dots> = card (set (map be_label (outOf nodes be s)))"
    using ok by (simp only: distinct_card edges_ok_def)
  also have "\<dots> \<le> card (UNIV :: char set)" by (rule card_mono) simp_all
  finally show ?thesis by (simp add: card_UNIV_char)
qed

text \<open>The construction returns: no matcher when there is no keyword, else a compiled one.\<close>

lemma newMatcher_ok:
  assumes nonempty: "\<And>k. k \<noteq> [] \<Longrightarrow> lower k \<noteq> []"
  shows "newContentModerationKeywordMatcher lower ks = Some None \<and> (\<forall>k \<in> set ks. k = []) \<or>
    (\<exists>m W. newContentModerationKeywordMatcher lower ks = Some (Some m) \<and> ks \<noteq> [] \<and> compiled lower ks W m \<and>
      length (km_nodes m) \<le> Suc (sum_list (map (\<lambda>k. length (lower k)) ks)) \<and>
      (\<forall>node \<in> set (km_nodes m). kn_edgeCount node \<le> 256))"
proof (cases "ks = []")
  case False
  obtain W nodes be where trie: "buildTrie lower ks = (nodes, be)" "trie W nodes be" "noFailures nodes"
    "\<forall>k \<in> set ks. k \<noteq> [] \<longrightarrow> lower k \<in> set W"
    "\<And>w. bestAt W nodes w = bestOf (hits lower ks (\<lambda>v. v = w))"
    by (rule buildTrie_ok [of lower ks]) (rule that)
  show ?thesis
  proof (cases "length nodes = 1")
    case True
    then have "set W = {[]}"
      using trieD(1,4) [OF trie(2)] by (cases W) auto
    with trie(4) nonempty have "\<forall>k \<in> set ks. k = []" by auto
    with True False trie(1) show ?thesis
      by (simp add: newContentModerationKeywordMatcher_def)
  next
    case many: False
    let ?Q = "map (\<lambda>e. [be_label e]) (outOf nodes be 0)"
    have inv: "searchInv lower ks W nodes ?Q"
      by (rule searchInv_start [OF trie(2,3,5) nonempty])
    have ok: "edges_ok W [] (outOf nodes be 0)"
      using trie_edges [OF trie(2) trieD(4) [OF trie(2)]] trieD(9) [OF trie(2)] by simp
    then have "map be_target (outOf nodes be 0) = map (\<lambda>w. int (pos W w)) ?Q"
      by (simp add: edges_ok_def)
    with finishQueue_ok [OF trie(4,2) inv] obtain n1 where n1:
      "finishQueue be (map be_target (outOf nodes be 0)) nodes = Some n1" "trie W n1 be" "settledTrie lower ks W n1"
      by auto
    obtain n2 where n2: "fold (compactNode be) [0..<length n1] (n1, []) = (n2, compactEdges n1 be (length n1))"
      "length n2 = length n1"
      "\<forall>s < length n1. n2 ! s =
        (if s < length n1 then (n1 ! s)\<lparr>kn_edgeStart := length (compactEdges n1 be s), kn_edgeCount := length (rowOf n1 be s)\<rparr>
         else n1 ! s)"
      using compact_fold [of "length n1" n1 be] by blast
    obtain m where m: "m = \<lparr>km_nodes = n2, km_edges = compactEdges n1 be (length n1),
      km_rootTransitions = fold (\<lambda>edge f. f(be_label edge := be_target edge)) (outOf nodes be 0) (\<lambda>_. 0),
      km_keywords = ks\<rparr>" by blast
    have "newContentModerationKeywordMatcher lower ks = Some (Some m)"
      using False many trie(1) n1(1) n2(1)
      by (simp add: newContentModerationKeywordMatcher_def Let_def m outOf_def)
    moreover have "settledTrie lower ks W n2"
      using n1(3) n2(3) trieD(1) [OF n1(2)] by (simp add: settledTrie_def settledNode_layout)
    moreover have "n2 \<noteq> []"
      using n2(2) trieD(1,4) [OF n1(2)] by (cases n1) auto
    ultimately have "compiled lower ks W m"
      using False trieD(4,9) [OF trie(2)] trieD(6) [OF trie(2)] trie(4) next_state_compiled [OF trie(2) n1(2) _ n2(1) m]
      by (auto simp: compiled_def m)
    moreover have "length (km_nodes m) \<le> Suc (sum_list (map (\<lambda>k. length (lower k)) ks))"
      using buildTrie_length [of lower ks] trie(1) n2(2) trieD(1) [OF n1(2)] trieD(1) [OF trie(2)] by (simp add: m)
    moreover have "kn_edgeCount node \<le> 256" if "node \<in> set (km_nodes m)" for node
    proof -
      from that obtain s where s: "s < length n1" "node = n2 ! s"
        using n2(2) by (auto simp: m in_set_conv_nth)
      with n2(3) have "kn_edgeCount node = length (rowOf n1 be s)" by simp
      with rowOf_length [OF trieD(7) [OF n1(2), of s]] s(1) trieD(1) [OF n1(2)] show ?thesis by simp
    qed
    ultimately show ?thesis
      using False \<open>newContentModerationKeywordMatcher lower ks = Some (Some m)\<close> by blast
  qed
qed (simp add: newContentModerationKeywordMatcher_def)

section \<open>The scan\<close>

text \<open>\<open>g\<close> is the longest suffix of \<open>v\<close> that is a word of the trie.\<close>

definition isLongest :: "string list \<Rightarrow> string \<Rightarrow> string \<Rightarrow> bool" where
  "isLongest W g v \<longleftrightarrow> g \<in> set W \<and> suffix g v \<and> (\<forall>u \<in> set W. suffix u v \<longrightarrow> suffix u g)"

lemma isLongest_snoc:
  assumes "isLongest W w v" and "isLongest W g (w @ [a])" and "\<And>u. u @ [a] \<in> set W \<Longrightarrow> u \<in> set W"
  shows "isLongest W g (v @ [a])"
proof -
  have wv: "suffix w v" and g: "g \<in> set W" "suffix g (w @ [a])"
    using assms(1,2) by (auto simp: isLongest_def)
  have "suffix (w @ [a]) (v @ [a])" using wv by simp
  with g(2) have "suffix g (v @ [a])" by (rule suffix_order.trans)
  moreover have "suffix u g" if u: "u \<in> set W" "suffix u (v @ [a])" for u
  proof -
    have "suffix u (w @ [a])"
      using u assms(1,3) by (auto simp: isLongest_def suffix_snoc)
    with u(1) assms(2) show ?thesis unfolding isLongest_def by blast
  qed
  ultimately show ?thesis using g(1) by (simp add: isLongest_def)
qed

lemma isLongest_fail:
  assumes "isFail W f w" and "isLongest W g (f @ [a])" and "w @ [a] \<notin> set W" and "\<And>u. u @ [a] \<in> set W \<Longrightarrow> u \<in> set W"
  shows "isLongest W g (w @ [a])"
proof -
  have "suffix (f @ [a]) (w @ [a])"
    using isFailD(2) [OF assms(1)] by simp
  moreover have "suffix u (f @ [a])" if "u \<in> set W" "suffix u (w @ [a])" for u
    using that assms by (auto simp: suffix_snoc isFail_def strict_suffix_def)
  ultimately show ?thesis
    using assms(2) suffix_order.trans unfolding isLongest_def by blast
qed

lemma follow_ok:
  assumes comp: "compiled lower ks W m" and "w \<in> set W"
  shows "\<exists>g. follow m a (int (pos W w)) = Some (int (pos W g)) \<and> isLongest W g (w @ [a])"
  using assms(2)
proof (induction "length w" arbitrary: w rule: less_induct)
  case less
  have next': "next_state m (int (pos W w)) a = (if w @ [a] \<in> set W then int (pos W (w @ [a])) else 0)"
    and zero: "pos W [] = 0" "[] \<in> set W" and closed: "\<And>u. u @ [a] \<in> set W \<Longrightarrow> u \<in> set W"
    using comp less.prems by (auto simp: compiled_def)
  have pos: "pos W u = 0 \<longleftrightarrow> u = []" if "u \<in> set W" for u
    using that zero by (metis pos_inj)
  consider "w @ [a] \<in> set W" | "w @ [a] \<notin> set W" "w = []" | "w @ [a] \<notin> set W" "w \<noteq> []" by blast
  then show ?case
  proof cases
    case 1
    then have "isLongest W (w @ [a]) (w @ [a])" by (simp add: isLongest_def)
    moreover have "follow m a (int (pos W w)) = Some (int (pos W (w @ [a])))"
      using 1 next' pos [OF 1] by (simp add: follow.simps [of m a "int (pos W w)"])
    ultimately show ?thesis by blast
  next
    case 2
    then have "isLongest W [] (w @ [a])"
      using zero(2) by (auto simp: isLongest_def suffix_Cons)
    moreover have "follow m a (int (pos W w)) = Some (int (pos W []))"
      using 2 next' zero by (simp add: follow.simps [of m a 0])
    ultimately show ?thesis by blast
  next
    case 3
    obtain f where f: "isFail W f w" "kn_failure (km_nodes m ! pos W w) = int (pos W f)"
      using comp less.prems 3 by (auto simp: compiled_def settledTrie_def settledNode_def)
    obtain g where g: "follow m a (int (pos W f)) = Some (int (pos W g))" "isLongest W g (f @ [a])"
      using less.hyps [OF isFailD(4,1) [OF f(1)]] by blast
    have "follow m a (int (pos W w)) = follow m a (int (pos W f))"
      using 3 next' pos [OF less.prems] f(2) by (simp add: follow.simps [of m a "int (pos W w)"])
    with g isLongest_fail [OF f(1) g(2) 3(1) closed] show ?thesis by auto
  qed
qed

lemma hits_mono: "(\<And>v. P v \<Longrightarrow> Q v) \<Longrightarrow> hits lower ks P \<subseteq> hits lower ks Q"
  by (auto simp: hits_def)

lemma bestOf_zero: "finite T \<Longrightarrow> S \<subseteq> T \<Longrightarrow> bestOf S = 0 \<Longrightarrow> bestOf T = 0"
  using Min_antimono [of S T] by (auto simp: bestOf_def split: if_splits)

lemma scan_ok:
  assumes comp: "compiled lower ks W m" and "isLongest W w v"
    and "best = bestOf (hits lower ks (\<lambda>x. sublist x v))"
  shows "scan m rest (int (pos W w)) best = Some (bestOf (hits lower ks (\<lambda>x. sublist x (v @ rest))))"
  using assms(2,3)
proof (induction rest arbitrary: v w best)
  case (Cons a rest)
  have w: "w \<in> set W" using Cons.prems(1) by (simp add: isLongest_def)
  obtain g where g: "follow m a (int (pos W w)) = Some (int (pos W g))" "isLongest W g (w @ [a])"
    using follow_ok [OF comp w] by blast
  have long: "isLongest W g (v @ [a])"
    using comp by (intro isLongest_snoc [OF Cons.prems(1) g(2)]) (auto simp: compiled_def)
  have settled: "settledNode lower ks W g (km_nodes m ! pos W g)"
    using comp long by (auto simp: compiled_def settledTrie_def isLongest_def)
  have suf: "suffix x g \<longleftrightarrow> suffix x (v @ [a])" if "x \<in> set W" for x
    using that long suffix_order.trans by (auto simp: isLongest_def)
  have "hits lower ks (\<lambda>x. suffix x g) = hits lower ks (\<lambda>x. suffix x (v @ [a]))"
    using comp suf by (intro hits_cong) (auto simp: compiled_def)
  with settled Cons.prems(2)
  have best: "minKeywordIndex best (kn_bestKeyword (km_nodes m ! pos W g)) = bestOf (hits lower ks (\<lambda>x. sublist x (v @ [a])))"
    by (simp add: settledNode_def minKeywordIndex_bestOf hits_Un sublist_snoc disj_commute)
  show ?case
  proof (cases "bestOf (hits lower ks (\<lambda>x. sublist x (v @ [a]))) = 0")
    case True
    have "hits lower ks (\<lambda>x. sublist x (v @ [a])) \<subseteq> hits lower ks (\<lambda>x. sublist x (v @ a # rest))"
    proof (rule hits_mono)
      fix x assume "sublist x (v @ [a])"
      then obtain p s where "v @ [a] = p @ x @ s" by (auto simp: sublist_def)
      then have "v @ a # rest = p @ x @ (s @ rest)" by (metis append.assoc append_Cons append_Nil)
      then show "sublist x (v @ a # rest)" unfolding sublist_def by blast
    qed
    from bestOf_zero [OF finite_hits this True] True g(1) best show ?thesis by simp
  next
    case False
    with g(1) best Cons.IH [OF long refl] show ?thesis by simp
  qed
qed simp

text \<open>The keywords that occur in the text, in their order: the reference search.\<close>

definition firstKeyword :: "(string \<Rightarrow> string) \<Rightarrow> string list \<Rightarrow> string \<Rightarrow> string option" where
  "firstKeyword lower ks text = find (\<lambda>k. k \<noteq> [] \<and> Contains (lower text) (lower k)) ks"

lemma find_hits:
  "find (\<lambda>k. k \<noteq> [] \<and> P (lower k)) ks =
    (if hits lower ks P = {} then None else Some (ks ! Min (hits lower ks P)))"
proof (cases "hits lower ks P = {}")
  case True
  then have "find (\<lambda>k. k \<noteq> [] \<and> P (lower k)) ks = None"
    by (auto simp: find_None_iff hits_def in_set_conv_nth)
  with True show ?thesis by simp
next
  case False
  let ?i = "Min (hits lower ks P)"
  have i: "?i \<in> hits lower ks P" using False by simp
  have "\<not> (ks ! j \<noteq> [] \<and> P (lower (ks ! j)))" if "j < ?i" for j
  proof
    assume "ks ! j \<noteq> [] \<and> P (lower (ks ! j))"
    then have "j \<in> hits lower ks P" using that i by (simp add: hits_def)
    then have "?i \<le> j" by simp
    with that show False by simp
  qed
  moreover have "?i < length ks" "ks ! ?i \<noteq> [] \<and> P (lower (ks ! ?i))"
    using i unfolding hits_def by blast+
  ultimately have "find (\<lambda>k. k \<noteq> [] \<and> P (lower k)) ks = Some (ks ! ?i)"
    unfolding find_Some_iff by blast
  with False show ?thesis by simp
qed

text \<open>
  C14: The keyword filter finds exactly the keywords.  The construction of the automaton returns for
  every list of keywords, the search returns for every text, and the result is the first keyword of
  the list, empty ones apart, whose lower case occurs in the lower case of the text, and none if
  there is no such keyword.
\<close>

theorem match_finds_first_keyword:
  assumes nonempty: "\<And>k. k \<noteq> [] \<Longrightarrow> lower k \<noteq> []" and empty: "lower [] = []"
  shows "newContentModerationKeywordMatcher lower ks \<bind> (\<lambda>m. Match lower m text) =
    Some (case firstKeyword lower ks text of None \<Rightarrow> ([], False) | Some k \<Rightarrow> (k, True))"
proof (rule disjE [OF newMatcher_ok [of lower ks]]; (elim exE conjE)?)
  assume "newContentModerationKeywordMatcher lower ks = Some None" and "\<forall>k \<in> set ks. k = []"
  moreover from this(2) have "firstKeyword lower ks text = None"
    by (simp add: firstKeyword_def find_None_iff)
  ultimately show ?thesis by (simp add: Match_def)
next
  fix m W
  assume new: "newContentModerationKeywordMatcher lower ks = Some (Some m)" and ks: "ks \<noteq> []" and comp: "compiled lower ks W m"
  let ?H = "hits lower ks (\<lambda>x. sublist x (lower text))"
  have first: "firstKeyword lower ks text = (if ?H = {} then None else Some (ks ! Min ?H))"
    using find_hits [of "\<lambda>v. sublist v (lower text)" lower ks] by (simp add: firstKeyword_def Contains_def)
  show ?thesis
  proof (cases "text = []")
    case True
    with empty nonempty have "?H = {}" by (auto simp: hits_def)
    with first True new show ?thesis by (simp add: Match_def)
  next
    case False
    have "isLongest W [] []" and none: "hits lower ks (\<lambda>x. sublist x []) = {}"
      using comp nonempty by (auto simp: isLongest_def compiled_def hits_def)
    with scan_ok [OF comp this(1), of "-1" "lower text"] comp
    have scan: "scan m (lower text) 0 (-1) = Some (bestOf ?H)"
      by (simp add: compiled_def)
    have "km_nodes m \<noteq> []" "km_keywords m = ks" using comp by (auto simp: compiled_def)
    with new ks False scan have eq: "newContentModerationKeywordMatcher lower ks \<bind> (\<lambda>m. Match lower m text) =
        Some (if bestOf ?H < 0 \<or> int (length ks) \<le> bestOf ?H then ([], False) else (ks ! nat (bestOf ?H), True))"
      by (simp add: Match_def)
    show ?thesis
    proof (cases "?H = {}")
      case True
      with eq first show ?thesis by simp
    next
      case H: False
      then have "Min ?H \<in> ?H" by simp
      then have "Min ?H < length ks" unfolding hits_def by blast
      with H have "\<not> (bestOf ?H < 0 \<or> int (length ks) \<le> bestOf ?H)" and "nat (bestOf ?H) = Min ?H"
        unfolding bestOf_def by (simp_all del: Min_le_iff Min_ge_iff)
      with eq first H show ?thesis by (simp only: if_False) simp
    qed
  qed
qed (rule nonempty)

text \<open>
  C29: The construction returns for every list of keywords, and what it builds fits the widths of the
  code: the automaton has at most one state for each byte of the lower-cased keywords and the root,
  and no state has more than 256 edges.
\<close>

theorem matcher_size:
  assumes "\<And>k. k \<noteq> [] \<Longrightarrow> lower k \<noteq> []"
  shows "\<exists>matcher. newContentModerationKeywordMatcher lower ks = Some matcher \<and>
    (\<forall>m. matcher = Some m \<longrightarrow> length (km_nodes m) \<le> 1 + sum_list (map (\<lambda>k. length (lower k)) ks) \<and>
       (\<forall>node \<in> set (km_nodes m). kn_edgeCount node \<le> 256))"
  by (rule disjE [OF newMatcher_ok [of lower ks]]) (use assms in auto)

theorem matcher_size_witness:
  "\<exists>m. newContentModerationKeywordMatcher (\<lambda>s. s) [''ab'', ''ac''] = Some (Some m) \<and> length (km_nodes m) \<le> 5"
proof -
  have "newContentModerationKeywordMatcher (\<lambda>s. s) [''ab'', ''ac''] \<noteq> Some None" by code_simp
  with matcher_size [of "\<lambda>s. s" "[''ab'', ''ac'']"] show ?thesis by fastforce
qed

theorem match_finds_first_keyword_witness:
  "newContentModerationKeywordMatcher (\<lambda>s. s) [''abab'', [], ''cba'', ''ab''] \<bind>
     (\<lambda>m. Match (\<lambda>s. s) m ''xcbab'') = Some (''cba'', True)"
proof -
  have "firstKeyword (\<lambda>s. s) [''abab'', [], ''cba'', ''ab''] ''xcbab'' = Some ''cba''" by code_simp
  with match_finds_first_keyword [of "\<lambda>s. s" "[''abab'', [], ''cba'', ''ab'']" "''xcbab''"] show ?thesis
    by simp
qed

end
