(* ===== verification/Abuse_Limiter.thy ===== *)
theory Abuse_Limiter
  imports Gateway_Prelude
begin

unbundle bit_operations_syntax

text \<open>
  \<open>service/invalid_auth_abuse_limiter.go\<close>: the limiter that blocks clients after repeated failed
  authentications.  The entries live in 16 shards, each an association list with distinct keys; the
  number of entries is kept apart in \<open>tracked\<close>.  Every operation takes the time it reads.  An
  operation is one step here: in the code it holds the lock of one shard at a time and changes the
  counters atomically.

  Lemmas: the count of the entries, the shard of a key, what an operation does to the entry of
  another client, and when a client is blocked.
\<close>

section \<open>State\<close>

definition invalidAuthAbuseShardCount :: nat where "invalidAuthAbuseShardCount = 16"

record invalidAuthAbuseEntry =
  ae_failures :: int
  ae_windowStart :: time
  ae_blockedUntil :: time

type_synonym invalidAuthAbuseShard = "(string \<times> invalidAuthAbuseEntry) list"

record invalidAuthOverflow =
  ao_failures :: int
  ao_windowStart :: time
  ao_blockedUntil :: time

record invalidAuthAbuseLimiter =
  al_threshold :: int
  al_window :: duration
  al_block :: duration
  al_capacity :: int
  al_shards :: "invalidAuthAbuseShard list"
  al_overflow :: invalidAuthOverflow
  al_tracked :: int
  al_recorded :: nat
  al_blocked :: nat
  al_rejected :: nat
  al_expired :: nat
  al_overflowed :: nat
  al_globalBlocked :: nat
  al_cleanupNext :: int
  al_cleanupCursor :: "32 word"

record InvalidAuthAbuseHealth =
  ah_Enabled :: bool
  ah_Tracked :: int
  ah_Capacity :: int
  ah_Recorded :: nat
  ah_Blocks :: nat
  ah_Rejected :: nat
  ah_Expired :: nat
  ah_Overflowed :: nat
  ah_GlobalBlocked :: nat

record InvalidAuthAbuseConfig =
  iac_Enabled :: bool
  iac_Threshold :: int
  iac_WindowSeconds :: int
  iac_BlockSeconds :: int
  iac_Capacity :: int

definition newInvalidAuthAbuseLimiter :: "InvalidAuthAbuseConfig option \<Rightarrow> invalidAuthAbuseLimiter option" where
  "newInvalidAuthAbuseLimiter cfg =
     (case cfg of
        None \<Rightarrow> None
      | Some c \<Rightarrow>
          if \<not> iac_Enabled c then None
          else if iac_Threshold c \<le> 0 \<or> iac_WindowSeconds c \<le> 0 \<or> iac_BlockSeconds c \<le> 0 \<or> iac_Capacity c \<le> 0
          then None
          else Some \<lparr>al_threshold = iac_Threshold c, al_window = iac_WindowSeconds c * Second,
            al_block = iac_BlockSeconds c * Second, al_capacity = iac_Capacity c,
            al_shards = replicate invalidAuthAbuseShardCount [],
            al_overflow = \<lparr>ao_failures = 0, ao_windowStart = 0, ao_blockedUntil = 0\<rparr>,
            al_tracked = 0, al_recorded = 0, al_blocked = 0, al_rejected = 0, al_expired = 0, al_overflowed = 0,
            al_globalBlocked = 0, al_cleanupNext = 0, al_cleanupCursor = 0\<rparr>)"

section \<open>Operations\<close>

text \<open>The shard of a key: its 32-bit FNV-1a hash modulo the number of shards.\<close>

definition fnv1a :: "string \<Rightarrow> 32 word" where
  "fnv1a clientKey = fold (\<lambda>c hash. (hash XOR of_char c) * 16777619) clientKey 2166136261"

definition shard :: "string \<Rightarrow> nat" where
  "shard clientKey = unat (fnv1a clientKey mod 16)"

definition entryExpired :: "duration \<Rightarrow> time \<Rightarrow> invalidAuthAbuseEntry \<Rightarrow> bool" where
  "entryExpired window now entry \<longleftrightarrow>
     \<not> now < ae_blockedUntil entry \<and> \<not> now < ae_windowStart entry \<and> \<not> now < ae_windowStart entry + window"

definition setShard :: "nat \<Rightarrow> invalidAuthAbuseShard \<Rightarrow> invalidAuthAbuseLimiter \<Rightarrow> invalidAuthAbuseLimiter" where
  "setShard i entries l = l\<lparr>al_shards := (al_shards l)[i := entries]\<rparr>"

definition reserveEntry :: "invalidAuthAbuseLimiter \<Rightarrow> bool \<times> invalidAuthAbuseLimiter" where
  "reserveEntry l =
     (if al_tracked l \<ge> al_capacity l then (False, l) else (True, l\<lparr>al_tracked := al_tracked l + 1\<rparr>))"

definition maybeCleanupAtCapacity :: "time \<Rightarrow> invalidAuthAbuseLimiter \<Rightarrow> invalidAuthAbuseLimiter" where
  "maybeCleanupAtCapacity now l =
     (if al_tracked l < al_capacity l then l
      else if UnixNano now < al_cleanupNext l then l
      else
        let l = l\<lparr>al_cleanupNext := UnixNano (now + 100 * Millisecond), al_cleanupCursor := al_cleanupCursor l + 1\<rparr>;
            index = al_cleanupCursor l - 1;
            i = unat (index mod 16);
            entries = al_shards l ! i;
            kept = filter (\<lambda>(_, entry). \<not> entryExpired (al_window l) now entry) entries;
            removed = length entries - length kept
        in setShard i kept (l\<lparr>al_tracked := al_tracked l - int removed, al_expired := al_expired l + removed\<rparr>))"

text \<open>The common beginning of \<open>check\<close> and \<open>record\<close>: the client's entry, dropped when it has expired.\<close>

definition lookupEntry ::
  "string \<Rightarrow> time \<Rightarrow> invalidAuthAbuseLimiter \<Rightarrow> invalidAuthAbuseEntry option \<times> invalidAuthAbuseLimiter" where
  "lookupEntry clientKey now l =
     (let i = shard clientKey; entries = al_shards l ! i
      in case map_of entries clientKey of
           None \<Rightarrow> (None, l)
         | Some entry \<Rightarrow>
             if entryExpired (al_window l) now entry
             then (None, setShard i (AList.delete clientKey entries)
                    (l\<lparr>al_tracked := al_tracked l - 1, al_expired := al_expired l + 1\<rparr>))
             else (Some entry, l))"

definition checkOverflow :: "time \<Rightarrow> invalidAuthAbuseLimiter \<Rightarrow> duration \<times> bool" where
  "checkOverflow now l =
     (if now < ao_blockedUntil (al_overflow l) then (ao_blockedUntil (al_overflow l) - now, True) else (0, False))"

definition check :: "string \<Rightarrow> time \<Rightarrow> invalidAuthAbuseLimiter \<Rightarrow> (duration \<times> bool) \<times> invalidAuthAbuseLimiter" where
  "check clientKey now l =
     (if clientKey = [] then ((0, False), l)
      else
        let (entry, l) = lookupEntry clientKey now (maybeCleanupAtCapacity now l)
        in case entry of
             Some e \<Rightarrow>
               if now < ae_blockedUntil e
               then ((ae_blockedUntil e - now, True), l\<lparr>al_rejected := al_rejected l + 1\<rparr>)
               else ((0, False), l)
           | None \<Rightarrow>
               if al_tracked l \<ge> al_capacity l then
                 (case checkOverflow now l of
                    (retry, True) \<Rightarrow>
                      ((retry, True), l\<lparr>al_rejected := al_rejected l + 1, al_globalBlocked := al_globalBlocked l + 1\<rparr>)
                  | (_, False) \<Rightarrow> ((0, False), l))
               else ((0, False), l))"

definition recordOverflow :: "time \<Rightarrow> invalidAuthAbuseLimiter \<Rightarrow> invalidAuthAbuseLimiter" where
  "recordOverflow now l =
     (let l = l\<lparr>al_overflowed := al_overflowed l + 1\<rparr>; o' = al_overflow l
      in if now < ao_blockedUntil o' then l
         else
           let o' = (if IsZero (ao_windowStart o') \<or> \<not> now < ao_windowStart o' + al_window l
                     then o'\<lparr>ao_windowStart := now, ao_failures := 0\<rparr> else o');
               o' = o'\<lparr>ao_failures := ao_failures o' + 1\<rparr>
           in if ao_failures o' \<ge> al_threshold l
              then l\<lparr>al_overflow := \<lparr>ao_failures = 0, ao_windowStart = now + al_block l, ao_blockedUntil = now + al_block l\<rparr>,
                     al_blocked := al_blocked l + 1\<rparr>
              else l\<lparr>al_overflow := o'\<rparr>)"

definition failEntry ::
  "invalidAuthAbuseLimiter \<Rightarrow> time \<Rightarrow> invalidAuthAbuseEntry \<Rightarrow> invalidAuthAbuseEntry \<times> bool" where
  "failEntry l now entry =
     (let entry = (if now < ae_windowStart entry \<or> \<not> now < ae_windowStart entry + al_window l
                   then entry\<lparr>ae_windowStart := now, ae_failures := 0\<rparr> else entry);
          entry = entry\<lparr>ae_failures := ae_failures entry + 1\<rparr>
      in if ae_failures entry \<ge> al_threshold l
         then (\<lparr>ae_failures = 0, ae_windowStart = now + al_block l, ae_blockedUntil = now + al_block l\<rparr>, True)
         else (entry, False))"

definition record_failure :: "string \<Rightarrow> time \<Rightarrow> invalidAuthAbuseLimiter \<Rightarrow> invalidAuthAbuseLimiter" where
  "record_failure clientKey now l =
     (if clientKey = [] then l
      else
        let l = l\<lparr>al_recorded := al_recorded l + 1\<rparr>;
            (found, l) = lookupEntry clientKey now (maybeCleanupAtCapacity now l);
            (room, l) = (if found = None then reserveEntry l else (True, l))
        in if \<not> room then recordOverflow now l
           else
             let entry = (case found of
                   None \<Rightarrow> \<lparr>ae_failures = 0, ae_windowStart = now, ae_blockedUntil = 0\<rparr> | Some e \<Rightarrow> e);
                 (entry, tripped) = (if now < ae_blockedUntil entry then (entry, False) else failEntry l now entry);
                 l = (if tripped then l\<lparr>al_blocked := al_blocked l + 1\<rparr> else l);
                 i = shard clientKey
             in setShard i (AList.update clientKey entry (al_shards l ! i)) l)"

definition health :: "invalidAuthAbuseLimiter \<Rightarrow> InvalidAuthAbuseHealth" where
  "health l = \<lparr>ah_Enabled = True, ah_Tracked = al_tracked l, ah_Capacity = al_capacity l, ah_Recorded = al_recorded l,
     ah_Blocks = al_blocked l, ah_Rejected = al_rejected l, ah_Expired = al_expired l,
     ah_Overflowed = al_overflowed l, ah_GlobalBlocked = al_globalBlocked l\<rparr>"

text \<open>The service's entry points; \<open>None\<close> is a disabled limiter.\<close>

definition CheckInvalidAuthAbuse ::
  "invalidAuthAbuseLimiter option \<Rightarrow> string \<Rightarrow> time \<Rightarrow> (duration \<times> bool) \<times> invalidAuthAbuseLimiter option" where
  "CheckInvalidAuthAbuse s clientKey now =
     (case s of None \<Rightarrow> ((0, False), None) | Some l \<Rightarrow> map_prod id Some (check clientKey now l))"

definition RecordInvalidAuthFailure :: "invalidAuthAbuseLimiter option \<Rightarrow> string \<Rightarrow> time \<Rightarrow> invalidAuthAbuseLimiter option" where
  "RecordInvalidAuthFailure s clientKey now = map_option (record_failure clientKey now) s"

definition zeroHealth :: InvalidAuthAbuseHealth where
  "zeroHealth = \<lparr>ah_Enabled = False, ah_Tracked = 0, ah_Capacity = 0, ah_Recorded = 0, ah_Blocks = 0, ah_Rejected = 0,
     ah_Expired = 0, ah_Overflowed = 0, ah_GlobalBlocked = 0\<rparr>"

definition serviceHealth :: "invalidAuthAbuseLimiter option \<Rightarrow> InvalidAuthAbuseHealth" where
  "serviceHealth s = (case s of None \<Rightarrow> zeroHealth | Some l \<Rightarrow> health l)"

section \<open>Shards and the count of entries\<close>

lemma shard_less [simp]: "shard k < 16"
  by (simp add: shard_def unat_mod)

definition total :: "invalidAuthAbuseLimiter \<Rightarrow> int" where
  "total l = int (sum_list (map length (al_shards l)))"

definition limiter_inv :: "invalidAuthAbuseLimiter \<Rightarrow> bool" where
  "limiter_inv l \<longleftrightarrow> length (al_shards l) = 16 \<and>
     (\<forall>i < 16. distinct (map fst (al_shards l ! i)) \<and> (\<forall>k \<in> fst ` set (al_shards l ! i). shard k = i)) \<and>
     al_tracked l = total l \<and> al_tracked l \<le> al_capacity l"

text \<open>The client's entry.\<close>

definition entryOf :: "invalidAuthAbuseLimiter \<Rightarrow> string \<Rightarrow> invalidAuthAbuseEntry option" where
  "entryOf l k = map_of (al_shards l ! shard k) k"

lemma setShard_fields [simp]:
  "al_tracked (setShard i es l) = al_tracked l" "al_capacity (setShard i es l) = al_capacity l"
  "al_window (setShard i es l) = al_window l" "al_block (setShard i es l) = al_block l"
  "al_threshold (setShard i es l) = al_threshold l" "al_overflow (setShard i es l) = al_overflow l"
  by (simp_all add: setShard_def)

lemma setShard_nth [simp]:
  "length (al_shards l) = 16 \<Longrightarrow> i < 16 \<Longrightarrow> al_shards (setShard i es l) ! j = (if j = i then es else al_shards l ! j)"
  by (simp add: setShard_def nth_list_update)

lemma entryOf_setShard:
  "length (al_shards l) = 16 \<Longrightarrow> i < 16 \<Longrightarrow>
   entryOf (setShard i es l) k = (if shard k = i then map_of es k else entryOf l k)"
  by (simp add: entryOf_def)

lemma total_setShard:
  assumes "length (al_shards l) = 16" and "i < 16"
  shows "total (setShard i es l) = total l + int (length es) - int (length (al_shards l ! i))"
proof -
  have "length (al_shards l ! i) \<le> sum_list (map length (al_shards l))"
    using assms by (intro member_le_sum_list) auto
  with assms show ?thesis
    by (simp add: total_def setShard_def map_update sum_list_update of_nat_diff)
qed

text \<open>Replacing a shard keeps the invariant when the count moves with it.\<close>

lemma limiter_inv_setShard:
  assumes "limiter_inv l" and "i < 16" and "distinct (map fst es)" and "\<forall>k \<in> fst ` set es. shard k = i"
    and "al_shards l' = al_shards l" and "al_capacity l' = al_capacity l"
    and "al_tracked l' = al_tracked l + int (length es) - int (length (al_shards l ! i))"
    and "al_tracked l' \<le> al_capacity l"
  shows "limiter_inv (setShard i es l')"
proof -
  have "length (al_shards l') = 16" using assms(1,5) by (simp add: limiter_inv_def)
  moreover have "total l' = total l" using assms(5) by (simp add: total_def)
  moreover have "length (al_shards (setShard i es l')) = 16" using calculation(1) by (simp add: setShard_def)
  ultimately show ?thesis
    using assms total_setShard [of l' i es] by (simp add: limiter_inv_def)
qed

section \<open>What the operations do to the entries\<close>

lemma cleanup_fields [simp]:
  "al_capacity (maybeCleanupAtCapacity now l) = al_capacity l" "al_window (maybeCleanupAtCapacity now l) = al_window l"
  "al_block (maybeCleanupAtCapacity now l) = al_block l" "al_threshold (maybeCleanupAtCapacity now l) = al_threshold l"
  "al_overflow (maybeCleanupAtCapacity now l) = al_overflow l"
  by (simp_all add: maybeCleanupAtCapacity_def Let_def)

lemma cleanup_acts:
  obtains "maybeCleanupAtCapacity now l = l"
  | i l' where "i < 16" "al_tracked l \<ge> al_capacity l" "al_shards l' = al_shards l" "al_capacity l' = al_capacity l"
    "al_tracked l' = al_tracked l + int (length (filter (\<lambda>(_, entry). \<not> entryExpired (al_window l) now entry) (al_shards l ! i))) -
       int (length (al_shards l ! i))"
    "maybeCleanupAtCapacity now l =
       setShard i (filter (\<lambda>(_, entry). \<not> entryExpired (al_window l) now entry) (al_shards l ! i)) l'"
proof (cases "al_tracked l < al_capacity l \<or> UnixNano now < al_cleanupNext l")
  case True
  with that(1) show thesis by (auto simp: maybeCleanupAtCapacity_def)
next
  case False
  let ?i = "unat (al_cleanupCursor l mod 16)"
  let ?kept = "filter (\<lambda>(_, entry). \<not> entryExpired (al_window l) now entry) (al_shards l ! ?i)"
  have "length ?kept \<le> length (al_shards l ! ?i)" by simp
  then show thesis
    using False
    by (intro that(2) [of ?i "l\<lparr>al_cleanupNext := UnixNano (now + 100 * Millisecond),
        al_cleanupCursor := al_cleanupCursor l + 1,
        al_tracked := al_tracked l - int (length (al_shards l ! ?i) - length ?kept),
        al_expired := al_expired l + (length (al_shards l ! ?i) - length ?kept)\<rparr>"])
      (simp_all add: maybeCleanupAtCapacity_def Let_def unat_mod of_nat_diff)
qed

lemma cleanup_inv:
  assumes "limiter_inv l"
  shows "limiter_inv (maybeCleanupAtCapacity now l)"
proof (rule cleanup_acts [of now l])
  fix i l'
  let ?kept = "filter (\<lambda>(_, entry). \<not> entryExpired (al_window l) now entry) (al_shards l ! i)"
  assume act: "i < 16" "al_shards l' = al_shards l" "al_capacity l' = al_capacity l"
    "al_tracked l' = al_tracked l + int (length ?kept) - int (length (al_shards l ! i))"
    "maybeCleanupAtCapacity now l = setShard i ?kept l'"
  have "int (length ?kept) \<le> int (length (al_shards l ! i))" by simp
  then have "al_tracked l' \<le> al_capacity l"
    using act(4) assms unfolding limiter_inv_def by linarith
  moreover have "distinct (map fst ?kept)" and "\<forall>k \<in> fst ` set ?kept. shard k = i"
    using assms act(1) by (auto simp: limiter_inv_def distinct_map_filter)
  ultimately show ?thesis
    unfolding act(5) using act(1-4) by (intro limiter_inv_setShard [OF assms])
qed (use assms in simp)

text \<open>A clean-up removes expired entries only.\<close>

lemma cleanup_entry:
  assumes "limiter_inv l"
  shows "entryOf (maybeCleanupAtCapacity now l) k = entryOf l k \<or>
    (\<exists>e. entryOf l k = Some e \<and> entryExpired (al_window l) now e \<and> entryOf (maybeCleanupAtCapacity now l) k = None)"
proof (rule cleanup_acts [of now l])
  fix i l'
  assume act: "i < 16" "al_shards l' = al_shards l"
    "maybeCleanupAtCapacity now l =
       setShard i (filter (\<lambda>(_, entry). \<not> entryExpired (al_window l) now entry) (al_shards l ! i)) l'"
  have distinct: "distinct (map fst (al_shards l ! i))" and len: "length (al_shards l') = 16"
    using assms act(1,2) by (auto simp: limiter_inv_def)
  show ?thesis
    unfolding act(3) entryOf_setShard [OF len act(1)]
    using act(2) map_of_filter_value [OF distinct, of "\<lambda>e. \<not> entryExpired (al_window l) now e" k]
    by (cases "map_of (al_shards l ! i) k") (auto simp: entryOf_def)
qed simp

definition liveEntry :: "invalidAuthAbuseLimiter \<Rightarrow> time \<Rightarrow> string \<Rightarrow> invalidAuthAbuseEntry option" where
  "liveEntry l now k = (case entryOf l k of
     None \<Rightarrow> None | Some e \<Rightarrow> if entryExpired (al_window l) now e then None else Some e)"

lemma lookupEntry_ok:
  assumes inv: "limiter_inv l" and "lookupEntry c now l = (found, l')"
  shows "limiter_inv l'" and "found = liveEntry l now c" and "entryOf l' c = found"
    and "k \<noteq> c \<Longrightarrow> entryOf l' k = entryOf l k"
    and "al_capacity l' = al_capacity l" "al_window l' = al_window l" "al_block l' = al_block l"
    "al_threshold l' = al_threshold l" "al_overflow l' = al_overflow l" "al_tracked l' \<le> al_tracked l"
proof -
  let ?i = "shard c" and ?es = "al_shards l ! shard c"
  have es: "distinct (map fst ?es)" "\<forall>k \<in> fst ` set ?es. shard k = ?i" "length (al_shards l) = 16"
    and le: "al_tracked l \<le> al_capacity l"
    using inv by (auto simp: limiter_inv_def)
  obtain l1 where l1: "l1 = l\<lparr>al_tracked := al_tracked l - 1, al_expired := al_expired l + 1\<rparr>" by blast
  have cases': "(found, l') = (entryOf l c, l) \<and> liveEntry l now c = entryOf l c \<or>
    (\<exists>e. entryOf l c = Some e) \<and> found = None \<and> liveEntry l now c = None \<and> l' = setShard ?i (AList.delete c ?es) l1"
    using assms(2) by (auto simp: lookupEntry_def entryOf_def liveEntry_def Let_def l1 split: option.splits if_splits)
  have del: "limiter_inv (setShard ?i (AList.delete c ?es) l1)" if "entryOf l c = Some e" for e
  proof (rule limiter_inv_setShard [OF inv])
    have "Suc (length (AList.delete c ?es)) = length ?es"
      using that by (intro length_delete [OF es(1)] map_of_key [of _ _ e]) (simp add: entryOf_def)
    then show "al_tracked l1 = al_tracked l + int (length (AList.delete c ?es)) - int (length ?es)"
      by (simp add: l1)
    show "\<forall>k \<in> fst ` set (AList.delete c ?es). shard k = ?i"
      using es(2) dom_delete_subset [of c ?es] by blast
  qed (use le es(1) in \<open>simp_all add: l1 distinct_delete\<close>)
  have look: "entryOf (setShard ?i (AList.delete c ?es) l1) k = (if k = c then None else entryOf l k)" for k
    using es(3) by (simp add: entryOf_setShard l1 delete_conv') (simp add: entryOf_def)
  have l1f: "al_capacity l1 = al_capacity l" "al_window l1 = al_window l" "al_block l1 = al_block l"
    "al_threshold l1 = al_threshold l" "al_overflow l1 = al_overflow l" "al_tracked l1 = al_tracked l - 1"
    by (simp_all add: l1)
  show "limiter_inv l'" "found = liveEntry l now c" "entryOf l' c = found" "k \<noteq> c \<Longrightarrow> entryOf l' k = entryOf l k"
    "al_capacity l' = al_capacity l" "al_window l' = al_window l" "al_block l' = al_block l"
    "al_threshold l' = al_threshold l" "al_overflow l' = al_overflow l" "al_tracked l' \<le> al_tracked l"
    using cases' inv del l1f by (auto simp: look)
qed

text \<open>Dropping expired entries twice is dropping them once, also when a clean-up came before.\<close>

lemma liveEntry_cleanup:
  assumes "limiter_inv l"
  shows "liveEntry (maybeCleanupAtCapacity now l) now k = liveEntry l now k"
  using cleanup_entry [OF assms, of now k]
  by (cases "entryOf l k") (auto simp: liveEntry_def)

lemma check_ok:
  assumes inv: "limiter_inv l" and c: "c \<noteq> []" and check: "check c now l = (res, l')"
  shows "limiter_inv l'"
    and "entryOf l' c = liveEntry l now c"
    and "k \<noteq> c \<Longrightarrow> entryOf l' k = entryOf (maybeCleanupAtCapacity now l) k"
    and "al_capacity l' = al_capacity l" "al_window l' = al_window l" "al_block l' = al_block l"
    "al_threshold l' = al_threshold l"
    and "liveEntry l now c = Some e \<Longrightarrow>
      res = (if now < ae_blockedUntil e then (ae_blockedUntil e - now, True) else (0, False))"
    and "liveEntry l now c = None \<Longrightarrow> ao_blockedUntil (al_overflow l) \<le> now \<Longrightarrow> res = (0, False)"
proof -
  obtain found l1 where look: "lookupEntry c now (maybeCleanupAtCapacity now l) = (found, l1)" by fastforce
  note ok = lookupEntry_ok [OF cleanup_inv [OF inv] look]
  have found: "found = liveEntry l now c" using ok(2) liveEntry_cleanup [OF inv] by simp
  have shards: "al_shards l' = al_shards l1 \<and> al_tracked l' = al_tracked l1 \<and> al_capacity l' = al_capacity l1 \<and>
    al_window l' = al_window l1 \<and> al_block l' = al_block l1 \<and> al_threshold l' = al_threshold l1"
    using check c by (cases found) (auto simp: check_def look Let_def split: prod.splits if_splits bool.splits)
  then have same: "entryOf l' k = entryOf l1 k" for k by (simp add: entryOf_def)
  show "limiter_inv l'" using ok(1) shards by (simp add: limiter_inv_def total_def)
  show "entryOf l' c = liveEntry l now c" using ok(3) found same by simp
  show "k \<noteq> c \<Longrightarrow> entryOf l' k = entryOf (maybeCleanupAtCapacity now l) k" using ok(4) same by simp
  show "al_capacity l' = al_capacity l" "al_window l' = al_window l" "al_block l' = al_block l"
    "al_threshold l' = al_threshold l" using shards ok(5-8) by simp_all
  show "liveEntry l now c = Some e \<Longrightarrow>
      res = (if now < ae_blockedUntil e then (ae_blockedUntil e - now, True) else (0, False))"
    using check c found by (auto simp: check_def look Let_def split: if_splits)
  show "liveEntry l now c = None \<Longrightarrow> ao_blockedUntil (al_overflow l) \<le> now \<Longrightarrow> res = (0, False)"
    using check c found ok(9) by (auto simp: check_def look Let_def checkOverflow_def split: if_splits)
qed

lemma recordOverflow_fields [simp]:
  "al_shards (recordOverflow now l) = al_shards l" "al_tracked (recordOverflow now l) = al_tracked l"
  "al_capacity (recordOverflow now l) = al_capacity l" "al_window (recordOverflow now l) = al_window l"
  "al_block (recordOverflow now l) = al_block l" "al_threshold (recordOverflow now l) = al_threshold l"
  by (simp_all add: recordOverflow_def Let_def)

lemma failEntry_cong:
  "al_window l = al_window l' \<Longrightarrow> al_block l = al_block l' \<Longrightarrow> al_threshold l = al_threshold l' \<Longrightarrow>
   failEntry l now e = failEntry l' now e"
  by (simp add: failEntry_def Let_def)

definition newEntry :: "time \<Rightarrow> invalidAuthAbuseEntry" where
  "newEntry now = \<lparr>ae_failures = 0, ae_windowStart = now, ae_blockedUntil = 0\<rparr>"

text \<open>What a recorded failure makes of the client's live entry.\<close>

definition nextEntry :: "invalidAuthAbuseLimiter \<Rightarrow> time \<Rightarrow> invalidAuthAbuseEntry option \<Rightarrow> invalidAuthAbuseEntry" where
  "nextEntry l now found =
     (let entry = (case found of None \<Rightarrow> newEntry now | Some e \<Rightarrow> e)
      in if now < ae_blockedUntil entry then entry else fst (failEntry l now entry))"

lemma update_inv:
  assumes "limiter_inv l" and "entryOf l c = None \<longrightarrow> al_tracked l < al_capacity l"
    and "al_shards l' = al_shards l" "al_capacity l' = al_capacity l"
    and "al_tracked l' = al_tracked l + (if entryOf l c = None then 1 else 0)"
  shows "limiter_inv (setShard (shard c) (AList.update c e (al_shards l ! shard c)) l')"
proof (rule limiter_inv_setShard [OF assms(1)])
  have es: "distinct (map fst (al_shards l ! shard c))" "\<forall>k \<in> fst ` set (al_shards l ! shard c). shard k = shard c"
    and le: "al_tracked l \<le> al_capacity l"
    using assms(1) by (auto simp: limiter_inv_def)
  show "distinct (map fst (AList.update c e (al_shards l ! shard c)))" using es(1) by (rule distinct_update)
  show "\<forall>k \<in> fst ` set (AList.update c e (al_shards l ! shard c)). shard k = shard c"
    using es(2) by (simp add: dom_update)
  have none: "entryOf l c = None \<longleftrightarrow> c \<notin> fst ` set (al_shards l ! shard c)"
    by (simp add: entryOf_def map_of_eq_None_iff)
  show "al_tracked l' = al_tracked l + int (length (AList.update c e (al_shards l ! shard c))) -
      int (length (al_shards l ! shard c))"
    using assms(5) by (simp add: none length_update)
  show "al_tracked l' \<le> al_capacity l" using assms(2,5) le by (cases "entryOf l c") simp_all
qed (use assms in simp_all)

lemma record_full:
  assumes "c \<noteq> []"
    and "lookupEntry c now (maybeCleanupAtCapacity now (l\<lparr>al_recorded := al_recorded l + 1\<rparr>)) = (None, l1)"
    and "al_capacity l1 \<le> al_tracked l1"
  shows "record_failure c now l = recordOverflow now l1"
  using assms by (simp add: record_failure_def Let_def reserveEntry_def)

lemma record_room:
  assumes "c \<noteq> []"
    and "lookupEntry c now (maybeCleanupAtCapacity now (l\<lparr>al_recorded := al_recorded l + 1\<rparr>)) = (found, l1)"
    and "found \<noteq> None \<or> al_tracked l1 < al_capacity l1"
  shows "\<exists>l2. al_shards l2 = al_shards l1 \<and> al_capacity l2 = al_capacity l1 \<and> al_window l2 = al_window l1 \<and>
    al_block l2 = al_block l1 \<and> al_threshold l2 = al_threshold l1 \<and>
    al_tracked l2 = al_tracked l1 + (if found = None then 1 else 0) \<and>
    record_failure c now l = setShard (shard c) (AList.update c (nextEntry l1 now found) (al_shards l1 ! shard c)) l2"
proof -
  obtain l1' where l1': "l1' = (if found = None then l1\<lparr>al_tracked := al_tracked l1 + 1\<rparr> else l1)" by blast
  have fail: "failEntry l1' t e = failEntry l1 t e" for t e
    by (rule failEntry_cong) (simp_all add: l1')
  have reserve: "(if found = None then reserveEntry l1 else (True, l1)) = (True, l1')"
    using assms(3) by (auto simp: reserveEntry_def l1')
  obtain entry where entry: "entry = (case found of None \<Rightarrow> newEntry now | Some e \<Rightarrow> e)" by blast
  obtain tripped where "tripped \<longleftrightarrow> \<not> now < ae_blockedUntil entry \<and> snd (failEntry l1 now entry)" by blast
  then have trip: "(if now < ae_blockedUntil entry then (entry, False) else failEntry l1 now entry) =
      (nextEntry l1 now found, tripped)"
    by (simp add: nextEntry_def prod_eq_iff flip: entry)
  have "record_failure c now l = setShard (shard c) (AList.update c (nextEntry l1 now found) (al_shards l1 ! shard c))
      (if tripped then l1'\<lparr>al_blocked := al_blocked l1' + 1\<rparr> else l1')"
    unfolding record_failure_def Let_def
    by (simp only: assms(1,2) if_False prod.case reserve simp_thms fail trip flip: entry [unfolded newEntry_def])
      (simp add: l1')
  then show ?thesis
    by (intro exI [of _ "if tripped then l1'\<lparr>al_blocked := al_blocked l1' + 1\<rparr> else l1'"]) (simp add: l1')
qed

lemma record_ok:
  assumes inv: "limiter_inv l" and c: "c \<noteq> []" and l': "l' = record_failure c now l"
  shows "limiter_inv l'"
    and "k \<noteq> c \<Longrightarrow> entryOf l' k = entryOf (maybeCleanupAtCapacity now l) k"
    and "al_capacity l' = al_capacity l" "al_window l' = al_window l" "al_block l' = al_block l"
    "al_threshold l' = al_threshold l"
    and "liveEntry l now c \<noteq> None \<or> al_tracked l < al_capacity l \<Longrightarrow>
      entryOf l' c = Some (nextEntry l now (liveEntry l now c))"
proof -
  let ?l0 = "l\<lparr>al_recorded := al_recorded l + 1\<rparr>"
  have l0: "limiter_inv ?l0" "maybeCleanupAtCapacity now ?l0 = (maybeCleanupAtCapacity now l)\<lparr>al_recorded := al_recorded l + 1\<rparr>"
    "liveEntry ?l0 now c = liveEntry l now c"
    using inv by (simp_all add: limiter_inv_def total_def maybeCleanupAtCapacity_def setShard_def Let_def liveEntry_def entryOf_def
        split: option.split)
  obtain found l1 where look: "lookupEntry c now (maybeCleanupAtCapacity now ?l0) = (found, l1)" by fastforce
  note ok = lookupEntry_ok [OF cleanup_inv [OF l0(1)] look]
  have found: "found = liveEntry l now c" using ok(2) liveEntry_cleanup [OF l0(1)] l0(3) by simp
  have other: "entryOf l1 k = entryOf (maybeCleanupAtCapacity now l) k" if "k \<noteq> c" for k
    using ok(4) [OF that] unfolding l0(2) by (simp add: entryOf_def)
  have fields: "al_capacity l1 = al_capacity l" "al_window l1 = al_window l" "al_block l1 = al_block l"
    "al_threshold l1 = al_threshold l" using ok(5-8) by simp_all
  have len: "length (al_shards l1) = 16" using ok(1) by (simp add: limiter_inv_def)
  have next': "nextEntry l1 now found = nextEntry l now found"
    using fields by (simp add: nextEntry_def Let_def failEntry_cong [of l1 l])
  have "limiter_inv l' \<and> (k \<noteq> c \<longrightarrow> entryOf l' k = entryOf (maybeCleanupAtCapacity now l) k) \<and>
    al_capacity l' = al_capacity l \<and> al_window l' = al_window l \<and> al_block l' = al_block l \<and>
    al_threshold l' = al_threshold l \<and>
    (liveEntry l now c \<noteq> None \<or> al_tracked l < al_capacity l \<longrightarrow>
      entryOf l' c = Some (nextEntry l now (liveEntry l now c)))"
  proof (cases "found \<noteq> None \<or> al_tracked l1 < al_capacity l1")
    case True
    with record_room [OF c look] obtain l2 where l2: "al_shards l2 = al_shards l1" "al_capacity l2 = al_capacity l1"
      "al_window l2 = al_window l1" "al_block l2 = al_block l1" "al_threshold l2 = al_threshold l1"
      "al_tracked l2 = al_tracked l1 + (if found = None then 1 else 0)"
      "l' = setShard (shard c) (AList.update c (nextEntry l1 now found) (al_shards l1 ! shard c)) l2"
      unfolding l' by blast
    have "limiter_inv l'"
      unfolding l2(7) using True ok(3) l2 by (intro update_inv [OF ok(1)]) auto
    moreover have "entryOf l' k = entryOf (maybeCleanupAtCapacity now l) k" if "k \<noteq> c"
    proof -
      have "entryOf l2 k = entryOf l1 k" "length (al_shards l2) = 16" using l2(1) len by (simp_all add: entryOf_def)
      with that other [OF that] show ?thesis
        unfolding l2(7) by (simp add: entryOf_setShard update_conv') (auto simp: entryOf_def)
    qed
    moreover have "entryOf l' c = Some (nextEntry l now (liveEntry l now c))"
      using len l2 found next' by (simp add: entryOf_setShard update_conv')
    ultimately show ?thesis
      using fields l2 by simp
  next
    case False
    then have none: "found = None" "al_capacity l1 \<le> al_tracked l1" by auto
    with record_full [OF c look [unfolded none(1)]] l'
    have full: "l' = recordOverflow now l1" "found = None" "al_capacity l1 \<le> al_tracked l1" by simp_all
    have "al_tracked l1 \<le> al_tracked l" if "al_tracked l < al_capacity l"
      using that ok(10) by (simp add: l0(2)) (simp add: maybeCleanupAtCapacity_def)
    with full(3) fields have "\<not> al_tracked l < al_capacity l" by linarith
    with full found ok(1) other fields show ?thesis
      by (simp add: limiter_inv_def total_def entryOf_def)
  qed
  then show "limiter_inv l'" "k \<noteq> c \<Longrightarrow> entryOf l' k = entryOf (maybeCleanupAtCapacity now l) k"
    "al_capacity l' = al_capacity l" "al_window l' = al_window l" "al_block l' = al_block l"
    "al_threshold l' = al_threshold l"
    "liveEntry l now c \<noteq> None \<or> al_tracked l < al_capacity l \<Longrightarrow>
      entryOf l' c = Some (nextEntry l now (liveEntry l now c))" by blast+
qed

section \<open>Runs\<close>

datatype abuse_op = Check string time | Record string time

fun opClient :: "abuse_op \<Rightarrow> string" where
  "opClient (Check c now) = c"
| "opClient (Record c now) = c"

fun opTime :: "abuse_op \<Rightarrow> time" where
  "opTime (Check c now) = now"
| "opTime (Record c now) = now"

fun abuse_step :: "abuse_op \<Rightarrow> invalidAuthAbuseLimiter \<Rightarrow> invalidAuthAbuseLimiter" where
  "abuse_step (Check c now) l = snd (check c now l)"
| "abuse_step (Record c now) l = record_failure c now l"

definition abuse_run :: "abuse_op list \<Rightarrow> invalidAuthAbuseLimiter \<Rightarrow> invalidAuthAbuseLimiter" where
  "abuse_run ops l = fold abuse_step ops l"

lemma abuse_run_simps [simp]:
  "abuse_run [] l = l" "abuse_run (op # ops) l = abuse_run ops (abuse_step op l)"
  by (simp_all add: abuse_run_def)

lemma step_nil: "opClient op = [] \<Longrightarrow> abuse_step op l = l"
  by (cases op) (simp_all add: check_def record_failure_def)

lemma step_ok:
  assumes "limiter_inv l"
  shows "limiter_inv (abuse_step op l)" and "al_capacity (abuse_step op l) = al_capacity l"
    and "al_window (abuse_step op l) = al_window l" and "al_block (abuse_step op l) = al_block l"
    and "al_threshold (abuse_step op l) = al_threshold l"
    and "k \<noteq> opClient op \<Longrightarrow> entryOf (abuse_step op l) k = entryOf l k \<or>
      entryOf (abuse_step op l) k = entryOf (maybeCleanupAtCapacity (opTime op) l) k"
proof -
  have "limiter_inv (abuse_step op l) \<and> al_capacity (abuse_step op l) = al_capacity l \<and>
    al_window (abuse_step op l) = al_window l \<and> al_block (abuse_step op l) = al_block l \<and>
    al_threshold (abuse_step op l) = al_threshold l \<and>
    (k \<noteq> opClient op \<longrightarrow> entryOf (abuse_step op l) k = entryOf l k \<or>
      entryOf (abuse_step op l) k = entryOf (maybeCleanupAtCapacity (opTime op) l) k)"
  proof (cases "opClient op = []")
    case True
    with assms show ?thesis by (simp add: step_nil)
  next
    case False
    show ?thesis
    proof (cases op)
      case (Check c now)
      obtain res l' where "check c now l = (res, l')" by fastforce
      with Check False check_ok(1,3-7) [OF assms _ this] show ?thesis by simp
    next
      case (Record c now)
      with False record_ok(1-6) [OF assms _ refl, of c] show ?thesis by simp
    qed
  qed
  then show "limiter_inv (abuse_step op l)" "al_capacity (abuse_step op l) = al_capacity l"
    "al_window (abuse_step op l) = al_window l" "al_block (abuse_step op l) = al_block l"
    "al_threshold (abuse_step op l) = al_threshold l"
    "k \<noteq> opClient op \<Longrightarrow> entryOf (abuse_step op l) k = entryOf l k \<or>
      entryOf (abuse_step op l) k = entryOf (maybeCleanupAtCapacity (opTime op) l) k" by blast+
qed

lemma run_ok:
  "limiter_inv l \<Longrightarrow> limiter_inv (abuse_run ops l) \<and> al_capacity (abuse_run ops l) = al_capacity l \<and>
    al_window (abuse_run ops l) = al_window l \<and> al_block (abuse_run ops l) = al_block l \<and>
    al_threshold (abuse_run ops l) = al_threshold l"
  by (induction ops arbitrary: l) (simp_all add: step_ok)

text \<open>An entry that is not expired at the time of an operation of another client stays.\<close>

lemma other_keeps:
  assumes "limiter_inv l" and "k \<noteq> opClient op" and "entryOf l k = Some e" and "\<not> entryExpired (al_window l) (opTime op) e"
  shows "entryOf (abuse_step op l) k = Some e"
  using step_ok(6) [OF assms(1,2)] cleanup_entry [OF assms(1), of "opTime op" k] assms(3,4) by auto

lemma live_Some: "entryOf l k = Some e \<Longrightarrow> \<not> entryExpired (al_window l) now e \<Longrightarrow> liveEntry l now k = Some e"
  by (simp add: liveEntry_def)

lemma blocked_step:
  assumes "limiter_inv l" and "entryOf l k = Some e" and "opTime op < ae_blockedUntil e"
  shows "entryOf (abuse_step op l) k = Some e"
proof (cases "opClient op = k")
  case False
  with assms other_keeps show ?thesis by (simp add: entryExpired_def)
next
  case True
  note live = live_Some [OF assms(2), of "opTime op"]
  have alive: "\<not> entryExpired (al_window l) (opTime op) e" using assms(3) by (simp add: entryExpired_def)
  show ?thesis
  proof (cases "k = []")
    case False
    show ?thesis
    proof (cases op)
      case (Check c now)
      obtain res l' where "check c now l = (res, l')" by fastforce
      with Check True False check_ok(2) [OF assms(1) _ this] live alive show ?thesis by simp
    next
      case (Record c now)
      with True False record_ok(7) [OF assms(1) _ refl, of c now] live alive assms(3) show ?thesis
        by (simp add: nextEntry_def)
    qed
  qed (use True assms(2) in \<open>simp add: step_nil\<close>)
qed

lemma blocked_run:
  assumes "limiter_inv l" and "entryOf l k = Some e" and "\<forall>op \<in> set ops. opTime op < ae_blockedUntil e"
  shows "entryOf (abuse_run ops l) k = Some e"
  using assms by (induction ops arbitrary: l) (simp_all add: step_ok blocked_step)

text \<open>An entry with \<open>n\<close> failures in the window that began at \<open>t0\<close>.\<close>

definition countedFailures :: "int \<Rightarrow> time \<Rightarrow> invalidAuthAbuseEntry \<Rightarrow> bool" where
  "countedFailures n t0 e \<longleftrightarrow> ae_failures e = n \<and> ae_windowStart e = t0 \<and> ae_blockedUntil e = 0"

definition isRecord :: "string \<Rightarrow> abuse_op \<Rightarrow> bool" where
  "isRecord k op = (case op of Record c now \<Rightarrow> c = k | Check c now \<Rightarrow> False)"

definition inWindow :: "time \<Rightarrow> duration \<Rightarrow> abuse_op \<Rightarrow> bool" where
  "inWindow t0 window op \<longleftrightarrow> t0 \<le> opTime op \<and> opTime op < t0 + window"

lemma counted_alive:
  assumes "countedFailures n t0 e" and "t0 \<le> now" and "now < t0 + window"
  shows "\<not> entryExpired window now e"
  using assms by (simp add: countedFailures_def entryExpired_def)

lemma failed_count:
  assumes "countedFailures n t0 e" and "0 < t0" and "t0 \<le> now" and "now < t0 + al_window l"
  shows "n + 1 < al_threshold l \<Longrightarrow> countedFailures (n + 1) t0 (nextEntry l now (Some e))"
    and "al_threshold l \<le> n + 1 \<Longrightarrow> ae_blockedUntil (nextEntry l now (Some e)) = now + al_block l"
  using assms by (simp_all add: countedFailures_def nextEntry_def failEntry_def Let_def)

lemma counted_step:
  assumes inv: "limiter_inv l" and k: "k \<noteq> []" and e: "entryOf l k = Some e" "countedFailures n t0 e"
    and t: "0 < t0" "inWindow t0 (al_window l) op" and less: "n + of_bool (isRecord k op) < al_threshold l"
  shows "\<exists>e'. entryOf (abuse_step op l) k = Some e' \<and> countedFailures (n + of_bool (isRecord k op)) t0 e'"
proof -
  have time: "t0 \<le> opTime op" "opTime op < t0 + al_window l" using t(2) by (simp_all add: inWindow_def)
  note alive = counted_alive [OF e(2) time]
  show ?thesis
  proof (cases "opClient op = k")
    case False
    with other_keeps [OF inv _ e(1) alive] e(2) show ?thesis
      by (cases op) (auto simp: isRecord_def)
  next
    case True
    show ?thesis
    proof (cases op)
      case (Check c now)
      obtain res l' where "check c now l = (res, l')" by fastforce
      with Check True k check_ok(2) [OF inv _ this] live_Some [OF e(1)] alive e(2) show ?thesis
        by (simp add: isRecord_def)
    next
      case (Record c now)
      with True k record_ok(7) [OF inv _ refl, of c now] live_Some [OF e(1)] alive
        failed_count(1) [OF e(2) t(1), of now l] time less
      show ?thesis by (simp add: isRecord_def)
    qed
  qed
qed

lemma counted_run:
  assumes "limiter_inv l" and "k \<noteq> []" and "entryOf l k = Some e" and "countedFailures n t0 e" and "0 < t0"
    and "\<forall>op \<in> set ops. inWindow t0 (al_window l) op"
    and "n + int (length (filter (isRecord k) ops)) < al_threshold l"
  shows "\<exists>e'. entryOf (abuse_run ops l) k = Some e' \<and>
    countedFailures (n + int (length (filter (isRecord k) ops))) t0 e'"
  using assms
proof (induction ops arbitrary: l e n)
  case (Cons op ops)
  let ?n = "n + of_bool (isRecord k op)"
  have n: "n + int (length (filter (isRecord k) (op # ops))) = ?n + int (length (filter (isRecord k) ops))" by simp
  have "?n < al_threshold l" using Cons.prems(7) unfolding n by linarith
  moreover have "inWindow t0 (al_window l) op" using Cons.prems(6) by simp
  ultimately obtain e' where e': "entryOf (abuse_step op l) k = Some e'" "countedFailures ?n t0 e'"
    using counted_step [OF Cons.prems(1-5)] by blast
  have "\<exists>e''. entryOf (abuse_run ops (abuse_step op l)) k = Some e'' \<and>
    countedFailures (?n + int (length (filter (isRecord k) ops))) t0 e''"
    using Cons.prems(2,5,6,7) n step_ok(1-5) [OF Cons.prems(1), where op = op]
    by (intro Cons.IH [OF _ _ e']) auto
  with n show ?case by (simp only: abuse_run_simps)
qed auto

lemma first_failure:
  assumes "limiter_inv l" and "k \<noteq> []" and "entryOf l k = None" and "al_tracked l < al_capacity l" and "0 < t0"
    and "1 < al_threshold l" and "0 < al_window l"
  shows "\<exists>e. entryOf (record_failure k t0 l) k = Some e \<and> countedFailures 1 t0 e"
proof -
  have "liveEntry l t0 k = None" using assms(3) by (simp add: liveEntry_def)
  with record_ok(7) [OF assms(1,2) refl, of t0] assms(4)
  have "entryOf (record_failure k t0 l) k = Some (nextEntry l t0 None)" by simp
  with assms(5-7) show ?thesis
    by (simp add: nextEntry_def newEntry_def failEntry_def Let_def countedFailures_def)
qed

lemma newLimiter_inv: "newInvalidAuthAbuseLimiter cfg = Some l \<Longrightarrow> limiter_inv l"
  by (auto simp: newInvalidAuthAbuseLimiter_def limiter_inv_def total_def invalidAuthAbuseShardCount_def
      sum_list_replicate split: option.splits if_splits)

section \<open>Properties\<close>

text \<open>
  C26: Whatever clients fail and are checked, and at whatever times, the limiter tracks exactly the
  entries its shards hold, never more than its capacity, and every entry is in the shard of its key,
  once.
\<close>

theorem limiter_counts_entries:
  assumes "newInvalidAuthAbuseLimiter cfg = Some l0" and "l = abuse_run ops l0"
  shows "al_tracked l = int (sum_list (map length (al_shards l))) \<and> al_tracked l \<le> al_capacity l0 \<and>
    (\<forall>i < 16. distinct (map fst (al_shards l ! i)) \<and> (\<forall>k \<in> fst ` set (al_shards l ! i). shard k = i))"
proof -
  from run_ok [OF newLimiter_inv [OF assms(1)], of ops] assms(2) show ?thesis
    by (simp add: limiter_inv_def total_def)
qed

definition abuseConfig :: InvalidAuthAbuseConfig where
  "abuseConfig = \<lparr>iac_Enabled = True, iac_Threshold = 3, iac_WindowSeconds = 60, iac_BlockSeconds = 300, iac_Capacity = 2\<rparr>"

definition freshLimiter :: invalidAuthAbuseLimiter where
  "freshLimiter = the (newInvalidAuthAbuseLimiter (Some abuseConfig))"

lemma freshLimiter_new: "newInvalidAuthAbuseLimiter (Some abuseConfig) = Some freshLimiter"
  by code_simp

theorem limiter_counts_entries_witness:
  "al_tracked (abuse_run [Record ''a'' Second, Record ''b'' Second, Record ''c'' (2 * Second)] freshLimiter) \<le> 2"
proof -
  have "al_capacity freshLimiter = 2" by code_simp
  with limiter_counts_entries [OF freshLimiter_new refl,
      of "[Record ''a'' Second, Record ''b'' Second, Record ''c'' (2 * Second)]"]
  show ?thesis by simp
qed

text \<open>
  C25: A client whose first failure is recorded while the limiter has room for its entry, and that has
  fewer failures than the threshold in the window of that failure, is not rejected within that
  window, whatever other clients do in it.
\<close>

theorem admitted_below_threshold:
  assumes "limiter_inv l" and "k \<noteq> []" and "entryOf l k = None" and "al_tracked l < al_capacity l"
    and "0 < t0" and "\<forall>op \<in> set ops. inWindow t0 (al_window l) op"
    and "1 + int (length (filter (isRecord k) ops)) < al_threshold l"
    and "t0 \<le> t" and "t < t0 + al_window l"
  shows "fst (check k t (abuse_run (Record k t0 # ops) l)) = (0, False)"
proof -
  let ?l1 = "record_failure k t0 l"
  have "1 < al_threshold l" "0 < al_window l" using assms(7-9) by linarith+
  then obtain e where e: "entryOf ?l1 k = Some e" "countedFailures 1 t0 e"
    using first_failure [OF assms(1-5)] by blast
  note ok = record_ok(1,3-6) [OF assms(1,2) refl, where now = t0]
  obtain e' where e': "entryOf (abuse_run ops ?l1) k = Some e'"
    "countedFailures (1 + int (length (filter (isRecord k) ops))) t0 e'"
    using counted_run [OF ok(1) assms(2) e assms(5), of ops] ok assms(6,7) by auto
  have inv: "limiter_inv (abuse_run ops ?l1)" and win: "al_window (abuse_run ops ?l1) = al_window l"
    using run_ok [OF ok(1), of ops] ok(3) by simp_all
  have "liveEntry (abuse_run ops ?l1) t k = Some e'"
    using live_Some [OF e'(1)] counted_alive [OF e'(2) assms(8), of "al_window l"] assms(9) win by simp
  moreover have "\<not> t < ae_blockedUntil e'" using e'(2) assms(5,8) by (simp add: countedFailures_def)
  moreover obtain res l' where check: "check k t (abuse_run ops ?l1) = (res, l')" by fastforce
  ultimately show ?thesis
    using check_ok(8) [OF inv assms(2) check, of e'] by simp
qed

lemma freshLimiter_fields:
  "entryOf freshLimiter k = None" "al_tracked freshLimiter = 0" "al_capacity freshLimiter = 2" "al_threshold freshLimiter = 3"
  "al_window freshLimiter = 60 * Second" "al_block freshLimiter = 300 * Second"
proof -
  have "al_shards freshLimiter = replicate 16 []" "al_tracked freshLimiter = 0 \<and> al_capacity freshLimiter = 2 \<and>
      al_threshold freshLimiter = 3 \<and> al_window freshLimiter = 60 * Second \<and> al_block freshLimiter = 300 * Second"
    by code_simp+
  then show "entryOf freshLimiter k = None" "al_tracked freshLimiter = 0" "al_capacity freshLimiter = 2"
    "al_threshold freshLimiter = 3" "al_window freshLimiter = 60 * Second" "al_block freshLimiter = 300 * Second"
    by (simp_all add: entryOf_def)
qed

theorem admitted_below_threshold_witness:
  "fst (check ''a'' (4 * Second) (abuse_run [Record ''a'' Second, Record ''b'' (2 * Second), Record ''a'' (3 * Second)]
     freshLimiter)) = (0, False)"
  using admitted_below_threshold [OF newLimiter_inv [OF freshLimiter_new], of "''a''" Second
      "[Record ''b'' (2 * Second), Record ''a'' (3 * Second)]" "4 * Second"]
  by (simp add: freshLimiter_fields isRecord_def inWindow_def time_units)

text \<open>
  C24: The failure that reaches the threshold blocks the client, from then on until the block time has
  passed, whatever happens in between: every check before that time is rejected with exactly the
  time that is left, and a check after it is not rejected, unless the limiter is full and the shared
  block for untracked clients is in force.
\<close>

theorem blocked_at_threshold:
  assumes "limiter_inv l" and "k \<noteq> []" and "entryOf l k = None" and "al_tracked l < al_capacity l"
    and "0 < t0" and "\<forall>op \<in> set ops. inWindow t0 (al_window l) op"
    and "2 + int (length (filter (isRecord k) ops)) = al_threshold l"
    and "t0 \<le> t1" and "t1 < t0 + al_window l"
    and "\<forall>op \<in> set later. opTime op < t1 + al_block l"
    and "l' = abuse_run later (record_failure k t1 (abuse_run (Record k t0 # ops) l))"
    and "t < t1 + al_block l \<or> ao_blockedUntil (al_overflow l') \<le> t"
  shows "fst (check k t l') = (if t < t1 + al_block l then (t1 + al_block l - t, True) else (0, False))"
proof -
  let ?l1 = "record_failure k t0 l"
  let ?l2 = "abuse_run ops ?l1"
  have "1 < al_threshold l" "0 < al_window l" using assms(7-9) by linarith+
  then obtain e where e: "entryOf ?l1 k = Some e" "countedFailures 1 t0 e"
    using first_failure [OF assms(1-5)] by blast
  note ok = record_ok(1,3-6) [OF assms(1,2) refl, where now = t0]
  obtain e' where e': "entryOf ?l2 k = Some e'"
    "countedFailures (1 + int (length (filter (isRecord k) ops))) t0 e'"
    using counted_run [OF ok(1) assms(2) e assms(5), of ops] ok assms(6,7) by auto
  have inv: "limiter_inv ?l2" and same: "al_window ?l2 = al_window l" "al_block ?l2 = al_block l"
    "al_threshold ?l2 = al_threshold l"
    using run_ok [OF ok(1), of ops] ok by simp_all
  have live: "liveEntry ?l2 t1 k = Some e'"
    using live_Some [OF e'(1)] counted_alive [OF e'(2) assms(8), of "al_window l"] assms(9) same by simp
  let ?e = "nextEntry ?l2 t1 (Some e')"
  note ok2 = record_ok(1,7) [OF inv assms(2) refl, where now = t1]
  have blocked: "entryOf (record_failure k t1 ?l2) k = Some ?e" "ae_blockedUntil ?e = t1 + al_block l"
    using ok2(2) live failed_count(2) [OF e'(2) assms(5,8), of ?l2] assms(7,9) same by simp_all
  then have kept: "entryOf l' k = Some ?e"
    unfolding assms(11) abuse_run_simps abuse_step.simps using assms(10) by (intro blocked_run [OF ok2(1)]) simp_all
  have inv': "limiter_inv l'"
    unfolding assms(11) abuse_run_simps abuse_step.simps using run_ok [OF ok2(1)] by blast
  obtain res l'' where check: "check k t l' = (res, l'')" by fastforce
  show ?thesis
  proof (cases "liveEntry l' t k")
    case None
    with kept have "entryExpired (al_window l') t ?e" by (simp add: liveEntry_def split: if_splits)
    with blocked(2) have "\<not> t < t1 + al_block l" by (simp add: entryExpired_def)
    with check_ok(9) [OF inv' assms(2) check None] check assms(12) show ?thesis by simp
  next
    case (Some f)
    with kept have "f = ?e" by (simp add: liveEntry_def split: if_splits)
    with check_ok(8) [OF inv' assms(2) check Some] check blocked(2) show ?thesis by simp
  qed
qed

theorem blocked_at_threshold_witness:
  "fst (check ''a'' (10 * Second) (abuse_run [Record ''a'' (5 * Second), Check ''b'' (6 * Second)]
     (record_failure ''a'' (4 * Second) (abuse_run [Record ''a'' Second, Record ''b'' (2 * Second), Record ''a'' (3 * Second)]
       freshLimiter)))) = (294 * Second, True)"
  using blocked_at_threshold [OF newLimiter_inv [OF freshLimiter_new], of "''a''" Second
      "[Record ''b'' (2 * Second), Record ''a'' (3 * Second)]" "4 * Second"
      "[Record ''a'' (5 * Second), Check ''b'' (6 * Second)]" _ "10 * Second", OF _ _ _ _ _ _ _ _ _ refl]
  by (simp add: freshLimiter_fields isRecord_def inWindow_def time_units)

end
