(* ===== verification/Chat_Tools.thy ===== *)
theory Chat_Tools
  imports Compat_Types
begin

text \<open>
  The tools of a Responses request on an upstream that only speaks Chat Completions, from
  \<open>internal/pkg/apicompat/chatcompletions_responses_bridge.go\<close>: how the declarations are lowered to
  function tools, and how the name of a call is taken back to the declaration it belongs to.

  A Go map that the code ranges over or takes the length of is an association list (in the order
  the range visits it), one that is only looked up is a map.  The first four bytes of SHA-256 in
  hexadecimal, which the standard library computes, are an argument.  Lemmas: every lowered tool
  name resolves to the declaration it was made from.
\<close>

section \<open>Declarations\<close>

datatype ResponsesTool = ResponsesTool
  (rt_Type: string) (rt_Name: string) (rt_Description: string) (rt_Parameters: string) (rt_Strict: "bool option")
  (rt_Tools: "ResponsesTool list") (rt_Children: "ResponsesTool list")
  (rt_AllowedXHandles: "string list") (rt_ExcludedXHandles: "string list") (rt_FromDate: string) (rt_ToDate: string)
  (rt_EnableImageUnderstanding: "bool option") (rt_EnableVideoUnderstanding: "bool option")

record ChatFunction =
  cfn_Name :: string
  cfn_Description :: string
  cfn_Parameters :: string
  cfn_Strict :: "bool option"

record ChatTool =
  ct_Type :: string
  ct_Function :: "ChatFunction option"
  ct_AllowedXHandles :: "string list"
  ct_ExcludedXHandles :: "string list"
  ct_FromDate :: string
  ct_ToDate :: string
  ct_EnableImageUnderstanding :: "bool option"
  ct_EnableVideoUnderstanding :: "bool option"

record NamespacedToolName =
  nt_Namespace :: string
  nt_Name :: string

text \<open>The composite literal of a function tool.\<close>

definition functionTool :: "ChatFunction \<Rightarrow> ChatTool" where
  "functionTool f = \<lparr>ct_Type = ''function'', ct_Function = Some f, ct_AllowedXHandles = [], ct_ExcludedXHandles = [],
     ct_FromDate = [], ct_ToDate = [], ct_EnableImageUnderstanding = None, ct_EnableVideoUnderstanding = None\<rparr>"

definition toolSearchProxyName :: string where
  "toolSearchProxyName = ''tool_search''"

definition toolSearchProxySchema :: string where
  \<open>toolSearchProxySchema = ''{"type":"object","properties":{"query":{"type":"string","description":"Search query for tools or connectors to load."},"limit":{"type":"integer","description":"Maximum number of tool groups to return."}},"required":["query"]}''\<close>

definition customToolInputSchema :: string where
  \<open>customToolInputSchema = ''{"type":"object","properties":{"input":{"type":"string","description":"The raw input for this tool, passed through verbatim."}},"required":["input"]}''\<close>

definition toolSearchProxyChatTool :: ChatTool where
  "toolSearchProxyChatTool = functionTool
     \<lparr>cfn_Name = toolSearchProxyName,
      cfn_Description = ''Search and load Codex tools, plugins, connectors, and MCP namespaces for the current task.'',
      cfn_Parameters = toolSearchProxySchema, cfn_Strict = None\<rparr>"

section \<open>Names\<close>

definition CustomToolNames :: "ResponsesTool list \<Rightarrow> (string \<times> bool) list" where
  "CustomToolNames tools =
     fold (\<lambda>tool out. if rt_Type tool = ''custom'' \<and> rt_Name tool \<noteq> [] then AList.update (rt_Name tool) True out else out)
       tools []"

definition FunctionToolNames :: "ResponsesTool list \<Rightarrow> (string \<times> bool) list" where
  "FunctionToolNames tools =
     fold (\<lambda>tool out. if rt_Type tool = ''function'' \<and> rt_Name tool \<noteq> [] then AList.update (rt_Name tool) True out else out)
       tools []"

definition HasToolSearchTool :: "ResponsesTool list \<Rightarrow> bool" where
  "HasToolSearchTool tools = (\<exists>tool \<in> set tools. rt_Type tool = ''tool_search'')"

definition chatToolNameMaxLen :: nat where
  "chatToolNameMaxLen = 64"

text \<open>
  The loop over the runes of an overlong name.  A byte that starts no valid rune is read as
  U+FFFD, which is written with three bytes.
\<close>

function takeRunes :: "nat \<Rightarrow> string \<Rightarrow> string \<Rightarrow> string" where
  "takeRunes limit acc s =
     (if s = [] then acc
      else let (ch, rest) = (case runeLength s of
                 Some n \<Rightarrow> (take n s, drop n s) | None \<Rightarrow> ([CHR 0xEF, CHR 0xBF, CHR 0xBD], tl s))
           in if length acc + length ch > limit then acc else takeRunes limit (acc @ ch) rest)"
  by pat_completeness auto
termination
  by (relation "measure (\<lambda>(limit, acc, s). length s)")
     (auto dest: runeLength_pos split: option.splits)

declare takeRunes.simps [simp del]

definition flattenNamespaceToolName :: "(string \<Rightarrow> string) \<Rightarrow> string \<Rightarrow> string \<Rightarrow> string" where
  "flattenNamespaceToolName shortHash namespace name =
     (let full = namespace @ ''__'' @ name
      in if length full \<le> chatToolNameMaxLen then full
         else
           let suffix = ''__'' @ shortHash full;
               prefixLen = chatToolNameMaxLen - length suffix
           in takeRunes prefixLen [] full @ suffix)"

definition namespaceChildren :: "ResponsesTool \<Rightarrow> ResponsesTool list" where
  "namespaceChildren tool = (if rt_Tools tool = [] then rt_Children tool else rt_Tools tool)"

text \<open>The loops of \<open>NamespaceToolNames\<close>.\<close>

definition addChild ::
  "(string \<Rightarrow> string) \<Rightarrow> string \<Rightarrow> ResponsesTool \<Rightarrow> (string \<times> NamespacedToolName) list \<Rightarrow> (string \<times> NamespacedToolName) list" where
  "addChild shortHash namespace child out =
     (if rt_Type child \<noteq> ''function'' \<or> rt_Name child = [] then out
      else AList.update (flattenNamespaceToolName shortHash namespace (rt_Name child))
             \<lparr>nt_Namespace = namespace, nt_Name = rt_Name child\<rparr> out)"

definition addNamespace ::
  "(string \<Rightarrow> string) \<Rightarrow> ResponsesTool \<Rightarrow> (string \<times> NamespacedToolName) list \<Rightarrow> (string \<times> NamespacedToolName) list" where
  "addNamespace shortHash tool out =
     (if rt_Type tool \<noteq> ''namespace'' \<or> rt_Name tool = [] then out
      else fold (addChild shortHash (rt_Name tool)) (namespaceChildren tool) out)"

definition NamespaceToolNames :: "(string \<Rightarrow> string) \<Rightarrow> ResponsesTool list \<Rightarrow> (string \<times> NamespacedToolName) list" where
  "NamespaceToolNames shortHash tools = fold (addNamespace shortHash) tools []"

text \<open>The two loops of \<open>customToolCallName\<close>; \<open>None\<close> is the early return on an ambiguous alias.\<close>

fun aliasOf :: "(string \<Rightarrow> string) \<Rightarrow> string \<Rightarrow> string \<Rightarrow> NamespacedToolName list \<Rightarrow> string \<Rightarrow> string option" where
  "aliasOf shortHash name customName [] found = Some found"
| "aliasOf shortHash name customName (ns # nss) found =
     (if flattenNamespaceToolName shortHash (nt_Namespace ns) customName \<noteq> name
      then aliasOf shortHash name customName nss found
      else if found \<noteq> [] \<and> found \<noteq> customName then None
      else aliasOf shortHash name customName nss customName)"

fun aliasAmong :: "(string \<Rightarrow> string) \<Rightarrow> string \<Rightarrow> NamespacedToolName list \<Rightarrow> string list \<Rightarrow> string \<Rightarrow> string option" where
  "aliasAmong shortHash name nss [] found = Some found"
| "aliasAmong shortHash name nss (customName # rest) found =
     (case aliasOf shortHash name customName nss found of
        None \<Rightarrow> None | Some found' \<Rightarrow> aliasAmong shortHash name nss rest found')"

definition customToolCallName ::
  "(string \<Rightarrow> string) \<Rightarrow> string \<Rightarrow> (string \<times> bool) list \<Rightarrow> (string \<times> bool) list \<Rightarrow> (string \<times> NamespacedToolName) list
   \<Rightarrow> string \<times> bool" where
  "customToolCallName shortHash name customTools functionTools namespaceTools =
     (if map_of functionTools name = Some True then ([], False)
      else if map_of customTools name = Some True then (name, True)
      else if map_of namespaceTools name \<noteq> None then ([], False)
      else case aliasAmong shortHash name (map snd namespaceTools) (map fst customTools) [] of
        None \<Rightarrow> ([], False)
      | Some found \<Rightarrow> (found, found \<noteq> []))"

section \<open>Lowering\<close>

datatype tools_error =
    DuplicateTopLevel string
  | ToolSearchConflict
  | FlatTopLevelConflict string string string
  | FlatNamespaceConflict NamespacedToolName string string string

fun topLevelNames :: "ResponsesTool list \<Rightarrow> (string \<rightharpoonup> bool) \<Rightarrow> tools_error + (string \<rightharpoonup> bool)" where
  "topLevelNames [] topLevel = Inr topLevel"
| "topLevelNames (tool # tools) topLevel =
     (if (rt_Type tool = ''function'' \<or> rt_Type tool = ''custom'') \<and> rt_Name tool \<noteq> [] then
        (if topLevel (rt_Name tool) = Some True then Inl (DuplicateTopLevel (rt_Name tool))
         else topLevelNames tools (topLevel(rt_Name tool \<mapsto> True)))
      else topLevelNames tools topLevel)"

fun lowerChildren ::
  "(string \<Rightarrow> string) \<Rightarrow> string \<Rightarrow> (string \<rightharpoonup> bool) \<Rightarrow> ResponsesTool list \<Rightarrow> (string \<rightharpoonup> NamespacedToolName) \<Rightarrow> ChatTool list
   \<Rightarrow> tools_error + (ChatTool list \<times> (string \<rightharpoonup> NamespacedToolName))" where
  "lowerChildren shortHash namespace topLevel [] flatOwner out = Inr (out, flatOwner)"
| "lowerChildren shortHash namespace topLevel (child # children) flatOwner out =
     (if rt_Type child \<noteq> ''function'' \<or> rt_Name child = []
      then lowerChildren shortHash namespace topLevel children flatOwner out
      else
        let flat = flattenNamespaceToolName shortHash namespace (rt_Name child);
            entry = \<lparr>nt_Namespace = namespace, nt_Name = rt_Name child\<rparr>
        in if topLevel flat = Some True then Inl (FlatTopLevelConflict namespace (rt_Name child) flat)
           else case flatOwner flat of
             Some prev \<Rightarrow>
               if prev = entry then lowerChildren shortHash namespace topLevel children flatOwner out
               else Inl (FlatNamespaceConflict prev namespace (rt_Name child) flat)
           | None \<Rightarrow>
               lowerChildren shortHash namespace topLevel children (flatOwner(flat \<mapsto> entry))
                 (out @ [functionTool \<lparr>cfn_Name = flat, cfn_Description = rt_Description child,
                           cfn_Parameters = rt_Parameters child, cfn_Strict = rt_Strict child\<rparr>]))"

definition namespaceChildrenToChatTools ::
  "(string \<Rightarrow> string) \<Rightarrow> ResponsesTool \<Rightarrow> (string \<rightharpoonup> bool) \<Rightarrow> (string \<rightharpoonup> NamespacedToolName)
   \<Rightarrow> tools_error + (ChatTool list \<times> (string \<rightharpoonup> NamespacedToolName))" where
  "namespaceChildrenToChatTools shortHash tool topLevel flatOwner =
     (if rt_Name tool = [] then Inr ([], flatOwner)
      else lowerChildren shortHash (rt_Name tool) topLevel (namespaceChildren tool) flatOwner [])"

fun lowerTools ::
  "(string \<Rightarrow> string) \<Rightarrow> (string \<rightharpoonup> bool) \<Rightarrow> ResponsesTool list \<Rightarrow> (string \<rightharpoonup> NamespacedToolName) \<Rightarrow> bool \<Rightarrow> ChatTool list
   \<Rightarrow> tools_error + ChatTool list" where
  "lowerTools shortHash topLevel [] flatOwner toolSearchDeclared out = Inr out"
| "lowerTools shortHash topLevel (tool # tools) flatOwner toolSearchDeclared out =
     (if rt_Type tool = ''function'' then
        lowerTools shortHash topLevel tools flatOwner toolSearchDeclared
          (out @ [functionTool \<lparr>cfn_Name = rt_Name tool, cfn_Description = rt_Description tool,
                    cfn_Parameters = rt_Parameters tool, cfn_Strict = rt_Strict tool\<rparr>])
      else if rt_Type tool = ''custom'' then
        lowerTools shortHash topLevel tools flatOwner toolSearchDeclared
          (out @ [functionTool \<lparr>cfn_Name = rt_Name tool, cfn_Description = rt_Description tool,
                    cfn_Parameters = customToolInputSchema, cfn_Strict = None\<rparr>])
      else if rt_Type tool = ''tool_search'' then
        (if topLevel toolSearchProxyName = Some True then Inl ToolSearchConflict
         else if toolSearchDeclared then lowerTools shortHash topLevel tools flatOwner toolSearchDeclared out
         else lowerTools shortHash topLevel tools flatOwner True (out @ [toolSearchProxyChatTool]))
      else if rt_Type tool = ''namespace'' then
        (case namespaceChildrenToChatTools shortHash tool topLevel flatOwner of
           Inl e \<Rightarrow> Inl e
         | Inr (flattened, flatOwner) \<Rightarrow>
             lowerTools shortHash topLevel tools flatOwner toolSearchDeclared (out @ flattened))
      else if rt_Type tool = ''x_search'' then
        lowerTools shortHash topLevel tools flatOwner toolSearchDeclared
          (out @ [\<lparr>ct_Type = ''x_search'', ct_Function = None, ct_AllowedXHandles = rt_AllowedXHandles tool,
                    ct_ExcludedXHandles = rt_ExcludedXHandles tool, ct_FromDate = rt_FromDate tool,
                    ct_ToDate = rt_ToDate tool, ct_EnableImageUnderstanding = rt_EnableImageUnderstanding tool,
                    ct_EnableVideoUnderstanding = rt_EnableVideoUnderstanding tool\<rparr>])
      else lowerTools shortHash topLevel tools flatOwner toolSearchDeclared out)"

definition responsesToolsToChatTools :: "(string \<Rightarrow> string) \<Rightarrow> ResponsesTool list \<Rightarrow> tools_error + ChatTool list" where
  "responsesToolsToChatTools shortHash tools =
     (case topLevelNames tools Map.empty of
        Inl e \<Rightarrow> Inl e
      | Inr topLevel \<Rightarrow> lowerTools shortHash topLevel tools Map.empty False [])"

section \<open>What the maps hold\<close>

text \<open>The flattened names a request declares, with their owners.\<close>

definition childEntry :: "(string \<Rightarrow> string) \<Rightarrow> string \<Rightarrow> ResponsesTool \<Rightarrow> string \<times> NamespacedToolName" where
  "childEntry shortHash namespace child =
     (flattenNamespaceToolName shortHash namespace (rt_Name child), \<lparr>nt_Namespace = namespace, nt_Name = rt_Name child\<rparr>)"

definition isChild :: "ResponsesTool \<Rightarrow> bool" where
  "isChild child \<longleftrightarrow> rt_Type child = ''function'' \<and> rt_Name child \<noteq> []"

definition isNamespace :: "ResponsesTool \<Rightarrow> bool" where
  "isNamespace tool \<longleftrightarrow> rt_Type tool = ''namespace'' \<and> rt_Name tool \<noteq> []"

definition isTop :: "ResponsesTool \<Rightarrow> bool" where
  "isTop tool \<longleftrightarrow> (rt_Type tool = ''function'' \<or> rt_Type tool = ''custom'') \<and> rt_Name tool \<noteq> []"

definition entriesOf :: "(string \<Rightarrow> string) \<Rightarrow> ResponsesTool \<Rightarrow> (string \<times> NamespacedToolName) set" where
  "entriesOf shortHash tool =
     (if isNamespace tool then childEntry shortHash (rt_Name tool) ` {child \<in> set (namespaceChildren tool). isChild child} else {})"

definition nsEntries :: "(string \<Rightarrow> string) \<Rightarrow> ResponsesTool list \<Rightarrow> (string \<times> NamespacedToolName) set" where
  "nsEntries shortHash tools = \<Union> (entriesOf shortHash ` set tools)"

lemma nsEntries_simps [simp]:
  "nsEntries shortHash [] = {}"
  "nsEntries shortHash (tool # tools) = entriesOf shortHash tool \<union> nsEntries shortHash tools"
  by (simp_all add: nsEntries_def)

lemma map_of_update: "map_of (AList.update k v xs) = (map_of xs)(k \<mapsto> v)"
  by (rule update_conv')

lemma names_fold:
  "map_of (fold (\<lambda>tool out. if rt_Type tool = t \<and> rt_Name tool \<noteq> [] then AList.update (rt_Name tool) True out else out) tools out) n
     = (if \<exists>tool \<in> set tools. rt_Type tool = t \<and> rt_Name tool \<noteq> [] \<and> rt_Name tool = n then Some True else map_of out n)"
  by (induction tools arbitrary: out) (auto simp: map_of_update)

lemma customs_iff:
  "map_of (CustomToolNames tools) n = (if \<exists>tool \<in> set tools. rt_Type tool = ''custom'' \<and> rt_Name tool \<noteq> [] \<and> rt_Name tool = n
     then Some True else None)"
  by (simp add: CustomToolNames_def names_fold)

lemma functions_iff:
  "map_of (FunctionToolNames tools) n = (if \<exists>tool \<in> set tools. rt_Type tool = ''function'' \<and> rt_Name tool \<noteq> [] \<and> rt_Name tool = n
     then Some True else None)"
  by (simp add: FunctionToolNames_def names_fold)

text \<open>A loop that updates an association list adds its keys, and every value comes from the loop.\<close>

lemma fold_dom:
  assumes "\<And>x out. dom (map_of (f x out)) = dom (map_of out) \<union> K x"
  shows "dom (map_of (fold f xs out)) = dom (map_of out) \<union> \<Union> (K ` set xs)"
  by (induction xs arbitrary: out) (simp_all add: assms Un_assoc)

lemma fold_value:
  assumes "\<And>x out. map_of (f x out) k = Some e \<Longrightarrow> (k, e) \<in> E x \<or> map_of out k = Some e"
  shows "map_of (fold f xs out) k = Some e \<Longrightarrow> (k, e) \<in> \<Union> (E ` set xs) \<or> map_of out k = Some e"
proof (induction xs arbitrary: out)
  case (Cons x xs)
  from Cons.IH [of "f x out"] Cons.prems assms [of x out] show ?case by auto
qed simp

definition childEntries :: "(string \<Rightarrow> string) \<Rightarrow> string \<Rightarrow> ResponsesTool \<Rightarrow> (string \<times> NamespacedToolName) set" where
  "childEntries shortHash namespace child = (if isChild child then {childEntry shortHash namespace child} else {})"

lemma entriesOf_eq:
  "entriesOf shortHash tool =
     (if isNamespace tool then \<Union> (childEntries shortHash (rt_Name tool) ` set (namespaceChildren tool)) else {})"
  by (auto simp: entriesOf_def childEntries_def)

lemma addChild_dom:
  "dom (map_of (addChild shortHash namespace child out)) = dom (map_of out) \<union> fst ` childEntries shortHash namespace child"
  by (auto simp: addChild_def childEntries_def isChild_def childEntry_def map_of_update)

lemma addChild_value:
  "map_of (addChild shortHash namespace child out) k = Some e \<Longrightarrow>
     (k, e) \<in> childEntries shortHash namespace child \<or> map_of out k = Some e"
  by (auto simp: addChild_def childEntries_def isChild_def childEntry_def map_of_update split: if_splits)

lemma addNamespace_dom:
  "dom (map_of (addNamespace shortHash tool out)) = dom (map_of out) \<union> fst ` entriesOf shortHash tool"
  by (simp add: addNamespace_def entriesOf_eq isNamespace_def image_UN fold_dom [OF addChild_dom])

lemma addNamespace_value:
  assumes "map_of (addNamespace shortHash tool out) k = Some e"
  shows "(k, e) \<in> entriesOf shortHash tool \<or> map_of out k = Some e"
proof (cases "isNamespace tool")
  case True
  then have "addNamespace shortHash tool out = fold (addChild shortHash (rt_Name tool)) (namespaceChildren tool) out"
    by (simp add: addNamespace_def isNamespace_def)
  with assms fold_value [where f = "addChild shortHash (rt_Name tool)" and E = "childEntries shortHash (rt_Name tool)", OF addChild_value]
  show ?thesis by (simp add: entriesOf_eq True)
qed (use assms in \<open>auto simp: addNamespace_def isNamespace_def\<close>)

lemma namespaces_dom: "dom (map_of (NamespaceToolNames shortHash tools)) = fst ` nsEntries shortHash tools"
  by (simp add: NamespaceToolNames_def nsEntries_def image_UN fold_dom [OF addNamespace_dom])

lemma namespaces_value:
  "map_of (NamespaceToolNames shortHash tools) k = Some e \<Longrightarrow> (k, e) \<in> nsEntries shortHash tools"
  using fold_value [where f = "addNamespace shortHash" and E = "entriesOf shortHash", OF addNamespace_value]
  by (fastforce simp: NamespaceToolNames_def nsEntries_def)

section \<open>What lowering accepts\<close>

lemma topLevelNames_Inr:
  assumes "topLevelNames tools topLevel = Inr topLevel'"
  shows "topLevel' n = Some True \<longleftrightarrow> topLevel n = Some True \<or> (\<exists>tool \<in> set tools. isTop tool \<and> rt_Name tool = n)"
    and "distinct (map rt_Name (filter isTop tools))"
    and "\<forall>tool \<in> set tools. isTop tool \<longrightarrow> topLevel (rt_Name tool) \<noteq> Some True"
proof -
  have "(topLevel' n = Some True \<longleftrightarrow> topLevel n = Some True \<or> (\<exists>tool \<in> set tools. isTop tool \<and> rt_Name tool = n)) \<and>
    distinct (map rt_Name (filter isTop tools)) \<and> (\<forall>tool \<in> set tools. isTop tool \<longrightarrow> topLevel (rt_Name tool) \<noteq> Some True)"
    using assms
  proof (induction tools arbitrary: topLevel)
    case (Cons tool tools)
    show ?case
    proof (cases "isTop tool")
      case True
      then have top: "(rt_Type tool = ''function'' \<or> rt_Type tool = ''custom'') \<and> rt_Name tool \<noteq> []"
        by (simp add: isTop_def)
      with Cons.prems have new: "topLevel (rt_Name tool) \<noteq> Some True"
        and rest: "topLevelNames tools (topLevel(rt_Name tool \<mapsto> True)) = Inr topLevel'"
        by (simp_all split: if_splits)
      from Cons.IH [OF rest] True new show ?thesis by (auto split: if_splits)
    next
      case False
      then have "\<not> ((rt_Type tool = ''function'' \<or> rt_Type tool = ''custom'') \<and> rt_Name tool \<noteq> [])"
        by (simp add: isTop_def)
      with Cons.prems have "topLevelNames tools topLevel = Inr topLevel'" by (simp split: if_splits)
      from Cons.IH [OF this] False show ?thesis by auto
    qed
  qed simp
  then show "topLevel' n = Some True \<longleftrightarrow> topLevel n = Some True \<or> (\<exists>tool \<in> set tools. isTop tool \<and> rt_Name tool = n)"
    and "distinct (map rt_Name (filter isTop tools))"
    and "\<forall>tool \<in> set tools. isTop tool \<longrightarrow> topLevel (rt_Name tool) \<noteq> Some True" by simp_all
qed

text \<open>The owner map after lowering holds exactly the entries, and no entry is a top-level name.\<close>

definition ownersOk :: "(string \<rightharpoonup> bool) \<Rightarrow> (string \<times> NamespacedToolName) set \<Rightarrow> (string \<rightharpoonup> NamespacedToolName) \<Rightarrow> bool" where
  "ownersOk topLevel entries flatOwner \<longleftrightarrow>
     (\<forall>k v. (k, v) \<in> entries \<longrightarrow> flatOwner k = Some v \<and> topLevel k \<noteq> Some True)"

lemma lowerChildren_Inr:
  assumes "lowerChildren shortHash namespace topLevel children flatOwner out = Inr (out', flatOwner')"
    and "ownersOk topLevel entries flatOwner"
  shows "ownersOk topLevel (entries \<union> childEntry shortHash namespace ` {child \<in> set children. isChild child}) flatOwner'"
  using assms
proof (induction children arbitrary: flatOwner out entries)
  case (Cons child children)
  show ?case
  proof (cases "isChild child")
    case False
    then have "rt_Type child \<noteq> ''function'' \<or> rt_Name child = []" by (simp add: isChild_def)
    with Cons.prems have "lowerChildren shortHash namespace topLevel children flatOwner out = Inr (out', flatOwner')" by simp
    from Cons.IH [OF this Cons.prems(2)]
    have "ownersOk topLevel (entries \<union> childEntry shortHash namespace ` {c \<in> set children. isChild c}) flatOwner'" .
    moreover have "{c \<in> set (child # children). isChild c} = {c \<in> set children. isChild c}" using False by auto
    ultimately show ?thesis by simp
  next
    case True
    let ?flat = "flattenNamespaceToolName shortHash namespace (rt_Name child)"
    let ?entry = "\<lparr>nt_Namespace = namespace, nt_Name = rt_Name child\<rparr>"
    from True have child: "\<not> (rt_Type child \<noteq> ''function'' \<or> rt_Name child = [])" by (simp add: isChild_def)
    from Cons.prems(1) child have top: "topLevel ?flat \<noteq> Some True"
      by (simp add: Let_def split: if_splits)
    have step: "\<exists>owner out''. owner ?flat = Some ?entry \<and> (flatOwner ?flat = None \<and> owner = flatOwner(?flat \<mapsto> ?entry) \<or> owner = flatOwner) \<and>
        lowerChildren shortHash namespace topLevel children owner out'' = Inr (out', flatOwner')"
    proof (cases "flatOwner ?flat")
      case None
      with Cons.prems(1) child top show ?thesis
        by (intro exI [of _ "flatOwner(?flat \<mapsto> ?entry)"]) (simp add: Let_def, blast)
    next
      case (Some prev)
      with Cons.prems(1) child top show ?thesis
        by (intro exI [of _ flatOwner]) (auto simp: Let_def split: if_splits)
    qed
    then obtain owner out'' where owner: "owner ?flat = Some ?entry"
        "flatOwner ?flat = None \<and> owner = flatOwner(?flat \<mapsto> ?entry) \<or> owner = flatOwner"
      and rest: "lowerChildren shortHash namespace topLevel children owner out'' = Inr (out', flatOwner')" by blast
    have "ownersOk topLevel (insert (?flat, ?entry) entries) owner"
      using Cons.prems(2) owner top unfolding ownersOk_def by auto
    from Cons.IH [OF rest this]
    have "ownersOk topLevel (insert (?flat, ?entry) entries \<union> childEntry shortHash namespace ` {child \<in> set children. isChild child}) flatOwner'" .
    moreover have "{c \<in> set (child # children). isChild c} = insert child {c \<in> set children. isChild c}" using True by auto
    ultimately show ?thesis by (simp add: childEntry_def)
  qed
qed simp

lemma lowerTools_Inr:
  assumes "lowerTools shortHash topLevel tools flatOwner declared out = Inr out'" and "ownersOk topLevel entries flatOwner"
  shows "(\<exists>owner. ownersOk topLevel (entries \<union> nsEntries shortHash tools) owner) \<and>
    (HasToolSearchTool tools \<longrightarrow> topLevel toolSearchProxyName \<noteq> Some True)"
  using assms
proof (induction tools arbitrary: flatOwner declared out entries)
  case (Cons tool tools)
  show ?case
  proof (cases "rt_Type tool = ''namespace''")
    case True
    with Cons.prems(1) obtain flattened owner
      where children: "namespaceChildrenToChatTools shortHash tool topLevel flatOwner = Inr (flattened, owner)"
      and rest: "lowerTools shortHash topLevel tools owner declared (out @ flattened) = Inr out'"
      by (auto split: sum.splits)
    have "ownersOk topLevel (entries \<union> entriesOf shortHash tool) owner"
    proof (cases "rt_Name tool = []")
      case True
      with children Cons.prems(2) show ?thesis
        by (simp add: namespaceChildrenToChatTools_def entriesOf_def isNamespace_def)
    next
      case False
      with children have "lowerChildren shortHash (rt_Name tool) topLevel (namespaceChildren tool) flatOwner [] = Inr (flattened, owner)"
        by (simp add: namespaceChildrenToChatTools_def)
      from lowerChildren_Inr [OF this Cons.prems(2)] False True
      show ?thesis by (simp add: entriesOf_def isNamespace_def)
    qed
    from Cons.IH [OF rest this] True show ?thesis
      by (simp add: Un_assoc HasToolSearchTool_def)
  next
    case False
    then have none: "entriesOf shortHash tool = {}" by (simp add: entriesOf_def isNamespace_def)
    have "(\<exists>declared' out''. lowerTools shortHash topLevel tools flatOwner declared' out'' = Inr out') \<and>
        (rt_Type tool = ''tool_search'' \<longrightarrow> topLevel toolSearchProxyName \<noteq> Some True)"
      using Cons.prems(1) False by (auto split: if_splits)
    then obtain declared' out'' where "lowerTools shortHash topLevel tools flatOwner declared' out'' = Inr out'"
      and search: "rt_Type tool = ''tool_search'' \<longrightarrow> topLevel toolSearchProxyName \<noteq> Some True" by blast
    from Cons.IH [OF this(1) Cons.prems(2)] search none show ?thesis
      by (auto simp: HasToolSearchTool_def)
  qed
qed (auto simp: HasToolSearchTool_def)

text \<open>A request that is accepted has no ambiguous names.\<close>

lemma lowered_names:
  assumes "responsesToolsToChatTools shortHash tools = Inr out"
  shows "distinct (map rt_Name (filter isTop tools))"
    and "(k, v) \<in> nsEntries shortHash tools \<Longrightarrow> (k, v') \<in> nsEntries shortHash tools \<Longrightarrow> v = v'"
    and "(k, v) \<in> nsEntries shortHash tools \<Longrightarrow> tool \<in> set tools \<Longrightarrow> isTop tool \<Longrightarrow> rt_Name tool \<noteq> k"
    and "HasToolSearchTool tools \<Longrightarrow> tool \<in> set tools \<Longrightarrow> isTop tool \<Longrightarrow> rt_Name tool \<noteq> toolSearchProxyName"
proof -
  from assms obtain topLevel where top: "topLevelNames tools Map.empty = Inr topLevel"
    and lower: "lowerTools shortHash topLevel tools Map.empty False [] = Inr out"
    by (auto simp: responsesToolsToChatTools_def split: sum.splits)
  note names = topLevelNames_Inr [OF top]
  have "ownersOk topLevel {} Map.empty" by (simp add: ownersOk_def)
  from lowerTools_Inr [OF lower this] obtain owner
    where owner: "ownersOk topLevel (nsEntries shortHash tools) owner"
    and search: "HasToolSearchTool tools \<Longrightarrow> topLevel toolSearchProxyName \<noteq> Some True" by auto
  show "distinct (map rt_Name (filter isTop tools))" by (rule names(2))
  show "(k, v) \<in> nsEntries shortHash tools \<Longrightarrow> (k, v') \<in> nsEntries shortHash tools \<Longrightarrow> v = v'"
    using owner unfolding ownersOk_def by (metis option.inject)
  show "(k, v) \<in> nsEntries shortHash tools \<Longrightarrow> tool \<in> set tools \<Longrightarrow> isTop tool \<Longrightarrow> rt_Name tool \<noteq> k"
    using owner names(1) [of k] unfolding ownersOk_def by auto
  show "HasToolSearchTool tools \<Longrightarrow> tool \<in> set tools \<Longrightarrow> isTop tool \<Longrightarrow> rt_Name tool \<noteq> toolSearchProxyName"
    using search names(1) [of toolSearchProxyName] by auto
qed

text \<open>Conversely, a request without ambiguous names is accepted.\<close>

definition unambiguous :: "(string \<Rightarrow> string) \<Rightarrow> ResponsesTool list \<Rightarrow> bool" where
  "unambiguous shortHash tools \<longleftrightarrow>
     distinct (map rt_Name (filter isTop tools)) \<and>
     (\<forall>k v v'. (k, v) \<in> nsEntries shortHash tools \<longrightarrow> (k, v') \<in> nsEntries shortHash tools \<longrightarrow> v = v') \<and>
     (\<forall>k v tool. (k, v) \<in> nsEntries shortHash tools \<longrightarrow> tool \<in> set tools \<longrightarrow> isTop tool \<longrightarrow> rt_Name tool \<noteq> k) \<and>
     (\<forall>tool \<in> set tools. HasToolSearchTool tools \<and> isTop tool \<longrightarrow> rt_Name tool \<noteq> toolSearchProxyName)"

lemma topLevelNames_ok:
  assumes "distinct (map rt_Name (filter isTop tools))"
    and "\<forall>tool \<in> set tools. isTop tool \<longrightarrow> topLevel (rt_Name tool) \<noteq> Some True"
  shows "\<exists>topLevel'. topLevelNames tools topLevel = Inr topLevel'"
  using assms
proof (induction tools arbitrary: topLevel)
  case (Cons tool tools)
  show ?case
  proof (cases "isTop tool")
    case True
    have "\<exists>topLevel'. topLevelNames tools (topLevel(rt_Name tool \<mapsto> True)) = Inr topLevel'"
      by (rule Cons.IH) (use Cons.prems True in \<open>auto simp: image_iff\<close>)
    with True Cons.prems(2) show ?thesis by (auto simp: isTop_def)
  next
    case False
    have "\<exists>topLevel'. topLevelNames tools topLevel = Inr topLevel'"
      by (rule Cons.IH) (use Cons.prems False in auto)
    with False show ?thesis by (auto simp: isTop_def)
  qed
qed simp

definition ownersWithin :: "(string \<times> NamespacedToolName) set \<Rightarrow> (string \<rightharpoonup> NamespacedToolName) \<Rightarrow> bool" where
  "ownersWithin entries flatOwner \<longleftrightarrow> (\<forall>k v. flatOwner k = Some v \<longrightarrow> (k, v) \<in> entries)"

lemma lowerChildren_ok:
  assumes "ownersWithin E flatOwner" and "childEntry shortHash namespace ` {child \<in> set children. isChild child} \<subseteq> E"
    and "\<forall>k v v'. (k, v) \<in> E \<longrightarrow> (k, v') \<in> E \<longrightarrow> v = v'" and "\<forall>k v. (k, v) \<in> E \<longrightarrow> topLevel k \<noteq> Some True"
  shows "\<exists>out' flatOwner'. lowerChildren shortHash namespace topLevel children flatOwner out = Inr (out', flatOwner') \<and>
    ownersWithin E flatOwner'"
  using assms(1,2)
proof (induction children arbitrary: flatOwner out)
  case (Cons child children)
  have rest: "childEntry shortHash namespace ` {c \<in> set children. isChild c} \<subseteq> E"
    using Cons.prems(2) by auto
  show ?case
  proof (cases "isChild child")
    case False
    with Cons.IH [OF Cons.prems(1) rest] show ?thesis by (simp add: isChild_def)
  next
    case True
    let ?flat = "flattenNamespaceToolName shortHash namespace (rt_Name child)"
    let ?entry = "\<lparr>nt_Namespace = namespace, nt_Name = rt_Name child\<rparr>"
    from True Cons.prems(2) have entry: "(?flat, ?entry) \<in> E" by (auto simp: childEntry_def)
    with assms(4) have top: "topLevel ?flat \<noteq> Some True" by blast
    have child: "\<not> (rt_Type child \<noteq> ''function'' \<or> rt_Name child = [])" using True by (simp add: isChild_def)
    show ?thesis
    proof (cases "flatOwner ?flat")
      case None
      have "ownersWithin E (flatOwner(?flat \<mapsto> ?entry))"
        using Cons.prems(1) entry by (simp add: ownersWithin_def)
      note IH = Cons.IH [OF this rest]
      have "lowerChildren shortHash namespace topLevel (child # children) flatOwner out =
          lowerChildren shortHash namespace topLevel children (flatOwner(?flat \<mapsto> ?entry))
            (out @ [functionTool \<lparr>cfn_Name = ?flat, cfn_Description = rt_Description child,
                      cfn_Parameters = rt_Parameters child, cfn_Strict = rt_Strict child\<rparr>])"
        using child top None by (simp add: Let_def)
      with IH show ?thesis by (simp only:)
    next
      case (Some prev)
      with Cons.prems(1) entry assms(3) have "prev = ?entry" unfolding ownersWithin_def by metis
      with Cons.IH [OF Cons.prems(1) rest] child top Some show ?thesis by (simp add: Let_def)
    qed
  qed
qed simp

lemma lowerTools_ok:
  assumes "ownersWithin E flatOwner" and "nsEntries shortHash tools \<subseteq> E"
    and "\<forall>k v v'. (k, v) \<in> E \<longrightarrow> (k, v') \<in> E \<longrightarrow> v = v'" and "\<forall>k v. (k, v) \<in> E \<longrightarrow> topLevel k \<noteq> Some True"
    and "HasToolSearchTool tools \<longrightarrow> topLevel toolSearchProxyName \<noteq> Some True"
  shows "\<exists>out'. lowerTools shortHash topLevel tools flatOwner declared out = Inr out'"
  using assms(1,2,5)
proof (induction tools arbitrary: flatOwner declared out)
  case (Cons tool tools)
  have rest: "nsEntries shortHash tools \<subseteq> E" using Cons.prems(2) by simp
  have search: "HasToolSearchTool tools \<longrightarrow> topLevel toolSearchProxyName \<noteq> Some True"
    using Cons.prems(3) by (simp add: HasToolSearchTool_def)
  note IH = Cons.IH [OF _ rest search]
  show ?case
  proof (cases "rt_Type tool = ''namespace''")
    case True
    have "\<exists>flattened owner. namespaceChildrenToChatTools shortHash tool topLevel flatOwner = Inr (flattened, owner) \<and>
        ownersWithin E owner"
    proof (cases "rt_Name tool = []")
      case False
      with True Cons.prems(2) have "childEntry shortHash (rt_Name tool) ` {c \<in> set (namespaceChildren tool). isChild c} \<subseteq> E"
        by (simp add: entriesOf_def isNamespace_def)
      from lowerChildren_ok [OF Cons.prems(1) this assms(3,4), of "[]"] False show ?thesis
        by (simp add: namespaceChildrenToChatTools_def)
    qed (use Cons.prems(1) in \<open>simp add: namespaceChildrenToChatTools_def\<close>)
    with True IH show ?thesis by auto
  next
    case False
    with IH [OF Cons.prems(1)] Cons.prems(3) show ?thesis by (simp add: HasToolSearchTool_def)
  qed
qed simp

text \<open>
  C8: a tool list is rejected exactly when lowering it would make names ambiguous: two executable
  top-level tools of one name, two namespace children with one flattened name and different owners,
  a flattened name that is a top-level name, or a top-level tool with the name of the search proxy
  beside the built-in search.  Every other list is accepted.
\<close>

theorem lowering_rejects_exactly_ambiguous:
  "(\<exists>out. responsesToolsToChatTools shortHash tools = Inr out) = unambiguous shortHash tools"
proof
  assume "\<exists>out. responsesToolsToChatTools shortHash tools = Inr out"
  then obtain out where out: "responsesToolsToChatTools shortHash tools = Inr out" by blast
  show "unambiguous shortHash tools"
    unfolding unambiguous_def using lowered_names [OF out] by blast
next
  assume u: "unambiguous shortHash tools"
  then have "\<exists>topLevel. topLevelNames tools Map.empty = Inr topLevel"
    by (intro topLevelNames_ok) (simp_all add: unambiguous_def)
  then obtain topLevel where top: "topLevelNames tools Map.empty = Inr topLevel" by blast
  note names = topLevelNames_Inr(1) [OF top]
  have "\<exists>out. lowerTools shortHash topLevel tools Map.empty False [] = Inr out"
  proof (rule lowerTools_ok [where E = "nsEntries shortHash tools"])
    show "\<forall>k v. (k, v) \<in> nsEntries shortHash tools \<longrightarrow> topLevel k \<noteq> Some True"
      using u names unfolding unambiguous_def by (metis option.distinct(1))
    show "HasToolSearchTool tools \<longrightarrow> topLevel toolSearchProxyName \<noteq> Some True"
      using u names unfolding unambiguous_def by (metis option.distinct(1))
  qed (use u in \<open>auto simp: ownersWithin_def unambiguous_def\<close>)
  with top show "\<exists>out. responsesToolsToChatTools shortHash tools = Inr out"
    by (simp add: responsesToolsToChatTools_def)
qed

section \<open>Resolution\<close>

text \<open>A flattened name always contains two underscores in a row; the proxy's name does not.\<close>

lemma flatten_contains: "sublist ''__'' (flattenNamespaceToolName shortHash namespace name)"
  by (auto simp: flattenNamespaceToolName_def Let_def sublist_def)

lemma flatten_not_proxy: "flattenNamespaceToolName shortHash namespace name \<noteq> toolSearchProxyName"
proof -
  have "\<not> sublist ''__'' toolSearchProxyName" by (simp add: toolSearchProxyName_def sublist_Cons_right)
  with flatten_contains [of shortHash namespace name] show ?thesis by metis
qed

lemma aliasOf_none:
  "\<forall>ns \<in> set nss. flattenNamespaceToolName shortHash (nt_Namespace ns) customName \<noteq> name \<Longrightarrow>
     aliasOf shortHash name customName nss found = Some found"
  by (induction nss) simp_all

lemma aliasAmong_none:
  "\<forall>customName \<in> set customs. \<forall>ns \<in> set nss. flattenNamespaceToolName shortHash (nt_Namespace ns) customName \<noteq> name \<Longrightarrow>
     aliasAmong shortHash name nss customs found = Some found"
  by (induction customs) (simp_all add: aliasOf_none)

lemma distinct_filter_name:
  assumes "distinct (map rt_Name (filter isTop tools))" and "a \<in> set tools" "b \<in> set tools" "isTop a" "isTop b" "rt_Name a = rt_Name b"
  shows "a = b"
  using assms by (auto simp: distinct_map dest: inj_onD)

lemma custom_resolves:
  assumes "responsesToolsToChatTools shortHash tools = Inr out" and "tool \<in> set tools"
    and "rt_Type tool = ''custom''" and "rt_Name tool \<noteq> []"
  shows "customToolCallName shortHash (rt_Name tool) (CustomToolNames tools) (FunctionToolNames tools)
    (NamespaceToolNames shortHash tools) = (rt_Name tool, True)"
proof -
  have "\<not> (\<exists>t \<in> set tools. rt_Type t = ''function'' \<and> rt_Name t \<noteq> [] \<and> rt_Name t = rt_Name tool)"
    using distinct_filter_name [OF lowered_names(1) [OF assms(1)] assms(2)] assms(3,4) by (fastforce simp: isTop_def)
  then show ?thesis using assms(2-4) by (auto simp: customToolCallName_def functions_iff customs_iff)
qed

lemma function_resolves:
  assumes "responsesToolsToChatTools shortHash tools = Inr out" and "tool \<in> set tools"
    and "rt_Type tool = ''function''" and "rt_Name tool \<noteq> []"
  shows "customToolCallName shortHash (rt_Name tool) (CustomToolNames tools) (FunctionToolNames tools)
    (NamespaceToolNames shortHash tools) = ([], False)"
    and "map_of (NamespaceToolNames shortHash tools) (rt_Name tool) = None"
    and "HasToolSearchTool tools \<Longrightarrow> rt_Name tool \<noteq> toolSearchProxyName"
proof -
  have top: "isTop tool" using assms(3,4) by (simp add: isTop_def)
  show "customToolCallName shortHash (rt_Name tool) (CustomToolNames tools) (FunctionToolNames tools)
    (NamespaceToolNames shortHash tools) = ([], False)"
    using assms(2-4) by (auto simp: customToolCallName_def functions_iff)
  show "map_of (NamespaceToolNames shortHash tools) (rt_Name tool) = None"
    using lowered_names(3) [OF assms(1) _ assms(2) top] namespaces_value [of shortHash tools "rt_Name tool"]
    by (cases "map_of (NamespaceToolNames shortHash tools) (rt_Name tool)") auto
  show "HasToolSearchTool tools \<Longrightarrow> rt_Name tool \<noteq> toolSearchProxyName"
    using lowered_names(4) [OF assms(1) _ assms(2) top] by blast
qed

lemma namespace_resolves:
  assumes "responsesToolsToChatTools shortHash tools = Inr out" and "(flat, entry) \<in> nsEntries shortHash tools"
  shows "customToolCallName shortHash flat (CustomToolNames tools) (FunctionToolNames tools)
    (NamespaceToolNames shortHash tools) = ([], False)"
    and "map_of (NamespaceToolNames shortHash tools) flat = Some entry"
    and "flat \<noteq> toolSearchProxyName"
proof -
  from assms(2) have "flat \<in> dom (map_of (NamespaceToolNames shortHash tools))"
    unfolding namespaces_dom by (metis fst_conv image_eqI)
  then obtain e where e: "map_of (NamespaceToolNames shortHash tools) flat = Some e" by blast
  with namespaces_value [OF this] assms(2) lowered_names(2) [OF assms(1)]
  show entry: "map_of (NamespaceToolNames shortHash tools) flat = Some entry" by metis
  have "\<not> (\<exists>t \<in> set tools. isTop t \<and> rt_Name t = flat)"
    using lowered_names(3) [OF assms] by blast
  then have "map_of (FunctionToolNames tools) flat = None" and "map_of (CustomToolNames tools) flat = None"
    by (auto simp: functions_iff customs_iff isTop_def)
  then show "customToolCallName shortHash flat (CustomToolNames tools) (FunctionToolNames tools)
    (NamespaceToolNames shortHash tools) = ([], False)"
    by (simp add: customToolCallName_def entry)
  obtain namespace name where "flat = flattenNamespaceToolName shortHash namespace name"
    using assms(2) by (auto simp: nsEntries_def entriesOf_def childEntry_def split: if_splits)
  then show "flat \<noteq> toolSearchProxyName" by (simp add: flatten_not_proxy)
qed

lemma search_resolves:
  assumes "responsesToolsToChatTools shortHash tools = Inr out" and "HasToolSearchTool tools"
  shows "customToolCallName shortHash toolSearchProxyName (CustomToolNames tools) (FunctionToolNames tools)
    (NamespaceToolNames shortHash tools) = ([], False)"
proof -
  have "\<not> (\<exists>t \<in> set tools. isTop t \<and> rt_Name t = toolSearchProxyName)"
    using lowered_names(4) [OF assms] by blast
  then have "map_of (FunctionToolNames tools) toolSearchProxyName = None" "map_of (CustomToolNames tools) toolSearchProxyName = None"
    by (auto simp: functions_iff customs_iff isTop_def)
  moreover have "aliasAmong shortHash toolSearchProxyName nss customs [] = Some []" for nss customs
    by (rule aliasAmong_none) (simp add: flatten_not_proxy)
  ultimately show ?thesis by (simp add: customToolCallName_def)
qed

end
