(* ===== verification/Chat_Message.thy ===== *)
theory Chat_Message
  imports Chat_Tools
begin

text \<open>
  What both translators of a Chat Completions answer read from it: the reasoning text, the text of
  a content, the input of a custom tool, the usage.  \<open>types.go\<close> and
  \<open>chatcompletions_responses_bridge.go\<close> of \<open>internal/pkg/apicompat\<close>.
\<close>

section \<open>Reasoning and content\<close>

definition messageReasoningText :: "ChatMessage \<Rightarrow> string" where
  "messageReasoningText m = (if cm_ReasoningContent m \<noteq> [] then cm_ReasoningContent m else cm_Reasoning m)"

definition deltaReasoningText :: "ChatDelta \<Rightarrow> string option" where
  "deltaReasoningText d = (if cd_ReasoningContent d \<noteq> None then cd_ReasoningContent d else cd_Reasoning d)"

text \<open>The parts of a content array, and the ways \<open>encoding/json\<close> decodes raw JSON: as a string, as content
  parts, and as an object of raw members.\<close>

record ChatContentPart =
  ccp_Type :: string
  ccp_Text :: string

record content_json =
  json_UnmarshalString :: "string \<Rightarrow> string option"
  json_UnmarshalParts :: "string \<Rightarrow> ChatContentPart list option"
  json_UnmarshalMembers :: "string \<Rightarrow> (string \<times> string) list option"

definition chatMessageContentText :: "content_json \<Rightarrow> string \<Rightarrow> string" where
  "chatMessageContentText C raw =
     (let raw = TrimSpace raw
      in if raw = [] \<or> raw = ''null'' then []
         else case json_UnmarshalString C raw of
           Some text \<Rightarrow> text
         | None \<Rightarrow>
             (case json_UnmarshalParts C raw of
                Some parts \<Rightarrow>
                  joinWith [CHR 0x0A, CHR 0x0A]
                    (map ccp_Text (filter (\<lambda>part. ccp_Type part = ''text'' \<and> ccp_Text part \<noteq> []) parts))
              | None \<Rightarrow> []))"

definition extractCustomToolCallInput :: "content_json \<Rightarrow> string \<Rightarrow> string" where
  "extractCustomToolCallInput C arguments =
     (let trimmed = TrimSpace arguments
      in if trimmed = [] then []
         else case json_UnmarshalMembers C trimmed of
           None \<Rightarrow> trimmed
         | Some obj \<Rightarrow>
             (case map_of obj ''input'' of
                Some raw \<Rightarrow> (case json_UnmarshalString C raw of Some s \<Rightarrow> s | None \<Rightarrow> trimmed)
              | None \<Rightarrow> if obj = [] then [] else trimmed))"

section \<open>Usage\<close>

definition ChatUsageToResponsesUsage :: "ChatUsage \<Rightarrow> ResponsesUsage" where
  "ChatUsageToResponsesUsage usage =
     (let out = \<lparr>ru_InputTokens = cu_PromptTokens usage, ru_OutputTokens = cu_CompletionTokens usage,
                 ru_TotalTokens = cu_TotalTokens usage, ru_CacheCreationInputTokens = 0,
                 ru_InputTokensDetails = None, ru_OutputTokensDetails = None\<rparr>;
          out = (if ru_TotalTokens out = 0
                 then out\<lparr>ru_TotalTokens := ru_InputTokens out + ru_OutputTokens out\<rparr> else out)
      in case cu_PromptTokensDetails usage of
           None \<Rightarrow> out
         | Some d \<Rightarrow>
             if ctd_CachedTokens d > 0 \<or> ctd_CacheCreationTokens d > 0 \<or> ctd_CacheWriteTokens d > 0
             then out\<lparr>ru_InputTokensDetails := Some (zeroResponsesInputTokensDetails
                        \<lparr>ritd_CachedTokens := ctd_CachedTokens d, ritd_CacheCreationTokens := ctd_CacheCreationTokens d,
                         ritd_CacheWriteTokens := ctd_CacheWriteTokens d\<rparr>),
                      ru_CacheCreationInputTokens :=
                        (if ctd_CacheWriteTokens d > 0 then ctd_CacheWriteTokens d else ctd_CacheCreationTokens d)\<rparr>
             else out)"

section \<open>The content of a stream\<close>

text \<open>What the choices of a stream carry: text, reasoning, tool calls by upstream index.\<close>

definition choiceText :: "ChatChunkChoice \<Rightarrow> string" where
  "choiceText c = (case cd_Content (cck_Delta c) of None \<Rightarrow> [] | Some x \<Rightarrow> x)"

definition choiceReasoning :: "ChatChunkChoice \<Rightarrow> string" where
  "choiceReasoning c = (case deltaReasoningText (cck_Delta c) of None \<Rightarrow> [] | Some x \<Rightarrow> x)"

definition callIdx :: "ChatToolCall \<Rightarrow> int" where
  "callIdx tc = (case ctc_Index tc of None \<Rightarrow> 0 | Some i \<Rightarrow> i)"

definition toolCallsOf :: "ChatCompletionsChunk \<Rightarrow> ChatToolCall list" where
  "toolCallsOf chunk = concat (map (\<lambda>c. cd_ToolCalls (cck_Delta c)) (ccc_Choices chunk))"

end
