(* ===== verification/Chat_To_Responses.thy ===== *)
theory Chat_To_Responses
  imports Chat_Message
begin

text \<open>
  The response side of \<open>internal/pkg/apicompat/chatcompletions_responses_bridge.go\<close>: the translation
  of a Chat Completions answer into a Responses answer, as one object and as a stream.

  Item identifiers are \<open>item_\<close> and 24 random hexadecimal digits.  The digits are an argument,
  given for each use of the generator: every item asks at most once.  The upstream's tool calls are
  an association list because the code takes the length of that map.  The names the client declared
  (four fields of the stream state, four arguments of the one-object conversion) are one record.
\<close>

section \<open>Identifiers and names\<close>

datatype id_use = IdReasoning | IdMessage | IdCall int | IdTool int | IdOutReasoning | IdOutMessage | IdOutTool int

definition generateItemID :: "string \<Rightarrow> string" where
  "generateItemID b = ''item_'' @ b"

record tool_names =
  tn_CustomTools :: "(string \<times> bool) list"
  tn_FunctionTools :: "(string \<times> bool) list"
  tn_ToolSearchDeclared :: bool
  tn_NamespaceTools :: "(string \<times> NamespacedToolName) list"

record bridge_lib =
  bl_json :: json_lib
  bl_content :: content_json
  bl_shortHash :: "string \<Rightarrow> string"

definition customName :: "bridge_lib \<Rightarrow> tool_names \<Rightarrow> string \<Rightarrow> string \<times> bool" where
  "customName L names name =
     customToolCallName (bl_shortHash L) name (tn_CustomTools names) (tn_FunctionTools names) (tn_NamespaceTools names)"

section \<open>One object\<close>

definition completedItem :: "string \<Rightarrow> string \<Rightarrow> ResponsesOutput" where
  "completedItem t i = zeroResponsesOutput\<lparr>ro_Type := t, ro_ID := i, ro_Status := ''completed''\<rparr>"

definition outputText :: "string \<Rightarrow> ResponsesContentPart" where
  "outputText text = zeroResponsesContentPart\<lparr>rcp_Type := ''output_text'', rcp_Text := text\<rparr>"

text \<open>The body of the loop over the tool calls of a message.\<close>

definition chatToolCallToOutput :: "bridge_lib \<Rightarrow> tool_names \<Rightarrow> string \<Rightarrow> ChatToolCall \<Rightarrow> ResponsesOutput list" where
  "chatToolCallToOutput L names newID toolCall =
     (let name = cfc_Name (ctc_Function toolCall);
          arguments = cfc_Arguments (ctc_Function toolCall);
          arguments = (if TrimSpace arguments = [] then ''{}'' else arguments);
          (custom, ok) = customName L names name
      in if ok then
           [(completedItem ''custom_tool_call'' (generateItemID newID))
              \<lparr>ro_CallID := ctc_ID toolCall, ro_Name := custom,
               ro_Input := extractCustomToolCallInput (bl_content L) arguments\<rparr>]
         else if tn_ToolSearchDeclared names \<and> name = toolSearchProxyName then
           [(completedItem ''tool_search_call'' (generateItemID newID))
              \<lparr>ro_CallID := ctc_ID toolCall, ro_Arguments := arguments\<rparr>]
         else if \<not> json_Valid (bl_json L) arguments then []
         else case map_of (tn_NamespaceTools names) name of
           Some ns \<Rightarrow>
             [(completedItem ''function_call'' (generateItemID newID))
                \<lparr>ro_CallID := ctc_ID toolCall, ro_Name := nt_Name ns, ro_Namespace := nt_Namespace ns,
                 ro_Arguments := arguments\<rparr>]
         | None \<Rightarrow>
             [(completedItem ''function_call'' (generateItemID newID))
                \<lparr>ro_CallID := ctc_ID toolCall, ro_Name := name, ro_Arguments := arguments\<rparr>])"

definition chatMessageToResponsesOutput ::
  "bridge_lib \<Rightarrow> tool_names \<Rightarrow> (id_use \<Rightarrow> string) \<Rightarrow> ChatMessage \<Rightarrow> ResponsesOutput list" where
  "chatMessageToResponsesOutput L names ids message =
     (let reasoning = messageReasoningText message;
          thinking = (if reasoning \<noteq> []
            then [zeroResponsesOutput\<lparr>ro_Type := ''reasoning'', ro_ID := generateItemID (ids IdReasoning),
                    ro_Summary := [\<lparr>rsm_Type = ''summary_text'', rsm_Text = reasoning\<rparr>]\<rparr>] else []);
          text = chatMessageContentText (bl_content L) (cm_Content message);
          text = (if text = [] \<and> TrimSpace reasoning \<noteq> [] \<and> cm_ToolCalls message = [] then reasoning else text);
          texts = (if text \<noteq> [] \<or> cm_ToolCalls message = []
            then [(completedItem ''message'' (generateItemID (ids IdMessage)))
                    \<lparr>ro_Role := ''assistant'', ro_Content := [outputText text]\<rparr>] else [])
      in thinking @ texts @
         concat (map (\<lambda>(i, toolCall). chatToolCallToOutput L names (ids (IdTool (int i))) toolCall)
           (List.enumerate 0 (cm_ToolCalls message))))"

definition emptyResponsesMessageOutput :: "string \<Rightarrow> ResponsesOutput" where
  "emptyResponsesMessageOutput newID =
     (completedItem ''message'' (generateItemID newID))\<lparr>ro_Role := ''assistant'', ro_Content := [outputText []]\<rparr>"

definition chatServiceTier :: "ChatCompletionsResponse option \<Rightarrow> string" where
  "chatServiceTier resp = (case resp of None \<Rightarrow> [] | Some r \<Rightarrow> ccr_ServiceTier r)"

definition ChatCompletionsResponseToResponses ::
  "bridge_lib \<Rightarrow> tool_names \<Rightarrow> (id_use \<Rightarrow> string) \<Rightarrow> string \<Rightarrow> int \<Rightarrow> ChatCompletionsResponse option \<Rightarrow> string
   \<Rightarrow> ResponsesResponse" where
  "ChatCompletionsResponseToResponses L names ids responseID now resp model =
     (let id' = (case resp of None \<Rightarrow> [] | Some r \<Rightarrow> ccr_ID r);
          id' = (if id' = [] then responseID else id');
          createdAt = (case resp of None \<Rightarrow> 0 | Some r \<Rightarrow> ccr_Created r);
          createdAt = (if createdAt \<le> 0 then now else createdAt);
          out = zeroResponsesResponse\<lparr>rr_ID := id', rr_Object := ''response'', rr_CreatedAt := createdAt,
            rr_Model := model, rr_Status := ''completed'', rr_ServiceTier := chatServiceTier resp\<rparr>
      in case resp of
           None \<Rightarrow> out\<lparr>rr_Output := [emptyResponsesMessageOutput (ids IdMessage)]\<rparr>
         | Some r \<Rightarrow>
             let out = (if rr_Model out = [] then out\<lparr>rr_Model := ccr_Model r\<rparr> else out);
                 out = (case ccr_Choices r of
                   [] \<Rightarrow> out
                 | choice # _ \<Rightarrow>
                     let out = out\<lparr>rr_Output := chatMessageToResponsesOutput L names ids (cch_Message choice)\<rparr>
                     in if cch_FinishReason choice = ''length''
                        then out\<lparr>rr_Status := ''incomplete'',
                               rr_IncompleteDetails := Some \<lparr>rid_Reason = ''max_output_tokens''\<rparr>\<rparr>
                        else out);
                 out = (if rr_Output out = []
                   then out\<lparr>rr_Output := [emptyResponsesMessageOutput (ids IdMessage)]\<rparr> else out)
             in case ccr_Usage r of
                  None \<Rightarrow> out | Some u \<Rightarrow> out\<lparr>rr_Usage := Some (ChatUsageToResponsesUsage u)\<rparr>)"

section \<open>Calls reach the tools they were made for\<close>

text \<open>The names the code collects from the tools of a request.\<close>

definition namesOf :: "(string \<Rightarrow> string) \<Rightarrow> ResponsesTool list \<Rightarrow> tool_names" where
  "namesOf shortHash tools =
     \<lparr>tn_CustomTools = CustomToolNames tools, tn_FunctionTools = FunctionToolNames tools,
      tn_ToolSearchDeclared = HasToolSearchTool tools, tn_NamespaceTools = NamespaceToolNames shortHash tools\<rparr>"

text \<open>What the client is told to call: item type, namespace and name.\<close>

definition routed :: "ResponsesOutput list \<Rightarrow> (string \<times> string \<times> string) list" where
  "routed items = map (\<lambda>i. (ro_Type i, ro_Namespace i, ro_Name i)) items"

text \<open>
  C7: when a tool list is lowered for a Chat Completions upstream, a call the model makes to any of
  the lowered names, with no arguments or with arguments that are valid JSON, comes back to the client as a call of exactly the declaration the name was made
  from: a custom tool as a custom call, a function as a function call, a namespace child as a
  function call with its namespace and bare name (also when its flattened name was cut and hashed),
  the search proxy as a tool search call.
\<close>

theorem lowered_calls_route_back:
  assumes "responsesToolsToChatTools (bl_shortHash L) tools = Inr out"
    and "names = namesOf (bl_shortHash L) tools"
    and "json_Valid (bl_json L) (if TrimSpace (cfc_Arguments (ctc_Function call)) = [] then ''{}'' else cfc_Arguments (ctc_Function call))"
    and "name = cfc_Name (ctc_Function call)" and "name \<noteq> []"
  shows "(\<forall>tool \<in> set tools. rt_Name tool = name \<longrightarrow>
      (rt_Type tool = ''custom'' \<longrightarrow> routed (chatToolCallToOutput L names newID call) = [(''custom_tool_call'', [], name)]) \<and>
      (rt_Type tool = ''function'' \<longrightarrow> routed (chatToolCallToOutput L names newID call) = [(''function_call'', [], name)])) \<and>
    (\<forall>tool \<in> set tools. \<forall>child \<in> set (namespaceChildren tool). isNamespace tool \<longrightarrow> isChild child \<longrightarrow>
      name = flattenNamespaceToolName (bl_shortHash L) (rt_Name tool) (rt_Name child) \<longrightarrow>
      routed (chatToolCallToOutput L names newID call) = [(''function_call'', rt_Name tool, rt_Name child)]) \<and>
    (HasToolSearchTool tools \<longrightarrow> name = toolSearchProxyName \<longrightarrow>
      map ro_Type (chatToolCallToOutput L names newID call) = [''tool_search_call''])"
proof (intro conjI ballI impI)
  note out = assms(1)
  have custom: "customName L names n = customToolCallName (bl_shortHash L) n (CustomToolNames tools) (FunctionToolNames tools)
      (NamespaceToolNames (bl_shortHash L) tools)" for n
    by (simp add: customName_def assms(2) namesOf_def)
  {
    fix tool assume tool: "tool \<in> set tools" "rt_Name tool = name"
    {
      assume "rt_Type tool = ''custom''"
      from custom_resolves [OF out tool(1) this] tool(2) assms(5) have "customName L names name = (name, True)"
        by (simp add: custom)
      then show "routed (chatToolCallToOutput L names newID call) = [(''custom_tool_call'', [], name)]"
        by (simp add: chatToolCallToOutput_def routed_def completedItem_def zeroResponsesOutput_def Let_def flip: assms(4))
    }
    {
      assume "rt_Type tool = ''function''"
      from function_resolves [OF out tool(1) this] tool(2) assms(5)
      have "customName L names name = ([], False)" "map_of (tn_NamespaceTools names) name = None"
        "\<not> (tn_ToolSearchDeclared names \<and> name = toolSearchProxyName)"
        by (auto simp: custom) (simp_all add: assms(2) namesOf_def)
      with assms(3) show "routed (chatToolCallToOutput L names newID call) = [(''function_call'', [], name)]"
        by (simp only: chatToolCallToOutput_def Let_def assms(4) [symmetric])
           (simp add: routed_def completedItem_def zeroResponsesOutput_def)
    }
  }
  {
    fix tool child
    assume tool: "tool \<in> set tools" "child \<in> set (namespaceChildren tool)" "isNamespace tool" "isChild child"
      and name: "name = flattenNamespaceToolName (bl_shortHash L) (rt_Name tool) (rt_Name child)"
    then have "(name, \<lparr>nt_Namespace = rt_Name tool, nt_Name = rt_Name child\<rparr>) \<in> nsEntries (bl_shortHash L) tools"
      by (auto simp: nsEntries_def entriesOf_def childEntry_def)
    from namespace_resolves [OF out this]
    have "customName L names name = ([], False)" "\<not> (tn_ToolSearchDeclared names \<and> name = toolSearchProxyName)"
      "map_of (tn_NamespaceTools names) name = Some \<lparr>nt_Namespace = rt_Name tool, nt_Name = rt_Name child\<rparr>"
      by (simp_all add: custom) (simp_all add: assms(2) namesOf_def)
    with assms(3) show "routed (chatToolCallToOutput L names newID call) = [(''function_call'', rt_Name tool, rt_Name child)]"
      by (simp only: chatToolCallToOutput_def Let_def assms(4) [symmetric])
         (simp add: routed_def completedItem_def zeroResponsesOutput_def)
  }
  {
    assume search: "HasToolSearchTool tools" and name: "name = toolSearchProxyName"
    from search_resolves [OF out search] have "customName L names name = ([], False)" by (simp add: custom name)
    moreover have "tn_ToolSearchDeclared names \<and> name = toolSearchProxyName" using search name by (simp add: assms(2) namesOf_def)
    ultimately show "map ro_Type (chatToolCallToOutput L names newID call) = [''tool_search_call'']"
      by (simp only: chatToolCallToOutput_def Let_def assms(4) [symmetric])
         (simp add: completedItem_def zeroResponsesOutput_def)
  }
qed

text \<open>A concrete library and tool list.\<close>

definition plain_lib :: bridge_lib where
  "plain_lib = \<lparr>bl_json = plain_json,
     bl_content = \<lparr>json_UnmarshalString = (\<lambda>s. Some s), json_UnmarshalParts = (\<lambda>_. None), json_UnmarshalMembers = (\<lambda>_. None)\<rparr>,
     bl_shortHash = (\<lambda>_. ''00000000'')\<rparr>"

lemma trim_braces: "TrimSpace ''{}'' = ''{}''" "TrimSpace ''{'' = ''{''"
  by (simp_all add: TrimSpace_def trim_encs.simps go_spaces_def find_enc_def)

definition exNamespace :: "ResponsesTool list" where
  "exNamespace =
     [ResponsesTool ''namespace'' ''fs'' [] [] None
        [ResponsesTool ''function'' ''read'' [] [] None [] [] [] [] [] [] None None] [] [] [] [] [] None None]"

theorem lowered_calls_route_back_witness:
  "routed (chatToolCallToOutput plain_lib (namesOf (bl_shortHash plain_lib) exNamespace) []
     \<lparr>ctc_Index = None, ctc_ID = ''call_1'', ctc_Type = ''function'',
      ctc_Function = \<lparr>cfc_Name = ''fs__read'', cfc_Arguments = ''{}''\<rparr>\<rparr>) = [(''function_call'', ''fs'', ''read'')]"
proof -
  have "responsesToolsToChatTools (bl_shortHash plain_lib) exNamespace =
      Inr [functionTool \<lparr>cfn_Name = ''fs__read'', cfn_Description = [], cfn_Parameters = [], cfn_Strict = None\<rparr>]"
    by (simp add: responsesToolsToChatTools_def exNamespace_def namespaceChildrenToChatTools_def namespaceChildren_def
        flattenNamespaceToolName_def chatToolNameMaxLen_def Let_def)
  from lowered_calls_route_back [OF this refl _ refl, where newID = "[]" and
      call = "\<lparr>ctc_Index = None, ctc_ID = ''call_1'', ctc_Type = ''function'',
        ctc_Function = \<lparr>cfc_Name = ''fs__read'', cfc_Arguments = ''{}''\<rparr>\<rparr>"]
  show ?thesis
    by (simp add: plain_lib_def plain_json_def trim_braces exNamespace_def namespaceChildren_def isNamespace_def isChild_def
        flattenNamespaceToolName_def chatToolNameMaxLen_def Let_def)
qed

section \<open>The stream state\<close>

record ChatCompletionsToResponsesStreamState =
  cr_ResponseID :: string
  cr_Model :: string
  cr_Created :: int
  cr_ServiceTier :: string
  cr_SequenceNumber :: int
  cr_CreatedSent :: bool
  cr_CompletedSent :: bool
  cr_nextOutputIndex :: int
  cr_ReasoningItemID :: string
  cr_ReasoningIndex :: int
  cr_ReasoningOpen :: bool
  cr_ReasoningDone :: bool
  cr_MessageItemID :: string
  cr_MessageIndex :: int
  cr_TextPartOpen :: bool
  cr_Text :: string
  cr_Reasoning :: string
  cr_ToolCalls :: "(int \<times> ChatToolCall) list"
  cr_ToolItemIDs :: "int \<rightharpoonup> string"
  cr_ToolOutputIndex :: "int \<rightharpoonup> int"
  cr_names :: tool_names
  cr_toolIsCustom :: "int \<rightharpoonup> bool"
  cr_toolIsToolSearch :: "int \<rightharpoonup> bool"
  cr_toolNamespace :: "int \<rightharpoonup> NamespacedToolName"
  cr_toolAnnounced :: "int \<rightharpoonup> bool"
  cr_FinishReason :: string
  cr_Usage :: "ResponsesUsage option"

type_synonym c2r_result = "ResponsesStreamEvent list \<times> ChatCompletionsToResponsesStreamState"

text \<open>The constructor, and the four fields its callers set next.\<close>

definition NewChatCompletionsToResponsesStreamState ::
  "string \<Rightarrow> int \<Rightarrow> tool_names \<Rightarrow> string \<Rightarrow> ChatCompletionsToResponsesStreamState" where
  "NewChatCompletionsToResponsesStreamState responseID now names model =
     \<lparr>cr_ResponseID = responseID, cr_Model = model, cr_Created = now, cr_ServiceTier = [], cr_SequenceNumber = 0,
      cr_CreatedSent = False, cr_CompletedSent = False, cr_nextOutputIndex = 0, cr_ReasoningItemID = [],
      cr_ReasoningIndex = 0, cr_ReasoningOpen = False, cr_ReasoningDone = False, cr_MessageItemID = [],
      cr_MessageIndex = 0, cr_TextPartOpen = False, cr_Text = [], cr_Reasoning = [], cr_ToolCalls = [],
      cr_ToolItemIDs = Map.empty, cr_ToolOutputIndex = Map.empty, cr_names = names, cr_toolIsCustom = Map.empty,
      cr_toolIsToolSearch = Map.empty, cr_toolNamespace = Map.empty, cr_toolAnnounced = Map.empty,
      cr_FinishReason = [], cr_Usage = None\<rparr>"

text \<open>The error of \<open>ValidateToolCallArguments\<close>: identifier and name of a call with invalid arguments.\<close>

definition ValidateToolCallArguments ::
  "bridge_lib \<Rightarrow> ChatCompletionsToResponsesStreamState \<Rightarrow> (string \<times> string) option" where
  "ValidateToolCallArguments L state =
     (case find (\<lambda>(idx, toolCall).
          let arguments = TrimSpace (cfc_Arguments (ctc_Function toolCall))
          in \<not> (cr_toolIsCustom state idx = Some True \<or> cr_toolIsToolSearch state idx = Some True) \<and>
             arguments \<noteq> [] \<and> \<not> json_Valid (bl_json L) arguments)
          (cr_ToolCalls state) of
        None \<Rightarrow> None
      | Some (idx, toolCall) \<Rightarrow> Some (ctc_ID toolCall, cfc_Name (ctc_Function toolCall)))"

section \<open>Stream handlers\<close>

definition chatToResponsesEvent ::
  "string \<Rightarrow> ResponsesStreamEvent \<Rightarrow> ChatCompletionsToResponsesStreamState \<Rightarrow> c2r_result" where
  "chatToResponsesEvent eventType template state =
     ([template\<lparr>rse_Type := eventType, rse_SequenceNumber := cr_SequenceNumber state\<rparr>],
      state\<lparr>cr_SequenceNumber := cr_SequenceNumber state + 1\<rparr>)"

definition ensureChatToResponsesCreated :: "ChatCompletionsToResponsesStreamState \<Rightarrow> c2r_result" where
  "ensureChatToResponsesCreated state =
     (if cr_CreatedSent state then ([], state)
      else chatToResponsesEvent ''response.created'' (zeroResponsesStreamEvent\<lparr>rse_Response := Some
             (zeroResponsesResponse\<lparr>rr_ID := cr_ResponseID state, rr_Object := ''response'',
               rr_CreatedAt := cr_Created state, rr_Model := cr_Model state, rr_Status := ''in_progress'',
               rr_ServiceTier := cr_ServiceTier state\<rparr>)\<rparr>)
             (state\<lparr>cr_CreatedSent := True\<rparr>))"

definition ensureChatReasoningItem ::
  "(id_use \<Rightarrow> string) \<Rightarrow> ChatCompletionsToResponsesStreamState \<Rightarrow> c2r_result" where
  "ensureChatReasoningItem ids state =
     (if cr_ReasoningOpen state \<or> cr_ReasoningDone state then ([], state)
      else
        let itemID = generateItemID (ids IdReasoning);
            idx = cr_nextOutputIndex state;
            state = state\<lparr>cr_ReasoningOpen := True, cr_ReasoningItemID := itemID, cr_ReasoningIndex := idx,
                      cr_nextOutputIndex := idx + 1\<rparr>
        in seqE
          (chatToResponsesEvent ''response.output_item.added'' (zeroResponsesStreamEvent
             \<lparr>rse_OutputIndex := idx, rse_Item := Some (zeroResponsesOutput
                \<lparr>ro_Type := ''reasoning'', ro_ID := itemID, ro_Status := ''in_progress''\<rparr>)\<rparr>) state)
          (chatToResponsesEvent ''response.reasoning_summary_part.added'' (zeroResponsesStreamEvent
             \<lparr>rse_OutputIndex := idx, rse_ItemID := itemID,
              rse_Part := Some (zeroResponsesContentPart\<lparr>rcp_Type := ''summary_text''\<rparr>)\<rparr>)))"

definition closeChatReasoningItem :: "ChatCompletionsToResponsesStreamState \<Rightarrow> c2r_result" where
  "closeChatReasoningItem state =
     (if \<not> cr_ReasoningOpen state then ([], state)
      else
        let idx = cr_ReasoningIndex state; itemID = cr_ReasoningItemID state; reasoning = cr_Reasoning state
        in seqE (seqE
          (chatToResponsesEvent ''response.reasoning_summary_text.done'' (zeroResponsesStreamEvent
             \<lparr>rse_OutputIndex := idx, rse_Text := reasoning, rse_ItemID := itemID\<rparr>)
             (state\<lparr>cr_ReasoningOpen := False, cr_ReasoningDone := True\<rparr>))
          (chatToResponsesEvent ''response.reasoning_summary_part.done'' (zeroResponsesStreamEvent
             \<lparr>rse_OutputIndex := idx, rse_ItemID := itemID,
              rse_Part := Some (zeroResponsesContentPart\<lparr>rcp_Type := ''summary_text'', rcp_Text := reasoning\<rparr>)\<rparr>)))
          (chatToResponsesEvent ''response.output_item.done'' (zeroResponsesStreamEvent
             \<lparr>rse_OutputIndex := idx, rse_Item := Some ((completedItem ''reasoning'' itemID)
                \<lparr>ro_Summary := [\<lparr>rsm_Type = ''summary_text'', rsm_Text = reasoning\<rparr>]\<rparr>)\<rparr>)))"

definition ensureChatToResponsesMessageItem ::
  "(id_use \<Rightarrow> string) \<Rightarrow> ChatCompletionsToResponsesStreamState \<Rightarrow> c2r_result" where
  "ensureChatToResponsesMessageItem ids state =
     (if cr_MessageItemID state \<noteq> [] then ([], state)
      else
        let itemID = generateItemID (ids IdMessage);
            idx = cr_nextOutputIndex state
        in chatToResponsesEvent ''response.output_item.added'' (zeroResponsesStreamEvent
             \<lparr>rse_OutputIndex := idx, rse_Item := Some (zeroResponsesOutput
                \<lparr>ro_Type := ''message'', ro_ID := itemID, ro_Role := ''assistant'', ro_Status := ''in_progress'',
                 ro_Content := [outputText []]\<rparr>)\<rparr>)
             (state\<lparr>cr_MessageItemID := itemID, cr_MessageIndex := idx, cr_nextOutputIndex := idx + 1\<rparr>))"

definition ensureChatToResponsesTextPart :: "ChatCompletionsToResponsesStreamState \<Rightarrow> c2r_result" where
  "ensureChatToResponsesTextPart state =
     (if cr_TextPartOpen state then ([], state)
      else chatToResponsesEvent ''response.content_part.added'' (zeroResponsesStreamEvent
             \<lparr>rse_OutputIndex := cr_MessageIndex state, rse_ItemID := cr_MessageItemID state,
              rse_Part := Some (outputText [])\<rparr>)
             (state\<lparr>cr_TextPartOpen := True\<rparr>))"

text \<open>Opening the message and its text part if needed, and one increment of its text.\<close>

definition chatTextDelta ::
  "(id_use \<Rightarrow> string) \<Rightarrow> string \<Rightarrow> ChatCompletionsToResponsesStreamState \<Rightarrow> c2r_result" where
  "chatTextDelta ids text state =
     seqE (seqE (ensureChatToResponsesMessageItem ids state) ensureChatToResponsesTextPart)
       (\<lambda>state. chatToResponsesEvent ''response.output_text.delta'' (zeroResponsesStreamEvent
          \<lparr>rse_OutputIndex := cr_MessageIndex state, rse_Delta := text, rse_ItemID := cr_MessageItemID state\<rparr>)
          (state\<lparr>cr_Text := cr_Text state @ text\<rparr>))"

definition synthesizeChatReasoningFallbackMessage ::
  "(id_use \<Rightarrow> string) \<Rightarrow> ChatCompletionsToResponsesStreamState \<Rightarrow> c2r_result" where
  "synthesizeChatReasoningFallbackMessage ids state =
     (if cr_MessageItemID state \<noteq> [] \<or> cr_Text state \<noteq> [] \<or> cr_Reasoning state = [] \<or> cr_ToolCalls state \<noteq> []
      then ([], state)
      else if TrimSpace (cr_Reasoning state) = [] then ([], state)
      else chatTextDelta ids (cr_Reasoning state) state)"

definition functionCallDelta ::
  "int \<Rightarrow> ChatToolCall \<Rightarrow> string \<Rightarrow> ChatCompletionsToResponsesStreamState \<Rightarrow> c2r_result" where
  "functionCallDelta idx stored arguments state =
     chatToResponsesEvent ''response.function_call_arguments.delta'' (zeroResponsesStreamEvent
       \<lparr>rse_OutputIndex := (case cr_ToolOutputIndex state idx of None \<Rightarrow> 0 | Some i \<Rightarrow> i),
        rse_ItemID := (case cr_ToolItemIDs state idx of None \<Rightarrow> [] | Some i \<Rightarrow> i),
        rse_Delta := arguments, rse_CallID := ctc_ID stored, rse_Name := cfc_Name (ctc_Function stored)\<rparr>) state"

definition announceChatToolItem ::
  "bridge_lib \<Rightarrow> int \<Rightarrow> ChatToolCall \<Rightarrow> bool \<Rightarrow> ChatCompletionsToResponsesStreamState \<Rightarrow> c2r_result" where
  "announceChatToolItem L idx stored force state =
     (let names = cr_names state; name = cfc_Name (ctc_Function stored)
      in if cr_toolAnnounced state idx = Some True then ([], state)
         else if \<not> force \<and> name = [] \<and> (tn_CustomTools names \<noteq> [] \<or> tn_FunctionTools names \<noteq> [] \<or>
                tn_ToolSearchDeclared names \<or> tn_NamespaceTools names \<noteq> []) then ([], state)
         else
           let (custom, isCustom) = customName L names name;
               isToolSearch = (\<not> isCustom \<and> tn_ToolSearchDeclared names \<and> name = toolSearchProxyName);
               state = state\<lparr>cr_toolAnnounced := (cr_toolAnnounced state)(idx \<mapsto> True),
                 cr_toolIsCustom := (cr_toolIsCustom state)(idx \<mapsto> isCustom),
                 cr_toolIsToolSearch := (cr_toolIsToolSearch state)(idx \<mapsto> isToolSearch)\<rparr>;
               itemType = (if isToolSearch then ''tool_search_call''
                           else if isCustom then ''custom_tool_call'' else ''function_call'');
               ns = (if isCustom \<or> isToolSearch then None else map_of (tn_NamespaceTools names) name);
               itemName = (case ns of Some n \<Rightarrow> nt_Name n | None \<Rightarrow> if isCustom then custom else name);
               itemNamespace = (case ns of Some n \<Rightarrow> nt_Namespace n | None \<Rightarrow> []);
               state = (case ns of Some n \<Rightarrow> state\<lparr>cr_toolNamespace := (cr_toolNamespace state)(idx \<mapsto> n)\<rparr> | None \<Rightarrow> state)
           in seqE
             (chatToResponsesEvent ''response.output_item.added'' (zeroResponsesStreamEvent
                \<lparr>rse_OutputIndex := (case cr_ToolOutputIndex state idx of None \<Rightarrow> 0 | Some i \<Rightarrow> i),
                 rse_Item := Some (zeroResponsesOutput
                   \<lparr>ro_Type := itemType, ro_ID := (case cr_ToolItemIDs state idx of None \<Rightarrow> [] | Some i \<Rightarrow> i),
                    ro_CallID := ctc_ID stored, ro_Name := itemName, ro_Namespace := itemNamespace,
                    ro_Status := ''in_progress''\<rparr>)\<rparr>) state)
             (\<lambda>state.
               if \<not> isCustom \<and> \<not> isToolSearch \<and> cfc_Arguments (ctc_Function stored) \<noteq> []
               then functionCallDelta idx stored (cfc_Arguments (ctc_Function stored)) state
               else ([], state)))"

text \<open>One tool call of a delta: store it, announce it, and its arguments.\<close>

definition storeToolCall ::
  "(id_use \<Rightarrow> string) \<Rightarrow> int \<Rightarrow> ChatToolCall \<Rightarrow> ChatCompletionsToResponsesStreamState \<Rightarrow> c2r_result" where
  "storeToolCall ids idx toolCall state =
     (case map_of (cr_ToolCalls state) idx of
        None \<Rightarrow>
          seqE (closeChatReasoningItem state) (\<lambda>state.
            let copyCall = toolCall\<lparr>ctc_ID := (if ctc_ID toolCall = [] then generateItemID (ids (IdCall idx)) else ctc_ID toolCall),
                  ctc_Type := ''function'', ctc_Function := (ctc_Function toolCall)\<lparr>cfc_Arguments := []\<rparr>\<rparr>
            in ([], state\<lparr>cr_ToolCalls := AList.update idx copyCall (cr_ToolCalls state),
                  cr_ToolItemIDs := (cr_ToolItemIDs state)(idx \<mapsto> generateItemID (ids (IdTool idx))),
                  cr_ToolOutputIndex := (cr_ToolOutputIndex state)(idx \<mapsto> cr_nextOutputIndex state),
                  cr_nextOutputIndex := cr_nextOutputIndex state + 1\<rparr>))
      | Some stored \<Rightarrow>
          let stored = (if ctc_ID toolCall \<noteq> [] then stored\<lparr>ctc_ID := ctc_ID toolCall\<rparr> else stored);
              name = cfc_Name (ctc_Function toolCall);
              stored = (if name \<noteq> [] then stored\<lparr>ctc_Function := (ctc_Function stored)\<lparr>cfc_Name := name\<rparr>\<rparr> else stored)
          in ([], state\<lparr>cr_ToolCalls := AList.update idx stored (cr_ToolCalls state)\<rparr>))"

definition storeArguments ::
  "int \<Rightarrow> string \<Rightarrow> ChatCompletionsToResponsesStreamState \<Rightarrow> c2r_result" where
  "storeArguments idx arguments state =
     (case map_of (cr_ToolCalls state) idx of
        None \<Rightarrow> ([], state)
      | Some stored \<Rightarrow>
          if arguments = [] then ([], state)
          else
            let stored = stored\<lparr>ctc_Function := (ctc_Function stored)
                  \<lparr>cfc_Arguments := cfc_Arguments (ctc_Function stored) @ arguments\<rparr>\<rparr>;
                state = state\<lparr>cr_ToolCalls := AList.update idx stored (cr_ToolCalls state)\<rparr>
            in if cr_toolAnnounced state idx = Some True \<and> cr_toolIsCustom state idx \<noteq> Some True \<and>
                  cr_toolIsToolSearch state idx \<noteq> Some True
               then functionCallDelta idx stored arguments state else ([], state))"

definition chatToolCallDelta ::
  "bridge_lib \<Rightarrow> (id_use \<Rightarrow> string) \<Rightarrow> ChatToolCall \<Rightarrow> ChatCompletionsToResponsesStreamState \<Rightarrow> c2r_result" where
  "chatToolCallDelta L ids toolCall state =
     (let idx = (case ctc_Index toolCall of None \<Rightarrow> 0 | Some i \<Rightarrow> i)
      in seqE (seqE (storeToolCall ids idx toolCall state)
        (\<lambda>state. case map_of (cr_ToolCalls state) idx of
           None \<Rightarrow> ([], state) | Some stored \<Rightarrow> announceChatToolItem L idx stored False state))
        (storeArguments idx (cfc_Arguments (ctc_Function toolCall))))"

definition chatReasoningDelta ::
  "(id_use \<Rightarrow> string) \<Rightarrow> string \<Rightarrow> ChatCompletionsToResponsesStreamState \<Rightarrow> c2r_result" where
  "chatReasoningDelta ids reasoning state =
     (if reasoning = [] then ([], state)
      else seqE (ensureChatReasoningItem ids state) (\<lambda>state.
        chatToResponsesEvent ''response.reasoning_summary_text.delta'' (zeroResponsesStreamEvent
          \<lparr>rse_OutputIndex := cr_ReasoningIndex state, rse_Delta := reasoning, rse_ItemID := cr_ReasoningItemID state\<rparr>)
          (state\<lparr>cr_Reasoning := cr_Reasoning state @ reasoning\<rparr>)))"

definition chatContentDelta ::
  "(id_use \<Rightarrow> string) \<Rightarrow> string \<Rightarrow> ChatCompletionsToResponsesStreamState \<Rightarrow> c2r_result" where
  "chatContentDelta ids content state =
     (if content = [] then ([], state) else seqE (closeChatReasoningItem state) (chatTextDelta ids content))"

definition chatChoice ::
  "bridge_lib \<Rightarrow> (id_use \<Rightarrow> string) \<Rightarrow> ChatChunkChoice \<Rightarrow> ChatCompletionsToResponsesStreamState \<Rightarrow> c2r_result" where
  "chatChoice L ids choice state =
     (let finish = (case cck_FinishReason choice of None \<Rightarrow> [] | Some f \<Rightarrow> f)
      in seqE (seqE (seqE
        (chatReasoningDelta ids (choiceReasoning choice) state)
        (chatContentDelta ids (choiceText choice)))
        (run_machine (chatToolCallDelta L ids) (cd_ToolCalls (cck_Delta choice))))
        (\<lambda>state. ([], if finish = [] then state else state\<lparr>cr_FinishReason := finish\<rparr>)))"

text \<open>What a chunk says about the response.\<close>

definition noteChunk ::
  "ChatCompletionsChunk \<Rightarrow> ChatCompletionsToResponsesStreamState \<Rightarrow> ChatCompletionsToResponsesStreamState" where
  "noteChunk chunk state =
     (let state = (if ccc_ID chunk \<noteq> [] then state\<lparr>cr_ResponseID := ccc_ID chunk\<rparr> else state);
          state = (if cr_Model state = [] \<and> ccc_Model chunk \<noteq> [] then state\<lparr>cr_Model := ccc_Model chunk\<rparr> else state);
          state = (if ccc_ServiceTier chunk \<noteq> [] then state\<lparr>cr_ServiceTier := ccc_ServiceTier chunk\<rparr> else state)
      in case ccc_Usage chunk of
           None \<Rightarrow> state | Some u \<Rightarrow> state\<lparr>cr_Usage := Some (ChatUsageToResponsesUsage u)\<rparr>)"

definition ChatCompletionsChunkToResponsesEvents ::
  "bridge_lib \<Rightarrow> (id_use \<Rightarrow> string) \<Rightarrow> ChatCompletionsChunk \<Rightarrow> ChatCompletionsToResponsesStreamState \<Rightarrow> c2r_result" where
  "ChatCompletionsChunkToResponsesEvents L ids chunk state =
     seqE (ensureChatToResponsesCreated (noteChunk chunk state)) (run_machine (chatChoice L ids) (ccc_Choices chunk))"

section \<open>The finaliser\<close>

definition customNameForStreamTool :: "bridge_lib \<Rightarrow> tool_names \<Rightarrow> string \<Rightarrow> string" where
  "customNameForStreamTool L names name = (let (custom, ok) = customName L names name in if ok then custom else name)"

text \<open>The finished item of a stored call: in the stream and in the terminal response.\<close>

definition finishedToolItem ::
  "bridge_lib \<Rightarrow> string \<Rightarrow> int \<Rightarrow> ChatToolCall \<Rightarrow> ChatCompletionsToResponsesStreamState \<Rightarrow> ResponsesOutput" where
  "finishedToolItem L itemID i toolCall state =
     (let arguments = cfc_Arguments (ctc_Function toolCall);
          arguments = (if TrimSpace arguments = [] then ''{}'' else arguments);
          name = cfc_Name (ctc_Function toolCall)
      in if cr_toolIsCustom state i = Some True then
           (completedItem ''custom_tool_call'' itemID)
             \<lparr>ro_CallID := ctc_ID toolCall, ro_Name := customNameForStreamTool L (cr_names state) name,
              ro_Input := extractCustomToolCallInput (bl_content L) arguments\<rparr>
         else if cr_toolIsToolSearch state i = Some True then
           (completedItem ''tool_search_call'' itemID)\<lparr>ro_CallID := ctc_ID toolCall, ro_Arguments := arguments\<rparr>
         else
           let (name, namespace) = (case cr_toolNamespace state i of
                  Some ns \<Rightarrow> (nt_Name ns, nt_Namespace ns) | None \<Rightarrow> (name, []))
           in (completedItem ''function_call'' itemID)
                \<lparr>ro_CallID := ctc_ID toolCall, ro_Name := name, ro_Namespace := namespace, ro_Arguments := arguments\<rparr>)"

definition chatToolItemDone :: "int \<Rightarrow> ResponsesOutput \<Rightarrow> ChatCompletionsToResponsesStreamState \<Rightarrow> c2r_result" where
  "chatToolItemDone outputIndex item =
     chatToResponsesEvent ''response.output_item.done''
       (zeroResponsesStreamEvent\<lparr>rse_OutputIndex := outputIndex, rse_Item := Some item\<rparr>)"

text \<open>The events that end the item of a stored call, by its type.\<close>

definition finishChatToolItem ::
  "bridge_lib \<Rightarrow> int \<Rightarrow> string \<Rightarrow> ChatToolCall \<Rightarrow> ChatCompletionsToResponsesStreamState \<Rightarrow> c2r_result" where
  "finishChatToolItem L i itemID toolCall state =
     (let outputIndex = (case cr_ToolOutputIndex state i of None \<Rightarrow> 0 | Some n \<Rightarrow> n);
          item = finishedToolItem L itemID i toolCall state
      in if cr_toolIsCustom state i = Some True then
           let input = ro_Input item
           in seqE (seqE
             (if input = [] then ([], state)
              else chatToResponsesEvent ''response.custom_tool_call_input.delta'' (zeroResponsesStreamEvent
                \<lparr>rse_OutputIndex := outputIndex, rse_ItemID := itemID, rse_Delta := input\<rparr>) state)
             (chatToResponsesEvent ''response.custom_tool_call_input.done'' (zeroResponsesStreamEvent
                \<lparr>rse_OutputIndex := outputIndex, rse_ItemID := itemID, rse_CallID := ctc_ID toolCall,
                 rse_Name := ro_Name item, rse_Input := input\<rparr>)))
             (chatToolItemDone outputIndex item)
         else if cr_toolIsToolSearch state i = Some True then chatToolItemDone outputIndex item state
         else seqE
           (chatToResponsesEvent ''response.function_call_arguments.done'' (zeroResponsesStreamEvent
              \<lparr>rse_OutputIndex := outputIndex, rse_ItemID := itemID, rse_CallID := ctc_ID toolCall,
               rse_Name := ro_Name item, rse_Arguments := ro_Arguments item\<rparr>) state)
           (chatToolItemDone outputIndex item))"

definition closeChatToolItem ::
  "bridge_lib \<Rightarrow> int \<Rightarrow> ChatCompletionsToResponsesStreamState \<Rightarrow> c2r_result" where
  "closeChatToolItem L i state =
     (case map_of (cr_ToolCalls state) i of
        None \<Rightarrow> ([], state)
      | Some toolCall \<Rightarrow>
          (case cr_ToolItemIDs state i of
             None \<Rightarrow> ([], state)
           | Some itemID \<Rightarrow>
               seqE (announceChatToolItem L i toolCall True state) (finishChatToolItem L i itemID toolCall)))"

definition toolIndices :: "ChatCompletionsToResponsesStreamState \<Rightarrow> int list" where
  "toolIndices state = map int [0..<length (cr_ToolCalls state)]"

definition closeChatToolItems :: "bridge_lib \<Rightarrow> ChatCompletionsToResponsesStreamState \<Rightarrow> c2r_result" where
  "closeChatToolItems L state = run_machine (closeChatToolItem L) (toolIndices state) state"

definition chatOutput :: "bridge_lib \<Rightarrow> (id_use \<Rightarrow> string) \<Rightarrow> ChatCompletionsToResponsesStreamState \<Rightarrow> ResponsesOutput list" where
  "chatOutput L ids state =
     (if cr_Reasoning state \<noteq> []
      then [zeroResponsesOutput\<lparr>ro_Type := ''reasoning'', ro_ID := generateItemID (ids IdOutReasoning),
              ro_Summary := [\<lparr>rsm_Type = ''summary_text'', rsm_Text = cr_Reasoning state\<rparr>]\<rparr>] else []) @
     (if cr_MessageItemID state \<noteq> [] \<or> cr_ToolCalls state = []
      then [(completedItem ''message'' (if cr_MessageItemID state \<noteq> [] then cr_MessageItemID state
               else generateItemID (ids IdOutMessage)))
              \<lparr>ro_Role := ''assistant'', ro_Content := [outputText (cr_Text state)]\<rparr>] else []) @
     concat (map (\<lambda>i. case map_of (cr_ToolCalls state) i of
         None \<Rightarrow> []
       | Some toolCall \<Rightarrow> [finishedToolItem L (generateItemID (ids (IdOutTool i))) i toolCall state])
       (toolIndices state))"

definition closeChatMessageItem :: "ChatCompletionsToResponsesStreamState \<Rightarrow> c2r_result" where
  "closeChatMessageItem state =
     (if cr_MessageItemID state = [] then ([], state)
      else
        let idx = cr_MessageIndex state; itemID = cr_MessageItemID state; text = cr_Text state
        in seqE
          (if \<not> cr_TextPartOpen state then ([], state)
           else seqE
             (chatToResponsesEvent ''response.output_text.done'' (zeroResponsesStreamEvent
                \<lparr>rse_OutputIndex := idx, rse_Text := text, rse_ItemID := itemID\<rparr>) state)
             (chatToResponsesEvent ''response.content_part.done'' (zeroResponsesStreamEvent
                \<lparr>rse_OutputIndex := idx, rse_ItemID := itemID, rse_Part := Some (outputText text)\<rparr>)))
          (chatToResponsesEvent ''response.output_item.done'' (zeroResponsesStreamEvent
             \<lparr>rse_OutputIndex := idx, rse_Item := Some ((completedItem ''message'' itemID)
                \<lparr>ro_Role := ''assistant'', ro_Content := [outputText text]\<rparr>)\<rparr>)))"

definition completeChatResponse ::
  "bridge_lib \<Rightarrow> (id_use \<Rightarrow> string) \<Rightarrow> ChatCompletionsToResponsesStreamState \<Rightarrow> c2r_result" where
  "completeChatResponse L ids state =
     (let cut = (cr_FinishReason state = ''length'')
      in chatToResponsesEvent ''response.completed'' (zeroResponsesStreamEvent\<lparr>rse_Response := Some
           (zeroResponsesResponse\<lparr>rr_ID := cr_ResponseID state, rr_Object := ''response'', rr_CreatedAt := cr_Created state,
             rr_Model := cr_Model state, rr_Status := (if cut then ''incomplete'' else ''completed''),
             rr_ServiceTier := cr_ServiceTier state, rr_Output := chatOutput L ids state, rr_Usage := cr_Usage state,
             rr_IncompleteDetails := (if cut then Some \<lparr>rid_Reason = ''max_output_tokens''\<rparr> else None)\<rparr>)\<rparr>)
           (state\<lparr>cr_CompletedSent := True\<rparr>))"

definition FinalizeChatCompletionsResponsesStream ::
  "bridge_lib \<Rightarrow> (id_use \<Rightarrow> string) \<Rightarrow> ChatCompletionsToResponsesStreamState \<Rightarrow> c2r_result" where
  "FinalizeChatCompletionsResponsesStream L ids state =
     (if cr_CompletedSent state then ([], state)
      else seqE (seqE (seqE (seqE (seqE (ensureChatToResponsesCreated state)
        closeChatReasoningItem)
        (synthesizeChatReasoningFallbackMessage ids))
        closeChatMessageItem)
        (closeChatToolItems L))
        (completeChatResponse L ids))"

text \<open>What the gateway writes to a Responses client for a whole upstream stream.\<close>

definition chatResponsesRun ::
  "bridge_lib \<Rightarrow> (id_use \<Rightarrow> string) \<Rightarrow> string \<Rightarrow> int \<Rightarrow> tool_names \<Rightarrow> string \<Rightarrow> ChatCompletionsChunk list \<Rightarrow> c2r_result" where
  "chatResponsesRun L ids responseID now names model chunks =
     seqE (run_machine (ChatCompletionsChunkToResponsesEvents L ids) chunks
             (NewChatCompletionsToResponsesStreamState responseID now names model))
       (FinalizeChatCompletionsResponsesStream L ids)"

end
