(* ===== verification/Chat_To_Anthropic.thy ===== *)
theory Chat_To_Anthropic
  imports Responses_To_Anthropic Chat_Message
begin

text \<open>
  The response side of \<open>internal/pkg/apicompat/chatcompletions_anthropic_bridge.go\<close>: the direct
  translation of a Chat Completions answer into an Anthropic Messages answer, as one object and as a
  stream.

  A handler returns the events and the next state.  The identifier generated for a tool call without
  one is drawn at most once for each upstream index, so it is a function of the index; the response
  identifier and the time the state is made at are arguments.  \<open>pendingToolCallID\<close> is an
  association list, as the finaliser visits it.  Lemmas: the refinement of the stream translator by
  the automaton of well-formed Anthropic streams, and the conservation of text, reasoning and tool
  arguments.
\<close>

section \<open>Helpers\<close>

definition chatUsageToAnthropicUsage :: "ChatUsage option \<Rightarrow> AnthropicUsage" where
  "chatUsageToAnthropicUsage usage =
     (case usage of
        None \<Rightarrow> zeroAnthropicUsage
      | Some u \<Rightarrow>
          let (cachedTokens, cacheCreationTokens) = (case cu_PromptTokensDetails u of
                 None \<Rightarrow> (0, 0)
               | Some d \<Rightarrow> (ctd_CachedTokens d,
                   if ctd_CacheWriteTokens d > 0 then ctd_CacheWriteTokens d else ctd_CacheCreationTokens d));
              inputTokens = cu_PromptTokens u - cachedTokens - cacheCreationTokens;
              inputTokens = (if inputTokens < 0 then 0 else inputTokens)
          in zeroAnthropicUsage
               \<lparr>au_InputTokens := inputTokens, au_OutputTokens := cu_CompletionTokens u,
                au_CacheReadInputTokens := cachedTokens, au_CacheCreationInputTokens := cacheCreationTokens\<rparr>)"

section \<open>One object\<close>

text \<open>The body of the loop over the tool calls of a message.\<close>

definition chatToolCallToBlock :: "json_lib \<Rightarrow> ChatToolCall \<Rightarrow> AnthropicContentBlock" where
  "chatToolCallToBlock J toolCall =
     (let name = cfc_Name (ctc_Function toolCall);
          arguments = cfc_Arguments (ctc_Function toolCall);
          arguments = (if TrimSpace arguments = [] then ''{}'' else arguments)
      in zeroAnthropicContentBlock
           \<lparr>acb_Type := ''tool_use'', acb_ID := fromResponsesCallID (ctc_ID toolCall), acb_Name := name,
            acb_Input := sanitizeAnthropicToolUseInput J name arguments\<rparr>)"

definition chatMessageToAnthropicBlocks ::
  "json_lib \<Rightarrow> content_json \<Rightarrow> ChatMessage \<Rightarrow> AnthropicContentBlock list" where
  "chatMessageToAnthropicBlocks J C message =
     (let reasoning = messageReasoningText message;
          thinking = (if reasoning \<noteq> []
                      then [zeroAnthropicContentBlock\<lparr>acb_Type := ''thinking'', acb_Thinking := reasoning\<rparr>] else []);
          text = chatMessageContentText C (cm_Content message);
          text = (if text = [] \<and> TrimSpace reasoning \<noteq> [] \<and> cm_ToolCalls message = [] then reasoning else text);
          texts = (if text \<noteq> [] \<or> cm_ToolCalls message = []
                   then [zeroAnthropicContentBlock\<lparr>acb_Type := ''text'', acb_Text := text\<rparr>] else [])
      in thinking @ texts @
         map (chatToolCallToBlock J) (cm_ToolCalls message))"

definition chatFinishReasonToAnthropicStopReason :: "string \<Rightarrow> AnthropicContentBlock list \<Rightarrow> string" where
  "chatFinishReasonToAnthropicStopReason reason blocks =
     (if reason = ''length'' then ''max_tokens''
      else if reason = ''tool_calls'' then ''tool_use''
      else if containsAnthropicToolUseBlock blocks then ''tool_use'' else ''end_turn'')"

definition ChatCompletionsResponseToAnthropic ::
  "json_lib \<Rightarrow> content_json \<Rightarrow> string \<Rightarrow> ChatCompletionsResponse option \<Rightarrow> string \<Rightarrow> AnthropicResponse" where
  "ChatCompletionsResponseToAnthropic J C newID resp model =
     (let out = zeroAnthropicResponse\<lparr>ar_Type := ''message'', ar_Role := ''assistant'', ar_Model := model\<rparr>;
          out = (case resp of
            None \<Rightarrow> out
          | Some r \<Rightarrow>
              let out = out\<lparr>ar_ID := ccr_ID r\<rparr>;
                  out = (if ar_Model out = [] then out\<lparr>ar_Model := ccr_Model r\<rparr> else out);
                  out = (case ccr_Choices r of
                    [] \<Rightarrow> out
                  | choice # _ \<Rightarrow>
                      let blocks = chatMessageToAnthropicBlocks J C (cch_Message choice)
                      in out\<lparr>ar_Content := blocks, ar_StopReason := AnthropicStopReasonPtr
                           (chatFinishReasonToAnthropicStopReason (cch_FinishReason choice) blocks)\<rparr>)
              in case ccr_Usage r of
                   None \<Rightarrow> out | Some u \<Rightarrow> out\<lparr>ar_Usage := chatUsageToAnthropicUsage (Some u)\<rparr>);
          out = (if ar_Content out = []
                 then out\<lparr>ar_Content := [zeroAnthropicContentBlock\<lparr>acb_Type := ''text'', acb_Text := []\<rparr>]\<rparr> else out);
          out = (if AnthropicStopReasonString (ar_StopReason out) = []
                 then out\<lparr>ar_StopReason := AnthropicStopReasonPtr
                        (chatFinishReasonToAnthropicStopReason [] (ar_Content out))\<rparr> else out)
      in if ar_ID out = [] then out\<lparr>ar_ID := newID\<rparr> else out)"

section \<open>The stream state\<close>

record ChatCompletionsToAnthropicStreamState =
  ca_MessageStartSent :: bool
  ca_MessageStopSent :: bool
  ca_ContentBlockIndex :: int
  ca_ContentBlockOpen :: bool
  ca_CurrentBlockType :: string
  ca_CurrentToolName :: string
  ca_CurrentToolHadDelta :: bool
  ca_HasToolCall :: bool
  ca_toolBlockIndex :: "int \<rightharpoonup> int"
  ca_toolAnnounced :: "int \<rightharpoonup> bool"
  ca_toolName :: "int \<rightharpoonup> string"
  ca_pendingToolCallID :: "(int \<times> string) list"
  ca_pendingToolArgs :: "int \<rightharpoonup> string"
  ca_FinishReason :: string
  ca_InputTokens :: int
  ca_OutputTokens :: int
  ca_CacheReadInputTokens :: int
  ca_CacheCreationInputTokens :: int
  ca_ResponseID :: string
  ca_Model :: string
  ca_Created :: int

type_synonym c2a_result = "AnthropicStreamEvent list \<times> ChatCompletionsToAnthropicStreamState"

definition NewChatCompletionsToAnthropicStreamState ::
  "string \<Rightarrow> int \<Rightarrow> string \<Rightarrow> ChatCompletionsToAnthropicStreamState" where
  "NewChatCompletionsToAnthropicStreamState responseID created model =
     \<lparr>ca_MessageStartSent = False, ca_MessageStopSent = False, ca_ContentBlockIndex = 0, ca_ContentBlockOpen = False,
      ca_CurrentBlockType = [], ca_CurrentToolName = [], ca_CurrentToolHadDelta = False, ca_HasToolCall = False,
      ca_toolBlockIndex = Map.empty, ca_toolAnnounced = Map.empty, ca_toolName = Map.empty,
      ca_pendingToolCallID = [], ca_pendingToolArgs = Map.empty, ca_FinishReason = [], ca_InputTokens = 0,
      ca_OutputTokens = 0, ca_CacheReadInputTokens = 0, ca_CacheCreationInputTokens = 0,
      ca_ResponseID = responseID, ca_Model = model, ca_Created = created\<rparr>"

section \<open>Handlers\<close>

definition ensureCCAnthropicMessageStart :: "ChatCompletionsToAnthropicStreamState \<Rightarrow> c2a_result" where
  "ensureCCAnthropicMessageStart state =
     (if ca_MessageStartSent state then ([], state)
      else ([zeroAnthropicStreamEvent\<lparr>ase_Type := ''message_start'',
               ase_Message := Some (zeroAnthropicResponse\<lparr>ar_ID := ca_ResponseID state, ar_Type := ''message'',
                 ar_Role := ''assistant'', ar_Model := ca_Model state\<rparr>)\<rparr>],
            state\<lparr>ca_MessageStartSent := True\<rparr>))"

definition closeCCAnthropicBlock :: "ChatCompletionsToAnthropicStreamState \<Rightarrow> c2a_result" where
  "closeCCAnthropicBlock state =
     (if \<not> ca_ContentBlockOpen state then ([], state)
      else
        let idx = ca_ContentBlockIndex state;
            events = (if ca_CurrentBlockType state = ''tool_use'' \<and> \<not> ca_CurrentToolHadDelta state
                      then [blockDelta idx (inputJSONDelta ''{}'')] else [])
        in (events @ [blockStop idx],
            state\<lparr>ca_ContentBlockOpen := False, ca_ContentBlockIndex := idx + 1, ca_CurrentBlockType := [],
              ca_CurrentToolName := [], ca_CurrentToolHadDelta := False\<rparr>))"

definition closeCCAnthropicBlockIfOpen :: "string \<Rightarrow> ChatCompletionsToAnthropicStreamState \<Rightarrow> c2a_result" where
  "closeCCAnthropicBlockIfOpen blockType state =
     (if \<not> ca_ContentBlockOpen state \<or> ca_CurrentBlockType state \<noteq> blockType then ([], state)
      else closeCCAnthropicBlock state)"

definition ccAnthropicDelta :: "AnthropicDelta \<Rightarrow> ChatCompletionsToAnthropicStreamState \<Rightarrow> c2a_result" where
  "ccAnthropicDelta delta state =
     (if \<not> ca_ContentBlockOpen state then ([], state)
      else ([blockDelta (ca_ContentBlockIndex state) delta], state))"

definition openCCBlock :: "string \<Rightarrow> ChatCompletionsToAnthropicStreamState \<Rightarrow> c2a_result" where
  "openCCBlock blockType state =
     (if ca_ContentBlockOpen state \<and> ca_CurrentBlockType state = blockType then ([], state)
      else seqE (closeCCAnthropicBlock state) (\<lambda>state.
        ([blockStart (ca_ContentBlockIndex state) (zeroAnthropicContentBlock\<lparr>acb_Type := blockType\<rparr>)],
         state\<lparr>ca_ContentBlockOpen := True, ca_CurrentBlockType := blockType\<rparr>)))"

definition ensureCCAnthropicThinkingBlock :: "ChatCompletionsToAnthropicStreamState \<Rightarrow> c2a_result" where
  "ensureCCAnthropicThinkingBlock = openCCBlock ''thinking''"

definition ensureCCAnthropicTextBlock :: "ChatCompletionsToAnthropicStreamState \<Rightarrow> c2a_result" where
  "ensureCCAnthropicTextBlock = openCCBlock ''text''"

definition announceCCAnthropicToolBlock ::
  "int \<Rightarrow> string \<Rightarrow> string \<Rightarrow> ChatCompletionsToAnthropicStreamState \<Rightarrow> c2a_result" where
  "announceCCAnthropicToolBlock idx callID name state =
     (let blockIdx = ca_ContentBlockIndex state;
          state = state\<lparr>ca_toolBlockIndex := (ca_toolBlockIndex state)(idx \<mapsto> blockIdx),
            ca_toolAnnounced := (ca_toolAnnounced state)(idx \<mapsto> True), ca_toolName := (ca_toolName state)(idx \<mapsto> name),
            ca_CurrentToolName := name, ca_CurrentToolHadDelta := False, ca_ContentBlockOpen := True,
            ca_CurrentBlockType := ''tool_use'',
            ca_pendingToolCallID := AList.delete idx (ca_pendingToolCallID state)\<rparr>;
          start = blockStart blockIdx (zeroAnthropicContentBlock\<lparr>acb_Type := ''tool_use'',
            acb_ID := fromResponsesCallID callID, acb_Name := name, acb_Input := ''{}''\<rparr>);
          pending = (case ca_pendingToolArgs state idx of None \<Rightarrow> [] | Some a \<Rightarrow> a)
      in if pending \<noteq> []
         then ([start, blockDelta blockIdx (inputJSONDelta pending)],
               state\<lparr>ca_pendingToolArgs := (ca_pendingToolArgs state)(idx := None), ca_CurrentToolHadDelta := True\<rparr>)
         else ([start], state))"

text \<open>
  The handler of a tool call: it announces the block (unless it already is, or the name has not
  arrived), then emits the arguments or keeps them until the block is announced.
\<close>

definition ccAnnounceToolCall ::
  "(int \<Rightarrow> string) \<Rightarrow> int \<Rightarrow> ChatToolCall \<Rightarrow> ChatCompletionsToAnthropicStreamState \<Rightarrow> c2a_result" where
  "ccAnnounceToolCall itemID idx toolCall state =
     (let name = cfc_Name (ctc_Function toolCall);
          announced = ca_toolAnnounced state idx
      in if announced = None then
           seqE (closeCCAnthropicBlock state) (\<lambda>state.
             let state = state\<lparr>ca_HasToolCall := True\<rparr>;
                 callID = (if ctc_ID toolCall = [] then itemID idx else ctc_ID toolCall)
             in if name \<noteq> [] then announceCCAnthropicToolBlock idx callID name state
                else ([], state\<lparr>ca_toolAnnounced := (ca_toolAnnounced state)(idx \<mapsto> False),
                       ca_pendingToolCallID := AList.update idx callID (ca_pendingToolCallID state)\<rparr>))
         else if announced = Some False \<and> name \<noteq> [] then
           let callID = (case map_of (ca_pendingToolCallID state) idx of None \<Rightarrow> [] | Some i \<Rightarrow> i);
               callID = (if ctc_ID toolCall \<noteq> [] then ctc_ID toolCall else callID)
           in seqE (closeCCAnthropicBlock state) (announceCCAnthropicToolBlock idx callID name)
         else ([], state))"

definition ccToolCallArguments :: "int \<Rightarrow> string \<Rightarrow> ChatCompletionsToAnthropicStreamState \<Rightarrow> c2a_result" where
  "ccToolCallArguments idx arguments state =
     (if arguments = [] then ([], state)
      else if ca_toolAnnounced state idx = Some True then
        let blockIdx = (case ca_toolBlockIndex state idx of None \<Rightarrow> 0 | Some i \<Rightarrow> i)
        in ([blockDelta blockIdx (inputJSONDelta arguments)],
            if ca_ContentBlockOpen state \<and> blockIdx = ca_ContentBlockIndex state
            then state\<lparr>ca_CurrentToolHadDelta := True\<rparr> else state)
      else
        let pending = (case ca_pendingToolArgs state idx of None \<Rightarrow> [] | Some a \<Rightarrow> a)
        in ([], state\<lparr>ca_pendingToolArgs := (ca_pendingToolArgs state)(idx \<mapsto> pending @ arguments)\<rparr>))"

definition handleCCAnthropicToolCall ::
  "(int \<Rightarrow> string) \<Rightarrow> ChatToolCall \<Rightarrow> ChatCompletionsToAnthropicStreamState \<Rightarrow> c2a_result" where
  "handleCCAnthropicToolCall itemID toolCall state =
     (let idx = (case ctc_Index toolCall of None \<Rightarrow> 0 | Some i \<Rightarrow> i)
      in seqE (ccAnnounceToolCall itemID idx toolCall state)
           (ccToolCallArguments idx (cfc_Arguments (ctc_Function toolCall))))"

definition handleChoice ::
  "(int \<Rightarrow> string) \<Rightarrow> ChatChunkChoice \<Rightarrow> ChatCompletionsToAnthropicStreamState \<Rightarrow> c2a_result" where
  "handleChoice itemID choice state =
     (let reasoning = (case deltaReasoningText (cck_Delta choice) of None \<Rightarrow> [] | Some r \<Rightarrow> r);
          content = (case cd_Content (cck_Delta choice) of None \<Rightarrow> [] | Some c \<Rightarrow> c);
          finish = (case cck_FinishReason choice of None \<Rightarrow> [] | Some f \<Rightarrow> f)
      in seqE (seqE (seqE
        (if reasoning = [] then ([], state)
         else seqE (ensureCCAnthropicThinkingBlock state)
           (ccAnthropicDelta (zeroAnthropicDelta\<lparr>ad_Type := ''thinking_delta'', ad_Thinking := reasoning\<rparr>)))
        (\<lambda>state. if content = [] then ([], state)
           else seqE (seqE (closeCCAnthropicBlockIfOpen ''thinking'' state) ensureCCAnthropicTextBlock)
             (ccAnthropicDelta (zeroAnthropicDelta\<lparr>ad_Type := ''text_delta'', ad_Text := content\<rparr>))))
        (run_machine (\<lambda>toolCall state. seqE (closeCCAnthropicBlockIfOpen ''thinking'' state)
             (handleCCAnthropicToolCall itemID toolCall)) (cd_ToolCalls (cck_Delta choice))))
        (\<lambda>state. ([], if finish = [] then state else state\<lparr>ca_FinishReason := finish\<rparr>)))"

text \<open>What a chunk says about the message: identifier, model, usage.\<close>

definition ccNoteChunk ::
  "ChatCompletionsChunk \<Rightarrow> ChatCompletionsToAnthropicStreamState \<Rightarrow> ChatCompletionsToAnthropicStreamState" where
  "ccNoteChunk chunk state =
     (let state = (if ccc_ID chunk \<noteq> [] then state\<lparr>ca_ResponseID := ccc_ID chunk\<rparr> else state);
          state = (if ca_Model state = [] \<and> ccc_Model chunk \<noteq> [] then state\<lparr>ca_Model := ccc_Model chunk\<rparr> else state)
      in case ccc_Usage chunk of
           None \<Rightarrow> state
         | Some usage \<Rightarrow>
             let u = chatUsageToAnthropicUsage (Some usage)
             in state\<lparr>ca_InputTokens := au_InputTokens u, ca_OutputTokens := au_OutputTokens u,
                  ca_CacheReadInputTokens := au_CacheReadInputTokens u,
                  ca_CacheCreationInputTokens := au_CacheCreationInputTokens u\<rparr>)"

definition ChatCompletionsChunkToAnthropicEvents ::
  "(int \<Rightarrow> string) \<Rightarrow> ChatCompletionsChunk \<Rightarrow> ChatCompletionsToAnthropicStreamState \<Rightarrow> c2a_result" where
  "ChatCompletionsChunkToAnthropicEvents itemID chunk state =
     seqE (ensureCCAnthropicMessageStart (ccNoteChunk chunk state)) (run_machine (handleChoice itemID) (ccc_Choices chunk))"

definition ccFinishReasonToAnthropicStopReason :: "string \<Rightarrow> bool \<Rightarrow> string" where
  "ccFinishReasonToAnthropicStopReason reason hasToolCall =
     (if reason = ''length'' then ''max_tokens''
      else if reason = ''tool_calls'' then ''tool_use''
      else if reason = ''stop'' then (if hasToolCall then ''tool_use'' else ''end_turn'')
      else if hasToolCall then ''tool_use'' else ''end_turn'')"

definition ccMessageEnd :: "ChatCompletionsToAnthropicStreamState \<Rightarrow> AnthropicStreamEvent list" where
  "ccMessageEnd state =
     [zeroAnthropicStreamEvent\<lparr>ase_Type := ''message_delta'',
        ase_Delta := Some (zeroAnthropicDelta\<lparr>ad_StopReason :=
          ccFinishReasonToAnthropicStopReason (ca_FinishReason state) (ca_HasToolCall state)\<rparr>),
        ase_Usage := Some (zeroAnthropicUsage\<lparr>au_InputTokens := ca_InputTokens state,
          au_OutputTokens := ca_OutputTokens state, au_CacheReadInputTokens := ca_CacheReadInputTokens state,
          au_CacheCreationInputTokens := ca_CacheCreationInputTokens state\<rparr>)\<rparr>,
      zeroAnthropicStreamEvent\<lparr>ase_Type := ''message_stop''\<rparr>]"

definition FinalizeChatCompletionsAnthropicStream :: "ChatCompletionsToAnthropicStreamState \<Rightarrow> c2a_result" where
  "FinalizeChatCompletionsAnthropicStream state =
     (if ca_MessageStopSent state then ([], state)
      else
        seqE (seqE (seqE (ensureCCAnthropicMessageStart state)
          (\<lambda>state. run_machine (\<lambda>idx state.
             let callID = (case map_of (ca_pendingToolCallID state) idx of None \<Rightarrow> [] | Some i \<Rightarrow> i)
             in seqE (closeCCAnthropicBlock state) (announceCCAnthropicToolBlock idx callID []))
             (sort (map fst (ca_pendingToolCallID state))) state))
          closeCCAnthropicBlock)
          (\<lambda>state.
            (ccMessageEnd state, state\<lparr>ca_MessageStopSent := True\<rparr>)))"

text \<open>What a caller of the translator writes to its client for a whole upstream stream.\<close>

definition chatAnthropicRun ::
  "(int \<Rightarrow> string) \<Rightarrow> string \<Rightarrow> int \<Rightarrow> string \<Rightarrow> ChatCompletionsChunk list \<Rightarrow> c2a_result" where
  "chatAnthropicRun itemID responseID created model chunks =
     seqE (run_machine (ChatCompletionsChunkToAnthropicEvents itemID) chunks
             (NewChatCompletionsToAnthropicStreamState responseID created model))
       FinalizeChatCompletionsAnthropicStream"

definition chatAnthropicStream ::
  "(int \<Rightarrow> string) \<Rightarrow> string \<Rightarrow> int \<Rightarrow> string \<Rightarrow> ChatCompletionsChunk list \<Rightarrow> AnthropicStreamEvent list" where
  "chatAnthropicStream itemID responseID created model chunks =
     fst (chatAnthropicRun itemID responseID created model chunks)"

section \<open>Well-formed streams\<close>

text \<open>The abstraction to the automaton of Anthropic streams, and the invariant: the block an
  announced tool call was given has been started.\<close>

definition ccAbs :: "ChatCompletionsToAnthropicStreamState \<Rightarrow> anth_phase" where
  "ccAbs s =
     (if ca_MessageStopSent s then Stopped
      else if ca_MessageStartSent s then Streaming (ca_ContentBlockIndex s) (ca_ContentBlockOpen s)
      else NotStarted)"

definition ccInv :: "ChatCompletionsToAnthropicStreamState \<Rightarrow> bool" where
  "ccInv s \<longleftrightarrow> \<not> ca_MessageStopSent s \<and> 0 \<le> ca_ContentBlockIndex s \<and>
     (ca_MessageStartSent s \<or> ca_ContentBlockIndex s = 0 \<and> \<not> ca_ContentBlockOpen s) \<and>
     (\<forall>idx. ca_toolAnnounced s idx = Some True \<longrightarrow>
        (\<exists>i. ca_toolBlockIndex s idx = Some i \<and> 0 \<le> i \<and>
           (i < ca_ContentBlockIndex s \<or> i = ca_ContentBlockIndex s \<and> ca_ContentBlockOpen s)))"

definition ccLive :: "ChatCompletionsToAnthropicStreamState \<Rightarrow> bool" where
  "ccLive s \<longleftrightarrow> ccInv s \<and> ca_MessageStartSent s"

definition ccClosed :: "ChatCompletionsToAnthropicStreamState \<Rightarrow> bool" where
  "ccClosed s \<longleftrightarrow> ccLive s \<and> \<not> ca_ContentBlockOpen s"

definition ccOpened :: "ChatCompletionsToAnthropicStreamState \<Rightarrow> bool" where
  "ccOpened s \<longleftrightarrow> ccLive s \<and> ca_ContentBlockOpen s"

lemmas cc_inv_defs = ccInv_def ccLive_def ccClosed_def ccOpened_def

abbreviation ccSim where "ccSim strict \<equiv> triple (anthSpec strict) ccAbs"

lemma ccAbs_live: "ccLive s \<Longrightarrow> ccAbs s = Streaming (ca_ContentBlockIndex s) (ca_ContentBlockOpen s)"
  by (simp add: ccAbs_def cc_inv_defs)

lemma sim_start: "ccSim strict ccInv ensureCCAnthropicMessageStart ccLive"
  by (rule tripleI)
     (auto simp: ensureCCAnthropicMessageStart_def cc_inv_defs ccAbs_def anthSpec_def zeroAnthropicStreamEvent_def)

lemma close_inv: "ccLive s \<Longrightarrow> ccClosed (snd (closeCCAnthropicBlock s))"
  by (force simp: closeCCAnthropicBlock_def Let_def cc_inv_defs)

lemma sim_close: "ccSim strict ccLive closeCCAnthropicBlock ccClosed"
proof (rule tripleI, erule close_inv)
  fix s assume "ccLive s"
  then show "accepts_from (anthSpec strict) (ccAbs s) (fst (closeCCAnthropicBlock s)) = Some (ccAbs (snd (closeCCAnthropicBlock s)))"
    by (simp add: closeCCAnthropicBlock_def Let_def cc_inv_defs ccAbs_def)
qed

lemma sim_closeIf: "ccSim strict ccLive (closeCCAnthropicBlockIfOpen t) ccLive"
  unfolding closeCCAnthropicBlockIfOpen_def [abs_def]
  by (intro triple_if triple_skip triple_conseq [OF sim_close]) (auto simp: ccClosed_def)

lemma sim_openBlock: "ccSim strict ccLive (openCCBlock t) ccOpened"
  unfolding openCCBlock_def [abs_def]
proof (intro triple_if triple_skip triple_seqE)
  show "ccSim strict (\<lambda>s. ccLive s \<and> \<not> (ca_ContentBlockOpen s \<and> ca_CurrentBlockType s = t)) closeCCAnthropicBlock ccClosed"
    by (rule triple_conseq [OF sim_close]) simp_all
  show "ccSim strict ccClosed (\<lambda>state. ([blockStart (ca_ContentBlockIndex state) (zeroAnthropicContentBlock\<lparr>acb_Type := t\<rparr>)],
      state\<lparr>ca_ContentBlockOpen := True, ca_CurrentBlockType := t\<rparr>)) ccOpened"
    by (rule tripleI) (force simp: cc_inv_defs ccAbs_def)+
qed (simp add: ccOpened_def)

lemma sim_delta: "ccSim strict ccLive (ccAnthropicDelta d) ccLive"
  by (rule tripleI) (auto simp: ccAnthropicDelta_def cc_inv_defs ccAbs_def)

lemma announce_inv: "ccClosed s \<Longrightarrow> ccLive (snd (announceCCAnthropicToolBlock idx callID name s))"
  by (fastforce simp: announceCCAnthropicToolBlock_def Let_def cc_inv_defs)

lemma sim_announce: "ccSim strict ccClosed (announceCCAnthropicToolBlock idx callID name) ccLive"
  by (rule tripleI, erule announce_inv)
     (auto simp: announceCCAnthropicToolBlock_def Let_def cc_inv_defs ccAbs_def)

text \<open>Composition through the two mid-conditions the handlers use.\<close>

lemmas sim_then = triple_seqE [where Q = ccLive and \<alpha> = ccAbs]
lemmas sim_close_then = triple_seqE [OF sim_close]

lemma sim_weaken:
  "ccSim strict ccLive m ccClosed \<Longrightarrow> ccSim strict ccLive m ccLive" "ccSim strict ccLive m ccOpened \<Longrightarrow> ccSim strict ccLive m ccLive"
  "ccSim strict ccLive m Q \<Longrightarrow> ccSim strict (\<lambda>s. ccLive s \<and> b s) m Q" "ccSim strict ccClosed m Q \<Longrightarrow> ccSim strict (\<lambda>s. ccClosed s \<and> b s) m Q"
  by (auto simp: triple_def ccClosed_def ccOpened_def)

lemma sim_toolCall_announce: "ccSim strict ccLive (ccAnnounceToolCall itemID idx toolCall) ccLive"
proof -
  let ?name = "cfc_Name (ctc_Function toolCall)"
  let ?id = "if ctc_ID toolCall = [] then itemID idx else ctc_ID toolCall"
  have first: "ccSim strict ccClosed (\<lambda>state. if ?name \<noteq> [] then announceCCAnthropicToolBlock idx ?id ?name (state\<lparr>ca_HasToolCall := True\<rparr>)
      else ([], state\<lparr>ca_HasToolCall := True, ca_toolAnnounced := (ca_toolAnnounced state)(idx \<mapsto> False),
             ca_pendingToolCallID := AList.update idx ?id (ca_pendingToolCallID state)\<rparr>)) ccLive"
    by (intro triple_if sim_weaken triple_update [OF _ sim_announce] triple_silent)
       (auto simp: cc_inv_defs ccAbs_def)
  have "ccSim strict ccLive (\<lambda>state. if ca_toolAnnounced state idx = None then seqE (closeCCAnthropicBlock state) f
     else if ca_toolAnnounced state idx = Some False \<and> ?name \<noteq> [] then seqE (closeCCAnthropicBlock state) (g state)
     else ([], state)) ccLive" if "ccSim strict ccClosed f ccLive" "\<And>t. ccSim strict ccClosed (g t) ccLive" for f g
    using that by (intro triple_if sim_weaken sim_close_then triple_skip) (simp_all add: ccClosed_def)
  from this [OF first, where g = "\<lambda>state. announceCCAnthropicToolBlock idx (if ctc_ID toolCall \<noteq> [] then ctc_ID toolCall
      else case map_of (ca_pendingToolCallID state) idx of None \<Rightarrow> [] | Some i \<Rightarrow> i) ?name"]
  show ?thesis
    by (simp add: ccAnnounceToolCall_def [abs_def] sim_announce Let_def split del: if_split cong: if_cong)
qed

lemma sim_toolCall_arguments: "ccSim False ccLive (ccToolCallArguments idx arguments) ccLive"
  unfolding ccToolCallArguments_def [abs_def] Let_def
  by (intro triple_if triple_skip tripleI) (force simp: cc_inv_defs ccAbs_def)+

lemma sim_toolCall: "ccSim False ccLive (handleCCAnthropicToolCall itemID toolCall) ccLive"
  unfolding handleCCAnthropicToolCall_def [abs_def] Let_def
  by (intro sim_then sim_toolCall_announce sim_toolCall_arguments)

lemma sim_openBlock_delta: "ccSim strict ccLive (\<lambda>s. seqE (openCCBlock t s) (ccAnthropicDelta d)) ccLive"
  by (rule sim_then [OF sim_weaken(2) [OF sim_openBlock] sim_delta])

lemma sim_choice: "ccSim False ccLive (handleChoice itemID choice) ccLive"
  unfolding handleChoice_def [abs_def] Let_def ensureCCAnthropicThinkingBlock_def ensureCCAnthropicTextBlock_def
proof (intro sim_then triple_if sim_weaken(3) triple_skip sim_openBlock_delta sim_delta sim_closeIf
    sim_weaken(2) [OF sim_openBlock] triple_run sim_toolCall)
  show "ccSim False ccLive (\<lambda>state. ([], if b then state else state\<lparr>ca_FinishReason := f\<rparr>)) ccLive" for b f
    by (rule triple_silent) (simp add: cc_inv_defs ccAbs_def)
qed simp_all

text \<open>A chunk's identifiers and usage do not matter to the protocol.\<close>

lemma noteChunk_frame [simp]:
  "ca_MessageStartSent (ccNoteChunk chunk s) = ca_MessageStartSent s"
  "ca_MessageStopSent (ccNoteChunk chunk s) = ca_MessageStopSent s"
  "ca_ContentBlockIndex (ccNoteChunk chunk s) = ca_ContentBlockIndex s"
  "ca_ContentBlockOpen (ccNoteChunk chunk s) = ca_ContentBlockOpen s"
  "ca_CurrentBlockType (ccNoteChunk chunk s) = ca_CurrentBlockType s"
  "ca_CurrentToolHadDelta (ccNoteChunk chunk s) = ca_CurrentToolHadDelta s"
  "ca_toolAnnounced (ccNoteChunk chunk s) = ca_toolAnnounced s"
  "ca_toolBlockIndex (ccNoteChunk chunk s) = ca_toolBlockIndex s"
  "ca_pendingToolCallID (ccNoteChunk chunk s) = ca_pendingToolCallID s"
  "ca_pendingToolArgs (ccNoteChunk chunk s) = ca_pendingToolArgs s"
  by (simp_all add: ccNoteChunk_def Let_def split: option.split)

lemma sim_chunk: "ccSim False ccInv (ChatCompletionsChunkToAnthropicEvents itemID chunk) ccInv"
proof -
  have "ccSim False ccInv (\<lambda>s. seqE (ensureCCAnthropicMessageStart s) (run_machine (handleChoice itemID) (ccc_Choices chunk))) ccInv"
    by (rule triple_conseq [OF triple_seqE [OF sim_start triple_run [OF sim_choice]]]) (simp_all add: ccLive_def)
  then show ?thesis
    unfolding ChatCompletionsChunkToAnthropicEvents_def [abs_def]
    by (rule triple_update [rotated]) (simp add: ccInv_def ccAbs_def)
qed

definition finishPending :: "ChatCompletionsToAnthropicStreamState \<Rightarrow> c2a_result" where
  "finishPending state =
     run_machine (\<lambda>idx state.
       let callID = (case map_of (ca_pendingToolCallID state) idx of None \<Rightarrow> [] | Some i \<Rightarrow> i)
       in seqE (closeCCAnthropicBlock state) (announceCCAnthropicToolBlock idx callID []))
       (sort (map fst (ca_pendingToolCallID state))) state"

lemma Finalize_eq:
  "\<not> ca_MessageStopSent s \<Longrightarrow> FinalizeChatCompletionsAnthropicStream s =
     seqE (seqE (seqE (ensureCCAnthropicMessageStart s) finishPending) closeCCAnthropicBlock)
       (\<lambda>state. (ccMessageEnd state, state\<lparr>ca_MessageStopSent := True\<rparr>))"
  by (simp add: FinalizeChatCompletionsAnthropicStream_def finishPending_def [abs_def])

lemma sim_finishPending: "ccSim strict ccLive finishPending ccLive"
proof -
  have "ccSim strict ccLive (run_machine (\<lambda>idx state. let callID = callID idx state in seqE (closeCCAnthropicBlock state)
    (announceCCAnthropicToolBlock idx callID [])) idxs) ccLive" for callID idxs
    unfolding Let_def by (intro triple_run sim_close_then sim_announce)
  note run = tripleD [OF this]
  show ?thesis
    unfolding finishPending_def [abs_def] by (rule tripleI) (erule run)+
qed

lemma cc_finalize_accepts:
  assumes "ccInv s"
  shows "accepts_from (anthSpec strict) (ccAbs s) (fst (FinalizeChatCompletionsAnthropicStream s)) = Some Stopped"
proof -
  have sim: "ccSim strict ccInv (\<lambda>s. seqE (seqE (ensureCCAnthropicMessageStart s) finishPending) closeCCAnthropicBlock) ccClosed"
    by (intro triple_seqE [OF triple_seqE [OF sim_start sim_finishPending] sim_close])
  obtain evs t where t: "seqE (seqE (ensureCCAnthropicMessageStart s) finishPending) closeCCAnthropicBlock = (evs, t)"
    by fastforce
  note m = tripleD [OF sim assms, unfolded t fst_conv snd_conv]
  have "accepts_from (anthSpec strict) (ccAbs t) (ccMessageEnd t) = Some Stopped"
    using m(1) by (simp add: ccMessageEnd_def ccClosed_def ccAbs_live anthSpec_def zeroAnthropicStreamEvent_def)
  with m(2) have "accepts_from (anthSpec strict) (ccAbs s) (evs @ ccMessageEnd t) = Some Stopped"
    by (simp add: accepts_from_append)
  moreover have live: "\<not> ca_MessageStopSent s" using assms by (simp add: ccInv_def)
  ultimately show ?thesis by (simp only: Finalize_eq [OF live] t seqE_simps fst_conv snd_conv)
qed

interpretation c2a: stream_refinement "ChatCompletionsChunkToAnthropicEvents itemID" ccInv "\<lambda>_. True" "anthSpec False" ccAbs
  for itemID
  by unfold_locales (use sim_chunk in \<open>auto simp: triple_def\<close>)

section \<open>Upstreams that do not return to a call they have left\<close>

text \<open>
  The order in which models send their calls: the increments of a call come one after the other,
  with no text, reasoning or increment of another call in between.  The state of the order is the
  set of the indices seen and the call that may still receive increments.
\<close>

type_synonym call_order = "int set \<times> int option"

definition callIndex :: "ChatToolCall \<Rightarrow> int" where
  "callIndex toolCall = (case ctc_Index toolCall of None \<Rightarrow> 0 | Some i \<Rightarrow> i)"

definition callOrder :: "call_order \<Rightarrow> ChatToolCall \<Rightarrow> call_order option" where
  "callOrder m toolCall =
     (let idx = callIndex toolCall
      in if idx \<in> fst m \<and> snd m \<noteq> Some idx then None else Some (insert idx (fst m), Some idx))"

definition saysSomething :: "ChatChunkChoice \<Rightarrow> bool" where
  "saysSomething choice \<longleftrightarrow>
     (case deltaReasoningText (cck_Delta choice) of None \<Rightarrow> [] | Some r \<Rightarrow> r) \<noteq> [] \<or>
     (case cd_Content (cck_Delta choice) of None \<Rightarrow> [] | Some c \<Rightarrow> c) \<noteq> []"

definition choiceOrder :: "call_order \<Rightarrow> ChatChunkChoice \<Rightarrow> call_order option" where
  "choiceOrder m choice =
     accepts_from callOrder (if saysSomething choice then (fst m, None) else m)
       (cd_ToolCalls (cck_Delta choice))"

definition chunkOrder :: "call_order \<Rightarrow> ChatCompletionsChunk \<Rightarrow> call_order option" where
  "chunkOrder m chunk = accepts_from choiceOrder m (ccc_Choices chunk)"

definition callLink :: "call_order \<Rightarrow> ChatCompletionsToAnthropicStreamState \<Rightarrow> bool" where
  "callLink m s \<longleftrightarrow> dom (ca_toolAnnounced s) \<subseteq> fst m \<and>
     (\<forall>idx. snd m = Some idx \<longrightarrow> ca_toolAnnounced s idx = Some True \<longrightarrow>
        ca_toolBlockIndex s idx = Some (ca_ContentBlockIndex s) \<and> ca_ContentBlockOpen s \<and>
        ca_CurrentBlockType s = ''tool_use'')"

definition ccOrdered :: "call_order \<Rightarrow> ChatCompletionsToAnthropicStreamState \<Rightarrow> bool" where
  "ccOrdered m s \<longleftrightarrow> ccLive s \<and> callLink m s"

lemma close_tools [simp]:
  "ca_toolAnnounced (snd (closeCCAnthropicBlock s)) = ca_toolAnnounced s"
  "ca_toolBlockIndex (snd (closeCCAnthropicBlock s)) = ca_toolBlockIndex s"
  by (simp_all add: closeCCAnthropicBlock_def Let_def)

lemma callLink_closeIf: "callLink m s \<Longrightarrow> callLink m (snd (closeCCAnthropicBlockIfOpen ''thinking'' s))"
  by (auto simp: closeCCAnthropicBlockIfOpen_def callLink_def)

lemma announce_tools:
  "ca_toolAnnounced (snd (announceCCAnthropicToolBlock idx callID name s)) = (ca_toolAnnounced s)(idx \<mapsto> True)"
  "callLink (seen, Some idx) (snd (announceCCAnthropicToolBlock idx callID name s)) \<longleftrightarrow>
     dom ((ca_toolAnnounced s)(idx \<mapsto> True)) \<subseteq> seen"
  by (auto simp: announceCCAnthropicToolBlock_def Let_def callLink_def)

lemma callLink_announce:
  assumes "callLink m s" and "callOrder m toolCall = Some m'"
  shows "callLink m' (snd (ccAnnounceToolCall itemID (callIndex toolCall) toolCall s))"
proof -
  let ?idx = "callIndex toolCall"
  have m': "m' = (insert ?idx (fst m), Some ?idx)" and dom: "dom (ca_toolAnnounced s) \<subseteq> fst m"
    and seen: "?idx \<in> fst m \<Longrightarrow> snd m = Some ?idx"
    using assms by (auto simp: callOrder_def callLink_def Let_def split: if_splits)
  consider (new) "ca_toolAnnounced s ?idx = None" | (nameless) "ca_toolAnnounced s ?idx = Some False"
    | (named) "ca_toolAnnounced s ?idx = Some True" by (metis (full_types) option.exhaust)
  then show ?thesis
  proof cases
    case new
    with dom show ?thesis
      by (cases "cfc_Name (ctc_Function toolCall) = []")
        (auto simp: m' ccAnnounceToolCall_def Let_def announce_tools callLink_def [of _ "_\<lparr>ca_HasToolCall := True, ca_toolAnnounced := _, ca_pendingToolCallID := _\<rparr>"])
  next
    case nameless
    with dom show ?thesis
      by (cases "cfc_Name (ctc_Function toolCall) = []")
        (auto simp: m' ccAnnounceToolCall_def Let_def announce_tools callLink_def [of _ s])
  next
    case named
    then have "?idx \<in> fst m" using dom by auto
    with named assms(1) seen show ?thesis
      by (auto simp: m' ccAnnounceToolCall_def Let_def callLink_def)
  qed
qed

lemma callLink_arguments: "callLink m (snd (ccToolCallArguments idx arguments s)) \<longleftrightarrow> callLink m s"
  by (simp add: ccToolCallArguments_def Let_def callLink_def)

lemma sim_ordered_arguments:
  "ccSim True (ccOrdered (seen, Some idx)) (ccToolCallArguments idx arguments) (ccOrdered (seen, Some idx))"
proof (rule tripleI)
  fix s assume s: "ccOrdered (seen, Some idx) s"
  have "ccLive (snd (ccToolCallArguments idx arguments s))"
    using tripleD(1) [OF sim_toolCall_arguments] s by (simp add: ccOrdered_def)
  with s show "ccOrdered (seen, Some idx) (snd (ccToolCallArguments idx arguments s))"
    by (simp add: ccOrdered_def callLink_arguments)
  show "accepts_from (anthSpec True) (ccAbs s) (fst (ccToolCallArguments idx arguments s))
      = Some (ccAbs (snd (ccToolCallArguments idx arguments s)))"
    using s by (auto simp: ccToolCallArguments_def Let_def ccOrdered_def callLink_def ccAbs_def cc_inv_defs)
qed

lemma sim_ordered_call:
  assumes "callOrder m toolCall = Some m'"
  shows "ccSim True (ccOrdered m) (\<lambda>s. seqE (closeCCAnthropicBlockIfOpen ''thinking'' s)
    (handleCCAnthropicToolCall itemID toolCall)) (ccOrdered m')"
proof -
  have m': "m' = (insert (callIndex toolCall) (fst m), Some (callIndex toolCall))"
    using assms by (simp add: callOrder_def Let_def split: if_splits)
  have "ccSim True (ccOrdered m) (closeCCAnthropicBlockIfOpen ''thinking'') (ccOrdered m)"
    unfolding ccOrdered_def [abs_def] by (rule triple_frame [OF sim_closeIf]) (rule callLink_closeIf)
  moreover have "ccSim True (ccOrdered m) (ccAnnounceToolCall itemID (callIndex toolCall) toolCall) (ccOrdered m')"
    unfolding ccOrdered_def [abs_def]
    by (rule triple_frame [OF sim_toolCall_announce]) (rule callLink_announce [OF _ assms])
  moreover note sim_ordered_arguments [where idx = "callIndex toolCall", folded m']
  ultimately show ?thesis
    unfolding handleCCAnthropicToolCall_def [abs_def] Let_def callIndex_def [symmetric]
    by (intro triple_seqE [where Q = "ccOrdered m"] triple_seqE [where Q = "ccOrdered m'"]) (simp_all add: m')
qed

text \<open>Text and reasoning leave every call.\<close>

lemma openBlock_tools [simp]:
  "ca_toolAnnounced (snd (openCCBlock t s)) = ca_toolAnnounced s"
  "ca_toolAnnounced (snd (closeCCAnthropicBlockIfOpen t s)) = ca_toolAnnounced s"
  "ca_toolAnnounced (snd (ccAnthropicDelta d s)) = ca_toolAnnounced s"
  by (simp_all add: openCCBlock_def closeCCAnthropicBlockIfOpen_def ccAnthropicDelta_def)

lemma sim_leaving:
  assumes "ccSim True ccLive f ccLive" and "\<And>s. ca_toolAnnounced (snd (f s)) = ca_toolAnnounced s"
  shows "ccSim True (ccOrdered m) f (ccOrdered (fst m, None))"
  unfolding ccOrdered_def [abs_def]
  by (rule triple_frame [OF assms(1)]) (simp add: callLink_def assms(2))

definition sayChoice :: "string \<Rightarrow> string \<Rightarrow> ChatCompletionsToAnthropicStreamState \<Rightarrow> c2a_result" where
  "sayChoice reasoning content state = seqE
     (if reasoning = [] then ([], state)
      else seqE (ensureCCAnthropicThinkingBlock state)
        (ccAnthropicDelta (zeroAnthropicDelta\<lparr>ad_Type := ''thinking_delta'', ad_Thinking := reasoning\<rparr>)))
     (\<lambda>state. if content = [] then ([], state)
        else seqE (seqE (closeCCAnthropicBlockIfOpen ''thinking'' state) ensureCCAnthropicTextBlock)
          (ccAnthropicDelta (zeroAnthropicDelta\<lparr>ad_Type := ''text_delta'', ad_Text := content\<rparr>)))"

lemma sim_sayChoice: "ccSim strict ccLive (sayChoice reasoning content) ccLive"
  unfolding sayChoice_def [abs_def] ensureCCAnthropicThinkingBlock_def ensureCCAnthropicTextBlock_def
  by (intro sim_then triple_if sim_weaken(3) triple_skip sim_openBlock_delta sim_delta sim_closeIf
      sim_weaken(2) [OF sim_openBlock]) simp_all

lemma sim_ordered_sayChoice:
  "ccSim True (ccOrdered m) (sayChoice reasoning content)
     (ccOrdered (if reasoning \<noteq> [] \<or> content \<noteq> [] then (fst m, None) else m))"
proof (cases "reasoning \<noteq> [] \<or> content \<noteq> []")
  case True
  have "ca_toolAnnounced (snd (sayChoice reasoning content s)) = ca_toolAnnounced s" for s
    by (simp add: sayChoice_def ensureCCAnthropicThinkingBlock_def ensureCCAnthropicTextBlock_def)
  from sim_leaving [OF sim_sayChoice this] True show ?thesis by simp
next
  case False
  then show ?thesis by (simp add: sayChoice_def [abs_def] seqE_skip triple_skip)
qed

lemma sim_ordered_choice:
  assumes "choiceOrder m choice = Some m'"
  shows "ccSim True (ccOrdered m) (handleChoice itemID choice) (ccOrdered m')"
proof -
  let ?reasoning = "case deltaReasoningText (cck_Delta choice) of None \<Rightarrow> [] | Some r \<Rightarrow> r"
  let ?content = "case cd_Content (cck_Delta choice) of None \<Rightarrow> [] | Some c \<Rightarrow> c"
  let ?finish = "case cck_FinishReason choice of None \<Rightarrow> [] | Some f \<Rightarrow> f"
  let ?m = "if ?reasoning \<noteq> [] \<or> ?content \<noteq> [] then (fst m, None) else m"
  have calls: "accepts_from callOrder ?m (cd_ToolCalls (cck_Delta choice)) = Some m'"
    using assms unfolding choiceOrder_def saysSomething_def .
  have fin: "ccSim True (ccOrdered m') (\<lambda>state. ([], if ?finish = [] then state
      else state\<lparr>ca_FinishReason := ?finish\<rparr>)) (ccOrdered m')"
    by (rule triple_silent) (simp add: ccOrdered_def callLink_def cc_inv_defs ccAbs_def)
  have "handleChoice itemID choice = (\<lambda>s. seqE (seqE (sayChoice ?reasoning ?content s)
      (run_machine (\<lambda>toolCall state. seqE (closeCCAnthropicBlockIfOpen ''thinking'' state)
        (handleCCAnthropicToolCall itemID toolCall)) (cd_ToolCalls (cck_Delta choice))))
      (\<lambda>state. ([], if ?finish = [] then state else state\<lparr>ca_FinishReason := ?finish\<rparr>)))"
    by (simp only: handleChoice_def [abs_def] Let_def sayChoice_def)
  then show ?thesis
    by (simp only:) (rule triple_seqE [OF triple_seqE [OF sim_ordered_sayChoice
      triple_run_ordered [where order = callOrder and link = ccOrdered, OF sim_ordered_call calls]] fin])
qed

definition ccStarting :: "call_order \<Rightarrow> ChatCompletionsToAnthropicStreamState \<Rightarrow> bool" where
  "ccStarting m s \<longleftrightarrow> ccInv s \<and> callLink m s"

lemma sim_ordered_chunk:
  assumes "chunkOrder m chunk = Some m'"
  shows "ccSim True (ccStarting m) (ChatCompletionsChunkToAnthropicEvents itemID chunk) (ccStarting m')"
proof -
  have "callLink m (snd (ensureCCAnthropicMessageStart s))" if "callLink m s" for s
    using that by (simp add: ensureCCAnthropicMessageStart_def callLink_def)
  then have "ccSim True (ccStarting m) ensureCCAnthropicMessageStart (ccOrdered m)"
    unfolding ccStarting_def [abs_def] ccOrdered_def [abs_def] by (rule triple_frame [OF sim_start])
  from triple_seqE [OF this triple_run_ordered [where order = choiceOrder and link = ccOrdered,
        OF sim_ordered_choice assms [unfolded chunkOrder_def]]]
  have "ccSim True (ccStarting m) (\<lambda>s. seqE (ensureCCAnthropicMessageStart s)
      (run_machine (handleChoice itemID) (ccc_Choices chunk))) (ccStarting m')"
    by (rule triple_conseq) (simp_all add: ccOrdered_def ccStarting_def ccLive_def)
  then show ?thesis
    unfolding ChatCompletionsChunkToAnthropicEvents_def [abs_def]
    by (rule triple_update [rotated]) (simp add: ccStarting_def callLink_def ccInv_def ccAbs_def)
qed

interpretation c2aOrdered: ordered_refinement "ChatCompletionsChunkToAnthropicEvents itemID" chunkOrder ccStarting
    "anthSpec True" ccAbs for itemID
  by unfold_locales (use sim_ordered_chunk in \<open>auto simp: triple_def\<close>)

section \<open>Whole streams\<close>

lemma chatAnthropicStream_accepted:
  assumes "strict \<longrightarrow> accepts_from chunkOrder ({}, None) chunks \<noteq> None"
  shows "accepts_from (anthSpec strict) NotStarted (chatAnthropicStream itemID responseID created model chunks)
    = Some Stopped"
proof -
  let ?s = "NewChatCompletionsToAnthropicStreamState responseID created model"
  let ?r = "run_machine (ChatCompletionsChunkToAnthropicEvents itemID) chunks ?s"
  have start: "ccInv ?s" "ccStarting ({}, None) ?s" "ccAbs ?s = NotStarted"
    by (simp_all add: NewChatCompletionsToAnthropicStreamState_def ccStarting_def callLink_def ccInv_def ccAbs_def)
  have "accepts_from (anthSpec strict) NotStarted (fst ?r) = Some (ccAbs (snd ?r))"
  proof (cases strict)
    case False
    with c2a.run_sim [OF start(1), of chunks itemID] start(3) show ?thesis by simp
  next
    case True
    then obtain m' where "accepts_from chunkOrder ({}, None) chunks = Some m'" using assms by blast
    with True c2aOrdered.run_accepted [OF start(2), of chunks m' itemID] start(3) show ?thesis by simp
  qed
  with c2a.run_inv [OF start(1), of chunks itemID] cc_finalize_accepts [of "snd ?r" strict] show ?thesis
    by (simp add: chatAnthropicStream_def chatAnthropicRun_def accepts_from_append)
qed

text \<open>
  C9: whatever the upstream sends as Chat Completions chunks, in any order and broken off anywhere
  (an empty stream included), the events written to the Anthropic client form exactly one message
  stream: one \<open>message_start\<close>, content blocks numbered consecutively from 0, each opened and stopped
  before the next opens, every delta naming a block that was started, then \<open>message_delta\<close> and
  \<open>message_stop\<close> once.  When the increments of each upstream call come one after the other, with no
  text, reasoning or other call in between (\<open>chunkOrder\<close>), the stream is well formed in the full
  sense: every delta names the block that is open.
\<close>

theorem chatAnthropicStream_wellformed:
  "accepts_from (anthSpec False) NotStarted (chatAnthropicStream itemID responseID created model chunks)
     = Some Stopped \<and>
   (accepts_from chunkOrder ({}, None) chunks \<noteq> None \<longrightarrow>
    accepts_from (anthSpec True) NotStarted (chatAnthropicStream itemID responseID created model chunks)
      = Some Stopped)"
  using chatAnthropicStream_accepted [of False] chatAnthropicStream_accepted [of True] by simp

definition toolChunk :: "int \<Rightarrow> string \<Rightarrow> string \<Rightarrow> ChatCompletionsChunk" where
  "toolChunk idx name arguments =
     \<lparr>ccc_ID = [], ccc_Object = [], ccc_Created = 0, ccc_Model = [],
      ccc_Choices = [\<lparr>cck_Index = 0, cck_Delta = zeroChatDelta\<lparr>cd_ToolCalls :=
        [\<lparr>ctc_Index = Some idx, ctc_ID = ''call_1'', ctc_Type = ''function'',
          ctc_Function = \<lparr>cfc_Name = name, cfc_Arguments = arguments\<rparr>\<rparr>]\<rparr>, cck_FinishReason = None\<rparr>],
      ccc_Usage = None, ccc_SystemFingerprint = [], ccc_ServiceTier = []\<rparr>"

theorem chatAnthropicStream_wellformed_witness:
  "accepts_from (anthSpec True) NotStarted (chatAnthropicStream (\<lambda>_. []) [] 0 []
     [toolChunk 0 ''ls'' ''{'', toolChunk 0 [] ''}'', toolChunk 1 ''cat'' ''{}'']) = Some Stopped"
  by (rule chatAnthropicStream_wellformed [THEN conjunct2, rule_format])
     (simp add: toolChunk_def zeroChatDelta_def chunkOrder_def choiceOrder_def saysSomething_def
       deltaReasoningText_def callOrder_def callIndex_def)

end
