(* ===== verification/Chat_Bridges.thy ===== *)
theory Chat_Bridges
  imports Chat_To_Responses Chat_To_Anthropic
begin

text \<open>
  The two ways the gateway can answer an Anthropic client from a Chat Completions answer: directly,
  and through the Responses protocol.  Their agreement on the answers that both can express, and
  the answers on which they differ.
\<close>

section \<open>The parts agree\<close>

text \<open>A client that declared neither custom nor namespace nor search tools, as Anthropic clients do.\<close>

definition plainNames :: tool_names where
  "plainNames = \<lparr>tn_CustomTools = [], tn_FunctionTools = [], tn_ToolSearchDeclared = False, tn_NamespaceTools = []\<rparr>"

lemma plainNames_customName [simp]: "customName L plainNames name = ([], False)"
  by (simp add: customName_def customToolCallName_def plainNames_def)

definition toolArguments :: "ChatToolCall \<Rightarrow> string" where
  "toolArguments tc = (if TrimSpace (cfc_Arguments (ctc_Function tc)) = [] then ''{}'' else cfc_Arguments (ctc_Function tc))"

definition textBlock :: "string \<Rightarrow> AnthropicContentBlock" where
  "textBlock text = zeroAnthropicContentBlock\<lparr>acb_Type := ''text'', acb_Text := text\<rparr>"

lemma tool_blocks:
  assumes "json_Valid (bl_json L) (toolArguments tc)"
  shows "concat (map (anthropicBlocksOfItem (bl_json L)) (chatToolCallToOutput L plainNames i tc)) = [chatToolCallToBlock (bl_json L) tc]"
proof -
  have "chatToolCallToOutput L plainNames i tc = [(completedItem ''function_call'' (generateItemID i))
      \<lparr>ro_CallID := ctc_ID tc, ro_Name := cfc_Name (ctc_Function tc), ro_Arguments := toolArguments tc\<rparr>]"
    using assms by (simp only: chatToolCallToOutput_def Let_def plainNames_customName toolArguments_def [symmetric])
      (simp add: plainNames_def)
  then show ?thesis
    by (simp add: chatToolCallToBlock_def Let_def toolArguments_def [symmetric] anthropicBlocksOfItem_def completedItem_def
        zeroResponsesOutput_def)
qed

lemma enumerate_blocks:
  assumes "\<forall>tc \<in> set tcs. json_Valid (bl_json L) (toolArguments tc)"
  shows "concat (map (anthropicBlocksOfItem (bl_json L)) (concat (map (\<lambda>(i, tc). chatToolCallToOutput L plainNames (g i) tc)
      (List.enumerate n tcs)))) = map (chatToolCallToBlock (bl_json L)) tcs"
  using assms by (induction tcs arbitrary: n) (simp_all add: tool_blocks)

lemma reasoning_block:
  "reasoning \<noteq> [] \<Longrightarrow> anthropicBlocksOfItem J (zeroResponsesOutput\<lparr>ro_Type := ''reasoning'', ro_ID := i,
     ro_Summary := [\<lparr>rsm_Type = ''summary_text'', rsm_Text = reasoning\<rparr>]\<rparr>)
   = [zeroAnthropicContentBlock\<lparr>acb_Type := ''thinking'', acb_Thinking := reasoning\<rparr>]"
  by (simp add: anthropicBlocksOfItem_def summaryTextOf_def zeroResponsesOutput_def zeroAnthropicContentBlock_def)

lemma message_block:
  "anthropicBlocksOfItem J ((completedItem ''message'' i)\<lparr>ro_Role := ''assistant'', ro_Content := [outputText text]\<rparr>)
     = (if text = [] then [] else [textBlock text])"
  by (simp add: anthropicBlocksOfItem_def completedItem_def outputText_def zeroResponsesOutput_def zeroResponsesContentPart_def
      textBlock_def)

text \<open>The text both translators show for a message.\<close>

definition shownText :: "content_json \<Rightarrow> ChatMessage \<Rightarrow> string" where
  "shownText C m =
     (let text = chatMessageContentText C (cm_Content m); reasoning = messageReasoningText m
      in if text = [] \<and> TrimSpace reasoning \<noteq> [] \<and> cm_ToolCalls m = [] then reasoning else text)"

lemma direct_blocks:
  "chatMessageToAnthropicBlocks J C m =
     (if messageReasoningText m \<noteq> []
      then [zeroAnthropicContentBlock\<lparr>acb_Type := ''thinking'', acb_Thinking := messageReasoningText m\<rparr>] else []) @
     (if shownText C m \<noteq> [] \<or> cm_ToolCalls m = [] then [textBlock (shownText C m)] else []) @
     map (chatToolCallToBlock J) (cm_ToolCalls m)"
  unfolding chatMessageToAnthropicBlocks_def shownText_def textBlock_def Let_def by (rule refl)

lemma double_blocks:
  assumes "\<forall>tc \<in> set (cm_ToolCalls m). json_Valid (bl_json L) (toolArguments tc)"
  shows "concat (map (anthropicBlocksOfItem (bl_json L)) (chatMessageToResponsesOutput L plainNames ids m)) =
     (if messageReasoningText m \<noteq> []
      then [zeroAnthropicContentBlock\<lparr>acb_Type := ''thinking'', acb_Thinking := messageReasoningText m\<rparr>] else []) @
     (if shownText (bl_content L) m \<noteq> [] then [textBlock (shownText (bl_content L) m)] else []) @
     map (chatToolCallToBlock (bl_json L)) (cm_ToolCalls m)"
proof -
  have eq: "chatMessageToResponsesOutput L plainNames ids m =
     (if messageReasoningText m \<noteq> [] then [zeroResponsesOutput\<lparr>ro_Type := ''reasoning'', ro_ID := generateItemID (ids IdReasoning),
        ro_Summary := [\<lparr>rsm_Type = ''summary_text'', rsm_Text = messageReasoningText m\<rparr>]\<rparr>] else []) @
     (if shownText (bl_content L) m \<noteq> [] \<or> cm_ToolCalls m = []
      then [(completedItem ''message'' (generateItemID (ids IdMessage)))\<lparr>ro_Role := ''assistant'',
              ro_Content := [outputText (shownText (bl_content L) m)]\<rparr>] else []) @
     concat (map (\<lambda>(i, toolCall). chatToolCallToOutput L plainNames (ids (IdTool (int i))) toolCall)
       (List.enumerate 0 (cm_ToolCalls m)))"
    unfolding chatMessageToResponsesOutput_def shownText_def Let_def by (rule refl)
  note tools = enumerate_blocks [OF assms, where g = "\<lambda>i. ids (IdTool (int i))" and n = 0]
  show ?thesis
    unfolding eq map_append concat_append tools by (simp add: reasoning_block message_block)
qed

text \<open>A message that both translators can express.\<close>

definition expressible :: "bridge_lib \<Rightarrow> ChatMessage \<Rightarrow> bool" where
  "expressible L m \<longleftrightarrow>
     (\<forall>tc \<in> set (cm_ToolCalls m). json_Valid (bl_json L) (toolArguments tc)) \<and>
     (shownText (bl_content L) m \<noteq> [] \<or> cm_ToolCalls m \<noteq> [] \<or> messageReasoningText m = [])"

lemma message_blocks:
  assumes "expressible L m"
    and "bs = concat (map (anthropicBlocksOfItem (bl_json L)) (chatMessageToResponsesOutput L plainNames ids m))"
  shows "chatMessageToAnthropicBlocks (bl_json L) (bl_content L) m = (if bs = [] then [textBlock []] else bs)"
proof -
  from assms(1) have valid: "\<forall>tc \<in> set (cm_ToolCalls m). json_Valid (bl_json L) (toolArguments tc)"
    and shown: "shownText (bl_content L) m \<noteq> [] \<or> cm_ToolCalls m \<noteq> [] \<or> messageReasoningText m = []"
    by (simp_all add: expressible_def)
  show ?thesis
    unfolding assms(2) double_blocks [OF valid] direct_blocks
    using shown by (cases "shownText (bl_content L) m = []"; cases "cm_ToolCalls m = []"; simp)
qed

lemma chatToolCallToBlock_type: "acb_Type (chatToolCallToBlock J tc) = ''tool_use''"
  by (simp add: chatToolCallToBlock_def Let_def)

lemma direct_tool_use:
  "containsAnthropicToolUseBlock (chatMessageToAnthropicBlocks J C m) \<longleftrightarrow> cm_ToolCalls m \<noteq> []"
  unfolding direct_blocks containsAnthropicToolUseBlock_def textBlock_def
  by (auto simp: chatToolCallToBlock_type) (cases "cm_ToolCalls m", simp_all add: chatToolCallToBlock_type)+

lemma stopReasons:
  assumes "finish = ''tool_calls'' \<longrightarrow> cm_ToolCalls m \<noteq> []"
  shows "chatFinishReasonToAnthropicStopReason finish (chatMessageToAnthropicBlocks J C m) =
    responsesStatusToAnthropicStopReason (if finish = ''length'' then ''incomplete'' else ''completed'')
      (if finish = ''length'' then Some \<lparr>rid_Reason = ''max_output_tokens''\<rparr> else None) (chatMessageToAnthropicBlocks J C m)"
  using assms by (auto simp: chatFinishReasonToAnthropicStopReason_def responsesStatusToAnthropicStopReason_def direct_tool_use)

lemma usages:
  assumes "\<forall>d. cu_PromptTokensDetails u = Some d \<longrightarrow>
    0 \<le> ctd_CachedTokens d \<and> 0 \<le> ctd_CacheCreationTokens d \<and> 0 \<le> ctd_CacheWriteTokens d"
  shows "chatUsageToAnthropicUsage (Some u) = anthropicUsageFromResponsesUsage (Some (ChatUsageToResponsesUsage u))"
proof (cases "cu_PromptTokensDetails u")
  case (Some d)
  with assms have "0 \<le> ctd_CachedTokens d" "0 \<le> ctd_CacheCreationTokens d" "0 \<le> ctd_CacheWriteTokens d" by auto
  with Some show ?thesis
    by (cases "ctd_CachedTokens d > 0 \<or> ctd_CacheCreationTokens d > 0 \<or> ctd_CacheWriteTokens d > 0")
       (auto simp: chatUsageToAnthropicUsage_def anthropicUsageFromResponsesUsage_def ChatUsageToResponsesUsage_def Let_def
         zeroResponsesInputTokensDetails_def)
qed (simp add: chatUsageToAnthropicUsage_def anthropicUsageFromResponsesUsage_def ChatUsageToResponsesUsage_def Let_def)

section \<open>The answers agree\<close>

text \<open>The Responses answer of the detour, field by field.\<close>

lemma double_fields:
  fixes L ids responseID now r model
  defines "d \<equiv> ChatCompletionsResponseToResponses L plainNames ids responseID now (Some r) model"
  assumes "ccr_ID r \<noteq> []"
  shows "rr_ID d = ccr_ID r"
    and "rr_Usage d = map_option ChatUsageToResponsesUsage (ccr_Usage r)"
    and "concat (map (anthropicBlocksOfItem J) (rr_Output d)) =
      (case ccr_Choices r of [] \<Rightarrow> []
       | c # _ \<Rightarrow> concat (map (anthropicBlocksOfItem J) (chatMessageToResponsesOutput L plainNames ids (cch_Message c))))"
    and "ccr_Choices r = c # cs \<Longrightarrow> rr_Status d = (if cch_FinishReason c = ''length'' then ''incomplete'' else ''completed'')"
    and "ccr_Choices r = c # cs \<Longrightarrow>
      rr_IncompleteDetails d = (if cch_FinishReason c = ''length'' then Some \<lparr>rid_Reason = ''max_output_tokens''\<rparr> else None)"
    and "ccr_Choices r = [] \<Longrightarrow> rr_Status d = ''completed''"
  using assms(2)
  by (simp_all add: d_def ChatCompletionsResponseToResponses_def Let_def emptyResponsesMessageOutput_def message_block
      zeroResponsesResponse_def split: list.split option.split)

lemma direct_fields:
  assumes "ccr_ID r \<noteq> []" and "model \<noteq> []"
    and "blocks = (case ccr_Choices r of [] \<Rightarrow> [textBlock []] | c # _ \<Rightarrow> chatMessageToAnthropicBlocks J C (cch_Message c))"
    and "\<forall>c cs. ccr_Choices r = c # cs \<longrightarrow> blocks \<noteq> []"
  shows "ChatCompletionsResponseToAnthropic J C newID (Some r) model =
    \<lparr>ar_ID = ccr_ID r, ar_Type = ''message'', ar_Role = ''assistant'', ar_Content = blocks, ar_Model = model,
     ar_StopReason = Some (chatFinishReasonToAnthropicStopReason
       (case ccr_Choices r of [] \<Rightarrow> [] | c # _ \<Rightarrow> cch_FinishReason c) blocks),
     ar_StopSequence = None,
     ar_Usage = (case ccr_Usage r of None \<Rightarrow> zeroAnthropicUsage | Some u \<Rightarrow> chatUsageToAnthropicUsage (Some u))\<rparr>"
proof -
  have reason: "chatFinishReasonToAnthropicStopReason f bs \<noteq> []" for f bs
    by (simp add: chatFinishReasonToAnthropicStopReason_def)
  show ?thesis
  proof (cases "ccr_Choices r")
    case Nil
    with assms(1-3) show ?thesis
      by (cases "ccr_Usage r") (simp_all add: ChatCompletionsResponseToAnthropic_def Let_def zeroAnthropicResponse_def
        AnthropicStopReasonString_def AnthropicStopReasonPtr_def textBlock_def)
  next
    case (Cons c cs)
    with assms show ?thesis
      by (cases "ccr_Usage r") (simp_all add: ChatCompletionsResponseToAnthropic_def Let_def zeroAnthropicResponse_def
        AnthropicStopReasonString_def AnthropicStopReasonPtr_def reason)
  qed
qed

lemma responses_fields:
  assumes "blocks = (if bs = [] then [textBlock []] else bs)"
    and "bs = concat (map (anthropicBlocksOfItem J) (rr_Output d))"
  shows "ResponsesToAnthropic J d model =
    \<lparr>ar_ID = rr_ID d, ar_Type = ''message'', ar_Role = ''assistant'', ar_Content = blocks, ar_Model = model,
     ar_StopReason = Some (responsesStatusToAnthropicStopReason (rr_Status d) (rr_IncompleteDetails d) blocks),
     ar_StopSequence = None,
     ar_Usage = (case rr_Usage d of None \<Rightarrow> zeroAnthropicUsage | Some u \<Rightarrow> anthropicUsageFromResponsesUsage (Some u))\<rparr>"
proof -
  note blocks = assms(1) [unfolded assms(2) textBlock_def, symmetric]
  show ?thesis
    unfolding ResponsesToAnthropic_def Let_def blocks
    by (cases "rr_Usage d") (simp_all add: zeroAnthropicResponse_def AnthropicStopReasonPtr_def)
qed

lemma direct_blocks_nonempty: "chatMessageToAnthropicBlocks J C m \<noteq> []"
  unfolding direct_blocks by (cases "cm_ToolCalls m") simp_all

text \<open>
  C6: for a client that declared plain function tools, as Anthropic clients do, the direct
  translation of a Chat Completions answer equals, field by field, its translation to a Responses
  answer followed by the translation of that to an Anthropic answer: identifier, content blocks,
  stop reason and usage.  This is the equivalence the direct bridge claims; it holds for answers
  with an identifier and without negative token counts, whose tool arguments are valid JSON, that
  do not claim tool calls they do not contain, and whose reasoning is not blank unless there is
  other content.
\<close>

theorem direct_equals_double:
  assumes "ccr_ID r \<noteq> []" and "model \<noteq> []"
    and "\<And>c cs. ccr_Choices r = c # cs \<Longrightarrow> expressible L (cch_Message c)"
    and "\<And>c cs. ccr_Choices r = c # cs \<Longrightarrow> cch_FinishReason c = ''tool_calls'' \<Longrightarrow> cm_ToolCalls (cch_Message c) \<noteq> []"
    and "\<And>u d. ccr_Usage r = Some u \<Longrightarrow> cu_PromptTokensDetails u = Some d \<Longrightarrow>
      0 \<le> ctd_CachedTokens d \<and> 0 \<le> ctd_CacheCreationTokens d \<and> 0 \<le> ctd_CacheWriteTokens d"
  shows "ChatCompletionsResponseToAnthropic (bl_json L) (bl_content L) newID (Some r) model =
    ResponsesToAnthropic (bl_json L) (ChatCompletionsResponseToResponses L plainNames ids responseID now (Some r) model) model"
proof -
  let ?J = "bl_json L" and ?C = "bl_content L"
  let ?d = "ChatCompletionsResponseToResponses L plainNames ids responseID now (Some r) model"
  define blocks where "blocks = (case ccr_Choices r of [] \<Rightarrow> [textBlock []]
    | c # _ \<Rightarrow> chatMessageToAnthropicBlocks ?J ?C (cch_Message c))"
  define bs where "bs = concat (map (anthropicBlocksOfItem ?J) (rr_Output ?d))"
  note d = double_fields [OF assms(1), where L = L and ids = ids and responseID = responseID and now = now and model = model]
  have blocks: "(if bs = [] then [textBlock []] else bs) = blocks"
    using message_blocks [OF assms(3) refl, of _ _ ids] unfolding bs_def blocks_def d(3) by (cases "ccr_Choices r") simp_all
  have stop: "chatFinishReasonToAnthropicStopReason (case ccr_Choices r of [] \<Rightarrow> [] | c # _ \<Rightarrow> cch_FinishReason c) blocks =
      responsesStatusToAnthropicStopReason (rr_Status ?d) (rr_IncompleteDetails ?d) blocks"
  proof (cases "ccr_Choices r")
    case Nil
    then show ?thesis
      by (simp add: d(6) blocks_def chatFinishReasonToAnthropicStopReason_def responsesStatusToAnthropicStopReason_def)
  next
    case (Cons c cs)
    from assms(4) [OF Cons] have "cch_FinishReason c = ''tool_calls'' \<longrightarrow> cm_ToolCalls (cch_Message c) \<noteq> []" by blast
    from stopReasons [OF this, of ?J ?C] show ?thesis
      by (simp only: Cons d(4) [OF Cons] d(5) [OF Cons] blocks_def list.case)
  qed
  have usage: "(case ccr_Usage r of None \<Rightarrow> zeroAnthropicUsage | Some u \<Rightarrow> chatUsageToAnthropicUsage (Some u)) =
      (case rr_Usage ?d of None \<Rightarrow> zeroAnthropicUsage | Some u \<Rightarrow> anthropicUsageFromResponsesUsage (Some u))"
    using usages assms(5) by (cases "ccr_Usage r") (simp_all add: d(2))
  have direct: "ChatCompletionsResponseToAnthropic ?J ?C newID (Some r) model =
    \<lparr>ar_ID = ccr_ID r, ar_Type = ''message'', ar_Role = ''assistant'', ar_Content = blocks, ar_Model = model,
     ar_StopReason = Some (chatFinishReasonToAnthropicStopReason
       (case ccr_Choices r of [] \<Rightarrow> [] | c # _ \<Rightarrow> cch_FinishReason c) blocks),
     ar_StopSequence = None,
     ar_Usage = (case ccr_Usage r of None \<Rightarrow> zeroAnthropicUsage | Some u \<Rightarrow> chatUsageToAnthropicUsage (Some u))\<rparr>"
    by (rule direct_fields [OF assms(1,2) blocks_def]) (auto simp: blocks_def direct_blocks_nonempty)
  show ?thesis
    unfolding direct stop usage by (simp add: responses_fields [OF blocks [symmetric] bs_def] d(1))
qed

section \<open>Instances and the answers that differ\<close>

definition exCallMessage :: "string \<Rightarrow> ChatMessage" where
  "exCallMessage arguments = zeroChatMessage\<lparr>cm_ToolCalls := [\<lparr>ctc_Index = None, ctc_ID = ''call_1'', ctc_Type = ''function'',
     ctc_Function = \<lparr>cfc_Name = ''ls'', cfc_Arguments = arguments\<rparr>\<rparr>]\<rparr>"

definition exAnswer :: "ChatMessage \<Rightarrow> string \<Rightarrow> ChatCompletionsResponse" where
  "exAnswer m finish = \<lparr>ccr_ID = ''chatcmpl_1'', ccr_Object = [], ccr_Created = 0, ccr_Model = [],
     ccr_Choices = [\<lparr>cch_Index = 0, cch_Message = m, cch_FinishReason = finish\<rparr>], ccr_Usage = None,
     ccr_SystemFingerprint = [], ccr_ServiceTier = []\<rparr>"

theorem direct_equals_double_witness:
  "ChatCompletionsResponseToAnthropic (bl_json plain_lib) (bl_content plain_lib) []
     (Some (exAnswer (exCallMessage ''{}'') ''tool_calls'')) ''m'' =
   ResponsesToAnthropic (bl_json plain_lib)
     (ChatCompletionsResponseToResponses plain_lib plainNames (\<lambda>_. []) [] 0
       (Some (exAnswer (exCallMessage ''{}'') ''tool_calls'')) ''m'') ''m''"
  by (rule direct_equals_double)
     (auto simp: exAnswer_def exCallMessage_def expressible_def toolArguments_def plain_lib_def plain_json_def zeroChatMessage_def
       trim_braces)

text \<open>
  Cut-off tool arguments: the detour leaves the call out, the direct translation passes the bytes on
  as the block's input, which is then not JSON.  A claimed but absent tool call: the direct
  translation stops with \<open>tool_use\<close> although no block asks for a tool.
\<close>

lemma direct_keeps_invalid_arguments:
  "map acb_Input (ar_Content (ChatCompletionsResponseToAnthropic (bl_json plain_lib) (bl_content plain_lib) []
     (Some (exAnswer (exCallMessage ''{'') ''length'')) ''m'')) = [''{''] \<and>
   map acb_Input (ar_Content (ResponsesToAnthropic (bl_json plain_lib) (ChatCompletionsResponseToResponses plain_lib plainNames (\<lambda>_. []) [] 0
     (Some (exAnswer (exCallMessage ''{'') ''length'')) ''m'') ''m'')) = [[]]"
  by (simp add: exAnswer_def exCallMessage_def plain_lib_def plain_json_def zero_defs trim_braces
      ChatCompletionsResponseToAnthropic_def chatMessageToAnthropicBlocks_def messageReasoningText_def chatMessageContentText_def
      chatToolCallToBlock_def sanitizeAnthropicToolUseInput_def chatFinishReasonToAnthropicStopReason_def
      AnthropicStopReasonPtr_def AnthropicStopReasonString_def
      ResponsesToAnthropic_def ChatCompletionsResponseToResponses_def chatServiceTier_def chatMessageToResponsesOutput_def
      chatToolCallToOutput_def emptyResponsesMessageOutput_def completedItem_def outputText_def anthropicBlocksOfItem_def
      responsesStatusToAnthropicStopReason_def Let_def)

lemma direct_claims_absent_tool_use:
  "ar_StopReason (ChatCompletionsResponseToAnthropic (bl_json plain_lib) (bl_content plain_lib) []
     (Some (exAnswer zeroChatMessage ''tool_calls'')) ''m'') = Some ''tool_use'' \<and>
   ar_StopReason (ResponsesToAnthropic (bl_json plain_lib) (ChatCompletionsResponseToResponses plain_lib plainNames (\<lambda>_. []) [] 0
     (Some (exAnswer zeroChatMessage ''tool_calls'')) ''m'') ''m'') = Some ''end_turn''"
  by (simp add: exAnswer_def plain_lib_def plain_json_def zero_defs
      ChatCompletionsResponseToAnthropic_def chatMessageToAnthropicBlocks_def messageReasoningText_def chatMessageContentText_def
      chatFinishReasonToAnthropicStopReason_def AnthropicStopReasonPtr_def AnthropicStopReasonString_def
      ResponsesToAnthropic_def ChatCompletionsResponseToResponses_def chatServiceTier_def chatMessageToResponsesOutput_def
      completedItem_def outputText_def anthropicBlocksOfItem_def generateItemID_def
      responsesStatusToAnthropicStopReason_def containsAnthropicToolUseBlock_def Let_def)

end
