(* ===== verification/Chat_To_Anthropic_Content.thy ===== *)
theory Chat_To_Anthropic_Content
  imports Chat_To_Anthropic
begin

text \<open>
  What the direct Chat Completions to Anthropic stream translator keeps of the content: text and
  reasoning exactly, the arguments of every tool call in a block of its own.
\<close>

section \<open>Text and reasoning\<close>

definition anthThinking :: "AnthropicStreamEvent \<Rightarrow> string" where
  "anthThinking e = (case ase_Delta e of
     Some d \<Rightarrow> if ase_Type e = ''content_block_delta'' \<and> ad_Type d = ''thinking_delta'' then ad_Thinking d else []
   | None \<Rightarrow> [])"

lemma anthThinking_events [simp]:
  "anthThinking (blockStart i b) = []"
  "anthThinking (blockStop i) = []"
  "anthThinking (blockDelta i (inputJSONDelta x)) = []"
  "anthThinking (blockDelta i (zeroAnthropicDelta\<lparr>ad_Type := ''thinking_delta'', ad_Thinking := x\<rparr>)) = x"
  "anthThinking (blockDelta i (zeroAnthropicDelta\<lparr>ad_Type := ''text_delta'', ad_Text := x\<rparr>)) = []"
  by (simp_all add: anthThinking_def blockStart_def blockStop_def blockDelta_def inputJSONDelta_def zero_defs)

text \<open>
  A projection of the events that ignores block boundaries and tool arguments and reads reasoning
  as \<open>R\<close> and text as \<open>T\<close>.
\<close>

definition projects ::
  "(AnthropicStreamEvent \<Rightarrow> string) \<Rightarrow> (string \<Rightarrow> string) \<Rightarrow> (string \<Rightarrow> string) \<Rightarrow> bool" where
  "projects g R T \<longleftrightarrow> R [] = [] \<and> T [] = [] \<and>
     (\<forall>i b. g (blockStart i b) = []) \<and> (\<forall>i. g (blockStop i) = []) \<and> (\<forall>i x. g (blockDelta i (inputJSONDelta x)) = []) \<and>
     (\<forall>s. concat (map g (fst (ensureCCAnthropicMessageStart s))) = []) \<and> (\<forall>s. concat (map g (ccMessageEnd s)) = []) \<and>
     (\<forall>i x. g (blockDelta i (zeroAnthropicDelta\<lparr>ad_Type := ''thinking_delta'', ad_Thinking := x\<rparr>)) = R x) \<and>
     (\<forall>i x. g (blockDelta i (zeroAnthropicDelta\<lparr>ad_Type := ''text_delta'', ad_Text := x\<rparr>)) = T x)"

abbreviation reads :: "(AnthropicStreamEvent \<Rightarrow> string) \<Rightarrow> c2a_result \<Rightarrow> string" where
  "reads g r \<equiv> concat (map g (fst r))"

declare concat_eq_Nil_conv [simp del]

lemma concat_map_Nil [simp]: "concat (map (\<lambda>_. []) xs) = []"
  by (induction xs) simp_all

lemma concat_map_concat: "concat (map f (concat (map h xs))) = concat (map (\<lambda>x. concat (map f (h x))) xs)"
  by (induction xs) simp_all

lemma frame_events [simp]:
  "concat (map anthText (fst (ensureCCAnthropicMessageStart s))) = []" "concat (map anthText (ccMessageEnd s)) = []"
  "concat (map anthThinking (fst (ensureCCAnthropicMessageStart s))) = []" "concat (map anthThinking (ccMessageEnd s)) = []"
  by (simp_all add: ensureCCAnthropicMessageStart_def ccMessageEnd_def anthText_def anthThinking_def zero_defs)

lemma projects_text: "projects anthText (\<lambda>_. []) id" and projects_thinking: "projects anthThinking id (\<lambda>_. [])"
  by (simp_all add: projects_def)

lemma reads_close: "projects g R T \<Longrightarrow> reads g (closeCCAnthropicBlock s) = []"
  by (simp add: closeCCAnthropicBlock_def Let_def projects_def)

lemma reads_closeIf: "projects g R T \<Longrightarrow> reads g (closeCCAnthropicBlockIfOpen t s) = []"
  by (simp add: closeCCAnthropicBlockIfOpen_def reads_close)

lemma reads_openBlock: "projects g R T \<Longrightarrow> reads g (openCCBlock t s) = []"
  by (simp add: openCCBlock_def reads_close) (simp add: projects_def)

lemma openBlock_open [simp]: "ca_ContentBlockOpen (snd (openCCBlock t s))"
  by (simp add: openCCBlock_def)

lemma reads_announce: "projects g R T \<Longrightarrow> reads g (announceCCAnthropicToolBlock idx callID name s) = []"
  by (simp add: announceCCAnthropicToolBlock_def Let_def projects_def)

lemma reads_toolCall: "projects g R T \<Longrightarrow> reads g (handleCCAnthropicToolCall itemID tc s) = []"
  by (simp add: handleCCAnthropicToolCall_def ccAnnounceToolCall_def ccToolCallArguments_def Let_def
      reads_close reads_announce) (simp add: projects_def)

lemma reads_choice:
  assumes "projects g R T"
  shows "reads g (handleChoice itemID c s) = R (choiceReasoning c) @ T (choiceText c)"
proof -
  have "reads g (run_machine (\<lambda>tc s. seqE (closeCCAnthropicBlockIfOpen ''thinking'' s) (handleCCAnthropicToolCall itemID tc)) tcs s) = []"
    for tcs s
    by (subst run_machine_concat [where h = "\<lambda>_. []"])
       (simp_all add: reads_closeIf [OF assms] reads_toolCall [OF assms])
  then show ?thesis
    using assms
    by (simp add: handleChoice_def Let_def ensureCCAnthropicThinkingBlock_def ensureCCAnthropicTextBlock_def ccAnthropicDelta_def
        reads_openBlock [OF assms] reads_closeIf [OF assms] choiceReasoning_def [symmetric] choiceText_def [symmetric])
       (simp add: projects_def)
qed

lemma reads_finalize: "projects g R T \<Longrightarrow> reads g (FinalizeChatCompletionsAnthropicStream s) = []"
  apply (cases "ca_MessageStopSent s")
  apply (simp add: FinalizeChatCompletionsAnthropicStream_def)
  apply (simp add: Finalize_eq reads_close finishPending_def Let_def)
  apply (subst run_machine_concat [where h = "\<lambda>_. []"])
  apply (simp_all add: reads_close reads_announce)
  apply (simp_all add: projects_def)
  done

lemma reads_stream:
  assumes "projects g R T"
  shows "concat (map g (chatAnthropicStream itemID responseID created model chunks)) =
    concat (map (\<lambda>c. R (choiceReasoning c) @ T (choiceText c)) (concat (map ccc_Choices chunks)))"
proof -
  have chunk: "reads g (ChatCompletionsChunkToAnthropicEvents itemID chunk s) =
      concat (map (\<lambda>c. R (choiceReasoning c) @ T (choiceText c)) (ccc_Choices chunk))" for chunk s
    using assms
    by (simp add: ChatCompletionsChunkToAnthropicEvents_def projects_def
        run_machine_concat [where g = g, OF reads_choice [OF assms]])
  show ?thesis
    by (simp add: chatAnthropicStream_def chatAnthropicRun_def reads_finalize [OF assms]
        run_machine_concat [where g = g, OF chunk] concat_map_concat)
qed

text \<open>
  C10: the client receives exactly the content text of the upstream's chunks, in order, over its
  \<open>text_delta\<close> events, and exactly the reasoning text (either of the two reasoning fields) over its
  \<open>thinking_delta\<close> events, for every upstream stream, however text, reasoning and tool calls are
  interleaved and wherever it breaks off.
\<close>

theorem chatAnthropicStream_content:
  "concat (map anthText (chatAnthropicStream itemID responseID created model chunks)) =
     concat (map choiceText (concat (map ccc_Choices chunks))) \<and>
   concat (map anthThinking (chatAnthropicStream itemID responseID created model chunks)) =
     concat (map choiceReasoning (concat (map ccc_Choices chunks)))"
  by (simp add: reads_stream [OF projects_text] reads_stream [OF projects_thinking])

section \<open>The arguments of the tool calls\<close>

definition argOf :: "ChatToolCall \<Rightarrow> int \<Rightarrow> string" where
  "argOf tc idx = (if idx = callIdx tc then cfc_Arguments (ctc_Function tc) else [])"

definition argsFor :: "ChatToolCall list \<Rightarrow> int \<Rightarrow> string" where
  "argsFor tcs idx = concat (map (\<lambda>tc. argOf tc idx) tcs)"

text \<open>What the client has received for a block, and the closing of a tool block without increments.\<close>

definition recv :: "AnthropicStreamEvent list \<Rightarrow> int \<Rightarrow> string" where
  "recv evs n = concat (map (anthArgs n) evs)"

lemma recv_simps [simp]: "recv [] n = []" "recv (e # es) n = anthArgs n e @ recv es n" "recv (xs @ ys) n = recv xs n @ recv ys n"
  by (simp_all add: recv_def)

text \<open>
  \<open>F\<close> is what the client has received for each block, \<open>A\<close> what the upstream has sent for each
  tool call.  The arguments of an unannounced call are pending; those of an announced one are in
  its block, which starts with the placeholder \<open>{}\<close> when it was closed before any increment.
\<close>

definition blockHolds :: "ChatCompletionsToAnthropicStreamState \<Rightarrow> int \<Rightarrow> string \<Rightarrow> string \<Rightarrow> bool" where
  "blockHolds s n received sent \<longleftrightarrow>
     (if n = ca_ContentBlockIndex s
      then ca_ContentBlockOpen s \<and> ca_CurrentBlockType s = ''tool_use'' \<and> received = sent \<and>
        (ca_CurrentToolHadDelta s \<longleftrightarrow> sent \<noteq> [])
      else n < ca_ContentBlockIndex s \<and> (received = sent \<and> sent \<noteq> [] \<or> received = ''{}'' @ sent))"

definition freshBlocks :: "(int \<Rightarrow> string) \<Rightarrow> ChatCompletionsToAnthropicStreamState \<Rightarrow> bool" where
  "freshBlocks F s \<longleftrightarrow>
     (\<forall>n \<ge> ca_ContentBlockIndex s. n = ca_ContentBlockIndex s \<and> ca_ContentBlockOpen s \<or> F n = [])"

definition toolsDistinct :: "ChatCompletionsToAnthropicStreamState \<Rightarrow> bool" where
  "toolsDistinct s \<longleftrightarrow>
     (\<forall>i j. ca_toolAnnounced s i = Some True \<longrightarrow> ca_toolAnnounced s j = Some True \<longrightarrow>
        ca_toolBlockIndex s i = ca_toolBlockIndex s j \<longrightarrow> i = j)"

definition pendingKeys :: "ChatCompletionsToAnthropicStreamState \<Rightarrow> bool" where
  "pendingKeys s \<longleftrightarrow> distinct (map fst (ca_pendingToolCallID s)) \<and> (\<forall>i. ca_toolAnnounced s i = Some False \<longleftrightarrow> i \<in> fst ` set (ca_pendingToolCallID s))"

definition pendingText :: "ChatCompletionsToAnthropicStreamState \<Rightarrow> int \<Rightarrow> string" where
  "pendingText s i = (case ca_pendingToolArgs s i of None \<Rightarrow> [] | Some a \<Rightarrow> a)"

definition heldArgs :: "(int \<Rightarrow> string) \<Rightarrow> (int \<Rightarrow> string) \<Rightarrow> ChatCompletionsToAnthropicStreamState \<Rightarrow> bool" where
  "heldArgs F A s \<longleftrightarrow>
     (\<forall>i. (ca_toolAnnounced s i = Some True \<longrightarrow> (\<exists>n. ca_toolBlockIndex s i = Some n \<and> blockHolds s n (F n) (A i))) \<and>
          (ca_toolAnnounced s i \<noteq> Some True \<longrightarrow> pendingText s i = A i) \<and>
          (ca_toolAnnounced s i = None \<longrightarrow> A i = []))"

definition argInv :: "(int \<Rightarrow> string) \<Rightarrow> (int \<Rightarrow> string) \<Rightarrow> ChatCompletionsToAnthropicStreamState \<Rightarrow> bool" where
  "argInv F A s \<longleftrightarrow> freshBlocks F s \<and> toolsDistinct s \<and> pendingKeys s \<and> heldArgs F A s"

lemma freshBlocks_above:
  assumes "freshBlocks F s" and "ca_ContentBlockIndex s < n"
  shows "F n = []"
  using assms(1) [unfolded freshBlocks_def, rule_format, of n] assms(2) by auto

lemma freshBlocks_closed: "freshBlocks F s \<Longrightarrow> \<not> ca_ContentBlockOpen s \<Longrightarrow> ca_ContentBlockIndex s \<le> n \<Longrightarrow> F n = []"
  by (simp add: freshBlocks_def)

lemma heldArgs_mono:
  assumes "heldArgs F A s" and "\<And>n x. blockHolds s n (F n) x \<Longrightarrow> blockHolds s' n (F' n) x"
    and "ca_toolAnnounced s' = ca_toolAnnounced s" and "ca_toolBlockIndex s' = ca_toolBlockIndex s"
    and "ca_pendingToolArgs s' = ca_pendingToolArgs s"
  shows "heldArgs F' A s'"
  using assms unfolding heldArgs_def pendingText_def by metis

text \<open>The triple: \<open>m\<close> keeps the invariant when the upstream sends \<open>a\<close>.\<close>

definition argTr ::
  "(int \<Rightarrow> string) \<Rightarrow> (ChatCompletionsToAnthropicStreamState \<Rightarrow> bool) \<Rightarrow>
   (ChatCompletionsToAnthropicStreamState \<Rightarrow> c2a_result) \<Rightarrow> (ChatCompletionsToAnthropicStreamState \<Rightarrow> bool) \<Rightarrow> bool" where
  "argTr a P m Q \<longleftrightarrow> (\<forall>F A s. argInv F A s \<longrightarrow> P s \<longrightarrow>
     argInv (\<lambda>n. F n @ recv (fst (m s)) n) (\<lambda>i. A i @ a i) (snd (m s)) \<and> Q (snd (m s)))"

lemma argTr_seqE:
  assumes "argTr a P m Q" and "\<And>t. argTr b Q (f t) R"
  shows "argTr (\<lambda>i. a i @ b i) P (\<lambda>s. seqE (m s) (f s)) R"
  unfolding argTr_def
proof (intro allI impI)
  fix F A s assume "argInv F A s" "P s"
  with assms(1) have "argInv (\<lambda>n. F n @ recv (fst (m s)) n) (\<lambda>i. A i @ a i) (snd (m s))" "Q (snd (m s))"
    by (simp_all add: argTr_def)
  with assms(2) [of s, unfolded argTr_def, rule_format, OF this]
  show "argInv (\<lambda>n. F n @ recv (fst (seqE (m s) (f s))) n) (\<lambda>i. A i @ (a i @ b i)) (snd (seqE (m s) (f s)))
      \<and> R (snd (seqE (m s) (f s)))"
    by simp
qed

lemma argTr_close: "argTr (\<lambda>_. []) (\<lambda>_. True) closeCCAnthropicBlock (\<lambda>s. \<not> ca_ContentBlockOpen s)"
  unfolding argTr_def
proof (intro allI impI conjI)
  fix F A s assume inv: "argInv F A s"
  let ?r = "closeCCAnthropicBlock s"
  show "\<not> ca_ContentBlockOpen (snd ?r)"
    by (simp add: closeCCAnthropicBlock_def Let_def)
  show "argInv (\<lambda>n. F n @ recv (fst ?r) n) (\<lambda>i. A i @ []) (snd ?r)"
  proof (cases "ca_ContentBlockOpen s")
    case True
    have "heldArgs (\<lambda>n. F n @ recv (fst ?r) n) A (snd ?r)"
    proof (rule heldArgs_mono)
      show "heldArgs F A s" using inv by (simp add: argInv_def)
      show "blockHolds (snd ?r) n (F n @ recv (fst ?r) n) x" if "blockHolds s n (F n) x" for n x
        using that True by (auto simp: blockHolds_def closeCCAnthropicBlock_def Let_def split: if_splits)
    qed (simp_all add: closeCCAnthropicBlock_def Let_def)
    moreover have "freshBlocks (\<lambda>n. F n @ recv (fst ?r) n) (snd ?r)"
      unfolding freshBlocks_def
    proof (intro allI impI disjI2)
      fix n assume "ca_ContentBlockIndex (snd ?r) \<le> n"
      with True have n: "ca_ContentBlockIndex s < n" by (simp add: closeCCAnthropicBlock_def Let_def)
      moreover from inv have "freshBlocks F s" by (simp add: argInv_def)
      ultimately have "F n = []" by (blast intro: freshBlocks_above)
      with n show "F n @ recv (fst ?r) n = []" by (simp add: closeCCAnthropicBlock_def Let_def)
    qed
    moreover have "toolsDistinct (snd ?r)" and "pendingKeys (snd ?r)"
      using inv by (simp_all add: argInv_def toolsDistinct_def pendingKeys_def closeCCAnthropicBlock_def Let_def)
    ultimately show ?thesis by (simp add: argInv_def)
  qed (use inv in \<open>simp add: closeCCAnthropicBlock_def\<close>)
qed

lemma argTr_skip: "(\<And>s. P s \<Longrightarrow> Q s) \<Longrightarrow> argTr (\<lambda>_. []) P (Pair []) Q"
  by (simp add: argTr_def)

lemma argTr_if:
  assumes "argTr a (\<lambda>s. P s \<and> b s) m Q" and "argTr a (\<lambda>s. P s \<and> \<not> b s) m' Q"
  shows "argTr a P (\<lambda>s. if b s then m s else m' s) Q"
  using assms by (simp add: argTr_def)

lemma argTr_weaken:
  "argTr a (\<lambda>_. True) m Q \<Longrightarrow> argTr a P m Q" "argTr a P m Q \<Longrightarrow> argTr a P m (\<lambda>_. True)"
  "argTr a P m Q \<Longrightarrow> argTr a (\<lambda>s. P s \<and> b s) m Q"
  by (simp_all add: argTr_def)

text \<open>Steps that send no arguments and do not touch what the invariant reads.\<close>

definition sameTools :: "ChatCompletionsToAnthropicStreamState \<Rightarrow> ChatCompletionsToAnthropicStreamState \<Rightarrow> bool" where
  "sameTools s s' \<longleftrightarrow> ca_ContentBlockIndex s' = ca_ContentBlockIndex s \<and> ca_toolAnnounced s' = ca_toolAnnounced s \<and>
     ca_toolBlockIndex s' = ca_toolBlockIndex s \<and> ca_pendingToolCallID s' = ca_pendingToolCallID s \<and>
     ca_pendingToolArgs s' = ca_pendingToolArgs s \<and>
     (\<not> ca_ContentBlockOpen s \<or> ca_ContentBlockOpen s' \<and> ca_CurrentBlockType s' = ca_CurrentBlockType s \<and>
        ca_CurrentToolHadDelta s' = ca_CurrentToolHadDelta s)"

lemma argInv_sameTools: "argInv F A s \<Longrightarrow> sameTools s s' \<Longrightarrow> argInv F A s'"
  unfolding argInv_def
  by (auto simp: sameTools_def freshBlocks_def toolsDistinct_def pendingKeys_def blockHolds_def elim!: heldArgs_mono)

lemma argTr_frame:
  assumes "\<And>s. P s \<Longrightarrow> Q (snd (m s)) \<and> sameTools s (snd (m s)) \<and> (\<forall>n. recv (fst (m s)) n = [])"
  shows "argTr (\<lambda>_. []) P m Q"
  using assms by (auto simp: argTr_def intro: argInv_sameTools)

lemma argTr_run:
  assumes "\<And>e. argTr (a e) (\<lambda>_. True) (f e) (\<lambda>_. True)"
  shows "argTr (\<lambda>i. concat (map (\<lambda>e. a e i) es)) (\<lambda>_. True) (run_machine f es) (\<lambda>_. True)"
proof (induction es)
  case Nil
  show ?case by (simp add: argTr_def)
next
  case (Cons e es)
  from argTr_seqE [OF assms [of e] this] show ?case by (simp add: run_machine_seqE)
qed

lemma argTr_openBlock: "t \<noteq> ''tool_use'' \<Longrightarrow> argTr (\<lambda>_. []) (\<lambda>_. True) (openCCBlock t) (\<lambda>_. True)"
  unfolding openCCBlock_def [abs_def]
  by (rule argTr_if, rule argTr_skip, simp, rule argTr_seqE [where a = "\<lambda>_. []" and b = "\<lambda>_. []", simplified],
      rule argTr_weaken(1), rule argTr_close) (rule argTr_frame, simp add: sameTools_def)

lemma argTr_closeIf: "argTr (\<lambda>_. []) (\<lambda>_. True) (closeCCAnthropicBlockIfOpen t) (\<lambda>_. True)"
  unfolding closeCCAnthropicBlockIfOpen_def [abs_def]
  by (rule argTr_if, rule argTr_skip, simp, rule argTr_weaken(1), rule argTr_weaken(2), rule argTr_close)

text \<open>Announcing a call: its block is new, and takes what was pending.\<close>

lemma announce_eff:
  fixes idx callID name s
  defines "r \<equiv> announceCCAnthropicToolBlock idx callID name s"
  shows "recv (fst r) n = (if n = ca_ContentBlockIndex s then pendingText s idx else [])"
    and "ca_ContentBlockIndex (snd r) = ca_ContentBlockIndex s" and "ca_ContentBlockOpen (snd r)"
    and "ca_CurrentBlockType (snd r) = ''tool_use''" and "ca_CurrentToolHadDelta (snd r) = (pendingText s idx \<noteq> [])"
    and "ca_toolAnnounced (snd r) = (ca_toolAnnounced s)(idx \<mapsto> True)"
    and "ca_toolBlockIndex (snd r) = (ca_toolBlockIndex s)(idx \<mapsto> ca_ContentBlockIndex s)"
    and "ca_pendingToolCallID (snd r) = AList.delete idx (ca_pendingToolCallID s)"
    and "i \<noteq> idx \<Longrightarrow> pendingText (snd r) i = pendingText s i"
  by (simp_all add: r_def announceCCAnthropicToolBlock_def Let_def pendingText_def)

lemma heldArgsD:
  assumes "heldArgs F A s" and "ca_toolAnnounced s i = Some True"
  obtains n where "ca_toolBlockIndex s i = Some n" and "blockHolds s n (F n) (A i)"
  using assms by (auto simp: heldArgs_def)

lemma argInv_announce:
  fixes idx callID name s
  defines "r \<equiv> announceCCAnthropicToolBlock idx callID name s"
  assumes inv: "argInv F A s" and closed: "\<not> ca_ContentBlockOpen s" and new: "ca_toolAnnounced s idx \<noteq> Some True"
  shows "argInv (\<lambda>n. F n @ recv (fst r) n) A (snd r)"
proof -
  note eff = announce_eff [where idx = idx and callID = callID and name = name and s = s, folded r_def]
  let ?cur = "ca_ContentBlockIndex s"
  from inv have fresh: "freshBlocks F s" and dist: "toolsDistinct s" and keys: "pendingKeys s" and held: "heldArgs F A s"
    by (simp_all add: argInv_def)
  note empty = freshBlocks_closed [OF fresh closed]
  have others: "\<exists>n. ca_toolBlockIndex s i = Some n \<and> n < ?cur \<and> blockHolds s n (F n) (A i)"
    if "ca_toolAnnounced s i = Some True" for i
    by (rule heldArgsD [OF held that]) (use closed in \<open>auto simp: blockHolds_def split: if_splits\<close>)
  have "freshBlocks (\<lambda>n. F n @ recv (fst r) n) (snd r)"
    unfolding freshBlocks_def by (auto simp: eff empty)
  moreover have "toolsDistinct (snd r)"
  proof -
    have "ca_toolBlockIndex s i \<noteq> Some ?cur" "Some ?cur \<noteq> ca_toolBlockIndex s i"
      if "ca_toolAnnounced s i = Some True" for i
      using others [OF that] by auto
    with dist show ?thesis
      unfolding toolsDistinct_def eff by (auto split: if_splits)
  qed
  moreover have "fst ` set (AList.delete idx (ca_pendingToolCallID s)) = fst ` set (ca_pendingToolCallID s) - {idx}"
    by (metis delete_keys set_map set_removeAll)
  then have "pendingKeys (snd r)"
    using keys by (simp add: pendingKeys_def eff distinct_delete)
  moreover have "heldArgs (\<lambda>n. F n @ recv (fst r) n) A (snd r)"
    unfolding heldArgs_def
  proof (intro allI conjI impI)
    fix i assume ann: "ca_toolAnnounced (snd r) i = Some True"
    show "\<exists>n. ca_toolBlockIndex (snd r) i = Some n \<and> blockHolds (snd r) n (F n @ recv (fst r) n) (A i)"
    proof (cases "i = idx")
      case True
      from held new have "pendingText s idx = A idx" by (simp add: heldArgs_def)
      with True show ?thesis by (simp add: eff blockHolds_def empty)
    next
      case False
      with ann have "ca_toolAnnounced s i = Some True" by (simp add: eff)
      with others obtain n where n: "ca_toolBlockIndex s i = Some n" "n < ?cur" "blockHolds s n (F n) (A i)" by blast
      then have "blockHolds (snd r) n (F n @ recv (fst r) n) (A i)" by (simp add: eff blockHolds_def)
      with n(1) False show ?thesis by (simp add: eff)
    qed
  qed (use held in \<open>auto simp: heldArgs_def eff split: if_splits\<close>)
  ultimately show ?thesis by (simp add: argInv_def)
qed

lemma argTr_announce:
  "argTr (\<lambda>_. []) (\<lambda>s. \<not> ca_ContentBlockOpen s \<and> ca_toolAnnounced s idx \<noteq> Some True)
     (announceCCAnthropicToolBlock idx callID name) (\<lambda>s. ca_toolAnnounced s idx \<noteq> None)"
  unfolding argTr_def by (auto intro: argInv_announce simp: announce_eff(6) simp del: recv_simps)

lemma argTr_arguments:
  "argTr (\<lambda>i. if i = idx then arguments else []) (\<lambda>s. ca_toolAnnounced s idx \<noteq> None)
     (ccToolCallArguments idx arguments) (\<lambda>_. True)"
  unfolding argTr_def
proof (intro allI impI conjI TrueI)
  fix F A s assume inv: "argInv F A s" and seen: "ca_toolAnnounced s idx \<noteq> None"
  let ?r = "ccToolCallArguments idx arguments s"
  let ?A = "\<lambda>i. A i @ (if i = idx then arguments else [])"
  let ?F = "\<lambda>n. F n @ recv (fst ?r) n"
  from inv have fresh: "freshBlocks F s" and dist: "toolsDistinct s" and keys: "pendingKeys s" and held: "heldArgs F A s"
    by (simp_all add: argInv_def)
  consider "arguments = []" | n where "arguments \<noteq> []" "ca_toolAnnounced s idx = Some True" "ca_toolBlockIndex s idx = Some n"
      "blockHolds s n (F n) (A idx)" | "arguments \<noteq> []" "ca_toolAnnounced s idx = Some False"
    using seen heldArgsD [OF held, of idx] by (metis (full_types) not_None_eq)
  then show "argInv ?F ?A (snd ?r)"
  proof cases
    case 1
    then have "?A = A" by auto
    with 1 inv show ?thesis by (simp add: ccToolCallArguments_def)
  next
    case (2 n)
    have r: "?r = ([blockDelta n (inputJSONDelta arguments)],
        if ca_ContentBlockOpen s \<and> n = ca_ContentBlockIndex s then s\<lparr>ca_CurrentToolHadDelta := True\<rparr> else s)"
      using 2 by (simp add: ccToolCallArguments_def)
    have other: "blockHolds (snd ?r) m (?F m) (?A i)"
      if "i \<noteq> idx" "ca_toolBlockIndex s i = Some m" "ca_toolAnnounced s i = Some True" "blockHolds s m (F m) (A i)" for i m
    proof -
      have "m \<noteq> n" using dist that 2 unfolding toolsDistinct_def by metis
      with that show ?thesis by (auto simp: r blockHolds_def split: if_splits)
    qed
    have this_one: "blockHolds (snd ?r) n (?F n) (?A idx)"
      using 2 by (auto simp: r blockHolds_def split: if_splits)
    have "heldArgs ?F ?A (snd ?r)"
      unfolding heldArgs_def
    proof (intro allI conjI impI)
      fix i assume ann: "ca_toolAnnounced (snd ?r) i = Some True"
      then have ann': "ca_toolAnnounced s i = Some True" by (simp add: r split: if_splits)
      obtain m where m: "ca_toolBlockIndex s i = Some m" "blockHolds s m (F m) (A i)"
        using heldArgsD [OF held ann'] by blast
      have "ca_toolBlockIndex (snd ?r) i = Some m" using m(1) by (simp add: r)
      moreover have "blockHolds (snd ?r) m (?F m) (?A i)"
        using this_one other [OF _ m(1) ann' m(2)] 2(3) m(1) by (cases "i = idx") auto
      ultimately show "\<exists>n. ca_toolBlockIndex (snd ?r) i = Some n \<and> blockHolds (snd ?r) n (?F n) (?A i)" by blast
    qed (use held 2 in \<open>auto simp: heldArgs_def r pendingText_def split: if_splits\<close>)
    moreover have "freshBlocks ?F (snd ?r)"
      using fresh 2(4) unfolding freshBlocks_def by (auto simp: r blockHolds_def split: if_splits)
    moreover have "toolsDistinct (snd ?r)" and "pendingKeys (snd ?r)"
      using dist keys by (simp_all add: r toolsDistinct_def pendingKeys_def)
    ultimately show ?thesis by (simp add: argInv_def)
  next
    case 3
    then have r: "?r = ([], s\<lparr>ca_pendingToolArgs := (ca_pendingToolArgs s)(idx \<mapsto> pendingText s idx @ arguments)\<rparr>)"
      by (simp add: ccToolCallArguments_def pendingText_def)
    have [simp]: "blockHolds (s\<lparr>ca_pendingToolArgs := p\<rparr>) = blockHolds s" for p
      by (intro ext) (simp add: blockHolds_def)
    have "heldArgs F ?A (snd ?r)"
      using held 3 by (auto simp: r heldArgs_def pendingText_def)
    moreover have "freshBlocks F (snd ?r)" and "toolsDistinct (snd ?r)" and "pendingKeys (snd ?r)"
      using fresh dist keys by (simp_all add: r freshBlocks_def toolsDistinct_def pendingKeys_def)
    ultimately show ?thesis by (simp add: argInv_def r)
  qed
qed

text \<open>The handlers.\<close>

lemma close_announced [simp]: "ca_toolAnnounced (snd (closeCCAnthropicBlock s)) = ca_toolAnnounced s"
  by (simp add: closeCCAnthropicBlock_def Let_def)

lemma argTr_silent_then:
  assumes "argTr (\<lambda>_. []) P m Q" and "\<And>t. argTr a Q (f t) R"
  shows "argTr a P (\<lambda>s. seqE (m s) (f s)) R"
  using argTr_seqE [OF assms] by simp

lemma argTr_then_silent:
  assumes "argTr a P m Q" and "\<And>t. argTr (\<lambda>_. []) Q (f t) R"
  shows "argTr a P (\<lambda>s. seqE (m s) (f s)) R"
  using argTr_seqE [OF assms] by simp

lemma argTr_close_new:
  "argTr (\<lambda>_. []) (\<lambda>s. ca_toolAnnounced s idx = x) closeCCAnthropicBlock
     (\<lambda>s. \<not> ca_ContentBlockOpen s \<and> ca_toolAnnounced s idx = x)"
  using argTr_close by (simp add: argTr_def)

lemma argTr_first:
  "argTr (\<lambda>_. []) (\<lambda>s. \<not> ca_ContentBlockOpen s \<and> ca_toolAnnounced s idx = None)
     (\<lambda>state. if name \<noteq> [] then announceCCAnthropicToolBlock idx callID name (state\<lparr>ca_HasToolCall := True\<rparr>)
        else ([], state\<lparr>ca_HasToolCall := True, ca_toolAnnounced := (ca_toolAnnounced state)(idx \<mapsto> False),
               ca_pendingToolCallID := AList.update idx callID (ca_pendingToolCallID state)\<rparr>))
     (\<lambda>s. ca_toolAnnounced s idx \<noteq> None)"
  unfolding argTr_def
proof (intro allI impI)
  fix F A s assume inv: "argInv F A s" and new: "\<not> ca_ContentBlockOpen s \<and> ca_toolAnnounced s idx = None"
  have same: "argInv F A (s\<lparr>ca_HasToolCall := True\<rparr>)"
    by (rule argInv_sameTools [OF inv]) (simp add: sameTools_def)
  let ?s = "s\<lparr>ca_HasToolCall := True, ca_toolAnnounced := (ca_toolAnnounced s)(idx \<mapsto> False),
     ca_pendingToolCallID := AList.update idx callID (ca_pendingToolCallID s)\<rparr>"
  have holds: "blockHolds ?s = blockHolds s" by (intro ext) (simp add: blockHolds_def)
  from inv have fresh: "freshBlocks F s" and dist: "toolsDistinct s" and keys: "pendingKeys s" and held: "heldArgs F A s"
    by (simp_all add: argInv_def)
  have "heldArgs F A ?s"
    using held new unfolding heldArgs_def holds by (simp add: pendingText_def)
  moreover have "toolsDistinct ?s" using dist by (simp add: toolsDistinct_def)
  moreover have "pendingKeys ?s" using keys by (simp add: pendingKeys_def dom_update distinct_update)
  moreover have "freshBlocks F ?s" using fresh by (simp add: freshBlocks_def)
  ultimately have "argInv F A ?s" by (simp add: argInv_def)
  with argTr_announce [of idx callID name, unfolded argTr_def, rule_format, OF same] new
  show "argInv (\<lambda>n. F n @ recv (fst (if name \<noteq> [] then announceCCAnthropicToolBlock idx callID name (s\<lparr>ca_HasToolCall := True\<rparr>)
        else ([], ?s))) n) (\<lambda>i. A i @ []) (snd (if name \<noteq> [] then announceCCAnthropicToolBlock idx callID name (s\<lparr>ca_HasToolCall := True\<rparr>)
        else ([], ?s))) \<and> ca_toolAnnounced (snd (if name \<noteq> [] then announceCCAnthropicToolBlock idx callID name (s\<lparr>ca_HasToolCall := True\<rparr>)
        else ([], ?s))) idx \<noteq> None"
    by auto
qed

lemma argTr_announceCall:
  "argTr (\<lambda>_. []) (\<lambda>_. True) (ccAnnounceToolCall itemID idx toolCall) (\<lambda>s. ca_toolAnnounced s idx \<noteq> None)"
proof -
  let ?name = "cfc_Name (ctc_Function toolCall)"
  let ?id = "if ctc_ID toolCall = [] then itemID idx else ctc_ID toolCall"
  have "argTr (\<lambda>_. []) (\<lambda>_. True) (\<lambda>state. if ca_toolAnnounced state idx = None then seqE (closeCCAnthropicBlock state) f
     else if ca_toolAnnounced state idx = Some False \<and> ?name \<noteq> [] then seqE (closeCCAnthropicBlock state) (g state)
     else ([], state)) (\<lambda>s. ca_toolAnnounced s idx \<noteq> None)"
    if f: "argTr (\<lambda>_. []) (\<lambda>s. \<not> ca_ContentBlockOpen s \<and> ca_toolAnnounced s idx = None) f (\<lambda>s. ca_toolAnnounced s idx \<noteq> None)"
      and g: "\<And>t. argTr (\<lambda>_. []) (\<lambda>s. \<not> ca_ContentBlockOpen s \<and> ca_toolAnnounced s idx \<noteq> Some True) (g t)
        (\<lambda>s. ca_toolAnnounced s idx \<noteq> None)" for f g
  proof -
    have "argTr (\<lambda>_. []) (\<lambda>s. ca_toolAnnounced s idx = None) (\<lambda>s. seqE (closeCCAnthropicBlock s) f)
        (\<lambda>s. ca_toolAnnounced s idx \<noteq> None)"
      by (rule argTr_silent_then [OF argTr_close_new f])
    moreover have "argTr (\<lambda>_. []) (\<lambda>s. ca_toolAnnounced s idx = Some False) (\<lambda>s. seqE (closeCCAnthropicBlock s) (g s))
        (\<lambda>s. ca_toolAnnounced s idx \<noteq> None)"
      by (rule argTr_silent_then [OF argTr_close_new]) (use g in \<open>simp add: argTr_def\<close>)
    ultimately show ?thesis by (simp add: argTr_def)
  qed
  from this [OF argTr_first [where name = ?name and callID = ?id],
    where g = "\<lambda>state. announceCCAnthropicToolBlock idx (if ctc_ID toolCall \<noteq> [] then ctc_ID toolCall
      else case map_of (ca_pendingToolCallID state) idx of None \<Rightarrow> [] | Some i \<Rightarrow> i) ?name", OF argTr_announce]
  show ?thesis
    by (simp add: ccAnnounceToolCall_def [abs_def] Let_def split del: if_split cong: if_cong)
qed

lemma argTr_toolCall: "argTr (argOf tc) (\<lambda>_. True) (handleCCAnthropicToolCall itemID tc) (\<lambda>_. True)"
proof -
  have "argOf tc = (\<lambda>i. if i = callIdx tc then cfc_Arguments (ctc_Function tc) else [])"
    by (simp add: fun_eq_iff argOf_def)
  then show ?thesis
    unfolding handleCCAnthropicToolCall_def [abs_def] Let_def callIdx_def [symmetric]
    by (simp only:) (rule argTr_silent_then [OF argTr_announceCall argTr_arguments])
qed

lemma argTr_delta: "ad_Type d \<noteq> ''input_json_delta'' \<Longrightarrow> argTr (\<lambda>_. []) (\<lambda>_. True) (ccAnthropicDelta d) (\<lambda>_. True)"
  by (rule argTr_frame) (simp add: ccAnthropicDelta_def sameTools_def anthArgs_def blockDelta_def zeroAnthropicStreamEvent_def)

lemma argTr_choice:
  "argTr (argsFor (cd_ToolCalls (cck_Delta c))) (\<lambda>_. True) (handleChoice itemID c) (\<lambda>_. True)"
proof -
  have block: "argTr (\<lambda>_. []) (\<lambda>_. True) (\<lambda>s. seqE (openCCBlock t s) (ccAnthropicDelta d)) (\<lambda>_. True)"
    if "t \<noteq> ''tool_use''" "ad_Type d \<noteq> ''input_json_delta''" for t d
    by (rule argTr_silent_then [OF argTr_openBlock [OF that(1)] argTr_delta [OF that(2)]])
  have block': "argTr (\<lambda>_. []) (\<lambda>_. True) (\<lambda>s. seqE (seqE (closeCCAnthropicBlockIfOpen t' s) (openCCBlock t)) (ccAnthropicDelta d)) (\<lambda>_. True)"
    if "t \<noteq> ''tool_use''" "ad_Type d \<noteq> ''input_json_delta''" for t t' d
    by (rule argTr_silent_then [OF argTr_silent_then [OF argTr_closeIf argTr_openBlock [OF that(1)]] argTr_delta [OF that(2)]])
  have optional: "argTr (\<lambda>_. []) (\<lambda>_. True) (\<lambda>s. if b then ([], s) else m s) (\<lambda>_. True)"
    if "argTr (\<lambda>_. []) (\<lambda>_. True) m (\<lambda>_. True)" for b m
    using that by (simp add: argTr_def)
  have "argTr (\<lambda>i. concat (map (\<lambda>tc. argOf tc i) tcs)) (\<lambda>_. True)
      (run_machine (\<lambda>tc s. seqE (closeCCAnthropicBlockIfOpen ''thinking'' s) (handleCCAnthropicToolCall itemID tc)) tcs) (\<lambda>_. True)" for tcs
    by (rule argTr_run, rule argTr_silent_then [OF argTr_closeIf argTr_toolCall])
  then have tools: "argTr (argsFor tcs) (\<lambda>_. True)
      (run_machine (\<lambda>tc s. seqE (closeCCAnthropicBlockIfOpen ''thinking'' s) (handleCCAnthropicToolCall itemID tc)) tcs) (\<lambda>_. True)" for tcs
    by (simp add: argsFor_def [abs_def])
  have finish: "argTr (\<lambda>_. []) (\<lambda>_. True) (\<lambda>s. ([], if b then s else s\<lparr>ca_FinishReason := x\<rparr>)) (\<lambda>_. True)" for b x
    by (rule argTr_frame) (simp add: sameTools_def)
  show ?thesis
    unfolding handleChoice_def [abs_def] Let_def ensureCCAnthropicThinkingBlock_def ensureCCAnthropicTextBlock_def
    by (intro argTr_then_silent [OF _ finish] argTr_silent_then [OF argTr_silent_then [OF optional optional] tools] block block')
       (simp_all add: zero_defs)
qed

lemma argTr_chunk:
  "argTr (argsFor (toolCallsOf chunk)) (\<lambda>_. True) (ChatCompletionsChunkToAnthropicEvents itemID chunk) (\<lambda>_. True)"
proof -
  have "argTr (argsFor (toolCallsOf chunk)) (\<lambda>_. True)
      (\<lambda>s. seqE (ensureCCAnthropicMessageStart s) (run_machine (handleChoice itemID) (ccc_Choices chunk))) (\<lambda>_. True)"
  proof (rule argTr_silent_then)
    show "argTr (\<lambda>_. []) (\<lambda>_. True) ensureCCAnthropicMessageStart (\<lambda>_. True)"
      by (rule argTr_frame)
         (simp add: ensureCCAnthropicMessageStart_def sameTools_def anthArgs_def zeroAnthropicStreamEvent_def)
    have "argsFor (toolCallsOf chunk) = (\<lambda>i. concat (map (\<lambda>c. argsFor (cd_ToolCalls (cck_Delta c)) i) (ccc_Choices chunk)))"
      by (simp add: argsFor_def toolCallsOf_def concat_map_concat fun_eq_iff)
    then show "argTr (argsFor (toolCallsOf chunk)) (\<lambda>_. True) (run_machine (handleChoice itemID) (ccc_Choices chunk)) (\<lambda>_. True)"
      using argTr_run [OF argTr_choice] by simp
  qed
  then show ?thesis
    using argInv_sameTools [of _ _ _ "ccNoteChunk chunk _"]
    unfolding ChatCompletionsChunkToAnthropicEvents_def argTr_def by (simp add: sameTools_def)
qed

text \<open>Every call an upstream has mentioned is known.\<close>

abbreviation knownCalls :: "c2a_result \<Rightarrow> int set" where
  "knownCalls r \<equiv> dom (ca_toolAnnounced (snd r))"

lemma known_closeIf [simp]: "ca_toolAnnounced (snd (closeCCAnthropicBlockIfOpen t s)) = ca_toolAnnounced s"
  by (simp add: closeCCAnthropicBlockIfOpen_def)

lemma known_openBlock [simp]: "ca_toolAnnounced (snd (openCCBlock t s)) = ca_toolAnnounced s"
  by (simp add: openCCBlock_def)

lemma known_delta [simp]: "snd (ccAnthropicDelta d s) = s"
  by (simp add: ccAnthropicDelta_def)

lemma known_start [simp]: "ca_toolAnnounced (snd (ensureCCAnthropicMessageStart s)) = ca_toolAnnounced s"
  by (simp add: ensureCCAnthropicMessageStart_def)

lemma known_arguments [simp]: "ca_toolAnnounced (snd (ccToolCallArguments idx a s)) = ca_toolAnnounced s"
  by (simp add: ccToolCallArguments_def Let_def)

lemma known_toolCall: "knownCalls (handleCCAnthropicToolCall itemID tc s) = insert (callIdx tc) (dom (ca_toolAnnounced s))"
  by (auto simp: handleCCAnthropicToolCall_def ccAnnounceToolCall_def announce_eff Let_def callIdx_def [symmetric] split: if_splits)

lemma known_choice:
  "knownCalls (handleChoice itemID c s) = dom (ca_toolAnnounced s) \<union> callIdx ` set (cd_ToolCalls (cck_Delta c))"
proof -
  have "knownCalls (run_machine (\<lambda>tc s. seqE (closeCCAnthropicBlockIfOpen ''thinking'' s) (handleCCAnthropicToolCall itemID tc)) tcs t)
      = dom (ca_toolAnnounced t) \<union> (\<Union>tc \<in> set tcs. {callIdx tc})" for tcs t
    by (rule run_machine_collect) (simp add: known_toolCall)
  then show ?thesis
    by (simp add: handleChoice_def Let_def ensureCCAnthropicThinkingBlock_def ensureCCAnthropicTextBlock_def UNION_singleton_eq_range)
qed

lemma known_chunk:
  "knownCalls (ChatCompletionsChunkToAnthropicEvents itemID chunk s)
     = dom (ca_toolAnnounced s) \<union> callIdx ` set (toolCallsOf chunk)"
proof -
  have "knownCalls (run_machine (handleChoice itemID) cs t)
      = dom (ca_toolAnnounced t) \<union> (\<Union>c \<in> set cs. callIdx ` set (cd_ToolCalls (cck_Delta c)))" for cs t
    by (rule run_machine_collect) (rule known_choice)
  then show ?thesis
    by (auto simp: ChatCompletionsChunkToAnthropicEvents_def toolCallsOf_def)
qed

text \<open>The finaliser announces every pending call, once each.\<close>

lemma finish_run:
  assumes "argInv F A s" and "distinct idxs" and "\<forall>i \<in> set idxs. ca_toolAnnounced s i = Some False"
    and "r = run_machine (\<lambda>idx state. let callID = callID idx state
           in seqE (closeCCAnthropicBlock state) (announceCCAnthropicToolBlock idx callID [])) idxs s"
  shows "argInv (\<lambda>n. F n @ recv (fst r) n) A (snd r) \<and>
    (\<forall>i. ca_toolAnnounced (snd r) i = (if i \<in> set idxs then Some True else ca_toolAnnounced s i))"
  using assms
proof (induction idxs arbitrary: F s r)
  case (Cons idx idxs)
  let ?c = "closeCCAnthropicBlock s"
  let ?a = "announceCCAnthropicToolBlock idx (callID idx s) [] (snd ?c)"
  note close = argTr_close [unfolded argTr_def, rule_format, OF Cons.prems(1) TrueI]
  have "argInv (\<lambda>n. (F n @ recv (fst ?c) n) @ recv (fst ?a) n) A (snd ?a)"
    using close Cons.prems(3) by (intro argInv_announce) simp_all
  then have a: "argInv (\<lambda>n. F n @ recv (fst ?c @ fst ?a) n) A (snd ?a)" by simp
  have ann: "ca_toolAnnounced (snd ?a) = (ca_toolAnnounced s)(idx \<mapsto> True)" by (simp add: announce_eff)
  let ?r = "run_machine (\<lambda>idx state. let callID = callID idx state
           in seqE (closeCCAnthropicBlock state) (announceCCAnthropicToolBlock idx callID [])) idxs (snd ?a)"
  have r: "fst r = (fst ?c @ fst ?a) @ fst ?r" "snd r = snd ?r"
    using Cons.prems(4) by (simp_all add: Let_def)
  have "argInv (\<lambda>n. (F n @ recv (fst ?c @ fst ?a) n) @ recv (fst ?r) n) A (snd ?r) \<and>
    (\<forall>i. ca_toolAnnounced (snd ?r) i = (if i \<in> set idxs then Some True else ca_toolAnnounced (snd ?a) i))"
    using Cons.prems(2,3) by (intro Cons.IH [OF a _ _ refl]) (auto simp: ann)
  then show ?case by (simp add: r ann)
qed simp_all

lemma finishPending_args:
  assumes "argInv F A s"
  shows "argInv (\<lambda>n. F n @ recv (fst (finishPending s)) n) A (snd (finishPending s))"
    and "ca_toolAnnounced s i \<noteq> None \<Longrightarrow> ca_toolAnnounced (snd (finishPending s)) i = Some True"
proof -
  let ?keys = "sort (map fst (ca_pendingToolCallID s))"
  have keys: "distinct ?keys" "\<forall>i \<in> set ?keys. ca_toolAnnounced s i = Some False"
    "ca_toolAnnounced s j = Some False \<Longrightarrow> j \<in> set ?keys" for j
    using assms by (simp_all add: argInv_def pendingKeys_def)
  note run = finish_run [OF assms keys(1,2) finishPending_def]
  show "argInv (\<lambda>n. F n @ recv (fst (finishPending s)) n) A (snd (finishPending s))" using run by blast
  show "ca_toolAnnounced s i \<noteq> None \<Longrightarrow> ca_toolAnnounced (snd (finishPending s)) i = Some True"
    using keys(3) [of i] by (cases "ca_toolAnnounced s i = Some False") (auto simp: run [THEN conjunct2, rule_format, of i])
qed

lemma finalize_args:
  assumes "argInv F A s" and "\<not> ca_MessageStopSent s" and "r = FinalizeChatCompletionsAnthropicStream s"
  shows "argInv (\<lambda>n. F n @ recv (fst r) n) A (snd r)" and "\<not> ca_ContentBlockOpen (snd r)"
    and "ca_toolAnnounced s i \<noteq> None \<Longrightarrow> ca_toolAnnounced (snd r) i = Some True"
proof -
  let ?m = "ensureCCAnthropicMessageStart s"
  let ?p = "finishPending (snd ?m)"
  let ?c = "closeCCAnthropicBlock (snd ?p)"
  have m: "argInv F A (snd ?m)" "recv (fst ?m) n = []" for n
    using argInv_sameTools [OF assms(1), of "snd ?m"]
    by (simp_all add: ensureCCAnthropicMessageStart_def sameTools_def anthArgs_def zeroAnthropicStreamEvent_def)
  note p = finishPending_args [OF m(1)]
  have c: "argInv (\<lambda>n. F n @ recv (fst ?p) n @ recv (fst ?c) n) A (snd ?c)" "\<not> ca_ContentBlockOpen (snd ?c)"
    using argTr_close [unfolded argTr_def, rule_format, OF p(1) TrueI] by simp_all
  have e: "recv (ccMessageEnd t) n = []" for t n
    by (simp add: ccMessageEnd_def anthArgs_def zero_defs)
  have r: "fst r = fst ?m @ fst ?p @ fst ?c @ ccMessageEnd (snd ?c)" "snd r = (snd ?c)\<lparr>ca_MessageStopSent := True\<rparr>"
    by (simp_all add: assms(3) Finalize_eq [OF assms(2)])
  show "argInv (\<lambda>n. F n @ recv (fst r) n) A (snd r)"
    using argInv_sameTools [OF c(1), of "snd r"] by (simp add: r m e sameTools_def)
  show "\<not> ca_ContentBlockOpen (snd r)" by (simp add: r c)
  show "ca_toolAnnounced s i \<noteq> None \<Longrightarrow> ca_toolAnnounced (snd r) i = Some True"
    using p(2) [of i] by (simp add: r)
qed

lemma chatRun_args:
  assumes "r = chatAnthropicRun itemID responseID created model chunks"
  shows "argInv (recv (fst r)) (argsFor (concat (map toolCallsOf chunks))) (snd r)" and "\<not> ca_ContentBlockOpen (snd r)"
    and "i \<in> callIdx ` set (concat (map toolCallsOf chunks)) \<Longrightarrow> ca_toolAnnounced (snd r) i = Some True"
proof -
  let ?s = "NewChatCompletionsToAnthropicStreamState responseID created model"
  let ?m = "run_machine (ChatCompletionsChunkToAnthropicEvents itemID) chunks ?s"
  have init: "argInv (\<lambda>_. []) (\<lambda>_. []) ?s"
    by (simp add: argInv_def freshBlocks_def toolsDistinct_def pendingKeys_def heldArgs_def pendingText_def
        NewChatCompletionsToAnthropicStreamState_def)
  have sent: "(\<lambda>i. concat (map (\<lambda>c. argsFor (toolCallsOf c) i) chunks)) = argsFor (concat (map toolCallsOf chunks))"
    by (simp add: argsFor_def [abs_def] concat_map_concat)
  have m: "argInv (recv (fst ?m)) (argsFor (concat (map toolCallsOf chunks))) (snd ?m)"
    using argTr_run [where a = "\<lambda>c. argsFor (toolCallsOf c)" and f = "ChatCompletionsChunkToAnthropicEvents itemID"
        and es = chunks, OF argTr_chunk, unfolded argTr_def, rule_format, OF init TrueI]
    by (simp add: sent)
  have "ccInv (snd ?m)"
    by (rule c2a.run_inv) (simp_all add: ccInv_def NewChatCompletionsToAnthropicStreamState_def)
  then have live: "\<not> ca_MessageStopSent (snd ?m)" by (simp add: ccInv_def)
  note f = finalize_args [OF m live refl]
  have r: "fst r = fst ?m @ fst (FinalizeChatCompletionsAnthropicStream (snd ?m))"
      "snd r = snd (FinalizeChatCompletionsAnthropicStream (snd ?m))"
    by (simp_all add: assms chatAnthropicRun_def)
  show "argInv (recv (fst r)) (argsFor (concat (map toolCallsOf chunks))) (snd r)"
    using f(1) by (simp add: r recv_simps(3) [abs_def])
  show "\<not> ca_ContentBlockOpen (snd r)" using f(2) by (simp add: r)
  have "knownCalls ?m = dom (ca_toolAnnounced ?s) \<union> (\<Union>c \<in> set chunks. callIdx ` set (toolCallsOf c))"
    by (rule run_machine_collect) (rule known_chunk)
  then have "i \<in> callIdx ` set (concat (map toolCallsOf chunks)) \<Longrightarrow> i \<in> knownCalls ?m" by auto
  then show "i \<in> callIdx ` set (concat (map toolCallsOf chunks)) \<Longrightarrow> ca_toolAnnounced (snd r) i = Some True"
    using f(3) [of i] unfolding r domIff by blast
qed

text \<open>
  C5: every tool call the upstream mentions, named or not, ends up in a content block of its own,
  and the client receives for that block exactly the increments the upstream sent for the call, in
  order, over all choices and chunks; no increment is lost, duplicated or attributed to another
  call, whether it arrived before the call's name, after other calls were announced, or the stream
  broke off.  The one deviation is the placeholder \<open>{}\<close>, which precedes the increments when the
  block had been closed before the first of them (and stands alone when there were none).
\<close>

theorem chatAnthropicStream_arguments:
  assumes "r = chatAnthropicRun itemID responseID created model chunks"
    and "calls = concat (map toolCallsOf chunks)" and "idx \<in> callIdx ` set calls"
  shows "\<exists>n. ca_toolBlockIndex (snd r) idx = Some n \<and>
    (recv (fst r) n = argsFor calls idx \<and> argsFor calls idx \<noteq> [] \<or> recv (fst r) n = ''{}'' @ argsFor calls idx) \<and>
    (\<forall>idx' \<in> callIdx ` set calls. ca_toolBlockIndex (snd r) idx' = Some n \<longrightarrow> idx' = idx)"
proof -
  note run = chatRun_args [OF assms(1), folded assms(2)]
  from run(1) have dist: "toolsDistinct (snd r)" and held: "heldArgs (recv (fst r)) (argsFor calls) (snd r)"
    by (simp_all add: argInv_def)
  from heldArgsD [OF held run(3) [OF assms(3)]] obtain n
    where n: "ca_toolBlockIndex (snd r) idx = Some n" "blockHolds (snd r) n (recv (fst r) n) (argsFor calls idx)"
    by blast
  have "\<forall>idx' \<in> callIdx ` set calls. ca_toolBlockIndex (snd r) idx' = Some n \<longrightarrow> idx' = idx"
    using dist run(3) run(3) [OF assms(3)] n(1) unfolding toolsDistinct_def by metis
  with n run(2) show ?thesis by (auto simp: blockHolds_def split: if_splits)
qed

section \<open>Instances\<close>

lemma toolChunk_calls [simp]:
  "toolCallsOf (toolChunk idx name arguments) =
     [\<lparr>ctc_Index = Some idx, ctc_ID = ''call_1'', ctc_Type = ''function'',
       ctc_Function = \<lparr>cfc_Name = name, cfc_Arguments = arguments\<rparr>\<rparr>]"
  by (simp add: toolCallsOf_def toolChunk_def zeroChatDelta_def)

text \<open>A call whose name arrives after its first increment.\<close>

theorem chatAnthropicStream_arguments_witness:
  "\<exists>n. ca_toolBlockIndex (snd (chatAnthropicRun (\<lambda>_. []) [] 0 [] [toolChunk 3 [] ''{'', toolChunk 3 ''ls'' ''}''])) 3 = Some n"
  using chatAnthropicStream_arguments [OF refl refl, where idx = 3
      and chunks = "[toolChunk 3 [] ''{'', toolChunk 3 ''ls'' ''}'']"
      and itemID = "\<lambda>_. []" and responseID = "[]" and created = 0 and model = "[]"]
  by (auto simp: callIdx_def)

text \<open>
  The placeholder does reach the client in front of real arguments: upstream announces two calls and
  then sends the first one's arguments.  The client's accumulated input of that block is not JSON.
\<close>

lemma interleaved_calls_placeholder:
  "recv (chatAnthropicStream (\<lambda>_. []) [] 0 []
     [toolChunk 0 ''ls'' [], toolChunk 1 ''cat'' [], toolChunk 0 [] ''{ }'']) 0 = ''{}{ }''"
  by (simp add: chatAnthropicStream_def chatAnthropicRun_def ChatCompletionsChunkToAnthropicEvents_def
      NewChatCompletionsToAnthropicStreamState_def ccNoteChunk_def toolChunk_def zeroChatDelta_def
      ensureCCAnthropicMessageStart_def handleChoice_def deltaReasoningText_def closeCCAnthropicBlockIfOpen_def
      handleCCAnthropicToolCall_def ccAnnounceToolCall_def ccToolCallArguments_def closeCCAnthropicBlock_def
      announceCCAnthropicToolBlock_def Finalize_eq finishPending_def ccMessageEnd_def anthArgs_def
      blockStart_def blockDelta_def blockStop_def inputJSONDelta_def zeroAnthropicStreamEvent_def zeroAnthropicDelta_def Let_def)

end
