(* ===== verification/Chat_To_Responses_Stream.thy ===== *)
theory Chat_To_Responses_Stream
  imports Chat_To_Responses
begin

text \<open>
  What a Responses client may rely on in the stream the gateway makes of a Chat Completions stream:
  a specification automaton over the emitted events, the relation between its states and those of
  the translator, and the simulation.

  Several output items can be open at once here (the reasoning, the message and every tool call), so
  the automaton keeps the open items by output index, and the relation goes through \<open>slots\<close>: the
  places of the stream state that can hold an item.
\<close>

section \<open>The specification\<close>

record item_stream =
  is_seq :: int
  is_created :: bool
  is_open :: "(int \<times> string \<times> string) list"
  is_done :: "int list"
  is_over :: bool

definition newItemStream :: item_stream where
  "newItemStream = \<lparr>is_seq = 0, is_created = False, is_open = [], is_done = [], is_over = False\<rparr>"

text \<open>The events that may occur inside an open item of a type.\<close>

definition partEvents :: "string \<Rightarrow> string list" where
  "partEvents t =
     (if t = ''reasoning'' then
        [''response.reasoning_summary_part.added'', ''response.reasoning_summary_text.delta'',
         ''response.reasoning_summary_text.done'', ''response.reasoning_summary_part.done'']
      else if t = ''message'' then
        [''response.content_part.added'', ''response.output_text.delta'', ''response.output_text.done'',
         ''response.content_part.done'']
      else if t = ''function_call'' then
        [''response.function_call_arguments.delta'', ''response.function_call_arguments.done'']
      else if t = ''custom_tool_call'' then
        [''response.custom_tool_call_input.delta'', ''response.custom_tool_call_input.done'']
      else [])"

definition itemEvent :: "ResponsesStreamEvent \<Rightarrow> item_stream \<Rightarrow> item_stream option" where
  "itemEvent e p =
     (let i = rse_OutputIndex e
      in if rse_Type e = ''response.created'' then
           (if is_created p then None else Some (p\<lparr>is_created := True\<rparr>))
         else if \<not> is_created p then None
         else if rse_Type e = ''response.output_item.added'' then
           (case rse_Item e of
              None \<Rightarrow> None
            | Some item \<Rightarrow>
                if i \<in> set (map fst (is_open p)) \<or> i \<in> set (is_done p) then None
                else Some (p\<lparr>is_open := (i, ro_ID item, ro_Type item) # is_open p\<rparr>))
         else if rse_Type e = ''response.output_item.done'' then
           (case rse_Item e of
              None \<Rightarrow> None
            | Some item \<Rightarrow>
                if map_of (is_open p) i = Some (ro_ID item, ro_Type item)
                then Some (p\<lparr>is_open := AList.delete i (is_open p), is_done := i # is_done p\<rparr>) else None)
         else if rse_Type e = ''response.completed'' then
           (if is_open p = [] then Some (p\<lparr>is_over := True\<rparr>) else None)
         else
           (case map_of (is_open p) i of
              None \<Rightarrow> None
            | Some (itemID, t) \<Rightarrow>
                if itemID = rse_ItemID e \<and> rse_Type e \<in> set (partEvents t) then Some p else None))"

definition itemSpec :: "item_stream \<Rightarrow> ResponsesStreamEvent \<Rightarrow> item_stream option" where
  "itemSpec p e =
     (if is_over p \<or> rse_SequenceNumber e \<noteq> is_seq p then None
      else itemEvent e (p\<lparr>is_seq := is_seq p + 1\<rparr>))"

section \<open>Slots\<close>

datatype slot = Reasoning_Slot | Message_Slot | Tool_Slot int

record slot_view =
  vw_next :: int
  vw_index :: "slot \<rightharpoonup> int"
  vw_item :: "slot \<Rightarrow> string \<times> string"
  vw_open :: "slot set"
  vw_done :: "slot set"

definition viewed :: "item_stream \<Rightarrow> slot_view \<Rightarrow> bool" where
  "viewed p v \<longleftrightarrow>
     (\<forall>a b i. vw_index v a = Some i \<longrightarrow> vw_index v b = Some i \<longrightarrow> a = b) \<and>
     (\<forall>a i. vw_index v a = Some i \<longrightarrow> i < vw_next v) \<and>
     (\<forall>i x. map_of (is_open p) i = Some x \<longleftrightarrow> (\<exists>a \<in> vw_open v. vw_index v a = Some i \<and> vw_item v a = x)) \<and>
     (\<forall>i \<in> set (is_done p). \<exists>a \<in> vw_done v. vw_index v a = Some i)"

lemma viewedI:
  assumes "\<And>a b i. vw_index v a = Some i \<Longrightarrow> vw_index v b = Some i \<Longrightarrow> a = b"
    and "\<And>a i. vw_index v a = Some i \<Longrightarrow> i < vw_next v"
    and "\<And>i x. map_of (is_open p) i = Some x \<longleftrightarrow> (\<exists>a \<in> vw_open v. vw_index v a = Some i \<and> vw_item v a = x)"
    and "\<And>i. i \<in> set (is_done p) \<Longrightarrow> \<exists>a \<in> vw_done v. vw_index v a = Some i"
  shows "viewed p v"
  unfolding viewed_def using assms by (intro conjI allI ballI impI)

lemma viewed_inj: "viewed p v \<Longrightarrow> vw_index v a = Some i \<Longrightarrow> vw_index v b = Some i \<Longrightarrow> a = b"
  unfolding viewed_def by blast

lemma viewed_less: "viewed p v \<Longrightarrow> vw_index v a = Some i \<Longrightarrow> i < vw_next v"
  unfolding viewed_def by blast

lemma viewed_map:
  "viewed p v \<Longrightarrow> map_of (is_open p) i = Some x \<longleftrightarrow> (\<exists>a \<in> vw_open v. vw_index v a = Some i \<and> vw_item v a = x)"
  unfolding viewed_def by blast

lemma viewed_finished: "viewed p v \<Longrightarrow> i \<in> set (is_done p) \<Longrightarrow> \<exists>a \<in> vw_done v. vw_index v a = Some i"
  unfolding viewed_def by blast

lemma viewed_alloc:
  assumes v: "viewed p v" and "vw_index v a = None" and a: "a \<notin> vw_open v"
    and w: "vw_next w = vw_next v + 1" "vw_index w = (vw_index v)(a \<mapsto> vw_next v)"
      "\<forall>b \<in> vw_open v. vw_item w b = vw_item v b" "vw_open w = vw_open v" "vw_done w = vw_done v"
    and q: "is_open q = is_open p" "is_done q = is_done p"
  shows "viewed q w"
proof (rule viewedI)
  have fresh: "vw_index v b \<noteq> Some (vw_next v)" for b using viewed_less [OF v] by (metis less_irrefl)
  fix b i
  show "b = c" if "vw_index w b = Some i" "vw_index w c = Some i" for c
    using that viewed_inj [OF v] fresh by (simp add: w split: if_splits)
  show "i < vw_next w" if "vw_index w b = Some i"
    using that viewed_less [OF v] by (auto simp: w less_SucI split: if_splits) fastforce
  show "map_of (is_open q) i = Some x \<longleftrightarrow> (\<exists>b \<in> vw_open w. vw_index w b = Some i \<and> vw_item w b = x)" for x
  proof -
    have "map_of (is_open q) i = Some x \<longleftrightarrow> (\<exists>b \<in> vw_open v. vw_index v b = Some i \<and> vw_item v b = x)"
      by (simp add: q viewed_map [OF v])
    also have "\<dots> \<longleftrightarrow> (\<exists>b \<in> vw_open w. vw_index w b = Some i \<and> vw_item w b = x)"
      unfolding w using a w(3) by (intro bex_cong refl) auto
    finally show ?thesis .
  qed
  show "\<exists>b \<in> vw_done w. vw_index w b = Some i" if "i \<in> set (is_done q)"
  proof -
    from that q obtain b where "b \<in> vw_done v" "vw_index v b = Some i" using viewed_finished [OF v, of i] by auto
    with assms(2) show ?thesis unfolding w by (intro bexI [of _ b]) auto
  qed
qed

lemma viewed_cong:
  assumes "viewed p v" and "vw_next w = vw_next v" "vw_index w = vw_index v"
      "\<forall>b \<in> vw_open v. vw_item w b = vw_item v b" "vw_open w = vw_open v" "vw_done w = vw_done v"
    and "is_open q = is_open p" "is_done q = is_done p"
  shows "viewed q w"
  using assms by (simp add: viewed_def)

lemma viewed_opens:
  assumes v: "viewed p v" and "vw_index v a = Some i" and "a \<notin> vw_open v" "a \<notin> vw_done v"
  shows "i \<notin> fst ` set (is_open p)" "i \<notin> set (is_done p)"
proof -
  show "i \<notin> fst ` set (is_open p)"
  proof
    assume "i \<in> fst ` set (is_open p)"
    then obtain x where "map_of (is_open p) i = Some x" by (metis map_of_eq_None_iff not_None_eq)
    then obtain b where "b \<in> vw_open v" "vw_index v b = Some i" using viewed_map [OF v] by blast
    with viewed_inj [OF v assms(2)] assms(3) show False by blast
  qed
  show "i \<notin> set (is_done p)" using viewed_finished [OF v] viewed_inj [OF v assms(2)] assms(4) by blast
qed

lemma viewed_open:
  assumes v: "viewed p v" and i: "vw_index v a = Some i" and "a \<notin> vw_open v" "a \<notin> vw_done v"
    and w: "vw_next w = vw_next v" "vw_index w = vw_index v"
      "\<forall>b \<in> vw_open v. vw_item w b = vw_item v b" "vw_open w = insert a (vw_open v)" "vw_done w = vw_done v"
    and q: "is_open q = (i, vw_item w a) # is_open p" "is_done q = is_done p"
  shows "viewed q w"
proof (rule viewedI)
  fix j
  show "map_of (is_open q) j = Some x \<longleftrightarrow> (\<exists>b \<in> vw_open w. vw_index w b = Some j \<and> vw_item w b = x)" for x
  proof (cases "j = i")
    case True
    then have "map_of (is_open q) j = Some x \<longleftrightarrow> vw_item w a = x" by (simp add: q)
    also have "\<dots> \<longleftrightarrow> (\<exists>b \<in> vw_open w. vw_index w b = Some j \<and> vw_item w b = x)"
      using True i viewed_inj [OF v i] unfolding w by blast
    finally show ?thesis .
  next
    case False
    then have "map_of (is_open q) j = Some x \<longleftrightarrow> (\<exists>b \<in> vw_open v. vw_index v b = Some j \<and> vw_item v b = x)"
      by (simp add: q viewed_map [OF v])
    also have "\<dots> \<longleftrightarrow> (\<exists>b \<in> vw_open w. vw_index w b = Some j \<and> vw_item w b = x)"
      using w i False by auto
    finally show ?thesis .
  qed
qed (use v in \<open>simp_all add: w q, (blast dest: viewed_inj viewed_less viewed_finished)+\<close>)

lemma viewed_inside: "viewed p v \<Longrightarrow> a \<in> vw_open v \<Longrightarrow> vw_index v a = Some i \<Longrightarrow> map_of (is_open p) i = Some (vw_item v a)"
  unfolding viewed_def by blast

lemma viewed_done:
  assumes v: "viewed p v" and "a \<in> vw_open v" and i: "vw_index v a = Some i"
    and w: "vw_next w = vw_next v" "vw_index w = vw_index v"
      "\<forall>b \<in> vw_open v. vw_item w b = vw_item v b" "vw_open w = vw_open v - {a}" "vw_done w = insert a (vw_done v)"
    and q: "is_open q = AList.delete i (is_open p)" "is_done q = i # is_done p"
  shows "viewed q w"
proof (rule viewedI)
  fix j
  show "map_of (is_open q) j = Some x \<longleftrightarrow> (\<exists>b \<in> vw_open w. vw_index w b = Some j \<and> vw_item w b = x)" for x
  proof -
    have "map_of (is_open q) j = Some x \<longleftrightarrow> j \<noteq> i \<and> (\<exists>b \<in> vw_open v. vw_index v b = Some j \<and> vw_item v b = x)"
      by (simp add: q delete_conv' viewed_map [OF v])
    also have "\<dots> \<longleftrightarrow> (\<exists>b \<in> vw_open w. vw_index w b = Some j \<and> vw_item w b = x)"
    proof (cases "j = i")
      case True
      then show ?thesis using viewed_inj [OF v i] unfolding w by blast
    next
      case False
      with i w(3) show ?thesis unfolding w by (auto intro: bexI [rotated])
    qed
    finally show ?thesis .
  qed
  show "\<exists>b \<in> vw_done w. vw_index w b = Some j" if "j \<in> set (is_done q)"
    using that viewed_finished [OF v, of j] i by (auto simp: w q)
qed (unfold w, (erule (1) viewed_inj [OF v] | erule viewed_less [OF v])+)

lemma viewed_over:
  assumes "viewed p v" and "vw_open v = {}"
  shows "is_open p = []"
proof (cases "is_open p")
  case (Cons x xs)
  then have "map_of (is_open p) (fst x) = Some (snd x)" by (cases x) simp
  with viewed_map [OF assms(1)] assms(2) show ?thesis by simp
qed simp

section \<open>The relation with the stream state\<close>

definition toolIndexOf :: "ChatCompletionsToResponsesStreamState \<Rightarrow> int \<Rightarrow> int" where
  "toolIndexOf s k = (case cr_ToolOutputIndex s k of None \<Rightarrow> 0 | Some i \<Rightarrow> i)"

definition toolItemIDOf :: "ChatCompletionsToResponsesStreamState \<Rightarrow> int \<Rightarrow> string" where
  "toolItemIDOf s k = (case cr_ToolItemIDs s k of None \<Rightarrow> [] | Some i \<Rightarrow> i)"

fun slotIndex :: "ChatCompletionsToResponsesStreamState \<Rightarrow> slot \<Rightarrow> int option" where
  "slotIndex s Reasoning_Slot =
     (if cr_ReasoningOpen s \<or> cr_ReasoningDone s then Some (cr_ReasoningIndex s) else None)"
| "slotIndex s Message_Slot = (if cr_MessageItemID s \<noteq> [] then Some (cr_MessageIndex s) else None)"
| "slotIndex s (Tool_Slot k) = cr_ToolOutputIndex s k"

fun slotItem :: "ChatCompletionsToResponsesStreamState \<Rightarrow> slot \<Rightarrow> string \<times> string" where
  "slotItem s Reasoning_Slot = (cr_ReasoningItemID s, ''reasoning'')"
| "slotItem s Message_Slot = (cr_MessageItemID s, ''message'')"
| "slotItem s (Tool_Slot k) =
     (toolItemIDOf s k,
      if cr_toolIsToolSearch s k = Some True then ''tool_search_call''
      else if cr_toolIsCustom s k = Some True then ''custom_tool_call'' else ''function_call'')"

fun slotStarted :: "ChatCompletionsToResponsesStreamState \<Rightarrow> slot \<Rightarrow> bool" where
  "slotStarted s Reasoning_Slot = (cr_ReasoningOpen s \<or> cr_ReasoningDone s)"
| "slotStarted s Message_Slot = (cr_MessageItemID s \<noteq> [])"
| "slotStarted s (Tool_Slot k) = (cr_toolAnnounced s k = Some True)"

text \<open>\<open>C\<close> holds the slots that the finaliser closed; the end of the reasoning is in the state.\<close>

definition slotEnded :: "slot set \<Rightarrow> ChatCompletionsToResponsesStreamState \<Rightarrow> slot \<Rightarrow> bool" where
  "slotEnded C s a \<longleftrightarrow> a \<in> C \<or> (a = Reasoning_Slot \<and> cr_ReasoningDone s)"

definition viewOf :: "slot set \<Rightarrow> ChatCompletionsToResponsesStreamState \<Rightarrow> slot_view" where
  "viewOf C s =
     \<lparr>vw_next = cr_nextOutputIndex s, vw_index = slotIndex s, vw_item = slotItem s,
      vw_open = {a. slotStarted s a \<and> \<not> slotEnded C s a}, vw_done = {a. slotStarted s a \<and> slotEnded C s a}\<rparr>"

lemma viewOf_simps [simp]:
  "vw_next (viewOf C s) = cr_nextOutputIndex s" "vw_index (viewOf C s) = slotIndex s"
  "vw_item (viewOf C s) = slotItem s"
  "vw_open (viewOf C s) = {a. slotStarted s a \<and> \<not> slotEnded C s a}"
  "vw_done (viewOf C s) = {a. slotStarted s a \<and> slotEnded C s a}"
  by (simp_all add: viewOf_def)

text \<open>The bookkeeping of the tool calls: what is kept about a call is kept for the stored calls only.\<close>

definition toolsKept :: "ChatCompletionsToResponsesStreamState \<Rightarrow> bool" where
  "toolsKept s \<longleftrightarrow>
     \<not> (cr_ReasoningOpen s \<and> cr_ReasoningDone s) \<and>
     (\<forall>k. cr_ToolOutputIndex s k \<noteq> None \<longleftrightarrow> k \<in> fst ` set (cr_ToolCalls s)) \<and>
     (\<forall>k. cr_ToolItemIDs s k \<noteq> None \<longleftrightarrow> k \<in> fst ` set (cr_ToolCalls s)) \<and>
     (\<forall>k. cr_toolAnnounced s k = Some True \<longrightarrow> k \<in> fst ` set (cr_ToolCalls s)) \<and>
     (\<forall>k. cr_toolIsCustom s k = Some True \<longrightarrow> cr_toolIsToolSearch s k \<noteq> Some True) \<and>
     distinct (map fst (cr_ToolCalls s))"

lemma toolsKept_index:
  assumes "toolsKept s" and "k \<in> fst ` set (cr_ToolCalls s)"
  shows "\<exists>i. cr_ToolOutputIndex s k = Some i" "\<exists>i. cr_ToolItemIDs s k = Some i"
  using assms unfolding toolsKept_def by blast+

definition follows :: "slot set \<Rightarrow> item_stream \<Rightarrow> ChatCompletionsToResponsesStreamState \<Rightarrow> bool" where
  "follows C p s \<longleftrightarrow>
     is_seq p = cr_SequenceNumber s \<and> is_created p = cr_CreatedSent s \<and> is_over p = cr_CompletedSent s \<and>
     viewed p (viewOf C s) \<and> toolsKept s"

lemma follows_simps:
  assumes "follows C p s"
  shows "is_seq p = cr_SequenceNumber s" "is_created p = cr_CreatedSent s" "is_over p = cr_CompletedSent s"
    "viewed p (viewOf C s)" "toolsKept s"
  using assms by (simp_all add: follows_def)

text \<open>One event inside an open item, one that opens an item and one that ends it.\<close>

definition insideEvent :: "string \<Rightarrow> ResponsesStreamEvent \<Rightarrow> bool" where
  "insideEvent t e \<longleftrightarrow> rse_Type e \<in> set (partEvents t)"

lemma partEvents_types:
  "x \<in> set (partEvents t) \<Longrightarrow> x \<noteq> ''response.created'' \<and> x \<noteq> ''response.output_item.added'' \<and>
     x \<noteq> ''response.output_item.done'' \<and> x \<noteq> ''response.completed''"
  by (auto simp: partEvents_def split: if_splits)

definition live :: "slot set \<Rightarrow> item_stream \<Rightarrow> ChatCompletionsToResponsesStreamState \<Rightarrow> bool" where
  "live C p s \<longleftrightarrow> follows C p s \<and> cr_CreatedSent s \<and> \<not> cr_CompletedSent s"

lemma inside_step:
  assumes "live C p s" and "slotStarted s a" "\<not> slotEnded C s a" and "slotIndex s a = Some (rse_OutputIndex e)"
    and "fst (slotItem s a) = rse_ItemID e" and "t \<in> set (partEvents (snd (slotItem s a)))"
    and "Q (p\<lparr>is_seq := is_seq p + 1\<rparr>) (s\<lparr>cr_SequenceNumber := cr_SequenceNumber s + 1\<rparr>)"
  shows "reaches itemSpec p (chatToResponsesEvent t e s) Q"
proof -
  have "map_of (is_open p) (rse_OutputIndex e) = Some (slotItem s a)"
    using viewed_inside [OF follows_simps(4), of C p s a] assms by (simp add: live_def)
  with assms partEvents_types [OF assms(6)] show ?thesis
    by (cases "slotItem s a")
       (simp add: reaches_def chatToResponsesEvent_def itemSpec_def itemEvent_def live_def follows_def)
qed

lemma viewed_tick: "viewed (p\<lparr>is_seq := n\<rparr>) v = viewed p v" "viewed (p\<lparr>is_created := b\<rparr>) v = viewed p v"
  by (simp_all add: viewed_def)

lemma slot_tick [simp]:
  "slotIndex (s\<lparr>cr_SequenceNumber := n\<rparr>) a = slotIndex s a" "slotItem (s\<lparr>cr_SequenceNumber := n\<rparr>) a = slotItem s a"
  "slotStarted (s\<lparr>cr_SequenceNumber := n\<rparr>) a = slotStarted s a"
  "slotEnded C (s\<lparr>cr_SequenceNumber := n\<rparr>) a = slotEnded C s a"
  by (cases a; simp add: toolItemIDOf_def slotEnded_def)+

lemma viewOf_tick: "viewOf C (s\<lparr>cr_SequenceNumber := n\<rparr>) = viewOf C s"
  by (simp add: viewOf_def fun_eq_iff)

lemma snd_event [simp]: "snd (chatToResponsesEvent t e s) = s\<lparr>cr_SequenceNumber := cr_SequenceNumber s + 1\<rparr>"
  by (simp add: chatToResponsesEvent_def)

lemma live_tick: "live C p s \<Longrightarrow> live C (p\<lparr>is_seq := is_seq p + 1\<rparr>) (s\<lparr>cr_SequenceNumber := cr_SequenceNumber s + 1\<rparr>)"
  by (simp add: live_def follows_def viewed_tick viewOf_tick toolsKept_def)

text \<open>Fields that no slot shows.\<close>

lemma follows_upd [simp]:
  "follows C p (s\<lparr>cr_Text := x\<rparr>) = follows C p s" "follows C p (s\<lparr>cr_Reasoning := x\<rparr>) = follows C p s"
  "follows C p (s\<lparr>cr_TextPartOpen := b\<rparr>) = follows C p s" "follows C p (s\<lparr>cr_FinishReason := x\<rparr>) = follows C p s"
  "follows C p (s\<lparr>cr_ResponseID := x\<rparr>) = follows C p s" "follows C p (s\<lparr>cr_Model := x\<rparr>) = follows C p s"
  "follows C p (s\<lparr>cr_ServiceTier := x\<rparr>) = follows C p s" "follows C p (s\<lparr>cr_Usage := u\<rparr>) = follows C p s"
proof -
  have same: "follows C p s' = follows C p s"
    if "\<forall>a. slotIndex s' a = slotIndex s a \<and> slotItem s' a = slotItem s a \<and> slotStarted s' a = slotStarted s a"
      "cr_nextOutputIndex s' = cr_nextOutputIndex s" "cr_ReasoningDone s' = cr_ReasoningDone s"
      "cr_SequenceNumber s' = cr_SequenceNumber s" "cr_CreatedSent s' = cr_CreatedSent s"
      "cr_CompletedSent s' = cr_CompletedSent s" "toolsKept s' = toolsKept s" for s'
  proof -
    have "viewOf C s' = viewOf C s" using that by (simp add: viewOf_def slotEnded_def fun_eq_iff)
    with that show ?thesis by (simp add: follows_def)
  qed
  have all: "(\<forall>a. P a) \<longleftrightarrow> P Reasoning_Slot \<and> P Message_Slot \<and> (\<forall>k. P (Tool_Slot k))" for P
    by (metis slot.exhaust)
  show "follows C p (s\<lparr>cr_Text := x\<rparr>) = follows C p s" "follows C p (s\<lparr>cr_Reasoning := x\<rparr>) = follows C p s"
    "follows C p (s\<lparr>cr_TextPartOpen := b\<rparr>) = follows C p s" "follows C p (s\<lparr>cr_FinishReason := x\<rparr>) = follows C p s"
    "follows C p (s\<lparr>cr_ResponseID := x\<rparr>) = follows C p s" "follows C p (s\<lparr>cr_Model := x\<rparr>) = follows C p s"
    "follows C p (s\<lparr>cr_ServiceTier := x\<rparr>) = follows C p s" "follows C p (s\<lparr>cr_Usage := u\<rparr>) = follows C p s"
    by (rule same; simp add: all toolItemIDOf_def toolsKept_def)+
qed

lemma live_upd [simp]:
  "live C p (s\<lparr>cr_Text := x\<rparr>) = live C p s" "live C p (s\<lparr>cr_Reasoning := x\<rparr>) = live C p s"
  "live C p (s\<lparr>cr_TextPartOpen := b\<rparr>) = live C p s" "live C p (s\<lparr>cr_FinishReason := x\<rparr>) = live C p s"
  by (simp_all add: live_def)

lemma inside_live:
  assumes "live C p s" and "slotStarted s a" "\<not> slotEnded C s a" and "slotIndex s a = Some (rse_OutputIndex e)"
    and "fst (slotItem s a) = rse_ItemID e" and "t \<in> set (partEvents (snd (slotItem s a)))"
    and "\<And>p'. live C p' (s\<lparr>cr_SequenceNumber := cr_SequenceNumber s + 1\<rparr>) \<Longrightarrow>
      Q p' (s\<lparr>cr_SequenceNumber := cr_SequenceNumber s + 1\<rparr>)"
  shows "reaches itemSpec p (chatToResponsesEvent t e s) Q"
  by (rule inside_step [OF assms(1-6)]) (rule assms(7), rule live_tick, rule assms(1))

lemma added_step:
  assumes "is_seq p = cr_SequenceNumber s" "is_created p" "\<not> is_over p"
    and v: "viewed p v" "vw_index v a = Some (rse_OutputIndex e)" "a \<notin> vw_open v" "a \<notin> vw_done v"
    and w: "vw_next v = cr_nextOutputIndex s" "vw_index v = slotIndex s" "\<forall>b \<in> vw_open v. slotItem s b = vw_item v b"
      "{b. slotStarted s b \<and> \<not> slotEnded C s b} = insert a (vw_open v)"
      "{b. slotStarted s b \<and> slotEnded C s b} = vw_done v"
    and "toolsKept s" "cr_CreatedSent s" "\<not> cr_CompletedSent s"
    and "rse_Item e \<noteq> None" "slotItem s a = (ro_ID (the (rse_Item e)), ro_Type (the (rse_Item e)))"
  shows "reaches itemSpec p (chatToResponsesEvent ''response.output_item.added'' e s) (live C)"
proof -
  let ?q = "p\<lparr>is_seq := is_seq p + 1, is_open := (rse_OutputIndex e, slotItem s a) # is_open p\<rparr>"
  have "viewed ?q (viewOf C s)"
    by (rule viewed_open [OF v]) (simp_all add: w)
  with assms have "live C ?q (s\<lparr>cr_SequenceNumber := cr_SequenceNumber s + 1\<rparr>)"
    by (simp add: live_def follows_def viewOf_tick toolsKept_def)
  moreover have "itemSpec p (e\<lparr>rse_Type := ''response.output_item.added'', rse_SequenceNumber := cr_SequenceNumber s\<rparr>) = Some ?q"
    using viewed_opens [OF v] assms by (auto simp: itemSpec_def itemEvent_def)
  ultimately show ?thesis by (simp add: reaches_def chatToResponsesEvent_def)
qed

lemma done_step:
  assumes "live C p s" and "slotStarted s a" "\<not> slotEnded C s a" and "slotIndex s a = Some (rse_OutputIndex e)"
    and "rse_Item e \<noteq> None" "slotItem s a = (ro_ID (the (rse_Item e)), ro_Type (the (rse_Item e)))"
  shows "reaches itemSpec p (chatToResponsesEvent ''response.output_item.done'' e s) (live (insert a C))"
proof -
  let ?q = "p\<lparr>is_seq := is_seq p + 1, is_open := AList.delete (rse_OutputIndex e) (is_open p),
    is_done := rse_OutputIndex e # is_done p\<rparr>"
  have v: "viewed p (viewOf C s)" using assms(1) by (simp add: live_def follows_def)
  have "viewed ?q (viewOf (insert a C) s)"
    by (rule viewed_done [OF v, of a]) (use assms in \<open>auto simp: slotEnded_def\<close>)
  with assms have "live (insert a C) ?q (s\<lparr>cr_SequenceNumber := cr_SequenceNumber s + 1\<rparr>)"
    by (simp add: live_def follows_def viewOf_tick toolsKept_def)
  moreover have "itemSpec p (e\<lparr>rse_Type := ''response.output_item.done'', rse_SequenceNumber := cr_SequenceNumber s\<rparr>) = Some ?q"
    using viewed_inside [OF v, of a] assms by (auto simp: itemSpec_def itemEvent_def live_def follows_def Let_def)
  ultimately show ?thesis by (simp add: reaches_def chatToResponsesEvent_def)
qed

lemmas zero_records = zeroResponsesStreamEvent_def zeroResponsesOutput_def zeroResponsesContentPart_def

section \<open>The handlers follow the specification\<close>

lemma created_live:
  assumes "follows {} p s" and "\<not> cr_CompletedSent s"
  shows "reaches itemSpec p (ensureChatToResponsesCreated s) (live {})"
proof (cases "cr_CreatedSent s")
  case True
  with assms show ?thesis by (simp add: ensureChatToResponsesCreated_def reaches_silent live_def)
next
  case False
  let ?q = "p\<lparr>is_seq := is_seq p + 1, is_created := True\<rparr>"
  let ?s = "s\<lparr>cr_CreatedSent := True, cr_SequenceNumber := cr_SequenceNumber s + 1\<rparr>"
  have "slotIndex ?s a = slotIndex s a" "slotItem ?s a = slotItem s a" "slotStarted ?s a = slotStarted s a" for a
    by (cases a; simp add: toolItemIDOf_def)+
  then have "viewOf {} ?s = viewOf {} s" by (simp add: viewOf_def slotEnded_def fun_eq_iff)
  with assms have "live {} ?q ?s"
    by (simp add: live_def follows_def viewed_def toolsKept_def)
  with False assms show ?thesis
    by (simp add: ensureChatToResponsesCreated_def reaches_def chatToResponsesEvent_def itemSpec_def itemEvent_def follows_def)
qed

lemma liveD:
  assumes "live C p s"
  shows "is_seq p = cr_SequenceNumber s" "is_created p" "\<not> is_over p" "cr_CreatedSent s" "\<not> cr_CompletedSent s"
    "viewed p (viewOf C s)" "toolsKept s"
  using assms by (simp_all add: live_def follows_def)

lemma alloc_live:
  assumes "live C p s" and "slotIndex s a = None" "\<not> slotStarted s a"
    and other: "\<And>b. b \<noteq> a \<Longrightarrow> slotIndex s' b = slotIndex s b \<and> slotItem s' b = slotItem s b \<and>
      slotStarted s' b = slotStarted s b \<and> slotEnded C s' b = slotEnded C s b"
    and this_slot: "slotIndex s' a = Some (cr_nextOutputIndex s)" "slotStarted s' a" "\<not> slotEnded C s' a"
    and same: "cr_nextOutputIndex s' = cr_nextOutputIndex s + 1" "cr_SequenceNumber s' = cr_SequenceNumber s"
      "cr_CreatedSent s' = cr_CreatedSent s" "cr_CompletedSent s' = cr_CompletedSent s" "toolsKept s'"
    and event: "rse_OutputIndex e = cr_nextOutputIndex s" "rse_Item e \<noteq> None" "slotItem s' a = (ro_ID (the (rse_Item e)), ro_Type (the (rse_Item e)))"
  shows "reaches itemSpec p (chatToResponsesEvent ''response.output_item.added'' e s') (live C)"
proof -
  note l = liveD [OF assms(1)]
  let ?v = "(viewOf C s)\<lparr>vw_next := cr_nextOutputIndex s + 1, vw_index := (slotIndex s)(a \<mapsto> cr_nextOutputIndex s)\<rparr>"
  have v: "viewed p ?v"
    by (rule viewed_alloc [OF l(6), of a]) (simp_all add: assms(2,3))
  have idx: "vw_index ?v = slotIndex s'" using other this_slot(1) by (auto simp: fun_eq_iff)
  have opn: "{b. slotStarted s' b \<and> \<not> slotEnded C s' b} = insert a (vw_open ?v)"
  proof (rule set_eqI)
    fix b show "b \<in> {b. slotStarted s' b \<and> \<not> slotEnded C s' b} \<longleftrightarrow> b \<in> insert a (vw_open ?v)"
      using other [of b] this_slot by (cases "b = a") simp_all
  qed
  have dn: "{b. slotStarted s' b \<and> slotEnded C s' b} = vw_done ?v"
  proof (rule set_eqI)
    fix b show "b \<in> {b. slotStarted s' b \<and> slotEnded C s' b} \<longleftrightarrow> b \<in> vw_done ?v"
      using other [of b] this_slot assms(3) by (cases "b = a") simp_all
  qed
  have itm: "\<forall>b \<in> vw_open ?v. slotItem s' b = vw_item ?v b"
  proof
    fix b assume "b \<in> vw_open ?v"
    with assms(3) have "b \<noteq> a" by auto
    with other show "slotItem s' b = vw_item ?v b" by simp
  qed
  show ?thesis
    by (rule added_step [OF _ _ _ v, where a = a]) (use l same this_slot(1) event idx opn dn itm assms(3) in simp_all)
qed

lemma ensureReasoning_live:
  assumes "live {} p s" and "\<not> cr_ReasoningDone s"
  shows "reaches itemSpec p (ensureChatReasoningItem ids s) (\<lambda>p' s'. live {} p' s' \<and> cr_ReasoningOpen s' \<and> \<not> cr_ReasoningDone s')"
proof (cases "cr_ReasoningOpen s")
  case True
  with assms show ?thesis by (simp add: ensureChatReasoningItem_def reaches_silent)
next
  case False
  note l = liveD [OF assms(1)]
  let ?idx = "cr_nextOutputIndex s" and ?id = "generateItemID (ids IdReasoning)"
  let ?s = "s\<lparr>cr_ReasoningOpen := True, cr_ReasoningItemID := ?id, cr_ReasoningIndex := ?idx, cr_nextOutputIndex := ?idx + 1\<rparr>"
  have other: "slotIndex ?s b = slotIndex s b \<and> slotItem ?s b = slotItem s b \<and> slotStarted ?s b = slotStarted s b
      \<and> slotEnded {} ?s b = slotEnded {} s b"
    if "b \<noteq> Reasoning_Slot" for b
    using that by (cases b) (simp_all add: toolItemIDOf_def slotEnded_def)
  have conjunct: "\<not> (cr_ReasoningOpen s \<or> cr_ReasoningDone s)" using False assms(2) by simp
  show ?thesis
    unfolding ensureChatReasoningItem_def Let_def
    unfolding if_not_P [OF conjunct] 
    apply (rule reaches_seqE [where Q = "live {}"])
        apply (rule alloc_live [OF assms(1), of Reasoning_Slot])
    using False assms(2) other l(7) apply (simp_all add: slotEnded_def toolsKept_def zero_records)
        apply (rule inside_live [where a = Reasoning_Slot])
    using assms(2) by (simp_all add: slotEnded_def partEvents_def zero_records)
qed

lemma reasoningDelta_live:
  assumes "live {} p s" and "r \<noteq> [] \<Longrightarrow> \<not> cr_ReasoningDone s"
  shows "reaches itemSpec p (chatReasoningDelta ids r s) (live {})"
proof (cases "r = []")
  case True
  with assms show ?thesis by (simp add: chatReasoningDelta_def reaches_silent)
next
  case False
  show ?thesis
    unfolding chatReasoningDelta_def if_not_P [OF False]
    by (rule reaches_seqE [OF ensureReasoning_live [OF assms(1) assms(2) [OF False]]])
       (rule inside_live [where a = Reasoning_Slot], simp_all add: slotEnded_def partEvents_def zero_records)
qed

lemma closeReasoning_live:
  assumes "live {} p s"
  shows "reaches itemSpec p (closeChatReasoningItem s) (\<lambda>p' s'. live {} p' s' \<and> \<not> cr_ReasoningOpen s')"
proof (cases "cr_ReasoningOpen s")
  case False
  with assms show ?thesis by (simp add: closeChatReasoningItem_def reaches_silent)
next
  case True
  note l = liveD [OF assms]
  let ?q = "p\<lparr>is_seq := is_seq p + 3, is_open := AList.delete (cr_ReasoningIndex s) (is_open p),
    is_done := cr_ReasoningIndex s # is_done p\<rparr>"
  let ?s = "s\<lparr>cr_ReasoningOpen := False, cr_ReasoningDone := True, cr_SequenceNumber := cr_SequenceNumber s + 3\<rparr>"
  have same: "slotIndex ?s b = slotIndex s b \<and> slotItem ?s b = slotItem s b \<and> slotStarted ?s b = slotStarted s b"
    "slotEnded {} ?s b \<longleftrightarrow> b = Reasoning_Slot" "\<not> slotEnded {} s b" for b
    using True l(7) by (cases b; simp add: toolItemIDOf_def slotEnded_def toolsKept_def)+
  have "viewed ?q (viewOf {} ?s)"
    by (rule viewed_done [OF l(6), of Reasoning_Slot]) (use True same in \<open>auto simp: fun_eq_iff\<close>)
  with l True have "live {} ?q ?s" by (simp add: live_def follows_def toolsKept_def)
  moreover have "map_of (is_open p) (cr_ReasoningIndex s) = Some (cr_ReasoningItemID s, ''reasoning'')"
    using viewed_inside [OF l(6), of Reasoning_Slot] True same(3) by simp
  with l True have "accepts_from itemSpec p (fst (closeChatReasoningItem s)) = Some ?q"
    by (simp add: closeChatReasoningItem_def chatToResponsesEvent_def itemSpec_def itemEvent_def partEvents_def Let_def
        zero_records completedItem_def)
  moreover have "snd (closeChatReasoningItem s) = ?s" using True by (simp add: closeChatReasoningItem_def Let_def)
  ultimately show ?thesis by (simp add: reaches_def)
qed

lemma ensureMessage_live:
  assumes "live {} p s"
  shows "reaches itemSpec p (ensureChatToResponsesMessageItem ids s) (\<lambda>p' s'. live {} p' s' \<and> cr_MessageItemID s' \<noteq> [])"
proof (cases "cr_MessageItemID s = []")
  case False
  with assms show ?thesis by (simp add: ensureChatToResponsesMessageItem_def reaches_silent)
next
  case True
  let ?s = "s\<lparr>cr_MessageItemID := generateItemID (ids IdMessage), cr_MessageIndex := cr_nextOutputIndex s,
    cr_nextOutputIndex := cr_nextOutputIndex s + 1\<rparr>"
  have other: "slotIndex ?s b = slotIndex s b \<and> slotItem ?s b = slotItem s b \<and> slotStarted ?s b = slotStarted s b
      \<and> slotEnded {} ?s b = slotEnded {} s b"
    if "b \<noteq> Message_Slot" for b
    using that by (cases b) (simp_all add: toolItemIDOf_def slotEnded_def)
  have "reaches itemSpec p (ensureChatToResponsesMessageItem ids s) (live {})"
    unfolding ensureChatToResponsesMessageItem_def Let_def using True
    apply simp
    apply (rule alloc_live [OF assms, of Message_Slot])
    using True other liveD(7) [OF assms]
                 apply (simp_all add: slotEnded_def toolsKept_def zero_records generateItemID_def)
    done
  with True show ?thesis
    by (auto elim!: reaches_conseq simp: ensureChatToResponsesMessageItem_def Let_def generateItemID_def)
qed

lemma textDelta_live:
  assumes "live {} p s"
  shows "reaches itemSpec p (chatTextDelta ids text s) (live {})"
  unfolding chatTextDelta_def
proof (rule reaches_seqE, rule reaches_seqE [OF ensureMessage_live [OF assms]])
  fix p' let ?s = "snd (ensureChatToResponsesMessageItem ids s)"
  assume "live {} p' ?s \<and> cr_MessageItemID ?s \<noteq> []"
  then show "reaches itemSpec p' (ensureChatToResponsesTextPart ?s) (\<lambda>p' s'. live {} p' s' \<and> cr_MessageItemID s' \<noteq> [])"
    unfolding ensureChatToResponsesTextPart_def
    by (cases "cr_TextPartOpen ?s")
       (simp_all add: reaches_silent, rule inside_live [where a = Message_Slot],
        simp_all add: slotEnded_def partEvents_def zero_records)
next
  fix p' let ?s = "snd (seqE (ensureChatToResponsesMessageItem ids s) ensureChatToResponsesTextPart)"
  assume "live {} p' ?s \<and> cr_MessageItemID ?s \<noteq> []"
  then show "reaches itemSpec p' (chatToResponsesEvent ''response.output_text.delta'' (zeroResponsesStreamEvent
          \<lparr>rse_OutputIndex := cr_MessageIndex ?s, rse_Delta := text, rse_ItemID := cr_MessageItemID ?s\<rparr>)
          (?s\<lparr>cr_Text := cr_Text ?s @ text\<rparr>)) (live {})"
    by (intro inside_live [where a = Message_Slot]) (simp_all add: slotEnded_def partEvents_def zero_records)
qed

lemma contentDelta_live:
  assumes "live {} p s"
  shows "reaches itemSpec p (chatContentDelta ids content s) (live {})"
proof (cases "content = []")
  case True
  with assms show ?thesis by (simp add: chatContentDelta_def reaches_silent)
next
  case False
  show ?thesis
    unfolding chatContentDelta_def if_not_P [OF False]
    by (rule reaches_seqE [OF closeReasoning_live [OF assms]]) (simp add: textDelta_live)
qed

lemma functionCallDelta_live:
  assumes "live C p s" and "cr_toolAnnounced s k = Some True" "Tool_Slot k \<notin> C"
    and "cr_toolIsCustom s k \<noteq> Some True" "cr_toolIsToolSearch s k \<noteq> Some True"
  shows "reaches itemSpec p (functionCallDelta k stored arguments s) (live C)"
proof -
  have "k \<in> fst ` set (cr_ToolCalls s)" using liveD(7) [OF assms(1)] assms(2) by (simp add: toolsKept_def)
  then obtain i where "cr_ToolOutputIndex s k = Some i" using toolsKept_index [OF liveD(7) [OF assms(1)]] by blast
  then show ?thesis
    unfolding functionCallDelta_def using assms
    by (intro inside_live [where a = "Tool_Slot k"])
       (simp_all add: slotEnded_def partEvents_def zero_records toolItemIDOf_def)
qed

text \<open>Announcing a call opens its item, whose place is already reserved.\<close>

lemma open_live:
  assumes "live C p s" and "slotIndex s a = Some (rse_OutputIndex e)" "\<not> slotStarted s a" "\<not> slotEnded C s a"
    and other: "\<And>b. b \<noteq> a \<Longrightarrow> slotItem s' b = slotItem s b \<and> slotStarted s' b = slotStarted s b"
    and same: "slotIndex s' = slotIndex s" "\<And>b. slotEnded C s' b = slotEnded C s b" "slotStarted s' a"
      "cr_nextOutputIndex s' = cr_nextOutputIndex s" "cr_SequenceNumber s' = cr_SequenceNumber s"
      "cr_CreatedSent s' = cr_CreatedSent s" "cr_CompletedSent s' = cr_CompletedSent s" "toolsKept s'"
    and event: "rse_Item e \<noteq> None" "slotItem s' a = (ro_ID (the (rse_Item e)), ro_Type (the (rse_Item e)))"
  shows "reaches itemSpec p (chatToResponsesEvent ''response.output_item.added'' e s') (live C)"
proof -
  note l = liveD [OF assms(1)]
  have "{b. slotStarted s' b \<and> \<not> slotEnded C s' b} = insert a (vw_open (viewOf C s))"
  proof (rule set_eqI)
    fix b show "b \<in> {b. slotStarted s' b \<and> \<not> slotEnded C s' b} \<longleftrightarrow> b \<in> insert a (vw_open (viewOf C s))"
      using other [of b] same assms(4) by (cases "b = a") simp_all
  qed
  moreover have "{b. slotStarted s' b \<and> slotEnded C s' b} = vw_done (viewOf C s)"
  proof (rule set_eqI)
    fix b show "b \<in> {b. slotStarted s' b \<and> slotEnded C s' b} \<longleftrightarrow> b \<in> vw_done (viewOf C s)"
      using other [of b] same assms(4) by (cases "b = a") simp_all
  qed
  moreover have "\<forall>b \<in> vw_open (viewOf C s). slotItem s' b = vw_item (viewOf C s) b"
  proof
    fix b assume "b \<in> vw_open (viewOf C s)"
    with assms(3) have "b \<noteq> a" by auto
    with other show "slotItem s' b = vw_item (viewOf C s) b" by simp
  qed
  ultimately show ?thesis
    by (intro added_step [OF _ _ _ l(6), where a = a]) (use l same assms(2-4) event in simp_all)
qed

lemma announce_live:
  assumes "live C p s" and k: "k \<in> fst ` set (cr_ToolCalls s)" and "Tool_Slot k \<notin> C"
  shows "reaches itemSpec p (announceChatToolItem L k stored force s)
    (\<lambda>p' s'. live C p' s' \<and> (force \<longrightarrow> cr_toolAnnounced s' k = Some True))"
proof -
  let ?names = "cr_names s" and ?name = "cfc_Name (ctc_Function stored)"
  obtain custom isCustom where c: "customName L ?names ?name = (custom, isCustom)" by force
  obtain i j where ij: "cr_ToolOutputIndex s k = Some i" "cr_ToolItemIDs s k = Some j"
    using toolsKept_index [OF liveD(7) [OF assms(1)] k] by blast
  define search where "search = (\<not> isCustom \<and> tn_ToolSearchDeclared ?names \<and> ?name = toolSearchProxyName)"
  define waits where "waits = (\<not> force \<and> ?name = [] \<and> (tn_CustomTools ?names \<noteq> [] \<or> tn_FunctionTools ?names \<noteq> [] \<or>
                tn_ToolSearchDeclared ?names \<or> tn_NamespaceTools ?names \<noteq> []))"
  consider "cr_toolAnnounced s k = Some True" | "cr_toolAnnounced s k \<noteq> Some True" "waits"
    | "cr_toolAnnounced s k \<noteq> Some True" "\<not> waits" by blast
  then show ?thesis
  proof cases
    case 1
    with assms show ?thesis by (simp add: announceChatToolItem_def reaches_silent)
  next
    case 2
    with assms show ?thesis by (simp add: announceChatToolItem_def reaches_silent waits_def)
  next
    case 3
    define ns where "ns = (if isCustom \<or> search then None else map_of (tn_NamespaceTools ?names) ?name)"
    define t where "t = s\<lparr>cr_toolAnnounced := (cr_toolAnnounced s)(k \<mapsto> True),
      cr_toolIsCustom := (cr_toolIsCustom s)(k \<mapsto> isCustom), cr_toolIsToolSearch := (cr_toolIsToolSearch s)(k \<mapsto> search)\<rparr>"
    define s' where "s' = (case ns of Some n \<Rightarrow> t\<lparr>cr_toolNamespace := (cr_toolNamespace t)(k \<mapsto> n)\<rparr> | None \<Rightarrow> t)"
    have s': "cr_toolAnnounced s' = (cr_toolAnnounced s)(k \<mapsto> True)" "cr_toolIsCustom s' = (cr_toolIsCustom s)(k \<mapsto> isCustom)"
      "cr_toolIsToolSearch s' = (cr_toolIsToolSearch s)(k \<mapsto> search)" "cr_ToolOutputIndex s' = cr_ToolOutputIndex s"
      "cr_ToolItemIDs s' = cr_ToolItemIDs s" "cr_ToolCalls s' = cr_ToolCalls s" "cr_ReasoningOpen s' = cr_ReasoningOpen s"
      "cr_ReasoningDone s' = cr_ReasoningDone s" "cr_ReasoningIndex s' = cr_ReasoningIndex s"
      "cr_ReasoningItemID s' = cr_ReasoningItemID s" "cr_MessageItemID s' = cr_MessageItemID s"
      "cr_MessageIndex s' = cr_MessageIndex s" "cr_nextOutputIndex s' = cr_nextOutputIndex s"
      "cr_SequenceNumber s' = cr_SequenceNumber s" "cr_CreatedSent s' = cr_CreatedSent s" "cr_CompletedSent s' = cr_CompletedSent s"
      by (cases ns; simp add: s'_def t_def)+
    have other: "slotItem s' b = slotItem s b \<and> slotStarted s' b = slotStarted s b" if "b \<noteq> Tool_Slot k" for b
      using that by (cases b) (simp_all add: s' toolItemIDOf_def)
    have index: "slotIndex s' = slotIndex s"
    proof
      fix b show "slotIndex s' b = slotIndex s b" by (cases b) (simp_all add: s')
    qed
    have kept: "toolsKept s'"
      using liveD(7) [OF assms(1)] k by (auto simp: toolsKept_def s' search_def)
    show ?thesis
      unfolding announceChatToolItem_def Let_def c prod.case
      apply (simp only: 3 if_False waits_def [symmetric] search_def [symmetric] simp_thms)
      apply (simp only: t_def [symmetric] ns_def [symmetric])
      apply (simp only: s'_def [symmetric])
      apply (rule reaches_seqE [where Q = "live C"])
       apply (rule open_live [OF assms(1), of "Tool_Slot k"])
      using 3 assms(3) ij other index kept
                apply (simp_all add: slotEnded_def s' zero_records toolItemIDOf_def)
      apply (intro conjI impI)
         apply (rule reaches_conseq, rule functionCallDelta_live)
              apply (simp_all add: s' functionCallDelta_def reaches_silent)
      done
  qed
qed

lemma live_store:
  assumes "live C p s" and k: "k \<in> fst ` set (cr_ToolCalls s)"
  shows "live C p (s\<lparr>cr_ToolCalls := AList.update k c (cr_ToolCalls s)\<rparr>)"
proof -
  let ?s = "s\<lparr>cr_ToolCalls := AList.update k c (cr_ToolCalls s)\<rparr>"
  have "slotIndex ?s b = slotIndex s b \<and> slotItem ?s b = slotItem s b \<and> slotStarted ?s b = slotStarted s b" for b
    by (cases b) (simp_all add: toolItemIDOf_def)
  then have "viewOf C ?s = viewOf C s" by (simp add: viewOf_def slotEnded_def fun_eq_iff)
  moreover have "fst ` set (cr_ToolCalls ?s) = fst ` set (cr_ToolCalls s)" using k by (auto simp: dom_update)
  ultimately show ?thesis using assms by (simp add: live_def follows_def toolsKept_def distinct_update)
qed

lemma storeToolCall_live:
  assumes "live {} p s"
  shows "reaches itemSpec p (storeToolCall ids k toolCall s)
    (\<lambda>p' s'. live {} p' s' \<and> k \<in> fst ` set (cr_ToolCalls s'))"
proof (cases "map_of (cr_ToolCalls s) k")
  case (Some stored)
  then have k: "k \<in> fst ` set (cr_ToolCalls s)" by (rule map_of_key)
  have "live {} p (s\<lparr>cr_ToolCalls := AList.update k c (cr_ToolCalls s)\<rparr>)" for c
    by (rule live_store [OF assms k])
  with Some show ?thesis by (simp add: storeToolCall_def Let_def reaches_silent dom_update)
next
  case None
  then have k: "k \<notin> fst ` set (cr_ToolCalls s)" by (simp add: map_of_eq_None_iff)
  show ?thesis
    unfolding storeToolCall_def None option.case
  proof (rule reaches_seqE [OF closeReasoning_live [OF assms]])
    fix p' let ?t = "snd (closeChatReasoningItem s)"
    assume t: "live {} p' ?t \<and> \<not> cr_ReasoningOpen ?t"
    then have l: "live {} p' ?t" by simp
    have keys: "fst ` set (cr_ToolCalls ?t) = fst ` set (cr_ToolCalls s)"
      by (simp add: closeChatReasoningItem_def Let_def)
    let ?u = "\<lambda>c. ?t\<lparr>cr_ToolCalls := AList.update k c (cr_ToolCalls ?t),
                  cr_ToolItemIDs := (cr_ToolItemIDs ?t)(k \<mapsto> generateItemID (ids (IdTool k))),
                  cr_ToolOutputIndex := (cr_ToolOutputIndex ?t)(k \<mapsto> cr_nextOutputIndex ?t),
                  cr_nextOutputIndex := cr_nextOutputIndex ?t + 1\<rparr>"
    have unused: "cr_ToolOutputIndex ?t k = None" "cr_toolAnnounced ?t k \<noteq> Some True"
      using k keys liveD(7) [OF l] unfolding toolsKept_def by blast+
    have "live {} p' (?u c)" for c
    proof -
      have other: "slotIndex (?u c) b = slotIndex ?t b \<and> slotItem (?u c) b = slotItem ?t b" if "b \<noteq> Tool_Slot k" for b
        using that by (cases b) (simp_all add: toolItemIDOf_def)
      have started: "slotStarted (?u c) b = slotStarted ?t b" for b by (cases b) simp_all
      have "viewed p' (viewOf {} (?u c))"
      proof (rule viewed_alloc [OF liveD(6) [OF l], of "Tool_Slot k"])
        show "vw_index (viewOf {} (?u c)) = (vw_index (viewOf {} ?t))(Tool_Slot k \<mapsto> vw_next (viewOf {} ?t))"
        proof
          fix b show "vw_index (viewOf {} (?u c)) b = ((vw_index (viewOf {} ?t))(Tool_Slot k \<mapsto> vw_next (viewOf {} ?t))) b"
            using other [of b] by (cases "b = Tool_Slot k") simp_all
        qed
        show "\<forall>b \<in> vw_open (viewOf {} ?t). vw_item (viewOf {} (?u c)) b = vw_item (viewOf {} ?t) b"
        proof
          fix b assume "b \<in> vw_open (viewOf {} ?t)"
          with unused have "b \<noteq> Tool_Slot k" by auto
          with other show "vw_item (viewOf {} (?u c)) b = vw_item (viewOf {} ?t) b" by simp
        qed
      qed (use unused started in \<open>simp_all add: slotEnded_def\<close>)
      with liveD [OF l] show ?thesis
        by (simp add: live_def follows_def toolsKept_def dom_update distinct_update)
    qed
    then show "reaches itemSpec p' (let copyCall = toolCall\<lparr>ctc_ID := (if ctc_ID toolCall = [] then generateItemID (ids (IdCall k)) else ctc_ID toolCall),
                  ctc_Type := ''function'', ctc_Function := (ctc_Function toolCall)\<lparr>cfc_Arguments := []\<rparr>\<rparr>
            in ([], ?u copyCall)) (\<lambda>p' s'. live {} p' s' \<and> k \<in> fst ` set (cr_ToolCalls s'))"
      by (simp add: Let_def reaches_silent dom_update)
  qed
qed

lemma storeArguments_live:
  assumes "live {} p s"
  shows "reaches itemSpec p (storeArguments k arguments s) (live {})"
proof (cases "map_of (cr_ToolCalls s) k")
  case None
  with assms show ?thesis by (simp add: storeArguments_def reaches_silent)
next
  case (Some stored)
  then have k: "k \<in> fst ` set (cr_ToolCalls s)" by (rule map_of_key)
  have upd: "live {} p (s\<lparr>cr_ToolCalls := AList.update k c (cr_ToolCalls s)\<rparr>)" for c
    by (rule live_store [OF assms k])
  show ?thesis
    unfolding storeArguments_def Some option.case Let_def
    using assms functionCallDelta_live [OF upd] upd
    by (auto simp: reaches_silent)
qed

lemma toolCallDelta_live:
  assumes "live {} p s"
  shows "reaches itemSpec p (chatToolCallDelta L ids toolCall s) (live {})"
  unfolding chatToolCallDelta_def Let_def
proof (rule reaches_seqE, rule reaches_seqE [OF storeToolCall_live [OF assms]])
  fix p' k let ?t = "snd (storeToolCall ids k toolCall s)"
  assume "live {} p' ?t \<and> k \<in> fst ` set (cr_ToolCalls ?t)"
  then show "reaches itemSpec p' (case map_of (cr_ToolCalls ?t) k of
      None \<Rightarrow> ([], ?t) | Some stored \<Rightarrow> announceChatToolItem L k stored False ?t) (live {})"
    using announce_live [of "{}" p' ?t k L _ False] by (auto simp: reaches_silent split: option.split)
qed (rule storeArguments_live)

text \<open>The reasoning text has to be over before the reasoning item is closed.\<close>

definition answers :: "ChatChunkChoice \<Rightarrow> bool" where
  "answers c \<longleftrightarrow> choiceText c \<noteq> [] \<or> cd_ToolCalls (cck_Delta c) \<noteq> []"

fun reasoningInOrder :: "bool \<Rightarrow> bool \<Rightarrow> ChatChunkChoice list \<Rightarrow> bool" where
  "reasoningInOrder begun ended [] = True"
| "reasoningInOrder begun ended (c # cs) =
     ((ended \<longrightarrow> choiceReasoning c = []) \<and>
      reasoningInOrder (begun \<or> choiceReasoning c \<noteq> [])
        (ended \<or> (begun \<or> choiceReasoning c \<noteq> []) \<and> answers c) cs)"

definition reasoned :: "bool \<Rightarrow> bool \<Rightarrow> ChatCompletionsToResponsesStreamState \<Rightarrow> bool" where
  "reasoned begun ended s \<longleftrightarrow>
     (cr_ReasoningOpen s \<or> cr_ReasoningDone s \<longrightarrow> begun) \<and> (cr_ReasoningDone s \<longrightarrow> ended)"

lemma reasoning_frames [simp]:
  "cr_ReasoningDone (snd (ensureChatReasoningItem ids s)) = cr_ReasoningDone s"
  "cr_ReasoningOpen (snd (chatTextDelta ids text s)) = cr_ReasoningOpen s"
  "cr_ReasoningDone (snd (chatTextDelta ids text s)) = cr_ReasoningDone s"
  "cr_ReasoningOpen (snd (closeChatReasoningItem s)) = False"
  "cr_ReasoningDone (snd (closeChatReasoningItem s)) = (cr_ReasoningDone s \<or> cr_ReasoningOpen s)"
  by (simp_all add: ensureChatReasoningItem_def closeChatReasoningItem_def chatTextDelta_def
      ensureChatToResponsesMessageItem_def ensureChatToResponsesTextPart_def Let_def)

lemma announce_frames [simp]:
  "cr_ReasoningOpen (snd (announceChatToolItem L k stored force s)) = cr_ReasoningOpen s"
  "cr_ReasoningDone (snd (announceChatToolItem L k stored force s)) = cr_ReasoningDone s"
  "cr_ToolCalls (snd (announceChatToolItem L k stored force s)) = cr_ToolCalls s"
  by (simp_all add: announceChatToolItem_def functionCallDelta_def Let_def case_prod_unfold split: option.split)

lemma arguments_frames [simp]:
  "cr_ReasoningOpen (snd (storeArguments k arguments s)) = cr_ReasoningOpen s"
  "cr_ReasoningDone (snd (storeArguments k arguments s)) = cr_ReasoningDone s"
  "fst ` set (cr_ToolCalls (snd (storeArguments k arguments s))) = fst ` set (cr_ToolCalls s)"
  by (auto simp: storeArguments_def functionCallDelta_def Let_def dom_update dest: map_of_key split: option.split)

lemma store_frames:
  "cr_ReasoningOpen (snd (storeToolCall ids k toolCall s)) \<longrightarrow> cr_ReasoningOpen s"
  "cr_ReasoningDone (snd (storeToolCall ids k toolCall s)) \<longrightarrow> cr_ReasoningDone s \<or> cr_ReasoningOpen s"
  "fst ` set (cr_ToolCalls (snd (storeToolCall ids k toolCall s))) = insert k (fst ` set (cr_ToolCalls s))"
proof -
  have same: "cr_ToolCalls (snd (closeChatReasoningItem s)) = cr_ToolCalls s"
    by (simp add: closeChatReasoningItem_def Let_def)
  show "cr_ReasoningOpen (snd (storeToolCall ids k toolCall s)) \<longrightarrow> cr_ReasoningOpen s"
    "cr_ReasoningDone (snd (storeToolCall ids k toolCall s)) \<longrightarrow> cr_ReasoningDone s \<or> cr_ReasoningOpen s"
    "fst ` set (cr_ToolCalls (snd (storeToolCall ids k toolCall s))) = insert k (fst ` set (cr_ToolCalls s))"
    by (simp_all add: storeToolCall_def Let_def dom_update same split: option.split)
qed

lemma tool_step:
  defines "t \<equiv> \<lambda>ids toolCall s. snd (storeToolCall ids (callIdx toolCall) toolCall s)"
  shows "cr_ReasoningOpen (snd (chatToolCallDelta L ids toolCall s)) = cr_ReasoningOpen (t ids toolCall s)"
    "cr_ReasoningDone (snd (chatToolCallDelta L ids toolCall s)) = cr_ReasoningDone (t ids toolCall s)"
    "fst ` set (cr_ToolCalls (snd (chatToolCallDelta L ids toolCall s))) = fst ` set (cr_ToolCalls (t ids toolCall s))"
  by (cases "map_of (cr_ToolCalls (t ids toolCall s)) (callIdx toolCall)";
      simp add: chatToolCallDelta_def t_def callIdx_def Let_def)+

lemma tool_frames:
  "cr_ReasoningOpen (snd (chatToolCallDelta L ids toolCall s)) \<longrightarrow> cr_ReasoningOpen s"
  "cr_ReasoningDone (snd (chatToolCallDelta L ids toolCall s)) \<longrightarrow> cr_ReasoningDone s \<or> cr_ReasoningOpen s"
  "fst ` set (cr_ToolCalls (snd (chatToolCallDelta L ids toolCall s))) = insert (callIdx toolCall) (fst ` set (cr_ToolCalls s))"
  unfolding tool_step by (rule store_frames)+

lemma tools_frames:
  "cr_ReasoningOpen (snd (run_machine (chatToolCallDelta L ids) calls s)) \<longrightarrow> cr_ReasoningOpen s"
  "cr_ReasoningDone (snd (run_machine (chatToolCallDelta L ids) calls s)) \<longrightarrow>
     cr_ReasoningDone s \<or> calls \<noteq> [] \<and> cr_ReasoningOpen s"
proof -
  have "(cr_ReasoningOpen (snd (run_machine (chatToolCallDelta L ids) calls s)) \<longrightarrow> cr_ReasoningOpen s) \<and>
    (cr_ReasoningDone (snd (run_machine (chatToolCallDelta L ids) calls s)) \<longrightarrow>
       cr_ReasoningDone s \<or> calls \<noteq> [] \<and> cr_ReasoningOpen s)"
  proof (induction calls arbitrary: s)
    case (Cons c calls)
    then show ?case using tool_frames [of L ids c s] by (simp, metis)
  qed simp
  then show "cr_ReasoningOpen (snd (run_machine (chatToolCallDelta L ids) calls s)) \<longrightarrow> cr_ReasoningOpen s"
    "cr_ReasoningDone (snd (run_machine (chatToolCallDelta L ids) calls s)) \<longrightarrow>
       cr_ReasoningDone s \<or> calls \<noteq> [] \<and> cr_ReasoningOpen s" by simp_all
qed

lemma reasoned_choice:
  assumes "reasoned b e s"
  shows "reasoned (b \<or> choiceReasoning c \<noteq> []) (e \<or> (b \<or> choiceReasoning c \<noteq> []) \<and> answers c) (snd (chatChoice L ids c s))"
proof -
  let ?r = "snd (chatReasoningDelta ids (choiceReasoning c) s)"
  let ?t = "snd (chatContentDelta ids (choiceText c) ?r)"
  have r: "cr_ReasoningDone ?r = cr_ReasoningDone s"
    "cr_ReasoningOpen ?r \<longrightarrow> cr_ReasoningOpen s \<or> choiceReasoning c \<noteq> []"
    by (simp_all add: chatReasoningDelta_def)
  have t: "cr_ReasoningOpen ?t \<longrightarrow> cr_ReasoningOpen ?r"
    "cr_ReasoningDone ?t \<longrightarrow> cr_ReasoningDone ?r \<or> choiceText c \<noteq> [] \<and> cr_ReasoningOpen ?r"
    by (simp_all add: chatContentDelta_def)
  note tools = tools_frames [of L ids "cd_ToolCalls (cck_Delta c)" ?t]
  have "cr_ReasoningOpen (snd (chatChoice L ids c s)) = cr_ReasoningOpen (snd (run_machine (chatToolCallDelta L ids) (cd_ToolCalls (cck_Delta c)) ?t))"
    "cr_ReasoningDone (snd (chatChoice L ids c s)) = cr_ReasoningDone (snd (run_machine (chatToolCallDelta L ids) (cd_ToolCalls (cck_Delta c)) ?t))"
    by (simp_all add: chatChoice_def Let_def)
  with r t tools assms show ?thesis unfolding reasoned_def answers_def by blast
qed

lemma choice_live:
  assumes "live {} p s" and "choiceReasoning c \<noteq> [] \<Longrightarrow> \<not> cr_ReasoningDone s"
  shows "reaches itemSpec p (chatChoice L ids c s) (live {})"
  unfolding chatChoice_def Let_def
proof (rule reaches_seqE [where Q = "live {}"], rule reaches_seqE [where Q = "live {}"], rule reaches_seqE [where Q = "live {}"])
  show "reaches itemSpec p (chatReasoningDelta ids (choiceReasoning c) s) (live {})"
    by (rule reasoningDelta_live [OF assms])
  show "live {} p' t \<Longrightarrow> reaches itemSpec p' (chatContentDelta ids (choiceText c) t) (live {})" for p' t
    by (rule contentDelta_live)
  show "live {} p' t \<Longrightarrow> reaches itemSpec p' (run_machine (chatToolCallDelta L ids) (cd_ToolCalls (cck_Delta c)) t) (live {})" for p' t
    by (rule reaches_run) (rule toolCallDelta_live)
qed (simp add: reaches_silent)

text \<open>What is left of the stream keeps the order.\<close>

definition inOrder :: "ChatChunkChoice list \<Rightarrow> ChatCompletionsToResponsesStreamState \<Rightarrow> bool" where
  "inOrder cs s \<longleftrightarrow> (\<exists>b e. reasoned b e s \<and> reasoningInOrder b e cs)"

lemma choice_inOrder:
  assumes "live {} p s" and "inOrder (c # cs) s"
  shows "reaches itemSpec p (chatChoice L ids c s) (\<lambda>p' s'. live {} p' s' \<and> inOrder cs s')"
proof -
  from assms(2) obtain b e where be: "reasoned b e s" "reasoningInOrder b e (c # cs)" by (auto simp: inOrder_def)
  have "choiceReasoning c \<noteq> [] \<Longrightarrow> \<not> cr_ReasoningDone s" using be by (auto simp: reasoned_def)
  from choice_live [OF assms(1) this] have "reaches itemSpec p (chatChoice L ids c s) (live {})" .
  moreover have "inOrder cs (snd (chatChoice L ids c s))"
    using reasoned_choice [OF be(1), of c L ids] be(2) unfolding inOrder_def reasoningInOrder.simps by blast
  ultimately show ?thesis by (simp add: reaches_conseq)
qed

lemma choices_inOrder:
  assumes "live {} p s" and "inOrder (xs @ cs) s"
  shows "reaches itemSpec p (run_machine (chatChoice L ids) xs s) (\<lambda>p' s'. live {} p' s' \<and> inOrder cs s')"
  using assms
proof (induction xs arbitrary: p s)
  case Nil
  then show ?case by (simp add: reaches_silent)
next
  case (Cons c xs)
  show ?case
    unfolding run_machine_seqE
    by (rule reaches_seqE [OF choice_inOrder [OF Cons.prems(1)]], use Cons.prems(2) in simp, rule Cons.IH) simp_all
qed

text \<open>The keys of the stored calls are the indices of the calls of the stream.\<close>

definition storedKeys :: "ChatCompletionsToResponsesStreamState \<Rightarrow> int set" where
  "storedKeys s = fst ` set (cr_ToolCalls s)"

lemma tools_keys:
  "storedKeys (snd (run_machine (chatToolCallDelta L ids) calls s)) = storedKeys s \<union> callIdx ` set calls"
  using run_machine_collect [of storedKeys "chatToolCallDelta L ids" "\<lambda>c. {callIdx c}" calls s] tool_frames(3)
  by (auto simp: storedKeys_def)

lemma choice_keys:
  "storedKeys (snd (chatChoice L ids c s)) = storedKeys s \<union> callIdx ` set (cd_ToolCalls (cck_Delta c))"
proof -
  have "cr_ToolCalls (snd (chatReasoningDelta ids r s)) = cr_ToolCalls s" for r s
    by (simp add: chatReasoningDelta_def ensureChatReasoningItem_def Let_def)
  moreover have "cr_ToolCalls (snd (chatContentDelta ids r s)) = cr_ToolCalls s" for r s
    by (simp add: chatContentDelta_def closeChatReasoningItem_def chatTextDelta_def
        ensureChatToResponsesMessageItem_def ensureChatToResponsesTextPart_def Let_def)
  ultimately have "storedKeys (snd (chatContentDelta ids x (snd (chatReasoningDelta ids y s)))) = storedKeys s" for x y
    by (simp add: storedKeys_def)
  moreover have "storedKeys (if b then t else t\<lparr>cr_FinishReason := f\<rparr>) = storedKeys t" for b t f
    by (simp add: storedKeys_def)
  ultimately show ?thesis by (simp only: chatChoice_def Let_def seqE_simps snd_conv tools_keys)
qed

lemma note_same [simp]:
  "cr_CreatedSent (noteChunk chunk s) = cr_CreatedSent s" "cr_CompletedSent (noteChunk chunk s) = cr_CompletedSent s"
  "cr_ReasoningOpen (noteChunk chunk s) = cr_ReasoningOpen s" "cr_ReasoningDone (noteChunk chunk s) = cr_ReasoningDone s"
  "cr_ToolCalls (noteChunk chunk s) = cr_ToolCalls s" "follows {} p (noteChunk chunk s) = follows {} p s"
  by (simp_all add: noteChunk_def Let_def split: option.split)

lemma created_same [simp]:
  "cr_ReasoningOpen (snd (ensureChatToResponsesCreated s)) = cr_ReasoningOpen s"
  "cr_ReasoningDone (snd (ensureChatToResponsesCreated s)) = cr_ReasoningDone s"
  "cr_ToolCalls (snd (ensureChatToResponsesCreated s)) = cr_ToolCalls s"
  by (simp_all add: ensureChatToResponsesCreated_def)

lemma chunk_keys:
  "storedKeys (snd (ChatCompletionsChunkToResponsesEvents L ids chunk s)) = storedKeys s \<union> callIdx ` set (toolCallsOf chunk)"
  unfolding ChatCompletionsChunkToResponsesEvents_def
  by (simp add: run_machine_collect [of storedKeys, OF choice_keys] toolCallsOf_def) (auto simp: storedKeys_def)

text \<open>Before the first chunk nothing is written, so the stream need not have begun.\<close>

definition going :: "ChatChunkChoice list \<Rightarrow> item_stream \<Rightarrow> ChatCompletionsToResponsesStreamState \<Rightarrow> bool" where
  "going cs p s \<longleftrightarrow> follows {} p s \<and> \<not> cr_CompletedSent s \<and> inOrder cs s"

lemma chunk_going:
  assumes "going (ccc_Choices chunk @ cs) p s"
  shows "reaches itemSpec p (ChatCompletionsChunkToResponsesEvents L ids chunk s) (going cs)"
  unfolding ChatCompletionsChunkToResponsesEvents_def
proof (rule reaches_seqE)
  let ?t = "snd (ensureChatToResponsesCreated (noteChunk chunk s))"
  show "reaches itemSpec p (ensureChatToResponsesCreated (noteChunk chunk s)) (live {})"
    by (rule created_live) (use assms in \<open>simp_all add: going_def\<close>)
  fix p' assume l: "live {} p' ?t"
  have "inOrder (ccc_Choices chunk @ cs) ?t" using assms by (simp add: going_def inOrder_def reasoned_def)
  from choices_inOrder [OF l this]
  show "reaches itemSpec p' (run_machine (chatChoice L ids) (ccc_Choices chunk) ?t) (going cs)"
    by (rule reaches_conseq) (simp add: going_def live_def)
qed

lemma chunks_going:
  assumes "going (concat (map ccc_Choices chunks) @ cs) p s"
  shows "reaches itemSpec p (run_machine (ChatCompletionsChunkToResponsesEvents L ids) chunks s) (going cs)"
  using assms
proof (induction chunks arbitrary: p s)
  case Nil
  then show ?case by (simp add: reaches_silent)
next
  case (Cons c chunks)
  show ?case
    unfolding run_machine_seqE
    by (rule reaches_seqE [OF chunk_going], use Cons.prems in simp, rule Cons.IH) simp
qed

section \<open>The finaliser\<close>

lemma reaches_if:
  "(b \<Longrightarrow> reaches spec p m Q) \<Longrightarrow> (\<not> b \<Longrightarrow> reaches spec p m' Q) \<Longrightarrow> reaches spec p (if b then m else m') Q"
  by simp

lemma live_unstarted:
  assumes "live C p s" and "\<not> slotStarted s a"
  shows "live (insert a C) p s"
proof -
  have "viewOf (insert a C) s = viewOf C s" using assms(2) by (auto simp: viewOf_def slotEnded_def)
  with assms(1) show ?thesis by (simp add: live_def follows_def)
qed

lemma synthesize_live:
  assumes "live {} p s"
  shows "reaches itemSpec p (synthesizeChatReasoningFallbackMessage ids s) (live {})"
  unfolding synthesizeChatReasoningFallbackMessage_def
  using assms textDelta_live [OF assms] by (simp add: reaches_silent)

lemma closeMessage_live:
  assumes "live {} p s"
  shows "reaches itemSpec p (closeChatMessageItem s) (live {Message_Slot})"
proof (cases "cr_MessageItemID s = []")
  case True
  then show ?thesis using live_unstarted [OF assms, of Message_Slot] by (simp add: closeChatMessageItem_def reaches_silent)
next
  case False
  have inside: "reaches itemSpec q (chatToResponsesEvent t e u) (\<lambda>q' u'. live {} q' u' \<and> cr_MessageItemID u' = cr_MessageItemID s \<and> cr_MessageIndex u' = cr_MessageIndex s)"
    if "live {} q u \<and> cr_MessageItemID u = cr_MessageItemID s \<and> cr_MessageIndex u = cr_MessageIndex s"
      "rse_OutputIndex e = cr_MessageIndex s" "rse_ItemID e = cr_MessageItemID s"
      "t \<in> set (partEvents ''message'')" for q u t e
    by (rule inside_live [where a = Message_Slot]) (use that False in \<open>simp_all add: slotEnded_def\<close>)
  show ?thesis
    unfolding closeChatMessageItem_def Let_def if_not_P [OF False]
  proof (rule reaches_seqE [where Q = "\<lambda>q u. live {} q u \<and> cr_MessageItemID u = cr_MessageItemID s \<and> cr_MessageIndex u = cr_MessageIndex s"])
    show "reaches itemSpec p (if \<not> cr_TextPartOpen s then ([], s)
        else seqE (chatToResponsesEvent ''response.output_text.done'' (zeroResponsesStreamEvent
                \<lparr>rse_OutputIndex := cr_MessageIndex s, rse_Text := cr_Text s, rse_ItemID := cr_MessageItemID s\<rparr>) s)
             (chatToResponsesEvent ''response.content_part.done'' (zeroResponsesStreamEvent
                \<lparr>rse_OutputIndex := cr_MessageIndex s, rse_ItemID := cr_MessageItemID s, rse_Part := Some (outputText (cr_Text s))\<rparr>)))
        (\<lambda>q u. live {} q u \<and> cr_MessageItemID u = cr_MessageItemID s \<and> cr_MessageIndex u = cr_MessageIndex s)"
      using assms by (auto simp: reaches_silent partEvents_def zero_records intro!: reaches_seqE [OF inside] inside)
  next
    fix q and u :: ChatCompletionsToResponsesStreamState
    assume u: "live {} q u \<and> cr_MessageItemID u = cr_MessageItemID s \<and> cr_MessageIndex u = cr_MessageIndex s"
    show "reaches itemSpec q (chatToResponsesEvent ''response.output_item.done'' (zeroResponsesStreamEvent
             \<lparr>rse_OutputIndex := cr_MessageIndex s, rse_Item := Some ((completedItem ''message'' (cr_MessageItemID s))
                \<lparr>ro_Role := ''assistant'', ro_Content := [outputText (cr_Text s)]\<rparr>)\<rparr>) u) (live {Message_Slot})"
      by (rule done_step) (use u False in \<open>simp_all add: slotEnded_def zero_records completedItem_def\<close>)
  qed
qed

lemma announce_places [simp]:
  "cr_ToolOutputIndex (snd (announceChatToolItem L k stored force s)) = cr_ToolOutputIndex s"
  "cr_ToolItemIDs (snd (announceChatToolItem L k stored force s)) = cr_ToolItemIDs s"
  by (simp_all add: announceChatToolItem_def functionCallDelta_def Let_def case_prod_unfold split: option.split)

lemma finishedToolItem_slot:
  assumes "toolsKept s" and "cr_ToolItemIDs s k = Some itemID"
  shows "slotItem s (Tool_Slot k) = (ro_ID (finishedToolItem L itemID k call s), ro_Type (finishedToolItem L itemID k call s))"
  using assms by (auto simp: finishedToolItem_def Let_def completedItem_def zero_records toolItemIDOf_def toolsKept_def split: prod.split)

lemma finishTool_live:
  assumes "live C p s" and started: "cr_toolAnnounced s k = Some True" and "Tool_Slot k \<notin> C"
    and places: "cr_ToolOutputIndex s k = Some i" "cr_ToolItemIDs s k = Some itemID"
  shows "reaches itemSpec p (finishChatToolItem L k itemID call s) (live (insert (Tool_Slot k) C))"
proof -
  let ?item = "finishedToolItem L itemID k call s"
  define I where "I q u \<longleftrightarrow> live C q u \<and> cr_toolAnnounced u k = Some True \<and> cr_ToolOutputIndex u k = Some i \<and>
    slotItem u (Tool_Slot k) = slotItem s (Tool_Slot k)" for q u
  have I: "I p s" using assms by (simp add: I_def)
  have item: "slotItem s (Tool_Slot k) = (ro_ID ?item, ro_Type ?item)"
    by (rule finishedToolItem_slot [OF liveD(7) [OF assms(1)] places(2)])
  have itemID: "fst (slotItem s (Tool_Slot k)) = itemID" using places by (simp add: toolItemIDOf_def)
  have inside: "reaches itemSpec q (chatToResponsesEvent t e u) I"
    if "I q u" "rse_OutputIndex e = i" "rse_ItemID e = itemID" "t \<in> set (partEvents (snd (slotItem s (Tool_Slot k))))" for q u t e
    by (rule inside_live [where a = "Tool_Slot k"])
       (use that assms(3) itemID in \<open>simp_all add: I_def slotEnded_def del: slotItem.simps\<close>)
  have finish: "reaches itemSpec q (chatToolItemDone i ?item u) (live (insert (Tool_Slot k) C))" if "I q u" for q u
    unfolding chatToolItemDone_def
    by (rule done_step) (use that assms(3) item in \<open>simp_all add: I_def slotEnded_def zero_records del: slotItem.simps\<close>)
  consider (custom) "cr_toolIsCustom s k = Some True" "cr_toolIsToolSearch s k \<noteq> Some True"
    | (search) "cr_toolIsCustom s k \<noteq> Some True" "cr_toolIsToolSearch s k = Some True"
    | (function_call) "cr_toolIsCustom s k \<noteq> Some True" "cr_toolIsToolSearch s k \<noteq> Some True"
    using liveD(7) [OF assms(1)] unfolding toolsKept_def by blast
  then show ?thesis
  proof cases
    case custom
    then show ?thesis
      unfolding finishChatToolItem_def Let_def places option.case
      by (simp only: if_True simp_thms)
         (intro reaches_seqE [where Q = I] reaches_if inside finish reaches_silent I;
          simp add: partEvents_def zero_records)
  next
    case search
    then show ?thesis
      using finish [OF I] by (simp add: finishChatToolItem_def Let_def places)
  next
    case function_call
    then show ?thesis
      unfolding finishChatToolItem_def Let_def places option.case
      by (simp only: if_False)
         (intro reaches_seqE [where Q = I] inside finish I; simp add: partEvents_def zero_records)
  qed
qed

lemma closeTool_live:
  assumes "live C p s" and k: "k \<in> storedKeys s" and "Tool_Slot k \<notin> C"
  shows "reaches itemSpec p (closeChatToolItem L k s) (live (insert (Tool_Slot k) C))"
proof -
  obtain call where call: "map_of (cr_ToolCalls s) k = Some call"
    using k unfolding storedKeys_def by (metis map_of_eq_None_iff not_None_eq)
  obtain i itemID where places: "cr_ToolOutputIndex s k = Some i" "cr_ToolItemIDs s k = Some itemID"
    using toolsKept_index [OF liveD(7) [OF assms(1)]] k unfolding storedKeys_def by blast
  have "k \<in> fst ` set (cr_ToolCalls s)" using k by (simp add: storedKeys_def)
  from announce_live [OF assms(1) this assms(3)] show ?thesis
    unfolding closeChatToolItem_def call option.case places(2)
    by (rule reaches_seqE) (rule finishTool_live; simp add: places assms(3))
qed

lemma close_frames [simp]:
  "cr_ReasoningOpen (snd (closeChatToolItem L k s)) = cr_ReasoningOpen s"
  "storedKeys (snd (closeChatToolItem L k s)) = storedKeys s"
  by (simp_all add: closeChatToolItem_def finishChatToolItem_def chatToolItemDone_def storedKeys_def Let_def split: option.split)

lemma closeTools_live:
  assumes "live C p s" and "set ks \<subseteq> storedKeys s" and "\<forall>k \<in> set ks. Tool_Slot k \<notin> C" and "distinct ks"
  shows "reaches itemSpec p (run_machine (closeChatToolItem L) ks s) (live (Tool_Slot ` set ks \<union> C))"
  using assms
proof (induction ks arbitrary: p s C)
  case Nil
  then show ?case by (simp add: reaches_silent)
next
  case (Cons k ks)
  have "reaches itemSpec q (run_machine (closeChatToolItem L) ks (snd (closeChatToolItem L k s))) (live (Tool_Slot ` set ks \<union> insert (Tool_Slot k) C))"
    if "live (insert (Tool_Slot k) C) q (snd (closeChatToolItem L k s))" for q
    by (rule Cons.IH [OF that]) (use Cons.prems in auto)
  with Cons.prems show ?case
    unfolding run_machine_seqE
    by (intro reaches_seqE [OF closeTool_live]) auto
qed

lemma complete_over:
  assumes "live C p s" and "\<And>a. slotStarted s a \<Longrightarrow> slotEnded C s a"
  shows "reaches itemSpec p (completeChatResponse L ids s) (\<lambda>q _. is_over q \<and> is_open q = [])"
proof -
  have "is_open p = []"
    by (rule viewed_over [OF liveD(6) [OF assms(1)]]) (use assms(2) in simp)
  with liveD [OF assms(1)] show ?thesis
    by (simp add: completeChatResponse_def chatToResponsesEvent_def reaches_def itemSpec_def itemEvent_def Let_def)
qed

lemma finalize_frames [simp]:
  "cr_ToolCalls (snd (closeChatReasoningItem s)) = cr_ToolCalls s"
  "cr_ToolCalls (snd (synthesizeChatReasoningFallbackMessage ids s)) = cr_ToolCalls s"
  "cr_ReasoningOpen (snd (synthesizeChatReasoningFallbackMessage ids s)) = cr_ReasoningOpen s"
  "cr_ToolCalls (snd (closeChatMessageItem s)) = cr_ToolCalls s"
  "cr_ReasoningOpen (snd (closeChatMessageItem s)) = cr_ReasoningOpen s"
  by (simp_all add: closeChatReasoningItem_def synthesizeChatReasoningFallbackMessage_def closeChatMessageItem_def
      chatTextDelta_def ensureChatToResponsesMessageItem_def ensureChatToResponsesTextPart_def Let_def)

lemma storedKeys_frames [simp]:
  "storedKeys (snd (ensureChatToResponsesCreated s)) = storedKeys s"
  "storedKeys (snd (closeChatReasoningItem s)) = storedKeys s"
  "storedKeys (snd (synthesizeChatReasoningFallbackMessage ids s)) = storedKeys s"
  "storedKeys (snd (closeChatMessageItem s)) = storedKeys s"
  by (simp_all add: storedKeys_def)

lemma closeTools_frames:
  "cr_ReasoningOpen (snd (run_machine (closeChatToolItem L) ks s)) = cr_ReasoningOpen s"
  "storedKeys (snd (run_machine (closeChatToolItem L) ks s)) = storedKeys s"
  by (induction ks arbitrary: s) simp_all

lemma toolIndices_set:
  assumes "distinct (map fst (cr_ToolCalls s))" and "storedKeys s = {0..<int n}"
  shows "set (toolIndices s) = storedKeys s" "distinct (toolIndices s)"
proof -
  have "length (cr_ToolCalls s) = card (storedKeys s)"
    using distinct_card [OF assms(1)] by (simp add: storedKeys_def)
  with assms(2) have "length (cr_ToolCalls s) = n" by simp
  then have "set (toolIndices s) = {0..<int n}" by (simp add: toolIndices_def image_int_atLeastLessThan)
  with assms(2) show "set (toolIndices s) = storedKeys s" by simp
  show "distinct (toolIndices s)" by (simp add: toolIndices_def distinct_map)
qed

text \<open>The finaliser ends every open item if the calls are numbered from 0 without a gap.\<close>

lemma finalize_over:
  assumes "follows {} p s" and "\<not> cr_CompletedSent s" and keys: "storedKeys s = {0..<int n}"
  shows "reaches itemSpec p (FinalizeChatCompletionsResponsesStream L ids s) (\<lambda>q _. is_over q \<and> is_open q = [])"
  unfolding FinalizeChatCompletionsResponsesStream_def if_not_P [OF assms(2)]
proof (rule reaches_seqE)+
  define K where "K u \<longleftrightarrow> storedKeys u = {0..<int n}" for u
  show "reaches itemSpec p (ensureChatToResponsesCreated s) (\<lambda>q u. live {} q u \<and> K u)"
    by (rule reaches_conseq [OF created_live [OF assms(1,2)]]) (use keys in \<open>simp add: K_def\<close>)
  show "reaches itemSpec q (closeChatReasoningItem u) (\<lambda>q u. live {} q u \<and> K u \<and> \<not> cr_ReasoningOpen u)"
    if "live {} q u \<and> K u" for q u
    by (rule reaches_conseq [OF closeReasoning_live]) (use that in \<open>simp_all add: K_def\<close>)
  show "reaches itemSpec q (synthesizeChatReasoningFallbackMessage ids u) (\<lambda>q u. live {} q u \<and> K u \<and> \<not> cr_ReasoningOpen u)"
    if "live {} q u \<and> K u \<and> \<not> cr_ReasoningOpen u" for q u
    by (rule reaches_conseq [OF synthesize_live]) (use that in \<open>simp_all add: K_def\<close>)
  show "reaches itemSpec q (closeChatMessageItem u) (\<lambda>q u. live {Message_Slot} q u \<and> K u \<and> \<not> cr_ReasoningOpen u)"
    if "live {} q u \<and> K u \<and> \<not> cr_ReasoningOpen u" for q u
    by (rule reaches_conseq [OF closeMessage_live]) (use that in \<open>simp_all add: K_def\<close>)
  let ?C = "Tool_Slot ` {0..<int n} \<union> {Message_Slot}"
  show "reaches itemSpec q (closeChatToolItems L u) (\<lambda>q u. live ?C q u \<and> K u \<and> \<not> cr_ReasoningOpen u)"
    if u: "live {Message_Slot} q u \<and> K u \<and> \<not> cr_ReasoningOpen u" for q u
  proof -
    have "distinct (map fst (cr_ToolCalls u))" using u by (simp add: live_def follows_def toolsKept_def)
    with u have ks: "set (toolIndices u) = {0..<int n}" "distinct (toolIndices u)" "storedKeys u = {0..<int n}"
      using toolIndices_set [of u n] by (simp_all add: K_def)
    from closeTools_live [of "{Message_Slot}" q u "toolIndices u" L] ks u
    have "reaches itemSpec q (closeChatToolItems L u) (live ?C)"
      by (auto simp: closeChatToolItems_def)
    then show ?thesis
      by (rule reaches_conseq) (use u in \<open>simp add: K_def closeChatToolItems_def closeTools_frames\<close>)
  qed
  show "reaches itemSpec q (completeChatResponse L ids u) (\<lambda>q _. is_over q \<and> is_open q = [])"
    if u: "live ?C q u \<and> K u \<and> \<not> cr_ReasoningOpen u" for q u
  proof (rule complete_over [where C = ?C])
    show "live ?C q u" using u by simp
    fix a assume "slotStarted u a"
    then show "slotEnded ?C u a"
      using u by (cases a) (auto simp: slotEnded_def K_def storedKeys_def live_def follows_def toolsKept_def)
  qed
qed

section \<open>The stream\<close>

lemma chunks_keys:
  "storedKeys (snd (run_machine (ChatCompletionsChunkToResponsesEvents L ids) chunks s)) =
     storedKeys s \<union> callIdx ` set (concat (map toolCallsOf chunks))"
  using run_machine_collect [of storedKeys, OF chunk_keys] by (simp add: image_UN)

lemma going_New:
  assumes "reasoningInOrder False False cs"
  shows "going cs newItemStream (NewChatCompletionsToResponsesStreamState responseID now names model)"
proof -
  let ?s = "NewChatCompletionsToResponsesStreamState responseID now names model"
  have "slotIndex ?s a = None" "\<not> slotStarted ?s a" for a
    by (cases a; simp add: NewChatCompletionsToResponsesStreamState_def)+
  then have "viewed newItemStream (viewOf {} ?s)" by (simp add: viewed_def newItemStream_def)
  moreover have "toolsKept ?s" by (simp add: toolsKept_def NewChatCompletionsToResponsesStreamState_def)
  moreover have "reasoned False False ?s" by (simp add: reasoned_def NewChatCompletionsToResponsesStreamState_def)
  ultimately show ?thesis
    using assms
    by (auto simp: going_def follows_def inOrder_def newItemStream_def NewChatCompletionsToResponsesStreamState_def)
qed

text \<open>
  C4: the Responses stream made of any Chat Completions stream whose tool calls are numbered from 0
  without a gap and whose reasoning is not resumed after the answer began is well formed: sequence
  numbers are consecutive, \<open>response.created\<close> comes first and once, every item is opened at a fresh
  output index, every event of an item carries the index and the identifier of an item that is open and
  is of the right type, every item is ended once, and \<open>response.completed\<close> is last and comes after the
  end of every item.
\<close>

theorem chatResponsesStream_wellformed:
  assumes "callIdx ` set (concat (map toolCallsOf chunks)) = {0..<int n}"
    and "reasoningInOrder False False (concat (map ccc_Choices chunks))"
  shows "\<exists>p. accepts_from itemSpec newItemStream
      (fst (chatResponsesRun L ids responseID now names model chunks)) = Some p \<and> is_over p \<and> is_open p = []"
proof -
  let ?s = "NewChatCompletionsToResponsesStreamState responseID now names model"
  let ?t = "snd (run_machine (ChatCompletionsChunkToResponsesEvents L ids) chunks ?s)"
  have "going (concat (map ccc_Choices chunks) @ []) newItemStream ?s" using going_New [OF assms(2)] by simp
  note run = chunks_going [OF this, of L ids]
  have keys: "storedKeys ?t = {0..<int n}"
    unfolding chunks_keys assms(1) by (simp add: storedKeys_def NewChatCompletionsToResponsesStreamState_def)
  have "reaches itemSpec newItemStream (chatResponsesRun L ids responseID now names model chunks)
      (\<lambda>q _. is_over q \<and> is_open q = [])"
    unfolding chatResponsesRun_def
    by (rule reaches_seqE [OF run]) (rule finalize_over [OF _ _ keys]; simp add: going_def)
  then show ?thesis by (simp add: reaches_def)
qed

section \<open>Instances\<close>

definition choiceChunk :: "string \<Rightarrow> string \<Rightarrow> ChatToolCall list \<Rightarrow> ChatCompletionsChunk" where
  "choiceChunk reasoning content calls =
     \<lparr>ccc_ID = ''c'', ccc_Object = [], ccc_Created = 0, ccc_Model = ''m'',
      ccc_Choices = [\<lparr>cck_Index = 0, cck_Delta = zeroChatDelta\<lparr>cd_ReasoningContent := Some reasoning,
        cd_Content := Some content, cd_ToolCalls := calls\<rparr>, cck_FinishReason = None\<rparr>],
      ccc_Usage = None, ccc_SystemFingerprint = [], ccc_ServiceTier = []\<rparr>"

definition callAt :: "int \<Rightarrow> string \<Rightarrow> ChatToolCall" where
  "callAt k arguments = \<lparr>ctc_Index = Some k, ctc_ID = ''call_1'', ctc_Type = ''function'',
     ctc_Function = \<lparr>cfc_Name = ''f'', cfc_Arguments = arguments\<rparr>\<rparr>"

definition noNames :: tool_names where
  "noNames = \<lparr>tn_CustomTools = [], tn_FunctionTools = [], tn_ToolSearchDeclared = False, tn_NamespaceTools = []\<rparr>"

lemma choiceChunk_simps [simp]:
  "toolCallsOf (choiceChunk r c calls) = calls"
  "map choiceReasoning (ccc_Choices (choiceChunk r c calls)) = [r]"
  "map answers (ccc_Choices (choiceChunk r c calls)) = [c \<noteq> [] \<or> calls \<noteq> []]"
  by (simp_all add: toolCallsOf_def choiceChunk_def zeroChatDelta_def choiceReasoning_def choiceText_def
      deltaReasoningText_def answers_def)

theorem chatResponsesStream_wellformed_witness:
  "\<exists>p. accepts_from itemSpec newItemStream
      (fst (chatResponsesRun plain_lib (\<lambda>_. ''a'') ''r'' 0 noNames ''m''
        [choiceChunk ''think'' [] [], choiceChunk [] ''hi'' [callAt 0 ''{'', callAt 1 ''{}''], choiceChunk [] [] [callAt 0 ''}'']]))
     = Some p \<and> is_over p \<and> is_open p = []"
proof (rule chatResponsesStream_wellformed [where n = 2])
  show "callIdx ` set (concat (map toolCallsOf [choiceChunk ''think'' [] [], choiceChunk [] ''hi'' [callAt 0 ''{'', callAt 1 ''{}''],
      choiceChunk [] [] [callAt 0 ''}'']])) = {0..<int 2}"
    by (auto simp: callIdx_def callAt_def)
  show "reasoningInOrder False False (concat (map ccc_Choices [choiceChunk ''think'' [] [],
      choiceChunk [] ''hi'' [callAt 0 ''{'', callAt 1 ''{}''], choiceChunk [] [] [callAt 0 ''}'']]))"
    by (simp add: choiceChunk_def zeroChatDelta_def choiceReasoning_def choiceText_def deltaReasoningText_def answers_def)
qed

text \<open>Both hypotheses are needed: a call numbered from 1 is never ended, and reasoning that is resumed is
  written for an item that was ended.\<close>

lemma call_from_one_never_ends:
  "accepts_from itemSpec newItemStream
     (fst (chatResponsesRun plain_lib (\<lambda>_. ''a'') ''r'' 0 noNames ''m'' [choiceChunk [] [] [callAt 1 ''{}'']])) = None"
  by code_simp

lemma resumed_reasoning_after_end:
  "accepts_from itemSpec newItemStream
     (fst (chatResponsesRun plain_lib (\<lambda>_. ''a'') ''r'' 0 noNames ''m''
        [choiceChunk ''think'' [] [], choiceChunk [] ''hi'' [], choiceChunk ''more'' [] []])) = None"
  by code_simp

end
