(* ===== verification/Antigravity_Stream.thy ===== *)
theory Antigravity_Stream
  imports Gateway_Prelude
begin

text \<open>
  The translator of Gemini answers for Anthropic clients, \<open>internal/pkg/antigravity\<close>: the answer
  types of \<open>gemini_types.go\<close> and \<open>claude_types.go\<close> (members that nothing here reads are left out) and
  the stream processor of \<open>stream_transformer.go\<close>.

  An event the code writes as \<open>event:\<close> and \<open>data:\<close> lines is a constructor with the members of its
  JSON object.  The arguments of a call are the JSON text of the decoded value.  Parsing of a
  \<open>data:\<close> line is a parameter.  Random identifiers are a sequence; the processor counts how many it
  has drawn.
\<close>

section \<open>Gemini answers\<close>

record GeminiInlineData =
  gi_MimeType :: string
  gi_Data :: string

record GeminiFunctionCall =
  gf_Name :: string
  gf_Args :: "string option"
  gf_ID :: string

text \<open>\<open>gp_HasText\<close>: the JSON object has a member \<open>text\<close>, which only the path that collects a stream asks.\<close>

record GeminiPart =
  gp_HasText :: bool
  gp_Text :: string
  gp_Thought :: bool
  gp_ThoughtSignature :: string
  gp_InlineData :: "GeminiInlineData option"
  gp_FunctionCall :: "GeminiFunctionCall option"

record GeminiGroundingWeb =
  gw_Title :: string
  gw_URI :: string

record GeminiGroundingChunk =
  gc_Web :: "GeminiGroundingWeb option"

record GeminiGroundingMetadata =
  gg_WebSearchQueries :: "string list"
  gg_GroundingChunks :: "GeminiGroundingChunk list"

record GeminiTokenDetail =
  gt_Modality :: string
  gt_TokenCount :: int

record GeminiUsageMetadata =
  gu_PromptTokenCount :: int
  gu_CandidatesTokenCount :: int
  gu_CachedContentTokenCount :: int
  gu_ThoughtsTokenCount :: int
  gu_CandidatesTokensDetails :: "GeminiTokenDetail list"

text \<open>The parts of a candidate's content; \<open>None\<close> is a candidate without content.\<close>

record GeminiCandidate =
  gd_Content :: "GeminiPart list option"
  gd_FinishReason :: string
  gd_GroundingMetadata :: "GeminiGroundingMetadata option"

record GeminiResponse =
  gr_Candidates :: "GeminiCandidate list"
  gr_UsageMetadata :: "GeminiUsageMetadata option"
  gr_ResponseID :: string

record V1InternalResponse =
  v1_Response :: GeminiResponse
  v1_ResponseID :: string

definition ImageOutputTokens :: "GeminiUsageMetadata \<Rightarrow> int" where
  "ImageOutputTokens m =
     (case find (\<lambda>d. gt_Modality d = ''IMAGE'') (gu_CandidatesTokensDetails m) of
        None \<Rightarrow> 0 | Some d \<Rightarrow> gt_TokenCount d)"

section \<open>Anthropic answers\<close>

record ClaudeContentItem =
  ci_Type :: string
  ci_Text :: string
  ci_Thinking :: string
  ci_Signature :: string
  ci_ID :: string
  ci_Name :: string
  ci_Input :: "string option"

definition zeroClaudeContentItem :: ClaudeContentItem where
  "zeroClaudeContentItem =
     \<lparr>ci_Type = [], ci_Text = [], ci_Thinking = [], ci_Signature = [], ci_ID = [], ci_Name = [], ci_Input = None\<rparr>"

record ClaudeUsage =
  us_InputTokens :: int
  us_OutputTokens :: int
  us_CacheCreationInputTokens :: int
  us_CacheReadInputTokens :: int
  us_ImageOutputTokens :: int

type_synonym usage_map = "(string \<times> int) list"

datatype usage_value = UsageStruct ClaudeUsage | UsageMap usage_map

datatype claude_delta =
    TextDelta string
  | ThinkingDelta string
  | SignatureDelta string
  | InputJSONDelta string

datatype claude_event =
    MessageStart string string usage_value
  | ContentBlockStart int ClaudeContentItem
  | ContentBlockDelta int claude_delta
  | ContentBlockStop int
  | MessageDelta string usage_value
  | MessageStop

text \<open>
  Gemini's prompt tokens include the cached ones, Anthropic's input tokens do not; thinking counts as
  output.
\<close>

definition geminiUsage :: "GeminiUsageMetadata \<Rightarrow> ClaudeUsage" where
  "geminiUsage m =
     (let cached = gu_CachedContentTokenCount m
      in \<lparr>us_InputTokens = gu_PromptTokenCount m - cached,
          us_OutputTokens = gu_CandidatesTokenCount m + gu_ThoughtsTokenCount m,
          us_CacheCreationInputTokens = 0, us_CacheReadInputTokens = cached,
          us_ImageOutputTokens = ImageOutputTokens m\<rparr>)"

definition zeroClaudeUsage :: ClaudeUsage where
  "zeroClaudeUsage =
     \<lparr>us_InputTokens = 0, us_OutputTokens = 0, us_CacheCreationInputTokens = 0, us_CacheReadInputTokens = 0,
      us_ImageOutputTokens = 0\<rparr>"

definition usageToMap :: "ClaudeUsage \<Rightarrow> usage_map" where
  "usageToMap u =
     [(''input_tokens'', us_InputTokens u), (''output_tokens'', us_OutputTokens u)] @
     (if us_CacheCreationInputTokens u > 0 then [(''cache_creation_input_tokens'', us_CacheCreationInputTokens u)] else []) @
     (if us_CacheReadInputTokens u > 0 then [(''cache_read_input_tokens'', us_CacheReadInputTokens u)] else []) @
     (if us_ImageOutputTokens u > 0 then [(''image_output_tokens'', us_ImageOutputTokens u)] else [])"

section \<open>Grounding\<close>

definition groundingLink :: "nat \<Rightarrow> GeminiGroundingWeb \<Rightarrow> string" where
  "groundingLink i web =
     (let title = TrimSpace (gw_Title web);
          title = (if title = [] then ''Source'' else title);
          uri = TrimSpace (gw_URI web);
          uri = (if uri = [] then ''#'' else uri)
      in ''['' @ Itoa (i + 1) @ ''] ['' @ title @ ''](''  @ uri @ '')'')"

definition groundingLinks :: "GeminiGroundingChunk list \<Rightarrow> string list" where
  "groundingLinks chunks =
     concat (map (\<lambda>(i, chunk). case gc_Web chunk of None \<Rightarrow> [] | Some web \<Rightarrow> [groundingLink i web])
       (List.enumerate 0 chunks))"

definition newline :: string where "newline = [CHR 0x0A]"

definition buildGroundingText :: "GeminiGroundingMetadata option \<Rightarrow> string" where
  "buildGroundingText grounding =
     (case grounding of
        None \<Rightarrow> []
      | Some g \<Rightarrow>
          (if gg_WebSearchQueries g = [] then []
           else newline @ newline @ ''---'' @ newline @ ''Web search queries: '' @ joinWith '', '' (gg_WebSearchQueries g)) @
          (if gg_GroundingChunks g = [] then []
           else
             let links = groundingLinks (gg_GroundingChunks g)
             in if links = [] then []
                else newline @ newline @ ''Sources:'' @ newline @ joinWith newline links))"

section \<open>The stream processor\<close>

datatype BlockType = BlockTypeNone | BlockTypeText | BlockTypeThinking | BlockTypeFunction

record StreamingProcessor =
  sp_blockType :: BlockType
  sp_blockIndex :: int
  sp_messageStartSent :: bool
  sp_messageStopSent :: bool
  sp_usedTool :: bool
  sp_pendingSignature :: string
  sp_trailingSignature :: string
  sp_originalModel :: string
  sp_webSearchQueries :: "string list"
  sp_groundingChunks :: "GeminiGroundingChunk list"
  sp_usageMapHook :: "(usage_map \<Rightarrow> usage_map) option"
  sp_usage :: ClaudeUsage
  sp_draws :: nat

type_synonym sp_result = "claude_event list \<times> StreamingProcessor"

text \<open>The four counters of the processor are kept as the usage record they are always put into.\<close>

definition NewStreamingProcessor :: "string \<Rightarrow> StreamingProcessor" where
  "NewStreamingProcessor originalModel =
     \<lparr>sp_blockType = BlockTypeNone, sp_blockIndex = 0, sp_messageStartSent = False, sp_messageStopSent = False,
      sp_usedTool = False, sp_pendingSignature = [], sp_trailingSignature = [], sp_originalModel = originalModel,
      sp_webSearchQueries = [], sp_groundingChunks = [], sp_usageMapHook = None, sp_usage = zeroClaudeUsage,
      sp_draws = 0\<rparr>"

definition SetUsageMapHook :: "(usage_map \<Rightarrow> usage_map) option \<Rightarrow> StreamingProcessor \<Rightarrow> StreamingProcessor" where
  "SetUsageMapHook fn p = p\<lparr>sp_usageMapHook := fn\<rparr>"

definition usageValue :: "ClaudeUsage \<Rightarrow> StreamingProcessor \<Rightarrow> usage_value" where
  "usageValue u p = (case sp_usageMapHook p of None \<Rightarrow> UsageStruct u | Some hook \<Rightarrow> UsageMap (hook (usageToMap u)))"

definition emitDelta :: "claude_delta \<Rightarrow> StreamingProcessor \<Rightarrow> sp_result" where
  "emitDelta d p = ([ContentBlockDelta (sp_blockIndex p) d], p)"

definition endBlock :: "StreamingProcessor \<Rightarrow> sp_result" where
  "endBlock p =
     (if sp_blockType p = BlockTypeNone then ([], p)
      else seqE
        (if sp_blockType p = BlockTypeThinking \<and> sp_pendingSignature p \<noteq> []
         then seqE (emitDelta (SignatureDelta (sp_pendingSignature p)) p) (\<lambda>p. ([], p\<lparr>sp_pendingSignature := []\<rparr>))
         else ([], p))
        (\<lambda>p. ([ContentBlockStop (sp_blockIndex p)],
              p\<lparr>sp_blockIndex := sp_blockIndex p + 1, sp_blockType := BlockTypeNone\<rparr>)))"

definition startBlock :: "BlockType \<Rightarrow> ClaudeContentItem \<Rightarrow> StreamingProcessor \<Rightarrow> sp_result" where
  "startBlock blockType contentBlock p =
     seqE (endBlock p) (\<lambda>p.
       ([ContentBlockStart (sp_blockIndex p) contentBlock], p\<lparr>sp_blockType := blockType\<rparr>))"

definition textBlock :: "string \<Rightarrow> ClaudeContentItem" where
  "textBlock text = zeroClaudeContentItem\<lparr>ci_Type := ''text'', ci_Text := text\<rparr>"

definition thinkingBlock :: "string \<Rightarrow> string \<Rightarrow> ClaudeContentItem" where
  "thinkingBlock thinking signature =
     zeroClaudeContentItem\<lparr>ci_Type := ''thinking'', ci_Thinking := thinking, ci_Signature := signature\<rparr>"

definition emitEmptyThinkingWithSignature :: "string \<Rightarrow> StreamingProcessor \<Rightarrow> sp_result" where
  "emitEmptyThinkingWithSignature signature p =
     seqE (seqE (seqE (startBlock BlockTypeThinking (thinkingBlock [] []) p)
       (emitDelta (ThinkingDelta [])))
       (emitDelta (SignatureDelta signature)))
       endBlock"

definition flushTrailing :: "StreamingProcessor \<Rightarrow> sp_result" where
  "flushTrailing p =
     (if sp_trailingSignature p = [] then ([], p)
      else seqE (seqE (endBlock p) (emitEmptyThinkingWithSignature (sp_trailingSignature p)))
        (\<lambda>p. ([], p\<lparr>sp_trailingSignature := []\<rparr>)))"

definition continueBlock :: "BlockType \<Rightarrow> ClaudeContentItem \<Rightarrow> StreamingProcessor \<Rightarrow> sp_result" where
  "continueBlock blockType contentBlock p =
     (if sp_blockType p \<noteq> blockType then startBlock blockType contentBlock p else ([], p))"

definition processThinking :: "string \<Rightarrow> string \<Rightarrow> StreamingProcessor \<Rightarrow> sp_result" where
  "processThinking text signature p =
     seqE (seqE (seqE (flushTrailing p)
       (continueBlock BlockTypeThinking (thinkingBlock [] [])))
       (\<lambda>p. if text = [] then ([], p) else emitDelta (ThinkingDelta text) p))
       (\<lambda>p. ([], if signature = [] then p else p\<lparr>sp_pendingSignature := signature\<rparr>))"

definition processText :: "string \<Rightarrow> string \<Rightarrow> StreamingProcessor \<Rightarrow> sp_result" where
  "processText text signature p =
     (if text = [] then ([], if signature = [] then p else p\<lparr>sp_trailingSignature := signature\<rparr>)
      else seqE (flushTrailing p) (\<lambda>p.
        if signature \<noteq> [] then
          seqE (seqE (seqE (startBlock BlockTypeText (textBlock []) p)
            (emitDelta (TextDelta text)))
            endBlock)
            (emitEmptyThinkingWithSignature signature)
        else
          seqE (continueBlock BlockTypeText (textBlock []) p)
            (emitDelta (TextDelta text))))"

text \<open>\<open>toolID\<close> of a call: its own, or its name with random characters.\<close>

definition toolID :: "(nat \<Rightarrow> string) \<Rightarrow> GeminiFunctionCall \<Rightarrow> nat \<Rightarrow> string" where
  "toolID randomID fc draws = (if gf_ID fc = [] then gf_Name fc @ ''-'' @ randomID draws else gf_ID fc)"

definition drawn :: "GeminiFunctionCall \<Rightarrow> nat \<Rightarrow> nat" where
  "drawn fc draws = (if gf_ID fc = [] then Suc draws else draws)"

definition processFunctionCall ::
  "(nat \<Rightarrow> string) \<Rightarrow> GeminiFunctionCall \<Rightarrow> string \<Rightarrow> StreamingProcessor \<Rightarrow> sp_result" where
  "processFunctionCall randomID fc signature p =
     (let toolUse = zeroClaudeContentItem\<lparr>ci_Type := ''tool_use'', ci_ID := toolID randomID fc (sp_draws p),
            ci_Name := gf_Name fc, ci_Input := Some ''{}'', ci_Signature := signature\<rparr>
      in seqE (seqE
        (startBlock BlockTypeFunction toolUse (p\<lparr>sp_usedTool := True, sp_draws := drawn fc (sp_draws p)\<rparr>))
        (\<lambda>p. case gf_Args fc of None \<Rightarrow> ([], p) | Some argsJSON \<Rightarrow> emitDelta (InputJSONDelta argsJSON) p))
        endBlock)"

definition markdownImage :: "GeminiInlineData \<Rightarrow> string" where
  "markdownImage d = ''![image](data:'' @ gi_MimeType d @ '';base64,'' @ gi_Data d @ '')''"

definition processPart :: "(nat \<Rightarrow> string) \<Rightarrow> GeminiPart \<Rightarrow> StreamingProcessor \<Rightarrow> sp_result" where
  "processPart randomID part p =
     (let signature = gp_ThoughtSignature part
      in case gp_FunctionCall part of
           Some fc \<Rightarrow> seqE (flushTrailing p) (processFunctionCall randomID fc signature)
         | None \<Rightarrow>
             seqE
               (if gp_Text part \<noteq> [] \<or> gp_Thought part then
                  (if gp_Thought part then processThinking (gp_Text part) signature p
                   else processText (gp_Text part) signature p)
                else ([], p))
               (\<lambda>p. case gp_InlineData part of
                  None \<Rightarrow> ([], p)
                | Some d \<Rightarrow> if gi_Data d = [] then ([], p) else processText (markdownImage d) [] p))"

definition captureGrounding :: "GeminiGroundingMetadata option \<Rightarrow> StreamingProcessor \<Rightarrow> StreamingProcessor" where
  "captureGrounding grounding p =
     (case grounding of
        None \<Rightarrow> p
      | Some g \<Rightarrow>
          let p = (if gg_WebSearchQueries g \<noteq> [] \<and> sp_webSearchQueries p = []
                   then p\<lparr>sp_webSearchQueries := gg_WebSearchQueries g\<rparr> else p)
          in if gg_GroundingChunks g \<noteq> [] \<and> sp_groundingChunks p = []
             then p\<lparr>sp_groundingChunks := gg_GroundingChunks g\<rparr> else p)"

definition emitMessageStart :: "string \<Rightarrow> V1InternalResponse \<Rightarrow> StreamingProcessor \<Rightarrow> sp_result" where
  "emitMessageStart msgID v1Resp p =
     (if sp_messageStartSent p then ([], p)
      else
        let usage = (case gr_UsageMetadata (v1_Response v1Resp) of None \<Rightarrow> zeroClaudeUsage | Some m \<Rightarrow> geminiUsage m);
            responseID = v1_ResponseID v1Resp;
            responseID = (if responseID = [] then gr_ResponseID (v1_Response v1Resp) else responseID);
            responseID = (if responseID = [] then msgID else responseID)
        in ([MessageStart responseID (sp_originalModel p) (usageValue usage p)], p\<lparr>sp_messageStartSent := True\<rparr>))"

definition emitGrounding :: "StreamingProcessor \<Rightarrow> sp_result" where
  "emitGrounding p =
     (if sp_webSearchQueries p = [] \<and> sp_groundingChunks p = [] then ([], p)
      else
        let groundingText = buildGroundingText (Some \<lparr>gg_WebSearchQueries = sp_webSearchQueries p,
              gg_GroundingChunks = sp_groundingChunks p\<rparr>)
        in if groundingText = [] then ([], p)
           else seqE (seqE (startBlock BlockTypeText (textBlock []) p)
             (emitDelta (TextDelta groundingText)))
             endBlock)"

definition geminiStopReason :: "bool \<Rightarrow> string \<Rightarrow> string" where
  "geminiStopReason usedTool finishReason =
     (if usedTool then ''tool_use'' else if finishReason = ''MAX_TOKENS'' then ''max_tokens'' else ''end_turn'')"

definition emitFinish :: "string \<Rightarrow> StreamingProcessor \<Rightarrow> sp_result" where
  "emitFinish finishReason p =
     seqE (seqE (seqE (seqE (endBlock p) flushTrailing) emitGrounding)
       (\<lambda>p. ([MessageDelta (geminiStopReason (sp_usedTool p) finishReason) (usageValue (sp_usage p) p)], p)))
       (\<lambda>p. if sp_messageStopSent p then ([], p) else ([MessageStop], p\<lparr>sp_messageStopSent := True\<rparr>))"

text \<open>The body of \<open>ProcessLine\<close> for a parsed answer.\<close>

definition processResponse ::
  "(nat \<Rightarrow> string) \<Rightarrow> string \<Rightarrow> V1InternalResponse \<Rightarrow> StreamingProcessor \<Rightarrow> sp_result" where
  "processResponse randomID msgID v1Resp p =
     (let geminiResp = v1_Response v1Resp
      in seqE (seqE (seqE
        (emitMessageStart msgID v1Resp p)
        (\<lambda>p. ([], case gr_UsageMetadata geminiResp of None \<Rightarrow> p | Some m \<Rightarrow> p\<lparr>sp_usage := geminiUsage m\<rparr>)))
        (\<lambda>p. case gr_Candidates geminiResp of
               [] \<Rightarrow> ([], p)
             | c # _ \<Rightarrow> (case gd_Content c of None \<Rightarrow> ([], p) | Some parts \<Rightarrow> run_machine (processPart randomID) parts p)))
        (\<lambda>p. case gr_Candidates geminiResp of
               [] \<Rightarrow> ([], p)
             | c # _ \<Rightarrow>
                 let p = captureGrounding (gd_GroundingMetadata c) p
                 in if gd_FinishReason c = [] then ([], p) else emitFinish (gd_FinishReason c) p))"

record gemini_parser =
  parse_v1 :: "string \<Rightarrow> V1InternalResponse option"
  parse_direct :: "string \<Rightarrow> GeminiResponse option"

text \<open>The answer in a line, if there is one.\<close>

definition parseLine :: "gemini_parser \<Rightarrow> string \<Rightarrow> V1InternalResponse option" where
  "parseLine J line =
     (let line = TrimSpace line
      in if line = [] \<or> \<not> HasPrefix line ''data:'' then None
         else
           let data = TrimSpace (fst (CutPrefix line ''data:''))
           in if data = [] \<or> data = ''[DONE]'' then None
              else case parse_v1 J data of
                Some v1 \<Rightarrow> Some v1
              | None \<Rightarrow> (case parse_direct J data of
                  None \<Rightarrow> None
                | Some direct \<Rightarrow> Some \<lparr>v1_Response = direct, v1_ResponseID = gr_ResponseID direct\<rparr>))"

definition ProcessLine ::
  "gemini_parser \<Rightarrow> (nat \<Rightarrow> string) \<Rightarrow> string \<Rightarrow> string \<Rightarrow> StreamingProcessor \<Rightarrow> sp_result" where
  "ProcessLine J randomID msgID line p =
     (case parseLine J line of None \<Rightarrow> ([], p) | Some v1Resp \<Rightarrow> processResponse randomID msgID v1Resp p)"

definition Finish :: "StreamingProcessor \<Rightarrow> sp_result" where
  "Finish p =
     (if \<not> sp_messageStartSent p then ([], p)
      else if sp_messageStopSent p then ([], p) else emitFinish [] p)"

text \<open>A whole upstream answer, line by line, and the end of it.\<close>

definition antigravityStream ::
  "gemini_parser \<Rightarrow> (nat \<Rightarrow> string) \<Rightarrow> string \<Rightarrow> string list \<Rightarrow> StreamingProcessor \<Rightarrow> sp_result" where
  "antigravityStream J randomID msgID lines p = seqE (run_machine (ProcessLine J randomID msgID) lines p) Finish"

section \<open>The specification\<close>

text \<open>One message: its start, blocks in order with increments of their type, its delta, its stop.\<close>

record message_phase =
  mp_started :: bool
  mp_open :: BlockType
  mp_index :: int
  mp_ending :: bool
  mp_over :: bool

definition newMessage :: message_phase where
  "newMessage = \<lparr>mp_started = False, mp_open = BlockTypeNone, mp_index = 0, mp_ending = False, mp_over = False\<rparr>"

definition blockTypeOf :: "ClaudeContentItem \<Rightarrow> BlockType" where
  "blockTypeOf item =
     (if ci_Type item = ''text'' then BlockTypeText else if ci_Type item = ''thinking'' then BlockTypeThinking
      else if ci_Type item = ''tool_use'' then BlockTypeFunction else BlockTypeNone)"

fun deltaFits :: "BlockType \<Rightarrow> claude_delta \<Rightarrow> bool" where
  "deltaFits t (TextDelta _) = (t = BlockTypeText)"
| "deltaFits t (ThinkingDelta _) = (t = BlockTypeThinking)"
| "deltaFits t (SignatureDelta _) = (t = BlockTypeThinking)"
| "deltaFits t (InputJSONDelta _) = (t = BlockTypeFunction)"

fun contentSpec :: "message_phase \<Rightarrow> claude_event \<Rightarrow> message_phase option" where
  "contentSpec m (ContentBlockStart i item) =
     (if mp_open m = BlockTypeNone \<and> i = mp_index m \<and> blockTypeOf item \<noteq> BlockTypeNone
      then Some (m\<lparr>mp_open := blockTypeOf item\<rparr>) else None)"
| "contentSpec m (ContentBlockDelta i d) =
     (if i = mp_index m \<and> deltaFits (mp_open m) d then Some m else None)"
| "contentSpec m (ContentBlockStop i) =
     (if i = mp_index m \<and> mp_open m \<noteq> BlockTypeNone
      then Some (m\<lparr>mp_open := BlockTypeNone, mp_index := mp_index m + 1\<rparr>) else None)"
| "contentSpec m (MessageDelta _ _) =
     (if mp_open m = BlockTypeNone then Some (m\<lparr>mp_ending := True\<rparr>) else None)"
| "contentSpec m e = None"

definition messageSpec :: "message_phase \<Rightarrow> claude_event \<Rightarrow> message_phase option" where
  "messageSpec m e =
     (if mp_over m then None
      else case e of
        MessageStart _ _ _ \<Rightarrow> if mp_started m then None else Some (m\<lparr>mp_started := True\<rparr>)
      | MessageStop \<Rightarrow> if mp_ending m then Some (m\<lparr>mp_over := True\<rparr>) else None
      | _ \<Rightarrow> if \<not> mp_started m \<or> mp_ending m then None else contentSpec m e)"

section \<open>The processor follows it\<close>

definition phaseOf :: "StreamingProcessor \<Rightarrow> message_phase" where
  "phaseOf p =
     \<lparr>mp_started = sp_messageStartSent p, mp_open = sp_blockType p, mp_index = sp_blockIndex p,
      mp_ending = sp_messageStopSent p, mp_over = sp_messageStopSent p\<rparr>"

definition running :: "StreamingProcessor \<Rightarrow> bool" where
  "running p \<longleftrightarrow> sp_messageStartSent p \<and> \<not> sp_messageStopSent p"

lemmas block_ops = emitDelta_def endBlock_def startBlock_def emitEmptyThinkingWithSignature_def

lemma emitDelta_triple:
  "triple messageSpec phaseOf (\<lambda>p. running p \<and> sp_blockType p = t \<and> deltaFits t d) (emitDelta d) (\<lambda>p. running p \<and> sp_blockType p = t)"
  by (rule tripleI) (auto simp: emitDelta_def messageSpec_def phaseOf_def running_def)

lemma endBlock_triple:
  "triple messageSpec phaseOf running endBlock (\<lambda>p. running p \<and> sp_blockType p = BlockTypeNone)"
  by (rule tripleI) (auto simp: block_ops messageSpec_def phaseOf_def running_def)

lemma startBlock_triple:
  assumes "blockTypeOf item = t" and "t \<noteq> BlockTypeNone"
  shows "triple messageSpec phaseOf running (startBlock t item) (\<lambda>p. running p \<and> sp_blockType p = t)"
  unfolding startBlock_def
  by (rule triple_seqE [OF endBlock_triple], rule tripleI)
     (use assms in \<open>auto simp: messageSpec_def phaseOf_def running_def\<close>)

lemma blockTypeOf_blocks [simp]:
  "blockTypeOf (textBlock x) = BlockTypeText" "blockTypeOf (thinkingBlock x y) = BlockTypeThinking"
  by (simp_all add: blockTypeOf_def textBlock_def thinkingBlock_def)

abbreviation keeps :: "(StreamingProcessor \<Rightarrow> sp_result) \<Rightarrow> bool" where
  "keeps m \<equiv> triple messageSpec phaseOf running m running"

abbreviation (input) within :: "BlockType \<Rightarrow> StreamingProcessor \<Rightarrow> bool" where
  "within t \<equiv> \<lambda>p. running p \<and> sp_blockType p = t"

lemma delta_triple: "deltaFits t d \<Longrightarrow> triple messageSpec phaseOf (within t) (emitDelta d) (within t)"
  by (rule triple_conseq [OF emitDelta_triple [where t = t]]) simp_all

lemma delta_keeps: "deltaFits t d \<Longrightarrow> triple messageSpec phaseOf (within t) (emitDelta d) running"
  by (rule triple_conseq [OF delta_triple [of t]]) simp_all

lemma end_keeps: "keeps endBlock"
  by (rule triple_conseq [OF endBlock_triple]) simp_all

lemma within_end: "triple messageSpec phaseOf (within t) endBlock running"
  by (rule triple_conseq [OF end_keeps]) simp_all

lemma silent_keeps: "(\<And>p. running (g p) = running p \<and> phaseOf (g p) = phaseOf p) \<Longrightarrow> keeps (\<lambda>p. ([], g p))"
  by (rule triple_silent) simp

lemma emptyThinking_keeps: "keeps (emitEmptyThinkingWithSignature sig)"
  unfolding emitEmptyThinkingWithSignature_def
  by (rule triple_seqE [where Q = "within BlockTypeThinking"], rule triple_seqE [where Q = "within BlockTypeThinking"],
      rule triple_seqE [where Q = "within BlockTypeThinking"])
     (rule startBlock_triple delta_triple within_end; simp)+

lemma flushTrailing_keeps: "keeps flushTrailing"
proof -
  have m: "flushTrailing = (\<lambda>p. if sp_trailingSignature p = [] then ([], p)
      else seqE (seqE (endBlock p) (emitEmptyThinkingWithSignature (sp_trailingSignature p)))
        (\<lambda>p. ([], p\<lparr>sp_trailingSignature := []\<rparr>)))"
    by (simp add: fun_eq_iff flushTrailing_def)
  have "keeps (\<lambda>p. seqE (seqE (endBlock p) (emitEmptyThinkingWithSignature (sp_trailingSignature p)))
        (\<lambda>p. ([], p\<lparr>sp_trailingSignature := []\<rparr>)))"
    by (rule triple_seqE [where Q = running], rule triple_seqE [where Q = running], rule end_keeps, rule emptyThinking_keeps,
        rule silent_keeps, simp add: running_def phaseOf_def)
  then show ?thesis by (simp add: m triple_def)
qed

lemma continueBlock_triple:
  assumes "blockTypeOf item = t" and "t \<noteq> BlockTypeNone"
  shows "triple messageSpec phaseOf running (continueBlock t item) (within t)"
  unfolding continueBlock_def
  by (rule triple_if) (use startBlock_triple [OF assms] in \<open>simp_all add: triple_def\<close>)

lemma processThinking_keeps: "keeps (processThinking text signature)"
  unfolding processThinking_def
proof (rule triple_seqE [where Q = running], rule triple_seqE [where Q = "within BlockTypeThinking"], rule triple_seqE [where Q = running])
  show "triple messageSpec phaseOf (within BlockTypeThinking)
      (\<lambda>p. if text = [] then ([], p) else emitDelta (ThinkingDelta text) p) running" for t
    using delta_keeps [of BlockTypeThinking "ThinkingDelta text"] by (simp add: triple_def)
  show "keeps (\<lambda>p. ([], if signature = [] then p else p\<lparr>sp_pendingSignature := signature\<rparr>))"
    by (rule silent_keeps) (simp add: running_def phaseOf_def)
qed (simp_all add: flushTrailing_keeps continueBlock_triple)

lemma processText_keeps: "keeps (processText text signature)"
proof -
  have signed: "keeps (\<lambda>p. seqE (seqE (seqE (startBlock BlockTypeText (textBlock []) p)
            (emitDelta (TextDelta text))) endBlock) (emitEmptyThinkingWithSignature signature))"
    by (rule triple_seqE [where Q = running], rule triple_seqE [where Q = "within BlockTypeText"],
        rule triple_seqE [where Q = "within BlockTypeText"])
       (simp_all add: startBlock_triple delta_triple within_end emptyThinking_keeps)
  have plain: "keeps (\<lambda>p. seqE (continueBlock BlockTypeText (textBlock []) p) (emitDelta (TextDelta text)))"
    by (rule triple_seqE [where Q = "within BlockTypeText"]) (simp_all add: continueBlock_triple delta_keeps)
  have "keeps (\<lambda>p. seqE (flushTrailing p) (\<lambda>p. if signature \<noteq> [] then
          seqE (seqE (seqE (startBlock BlockTypeText (textBlock []) p) (emitDelta (TextDelta text))) endBlock)
            (emitEmptyThinkingWithSignature signature)
        else seqE (continueBlock BlockTypeText (textBlock []) p) (emitDelta (TextDelta text))))"
    by (rule triple_seqE [OF flushTrailing_keeps], cases "signature = []") (use signed plain in simp_all)
  moreover have "keeps (\<lambda>p. ([], if signature = [] then p else p\<lparr>sp_trailingSignature := signature\<rparr>))"
    by (rule silent_keeps) (simp add: running_def phaseOf_def)
  ultimately show ?thesis by (cases "text = []") (simp_all add: processText_def [abs_def])
qed

lemma processFunctionCall_keeps: "keeps (processFunctionCall randomID fc signature)"
proof -
  have args: "triple messageSpec phaseOf (within BlockTypeFunction)
      (\<lambda>p. case gf_Args fc of None \<Rightarrow> ([], p) | Some argsJSON \<Rightarrow> emitDelta (InputJSONDelta argsJSON) p) running"
    using delta_keeps [of BlockTypeFunction] by (cases "gf_Args fc") (simp_all add: triple_def)
  have call: "keeps (\<lambda>p. seqE (seqE (startBlock BlockTypeFunction item p)
        (\<lambda>p. case gf_Args fc of None \<Rightarrow> ([], p) | Some argsJSON \<Rightarrow> emitDelta (InputJSONDelta argsJSON) p)) endBlock)"
    if "blockTypeOf item = BlockTypeFunction" for item
    by (rule triple_seqE [where Q = running], rule triple_seqE [where Q = "within BlockTypeFunction"])
       (rule startBlock_triple args end_keeps; simp add: that)+
  let ?item = "\<lambda>p. zeroClaudeContentItem\<lparr>ci_Type := ''tool_use'', ci_ID := toolID randomID fc (sp_draws p),
            ci_Name := gf_Name fc, ci_Input := Some ''{}'', ci_Signature := signature\<rparr>"
  have "blockTypeOf (?item p) = BlockTypeFunction" for p by (simp add: blockTypeOf_def)
  note call = tripleD [OF call [OF this]]
  have same: "running (p\<lparr>sp_usedTool := True, sp_draws := n\<rparr>) = running p"
    "phaseOf (p\<lparr>sp_usedTool := True, sp_draws := n\<rparr>) = phaseOf p" for p n
    by (simp_all add: running_def phaseOf_def)
  show ?thesis
    unfolding processFunctionCall_def Let_def
  proof (rule tripleI)
    fix p :: StreamingProcessor assume p: "running p"
    let ?p = "p\<lparr>sp_usedTool := True, sp_draws := drawn fc (sp_draws p)\<rparr>"
    from p have "running ?p" by (simp only: same)
    note c = call [OF this, of p]
    show "running (snd (seqE (seqE (startBlock BlockTypeFunction (?item p) ?p)
        (\<lambda>p. case gf_Args fc of None \<Rightarrow> ([], p) | Some argsJSON \<Rightarrow> emitDelta (InputJSONDelta argsJSON) p)) endBlock))"
      by (rule c(1))
    show "accepts_from messageSpec (phaseOf p) (fst (seqE (seqE (startBlock BlockTypeFunction (?item p) ?p)
        (\<lambda>p. case gf_Args fc of None \<Rightarrow> ([], p) | Some argsJSON \<Rightarrow> emitDelta (InputJSONDelta argsJSON) p)) endBlock))
      = Some (phaseOf (snd (seqE (seqE (startBlock BlockTypeFunction (?item p) ?p)
        (\<lambda>p. case gf_Args fc of None \<Rightarrow> ([], p) | Some argsJSON \<Rightarrow> emitDelta (InputJSONDelta argsJSON) p)) endBlock)))"
      by (rule c(2) [unfolded same])
  qed
qed

lemma processPart_keeps: "keeps (processPart randomID part)"
proof (cases "gp_FunctionCall part")
  case (Some fc)
  have "keeps (\<lambda>p. seqE (flushTrailing p) (processFunctionCall randomID fc (gp_ThoughtSignature part)))"
    by (rule triple_seqE [OF flushTrailing_keeps processFunctionCall_keeps])
  with Some show ?thesis by (simp add: processPart_def [abs_def] Let_def)
next
  case None
  have skip: "keeps (\<lambda>p. ([], p))" by (rule silent_keeps) simp
  have texts: "keeps (\<lambda>p. if gp_Text part \<noteq> [] \<or> gp_Thought part then
                  (if gp_Thought part then processThinking (gp_Text part) (gp_ThoughtSignature part) p
                   else processText (gp_Text part) (gp_ThoughtSignature part) p)
                else ([], p))"
    by (cases "gp_Text part \<noteq> [] \<or> gp_Thought part"; cases "gp_Thought part")
       (simp_all add: processThinking_keeps processText_keeps skip)
  have image: "keeps (\<lambda>p. case gp_InlineData part of None \<Rightarrow> ([], p)
      | Some d \<Rightarrow> if gi_Data d = [] then ([], p) else processText (markdownImage d) [] p)"
  proof (cases "gp_InlineData part")
    case (Some d)
    then show ?thesis by (cases "gi_Data d = []") (simp_all add: processText_keeps skip)
  qed (simp add: skip)
  from triple_seqE [OF texts image] None show ?thesis
    by (simp add: processPart_def [abs_def] Let_def)
qed

lemma emitGrounding_keeps: "triple messageSpec phaseOf (within BlockTypeNone) emitGrounding (within BlockTypeNone)"
proof -
  have "triple messageSpec phaseOf running (\<lambda>p. seqE (seqE (startBlock BlockTypeText (textBlock []) p)
      (emitDelta (TextDelta x))) endBlock) (within BlockTypeNone)" for x
    by (rule triple_seqE [where Q = "within BlockTypeText"], rule triple_seqE [where Q = "within BlockTypeText"])
       (rule startBlock_triple delta_triple triple_conseq [OF endBlock_triple]; simp)+
  then show ?thesis by (simp add: triple_def emitGrounding_def Let_def)
qed

definition ended :: "StreamingProcessor \<Rightarrow> bool" where
  "ended p \<longleftrightarrow> sp_messageStartSent p \<and> sp_messageStopSent p"

lemma flushTrailing_none: "triple messageSpec phaseOf (within BlockTypeNone) flushTrailing (within BlockTypeNone)"
proof -
  have "sp_blockType (snd (flushTrailing p)) = BlockTypeNone" if "sp_blockType p = BlockTypeNone" for p
    using that by (simp add: flushTrailing_def emitEmptyThinkingWithSignature_def endBlock_def)
  with flushTrailing_keeps show ?thesis by (simp add: triple_def)
qed

lemma closing_triple:
  "triple messageSpec phaseOf (within BlockTypeNone)
     (\<lambda>p. seqE ([MessageDelta (geminiStopReason (sp_usedTool p) finishReason) (usageValue (sp_usage p) p)], p)
       (\<lambda>p. if sp_messageStopSent p then ([], p) else ([MessageStop], p\<lparr>sp_messageStopSent := True\<rparr>))) ended"
  by (rule tripleI) (simp_all add: running_def ended_def messageSpec_def phaseOf_def)

lemma emitFinish_triple: "triple messageSpec phaseOf running (emitFinish finishReason) ended"
proof -
  show ?thesis
    unfolding emitFinish_def seqE_assoc
    by (rule triple_seqE [OF endBlock_triple], rule triple_seqE [OF flushTrailing_none],
        rule triple_seqE [OF emitGrounding_keeps], rule closing_triple)
qed

section \<open>Whole streams\<close>

definition finishes :: "V1InternalResponse \<Rightarrow> bool" where
  "finishes r = (case gr_Candidates (v1_Response r) of [] \<Rightarrow> False | c # _ \<Rightarrow> gd_FinishReason c \<noteq> [])"

fun finishLast :: "V1InternalResponse list \<Rightarrow> bool" where
  "finishLast [] = True"
| "finishLast (r # rs) = ((finishes r \<longrightarrow> rs = []) \<and> finishLast rs)"

definition untilFinish :: "bool \<Rightarrow> StreamingProcessor \<Rightarrow> bool" where
  "untilFinish b p = (if b then ended p else running p)"

lemma messageStart_triple:
  "triple messageSpec phaseOf (\<lambda>p. \<not> sp_messageStopSent p) (emitMessageStart msgID r) running"
  by (rule tripleI) (auto simp: emitMessageStart_def Let_def running_def messageSpec_def phaseOf_def)

lemma captureGrounding_same: "running (captureGrounding g p) = running p" "phaseOf (captureGrounding g p) = phaseOf p"
  by (simp_all add: captureGrounding_def running_def phaseOf_def Let_def split: option.split)

lemma processResponse_triple:
  "triple messageSpec phaseOf (\<lambda>p. \<not> sp_messageStopSent p) (processResponse randomID msgID r) (untilFinish (finishes r))"
proof -
  let ?resp = "v1_Response r"
  have usage: "keeps (\<lambda>p. ([], case gr_UsageMetadata ?resp of None \<Rightarrow> p | Some m \<Rightarrow> p\<lparr>sp_usage := geminiUsage m\<rparr>))"
    by (rule silent_keeps) (simp add: running_def phaseOf_def split: option.split)
  have skip: "keeps (Pair [])" by (rule triple_skip)
  have parts: "keeps (\<lambda>p. case gr_Candidates ?resp of [] \<Rightarrow> ([], p)
      | c # _ \<Rightarrow> (case gd_Content c of None \<Rightarrow> ([], p) | Some parts \<Rightarrow> run_machine (processPart randomID) parts p))"
    using triple_run [OF processPart_keeps] skip by (cases "gr_Candidates ?resp"; cases "gd_Content (hd (gr_Candidates ?resp))") auto
  have finish: "triple messageSpec phaseOf running (\<lambda>p. case gr_Candidates ?resp of [] \<Rightarrow> ([], p)
      | c # _ \<Rightarrow> let p = captureGrounding (gd_GroundingMetadata c) p
                 in if gd_FinishReason c = [] then ([], p) else emitFinish (gd_FinishReason c) p) (untilFinish (finishes r))"
  proof (cases "gr_Candidates ?resp")
    case Nil
    then show ?thesis by (simp add: triple_def finishes_def untilFinish_def)
  next
    case (Cons c cs)
    have fin: "triple messageSpec phaseOf running (\<lambda>p. emitFinish (gd_FinishReason c) (captureGrounding (gd_GroundingMetadata c) p)) ended"
      by (rule triple_update [OF _ emitFinish_triple]) (simp add: captureGrounding_same)
    have skip': "triple messageSpec phaseOf running (\<lambda>p. ([], captureGrounding (gd_GroundingMetadata c) p)) running"
      by (rule triple_silent) (simp add: captureGrounding_same)
    show ?thesis
      using fin skip' Cons by (cases "gd_FinishReason c = []") (simp_all add: finishes_def untilFinish_def [abs_def] Let_def)
  qed
  show ?thesis
    unfolding processResponse_def Let_def
    by (rule triple_seqE [OF triple_seqE [OF triple_seqE [OF messageStart_triple usage] parts] finish [unfolded Let_def]])
qed

lemma responses_triple:
  assumes "finishLast rs" and "rs \<noteq> []"
  shows "triple messageSpec phaseOf (\<lambda>p. \<not> sp_messageStopSent p)
    (run_machine (processResponse randomID msgID) rs) (untilFinish (finishes (last rs)))"
  using assms
proof (induction rs)
  case (Cons r rs)
  show ?case
  proof (cases "rs = []")
    case True
    then show ?thesis using processResponse_triple [of randomID msgID r] by (simp add: triple_def)
  next
    case False
    with Cons.prems have "\<not> finishes r" by simp
    then have "triple messageSpec phaseOf (\<lambda>p. \<not> sp_messageStopSent p) (processResponse randomID msgID r) (\<lambda>p. \<not> sp_messageStopSent p)"
      using processResponse_triple [of randomID msgID r] by (simp add: triple_def untilFinish_def running_def)
    from triple_seqE [OF this Cons.IH] False Cons.prems show ?thesis
      by (simp add: triple_def run_machine_seqE)
  qed
qed simp

lemma run_lines:
  "run_machine (ProcessLine J randomID msgID) lines p =
     run_machine (processResponse randomID msgID) (List.map_filter (parseLine J) lines) p"
proof (induction lines arbitrary: p)
  case (Cons line lines)
  then show ?case
    by (cases "parseLine J line")
       (simp_all add: run_machine_seqE List.map_filter_simps ProcessLine_def seqE_def case_prod_unfold Let_def)
qed (simp add: List.map_filter_simps)

text \<open>
  C3: whatever lines the upstream sends, if no answer follows one with a finish reason, an Anthropic
  client receives either nothing (when no line could be parsed) or exactly one well-formed message:
  its start, content blocks opened and closed in order with increments of their type, its delta, its
  stop, and nothing after it; also when the upstream ends without a finish reason.
\<close>

theorem antigravityStream_wellformed:
  assumes "finishLast (List.map_filter (parseLine J) lines)"
  shows "\<exists>m. accepts_from messageSpec newMessage
      (fst (antigravityStream J randomID msgID lines (SetUsageMapHook hook (NewStreamingProcessor model)))) = Some m \<and>
    (if List.map_filter (parseLine J) lines = [] then m = newMessage else mp_over m)"
proof -
  let ?rs = "List.map_filter (parseLine J) lines" and ?p = "SetUsageMapHook hook (NewStreamingProcessor model)"
  have new: "phaseOf ?p = newMessage" "\<not> sp_messageStopSent ?p" "\<not> sp_messageStartSent ?p"
    by (simp_all add: SetUsageMapHook_def NewStreamingProcessor_def phaseOf_def newMessage_def)
  show ?thesis
  proof (cases "?rs = []")
    case True
    with new show ?thesis by (simp add: antigravityStream_def run_lines Finish_def)
  next
    case False
    have fin: "triple messageSpec phaseOf (untilFinish b) Finish ended" for b
      using emitFinish_triple [of "[]"] by (auto simp: triple_def untilFinish_def Finish_def running_def ended_def)
    note t = tripleD [OF triple_seqE [OF responses_triple [OF assms False] fin], of ?p, OF new(2)]
    show ?thesis
      using t False unfolding antigravityStream_def run_lines new(1) by (auto simp: ended_def phaseOf_def)
  qed
qed

section \<open>Instances\<close>

definition finishedAnswer :: V1InternalResponse where
  "finishedAnswer =
     \<lparr>v1_Response = \<lparr>gr_Candidates = [\<lparr>gd_Content = Some [\<lparr>gp_HasText = True, gp_Text = ''hi'', gp_Thought = False,
          gp_ThoughtSignature = ''s'', gp_InlineData = None, gp_FunctionCall = None\<rparr>],
        gd_FinishReason = ''STOP'', gd_GroundingMetadata = None\<rparr>], gr_UsageMetadata = None, gr_ResponseID = []\<rparr>,
      v1_ResponseID = ''r''\<rparr>"

definition constantParser :: gemini_parser where
  "constantParser = \<lparr>parse_v1 = (\<lambda>_. Some finishedAnswer), parse_direct = (\<lambda>_. None)\<rparr>"

lemma constant_line: "List.map_filter (parseLine constantParser) [''data: x''] = [finishedAnswer]"
  by (simp add: List.map_filter_simps parseLine_def constantParser_def TrimSpace_def trim_encs.simps go_spaces_def find_enc_def
      HasPrefix_def CutPrefix_def)

theorem antigravityStream_wellformed_witness:
  "\<exists>m. accepts_from messageSpec newMessage
      (fst (antigravityStream constantParser (\<lambda>_. []) ''m'' [''data: x''] (SetUsageMapHook None (NewStreamingProcessor ''g'')))) = Some m \<and>
    mp_over m"
proof -
  have "finishLast (List.map_filter (parseLine constantParser) [''data: x''])" unfolding constant_line by simp
  from antigravityStream_wellformed [OF this, of "\<lambda>_. []" "''m''" None "''g''"] show ?thesis
    unfolding constant_line by simp
qed

text \<open>Two answers with a finish reason: the delta of the message and its content go on after its stop.\<close>

lemma second_finish_after_stop:
  "accepts_from messageSpec newMessage
     (fst (run_machine (processResponse (\<lambda>_. []) ''m'') [finishedAnswer, finishedAnswer] (NewStreamingProcessor ''g''))) = None"
  by code_simp

end
