(* ===== verification/Antigravity_Response.thy ===== *)
theory Antigravity_Response
  imports Antigravity_Stream
begin

text \<open>
  The same answers for a client that did not ask for a stream: the processor of
  \<open>internal/pkg/antigravity/response_transformer.go\<close>, and the way \<open>collectClaudeStreamResponse\<close> of
  \<open>internal/service/antigravity_gateway_streaming.go\<close> makes one answer of the upstream stream for it
  (the upstream is always asked for a stream).  The theorem compares the two clients.
\<close>

section \<open>The processor\<close>

record NonStreamingProcessor =
  np_contentBlocks :: "ClaudeContentItem list"
  np_textBuilder :: string
  np_thinkingBuilder :: string
  np_thinkingSignature :: string
  np_trailingSignature :: string
  np_hasToolCall :: bool
  np_draws :: nat

definition NewNonStreamingProcessor :: NonStreamingProcessor where
  "NewNonStreamingProcessor =
     \<lparr>np_contentBlocks = [], np_textBuilder = [], np_thinkingBuilder = [], np_thinkingSignature = [],
      np_trailingSignature = [], np_hasToolCall = False, np_draws = 0\<rparr>"

definition appendBlock :: "ClaudeContentItem \<Rightarrow> NonStreamingProcessor \<Rightarrow> NonStreamingProcessor" where
  "appendBlock item p = p\<lparr>np_contentBlocks := np_contentBlocks p @ [item]\<rparr>"

definition flushText :: "NonStreamingProcessor \<Rightarrow> NonStreamingProcessor" where
  "flushText p =
     (if np_textBuilder p = [] then p
      else (appendBlock (textBlock (np_textBuilder p)) p)\<lparr>np_textBuilder := []\<rparr>)"

definition flushThinking :: "NonStreamingProcessor \<Rightarrow> NonStreamingProcessor" where
  "flushThinking p =
     (if np_thinkingBuilder p = [] \<and> np_thinkingSignature p = [] then p
      else (appendBlock (thinkingBlock (np_thinkingBuilder p) (np_thinkingSignature p)) p)
             \<lparr>np_thinkingBuilder := [], np_thinkingSignature := []\<rparr>)"

definition appendTrailing :: "NonStreamingProcessor \<Rightarrow> NonStreamingProcessor" where
  "appendTrailing p =
     (appendBlock (thinkingBlock [] (np_trailingSignature p)) p)\<lparr>np_trailingSignature := []\<rparr>"

definition objectCall ::
  "(nat \<Rightarrow> string) \<Rightarrow> GeminiFunctionCall \<Rightarrow> string \<Rightarrow> NonStreamingProcessor \<Rightarrow> NonStreamingProcessor" where
  "objectCall randomID fc signature p =
     (let p = flushText (flushThinking p);
          p = (if np_trailingSignature p \<noteq> [] then appendTrailing p else p);
          item = zeroClaudeContentItem\<lparr>ci_Type := ''tool_use'', ci_ID := toolID randomID fc (np_draws p),
            ci_Name := gf_Name fc, ci_Input := gf_Args fc, ci_Signature := signature\<rparr>
      in appendBlock item (p\<lparr>np_hasToolCall := True, np_draws := drawn fc (np_draws p)\<rparr>))"

definition objectThinking :: "string \<Rightarrow> string \<Rightarrow> NonStreamingProcessor \<Rightarrow> NonStreamingProcessor" where
  "objectThinking thinking signature p =
     (let p = flushText p;
          p = (if np_trailingSignature p \<noteq> [] then appendTrailing (flushThinking p) else p);
          p = p\<lparr>np_thinkingBuilder := np_thinkingBuilder p @ thinking\<rparr>
      in if signature = [] then p else p\<lparr>np_thinkingSignature := signature\<rparr>)"

definition objectText :: "string \<Rightarrow> string \<Rightarrow> NonStreamingProcessor \<Rightarrow> NonStreamingProcessor" where
  "objectText txt signature p =
     (let p = flushThinking p;
          p = (if np_trailingSignature p \<noteq> [] then appendTrailing (flushText p) else p)
      in if signature \<noteq> [] then appendBlock (thinkingBlock [] signature) (appendBlock (textBlock txt) p)
         else p\<lparr>np_textBuilder := np_textBuilder p @ txt\<rparr>)"

definition objectImage :: "GeminiInlineData \<Rightarrow> NonStreamingProcessor \<Rightarrow> NonStreamingProcessor" where
  "objectImage d p =
     (let p = flushThinking p in flushText (p\<lparr>np_textBuilder := np_textBuilder p @ markdownImage d\<rparr>))"

text \<open>A text without characters ends the part; its signature is kept.\<close>

definition objectPart :: "(nat \<Rightarrow> string) \<Rightarrow> GeminiPart \<Rightarrow> NonStreamingProcessor \<Rightarrow> NonStreamingProcessor" where
  "objectPart randomID part p =
     (let signature = gp_ThoughtSignature part;
          image = (\<lambda>p. case gp_InlineData part of None \<Rightarrow> p | Some d \<Rightarrow> if gi_Data d = [] then p else objectImage d p)
      in case gp_FunctionCall part of
           Some fc \<Rightarrow> objectCall randomID fc signature p
         | None \<Rightarrow>
             if gp_Text part \<noteq> [] \<or> gp_Thought part then
               (if gp_Thought part then image (objectThinking (gp_Text part) signature p)
                else if gp_Text part = [] then
                  (if signature \<noteq> [] then p\<lparr>np_trailingSignature := signature\<rparr> else p)
                else image (objectText (gp_Text part) signature p))
             else image p)"

definition processGrounding :: "GeminiGroundingMetadata \<Rightarrow> NonStreamingProcessor \<Rightarrow> NonStreamingProcessor" where
  "processGrounding grounding p =
     (let groundingText = buildGroundingText (Some grounding)
      in if groundingText = [] then p
         else
           let p = flushText (flushThinking p)
           in flushText (p\<lparr>np_textBuilder := np_textBuilder p @ groundingText\<rparr>))"

record ClaudeResponse =
  cl_ID :: string
  cl_Type :: string
  cl_Role :: string
  cl_Model :: string
  cl_Content :: "ClaudeContentItem list"
  cl_StopReason :: string
  cl_Usage :: ClaudeUsage

definition buildResponse ::
  "string \<Rightarrow> GeminiResponse \<Rightarrow> string \<Rightarrow> string \<Rightarrow> NonStreamingProcessor \<Rightarrow> ClaudeResponse" where
  "buildResponse msgID geminiResp responseID originalModel p =
     (let finishReason = (case gr_Candidates geminiResp of [] \<Rightarrow> [] | c # _ \<Rightarrow> gd_FinishReason c);
          usage = (case gr_UsageMetadata geminiResp of None \<Rightarrow> zeroClaudeUsage | Some m \<Rightarrow> geminiUsage m);
          respID = (if responseID = [] then gr_ResponseID geminiResp else responseID);
          respID = (if respID = [] then msgID else respID)
      in \<lparr>cl_ID = respID, cl_Type = ''message'', cl_Role = ''assistant'', cl_Model = originalModel,
          cl_Content = np_contentBlocks p, cl_StopReason = geminiStopReason (np_hasToolCall p) finishReason,
          cl_Usage = usage\<rparr>)"

definition partsOf :: "GeminiResponse \<Rightarrow> GeminiPart list" where
  "partsOf r =
     (case gr_Candidates r of [] \<Rightarrow> [] | c # _ \<Rightarrow> (case gd_Content c of None \<Rightarrow> [] | Some parts \<Rightarrow> parts))"

definition Process ::
  "(nat \<Rightarrow> string) \<Rightarrow> string \<Rightarrow> GeminiResponse \<Rightarrow> string \<Rightarrow> string \<Rightarrow> NonStreamingProcessor \<Rightarrow> ClaudeResponse" where
  "Process randomID msgID geminiResp responseID originalModel p =
     (let p = fold (objectPart randomID) (partsOf geminiResp) p;
          p = (case gr_Candidates geminiResp of
                 [] \<Rightarrow> p
               | c # _ \<Rightarrow> (case gd_GroundingMetadata c of None \<Rightarrow> p | Some g \<Rightarrow> processGrounding g p));
          p = flushText (flushThinking p);
          p = (if np_trailingSignature p \<noteq> [] then appendBlock (thinkingBlock [] (np_trailingSignature p)) p else p)
      in buildResponse msgID geminiResp responseID originalModel p)"

text \<open>\<open>TransformGeminiToClaude\<close>: an answer in the wrapper, or a bare one (\<open>None\<close> is a parse error).\<close>

definition TransformGeminiToClaude ::
  "gemini_parser \<Rightarrow> (nat \<Rightarrow> string) \<Rightarrow> string \<Rightarrow> string \<Rightarrow> string \<Rightarrow> ClaudeResponse option" where
  "TransformGeminiToClaude J randomID msgID body originalModel =
     (let direct = map_option (\<lambda>r. \<lparr>v1_Response = r, v1_ResponseID = gr_ResponseID r\<rparr>) (parse_direct J body);
          v1 = (case parse_v1 J body of
                  None \<Rightarrow> direct
                | Some v1Resp \<Rightarrow> if gr_Candidates (v1_Response v1Resp) = [] then direct else Some v1Resp)
      in map_option (\<lambda>v1Resp. Process randomID msgID (v1_Response v1Resp) (v1_ResponseID v1Resp) originalModel
           NewNonStreamingProcessor) v1)"

section \<open>Collecting a stream\<close>

definition textPart :: "string \<Rightarrow> GeminiPart" where
  "textPart txt =
     \<lparr>gp_HasText = True, gp_Text = txt, gp_Thought = False, gp_ThoughtSignature = [], gp_InlineData = None,
      gp_FunctionCall = None\<rparr>"

definition flushTextBuffer :: "string \<Rightarrow> GeminiPart list" where
  "flushTextBuffer buf = (if buf = [] then [] else [textPart buf])"

fun mergeParts :: "string \<Rightarrow> GeminiPart list \<Rightarrow> GeminiPart list" where
  "mergeParts buf [] = flushTextBuffer buf"
| "mergeParts buf (part # parts) =
     (if gp_HasText part \<and> \<not> gp_Thought part then mergeParts (buf @ gp_Text part) parts
      else flushTextBuffer buf @ part # mergeParts [] parts)"

definition setParts :: "GeminiPart list \<Rightarrow> GeminiResponse \<Rightarrow> GeminiResponse" where
  "setParts parts r =
     (case gr_Candidates r of
        [] \<Rightarrow> r\<lparr>gr_Candidates := [\<lparr>gd_Content = Some parts, gd_FinishReason = [], gd_GroundingMetadata = None\<rparr>]\<rparr>
      | c # cs \<Rightarrow> r\<lparr>gr_Candidates := c\<lparr>gd_Content := Some parts\<rparr> # cs\<rparr>)"

definition mergeCollectedPartsToResponse :: "GeminiResponse \<Rightarrow> GeminiPart list \<Rightarrow> GeminiResponse" where
  "mergeCollectedPartsToResponse response collectedParts =
     (if collectedParts = [] then response else setParts (mergeParts [] collectedParts) response)"

definition zeroGeminiResponse :: GeminiResponse where
  "zeroGeminiResponse = \<lparr>gr_Candidates = [], gr_UsageMetadata = None, gr_ResponseID = []\<rparr>"

definition pickGeminiCollectResult :: "GeminiResponse option \<Rightarrow> GeminiResponse option \<Rightarrow> GeminiResponse" where
  "pickGeminiCollectResult last_answer lastWithParts =
     (case lastWithParts of
        Some r \<Rightarrow> r
      | None \<Rightarrow> (case last_answer of Some r \<Rightarrow> r | None \<Rightarrow> zeroGeminiResponse))"

definition extractGeminiFinishReason :: "GeminiResponse \<Rightarrow> string" where
  "extractGeminiFinishReason r = (case gr_Candidates r of [] \<Rightarrow> [] | c # _ \<Rightarrow> gd_FinishReason c)"

record collected =
  co_last :: "GeminiResponse option"
  co_lastWithParts :: "GeminiResponse option"
  co_parts :: "GeminiPart list"
  co_meaningful :: bool

definition collectResponse :: "GeminiResponse \<Rightarrow> collected \<Rightarrow> collected" where
  "collectResponse parsed s =
     (let parts = partsOf parsed;
          s = s\<lparr>co_last := Some parsed\<rparr>;
          s = (if parts \<noteq> [] then s\<lparr>co_lastWithParts := Some parsed, co_parts := co_parts s @ parts\<rparr> else s)
      in if parts \<noteq> [] \<or> TrimSpace (extractGeminiFinishReason parsed) \<noteq> [] then s\<lparr>co_meaningful := True\<rparr> else s)"

text \<open>
  What is read of the upstream is the unwrapped answers; \<open>None\<close> is the failover to another account.
  The final answer is marshalled and given to \<open>TransformGeminiToClaude\<close>, which reads it as a bare one.
\<close>

definition collectClaudeStreamResponse ::
  "(nat \<Rightarrow> string) \<Rightarrow> string \<Rightarrow> GeminiResponse list \<Rightarrow> string \<Rightarrow> ClaudeResponse option" where
  "collectClaudeStreamResponse randomID msgID responses originalModel =
     (let s = fold collectResponse responses \<lparr>co_last = None, co_lastWithParts = None, co_parts = [], co_meaningful = False\<rparr>
      in if \<not> co_meaningful s then None
         else
           let finalResponse = pickGeminiCollectResult (co_last s) (co_lastWithParts s);
               finalResponse = mergeCollectedPartsToResponse finalResponse (co_parts s)
           in Some (Process randomID msgID finalResponse (gr_ResponseID finalResponse) originalModel NewNonStreamingProcessor))"

section \<open>What a client assembles\<close>

text \<open>A streaming client applies the increments to the block it got last.\<close>

fun applyDelta :: "claude_delta \<Rightarrow> ClaudeContentItem \<Rightarrow> ClaudeContentItem" where
  "applyDelta (TextDelta x) item = item\<lparr>ci_Text := ci_Text item @ x\<rparr>"
| "applyDelta (ThinkingDelta x) item = item\<lparr>ci_Thinking := ci_Thinking item @ x\<rparr>"
| "applyDelta (SignatureDelta x) item = item\<lparr>ci_Signature := x\<rparr>"
| "applyDelta (InputJSONDelta x) item =
     item\<lparr>ci_Input := Some ((case ci_Input item of None \<Rightarrow> [] | Some y \<Rightarrow> y) @ x)\<rparr>"

fun receive :: "claude_event \<Rightarrow> ClaudeContentItem list \<Rightarrow> ClaudeContentItem list" where
  "receive (ContentBlockStart _ item) items = items @ [item\<lparr>ci_Input := None\<rparr>]"
| "receive (ContentBlockDelta _ d) items = butlast items @ [applyDelta d (last items)]"
| "receive _ items = items"

definition assembled :: "claude_event list \<Rightarrow> ClaudeContentItem list" where
  "assembled es = fold receive es []"

text \<open>Content up to blocks that hold nothing and to where a text is cut into blocks.\<close>

definition emptyItem :: "ClaudeContentItem \<Rightarrow> bool" where
  "emptyItem item \<longleftrightarrow>
     ci_Type item = ''text'' \<and> ci_Text item = [] \<or>
     ci_Type item = ''thinking'' \<and> ci_Thinking item = [] \<and> ci_Signature item = []"

definition addItem :: "ClaudeContentItem \<Rightarrow> ClaudeContentItem list \<Rightarrow> ClaudeContentItem list" where
  "addItem item acc =
     (if emptyItem item then acc
      else if ci_Type item = ''text'' \<and> acc \<noteq> [] \<and> ci_Type (last acc) = ''text''
      then butlast acc @ [textBlock (ci_Text (last acc) @ ci_Text item)] else acc @ [item])"

definition merged :: "ClaudeContentItem list \<Rightarrow> ClaudeContentItem list" where
  "merged items = fold addItem items []"

definition messageDeltas :: "claude_event list \<Rightarrow> (string \<times> usage_value) list" where
  "messageDeltas es = concat (map (\<lambda>e. case e of MessageDelta r u \<Rightarrow> [(r, u)] | _ \<Rightarrow> []) es)"

lemma merged_append [simp]: "merged (xs @ [x]) = addItem x (merged xs)"
  by (simp add: merged_def)

lemma merged_Nil [simp]: "merged [] = []"
  by (simp add: merged_def)

lemma block_fields [simp]:
  "ci_Type (textBlock x) = ''text''" "ci_Text (textBlock x) = x" "ci_Type (thinkingBlock x y) = ''thinking''"
  "ci_Thinking (thinkingBlock x y) = x" "ci_Signature (thinkingBlock x y) = y" "ci_Input (textBlock x) = None"
  "ci_Input (thinkingBlock x y) = None"
  by (simp_all add: textBlock_def thinkingBlock_def zeroClaudeContentItem_def)

lemma block_updates [simp]:
  "(textBlock x)\<lparr>ci_Text := y\<rparr> = textBlock y"
  "(thinkingBlock x z)\<lparr>ci_Thinking := y\<rparr> = thinkingBlock y z"
  "(thinkingBlock x z)\<lparr>ci_Signature := y\<rparr> = thinkingBlock x y"
  "(textBlock x)\<lparr>ci_Input := None\<rparr> = textBlock x" "(thinkingBlock x y)\<lparr>ci_Input := None\<rparr> = thinkingBlock x y"
  by (simp_all add: textBlock_def thinkingBlock_def zeroClaudeContentItem_def)

lemma addItem_empty [simp]: "addItem (textBlock []) acc = acc" "addItem (thinkingBlock [] []) acc = acc"
  by (simp_all add: addItem_def emptyItem_def)

lemma addItem_text_append: "addItem (textBlock y) (addItem (textBlock x) acc) = addItem (textBlock (x @ y)) acc"
  by (simp add: addItem_def emptyItem_def)

section \<open>Both processors keep the same content\<close>

definition agree :: "StreamingProcessor \<Rightarrow> ClaudeContentItem list \<Rightarrow> NonStreamingProcessor \<Rightarrow> bool" where
  "agree p items n \<longleftrightarrow>
     sp_trailingSignature p = [] \<and> np_trailingSignature n = [] \<and> sp_usedTool p = np_hasToolCall n \<and>
     sp_draws p = np_draws n \<and> sp_blockType p \<noteq> BlockTypeFunction \<and>
     (if sp_blockType p = BlockTypeThinking
      then items \<noteq> [] \<and> last items = thinkingBlock (np_thinkingBuilder n) [] \<and>
        sp_pendingSignature p = np_thinkingSignature n \<and> np_textBuilder n = [] \<and>
        merged (butlast items) = merged (np_contentBlocks n)
      else np_thinkingBuilder n = [] \<and> np_thinkingSignature n = [] \<and> sp_pendingSignature p = [] \<and>
        merged items = addItem (textBlock (np_textBuilder n)) (merged (np_contentBlocks n)) \<and>
        (sp_blockType p = BlockTypeText \<longrightarrow> items \<noteq> [] \<and> (\<exists>x. last items = textBlock x)))"

definition agreeAfter :: "ClaudeContentItem list \<Rightarrow> sp_result \<Rightarrow> NonStreamingProcessor \<Rightarrow> bool" where
  "agreeAfter items r n \<longleftrightarrow> agree (snd r) (fold receive (fst r) items) n \<and> messageDeltas (fst r) = []"

lemma messageDeltas_append [simp]: "messageDeltas (xs @ ys) = messageDeltas xs @ messageDeltas ys" "messageDeltas [] = []"
  by (simp_all add: messageDeltas_def)

lemma agreeAfter_seqE:
  "messageDeltas (fst r) = [] \<Longrightarrow> agreeAfter (fold receive (fst r) items) (f (snd r)) n \<Longrightarrow> agreeAfter items (seqE r f) n"
  by (simp add: agreeAfter_def)

lemma snoc_cases: "items \<noteq> [] \<Longrightarrow> last items = x \<Longrightarrow> \<exists>xs. items = xs @ [x]"
  by (metis append_butlast_last_id)

lemma agree_endBlock:
  assumes "agree p items n"
  shows "agreeAfter items (endBlock p) (flushThinking n)" "sp_blockType (snd (endBlock p)) = BlockTypeNone"
proof -
  show "agreeAfter items (endBlock p) (flushThinking n)"
  proof (cases "sp_blockType p = BlockTypeThinking")
    case True
    with assms obtain xs where "items = xs @ [thinkingBlock (np_thinkingBuilder n) []]"
      using snoc_cases unfolding agree_def by metis
    with True assms show ?thesis
      by (auto simp: agreeAfter_def agree_def block_ops messageDeltas_def flushThinking_def appendBlock_def)
  next
    case False
    with assms show ?thesis
      by (auto simp: agreeAfter_def agree_def block_ops messageDeltas_def flushThinking_def)
  qed
  show "sp_blockType (snd (endBlock p)) = BlockTypeNone" by (simp add: endBlock_def)
qed

lemma agree_flushText: "agree p items n \<Longrightarrow> agree p items (flushText n)"
  by (auto simp: agree_def flushText_def appendBlock_def)

lemma agreeD:
  assumes "agree p items n"
  shows "sp_trailingSignature p = []" "np_trailingSignature n = []"
  using assms by (simp_all add: agree_def)

lemma flushTrailing_skip: "sp_trailingSignature p = [] \<Longrightarrow> flushTrailing p = ([], p)"
  by (simp add: flushTrailing_def)

lemma flush_same [simp]:
  "np_trailingSignature (flushText n) = np_trailingSignature n" "np_trailingSignature (flushThinking n) = np_trailingSignature n"
  by (simp_all add: flushText_def flushThinking_def appendBlock_def)

text \<open>A block is begun after the open one is ended.\<close>

lemma agree_start:
  assumes "agree p items n" and "\<And>q ys. agree q ys (flushThinking n) \<Longrightarrow> sp_blockType q = BlockTypeNone \<Longrightarrow>
      agreeAfter (ys @ [item\<lparr>ci_Input := None\<rparr>]) (f (q\<lparr>sp_blockType := t\<rparr>)) n'"
  shows "agreeAfter items (seqE (startBlock t item p) f) n'"
proof -
  let ?r = "endBlock p"
  note e = agree_endBlock [OF assms(1)]
  have "agreeAfter (fold receive (fst ?r) items @ [item\<lparr>ci_Input := None\<rparr>]) (f ((snd ?r)\<lparr>sp_blockType := t\<rparr>)) n'"
    by (rule assms(2)) (use e in \<open>simp_all add: agreeAfter_def\<close>)
  with e(1) show ?thesis
    by (simp add: agreeAfter_def startBlock_def messageDeltas_def)
qed

lemma agree_text:
  assumes "agree p items n" and "x \<noteq> []"
  shows "agreeAfter items (processText x [] p) (objectText x [] n)"
proof (cases "sp_blockType p = BlockTypeText")
  case True
  with assms obtain xs a where "items = xs @ [textBlock a]"
    unfolding agree_def by (metis BlockType.distinct append_butlast_last_id)
  with True assms show ?thesis
    by (auto simp: agreeAfter_def agree_def processText_def flushTrailing_def continueBlock_def emitDelta_def messageDeltas_def
        objectText_def flushThinking_def addItem_text_append [symmetric] appendBlock_def)
next
  case False
  have "agreeAfter items (seqE (startBlock BlockTypeText (textBlock []) p) (emitDelta (TextDelta x))) (objectText x [] n)"
    by (rule agree_start [OF assms(1)])
       (use agreeD [OF assms(1)] in \<open>auto simp: agreeAfter_def agree_def emitDelta_def messageDeltas_def objectText_def
          flushThinking_def addItem_text_append [symmetric] appendBlock_def\<close>)
  with False assms agreeD [OF assms(1)] show ?thesis
    by (simp add: processText_def flushTrailing_skip continueBlock_def agreeAfter_def)
qed

lemma agree_thinking:
  assumes "agree p items n"
  shows "agreeAfter items (processThinking x sig p) (objectThinking x sig n)"
proof -
  let ?rest = "\<lambda>p. seqE (if x = [] then ([], p) else emitDelta (ThinkingDelta x) p)
    (\<lambda>p. ([], if sig = [] then p else p\<lparr>sp_pendingSignature := sig\<rparr>))"
  have split: "processThinking x sig p = seqE (continueBlock BlockTypeThinking (thinkingBlock [] []) p) ?rest"
    by (simp add: processThinking_def flushTrailing_skip [OF agreeD(1) [OF assms]] seqE_def case_prod_unfold Let_def)
  have rest: "agreeAfter (xs @ [thinkingBlock (np_thinkingBuilder m) []]) (?rest q) (objectThinking x sig m)"
    if "agree q (xs @ [thinkingBlock (np_thinkingBuilder m) []]) m" "sp_blockType q = BlockTypeThinking" for q xs m
    using that
    by (auto simp: agreeAfter_def agree_def emitDelta_def messageDeltas_def objectThinking_def flushText_def Let_def)
  show ?thesis
  proof (cases "sp_blockType p = BlockTypeThinking")
    case True
    with assms obtain xs where "items = xs @ [thinkingBlock (np_thinkingBuilder n) []]"
      using snoc_cases unfolding agree_def by metis
    with rest [of p xs n] True assms show ?thesis
      by (simp add: split continueBlock_def seqE_skip)
  next
    case False
    have "agreeAfter items (seqE (startBlock BlockTypeThinking (thinkingBlock [] []) p) ?rest) (objectThinking x sig n)"
    proof (rule agree_start [OF assms])
      fix q ys assume q: "agree q ys (flushThinking n)" "sp_blockType q = BlockTypeNone"
      let ?m = "flushText (flushThinking n)"
      have m: "np_thinkingBuilder ?m = []" "np_textBuilder ?m = []" "np_thinkingSignature ?m = []"
        by (simp_all add: flushText_def flushThinking_def appendBlock_def)
      have "objectThinking x sig n = objectThinking x sig ?m"
        using False assms by (simp add: objectThinking_def agree_def flushText_def flushThinking_def appendBlock_def)
      moreover from agree_flushText [OF q(1)] q(2) m
      have "agree (q\<lparr>sp_blockType := BlockTypeThinking\<rparr>) (ys @ [thinkingBlock (np_thinkingBuilder ?m) []]) ?m"
        by (auto simp: agree_def)
      ultimately show "agreeAfter (ys @ [thinkingBlock [] []\<lparr>ci_Input := None\<rparr>]) (?rest (q\<lparr>sp_blockType := BlockTypeThinking\<rparr>)) (objectThinking x sig n)"
        using rest [of "q\<lparr>sp_blockType := BlockTypeThinking\<rparr>" ys ?m] m by simp
    qed
    with False show ?thesis by (simp add: split continueBlock_def)
  qed
qed

lemma agree_call:
  assumes "agree p items n"
  shows "agreeAfter items (processFunctionCall randomID fc sig p) (objectCall randomID fc sig n)"
proof -
  let ?item = "zeroClaudeContentItem\<lparr>ci_Type := ''tool_use'', ci_ID := toolID randomID fc (sp_draws p),
      ci_Name := gf_Name fc, ci_Input := Some ''{}'', ci_Signature := sig\<rparr>"
  let ?p = "p\<lparr>sp_usedTool := True, sp_draws := drawn fc (sp_draws p)\<rparr>"
  let ?n = "n\<lparr>np_hasToolCall := True, np_draws := drawn fc (np_draws n)\<rparr>"
  have "agree ?p items ?n" using assms by (auto simp: agree_def)
  then have "agreeAfter items (seqE (startBlock BlockTypeFunction ?item ?p) (\<lambda>p. seqE
        (case gf_Args fc of None \<Rightarrow> ([], p) | Some argsJSON \<Rightarrow> emitDelta (InputJSONDelta argsJSON) p) endBlock))
      (objectCall randomID fc sig n)"
  proof (rule agree_start)
    fix q ys assume q: "agree q ys (flushThinking ?n)" "sp_blockType q = BlockTypeNone"
    let ?q = "q\<lparr>sp_blockType := BlockTypeFunction\<rparr>"
    have out: "fold receive (fst (seqE (case gf_Args fc of None \<Rightarrow> ([], ?q) | Some argsJSON \<Rightarrow> emitDelta (InputJSONDelta argsJSON) ?q) endBlock))
        (ys @ [?item\<lparr>ci_Input := None\<rparr>]) = ys @ [?item\<lparr>ci_Input := gf_Args fc\<rparr>]"
      by (simp add: endBlock_def emitDelta_def split: option.split)
    have deltas: "messageDeltas (fst (seqE (case gf_Args fc of None \<Rightarrow> ([], ?q) | Some argsJSON \<Rightarrow> emitDelta (InputJSONDelta argsJSON) ?q) endBlock)) = []"
      by (simp add: endBlock_def emitDelta_def messageDeltas_def split: option.split)
    have state: "snd (seqE (case gf_Args fc of None \<Rightarrow> ([], ?q) | Some argsJSON \<Rightarrow> emitDelta (InputJSONDelta argsJSON) ?q) endBlock)
        = q\<lparr>sp_blockIndex := sp_blockIndex q + 1\<rparr>"
      using q(2) by (simp add: endBlock_def emitDelta_def split: option.split)
    have obj: "objectCall randomID fc sig n = appendBlock (?item\<lparr>ci_Input := gf_Args fc\<rparr>) (flushText (flushThinking ?n))"
      using assms by (simp add: objectCall_def agree_def flushText_def flushThinking_def appendBlock_def Let_def)
    have "agree (q\<lparr>sp_blockIndex := sp_blockIndex q + 1\<rparr>) (ys @ [?item\<lparr>ci_Input := gf_Args fc\<rparr>])
        (appendBlock (?item\<lparr>ci_Input := gf_Args fc\<rparr>) (flushText (flushThinking ?n)))"
      using agree_flushText [OF q(1)] q(2)
      by (simp add: agree_def appendBlock_def flushText_def split: if_splits)
    then show "agreeAfter (ys @ [?item\<lparr>ci_Input := None\<rparr>]) (seqE (case gf_Args fc of None \<Rightarrow> ([], ?q)
        | Some argsJSON \<Rightarrow> emitDelta (InputJSONDelta argsJSON) ?q) endBlock) (objectCall randomID fc sig n)"
      unfolding agreeAfter_def out state obj using deltas by simp
  qed
  then show ?thesis by (simp add: processFunctionCall_def Let_def seqE_assoc)
qed

text \<open>Parts whose text, when it is not a thought, comes alone.\<close>

definition plainPart :: "GeminiPart \<Rightarrow> bool" where
  "plainPart part \<longleftrightarrow>
     (gp_Text part \<noteq> [] \<longrightarrow> gp_HasText part) \<and>
     (gp_HasText part \<and> \<not> gp_Thought part \<longrightarrow>
        gp_ThoughtSignature part = [] \<and> gp_InlineData part = None \<and> gp_FunctionCall part = None)"

lemma agree_image:
  assumes "agree p items n"
  shows "agreeAfter items (processText (markdownImage d) [] p) (objectImage d n)"
proof -
  have "markdownImage d \<noteq> []" by (simp add: markdownImage_def)
  note t = agree_text [OF assms this]
  have "objectImage d n = flushText (objectText (markdownImage d) [] n)"
    using agreeD(2) [OF assms] by (simp add: objectImage_def objectText_def Let_def)
  with t show ?thesis by (simp add: agreeAfter_def agree_flushText)
qed

lemma agree_skip: "agree p items n \<Longrightarrow> agreeAfter items ([], p) n"
  by (simp add: agreeAfter_def)

lemma agreeAfter_then:
  assumes "agreeAfter items r n" and "\<And>ys. agree (snd r) ys n \<Longrightarrow> agreeAfter ys (f (snd r)) n'"
  shows "agreeAfter items (seqE r f) n'"
  using assms(1) assms(2) [of "fold receive (fst r) items"] by (simp add: agreeAfter_def)

lemma agree_part:
  assumes "agree p items n" and "plainPart part"
  shows "agreeAfter items (processPart randomID part p) (objectPart randomID part n)"
proof (cases "gp_FunctionCall part")
  case (Some fc)
  with agree_call [OF assms(1)] flushTrailing_skip [OF agreeD(1) [OF assms(1)]] show ?thesis
    by (simp add: processPart_def objectPart_def Let_def seqE_skip)
next
  case None
  let ?image = "\<lambda>n. case gp_InlineData part of None \<Rightarrow> n | Some d \<Rightarrow> if gi_Data d = [] then n else objectImage d n"
  have image: "agreeAfter ys (case gp_InlineData part of None \<Rightarrow> ([], q)
      | Some d \<Rightarrow> if gi_Data d = [] then ([], q) else processText (markdownImage d) [] q) (?image m)"
    if "agree q ys m" for q ys m
    using agree_image [OF that] agree_skip [OF that] by (auto split: option.split)
  consider (thought) "gp_Thought part" | (words) "\<not> gp_Thought part" "gp_Text part \<noteq> []" | (bare) "\<not> gp_Thought part" "gp_Text part = []"
    by blast
  then show ?thesis
  proof cases
    case thought
    with None show ?thesis
      unfolding processPart_def objectPart_def Let_def
      by (simp, intro agreeAfter_then [OF agree_thinking [OF assms(1)]] image)
  next
    case words
    with assms(2) have "gp_ThoughtSignature part = []" "gp_InlineData part = None" by (auto simp: plainPart_def)
    with words None agree_text [OF assms(1) words(2)] show ?thesis
      by (simp add: processPart_def objectPart_def Let_def agreeAfter_def)
  next
    case bare
    with None image [OF assms(1)] show ?thesis by (simp add: processPart_def objectPart_def Let_def seqE_skip)
  qed
qed

lemma agree_parts:
  assumes "agree p items n" and "\<forall>part \<in> set parts. plainPart part"
  shows "agreeAfter items (run_machine (processPart randomID) parts p) (fold (objectPart randomID) parts n)"
  using assms
proof (induction parts arbitrary: p items n)
  case Nil
  then show ?case by (simp add: agree_skip)
next
  case (Cons part parts)
  show ?case
    unfolding run_machine_seqE fold_simps
    by (rule agreeAfter_then [OF agree_part], rule Cons.prems, use Cons.prems in simp, rule Cons.IH) (use Cons.prems in simp_all)
qed

text \<open>Collecting joins texts; the processor does not see the difference.\<close>

definition buffered :: "string \<Rightarrow> NonStreamingProcessor \<Rightarrow> NonStreamingProcessor" where
  "buffered buf n = (if buf = [] then n else objectText buf [] n)"

lemma buffered_append:
  assumes "np_trailingSignature n = []"
  shows "buffered x (buffered buf n) = buffered (buf @ x) n"
  using assms by (simp add: buffered_def objectText_def flushThinking_def appendBlock_def Let_def)

lemma objectPart_text: "objectPart randomID (textPart buf) n = buffered buf n"
  by (simp add: objectPart_def textPart_def buffered_def)

lemma objectPart_trailing:
  assumes "np_trailingSignature n = []" and "plainPart part"
  shows "np_trailingSignature (objectPart randomID part n) = []"
  using assms
  by (auto simp: objectPart_def objectCall_def objectThinking_def objectText_def objectImage_def appendBlock_def Let_def
      plainPart_def split: option.splits)

lemma fold_mergeParts:
  assumes "np_trailingSignature n = []" and "\<forall>part \<in> set parts. plainPart part"
  shows "fold (objectPart randomID) (mergeParts buf parts) n = fold (objectPart randomID) parts (buffered buf n)"
  using assms
proof (induction parts arbitrary: buf n)
  case Nil
  then show ?case by (simp add: flushTextBuffer_def objectPart_text buffered_def)
next
  case (Cons part parts)
  have trailing: "np_trailingSignature (buffered buf n) = []"
    using Cons.prems(1) by (simp add: buffered_def objectText_def Let_def)
  have flush: "fold (objectPart randomID) (flushTextBuffer buf) n = buffered buf n"
    by (simp add: flushTextBuffer_def objectPart_text buffered_def)
  show ?case
  proof (cases "gp_HasText part \<and> \<not> gp_Thought part")
    case True
    with Cons.prems have "objectPart randomID part (buffered buf n) = buffered (gp_Text part) (buffered buf n)"
      by (auto simp: plainPart_def objectPart_def buffered_def [of "gp_Text part"] Let_def)
    with True Cons show ?thesis by (simp add: buffered_append)
  next
    case False
    with Cons.prems trailing have "fold (objectPart randomID) (mergeParts [] parts) (objectPart randomID part (buffered buf n)) =
        fold (objectPart randomID) parts (buffered [] (objectPart randomID part (buffered buf n)))"
      by (intro Cons.IH objectPart_trailing) simp_all
    with False flush show ?thesis by (auto simp: buffered_def [of "[]"])
  qed
qed

section \<open>The two clients of a stream\<close>

text \<open>What the content operations leave alone.\<close>

definition context_of :: "StreamingProcessor \<Rightarrow>
    string list \<times> GeminiGroundingChunk list \<times> (usage_map \<Rightarrow> usage_map) option \<times> ClaudeUsage \<times> bool" where
  "context_of p = (sp_webSearchQueries p, sp_groundingChunks p, sp_usageMapHook p, sp_usage p, sp_messageStopSent p)"

lemma context_upd [simp]:
  "context_of (p\<lparr>sp_blockType := t\<rparr>) = context_of p" "context_of (p\<lparr>sp_blockIndex := i\<rparr>) = context_of p"
  "context_of (p\<lparr>sp_pendingSignature := x\<rparr>) = context_of p" "context_of (p\<lparr>sp_trailingSignature := x\<rparr>) = context_of p"
  "context_of (p\<lparr>sp_usedTool := b\<rparr>) = context_of p" "context_of (p\<lparr>sp_draws := d\<rparr>) = context_of p"
  "context_of (p\<lparr>sp_messageStartSent := b\<rparr>) = context_of p"
  by (simp_all add: context_of_def)

lemma context_blocks [simp]:
  "context_of (snd (emitDelta d p)) = context_of p" "context_of (snd (endBlock p)) = context_of p"
  "context_of (snd (startBlock t item p)) = context_of p" "context_of (snd (continueBlock t item p)) = context_of p"
  "context_of (snd (emitEmptyThinkingWithSignature x p)) = context_of p" "context_of (snd (flushTrailing p)) = context_of p"
  by (simp_all add: emitDelta_def endBlock_def startBlock_def continueBlock_def emitEmptyThinkingWithSignature_def flushTrailing_def)

lemma context_texts [simp]:
  "context_of (snd (processThinking x sig p)) = context_of p" "context_of (snd (processText x sig p)) = context_of p"
  by (simp_all add: processThinking_def processText_def)

lemma context_call [simp]: "context_of (snd (processFunctionCall r fc sig p)) = context_of p"
  by (cases "gf_Args fc") (simp_all add: processFunctionCall_def Let_def)

lemma context_part [simp]: "context_of (snd (processPart r part p)) = context_of p"
  by (simp add: processPart_def Let_def split: option.split)

lemma context_parts [simp]: "context_of (snd (run_machine (processPart r) parts p)) = context_of p"
  by (induction parts arbitrary: p) simp_all

text \<open>An answer before the last: no finish reason, no grounding.\<close>

definition midway :: "GeminiResponse \<Rightarrow> bool" where
  "midway r \<longleftrightarrow> (case gr_Candidates r of [] \<Rightarrow> True | c # _ \<Rightarrow> gd_FinishReason c = [] \<and> gd_GroundingMetadata c = None)"

lemma agree_more [simp]:
  "agree (p\<lparr>sp_messageStartSent := b\<rparr>) items n = agree p items n" "agree (p\<lparr>sp_usage := u\<rparr>) items n = agree p items n"
  "agree (p\<lparr>sp_webSearchQueries := q\<rparr>) items n = agree p items n" "agree (p\<lparr>sp_groundingChunks := g\<rparr>) items n = agree p items n"
  by (simp_all add: agree_def)

text \<open>The first three steps of an answer: start, usage, parts.\<close>

definition contentSteps :: "(nat \<Rightarrow> string) \<Rightarrow> string \<Rightarrow> V1InternalResponse \<Rightarrow> StreamingProcessor \<Rightarrow> sp_result" where
  "contentSteps randomID msgID v p =
     seqE (seqE (emitMessageStart msgID v p)
       (\<lambda>p. ([], case gr_UsageMetadata (v1_Response v) of None \<Rightarrow> p | Some m \<Rightarrow> p\<lparr>sp_usage := geminiUsage m\<rparr>)))
       (run_machine (processPart randomID) (partsOf (v1_Response v)))"

lemma processResponse_steps:
  "processResponse randomID msgID v p =
     seqE (contentSteps randomID msgID v p)
       (\<lambda>p. case gr_Candidates (v1_Response v) of
               [] \<Rightarrow> ([], p)
             | c # _ \<Rightarrow>
                 let p = captureGrounding (gd_GroundingMetadata c) p
                 in if gd_FinishReason c = [] then ([], p) else emitFinish (gd_FinishReason c) p)"
proof -
  have "(\<lambda>p. case gr_Candidates (v1_Response v) of
               [] \<Rightarrow> ([], p)
             | c # _ \<Rightarrow> (case gd_Content c of None \<Rightarrow> ([], p) | Some parts \<Rightarrow> run_machine (processPart randomID) parts p))
     = run_machine (processPart randomID) (partsOf (v1_Response v))"
    by (auto simp: fun_eq_iff partsOf_def split: list.split option.split)
  then show ?thesis by (simp add: processResponse_def contentSteps_def Let_def)
qed

lemma agree_content:
  assumes "agree p items n" and "\<forall>part \<in> set (partsOf (v1_Response v)). plainPart part"
  shows "agreeAfter items (contentSteps randomID msgID v p) (fold (objectPart randomID) (partsOf (v1_Response v)) n)"
  unfolding contentSteps_def seqE_assoc
proof (rule agreeAfter_then)
  show "agreeAfter items (emitMessageStart msgID v p) n"
    using assms(1) by (simp add: emitMessageStart_def agreeAfter_def messageDeltas_def Let_def)
  fix ys assume ys: "agree (snd (emitMessageStart msgID v p)) ys n"
  show "agreeAfter ys (seqE ([], case gr_UsageMetadata (v1_Response v) of None \<Rightarrow> snd (emitMessageStart msgID v p)
      | Some m \<Rightarrow> (snd (emitMessageStart msgID v p))\<lparr>sp_usage := geminiUsage m\<rparr>) (run_machine (processPart randomID) (partsOf (v1_Response v))))
      (fold (objectPart randomID) (partsOf (v1_Response v)) n)"
    unfolding seqE_skip by (rule agree_parts [OF _ assms(2)]) (use ys in \<open>simp split: option.split\<close>)
qed

lemma context_content:
  "context_of (snd (contentSteps randomID msgID v p)) =
     context_of (case gr_UsageMetadata (v1_Response v) of None \<Rightarrow> p | Some m \<Rightarrow> p\<lparr>sp_usage := geminiUsage m\<rparr>)"
proof -
  have "context_of (snd (contentSteps randomID msgID v p)) = context_of (case gr_UsageMetadata (v1_Response v) of
      None \<Rightarrow> snd (emitMessageStart msgID v p) | Some m \<Rightarrow> (snd (emitMessageStart msgID v p))\<lparr>sp_usage := geminiUsage m\<rparr>)"
    by (simp add: contentSteps_def)
  also have "\<dots> = context_of (case gr_UsageMetadata (v1_Response v) of None \<Rightarrow> p | Some m \<Rightarrow> p\<lparr>sp_usage := geminiUsage m\<rparr>)"
    by (simp add: emitMessageStart_def context_of_def Let_def split: option.split)
  finally show ?thesis .
qed

lemma agree_midway:
  assumes "agree p items n" and "midway (v1_Response v)" and "\<forall>part \<in> set (partsOf (v1_Response v)). plainPart part"
  shows "agreeAfter items (processResponse randomID msgID v p) (fold (objectPart randomID) (partsOf (v1_Response v)) n)"
    "sp_webSearchQueries (snd (processResponse randomID msgID v p)) = sp_webSearchQueries p"
    "sp_groundingChunks (snd (processResponse randomID msgID v p)) = sp_groundingChunks p"
    "sp_usageMapHook (snd (processResponse randomID msgID v p)) = sp_usageMapHook p"
    "sp_messageStopSent (snd (processResponse randomID msgID v p)) = sp_messageStopSent p"
proof -
  have "processResponse randomID msgID v p = seqE (contentSteps randomID msgID v p) (Pair [])"
    using assms(2) by (auto simp: processResponse_steps midway_def captureGrounding_def fun_eq_iff split: list.splits)
  then have eq: "processResponse randomID msgID v p = contentSteps randomID msgID v p" by (simp add: prod_eq_iff)
  show "agreeAfter items (processResponse randomID msgID v p) (fold (objectPart randomID) (partsOf (v1_Response v)) n)"
    unfolding eq by (rule agree_content [OF assms(1,3)])
  show "sp_webSearchQueries (snd (processResponse randomID msgID v p)) = sp_webSearchQueries p"
    "sp_groundingChunks (snd (processResponse randomID msgID v p)) = sp_groundingChunks p"
    "sp_usageMapHook (snd (processResponse randomID msgID v p)) = sp_usageMapHook p"
    "sp_messageStopSent (snd (processResponse randomID msgID v p)) = sp_messageStopSent p"
    using context_content [of randomID msgID v p] unfolding eq by (simp_all add: context_of_def split: option.splits)
qed

text \<open>The end of a stream: the grounding, the delta of the message.\<close>

lemma agree_grounding:
  assumes "agree p items n" and "sp_blockType p = BlockTypeNone"
    and "sp_webSearchQueries p = gg_WebSearchQueries g" "sp_groundingChunks p = gg_GroundingChunks g"
  shows "agreeAfter items (emitGrounding p) (processGrounding g n)"
proof -
  let ?text = "buildGroundingText (Some g)"
  have g: "\<lparr>gg_WebSearchQueries = gg_WebSearchQueries g, gg_GroundingChunks = gg_GroundingChunks g\<rparr> = g" by simp
  show ?thesis
  proof (cases "?text = []")
    case True
    with assms show ?thesis by (simp add: g emitGrounding_def processGrounding_def agree_skip Let_def)
  next
    case False
    then have some: "gg_WebSearchQueries g \<noteq> [] \<or> gg_GroundingChunks g \<noteq> []"
      by (auto simp: buildGroundingText_def)
    have "agreeAfter items (seqE (startBlock BlockTypeText (textBlock []) p) (\<lambda>p. seqE (emitDelta (TextDelta ?text) p) endBlock))
        (processGrounding g n)"
    proof (rule agree_start [OF assms(1)])
      fix q ys assume q: "agree q ys (flushThinking n)" "sp_blockType q = BlockTypeNone"
      let ?q = "q\<lparr>sp_blockType := BlockTypeText\<rparr>" and ?m = "flushText (flushThinking n)"
      have out: "seqE (emitDelta (TextDelta ?text) ?q) endBlock =
          ([ContentBlockDelta (sp_blockIndex q) (TextDelta ?text), ContentBlockStop (sp_blockIndex q)], q\<lparr>sp_blockIndex := sp_blockIndex q + 1\<rparr>)"
        using q(2) by (simp add: prod_eq_iff endBlock_def emitDelta_def)
      have obj: "processGrounding g n = appendBlock (textBlock ?text) ?m"
        using False by (simp add: processGrounding_def flushText_def flushThinking_def appendBlock_def Let_def)
      have "agree (q\<lparr>sp_blockIndex := sp_blockIndex q + 1\<rparr>) (ys @ [textBlock ?text]) (appendBlock (textBlock ?text) ?m)"
        using agree_flushText [OF q(1)] q(2) by (auto simp: agree_def appendBlock_def flushText_def)
      then show "agreeAfter (ys @ [textBlock []\<lparr>ci_Input := None\<rparr>]) (seqE (emitDelta (TextDelta ?text) ?q) endBlock) (processGrounding g n)"
        unfolding out obj by (simp add: agreeAfter_def messageDeltas_def)
    qed
    with False some assms(3,4) show ?thesis by (auto simp: g emitGrounding_def Let_def seqE_assoc)
  qed
qed

lemma agree_finish:
  assumes "agree p items n" and "\<not> sp_messageStopSent p"
    and "sp_webSearchQueries p = gg_WebSearchQueries g" "sp_groundingChunks p = gg_GroundingChunks g"
  defines "m \<equiv> processGrounding g (flushThinking n)"
  shows "merged (fold receive (fst (emitFinish reason p)) items) = merged (np_contentBlocks (flushText (flushThinking m)))"
    "messageDeltas (fst (emitFinish reason p)) = [(geminiStopReason (np_hasToolCall m) reason, usageValue (sp_usage p) p)]"
    "np_trailingSignature m = []"
proof -
  let ?e = "endBlock p" and ?g = "emitGrounding (snd (endBlock p))"
  note e = agree_endBlock [OF assms(1)]
  then have ae: "agree (snd ?e) (fold receive (fst ?e) items) (flushThinking n)" and de: "messageDeltas (fst ?e) = []"
    by (simp_all add: agreeAfter_def)
  have ce: "context_of (snd ?e) = context_of p" by simp
  then have g: "sp_webSearchQueries (snd ?e) = gg_WebSearchQueries g" "sp_groundingChunks (snd ?e) = gg_GroundingChunks g"
    using assms(3,4) by (simp_all add: context_of_def)
  have ag: "agree (snd ?g) (fold receive (fst ?g) (fold receive (fst ?e) items)) m" and dg: "messageDeltas (fst ?g) = []"
    using agree_grounding [OF ae e(2) g] by (simp_all add: agreeAfter_def m_def)
  have "context_of (snd ?g) = context_of (snd ?e)" by (simp add: emitGrounding_def Let_def)
  with ce have cg: "context_of (snd ?g) = context_of p" by simp
  have trailing: "flushTrailing (snd ?e) = ([], snd ?e)" by (rule flushTrailing_skip) (rule agreeD [OF ae])
  have fin: "emitFinish reason p = seqE ?e (\<lambda>_. seqE ?g (\<lambda>p.
      ([MessageDelta (geminiStopReason (sp_usedTool p) reason) (usageValue (sp_usage p) p), MessageStop], p\<lparr>sp_messageStopSent := True\<rparr>)))"
    using cg assms(2) by (simp add: emitFinish_def prod_eq_iff trailing context_of_def)
  have blockType: "sp_blockType (snd ?g) = BlockTypeNone"
    using e(2) by (simp add: emitGrounding_def Let_def endBlock_def)
  from ag blockType have content: "merged (fold receive (fst ?g) (fold receive (fst ?e) items)) = merged (np_contentBlocks (flushText (flushThinking m)))"
    by (simp add: agree_def flushText_def flushThinking_def appendBlock_def)
  show "merged (fold receive (fst (emitFinish reason p)) items) = merged (np_contentBlocks (flushText (flushThinking m)))"
    by (simp add: fin content)
  have "sp_usedTool (snd ?g) = np_hasToolCall m" using ag by (simp add: agree_def)
  then show "messageDeltas (fst (emitFinish reason p)) = [(geminiStopReason (np_hasToolCall m) reason, usageValue (sp_usage p) p)]"
    using cg by (simp add: fin de dg) (simp add: messageDeltas_def context_of_def usageValue_def)
  show "np_trailingSignature m = []" using agreeD [OF ag] by simp
qed

lemma processGrounding_flush:
  "flushText (flushThinking (processGrounding g (flushThinking n))) = flushText (flushThinking (processGrounding g n))"
proof -
  have "flushThinking (flushThinking n) = flushThinking n" by (simp add: flushThinking_def appendBlock_def)
  then show ?thesis by (simp add: processGrounding_def Let_def)
qed

lemma processGrounding_none: "processGrounding \<lparr>gg_WebSearchQueries = [], gg_GroundingChunks = []\<rparr> n = n"
  by (simp add: processGrounding_def buildGroundingText_def)

lemma hasToolCall_same [simp]:
  "np_hasToolCall (flushText n) = np_hasToolCall n" "np_hasToolCall (flushThinking n) = np_hasToolCall n"
  by (simp_all add: flushText_def flushThinking_def appendBlock_def)

text \<open>The last answer has parts, the finish reason, the usage and the grounding.\<close>

definition closing :: "GeminiResponse \<Rightarrow> bool" where
  "closing r \<longleftrightarrow> partsOf r \<noteq> [] \<and> extractGeminiFinishReason r \<noteq> [] \<and> gr_UsageMetadata r \<noteq> None"

lemma run_midway:
  assumes "agree p items n" and "\<forall>v \<in> set vs. midway (v1_Response v)"
    and "\<forall>v \<in> set vs. \<forall>part \<in> set (partsOf (v1_Response v)). plainPart part"
  shows "agreeAfter items (run_machine (processResponse randomID msgID) vs p) (fold (objectPart randomID) (concat (map (partsOf \<circ> v1_Response) vs)) n) \<and>
    sp_webSearchQueries (snd (run_machine (processResponse randomID msgID) vs p)) = sp_webSearchQueries p \<and> sp_groundingChunks (snd (run_machine (processResponse randomID msgID) vs p)) = sp_groundingChunks p \<and>
    sp_usageMapHook (snd (run_machine (processResponse randomID msgID) vs p)) = sp_usageMapHook p \<and> sp_messageStopSent (snd (run_machine (processResponse randomID msgID) vs p)) = sp_messageStopSent p"
  using assms
proof (induction vs arbitrary: p items n)
  case Nil
  then show ?case by (simp add: agree_skip)
next
  case (Cons v vs)
  let ?r = "processResponse randomID msgID v p" and ?n = "fold (objectPart randomID) (partsOf (v1_Response v)) n"
  have v: "midway (v1_Response v)" "\<forall>part \<in> set (partsOf (v1_Response v)). plainPart part" using Cons.prems by simp_all
  note step = agree_midway [OF Cons.prems(1) v, of randomID msgID]
  have "agree (snd ?r) (fold receive (fst ?r) items) ?n" "messageDeltas (fst ?r) = []"
    using step(1) by (simp_all add: agreeAfter_def)
  note IH = Cons.IH [OF this(1)] and d = this(2)
  show ?case using IH Cons.prems step d by (simp add: agreeAfter_def)
qed

lemma fold_collect:
  "fold collectResponse rs s =
     (let ps = concat (map partsOf rs)
      in \<lparr>co_last = (if rs = [] then co_last s else Some (last rs)),
          co_lastWithParts = (case filter (\<lambda>r. partsOf r \<noteq> []) rs of [] \<Rightarrow> co_lastWithParts s | xs \<Rightarrow> Some (last xs)),
          co_parts = co_parts s @ ps,
          co_meaningful = (co_meaningful s \<or> (\<exists>r \<in> set rs. partsOf r \<noteq> [] \<or> TrimSpace (extractGeminiFinishReason r) \<noteq> []))\<rparr>)"
proof (induction rs arbitrary: s)
  case (Cons r rs)
  show ?case
    unfolding fold_simps Cons.IH
    by (cases "filter (\<lambda>r. partsOf r \<noteq> []) rs") (auto simp: collectResponse_def Let_def)
qed simp

lemma collect_closing:
  assumes "closing r"
  shows "collectClaudeStreamResponse randomID msgID (rs @ [r]) model =
    (let final = setParts (mergeParts [] (concat (map partsOf (rs @ [r])))) r
     in Some (Process randomID msgID final (gr_ResponseID final) model NewNonStreamingProcessor))"
proof -
  let ?s0 = "\<lparr>co_last = None, co_lastWithParts = None, co_parts = [], co_meaningful = False\<rparr>"
  have "(case filter (\<lambda>r. partsOf r \<noteq> []) (rs @ [r]) of [] \<Rightarrow> None | xs \<Rightarrow> Some (last xs)) = Some r"
    using assms by (cases "filter (\<lambda>r. partsOf r \<noteq> []) rs") (simp_all add: closing_def)
  with fold_collect [of "rs @ [r]" ?s0] assms
  have s: "co_lastWithParts (fold collectResponse (rs @ [r]) ?s0) = Some r" "co_meaningful (fold collectResponse (rs @ [r]) ?s0)"
    "co_parts (fold collectResponse (rs @ [r]) ?s0) = concat (map partsOf (rs @ [r]))"
    by (simp_all only: Let_def collected.simps) (simp_all add: closing_def)
  moreover have "concat (map partsOf (rs @ [r])) \<noteq> []" using assms by (simp add: closing_def)
  ultimately show ?thesis
    by (simp only: collectClaudeStreamResponse_def Let_def mergeCollectedPartsToResponse_def pickGeminiCollectResult_def
        option.case not_True_eq_False if_False)
qed

text \<open>
  C2: a client that asked for a stream and one that did not get the same answer of the same upstream
  stream: the assembled blocks are the blocks of the object (up to blocks that hold nothing and to
  where texts are cut), and the stop reason and the usage are the same.  The last answer has to carry
  parts, the finish reason and the usage, earlier ones neither finish reason nor grounding, and texts
  that are not thoughts come without a signature.
\<close>

theorem stream_and_object_agree:
  assumes "map v1_Response (List.map_filter (parseLine J) lines) = rs @ [r]"
    and "\<forall>r \<in> set rs. midway r" and "closing r"
    and "\<forall>r' \<in> set (rs @ [r]). \<forall>part \<in> set (partsOf r'). plainPart part"
  shows "\<exists>resp. collectClaudeStreamResponse randomID msgID' (rs @ [r]) model = Some resp \<and>
    merged (assembled (fst (antigravityStream J randomID msgID lines (NewStreamingProcessor model)))) = merged (cl_Content resp) \<and>
    messageDeltas (fst (antigravityStream J randomID msgID lines (NewStreamingProcessor model))) =
      [(cl_StopReason resp, UsageStruct (cl_Usage resp))]"
proof -
  obtain vs v where vs: "List.map_filter (parseLine J) lines = vs @ [v]" "map v1_Response vs = rs" "v1_Response v = r"
    using assms(1) by (metis (no_types, lifting) last_map map_butlast snoc_eq_iff_butlast map_is_Nil_conv)
  let ?start = "NewStreamingProcessor model" and ?blank = "NewNonStreamingProcessor"
  let ?run = "run_machine (processResponse randomID msgID) vs ?start"
  let ?c = "contentSteps randomID msgID v (snd ?run)"
  define ps where "ps = concat (map partsOf (rs @ [r]))"
  let ?n = "fold (objectPart randomID) ps ?blank"
  obtain c cs m where c: "gr_Candidates r = c # cs" "gd_FinishReason c \<noteq> []" and m: "gr_UsageMetadata r = Some m"
    using assms(3) by (auto simp: closing_def partsOf_def extractGeminiFinishReason_def split: list.splits)
  let ?q = "captureGrounding (gd_GroundingMetadata c) (snd ?c)"
  let ?e = "emitFinish (gd_FinishReason c) ?q"
  define g where "g = (case gd_GroundingMetadata c of None \<Rightarrow> \<lparr>gg_WebSearchQueries = [], gg_GroundingChunks = []\<rparr> | Some g \<Rightarrow> g)"
  have "agree ?start [] ?blank"
    by (simp add: agree_def NewStreamingProcessor_def NewNonStreamingProcessor_def)
  from run_midway [OF this, of vs randomID msgID] assms(2,4) vs
  have run: "agreeAfter [] ?run (fold (objectPart randomID) (concat (map partsOf rs)) ?blank)"
    "sp_webSearchQueries (snd ?run) = []" "sp_groundingChunks (snd ?run) = []" "sp_usageMapHook (snd ?run) = None"
    "\<not> sp_messageStopSent (snd ?run)"
    by (auto simp: NewStreamingProcessor_def map_map [symmetric] simp del: map_map)
  then have "agree (snd ?run) (fold receive (fst ?run) []) (fold (objectPart randomID) (concat (map partsOf rs)) ?blank)"
    by (simp add: agreeAfter_def)
  from agree_content [OF this, of v randomID msgID] assms(4) vs(3)
  have content: "agree (snd ?c) (fold receive (fst ?c) (fold receive (fst ?run) [])) ?n" "messageDeltas (fst ?c) = []"
    by (simp_all add: agreeAfter_def ps_def)
  have ctx: "sp_webSearchQueries (snd ?c) = []" "sp_groundingChunks (snd ?c) = []" "sp_usageMapHook (snd ?c) = None"
    "sp_usage (snd ?c) = geminiUsage m" "\<not> sp_messageStopSent (snd ?c)"
    using context_content [of randomID msgID v "snd ?run"] run(2-5) m vs(3) by (simp_all add: context_of_def)
  have q: "agree ?q (fold receive (fst ?c) (fold receive (fst ?run) [])) ?n" "\<not> sp_messageStopSent ?q"
    "sp_webSearchQueries ?q = gg_WebSearchQueries g" "sp_groundingChunks ?q = gg_GroundingChunks g"
    "sp_usageMapHook ?q = None" "sp_usage ?q = geminiUsage m"
    using content ctx by (simp_all add: captureGrounding_def g_def Let_def split: option.split)
  note fin = agree_finish [OF q(1-4)]
  have step: "processResponse randomID msgID v (snd ?run) = seqE ?c (\<lambda>_. ?e)"
    using c vs(3) by (simp add: processResponse_steps prod_eq_iff Let_def)
  have "sp_messageStopSent (snd ?e)" by (simp add: emitFinish_def)
  then have out: "fst (antigravityStream J randomID msgID lines ?start) = fst ?run @ fst ?c @ fst ?e"
    unfolding antigravityStream_def run_lines vs(1) run_machine_append
    by (simp add: case_prod_unfold Let_def run_machine_seqE step Finish_def)
  let ?final = "setParts (mergeParts [] ps) r"
  let ?resp = "Process randomID msgID' ?final (gr_ResponseID ?final) model ?blank"
  let ?m = "flushText (flushThinking (processGrounding g (flushThinking ?n)))"
  have "partsOf ?final = mergeParts [] ps" by (simp add: setParts_def c partsOf_def)
  then have parts: "fold (objectPart randomID) (partsOf ?final) ?blank = ?n"
    using fold_mergeParts [of ?blank ps randomID "[]"] assms(4)
    by (auto simp: NewNonStreamingProcessor_def buffered_def ps_def)
  have ground: "flushText (flushThinking (case gr_Candidates ?final of [] \<Rightarrow> ?n
      | c # _ \<Rightarrow> (case gd_GroundingMetadata c of None \<Rightarrow> ?n | Some g \<Rightarrow> processGrounding g ?n))) = ?m"
    by (simp add: setParts_def c g_def processGrounding_flush processGrounding_none split: option.split)
  have resp: "?resp = buildResponse msgID' ?final (gr_ResponseID ?final) model ?m"
    unfolding Process_def Let_def parts ground using fin(3) by simp
  have "merged (assembled (fst ?run @ fst ?c @ fst ?e)) = merged (cl_Content ?resp)"
    unfolding resp assembled_def using fin(1) by (simp add: buildResponse_def Let_def)
  moreover have "messageDeltas (fst ?run @ fst ?c @ fst ?e) = [(cl_StopReason ?resp, UsageStruct (cl_Usage ?resp))]"
    unfolding resp using run(1) content(2) fin(2) q(5,6)
    by (simp add: agreeAfter_def buildResponse_def usageValue_def setParts_def c m Let_def)
  ultimately show ?thesis
    unfolding out collect_closing [OF assms(3)] Let_def ps_def [symmetric] by blast
qed

section \<open>Instances\<close>

definition exampleResponse :: "GeminiPart list \<Rightarrow> string \<Rightarrow> GeminiResponse" where
  "exampleResponse parts reason =
     \<lparr>gr_Candidates = [\<lparr>gd_Content = Some parts, gd_FinishReason = reason, gd_GroundingMetadata = None\<rparr>],
      gr_UsageMetadata = Some \<lparr>gu_PromptTokenCount = 9, gu_CandidatesTokenCount = 4, gu_CachedContentTokenCount = 2,
        gu_ThoughtsTokenCount = 1, gu_CandidatesTokensDetails = []\<rparr>, gr_ResponseID = ''r''\<rparr>"

definition thoughtPart :: "string \<Rightarrow> string \<Rightarrow> GeminiPart" where
  "thoughtPart txt sig = (textPart txt)\<lparr>gp_Thought := True, gp_ThoughtSignature := sig\<rparr>"

definition exampleParser :: gemini_parser where
  "exampleParser =
     \<lparr>parse_v1 = (\<lambda>s.
        if s = ''a'' then Some \<lparr>v1_Response = exampleResponse [thoughtPart ''hm'' ''sig'', textPart ''hel''] [], v1_ResponseID = ''r''\<rparr>
        else if s = ''b'' then Some \<lparr>v1_Response = exampleResponse [textPart ''lo''] ''MAX_TOKENS'', v1_ResponseID = ''r''\<rparr>
        else None),
      parse_direct = (\<lambda>_. None)\<rparr>"

lemma example_lines:
  "List.map_filter (parseLine exampleParser) [''data: a'', '': ping'', ''data: b'', ''data: [DONE]''] =
     [\<lparr>v1_Response = exampleResponse [thoughtPart ''hm'' ''sig'', textPart ''hel''] [], v1_ResponseID = ''r''\<rparr>,
      \<lparr>v1_Response = exampleResponse [textPart ''lo''] ''MAX_TOKENS'', v1_ResponseID = ''r''\<rparr>]"
  by (simp add: List.map_filter_simps parseLine_def exampleParser_def TrimSpace_def trim_encs.simps go_spaces_def find_enc_def
      HasPrefix_def CutPrefix_def)

theorem stream_and_object_agree_witness:
  "\<exists>resp. collectClaudeStreamResponse (\<lambda>_. ''x'') ''m'' [exampleResponse [thoughtPart ''hm'' ''sig'', textPart ''hel''] [],
       exampleResponse [textPart ''lo''] ''MAX_TOKENS''] ''g'' = Some resp \<and>
    merged (assembled (fst (antigravityStream exampleParser (\<lambda>_. ''x'') ''m'' [''data: a'', '': ping'', ''data: b'', ''data: [DONE]'']
      (NewStreamingProcessor ''g'')))) = merged (cl_Content resp) \<and>
    messageDeltas (fst (antigravityStream exampleParser (\<lambda>_. ''x'') ''m'' [''data: a'', '': ping'', ''data: b'', ''data: [DONE]'']
      (NewStreamingProcessor ''g''))) = [(cl_StopReason resp, UsageStruct (cl_Usage resp))]"
proof (rule stream_and_object_agree [where rs = "[exampleResponse [thoughtPart ''hm'' ''sig'', textPart ''hel''] []]"
      and r = "exampleResponse [textPart ''lo''] ''MAX_TOKENS''", simplified append.simps])
  show "map v1_Response (List.map_filter (parseLine exampleParser) [''data: a'', '': ping'', ''data: b'', ''data: [DONE]'']) =
      [exampleResponse [thoughtPart ''hm'' ''sig'', textPart ''hel''] [], exampleResponse [textPart ''lo''] ''MAX_TOKENS'']"
    unfolding example_lines by simp
qed (simp_all add: midway_def closing_def plainPart_def exampleResponse_def partsOf_def extractGeminiFinishReason_def
      thoughtPart_def textPart_def)

text \<open>
  Each hypothesis is needed.  A signature that comes on a part without text, the case the trailing
  signature was made for, is dropped by both processors: no part reaches the branch that keeps it.  A
  signed text overtakes the texts before it in the object.  When the last answer has no parts, its
  finish reason and usage are lost in the object.
\<close>

definition barePart :: "string \<Rightarrow> GeminiPart" where
  "barePart sig = (textPart [])\<lparr>gp_ThoughtSignature := sig\<rparr>"

lemma bare_signature_dropped:
  "processPart randomID (barePart sig) p = ([], p)" "objectPart randomID (barePart sig) n = n"
  by (simp_all add: processPart_def objectPart_def barePart_def textPart_def seqE_skip)

lemma signed_text_overtakes:
  "map ci_Text (cl_Content (Process randomID msgID
     (exampleResponse [textPart ''first'', (textPart ''second'')\<lparr>gp_ThoughtSignature := ''sig''\<rparr>] ''STOP'') [] model
     NewNonStreamingProcessor)) = [''second'', [], ''first'']"
  by (simp add: Process_def exampleResponse_def partsOf_def objectPart_def textPart_def objectText_def flushThinking_def
      flushText_def appendBlock_def NewNonStreamingProcessor_def buildResponse_def Let_def)
     (simp add: thinkingBlock_def zeroClaudeContentItem_def)

lemma last_without_parts_loses_reason:
  "map_option cl_StopReason (collectClaudeStreamResponse (\<lambda>_. []) [] [exampleResponse [textPart ''cut''] [],
     exampleResponse [] ''MAX_TOKENS''] ''g'') = Some ''end_turn''"
  by code_simp

end
