(* ===== verification/Calendar.thy ===== *)
theory Calendar
  imports Gateway_Prelude
begin

text \<open>
  Go's calendar as far as the code uses it, and \<open>internal/pkg/timezone/timezone.go\<close>.

  A \<open>*time.Location\<close> is the function from instants (whole seconds since Go's zero time) to the UTC
  offset in force then, which is what the time zone database holds.  Go's zero time is a midnight,
  so the calendar date of an instant is the number of whole days of its wall clock, and
  \<open>time.Date(y, m, d, ...)\<close> with a normalised day is a function of that number.  \<open>dateSec\<close> is the
  conversion \<open>time.Date\<close> makes from a wall clock to an instant: it looks the offset up as if the
  wall clock were UTC, and looks it up again at the instant that gives.

  The locale \<open>civil_midnights\<close> names what a zone without transitions at midnight promises.
\<close>

section \<open>Dates\<close>

type_synonym location = "int \<Rightarrow> int"

definition UTC :: location where "UTC = (\<lambda>_. 0)"

definition unixSec :: "time \<Rightarrow> int" where "unixSec t = t div Second"
definition nsec :: "time \<Rightarrow> int" where "nsec t = t mod Second"

definition wallSec :: "location \<Rightarrow> int \<Rightarrow> int" where "wallSec loc s = s + loc s"

definition dateSec :: "location \<Rightarrow> int \<Rightarrow> int" where
  "dateSec loc u = (if loc u = 0 then u else u - loc (u - loc u))"

definition dayOf :: "location \<Rightarrow> time \<Rightarrow> int" where
  "dayOf loc t = wallSec loc (unixSec t) div 86400"

definition midnight :: "location \<Rightarrow> int \<Rightarrow> time" where
  "midnight loc d = dateSec loc (d * 86400) * Second"

text \<open>\<open>startOfDay(t)\<close> of \<open>service/subscription_service.go\<close> for a time \<open>t\<close> in the zone \<open>loc\<close>, and
  \<open>timezone.StartOfDay(t)\<close>, which first takes \<open>t\<close> to the configured zone.\<close>

definition startOfDay :: "location \<Rightarrow> time \<Rightarrow> time" where
  "startOfDay loc t = midnight loc (dayOf loc t)"

definition StartOfDay :: "location \<Rightarrow> time \<Rightarrow> time" where
  "StartOfDay loc t = startOfDay loc t"

text \<open>\<open>t.AddDate(0, 0, days)\<close> of a time \<open>t\<close> in the zone \<open>loc\<close>.\<close>

definition AddDate :: "location \<Rightarrow> time \<Rightarrow> int \<Rightarrow> time" where
  "AddDate loc t days = dateSec loc (wallSec loc (unixSec t) + days * 86400) * Second + nsec t"

text \<open>\<open>t.Sub(u)\<close> saturates at the range of a \<open>time.Duration\<close>.\<close>

definition maxDuration :: duration where "maxDuration = 2 ^ 63 - 1"
definition minDuration :: duration where "minDuration = - (2 ^ 63)"

definition Sub :: "time \<Rightarrow> time \<Rightarrow> duration" where
  "Sub t u = max minDuration (min maxDuration (t - u))"

lemma Sub_exact: "\<bar>t - u\<bar> \<le> maxDuration \<Longrightarrow> Sub t u = t - u"
  by (simp add: Sub_def maxDuration_def minDuration_def)

lemma Sub_le: "u \<le> t \<Longrightarrow> Sub t u \<le> t - u"
  by (simp add: Sub_def maxDuration_def minDuration_def)

lemma Sub_pos_iff [simp]: "0 < Sub t u \<longleftrightarrow> u < t" "Sub t u \<le> 0 \<longleftrightarrow> t \<le> u"
  by (auto simp: Sub_def maxDuration_def minDuration_def min_def max_def)

lemma Sub_ge: "d \<le> t - u \<Longrightarrow> d \<le> maxDuration \<Longrightarrow> d \<le> Sub t u"
  by (simp add: Sub_def)

lemma div_mult_bounds:
  fixes x b :: int
  assumes "0 < b"
  shows "x div b * b \<le> x" and "x < (x div b + 1) * b"
proof -
  have "x div b * b + x mod b = x" by (rule div_mult_mod_eq)
  moreover have "0 \<le> x mod b" "x mod b < b" using assms by simp_all
  ultimately have "x div b * b \<le> x" "x < x div b * b + b" by linarith+
  then show "x div b * b \<le> x" and "x < (x div b + 1) * b"
    by (simp_all add: distrib_right)
qed

lemma le_div_iff:
  fixes a x b :: int
  assumes "0 < b" shows "a \<le> x div b \<longleftrightarrow> a * b \<le> x"
proof
  assume "a \<le> x div b"
  then have "a * b \<le> x div b * b" using assms by (simp add: mult_right_mono)
  then show "a * b \<le> x" using div_mult_bounds(1) [OF assms, of x] by simp
next
  assume "a * b \<le> x"
  then have "a * b < (x div b + 1) * b" using div_mult_bounds(2) [OF assms, of x] by simp
  then show "a \<le> x div b" using assms by (simp add: mult_less_cancel_right)
qed

section \<open>Zones with regular midnights\<close>

text \<open>
  An instant is on a day or later exactly when the day's midnight has passed, and the midnights are
  distinct.  The first law fails where the clocks go forward or back at midnight.
\<close>

locale civil_midnights =
  fixes loc :: location
  assumes midnight_le_iff: "midnight loc d \<le> t \<longleftrightarrow> d \<le> dayOf loc t"
    and midnight_less: "midnight loc d < midnight loc (d + 1)"
begin

lemma dayOf_midnight [simp]: "dayOf loc (midnight loc d) = d"
proof (rule antisym)
  show "dayOf loc (midnight loc d) \<le> d"
  proof (rule ccontr)
    assume "\<not> dayOf loc (midnight loc d) \<le> d"
    then have "d + 1 \<le> dayOf loc (midnight loc d)" by simp
    then have "midnight loc (d + 1) \<le> midnight loc d" by (simp add: midnight_le_iff)
    with midnight_less [of d] show False by simp
  qed
  show "d \<le> dayOf loc (midnight loc d)"
    by (simp flip: midnight_le_iff)
qed

lemma startOfDay_idem: "startOfDay loc (startOfDay loc t) = startOfDay loc t"
  by (simp add: startOfDay_def)

lemma startOfDay_le: "startOfDay loc t \<le> t"
  by (simp add: startOfDay_def midnight_le_iff)

lemma startOfDay_less_iff: "startOfDay loc t < startOfDay loc u \<longleftrightarrow> dayOf loc t < dayOf loc u"
proof -
  have "startOfDay loc u \<le> startOfDay loc t \<longleftrightarrow> dayOf loc u \<le> dayOf loc t"
    by (simp add: startOfDay_def midnight_le_iff)
  then show ?thesis by linarith
qed

lemma startOfDay_later:
  assumes "startOfDay loc t < startOfDay loc u" shows "t < startOfDay loc u"
proof (rule ccontr)
  assume "\<not> t < startOfDay loc u"
  then have "dayOf loc u \<le> dayOf loc t" by (simp add: startOfDay_def not_less midnight_le_iff)
  with assms show False by (simp add: startOfDay_less_iff)
qed

end

text \<open>Every zone with one offset, such as UTC and the default zone of the configuration.\<close>

lemma fixed_midnight: "midnight (\<lambda>_. c) d = (d * 86400 - c) * Second"
  by (simp add: midnight_def dateSec_def)

lemma fixed_dayOf: "d \<le> dayOf (\<lambda>_. c) t \<longleftrightarrow> (d * 86400 - c) * Second \<le> t"
proof -
  have "d \<le> dayOf (\<lambda>_. c) t \<longleftrightarrow> d * 86400 \<le> t div Second + c"
    by (simp add: dayOf_def wallSec_def unixSec_def le_div_iff)
  also have "\<dots> \<longleftrightarrow> d * 86400 - c \<le> t div Second" by linarith
  also have "\<dots> \<longleftrightarrow> (d * 86400 - c) * Second \<le> t"
    by (rule le_div_iff) (simp add: Second_def)
  finally show ?thesis .
qed

interpretation fixed_zone: civil_midnights "\<lambda>_. c" for c
  by unfold_locales (simp_all add: fixed_midnight fixed_dayOf Second_def)

lemma UTC_midnights: "civil_midnights UTC"
  unfolding UTC_def by (rule fixed_zone.civil_midnights_axioms)

end
