(* ===== verification/User_Subscription.thy ===== *)
theory User_Subscription
  imports Complex_Main Calendar
begin

text \<open>
  \<open>service/user_subscription.go\<close>: a subscription and its three usage windows.  The daily window
  follows the calendar of the configured zone; the weekly and the monthly one advance by whole
  periods from their anchor and never past the end of the term.

  Every function that reads the clock takes the time it reads.  A subscription's times come from
  the database driver, in the zone \<open>zn_db\<close>; \<open>zn_config\<close> is the configured zone.  Amounts are exact
  (\<open>rat\<close>), where the code has floating-point dollars.

  Lemmas: where an automatic advance puts a window and when there is none.
\<close>

section \<open>Data\<close>

type_synonym usd = rat

record Zones =
  zn_config :: location
  zn_db :: location

definition SubscriptionStatusActive :: string where "SubscriptionStatusActive = ''active''"
definition SubscriptionStatusExpired :: string where "SubscriptionStatusExpired = ''expired''"
definition SubscriptionStatusSuspended :: string where "SubscriptionStatusSuspended = ''suspended''"
definition SubscriptionStatusRevoked :: string where "SubscriptionStatusRevoked = ''revoked''"

lemmas subscription_status_defs = SubscriptionStatusActive_def SubscriptionStatusExpired_def
  SubscriptionStatusSuspended_def SubscriptionStatusRevoked_def

record UserSubscription =
  us_ID :: int
  us_UserID :: int
  us_GroupID :: int
  us_StartsAt :: time
  us_ExpiresAt :: time
  us_Status :: string
  us_DailyWindowStart :: "time option"
  us_WeeklyWindowStart :: "time option"
  us_MonthlyWindowStart :: "time option"
  us_DailyUsageUSD :: usd
  us_WeeklyUsageUSD :: usd
  us_MonthlyUsageUSD :: usd
  us_AssignedBy :: "int option"
  us_AssignedAt :: time
  us_Notes :: string
  us_DeletedAt :: "time option"

text \<open>The fields of \<open>service.Group\<close> that the subscriptions use.\<close>

record SubscriptionGroup =
  gr_ID :: int
  gr_Name :: string
  gr_Status :: string
  gr_SubscriptionType :: string
  gr_DailyLimitUSD :: "usd option"
  gr_WeeklyLimitUSD :: "usd option"
  gr_MonthlyLimitUSD :: "usd option"

definition positiveLimit :: "usd option \<Rightarrow> bool" where
  "positiveLimit l = (case l of None \<Rightarrow> False | Some v \<Rightarrow> v > 0)"

definition HasDailyLimit :: "SubscriptionGroup \<Rightarrow> bool" where
  "HasDailyLimit g = positiveLimit (gr_DailyLimitUSD g)"
definition HasWeeklyLimit :: "SubscriptionGroup \<Rightarrow> bool" where
  "HasWeeklyLimit g = positiveLimit (gr_WeeklyLimitUSD g)"
definition HasMonthlyLimit :: "SubscriptionGroup \<Rightarrow> bool" where
  "HasMonthlyLimit g = positiveLimit (gr_MonthlyLimitUSD g)"

definition IsSubscriptionType :: "SubscriptionGroup \<Rightarrow> bool" where
  "IsSubscriptionType g = (gr_SubscriptionType g = ''subscription'')"

section \<open>The term\<close>

definition IsActive :: "time \<Rightarrow> UserSubscription \<Rightarrow> bool" where
  "IsActive now s = (us_Status s = SubscriptionStatusActive \<and> now < us_ExpiresAt s)"

definition IsExpired :: "time \<Rightarrow> UserSubscription \<Rightarrow> bool" where
  "IsExpired now s = (now > us_ExpiresAt s)"

definition daysRemainingAt :: "time \<Rightarrow> UserSubscription \<Rightarrow> int" where
  "daysRemainingAt now s =
     (let remaining = Sub (us_ExpiresAt s) now
      in if remaining \<le> 0 then 0
         else let days = go_div remaining Day
              in if go_mod remaining Day \<noteq> 0 then days + 1 else days)"

definition IsWindowActivated :: "UserSubscription \<Rightarrow> bool" where
  "IsWindowActivated s =
     (us_DailyWindowStart s \<noteq> None \<or> us_WeeklyWindowStart s \<noteq> None \<or> us_MonthlyWindowStart s \<noteq> None)"

definition HasOneTimeDailyQuota :: "Zones \<Rightarrow> UserSubscription \<Rightarrow> bool" where
  "HasOneTimeDailyQuota zn s =
     (if IsZero (us_StartsAt s) \<or> IsZero (us_ExpiresAt s) then False
      else \<not> us_ExpiresAt s > AddDate (zn_db zn) (us_StartsAt s) 1)"

section \<open>The windows\<close>

definition Week :: duration where "Week = 7 * 24 * Hour"
definition Month :: duration where "Month = 30 * 24 * Hour"

definition automaticDailyWindowStartAt :: "Zones \<Rightarrow> time \<Rightarrow> UserSubscription \<Rightarrow> time option" where
  "automaticDailyWindowStartAt zn now s =
     (case us_DailyWindowStart s of
        None \<Rightarrow> None
      | Some start \<Rightarrow>
          if HasOneTimeDailyQuota zn s then None
          else
            let today = StartOfDay (zn_config zn) now
            in if \<not> today > StartOfDay (zn_config zn) start then None else Some today)"

definition windowResetAnchor :: "Zones \<Rightarrow> UserSubscription \<Rightarrow> time \<Rightarrow> time" where
  "windowResetAnchor zn s previous =
     (let legacyAnchor = startOfDay (zn_db zn) (us_StartsAt s)
      in if legacyAnchor < us_StartsAt s \<and> previous = legacyAnchor then us_StartsAt s else previous)"

definition automaticWindowStartAt ::
  "Zones \<Rightarrow> UserSubscription \<Rightarrow> time option \<Rightarrow> duration \<Rightarrow> time \<Rightarrow> time option" where
  "automaticWindowStartAt zn s previous period now =
     (case previous of
        None \<Rightarrow> None
      | Some previous \<Rightarrow>
          let anchor = windowResetAnchor zn s previous; next = anchor + period
          in if now < next \<or> \<not> next < us_ExpiresAt s then None
             else
               let periods = go_div (Sub now anchor) period;
                   lastPeriodBeforeExpiry = go_div (Sub (us_ExpiresAt s) anchor - 1) period;
                   periods = (if periods > lastPeriodBeforeExpiry then lastPeriodBeforeExpiry else periods)
               in Some (anchor + periods * period))"

definition NeedsDailyResetAt :: "Zones \<Rightarrow> time \<Rightarrow> UserSubscription \<Rightarrow> bool" where
  "NeedsDailyResetAt zn now s = (automaticDailyWindowStartAt zn now s \<noteq> None)"

definition NeedsWeeklyResetAt :: "time \<Rightarrow> UserSubscription \<Rightarrow> bool" where
  "NeedsWeeklyResetAt now s = (case us_WeeklyWindowStart s of None \<Rightarrow> False | Some t \<Rightarrow> \<not> now < t + 7 * 24 * Hour)"

definition NeedsMonthlyResetAt :: "time \<Rightarrow> UserSubscription \<Rightarrow> bool" where
  "NeedsMonthlyResetAt now s = (case us_MonthlyWindowStart s of None \<Rightarrow> False | Some t \<Rightarrow> \<not> now < t + 30 * 24 * Hour)"

definition canAutomaticallyResetDailyAt :: "Zones \<Rightarrow> time \<Rightarrow> UserSubscription \<Rightarrow> bool" where
  "canAutomaticallyResetDailyAt zn now s = (automaticDailyWindowStartAt zn now s \<noteq> None)"

definition canAutomaticallyResetWeeklyAt :: "Zones \<Rightarrow> time \<Rightarrow> UserSubscription \<Rightarrow> bool" where
  "canAutomaticallyResetWeeklyAt zn now s = (automaticWindowStartAt zn s (us_WeeklyWindowStart s) Week now \<noteq> None)"

definition canAutomaticallyResetMonthlyAt :: "Zones \<Rightarrow> time \<Rightarrow> UserSubscription \<Rightarrow> bool" where
  "canAutomaticallyResetMonthlyAt zn now s = (automaticWindowStartAt zn s (us_MonthlyWindowStart s) Month now \<noteq> None)"

definition DailyResetTime :: "Zones \<Rightarrow> UserSubscription \<Rightarrow> time option" where
  "DailyResetTime zn s =
     (case us_DailyWindowStart s of
        None \<Rightarrow> None
      | Some start \<Rightarrow>
          if HasOneTimeDailyQuota zn s then Some (us_ExpiresAt s)
          else Some (AddDate (zn_config zn) (StartOfDay (zn_config zn) start) 1))"

definition WeeklyResetTime :: "Zones \<Rightarrow> UserSubscription \<Rightarrow> time option" where
  "WeeklyResetTime zn s = map_option (\<lambda>start. windowResetAnchor zn s start + Week) (us_WeeklyWindowStart s)"

definition MonthlyResetTime :: "Zones \<Rightarrow> UserSubscription \<Rightarrow> time option" where
  "MonthlyResetTime zn s = map_option (\<lambda>start. windowResetAnchor zn s start + Month) (us_MonthlyWindowStart s)"

section \<open>The limits\<close>

definition CheckDailyLimit :: "SubscriptionGroup \<Rightarrow> usd \<Rightarrow> UserSubscription \<Rightarrow> bool" where
  "CheckDailyLimit g additionalCost s =
     (if \<not> HasDailyLimit g then True else us_DailyUsageUSD s + additionalCost \<le> the (gr_DailyLimitUSD g))"

definition CheckWeeklyLimit :: "SubscriptionGroup \<Rightarrow> usd \<Rightarrow> UserSubscription \<Rightarrow> bool" where
  "CheckWeeklyLimit g additionalCost s =
     (if \<not> HasWeeklyLimit g then True else us_WeeklyUsageUSD s + additionalCost \<le> the (gr_WeeklyLimitUSD g))"

definition CheckMonthlyLimit :: "SubscriptionGroup \<Rightarrow> usd \<Rightarrow> UserSubscription \<Rightarrow> bool" where
  "CheckMonthlyLimit g additionalCost s =
     (if \<not> HasMonthlyLimit g then True else us_MonthlyUsageUSD s + additionalCost \<le> the (gr_MonthlyLimitUSD g))"

definition CheckAllLimits :: "SubscriptionGroup \<Rightarrow> usd \<Rightarrow> UserSubscription \<Rightarrow> bool \<times> bool \<times> bool" where
  "CheckAllLimits g c s = (CheckDailyLimit g c s, CheckWeeklyLimit g c s, CheckMonthlyLimit g c s)"

section \<open>Where the windows advance to\<close>

lemma windowResetAnchor_ge: "previous \<le> windowResetAnchor zn s previous"
  by (simp add: windowResetAnchor_def Let_def)

lemma windowResetAnchor_cong:
  "us_StartsAt s = us_StartsAt s' \<Longrightarrow> windowResetAnchor zn s = windowResetAnchor zn s'"
  by (simp add: windowResetAnchor_def fun_eq_iff cong: if_cong)

text \<open>The start that an advance writes: a whole number of periods after the anchor, not in the
  future, before the end of the term.\<close>

lemma automaticWindowStartAt_Some:
  assumes adv: "automaticWindowStartAt zn s (Some previous) period now = Some w"
    and period: "0 < period" "period < maxDuration"
  obtains k where "1 \<le> k" "w = windowResetAnchor zn s previous + k * period" "w \<le> now" "w < us_ExpiresAt s"
    and "\<bar>now - windowResetAnchor zn s previous\<bar> \<le> maxDuration \<Longrightarrow>
         \<bar>us_ExpiresAt s - windowResetAnchor zn s previous\<bar> \<le> maxDuration \<Longrightarrow>
         now < w + period \<or> us_ExpiresAt s \<le> w + period"
proof -
  let ?a = "windowResetAnchor zn s previous" and ?E = "us_ExpiresAt s"
  let ?n = "Sub now ?a" and ?l = "Sub ?E ?a - 1"
  from adv have due: "?a + period \<le> now" "?a + period < ?E"
    by (auto simp: automaticWindowStartAt_def Let_def split: if_splits)
  have n: "period \<le> ?n" and l: "period \<le> ?l"
    using due period by (auto intro: Sub_ge simp: le_diff_eq)
  define k where "k = min (?n div period) (?l div period)"
  have w: "w = ?a + k * period"
    using adv due n l period
    by (auto simp: automaticWindowStartAt_def Let_def go_div_nonneg k_def min_def split: if_splits)
  have "1 \<le> ?n div period" "1 \<le> ?l div period"
    using n l period by (simp_all add: le_div_iff)
  then have k1: "1 \<le> k" by (simp add: k_def)
  have kn: "k * period \<le> ?n" and kl: "k * period \<le> ?l"
    using period(1) by (simp_all only: k_def min.cobounded1 min.cobounded2 flip: le_div_iff)
  have "?n \<le> now - ?a" "?l \<le> ?E - ?a - 1"
    using Sub_le [of ?a now] Sub_le [of ?a ?E] due period by simp_all
  with kn kl w have "w \<le> now" "w < ?E" by simp_all
  moreover have "now < w + period \<or> ?E \<le> w + period"
    if "\<bar>now - ?a\<bar> \<le> maxDuration" "\<bar>?E - ?a\<bar> \<le> maxDuration"
  proof -
    have "?n < (?n div period + 1) * period" "?l < (?l div period + 1) * period"
      using period(1) by (rule div_mult_bounds(2))+
    then have "?n < (k + 1) * period \<or> ?l < (k + 1) * period"
      by (auto simp: k_def min_def)
    with that w show ?thesis by (auto simp: Sub_exact algebra_simps)
  qed
  ultimately show thesis using that k1 w by blast
qed

end
