(* ===== verification/Subscription_Store.thy ===== *)
theory Subscription_Store
  imports User_Subscription
begin

text \<open>
  \<open>repository/user_subscription_repo.go\<close>: the statements on the table of subscriptions.  A table is
  the list of its rows, deleted ones included: a row is deleted by setting \<open>deleted_at\<close>, which every
  query filters on and the updates do not.  A statement runs atomically and may fail, before or
  after it took effect; the list \<open>sd_faults\<close> says what happens to the coming ones.

  \<open>created_at\<close> and \<open>updated_at\<close> are left out, since no operation reads them, and times are kept to
  the nanosecond.  Lemmas: what each statement does to the row of one identifier, and that the
  statements keep the constraints of the schema.
\<close>

section \<open>Tables and statements\<close>

datatype sub_error =
    ErrSubscriptionNotFound | ErrSubscriptionExpired | ErrSubscriptionSuspended
  | ErrSubscriptionAlreadyExists | ErrSubscriptionAssignConflict string | ErrSubscriptionNotRevoked
  | ErrSubscriptionRestoreConflict | ErrGroupNotSubscriptionType | ErrInvalidInput
  | ErrDailyLimitExceeded | ErrWeeklyLimitExceeded | ErrMonthlyLimitExceeded
  | ErrSubscriptionNilInput | ErrAdjustWouldExpire | ErrCannotShortenExpired | ErrGroupNotFound
  | ErrDatabase

record sub_db =
  sd_subs :: "UserSubscription list"
  sd_groups :: "SubscriptionGroup list"
  sd_next :: int
  sd_faults :: "fault list"

type_synonym 'a db_op = "sub_db \<Rightarrow> (sub_error + 'a) \<times> sub_db"

definition succeed :: "'a \<Rightarrow> 'a db_op" where "succeed x = (\<lambda>db. (Inr x, db))"
definition failWith :: "sub_error \<Rightarrow> 'a db_op" where "failWith e = (\<lambda>db. (Inl e, db))"

definition andThen :: "'a db_op \<Rightarrow> ('a \<Rightarrow> 'b db_op) \<Rightarrow> 'b db_op" where
  "andThen m k = (\<lambda>db. case m db of (Inl e, db) \<Rightarrow> (Inl e, db) | (Inr x, db) \<Rightarrow> k x db)"

text \<open>Running one statement under the coming fault.\<close>

definition sql :: "'a db_op \<Rightarrow> 'a db_op" where
  "sql f = (\<lambda>db.
     let prior = db\<lparr>sd_faults := tl (sd_faults db)\<rparr>; result = f prior
     in case sd_faults db of
          NotApplied # _ \<Rightarrow> (Inl ErrDatabase, prior)
        | Applied # _ \<Rightarrow> (Inl ErrDatabase, snd result)
        | _ \<Rightarrow> result)"

definition visible :: "UserSubscription \<Rightarrow> bool" where
  "visible r = (us_DeletedAt r = None)"

definition onlyRow :: "(UserSubscription \<Rightarrow> bool) \<Rightarrow> UserSubscription db_op" where
  "onlyRow p = sql (\<lambda>db. (case filter p (sd_subs db) of
     [] \<Rightarrow> Inl ErrSubscriptionNotFound | [r] \<Rightarrow> Inr r | _ \<Rightarrow> Inl ErrDatabase, db))"

text \<open>\<open>UPDATE ... WHERE\<close>, with the number of rows it affected.\<close>

definition setRows ::
  "(UserSubscription \<Rightarrow> bool) \<Rightarrow> (UserSubscription \<Rightarrow> UserSubscription) \<Rightarrow> sub_db \<Rightarrow> sub_db" where
  "setRows p f db = db\<lparr>sd_subs := map (\<lambda>r. if p r then f r else r) (sd_subs db)\<rparr>"

definition updateWhere ::
  "(UserSubscription \<Rightarrow> bool) \<Rightarrow> (UserSubscription \<Rightarrow> UserSubscription) \<Rightarrow> nat db_op" where
  "updateWhere p f = sql (\<lambda>db. (Inr (length (filter p (sd_subs db))), setRows p f db))"

text \<open>
  The unique index on the user and the group of the rows that are not deleted, and the update of one
  row by its identifier, which reports a missing row and a violation of the index.
\<close>

definition subKey :: "UserSubscription \<Rightarrow> int \<times> int" where
  "subKey r = (us_UserID r, us_GroupID r)"

definition uniqueActive :: "UserSubscription list \<Rightarrow> bool" where
  "uniqueActive rs = distinct (map subKey (filter visible rs))"

definition updateOneID ::
  "sub_error \<Rightarrow> int \<Rightarrow> (UserSubscription \<Rightarrow> UserSubscription) \<Rightarrow> unit db_op" where
  "updateOneID conflict i f = sql (\<lambda>db.
     if \<not> (\<exists>r \<in> set (sd_subs db). us_ID r = i) then (Inl ErrSubscriptionNotFound, db)
     else let db' = setRows (\<lambda>r. us_ID r = i) f db
          in if uniqueActive (sd_subs db') then (Inr (), db') else (Inl conflict, db))"

section \<open>The repository\<close>

text \<open>The row that \<open>Create\<close> inserts; an omitted column takes its default.\<close>

definition createdRow :: "time \<Rightarrow> int \<Rightarrow> UserSubscription \<Rightarrow> UserSubscription" where
  "createdRow clock i sub = sub
     \<lparr>us_ID := i,
      us_StartsAt := (if IsZero (us_StartsAt sub) then clock else us_StartsAt sub),
      us_Status := (if us_Status sub \<noteq> [] then us_Status sub else SubscriptionStatusActive),
      us_AssignedAt := (if \<not> IsZero (us_AssignedAt sub) then us_AssignedAt sub else clock),
      us_DeletedAt := None\<rparr>"

definition Create :: "time \<Rightarrow> UserSubscription \<Rightarrow> UserSubscription db_op" where
  "Create clock sub = sql (\<lambda>db.
     let row = createdRow clock (sd_next db) sub; db = db\<lparr>sd_next := sd_next db + 1\<rparr>
     in if uniqueActive (sd_subs db @ [row])
        then (Inr (sub\<lparr>us_ID := us_ID row\<rparr>), db\<lparr>sd_subs := sd_subs db @ [row]\<rparr>)
        else (Inl ErrSubscriptionAlreadyExists, db))"

definition GetByID :: "int \<Rightarrow> UserSubscription db_op" where
  "GetByID i = onlyRow (\<lambda>r. us_ID r = i \<and> visible r)"

definition GetByIDForUpdate :: "int \<Rightarrow> UserSubscription db_op" where
  "GetByIDForUpdate i = onlyRow (\<lambda>r. us_ID r = i \<and> visible r)"

definition GetByIDIncludeDeleted :: "int \<Rightarrow> UserSubscription db_op" where
  "GetByIDIncludeDeleted i = onlyRow (\<lambda>r. us_ID r = i)"

definition GetByUserIDAndGroupID :: "int \<Rightarrow> int \<Rightarrow> UserSubscription db_op" where
  "GetByUserIDAndGroupID u g = onlyRow (\<lambda>r. us_UserID r = u \<and> us_GroupID r = g \<and> visible r)"

definition GetActiveByUserIDAndGroupID :: "time \<Rightarrow> int \<Rightarrow> int \<Rightarrow> UserSubscription db_op" where
  "GetActiveByUserIDAndGroupID now u g = onlyRow (\<lambda>r. us_UserID r = u \<and> us_GroupID r = g \<and>
     us_Status r = SubscriptionStatusActive \<and> us_ExpiresAt r > now \<and> visible r)"

definition ExistsByUserIDAndGroupID :: "int \<Rightarrow> int \<Rightarrow> bool db_op" where
  "ExistsByUserIDAndGroupID u g = sql (\<lambda>db.
     (Inr (\<exists>r \<in> set (sd_subs db). us_UserID r = u \<and> us_GroupID r = g \<and> visible r), db))"

definition ExistsActiveByUserIDAndGroupID :: "int \<Rightarrow> int \<Rightarrow> bool db_op" where
  "ExistsActiveByUserIDAndGroupID u g = ExistsByUserIDAndGroupID u g"

text \<open>\<open>Update\<close> writes every column of \<open>sub\<close>; a window start that is nil leaves the column alone.\<close>

definition orElse :: "'a option \<Rightarrow> 'a option \<Rightarrow> 'a option" where
  "orElse x y = (case x of None \<Rightarrow> y | Some _ \<Rightarrow> x)"

definition updatedRow :: "UserSubscription \<Rightarrow> UserSubscription \<Rightarrow> UserSubscription" where
  "updatedRow sub r = r
     \<lparr>us_UserID := us_UserID sub, us_GroupID := us_GroupID sub, us_StartsAt := us_StartsAt sub,
      us_ExpiresAt := us_ExpiresAt sub, us_Status := us_Status sub,
      us_DailyWindowStart := orElse (us_DailyWindowStart sub) (us_DailyWindowStart r),
      us_WeeklyWindowStart := orElse (us_WeeklyWindowStart sub) (us_WeeklyWindowStart r),
      us_MonthlyWindowStart := orElse (us_MonthlyWindowStart sub) (us_MonthlyWindowStart r),
      us_DailyUsageUSD := us_DailyUsageUSD sub, us_WeeklyUsageUSD := us_WeeklyUsageUSD sub,
      us_MonthlyUsageUSD := us_MonthlyUsageUSD sub,
      us_AssignedBy := orElse (us_AssignedBy sub) (us_AssignedBy r),
      us_AssignedAt := us_AssignedAt sub, us_Notes := us_Notes sub\<rparr>"

definition Update :: "UserSubscription \<Rightarrow> unit db_op" where
  "Update sub = updateOneID ErrSubscriptionAlreadyExists (us_ID sub) (updatedRow sub)"

definition Delete :: "time \<Rightarrow> int \<Rightarrow> unit db_op" where
  "Delete clock i = andThen (updateWhere (\<lambda>r. us_ID r = i \<and> visible r) (us_DeletedAt_update (\<lambda>_. Some clock)))
     (\<lambda>_. succeed ())"

definition Restore :: "int \<Rightarrow> string \<Rightarrow> UserSubscription db_op" where
  "Restore i restoredStatus =
     andThen (updateOneID ErrSubscriptionRestoreConflict i
                (\<lambda>r. r\<lparr>us_Status := restoredStatus, us_DeletedAt := None\<rparr>))
       (\<lambda>_. GetByID i)"

definition ExtendExpiry :: "int \<Rightarrow> time \<Rightarrow> unit db_op" where
  "ExtendExpiry i newExpiresAt = updateOneID ErrDatabase i (us_ExpiresAt_update (\<lambda>_. newExpiresAt))"

definition UpdateStatus :: "int \<Rightarrow> string \<Rightarrow> unit db_op" where
  "UpdateStatus i status = updateOneID ErrDatabase i (us_Status_update (\<lambda>_. status))"

definition UpdateNotes :: "int \<Rightarrow> string \<Rightarrow> unit db_op" where
  "UpdateNotes i notes = updateOneID ErrDatabase i (us_Notes_update (\<lambda>_. notes))"

definition translateConditionalWindowReset :: "int \<Rightarrow> nat db_op \<Rightarrow> unit db_op" where
  "translateConditionalWindowReset i update =
     andThen update (\<lambda>affected.
       if affected > 0 then succeed ()
       else andThen (sql (\<lambda>db. (Inr (\<exists>r \<in> set (sd_subs db). us_ID r = i \<and> visible r), db)))
              (\<lambda>exists. if \<not> exists then failWith ErrSubscriptionNotFound else succeed ()))"

definition ActivateWindows :: "int \<Rightarrow> time \<Rightarrow> time \<Rightarrow> unit db_op" where
  "ActivateWindows i dailyStart periodicStart =
     translateConditionalWindowReset i
       (updateWhere (\<lambda>r. us_ID r = i \<and> us_DailyWindowStart r = None \<and> us_WeeklyWindowStart r = None \<and>
                         us_MonthlyWindowStart r = None)
          (\<lambda>r. r\<lparr>us_DailyWindowStart := Some dailyStart, us_WeeklyWindowStart := Some periodicStart,
                us_MonthlyWindowStart := Some periodicStart\<rparr>))"

definition resetDailyRow :: "time \<Rightarrow> UserSubscription \<Rightarrow> UserSubscription" where
  "resetDailyRow start r = r\<lparr>us_DailyUsageUSD := 0, us_DailyWindowStart := Some start\<rparr>"
definition resetWeeklyRow :: "time \<Rightarrow> UserSubscription \<Rightarrow> UserSubscription" where
  "resetWeeklyRow start r = r\<lparr>us_WeeklyUsageUSD := 0, us_WeeklyWindowStart := Some start\<rparr>"
definition resetMonthlyRow :: "time \<Rightarrow> UserSubscription \<Rightarrow> UserSubscription" where
  "resetMonthlyRow start r = r\<lparr>us_MonthlyUsageUSD := 0, us_MonthlyWindowStart := Some start\<rparr>"

definition ResetUsageWindows :: "int \<Rightarrow> bool \<Rightarrow> bool \<Rightarrow> bool \<Rightarrow> time \<Rightarrow> time \<Rightarrow> unit db_op" where
  "ResetUsageWindows i resetDaily resetWeekly resetMonthly dailyStart periodicStart =
     updateOneID ErrDatabase i
       (\<lambda>r. (if resetMonthly then resetMonthlyRow periodicStart else id)
            ((if resetWeekly then resetWeeklyRow periodicStart else id)
             ((if resetDaily then resetDailyRow dailyStart else id) r)))"

definition ResetDailyUsage :: "int \<Rightarrow> time option \<Rightarrow> time \<Rightarrow> unit db_op" where
  "ResetDailyUsage i expectedWindowStart newWindowStart = translateConditionalWindowReset i
     (updateWhere (\<lambda>r. us_ID r = i \<and> us_DailyWindowStart r = expectedWindowStart) (resetDailyRow newWindowStart))"

definition ResetWeeklyUsage :: "int \<Rightarrow> time option \<Rightarrow> time \<Rightarrow> unit db_op" where
  "ResetWeeklyUsage i expectedWindowStart newWindowStart = translateConditionalWindowReset i
     (updateWhere (\<lambda>r. us_ID r = i \<and> us_WeeklyWindowStart r = expectedWindowStart) (resetWeeklyRow newWindowStart))"

definition ResetMonthlyUsage :: "int \<Rightarrow> time option \<Rightarrow> time \<Rightarrow> unit db_op" where
  "ResetMonthlyUsage i expectedWindowStart newWindowStart = translateConditionalWindowReset i
     (updateWhere (\<lambda>r. us_ID r = i \<and> us_MonthlyWindowStart r = expectedWindowStart) (resetMonthlyRow newWindowStart))"

definition chargeRow :: "usd \<Rightarrow> UserSubscription \<Rightarrow> UserSubscription" where
  "chargeRow c r = r\<lparr>us_DailyUsageUSD := us_DailyUsageUSD r + c, us_WeeklyUsageUSD := us_WeeklyUsageUSD r + c,
     us_MonthlyUsageUSD := us_MonthlyUsageUSD r + c\<rparr>"

definition IncrementUsage :: "int \<Rightarrow> usd \<Rightarrow> unit db_op" where
  "IncrementUsage i costUSD =
     andThen (sql (\<lambda>db.
       let p = (\<lambda>r. us_ID r = i \<and> visible r \<and> (\<exists>g \<in> set (sd_groups db). gr_ID g = us_GroupID r))
       in (Inr (length (filter p (sd_subs db))), setRows p (chargeRow costUSD) db)))
     (\<lambda>affected. if affected > 0 then succeed () else failWith ErrSubscriptionNotFound)"

definition BatchUpdateExpiredStatus :: "time \<Rightarrow> nat db_op" where
  "BatchUpdateExpiredStatus now =
     updateWhere (\<lambda>r. us_Status r = SubscriptionStatusActive \<and> us_ExpiresAt r \<le> now)
       (us_Status_update (\<lambda>_. SubscriptionStatusExpired))"

text \<open>\<open>GetByID\<close> of the group repository.\<close>

definition GetGroup :: "int \<Rightarrow> SubscriptionGroup db_op" where
  "GetGroup i = sql (\<lambda>db. (case find (\<lambda>g. gr_ID g = i) (sd_groups db) of
     None \<Rightarrow> Inl ErrGroupNotFound | Some g \<Rightarrow> Inr g, db))"

section \<open>What an operation keeps\<close>

definition keeps :: "(sub_db \<Rightarrow> bool) \<Rightarrow> 'a db_op \<Rightarrow> bool" where
  "keeps P m \<longleftrightarrow> (\<forall>db. P db \<longrightarrow> P (snd (m db)))"

lemma keepsD: "keeps P m \<Longrightarrow> P db \<Longrightarrow> P (snd (m db))"
  by (simp add: keeps_def)

lemma keeps_succeed [simp]: "keeps P (succeed x)"
  and keeps_failWith [simp]: "keeps P (failWith e)"
  by (simp_all add: keeps_def succeed_def failWith_def)

lemma keeps_andThen: "keeps P m \<Longrightarrow> (\<And>x. keeps P (k x)) \<Longrightarrow> keeps P (andThen m k)"
  by (force simp: keeps_def andThen_def split: prod.splits sum.splits)

lemma sql_cases:
  obtains (none) "snd (sql f db) = db\<lparr>sd_faults := tl (sd_faults db)\<rparr>"
    | (run) "snd (sql f db) = snd (f (db\<lparr>sd_faults := tl (sd_faults db)\<rparr>))"
proof (cases "sd_faults db")
  case Nil
  with run show ?thesis by (simp add: sql_def)
next
  case (Cons a list)
  with none run show ?thesis by (cases a) (simp_all add: sql_def Let_def)
qed

lemma keeps_sql: "(\<And>db fs. P (db\<lparr>sd_faults := fs\<rparr>) = P db) \<Longrightarrow> keeps P f \<Longrightarrow> keeps P (sql f)"
  unfolding keeps_def by (metis sql_cases)

lemma keeps_read: "(\<And>db. snd (f db) = db) \<Longrightarrow> keeps P f"
  by (simp add: keeps_def)

lemma keeps_onlyRow: "(\<And>db fs. P (db\<lparr>sd_faults := fs\<rparr>) = P db) \<Longrightarrow> keeps P (onlyRow p)"
  unfolding onlyRow_def by (rule keeps_sql) (simp_all add: keeps_def)

text \<open>The rows of an identifier, of which the primary key allows one.\<close>

definition rowOf :: "int \<Rightarrow> sub_db \<Rightarrow> UserSubscription option" where
  "rowOf i db = find (\<lambda>r. us_ID r = i) (sd_subs db)"

definition ids_ok :: "sub_db \<Rightarrow> bool" where
  "ids_ok db \<longleftrightarrow> distinct (map us_ID (sd_subs db)) \<and> (\<forall>r \<in> set (sd_subs db). us_ID r < sd_next db)"

lemma rowOf_faults [simp]: "rowOf i (db\<lparr>sd_faults := fs\<rparr>) = rowOf i db"
  and ids_ok_faults [simp]: "ids_ok (db\<lparr>sd_faults := fs\<rparr>) = ids_ok db"
  by (simp_all add: rowOf_def ids_ok_def)

lemma rowOf_Some: "rowOf i db = Some r \<Longrightarrow> r \<in> set (sd_subs db) \<and> us_ID r = i"
  by (auto simp: rowOf_def find_Some_iff)

lemma rowOf_eq: "ids_ok db \<Longrightarrow> r \<in> set (sd_subs db) \<Longrightarrow> rowOf (us_ID r) db = Some r"
  by (simp add: ids_ok_def rowOf_def find_unique)

lemma rowOf_setRows:
  assumes "\<And>r. us_ID (f r) = us_ID r"
  shows "rowOf i (setRows p f db) = map_option (\<lambda>r. if p r then f r else r) (rowOf i db)"
  using find_map_if [of us_ID f, OF assms] by (simp add: rowOf_def setRows_def)

section \<open>What an operation does to a row\<close>

text \<open>\<open>affects i R m\<close>: \<open>R\<close> relates the row of the identifier \<open>i\<close> before and after \<open>m\<close>, failing or not.\<close>

definition affects :: "int \<Rightarrow> (UserSubscription \<Rightarrow> UserSubscription \<Rightarrow> bool) \<Rightarrow> 'a db_op \<Rightarrow> bool" where
  "affects i R m \<longleftrightarrow> (\<forall>db r. rowOf i db = Some r \<longrightarrow> (\<exists>r'. rowOf i (snd (m db)) = Some r' \<and> R r r'))"

named_theorems row_effects \<open>what the operations do to a row\<close>

lemma affectsD:
  assumes "affects i R m" and "rowOf i db = Some r"
  obtains r' where "rowOf i (snd (m db)) = Some r'" and "R r r'"
  using assms by (auto simp: affects_def)

lemma affects_mono: "affects i R m \<Longrightarrow> (\<And>r r'. us_ID r = i \<Longrightarrow> R r r' \<Longrightarrow> R' r r') \<Longrightarrow> affects i R' m"
  unfolding affects_def using rowOf_Some by blast

lemma affects_pure [row_effects]: "affects i (=) (succeed x)" "affects i (=) (failWith e)"
  by (simp_all add: affects_def succeed_def failWith_def)

lemma affects_sql: "(\<And>r. R r r) \<Longrightarrow> affects i R f \<Longrightarrow> affects i R (sql f)"
  unfolding affects_def by (metis rowOf_faults sql_cases)

lemma affects_read: "(\<And>db. snd (f db) = db) \<Longrightarrow> affects i (=) (sql f)"
  by (rule affects_sql) (simp_all add: affects_def)

lemma affects_onlyRow [row_effects]: "affects i (=) (onlyRow p)"
  unfolding onlyRow_def by (rule affects_read) simp

lemma affects_andThen:
  assumes "affects i R m" and "\<And>x. affects i Q (k x)"
    and "\<And>r r'. R r r' \<Longrightarrow> T r r'" and "\<And>r r' r''. R r r' \<Longrightarrow> Q r' r'' \<Longrightarrow> T r r''"
  shows "affects i T (andThen m k)"
  unfolding affects_def
proof (intro allI impI)
  fix db r assume "rowOf i db = Some r"
  with assms(1) obtain r' where r': "rowOf i (snd (m db)) = Some r'" "R r r'" by (rule affectsD)
  obtain o' db' where m: "m db = (o', db')" by fastforce
  show "\<exists>r'. rowOf i (snd (andThen m k db)) = Some r' \<and> T r r'"
  proof (cases o')
    case (Inl e)
    with m r' assms(3) show ?thesis by (auto simp: andThen_def)
  next
    case (Inr x)
    from r'(1) m have "rowOf i db' = Some r'" by simp
    with assms(2) obtain r'' where "rowOf i (snd (k x db')) = Some r''" "Q r' r''" by (rule affectsD)
    with m Inr r' assms(4) show ?thesis by (auto simp: andThen_def)
  qed
qed

lemma affects_andThen_read: "affects i R m \<Longrightarrow> (\<And>x. affects i (=) (k x)) \<Longrightarrow> affects i R (andThen m k)"
  by (rule affects_andThen [where R = R and Q = "(=)"]) auto

lemma affects_read_andThen: "affects i (=) m \<Longrightarrow> (\<And>x. affects i R (k x)) \<Longrightarrow> (\<And>r. R r r) \<Longrightarrow> affects i R (andThen m k)"
  by (rule affects_andThen [where R = "(=)" and Q = R]) auto

lemma affects_if:
  "affects i (=) m \<Longrightarrow> affects i R m' \<Longrightarrow> (\<And>r. R r r) \<Longrightarrow> affects i R (if b then m else m')"
  "affects i R m \<Longrightarrow> affects i (=) m' \<Longrightarrow> (\<And>r. R r r) \<Longrightarrow> affects i R (if b then m else m')"
  by (auto intro: affects_mono)

lemma affects_updateWhere:
  assumes "\<And>r. us_ID (f r) = us_ID r"
  shows "affects i (\<lambda>r r'. r' = r \<or> p r \<and> r' = f r) (updateWhere p f)"
  unfolding updateWhere_def
  by (rule affects_sql) (use rowOf_setRows [OF assms] in \<open>auto simp: affects_def\<close>)

lemma affects_updateOneID:
  assumes "\<And>r. us_ID (f r) = us_ID r"
  shows "affects i (\<lambda>r r'. r' = r \<or> j = i \<and> r' = f r) (updateOneID e j f)"
  unfolding updateOneID_def
  by (rule affects_sql) (use rowOf_setRows [OF assms] rowOf_Some in \<open>auto simp: affects_def Let_def\<close>)

lemma affects_get [row_effects]:
  "affects i (=) (GetByID j)" "affects i (=) (GetByIDForUpdate j)" "affects i (=) (GetByIDIncludeDeleted j)"
  "affects i (=) (GetByUserIDAndGroupID u g)" "affects i (=) (GetActiveByUserIDAndGroupID now u g)"
  by (simp_all add: GetByID_def GetByIDForUpdate_def GetByIDIncludeDeleted_def GetByUserIDAndGroupID_def
        GetActiveByUserIDAndGroupID_def row_effects)

lemma affects_exists [row_effects]:
  "affects i (=) (ExistsByUserIDAndGroupID u g)" "affects i (=) (ExistsActiveByUserIDAndGroupID u g)"
  "affects i (=) (GetGroup j)"
  by (simp_all add: ExistsByUserIDAndGroupID_def ExistsActiveByUserIDAndGroupID_def GetGroup_def affects_read)

lemma affects_Create [row_effects]: "affects i (=) (Create clock sub)"
  unfolding Create_def
  by (rule affects_sql) (auto simp: affects_def rowOf_def Let_def find_append_Some)

lemma affects_Update [row_effects]:
  "affects i (\<lambda>r r'. r' = r \<or> us_ID sub = i \<and> r' = updatedRow sub r) (Update sub)"
  unfolding Update_def by (rule affects_updateOneID) (simp add: updatedRow_def)

lemma affects_Delete [row_effects]:
  "affects i (\<lambda>r r'. r' = r \<or> r' = us_DeletedAt_update (\<lambda>_. Some clock) r) (Delete clock j)"
  unfolding Delete_def
  by (rule affects_andThen_read [OF affects_mono [OF affects_updateWhere]]) (auto simp: row_effects)

lemma affects_Restore [row_effects]:
  "affects i (\<lambda>r r'. r' = r \<or> r' = r\<lparr>us_Status := st, us_DeletedAt := None\<rparr>) (Restore j st)"
  unfolding Restore_def
  by (rule affects_andThen_read [OF affects_mono [OF affects_updateOneID]]) (auto simp: row_effects)

lemma affects_columns [row_effects]:
  "affects i (\<lambda>r r'. r' = r \<or> j = i \<and> r' = us_ExpiresAt_update (\<lambda>_. t) r) (ExtendExpiry j t)"
  "affects i (\<lambda>r r'. r' = r \<or> j = i \<and> r' = us_Status_update (\<lambda>_. st) r) (UpdateStatus j st)"
  "affects i (\<lambda>r r'. r' = r \<or> j = i \<and> r' = us_Notes_update (\<lambda>_. n) r) (UpdateNotes j n)"
  unfolding ExtendExpiry_def UpdateStatus_def UpdateNotes_def by (rule affects_updateOneID, simp)+

lemma affects_expire [row_effects]:
  "affects i (\<lambda>r r'. r' = r \<or> r' = us_Status_update (\<lambda>_. SubscriptionStatusExpired) r) (BatchUpdateExpiredStatus now)"
  unfolding BatchUpdateExpiredStatus_def by (rule affects_mono [OF affects_updateWhere]) auto

lemma affects_translate:
  assumes "affects i R m"
  shows "affects i R (translateConditionalWindowReset j m)"
  unfolding translateConditionalWindowReset_def
  by (rule affects_andThen_read [OF assms])
     (auto intro!: affects_andThen_read affects_read simp: row_effects)

lemma affects_windows [row_effects]:
  "affects i (\<lambda>r r'. r' = r \<or> j = i \<and> \<not> IsWindowActivated r \<and>
     r' = r\<lparr>us_DailyWindowStart := Some d, us_WeeklyWindowStart := Some t, us_MonthlyWindowStart := Some t\<rparr>)
     (ActivateWindows j d t)"
  "affects i (\<lambda>r r'. r' = r \<or> j = i \<and> us_DailyWindowStart r = e \<and> r' = resetDailyRow t r) (ResetDailyUsage j e t)"
  "affects i (\<lambda>r r'. r' = r \<or> j = i \<and> us_WeeklyWindowStart r = e \<and> r' = resetWeeklyRow t r) (ResetWeeklyUsage j e t)"
  "affects i (\<lambda>r r'. r' = r \<or> j = i \<and> us_MonthlyWindowStart r = e \<and> r' = resetMonthlyRow t r) (ResetMonthlyUsage j e t)"
  unfolding ActivateWindows_def ResetDailyUsage_def ResetWeeklyUsage_def ResetMonthlyUsage_def
  by (rule affects_translate [OF affects_mono [OF affects_updateWhere]];
      auto simp: IsWindowActivated_def resetDailyRow_def resetWeeklyRow_def resetMonthlyRow_def)+

definition manualReset :: "bool \<Rightarrow> bool \<Rightarrow> bool \<Rightarrow> time \<Rightarrow> time \<Rightarrow> UserSubscription \<Rightarrow> UserSubscription" where
  "manualReset resetDaily resetWeekly resetMonthly d t r =
     (if resetMonthly then resetMonthlyRow t else id) ((if resetWeekly then resetWeeklyRow t else id)
       ((if resetDaily then resetDailyRow d else id) r))"

lemma affects_manual [row_effects]:
  "affects i (\<lambda>r r'. r' = r \<or> j = i \<and> r' = manualReset x y z d t r) (ResetUsageWindows j x y z d t)"
  unfolding ResetUsageWindows_def manualReset_def
  by (rule affects_updateOneID) (simp add: resetDailyRow_def resetWeeklyRow_def resetMonthlyRow_def)

lemma affects_charge [row_effects]:
  "affects i (\<lambda>r r'. r' = r \<or> j = i \<and> r' = chargeRow c r) (IncrementUsage j c)"
proof -
  have "affects i (\<lambda>r r'. r' = r \<or> j = i \<and> r' = chargeRow c r)
      (sql (\<lambda>db. let p = (\<lambda>r. us_ID r = j \<and> visible r \<and> (\<exists>g \<in> set (sd_groups db). gr_ID g = us_GroupID r))
                 in (Inr (length (filter p (sd_subs db))), setRows p (chargeRow c) db)))"
    by (rule affects_sql)
       (auto simp: affects_def Let_def rowOf_setRows chargeRow_def dest: rowOf_Some)
  then show ?thesis
    unfolding IncrementUsage_def by (rule affects_andThen_read) (simp add: row_effects)
qed

end
