(* ===== verification/Subscription_Service.thy ===== *)
theory Subscription_Service
  imports Subscription_Store
begin

text \<open>
  \<open>service/subscription_service.go\<close>: assigning, renewing, extending, revoking and restoring
  subscriptions, the maintenance of the usage windows and the checks a request passes, and the check
  of \<open>server/middleware/api_key_auth.go\<close> that is made of them.

  An operation takes the time of each of its calls to \<open>time.Now\<close> and runs on the table.  The caches
  are left out: they hold copies of earlier rows, which the theory of the interleaved system has.
\<close>

section \<open>Limits of a term\<close>

text \<open>2099-12-31 23:59:59 UTC, which is 766643 days after Go's zero time.\<close>

definition MaxExpiresAt :: time where "MaxExpiresAt = (766643 * 86400 + 86399) * Second"
definition MaxValidityDays :: int where "MaxValidityDays = 36500"

definition normalizeAssignValidityDays :: "int \<Rightarrow> int" where
  "normalizeAssignValidityDays days =
     (let days = (if days \<le> 0 then 30 else days)
      in if days > MaxValidityDays then MaxValidityDays else days)"

definition capExpiry :: "time \<Rightarrow> time" where
  "capExpiry t = (if t > MaxExpiresAt then MaxExpiresAt else t)"

record AssignSubscriptionInput =
  as_UserID :: int
  as_GroupID :: int
  as_ValidityDays :: int
  as_AssignedBy :: int
  as_Notes :: string

definition appendSubscriptionNotes :: "string \<Rightarrow> string \<Rightarrow> string" where
  "appendSubscriptionNotes existingNotes newNotes =
     (if newNotes = [] then existingNotes
      else if existingNotes = [] then newNotes
      else existingNotes @ [CHR 0x0A] @ newNotes)"

section \<open>Assigning and renewing\<close>

text \<open>
  Transactions: an error rolls back to the state after the beginning.  When the context carries a
  transaction of the caller, or the service has no client to begin one with (\<open>joined\<close>), the
  function runs as it is, and what it did before an error is left to the caller.
\<close>

definition withSubscriptionUpdateTx :: "bool \<Rightarrow> 'a db_op \<Rightarrow> 'a db_op" where
  "withSubscriptionUpdateTx joined fn = (if joined then fn else (\<lambda>db. case sql (succeed ()) db of
     (Inl e, db) \<Rightarrow> (Inl e, db)
   | (Inr _, begun) \<Rightarrow> (case fn begun of
       (Inl e, db) \<Rightarrow> (Inl e, begun\<lparr>sd_faults := sd_faults db\<rparr>)
     | (Inr x, db) \<Rightarrow> (case sd_faults db of
         NotApplied # fs \<Rightarrow> (Inl ErrDatabase, begun\<lparr>sd_faults := fs\<rparr>)
       | Applied # fs \<Rightarrow> (Inl ErrDatabase, db\<lparr>sd_faults := fs\<rparr>)
       | fs \<Rightarrow> (Inr x, db\<lparr>sd_faults := tl fs\<rparr>)))))"

definition renewedSubscriptionTerm ::
  "Zones \<Rightarrow> UserSubscription \<Rightarrow> string \<Rightarrow> time \<Rightarrow> time \<Rightarrow> UserSubscription" where
  "renewedSubscriptionTerm zn existingSub notes startsAt expiresAt = existingSub
     \<lparr>us_StartsAt := startsAt, us_ExpiresAt := expiresAt, us_Status := SubscriptionStatusActive,
      us_DailyWindowStart := Some (StartOfDay (zn_config zn) startsAt),
      us_WeeklyWindowStart := Some startsAt, us_MonthlyWindowStart := Some startsAt,
      us_DailyUsageUSD := 0, us_WeeklyUsageUSD := 0, us_MonthlyUsageUSD := 0,
      us_Notes := appendSubscriptionNotes (us_Notes existingSub) notes\<rparr>"

definition termExpired :: "bool \<Rightarrow> time \<Rightarrow> UserSubscription \<Rightarrow> bool" where
  "termExpired assignmentSemantics now sub =
     (if assignmentSemantics
      then us_Status sub = SubscriptionStatusExpired \<or>
           us_Status sub \<noteq> SubscriptionStatusSuspended \<and> \<not> us_ExpiresAt sub > now
      else \<not> us_ExpiresAt sub > now)"

definition extendTerm :: "UserSubscription \<Rightarrow> time \<Rightarrow> string \<Rightarrow> unit db_op" where
  "extendTerm existingSub newExpiresAt notes =
     andThen (ExtendExpiry (us_ID existingSub) newExpiresAt) (\<lambda>_.
     andThen (if us_Status existingSub \<noteq> SubscriptionStatusActive
              then UpdateStatus (us_ID existingSub) SubscriptionStatusActive else succeed ()) (\<lambda>_.
     if notes \<noteq> []
     then UpdateNotes (us_ID existingSub) (appendSubscriptionNotes (us_Notes existingSub) notes)
     else succeed ()))"

definition updateExistingSubscriptionTerm ::
  "bool \<Rightarrow> Zones \<Rightarrow> time \<Rightarrow> int \<Rightarrow> int \<Rightarrow> string \<Rightarrow> bool \<Rightarrow> unit db_op" where
  "updateExistingSubscriptionTerm joined zn now i validityDays notes assignmentSemantics =
     withSubscriptionUpdateTx joined (andThen (GetByIDForUpdate i) (\<lambda>existingSub.
       if assignmentSemantics \<and> us_Status existingSub = SubscriptionStatusSuspended then succeed ()
       else
         let isExpired = termExpired assignmentSemantics now existingSub;
             newExpiresAt = capExpiry (if isExpired then AddDate (zn_config zn) now validityDays
                                       else AddDate (zn_db zn) (us_ExpiresAt existingSub) validityDays);
             notes = (if assignmentSemantics \<and> TrimSpace (us_Notes existingSub) = TrimSpace notes
                      then [] else notes)
         in if isExpired then Update (renewedSubscriptionTerm zn existingSub notes now newExpiresAt)
            else extendTerm existingSub newExpiresAt notes))"

definition newSubscription :: "Zones \<Rightarrow> time \<Rightarrow> AssignSubscriptionInput \<Rightarrow> UserSubscription" where
  "newSubscription zn now input =
     \<lparr>us_ID = 0, us_UserID = as_UserID input, us_GroupID = as_GroupID input, us_StartsAt = now,
      us_ExpiresAt = capExpiry (AddDate (zn_config zn) now (normalizeAssignValidityDays (as_ValidityDays input))),
      us_Status = SubscriptionStatusActive, us_DailyWindowStart = None, us_WeeklyWindowStart = None,
      us_MonthlyWindowStart = None, us_DailyUsageUSD = 0, us_WeeklyUsageUSD = 0, us_MonthlyUsageUSD = 0,
      us_AssignedBy = (if as_AssignedBy input > 0 then Some (as_AssignedBy input) else None),
      us_AssignedAt = now, us_Notes = as_Notes input, us_DeletedAt = None\<rparr>"

definition createSubscription :: "Zones \<Rightarrow> time \<Rightarrow> AssignSubscriptionInput \<Rightarrow> UserSubscription db_op" where
  "createSubscription zn now input =
     andThen (Create now (newSubscription zn now input)) (\<lambda>sub. GetByID (us_ID sub))"

text \<open>The group must exist and be of the subscription type.\<close>

definition requireSubscriptionGroup :: "int \<Rightarrow> unit db_op" where
  "requireSubscriptionGroup i =
     andThen (GetGroup i) (\<lambda>group.
       if \<not> IsSubscriptionType group then failWith ErrGroupNotSubscriptionType else succeed ())"

definition assignOrExtendSubscription ::
  "bool \<Rightarrow> Zones \<Rightarrow> time \<Rightarrow> AssignSubscriptionInput \<Rightarrow> (UserSubscription \<times> bool) db_op" where
  "assignOrExtendSubscription joined zn now input =
     andThen (requireSubscriptionGroup (as_GroupID input)) (\<lambda>_ db.
       case GetByUserIDAndGroupID (as_UserID input) (as_GroupID input) db of
         (Inr existingSub, db) \<Rightarrow>
           andThen (updateExistingSubscriptionTerm joined zn now (us_ID existingSub)
                      (normalizeAssignValidityDays (as_ValidityDays input)) (as_Notes input) False)
             (\<lambda>_. andThen (GetByID (us_ID existingSub)) (\<lambda>sub. succeed (sub, True))) db
       | (Inl _, db) \<Rightarrow> andThen (createSubscription zn now input) (\<lambda>sub. succeed (sub, False)) db)"

definition detectAssignSemanticConflict ::
  "Zones \<Rightarrow> UserSubscription \<Rightarrow> AssignSubscriptionInput \<Rightarrow> string option" where
  "detectAssignSemanticConflict zn existing input =
     (let normalizedDays = normalizeAssignValidityDays (as_ValidityDays input);
          expectedExpiresAt = capExpiry (AddDate (zn_db zn) (us_StartsAt existing) normalizedDays)
      in if \<not> IsZero (us_StartsAt existing) \<and> us_ExpiresAt existing \<noteq> expectedExpiresAt
         then Some ''validity_days_mismatch''
         else if TrimSpace (us_Notes existing) \<noteq> TrimSpace (as_Notes input) then Some ''notes_mismatch''
         else None)"

definition assignSubscriptionWithReuse ::
  "bool \<Rightarrow> Zones \<Rightarrow> time \<Rightarrow> time \<Rightarrow> AssignSubscriptionInput \<Rightarrow> (UserSubscription \<times> bool) db_op" where
  "assignSubscriptionWithReuse joined zn now now' input =
     andThen (requireSubscriptionGroup (as_GroupID input)) (\<lambda>_.
     andThen (ExistsByUserIDAndGroupID (as_UserID input) (as_GroupID input)) (\<lambda>exists.
       if exists then
         andThen (GetByUserIDAndGroupID (as_UserID input) (as_GroupID input)) (\<lambda>sub.
           if termExpired True now sub then
             andThen (updateExistingSubscriptionTerm joined zn now' (us_ID sub)
                        (normalizeAssignValidityDays (as_ValidityDays input)) (as_Notes input) True) (\<lambda>_.
             andThen (GetByID (us_ID sub)) (\<lambda>renewed. succeed (renewed, True)))
           else
             case detectAssignSemanticConflict zn sub input of
               Some conflictReason \<Rightarrow> failWith (ErrSubscriptionAssignConflict conflictReason)
             | None \<Rightarrow> succeed (sub, True))
       else andThen (createSubscription zn now input) (\<lambda>sub. succeed (sub, False))))"

definition AssignSubscription ::
  "bool \<Rightarrow> Zones \<Rightarrow> time \<Rightarrow> time \<Rightarrow> AssignSubscriptionInput \<Rightarrow> UserSubscription db_op" where
  "AssignSubscription joined zn now now' input =
     andThen (assignSubscriptionWithReuse joined zn now now' input) (\<lambda>(sub, _). succeed sub)"

record BulkAssignResult =
  ba_SuccessCount :: nat
  ba_CreatedCount :: nat
  ba_ReusedCount :: nat
  ba_FailedCount :: nat
  ba_Subscriptions :: "UserSubscription list"
  ba_Errors :: "(int \<times> sub_error) list"
  ba_Statuses :: "int \<Rightarrow> string option"

definition bulkAssignOne ::
  "int \<Rightarrow> sub_error + (UserSubscription \<times> bool) \<Rightarrow> BulkAssignResult \<Rightarrow> BulkAssignResult" where
  "bulkAssignOne userID outcome res =
     (case outcome of
        Inl e \<Rightarrow> res\<lparr>ba_FailedCount := ba_FailedCount res + 1, ba_Errors := ba_Errors res @ [(userID, e)],
                     ba_Statuses := (ba_Statuses res)(userID := Some ''failed'')\<rparr>
      | Inr (sub, reused) \<Rightarrow>
          let res = res\<lparr>ba_SuccessCount := ba_SuccessCount res + 1,
                        ba_Subscriptions := ba_Subscriptions res @ [sub]\<rparr>
          in if reused
             then res\<lparr>ba_ReusedCount := ba_ReusedCount res + 1,
                      ba_Statuses := (ba_Statuses res)(userID := Some ''reused'')\<rparr>
             else res\<lparr>ba_CreatedCount := ba_CreatedCount res + 1,
                      ba_Statuses := (ba_Statuses res)(userID := Some ''created'')\<rparr>)"

fun bulkAssignFrom ::
  "bool \<Rightarrow> Zones \<Rightarrow> AssignSubscriptionInput \<Rightarrow> (int \<times> time \<times> time) list \<Rightarrow> BulkAssignResult \<Rightarrow> sub_db \<Rightarrow>
     BulkAssignResult \<times> sub_db" where
  "bulkAssignFrom joined zn input [] res db = (res, db)"
| "bulkAssignFrom joined zn input ((userID, now, now') # users) res db =
     (let (outcome, db) = assignSubscriptionWithReuse joined zn now now' (input\<lparr>as_UserID := userID\<rparr>) db
      in bulkAssignFrom joined zn input users (bulkAssignOne userID outcome res) db)"

text \<open>Each user comes with the two times at which the clock is read for it.\<close>

definition BulkAssignSubscription ::
  "bool \<Rightarrow> Zones \<Rightarrow> AssignSubscriptionInput \<Rightarrow> (int \<times> time \<times> time) list \<Rightarrow> sub_db \<Rightarrow> BulkAssignResult \<times> sub_db" where
  "BulkAssignSubscription joined zn input users =
     bulkAssignFrom joined zn input users
       \<lparr>ba_SuccessCount = 0, ba_CreatedCount = 0, ba_ReusedCount = 0, ba_FailedCount = 0,
        ba_Subscriptions = [], ba_Errors = [], ba_Statuses = (\<lambda>_. None)\<rparr>"

section \<open>Administration\<close>

definition RevokeSubscription :: "time \<Rightarrow> int \<Rightarrow> unit db_op" where
  "RevokeSubscription now i = andThen (GetByID i) (\<lambda>_. Delete now i)"

definition RestoreSubscription :: "time \<Rightarrow> int \<Rightarrow> UserSubscription db_op" where
  "RestoreSubscription now i =
     andThen (GetByIDIncludeDeleted i) (\<lambda>sub.
       if us_DeletedAt sub = None then failWith ErrSubscriptionNotRevoked
       else
         andThen (ExistsActiveByUserIDAndGroupID (us_UserID sub) (us_GroupID sub)) (\<lambda>exists.
           if exists then failWith ErrSubscriptionRestoreConflict
           else Restore i (if us_Status sub = SubscriptionStatusActive \<and> \<not> us_ExpiresAt sub > now
                           then SubscriptionStatusExpired else us_Status sub)))"

definition clampDays :: "int \<Rightarrow> int" where
  "clampDays days = (let days = (if days > MaxValidityDays then MaxValidityDays else days)
                     in if days < - MaxValidityDays then - MaxValidityDays else days)"

definition ExtendSubscription :: "Zones \<Rightarrow> time \<Rightarrow> int \<Rightarrow> int \<Rightarrow> UserSubscription db_op" where
  "ExtendSubscription zn now i days = (\<lambda>db.
     case GetByID i db of
       (Inl _, db) \<Rightarrow> (Inl ErrSubscriptionNotFound, db)
     | (Inr sub, db) \<Rightarrow>
         (let days = clampDays days; isExpired = (\<not> us_ExpiresAt sub > now);
              newExpiresAt = capExpiry (if isExpired then AddDate (zn_config zn) now days
                                        else AddDate (zn_db zn) (us_ExpiresAt sub) days)
          in if isExpired \<and> days < 0 then failWith ErrCannotShortenExpired
             else if \<not> newExpiresAt > now then failWith ErrAdjustWouldExpire
             else andThen (ExtendExpiry i newExpiresAt) (\<lambda>_.
                  andThen (if us_Status sub = SubscriptionStatusExpired
                           then UpdateStatus i SubscriptionStatusActive else succeed ())
                    (\<lambda>_. GetByID i))) db)"

definition AdminResetQuota :: "Zones \<Rightarrow> time \<Rightarrow> int \<Rightarrow> bool \<Rightarrow> bool \<Rightarrow> bool \<Rightarrow> UserSubscription db_op" where
  "AdminResetQuota zn now i resetDaily resetWeekly resetMonthly =
     (if \<not> resetDaily \<and> \<not> resetWeekly \<and> \<not> resetMonthly then failWith ErrInvalidInput
      else andThen (GetByID i) (\<lambda>sub.
           andThen (ResetUsageWindows (us_ID sub) resetDaily resetWeekly resetMonthly
                      (StartOfDay (zn_config zn) now) now)
             (\<lambda>_. GetByID i)))"

section \<open>Window maintenance\<close>

definition CheckAndActivateWindow :: "Zones \<Rightarrow> time \<Rightarrow> UserSubscription \<Rightarrow> unit db_op" where
  "CheckAndActivateWindow zn now sub =
     (if IsWindowActivated sub then succeed ()
      else ActivateWindows (us_ID sub) (StartOfDay (zn_config zn) now) now)"

text \<open>The three blocks of \<open>CheckAndResetWindows\<close>.  Each also updates the caller's copy.\<close>

definition resetDailyIfDue :: "Zones \<Rightarrow> time \<Rightarrow> UserSubscription \<Rightarrow> UserSubscription db_op" where
  "resetDailyIfDue zn now sub =
     (case automaticDailyWindowStartAt zn now sub of
        None \<Rightarrow> succeed sub
      | Some windowStart \<Rightarrow>
          andThen (ResetDailyUsage (us_ID sub) (us_DailyWindowStart sub) windowStart)
            (\<lambda>_. succeed (resetDailyRow windowStart sub)))"

definition resetWeeklyIfDue :: "Zones \<Rightarrow> time \<Rightarrow> UserSubscription \<Rightarrow> UserSubscription db_op" where
  "resetWeeklyIfDue zn now sub =
     (case automaticWindowStartAt zn sub (us_WeeklyWindowStart sub) Week now of
        None \<Rightarrow> succeed sub
      | Some windowStart \<Rightarrow>
          andThen (ResetWeeklyUsage (us_ID sub) (us_WeeklyWindowStart sub) windowStart)
            (\<lambda>_. succeed (resetWeeklyRow windowStart sub)))"

definition resetMonthlyIfDue :: "Zones \<Rightarrow> time \<Rightarrow> UserSubscription \<Rightarrow> UserSubscription db_op" where
  "resetMonthlyIfDue zn now sub =
     (case automaticWindowStartAt zn sub (us_MonthlyWindowStart sub) Month now of
        None \<Rightarrow> succeed sub
      | Some windowStart \<Rightarrow>
          andThen (ResetMonthlyUsage (us_ID sub) (us_MonthlyWindowStart sub) windowStart)
            (\<lambda>_. succeed (resetMonthlyRow windowStart sub)))"

definition CheckAndResetWindows :: "Zones \<Rightarrow> time \<Rightarrow> UserSubscription \<Rightarrow> UserSubscription db_op" where
  "CheckAndResetWindows zn now sub =
     andThen (resetDailyIfDue zn now sub) (\<lambda>sub.
     andThen (resetWeeklyIfDue zn now sub) (resetMonthlyIfDue zn now))"

definition EnsureWindowMaintenance :: "Zones \<Rightarrow> time \<Rightarrow> time \<Rightarrow> UserSubscription \<Rightarrow> UserSubscription db_op" where
  "EnsureWindowMaintenance zn now now' sub =
     andThen (if \<not> IsWindowActivated sub then CheckAndActivateWindow zn now sub else succeed ()) (\<lambda>_.
     andThen (CheckAndResetWindows zn now' sub) (\<lambda>sub.
     GetByID (us_ID sub)))"

text \<open>\<open>doWindowMaintenance\<close> logs the errors and goes on.\<close>

definition doWindowMaintenance :: "Zones \<Rightarrow> time \<Rightarrow> time \<Rightarrow> UserSubscription \<Rightarrow> sub_db \<Rightarrow> sub_db" where
  "doWindowMaintenance zn now now' sub db =
     (let db = (if \<not> IsWindowActivated sub then snd (CheckAndActivateWindow zn now sub db) else db)
      in snd (CheckAndResetWindows zn now' sub db))"

definition RecordUsage :: "int \<Rightarrow> usd \<Rightarrow> unit db_op" where
  "RecordUsage i costUSD = IncrementUsage i costUSD"

section \<open>Checks\<close>

definition CheckUsageLimits :: "SubscriptionGroup \<Rightarrow> usd \<Rightarrow> UserSubscription \<Rightarrow> sub_error option" where
  "CheckUsageLimits g additionalCost sub =
     (if \<not> CheckDailyLimit g additionalCost sub then Some ErrDailyLimitExceeded
      else if \<not> CheckWeeklyLimit g additionalCost sub then Some ErrWeeklyLimitExceeded
      else if \<not> CheckMonthlyLimit g additionalCost sub then Some ErrMonthlyLimitExceeded
      else None)"

text \<open>The usage of the windows that are due counts as zero; this also changes the caller's copy.\<close>

definition zeroDueUsage :: "Zones \<Rightarrow> time \<Rightarrow> UserSubscription \<Rightarrow> UserSubscription" where
  "zeroDueUsage zn now sub = sub
     \<lparr>us_DailyUsageUSD := (if canAutomaticallyResetDailyAt zn now sub then 0 else us_DailyUsageUSD sub),
      us_WeeklyUsageUSD := (if canAutomaticallyResetWeeklyAt zn now sub then 0 else us_WeeklyUsageUSD sub),
      us_MonthlyUsageUSD := (if canAutomaticallyResetMonthlyAt zn now sub then 0 else us_MonthlyUsageUSD sub)\<rparr>"

definition maintenanceDue :: "Zones \<Rightarrow> time \<Rightarrow> UserSubscription \<Rightarrow> bool" where
  "maintenanceDue zn now sub \<longleftrightarrow>
     canAutomaticallyResetDailyAt zn now sub \<or> canAutomaticallyResetWeeklyAt zn now sub \<or>
     canAutomaticallyResetMonthlyAt zn now sub \<or> \<not> IsWindowActivated sub"

definition ValidateAndCheckLimits ::
  "Zones \<Rightarrow> time \<Rightarrow> SubscriptionGroup \<Rightarrow> UserSubscription \<Rightarrow> (bool \<times> sub_error option) \<times> UserSubscription" where
  "ValidateAndCheckLimits zn now g sub =
     (if us_Status sub = SubscriptionStatusExpired then ((False, Some ErrSubscriptionExpired), sub)
      else if us_Status sub = SubscriptionStatusSuspended then ((False, Some ErrSubscriptionSuspended), sub)
      else if \<not> us_ExpiresAt sub > now then ((False, Some ErrSubscriptionExpired), sub)
      else
        let needsMaintenance = maintenanceDue zn now sub; sub = zeroDueUsage zn now sub
        in ((needsMaintenance, CheckUsageLimits g 0 sub), sub))"

definition ValidateSubscription :: "time \<Rightarrow> UserSubscription \<Rightarrow> unit db_op" where
  "ValidateSubscription now sub =
     (if us_Status sub = SubscriptionStatusExpired then failWith ErrSubscriptionExpired
      else if us_Status sub = SubscriptionStatusSuspended then failWith ErrSubscriptionSuspended
      else if IsExpired now sub
      then (\<lambda>db. (Inl ErrSubscriptionExpired, snd (UpdateStatus (us_ID sub) SubscriptionStatusExpired db)))
      else succeed ())"

text \<open>
  The check of a request in the middleware: the request goes on, or the answer is 500 because the
  maintenance failed, or 403 or 429 for the reason of the refusal.
\<close>

datatype admission = Admitted | MaintenanceFailed | Refused sub_error

definition admitRequest ::
  "Zones \<Rightarrow> time \<Rightarrow> time \<Rightarrow> time \<Rightarrow> time \<Rightarrow> SubscriptionGroup \<Rightarrow> UserSubscription \<Rightarrow> sub_db \<Rightarrow> admission \<times> sub_db" where
  "admitRequest zn now1 now2 now3 now4 g sub db =
     (let ((needsMaintenance, validateErr), sub) = ValidateAndCheckLimits zn now1 g sub;
          decide = (\<lambda>validateErr. case validateErr of None \<Rightarrow> Admitted | Some e \<Rightarrow> Refused e)
      in if needsMaintenance
         then case EnsureWindowMaintenance zn now2 now3 sub db of
                (Inl _, db) \<Rightarrow> (MaintenanceFailed, db)
              | (Inr refreshed, db) \<Rightarrow> (decide (snd (fst (ValidateAndCheckLimits zn now4 g refreshed))), db)
         else (decide validateErr, db))"

section \<open>What the lists show\<close>

definition normalizeExpiredWindowAt :: "Zones \<Rightarrow> time \<Rightarrow> UserSubscription \<Rightarrow> UserSubscription" where
  "normalizeExpiredWindowAt zn now sub =
     (let sub = (if canAutomaticallyResetDailyAt zn now sub
                 then sub\<lparr>us_DailyWindowStart := None, us_DailyUsageUSD := 0\<rparr> else sub);
          sub = (if canAutomaticallyResetWeeklyAt zn now sub
                 then sub\<lparr>us_WeeklyWindowStart := None, us_WeeklyUsageUSD := 0\<rparr> else sub)
      in if canAutomaticallyResetMonthlyAt zn now sub
         then sub\<lparr>us_MonthlyWindowStart := None, us_MonthlyUsageUSD := 0\<rparr> else sub)"

definition normalizeExpiredWindowsAt :: "Zones \<Rightarrow> time \<Rightarrow> UserSubscription list \<Rightarrow> UserSubscription list" where
  "normalizeExpiredWindowsAt zn now subs = map (normalizeExpiredWindowAt zn now) subs"

definition normalizeSubscriptionStatus :: "time \<Rightarrow> UserSubscription list \<Rightarrow> UserSubscription list" where
  "normalizeSubscriptionStatus now subs = map (\<lambda>sub.
     if us_Status sub = SubscriptionStatusActive \<and> \<not> us_ExpiresAt sub > now
     then sub\<lparr>us_Status := SubscriptionStatusExpired\<rparr> else sub) subs"

record UsageWindowProgress =
  up_LimitUSD :: usd
  up_UsedUSD :: usd
  up_RemainingUSD :: usd
  up_Percentage :: rat
  up_WindowStart :: time
  up_ResetsAt :: time
  up_ResetsInSeconds :: int

record SubscriptionProgress =
  sp_ID :: int
  sp_GroupName :: string
  sp_ExpiresAt :: time
  sp_ExpiresInDays :: int
  sp_Daily :: "UsageWindowProgress option"
  sp_Weekly :: "UsageWindowProgress option"
  sp_Monthly :: "UsageWindowProgress option"

text \<open>One window of \<open>calculateProgress\<close>; \<open>int64(d.Seconds())\<close> truncates.\<close>

definition windowProgress :: "time \<Rightarrow> usd \<Rightarrow> usd \<Rightarrow> time \<Rightarrow> time \<Rightarrow> UsageWindowProgress" where
  "windowProgress now limit used start resetsAt =
     (let percentage = used / limit * 100; remaining = limit - used; seconds = go_div (Sub resetsAt now) Second
      in \<lparr>up_LimitUSD = limit, up_UsedUSD = used, up_RemainingUSD = (if remaining < 0 then 0 else remaining),
          up_Percentage = (if percentage > 100 then 100 else percentage), up_WindowStart = start,
          up_ResetsAt = resetsAt, up_ResetsInSeconds = (if seconds < 0 then 0 else seconds)\<rparr>)"

text \<open>The reset time is the window's own, or a period after its start when that is nil.\<close>

definition progressOf ::
  "time \<Rightarrow> bool \<Rightarrow> usd option \<Rightarrow> usd \<Rightarrow> time option \<Rightarrow> duration \<Rightarrow> time option \<Rightarrow> UsageWindowProgress option" where
  "progressOf now hasLimit limit used start period resetTime =
     (case start of
        None \<Rightarrow> None
      | Some start \<Rightarrow>
          if \<not> hasLimit then None
          else Some (windowProgress now (the limit) used start
                 (case resetTime of None \<Rightarrow> start + period | Some t \<Rightarrow> t)))"

definition calculateProgress :: "Zones \<Rightarrow> time \<Rightarrow> SubscriptionGroup \<Rightarrow> UserSubscription \<Rightarrow> SubscriptionProgress" where
  "calculateProgress zn now g sub =
     \<lparr>sp_ID = us_ID sub, sp_GroupName = gr_Name g, sp_ExpiresAt = us_ExpiresAt sub, sp_ExpiresInDays = daysRemainingAt now sub,
      sp_Daily = progressOf now (HasDailyLimit g) (gr_DailyLimitUSD g) (us_DailyUsageUSD sub)
        (us_DailyWindowStart sub) (24 * Hour) (DailyResetTime zn sub),
      sp_Weekly = progressOf now (HasWeeklyLimit g) (gr_WeeklyLimitUSD g) (us_WeeklyUsageUSD sub)
        (us_WeeklyWindowStart sub) Week (WeeklyResetTime zn sub),
      sp_Monthly = progressOf now (HasMonthlyLimit g) (gr_MonthlyLimitUSD g) (us_MonthlyUsageUSD sub)
        (us_MonthlyWindowStart sub) Month (MonthlyResetTime zn sub)\<rparr>"

end
