(* ===== verification/Subscription_Windows.thy ===== *)
theory Subscription_Windows
  imports Subscription_Service
begin

text \<open>
  The subscription table under concurrent requests.  Any number of processes hold copies of rows,
  which may be stale (the caches are such processes), and run the statements of
  \<open>service/subscription_service.go\<close> in any order, one statement at a time; a process may stop
  anywhere and any statement may fail.  The operations of the administration appear as the
  statements they run.

  The locale \<open>quota_window\<close> is the contract of one usage window under such steps: a step adds what
  it records to the usage, or opens the next window with no usage.  From it follows the ledger of
  the windows: none is opened twice, and every recorded amount is in exactly one of them.  The
  daily, the weekly and the monthly window are its interpretations.
\<close>

section \<open>Ledgers\<close>

text \<open>The windows held in turn, with the usage each one ended with.\<close>

fun ledger :: "('l \<Rightarrow> 's \<Rightarrow> 's) \<Rightarrow> ('s \<Rightarrow> time \<times> usd) \<Rightarrow> 'l list \<Rightarrow> 's \<Rightarrow> (time \<times> usd) list" where
  "ledger step view [] s = [view s]"
| "ledger step view (l # ls) s =
     (if fst (view (step l s)) = fst (view s) then ledger step view ls (step l s)
      else view s # ledger step view ls (step l s))"

fun total :: "('l \<Rightarrow> 's \<Rightarrow> 's) \<Rightarrow> ('l \<Rightarrow> 's \<Rightarrow> usd) \<Rightarrow> 'l list \<Rightarrow> 's \<Rightarrow> usd" where
  "total step cost [] s = 0"
| "total step cost (l # ls) s = cost l s + total step cost ls (step l s)"

fun run_ok :: "('l \<Rightarrow> 's \<Rightarrow> 's) \<Rightarrow> ('l \<Rightarrow> 's \<Rightarrow> bool) \<Rightarrow> 'l list \<Rightarrow> 's \<Rightarrow> bool" where
  "run_ok step ok [] s = True"
| "run_ok step ok (l # ls) s = (ok l s \<and> run_ok step ok ls (step l s))"

lemma successively_const: "successively (\<lambda>a b. P b) (x # xs) \<Longrightarrow> \<forall>y \<in> set xs. P y"
proof (induction xs arbitrary: x)
  case (Cons y ys)
  from Cons.prems have "P y" "successively (\<lambda>a b. P b) (y # ys)" by (simp_all only: successively.simps)
  with Cons.IH [of y] show ?case by simp
qed simp

lemma successively_tl: "successively (\<lambda>a b. P b) xs \<Longrightarrow> \<forall>x \<in> set (tl xs). P x"
  by (cases xs) (auto dest: successively_const)

locale quota_window =
  fixes step :: "'l \<Rightarrow> 's \<Rightarrow> 's"
    and view :: "'s \<Rightarrow> time \<times> usd"
    and cost :: "'l \<Rightarrow> 's \<Rightarrow> usd"
    and inv :: "'s \<Rightarrow> bool"
    and ok :: "'l \<Rightarrow> 's \<Rightarrow> bool"
    and next_window :: "time \<Rightarrow> time \<Rightarrow> bool"
  assumes inv_step: "inv s \<Longrightarrow> ok l s \<Longrightarrow> inv (step l s)"
    and effect: "inv s \<Longrightarrow> ok l s \<Longrightarrow>
      view (step l s) = (fst (view s), snd (view s) + cost l s) \<or>
      next_window (fst (view s)) (fst (view (step l s))) \<and> snd (view (step l s)) = 0 \<and> cost l s = 0"
    and later: "next_window a b \<Longrightarrow> a < b"
begin

lemma ledger_hd: "inv s \<Longrightarrow> run_ok step ok ls s \<Longrightarrow> ledger step view ls s \<noteq> [] \<and> fst (hd (ledger step view ls s)) = fst (view s)"
proof (induction ls arbitrary: s)
  case (Cons l ls)
  then show ?case using inv_step [of s l] by simp
qed simp

lemma ledger_chain:
  "inv s \<Longrightarrow> run_ok step ok ls s \<Longrightarrow> successively next_window (map fst (ledger step view ls s))"
proof (induction ls arbitrary: s)
  case (Cons l ls)
  from Cons.prems have s': "inv (step l s)" "run_ok step ok ls (step l s)"
    using inv_step [of s l] by simp_all
  note IH = Cons.IH [OF this] and first = ledger_hd [OF this]
  show ?case
  proof (cases "fst (view (step l s)) = fst (view s)")
    case False
    with effect [of s l] Cons.prems have "next_window (fst (view s)) (fst (view (step l s)))"
      by (auto simp: prod_eq_iff)
    with IH first False show ?thesis
      by (cases "ledger step view ls (step l s)") (simp_all add: successively_Cons)
  qed (use IH in simp)
qed simp

lemma ledger_sorted:
  assumes "inv s" and "run_ok step ok ls s"
  shows "sorted_wrt (<) (map fst (ledger step view ls s))"
proof -
  have "successively (<) (map fst (ledger step view ls s))"
    by (rule successively_mono [OF ledger_chain [OF assms]]) (rule later)
  then show ?thesis
    by (simp add: successively_conv_sorted_wrt)
qed

lemma ledger_total:
  "inv s \<Longrightarrow> run_ok step ok ls s \<Longrightarrow>
     sum_list (map snd (ledger step view ls s)) = snd (view s) + total step cost ls s"
proof (induction ls arbitrary: s)
  case (Cons l ls)
  from Cons.prems have IH: "sum_list (map snd (ledger step view ls (step l s)))
      = snd (view (step l s)) + total step cost ls (step l s)"
    using inv_step [of s l] by (intro Cons.IH) simp_all
  from effect [of s l] Cons.prems have
    "view (step l s) = (fst (view s), snd (view s) + cost l s) \<or>
     fst (view s) < fst (view (step l s)) \<and> snd (view (step l s)) = 0 \<and> cost l s = 0"
    using later by auto
  with IH show ?case by auto
qed simp

text \<open>What every opened window satisfies.\<close>

lemma ledger_opened:
  assumes "inv s" and "run_ok step ok ls s" and "\<And>a b. next_window a b \<Longrightarrow> P b"
  shows "\<forall>w \<in> set (tl (map fst (ledger step view ls s))). P w"
proof -
  have "successively (\<lambda>a b. P b) (map fst (ledger step view ls s))"
    by (rule successively_mono [OF ledger_chain [OF assms(1,2)]]) (rule assms(3))
  then show ?thesis by (rule successively_tl)
qed

end

section \<open>The interleaved system\<close>

record window_sys =
  ws_db :: sub_db
  ws_mem :: "nat \<Rightarrow> UserSubscription option"

datatype window_step =
    Load nat int
  | Share nat nat
  | CheckLimits nat time SubscriptionGroup
  | Activate nat time
  | ResetDaily nat time
  | ResetWeekly nat time
  | ResetMonthly nat time
  | Charge int usd
  | SetExpiry int time
  | SetStatus int string
  | SetNotes int string
  | SoftDelete time int
  | Undelete int string
  | ExpireAll time
  | Insert time UserSubscription
  | Rewrite UserSubscription
  | ManualReset int bool bool bool time time

definition withMem :: "nat \<Rightarrow> UserSubscription db_op \<Rightarrow> window_sys \<Rightarrow> window_sys" where
  "withMem p m s = (case m (ws_db s) of
     (Inl _, db) \<Rightarrow> s\<lparr>ws_db := db\<rparr>
   | (Inr sub, db) \<Rightarrow> s\<lparr>ws_db := db, ws_mem := (ws_mem s)(p := Some sub)\<rparr>)"

definition onDb :: "'a db_op \<Rightarrow> window_sys \<Rightarrow> window_sys" where
  "onDb m s = s\<lparr>ws_db := snd (m (ws_db s))\<rparr>"

definition withCopy :: "nat \<Rightarrow> (UserSubscription \<Rightarrow> window_sys \<Rightarrow> window_sys) \<Rightarrow> window_sys \<Rightarrow> window_sys" where
  "withCopy p f s = (case ws_mem s p of None \<Rightarrow> s | Some sub \<Rightarrow> f sub s)"

fun runStep :: "Zones \<Rightarrow> window_step \<Rightarrow> window_sys \<Rightarrow> window_sys" where
  "runStep zn (Load p i) = withMem p (GetByID i)"
| "runStep zn (Share p q) = (\<lambda>s. s\<lparr>ws_mem := (ws_mem s)(p := ws_mem s q)\<rparr>)"
| "runStep zn (CheckLimits p now g) = withCopy p (\<lambda>sub s.
     s\<lparr>ws_mem := (ws_mem s)(p := Some (snd (ValidateAndCheckLimits zn now g sub)))\<rparr>)"
| "runStep zn (Activate p now) = withCopy p (\<lambda>sub. onDb (CheckAndActivateWindow zn now sub))"
| "runStep zn (ResetDaily p now) = withCopy p (\<lambda>sub. withMem p (resetDailyIfDue zn now sub))"
| "runStep zn (ResetWeekly p now) = withCopy p (\<lambda>sub. withMem p (resetWeeklyIfDue zn now sub))"
| "runStep zn (ResetMonthly p now) = withCopy p (\<lambda>sub. withMem p (resetMonthlyIfDue zn now sub))"
| "runStep zn (Charge i c) = onDb (RecordUsage i c)"
| "runStep zn (SetExpiry i t) = onDb (ExtendExpiry i t)"
| "runStep zn (SetStatus i status) = onDb (UpdateStatus i status)"
| "runStep zn (SetNotes i notes) = onDb (UpdateNotes i notes)"
| "runStep zn (SoftDelete now i) = onDb (Delete now i)"
| "runStep zn (Undelete i status) = onDb (Restore i status)"
| "runStep zn (ExpireAll now) = onDb (BatchUpdateExpiredStatus now)"
| "runStep zn (Insert now sub) = onDb (Create now sub)"
| "runStep zn (Rewrite sub) = onDb (Update sub)"
| "runStep zn (ManualReset i d w m dailyStart periodicStart) =
     onDb (ResetUsageWindows i d w m dailyStart periodicStart)"

text \<open>What a step records for the row of an identifier.\<close>

definition recorded :: "int \<Rightarrow> window_step \<Rightarrow> window_sys \<Rightarrow> usd" where
  "recorded i l s = (case l of
     Charge j c \<Rightarrow>
       (case rowOf i (ws_db s) of
          Some r \<Rightarrow>
            if j = i \<and> visible r \<and> (\<exists>g \<in> set (sd_groups (ws_db s)). gr_ID g = us_GroupID r) \<and>
               take 1 (sd_faults (ws_db s)) \<noteq> [NotApplied]
            then c else 0
        | None \<Rightarrow> 0)
   | _ \<Rightarrow> 0)"

section \<open>What a step does to a row\<close>

text \<open>The change a step makes to the row of an identifier when it makes one.\<close>

fun changes :: "Zones \<Rightarrow> int \<Rightarrow> window_sys \<Rightarrow> window_step \<Rightarrow> UserSubscription \<Rightarrow> UserSubscription \<Rightarrow> bool" where
  "changes zn i s (Activate p now) r r' \<longleftrightarrow> \<not> IsWindowActivated r \<and>
     r' = r\<lparr>us_DailyWindowStart := Some (StartOfDay (zn_config zn) now),
           us_WeeklyWindowStart := Some now, us_MonthlyWindowStart := Some now\<rparr>"
| "changes zn i s (ResetDaily p now) r r' \<longleftrightarrow> (\<exists>sub w. ws_mem s p = Some sub \<and> us_ID sub = i \<and>
     us_DailyWindowStart r = us_DailyWindowStart sub \<and> automaticDailyWindowStartAt zn now sub = Some w \<and>
     r' = resetDailyRow w r)"
| "changes zn i s (ResetWeekly p now) r r' \<longleftrightarrow> (\<exists>sub w. ws_mem s p = Some sub \<and> us_ID sub = i \<and>
     us_WeeklyWindowStart r = us_WeeklyWindowStart sub \<and>
     automaticWindowStartAt zn sub (us_WeeklyWindowStart sub) Week now = Some w \<and> r' = resetWeeklyRow w r)"
| "changes zn i s (ResetMonthly p now) r r' \<longleftrightarrow> (\<exists>sub w. ws_mem s p = Some sub \<and> us_ID sub = i \<and>
     us_MonthlyWindowStart r = us_MonthlyWindowStart sub \<and>
     automaticWindowStartAt zn sub (us_MonthlyWindowStart sub) Month now = Some w \<and> r' = resetMonthlyRow w r)"
| "changes zn i s (Charge j c) r r' \<longleftrightarrow> j = i \<and> r' = chargeRow c r"
| "changes zn i s (SetExpiry j t) r r' \<longleftrightarrow> j = i \<and> r' = us_ExpiresAt_update (\<lambda>_. t) r"
| "changes zn i s (SetStatus j st) r r' \<longleftrightarrow> r' = us_Status_update (\<lambda>_. st) r"
| "changes zn i s (SetNotes j n) r r' \<longleftrightarrow> r' = us_Notes_update (\<lambda>_. n) r"
| "changes zn i s (SoftDelete now j) r r' \<longleftrightarrow> r' = us_DeletedAt_update (\<lambda>_. Some now) r"
| "changes zn i s (Undelete j st) r r' \<longleftrightarrow> r' = r\<lparr>us_Status := st, us_DeletedAt := None\<rparr>"
| "changes zn i s (ExpireAll now) r r' \<longleftrightarrow> r' = us_Status_update (\<lambda>_. SubscriptionStatusExpired) r"
| "changes zn i s (Rewrite sub) r r' \<longleftrightarrow> us_ID sub = i \<and> r' = updatedRow sub r"
| "changes zn i s (ManualReset j d w m ds ps) r r' \<longleftrightarrow> j = i \<and> r' = manualReset d w m ds ps r"
| "changes zn i s _ r r' \<longleftrightarrow> False"

lemma onDb_row:
  assumes "affects i R m" and "rowOf i (ws_db s) = Some r"
  obtains r' where "rowOf i (ws_db (onDb m s)) = Some r'" and "R r r'"
  using affectsD [OF assms] by (auto simp: onDb_def)

lemma withMem_db: "ws_db (withMem p m s) = snd (m (ws_db s))"
  by (auto simp: withMem_def split: prod.split sum.split)

lemma affects_due [row_effects]:
  "affects i (\<lambda>r r'. r' = r \<or> us_ID sub = i \<and> us_DailyWindowStart r = us_DailyWindowStart sub \<and>
     (\<exists>w. automaticDailyWindowStartAt zn now sub = Some w \<and> r' = resetDailyRow w r)) (resetDailyIfDue zn now sub)"
  "affects i (\<lambda>r r'. r' = r \<or> us_ID sub = i \<and> us_WeeklyWindowStart r = us_WeeklyWindowStart sub \<and>
     (\<exists>w. automaticWindowStartAt zn sub (us_WeeklyWindowStart sub) Week now = Some w \<and> r' = resetWeeklyRow w r))
     (resetWeeklyIfDue zn now sub)"
  "affects i (\<lambda>r r'. r' = r \<or> us_ID sub = i \<and> us_MonthlyWindowStart r = us_MonthlyWindowStart sub \<and>
     (\<exists>w. automaticWindowStartAt zn sub (us_MonthlyWindowStart sub) Month now = Some w \<and> r' = resetMonthlyRow w r))
     (resetMonthlyIfDue zn now sub)"
  unfolding resetDailyIfDue_def resetWeeklyIfDue_def resetMonthlyIfDue_def
  by (auto split: option.split intro!: affects_mono [OF affects_pure(1)]
        affects_mono [OF affects_andThen_read [OF affects_windows(2) affects_pure(1)]]
        affects_mono [OF affects_andThen_read [OF affects_windows(3) affects_pure(1)]]
        affects_mono [OF affects_andThen_read [OF affects_windows(4) affects_pure(1)]])

lemma affects_activate [row_effects]:
  "affects i (\<lambda>r r'. r' = r \<or> \<not> IsWindowActivated r \<and>
     r' = r\<lparr>us_DailyWindowStart := Some (StartOfDay (zn_config zn) now),
           us_WeeklyWindowStart := Some now, us_MonthlyWindowStart := Some now\<rparr>) (CheckAndActivateWindow zn now sub)"
  unfolding CheckAndActivateWindow_def
  by (auto intro: affects_mono [OF affects_pure(1)] affects_mono [OF affects_windows(1)])

lemma step_row:
  assumes "rowOf i (ws_db s) = Some r"
  obtains r' where "rowOf i (ws_db (runStep zn l s)) = Some r'" and "r' = r \<or> changes zn i s l r r'"
proof -
  have eq: "affects i (=) m \<Longrightarrow> rowOf i (snd (m (ws_db s))) = Some r" for m :: "'a db_op"
    using assms by (auto simp: affects_def)
  have "\<exists>r'. rowOf i (ws_db (runStep zn l s)) = Some r' \<and> (r' = r \<or> changes zn i s l r r')"
  proof (cases l)
    case (Load p j)
    then show ?thesis using eq [OF affects_get(1)] by (simp add: withMem_db)
  next
    case (Activate p now)
    show ?thesis
    proof (cases "ws_mem s p")
      case (Some sub)
      from assms show ?thesis
        by (rule onDb_row [OF affects_activate]) (use Some Activate in \<open>auto simp: withCopy_def\<close>)
    qed (use Activate assms in \<open>simp add: withCopy_def\<close>)
  next
    case (ResetDaily p now)
    show ?thesis
    proof (cases "ws_mem s p")
      case (Some sub)
      from assms show ?thesis
        by (rule affectsD [OF affects_due(1) [of i sub zn now]]) (use Some ResetDaily in \<open>auto simp: withCopy_def withMem_db\<close>)
    qed (use ResetDaily assms in \<open>simp add: withCopy_def\<close>)
  next
    case (ResetWeekly p now)
    show ?thesis
    proof (cases "ws_mem s p")
      case (Some sub)
      from assms show ?thesis
        by (rule affectsD [OF affects_due(2) [of i sub zn now]]) (use Some ResetWeekly in \<open>auto simp: withCopy_def withMem_db\<close>)
    qed (use ResetWeekly assms in \<open>simp add: withCopy_def\<close>)
  next
    case (ResetMonthly p now)
    show ?thesis
    proof (cases "ws_mem s p")
      case (Some sub)
      from assms show ?thesis
        by (rule affectsD [OF affects_due(3) [of i sub zn now]]) (use Some ResetMonthly in \<open>auto simp: withCopy_def withMem_db\<close>)
    qed (use ResetMonthly assms in \<open>simp add: withCopy_def\<close>)
  next
    case (Charge j c)
    from assms show ?thesis
      by (rule onDb_row [OF affects_charge]) (use Charge in \<open>auto simp: RecordUsage_def\<close>)
  next
    case (SetExpiry j t)
    from assms show ?thesis by (rule onDb_row [OF affects_columns(1)]) (use SetExpiry in auto)
  next
    case (SetStatus j t)
    from assms show ?thesis by (rule onDb_row [OF affects_columns(2)]) (use SetStatus in auto)
  next
    case (SetNotes j t)
    from assms show ?thesis by (rule onDb_row [OF affects_columns(3)]) (use SetNotes in auto)
  next
    case (SoftDelete t j)
    from assms show ?thesis by (rule onDb_row [OF affects_Delete]) (use SoftDelete in auto)
  next
    case (Undelete j t)
    from assms show ?thesis by (rule onDb_row [OF affects_Restore]) (use Undelete in auto)
  next
    case (ExpireAll t)
    from assms show ?thesis by (rule onDb_row [OF affects_expire]) (use ExpireAll in auto)
  next
    case (Insert t sub)
    then show ?thesis using eq [OF affects_Create] by (simp add: onDb_def)
  next
    case (Rewrite sub)
    from assms show ?thesis by (rule onDb_row [OF affects_Update]) (use Rewrite in auto)
  next
    case (ManualReset j d w m ds ps)
    from assms show ?thesis by (rule onDb_row [OF affects_manual]) (use ManualReset in auto)
  qed (use assms in \<open>auto simp: withCopy_def split: option.split\<close>)
  then show thesis using that by blast
qed

text \<open>What a recorded charge adds.\<close>

lemma charge_row:
  assumes "rowOf i (ws_db s) = Some r"
  shows "rowOf i (ws_db (runStep zn (Charge j c) s)) =
    Some (if j = i \<and> visible r \<and> (\<exists>g \<in> set (sd_groups (ws_db s)). gr_ID g = us_GroupID r) \<and>
             take 1 (sd_faults (ws_db s)) \<noteq> [NotApplied]
          then chargeRow c r else r)"
proof -
  have snd_then: "snd (andThen m (\<lambda>n. if n > (0 :: nat) then succeed () else failWith e) db) = snd (m db)" for m e db
    by (simp add: andThen_def succeed_def failWith_def split: prod.split sum.split)
  have ID: "us_ID (chargeRow c r) = us_ID r" for r by (simp add: chargeRow_def)
  let ?db = "ws_db s"
  show ?thesis
  proof (cases "sd_faults ?db")
    case Nil
    with assms show ?thesis
      by (auto simp: onDb_def RecordUsage_def IncrementUsage_def snd_then sql_def Let_def rowOf_setRows [OF ID] dest: rowOf_Some)
  next
    case (Cons f fs)
    with assms show ?thesis
      by (cases f) (auto simp: onDb_def RecordUsage_def IncrementUsage_def snd_then sql_def Let_def
          rowOf_setRows [OF ID] dest: rowOf_Some)
  qed
qed

lemma recorded_other: "\<forall>j c. l \<noteq> Charge j c \<Longrightarrow> recorded i l s = 0"
  by (cases l) (simp_all add: recorded_def)

section \<open>Identifiers and copies\<close>

lemma ids_ok_setRows: "(\<And>r. us_ID (f r) = us_ID r) \<Longrightarrow> ids_ok db \<Longrightarrow> ids_ok (setRows p f db)"
  by (auto simp: ids_ok_def setRows_def comp_def if_distrib cong: if_cong)

lemma ids_updateWhere: "(\<And>r. us_ID (f r) = us_ID r) \<Longrightarrow> keeps ids_ok (updateWhere p f)"
  unfolding updateWhere_def by (rule keeps_sql) (simp_all add: keeps_def ids_ok_setRows)

lemma ids_updateOneID: "(\<And>r. us_ID (f r) = us_ID r) \<Longrightarrow> keeps ids_ok (updateOneID e j f)"
  unfolding updateOneID_def by (rule keeps_sql) (simp_all add: keeps_def ids_ok_setRows Let_def)

lemma ids_translate:
  assumes "keeps ids_ok m" shows "keeps ids_ok (translateConditionalWindowReset j m)"
  unfolding translateConditionalWindowReset_def
proof (rule keeps_andThen [OF assms])
  fix affected :: nat
  have "keeps ids_ok (sql (\<lambda>db. (Inr (\<exists>r \<in> set (sd_subs db). us_ID r = j \<and> visible r), db)))"
    by (rule keeps_sql) (simp_all add: keeps_def)
  then show "keeps ids_ok (if affected > 0 then succeed () else andThen
      (sql (\<lambda>db. (Inr (\<exists>r \<in> set (sd_subs db). us_ID r = j \<and> visible r), db)))
      (\<lambda>exists. if \<not> exists then failWith ErrSubscriptionNotFound else succeed ()))"
    by (simp add: keeps_andThen)
qed

lemma ids_Create: "keeps ids_ok (Create clock sub)"
  unfolding Create_def
  by (rule keeps_sql) (force simp: keeps_def ids_ok_def Let_def createdRow_def)+

lemma ids_onlyRow: "keeps ids_ok (onlyRow p)"
  by (rule keeps_onlyRow) simp

lemma ids_ok_step: "ids_ok (ws_db s) \<Longrightarrow> ids_ok (ws_db (runStep zn l s))"
proof -
  assume ids: "ids_ok (ws_db s)"
  have on: "ids_ok (ws_db (onDb m s))" if "keeps ids_ok m" for m :: "'a db_op"
    using that ids by (simp add: onDb_def keepsD)
  have "with": "ids_ok (ws_db (withMem p m s))" if "keeps ids_ok m" for p m
    using that ids by (simp add: withMem_db keepsD)
  note updates = resetDailyRow_def resetWeeklyRow_def resetMonthlyRow_def chargeRow_def updatedRow_def
  have due: "keeps ids_ok (resetDailyIfDue zn now sub)" "keeps ids_ok (resetWeeklyIfDue zn now sub)"
    "keeps ids_ok (resetMonthlyIfDue zn now sub)" "keeps ids_ok (CheckAndActivateWindow zn now sub)" for now sub
    unfolding resetDailyIfDue_def resetWeeklyIfDue_def resetMonthlyIfDue_def CheckAndActivateWindow_def
      ResetDailyUsage_def ResetWeeklyUsage_def ResetMonthlyUsage_def ActivateWindows_def
    by (auto split: option.split intro!: keeps_andThen ids_translate ids_updateWhere simp: updates)
  have charge: "keeps ids_ok (RecordUsage j c)" for j c
    unfolding RecordUsage_def IncrementUsage_def
    by (rule keeps_andThen, rule keeps_sql) (simp_all add: keeps_def Let_def ids_ok_setRows chargeRow_def succeed_def failWith_def)
  have edits: "keeps ids_ok (ExtendExpiry j t)" "keeps ids_ok (UpdateStatus j st)" "keeps ids_ok (UpdateNotes j st)"
    "keeps ids_ok (Delete t j)" "keeps ids_ok (Restore j st)" "keeps ids_ok (BatchUpdateExpiredStatus t)"
    "keeps ids_ok (Update sub)" "keeps ids_ok (ResetUsageWindows j d w m ds ps)" for j t st sub d w m ds ps
    unfolding ExtendExpiry_def UpdateStatus_def UpdateNotes_def Delete_def Restore_def BatchUpdateExpiredStatus_def
      Update_def ResetUsageWindows_def GetByID_def
    by (auto intro!: keeps_andThen ids_updateWhere ids_updateOneID ids_onlyRow simp: updates)
  show ?thesis
    by (cases l) (auto simp: ids withCopy_def GetByID_def split: option.split
        intro!: on "with" due charge edits ids_Create ids_onlyRow)
qed

text \<open>A copy has the identifier and the term of an earlier copy, or is the row as it is.\<close>

definition sameTerm :: "UserSubscription \<Rightarrow> UserSubscription \<Rightarrow> bool" where
  "sameTerm s s' \<longleftrightarrow> us_ID s = us_ID s' \<and> us_StartsAt s = us_StartsAt s' \<and> us_ExpiresAt s = us_ExpiresAt s'"

lemma sameTerm_updates [simp]:
  "sameTerm s s" "sameTerm (resetDailyRow w s) s" "sameTerm (resetWeeklyRow w s) s" "sameTerm (resetMonthlyRow w s) s"
  "sameTerm (snd (ValidateAndCheckLimits zn now g s)) s"
  by (simp_all add: sameTerm_def resetDailyRow_def resetWeeklyRow_def resetMonthlyRow_def
        ValidateAndCheckLimits_def zeroDueUsage_def Let_def)

lemma onlyRow_Inr: "onlyRow p db = (Inr r, db') \<Longrightarrow> r \<in> set (sd_subs db) \<and> p r"
proof -
  assume "onlyRow p db = (Inr r, db')"
  then have "filter p (sd_subs db) = [r]"
    by (auto simp: onlyRow_def sql_def Let_def split: list.splits fault.splits)
  then show ?thesis by (metis filter_eq_ConsD in_set_conv_decomp)
qed

lemma due_result:
  "resetDailyIfDue zn now sub db = (Inr sub', db') \<Longrightarrow> sameTerm sub' sub"
  "resetWeeklyIfDue zn now sub db = (Inr sub', db') \<Longrightarrow> sameTerm sub' sub"
  "resetMonthlyIfDue zn now sub db = (Inr sub', db') \<Longrightarrow> sameTerm sub' sub"
  by (auto simp: resetDailyIfDue_def resetWeeklyIfDue_def resetMonthlyIfDue_def andThen_def succeed_def
      split: option.splits prod.splits sum.splits)

lemma withMem_mem:
  assumes "ws_mem (withMem p m s) q = Some sub"
  obtains "ws_mem s q = Some sub" | db' where "m (ws_db s) = (Inr sub, db')"
  using assms by (auto simp: withMem_def split: prod.splits sum.splits if_splits)

lemma step_mem:
  assumes "ids_ok (ws_db s)" and mem: "ws_mem (runStep zn l s) p = Some sub"
  shows "rowOf (us_ID sub) (ws_db s) = Some sub \<or> (\<exists>q sub'. ws_mem s q = Some sub' \<and> sameTerm sub sub')"
proof -
  have due: "\<exists>q sub'. ws_mem s q = Some sub' \<and> sameTerm sub sub'"
    if "ws_mem (withCopy q (\<lambda>sub. withMem q (m sub)) s) p = Some sub"
      "\<And>sub sub' db db'. m sub db = (Inr sub', db') \<Longrightarrow> sameTerm sub' sub" for q m
  proof (cases "ws_mem s q")
    case None
    with that(1) show ?thesis by (auto simp: withCopy_def intro: exI [of _ p])
  next
    case (Some sub0)
    with that(1) have "ws_mem (withMem q (m sub0) s) p = Some sub" by (simp add: withCopy_def)
    then show ?thesis
      by (rule withMem_mem) (use Some that(2) sameTerm_updates(1) in blast)+
  qed
  have same: "\<exists>q sub'. ws_mem s q = Some sub' \<and> sameTerm sub sub'" if "ws_mem s p = Some sub"
    using that sameTerm_updates(1) by blast
  show ?thesis
  proof (cases l)
    case (Load q j)
    with mem have "ws_mem (withMem q (GetByID j) s) p = Some sub" by simp
    then show ?thesis
    proof (rule withMem_mem)
      fix db' assume "GetByID j (ws_db s) = (Inr sub, db')"
      then have "sub \<in> set (sd_subs (ws_db s))" by (auto simp: GetByID_def dest: onlyRow_Inr)
      with assms(1) show ?thesis by (simp add: rowOf_eq)
    qed (use same in blast)
  next
    case (ResetDaily q now)
    with due [OF _ due_result(1)] mem show ?thesis by simp
  next
    case (ResetWeekly q now)
    with due [OF _ due_result(2)] mem show ?thesis by simp
  next
    case (ResetMonthly q now)
    with due [OF _ due_result(3)] mem show ?thesis by simp
  next
    case (CheckLimits q now g)
    show ?thesis
    proof (cases "ws_mem s q = None \<or> p \<noteq> q")
      case True
      with mem CheckLimits have "ws_mem s p = Some sub"
        by (auto simp: withCopy_def split: option.splits if_splits)
      with same show ?thesis by blast
    next
      case False
      then obtain sub0 where "ws_mem s q = Some sub0" "p = q" by auto
      with mem CheckLimits have "sameTerm sub sub0" by (auto simp: withCopy_def)
      with \<open>ws_mem s q = Some sub0\<close> show ?thesis by blast
    qed
  next
    case (Share q q')
    show ?thesis
    proof (cases "p = q")
      case True
      with mem Share have "ws_mem s q' = Some sub" by simp
      then show ?thesis using sameTerm_updates(1) by blast
    qed (use mem same Share in auto)
  qed (use mem same in \<open>auto simp: withCopy_def onDb_def split: option.splits\<close>)
qed

end
