(* ===== verification/Subscription_Quotas.thy ===== *)
theory Subscription_Quotas
  imports Subscription_Windows
begin

text \<open>
  What a subscriber is granted: the daily, the weekly and the monthly window of a row under the
  interleaved steps.
\<close>

section \<open>Windows of a term\<close>

text \<open>The starts that a window of the given period can advance to from \<open>a\<close> before the time \<open>X\<close>.\<close>

definition gridStarts :: "Zones \<Rightarrow> UserSubscription \<Rightarrow> time \<Rightarrow> duration \<Rightarrow> time \<Rightarrow> time set" where
  "gridStarts zn r a period X = {w. \<exists>k \<ge> 1. w = windowResetAnchor zn r a + k * period \<and> w < X}"

definition rolls :: "time set \<Rightarrow> time \<Rightarrow> time \<Rightarrow> bool" where
  "rolls G b b' \<longleftrightarrow> b < b' \<and> b' \<in> G"

lemma advance_on_grid:
  assumes adv: "automaticWindowStartAt zn sub (Some w) period now = Some w'"
    and period: "0 < period" "period < maxDuration"
    and sub: "us_StartsAt sub = us_StartsAt r" "us_ExpiresAt sub \<le> X"
    and legacy: "startOfDay (zn_db zn) (us_StartsAt r) \<le> a"
    and w: "w = a \<or> w \<in> gridStarts zn r a period X"
  shows "rolls (gridStarts zn r a period X) w w'"
proof -
  have anchor: "windowResetAnchor zn sub = windowResetAnchor zn r"
    using sub(1) by (rule windowResetAnchor_cong)
  from adv period obtain k where k: "1 \<le> k" "w' = windowResetAnchor zn r w + k * period" "w' < us_ExpiresAt sub"
    by (rule automaticWindowStartAt_Some) (simp add: anchor)
  have less: "w < w'"
  proof -
    have "0 < k * period" using k(1) period(1) by simp
    with windowResetAnchor_ge [of w zn r] k(2) show ?thesis by linarith
  qed
  have "w' \<in> gridStarts zn r a period X"
    using w
  proof
    assume "w = a"
    with k sub(2) show ?thesis by (auto simp: gridStarts_def)
  next
    assume "w \<in> gridStarts zn r a period X"
    then obtain k0 where k0: "1 \<le> k0" "w = windowResetAnchor zn r a + k0 * period" by (auto simp: gridStarts_def)
    have "0 < k0 * period" using k0(1) period(1) by simp
    with windowResetAnchor_ge [of a zn r] k0(2) legacy have "startOfDay (zn_db zn) (us_StartsAt r) < w" by linarith
    then have "windowResetAnchor zn r w = w" by (simp add: windowResetAnchor_def)
    with k k0 sub(2) have "w' = windowResetAnchor zn r a + (k0 + k) * period" "1 \<le> k0 + k" "w' < X"
      by (simp_all add: distrib_right)
    then show ?thesis by (auto simp: gridStarts_def)
  qed
  with less show ?thesis by (simp add: rolls_def)
qed

text \<open>Distinct starts are a period apart, so there are at most as many as periods fit.\<close>

lemma grid_count:
  assumes "sorted_wrt (<) ws" and "set ws \<subseteq> gridStarts zn r a period X" and "0 < period" and "ws \<noteq> []"
  shows "windowResetAnchor zn r a + int (length ws) * period \<le> last ws"
  using assms
proof (induction ws rule: rev_induct)
  case (snoc w ws)
  from snoc.prems obtain k where w: "1 \<le> k" "w = windowResetAnchor zn r a + k * period" by (auto simp: gridStarts_def)
  show ?case
  proof (cases "ws = []")
    case True
    from w(1) snoc.prems(3) have "1 * period \<le> k * period" by (intro mult_right_mono) simp_all
    with True w(2) show ?thesis by simp
  next
    case False
    with snoc have IH: "windowResetAnchor zn r a + int (length ws) * period \<le> last ws"
      by (simp add: sorted_wrt_append)
    from snoc.prems False have "last ws < w" by (simp add: sorted_wrt_append)
    with IH w(2) have "int (length ws) * period < k * period" by linarith
    then have "int (length ws) < k" using snoc.prems(3) by (simp add: mult_less_cancel_right)
    then have "(int (length ws) + 1) * period \<le> k * period" using snoc.prems(3) by (intro mult_right_mono) simp_all
    with w(2) show ?thesis by (simp add: algebra_simps)
  qed
qed simp

section \<open>The row and the copies of a term\<close>

text \<open>The row of \<open>r0\<close> and all copies of it are of the same term and end no later than \<open>X\<close>.\<close>

definition termInv :: "UserSubscription \<Rightarrow> time \<Rightarrow> window_sys \<Rightarrow> bool" where
  "termInv r0 X s \<longleftrightarrow> ids_ok (ws_db s) \<and>
     (\<exists>r. rowOf (us_ID r0) (ws_db s) = Some r \<and> us_StartsAt r = us_StartsAt r0 \<and> us_ExpiresAt r \<le> X) \<and>
     (\<forall>p sub. ws_mem s p = Some sub \<longrightarrow> us_ID sub = us_ID r0 \<longrightarrow>
        us_StartsAt sub = us_StartsAt r0 \<and> us_ExpiresAt sub \<le> X)"

definition endsBy :: "int \<Rightarrow> time \<Rightarrow> window_sys \<Rightarrow> bool" where
  "endsBy i X s \<longleftrightarrow> (\<forall>r. rowOf i (ws_db s) = Some r \<longrightarrow> us_ExpiresAt r \<le> X)"

definition isRewrite :: "int \<Rightarrow> window_step \<Rightarrow> bool" where
  "isRewrite i l = (case l of Rewrite sub \<Rightarrow> us_ID sub = i | _ \<Rightarrow> False)"

lemma changes_StartsAt: "changes zn i s l r r' \<Longrightarrow> \<not> isRewrite i l \<Longrightarrow> us_StartsAt r' = us_StartsAt r"
  by (cases l) (auto simp: isRewrite_def resetDailyRow_def resetWeeklyRow_def resetMonthlyRow_def chargeRow_def manualReset_def)

lemma termInv_step:
  assumes inv: "termInv r0 X s" and "\<not> isRewrite (us_ID r0) l" and "endsBy (us_ID r0) X (runStep zn l s)"
  shows "termInv r0 X (runStep zn l s)"
proof -
  from inv obtain r where r: "rowOf (us_ID r0) (ws_db s) = Some r" "us_StartsAt r = us_StartsAt r0" "us_ExpiresAt r \<le> X"
    by (auto simp: termInv_def)
  from r(1) obtain r' where r': "rowOf (us_ID r0) (ws_db (runStep zn l s)) = Some r'" "r' = r \<or> changes zn (us_ID r0) s l r r'"
    by (rule step_row)
  from r'(2) assms(2) r(2) have S: "us_StartsAt r' = us_StartsAt r0" by (auto dest: changes_StartsAt)
  have "us_StartsAt sub = us_StartsAt r0 \<and> us_ExpiresAt sub \<le> X"
    if "ws_mem (runStep zn l s) p = Some sub" "us_ID sub = us_ID r0" for p sub
    using step_mem [OF _ that(1)] inv r that(2) by (auto simp: termInv_def sameTerm_def)
  with inv r' S assms(3) show ?thesis
    by (auto simp: termInv_def endsBy_def ids_ok_step)
qed

section \<open>Rolling windows\<close>

definition windowView ::
  "(UserSubscription \<Rightarrow> time option) \<Rightarrow> (UserSubscription \<Rightarrow> usd) \<Rightarrow> int \<Rightarrow> window_sys \<Rightarrow> time \<times> usd" where
  "windowView start usage i s = (case rowOf i (ws_db s) of
     None \<Rightarrow> (0, 0) | Some r \<Rightarrow> (the (start r), usage r))"

text \<open>A step on a started window: what it records, or the next window.\<close>

lemma window_effect:
  assumes r: "rowOf i (ws_db s) = Some r" "start r = Some w"
    and charge: "\<And>c r. start (chargeRow c r) = start r" "\<And>c r. usage (chargeRow c r) = usage r + c"
    and step: "\<And>r'. changes zn i s l r r' \<Longrightarrow> \<forall>j c. l \<noteq> Charge j c \<Longrightarrow>
      start r' = start r \<and> usage r' = usage r \<or> (\<exists>w'. nxt w w' \<and> start r' = Some w' \<and> usage r' = 0)"
  obtains r' w' where "rowOf i (ws_db (runStep zn l s)) = Some r'" and "start r' = Some w'"
    and "w' = w \<and> usage r' = usage r + recorded i l s \<or> nxt w w' \<and> usage r' = 0 \<and> recorded i l s = 0"
proof (cases "\<exists>j c. l = Charge j c")
  case True
  then obtain j c where l: "l = Charge j c" by blast
  let ?b = "j = i \<and> visible r \<and> (\<exists>g \<in> set (sd_groups (ws_db s)). gr_ID g = us_GroupID r) \<and>
    take 1 (sd_faults (ws_db s)) \<noteq> [NotApplied]"
  obtain b where "rowOf i (ws_db (runStep zn l s)) = Some (if b then chargeRow c r else r)"
    and "recorded i l s = (if b then c else 0)"
  proof (rule that [of ?b])
    show "rowOf i (ws_db (runStep zn l s)) = Some (if ?b then chargeRow c r else r)"
      unfolding l by (rule charge_row [OF r(1)])
    show "recorded i l s = (if ?b then c else 0)"
      using r(1) by (simp add: recorded_def l)
  qed
  with that r(2) charge show thesis by (cases b) simp_all
next
  case False
  then have 0: "recorded i l s = 0" by (simp add: recorded_other)
  from r(1) obtain r' where r': "rowOf i (ws_db (runStep zn l s)) = Some r'" "r' = r \<or> changes zn i s l r r'"
    by (rule step_row)
  with step [of r'] False r(2) 0 that show thesis by auto
qed

definition rollInv ::
  "Zones \<Rightarrow> (UserSubscription \<Rightarrow> time option) \<Rightarrow> duration \<Rightarrow> UserSubscription \<Rightarrow> time \<Rightarrow> time \<Rightarrow> window_sys \<Rightarrow> bool" where
  "rollInv zn start period r0 a X s \<longleftrightarrow> termInv r0 X s \<and> startOfDay (zn_db zn) (us_StartsAt r0) \<le> a \<and>
     (\<exists>r w. rowOf (us_ID r0) (ws_db s) = Some r \<and> start r = Some w \<and> (w = a \<or> w \<in> gridStarts zn r0 a period X))"

text \<open>A step that no one took by hand and that leaves the row ending by \<open>X\<close>.\<close>

definition stepOk :: "Zones \<Rightarrow> (int \<Rightarrow> window_step \<Rightarrow> bool) \<Rightarrow> int \<Rightarrow> time \<Rightarrow> window_step \<Rightarrow> window_sys \<Rightarrow> bool" where
  "stepOk zn automatic i X l s \<longleftrightarrow> automatic i l \<and> endsBy i X (runStep zn l s)"

text \<open>
  The contract of a window that rolls by a period: outside of charges, an automatic step leaves it
  alone or moves it where a copy of the row says, if the row still has the start of the copy.
\<close>

locale rolling_window =
  fixes zn :: Zones
    and start :: "UserSubscription \<Rightarrow> time option"
    and usage :: "UserSubscription \<Rightarrow> usd"
    and period :: duration
    and automatic :: "int \<Rightarrow> window_step \<Rightarrow> bool"
    and r0 :: UserSubscription
    and a :: time
    and X :: time
  assumes period: "0 < period" "period < maxDuration"
    and start_charge: "start (chargeRow c r) = start r"
    and usage_charge: "usage (chargeRow c r) = usage r + c"
    and automatic_rewrite: "automatic i l \<Longrightarrow> \<not> isRewrite i l"
    and automatic_step: "changes zn i s l r r' \<Longrightarrow> automatic i l \<Longrightarrow> \<forall>j c. l \<noteq> Charge j c \<Longrightarrow> start r = Some w \<Longrightarrow>
      start r' = start r \<and> usage r' = usage r \<or>
      (\<exists>p now sub w'. ws_mem s p = Some sub \<and> us_ID sub = i \<and>
         automaticWindowStartAt zn sub (Some w) period now = Some w' \<and> start r' = Some w' \<and> usage r' = 0)"
begin

lemma rolling_step:
  assumes inv: "rollInv zn start period r0 a X s" and ok: "stepOk zn automatic (us_ID r0) X l s"
  shows "rollInv zn start period r0 a X (runStep zn l s) \<and>
    (windowView start usage (us_ID r0) (runStep zn l s)
       = (fst (windowView start usage (us_ID r0) s), snd (windowView start usage (us_ID r0) s) + recorded (us_ID r0) l s) \<or>
     rolls (gridStarts zn r0 a period X) (fst (windowView start usage (us_ID r0) s))
       (fst (windowView start usage (us_ID r0) (runStep zn l s))) \<and>
     snd (windowView start usage (us_ID r0) (runStep zn l s)) = 0 \<and> recorded (us_ID r0) l s = 0)"
proof -
  let ?i = "us_ID r0" and ?G = "gridStarts zn r0 a period X"
  from inv obtain r w where r: "rowOf ?i (ws_db s) = Some r" "start r = Some w" and w: "w = a \<or> w \<in> ?G"
    by (auto simp: rollInv_def)
  have auto: "automatic ?i l" using ok by (simp add: stepOk_def)
  have T: "termInv r0 X (runStep zn l s)"
    using inv ok automatic_rewrite by (intro termInv_step) (auto simp: rollInv_def stepOk_def)
  have move: "start r' = start r \<and> usage r' = usage r \<or> (\<exists>w'. rolls ?G w w' \<and> start r' = Some w' \<and> usage r' = 0)"
    if "changes zn ?i s l r r'" "\<forall>j c. l \<noteq> Charge j c" for r'
    using automatic_step [OF that(1) auto that(2) r(2)]
  proof (elim disjE exE conjE)
    fix p now sub w'
    assume sub: "ws_mem s p = Some sub" "us_ID sub = ?i" and adv: "automaticWindowStartAt zn sub (Some w) period now = Some w'"
      and r': "start r' = Some w'" "usage r' = 0"
    from inv sub have "us_StartsAt sub = us_StartsAt r0" "us_ExpiresAt sub \<le> X" by (auto simp: rollInv_def termInv_def)
    with adv w inv have "rolls ?G w w'" by (intro advance_on_grid period) (auto simp: rollInv_def)
    with r' show ?thesis by blast
  qed simp_all
  from r start_charge usage_charge move obtain r' w' where
    r': "rowOf ?i (ws_db (runStep zn l s)) = Some r'" "start r' = Some w'"
    and eff: "w' = w \<and> usage r' = usage r + recorded ?i l s \<or> rolls ?G w w' \<and> usage r' = 0 \<and> recorded ?i l s = 0"
    by (rule window_effect)
  have "rollInv zn start period r0 a X (runStep zn l s)"
    using T inv r' eff w by (auto simp: rollInv_def rolls_def)
  with r r' eff show ?thesis by (auto simp: windowView_def)
qed

end

sublocale rolling_window \<subseteq> quota_window "runStep zn" "windowView start usage (us_ID r0)" "recorded (us_ID r0)"
  "rollInv zn start period r0 a X" "stepOk zn automatic (us_ID r0) X" "rolls (gridStarts zn r0 a period X)"
  by unfold_locales (auto simp: rolls_def dest: rolling_step)

context rolling_window
begin

text \<open>The ledger of the window from a row that has it started at \<open>a\<close>.\<close>

lemma windows_once:
  assumes s: "rollInv zn start period r0 a X s" and start: "fst (windowView start usage (us_ID r0) s) = a" and run: "run_ok (runStep zn) (stepOk zn automatic (us_ID r0) X) ls s"
  defines "starts \<equiv> map fst (ledger (runStep zn) (windowView start usage (us_ID r0)) ls s)"
  shows "sorted_wrt (<) starts \<and> hd starts = a \<and> set (tl starts) \<subseteq> gridStarts zn r0 a period X \<and>
    (tl starts \<noteq> [] \<longrightarrow> windowResetAnchor zn r0 a + int (length starts - 1) * period < X)"
proof -
  have sorted: "sorted_wrt (<) starts" and hd: "starts \<noteq> []" "hd starts = a"
    using ledger_sorted [OF s run] ledger_hd [OF s run] start by (simp_all add: starts_def hd_map)
  have grid: "set (tl starts) \<subseteq> gridStarts zn r0 a period X"
    using ledger_opened [OF s run, of "\<lambda>w. w \<in> gridStarts zn r0 a period X"] by (auto simp: starts_def rolls_def)
  have "windowResetAnchor zn r0 a + int (length starts - 1) * period < X" if "tl starts \<noteq> []"
  proof -
    from sorted have "sorted_wrt (<) (tl starts)" by (cases starts) simp_all
    from grid_count [OF this grid period(1) that] that grid
    show ?thesis by (force simp: gridStarts_def dest: last_in_set)
  qed
  with sorted hd grid show ?thesis by simp
qed

end

section \<open>The weekly and the monthly window\<close>

lemma Week_bounds [simp]: "0 < Week" "Week < maxDuration"
  by (simp_all add: Week_def maxDuration_def time_units)

lemma Month_bounds [simp]: "0 < Month" "Month < maxDuration"
  by (simp_all add: Month_def maxDuration_def time_units)

definition weeklyAutomatic :: "int \<Rightarrow> window_step \<Rightarrow> bool" where
  "weeklyAutomatic i l = (case l of
     Rewrite sub \<Rightarrow> us_ID sub \<noteq> i | ManualReset j d w m ds ps \<Rightarrow> j = i \<longrightarrow> \<not> w | _ \<Rightarrow> True)"

definition monthlyAutomatic :: "int \<Rightarrow> window_step \<Rightarrow> bool" where
  "monthlyAutomatic i l = (case l of
     Rewrite sub \<Rightarrow> us_ID sub \<noteq> i | ManualReset j d w m ds ps \<Rightarrow> j = i \<longrightarrow> \<not> m | _ \<Rightarrow> True)"

lemmas window_rows = resetDailyRow_def resetWeeklyRow_def resetMonthlyRow_def manualReset_def

interpretation weekly: rolling_window zn us_WeeklyWindowStart us_WeeklyUsageUSD Week weeklyAutomatic r0 a X
  for zn r0 a X
proof unfold_locales
  fix i s l r r' w
  assume "changes zn i s l r r'" "weeklyAutomatic i l" "\<forall>j c. l \<noteq> Charge j c" "us_WeeklyWindowStart r = Some w"
  then show "us_WeeklyWindowStart r' = us_WeeklyWindowStart r \<and> us_WeeklyUsageUSD r' = us_WeeklyUsageUSD r \<or>
      (\<exists>p now sub w'. ws_mem s p = Some sub \<and> us_ID sub = i \<and>
         automaticWindowStartAt zn sub (Some w) Week now = Some w' \<and> us_WeeklyWindowStart r' = Some w' \<and>
         us_WeeklyUsageUSD r' = 0)"
    by (cases l) (force simp: IsWindowActivated_def window_rows weeklyAutomatic_def)+
qed (auto simp: chargeRow_def weeklyAutomatic_def isRewrite_def split: window_step.splits)

interpretation monthly: rolling_window zn us_MonthlyWindowStart us_MonthlyUsageUSD Month monthlyAutomatic r0 a X
  for zn r0 a X
proof unfold_locales
  fix i s l r r' w
  assume "changes zn i s l r r'" "monthlyAutomatic i l" "\<forall>j c. l \<noteq> Charge j c" "us_MonthlyWindowStart r = Some w"
  then show "us_MonthlyWindowStart r' = us_MonthlyWindowStart r \<and> us_MonthlyUsageUSD r' = us_MonthlyUsageUSD r \<or>
      (\<exists>p now sub w'. ws_mem s p = Some sub \<and> us_ID sub = i \<and>
         automaticWindowStartAt zn sub (Some w) Month now = Some w' \<and> us_MonthlyWindowStart r' = Some w' \<and>
         us_MonthlyUsageUSD r' = 0)"
    by (cases l) (force simp: IsWindowActivated_def window_rows monthlyAutomatic_def)+
qed (auto simp: chargeRow_def monthlyAutomatic_def isRewrite_def split: window_step.splits)

lemma fresh_rollInv:
  assumes "rowOf (us_ID r) (ws_db s) = Some r" and "start r = Some a" and "ids_ok (ws_db s)"
    and "ws_mem s = (\<lambda>_. None)" and "startOfDay (zn_db zn) (us_StartsAt r) \<le> a" and "us_ExpiresAt r \<le> X"
  shows "rollInv zn start period r a X s"
  using assms by (auto simp: rollInv_def termInv_def)

text \<open>The two windows that roll by a period.\<close>

definition isRolling ::
  "(UserSubscription \<Rightarrow> time option) \<Rightarrow> (UserSubscription \<Rightarrow> usd) \<Rightarrow> duration \<Rightarrow> (int \<Rightarrow> window_step \<Rightarrow> bool) \<Rightarrow> bool" where
  "isRolling start usage period automatic \<longleftrightarrow>
     (start, usage, period, automatic) = (us_WeeklyWindowStart, us_WeeklyUsageUSD, Week, weeklyAutomatic) \<or>
     (start, usage, period, automatic) = (us_MonthlyWindowStart, us_MonthlyUsageUSD, Month, monthlyAutomatic)"

text \<open>
  C1: Each weekly and each monthly quota is granted once.  Whatever requests race on a subscription,
  with copies however stale, whichever statements fail, and whatever else happens to the table, as
  long as nobody resets the window by hand or renews the term: the windows of the row start at
  strictly increasing times, each a whole number of periods after the anchor and before the end
  \<open>X\<close> of the term, so a term of less than \<open>n + 1\<close> periods has at most \<open>n + 1\<close> windows; and every
  recorded amount is counted in exactly one of them.
\<close>

theorem rolling_quota_once:
  assumes window: "isRolling start usage period automatic"
    and row: "rowOf (us_ID r) (ws_db s) = Some r" "start r = Some a" "us_ExpiresAt r \<le> X"
    and anchor: "startOfDay (zn_db zn) (us_StartsAt r) \<le> a"
    and fresh: "ids_ok (ws_db s)" "ws_mem s = (\<lambda>_. None)"
    and run: "run_ok (runStep zn) (stepOk zn automatic (us_ID r) X) ls s"
  shows "let windows = ledger (runStep zn) (windowView start usage (us_ID r)) ls s; starts = map fst windows
    in sorted_wrt (<) starts \<and> hd starts = a \<and> set (tl starts) \<subseteq> gridStarts zn r a period X \<and>
       (tl starts \<noteq> [] \<longrightarrow> windowResetAnchor zn r a + int (length starts - 1) * period < X) \<and>
       sum_list (map snd windows) = usage r + total (runStep zn) (recorded (us_ID r)) ls s"
proof -
  have inv: "rollInv zn start period r a X s"
    using row fresh anchor by (intro fresh_rollInv)
  have view: "windowView start usage (us_ID r) s = (a, usage r)"
    using row by (simp add: windowView_def)
  from window show ?thesis
    unfolding isRolling_def
  proof
    assume "(start, usage, period, automatic) = (us_WeeklyWindowStart, us_WeeklyUsageUSD, Week, weeklyAutomatic)"
    then have w: "start = us_WeeklyWindowStart" "usage = us_WeeklyUsageUSD" "period = Week" "automatic = weeklyAutomatic" by simp_all
    note inv' = inv [unfolded w] and run' = run [unfolded w] and view' = view [unfolded w]
    show ?thesis
      using weekly.windows_once [OF inv' _ run'] weekly.ledger_total [OF inv' run'] view' w by (simp add: Let_def)
  next
    assume "(start, usage, period, automatic) = (us_MonthlyWindowStart, us_MonthlyUsageUSD, Month, monthlyAutomatic)"
    then have w: "start = us_MonthlyWindowStart" "usage = us_MonthlyUsageUSD" "period = Month" "automatic = monthlyAutomatic" by simp_all
    note inv' = inv [unfolded w] and run' = run [unfolded w] and view' = view [unfolded w]
    show ?thesis
      using monthly.windows_once [OF inv' _ run'] monthly.ledger_total [OF inv' run'] view' w by (simp add: Let_def)
  qed
qed

section \<open>The daily window\<close>

definition dailyAutomatic :: "int \<Rightarrow> window_step \<Rightarrow> bool" where
  "dailyAutomatic i l = (case l of
     Rewrite sub \<Rightarrow> us_ID sub \<noteq> i | ManualReset j d w m ds ps \<Rightarrow> j = i \<longrightarrow> \<not> d | _ \<Rightarrow> True)"

definition dailyOk :: "int \<Rightarrow> window_step \<Rightarrow> window_sys \<Rightarrow> bool" where
  "dailyOk i l s = dailyAutomatic i l"

definition dailyInv :: "Zones \<Rightarrow> int \<Rightarrow> window_sys \<Rightarrow> bool" where
  "dailyInv zn i s \<longleftrightarrow> civil_midnights (zn_config zn) \<and>
     (\<exists>r w. rowOf i (ws_db s) = Some r \<and> us_DailyWindowStart r = Some w)"

definition nextDay :: "location \<Rightarrow> time \<Rightarrow> time \<Rightarrow> bool" where
  "nextDay loc a b \<longleftrightarrow> a < b \<and> dayOf loc a < dayOf loc b"

lemma daily_advance:
  assumes "civil_midnights (zn_config zn)" and "automaticDailyWindowStartAt zn now sub = Some w'"
    and "us_DailyWindowStart sub = Some w"
  shows "nextDay (zn_config zn) w w'"
proof -
  note civil = civil_midnights.startOfDay_less_iff [OF assms(1)] civil_midnights.startOfDay_later [OF assms(1)]
    civil_midnights.dayOf_midnight [OF assms(1)]
  from assms(2,3) have "startOfDay (zn_config zn) w < startOfDay (zn_config zn) now" "w' = startOfDay (zn_config zn) now"
    by (auto simp: automaticDailyWindowStartAt_def StartOfDay_def Let_def split: if_splits)
  with civil show ?thesis by (simp add: nextDay_def startOfDay_def)
qed

lemma daily_step:
  assumes inv: "dailyInv zn i s" and ok: "dailyOk i l s"
  shows "dailyInv zn i (runStep zn l s) \<and>
    (windowView us_DailyWindowStart us_DailyUsageUSD i (runStep zn l s)
       = (fst (windowView us_DailyWindowStart us_DailyUsageUSD i s),
          snd (windowView us_DailyWindowStart us_DailyUsageUSD i s) + recorded i l s) \<or>
     nextDay (zn_config zn) (fst (windowView us_DailyWindowStart us_DailyUsageUSD i s))
       (fst (windowView us_DailyWindowStart us_DailyUsageUSD i (runStep zn l s))) \<and>
     snd (windowView us_DailyWindowStart us_DailyUsageUSD i (runStep zn l s)) = 0 \<and> recorded i l s = 0)"
proof -
  from inv obtain r w where r: "rowOf i (ws_db s) = Some r" "us_DailyWindowStart r = Some w"
    and civil: "civil_midnights (zn_config zn)"
    by (auto simp: dailyInv_def)
  have charge: "us_DailyWindowStart (chargeRow c r) = us_DailyWindowStart r"
    "us_DailyUsageUSD (chargeRow c r) = us_DailyUsageUSD r + c" for c r
    by (simp_all add: chargeRow_def)
  have move: "us_DailyWindowStart r' = us_DailyWindowStart r \<and> us_DailyUsageUSD r' = us_DailyUsageUSD r \<or>
      (\<exists>w'. nextDay (zn_config zn) w w' \<and> us_DailyWindowStart r' = Some w' \<and> us_DailyUsageUSD r' = 0)"
    if "changes zn i s l r r'" "\<forall>j c. l \<noteq> Charge j c" for r'
    using that r(2) ok daily_advance [OF civil]
    by (cases l) (force simp: IsWindowActivated_def window_rows dailyOk_def dailyAutomatic_def)+
  from r charge move obtain r' w' where "rowOf i (ws_db (runStep zn l s)) = Some r'" "us_DailyWindowStart r' = Some w'"
    "w' = w \<and> us_DailyUsageUSD r' = us_DailyUsageUSD r + recorded i l s \<or>
     nextDay (zn_config zn) w w' \<and> us_DailyUsageUSD r' = 0 \<and> recorded i l s = 0"
    by (rule window_effect)
  with r civil show ?thesis by (auto simp: dailyInv_def windowView_def)
qed

interpretation daily: quota_window "runStep zn" "windowView us_DailyWindowStart us_DailyUsageUSD i" "recorded i"
  "dailyInv zn i" "dailyOk i" "nextDay (zn_config zn)" for zn i
  by unfold_locales (auto simp: nextDay_def dest: daily_step)

text \<open>
  C16: In a zone whose midnights are regular, the daily quota is granted once for a calendar day of
  the configured zone, under the same conditions: the daily windows of a row start on strictly
  increasing days, and every recorded amount is counted in exactly one of them.
\<close>

theorem daily_quota_once:
  assumes zone: "civil_midnights (zn_config zn)"
    and row: "rowOf i (ws_db s) = Some r" "us_DailyWindowStart r = Some a"
    and run: "\<forall>l \<in> set ls. dailyAutomatic i l"
  shows "let windows = ledger (runStep zn) (windowView us_DailyWindowStart us_DailyUsageUSD i) ls s
    in sorted_wrt (<) (map (dayOf (zn_config zn) \<circ> fst) windows) \<and>
       sum_list (map snd windows) = us_DailyUsageUSD r + total (runStep zn) (recorded i) ls s"
proof -
  let ?w = "ledger (runStep zn) (windowView us_DailyWindowStart us_DailyUsageUSD i) ls s"
  have inv: "dailyInv zn i s" using zone row by (simp add: dailyInv_def)
  have ok: "run_ok (runStep zn) (dailyOk i) ls s"
    using run by (induction ls arbitrary: s) (simp_all add: dailyOk_def)
  have "successively (\<lambda>a b. dayOf (zn_config zn) a < dayOf (zn_config zn) b) (map fst ?w)"
    by (rule successively_mono [OF daily.ledger_chain [OF inv ok]]) (simp add: nextDay_def)
  then have "sorted_wrt (<) (map (dayOf (zn_config zn)) (map fst ?w))"
    by (simp add: sorted_wrt_map successively_conv_sorted_wrt transp_def)
  with daily.ledger_total [OF inv ok] row show ?thesis
    by (simp add: Let_def windowView_def comp_def)
qed

section \<open>Examples\<close>

text \<open>A subscription of ten days in UTC, as it is after its first use.\<close>

definition utcZones :: Zones where "utcZones = \<lparr>zn_config = UTC, zn_db = UTC\<rparr>"

definition exampleSub :: UserSubscription where
  "exampleSub =
     \<lparr>us_ID = 1, us_UserID = 7, us_GroupID = 3, us_StartsAt = 738000 * Day + 5 * Hour,
      us_ExpiresAt = 738010 * Day + 5 * Hour, us_Status = SubscriptionStatusActive,
      us_DailyWindowStart = Some (738000 * Day), us_WeeklyWindowStart = Some (738000 * Day + 6 * Hour),
      us_MonthlyWindowStart = Some (738000 * Day + 6 * Hour), us_DailyUsageUSD = 2, us_WeeklyUsageUSD = 2,
      us_MonthlyUsageUSD = 2, us_AssignedBy = None, us_AssignedAt = 738000 * Day, us_Notes = [], us_DeletedAt = None\<rparr>"

definition exampleGroup :: SubscriptionGroup where
  "exampleGroup = \<lparr>gr_ID = 3, gr_Name = ''pro'', gr_Status = ''active'',
     gr_SubscriptionType = ''subscription'', gr_DailyLimitUSD = Some 10,
     gr_WeeklyLimitUSD = Some 30, gr_MonthlyLimitUSD = None\<rparr>"

definition exampleDb :: sub_db where
  "exampleDb = \<lparr>sd_subs = [exampleSub], sd_groups = [exampleGroup], sd_next = 2, sd_faults = []\<rparr>"

definition exampleSys :: window_sys where
  "exampleSys = \<lparr>ws_db = exampleDb, ws_mem = (\<lambda>_. None)\<rparr>"

text \<open>Two requests read the row, eight days later both find the windows due; the second one loses.\<close>

definition exampleRun :: "window_step list" where
  "exampleRun = [Load 0 1, Load 1 1, Charge 1 5, ResetWeekly 0 (738008 * Day), Charge 1 4,
     ResetWeekly 1 (738008 * Day + Hour), ResetDaily 1 (738008 * Day), ResetDaily 0 (738008 * Day + Hour), Charge 1 3]"

lemmas example_defs = utcZones_def exampleSub_def exampleGroup_def exampleDb_def exampleSys_def exampleRun_def

lemma endsBy_code [code]:
  "endsBy i X s = (case rowOf i (ws_db s) of None \<Rightarrow> True | Some r \<Rightarrow> us_ExpiresAt r \<le> X)"
  by (simp add: endsBy_def split: option.split)

lemma example_ledger:
  "ledger (runStep utcZones) (windowView us_WeeklyWindowStart us_WeeklyUsageUSD 1) exampleRun exampleSys =
     [(738000 * Day + 6 * Hour, 7), (738007 * Day + 6 * Hour, 7)]"
  "ledger (runStep utcZones) (windowView us_DailyWindowStart us_DailyUsageUSD 1) exampleRun exampleSys =
     [(738000 * Day, 11), (738008 * Day, 3)]"
  by code_simp+

lemma rolling_quota_once_witness:
  "sum_list (map snd (ledger (runStep utcZones) (windowView us_WeeklyWindowStart us_WeeklyUsageUSD 1) exampleRun exampleSys)) = 14"
proof -
  have "isRolling us_WeeklyWindowStart us_WeeklyUsageUSD Week weeklyAutomatic" by (simp add: isRolling_def)
  moreover have "rowOf (us_ID exampleSub) (ws_db exampleSys) = Some exampleSub" by code_simp
  moreover have "us_WeeklyWindowStart exampleSub = Some (738000 * Day + 6 * Hour)" by (simp add: exampleSub_def)
  moreover have "us_ExpiresAt exampleSub \<le> 738010 * Day + 5 * Hour" by (simp add: exampleSub_def)
  moreover have "startOfDay (zn_db utcZones) (us_StartsAt exampleSub) \<le> 738000 * Day + 6 * Hour" by code_simp
  moreover have "ids_ok (ws_db exampleSys)" by code_simp
  moreover have "ws_mem exampleSys = (\<lambda>_. None)" by (simp add: exampleSys_def)
  moreover have "run_ok (runStep utcZones) (stepOk utcZones weeklyAutomatic (us_ID exampleSub) (738010 * Day + 5 * Hour)) exampleRun exampleSys"
    by code_simp
  ultimately have "sum_list (map snd (ledger (runStep utcZones) (windowView us_WeeklyWindowStart us_WeeklyUsageUSD (us_ID exampleSub))
      exampleRun exampleSys)) = us_WeeklyUsageUSD exampleSub + total (runStep utcZones) (recorded (us_ID exampleSub)) exampleRun exampleSys"
    using rolling_quota_once [of us_WeeklyWindowStart us_WeeklyUsageUSD Week weeklyAutomatic exampleSub exampleSys
        "738000 * Day + 6 * Hour" "738010 * Day + 5 * Hour" utcZones exampleRun] by (simp add: Let_def)
  moreover have "us_WeeklyUsageUSD exampleSub + total (runStep utcZones) (recorded (us_ID exampleSub)) exampleRun exampleSys = 14"
    by code_simp
  moreover have "us_ID exampleSub = 1" by (simp add: exampleSub_def)
  ultimately show ?thesis by simp
qed

lemma daily_quota_once_witness:
  "sorted_wrt (<) (map (dayOf UTC \<circ> fst)
     (ledger (runStep utcZones) (windowView us_DailyWindowStart us_DailyUsageUSD 1) exampleRun exampleSys))"
proof -
  have "rowOf 1 (ws_db exampleSys) = Some exampleSub" by code_simp
  moreover have "us_DailyWindowStart exampleSub = Some (738000 * Day)" by (simp add: exampleSub_def)
  moreover have "\<forall>l \<in> set exampleRun. dailyAutomatic 1 l" by code_simp
  moreover have "civil_midnights (zn_config utcZones)" by (simp add: utcZones_def UTC_midnights)
  ultimately show ?thesis
    using daily_quota_once [of utcZones 1 exampleSys exampleSub "738000 * Day" exampleRun] by (simp add: Let_def utcZones_def)
qed

text \<open>
  Where the clocks go forward at midnight west of Greenwich, \<open>time.Date\<close> answers the day's missing
  midnight with 23:00 of the day before.  The start that a daily reset writes on such a day is then
  of the day before, so the window is due again at once: on that day every request zeroes the daily
  usage, and the daily limit does not hold.  The zone here goes from UTC-3 to UTC-2 at such a midnight.
\<close>

definition gapZones :: Zones where
  "gapZones = \<lparr>zn_config = (\<lambda>s. if s < 738005 * 86400 + 3 * 3600 then -3 * 3600 else -2 * 3600), zn_db = UTC\<rparr>"

lemma daily_quota_repeats_in_gap:
  "ledger (runStep gapZones) (windowView us_DailyWindowStart us_DailyUsageUSD 1)
     [Load 0 1, ResetDaily 0 (738005 * Day + 15 * Hour), Charge 1 9, Load 0 1, ResetDaily 0 (738005 * Day + 16 * Hour)] exampleSys
     = [(738000 * Day, 2), (738005 * Day + 2 * Hour, 0)]"
  "map (\<lambda>l. automaticDailyWindowStartAt gapZones (738005 * Day + l * Hour)
       (exampleSub\<lparr>us_DailyWindowStart := Some (738005 * Day + 2 * Hour)\<rparr>)) [4, 12, 20]
     = replicate 3 (Some (738005 * Day + 2 * Hour))"
  by code_simp+

text \<open>
  A manual reset of one window of a subscription that was never used starts that window only.  The
  subscription then counts as activated, so the other windows are never started, no step resets
  them, and their usage adds up until the end of the term.
\<close>

lemma partial_reset_is_final:
  assumes r: "rowOf i (ws_db s) = Some r" and "us_WeeklyWindowStart r = None" and "IsWindowActivated r"
    and auto: "weeklyAutomatic i l"
  obtains r' where "rowOf i (ws_db (runStep zn l s)) = Some r'" and "us_WeeklyWindowStart r' = None" and "IsWindowActivated r'"
    and "(\<exists>c. l = Charge i c) \<or> us_WeeklyUsageUSD r' = us_WeeklyUsageUSD r"
proof -
  from r obtain r' where "rowOf i (ws_db (runStep zn l s)) = Some r'" "r' = r \<or> changes zn i s l r r'"
    by (rule step_row)
  moreover have "us_WeeklyWindowStart r' = None \<and> IsWindowActivated r' \<and>
      ((\<exists>c. l = Charge i c) \<or> us_WeeklyUsageUSD r' = us_WeeklyUsageUSD r)" if "changes zn i s l r r'"
    using that assms
    by (cases l) (force simp: IsWindowActivated_def window_rows chargeRow_def weeklyAutomatic_def automaticWindowStartAt_def)+
  ultimately show thesis using that assms by blast
qed

end
