(* ===== verification/Subscription_Admission.thy ===== *)
theory Subscription_Admission
  imports Subscription_Quotas
begin

text \<open>
  The check of a request against its subscription when nobody interferes and no statement fails:
  the maintenance leaves nothing due, and the request is judged by the windows as they are then.
\<close>

section \<open>Maintenance of a row\<close>

text \<open>A table whose statements succeed, with \<open>sub\<close> as the row of its identifier.\<close>

definition holds :: "UserSubscription \<Rightarrow> sub_db \<Rightarrow> bool" where
  "holds sub db \<longleftrightarrow> sd_faults db = [] \<and> ids_ok db \<and> rowOf (us_ID sub) db = Some sub \<and> visible sub"

lemma sql_healthy: "sd_faults db = [] \<Longrightarrow> sql f db = f db"
  by (cases db) (simp add: sql_def)

lemma filter_ID:
  assumes "ids_ok db" and "rowOf i db = Some r"
  shows "filter (\<lambda>x. us_ID x = i \<and> p x) (sd_subs db) = (if p r then [r] else [])"
proof -
  have "distinct (map us_ID xs) \<Longrightarrow> find (\<lambda>x. us_ID x = i) xs = Some r \<Longrightarrow>
      filter (\<lambda>x. us_ID x = i \<and> p x) xs = (if p r then [r] else [])" for xs
    by (induction xs) (auto simp: filter_empty_conv image_iff split: if_splits)
  then show ?thesis using assms by (simp add: ids_ok_def rowOf_def)
qed

lemma holds_GetByID: "holds sub db \<Longrightarrow> GetByID (us_ID sub) db = (Inr sub, db)"
  by (simp add: holds_def GetByID_def onlyRow_def sql_healthy filter_ID)

lemma holds_setRows:
  assumes "holds sub db" and "p sub" and "\<And>r. us_ID (f r) = us_ID r" and "us_DeletedAt (f sub) = us_DeletedAt sub"
  shows "holds (f sub) (setRows p f db)"
  using assms ids_ok_setRows [of f db p] rowOf_setRows [of f "us_ID sub" p db]
  by (simp add: holds_def visible_def setRows_def)

lemma holds_conditional:
  assumes "holds sub db" and "p sub" and "\<And>r. us_ID (f r) = us_ID r" and "us_DeletedAt (f sub) = us_DeletedAt sub"
  shows "\<exists>db'. translateConditionalWindowReset (us_ID sub) (updateWhere (\<lambda>r. us_ID r = us_ID sub \<and> p r) f) db
      = (Inr (), db') \<and> holds (f sub) db'"
proof -
  have "filter (\<lambda>r. us_ID r = us_ID sub \<and> p r) (sd_subs db) = [sub]"
    using assms(1,2) by (simp add: holds_def filter_ID)
  with holds_setRows [of sub db "\<lambda>r. us_ID r = us_ID sub \<and> p r" f] assms show ?thesis
    by (simp add: translateConditionalWindowReset_def andThen_def updateWhere_def sql_healthy holds_def succeed_def)
qed

text \<open>The row that the three blocks of \<open>CheckAndResetWindows\<close> leave, each on the row before it.\<close>

definition advanceDaily :: "Zones \<Rightarrow> time \<Rightarrow> UserSubscription \<Rightarrow> UserSubscription" where
  "advanceDaily zn now sub = (case automaticDailyWindowStartAt zn now sub of
     None \<Rightarrow> sub | Some w \<Rightarrow> resetDailyRow w sub)"

definition advanceWeekly :: "Zones \<Rightarrow> time \<Rightarrow> UserSubscription \<Rightarrow> UserSubscription" where
  "advanceWeekly zn now sub = (case automaticWindowStartAt zn sub (us_WeeklyWindowStart sub) Week now of
     None \<Rightarrow> sub | Some w \<Rightarrow> resetWeeklyRow w sub)"

definition advanceMonthly :: "Zones \<Rightarrow> time \<Rightarrow> UserSubscription \<Rightarrow> UserSubscription" where
  "advanceMonthly zn now sub = (case automaticWindowStartAt zn sub (us_MonthlyWindowStart sub) Month now of
     None \<Rightarrow> sub | Some w \<Rightarrow> resetMonthlyRow w sub)"

definition advanceAll :: "Zones \<Rightarrow> time \<Rightarrow> UserSubscription \<Rightarrow> UserSubscription" where
  "advanceAll zn now sub = advanceMonthly zn now (advanceWeekly zn now (advanceDaily zn now sub))"

lemmas advance_defs = advanceDaily_def advanceWeekly_def advanceMonthly_def

lemma holds_due:
  assumes "holds sub db"
  shows "\<exists>db'. resetDailyIfDue zn now sub db = (Inr (advanceDaily zn now sub), db') \<and> holds (advanceDaily zn now sub) db'"
    and "\<exists>db'. resetWeeklyIfDue zn now sub db = (Inr (advanceWeekly zn now sub), db') \<and> holds (advanceWeekly zn now sub) db'"
    and "\<exists>db'. resetMonthlyIfDue zn now sub db = (Inr (advanceMonthly zn now sub), db') \<and> holds (advanceMonthly zn now sub) db'"
proof -
  note c = holds_conditional [OF assms]
  show "\<exists>db'. resetDailyIfDue zn now sub db = (Inr (advanceDaily zn now sub), db') \<and> holds (advanceDaily zn now sub) db'"
    using c [of "\<lambda>r. us_DailyWindowStart r = us_DailyWindowStart sub" "resetDailyRow (the (automaticDailyWindowStartAt zn now sub))"] assms
    by (auto simp: resetDailyIfDue_def advanceDaily_def ResetDailyUsage_def andThen_def succeed_def resetDailyRow_def split: option.split)
  show "\<exists>db'. resetWeeklyIfDue zn now sub db = (Inr (advanceWeekly zn now sub), db') \<and> holds (advanceWeekly zn now sub) db'"
    using c [of "\<lambda>r. us_WeeklyWindowStart r = us_WeeklyWindowStart sub"
        "resetWeeklyRow (the (automaticWindowStartAt zn sub (us_WeeklyWindowStart sub) Week now))"] assms
    by (auto simp: resetWeeklyIfDue_def advanceWeekly_def ResetWeeklyUsage_def andThen_def succeed_def resetWeeklyRow_def split: option.split)
  show "\<exists>db'. resetMonthlyIfDue zn now sub db = (Inr (advanceMonthly zn now sub), db') \<and> holds (advanceMonthly zn now sub) db'"
    using c [of "\<lambda>r. us_MonthlyWindowStart r = us_MonthlyWindowStart sub"
        "resetMonthlyRow (the (automaticWindowStartAt zn sub (us_MonthlyWindowStart sub) Month now))"] assms
    by (auto simp: resetMonthlyIfDue_def advanceMonthly_def ResetMonthlyUsage_def andThen_def succeed_def resetMonthlyRow_def split: option.split)
qed

lemma holds_CheckAndResetWindows:
  assumes "holds sub db"
  shows "\<exists>db'. CheckAndResetWindows zn now sub db = (Inr (advanceAll zn now sub), db') \<and> holds (advanceAll zn now sub) db'"
proof -
  obtain db1 where 1: "resetDailyIfDue zn now sub db = (Inr (advanceDaily zn now sub), db1)"
    "holds (advanceDaily zn now sub) db1" using holds_due(1) [OF assms] by blast
  obtain db2 where 2: "resetWeeklyIfDue zn now (advanceDaily zn now sub) db1
      = (Inr (advanceWeekly zn now (advanceDaily zn now sub)), db2)"
    "holds (advanceWeekly zn now (advanceDaily zn now sub)) db2" using holds_due(2) [OF 1(2)] by blast
  from holds_due(3) [OF 2(2)] 1(1) 2(1) show ?thesis
    by (simp add: CheckAndResetWindows_def andThen_def advanceAll_def)
qed

section \<open>An advanced window is not due again\<close>

text \<open>The times that matter lie within the range of a \<open>time.Duration\<close> (292 years) of each other.\<close>

definition closeTo :: "time \<Rightarrow> UserSubscription \<Rightarrow> time \<Rightarrow> bool" where
  "closeTo now sub t \<longleftrightarrow> \<bar>now - t\<bar> \<le> maxDuration \<and> \<bar>us_ExpiresAt sub - t\<bar> \<le> maxDuration"

definition inRange :: "time \<Rightarrow> UserSubscription \<Rightarrow> bool" where
  "inRange now sub \<longleftrightarrow> closeTo now sub (us_StartsAt sub) \<and>
     (\<forall>t \<in> set_option (us_WeeklyWindowStart sub) \<union> set_option (us_MonthlyWindowStart sub). closeTo now sub t)"

lemma rolling_settles:
  assumes adv: "automaticWindowStartAt zn sub (Some t) period now = Some w" and period: "0 < period" "period < maxDuration"
    and near: "closeTo now sub t" "closeTo now sub (us_StartsAt sub)"
    and same: "us_StartsAt sub' = us_StartsAt sub" "us_ExpiresAt sub' = us_ExpiresAt sub"
  shows "automaticWindowStartAt zn sub' (Some w) period now = None"
proof -
  let ?a = "windowResetAnchor zn sub t"
  have "closeTo now sub ?a" using near by (simp add: windowResetAnchor_def Let_def)
  with adv period have "now < w + period \<or> us_ExpiresAt sub \<le> w + period"
    by (elim automaticWindowStartAt_Some) (simp_all add: closeTo_def)
  moreover have "w \<le> windowResetAnchor zn sub' w" by (rule windowResetAnchor_ge)
  ultimately show ?thesis
    using same by (auto simp: automaticWindowStartAt_def Let_def)
qed

lemma automaticWindowStartAt_cong:
  assumes "us_StartsAt s = us_StartsAt s'" and "us_ExpiresAt s = us_ExpiresAt s'"
  shows "automaticWindowStartAt zn s = automaticWindowStartAt zn s'"
  by (intro ext) (simp only: automaticWindowStartAt_def assms windowResetAnchor_cong [OF assms(1)])

lemma automaticDaily_cong:
  assumes "us_StartsAt s = us_StartsAt s'" and "us_ExpiresAt s = us_ExpiresAt s'"
    and "us_DailyWindowStart s = us_DailyWindowStart s'"
  shows "automaticDailyWindowStartAt zn now s = automaticDailyWindowStartAt zn now s'"
  by (simp only: automaticDailyWindowStartAt_def HasOneTimeDailyQuota_def assms)

lemma daily_settles:
  assumes "civil_midnights (zn_config zn)" and "automaticDailyWindowStartAt zn now sub = Some w"
    and "us_DailyWindowStart sub' = Some w"
  shows "automaticDailyWindowStartAt zn now sub' = None"
  using assms civil_midnights.startOfDay_idem [OF assms(1)]
  by (auto simp: automaticDailyWindowStartAt_def StartOfDay_def Let_def split: option.splits if_splits)

lemma advance_fields [simp]:
  "us_ID (advanceDaily zn now s) = us_ID s" "us_ID (advanceWeekly zn now s) = us_ID s" "us_ID (advanceMonthly zn now s) = us_ID s"
  "us_StartsAt (advanceDaily zn now s) = us_StartsAt s" "us_StartsAt (advanceWeekly zn now s) = us_StartsAt s"
  "us_StartsAt (advanceMonthly zn now s) = us_StartsAt s"
  "us_ExpiresAt (advanceDaily zn now s) = us_ExpiresAt s" "us_ExpiresAt (advanceWeekly zn now s) = us_ExpiresAt s"
  "us_ExpiresAt (advanceMonthly zn now s) = us_ExpiresAt s"
  "us_Status (advanceDaily zn now s) = us_Status s" "us_Status (advanceWeekly zn now s) = us_Status s"
  "us_Status (advanceMonthly zn now s) = us_Status s"
  "us_DailyWindowStart (advanceWeekly zn now s) = us_DailyWindowStart s"
  "us_DailyWindowStart (advanceMonthly zn now s) = us_DailyWindowStart s"
  "us_DailyUsageUSD (advanceWeekly zn now s) = us_DailyUsageUSD s"
  "us_DailyUsageUSD (advanceMonthly zn now s) = us_DailyUsageUSD s"
  "us_WeeklyWindowStart (advanceDaily zn now s) = us_WeeklyWindowStart s"
  "us_WeeklyWindowStart (advanceMonthly zn now s) = us_WeeklyWindowStart s"
  "us_WeeklyUsageUSD (advanceDaily zn now s) = us_WeeklyUsageUSD s"
  "us_WeeklyUsageUSD (advanceMonthly zn now s) = us_WeeklyUsageUSD s"
  "us_MonthlyWindowStart (advanceDaily zn now s) = us_MonthlyWindowStart s"
  "us_MonthlyWindowStart (advanceWeekly zn now s) = us_MonthlyWindowStart s"
  "us_MonthlyUsageUSD (advanceDaily zn now s) = us_MonthlyUsageUSD s"
  "us_MonthlyUsageUSD (advanceWeekly zn now s) = us_MonthlyUsageUSD s"
  by (simp_all add: advance_defs resetDailyRow_def resetWeeklyRow_def resetMonthlyRow_def split: option.split)

text \<open>The usage of the advanced row is the usage that the first check counts.\<close>

lemma advance_usage:
  "us_DailyUsageUSD (advanceDaily zn now s) = us_DailyUsageUSD (zeroDueUsage zn now s)"
  "us_WeeklyUsageUSD (advanceWeekly zn now s) = us_WeeklyUsageUSD (zeroDueUsage zn now s)"
  "us_MonthlyUsageUSD (advanceMonthly zn now s) = us_MonthlyUsageUSD (zeroDueUsage zn now s)"
  by (simp_all add: advance_defs zeroDueUsage_def canAutomaticallyResetDailyAt_def canAutomaticallyResetWeeklyAt_def
        canAutomaticallyResetMonthlyAt_def resetDailyRow_def resetWeeklyRow_def resetMonthlyRow_def split: option.split)

lemma advance_cong:
  assumes "us_StartsAt s = us_StartsAt s'" and "us_ExpiresAt s = us_ExpiresAt s'"
  shows "us_WeeklyWindowStart s = us_WeeklyWindowStart s' \<Longrightarrow>
      us_WeeklyWindowStart (advanceWeekly zn now s) = us_WeeklyWindowStart (advanceWeekly zn now s')"
    and "us_WeeklyWindowStart s = us_WeeklyWindowStart s' \<Longrightarrow> us_WeeklyUsageUSD s = us_WeeklyUsageUSD s' \<Longrightarrow>
      us_WeeklyUsageUSD (advanceWeekly zn now s) = us_WeeklyUsageUSD (advanceWeekly zn now s')"
    and "us_MonthlyWindowStart s = us_MonthlyWindowStart s' \<Longrightarrow>
      us_MonthlyWindowStart (advanceMonthly zn now s) = us_MonthlyWindowStart (advanceMonthly zn now s')"
    and "us_MonthlyWindowStart s = us_MonthlyWindowStart s' \<Longrightarrow> us_MonthlyUsageUSD s = us_MonthlyUsageUSD s' \<Longrightarrow>
      us_MonthlyUsageUSD (advanceMonthly zn now s) = us_MonthlyUsageUSD (advanceMonthly zn now s')"
  by (simp_all add: advanceWeekly_def advanceMonthly_def automaticWindowStartAt_cong [OF assms]
        resetWeeklyRow_def resetMonthlyRow_def split: option.split)

lemma advance_later:
  "us_WeeklyUsageUSD (advanceWeekly zn now (advanceDaily zn now s)) = us_WeeklyUsageUSD (advanceWeekly zn now s)"
  "us_MonthlyUsageUSD (advanceMonthly zn now (advanceWeekly zn now (advanceDaily zn now s))) = us_MonthlyUsageUSD (advanceMonthly zn now s)"
  "us_WeeklyWindowStart (advanceWeekly zn now (advanceDaily zn now s)) = us_WeeklyWindowStart (advanceWeekly zn now s)"
  "us_MonthlyWindowStart (advanceMonthly zn now (advanceWeekly zn now (advanceDaily zn now s))) = us_MonthlyWindowStart (advanceMonthly zn now s)"
  by (rule advance_cong; simp)+

lemma advanceAll_usage:
  "us_DailyUsageUSD (advanceAll zn now s) = us_DailyUsageUSD (zeroDueUsage zn now s)"
  "us_WeeklyUsageUSD (advanceAll zn now s) = us_WeeklyUsageUSD (zeroDueUsage zn now s)"
  "us_MonthlyUsageUSD (advanceAll zn now s) = us_MonthlyUsageUSD (zeroDueUsage zn now s)"
  unfolding advanceAll_def advance_fields advance_later by (rule advance_usage)+

lemma CheckUsageLimits_cong:
  assumes "us_DailyUsageUSD s = us_DailyUsageUSD s'" and "us_WeeklyUsageUSD s = us_WeeklyUsageUSD s'"
    and "us_MonthlyUsageUSD s = us_MonthlyUsageUSD s'"
  shows "CheckUsageLimits g c s = CheckUsageLimits g c s'"
  using assms by (simp add: CheckUsageLimits_def CheckDailyLimit_def CheckWeeklyLimit_def CheckMonthlyLimit_def)

lemma advanceAll_settled:
  assumes civil: "civil_midnights (zn_config zn)" and near: "inRange now sub" and active: "IsWindowActivated sub"
  shows "\<not> maintenanceDue zn now (advanceAll zn now sub)"
proof -
  let ?s = "advanceAll zn now sub"
  have same: "us_StartsAt ?s = us_StartsAt sub" "us_ExpiresAt ?s = us_ExpiresAt sub" by (simp_all add: advanceAll_def)
  have "automaticDailyWindowStartAt zn now ?s = None"
  proof (cases "automaticDailyWindowStartAt zn now sub")
    case None
    then have "advanceDaily zn now sub = sub" by (simp add: advanceDaily_def)
    then have "us_DailyWindowStart ?s = us_DailyWindowStart sub" by (simp add: advanceAll_def)
    with None same show ?thesis using automaticDaily_cong [of ?s sub] by simp
  next
    case (Some w)
    then have "us_DailyWindowStart ?s = Some w" by (simp add: advanceAll_def advanceDaily_def resetDailyRow_def)
    with civil Some show ?thesis by (rule daily_settles)
  qed
  moreover have "automaticWindowStartAt zn ?s (us_WeeklyWindowStart ?s) Week now = None"
  proof (cases "automaticWindowStartAt zn sub (us_WeeklyWindowStart sub) Week now")
    case None
    then have "us_WeeklyWindowStart ?s = us_WeeklyWindowStart sub" 
      by (simp only: advanceAll_def advance_fields advance_later) (simp add: advanceWeekly_def)
    with None automaticWindowStartAt_cong [OF same] show ?thesis by simp
  next
    case (Some w)
    then obtain t where t: "us_WeeklyWindowStart sub = Some t" by (cases "us_WeeklyWindowStart sub") (simp_all add: automaticWindowStartAt_def)
    from Some have "us_WeeklyWindowStart ?s = Some w" 
      by (simp only: advanceAll_def advance_fields advance_later) (simp add: advanceWeekly_def resetWeeklyRow_def)
    then show ?thesis
      using rolling_settles [OF Some [unfolded t] Week_bounds _ _ same] near t by (simp add: inRange_def)
  qed
  moreover have "automaticWindowStartAt zn ?s (us_MonthlyWindowStart ?s) Month now = None"
  proof (cases "automaticWindowStartAt zn sub (us_MonthlyWindowStart sub) Month now")
    case None
    then have "us_MonthlyWindowStart ?s = us_MonthlyWindowStart sub" 
      by (simp only: advanceAll_def advance_fields advance_later) (simp add: advanceMonthly_def)
    with None automaticWindowStartAt_cong [OF same] show ?thesis by simp
  next
    case (Some w)
    then obtain t where t: "us_MonthlyWindowStart sub = Some t" by (cases "us_MonthlyWindowStart sub") (simp_all add: automaticWindowStartAt_def)
    from Some have "us_MonthlyWindowStart ?s = Some w" 
      by (simp only: advanceAll_def advance_fields advance_later) (simp add: advanceMonthly_def resetMonthlyRow_def)
    then show ?thesis
      using rolling_settles [OF Some [unfolded t] Month_bounds _ _ same] near t by (simp add: inRange_def)
  qed
  moreover have "IsWindowActivated ?s"
    using active
    by (auto simp: IsWindowActivated_def advanceAll_def advance_defs resetDailyRow_def resetWeeklyRow_def resetMonthlyRow_def
        split: option.split)
  ultimately show ?thesis
    by (simp add: maintenanceDue_def canAutomaticallyResetDailyAt_def canAutomaticallyResetWeeklyAt_def
        canAutomaticallyResetMonthlyAt_def)
qed

section \<open>A first request\<close>

definition activatedAt :: "Zones \<Rightarrow> time \<Rightarrow> UserSubscription \<Rightarrow> UserSubscription" where
  "activatedAt zn now sub = sub\<lparr>us_DailyWindowStart := Some (StartOfDay (zn_config zn) now),
     us_WeeklyWindowStart := Some now, us_MonthlyWindowStart := Some now\<rparr>"

lemma activated_settled:
  assumes "civil_midnights (zn_config zn)"
  shows "\<not> maintenanceDue zn now (activatedAt zn now sub)"
proof -
  have "automaticWindowStartAt zn s (Some now) period now = None" if "0 < period" for s period
    using windowResetAnchor_ge [of now zn s] that by (auto simp: automaticWindowStartAt_def Let_def)
  then show ?thesis
    using civil_midnights.startOfDay_idem [OF assms, of now]
    by (simp add: maintenanceDue_def canAutomaticallyResetDailyAt_def canAutomaticallyResetWeeklyAt_def
        canAutomaticallyResetMonthlyAt_def activatedAt_def automaticDailyWindowStartAt_def StartOfDay_def IsWindowActivated_def Let_def)
qed

lemma holds_activate:
  assumes "holds sub db" and "\<not> IsWindowActivated sub"
  shows "\<exists>db'. CheckAndActivateWindow zn now sub db = (Inr (), db') \<and> holds (activatedAt zn now sub) db'"
  using holds_conditional [OF assms(1), of "\<lambda>r. us_DailyWindowStart r = None \<and> us_WeeklyWindowStart r = None \<and>
      us_MonthlyWindowStart r = None" "activatedAt zn now"] assms(2)
  by (simp add: CheckAndActivateWindow_def ActivateWindows_def IsWindowActivated_def activatedAt_def [abs_def])

lemma inactive_advance: "\<not> IsWindowActivated sub \<Longrightarrow> advanceAll zn now sub = sub"
  by (simp add: IsWindowActivated_def advanceAll_def advance_defs automaticDailyWindowStartAt_def automaticWindowStartAt_def)

text \<open>The row after \<open>EnsureWindowMaintenance\<close>.\<close>

definition maintained :: "Zones \<Rightarrow> time \<Rightarrow> UserSubscription \<Rightarrow> UserSubscription" where
  "maintained zn now sub = (if IsWindowActivated sub then advanceAll zn now sub else activatedAt zn now sub)"

lemma holds_ensure:
  assumes "holds sub db"
  shows "\<exists>db'. EnsureWindowMaintenance zn now now sub db = (Inr (maintained zn now sub), db') \<and> holds (maintained zn now sub) db'"
proof (cases "IsWindowActivated sub")
  case True
  from holds_CheckAndResetWindows [OF assms, of zn now] obtain db' where
    "CheckAndResetWindows zn now sub db = (Inr (advanceAll zn now sub), db')" "holds (advanceAll zn now sub) db'" by blast
  with True holds_GetByID [of "advanceAll zn now sub" db'] show ?thesis
    by (simp add: EnsureWindowMaintenance_def andThen_def succeed_def maintained_def)
next
  case False
  from holds_activate [OF assms False, of zn now] obtain db' where
    1: "CheckAndActivateWindow zn now sub db = (Inr (), db')" "holds (activatedAt zn now sub) db'" by blast
  have "CheckAndResetWindows zn now sub db' = (Inr sub, db')"
    using False by (simp add: CheckAndResetWindows_def resetDailyIfDue_def resetWeeklyIfDue_def resetMonthlyIfDue_def
        automaticDailyWindowStartAt_def automaticWindowStartAt_def IsWindowActivated_def andThen_def succeed_def)
  with 1 False holds_GetByID [of "activatedAt zn now sub" db'] show ?thesis
    by (simp add: EnsureWindowMaintenance_def andThen_def maintained_def activatedAt_def)
qed

text \<open>The usage of the copy plays no part: the first check has zeroed it.\<close>

definition sameWindows :: "UserSubscription \<Rightarrow> UserSubscription \<Rightarrow> bool" where
  "sameWindows s s' \<longleftrightarrow> us_ID s = us_ID s' \<and> us_StartsAt s = us_StartsAt s' \<and> us_ExpiresAt s = us_ExpiresAt s' \<and>
     us_DailyWindowStart s = us_DailyWindowStart s' \<and> us_WeeklyWindowStart s = us_WeeklyWindowStart s' \<and>
     us_MonthlyWindowStart s = us_MonthlyWindowStart s'"

definition agrees :: "UserSubscription db_op \<Rightarrow> UserSubscription db_op \<Rightarrow> bool" where
  "agrees m m' \<longleftrightarrow> (\<forall>db. rel_prod (rel_sum (=) sameWindows) (=) (m db) (m' db))"

lemma agrees_succeed: "sameWindows s s' \<Longrightarrow> agrees (succeed s) (succeed s')"
  by (simp add: agrees_def succeed_def)

lemma agrees_andThen:
  assumes "agrees m m'" and "\<And>s s'. sameWindows s s' \<Longrightarrow> agrees (k s) (k' s')"
  shows "agrees (andThen m k) (andThen m' k')"
  unfolding agrees_def
proof
  fix db
  from assms(1) have "rel_prod (rel_sum (=) sameWindows) (=) (m db) (m' db)" by (simp add: agrees_def)
  then show "rel_prod (rel_sum (=) sameWindows) (=) (andThen m k db) (andThen m' k' db)"
    using assms(2) by (cases "m db"; cases "m' db") (auto simp: andThen_def agrees_def elim!: rel_sum.cases)
qed

lemma agrees_same: "(\<And>x. agrees (k x) (k' x)) \<Longrightarrow> agrees (andThen m k) (andThen m k')"
  by (auto simp: agrees_def andThen_def split: prod.split sum.split)

lemma agrees_due:
  assumes "sameWindows s s'"
  shows "agrees (resetDailyIfDue zn now s) (resetDailyIfDue zn now s')"
    and "agrees (resetWeeklyIfDue zn now s) (resetWeeklyIfDue zn now s')"
    and "agrees (resetMonthlyIfDue zn now s) (resetMonthlyIfDue zn now s')"
proof -
  have e: "us_ID s = us_ID s'" "us_StartsAt s = us_StartsAt s'" "us_ExpiresAt s = us_ExpiresAt s'"
    "us_DailyWindowStart s = us_DailyWindowStart s'" "us_WeeklyWindowStart s = us_WeeklyWindowStart s'"
    "us_MonthlyWindowStart s = us_MonthlyWindowStart s'"
    using assms by (simp_all add: sameWindows_def)
  show "agrees (resetDailyIfDue zn now s) (resetDailyIfDue zn now s')"
    unfolding resetDailyIfDue_def e automaticDaily_cong [OF e(2,3,4)] using assms
    by (auto intro!: agrees_same agrees_succeed simp: sameWindows_def resetDailyRow_def split: option.split)
  show "agrees (resetWeeklyIfDue zn now s) (resetWeeklyIfDue zn now s')"
    unfolding resetWeeklyIfDue_def e automaticWindowStartAt_cong [OF e(2,3)] using assms
    by (auto intro!: agrees_same agrees_succeed simp: sameWindows_def resetWeeklyRow_def split: option.split)
  show "agrees (resetMonthlyIfDue zn now s) (resetMonthlyIfDue zn now s')"
    unfolding resetMonthlyIfDue_def e automaticWindowStartAt_cong [OF e(2,3)] using assms
    by (auto intro!: agrees_same agrees_succeed simp: sameWindows_def resetMonthlyRow_def split: option.split)
qed

lemma agrees_reset: "sameWindows s s' \<Longrightarrow> agrees (CheckAndResetWindows zn now s) (CheckAndResetWindows zn now s')"
  unfolding CheckAndResetWindows_def by (intro agrees_andThen agrees_due)

lemma EnsureWindowMaintenance_copy:
  assumes "sameWindows s s'"
  shows "EnsureWindowMaintenance zn now now' s db = EnsureWindowMaintenance zn now now' s' db"
proof -
  have 1: "CheckAndActivateWindow zn now s = CheckAndActivateWindow zn now s'" "IsWindowActivated s = IsWindowActivated s'"
    using assms by (simp_all add: sameWindows_def CheckAndActivateWindow_def IsWindowActivated_def)
  have "andThen (CheckAndResetWindows zn now' s) (\<lambda>sub. GetByID (us_ID sub))
      = andThen (CheckAndResetWindows zn now' s') (\<lambda>sub. GetByID (us_ID sub))"
  proof
    fix db
    have "rel_prod (rel_sum (=) sameWindows) (=) (CheckAndResetWindows zn now' s db) (CheckAndResetWindows zn now' s' db)"
      using agrees_reset [OF assms] by (simp add: agrees_def)
    then show "andThen (CheckAndResetWindows zn now' s) (\<lambda>sub. GetByID (us_ID sub)) db
        = andThen (CheckAndResetWindows zn now' s') (\<lambda>sub. GetByID (us_ID sub)) db"
      by (cases "CheckAndResetWindows zn now' s db"; cases "CheckAndResetWindows zn now' s' db")
         (auto simp: andThen_def sameWindows_def elim!: rel_sum.cases)
  qed
  with 1 show ?thesis by (simp add: EnsureWindowMaintenance_def)
qed

text \<open>
  C15: Maintenance and the check of a request agree.  A request holds a copy that equals the row of
  the table, no statement fails and nobody else touches the row; all steps read the same time, the
  configured zone has regular midnights, and the times lie within 292 years of each other.  The copy
  is checked with the usage of its due windows counted as zero.  When the maintenance then runs,
  nothing is due in the row it returns, that row is the one in the table, the second check gives the
  verdict of the first, and so the middleware admits the request exactly if the first check accepts it.
\<close>

theorem maintenance_settles:
  assumes civil: "civil_midnights (zn_config zn)" and sub: "holds sub db" and near: "inRange now sub"
    and verdict: "snd (fst (ValidateAndCheckLimits zn now g sub)) = v"
  shows "\<exists>sub' db'. EnsureWindowMaintenance zn now now sub db = (Inr sub', db') \<and> holds sub' db' \<and>
    \<not> maintenanceDue zn now sub' \<and> snd (fst (ValidateAndCheckLimits zn now g sub')) = v \<and>
    fst (admitRequest zn now now now now g sub db) = (case v of None \<Rightarrow> Admitted | Some e \<Rightarrow> Refused e)"
proof -
  let ?s = "maintained zn now sub"
  obtain db' where db': "EnsureWindowMaintenance zn now now sub db = (Inr ?s, db')" "holds ?s db'"
    using holds_ensure [OF sub] by blast
  have settled: "\<not> maintenanceDue zn now ?s"
    using advanceAll_settled [OF civil near] activated_settled [OF civil] by (simp add: maintained_def)
  have same: "us_Status ?s = us_Status sub" "us_ExpiresAt ?s = us_ExpiresAt sub"
    by (simp_all add: maintained_def advanceAll_def activatedAt_def)
  have zero: "zeroDueUsage zn now ?s = ?s"
    using settled by (simp add: maintenanceDue_def zeroDueUsage_def)
  have "CheckUsageLimits g 0 ?s = CheckUsageLimits g 0 (zeroDueUsage zn now sub)"
  proof (cases "IsWindowActivated sub")
    case True
    then show ?thesis by (intro CheckUsageLimits_cong) (simp_all add: maintained_def advanceAll_usage)
  next
    case False
    have "zeroDueUsage zn now sub = zeroDueUsage zn now (advanceAll zn now sub)"
      using inactive_advance [OF False] by simp
    with False show ?thesis
      by (intro CheckUsageLimits_cong)
         (simp_all add: maintained_def activatedAt_def zeroDueUsage_def canAutomaticallyResetDailyAt_def
            canAutomaticallyResetWeeklyAt_def canAutomaticallyResetMonthlyAt_def IsWindowActivated_def
            automaticDailyWindowStartAt_def automaticWindowStartAt_def)
  qed
  then have "snd (fst (ValidateAndCheckLimits zn now g ?s)) = snd (fst (ValidateAndCheckLimits zn now g sub))"
    by (simp add: ValidateAndCheckLimits_def Let_def same zero)
  with verdict have second: "snd (fst (ValidateAndCheckLimits zn now g ?s)) = v" by simp
  then have "fst (admitRequest zn now now now now g sub db) = (case v of None \<Rightarrow> Admitted | Some e \<Rightarrow> Refused e)"
  proof -
    have copy: "EnsureWindowMaintenance zn now now (zeroDueUsage zn now sub) db = (Inr ?s, db')"
      using db'(1) EnsureWindowMaintenance_copy [of "zeroDueUsage zn now sub" sub]
      by (simp add: sameWindows_def zeroDueUsage_def)
    obtain b s' where first: "ValidateAndCheckLimits zn now g sub = ((b, v), s')"
      using verdict by (metis prod.collapse)
    then have "b \<Longrightarrow> s' = zeroDueUsage zn now sub"
      by (auto simp: ValidateAndCheckLimits_def Let_def split: if_splits)
    with copy second show ?thesis
      by (cases b) (simp_all add: admitRequest_def first)
  qed
  with db' settled second show ?thesis by blast
qed

end
