(* ===== verification/Subscription_Terms.thy ===== *)
theory Subscription_Terms
  imports Subscription_Admission
begin

text \<open>
  The operations of \<open>service/subscription_service.go\<close> on the whole table: what every one of them
  keeps, whichever statements fail, and two requests that assign the same expired subscription.
\<close>

section \<open>Operations with results\<close>

text \<open>From a table with \<open>P\<close>, \<open>m\<close> leaves one with \<open>P\<close>, and a result has \<open>Q\<close>.\<close>

definition gives :: "(sub_db \<Rightarrow> bool) \<Rightarrow> ('a \<Rightarrow> bool) \<Rightarrow> 'a db_op \<Rightarrow> bool" where
  "gives P Q m \<longleftrightarrow> (\<forall>db. P db \<longrightarrow> P (snd (m db)) \<and> (\<forall>x. fst (m db) = Inr x \<longrightarrow> Q x))"

lemma gives_keeps: "gives P (\<lambda>_. True) m \<longleftrightarrow> keeps P m"
  by (simp add: gives_def keeps_def)

lemma gives_mono: "gives P Q m \<Longrightarrow> (\<And>x. Q x \<Longrightarrow> R x) \<Longrightarrow> gives P R m"
  by (auto simp: gives_def)

lemma gives_any: "gives P Q m \<Longrightarrow> gives P (\<lambda>_. True) m"
  by (rule gives_mono) simp_all

lemma gives_succeed: "Q x \<Longrightarrow> gives P Q (succeed x)"
  and gives_failWith: "gives P Q (failWith e)"
  by (simp_all add: gives_def succeed_def failWith_def)

lemma gives_andThen: "gives P Q m \<Longrightarrow> (\<And>x. Q x \<Longrightarrow> gives P R (k x)) \<Longrightarrow> gives P R (andThen m k)"
  by (force simp: gives_def andThen_def split: prod.splits sum.splits)

lemma gives_seq: "gives P (\<lambda>_. True) m \<Longrightarrow> (\<And>x. gives P R (k x)) \<Longrightarrow> gives P R (andThen m k)"
  by (rule gives_andThen)

lemma gives_if: "(b \<Longrightarrow> gives P Q m) \<Longrightarrow> (\<not> b \<Longrightarrow> gives P Q m') \<Longrightarrow> gives P Q (if b then m else m')"
  by simp

section \<open>Well-formed tables\<close>

definition rowOk :: "UserSubscription \<Rightarrow> bool" where
  "rowOk r \<longleftrightarrow>
     us_Status r \<in> {SubscriptionStatusActive, SubscriptionStatusExpired, SubscriptionStatusSuspended} \<and>
     us_ExpiresAt r \<le> MaxExpiresAt \<and> 0 \<le> us_DailyUsageUSD r \<and> 0 \<le> us_WeeklyUsageUSD r \<and> 0 \<le> us_MonthlyUsageUSD r"

definition tableOk :: "sub_db \<Rightarrow> bool" where
  "tableOk db \<longleftrightarrow> ids_ok db \<and> uniqueActive (sd_subs db) \<and> (\<forall>r \<in> set (sd_subs db). rowOk r)"

lemma tableOk_faults [simp]: "tableOk (db\<lparr>sd_faults := fs\<rparr>) = tableOk db"
  by (simp add: tableOk_def)

lemma gives_sql:
  assumes "gives tableOk Q f" shows "gives tableOk Q (sql f)"
  unfolding gives_def
proof (intro allI impI conjI)
  fix db assume "tableOk db"
  with assms show "tableOk (snd (sql f db))"
    by (cases rule: sql_cases [of f db]) (simp_all add: gives_def)
  fix x assume "fst (sql f db) = Inr x"
  then have "fst (f (db\<lparr>sd_faults := tl (sd_faults db)\<rparr>)) = Inr x"
    by (auto simp: sql_def Let_def split: list.splits fault.splits)
  moreover have "tableOk (db\<lparr>sd_faults := tl (sd_faults db)\<rparr>)" using \<open>tableOk db\<close> by simp
  ultimately show "Q x" using assms unfolding gives_def by blast
qed

lemma gives_onlyRow: "gives tableOk rowOk (onlyRow p)"
proof -
  have "rowOk r" if "tableOk db" "filter p (sd_subs db) = [r]" for r db
    using that by (metis filter_eq_ConsD in_set_conv_decomp tableOk_def)
  then show ?thesis
    unfolding onlyRow_def by (intro gives_sql) (auto simp: gives_def split: list.split)
qed

text \<open>An update that keeps identifiers and well-formed rows, and shows no other row.\<close>

definition rowSafe :: "(UserSubscription \<Rightarrow> UserSubscription) \<Rightarrow> bool" where
  "rowSafe f \<longleftrightarrow> (\<forall>r. us_ID (f r) = us_ID r \<and> (rowOk r \<longrightarrow> rowOk (f r)))"

lemma tableOk_setRows:
  assumes "rowSafe f" and "tableOk db" and "uniqueActive (sd_subs (setRows p f db))"
  shows "tableOk (setRows p f db)"
  using assms ids_ok_setRows [of f db p] by (auto simp: tableOk_def rowSafe_def setRows_def)

lemma distinct_filter_map:
  assumes "\<And>r. key (g r) = key r" and "\<And>r. v (g r) \<Longrightarrow> v r" and "distinct (map key (filter v rs))"
  shows "distinct (map key (filter v (map g rs)))"
  using assms(3)
proof (induction rs)
  case (Cons r rs)
  have "key (g r) \<notin> key ` set (filter v (map g rs))" if "v (g r)"
  proof
    assume "key (g r) \<in> key ` set (filter v (map g rs))"
    then obtain y where "y \<in> set rs" "v (g y)" "key (g y) = key (g r)" by auto
    with assms(1,2) have "y \<in> set (filter v rs)" "key y = key r" by auto
    moreover from assms(2) that Cons.prems have "key r \<notin> key ` set (filter v rs)" by simp
    ultimately show False by (metis imageI)
  qed
  with Cons show ?case by (simp split: if_splits)
qed simp

lemma uniqueActive_setRows:
  assumes "\<And>r. subKey (f r) = subKey r" and "\<And>r. visible (f r) \<Longrightarrow> visible r" and "uniqueActive (sd_subs db)"
  shows "uniqueActive (sd_subs (setRows p f db))"
proof -
  let ?g = "\<lambda>r. if p r then f r else r"
  have "distinct (map subKey (filter visible (map ?g (sd_subs db))))"
  proof (rule distinct_filter_map)
    show "subKey (?g r) = subKey r" for r using assms(1) by simp
    show "visible r" if "visible (?g r)" for r using assms(2) that by (cases "p r") simp_all
    show "distinct (map subKey (filter visible (sd_subs db)))" using assms(3) by (simp add: uniqueActive_def)
  qed
  then show ?thesis by (simp add: uniqueActive_def setRows_def)
qed

lemma tableOk_update:
  assumes "rowSafe f" and "\<And>r. subKey (f r) = subKey r" and "\<And>r. visible (f r) \<Longrightarrow> visible r" and "tableOk db"
  shows "tableOk (setRows p f db)"
  using assms by (intro tableOk_setRows uniqueActive_setRows) (simp_all add: tableOk_def)

lemma gives_updateWhere:
  assumes "rowSafe f" and "\<And>r. subKey (f r) = subKey r" and "\<And>r. visible (f r) \<Longrightarrow> visible r"
  shows "gives tableOk (\<lambda>_. True) (updateWhere p f)"
  unfolding updateWhere_def by (rule gives_sql) (simp add: gives_def tableOk_update [OF assms])

lemma gives_updateOneID: "rowSafe f \<Longrightarrow> gives tableOk (\<lambda>_. True) (updateOneID e i f)"
  unfolding updateOneID_def by (rule gives_sql) (auto simp: gives_def Let_def tableOk_setRows)

section \<open>Every operation keeps the table well formed\<close>

named_theorems table_rules \<open>operations that keep a well-formed table\<close>

lemma status_rows [simp]:
  "rowOk r \<Longrightarrow> rowOk (us_Status_update (\<lambda>_. SubscriptionStatusActive) r)"
  "rowOk r \<Longrightarrow> rowOk (us_Status_update (\<lambda>_. SubscriptionStatusExpired) r)"
  by (simp_all add: rowOk_def)

lemmas row_changes = rowSafe_def rowOk_def subKey_def visible_def resetDailyRow_def resetWeeklyRow_def
  resetMonthlyRow_def chargeRow_def

lemma gives_reads [table_rules]:
  "gives tableOk rowOk (GetByID i)" "gives tableOk rowOk (GetByIDForUpdate i)"
  "gives tableOk rowOk (GetByIDIncludeDeleted i)" "gives tableOk rowOk (GetByUserIDAndGroupID u g)"
  by (simp_all add: GetByID_def GetByIDForUpdate_def GetByIDIncludeDeleted_def GetByUserIDAndGroupID_def gives_onlyRow)

lemma gives_queries [table_rules]:
  "gives tableOk (\<lambda>_. True) (ExistsByUserIDAndGroupID u g)"
  "gives tableOk (\<lambda>_. True) (ExistsActiveByUserIDAndGroupID u g)"
  "gives tableOk (\<lambda>_. True) (GetGroup i)"
  unfolding ExistsActiveByUserIDAndGroupID_def ExistsByUserIDAndGroupID_def GetGroup_def
  by (rule gives_sql; simp add: gives_def)+

lemma gives_Create [table_rules]:
  assumes "us_ExpiresAt sub \<le> MaxExpiresAt" and "us_Status sub = SubscriptionStatusActive"
    and "us_DailyUsageUSD sub = 0" "us_WeeklyUsageUSD sub = 0" "us_MonthlyUsageUSD sub = 0"
  shows "gives tableOk (\<lambda>_. True) (Create clock sub)"
  unfolding Create_def
proof (rule gives_sql)
  have "rowOk (createdRow clock i sub)" for i
    using assms by (simp add: rowOk_def createdRow_def)
  then show "gives tableOk (\<lambda>_. True) (\<lambda>db. let row = createdRow clock (sd_next db) sub; db = db\<lparr>sd_next := sd_next db + 1\<rparr>
      in if uniqueActive (sd_subs db @ [row])
         then (Inr (sub\<lparr>us_ID := us_ID row\<rparr>), db\<lparr>sd_subs := sd_subs db @ [row]\<rparr>)
         else (Inl ErrSubscriptionAlreadyExists, db))"
    by (force simp: gives_def Let_def tableOk_def ids_ok_def createdRow_def)
qed

lemma gives_Update [table_rules]: "rowOk sub \<Longrightarrow> gives tableOk (\<lambda>_. True) (Update sub)"
  unfolding Update_def by (rule gives_updateOneID) (simp add: rowSafe_def rowOk_def updatedRow_def)

lemma gives_columns [table_rules]:
  "t \<le> MaxExpiresAt \<Longrightarrow> gives tableOk (\<lambda>_. True) (ExtendExpiry i t)"
  "st \<in> {SubscriptionStatusActive, SubscriptionStatusExpired, SubscriptionStatusSuspended} \<Longrightarrow>
     gives tableOk (\<lambda>_. True) (UpdateStatus i st)"
  "gives tableOk (\<lambda>_. True) (UpdateNotes i n)"
  "gives tableOk (\<lambda>_. True) (ResetUsageWindows i d w m ds ps)"
  unfolding ExtendExpiry_def UpdateStatus_def UpdateNotes_def ResetUsageWindows_def
  by (rule gives_updateOneID; simp add: row_changes)+

lemma gives_Restore [table_rules]:
  "st \<in> {SubscriptionStatusActive, SubscriptionStatusExpired, SubscriptionStatusSuspended} \<Longrightarrow>
     gives tableOk rowOk (Restore i st)"
  unfolding Restore_def
  by (rule gives_andThen [OF gives_updateOneID]) (auto simp: row_changes [unfolded rowOk_def] rowOk_def intro: table_rules)

lemma gives_Delete [table_rules]: "gives tableOk (\<lambda>_. True) (Delete clock i)"
  unfolding Delete_def
  by (rule gives_andThen [OF gives_updateWhere]) (auto simp: row_changes intro: gives_succeed)

lemma gives_expire [table_rules]: "gives tableOk (\<lambda>_. True) (BatchUpdateExpiredStatus now)"
  unfolding BatchUpdateExpiredStatus_def by (rule gives_updateWhere) (simp_all add: row_changes)

lemma gives_translate:
  assumes "gives tableOk (\<lambda>_. True) m" shows "gives tableOk (\<lambda>_. True) (translateConditionalWindowReset i m)"
  unfolding translateConditionalWindowReset_def
proof (rule gives_andThen [OF assms])
  fix n :: nat
  have "gives tableOk (\<lambda>_. True) (sql (\<lambda>db. (Inr (\<exists>r \<in> set (sd_subs db). us_ID r = i \<and> visible r), db)))"
    by (rule gives_sql) (simp add: gives_def)
  then show "gives tableOk (\<lambda>_. True) (if n > 0 then succeed () else andThen
      (sql (\<lambda>db. (Inr (\<exists>r \<in> set (sd_subs db). us_ID r = i \<and> visible r), db)))
      (\<lambda>exists. if \<not> exists then failWith ErrSubscriptionNotFound else succeed ()))"
    by (intro gives_if gives_andThen gives_succeed gives_failWith) simp_all
qed

lemma gives_windows [table_rules]:
  "gives tableOk (\<lambda>_. True) (ActivateWindows i d t)" "gives tableOk (\<lambda>_. True) (ResetDailyUsage i e t)"
  "gives tableOk (\<lambda>_. True) (ResetWeeklyUsage i e t)" "gives tableOk (\<lambda>_. True) (ResetMonthlyUsage i e t)"
  unfolding ActivateWindows_def ResetDailyUsage_def ResetWeeklyUsage_def ResetMonthlyUsage_def
  by (rule gives_translate [OF gives_updateWhere]; simp add: row_changes)+

lemma gives_charge [table_rules]:
  assumes "0 \<le> c" shows "gives tableOk (\<lambda>_. True) (RecordUsage i c)"
  unfolding RecordUsage_def IncrementUsage_def
proof (rule gives_andThen)
  have safe: "rowSafe (chargeRow c)" using assms by (simp add: row_changes)
  show "gives tableOk (\<lambda>_. True) (sql (\<lambda>db.
       let p = (\<lambda>r. us_ID r = i \<and> visible r \<and> (\<exists>g \<in> set (sd_groups db). gr_ID g = us_GroupID r))
       in (Inr (length (filter p (sd_subs db))), setRows p (chargeRow c) db)))"
    by (rule gives_sql) (auto simp: gives_def Let_def chargeRow_def subKey_def visible_def intro!: tableOk_update [OF safe])
qed (simp add: gives_succeed gives_failWith)

lemma gives_tx [table_rules]:
  assumes "gives tableOk (\<lambda>_. True) m" shows "gives tableOk (\<lambda>_. True) (withSubscriptionUpdateTx joined m)"
  unfolding gives_def
proof (intro allI impI conjI)
  fix db assume "tableOk db"
  moreover have "gives tableOk (\<lambda>_. True) (sql (succeed ()))" by (rule gives_sql) (simp add: gives_succeed)
  ultimately have begun: "tableOk (snd (sql (succeed ()) db))" and body: "tableOk (snd (m db))"
    using assms by (simp_all add: gives_def)
  from begun have "tableOk (snd (m (snd (sql (succeed ()) db))))" using assms by (simp add: gives_def)
  with begun body show "tableOk (snd (withSubscriptionUpdateTx joined m db))"
    by (cases "sql (succeed ()) db"; cases "m (snd (sql (succeed ()) db))")
       (auto simp: withSubscriptionUpdateTx_def split: sum.split list.split fault.split)
qed simp

lemma capExpiry_le [simp]: "capExpiry t \<le> MaxExpiresAt"
  by (simp add: capExpiry_def)

lemma rowOk_renewed: "rowOk r \<Longrightarrow> rowOk (renewedSubscriptionTerm zn r notes now (capExpiry t))"
  by (simp add: rowOk_def renewedSubscriptionTerm_def)

lemma gives_extendTerm [table_rules]: "gives tableOk (\<lambda>_. True) (extendTerm sub (capExpiry t) notes)"
  unfolding extendTerm_def
  by (intro gives_seq gives_if gives_succeed gives_columns) simp_all

lemma gives_term [table_rules]:
  "gives tableOk (\<lambda>_. True) (updateExistingSubscriptionTerm joined zn now i days notes semantics)"
  unfolding updateExistingSubscriptionTerm_def Let_def
  by (intro gives_tx gives_andThen [OF gives_reads(2)] gives_if gives_succeed gives_Update rowOk_renewed gives_extendTerm) simp_all

lemma gives_createSubscription [table_rules]: "gives tableOk rowOk (createSubscription zn now input)"
  unfolding createSubscription_def
  by (rule gives_andThen [OF gives_Create]) (simp_all add: newSubscription_def gives_reads)

lemma gives_group [table_rules]: "gives tableOk (\<lambda>_. True) (requireSubscriptionGroup i)"
  unfolding requireSubscriptionGroup_def
  by (intro gives_andThen [OF gives_queries(3)] gives_if gives_failWith gives_succeed) simp_all

lemma gives_assign [table_rules]:
  "gives tableOk (\<lambda>_. True) (assignSubscriptionWithReuse joined zn now now' input)"
  unfolding assignSubscriptionWithReuse_def
  by (intro gives_andThen [OF gives_group] gives_andThen [OF gives_queries(1)] gives_if
        gives_andThen [OF gives_reads(4)] gives_andThen [OF gives_term] gives_andThen [OF gives_reads(1)]
        gives_andThen [OF gives_createSubscription] gives_succeed)
     (auto split: option.split intro: gives_succeed gives_failWith)

lemma gives_assignOrExtend [table_rules]:
  "gives tableOk (\<lambda>_. True) (assignOrExtendSubscription joined zn now input)"
  unfolding assignOrExtendSubscription_def
proof (rule gives_andThen [OF gives_group])
  let ?extend = "\<lambda>i. andThen (updateExistingSubscriptionTerm joined zn now i (normalizeAssignValidityDays (as_ValidityDays input))
      (as_Notes input) False) (\<lambda>_. andThen (GetByID i) (\<lambda>sub. succeed (sub, True)))"
  let ?create = "andThen (createSubscription zn now input) (\<lambda>sub. succeed (sub, False))"
  have "gives tableOk (\<lambda>_. True) (?extend i)" for i
    by (intro gives_andThen [OF gives_term] gives_andThen [OF gives_reads(1)] gives_succeed) simp
  moreover have "gives tableOk (\<lambda>_. True) ?create"
    by (intro gives_andThen [OF gives_createSubscription] gives_succeed) simp
  ultimately show "gives tableOk (\<lambda>_. True) (\<lambda>db. case GetByUserIDAndGroupID (as_UserID input) (as_GroupID input) db of
      (Inr existingSub, db) \<Rightarrow> ?extend (us_ID existingSub) db | (Inl _, db) \<Rightarrow> ?create db)"
    using gives_reads(4) [of "as_UserID input" "as_GroupID input"]
    by (force simp: gives_def split: prod.split sum.split)
qed

lemma bulk_keeps: "tableOk db \<Longrightarrow> tableOk (snd (bulkAssignFrom joined zn input users res db))"
proof (induction joined zn input users res db rule: bulkAssignFrom.induct)
  case (2 joined zn input userID now now' users res db)
  have "tableOk (snd (assignSubscriptionWithReuse joined zn now now' (input\<lparr>as_UserID := userID\<rparr>) db))"
    using gives_assign "2.prems" by (simp add: gives_def)
  with "2.IH" show ?case by (simp add: case_prod_unfold Let_def)
qed simp

lemma gives_extend [table_rules]: "gives tableOk (\<lambda>_. True) (ExtendSubscription zn now i days)"
  unfolding gives_def
proof (intro allI impI conjI)
  fix db assume db: "tableOk db"
  have rest: "gives tableOk (\<lambda>_. True) (if b then failWith ErrCannotShortenExpired
      else if b' then failWith ErrAdjustWouldExpire
      else andThen (ExtendExpiry i (capExpiry t)) (\<lambda>_.
           andThen (if b'' then UpdateStatus i SubscriptionStatusActive else succeed ()) (\<lambda>_. GetByID i)))" for b b' b'' t
    by (intro gives_if gives_failWith gives_seq gives_columns gives_succeed gives_any [OF gives_reads(1)]) simp_all
  obtain res db1 where get: "GetByID i db = (res, db1)" by fastforce
  with gives_reads(1) [of i] db have "tableOk db1" by (auto simp: gives_def dest: spec [of _ db])
  with rest show "tableOk (snd (ExtendSubscription zn now i days db))"
    unfolding ExtendSubscription_def get Let_def
    by (cases res) (simp_all only: prod.case sum.case snd_conv gives_def)
qed simp

lemma gives_admin [table_rules]:
  "gives tableOk (\<lambda>_. True) (AdminResetQuota zn now i d w m)"
  "gives tableOk (\<lambda>_. True) (RevokeSubscription now i)"
  unfolding AdminResetQuota_def RevokeSubscription_def
  by (intro gives_if gives_failWith gives_andThen [OF gives_reads(1)] gives_andThen [OF gives_columns(4)]
        gives_any [OF gives_reads(1)] gives_Delete)+

lemma gives_restore [table_rules]: "gives tableOk (\<lambda>_. True) (RestoreSubscription now i)"
  unfolding RestoreSubscription_def
  by (intro gives_andThen [OF gives_reads(3)] gives_if gives_failWith gives_andThen [OF gives_queries(2)]
        gives_any [OF gives_Restore]) (auto simp: rowOk_def)

lemma gives_maintenance [table_rules]:
  "gives tableOk (\<lambda>_. True) (CheckAndActivateWindow zn now sub)"
  "gives tableOk (\<lambda>_. True) (CheckAndResetWindows zn now sub)"
  "gives tableOk (\<lambda>_. True) (EnsureWindowMaintenance zn now now' sub)"
proof -
  show activate: "gives tableOk (\<lambda>_. True) (CheckAndActivateWindow zn now sub)" for now sub
    unfolding CheckAndActivateWindow_def by (intro gives_if gives_succeed gives_windows) simp
  have due: "gives tableOk (\<lambda>_. True) (resetDailyIfDue zn now sub)" "gives tableOk (\<lambda>_. True) (resetWeeklyIfDue zn now sub)"
    "gives tableOk (\<lambda>_. True) (resetMonthlyIfDue zn now sub)" for now sub
    unfolding resetDailyIfDue_def resetWeeklyIfDue_def resetMonthlyIfDue_def
    by (auto split: option.split intro!: gives_succeed gives_andThen [OF gives_windows(2)]
          gives_andThen [OF gives_windows(3)] gives_andThen [OF gives_windows(4)])
  show reset: "gives tableOk (\<lambda>_. True) (CheckAndResetWindows zn now sub)" for now sub
    unfolding CheckAndResetWindows_def by (intro gives_andThen [OF due(1)] gives_andThen [OF due(2)] due(3))
  show "gives tableOk (\<lambda>_. True) (EnsureWindowMaintenance zn now now' sub)"
    unfolding EnsureWindowMaintenance_def
    by (intro gives_seq gives_if activate gives_succeed reset gives_any [OF gives_reads(1)]) simp
qed

lemma gives_validate [table_rules]: "gives tableOk (\<lambda>_. True) (ValidateSubscription now sub)"
proof -
  have "tableOk db \<Longrightarrow> tableOk (snd (UpdateStatus (us_ID sub) SubscriptionStatusExpired db))" for db
    using gives_columns(2) [of SubscriptionStatusExpired "us_ID sub"] by (simp add: gives_def)
  then show ?thesis
    unfolding ValidateSubscription_def
    by (intro gives_if gives_failWith gives_succeed) (simp_all add: gives_def)
qed

section \<open>Sequences of calls\<close>

datatype sub_call =
    CallAssign bool time time AssignSubscriptionInput
  | CallAssignOrExtend bool time AssignSubscriptionInput
  | CallBulkAssign bool AssignSubscriptionInput "(int \<times> time \<times> time) list"
  | CallRevoke time int
  | CallRestore time int
  | CallExtend time int int
  | CallResetQuota time int bool bool bool
  | CallMaintain time time UserSubscription
  | CallAdmit time time time time SubscriptionGroup UserSubscription
  | CallRecord int usd
  | CallValidate time UserSubscription
  | CallExpire time

fun serve :: "Zones \<Rightarrow> sub_call \<Rightarrow> sub_db \<Rightarrow> sub_db" where
  "serve zn (CallAssign joined now now' input) db = snd (AssignSubscription joined zn now now' input db)"
| "serve zn (CallAssignOrExtend joined now input) db = snd (assignOrExtendSubscription joined zn now input db)"
| "serve zn (CallBulkAssign joined input users) db = snd (BulkAssignSubscription joined zn input users db)"
| "serve zn (CallRevoke now i) db = snd (RevokeSubscription now i db)"
| "serve zn (CallRestore now i) db = snd (RestoreSubscription now i db)"
| "serve zn (CallExtend now i days) db = snd (ExtendSubscription zn now i days db)"
| "serve zn (CallResetQuota now i d w m) db = snd (AdminResetQuota zn now i d w m db)"
| "serve zn (CallMaintain now now' sub) db = doWindowMaintenance zn now now' sub db"
| "serve zn (CallAdmit t1 t2 t3 t4 g sub) db = snd (admitRequest zn t1 t2 t3 t4 g sub db)"
| "serve zn (CallRecord i c) db = snd (RecordUsage i c db)"
| "serve zn (CallValidate now sub) db = snd (ValidateSubscription now sub db)"
| "serve zn (CallExpire now) db = snd (BatchUpdateExpiredStatus now db)"

text \<open>Recorded costs are not negative.\<close>

fun callOk :: "sub_call \<Rightarrow> bool" where
  "callOk (CallRecord i c) = (0 \<le> c)"
| "callOk _ = True"

lemma givesD: "gives P Q m \<Longrightarrow> P db \<Longrightarrow> P (snd (m db))"
  by (simp add: gives_def)

lemmas table_steps = table_rules [THEN givesD]

lemma serve_tableOk:
  assumes "callOk c" and "tableOk db"
  shows "tableOk (serve zn c db)"
proof (cases c)
  case (CallAssign joined now now' input)
  have "gives tableOk (\<lambda>_. True) (AssignSubscription joined zn now now' input)"
    unfolding AssignSubscription_def by (intro gives_seq gives_assign) (auto intro: gives_succeed)
  with CallAssign assms show ?thesis by (simp add: givesD)
next
  case (CallMaintain now now' sub)
  then show ?thesis
    using assms by (simp add: doWindowMaintenance_def Let_def table_steps)
next
  case (CallAdmit t1 t2 t3 t4 g sub)
  have "tableOk (snd (EnsureWindowMaintenance zn t2 t3 s db))" for s
    using assms by (simp add: table_steps)
  then have "tableOk d" if "EnsureWindowMaintenance zn t2 t3 s db = (r, d)" for s r d
    using that by (metis snd_conv)
  with CallAdmit assms show ?thesis
    by (auto simp: admitRequest_def Let_def split: prod.split sum.split)
qed (use assms in \<open>simp_all add: BulkAssignSubscription_def bulk_keeps table_steps\<close>)

text \<open>
  C17: Every operation on subscriptions, with any arguments, any stale copy of a row and any failing
  statements, keeps the table well formed: identifiers are distinct, a user has at most one
  subscription to a group that is not deleted, every status is one of the three, no subscription ends
  after the end of 2099, and no usage is negative.
\<close>

theorem subscriptions_wellformed:
  assumes "tableOk db" and "\<forall>c \<in> set cs. callOk c"
  shows "tableOk (fold (serve zn) cs db)"
  using assms by (induction cs arbitrary: db) (simp_all add: serve_tableOk)

definition exampleInput :: AssignSubscriptionInput where
  "exampleInput = \<lparr>as_UserID = 8, as_GroupID = 3, as_ValidityDays = 30, as_AssignedBy = 0, as_Notes = ''promo''\<rparr>"

lemma subscriptions_wellformed_witness:
  "tableOk (fold (serve utcZones)
     [CallAssignOrExtend False (738001 * Day) exampleInput, CallRecord 1 4, CallAdmit (738009 * Day) (738009 * Day) (738009 * Day) (738009 * Day) exampleGroup exampleSub,
      CallRevoke (738010 * Day) 1, CallRestore (738011 * Day) 1] exampleDb)"
proof (rule subscriptions_wellformed)
  show "tableOk exampleDb" by code_simp
qed simp

text \<open>The calls of the example do what they say.\<close>

lemma example_calls:
  "map (\<lambda>r. (us_ID r, us_Status r, us_WeeklyUsageUSD r, us_ExpiresAt r)) (sd_subs (fold (serve utcZones)
     [CallAssignOrExtend False (738001 * Day) exampleInput, CallRecord 1 4, CallAdmit (738009 * Day) (738009 * Day) (738009 * Day) (738009 * Day) exampleGroup exampleSub,
      CallRevoke (738010 * Day) 1, CallRestore (738011 * Day) 1] exampleDb))
   = [(1, SubscriptionStatusExpired, 0, 738010 * Day + 5 * Hour), (2, SubscriptionStatusActive, 0, 738031 * Day)]"
  by code_simp

lemma maintenance_settles_witness:
  "fst (admitRequest utcZones (738009 * Day) (738009 * Day) (738009 * Day) (738009 * Day) exampleGroup
     (exampleSub\<lparr>us_WeeklyUsageUSD := 31\<rparr>) (exampleDb\<lparr>sd_subs := [exampleSub\<lparr>us_WeeklyUsageUSD := 31\<rparr>]\<rparr>)) = Admitted"
proof -
  let ?sub = "exampleSub\<lparr>us_WeeklyUsageUSD := 31\<rparr>" and ?now = "738009 * Day :: time"
  have "civil_midnights (zn_config utcZones)" by (simp add: utcZones_def UTC_midnights)
  moreover have "holds ?sub (exampleDb\<lparr>sd_subs := [?sub]\<rparr>)" by code_simp
  moreover have "inRange ?now ?sub" by code_simp
  moreover have "snd (fst (ValidateAndCheckLimits utcZones ?now exampleGroup ?sub)) = None" by code_simp
  ultimately show ?thesis
    using maintenance_settles [of utcZones ?sub "exampleDb\<lparr>sd_subs := [?sub]\<rparr>" ?now exampleGroup None] by auto
qed

section \<open>Two assignments of one expired subscription\<close>

text \<open>
  \<open>assignSubscriptionWithReuse\<close> returns an existing subscription as it is, and renews it when it has
  expired.  Two such requests can both read the expired row; the second one then finds the renewed
  row under its lock, takes the branch that extends, and adds the days again.
\<close>

lemma assign_race_extends_twice:
  "let expired = exampleSub\<lparr>us_Status := SubscriptionStatusExpired\<rparr>; now = 738020 * Day;
       renew = updateExistingSubscriptionTerm False utcZones now 1 30 ''promo'' True;
       db = exampleDb\<lparr>sd_subs := [expired]\<rparr>
   in termExpired True now expired \<and>
      map us_ExpiresAt (sd_subs (snd (renew db))) = [738050 * Day] \<and>
      map us_ExpiresAt (sd_subs (snd (renew (snd (renew db))))) = [738080 * Day]"
  by code_simp

end
