(* ===== verification/Payment_Orders.thy ===== *)
theory Payment_Orders
  imports Subscription_Service
begin

text \<open>
  \<open>payment_order_provider_snapshot.go\<close>, \<open>payment_currency.go\<close>, \<open>payment_amounts.go\<close>,
  \<open>payment/currency.go\<close> and the look-up of the provider instance of an order in \<open>payment_refund.go\<close>:
  payment orders, the provider instance that an order is bound to, and the checks that a notification
  of a provider has to pass.

  Amounts are rational numbers; \<open>float64\<close> has a constructor for the values that are not finite, which
  only arrive from outside.  \<open>strings.EqualFold\<close> and \<open>strings.ToUpper\<close> are modelled on ASCII letters,
  other bytes being compared as they are.
\<close>

section \<open>Orders\<close>

datatype OrderStatus =
    OrderStatusPending | OrderStatusPaid | OrderStatusRecharging | OrderStatusCompleted
  | OrderStatusExpired | OrderStatusCancelled | OrderStatusFailed | OrderStatusRefundRequested
  | OrderStatusRefunding | OrderStatusRefundPending | OrderStatusPartiallyRefunded
  | OrderStatusRefunded | OrderStatusRefundFailed

datatype OrderType = OrderTypeBalance | OrderTypeSubscription | OtherOrderType string

datatype float64 = Finite rat | Infinite | NaN

datatype snapshot_value = SnapshotString string | SnapshotNumber rat | SnapshotOther

datatype pay_error =
    NotFound | Forbidden string | BadRequest string | Conflict | ServiceError string
  | ErrOrderNotFound | ProviderMismatch | MetadataMismatch string | InvalidPaidAmount | AmountMismatch
  | ErrRedeemCodeNotFound | ErrRedeemCodeUsed | ErrRedeemCodeExpired | ErrRedeemRateLimited
  | RedeemCodeMismatch string | ErrUserNotFound | SubscriptionError sub_error | GroupInactive
  | ProviderError string | GatewayFailed string | AlreadyClaimed | Database

record PaymentOrder =
  po_ID :: int
  po_UserID :: int
  po_Amount :: rat
  po_PayAmount :: rat
  po_RechargeCode :: string
  po_OutTradeNo :: string
  po_PaymentType :: string
  po_PaymentTradeNo :: string
  po_OrderType :: OrderType
  po_SubscriptionGroupID :: "int option"
  po_SubscriptionDays :: "int option"
  po_ProviderInstanceID :: "string option"
  po_ProviderKey :: "string option"
  po_ProviderSnapshot :: "(string \<times> snapshot_value) list"
  po_Status :: OrderStatus
  po_RefundAmount :: rat
  po_RefundReason :: "string option"
  po_RefundAt :: "time option"
  po_ForceRefund :: bool
  po_RefundRequestedAt :: "time option"
  po_RefundRequestReason :: "string option"
  po_RefundRequestedBy :: "int option"
  po_ExpiresAt :: time
  po_PaidAt :: "time option"
  po_CompletedAt :: "time option"
  po_FailedAt :: "time option"
  po_FailedReason :: "pay_error option"
  po_UpdatedAt :: time

record ProviderInstance =
  pi_ID :: int
  pi_ProviderKey :: string
  pi_SupportedTypes :: string
  pi_Enabled :: bool
  pi_RefundEnabled :: bool
  pi_AllowUserRefund :: bool

definition psStringValue :: "string option \<Rightarrow> string" where
  "psStringValue value = (case value of None \<Rightarrow> [] | Some v \<Rightarrow> v)"

definition psIsRefundStatus :: "OrderStatus \<Rightarrow> bool" where
  "psIsRefundStatus s \<longleftrightarrow> s \<in> {OrderStatusRefundRequested, OrderStatusRefunding, OrderStatusRefundPending,
     OrderStatusPartiallyRefunded, OrderStatusRefunded, OrderStatusRefundFailed}"

section \<open>Strings\<close>

definition lowerByte :: "char \<Rightarrow> char" where
  "lowerByte c = (if inRange 0x41 0x5A c then char_of (of_char c + 32 :: nat) else c)"

definition upperByte :: "char \<Rightarrow> char" where
  "upperByte c = (if inRange 0x61 0x7A c then char_of (of_char c - 32 :: nat) else c)"

definition EqualFold :: "string \<Rightarrow> string \<Rightarrow> bool" where
  "EqualFold s t \<longleftrightarrow> map lowerByte s = map lowerByte t"

definition ToUpper :: "string \<Rightarrow> string" where
  "ToUpper s = map upperByte s"

text \<open>\<open>strconv.ParseInt(s, 10, 64)\<close>: an optional sign and digits, within the range of an int64.\<close>

fun digits :: "string \<Rightarrow> int \<Rightarrow> int option" where
  "digits [] n = Some n"
| "digits (c # s) n = (if inRange 0x30 0x39 c then digits s (10 * n + (of_char c - 48)) else None)"

definition inInt64 :: "int \<Rightarrow> int option" where
  "inInt64 n = (if - (2 ^ 63) \<le> n \<and> n < 2 ^ 63 then Some n else None)"

definition ParseInt :: "string \<Rightarrow> int option" where
  "ParseInt s =
     (let signed = (s \<noteq> [] \<and> (hd s = CHR ''-'' \<or> hd s = CHR ''+'')); body = (if signed then tl s else s)
      in if body = [] then None
         else Option.bind (digits body 0) (\<lambda>n. inInt64 (if signed \<and> hd s = CHR ''-'' then - n else n)))"

section \<open>The snapshot of the provider\<close>

record paymentOrderProviderSnapshot =
  sn_SchemaVersion :: int
  sn_ProviderInstanceID :: string
  sn_ProviderKey :: string
  sn_PaymentMode :: string
  sn_MerchantAppID :: string
  sn_MerchantID :: string
  sn_Currency :: string

definition psSnapshotStringValue :: "snapshot_value option \<Rightarrow> string" where
  "psSnapshotStringValue value = (case value of Some (SnapshotString s) \<Rightarrow> TrimSpace s | _ \<Rightarrow> [])"

definition psSnapshotIntValue :: "snapshot_value option \<Rightarrow> int" where
  "psSnapshotIntValue value = (case value of
     Some (SnapshotNumber q) \<Rightarrow> (if q \<ge> 0 then \<lfloor>q\<rfloor> else \<lceil>q\<rceil>)
   | Some (SnapshotString s) \<Rightarrow> (case ParseInt (TrimSpace s) of Some n \<Rightarrow> n | None \<Rightarrow> 0)
   | _ \<Rightarrow> 0)"

definition psOrderProviderSnapshot :: "PaymentOrder \<Rightarrow> paymentOrderProviderSnapshot option" where
  "psOrderProviderSnapshot order =
     (let field = map_of (po_ProviderSnapshot order); str = (\<lambda>k. psSnapshotStringValue (field k));
          snapshot =
            \<lparr>sn_SchemaVersion = psSnapshotIntValue (field ''schema_version''),
             sn_ProviderInstanceID = str ''provider_instance_id'', sn_ProviderKey = str ''provider_key'',
             sn_PaymentMode = str ''payment_mode'', sn_MerchantAppID = str ''merchant_app_id'',
             sn_MerchantID = str ''merchant_id'', sn_Currency = str ''currency''\<rparr>
      in if po_ProviderSnapshot order = [] then None
         else if snapshot = \<lparr>sn_SchemaVersion = 0, sn_ProviderInstanceID = [], sn_ProviderKey = [],
                  sn_PaymentMode = [], sn_MerchantAppID = [], sn_MerchantID = [], sn_Currency = []\<rparr>
         then None else Some snapshot)"

section \<open>Currencies and amounts\<close>

text \<open>The number of digits of the unit of the provider's interface, and of an amount.\<close>

definition zeroDecimalCurrencies :: "string list" where
  "zeroDecimalCurrencies = [''BIF'', ''CLP'', ''DJF'', ''GNF'', ''JPY'', ''KMF'', ''KRW'', ''MGA'', ''PYG'',
     ''RWF'', ''VND'', ''VUV'', ''XAF'', ''XOF'', ''XPF'']"

definition threeDecimalCurrencies :: "string list" where
  "threeDecimalCurrencies = [''BHD'', ''IQD'', ''JOD'', ''KWD'', ''LYD'', ''OMR'', ''TND'']"

definition DefaultPaymentCurrency :: string where "DefaultPaymentCurrency = ''CNY''"

definition NormalizePaymentCurrency :: "string \<Rightarrow> string option" where
  "NormalizePaymentCurrency raw =
     (let currency = ToUpper (TrimSpace raw)
      in if currency = [] then Some DefaultPaymentCurrency
         else if length currency \<noteq> 3 then None
         else if \<not> list_all (inRange 0x41 0x5A) currency then None
         else Some currency)"

definition paymentCurrencyAmountUnitFor :: "string \<Rightarrow> nat \<times> nat" where
  "paymentCurrencyAmountUnitFor currency = (case NormalizePaymentCurrency currency of
     None \<Rightarrow> (2, 2)
   | Some normalized \<Rightarrow>
       if normalized \<in> set zeroDecimalCurrencies then (0, 0)
       else if normalized \<in> {''ISK'', ''UGX''} then (2, 0)
       else if normalized \<in> set threeDecimalCurrencies then (3, 3)
       else (2, 2))"

definition CurrencyMinorUnit :: "string \<Rightarrow> nat" where
  "CurrencyMinorUnit currency = fst (paymentCurrencyAmountUnitFor currency)"

definition CurrencyMaxFractionDigits :: "string \<Rightarrow> nat" where
  "CurrencyMaxFractionDigits currency = snd (paymentCurrencyAmountUnitFor currency)"

definition PaymentOrderCurrency :: "PaymentOrder \<Rightarrow> string" where
  "PaymentOrderCurrency order = (case psOrderProviderSnapshot order of
     None \<Rightarrow> DefaultPaymentCurrency
   | Some snapshot \<Rightarrow> (case NormalizePaymentCurrency (sn_Currency snapshot) of
       None \<Rightarrow> DefaultPaymentCurrency | Some currency \<Rightarrow> currency))"

definition paymentAmountToleranceForCurrency :: "string \<Rightarrow> rat" where
  "paymentAmountToleranceForCurrency currency =
     (let minorUnit = CurrencyMinorUnit currency in if minorUnit \<le> 2 then 1 / 100 else 1 / 10 ^ minorUnit / 2)"

definition isValidProviderAmount :: "float64 \<Rightarrow> bool" where
  "isValidProviderAmount amount = (case amount of Finite q \<Rightarrow> q > 0 | _ \<Rightarrow> False)"

definition finite :: "float64 \<Rightarrow> rat" where
  "finite x = (case x of Finite q \<Rightarrow> q | _ \<Rightarrow> 0)"

text \<open>The package for decimal numbers is a parameter.\<close>

record decimal_package =
  dc_Mul :: "rat \<Rightarrow> rat \<Rightarrow> rat"
  dc_Div :: "rat \<Rightarrow> rat \<Rightarrow> rat"
  dc_Round :: "nat \<Rightarrow> rat \<Rightarrow> rat"

definition calculateGatewayRefundAmount :: "decimal_package \<Rightarrow> rat \<Rightarrow> rat \<Rightarrow> rat \<Rightarrow> string \<Rightarrow> rat" where
  "calculateGatewayRefundAmount dc orderAmount payAmount refundAmount currency =
     (let fractionDigits = CurrencyMaxFractionDigits currency
      in if orderAmount \<le> 0 \<or> payAmount \<le> 0 \<or> refundAmount \<le> 0 then 0
         else if \<bar>refundAmount - orderAmount\<bar> \<le> paymentAmountToleranceForCurrency currency
         then dc_Round dc fractionDigits payAmount
         else dc_Round dc fractionDigits (dc_Div dc (dc_Mul dc payAmount refundAmount) orderAmount))"

section \<open>Checks of a notification\<close>

definition TypeAlipay :: string where "TypeAlipay = ''alipay''"
definition TypeWxpay :: string where "TypeWxpay = ''wxpay''"
definition TypeStripe :: string where "TypeStripe = ''stripe''"
definition TypeEasyPay :: string where "TypeEasyPay = ''easypay''"
definition TypeAirwallex :: string where "TypeAirwallex = ''airwallex''"

definition GetBasePaymentType :: "string \<Rightarrow> string" where
  "GetBasePaymentType t =
     (if t = TypeEasyPay then TypeEasyPay
      else if t = TypeAirwallex then TypeAirwallex
      else if t = TypeStripe \<or> t = ''card'' \<or> t = ''link'' then TypeStripe
      else if HasPrefix t TypeAlipay then TypeAlipay
      else if HasPrefix t TypeWxpay then TypeWxpay
      else t)"

definition expectedNotificationProviderKey ::
  "(string \<Rightarrow> string) option \<Rightarrow> string \<Rightarrow> string \<Rightarrow> string \<Rightarrow> string" where
  "expectedNotificationProviderKey registry orderPaymentType orderProviderKey instanceProviderKey =
     (if TrimSpace instanceProviderKey \<noteq> [] then TrimSpace instanceProviderKey
      else if TrimSpace orderProviderKey \<noteq> [] then TrimSpace orderProviderKey
      else (case registry of
          None \<Rightarrow> TrimSpace orderPaymentType
        | Some key \<Rightarrow> if TrimSpace (key orderPaymentType) \<noteq> [] then TrimSpace (key orderPaymentType)
                      else TrimSpace orderPaymentType))"

definition expectedNotificationProviderKeyForOrder ::
  "(string \<Rightarrow> string) option \<Rightarrow> PaymentOrder \<Rightarrow> string \<Rightarrow> string" where
  "expectedNotificationProviderKeyForOrder registry order instanceProviderKey =
     (let orderProviderKey = (case psOrderProviderSnapshot order of
            Some snapshot \<Rightarrow> if sn_ProviderKey snapshot \<noteq> [] then sn_ProviderKey snapshot
                             else psStringValue (po_ProviderKey order)
          | None \<Rightarrow> psStringValue (po_ProviderKey order))
      in expectedNotificationProviderKey registry (po_PaymentType order) orderProviderKey instanceProviderKey)"

text \<open>One entry of the notification: it has to be there and to be the expected one.\<close>

definition matches :: "string \<Rightarrow> string \<Rightarrow> string \<Rightarrow> pay_error option" where
  "matches what expected actual =
     (if TrimSpace expected = [] then None
      else if actual = [] then Some (MetadataMismatch (what @ '' missing''))
      else if \<not> EqualFold (TrimSpace expected) actual then Some (MetadataMismatch (what @ '' mismatch''))
      else None)"

definition stateIs :: "string \<Rightarrow> string \<Rightarrow> string \<Rightarrow> pay_error option" where
  "stateIs what wanted actual =
     (if actual \<noteq> [] \<and> \<not> EqualFold actual wanted then Some (MetadataMismatch (what @ '' mismatch'')) else None)"

fun firstError :: "pay_error option list \<Rightarrow> pay_error option" where
  "firstError [] = None"
| "firstError (e # es) = (case e of Some err \<Rightarrow> Some err | None \<Rightarrow> firstError es)"

definition validateProviderSnapshotMetadata ::
  "PaymentOrder \<Rightarrow> string \<Rightarrow> (string \<times> string) list \<Rightarrow> pay_error option" where
  "validateProviderSnapshotMetadata order providerKey metadata =
     (if metadata = [] then None
      else case psOrderProviderSnapshot order of
        None \<Rightarrow> None
      | Some snapshot \<Rightarrow>
          let key = TrimSpace providerKey;
              entry = (\<lambda>k. TrimSpace (case map_of metadata k of Some v \<Rightarrow> v | None \<Rightarrow> []))
          in if key = TypeWxpay then firstError
               [matches ''wxpay appid'' (sn_MerchantAppID snapshot) (entry ''appid''),
                matches ''wxpay mchid'' (sn_MerchantID snapshot) (entry ''mchid''),
                matches ''wxpay currency'' (sn_Currency snapshot) (ToUpper (entry ''currency'')),
                stateIs ''wxpay trade_state'' ''SUCCESS'' (entry ''trade_state'')]
             else if key = TypeAlipay then
               matches ''alipay app_id'' (sn_MerchantAppID snapshot) (entry ''app_id'')
             else if key = TypeEasyPay then
               matches ''easypay pid'' (sn_MerchantID snapshot) (entry ''pid'')
             else if key = TypeStripe then
               matches ''stripe currency'' (sn_Currency snapshot) (ToUpper (entry ''currency''))
             else if key = TypeAirwallex then firstError
               [matches ''airwallex account_id'' (sn_MerchantID snapshot) (entry ''account_id''),
                matches ''airwallex currency'' (sn_Currency snapshot) (ToUpper (entry ''currency'')),
                stateIs ''airwallex status'' ''SUCCEEDED'' (entry ''status'')]
             else None)"

section \<open>Provider instances\<close>

fun splitOn :: "char \<Rightarrow> string \<Rightarrow> string list" where
  "splitOn sep [] = [[]]"
| "splitOn sep (c # s) = (if c = sep then [] # splitOn sep s
                          else (case splitOn sep s of w # ws \<Rightarrow> (c # w) # ws | [] \<Rightarrow> [[c]]))"

definition normalizeVisibleMethodSupportType :: "string \<Rightarrow> string" where
  "normalizeVisibleMethodSupportType paymentType =
     (let t = TrimSpace paymentType
      in if t = TypeAlipay \<or> t = ''alipay_direct'' then TypeAlipay
         else if t = TypeWxpay \<or> t = ''wxpay_direct'' then TypeWxpay
         else t)"

definition InstanceSupportsType :: "string \<Rightarrow> string \<Rightarrow> bool" where
  "InstanceSupportsType supportedTypes target \<longleftrightarrow>
     supportedTypes = [] \<or>
     list_ex (\<lambda>t. TrimSpace t = target \<or>
                  normalizeVisibleMethodSupportType (TrimSpace t) = normalizeVisibleMethodSupportType target)
       (splitOn CHR '','' supportedTypes)"

definition psLegacyOrderMatchesInstance :: "string \<Rightarrow> ProviderInstance \<Rightarrow> bool" where
  "psLegacyOrderMatchesInstance orderPaymentType inst =
     (let baseType = GetBasePaymentType (TrimSpace orderPaymentType); key = TrimSpace (pi_ProviderKey inst)
      in if baseType = [] then False
         else if baseType = TypeStripe then key = TypeStripe
         else if key = TypeStripe then False
         else if key = baseType then True
         else InstanceSupportsType (pi_SupportedTypes inst) baseType)"

definition psFilterLegacyOrderProviderInstances :: "string \<Rightarrow> ProviderInstance list \<Rightarrow> ProviderInstance list" where
  "psFilterLegacyOrderProviderInstances orderPaymentType instances =
     (if TrimSpace orderPaymentType = [] then instances
      else filter (psLegacyOrderMatchesInstance orderPaymentType) instances)"

definition theOnly :: "'a list \<Rightarrow> 'a option" where
  "theOnly xs = (case xs of [x] \<Rightarrow> Some x | _ \<Rightarrow> None)"

text \<open>
  Which instance an order belongs to, given the table of instances: an error, no instance or one.
\<close>

definition instanceByID :: "ProviderInstance list \<Rightarrow> int \<Rightarrow> ProviderInstance option" where
  "instanceByID table i = find (\<lambda>inst. pi_ID inst = i) table"

definition resolveUniqueLegacyOrderProviderInstance ::
  "ProviderInstance list \<Rightarrow> PaymentOrder \<Rightarrow> ProviderInstance option" where
  "resolveUniqueLegacyOrderProviderInstance table o1 =
     (let paymentType = GetBasePaymentType (TrimSpace (po_PaymentType o1));
          providerKey = TrimSpace (psStringValue (po_ProviderKey o1))
      in if providerKey \<noteq> [] then
           theOnly (psFilterLegacyOrderProviderInstances paymentType
                      (filter (\<lambda>inst. pi_ProviderKey inst = providerKey) table))
         else if paymentType = [] then None
         else theOnly (psFilterLegacyOrderProviderInstances paymentType table))"

definition resolveSnapshotOrderProviderInstance ::
  "ProviderInstance list \<Rightarrow> PaymentOrder \<Rightarrow> paymentOrderProviderSnapshot \<Rightarrow> pay_error + ProviderInstance" where
  "resolveSnapshotOrderProviderInstance table order snapshot =
     (let columnInstanceID = TrimSpace (psStringValue (po_ProviderInstanceID order));
          snapshotInstanceID = (if TrimSpace (sn_ProviderInstanceID snapshot) = [] then columnInstanceID
                                else TrimSpace (sn_ProviderInstanceID snapshot))
      in if snapshotInstanceID = [] then Inl (ProviderError ''snapshot is missing provider_instance_id'')
         else if columnInstanceID \<noteq> [] \<and> sn_ProviderInstanceID snapshot \<noteq> [] \<and>
                 \<not> EqualFold columnInstanceID (sn_ProviderInstanceID snapshot)
         then Inl (ProviderError ''snapshot instance mismatch'')
         else case ParseInt snapshotInstanceID of
           None \<Rightarrow> Inl (ProviderError ''snapshot instance id is invalid'')
         | Some instID \<Rightarrow> (case instanceByID table instID of
             None \<Rightarrow> Inl (ProviderError ''snapshot instance is missing'')
           | Some inst \<Rightarrow>
               if sn_ProviderKey snapshot \<noteq> [] \<and>
                  \<not> EqualFold (TrimSpace (pi_ProviderKey inst)) (sn_ProviderKey snapshot)
               then Inl (ProviderError ''snapshot key mismatch'') else Inr inst))"

definition getOrderProviderInstance ::
  "ProviderInstance list \<Rightarrow> PaymentOrder \<Rightarrow> pay_error + ProviderInstance option" where
  "getOrderProviderInstance table o1 = (case psOrderProviderSnapshot o1 of
     Some snapshot \<Rightarrow> map_sum id Some (resolveSnapshotOrderProviderInstance table o1 snapshot)
   | None \<Rightarrow>
       let instIDStr = TrimSpace (psStringValue (po_ProviderInstanceID o1))
       in if instIDStr = [] then Inr (resolveUniqueLegacyOrderProviderInstance table o1)
          else (case ParseInt instIDStr of
            None \<Rightarrow> Inr None
          | Some instID \<Rightarrow> (case instanceByID table instID of
              None \<Rightarrow> Inl NotFound | Some inst \<Rightarrow> Inr (Some inst))))"

definition getRefundOrderProviderInstance ::
  "ProviderInstance list \<Rightarrow> PaymentOrder \<Rightarrow> pay_error + ProviderInstance option" where
  "getRefundOrderProviderInstance table o1 = (case psOrderProviderSnapshot o1 of
     Some snapshot \<Rightarrow> map_sum id Some (resolveSnapshotOrderProviderInstance table o1 snapshot)
   | None \<Rightarrow>
       let instIDStr = TrimSpace (psStringValue (po_ProviderInstanceID o1))
       in if instIDStr = [] then Inr None
          else (case ParseInt instIDStr of
            None \<Rightarrow> Inl (ProviderError ''refund provider instance id is invalid'')
          | Some instID \<Rightarrow> (case instanceByID table instID of
              None \<Rightarrow> Inl (ProviderError ''refund provider instance is missing'')
            | Some inst \<Rightarrow> Inr (Some inst))))"

end
