(* ===== verification/Process_Logic.thy ===== *)
theory Process_Logic
  imports Main
begin

text \<open>
  Operations that other operations interrupt.  A process is a sequence of atomic steps on a shared
  state, each of which may depend on what the earlier ones returned; \<open>runs\<close> executes it alone and
  \<open>perform\<close> interleaves any number of processes, which can also be abandoned at any step.

  The locale \<open>cooperating\<close> is the interface between the operations of a component and its system: an
  invariant of the state and a relation that every step of every operation keeps, while it may rely
  on the other operations keeping them.  Its lemmas carry both over to every run.
\<close>

section \<open>Processes\<close>

datatype ('s, 'a) proc = Return 'a | Step "'s \<Rightarrow> ('s, 'a) proc \<times> 's"

primrec bind :: "('s, 'a) proc \<Rightarrow> ('a \<Rightarrow> ('s, 'b) proc) \<Rightarrow> ('s, 'b) proc" where
  "bind (Return x) k = k x"
| "bind (Step f) k = Step (\<lambda>s. map_prod (\<lambda>p. bind p k) id (f s))"

definition atomically :: "('s \<Rightarrow> 'a \<times> 's) \<Rightarrow> ('s, 'a) proc" where
  "atomically f = Step (\<lambda>s. apfst Return (f s))"

text \<open>A Go function that returns an error: its caller goes on only after a success.\<close>

definition orFail :: "('s, 'e + 'a) proc \<Rightarrow> ('a \<Rightarrow> ('s, 'e + 'b) proc) \<Rightarrow> ('s, 'e + 'b) proc" where
  "orFail p k = bind p (\<lambda>r. case r of Inl e \<Rightarrow> Return (Inl e) | Inr x \<Rightarrow> k x)"

abbreviation afterwards :: "('s, 'a) proc \<Rightarrow> ('s, 'b) proc \<Rightarrow> ('s, 'b) proc" where
  "afterwards p q \<equiv> bind p (\<lambda>_. q)"

text \<open>A process on its own.\<close>

primrec runs :: "('s, 'a) proc \<Rightarrow> 's \<Rightarrow> 'a \<times> 's" where
  "runs (Return x) = Pair x"
| "runs (Step f) = (\<lambda>s. case map_prod runs id (f s) of (r, s') \<Rightarrow> r s')"

lemma runs_Step [simp]: "runs (Step f) s = runs (fst (f s)) (snd (f s))"
  by (simp add: case_prod_unfold)

declare runs.simps(2) [simp del]

lemma runs_bind [simp]: "runs (bind p k) s = runs (k (fst (runs p s))) (snd (runs p s))"
  by (induction p arbitrary: s) (auto simp: case_prod_unfold snds.simps fsts.simps)

lemma runs_atomically [simp]: "runs (atomically f) s = f s"
  by (simp add: atomically_def)

lemma runs_orFail:
  "runs (orFail p k) s = (case runs p s of (Inl e, s') \<Rightarrow> (Inl e, s') | (Inr x, s') \<Rightarrow> runs (k x) s')"
  by (simp add: orFail_def split: prod.splits sum.splits)

section \<open>Interleaving\<close>

datatype 'c move = Spawn 'c | Resume nat | Crash nat

type_synonym ('s, 'c) process_system = "'s \<times> ('c \<times> ('s, unit) proc) list"

text \<open>One action, with the step of the state that it makes, if any.\<close>

fun perform :: "('c \<Rightarrow> ('s, unit) proc) \<Rightarrow> 'c move \<Rightarrow> ('s, 'c) process_system \<Rightarrow> ('c \<times> 's \<times> 's) list \<times> ('s, 'c) process_system" where
  "perform start (Spawn c) (s, ps) = ([], (s, ps @ [(c, start c)]))"
| "perform start (Crash i) (s, ps) =
     ([], (s, if i < length ps then ps[i := (fst (ps ! i), Return ())] else ps))"
| "perform start (Resume i) (s, ps) =
     (if i < length ps then
        (case ps ! i of
           (c, Return x) \<Rightarrow> ([], (s, ps))
         | (c, Step f) \<Rightarrow> ([(c, s, snd (f s))], (snd (f s), ps[i := (c, fst (f s))])))
      else ([], (s, ps)))"

fun performs ::
  "('c \<Rightarrow> ('s, unit) proc) \<Rightarrow> 'c move list \<Rightarrow> ('s, 'c) process_system \<Rightarrow> ('c \<times> 's \<times> 's) list \<times> ('s, 'c) process_system" where
  "performs start [] sys = ([], sys)"
| "performs start (a # as) sys =
     (let (e, sys) = perform start a sys; (es, sys) = performs start as sys in (e @ es, sys))"

section \<open>Relying on the others\<close>

text \<open>
  \<open>upholds rely inv guar p Q s\<close>: from a state reached from \<open>s\<close> by the others, each step of \<open>p\<close> keeps
  the invariant and is one that \<open>guar\<close> allows, and at the end \<open>Q\<close> holds of the result.
\<close>

primrec upholds ::
  "('s \<Rightarrow> 's \<Rightarrow> bool) \<Rightarrow> ('s \<Rightarrow> bool) \<Rightarrow> ('s \<Rightarrow> 's \<Rightarrow> bool) \<Rightarrow> ('s, 'a) proc \<Rightarrow> ('a \<Rightarrow> 's \<Rightarrow> bool) \<Rightarrow> 's \<Rightarrow> bool" where
  "upholds rely inva guar (Return x) Q = Q x"
| "upholds rely inva guar (Step f) Q = (\<lambda>s. \<forall>t. rely s t \<and> inva t \<longrightarrow>
     (case map_prod (\<lambda>p. upholds rely inva guar p Q) id (f t) of (k, t') \<Rightarrow> inva t' \<and> guar t t' \<and> k t'))"

lemma upholds_Step [simp]:
  "upholds rely inva guar (Step f) Q s \<longleftrightarrow>
     (\<forall>t. rely s t \<longrightarrow> inva t \<longrightarrow>
        inva (snd (f t)) \<and> guar t (snd (f t)) \<and> upholds rely inva guar (fst (f t)) Q (snd (f t)))"
  by (auto simp: case_prod_unfold)

declare upholds.simps(2) [simp del]

lemma upholds_weaken:
  assumes "upholds rely inva guar p Q s" and "\<And>x t. Q x t \<Longrightarrow> Q' x t"
  shows "upholds rely inva guar p Q' s"
  using assms(1)
proof (induction p arbitrary: s)
  case (Step f)
  show ?case
    unfolding upholds_Step
  proof (intro allI impI)
    fix t
    assume "rely s t" and "inva t"
    then have *: "inva (snd (f t)) \<and> guar t (snd (f t)) \<and> upholds rely inva guar (fst (f t)) Q (snd (f t))"
      using Step.prems by simp
    have "upholds rely inva guar (fst (f t)) Q' (snd (f t))"
      by (rule Step.IH [of "f t"]) (use * in \<open>auto simp: fsts.simps prod_set_defs\<close>)
    with * show "inva (snd (f t)) \<and> guar t (snd (f t)) \<and> upholds rely inva guar (fst (f t)) Q' (snd (f t))"
      by simp
  qed
qed (simp add: assms(2))

lemma upholds_bind:
  assumes "upholds rely inva guar p Q s" and "\<And>x t. Q x t \<Longrightarrow> upholds rely inva guar (k x) R t"
  shows "upholds rely inva guar (bind p k) R s"
  using assms(1)
proof (induction p arbitrary: s)
  case (Step f)
  show ?case
    unfolding bind.simps upholds_Step
  proof (intro allI impI)
    fix t
    assume "rely s t" and "inva t"
    then have *: "inva (snd (f t)) \<and> guar t (snd (f t)) \<and> upholds rely inva guar (fst (f t)) Q (snd (f t))"
      using Step.prems by simp
    have "upholds rely inva guar (bind (fst (f t)) k) R (snd (f t))"
      by (rule Step.IH [of "f t"]) (use * in \<open>auto simp: fsts.simps prod_set_defs\<close>)
    with * show "inva (snd (map_prod (\<lambda>p. bind p k) id (f t))) \<and>
        guar t (snd (map_prod (\<lambda>p. bind p k) id (f t))) \<and>
        upholds rely inva guar (fst (map_prod (\<lambda>p. bind p k) id (f t))) R (snd (map_prod (\<lambda>p. bind p k) id (f t)))"
      by simp
  qed
qed (simp add: assms(2))

lemma upholds_atomically:
  assumes "\<And>t. rely s t \<Longrightarrow> inva t \<Longrightarrow> inva (snd (f t)) \<and> guar t (snd (f t)) \<and> Q (fst (f t)) (snd (f t))"
  shows "upholds rely inva guar (atomically f) Q s"
  using assms by (simp add: atomically_def)

text \<open>What the others do before a process starts does not matter to it.\<close>

lemma upholds_rely:
  assumes trans: "\<And>r s t. rely r s \<Longrightarrow> rely s t \<Longrightarrow> rely r t"
    and "\<And>x s t. Q x s \<Longrightarrow> rely s t \<Longrightarrow> Q x t"
    and "upholds rely inva guar p Q s" and "rely s t"
  shows "upholds rely inva guar p Q t"
proof (cases p)
  case (Return x)
  then show ?thesis using assms by simp
next
  case (Step f)
  then show ?thesis using assms(3) trans [OF \<open>rely s t\<close>] by simp
qed

text \<open>
  The rules by which an operation is shown to keep its part: \<open>secures K p P\<close> says so for \<open>p\<close>, when it
  starts where \<open>K\<close> holds, and that \<open>P\<close> then holds of its result.  What the operation has learned about
  the state it may use later if the others cannot make it false.
\<close>

locale relying =
  fixes rely :: "'s \<Rightarrow> 's \<Rightarrow> bool"
    and inva :: "'s \<Rightarrow> bool"
    and guar :: "'s \<Rightarrow> 's \<Rightarrow> bool"
  assumes rely_refl: "rely s s"
    and rely_trans: "rely r s \<Longrightarrow> rely s t \<Longrightarrow> rely r t"
    and guar_rely: "guar s t \<Longrightarrow> rely s t"
begin

definition lasting :: "('s \<Rightarrow> bool) \<Rightarrow> bool" where
  "lasting K \<longleftrightarrow> (\<forall>s t. rely s t \<longrightarrow> K s \<longrightarrow> K t)"

definition secures :: "('s \<Rightarrow> bool) \<Rightarrow> ('s, 'a) proc \<Rightarrow> ('a \<Rightarrow> 's \<Rightarrow> bool) \<Rightarrow> bool" where
  "secures K p P \<longleftrightarrow> (\<forall>s. K s \<longrightarrow> upholds rely inva guar p P s)"

lemma lasting_True [simp]: "lasting (\<lambda>_. b)"
  by (simp add: lasting_def)

lemma lasting_conj [simp]: "lasting K \<Longrightarrow> lasting K' \<Longrightarrow> lasting (\<lambda>s. K s \<and> K' s)"
  by (auto simp: lasting_def)

lemma lastingD: "lasting K \<Longrightarrow> rely s t \<Longrightarrow> K s \<Longrightarrow> K t"
  by (auto simp: lasting_def)

lemma upholds_and_rely:
  "upholds rely inva guar p Q s \<Longrightarrow> rely r s \<Longrightarrow> upholds rely inva guar p (\<lambda>x t. rely r t \<and> Q x t) s"
proof (induction p arbitrary: s)
  case (Step f)
  show ?case
    unfolding upholds_Step
  proof (intro allI impI)
    fix t
    assume t: "rely s t" "inva t"
    then have *: "inva (snd (f t)) \<and> guar t (snd (f t)) \<and> upholds rely inva guar (fst (f t)) Q (snd (f t))"
      using Step.prems by simp
    have "rely r (snd (f t))"
      using rely_trans [OF Step.prems(2)] rely_trans [OF t(1)] guar_rely * by blast
    then have "upholds rely inva guar (fst (f t)) (\<lambda>x t. rely r t \<and> Q x t) (snd (f t))"
      using * by (intro Step.IH [of "f t"]) (auto simp: fsts.simps prod_set_defs)
    with * show "inva (snd (f t)) \<and> guar t (snd (f t)) \<and>
        upholds rely inva guar (fst (f t)) (\<lambda>x t. rely r t \<and> Q x t) (snd (f t))"
      by simp
  qed
qed simp

lemma secures_Return: "(\<And>s. K s \<Longrightarrow> P x s) \<Longrightarrow> secures K (Return x) P"
  by (simp add: secures_def)

lemma secures_bind:
  assumes "lasting K" and "secures K p P" and "\<And>x. secures (\<lambda>s. K s \<and> P x s) (k x) Q"
  shows "secures K (bind p k) Q"
  unfolding secures_def
proof (intro allI impI)
  fix s
  assume "K s"
  show "upholds rely inva guar (bind p k) Q s"
  proof (rule upholds_bind)
    show "upholds rely inva guar p (\<lambda>x t. rely s t \<and> P x t) s"
      using assms(2) \<open>K s\<close> by (intro upholds_and_rely) (simp_all add: secures_def rely_refl)
  next
    fix x t
    assume "rely s t \<and> P x t"
    then show "upholds rely inva guar (k x) Q t"
      using assms(3) lastingD [OF assms(1) _ \<open>K s\<close>] by (simp add: secures_def)
  qed
qed

lemma secures_conseq:
  assumes "secures K p P" and "\<And>s. K' s \<Longrightarrow> K s" and "\<And>x s. P x s \<Longrightarrow> P' x s"
  shows "secures K' p P'"
  unfolding secures_def
proof (intro allI impI)
  fix s
  assume "K' s"
  then have "upholds rely inva guar p P s"
    using assms(1,2) by (simp add: secures_def)
  then show "upholds rely inva guar p P' s"
    by (rule upholds_weaken) (rule assms(3))
qed

lemma secures_weaken: "secures K p P \<Longrightarrow> secures K p (\<lambda>_ _. True)"
  by (erule secures_conseq) simp_all

lemma secures_atomically:
  assumes "lasting K"
    and "\<And>s. K s \<Longrightarrow> inva s \<Longrightarrow> inva (snd (f s)) \<and> guar s (snd (f s)) \<and> P (fst (f s)) (snd (f s))"
  shows "secures K (atomically f) P"
  unfolding secures_def using assms(2) lastingD [OF assms(1)] by (auto intro!: upholds_atomically)

text \<open>Operations that may fail: only a success says anything.\<close>

definition onSuccess :: "('a \<Rightarrow> 's \<Rightarrow> bool) \<Rightarrow> 'e + 'a \<Rightarrow> 's \<Rightarrow> bool" where
  "onSuccess P r s = (case r of Inl e \<Rightarrow> True | Inr x \<Rightarrow> P x s)"

lemma onSuccess_simps [simp]: "onSuccess P (Inl e) s" "onSuccess P (Inr x) s = P x s"
  by (simp_all add: onSuccess_def)

lemma onSuccess_True [simp]: "onSuccess (\<lambda>_ _. True) = (\<lambda>_ _. True)"
  by (auto simp: onSuccess_def fun_eq_iff split: sum.splits)

lemma secures_orFail:
  assumes "lasting K" and "secures K p (onSuccess P)"
    and "\<And>x. secures (\<lambda>s. K s \<and> P x s) (k x) (onSuccess Q)"
  shows "secures K (orFail p k) (onSuccess Q)"
  unfolding orFail_def
proof (rule secures_bind [OF assms(1,2)])
  fix r
  show "secures (\<lambda>s. K s \<and> onSuccess P r s) (case r of Inl e \<Rightarrow> Return (Inl e) | Inr x \<Rightarrow> k x) (onSuccess Q)"
    using assms(3) by (cases r) (auto intro: secures_Return)
qed

end

section \<open>Cooperating operations\<close>

locale cooperating =
  fixes start :: "'c \<Rightarrow> ('s, unit) proc"
    and inva :: "'s \<Rightarrow> bool"
    and guar :: "'c \<Rightarrow> 's \<Rightarrow> 's \<Rightarrow> bool"
    and rely :: "'s \<Rightarrow> 's \<Rightarrow> bool"
  assumes relying: "relying rely (guar c)"
    and start_keeps: "inva s \<Longrightarrow> upholds rely inva (guar c) (start c) (\<lambda>_ _. True) s"
begin

lemmas rely_refl = relying.rely_refl [OF relying]
lemmas rely_trans = relying.rely_trans [OF relying]
lemmas guar_rely = relying.guar_rely [OF relying]

definition healthy :: "('s, 'c) process_system \<Rightarrow> bool" where
  "healthy sys \<longleftrightarrow> inva (fst sys) \<and>
     (\<forall>p \<in> set (snd sys). upholds rely inva (guar (fst p)) (snd p) (\<lambda>_ _. True) (fst sys))"

lemma healthy_start: "inva s \<Longrightarrow> healthy (s, [])"
  by (simp add: healthy_def)

lemma upholds_later: "upholds rely inva (guar c) p (\<lambda>_ _. True) s \<Longrightarrow> rely s t \<Longrightarrow> upholds rely inva (guar c) p (\<lambda>_ _. True) t"
  by (rule upholds_rely) (auto intro: rely_trans)

lemma performs_Cons:
  "fst (performs start (a # as) sys) =
     fst (perform start a sys) @ fst (performs start as (snd (perform start a sys)))"
  "snd (performs start (a # as) sys) = snd (performs start as (snd (perform start a sys)))"
  by (simp_all add: case_prod_unfold Let_def)

lemma perform_healthy:
  assumes "healthy sys"
  shows "healthy (snd (perform start a sys))"
    and "rely (fst sys) (fst (snd (perform start a sys)))"
    and "\<forall>(c, s, t) \<in> set (fst (perform start a sys)).
      inva s \<and> guar c s t \<and> inva t \<and> s = fst sys \<and> t = fst (snd (perform start a sys))"
proof -
  obtain s ps where sys: "sys = (s, ps)" by force
  have *: "healthy (snd (perform start a (s, ps))) \<and> rely s (fst (snd (perform start a (s, ps)))) \<and>
    (\<forall>(c, s', t) \<in> set (fst (perform start a (s, ps))).
      inva s' \<and> guar c s' t \<and> inva t \<and> s' = s \<and> t = fst (snd (perform start a (s, ps))))"
  proof (cases a)
    case (Spawn c)
    then show ?thesis
      using assms by (auto simp: sys healthy_def rely_refl start_keeps)
  next
    case (Crash i)
    then show ?thesis
      using assms by (auto simp: sys healthy_def rely_refl dest!: subsetD [OF set_update_subset_insert])
  next
    case (Resume i)
    show ?thesis
    proof (cases "i < length ps \<and> (\<exists>c f. ps ! i = (c, Step f))")
      case False
      then have "perform start a (s, ps) = ([], (s, ps))"
        by (auto simp: Resume split: prod.splits proc.splits)
      then show ?thesis using assms by (simp add: sys rely_refl)
    next
      case True
      then obtain c f where i: "i < length ps" and p: "ps ! i = (c, Step f)" by blast
      have "upholds rely inva (guar c) (Step f) (\<lambda>_ _. True) s" and "inva s"
        using assms nth_mem [OF i] by (auto simp: sys healthy_def p)
      then have f: "inva (snd (f s))" "guar c s (snd (f s))"
        "upholds rely inva (guar c) (fst (f s)) (\<lambda>_ _. True) (snd (f s))"
        by (simp_all add: rely_refl)
      have "healthy (snd (f s), ps[i := (c, fst (f s))])"
        using assms f guar_rely [OF f(2)]
        by (auto simp: sys healthy_def upholds_later dest!: subsetD [OF set_update_subset_insert])
      then show ?thesis
        using f \<open>inva s\<close> i p by (simp add: Resume guar_rely)
    qed
  qed
  show "healthy (snd (perform start a sys))"
    and "rely (fst sys) (fst (snd (perform start a sys)))"
    and "\<forall>(c, s, t) \<in> set (fst (perform start a sys)).
      inva s \<and> guar c s t \<and> inva t \<and> s = fst sys \<and> t = fst (snd (perform start a sys))"
    using * by (auto simp: sys)
qed

lemma performs_healthy:
  "healthy sys \<Longrightarrow>
     healthy (snd (performs start as sys)) \<and> rely (fst sys) (fst (snd (performs start as sys))) \<and>
     (\<forall>(c, s, t) \<in> set (fst (performs start as sys)).
        rely (fst sys) s \<and> inva s \<and> guar c s t \<and> inva t \<and> rely t (fst (snd (performs start as sys))))"
proof (induction "as" arbitrary: sys)
  case Nil
  then show ?case by (simp add: rely_refl)
next
  case (Cons a "as")
  note h = perform_healthy [OF Cons.prems, of a]
  note IH = Cons.IH [OF h(1)]
  let ?sys = "snd (perform start a sys)"
  have "rely (fst sys) (fst (snd (performs start (a # as) sys)))"
    using h(2) IH by (auto simp: performs_Cons simp del: performs.simps intro: rely_trans)
  moreover have "rely (fst sys) s \<and> inva s \<and> guar c s t \<and> inva t \<and> rely t (fst (snd (performs start as ?sys)))"
    if "(c, s, t) \<in> set (fst (perform start a sys))" for c s t
  proof -
    have "inva s \<and> guar c s t \<and> inva t \<and> s = fst sys \<and> t = fst ?sys"
      using bspec [OF h(3) that] by blast
    then show ?thesis using IH by (auto simp: rely_refl)
  qed
  moreover have "rely (fst sys) s \<and> inva s \<and> guar c s t \<and> inva t \<and> rely t (fst (snd (performs start as ?sys)))"
    if "(c, s, t) \<in> set (fst (performs start as ?sys))" for c s t
    using IH that rely_trans [OF h(2)] by auto
  ultimately show ?case
    using IH by (auto simp: performs_Cons simp del: performs.simps)
qed

text \<open>
  Something that happens at most once: \<open>happens\<close> turns \<open>happened\<close> from false to true, and what the
  operations do never turns it back.
\<close>

lemma once:
  assumes "healthy sys"
    and stable: "\<And>s t. rely s t \<Longrightarrow> happened s \<Longrightarrow> happened t"
    and happens: "\<And>c s t. inva s \<Longrightarrow> guar c s t \<Longrightarrow> happens c s t \<Longrightarrow> \<not> happened s \<and> happened t"
  shows "length (filter (\<lambda>(c, s, t). happens c s t) (fst (performs start as sys))) \<le> (if happened (fst sys) then 0 else 1)"
  using assms(1)
proof (induction "as" arbitrary: sys)
  case (Cons a "as")
  let ?e = "fst (perform start a sys)" and ?sys = "snd (perform start a sys)"
  note h = perform_healthy [OF Cons.prems, of a]
  have rest: "length (filter (\<lambda>(c, s, t). happens c s t) (fst (performs start as ?sys)))
      \<le> (if happened (fst ?sys) then 0 else 1)"
    by (rule Cons.IH [OF h(1)])
  have one: "length ?e \<le> 1"
    by (cases a; cases sys) (auto split: prod.splits proc.splits)
  have "length (filter (\<lambda>(c, s, t). happens c s t) ?e) \<le> (if happened (fst sys) then 0 else 1)"
    and "filter (\<lambda>(c, s, t). happens c s t) ?e \<noteq> [] \<Longrightarrow> happened (fst ?sys)"
  proof -
    show "filter (\<lambda>(c, s, t). happens c s t) ?e \<noteq> [] \<Longrightarrow> happened (fst ?sys)"
      using h(3) happens by (fastforce simp: filter_empty_conv)
    have "happened (fst sys) \<Longrightarrow> filter (\<lambda>(c, s, t). happens c s t) ?e = []"
      using h(3) happens by (fastforce simp: filter_empty_conv)
    then show "length (filter (\<lambda>(c, s, t). happens c s t) ?e) \<le> (if happened (fst sys) then 0 else 1)"
      using le_trans [OF length_filter_le one, of "\<lambda>(c, s, t). happens c s t"] by auto
  qed
  moreover have "happened (fst sys) \<Longrightarrow> happened (fst ?sys)"
    by (rule stable [OF h(2)])
  ultimately show ?case
    using rest
    by (cases "filter (\<lambda>(c, s, t). happens c s t) ?e = []")
       (auto simp: performs_Cons simp del: performs.simps split: if_splits)
qed simp

end

end
