(* ===== verification/Payment_Store.thy ===== *)
theory Payment_Store
  imports Payment_Orders Process_Logic
begin

text \<open>
  The tables behind payments and the statements on them, from \<open>redeem_code_repo.go\<close>,
  \<open>user_repo.go\<close>, \<open>affiliate_repo.go\<close>, \<open>redeem_cache.go\<close> and the queries of \<open>PaymentService\<close>.  A
  statement runs atomically and may fail, before or after it took effect, as \<open>pd_faults\<close> says; a
  transaction commits as a whole or rolls back.  The rows of deleted users are left out, and of the
  details of an audit entry those that no operation reads.
\<close>

section \<open>Tables\<close>

datatype RedeemType =
    RedeemTypeBalance | RedeemTypeConcurrency | RedeemTypeSubscription | RedeemTypeInvitation
  | OtherRedeemType string

datatype CodeStatus = StatusUnused | StatusUsed | StatusExpired | StatusDisabled

record RedeemCode =
  rc_ID :: int
  rc_Code :: string
  rc_Type :: RedeemType
  rc_Value :: rat
  rc_Status :: CodeStatus
  rc_UsedBy :: "int option"
  rc_UsedAt :: "time option"
  rc_ExpiresAt :: "time option"
  rc_GroupID :: "int option"
  rc_ValidityDays :: int

record User =
  ur_ID :: int
  ur_Balance :: rat
  ur_TotalRecharged :: rat
  ur_Concurrency :: int

text \<open>\<open>refundPendingAuditDetail\<close> is the only detail that is read again.\<close>

record refundPendingAuditDetail =
  rp_RefundID :: string
  rp_DeductionRollbackOK :: bool

record AuditEntry =
  al_OrderID :: int
  al_Action :: string
  al_Pending :: "refundPendingAuditDetail option"

record Affiliate =
  ar_UserID :: int
  ar_InviterID :: "int option"
  ar_RatePercent :: "rat option"
  ar_Quota :: rat
  ar_FrozenQuota :: rat
  ar_HistoryQuota :: rat
  ar_CreatedAt :: time

record LedgerEntry =
  le_UserID :: int
  le_Amount :: rat
  le_SourceUserID :: int
  le_SourceOrderID :: "int option"

text \<open>Answers of the payment providers, in the order in which they are asked.\<close>

record QueryOrderResponse =
  qr_Status :: string
  qr_Amount :: float64
  qr_TradeNo :: string
  qr_Metadata :: "(string \<times> string) list"

record RefundResponse =
  rr_RefundID :: string
  rr_Status :: string

datatype reply =
    OrderReply QueryOrderResponse | RefundReply bool "RefundResponse option" | CreateReply string | NoReply

record pay_db =
  pd_orders :: "PaymentOrder list"
  pd_nextOrder :: int
  pd_audit :: "AuditEntry list"
  pd_codes :: "RedeemCode list"
  pd_nextCode :: int
  pd_users :: "User list"
  pd_affiliates :: "Affiliate list"
  pd_ledger :: "LedgerEntry list"
  pd_sub :: sub_db
  pd_instances :: "ProviderInstance list"
  pd_locks :: "(string \<times> time) list"
  pd_attempts :: "(int \<times> nat) list"
  pd_replies :: "reply list"
  pd_clock :: time
  pd_faults :: "fault list"

section \<open>Statements\<close>

type_synonym 'a pay_op = "pay_db \<Rightarrow> (pay_error + 'a) \<times> pay_db"
type_synonym 'a pay_proc = "(pay_db, pay_error + 'a) proc"

text \<open>
  A statement under the coming fault, as a step of a process.  A transaction is one step as well: an
  error rolls back to the state after its beginning.
\<close>

definition payStatement :: "'a pay_op \<Rightarrow> 'a pay_op" where
  "payStatement f = (\<lambda>db.
     let prior = db\<lparr>pd_faults := tl (pd_faults db)\<rparr>; result = f prior
     in case pd_faults db of
          NotApplied # _ \<Rightarrow> (Inl Database, prior)
        | Applied # _ \<Rightarrow> (Inl Database, snd result)
        | _ \<Rightarrow> result)"

definition call :: "'a pay_op \<Rightarrow> 'a pay_proc" where
  "call f = atomically (payStatement f)"

definition finishTx :: "'a pay_op \<Rightarrow> 'a pay_op" where
  "finishTx body = (\<lambda>begun. case body begun of
     (Inl e, db) \<Rightarrow> (Inl e, begun\<lparr>pd_faults := pd_faults db\<rparr>)
   | (Inr x, db) \<Rightarrow> (case pd_faults db of
       NotApplied # fs \<Rightarrow> (Inl Database, begun\<lparr>pd_faults := fs\<rparr>)
     | Applied # fs \<Rightarrow> (Inl Database, db\<lparr>pd_faults := fs\<rparr>)
     | fs \<Rightarrow> (Inr x, db\<lparr>pd_faults := tl fs\<rparr>)))"

definition beginTx :: "unit pay_op" where
  "beginTx = payStatement (\<lambda>db. (Inr (), db))"

definition committed :: "'a pay_op \<Rightarrow> 'a pay_op" where
  "committed body = (\<lambda>db. case beginTx db of
     (Inl e, db) \<Rightarrow> (Inl e, db) | (Inr _, begun) \<Rightarrow> finishTx body begun)"

definition transaction :: "'a pay_proc \<Rightarrow> 'a pay_proc" where
  "transaction body = atomically (committed (runs body))"

text \<open>An operation of the subscriptions runs on their tables, under the same faults.\<close>

definition onSubs :: "'a db_op \<Rightarrow> 'a pay_proc" where
  "onSubs m = atomically (\<lambda>db. case m ((pd_sub db)\<lparr>sd_faults := pd_faults db\<rparr>) of
     (r, sdb) \<Rightarrow> (map_sum SubscriptionError id r, db\<lparr>pd_sub := sdb\<lparr>sd_faults := []\<rparr>, pd_faults := sd_faults sdb\<rparr>))"

definition getNow :: "(pay_db, time) proc" where
  "getNow = atomically (\<lambda>db. (pd_clock db, db))"

section \<open>Orders and audit entries\<close>

definition getOrder :: "int \<Rightarrow> PaymentOrder pay_proc" where
  "getOrder i = call (\<lambda>db. (case find (\<lambda>o1. po_ID o1 = i) (pd_orders db) of
     None \<Rightarrow> Inl NotFound | Some o1 \<Rightarrow> Inr o1, db))"

definition orderByOutTradeNo :: "string \<Rightarrow> PaymentOrder pay_proc" where
  "orderByOutTradeNo outTradeNo = call (\<lambda>db.
     (case filter (\<lambda>o1. po_OutTradeNo o1 = outTradeNo) (pd_orders db) of
        [] \<Rightarrow> Inl NotFound | [o1] \<Rightarrow> Inr o1 | _ \<Rightarrow> Inl Database, db))"

definition ordersWhere :: "(PaymentOrder \<Rightarrow> bool) \<Rightarrow> PaymentOrder list pay_proc" where
  "ordersWhere p = call (\<lambda>db. (Inr (filter p (pd_orders db)), db))"

text \<open>An update also sets \<open>updated_at\<close>, unless it gives that column a value itself.\<close>

definition setOrders :: "(PaymentOrder \<Rightarrow> bool) \<Rightarrow> (PaymentOrder \<Rightarrow> PaymentOrder) \<Rightarrow> pay_db \<Rightarrow> pay_db" where
  "setOrders p f db = db\<lparr>pd_orders :=
     map (\<lambda>o1. if p o1 then f (o1\<lparr>po_UpdatedAt := pd_clock db\<rparr>) else o1) (pd_orders db)\<rparr>"

definition updateOrders :: "(PaymentOrder \<Rightarrow> bool) \<Rightarrow> (PaymentOrder \<Rightarrow> PaymentOrder) \<Rightarrow> nat pay_proc" where
  "updateOrders p f = call (\<lambda>db. (Inr (length (filter p (pd_orders db))), setOrders p f db))"

definition updateOrder :: "int \<Rightarrow> (PaymentOrder \<Rightarrow> PaymentOrder) \<Rightarrow> unit pay_proc" where
  "updateOrder i f = call (\<lambda>db.
     if \<exists>o1 \<in> set (pd_orders db). po_ID o1 = i
     then (Inr (), setOrders (\<lambda>o1. po_ID o1 = i) f db) else (Inl NotFound, db))"

text \<open>The unique index on the order and the action of an entry refuses a second one.\<close>

definition hasAudit :: "pay_db \<Rightarrow> int \<Rightarrow> string list \<Rightarrow> bool" where
  "hasAudit db oid actions \<longleftrightarrow> list_ex (\<lambda>e. al_OrderID e = oid \<and> al_Action e \<in> set actions) (pd_audit db)"

definition createAudit :: "int \<Rightarrow> string \<Rightarrow> refundPendingAuditDetail option \<Rightarrow> unit pay_proc" where
  "createAudit oid action pending = call (\<lambda>db.
     if hasAudit db oid [action] then (Inl Conflict, db)
     else (Inr (), db\<lparr>pd_audit := pd_audit db @
            [\<lparr>al_OrderID = oid, al_Action = action, al_Pending = pending\<rparr>]\<rparr>))"

definition writeAuditLog :: "int \<Rightarrow> string \<Rightarrow> (pay_db, unit) proc" where
  "writeAuditLog oid action = bind (createAudit oid action None) (\<lambda>_. Return ())"

definition countAudit :: "int \<Rightarrow> string list \<Rightarrow> bool pay_proc" where
  "countAudit oid actions = call (\<lambda>db. (Inr (hasAudit db oid actions), db))"

definition hasAuditLog :: "int \<Rightarrow> string \<Rightarrow> (pay_db, bool) proc" where
  "hasAuditLog orderID action =
     bind (countAudit orderID [action]) (\<lambda>r. Return (r = Inr True))"

definition instances :: "ProviderInstance list pay_proc" where
  "instances = call (\<lambda>db. (Inr (pd_instances db), db))"

definition takeReply :: "(pay_db, reply) proc" where
  "takeReply = atomically (\<lambda>db. case pd_replies db of
     [] \<Rightarrow> (NoReply, db) | r # rs \<Rightarrow> (r, db\<lparr>pd_replies := rs\<rparr>))"

section \<open>Redeem codes\<close>

definition IsUsed :: "RedeemCode \<Rightarrow> bool" where "IsUsed r \<longleftrightarrow> rc_Status r = StatusUsed"

definition IsExpiredAt :: "time \<Rightarrow> RedeemCode \<Rightarrow> bool" where
  "IsExpiredAt now r \<longleftrightarrow> rc_Status r = StatusExpired \<or>
     rc_Status r = StatusUnused \<and> (case rc_ExpiresAt r of None \<Rightarrow> False | Some t \<Rightarrow> \<not> t > now)"

definition CanUse :: "time \<Rightarrow> RedeemCode \<Rightarrow> bool" where
  "CanUse now r \<longleftrightarrow> rc_Status r = StatusUnused \<and> \<not> IsExpiredAt now r"

definition GetByCode :: "string \<Rightarrow> RedeemCode pay_proc" where
  "GetByCode code = call (\<lambda>db. (case find (\<lambda>r. rc_Code r = code) (pd_codes db) of
     None \<Rightarrow> Inl ErrRedeemCodeNotFound | Some r \<Rightarrow> Inr r, db))"

definition GetCodeByID :: "int \<Rightarrow> RedeemCode pay_proc" where
  "GetCodeByID i = call (\<lambda>db. (case find (\<lambda>r. rc_ID r = i) (pd_codes db) of
     None \<Rightarrow> Inl ErrRedeemCodeNotFound | Some r \<Rightarrow> Inr r, db))"

definition Create_code :: "RedeemCode \<Rightarrow> unit pay_proc" where
  "Create_code code = call (\<lambda>db.
     if \<exists>r \<in> set (pd_codes db). rc_Code r = rc_Code code then (Inl Conflict, db)
     else (Inr (), db\<lparr>pd_codes := pd_codes db @ [code\<lparr>rc_ID := pd_nextCode db\<rparr>],
                     pd_nextCode := pd_nextCode db + 1\<rparr>))"

definition markUsed :: "int \<Rightarrow> time \<Rightarrow> RedeemCode \<Rightarrow> RedeemCode" where
  "markUsed userID now r = r\<lparr>rc_Status := StatusUsed, rc_UsedBy := Some userID, rc_UsedAt := Some now\<rparr>"

definition Use :: "int \<Rightarrow> int \<Rightarrow> unit pay_proc" where
  "Use i userID = call (\<lambda>db.
     if \<exists>r \<in> set (pd_codes db). rc_ID r = i \<and> rc_Status r = StatusUnused
     then (Inr (), db\<lparr>pd_codes := map (\<lambda>r. if rc_ID r = i \<and> rc_Status r = StatusUnused
                                          then markUsed userID (pd_clock db) r else r) (pd_codes db)\<rparr>)
     else (Inl ErrRedeemCodeUsed, db))"

definition Delete_code :: "int \<Rightarrow> unit pay_proc" where
  "Delete_code i = call (\<lambda>db. (Inr (), db\<lparr>pd_codes := filter (\<lambda>r. rc_ID r \<noteq> i) (pd_codes db)\<rparr>))"

section \<open>Users\<close>

definition GetUser :: "int \<Rightarrow> User pay_proc" where
  "GetUser i = call (\<lambda>db. (case find (\<lambda>u. ur_ID u = i) (pd_users db) of
     None \<Rightarrow> Inl ErrUserNotFound | Some u \<Rightarrow> Inr u, db))"

definition updateUser :: "int \<Rightarrow> (User \<Rightarrow> User) \<Rightarrow> unit pay_proc" where
  "updateUser i f = call (\<lambda>db.
     if \<exists>u \<in> set (pd_users db). ur_ID u = i
     then (Inr (), db\<lparr>pd_users := map (\<lambda>u. if ur_ID u = i then f u else u) (pd_users db)\<rparr>)
     else (Inl ErrUserNotFound, db))"

definition creditUser :: "rat \<Rightarrow> User \<Rightarrow> User" where
  "creditUser amount u = u\<lparr>ur_Balance := ur_Balance u + amount,
     ur_TotalRecharged := (if amount > 0 then ur_TotalRecharged u + amount else ur_TotalRecharged u)\<rparr>"

definition UpdateBalance :: "int \<Rightarrow> rat \<Rightarrow> unit pay_proc" where
  "UpdateBalance i amount = updateUser i (creditUser amount)"

definition ApplyRedeemBalanceAdjustment :: "int \<Rightarrow> rat \<Rightarrow> unit pay_proc" where
  "ApplyRedeemBalanceAdjustment i delta = updateUser i (\<lambda>u. u\<lparr>ur_Balance := max (ur_Balance u + delta) 0\<rparr>)"

definition UpdateConcurrency :: "int \<Rightarrow> int \<Rightarrow> unit pay_proc" where
  "UpdateConcurrency i amount = updateUser i (\<lambda>u. u\<lparr>ur_Concurrency := ur_Concurrency u + amount\<rparr>)"

definition ApplyRedeemConcurrencyAdjustment :: "int \<Rightarrow> int \<Rightarrow> unit pay_proc" where
  "ApplyRedeemConcurrencyAdjustment i delta =
     updateUser i (\<lambda>u. u\<lparr>ur_Concurrency := max (ur_Concurrency u + delta) 0\<rparr>)"

text \<open>What the use of the gateway costs may overdraw a balance.\<close>

definition DeductBalance :: "int \<Rightarrow> rat \<Rightarrow> unit pay_proc" where
  "DeductBalance i amount =
     orFail (call (\<lambda>db. (Inr (length (filter (\<lambda>u. ur_ID u = i \<and> ur_Balance u \<ge> amount) (pd_users db))),
        db\<lparr>pd_users := map (\<lambda>u. if ur_ID u = i \<and> ur_Balance u \<ge> amount
             then u\<lparr>ur_Balance := ur_Balance u - amount\<rparr> else u) (pd_users db)\<rparr>))) (\<lambda>n.
       if n > 0 then Return (Inr ()) else updateUser i (\<lambda>u. u\<lparr>ur_Balance := ur_Balance u - amount\<rparr>))"

text \<open>The amount that was taken: at most \<open>amount\<close>, and never more than there is.\<close>

definition deductible :: "rat \<Rightarrow> User \<Rightarrow> rat" where
  "deductible amount u = min amount (max (ur_Balance u) 0)"

definition DeductAvailableBalance :: "int \<Rightarrow> rat \<Rightarrow> rat pay_proc" where
  "DeductAvailableBalance i amount =
     (if amount < 0 then Return (Inl (BadRequest ''deduction amount must be nonnegative''))
      else call (\<lambda>db. case find (\<lambda>u. ur_ID u = i) (pd_users db) of
        None \<Rightarrow> (Inl ErrUserNotFound, db)
      | Some u \<Rightarrow> (Inr (deductible amount u), db\<lparr>pd_users :=
          map (\<lambda>u. if ur_ID u = i then u\<lparr>ur_Balance := ur_Balance u - deductible amount u\<rparr> else u) (pd_users db)\<rparr>)))"

section \<open>Locks and counters of the cache\<close>

definition AcquireRedeemLock :: "string \<Rightarrow> duration \<Rightarrow> bool pay_proc" where
  "AcquireRedeemLock code ttl = call (\<lambda>db.
     if \<exists>(c, t) \<in> set (pd_locks db). c = code \<and> t > pd_clock db then (Inr False, db)
     else (Inr True, db\<lparr>pd_locks := (code, pd_clock db + ttl) # filter (\<lambda>(c, _). c \<noteq> code) (pd_locks db)\<rparr>))"

definition ReleaseRedeemLock :: "string \<Rightarrow> unit pay_proc" where
  "ReleaseRedeemLock code = call (\<lambda>db.
     (Inr (), db\<lparr>pd_locks := filter (\<lambda>(c, _). c \<noteq> code) (pd_locks db)\<rparr>))"

definition attempts :: "pay_db \<Rightarrow> int \<Rightarrow> nat" where
  "attempts db u = (case map_of (pd_attempts db) u of None \<Rightarrow> 0 | Some n \<Rightarrow> n)"

definition GetRedeemAttemptCount :: "int \<Rightarrow> nat pay_proc" where
  "GetRedeemAttemptCount userID = call (\<lambda>db. (Inr (attempts db userID), db))"

definition IncrementRedeemAttemptCount :: "int \<Rightarrow> unit pay_proc" where
  "IncrementRedeemAttemptCount userID = call (\<lambda>db.
     (Inr (), db\<lparr>pd_attempts := AList.update userID (attempts db userID + 1) (pd_attempts db)\<rparr>))"

section \<open>Affiliates\<close>

definition findAffiliate :: "pay_db \<Rightarrow> int \<Rightarrow> Affiliate option" where
  "findAffiliate db userID = find (\<lambda>a. ar_UserID a = userID) (pd_affiliates db)"

definition EnsureUserAffiliate :: "int \<Rightarrow> Affiliate pay_proc" where
  "EnsureUserAffiliate userID =
     (if userID \<le> 0 then Return (Inl ErrUserNotFound)
      else call (\<lambda>db. case findAffiliate db userID of
        Some a \<Rightarrow> (Inr a, db)
      | None \<Rightarrow>
          if \<exists>u \<in> set (pd_users db). ur_ID u = userID
          then let a = \<lparr>ar_UserID = userID, ar_InviterID = None, ar_RatePercent = None, ar_Quota = 0,
                        ar_FrozenQuota = 0, ar_HistoryQuota = 0, ar_CreatedAt = pd_clock db\<rparr>
               in (Inr a, db\<lparr>pd_affiliates := pd_affiliates db @ [a]\<rparr>)
          else (Inl Database, db)))"

definition addQuota :: "rat \<Rightarrow> int \<Rightarrow> Affiliate \<Rightarrow> Affiliate" where
  "addQuota amount freezeHours a =
     (if freezeHours > 0
      then a\<lparr>ar_FrozenQuota := ar_FrozenQuota a + amount, ar_HistoryQuota := ar_HistoryQuota a + amount\<rparr>
      else a\<lparr>ar_Quota := ar_Quota a + amount, ar_HistoryQuota := ar_HistoryQuota a + amount\<rparr>)"

definition accrueQuotaTx :: "int \<Rightarrow> int \<Rightarrow> rat \<Rightarrow> int \<Rightarrow> int option \<Rightarrow> bool pay_proc" where
  "accrueQuotaTx inviterID inviteeUserID amount freezeHours sourceOrderID =
     orFail (call (\<lambda>db. (Inr (findAffiliate db inviterID \<noteq> None), db\<lparr>pd_affiliates :=
        map (\<lambda>a. if ar_UserID a = inviterID then addQuota amount freezeHours a else a) (pd_affiliates db)\<rparr>)))
       (\<lambda>affected. if \<not> affected then Return (Inr False)
         else orFail (call (\<lambda>db. (Inr (), db\<lparr>pd_ledger := pd_ledger db @
                [\<lparr>le_UserID = inviterID, le_Amount = amount, le_SourceUserID = inviteeUserID,
                  le_SourceOrderID = sourceOrderID\<rparr>]\<rparr>)))
              (\<lambda>_. Return (Inr True)))"

definition AccrueQuota :: "bool \<Rightarrow> int \<Rightarrow> int \<Rightarrow> rat \<Rightarrow> int \<Rightarrow> int option \<Rightarrow> bool pay_proc" where
  "AccrueQuota inTx inviterID inviteeUserID amount freezeHours sourceOrderID =
     (if amount \<le> 0 then Return (Inr False)
      else let body = accrueQuotaTx inviterID inviteeUserID amount freezeHours sourceOrderID
           in if inTx then body else transaction body)"

definition GetAccruedRebateFromInvitee :: "int \<Rightarrow> int \<Rightarrow> rat pay_proc" where
  "GetAccruedRebateFromInvitee inviterID inviteeUserID = call (\<lambda>db.
     (Inr (sum_list (map le_Amount (filter (\<lambda>e. le_UserID e = inviterID \<and> le_SourceUserID e = inviteeUserID)
        (pd_ledger db)))), db))"

end
