(* ===== verification/Payment_Redeem.thy ===== *)
theory Payment_Redeem
  imports Payment_Store
begin

text \<open>
  \<open>service/redeem_service.go\<close> and the accrual of invitation rebates in \<open>service/affiliate_service.go\<close>:
  a code is looked up, marked as used and paid out in one transaction.  Payment fulfilment credits
  a balance this way.  The caches of balances and subscriptions are left out, and so is the time
  after which the counter of failed attempts is forgotten.
\<close>

section \<open>Configuration\<close>

record Provider =
  pv_ProviderKey :: string
  pv_Cancelable :: bool
  pv_QueriesRefunds :: bool
  pv_Identity :: "(string \<times> string) list"

record AffiliateSettings =
  af_Enabled :: bool
  af_RebateDurationDays :: int
  af_PerInviteeCap :: rat
  af_FreezeHours :: int
  af_RebateRatePercent :: rat

text \<open>Services that need not be there, settings, and how a provider is made from an instance.\<close>

record pay_env =
  en_zones :: Zones
  en_affiliate :: "AffiliateSettings option"
  en_cache :: bool
  en_registry :: "(string \<Rightarrow> string) option"
  en_registryProvider :: "string \<Rightarrow> Provider option"
  en_createProvider :: "ProviderInstance \<Rightarrow> Provider option"
  en_decimal :: decimal_package

section \<open>Invitation rebates\<close>

text \<open>\<open>math.Round\<close> rounds half away from zero.\<close>

definition roundHalf :: "rat \<Rightarrow> int" where
  "roundHalf v = (if v \<ge> 0 then \<lfloor>v + 1 / 2\<rfloor> else - \<lfloor>1 / 2 - v\<rfloor>)"

definition roundTo :: "rat \<Rightarrow> nat \<Rightarrow> rat" where
  "roundTo v scale = of_int (roundHalf (v * 10 ^ scale)) / 10 ^ scale"

definition clampAffiliateRebateRate :: "rat \<Rightarrow> rat" where
  "clampAffiliateRebateRate v = (if v < 0 then 0 else if v > 100 then 100 else v)"

definition resolveRebateRatePercent :: "AffiliateSettings \<Rightarrow> Affiliate \<Rightarrow> rat" where
  "resolveRebateRatePercent af inviter = (case ar_RatePercent inviter of
     Some v \<Rightarrow> clampAffiliateRebateRate v
   | None \<Rightarrow> af_RebateRatePercent af)"

text \<open>What is left of the rebate under the cap for one invitee; \<open>None\<close> if nothing is.\<close>

definition capRebate :: "AffiliateSettings \<Rightarrow> int \<Rightarrow> int \<Rightarrow> rat \<Rightarrow> rat option pay_proc" where
  "capRebate af inviterID inviteeUserID rebate =
     (if af_PerInviteeCap af > 0 then
        orFail (GetAccruedRebateFromInvitee inviterID inviteeUserID) (\<lambda>existing.
          if existing \<ge> af_PerInviteeCap af then Return (Inr None)
          else let remaining = af_PerInviteeCap af - existing
               in Return (Inr (Some (if rebate > remaining then roundTo remaining 8 else rebate))))
      else Return (Inr (Some rebate)))"

definition rebateExpired :: "pay_env \<Rightarrow> AffiliateSettings \<Rightarrow> time \<Rightarrow> Affiliate \<Rightarrow> bool" where
  "rebateExpired en af now invitee \<longleftrightarrow> af_RebateDurationDays af > 0 \<and>
     now > AddDate (zn_db (en_zones en)) (ar_CreatedAt invitee) (af_RebateDurationDays af)"

definition accrueFromInviter ::
  "pay_env \<Rightarrow> AffiliateSettings \<Rightarrow> bool \<Rightarrow> int \<Rightarrow> rat \<Rightarrow> int option \<Rightarrow> Affiliate \<Rightarrow> int \<Rightarrow> rat pay_proc" where
  "accrueFromInviter en af inTx inviteeUserID baseRechargeAmount sourceOrderID invitee inviterID =
     orFail (EnsureUserAffiliate inviterID) (\<lambda>inviter.
     bind getNow (\<lambda>now.
     let rebate = roundTo (baseRechargeAmount * (resolveRebateRatePercent af inviter / 100)) 8
     in if rebateExpired en af now invitee then Return (Inr 0)
        else if rebate \<le> 0 then Return (Inr 0)
        else orFail (capRebate af inviterID inviteeUserID rebate) (\<lambda>capped. case capped of
            None \<Rightarrow> Return (Inr 0)
          | Some rebate \<Rightarrow>
              orFail (AccrueQuota inTx inviterID inviteeUserID rebate (af_FreezeHours af) sourceOrderID)
                (\<lambda>applied. Return (Inr (if applied then rebate else 0))))))"

definition AccrueInviteRebateForOrder ::
  "pay_env \<Rightarrow> AffiliateSettings \<Rightarrow> bool \<Rightarrow> int \<Rightarrow> rat \<Rightarrow> int option \<Rightarrow> rat pay_proc" where
  "AccrueInviteRebateForOrder en af inTx inviteeUserID baseRechargeAmount sourceOrderID =
     (if inviteeUserID \<le> 0 \<or> baseRechargeAmount \<le> 0 then Return (Inr 0)
      else if \<not> af_Enabled af then Return (Inr 0)
      else orFail (EnsureUserAffiliate inviteeUserID) (\<lambda>invitee. case ar_InviterID invitee of
          None \<Rightarrow> Return (Inr 0)
        | Some inviterID \<Rightarrow>
            if inviterID \<le> 0 then Return (Inr 0)
            else accrueFromInviter en af inTx inviteeUserID baseRechargeAmount sourceOrderID invitee inviterID))"

section \<open>Creating codes\<close>

definition CreateCode :: "RedeemCode \<Rightarrow> unit pay_proc" where
  "CreateCode code =
     (let code = code\<lparr>rc_Code := TrimSpace (rc_Code code)\<rparr>
      in if rc_Code code = [] then Return (Inl (BadRequest ''code is required''))
         else if rc_Type code \<noteq> RedeemTypeInvitation \<and> rc_Value code = 0
         then Return (Inl (BadRequest ''value must not be zero''))
         else bind getNow (\<lambda>now.
           if IsExpiredAt now code then Return (Inl ErrRedeemCodeExpired) else Create_code code))"

section \<open>Redeeming\<close>

datatype redeemRateLimitPolicy = enforceRedeemRateLimit | bypassRedeemRateLimit

definition redeemLockDuration :: duration where "redeemLockDuration = 10 * Second"
definition redeemMaxFailedAttempts :: nat where "redeemMaxFailedAttempts = 30"

definition checkRedeemRateLimit :: "pay_env \<Rightarrow> int \<Rightarrow> unit pay_proc" where
  "checkRedeemRateLimit en userID =
     (if \<not> en_cache en then Return (Inr ())
      else bind (GetRedeemAttemptCount userID) (\<lambda>r. case r of
          Inl e \<Rightarrow> Return (Inr ())
        | Inr count \<Rightarrow> Return (if count \<ge> redeemMaxFailedAttempts then Inl ErrRedeemRateLimited else Inr ())))"

definition incrementRedeemErrorCount :: "pay_env \<Rightarrow> redeemRateLimitPolicy \<Rightarrow> int \<Rightarrow> (pay_db, unit) proc" where
  "incrementRedeemErrorCount en policy userID =
     (if policy = enforceRedeemRateLimit \<and> en_cache en
      then bind (IncrementRedeemAttemptCount userID) (\<lambda>_. Return ()) else Return ())"

definition acquireRedeemLock :: "pay_env \<Rightarrow> string \<Rightarrow> (pay_db, bool) proc" where
  "acquireRedeemLock en code =
     (if \<not> en_cache en then Return True
      else bind (AcquireRedeemLock code redeemLockDuration) (\<lambda>r. Return (case r of Inl e \<Rightarrow> True | Inr b \<Rightarrow> b)))"

definition releaseRedeemLock :: "pay_env \<Rightarrow> string \<Rightarrow> (pay_db, unit) proc" where
  "releaseRedeemLock en code =
     (if \<not> en_cache en then Return () else bind (ReleaseRedeemLock code) (\<lambda>_. Return ()))"

text \<open>The notes that a subscription gets, in UTF-8.\<close>

definition redeemNotes :: "string \<Rightarrow> string" where
  "redeemNotes code =
     map char_of [0xE9, 0x80, 0x9A, 0xE8, 0xBF, 0x87, 0xE5, 0x85, 0x91, 0xE6, 0x8D, 0xA2, 0xE7, 0xA0, 0x81, 0x20::nat] @
     code @ map char_of [0x20, 0xE5, 0x85, 0x91, 0xE6, 0x8D, 0xA2::nat]"

definition reduceNotes :: "string \<Rightarrow> nat \<Rightarrow> string" where
  "reduceNotes code reduceDays =
     map char_of [0xE9, 0x80, 0x9A, 0xE8, 0xBF, 0x87, 0xE5, 0x85, 0x91, 0xE6, 0x8D, 0xA2, 0xE7, 0xA0, 0x81, 0x20::nat] @
     code @ map char_of [0x20, 0xE9, 0x80, 0x80, 0xE6, 0xAC, 0xBE, 0xE6, 0x89, 0xA3, 0xE5, 0x87, 0x8F, 0x20::nat] @
     Itoa reduceDays @ map char_of [0x20, 0xE5, 0xA4, 0xA9::nat]"

definition reduceOrCancelSubscription ::
  "pay_env \<Rightarrow> time \<Rightarrow> int \<Rightarrow> int \<Rightarrow> int \<Rightarrow> string \<Rightarrow> unit db_op" where
  "reduceOrCancelSubscription en now userID groupID reduceDays code = (\<lambda>db.
     case GetByUserIDAndGroupID userID groupID db of
       (Inl _, db) \<Rightarrow> (Inl ErrSubscriptionNotFound, db)
     | (Inr sub, db) \<Rightarrow>
         (let left = us_ExpiresAt sub - now; remaining = (if left < 0 then 0 else left div Day)
          in andThen
               (if remaining \<le> reduceDays
                then andThen (UpdateStatus (us_ID sub) SubscriptionStatusExpired)
                       (\<lambda>_. ExtendExpiry (us_ID sub) now)
                else ExtendExpiry (us_ID sub) (AddDate (zn_db (en_zones en)) (us_ExpiresAt sub) (- reduceDays)))
               (\<lambda>_. UpdateNotes (us_ID sub)
                  (us_Notes sub @ (if us_Notes sub \<noteq> [] then [CHR 0x0A] else []) @ reduceNotes code (nat reduceDays)))) db)"

text \<open>What a code is worth, inside the transaction that has marked it as used.\<close>

definition payOut :: "pay_env \<Rightarrow> int \<Rightarrow> RedeemCode \<Rightarrow> unit pay_proc" where
  "payOut en userID redeemCode = (case rc_Type redeemCode of
     RedeemTypeBalance \<Rightarrow>
       if rc_Value redeemCode < 0 then ApplyRedeemBalanceAdjustment userID (rc_Value redeemCode)
       else UpdateBalance userID (rc_Value redeemCode)
   | RedeemTypeConcurrency \<Rightarrow>
       let delta = (if rc_Value redeemCode \<ge> 0 then \<lfloor>rc_Value redeemCode\<rfloor> else \<lceil>rc_Value redeemCode\<rceil>)
       in if delta < 0 then ApplyRedeemConcurrencyAdjustment userID delta else UpdateConcurrency userID delta
   | RedeemTypeSubscription \<Rightarrow> (case rc_GroupID redeemCode of
       None \<Rightarrow> Return (Inl (BadRequest ''missing group_id''))
     | Some groupID \<Rightarrow> bind getNow (\<lambda>now.
         let validityDays = rc_ValidityDays redeemCode
         in if validityDays < 0 then
              onSubs (reduceOrCancelSubscription en now userID groupID (- validityDays) (rc_Code redeemCode))
            else orFail (onSubs (assignOrExtendSubscription True (en_zones en) now
                   \<lparr>as_UserID = userID, as_GroupID = groupID,
                    as_ValidityDays = (if validityDays = 0 then 30 else validityDays),
                    as_AssignedBy = 0, as_Notes = redeemNotes (rc_Code redeemCode)\<rparr>))
                 (\<lambda>_. Return (Inr ()))))
   | _ \<Rightarrow> Return (Inl (BadRequest ''unsupported redeem type'')))"

definition useAndPayOut :: "pay_env \<Rightarrow> int \<Rightarrow> RedeemCode \<Rightarrow> unit pay_proc" where
  "useAndPayOut en userID redeemCode =
     orFail (Use (rc_ID redeemCode) userID) (\<lambda>_. payOut en userID redeemCode)"

definition supportedRedeemType :: "RedeemCode \<Rightarrow> pay_error option" where
  "supportedRedeemType redeemCode = (case rc_Type redeemCode of
     RedeemTypeBalance \<Rightarrow> None
   | RedeemTypeConcurrency \<Rightarrow> None
   | RedeemTypeSubscription \<Rightarrow>
       if rc_GroupID redeemCode = None then Some (BadRequest ''missing group_id'') else None
   | _ \<Rightarrow> Some (BadRequest ''unsupported redeem type''))"

definition tryAccrueAffiliateRebateForRedeem :: "pay_env \<Rightarrow> bool \<Rightarrow> int \<Rightarrow> rat \<Rightarrow> (pay_db, unit) proc" where
  "tryAccrueAffiliateRebateForRedeem en skipAffiliate userID amount =
     (case en_affiliate en of
        None \<Rightarrow> Return ()
      | Some af \<Rightarrow>
          if skipAffiliate \<or> \<not> af_Enabled af then Return ()
          else bind (AccrueInviteRebateForOrder en af False userID amount None) (\<lambda>_. Return ()))"

text \<open>The part of \<open>redeem\<close> under the lock: for a code that may be used, for one that was found, and all of it.\<close>

definition redeemUsable :: "pay_env \<Rightarrow> int \<Rightarrow> bool \<Rightarrow> RedeemCode \<Rightarrow> RedeemCode pay_proc" where
  "redeemUsable en userID skipAffiliate redeemCode = (case supportedRedeemType redeemCode of
     Some e \<Rightarrow> Return (Inl e)
   | None \<Rightarrow>
       orFail (GetUser userID) (\<lambda>_.
       orFail (transaction (useAndPayOut en userID redeemCode)) (\<lambda>_.
       afterwards
         (if rc_Type redeemCode = RedeemTypeBalance \<and> rc_Value redeemCode > 0
          then tryAccrueAffiliateRebateForRedeem en skipAffiliate userID (rc_Value redeemCode)
          else Return ())
         (GetCodeByID (rc_ID redeemCode)))))"

definition refuseCode :: "pay_env \<Rightarrow> redeemRateLimitPolicy \<Rightarrow> int \<Rightarrow> pay_error \<Rightarrow> RedeemCode pay_proc" where
  "refuseCode en policy userID e = afterwards (incrementRedeemErrorCount en policy userID) (Return (Inl e))"

definition redeemFound :: "pay_env \<Rightarrow> int \<Rightarrow> redeemRateLimitPolicy \<Rightarrow> bool \<Rightarrow> RedeemCode \<Rightarrow> RedeemCode pay_proc" where
  "redeemFound en userID policy skipAffiliate redeemCode =
     bind getNow (\<lambda>now.
       if IsExpiredAt now redeemCode then refuseCode en policy userID ErrRedeemCodeExpired
       else bind getNow (\<lambda>now.
         if \<not> CanUse now redeemCode then refuseCode en policy userID ErrRedeemCodeUsed
         else redeemUsable en userID skipAffiliate redeemCode))"

definition redeemLocked :: "pay_env \<Rightarrow> int \<Rightarrow> string \<Rightarrow> redeemRateLimitPolicy \<Rightarrow> bool \<Rightarrow> RedeemCode pay_proc" where
  "redeemLocked en userID code policy skipAffiliate =
     bind (GetByCode code) (\<lambda>found. case found of
       Inl e \<Rightarrow> if e = ErrRedeemCodeNotFound then refuseCode en policy userID e else Return (Inl e)
     | Inr redeemCode \<Rightarrow> redeemFound en userID policy skipAffiliate redeemCode)"

definition redeem :: "pay_env \<Rightarrow> int \<Rightarrow> string \<Rightarrow> redeemRateLimitPolicy \<Rightarrow> bool \<Rightarrow> RedeemCode pay_proc" where
  "redeem en userID code policy skipAffiliate =
     orFail (if policy = enforceRedeemRateLimit then checkRedeemRateLimit en userID else Return (Inr ())) (\<lambda>_.
     bind (acquireRedeemLock en code) (\<lambda>locked.
       if \<not> locked then Return (Inl Conflict)
       else bind (redeemLocked en userID code policy skipAffiliate) (\<lambda>r.
            afterwards (releaseRedeemLock en code) (Return r))))"

definition Redeem :: "pay_env \<Rightarrow> int \<Rightarrow> string \<Rightarrow> RedeemCode pay_proc" where
  "Redeem en userID code = redeem en userID code enforceRedeemRateLimit False"

definition redeemForPaymentFulfillment :: "pay_env \<Rightarrow> int \<Rightarrow> string \<Rightarrow> RedeemCode pay_proc" where
  "redeemForPaymentFulfillment en userID code = redeem en userID code bypassRedeemRateLimit True"

text \<open>Deleting a code reads it first.\<close>

definition DeleteCode :: "int \<Rightarrow> unit pay_proc" where
  "DeleteCode i =
     orFail (GetCodeByID i) (\<lambda>code. if IsUsed code then Return (Inl Conflict) else Delete_code i)"

end
