(* ===== verification/Payment_Fulfilment.thy ===== *)
theory Payment_Fulfilment
  imports Payment_Redeem
begin

text \<open>
  \<open>service/payment_fulfillment.go\<close> and \<open>service/payment_order_lifecycle.go\<close>: what happens to an order
  from the first notification of its payment to its completion, and how open orders are cancelled,
  expired and checked with the provider.

  Every call of the database, of the cache and of a provider is a step of its own, so that a process
  can be interrupted, and overtaken, between any two of them.  The mails to the user are left out.
\<close>

section \<open>The lease of an order\<close>

definition Microsecond :: duration where "Microsecond = 1000"
definition paymentFulfillmentLeaseDuration :: duration where "paymentFulfillmentLeaseDuration = 5 * Minute"

definition clearFailed :: "PaymentOrder \<Rightarrow> PaymentOrder" where
  "clearFailed o1 = o1\<lparr>po_FailedAt := None, po_FailedReason := None\<rparr>"

definition leasable :: "int \<Rightarrow> time \<Rightarrow> PaymentOrder \<Rightarrow> bool" where
  "leasable oid staleBefore o1 \<longleftrightarrow> po_ID o1 = oid \<and>
     (po_Status o1 \<in> {OrderStatusPaid, OrderStatusFailed} \<or>
      po_Status o1 = OrderStatusRecharging \<and> po_UpdatedAt o1 \<le> staleBefore)"

definition acquirePaymentFulfillmentLease :: "PaymentOrder \<Rightarrow> time option pay_proc" where
  "acquirePaymentFulfillmentLease o1 =
     bind getNow (\<lambda>clock.
     let now = clock div Microsecond * Microsecond; staleBefore = now - paymentFulfillmentLeaseDuration
     in orFail (updateOrders (leasable (po_ID o1) staleBefore)
                  (\<lambda>r. clearFailed (r\<lparr>po_Status := OrderStatusRecharging, po_UpdatedAt := now\<rparr>))) (\<lambda>updated.
        orFail (getOrder (po_ID o1)) (\<lambda>current.
          if updated = 0 then
            Return (if po_Status current = OrderStatusCompleted then Inr None else Inl Conflict)
          else if po_Status current \<noteq> OrderStatusRecharging then Return (Inl Conflict)
          else Return (Inr (Some (po_UpdatedAt current))))))"

definition leased :: "int \<Rightarrow> time \<Rightarrow> PaymentOrder \<Rightarrow> bool" where
  "leased oid lease o1 \<longleftrightarrow> po_ID o1 = oid \<and> po_Status o1 = OrderStatusRecharging \<and> po_UpdatedAt o1 = lease"

definition markCompleted :: "PaymentOrder \<Rightarrow> time \<Rightarrow> string \<Rightarrow> unit pay_proc" where
  "markCompleted o1 lease auditAction =
     bind getNow (\<lambda>now.
     orFail (updateOrders (leased (po_ID o1) lease)
               (\<lambda>r. r\<lparr>po_Status := OrderStatusCompleted, po_CompletedAt := Some now\<rparr>)) (\<lambda>updated.
       if updated = 0 then
         bind (getOrder (po_ID o1)) (\<lambda>r. case r of
           Inr current \<Rightarrow> Return (if po_Status current = OrderStatusCompleted then Inr () else Inl Conflict)
         | Inl e \<Rightarrow> Return (Inl Conflict))
       else bind (hasAuditLog (po_ID o1) auditAction) (\<lambda>logged.
         afterwards (if logged then Return () else writeAuditLog (po_ID o1) auditAction)
           (Return (Inr ())))))"

definition markFailed :: "int \<Rightarrow> time \<Rightarrow> pay_error \<Rightarrow> (pay_db, unit) proc" where
  "markFailed oid lease cause =
     bind getNow (\<lambda>now.
     bind (updateOrders (leased oid lease)
             (\<lambda>r. r\<lparr>po_Status := OrderStatusFailed, po_FailedAt := Some now, po_FailedReason := Some cause\<rparr>)) (\<lambda>r.
       case r of
         Inr c \<Rightarrow> if c > 0 then writeAuditLog oid ''FULFILLMENT_FAILED'' else Return ()
       | Inl e \<Rightarrow> Return ()))"

section \<open>The rebate of an order\<close>

definition affiliateRebateBaseAmount :: "PaymentOrder \<Rightarrow> rat" where
  "affiliateRebateBaseAmount o1 = (case po_OrderType o1 of
     OrderTypeBalance \<Rightarrow> po_Amount o1 | OrderTypeSubscription \<Rightarrow> po_Amount o1 | OtherOrderType _ \<Rightarrow> 0)"

text \<open>\<open>INSERT ... WHERE NOT EXISTS ... ON CONFLICT DO NOTHING\<close>: whether a row was inserted.\<close>

definition tryClaimAffiliateRebateAudit :: "int \<Rightarrow> bool pay_proc" where
  "tryClaimAffiliateRebateAudit orderID = call (\<lambda>db.
     if hasAudit db orderID [''AFFILIATE_REBATE_APPLIED'', ''AFFILIATE_REBATE_SKIPPED''] then (Inr False, db)
     else (Inr True, db\<lparr>pd_audit := pd_audit db @
            [\<lparr>al_OrderID = orderID, al_Action = ''AFFILIATE_REBATE_APPLIED'', al_Pending = None\<rparr>]\<rparr>))"

definition updateClaimedAffiliateRebateAudit :: "int \<Rightarrow> string \<Rightarrow> unit pay_proc" where
  "updateClaimedAffiliateRebateAudit orderID action = call (\<lambda>db.
     if hasAudit db orderID [''AFFILIATE_REBATE_APPLIED'']
     then (Inr (), db\<lparr>pd_audit := map (\<lambda>e. if al_OrderID e = orderID \<and> al_Action e = ''AFFILIATE_REBATE_APPLIED''
                                          then e\<lparr>al_Action := action\<rparr> else e) (pd_audit db)\<rparr>)
     else (Inl Database, db))"

definition rebateTx :: "pay_env \<Rightarrow> AffiliateSettings \<Rightarrow> PaymentOrder \<Rightarrow> rat \<Rightarrow> unit pay_proc" where
  "rebateTx en af o1 baseAmount =
     orFail (tryClaimAffiliateRebateAudit (po_ID o1)) (\<lambda>claimed.
       if \<not> claimed then Return (Inl AlreadyClaimed)
       else orFail (AccrueInviteRebateForOrder en af True (po_UserID o1) baseAmount (Some (po_ID o1))) (\<lambda>rebateAmount.
         updateClaimedAffiliateRebateAudit (po_ID o1)
           (if rebateAmount \<le> 0 then ''AFFILIATE_REBATE_SKIPPED'' else ''AFFILIATE_REBATE_APPLIED'')))"

definition applyAffiliateRebateForOrder :: "pay_env \<Rightarrow> PaymentOrder \<Rightarrow> unit pay_proc" where
  "applyAffiliateRebateForOrder en o1 =
     (let baseAmount = affiliateRebateBaseAmount o1
      in if baseAmount \<le> 0 then Return (Inr ())
         else case en_affiliate en of
           None \<Rightarrow> Return (Inr ())
         | Some af \<Rightarrow> bind (transaction (rebateTx en af o1 baseAmount)) (\<lambda>r. case r of
             Inr _ \<Rightarrow> Return (Inr ())
           | Inl e \<Rightarrow>
               if e = AlreadyClaimed then Return (Inr ())
               else afterwards (writeAuditLog (po_ID o1) ''AFFILIATE_REBATE_FAILED'') (Return (Inl e))))"

section \<open>Balance orders\<close>

datatype redeemAction = redeemActionCreate | redeemActionRedeem | redeemActionSkipCompleted

definition resolveRedeemAction :: "pay_error + RedeemCode \<Rightarrow> pay_error + redeemAction" where
  "resolveRedeemAction existing = (case existing of
     Inl e \<Rightarrow> if e = ErrRedeemCodeNotFound then Inr redeemActionCreate else Inl e
   | Inr code \<Rightarrow> if IsUsed code then Inr redeemActionSkipCompleted else Inr redeemActionRedeem)"

definition validatePaymentRedeemCode :: "PaymentOrder \<Rightarrow> RedeemCode \<Rightarrow> pay_error option" where
  "validatePaymentRedeemCode o1 code =
     (if rc_Code code \<noteq> po_RechargeCode o1 then Some (RedeemCodeMismatch ''code'')
      else if rc_Type code \<noteq> RedeemTypeBalance then Some (RedeemCodeMismatch ''type'')
      else if \<bar>rc_Value code - po_Amount o1\<bar> > 1 / 10 ^ 8 then Some (RedeemCodeMismatch ''amount'')
      else case rc_Status code of
        StatusUnused \<Rightarrow> if rc_UsedBy code \<noteq> None then Some (RedeemCodeMismatch ''unused code has a user'') else None
      | StatusUsed \<Rightarrow> if rc_UsedBy code \<noteq> Some (po_UserID o1) then Some (RedeemCodeMismatch ''user'') else None
      | _ \<Rightarrow> Some (RedeemCodeMismatch ''status''))"

definition paymentCode :: "PaymentOrder \<Rightarrow> RedeemCode" where
  "paymentCode o1 = \<lparr>rc_ID = 0, rc_Code = po_RechargeCode o1, rc_Type = RedeemTypeBalance,
     rc_Value = po_Amount o1, rc_Status = StatusUnused, rc_UsedBy = None, rc_UsedAt = None,
     rc_ExpiresAt = None, rc_GroupID = None, rc_ValidityDays = 0\<rparr>"

text \<open>What is left to do for the code of the order: an error, or the action.\<close>

definition balanceAction :: "PaymentOrder \<Rightarrow> pay_error + RedeemCode \<Rightarrow> pay_error + redeemAction" where
  "balanceAction o1 existing = (case resolveRedeemAction existing of
     Inl e \<Rightarrow> Inl e
   | Inr action \<Rightarrow>
       (case (case existing of Inr code \<Rightarrow> validatePaymentRedeemCode o1 code | Inl _ \<Rightarrow> None) of
          Some e \<Rightarrow> Inl e | None \<Rightarrow> Inr action))"

definition redeemOrderCode :: "pay_env \<Rightarrow> PaymentOrder \<Rightarrow> redeemAction \<Rightarrow> unit pay_proc" where
  "redeemOrderCode en o1 action =
     (if action = redeemActionSkipCompleted then Return (Inr ())
      else orFail (if action = redeemActionCreate then CreateCode (paymentCode o1) else Return (Inr ())) (\<lambda>_.
           orFail (redeemForPaymentFulfillment en (po_UserID o1) (po_RechargeCode o1)) (\<lambda>_. Return (Inr ()))))"

definition doBalance :: "pay_env \<Rightarrow> PaymentOrder \<Rightarrow> time \<Rightarrow> unit pay_proc" where
  "doBalance en o1 lease =
     bind (GetByCode (po_RechargeCode o1)) (\<lambda>existing. case balanceAction o1 existing of
       Inl e \<Rightarrow> Return (Inl e)
     | Inr action \<Rightarrow>
         orFail (redeemOrderCode en o1 action) (\<lambda>_.
         orFail (applyAffiliateRebateForOrder en o1) (\<lambda>_.
         markCompleted o1 lease ''RECHARGE_SUCCESS'')))"

definition fulfillable :: "PaymentOrder \<Rightarrow> pay_error option" where
  "fulfillable o1 =
     (if psIsRefundStatus (po_Status o1) then Some (BadRequest ''refund-related order cannot fulfill'')
      else if po_Status o1 \<notin> {OrderStatusPaid, OrderStatusFailed, OrderStatusRecharging}
      then Some (BadRequest ''order cannot fulfill in this status'') else None)"

definition underLease :: "PaymentOrder \<Rightarrow> (time \<Rightarrow> unit pay_proc) \<Rightarrow> unit pay_proc" where
  "underLease o1 work =
     orFail (acquirePaymentFulfillmentLease o1) (\<lambda>lease. case lease of
       None \<Rightarrow> Return (Inr ())
     | Some lease \<Rightarrow> bind (work lease) (\<lambda>r. case r of
         Inr _ \<Rightarrow> Return (Inr ())
       | Inl e \<Rightarrow> afterwards (markFailed (po_ID o1) lease e) (Return (Inl e))))"

definition ExecuteBalanceFulfillment :: "pay_env \<Rightarrow> int \<Rightarrow> unit pay_proc" where
  "ExecuteBalanceFulfillment en oid =
     bind (getOrder oid) (\<lambda>r. case r of
       Inl e \<Rightarrow> Return (Inl NotFound)
     | Inr o1 \<Rightarrow>
         if po_Status o1 = OrderStatusCompleted then Return (Inr ())
         else case fulfillable o1 of
           Some e \<Rightarrow> Return (Inl e)
         | None \<Rightarrow> underLease o1 (doBalance en o1))"

section \<open>Subscription orders\<close>

fun lfOnly :: "string \<Rightarrow> string" where
  "lfOnly (a # b # s) = (if a = CHR 0x0D \<and> b = CHR 0x0A then CHR 0x0A # lfOnly s else a # lfOnly (b # s))"
| "lfOnly s = s"

definition hasPaymentSubscriptionOrderNote :: "string \<Rightarrow> string \<Rightarrow> bool" where
  "hasPaymentSubscriptionOrderNote notes orderNote \<longleftrightarrow>
     list_ex (\<lambda>line. TrimSpace line = orderNote) (splitOn (CHR 0x0A) (lfOnly notes))"

definition signedItoa :: "int \<Rightarrow> string" where
  "signedItoa i = (if i < 0 then ''-'' @ Itoa (nat (- i)) else Itoa (nat i))"

definition paymentSubscriptionOrderNote :: "int \<Rightarrow> string" where
  "paymentSubscriptionOrderNote orderID = ''payment order '' @ signedItoa orderID"

definition hasPaymentSubscriptionAssignmentAudit :: "int \<Rightarrow> bool pay_proc" where
  "hasPaymentSubscriptionAssignmentAudit orderID = countAudit orderID [''SUBSCRIPTION_ASSIGNED'', ''SUBSCRIPTION_SUCCESS'']"

definition assignNow :: "pay_env \<Rightarrow> PaymentOrder \<Rightarrow> int \<Rightarrow> int \<Rightarrow> unit pay_proc" where
  "assignNow en o1 groupID days =
     bind getNow (\<lambda>now.
     orFail (onSubs (assignOrExtendSubscription True (en_zones en) now
              \<lparr>as_UserID = po_UserID o1, as_GroupID = groupID, as_ValidityDays = days, as_AssignedBy = 0,
               as_Notes = paymentSubscriptionOrderNote (po_ID o1)\<rparr>))
       (\<lambda>_. Return (Inr ())))"

text \<open>
  The rest of the transaction after its look at the audit entries.  Two transactions may both have
  found none: the unique index then fails the second, and all it did is rolled back.
\<close>

definition assignOnce :: "pay_env \<Rightarrow> PaymentOrder \<Rightarrow> int \<Rightarrow> int \<Rightarrow> unit pay_proc" where
  "assignOnce en o1 groupID days =
     bind (onSubs (GetByUserIDAndGroupID (po_UserID o1) groupID)) (\<lambda>existing.
     orFail
       (case existing of
          Inr sub \<Rightarrow>
            if hasPaymentSubscriptionOrderNote (us_Notes sub) (paymentSubscriptionOrderNote (po_ID o1))
            then Return (Inr ()) else assignNow en o1 groupID days
        | Inl e \<Rightarrow>
            if e \<noteq> SubscriptionError ErrSubscriptionNotFound then Return (Inl e)
            else assignNow en o1 groupID days)
       (\<lambda>_. createAudit (po_ID o1) ''SUBSCRIPTION_ASSIGNED'' None))"

text \<open>Dropping the cached subscription may fail; the caches themselves are left out.\<close>

definition invalidateSubscriptionCaches :: "unit pay_proc" where
  "invalidateSubscriptionCaches = call (\<lambda>db. (Inr (), db))"

definition ensurePaymentSubscriptionAssigned :: "pay_env \<Rightarrow> PaymentOrder \<Rightarrow> int \<Rightarrow> int \<Rightarrow> unit pay_proc" where
  "ensurePaymentSubscriptionAssigned en o1 groupID days =
     orFail (atomically beginTx) (\<lambda>_.
     orFail (hasPaymentSubscriptionAssignmentAudit (po_ID o1)) (\<lambda>alreadyAssigned.
     bind (atomically (finishTx (runs (if alreadyAssigned then Return (Inr ())
                                       else assignOnce en o1 groupID days)))) (\<lambda>r. case r of
       Inr _ \<Rightarrow> invalidateSubscriptionCaches
     | Inl e \<Rightarrow>
         if e = Conflict then
           bind (hasPaymentSubscriptionAssignmentAudit (po_ID o1)) (\<lambda>claimed.
             if claimed = Inr True then invalidateSubscriptionCaches else Return (Inl e))
         else Return (Inl e))))"

definition doSub :: "pay_env \<Rightarrow> PaymentOrder \<Rightarrow> int \<Rightarrow> int \<Rightarrow> time \<Rightarrow> unit pay_proc" where
  "doSub en o1 gid days lease =
     bind (onSubs (GetGroup gid)) (\<lambda>r. case r of
       Inl e \<Rightarrow> Return (Inl GroupInactive)
     | Inr g \<Rightarrow>
         if gr_Status g \<noteq> ''active'' then Return (Inl GroupInactive)
         else orFail (ensurePaymentSubscriptionAssigned en o1 gid days) (\<lambda>_.
              orFail (applyAffiliateRebateForOrder en o1) (\<lambda>_.
              markCompleted o1 lease ''SUBSCRIPTION_SUCCESS'')))"

definition ExecuteSubscriptionFulfillment :: "pay_env \<Rightarrow> int \<Rightarrow> unit pay_proc" where
  "ExecuteSubscriptionFulfillment en oid =
     bind (getOrder oid) (\<lambda>r. case r of
       Inl e \<Rightarrow> Return (Inl NotFound)
     | Inr o1 \<Rightarrow>
         if po_Status o1 = OrderStatusCompleted then Return (Inr ())
         else (case fulfillable o1 of
           Some e \<Rightarrow> Return (Inl e)
         | None \<Rightarrow> (case (po_SubscriptionGroupID o1, po_SubscriptionDays o1) of
             (Some gid, Some days) \<Rightarrow> underLease o1 (doSub en o1 gid days)
           | _ \<Rightarrow> Return (Inl (BadRequest ''missing subscription info'')))))"

definition executeFulfillment :: "pay_env \<Rightarrow> int \<Rightarrow> unit pay_proc" where
  "executeFulfillment en oid =
     orFail (getOrder oid) (\<lambda>o1.
       if po_OrderType o1 = OrderTypeSubscription then ExecuteSubscriptionFulfillment en oid
       else ExecuteBalanceFulfillment en oid)"

definition RetryFulfillment :: "pay_env \<Rightarrow> int \<Rightarrow> unit pay_proc" where
  "RetryFulfillment en oid =
     bind (getOrder oid) (\<lambda>r. case r of
       Inl e \<Rightarrow> Return (Inl NotFound)
     | Inr o1 \<Rightarrow>
         if po_PaidAt o1 = None then Return (Inl (BadRequest ''order is not paid''))
         else if psIsRefundStatus (po_Status o1)
         then Return (Inl (BadRequest ''refund-related order cannot retry''))
         else if po_Status o1 = OrderStatusCompleted then Return (Inl (BadRequest ''order already completed''))
         else if po_Status o1 \<notin> {OrderStatusFailed, OrderStatusPaid, OrderStatusRecharging}
         then Return (Inl (BadRequest ''only paid, failed, and recoverable recharging orders can retry''))
         else afterwards (writeAuditLog oid ''RECHARGE_RETRY'') (executeFulfillment en oid))"

section \<open>Notifications\<close>

record PaymentNotification =
  nt_TradeNo :: string
  nt_OrderID :: string
  nt_Amount :: float64
  nt_Status :: string
  nt_Metadata :: "(string \<times> string) list"

definition NotificationStatusSuccess :: string where "NotificationStatusSuccess = ''success''"
definition orderIDPrefix :: string where "orderIDPrefix = ''sub2_''"
definition paymentGraceMinutes :: duration where "paymentGraceMinutes = 5 * Minute"

definition parseLegacyPaymentOrderID :: "string \<Rightarrow> int option" where
  "parseLegacyPaymentOrderID orderID =
     (let orderID = TrimSpace orderID
      in if \<not> HasPrefix orderID orderIDPrefix then None
         else case ParseInt (drop (length orderIDPrefix) orderID) of
           None \<Rightarrow> None | Some oid \<Rightarrow> if oid \<le> 0 then None else Some oid)"

text \<open>Looking an instance up reads their table.\<close>

definition lookupInstance ::
  "(ProviderInstance list \<Rightarrow> PaymentOrder \<Rightarrow> pay_error + ProviderInstance option) \<Rightarrow> PaymentOrder \<Rightarrow>
     ProviderInstance option pay_proc" where
  "lookupInstance resolve o1 = orFail instances (\<lambda>table. Return (resolve table o1))"

definition alreadyProcessed :: "pay_env \<Rightarrow> PaymentOrder \<Rightarrow> unit pay_proc" where
  "alreadyProcessed en o1 =
     bind (getOrder (po_ID o1)) (\<lambda>r. case r of
       Inl e \<Rightarrow> Return (Inr ())
     | Inr cur \<Rightarrow>
         if po_Status cur \<in> {OrderStatusCompleted, OrderStatusRefunded} then Return (Inr ())
         else if po_Status cur \<in> {OrderStatusFailed, OrderStatusPaid, OrderStatusRecharging}
         then executeFulfillment en (po_ID o1)
         else if po_Status cur = OrderStatusExpired
         then afterwards (writeAuditLog (po_ID o1) ''PAYMENT_AFTER_EXPIRY'') (Return (Inr ()))
         else Return (Inr ()))"

definition payable :: "int \<Rightarrow> time \<Rightarrow> PaymentOrder \<Rightarrow> bool" where
  "payable oid grace o1 \<longleftrightarrow> po_ID o1 = oid \<and>
     (po_Status o1 = OrderStatusPending \<or> po_Status o1 = OrderStatusCancelled \<or>
      po_Status o1 = OrderStatusExpired \<and> po_UpdatedAt o1 \<ge> grace)"

definition paidOrder :: "rat \<Rightarrow> string \<Rightarrow> time \<Rightarrow> PaymentOrder \<Rightarrow> PaymentOrder" where
  "paidOrder paid tradeNo now o1 = clearFailed (o1\<lparr>po_Status := OrderStatusPaid, po_PayAmount := paid,
     po_PaymentTradeNo := tradeNo, po_PaidAt := Some now\<rparr>)"

definition toPaid :: "pay_env \<Rightarrow> PaymentOrder \<Rightarrow> string \<Rightarrow> rat \<Rightarrow> unit pay_proc" where
  "toPaid en o1 tradeNo paid =
     bind getNow (\<lambda>now.
     orFail (updateOrders (payable (po_ID o1) (now - paymentGraceMinutes)) (paidOrder paid tradeNo now)) (\<lambda>c.
       if c = 0 then alreadyProcessed en o1
       else afterwards
              (if po_Status o1 \<in> {OrderStatusCancelled, OrderStatusExpired}
               then writeAuditLog (po_ID o1) ''ORDER_RECOVERED'' else Return ())
              (afterwards (writeAuditLog (po_ID o1) ''ORDER_PAID'') (executeFulfillment en (po_ID o1)))))"

definition confirmPayment ::
  "pay_env \<Rightarrow> int \<Rightarrow> string \<Rightarrow> float64 \<Rightarrow> string \<Rightarrow> (string \<times> string) list \<Rightarrow> unit pay_proc" where
  "confirmPayment en oid tradeNo paid pk metadata =
     bind (getOrder oid) (\<lambda>r. case r of
       Inl e \<Rightarrow> Return (Inr ())
     | Inr o1 \<Rightarrow> bind (lookupInstance getOrderProviderInstance o1) (\<lambda>inst.
         let instanceProviderKey = (case inst of Inr (Some i) \<Rightarrow> pi_ProviderKey i | _ \<Rightarrow> []);
             expected = expectedNotificationProviderKeyForOrder (en_registry en) o1 instanceProviderKey
         in if expected \<noteq> [] \<and> TrimSpace pk \<noteq> [] \<and> \<not> EqualFold expected (TrimSpace pk)
            then afterwards (writeAuditLog (po_ID o1) ''PAYMENT_PROVIDER_MISMATCH'') (Return (Inl ProviderMismatch))
            else case validateProviderSnapshotMetadata o1 pk metadata of
              Some e \<Rightarrow> afterwards (writeAuditLog (po_ID o1) ''PAYMENT_PROVIDER_METADATA_MISMATCH'') (Return (Inl e))
            | None \<Rightarrow>
                if \<not> isValidProviderAmount paid
                then afterwards (writeAuditLog (po_ID o1) ''PAYMENT_INVALID_AMOUNT'') (Return (Inl InvalidPaidAmount))
                else if \<bar>finite paid - po_PayAmount o1\<bar> > paymentAmountToleranceForCurrency (PaymentOrderCurrency o1)
                then afterwards (writeAuditLog (po_ID o1) ''PAYMENT_AMOUNT_MISMATCH'') (Return (Inl AmountMismatch))
                else toPaid en o1 tradeNo (finite paid)))"

definition HandlePaymentNotification :: "pay_env \<Rightarrow> PaymentNotification \<Rightarrow> string \<Rightarrow> unit pay_proc" where
  "HandlePaymentNotification en n pk =
     (if nt_Status n \<noteq> NotificationStatusSuccess then Return (Inr ())
      else bind (orderByOutTradeNo (nt_OrderID n)) (\<lambda>r. case r of
        Inr order \<Rightarrow> confirmPayment en (po_ID order) (nt_TradeNo n) (nt_Amount n) pk (nt_Metadata n)
      | Inl e \<Rightarrow> (case (if e = NotFound then parseLegacyPaymentOrderID (nt_OrderID n) else None) of
          Some oid \<Rightarrow> confirmPayment en oid (nt_TradeNo n) (nt_Amount n) pk (nt_Metadata n)
        | None \<Rightarrow> Return (Inl (if e = NotFound then ErrOrderNotFound else e)))))"

section \<open>Open orders\<close>

definition paymentOrderAllowsRegistryFallback :: "PaymentOrder \<Rightarrow> bool" where
  "paymentOrderAllowsRegistryFallback order \<longleftrightarrow>
     psOrderProviderSnapshot order = None \<and> TrimSpace (psStringValue (po_ProviderInstanceID order)) = [] \<and>
     TrimSpace (psStringValue (po_ProviderKey order)) = []"

definition paymentOrderFallbackProviderKey :: "(string \<Rightarrow> string) option \<Rightarrow> PaymentOrder \<Rightarrow> string" where
  "paymentOrderFallbackProviderKey registry order =
     (let base = TrimSpace (GetBasePaymentType (TrimSpace (po_PaymentType order)))
      in case registry of
           None \<Rightarrow> base
         | Some key \<Rightarrow> if TrimSpace (key (po_PaymentType order)) \<noteq> [] then TrimSpace (key (po_PaymentType order)) else base)"

definition webhookRegistryFallbackAllowed :: "string \<Rightarrow> (pay_db, bool) proc" where
  "webhookRegistryFallbackAllowed providerKey =
     (let providerKey = TrimSpace providerKey
      in if providerKey = [] then Return False
         else bind instances (\<lambda>r. Return (case r of
           Inl e \<Rightarrow> False
         | Inr table \<Rightarrow> length (filter (\<lambda>i. pi_ProviderKey i = providerKey \<and> pi_Enabled i) table) \<le> 1)))"

definition providerOr :: "pay_error \<Rightarrow> Provider option \<Rightarrow> Provider pay_proc" where
  "providerOr e prov = Return (case prov of None \<Rightarrow> Inl e | Some p \<Rightarrow> Inr p)"

definition getOrderProvider :: "pay_env \<Rightarrow> PaymentOrder \<Rightarrow> Provider pay_proc" where
  "getOrderProvider en o1 =
     orFail (lookupInstance getOrderProviderInstance o1) (\<lambda>inst. case inst of
       Some i \<Rightarrow> providerOr (ProviderError ''create provider from instance'') (en_createProvider en i)
     | None \<Rightarrow>
         if \<not> paymentOrderAllowsRegistryFallback o1
         then Return (Inl (ProviderError ''provider instance is unresolved''))
         else let providerKey = paymentOrderFallbackProviderKey (en_registry en) o1
              in if providerKey = [] then Return (Inl (ProviderError ''provider fallback key is missing''))
                 else bind (webhookRegistryFallbackAllowed providerKey) (\<lambda>allowed.
                   if \<not> allowed then Return (Inl (ProviderError ''provider fallback is ambiguous''))
                   else providerOr (ProviderError ''provider not found'') (en_registryProvider en (po_PaymentType o1))))"

definition paymentOrderQueryReference :: "PaymentOrder \<Rightarrow> Provider \<Rightarrow> string" where
  "paymentOrderQueryReference order prov =
     (let fromSnapshot = (case psOrderProviderSnapshot order of
            Some snapshot \<Rightarrow> TrimSpace (sn_ProviderKey snapshot) | None \<Rightarrow> []);
          providerKey = (if TrimSpace (pv_ProviderKey prov) \<noteq> [] then TrimSpace (pv_ProviderKey prov)
                         else if fromSnapshot \<noteq> [] then fromSnapshot
                         else if TrimSpace (psStringValue (po_ProviderKey order)) \<noteq> []
                         then TrimSpace (psStringValue (po_ProviderKey order))
                         else TrimSpace (po_PaymentType order))
      in if GetBasePaymentType providerKey \<in> {TypeAlipay, TypeEasyPay, TypeWxpay}
         then TrimSpace (po_OutTradeNo order)
         else if TrimSpace (po_PaymentTradeNo order) \<noteq> [] then TrimSpace (po_PaymentTradeNo order)
         else TrimSpace (po_OutTradeNo order))"

definition paymentOrderShouldPersistUpstreamTradeNo :: "string \<Rightarrow> string \<Rightarrow> string \<Rightarrow> bool" where
  "paymentOrderShouldPersistUpstreamTradeNo queryRef upstreamTradeNo currentTradeNo \<longleftrightarrow>
     TrimSpace upstreamTradeNo \<noteq> [] \<and>
     \<not> EqualFold (TrimSpace upstreamTradeNo) (TrimSpace currentTradeNo) \<and>
     \<not> EqualFold (TrimSpace upstreamTradeNo) (TrimSpace queryRef)"

text \<open>Asking the provider; an answer of another kind, or none, is an error.\<close>

definition ProviderStatusPaid :: string where "ProviderStatusPaid = ''paid''"

definition queryOrder :: "(pay_db, QueryOrderResponse option) proc" where
  "queryOrder = bind takeReply (\<lambda>r. Return (case r of OrderReply resp \<Rightarrow> Some resp | _ \<Rightarrow> None))"

definition requeryPaidOrderOnce :: "string \<Rightarrow> (pay_db, QueryOrderResponse option) proc" where
  "requeryPaidOrderOnce queryRef =
     (if TrimSpace queryRef = [] then Return None
      else bind queryOrder (\<lambda>r. Return (case r of
        None \<Rightarrow> None
      | Some resp \<Rightarrow> if qr_Status resp = ProviderStatusPaid \<and> isValidProviderAmount (qr_Amount resp)
                     then Some resp else None)))"

definition settlePaid ::
  "pay_env \<Rightarrow> PaymentOrder \<Rightarrow> Provider \<Rightarrow> string \<Rightarrow> QueryOrderResponse \<Rightarrow> (pay_db, bool) proc" where
  "settlePaid en o1 prov queryRef resp =
     (let upstreamTradeNo = TrimSpace (qr_TradeNo resp);
          persist = paymentOrderShouldPersistUpstreamTradeNo queryRef upstreamTradeNo (po_PaymentTradeNo o1);
          notificationTradeNo = (if persist then upstreamTradeNo else po_PaymentTradeNo o1)
      in afterwards
           (if persist
            then bind (updateOrders (\<lambda>r. po_ID r = po_ID o1) (po_PaymentTradeNo_update (\<lambda>_. upstreamTradeNo)))
                   (\<lambda>_. Return ())
            else Return ())
           (afterwards
             (HandlePaymentNotification en
                \<lparr>nt_TradeNo = notificationTradeNo, nt_OrderID = po_OutTradeNo o1, nt_Amount = qr_Amount resp,
                 nt_Status = NotificationStatusSuccess, nt_Metadata = qr_Metadata resp\<rparr> (pv_ProviderKey prov))
             (Return True)))"

text \<open>Whether the order turned out to be paid already.\<close>

definition checkPaidWithOptions :: "pay_env \<Rightarrow> PaymentOrder \<Rightarrow> bool \<Rightarrow> (pay_db, bool) proc" where
  "checkPaidWithOptions en o1 cancelIfUnpaid =
     bind (getOrderProvider en o1) (\<lambda>r. case r of
       Inl e \<Rightarrow> Return False
     | Inr prov \<Rightarrow>
         let queryRef = paymentOrderQueryReference o1 prov
         in if queryRef = [] then Return False
            else bind queryOrder (\<lambda>r. case r of
              None \<Rightarrow> Return False
            | Some resp \<Rightarrow>
                if qr_Status resp = ProviderStatusPaid then
                  if isValidProviderAmount (qr_Amount resp) then settlePaid en o1 prov queryRef resp
                  else afterwards (writeAuditLog (po_ID o1) ''PAYMENT_INVALID_AMOUNT'')
                         (bind (requeryPaidOrderOnce queryRef) (\<lambda>retried. case retried of
                            None \<Rightarrow> Return False
                          | Some resp \<Rightarrow> settlePaid en o1 prov queryRef resp))
                else if cancelIfUnpaid \<and> pv_Cancelable prov
                then bind takeReply (\<lambda>_. Return False)
                else Return False))"

datatype cancelResult = checkPaidResultAlreadyPaid | checkPaidResultCancelled

definition cancelCore :: "pay_env \<Rightarrow> PaymentOrder \<Rightarrow> OrderStatus \<Rightarrow> cancelResult pay_proc" where
  "cancelCore en o1 fs =
     bind (if po_PaymentTradeNo o1 \<noteq> [] \<or> po_PaymentType o1 \<noteq> []
           then checkPaidWithOptions en o1 True else Return False) (\<lambda>paid.
       if paid then Return (Inr checkPaidResultAlreadyPaid)
       else orFail (updateOrders (\<lambda>r. po_ID r = po_ID o1 \<and> po_Status r = OrderStatusPending)
                      (po_Status_update (\<lambda>_. fs))) (\<lambda>c.
         afterwards
           (if c > 0 then writeAuditLog (po_ID o1)
                            (if fs = OrderStatusExpired then ''ORDER_EXPIRED'' else ''ORDER_CANCELLED'')
            else Return ())
           (Return (Inr checkPaidResultCancelled))))"

definition AdminCancelOrder :: "pay_env \<Rightarrow> int \<Rightarrow> cancelResult pay_proc" where
  "AdminCancelOrder en orderID =
     bind (getOrder orderID) (\<lambda>r. case r of
       Inl e \<Rightarrow> Return (Inl NotFound)
     | Inr o1 \<Rightarrow>
         if po_Status o1 \<noteq> OrderStatusPending
         then Return (Inl (BadRequest ''order cannot be cancelled in current status''))
         else cancelCore en o1 OrderStatusCancelled)"

definition CancelOrder :: "pay_env \<Rightarrow> int \<Rightarrow> int \<Rightarrow> cancelResult pay_proc" where
  "CancelOrder en orderID userID =
     bind (getOrder orderID) (\<lambda>r. case r of
       Inl e \<Rightarrow> Return (Inl NotFound)
     | Inr o1 \<Rightarrow>
         if po_UserID o1 \<noteq> userID then Return (Inl (Forbidden ''no permission for this order''))
         else if po_Status o1 \<noteq> OrderStatusPending
         then Return (Inl (BadRequest ''order cannot be cancelled in current status''))
         else cancelCore en o1 OrderStatusCancelled)"

fun expireEach :: "pay_env \<Rightarrow> PaymentOrder list \<Rightarrow> nat \<Rightarrow> nat pay_proc" where
  "expireEach en [] n = Return (Inr n)"
| "expireEach en (o1 # os) n =
     bind (cancelCore en o1 OrderStatusExpired) (\<lambda>outcome.
       expireEach en os (if outcome = Inr checkPaidResultCancelled then n + 1 else n))"

definition ExpireTimedOutOrders :: "pay_env \<Rightarrow> nat pay_proc" where
  "ExpireTimedOutOrders en =
     bind getNow (\<lambda>now.
     orFail (ordersWhere (\<lambda>o1. po_Status o1 = OrderStatusPending \<and> po_ExpiresAt o1 \<le> now)) (\<lambda>orders.
       expireEach en orders 0))"

definition validOutTradeByte :: "char \<Rightarrow> bool" where
  "validOutTradeByte c \<longleftrightarrow> inRange 0x61 0x7A c \<or> inRange 0x41 0x5A c \<or> inRange 0x30 0x39 c \<or>
     c = CHR ''_'' \<or> c = CHR ''-''"

definition normalizeOrderLookupOutTradeNo :: "string \<Rightarrow> string option" where
  "normalizeOrderLookupOutTradeNo raw =
     (let outTradeNo = TrimSpace raw
      in if outTradeNo = [] \<or> length outTradeNo > 64 \<or> \<not> list_all validOutTradeByte outTradeNo
         then None else Some outTradeNo)"

definition VerifyOrderByOutTradeNo :: "pay_env \<Rightarrow> string \<Rightarrow> int \<Rightarrow> PaymentOrder pay_proc" where
  "VerifyOrderByOutTradeNo en outTradeNo userID =
     (case normalizeOrderLookupOutTradeNo outTradeNo of
        None \<Rightarrow> Return (Inl (BadRequest ''out_trade_no is invalid''))
      | Some outTradeNo \<Rightarrow>
          bind (orderByOutTradeNo outTradeNo) (\<lambda>r. case r of
            Inl e \<Rightarrow> Return (Inl NotFound)
          | Inr o1 \<Rightarrow>
              if po_UserID o1 \<noteq> userID then Return (Inl (Forbidden ''no permission for this order''))
              else if po_Status o1 \<in> {OrderStatusPending, OrderStatusExpired}
              then bind (checkPaidWithOptions en o1 False) (\<lambda>paid.
                     if paid then getOrder (po_ID o1) else Return (Inr o1))
              else Return (Inr o1)))"

text \<open>The rows of the table are in the order of their creation.\<close>

definition pendingPaymentReconcileLimit :: nat where "pendingPaymentReconcileLimit = 20"

definition reconcilable :: "time \<Rightarrow> PaymentOrder \<Rightarrow> bool" where
  "reconcilable now o1 \<longleftrightarrow> po_Status o1 = OrderStatusPending \<and> po_ExpiresAt o1 > now \<and>
     list_ex (\<lambda>t. po_PaymentType o1 = t \<or> HasPrefix (po_PaymentType o1) (t @ ''_'') \<or>
                  (case po_ProviderKey o1 of None \<Rightarrow> False | Some k \<Rightarrow> k = t \<or> HasPrefix k (t @ ''_'')))
       [TypeWxpay, TypeAlipay]"

fun reconcileEach :: "pay_env \<Rightarrow> PaymentOrder list \<Rightarrow> nat \<Rightarrow> nat pay_proc" where
  "reconcileEach en [] n = Return (Inr n)"
| "reconcileEach en (o1 # os) n =
     bind (checkPaidWithOptions en o1 False) (\<lambda>paid. reconcileEach en os (if paid then n + 1 else n))"

definition ReconcilePendingPaymentOrders :: "pay_env \<Rightarrow> nat pay_proc" where
  "ReconcilePendingPaymentOrders en =
     bind getNow (\<lambda>now.
     orFail (ordersWhere (reconcilable now)) (\<lambda>orders.
       reconcileEach en (take pendingPaymentReconcileLimit orders) 0))"

end
