(* ===== verification/Payment_Rely.thy ===== *)
theory Payment_Rely
  imports Payment_Fulfilment
begin

text \<open>
  Payments under every interleaving.  \<open>payInv\<close> is the invariant of the tables, \<open>payRely\<close> what every
  operation leaves true of them and \<open>payGuar\<close> what the steps of payment fulfilment do to balances,
  subscriptions and rebates.  The locale \<open>payment_worker\<close> has the rules by which the operations are
  shown to keep their part.
\<close>

section \<open>What the tables say of an order\<close>

definition settled :: "PaymentOrder \<Rightarrow> bool" where
  "settled o1 \<longleftrightarrow> po_Status o1 = OrderStatusCompleted \<or> psIsRefundStatus (po_Status o1)"

definition sameOrder :: "PaymentOrder \<Rightarrow> PaymentOrder \<Rightarrow> bool" where
  "sameOrder o1 o2 \<longleftrightarrow> po_ID o2 = po_ID o1 \<and> po_UserID o2 = po_UserID o1 \<and> po_Amount o2 = po_Amount o1 \<and>
     po_RechargeCode o2 = po_RechargeCode o1 \<and> po_OrderType o2 = po_OrderType o1 \<and>
     po_SubscriptionGroupID o2 = po_SubscriptionGroupID o1 \<and> po_SubscriptionDays o2 = po_SubscriptionDays o1"

definition evolves :: "PaymentOrder \<Rightarrow> PaymentOrder \<Rightarrow> bool" where
  "evolves o1 o2 \<longleftrightarrow> sameOrder o1 o2 \<and> (po_PaidAt o1 \<noteq> None \<longrightarrow> po_PaidAt o2 \<noteq> None)"

definition sameCode :: "RedeemCode \<Rightarrow> RedeemCode \<Rightarrow> bool" where
  "sameCode r r' \<longleftrightarrow> rc_ID r' = rc_ID r \<and> rc_Code r' = rc_Code r \<and> rc_Type r' = rc_Type r \<and> rc_Value r' = rc_Value r"

text \<open>The code of an order, and the code cashed in for its user.\<close>

definition codeFor :: "PaymentOrder \<Rightarrow> RedeemCode \<Rightarrow> bool" where
  "codeFor o1 r \<longleftrightarrow> rc_Code r = po_RechargeCode o1 \<and> rc_Type r = RedeemTypeBalance \<and>
     \<bar>rc_Value r - po_Amount o1\<bar> \<le> 1 / 10 ^ 8"

definition cashed :: "PaymentOrder \<Rightarrow> RedeemCode \<Rightarrow> bool" where
  "cashed o1 r \<longleftrightarrow> codeFor o1 r \<and> IsUsed r \<and> rc_UsedBy r = Some (po_UserID o1)"

definition assigned :: "pay_db \<Rightarrow> int \<Rightarrow> bool" where
  "assigned db oid \<longleftrightarrow> hasAudit db oid [''SUBSCRIPTION_ASSIGNED'', ''SUBSCRIPTION_SUCCESS'']"

definition rebated :: "pay_db \<Rightarrow> int \<Rightarrow> bool" where
  "rebated db oid \<longleftrightarrow> hasAudit db oid [''AFFILIATE_REBATE_APPLIED'', ''AFFILIATE_REBATE_SKIPPED'']"

definition delivered :: "pay_db \<Rightarrow> PaymentOrder \<Rightarrow> bool" where
  "delivered db o1 \<longleftrightarrow> (if po_OrderType o1 = OrderTypeSubscription then assigned db (po_ID o1)
                       else \<exists>r \<in> set (pd_codes db). cashed o1 r)"

text \<open>What the row of a user says.\<close>

definition recharged :: "pay_db \<Rightarrow> int \<Rightarrow> rat" where
  "recharged db u = (case find (\<lambda>w. ur_ID w = u) (pd_users db) of None \<Rightarrow> 0 | Some w \<Rightarrow> ur_TotalRecharged w)"

definition balance :: "pay_db \<Rightarrow> int \<Rightarrow> rat" where
  "balance db u = (case find (\<lambda>w. ur_ID w = u) (pd_users db) of None \<Rightarrow> 0 | Some w \<Rightarrow> ur_Balance w)"

section \<open>The codes of orders\<close>

text \<open>The code that \<open>createOrderInTx\<close> gives to an order: trimming leaves it alone, and no other order has it.\<close>

definition rechargeCode :: "int \<Rightarrow> int \<Rightarrow> string" where
  "rechargeCode i n = ''PAY-'' @ signedItoa i @ ''-'' @ signedItoa n"

lemma spaces_not_graphic:
  "list_all (\<lambda>e. e \<noteq> [] \<and> \<not> inRange 0x21 0x7E (hd e) \<and> \<not> inRange 0x21 0x7E (last e)) go_spaces"
  by code_simp

lemma find_enc_hd:
  assumes "\<forall>e \<in> set encs. e \<noteq> [] \<longrightarrow> hd e \<noteq> hd s" and "s \<noteq> []"
  shows "find_enc encs s = None"
  using assms by (auto simp: find_enc_def find_None_iff prefix_def)

lemma TrimSpace_graphic:
  assumes "s \<noteq> []" and "inRange 0x21 0x7E (hd s)" and "inRange 0x21 0x7E (last s)"
  shows "TrimSpace s = s"
proof -
  have e: "e \<noteq> [] \<and> hd e \<noteq> hd s \<and> last e \<noteq> last s" if "e \<in> set go_spaces" for e
    using spaces_not_graphic assms(2,3) that by (auto simp: list_all_iff)
  have "find_enc go_spaces s = None"
    using assms(1) e by (intro find_enc_hd) auto
  moreover have "find_enc (map rev go_spaces) (rev s) = None"
    using assms(1) e by (intro find_enc_hd) (auto simp: hd_rev)
  ultimately show ?thesis by (simp add: TrimSpace_def trim_encs_id)
qed

lemma digit_code [simp]: "of_char (char_of (48 + n mod 10)) = 48 + n mod (10 :: nat)"
  by (simp add: of_char_of)

lemma Itoa_step: "Itoa n = (if n < 10 then [] else Itoa (n div 10)) @ [char_of (48 + n mod 10)]"
  by (subst Itoa.simps) simp

lemma Itoa_digits: "list_all (inRange 0x30 0x39) (Itoa n)"
proof (induction n rule: Itoa.induct)
  case (1 n)
  then show ?case
    by (subst Itoa_step) (auto simp: inRange_def [of _ _ "char_of _"])
qed

lemma Itoa_value: "fold (\<lambda>c v. 10 * v + (of_char c - 48)) (Itoa n) 0 = n"
proof (induction n rule: Itoa.induct)
  case (1 n)
  then show ?case
    by (subst Itoa_step) auto
qed

lemma last_Itoa: "Itoa n \<noteq> []" "inRange 0x30 0x39 (last (Itoa n))"
  by (subst Itoa_step, simp) (subst Itoa_step, simp add: inRange_def)

lemma rechargeCode_trimmed: "TrimSpace (rechargeCode i n) = rechargeCode i n"
proof (rule TrimSpace_graphic)
  have "inRange 0x21 0x7E (last (Itoa m))" for m
    using last_Itoa(2) [of m] by (simp add: inRange_def)
  then show "inRange 0x21 0x7E (last (rechargeCode i n))"
    using last_Itoa(1) by (auto simp: rechargeCode_def signedItoa_def)
qed (simp_all add: rechargeCode_def inRange_def)

lemma rechargeCode_inj:
  assumes "rechargeCode i n = rechargeCode j m" and "i > 0" and "j > 0"
  shows "i = j"
proof -
  have digits: "takeWhile (inRange 0x30 0x39) (Itoa k @ CHR ''-'' # s) = Itoa k" for k s
    using Itoa_digits [of k] by (simp add: takeWhile_append2 list_all_iff inRange_def)
  have "Itoa (nat i) @ CHR ''-'' # signedItoa n = Itoa (nat j) @ CHR ''-'' # signedItoa m"
    using assms by (simp add: rechargeCode_def signedItoa_def)
  then have "Itoa (nat i) = Itoa (nat j)"
    by (metis digits)
  then have "nat i = nat j"
    by (metis Itoa_value)
  then show ?thesis using assms(2,3) by simp
qed

section \<open>Invariant, rely and guarantee\<close>

definition wellFormed :: "PaymentOrder \<Rightarrow> bool" where
  "wellFormed o1 \<longleftrightarrow> po_ID o1 > 0 \<and> (\<exists>n. po_RechargeCode o1 = rechargeCode (po_ID o1) n)"

definition payInv :: "pay_db \<Rightarrow> bool" where
  "payInv db \<longleftrightarrow> distinct (map rc_ID (pd_codes db)) \<and> distinct (map rc_Code (pd_codes db)) \<and>
     (\<forall>r \<in> set (pd_codes db). rc_ID r < pd_nextCode db) \<and> distinct (map po_ID (pd_orders db)) \<and>
     sd_faults (pd_sub db) = [] \<and> pd_nextOrder db > 0 \<and>
     (\<forall>o1 \<in> set (pd_orders db). po_ID o1 < pd_nextOrder db \<and> wellFormed o1 \<and> (settled o1 \<longrightarrow> delivered db o1))"

definition payRely :: "pay_db \<Rightarrow> pay_db \<Rightarrow> bool" where
  "payRely s t \<longleftrightarrow>
     (\<forall>r \<in> set (pd_codes s). \<exists>r' \<in> set (pd_codes t). sameCode r r' \<and> (IsUsed r \<longrightarrow> r' = r)) \<and>
     (\<forall>o1 \<in> set (pd_orders s). \<exists>o2 \<in> set (pd_orders t). evolves o1 o2) \<and>
     (\<forall>oid actions. ''AFFILIATE_REBATE_APPLIED'' \<notin> set actions \<longrightarrow> hasAudit s oid actions \<longrightarrow> hasAudit t oid actions) \<and>
     (\<forall>oid. rebated s oid \<longrightarrow> rebated t oid)"

text \<open>One subscription order is fulfilled, and the rebate of one order is paid.\<close>

definition assignsFor :: "pay_env \<Rightarrow> PaymentOrder \<Rightarrow> pay_db \<Rightarrow> pay_db \<Rightarrow> bool" where
  "assignsFor en o1 s t \<longleftrightarrow>
     \<not> hasAudit s (po_ID o1) [''SUBSCRIPTION_ASSIGNED''] \<and> hasAudit t (po_ID o1) [''SUBSCRIPTION_ASSIGNED''] \<and>
     (\<exists>now groupID days sdb sub.
        po_SubscriptionGroupID o1 = Some groupID \<and> po_SubscriptionDays o1 = Some days \<and>
        sd_subs sdb = sd_subs (pd_sub s) \<and> sd_groups sdb = sd_groups (pd_sub s) \<and> sd_next sdb = sd_next (pd_sub s) \<and>
        (case assignOrExtendSubscription True (en_zones en) now
           \<lparr>as_UserID = po_UserID o1, as_GroupID = groupID, as_ValidityDays = days, as_AssignedBy = 0,
            as_Notes = paymentSubscriptionOrderNote (po_ID o1)\<rparr> sdb of
           (r, sdb') \<Rightarrow> r = Inr sub \<and> pd_sub t = sdb'\<lparr>sd_faults := []\<rparr>))"

definition rebatesFor :: "PaymentOrder \<Rightarrow> pay_db \<Rightarrow> pay_db \<Rightarrow> bool" where
  "rebatesFor o1 s t \<longleftrightarrow> \<not> rebated s (po_ID o1) \<and> rebated t (po_ID o1) \<and>
     (\<exists>inviter amount. pd_ledger t = pd_ledger s @
        [\<lparr>le_UserID = inviter, le_Amount = amount, le_SourceUserID = po_UserID o1, le_SourceOrderID = Some (po_ID o1)\<rparr>])"

text \<open>The balance after a credit; one that takes away stops at zero.\<close>

definition credited :: "rat \<Rightarrow> rat \<Rightarrow> rat" where
  "credited v b = (if v < 0 then max (b + v) 0 else b + v)"

definition creditsFor :: "PaymentOrder \<Rightarrow> pay_db \<Rightarrow> pay_db \<Rightarrow> bool" where
  "creditsFor o1 s t \<longleftrightarrow> \<not> (\<exists>r \<in> set (pd_codes s). cashed o1 r) \<and>
     (\<exists>r \<in> set (pd_codes t). cashed o1 r \<and>
        (\<forall>u. balance t u = (if u = po_UserID o1 then credited (rc_Value r) (balance s u) else balance s u) \<and>
             recharged t u = recharged s u + (if u = po_UserID o1 then max (rc_Value r) 0 else 0)))"

definition sameBalances :: "pay_db \<Rightarrow> pay_db \<Rightarrow> bool" where
  "sameBalances s t \<longleftrightarrow> (\<forall>u. balance t u = balance s u \<and> recharged t u = recharged s u)"

definition keepsSettled :: "pay_db \<Rightarrow> pay_db \<Rightarrow> bool" where
  "keepsSettled s t \<longleftrightarrow>
     (\<forall>o1 \<in> set (pd_orders s). settled o1 \<longrightarrow> (\<exists>o2 \<in> set (pd_orders t). sameOrder o1 o2 \<and> settled o2))"

definition payGuar :: "pay_env \<Rightarrow> pay_db \<Rightarrow> pay_db \<Rightarrow> bool" where
  "payGuar en s t \<longleftrightarrow> payRely s t \<and> keepsSettled s t \<and>
     (sameBalances s t \<or> (\<exists>o1 \<in> set (pd_orders s). creditsFor o1 s t)) \<and>
     (\<forall>r \<in> set (pd_codes t). IsUsed r \<longrightarrow> r \<in> set (pd_codes s) \<or> (\<exists>o1 \<in> set (pd_orders s). cashed o1 r)) \<and>
     (pd_sub t = pd_sub s \<or> (\<exists>o1 \<in> set (pd_orders s). assignsFor en o1 s t)) \<and>
     (pd_ledger t = pd_ledger s \<or> (\<exists>o1 \<in> set (pd_orders s). rebatesFor o1 s t))"

text \<open>Refunds take credit back, and change nothing else of this.\<close>

definition refundGuar :: "pay_db \<Rightarrow> pay_db \<Rightarrow> bool" where
  "refundGuar s t \<longleftrightarrow> payRely s t \<and> keepsSettled s t"

lemma evolves_refl [simp]: "evolves o1 o1"
  by (simp add: evolves_def sameOrder_def)

lemma evolves_trans: "evolves o1 o2 \<Longrightarrow> evolves o2 o3 \<Longrightarrow> evolves o1 o3"
  by (auto simp: evolves_def sameOrder_def)

lemma sameCode_refl [simp]: "sameCode r r"
  by (simp add: sameCode_def)

lemma sameCode_trans: "sameCode r r' \<Longrightarrow> sameCode r' r'' \<Longrightarrow> sameCode r r''"
  by (simp add: sameCode_def)

lemma payRely_refl [simp]: "payRely s s"
  by (force simp: payRely_def)

lemma payRely_trans:
  assumes "payRely r s" and "payRely s t"
  shows "payRely r t"
  unfolding payRely_def
proof (intro conjI ballI allI impI)
  fix c
  assume "c \<in> set (pd_codes r)"
  then obtain c' where c': "c' \<in> set (pd_codes s)" "sameCode c c'" "IsUsed c \<longrightarrow> c' = c"
    using assms(1) by (auto simp: payRely_def)
  then obtain c'' where "c'' \<in> set (pd_codes t)" "sameCode c' c''" "IsUsed c' \<longrightarrow> c'' = c'"
    using assms(2) by (auto simp: payRely_def)
  with c' show "\<exists>c'' \<in> set (pd_codes t). sameCode c c'' \<and> (IsUsed c \<longrightarrow> c'' = c)"
    by (intro bexI [of _ c'']) (auto intro: sameCode_trans)
next
  fix o1
  assume "o1 \<in> set (pd_orders r)"
  then show "\<exists>o2 \<in> set (pd_orders t). evolves o1 o2"
    using assms unfolding payRely_def by (meson evolves_trans)
qed (use assms in \<open>auto simp: payRely_def\<close>)

text \<open>
  A quiet step: it neither touches codes, balances, subscriptions and the ledger nor takes an audit
  entry away, and it settles no order that was not delivered.
\<close>

definition quiet :: "pay_db \<Rightarrow> pay_db \<Rightarrow> bool" where
  "quiet s t \<longleftrightarrow> pd_codes t = pd_codes s \<and> pd_nextCode t = pd_nextCode s \<and> pd_users t = pd_users s \<and>
     pd_sub t = pd_sub s \<and> pd_ledger t = pd_ledger s \<and> pd_nextOrder t = pd_nextOrder s \<and>
     (\<forall>oid actions. hasAudit s oid actions \<longrightarrow> hasAudit t oid actions) \<and>
     list_all2 (\<lambda>o1 o2. evolves o1 o2 \<and> (settled o1 \<longrightarrow> settled o2) \<and> (settled o2 \<longrightarrow> settled o1 \<or> delivered s o1))
       (pd_orders s) (pd_orders t)"

lemma list_all2_leftD: "list_all2 P xs ys \<Longrightarrow> x \<in> set xs \<Longrightarrow> \<exists>y \<in> set ys. P x y"
  by (induction rule: list_all2_induct) auto

lemma list_all2_rightD: "list_all2 P xs ys \<Longrightarrow> y \<in> set ys \<Longrightarrow> \<exists>x \<in> set xs. P x y"
  by (induction rule: list_all2_induct) auto

lemma quiet_orders:
  assumes "quiet s t" and "o2 \<in> set (pd_orders t)"
  obtains o1 where "o1 \<in> set (pd_orders s)" and "evolves o1 o2" and "settled o2 \<longrightarrow> settled o1 \<or> delivered s o1"
  using assms by (auto simp: quiet_def dest!: list_all2_rightD)

lemma quiet_payRely:
  assumes "quiet s t"
  shows "payRely s t"
  unfolding payRely_def
proof (intro conjI ballI allI impI)
  fix o1
  assume "o1 \<in> set (pd_orders s)"
  then show "\<exists>o2 \<in> set (pd_orders t). evolves o1 o2"
    using assms by (auto simp: quiet_def dest!: list_all2_leftD)
next
  fix r
  assume "r \<in> set (pd_codes s)"
  then show "\<exists>r' \<in> set (pd_codes t). sameCode r r' \<and> (IsUsed r \<longrightarrow> r' = r)"
    using assms by (auto simp: quiet_def intro!: bexI [of _ r])
qed (use assms in \<open>auto simp: quiet_def assigned_def rebated_def\<close>)

lemma delivered_cong:
  assumes "sameOrder o1 o2" and "delivered s o1" and "pd_codes t = pd_codes s"
    and "assigned s (po_ID o1) \<longrightarrow> assigned t (po_ID o1)"
  shows "delivered t o2"
  using assms by (auto simp: delivered_def sameOrder_def cashed_def codeFor_def)

lemma quiet_payInv:
  assumes "quiet s t" and "payInv s"
  shows "payInv t"
proof -
  have ids: "map po_ID (pd_orders t) = map po_ID (pd_orders s)"
    using assms(1) by (auto simp: quiet_def list_all2_conv_all_nth evolves_def sameOrder_def intro!: nth_equalityI)
  have "po_ID o2 < pd_nextOrder t \<and> wellFormed o2 \<and> (settled o2 \<longrightarrow> delivered t o2)" if o2: "o2 \<in> set (pd_orders t)" for o2
  proof -
    obtain o1 where o1: "o1 \<in> set (pd_orders s)" "evolves o1 o2" "settled o2 \<longrightarrow> settled o1 \<or> delivered s o1"
      by (rule quiet_orders [OF assms(1) o2])
    then have "settled o2 \<longrightarrow> delivered s o1" "wellFormed o1" "po_ID o1 < pd_nextOrder t"
      using assms by (auto simp: payInv_def quiet_def)
    moreover have "delivered s o1 \<longrightarrow> delivered t o2"
      using assms(1) o1(2) by (auto simp: quiet_def evolves_def assigned_def intro: delivered_cong)
    ultimately show ?thesis
      using o1(2) by (auto simp: evolves_def sameOrder_def wellFormed_def)
  qed
  then show ?thesis
    using assms ids by (auto simp: payInv_def quiet_def)
qed

lemma quiet_keepsSettled: "quiet s t \<Longrightarrow> keepsSettled s t"
  unfolding quiet_def keepsSettled_def evolves_def by (auto dest: list_all2_leftD)

lemma quiet_payGuar: "quiet s t \<Longrightarrow> payGuar en s t"
  by (auto simp: payGuar_def quiet_payRely quiet_keepsSettled)
     (auto simp: quiet_def sameBalances_def balance_def recharged_def)

lemma quiet_refundGuar: "quiet s t \<Longrightarrow> refundGuar s t"
  by (simp add: refundGuar_def quiet_payRely quiet_keepsSettled)

lemma quiet_refl [simp]: "quiet s s"
  by (simp add: quiet_def list_all2_refl)

text \<open>The fields that no part of this reads may change at will.\<close>

lemma quietI:
  assumes "pd_codes t = pd_codes s" and "pd_nextCode t = pd_nextCode s" and "pd_users t = pd_users s"
    and "pd_sub t = pd_sub s" and "pd_ledger t = pd_ledger s" and "pd_orders t = pd_orders s"
    and "pd_nextOrder t = pd_nextOrder s" and "\<And>e. e \<in> set (pd_audit s) \<Longrightarrow> e \<in> set (pd_audit t)"
  shows "quiet s t"
  using assms by (auto simp: quiet_def list_all2_refl hasAudit_def list_ex_iff)

section \<open>Statements and transactions\<close>

lemma quiet_faults [simp]: "quiet s (s\<lparr>pd_faults := fs\<rparr>)" "quiet (s\<lparr>pd_faults := fs\<rparr>) s"
  by (rule quietI; simp)+

lemma runs_call [simp]: "runs (call f) s = payStatement f s"
  by (simp add: call_def)

lemma payStatement_Inr:
  assumes "payStatement f s = (Inr x, t)"
  shows "f (s\<lparr>pd_faults := tl (pd_faults s)\<rparr>) = (Inr x, t)"
  using assms by (auto simp: payStatement_def Let_def split: list.splits fault.splits)

lemma payStatement_cases:
  obtains (error) "payStatement f s = (Inl Database, s\<lparr>pd_faults := tl (pd_faults s)\<rparr>)"
  | (applied) "payStatement f s = (Inl Database, snd (f (s\<lparr>pd_faults := tl (pd_faults s)\<rparr>)))"
  | (normal) "payStatement f s = f (s\<lparr>pd_faults := tl (pd_faults s)\<rparr>)"
proof (cases "pd_faults s")
  case (Cons a fs)
  then show ?thesis
    using that by (cases a) (simp_all add: payStatement_def Let_def)
qed (use that in \<open>simp_all add: payStatement_def Let_def\<close>)

text \<open>A transaction leaves nothing behind, or all of its body.\<close>

lemma finishTx_cases:
  obtains (aborted) fs where "snd (finishTx body s) = s\<lparr>pd_faults := fs\<rparr>" and "\<And>x. fst (finishTx body s) \<noteq> Inr x"
  | (committed) x t fs where "body s = (Inr x, t)" and "snd (finishTx body s) = t\<lparr>pd_faults := fs\<rparr>"
      and "\<And>y. fst (finishTx body s) = Inr y \<Longrightarrow> y = x"
proof (cases "fst (body s)")
  case (Inl e)
  then have "finishTx body s = (Inl e, s\<lparr>pd_faults := pd_faults (snd (body s))\<rparr>)"
    by (simp add: finishTx_def case_prod_unfold)
  then show ?thesis by (intro aborted) simp_all
next
  case (Inr x)
  let ?t = "snd (body s)"
  have b: "body s = (Inr x, ?t)"
    using Inr by (simp add: prod_eq_iff)
  have eq: "finishTx body s = (case pd_faults ?t of
      NotApplied # fs \<Rightarrow> (Inl Database, s\<lparr>pd_faults := fs\<rparr>)
    | Applied # fs \<Rightarrow> (Inl Database, ?t\<lparr>pd_faults := fs\<rparr>)
    | fs \<Rightarrow> (Inr x, ?t\<lparr>pd_faults := tl fs\<rparr>))"
    unfolding finishTx_def by (subst b) simp
  show ?thesis
  proof (cases "pd_faults ?t")
    case Nil
    then have "finishTx body s = (Inr x, ?t\<lparr>pd_faults := []\<rparr>)"
      unfolding eq by simp
    then show ?thesis by (intro committed [OF b, of "[]"]) simp_all
  next
    case (Cons a fs)
    show ?thesis
    proof (cases a)
      case NoFault
      then have "finishTx body s = (Inr x, ?t\<lparr>pd_faults := fs\<rparr>)"
        unfolding eq Cons by simp
      then show ?thesis by (intro committed [OF b, of fs]) simp_all
    next
      case NotApplied
      then have "finishTx body s = (Inl Database, s\<lparr>pd_faults := fs\<rparr>)"
        unfolding eq Cons by simp
      then show ?thesis by (intro aborted) simp_all
    next
      case Applied
      then have "finishTx body s = (Inl Database, ?t\<lparr>pd_faults := fs\<rparr>)"
        unfolding eq Cons by simp
      then show ?thesis by (intro committed [OF b, of fs]) simp_all
    qed
  qed
qed

lemma beginTx_state: "snd (beginTx s) = s\<lparr>pd_faults := tl (pd_faults s)\<rparr>"
  by (cases rule: payStatement_cases [of "\<lambda>db. (Inr (), db)" s]) (simp_all add: beginTx_def)

lemma committed_cases:
  obtains (aborted) fs where "snd (committed body s) = s\<lparr>pd_faults := fs\<rparr>" and "\<And>x. fst (committed body s) \<noteq> Inr x"
  | (committed) x t fs fs' where "body (s\<lparr>pd_faults := fs\<rparr>) = (Inr x, t)"
      and "snd (committed body s) = t\<lparr>pd_faults := fs'\<rparr>" and "\<And>y. fst (committed body s) = Inr y \<Longrightarrow> y = x"
proof (cases "fst (beginTx s)")
  case (Inl e)
  then have "committed body s = (Inl e, s\<lparr>pd_faults := tl (pd_faults s)\<rparr>)"
    by (simp add: committed_def case_prod_unfold beginTx_state)
  then show ?thesis by (intro aborted) simp_all
next
  case (Inr u)
  let ?b = "s\<lparr>pd_faults := tl (pd_faults s)\<rparr>"
  have c: "committed body s = finishTx body ?b"
    unfolding committed_def case_prod_unfold Inr beginTx_state by simp
  show ?thesis
  proof (cases rule: finishTx_cases [of body ?b])
    case (aborted fs)
    then show ?thesis unfolding c [symmetric] by (intro that(1) [of fs]) simp_all
  next
    case (committed x t fs)
    then show ?thesis unfolding c [symmetric] by (intro that(2)) simp_all
  qed
qed

locale payment_worker = relying payRely payInv guar for guar :: "pay_db \<Rightarrow> pay_db \<Rightarrow> bool" +
  assumes quiet_guar: "quiet s t \<Longrightarrow> guar s t"
    and guar_faults: "guar (s\<lparr>pd_faults := fs\<rparr>) t \<Longrightarrow> guar s t"
    and guar_faults': "guar s t \<Longrightarrow> guar s (t\<lparr>pd_faults := fs\<rparr>)"
begin

lemma secures_call:
  assumes "lasting K"
    and "\<And>s. K s \<Longrightarrow> payInv s \<Longrightarrow> payInv (snd (f s)) \<and> guar s (snd (f s)) \<and> onSuccess P (fst (f s)) (snd (f s))"
  shows "secures K (call f) (onSuccess P)"
  unfolding call_def
proof (rule secures_atomically [OF assms(1)])
  fix s
  assume s: "K s" "payInv s"
  let ?s = "s\<lparr>pd_faults := tl (pd_faults s)\<rparr>"
  have "K ?s"
    using lastingD [OF assms(1) quiet_payRely s(1)] by simp
  moreover have "payInv ?s"
    by (rule quiet_payInv [OF quiet_faults(1) s(2)])
  ultimately have *: "payInv (snd (f ?s))" "guar ?s (snd (f ?s))" "onSuccess P (fst (f ?s)) (snd (f ?s))"
    using assms(2) by blast+
  show "payInv (snd (payStatement f s)) \<and> guar s (snd (payStatement f s)) \<and>
      onSuccess P (fst (payStatement f s)) (snd (payStatement f s))"
    by (cases rule: payStatement_cases [of f s])
       (use * \<open>payInv ?s\<close> guar_faults quiet_guar in auto)
qed

text \<open>Operations of quiet steps keep their part wherever they start.\<close>

definition frame :: "(pay_db, 'a) proc \<Rightarrow> bool" where
  "frame p \<longleftrightarrow> secures (\<lambda>_. True) p (\<lambda>_ _. True)"

lemma frameD: "frame p \<Longrightarrow> secures K p (\<lambda>_ _. True)"
  unfolding frame_def by (erule secures_conseq) simp_all

lemma frame_Return: "frame (Return x)"
  by (simp add: frame_def secures_Return)

lemma frame_bind: "frame p \<Longrightarrow> (\<And>x. frame (k x)) \<Longrightarrow> frame (bind p k)"
  unfolding frame_def by (rule secures_bind) (auto simp: frame_def [symmetric] intro: frameD)

lemma frame_orFail: "frame p \<Longrightarrow> (\<And>x. frame (k x)) \<Longrightarrow> frame (orFail p k)"
  unfolding orFail_def by (rule frame_bind) (auto intro: frame_Return split: sum.splits)

lemma secures_quiet:
  assumes "lasting K" and "\<And>db. quiet db (snd (f db))"
    and "\<And>db x. K db \<Longrightarrow> payInv db \<Longrightarrow> fst (f db) = Inr x \<Longrightarrow> P x (snd (f db))"
  shows "secures K (call f) (onSuccess P)"
proof (rule secures_call [OF assms(1)])
  fix s
  assume "K s" and "payInv s"
  then show "payInv (snd (f s)) \<and> guar s (snd (f s)) \<and> onSuccess P (fst (f s)) (snd (f s))"
    using assms(2) [of s] assms(3) [of s] quiet_payInv quiet_guar
    by (cases "fst (f s)") auto
qed

lemma frame_call: "(\<And>db. quiet db (snd (f db))) \<Longrightarrow> frame (call f)"
  using secures_quiet [of "\<lambda>_. True" f "\<lambda>_ _. True"] by (simp add: frame_def)

lemma frame_atomically: "(\<And>db. quiet db (snd (f db))) \<Longrightarrow> frame (atomically f)"
  unfolding frame_def by (rule secures_atomically) (auto intro: quiet_payInv quiet_guar)

text \<open>The statements that are quiet.\<close>

lemma frame_getNow: "frame getNow"
  unfolding getNow_def by (rule frame_atomically) simp

lemma frame_takeReply: "frame takeReply"
  unfolding takeReply_def by (rule frame_atomically) (auto intro!: quietI split: list.splits)

lemma frame_beginTx: "frame (atomically beginTx)"
  by (rule frame_atomically) (simp add: beginTx_state)

lemma frame_reads:
  "frame (getOrder i)" "frame (orderByOutTradeNo str)" "frame (ordersWhere p)" "frame (countAudit i acts)"
  "frame instances" "frame (GetByCode str)" "frame (GetCodeByID i)" "frame (GetUser i)"
  "frame (GetRedeemAttemptCount i)" "frame (GetAccruedRebateFromInvitee i j)" "frame invalidateSubscriptionCaches"
  by (simp_all add: getOrder_def orderByOutTradeNo_def ordersWhere_def countAudit_def instances_def GetByCode_def
      GetCodeByID_def GetUser_def GetRedeemAttemptCount_def GetAccruedRebateFromInvitee_def
      invalidateSubscriptionCaches_def frame_call)

lemma frame_createAudit: "frame (createAudit i act pending)"
  unfolding createAudit_def by (rule frame_call) (auto intro!: quietI split: if_splits)

lemma frame_cache:
  "frame (AcquireRedeemLock str ttl)" "frame (ReleaseRedeemLock str)" "frame (IncrementRedeemAttemptCount i)"
  by (auto simp: AcquireRedeemLock_def ReleaseRedeemLock_def IncrementRedeemAttemptCount_def
      intro!: frame_call quietI split: if_splits)

lemma frame_EnsureUserAffiliate: "frame (EnsureUserAffiliate i)"
  unfolding EnsureUserAffiliate_def
  by (auto simp: Let_def intro!: frame_call quietI frame_Return split: if_splits option.splits)

lemmas frame_rules = frame_Return frame_bind frame_orFail frame_getNow frame_takeReply frame_beginTx frame_reads
  frame_createAudit frame_cache frame_EnsureUserAffiliate

lemma frame_audit: "frame (writeAuditLog i act)" "frame (hasAuditLog i act)"
  unfolding writeAuditLog_def hasAuditLog_def by (intro frame_rules)+

lemma frame_updateOrders:
  assumes "\<And>o1 now. p o1 \<Longrightarrow> evolves o1 (f (o1\<lparr>po_UpdatedAt := now\<rparr>)) \<and> settled (f (o1\<lparr>po_UpdatedAt := now\<rparr>)) = settled o1"
  shows "frame (updateOrders p f)"
  unfolding updateOrders_def
  by (rule frame_call) (auto simp: quiet_def setOrders_def hasAudit_def list_all2_map2 assms intro!: list_all2_refl)

text \<open>A transaction secures what its body does.\<close>

lemma secures_body:
  assumes "lasting K" and "\<And>x. lasting (P x)"
    and "\<And>s x t. K s \<Longrightarrow> payInv s \<Longrightarrow> body s = (Inr x, t) \<Longrightarrow> payInv t \<and> guar s t \<and> P x t"
  shows "secures K (atomically (committed body)) (onSuccess P)"
    and "secures K (atomically (finishTx body)) (onSuccess P)"
proof -
  have ok: "payInv (t\<lparr>pd_faults := fs'\<rparr>) \<and> guar s (t\<lparr>pd_faults := fs'\<rparr>) \<and> P x (t\<lparr>pd_faults := fs'\<rparr>)"
    if "K s" "payInv s" "body (s\<lparr>pd_faults := fs\<rparr>) = (Inr x, t)" for s x t fs fs'
  proof -
    have "payInv t \<and> guar (s\<lparr>pd_faults := fs\<rparr>) t \<and> P x t"
      by (rule assms(3)) (use that in \<open>auto intro: quiet_payInv [OF quiet_faults(1)] lastingD [OF assms(1) quiet_payRely [OF quiet_faults(1)]]\<close>)
    then show ?thesis
      by (auto intro: quiet_payInv [OF quiet_faults(1)] lastingD [OF assms(2) quiet_payRely [OF quiet_faults(1)]]
          dest: guar_faults guar_faults')
  qed
  have quiet: "payInv (s\<lparr>pd_faults := fs\<rparr>) \<and> guar s (s\<lparr>pd_faults := fs\<rparr>)" if "payInv s" for s fs
    using that by (auto intro: quiet_payInv [OF quiet_faults(1)] quiet_guar)
  show "secures K (atomically (committed body)) (onSuccess P)"
  proof (rule secures_atomically [OF assms(1)])
    fix s
    assume s: "K s" "payInv s"
    show "payInv (snd (committed body s)) \<and> guar s (snd (committed body s)) \<and>
        onSuccess P (fst (committed body s)) (snd (committed body s))"
    proof (cases rule: committed_cases [of body s])
      case (aborted fs)
      then show ?thesis using quiet [OF s(2)] by (cases "fst (committed body s)") auto
    next
      case (committed x t fs fs')
      then show ?thesis using ok [OF s committed(1)] by (cases "fst (committed body s)") auto
    qed
  qed
  show "secures K (atomically (finishTx body)) (onSuccess P)"
  proof (rule secures_atomically [OF assms(1)])
    fix s
    assume s: "K s" "payInv s"
    show "payInv (snd (finishTx body s)) \<and> guar s (snd (finishTx body s)) \<and>
        onSuccess P (fst (finishTx body s)) (snd (finishTx body s))"
    proof (cases rule: finishTx_cases [of body s])
      case (aborted fs)
      then show ?thesis using quiet [OF s(2)] by (cases "fst (finishTx body s)") auto
    next
      case (committed x t fs)
      then show ?thesis using ok [of s "pd_faults s" x t fs] s by (cases "fst (finishTx body s)") auto
    qed
  qed
qed

lemma frame_redeem_cache:
  "frame (checkRedeemRateLimit en i)" "frame (incrementRedeemErrorCount en policy i)"
  "frame (acquireRedeemLock en str)" "frame (releaseRedeemLock en str)"
  unfolding checkRedeemRateLimit_def incrementRedeemErrorCount_def acquireRedeemLock_def releaseRedeemLock_def
  by (auto intro!: frame_rules split: sum.splits)

end

section \<open>Cashing in a code\<close>

definition paysOut :: "int \<Rightarrow> RedeemCode \<Rightarrow> pay_db \<Rightarrow> pay_db \<Rightarrow> bool" where
  "paysOut u r s t \<longleftrightarrow> pd_sub t = pd_sub s \<and>
     (\<forall>w. balance t w = (if w = u then credited (rc_Value r) (balance s w) else balance s w) \<and>
          recharged t w = recharged s w + (if w = u then max (rc_Value r) 0 else 0))"

definition paidOut :: "int \<Rightarrow> RedeemCode \<Rightarrow> pay_db \<Rightarrow> pay_db \<Rightarrow> bool" where
  "paidOut u r s t \<longleftrightarrow>
     (\<exists>x \<in> set (pd_codes s). rc_ID x = rc_ID r \<and> rc_Status x = StatusUnused) \<and>
     (\<exists>now. pd_codes t = map (\<lambda>x. if rc_ID x = rc_ID r \<and> rc_Status x = StatusUnused then markUsed u now x else x)
                          (pd_codes s)) \<and>
     pd_nextCode t = pd_nextCode s \<and> pd_orders t = pd_orders s \<and> pd_nextOrder t = pd_nextOrder s \<and>
     pd_audit t = pd_audit s \<and> pd_ledger t = pd_ledger s \<and> sd_faults (pd_sub t) = [] \<and>
     (rc_Type r = RedeemTypeBalance \<longrightarrow> paysOut u r s t)"

lemma updateUser_effect:
  assumes "runs (updateUser i f) s = (Inr x, t)" and "\<And>w. ur_ID (f w) = ur_ID w"
  shows "t = s\<lparr>pd_faults := tl (pd_faults s), pd_users := map (\<lambda>w. if ur_ID w = i then f w else w) (pd_users s)\<rparr>"
    and "\<exists>w \<in> set (pd_users s). ur_ID w = i"
    and "find (\<lambda>w. ur_ID w = j) (pd_users t) =
      map_option (\<lambda>w. if ur_ID w = i then f w else w) (find (\<lambda>w. ur_ID w = j) (pd_users s))"
proof -
  note * = payStatement_Inr [OF assms(1) [unfolded updateUser_def runs_call]]
  show t: "t = s\<lparr>pd_faults := tl (pd_faults s), pd_users := map (\<lambda>w. if ur_ID w = i then f w else w) (pd_users s)\<rparr>"
    and "\<exists>w \<in> set (pd_users s). ur_ID w = i"
    using * by (auto split: if_splits)
  show "find (\<lambda>w. ur_ID w = j) (pd_users t) =
      map_option (\<lambda>w. if ur_ID w = i then f w else w) (find (\<lambda>w. ur_ID w = j) (pd_users s))"
    using find_map_if [of ur_ID f j "\<lambda>w. ur_ID w = i" "pd_users s"] assms(2) by (simp add: t)
qed

lemma creditUser_ID [simp]: "ur_ID (creditUser amount w) = ur_ID w"
  by (simp add: creditUser_def)

lemma find_ID_Some: "find (\<lambda>w. f w = i) ws = Some w \<Longrightarrow> f w = i"
  by (auto simp: find_Some_iff)

text \<open>What paying out a code does to everything but the codes.\<close>

definition paying :: "int \<Rightarrow> RedeemCode \<Rightarrow> pay_db \<Rightarrow> pay_db \<Rightarrow> bool" where
  "paying u r s t \<longleftrightarrow>
     pd_codes t = pd_codes s \<and> pd_nextCode t = pd_nextCode s \<and> pd_orders t = pd_orders s \<and>
     pd_nextOrder t = pd_nextOrder s \<and> pd_audit t = pd_audit s \<and> pd_ledger t = pd_ledger s \<and>
     (sd_faults (pd_sub s) = [] \<longrightarrow> sd_faults (pd_sub t) = []) \<and>
     (rc_Type r = RedeemTypeBalance \<longrightarrow> paysOut u r s t)"

lemma payingUser:
  assumes "runs (updateUser u f) s = (Inr x, t)" and "\<And>w. ur_ID (f w) = ur_ID w"
    and "\<And>w. rc_Type r = RedeemTypeBalance \<Longrightarrow> ur_TotalRecharged (f w) = ur_TotalRecharged w + max (rc_Value r) 0"
    and "\<And>w. rc_Type r = RedeemTypeBalance \<Longrightarrow> ur_Balance (f w) = credited (rc_Value r) (ur_Balance w)"
  shows "paying u r s t"
proof -
  note e = updateUser_effect [OF assms(1,2)]
  obtain w where "find (\<lambda>w. ur_ID w = u) (pd_users s) = Some w"
    using e(2) by (cases "find (\<lambda>w. ur_ID w = u) (pd_users s)") (auto simp: find_None_iff)
  then have "recharged t v = recharged s v + (if v = u then max (rc_Value r) 0 else 0)"
    and "balance t v = (if v = u then credited (rc_Value r) (balance s v) else balance s v)"
    if "rc_Type r = RedeemTypeBalance" for v
    using assms(3,4) [OF that]
    by (auto simp: recharged_def balance_def e(3) split: option.splits dest!: find_ID_Some)
  then show ?thesis by (simp add: paying_def paysOut_def) (simp add: e(1))
qed

lemma onSubs_shape:
  "\<exists>sdb fs. snd (runs (onSubs m) s) = s\<lparr>pd_sub := sdb\<lparr>sd_faults := []\<rparr>, pd_faults := fs\<rparr>"
  by (cases "m (pd_sub s\<lparr>sd_faults := pd_faults s\<rparr>)") (auto simp: onSubs_def)

lemma payingSubs:
  assumes "t = s\<lparr>pd_sub := sdb\<lparr>sd_faults := []\<rparr>, pd_faults := fs\<rparr>" and "rc_Type r \<noteq> RedeemTypeBalance"
  shows "paying u r s t"
  using assms by (simp add: paying_def)

lemma runs_getNow [simp]: "runs getNow s = (pd_clock s, s)"
  by (simp add: getNow_def)

lemma payOut_subscription:
  assumes "rc_Type r = RedeemTypeSubscription" and "runs (payOut en u r) s = (Inr x, t)"
  shows "\<exists>sdb fs. t = s\<lparr>pd_sub := sdb\<lparr>sd_faults := []\<rparr>, pd_faults := fs\<rparr>"
proof (cases "rc_GroupID r")
  case None
  then show ?thesis using assms by (simp add: payOut_def)
next
  case (Some g)
  obtain m :: "unit db_op" and m' :: "(UserSubscription \<times> bool) db_op"
    where "runs (payOut en u r) s = (if rc_ValidityDays r < 0 then runs (onSubs m) s
      else runs (orFail (onSubs m') (\<lambda>_. Return (Inr ()))) s)"
    using assms(1) Some by (simp add: payOut_def Let_def if_distrib [of "\<lambda>p. runs p s"] cong: if_cong)
  then have "t = snd (runs (onSubs m) s) \<or> t = snd (runs (onSubs m') s)"
    using assms(2) by (cases "runs (onSubs m) s"; cases "runs (onSubs m') s")
      (auto simp: runs_orFail split: if_splits sum.splits)
  then show ?thesis using onSubs_shape by metis
qed

lemma payOut_paying:
  assumes "runs (payOut en u r) s = (Inr x, t)"
  shows "paying u r s t"
proof (cases "rc_Type r")
  case RedeemTypeBalance
  show ?thesis
  proof (cases "rc_Value r < 0")
    case True
    with assms RedeemTypeBalance have *: "runs (updateUser u (\<lambda>w. w\<lparr>ur_Balance := max (ur_Balance w + rc_Value r) 0\<rparr>)) s = (Inr x, t)"
      by (simp add: payOut_def ApplyRedeemBalanceAdjustment_def)
    show ?thesis
      by (rule payingUser [OF *]) (use True in \<open>simp_all add: credited_def\<close>)
  next
    case False
    with assms RedeemTypeBalance have *: "runs (updateUser u (creditUser (rc_Value r))) s = (Inr x, t)"
      by (simp add: payOut_def UpdateBalance_def)
    show ?thesis
      by (rule payingUser [OF *]) (use False in \<open>auto simp: credited_def creditUser_def\<close>)
  qed
next
  case RedeemTypeConcurrency
  define delta where "delta = (if rc_Value r \<ge> 0 then \<lfloor>rc_Value r\<rfloor> else \<lceil>rc_Value r\<rceil>)"
  define f :: "User \<Rightarrow> User" where "f = (if delta < 0 then (\<lambda>w. w\<lparr>ur_Concurrency := max (ur_Concurrency w + delta) 0\<rparr>)
    else (\<lambda>w. w\<lparr>ur_Concurrency := ur_Concurrency w + delta\<rparr>))"
  have *: "runs (updateUser u f) s = (Inr x, t)"
    using assms RedeemTypeConcurrency unfolding payOut_def ApplyRedeemConcurrencyAdjustment_def UpdateConcurrency_def
    by (simp add: f_def delta_def Let_def split: if_splits)
  show ?thesis
    by (rule payingUser [OF *]) (simp_all add: RedeemTypeConcurrency f_def)
next
  case RedeemTypeSubscription
  then have w: "rc_Type r \<noteq> RedeemTypeBalance" by simp
  obtain sdb fs where "t = s\<lparr>pd_sub := sdb\<lparr>sd_faults := []\<rparr>, pd_faults := fs\<rparr>"
    using payOut_subscription [OF RedeemTypeSubscription assms] by blast
  then show ?thesis by (rule payingSubs) (rule w)
qed (use assms in \<open>simp_all add: payOut_def\<close>)

lemma useAndPayOut_paidOut:
  assumes "runs (useAndPayOut en u r) s = (Inr x, t)" and "sd_faults (pd_sub s) = []"
  shows "paidOut u r s t"
proof -
  obtain y b where use: "runs (Use (rc_ID r) u) s = (Inr y, b)" and pay: "runs (payOut en u r) b = (Inr x, t)"
    using assms(1) by (auto simp: useAndPayOut_def runs_orFail split: prod.splits sum.splits)
  note u = payStatement_Inr [OF use [unfolded Use_def runs_call]]
  have ex: "\<exists>x \<in> set (pd_codes s). rc_ID x = rc_ID r \<and> rc_Status x = StatusUnused"
    and b: "b = s\<lparr>pd_faults := tl (pd_faults s), pd_codes := map (\<lambda>x. if rc_ID x = rc_ID r \<and> rc_Status x = StatusUnused
        then markUsed u (pd_clock s) x else x) (pd_codes s)\<rparr>"
    using u by (auto split: if_splits)
  from payOut_paying [OF pay] ex assms(2) show ?thesis
    unfolding paying_def paidOut_def
    by (auto simp: b paysOut_def recharged_def balance_def)
qed

lemma paidOut_codes:
  assumes "payInv s" and "paidOut u r s t"
  obtains xs x ys now where "pd_codes s = xs @ x # ys" and "rc_ID x = rc_ID r" and "rc_Status x = StatusUnused"
    and "pd_codes t = xs @ markUsed u now x # ys"
proof -
  obtain x now where x: "x \<in> set (pd_codes s)" "rc_ID x = rc_ID r" "rc_Status x = StatusUnused"
    and t: "pd_codes t = map (\<lambda>x. if rc_ID x = rc_ID r \<and> rc_Status x = StatusUnused then markUsed u now x else x) (pd_codes s)"
    using assms(2) by (auto simp: paidOut_def)
  obtain xs ys where s: "pd_codes s = xs @ x # ys"
    using split_list [OF x(1)] by blast
  have "distinct (map rc_ID (xs @ x # ys))"
    using assms(1) by (simp add: payInv_def s)
  then have "rc_ID r \<notin> rc_ID ` (set xs \<union> set ys)"
    using x(2) by auto
  then have "rc_ID y \<noteq> rc_ID r" if "y \<in> set xs \<union> set ys" for y
    using that by (metis imageI)
  then have "pd_codes t = xs @ markUsed u now x # ys"
    using x(2,3) by (auto simp: t s intro!: map_idI)
  with s x(2,3) that show thesis by blast
qed

lemma codes_member:
  assumes "payInv s" and "x \<in> set (pd_codes s)" and "y \<in> set (pd_codes s)" and "rc_ID x = rc_ID y"
  shows "x = y"
  using assms by (auto simp: payInv_def distinct_map inj_on_def)

lemma paidOut_effects:
  assumes inv: "payInv s" and paid: "paidOut u r s t" and row: "r0 \<in> set (pd_codes s)" "sameCode r0 r"
  shows "payInv t" and "payRely s t" and "keepsSettled s t"
    and "o1 \<in> set (pd_orders s) \<Longrightarrow> codeFor o1 r \<Longrightarrow> po_UserID o1 = u \<Longrightarrow> payGuar en s t"
proof -
  obtain xs x ys now where s: "pd_codes s = xs @ x # ys" and x: "rc_ID x = rc_ID r" "rc_Status x = StatusUnused"
    and t: "pd_codes t = xs @ markUsed u now x # ys"
    by (rule paidOut_codes [OF inv paid])
  have x_r: "sameCode x r"
    using codes_member [OF inv, of x r0] row x(1) by (auto simp: s sameCode_def)
  have same: "pd_nextCode t = pd_nextCode s" "pd_orders t = pd_orders s" "pd_audit t = pd_audit s"
      "pd_ledger t = pd_ledger s" "sd_faults (pd_sub t) = []" "pd_nextOrder t = pd_nextOrder s"
    using paid by (simp_all add: paidOut_def)
  have audits: "hasAudit t oid acts = hasAudit s oid acts" for oid acts
    by (simp add: hasAudit_def same)
  have stays: "y \<in> set (pd_codes t)" if "y \<in> set (pd_codes s)" "IsUsed y" for y
    using that x(2) by (auto simp: s t IsUsed_def)
  have delivered: "delivered s o2 \<Longrightarrow> delivered t o2" for o2
    using stays by (auto simp: delivered_def cashed_def assigned_def audits split: if_splits)
  show "payInv t"
    using inv delivered by (auto simp: payInv_def same s t markUsed_def)
  show rely: "payRely s t"
    unfolding payRely_def
  proof (intro conjI ballI allI impI)
    fix y
    assume y: "y \<in> set (pd_codes s)"
    show "\<exists>y' \<in> set (pd_codes t). sameCode y y' \<and> (IsUsed y \<longrightarrow> y' = y)"
    proof (cases "y = x")
      case True
      then show ?thesis
        using x(2) by (intro bexI [of _ "markUsed u now x"]) (auto simp: t sameCode_def markUsed_def IsUsed_def)
    next
      case False
      with y show ?thesis by (intro bexI [of _ y]) (auto simp: s t)
    qed
  next
    fix o2
    assume "o2 \<in> set (pd_orders s)"
    then show "\<exists>o3 \<in> set (pd_orders t). evolves o2 o3"
      by (auto simp: same intro!: bexI [of _ o2])
  qed (simp_all add: assigned_def rebated_def audits)
  show settled: "keepsSettled s t"
    by (auto simp: keepsSettled_def same sameOrder_def)
  show "payGuar en s t" if o1: "o1 \<in> set (pd_orders s)" "codeFor o1 r" "po_UserID o1 = u"
  proof -
    have cashed: "cashed o1 (markUsed u now x)"
      using o1(2,3) x_r by (simp add: cashed_def codeFor_def markUsed_def IsUsed_def sameCode_def)
    then have used: "y \<in> set (pd_codes s) \<or> (\<exists>o1 \<in> set (pd_orders s). cashed o1 y)" if "y \<in> set (pd_codes t)" for y
      using that o1(1) by (auto simp: s t)
    have "\<not> cashed o1 y" if "y \<in> set (pd_codes s)" for y
    proof
      assume "cashed o1 y"
      then have "rc_Code y = rc_Code x" "IsUsed y"
        using o1(2) x_r by (simp_all add: cashed_def codeFor_def sameCode_def)
      moreover have "inj_on rc_Code (set (pd_codes s))" "x \<in> set (pd_codes s)"
        using inv by (simp_all only: payInv_def distinct_map) (simp add: s)
      ultimately have "y = x"
        using that by (auto dest: inj_onD)
      then show False using \<open>IsUsed y\<close> x(2) by (simp add: IsUsed_def)
    qed
    moreover have p: "paysOut u r s t"
      using paid o1(2) by (simp add: paidOut_def codeFor_def)
    ultimately have "creditsFor o1 s t"
      unfolding creditsFor_def using cashed o1(3) x_r
      by (auto simp: paysOut_def t markUsed_def sameCode_def intro!: bexI [of _ "markUsed u now x"])
    then show ?thesis
      using rely settled used o1(1) p by (auto simp: payGuar_def same paysOut_def)
  qed
qed

text \<open>Creating the code of an order.\<close>

lemma createCode_effects:
  assumes inv: "payInv s" and new: "\<forall>r \<in> set (pd_codes s). rc_Code r \<noteq> rc_Code code" and unused: "\<not> IsUsed code"
    and t: "t = s\<lparr>pd_codes := pd_codes s @ [code\<lparr>rc_ID := pd_nextCode s\<rparr>], pd_nextCode := pd_nextCode s + 1\<rparr>"
  shows "payInv t" and "payGuar en s t"
proof -
  have delivered: "delivered s o2 \<Longrightarrow> delivered t o2" for o2
    by (auto simp: delivered_def t assigned_def hasAudit_def)
  show "payInv t"
    using inv new delivered unfolding payInv_def by (force simp: t)
  have "payRely s t"
    unfolding payRely_def by (auto simp: t assigned_def rebated_def hasAudit_def
        intro!: bexI [of _ "_ :: PaymentOrder"] bexI [of _ "_ :: RedeemCode"])
  moreover have "sameBalances s t" and "keepsSettled s t"
    by (auto simp: t sameBalances_def balance_def recharged_def keepsSettled_def sameOrder_def)
  moreover have "\<forall>r \<in> set (pd_codes t). IsUsed r \<longrightarrow> r \<in> set (pd_codes s)"
    using unused by (simp add: t IsUsed_def)
  moreover have "pd_sub t = pd_sub s" "pd_ledger t = pd_ledger s"
    by (simp_all add: t)
  ultimately show "payGuar en s t"
    unfolding payGuar_def by blast
qed

section \<open>Subscriptions and rebates\<close>

text \<open>\<open>leaves R p\<close>: however \<open>p\<close> ends when it runs alone, \<open>R\<close> relates the states before and after it.\<close>

definition leaves :: "(pay_db \<Rightarrow> pay_db \<Rightarrow> bool) \<Rightarrow> (pay_db, 'a) proc \<Rightarrow> bool" where
  "leaves R p \<longleftrightarrow> (\<forall>s. R s (snd (runs p s)))"

text \<open>Only the affiliates change; and that, but for an entry of the ledger.\<close>

definition sameBut :: "pay_db \<Rightarrow> pay_db \<Rightarrow> bool" where
  "sameBut s t \<longleftrightarrow> pd_codes t = pd_codes s \<and> pd_nextCode t = pd_nextCode s \<and> pd_users t = pd_users s \<and>
     pd_sub t = pd_sub s \<and> pd_orders t = pd_orders s \<and> pd_nextOrder t = pd_nextOrder s \<and> pd_audit t = pd_audit s"

definition onlyAffiliates :: "pay_db \<Rightarrow> pay_db \<Rightarrow> bool" where
  "onlyAffiliates s t \<longleftrightarrow> sameBut s t \<and> pd_ledger t = pd_ledger s"

definition accrues :: "int \<Rightarrow> int option \<Rightarrow> pay_db \<Rightarrow> pay_db \<Rightarrow> bool" where
  "accrues u oid s t \<longleftrightarrow> sameBut s t \<and> (pd_ledger t = pd_ledger s \<or>
     (\<exists>inviter amount. pd_ledger t = pd_ledger s @
        [\<lparr>le_UserID = inviter, le_Amount = amount, le_SourceUserID = u, le_SourceOrderID = oid\<rparr>]))"

lemma onlyAffiliates_accrues:
  "onlyAffiliates s t \<Longrightarrow> accrues u oid s t"
  "onlyAffiliates r s \<Longrightarrow> accrues u oid s t \<Longrightarrow> accrues u oid r t"
  "accrues u oid r s \<Longrightarrow> onlyAffiliates s t \<Longrightarrow> accrues u oid r t"
  by (auto simp: onlyAffiliates_def accrues_def sameBut_def)

lemma leaves_payStatement: "(\<And>db. onlyAffiliates db (snd (f db))) \<Longrightarrow> leaves onlyAffiliates (call f)"
  unfolding leaves_def
proof (intro allI)
  fix s
  assume *: "\<And>db. onlyAffiliates db (snd (f db))"
  then have "onlyAffiliates s (snd (f (s\<lparr>pd_faults := tl (pd_faults s)\<rparr>)))"
    using * [of "s\<lparr>pd_faults := tl (pd_faults s)\<rparr>"] by (simp add: onlyAffiliates_def sameBut_def)
  then show "onlyAffiliates s (snd (runs (call f) s))"
    by (cases rule: payStatement_cases [of f s]) (simp_all add: onlyAffiliates_def sameBut_def)
qed

lemma leaves_accrues_orFail:
  assumes "leaves onlyAffiliates p" and "\<And>x. leaves (accrues u oid) (k x)"
  shows "leaves (accrues u oid) (orFail p k)"
  using assms unfolding leaves_def runs_orFail
  by (auto split: prod.splits sum.splits) (metis onlyAffiliates_accrues snd_conv)+

lemma leaves_orFail_Return: "leaves R p \<Longrightarrow> leaves R (orFail p (\<lambda>x. Return (f x)))"
  by (simp add: leaves_def runs_orFail case_prod_unfold split: sum.splits)

lemma leaves_final:
  assumes "leaves R p" and "\<And>x. \<exists>y. k x = Return y"
  shows "leaves R (orFail p k)"
proof -
  obtain f where "k = (\<lambda>x. Return (f x))" using assms(2) by metis
  then show ?thesis by (simp add: leaves_orFail_Return assms(1))
qed

lemma leaves_getNow: "(\<And>x. leaves R (k x)) \<Longrightarrow> leaves R (bind getNow k)"
  by (simp add: leaves_def)

lemma leaves_Return: "leaves onlyAffiliates (Return x)" "leaves (accrues u oid) (Return x)"
  by (simp_all add: leaves_def onlyAffiliates_def accrues_def sameBut_def)

lemma leaves_EnsureUserAffiliate: "leaves onlyAffiliates (EnsureUserAffiliate i)"
  unfolding EnsureUserAffiliate_def
  by (auto simp: Let_def onlyAffiliates_def sameBut_def intro!: leaves_payStatement leaves_Return split: option.splits)

lemma leaves_capRebate: "leaves onlyAffiliates (capRebate af i j q)"
proof -
  have "leaves onlyAffiliates (GetAccruedRebateFromInvitee i j)"
    unfolding GetAccruedRebateFromInvitee_def by (rule leaves_payStatement) (simp add: onlyAffiliates_def sameBut_def)
  then show ?thesis
    by (auto simp: capRebate_def Let_def leaves_Return intro!: leaves_final)
qed

lemma leaves_accrueQuotaTx: "leaves (accrues j oid) (accrueQuotaTx i j q h oid)"
  unfolding accrueQuotaTx_def
proof (rule leaves_accrues_orFail)
  let ?f = "\<lambda>db. (Inr (), db\<lparr>pd_ledger := pd_ledger db @
        [\<lparr>le_UserID = i, le_Amount = q, le_SourceUserID = j, le_SourceOrderID = oid\<rparr>]\<rparr>) :: (pay_error + unit) \<times> pay_db"
  have "accrues j oid s (snd (payStatement ?f s))" for s
    by (cases rule: payStatement_cases [of ?f s]) (auto simp: accrues_def sameBut_def)
  then have "leaves (accrues j oid) (orFail (call ?f) (\<lambda>_. Return (Inr True)))"
    by (intro leaves_orFail_Return) (simp add: leaves_def)
  then show "leaves (accrues j oid) (if \<not> affected then Return (Inr False) else orFail (call ?f) (\<lambda>_. Return (Inr True)))"
    for affected
    by (simp add: leaves_Return)
qed (rule leaves_payStatement, simp add: onlyAffiliates_def sameBut_def)

lemma leaves_AccrueInviteRebateForOrder:
  "leaves (accrues u oid) (AccrueInviteRebateForOrder en af True u q oid)"
proof -
  have "leaves (accrues u oid) (AccrueQuota True i u q h oid)" for i q h
    by (simp add: AccrueQuota_def leaves_accrueQuotaTx leaves_Return)
  then have *: "leaves (accrues u oid) (orFail (AccrueQuota True i u q h oid) (\<lambda>applied. Return (Inr (f applied))))"
    for i q h and f :: "bool \<Rightarrow> rat"
    by (rule leaves_orFail_Return)
  then have "leaves (accrues u oid) (accrueFromInviter en af True u q oid invitee i)" for invitee i
    unfolding accrueFromInviter_def Let_def
    by (intro leaves_accrues_orFail leaves_EnsureUserAffiliate leaves_getNow)
       (auto intro!: leaves_accrues_orFail leaves_capRebate leaves_Return * split: option.splits)
  then show ?thesis
    unfolding AccrueInviteRebateForOrder_def
    by (auto intro!: leaves_Return leaves_accrues_orFail leaves_EnsureUserAffiliate split: option.splits)
qed

lemma hasAudit_iff:
  "hasAudit db oid actions \<longleftrightarrow> (\<exists>e \<in> set (pd_audit db). al_OrderID e = oid \<and> al_Action e \<in> set actions)"
  by (auto simp: hasAudit_def list_ex_iff)

text \<open>A step that leaves codes and users alone and takes no audit entry away keeps all but the guarantee.\<close>

lemma bookkeeping:
  assumes inv: "payInv s" and same: "pd_codes t = pd_codes s" "pd_nextCode t = pd_nextCode s" "pd_users t = pd_users s"
      "pd_orders t = pd_orders s" "pd_nextOrder t = pd_nextOrder s" "sd_faults (pd_sub t) = []"
    and audits: "\<And>oid actions. ''AFFILIATE_REBATE_APPLIED'' \<notin> set actions \<Longrightarrow> hasAudit s oid actions \<Longrightarrow> hasAudit t oid actions"
    and rebates: "\<And>oid. rebated s oid \<Longrightarrow> rebated t oid"
    and subs: "pd_sub t = pd_sub s \<or> (\<exists>o1 \<in> set (pd_orders s). assignsFor en o1 s t)"
    and ledger: "pd_ledger t = pd_ledger s \<or> (\<exists>o1 \<in> set (pd_orders s). rebatesFor o1 s t)"
  shows "payInv t" and "payGuar en s t"
proof -
  have "assigned s oid \<Longrightarrow> assigned t oid" for oid
    using audits by (simp add: assigned_def)
  then have "delivered s o1 \<Longrightarrow> delivered t o1" for o1
    by (simp add: delivered_def same split: if_splits)
  then show "payInv t"
    using inv by (auto simp: payInv_def same)
  have "sameBalances s t" and "keepsSettled s t"
    by (auto simp: sameBalances_def keepsSettled_def balance_def recharged_def sameOrder_def same)
  moreover have "payRely s t"
    unfolding payRely_def
  proof (intro conjI ballI allI impI)
    fix r
    assume "r \<in> set (pd_codes s)"
    then show "\<exists>r' \<in> set (pd_codes t). sameCode r r' \<and> (IsUsed r \<longrightarrow> r' = r)"
      by (intro bexI [of _ r]) (simp_all add: same)
  next
    fix o1
    assume "o1 \<in> set (pd_orders s)"
    then show "\<exists>o2 \<in> set (pd_orders t). evolves o1 o2"
      by (intro bexI [of _ o1]) (simp_all add: same)
  qed (simp_all add: audits rebates)
  ultimately show "payGuar en s t"
    using subs ledger by (simp add: payGuar_def same)
qed

lemma rebateTx_effects:
  assumes inv: "payInv s" and tx: "runs (rebateTx en af o1 q) s = (Inr x, t)"
    and o2: "o2 \<in> set (pd_orders s)" "sameOrder o1 o2"
  shows "payInv t" and "payGuar en s t"
proof -
  let ?APPLIED = "''AFFILIATE_REBATE_APPLIED''"
  let ?e = "\<lparr>al_OrderID = po_ID o1, al_Action = ?APPLIED, al_Pending = None\<rparr>"
  obtain m where claim: "runs (tryClaimAffiliateRebateAudit (po_ID o1)) s = (Inr True, m)"
    and rest: "runs (orFail (AccrueInviteRebateForOrder en af True (po_UserID o1) q (Some (po_ID o1))) (\<lambda>rebateAmount.
         updateClaimedAffiliateRebateAudit (po_ID o1)
           (if rebateAmount \<le> 0 then ''AFFILIATE_REBATE_SKIPPED'' else ?APPLIED))) m = (Inr x, t)"
    using tx by (auto simp: rebateTx_def runs_orFail split: prod.splits sum.splits if_splits)
  have m: "\<not> rebated s (po_ID o1)" "m = s\<lparr>pd_faults := tl (pd_faults s), pd_audit := pd_audit s @ [?e]\<rparr>"
    using payStatement_Inr [OF claim [unfolded tryClaimAffiliateRebateAudit_def runs_call]]
    by (auto simp: rebated_def hasAudit_def split: if_splits)
  obtain q' m' where accrue: "runs (AccrueInviteRebateForOrder en af True (po_UserID o1) q (Some (po_ID o1))) m = (Inr q', m')"
    and upd: "runs (updateClaimedAffiliateRebateAudit (po_ID o1)
           (if q' \<le> 0 then ''AFFILIATE_REBATE_SKIPPED'' else ?APPLIED)) m' = (Inr x, t)"
    using rest by (auto simp: runs_orFail split: prod.splits sum.splits)
  have m': "accrues (po_UserID o1) (Some (po_ID o1)) m m'"
    using leaves_AccrueInviteRebateForOrder [of "po_UserID o1" "Some (po_ID o1)" en af q] accrue
    by (simp add: leaves_def) (metis snd_conv)
  obtain action where action: "action \<in> {''AFFILIATE_REBATE_SKIPPED'', ?APPLIED}"
    and t: "t = m'\<lparr>pd_faults := tl (pd_faults m'), pd_audit := map (\<lambda>e. if al_OrderID e = po_ID o1 \<and> al_Action e = ?APPLIED
        then e\<lparr>al_Action := action\<rparr> else e) (pd_audit m')\<rparr>"
    using payStatement_Inr [OF upd [unfolded updateClaimedAffiliateRebateAudit_def runs_call]]
    by (auto split: if_splits)
  have same: "pd_codes t = pd_codes s" "pd_nextCode t = pd_nextCode s" "pd_users t = pd_users s"
      "pd_orders t = pd_orders s" "pd_nextOrder t = pd_nextOrder s" "pd_sub t = pd_sub s"
    and ledger: "pd_ledger t = pd_ledger s \<or> (\<exists>inviter amount. pd_ledger t = pd_ledger s @
        [\<lparr>le_UserID = inviter, le_Amount = amount, le_SourceUserID = po_UserID o1, le_SourceOrderID = Some (po_ID o1)\<rparr>])"
    and audit: "pd_audit t = map (\<lambda>e. if al_OrderID e = po_ID o1 \<and> al_Action e = ?APPLIED
        then e\<lparr>al_Action := action\<rparr> else e) (pd_audit s @ [?e])"
    using m' by (simp_all add: t m(2) accrues_def sameBut_def)
  let ?g = "\<lambda>e. if al_OrderID e = po_ID o1 \<and> al_Action e = ?APPLIED then e\<lparr>al_Action := action\<rparr> else e"
  have kept: "hasAudit t oid actions"
    if "e \<in> set (pd_audit s @ [?e])" "al_OrderID e = oid" "al_Action (?g e) \<in> set actions" for e oid actions
    unfolding hasAudit_iff audit set_map
    by (rule bexI [OF _ imageI [OF that(1)]]) (use that(2,3) in simp)
  have audits: "hasAudit t oid actions" if notThat: "?APPLIED \<notin> set actions" and had: "hasAudit s oid actions" for oid actions
  proof -
    obtain e where "e \<in> set (pd_audit s)" "al_OrderID e = oid" "al_Action e \<in> set actions"
      using had by (auto simp: hasAudit_iff)
    moreover from this have "al_Action e \<noteq> ?APPLIED"
      using notThat by metis
    ultimately show ?thesis by (intro kept [of e]) simp_all
  qed
  have reb': "rebated t oid"
    if "e \<in> set (pd_audit s @ [?e])" "al_OrderID e = oid" "al_Action e \<in> {?APPLIED, ''AFFILIATE_REBATE_SKIPPED''}" for e oid
    unfolding rebated_def using that action by (intro kept [of e]) auto
  have reb: "rebated t oid" if "rebated s oid \<or> oid = po_ID o1" for oid
    using that
  proof
    assume "rebated s oid"
    then obtain e where "e \<in> set (pd_audit s)" "al_OrderID e = oid" "al_Action e \<in> {?APPLIED, ''AFFILIATE_REBATE_SKIPPED''}"
      unfolding rebated_def hasAudit_iff by auto
    then show ?thesis by (intro reb' [of e]) simp_all
  next
    assume "oid = po_ID o1"
    then show ?thesis by (intro reb' [of ?e]) simp_all
  qed
  have "pd_ledger t = pd_ledger s \<or> rebatesFor o2 s t"
    using ledger m(1) reb [of "po_ID o1"] o2(2) by (auto simp: rebatesFor_def sameOrder_def)
  then have led: "pd_ledger t = pd_ledger s \<or> (\<exists>o1 \<in> set (pd_orders s). rebatesFor o1 s t)"
    using o2(1) by blast
  have f: "sd_faults (pd_sub t) = []"
    using inv same by (simp add: payInv_def)
  show "payInv t" and "payGuar en s t"
    using bookkeeping [OF inv same(1-5) f audits _ _ led] reb same(6) by simp_all
qed

lemma sd_faults_id: "sd_faults x = [] \<Longrightarrow> x\<lparr>sd_faults := fs, sd_faults := []\<rparr> = x"
  by simp

lemma onSubs_read:
  assumes "\<And>sdb. \<exists>fs. snd (m sdb) = sdb\<lparr>sd_faults := fs\<rparr>" and "sd_faults (pd_sub s) = []"
  shows "\<exists>fs. snd (runs (onSubs m) s) = s\<lparr>pd_faults := fs\<rparr>"
proof -
  obtain fs where "snd (m (pd_sub s\<lparr>sd_faults := pd_faults s\<rparr>)) = pd_sub s\<lparr>sd_faults := fs\<rparr>"
    using assms(1) [of "pd_sub s\<lparr>sd_faults := pd_faults s\<rparr>"] by auto
  then show ?thesis
    using assms(2) by (cases "m (pd_sub s\<lparr>sd_faults := pd_faults s\<rparr>)") (auto simp: onSubs_def intro!: exI [of _ fs])
qed

lemma GetByUserIDAndGroupID_reads: "\<exists>fs. snd (GetByUserIDAndGroupID u g sdb) = sdb\<lparr>sd_faults := fs\<rparr>"
  unfolding GetByUserIDAndGroupID_def onlyRow_def sql_def Let_def
  by (auto split: list.splits fault.splits)

lemma GetGroup_reads: "\<exists>fs. snd (GetGroup g sdb) = sdb\<lparr>sd_faults := fs\<rparr>"
  unfolding GetGroup_def sql_def Let_def by (auto split: list.splits fault.splits option.splits)

lemma assignNow_effect:
  assumes run: "runs (assignNow en o1 groupID days) s = (Inr x, t)"
  obtains now sub sdb' fs where "assignOrExtendSubscription True (en_zones en) now
      \<lparr>as_UserID = po_UserID o1, as_GroupID = groupID, as_ValidityDays = days, as_AssignedBy = 0,
       as_Notes = paymentSubscriptionOrderNote (po_ID o1)\<rparr> ((pd_sub s)\<lparr>sd_faults := pd_faults s\<rparr>) = (Inr sub, sdb')"
    and "t = s\<lparr>pd_sub := sdb'\<lparr>sd_faults := []\<rparr>, pd_faults := fs\<rparr>"
proof -
  define a where "a = assignOrExtendSubscription True (en_zones en) (pd_clock s)
      \<lparr>as_UserID = po_UserID o1, as_GroupID = groupID, as_ValidityDays = days, as_AssignedBy = 0,
       as_Notes = paymentSubscriptionOrderNote (po_ID o1)\<rparr> ((pd_sub s)\<lparr>sd_faults := pd_faults s\<rparr>)"
  have "fst a = Inr (projr (fst a))" and "t = s\<lparr>pd_sub := (snd a)\<lparr>sd_faults := []\<rparr>, pd_faults := sd_faults (snd a)\<rparr>"
    using run unfolding assignNow_def
    by (auto simp: runs_orFail onSubs_def case_prod_unfold a_def [symmetric] split: sum.splits)
      (cases "fst a"; simp)+
  then show thesis
    using that [of "pd_clock s" "projr (fst a)" "snd a" "sd_faults (snd a)"] by (simp add: a_def [symmetric] prod_eq_iff)
qed

lemma assignOnce_effects:
  assumes inv: "payInv s" and run: "runs (assignOnce en o1 groupID days) s = (Inr x, t)"
    and o2: "o2 \<in> set (pd_orders s)" "sameOrder o1 o2" "po_SubscriptionGroupID o1 = Some groupID"
      "po_SubscriptionDays o1 = Some days"
  shows "payInv t" and "payGuar en s t" and "assigned t (po_ID o1)"
proof -
  have f: "sd_faults (pd_sub s) = []"
    using inv by (simp add: payInv_def)
  define e where "e = runs (onSubs (GetByUserIDAndGroupID (po_UserID o1) groupID)) s"
  obtain fs where m: "snd e = s\<lparr>pd_faults := fs\<rparr>"
    using onSubs_read [of "GetByUserIDAndGroupID (po_UserID o1) groupID", OF GetByUserIDAndGroupID_reads f]
    by (auto simp: e_def)
  define p where "p = (case fst e of
        Inr sub \<Rightarrow>
          if hasPaymentSubscriptionOrderNote (us_Notes sub) (paymentSubscriptionOrderNote (po_ID o1))
          then Return (Inr ()) else assignNow en o1 groupID days
      | Inl e \<Rightarrow>
          if e \<noteq> SubscriptionError ErrSubscriptionNotFound then Return (Inl e)
          else assignNow en o1 groupID days)"
  have "runs (orFail p (\<lambda>_. createAudit (po_ID o1) ''SUBSCRIPTION_ASSIGNED'' None)) (snd e) = (Inr x, t)"
    using run by (simp add: assignOnce_def e_def p_def)
  then obtain m' where first: "runs p (snd e) = (Inr (), m')"
    and audit: "runs (createAudit (po_ID o1) ''SUBSCRIPTION_ASSIGNED'' None) m' = (Inr x, t)"
    by (auto simp: runs_orFail split: prod.splits sum.splits)
  have t: "\<not> hasAudit m' (po_ID o1) [''SUBSCRIPTION_ASSIGNED'']"
    "t = m'\<lparr>pd_faults := tl (pd_faults m'), pd_audit := pd_audit m' @
       [\<lparr>al_OrderID = po_ID o1, al_Action = ''SUBSCRIPTION_ASSIGNED'', al_Pending = None\<rparr>]\<rparr>"
    using payStatement_Inr [OF audit [unfolded createAudit_def runs_call]]
    by (auto simp: hasAudit_def split: if_splits)
  have "p = Return (Inr ()) \<or> p = assignNow en o1 groupID days \<or> (\<exists>err. p = Return (Inl err))"
    unfolding p_def by (cases "fst e") auto
  then consider (none) "m' = snd e" | (assign) "runs (assignNow en o1 groupID days) (snd e) = (Inr (), m')"
    using first by auto
  then have sub: "(pd_sub t = pd_sub s \<or> assignsFor en o2 s t) \<and> sd_faults (pd_sub t) = [] \<and>
      (\<exists>sdb fs. m' = s\<lparr>pd_sub := sdb, pd_faults := fs\<rparr>)"
  proof cases
    case none
    then show ?thesis using f by (auto simp: t(2) m intro!: exI [of _ "pd_sub s"])
  next
    case assign
    obtain now sub sdb' fs' where a: "assignOrExtendSubscription True (en_zones en) now
        \<lparr>as_UserID = po_UserID o1, as_GroupID = groupID, as_ValidityDays = days, as_AssignedBy = 0,
         as_Notes = paymentSubscriptionOrderNote (po_ID o1)\<rparr> ((pd_sub s)\<lparr>sd_faults := fs\<rparr>) = (Inr sub, sdb')"
      and m': "m' = s\<lparr>pd_sub := sdb'\<lparr>sd_faults := []\<rparr>, pd_faults := fs'\<rparr>"
      by (rule assignNow_effect [OF assign]) (simp add: m)
    have "case assignOrExtendSubscription True (en_zones en) now
           \<lparr>as_UserID = po_UserID o2, as_GroupID = groupID, as_ValidityDays = days, as_AssignedBy = 0,
            as_Notes = paymentSubscriptionOrderNote (po_ID o2)\<rparr> (pd_sub s\<lparr>sd_faults := fs\<rparr>) of
           (r, sdb') \<Rightarrow> r = Inr sub \<and> pd_sub t = sdb'\<lparr>sd_faults := []\<rparr>"
      using a o2(2) by (simp add: sameOrder_def t(2) m')
    moreover have "\<not> hasAudit s (po_ID o2) [''SUBSCRIPTION_ASSIGNED'']" "hasAudit t (po_ID o2) [''SUBSCRIPTION_ASSIGNED'']"
        "po_SubscriptionGroupID o2 = Some groupID" "po_SubscriptionDays o2 = Some days"
      using t(1) o2 by (simp_all add: sameOrder_def t(2) m' hasAudit_def)
    ultimately have "assignsFor en o2 s t"
      unfolding assignsFor_def by (intro conjI, simp, simp)
        (rule exI [of _ now], rule exI [of _ groupID], rule exI [of _ days],
         rule exI [of _ "(pd_sub s)\<lparr>sd_faults := fs\<rparr>"], rule exI [of _ sub], simp)
    then show ?thesis by (auto simp: t(2) m')
  qed
  then have same: "pd_codes t = pd_codes s" "pd_nextCode t = pd_nextCode s" "pd_users t = pd_users s"
      "pd_orders t = pd_orders s" "pd_nextOrder t = pd_nextOrder s" "pd_ledger t = pd_ledger s" and audits: "pd_audit t = pd_audit s @
       [\<lparr>al_OrderID = po_ID o1, al_Action = ''SUBSCRIPTION_ASSIGNED'', al_Pending = None\<rparr>]"
    by (auto simp: t(2))
  have "hasAudit t oid actions" if "hasAudit s oid actions" for oid actions
    using that by (auto simp: hasAudit_def audits)
  then show "payInv t" and "payGuar en s t"
    using bookkeeping [OF inv same(1-5), of en] sub o2(1) same(6) by (auto simp: rebated_def)
  show "assigned t (po_ID o1)"
    by (simp add: assigned_def hasAudit_def audits)
qed

section \<open>The three guarantees\<close>

lemma faults_irrelevant [simp]:
  "balance (s\<lparr>pd_faults := fs\<rparr>) = balance s" "recharged (s\<lparr>pd_faults := fs\<rparr>) = recharged s"
  "hasAudit (s\<lparr>pd_faults := fs\<rparr>) = hasAudit s"
  by (auto simp: fun_eq_iff balance_def recharged_def hasAudit_def)

lemma payRely_faults [simp]:
  "payRely (s\<lparr>pd_faults := fs\<rparr>) t = payRely s t" "payRely s (t\<lparr>pd_faults := fs\<rparr>) = payRely s t"
  "keepsSettled (s\<lparr>pd_faults := fs\<rparr>) t = keepsSettled s t" "keepsSettled s (t\<lparr>pd_faults := fs\<rparr>) = keepsSettled s t"
  by (simp_all add: payRely_def rebated_def keepsSettled_def)

lemma payGuar_faults [simp]:
  "payGuar en (s\<lparr>pd_faults := fs\<rparr>) t = payGuar en s t" "payGuar en s (t\<lparr>pd_faults := fs\<rparr>) = payGuar en s t"
  by (simp_all add: payGuar_def sameBalances_def creditsFor_def assignsFor_def rebatesFor_def rebated_def)

lemma payGuar_payRely: "payGuar en s t \<Longrightarrow> payRely s t"
  by (simp add: payGuar_def)

interpretation pay: payment_worker "payGuar en" for en
  by unfold_locales (auto simp: quiet_payGuar payGuar_payRely intro: payRely_trans)

interpretation refunding: payment_worker refundGuar
  by unfold_locales (auto simp: refundGuar_def quiet_payRely quiet_keepsSettled intro: payRely_trans)

interpretation other: payment_worker payRely
  by unfold_locales (auto simp: quiet_payRely intro: payRely_trans)

text \<open>What an operation knows of an order and a code once it has read them.\<close>

definition knows :: "PaymentOrder \<Rightarrow> pay_db \<Rightarrow> bool" where
  "knows o1 s \<longleftrightarrow> (\<exists>o2 \<in> set (pd_orders s). sameOrder o1 o2)"

definition hasCodeFor :: "PaymentOrder \<Rightarrow> pay_db \<Rightarrow> bool" where
  "hasCodeFor o1 s \<longleftrightarrow> (\<exists>r \<in> set (pd_codes s). codeFor o1 r)"

definition knowsCode :: "RedeemCode \<Rightarrow> pay_db \<Rightarrow> bool" where
  "knowsCode r s \<longleftrightarrow> (\<exists>r' \<in> set (pd_codes s). sameCode r' r)"

lemma lasting_known [simp]:
  "pay.lasting (knows o1)" "pay.lasting (hasCodeFor o1)" "pay.lasting (knowsCode r)"
  "pay.lasting (\<lambda>s. delivered s o1)" "pay.lasting (\<lambda>s. assigned s oid)"
proof -
  show "pay.lasting (knows o1)"
    unfolding pay.lasting_def knows_def payRely_def evolves_def sameOrder_def by metis
  show "pay.lasting (hasCodeFor o1)"
    unfolding pay.lasting_def hasCodeFor_def payRely_def codeFor_def sameCode_def by metis
  show "pay.lasting (knowsCode r)"
    unfolding pay.lasting_def knowsCode_def payRely_def sameCode_def by metis
  show a: "pay.lasting (\<lambda>s. assigned s oid)" for oid
    unfolding pay.lasting_def payRely_def assigned_def by simp
  show "pay.lasting (\<lambda>s. delivered s o1)"
  proof (cases "po_OrderType o1 = OrderTypeSubscription")
    case True
    then show ?thesis using a by (simp add: delivered_def)
  next
    case False
    then show ?thesis
      unfolding pay.lasting_def delivered_def payRely_def cashed_def by simp metis
  qed
qed

lemma knows_getOrder: "pay.secures en (\<lambda>_. True) (getOrder i) (pay.onSuccess (\<lambda>o1 s. knows o1 s \<and> po_ID o1 = i))"
  unfolding getOrder_def
  by (rule pay.secures_quiet) (auto simp: knows_def find_Some_iff sameOrder_def split: option.splits intro!: bexI [rotated] nth_mem)

end
