(* ===== verification/Payment_Safety.thy ===== *)
theory Payment_Safety
  imports Payment_Rely
begin

text \<open>
  Every operation on payments keeps its part, so that what the earlier theory says of single steps
  holds of every interleaving: an order is credited once, assigned once and its rebate is paid once,
  and an order that counts as completed has been delivered.
\<close>

section \<open>Rules for the rest of an operation\<close>

context payment_worker
begin

lemma secures_frame_bind:
  "lasting K \<Longrightarrow> frame p \<Longrightarrow> (\<And>x. secures K (k x) Q) \<Longrightarrow> secures K (bind p k) Q"
  by (rule secures_bind [OF _ frameD]) simp_all

lemma secures_frame_orFail:
  "lasting K \<Longrightarrow> frame p \<Longrightarrow> (\<And>x. secures K (k x) (onSuccess Q)) \<Longrightarrow> secures K (orFail p k) (onSuccess Q)"
  by (rule secures_orFail [where P = "\<lambda>_ _. True"]) (simp_all add: frameD)

lemma secures_retain:
  assumes "lasting K" and "frame p" and "\<And>x s. K s \<Longrightarrow> Q x s"
  shows "secures K p Q"
  unfolding secures_def
proof (intro allI impI)
  fix s
  assume "K s"
  have "upholds payRely payInv guar p (\<lambda>_ _. True) s"
    using assms(2) by (simp add: frame_def secures_def)
  then have "upholds payRely payInv guar p (\<lambda>x t. payRely s t \<and> True) s"
    by (rule upholds_and_rely) (rule rely_refl)
  then show "upholds payRely payInv guar p Q s"
    by (rule upholds_weaken) (use lastingD [OF assms(1) _ \<open>K s\<close>] assms(3) in blast)
qed

lemma secures_error: "secures K (Return (Inl e)) (onSuccess Q)"
  by (rule secures_Return) simp

lemma secures_done: "(\<And>s. K s \<Longrightarrow> Q x s) \<Longrightarrow> secures K (Return (Inr x)) (onSuccess Q)"
  by (rule secures_Return) simp

lemma secures_frame: "frame p \<Longrightarrow> secures K p (\<lambda>_ _. True)"
  by (rule frameD)

lemma secures_sum:
  "(\<And>e. r = Inl e \<Longrightarrow> secures K (f e) Q) \<Longrightarrow> (\<And>x. r = Inr x \<Longrightarrow> secures K (g x) Q) \<Longrightarrow>
     secures K (case r of Inl e \<Rightarrow> f e | Inr x \<Rightarrow> g x) Q"
  by (cases r) simp_all

lemma secures_option:
  "(r = None \<Longrightarrow> secures K p Q) \<Longrightarrow> (\<And>x. r = Some x \<Longrightarrow> secures K (g x) Q) \<Longrightarrow>
     secures K (case r of None \<Rightarrow> p | Some x \<Rightarrow> g x) Q"
  by (cases r) simp_all

lemma secures_if: "(b \<Longrightarrow> secures K p Q) \<Longrightarrow> (\<not> b \<Longrightarrow> secures K q Q) \<Longrightarrow> secures K (if b then p else q) Q"
  by simp

lemma frame_sum:
  "(\<And>e. r = Inl e \<Longrightarrow> frame (f e)) \<Longrightarrow> (\<And>x. r = Inr x \<Longrightarrow> frame (g x)) \<Longrightarrow> frame (case r of Inl e \<Rightarrow> f e | Inr x \<Rightarrow> g x)"
  by (cases r) simp_all

lemma frame_option:
  "(r = None \<Longrightarrow> frame p) \<Longrightarrow> (\<And>x. r = Some x \<Longrightarrow> frame (g x)) \<Longrightarrow> frame (case r of None \<Rightarrow> p | Some x \<Rightarrow> g x)"
  by (cases r) simp_all

lemma frame_if: "(b \<Longrightarrow> frame p) \<Longrightarrow> (\<not> b \<Longrightarrow> frame q) \<Longrightarrow> frame (if b then p else q)"
  by simp

lemma frame_secures: "secures (\<lambda>_. True) p (\<lambda>_ _. True) \<Longrightarrow> frame p"
  by (simp add: frame_def)

lemma lasting_onSuccess [simp]: "(\<And>x. lasting (P x)) \<Longrightarrow> lasting (onSuccess P r)"
  by (auto simp: lasting_def onSuccess_def split: sum.splits)

lemma lasting_imp [simp]: "lasting K \<Longrightarrow> lasting (\<lambda>s. b \<longrightarrow> K s)"
  by (auto simp: lasting_def)

text \<open>A result that is known before the rest of the work, which others cannot take away.\<close>

lemma secures_keep:
  assumes "lasting K" and "frame p" and "\<And>s. K s \<Longrightarrow> onSuccess P r s"
  shows "secures K (afterwards p (Return r)) (onSuccess P)"
  by (rule secures_frame_bind [OF assms(1,2)]) (rule secures_Return, rule assms(3))

lemma secures_when_quiet:
  assumes "lasting K" and "\<And>s. K s \<Longrightarrow> payInv s \<Longrightarrow> quiet s (snd (f s))"
  shows "secures K (call f) (onSuccess (\<lambda>_ _. True))"
  by (rule secures_call [OF assms(1)]) (use assms(2) quiet_payInv quiet_guar in \<open>auto\<close>)

lemmas frame_intros = frame_sum frame_option frame_if frame_rules frame_audit frame_redeem_cache

lemma frame_lookups:
  "frame (lookupInstance resolve o1)" "frame (webhookRegistryFallbackAllowed key)" "frame (providerOr e prov)"
  "frame (getOrderProvider en o1)" "frame queryOrder" "frame (requeryPaidOrderOnce ref)" "frame (refuseCode en policy i err)"
  unfolding lookupInstance_def webhookRegistryFallbackAllowed_def providerOr_def getOrderProvider_def queryOrder_def
    requeryPaidOrderOnce_def refuseCode_def Let_def
  by (intro frame_intros)+

end

section \<open>The operations keep their part\<close>

abbreviation paySecures :: "pay_env \<Rightarrow> (pay_db \<Rightarrow> bool) \<Rightarrow> (pay_db, 'a) proc \<Rightarrow> ('a \<Rightarrow> pay_db \<Rightarrow> bool) \<Rightarrow> bool" where
  "paySecures \<equiv> pay.secures"
text \<open>Cashing in the code of an order for its user.\<close>

lemma knows_GetByCode:
  "paySecures en (\<lambda>s. knows o1 s \<and> hasCodeFor o1 s) (GetByCode (po_RechargeCode o1))
     (pay.onSuccess (\<lambda>r s. codeFor o1 r \<and> knowsCode r s))"
  unfolding GetByCode_def
proof (rule pay.secures_quiet)
  fix db r
  assume k: "knows o1 db \<and> hasCodeFor o1 db" and inv: "payInv db"
    and found: "fst (case find (\<lambda>r. rc_Code r = po_RechargeCode o1) (pd_codes db) of None \<Rightarrow> Inl ErrRedeemCodeNotFound | Some r \<Rightarrow> Inr r, db) = Inr r"
  then have r: "r \<in> set (pd_codes db)" "rc_Code r = po_RechargeCode o1"
    by (auto simp: find_Some_iff split: option.splits)
  obtain r' where r': "r' \<in> set (pd_codes db)" "codeFor o1 r'"
    using k by (auto simp: hasCodeFor_def)
  then have "r' = r"
    using r inv by (auto simp: payInv_def distinct_map inj_on_def codeFor_def)
  then show "codeFor o1 r \<and> knowsCode r (snd (case find (\<lambda>r. rc_Code r = po_RechargeCode o1) (pd_codes db) of None \<Rightarrow> Inl ErrRedeemCodeNotFound | Some r \<Rightarrow> Inr r, db))"
    using r r' by (auto simp: knowsCode_def intro: bexI [of _ r])
qed simp_all

lemma secures_useAndPayOut:
  assumes "codeFor o1 r"
  shows "paySecures en (\<lambda>s. knows o1 s \<and> knowsCode r s) (transaction (useAndPayOut en (po_UserID o1) r))
     (pay.onSuccess (\<lambda>_ s. \<exists>r \<in> set (pd_codes s). cashed o1 r))"
  unfolding transaction_def
proof (rule pay.secures_body(1))
  fix s t and x :: unit
  assume k: "knows o1 s \<and> knowsCode r s" and inv: "payInv s" and run: "runs (useAndPayOut en (po_UserID o1) r) s = (Inr x, t)"
  have paid: "paidOut (po_UserID o1) r s t"
    by (rule useAndPayOut_paidOut [OF run]) (use inv in \<open>simp add: payInv_def\<close>)
  obtain o2 where o2: "o2 \<in> set (pd_orders s)" "sameOrder o1 o2"
    using k by (auto simp: knows_def)
  obtain r0 where r0: "r0 \<in> set (pd_codes s)" "sameCode r0 r"
    using k by (auto simp: knowsCode_def)
  have code: "codeFor o2 r" "po_UserID o2 = po_UserID o1"
    using assms o2(2) by (auto simp: codeFor_def sameOrder_def)
  obtain xs y ys now where y: "rc_ID y = rc_ID r" "y \<in> set (pd_codes s)" "markUsed (po_UserID o1) now y \<in> set (pd_codes t)"
    using paidOut_codes [OF inv paid] by (metis in_set_conv_decomp)
  have "y = r0"
    using codes_member [OF inv y(2) r0(1)] y(1) r0(2) by (simp add: sameCode_def)
  then have "cashed o1 (markUsed (po_UserID o1) now y)"
    using assms r0(2) by (simp add: cashed_def codeFor_def markUsed_def IsUsed_def sameCode_def)
  then show "payInv t \<and> payGuar en s t \<and> (\<exists>r \<in> set (pd_codes t). cashed o1 r)"
    using paidOut_effects(1) [OF inv paid r0] paidOut_effects(4) [OF inv paid r0 o2(1) code] y(3) by blast
next
  show "pay.lasting (\<lambda>s. \<exists>r \<in> set (pd_codes s). cashed o1 r)" for x :: unit
    unfolding pay.lasting_def payRely_def cashed_def by metis
qed simp

lemma lasting_cashed [simp]: "pay.lasting (\<lambda>s. \<exists>r \<in> set (pd_codes s). cashed o1 r)"
  unfolding pay.lasting_def payRely_def cashed_def by metis

lemma frame_noRebate: "pay.frame en (tryAccrueAffiliateRebateForRedeem en' True u q)"
  by (auto simp: tryAccrueAffiliateRebateForRedeem_def intro: pay.frame_rules split: option.splits)

lemma secures_redeemUsable:
  assumes "codeFor o1 r"
  shows "paySecures en (\<lambda>s. knows o1 s \<and> knowsCode r s) (redeemUsable en (po_UserID o1) True r)
     (pay.onSuccess (\<lambda>_ s. \<exists>r \<in> set (pd_codes s). cashed o1 r))"
proof -
  have "pay.frame en (afterwards (if b then tryAccrueAffiliateRebateForRedeem en True u q else Return ()) (GetCodeByID i))"
    for b u q i
    by (auto intro: pay.frame_bind frame_noRebate pay.frame_Return pay.frame_reads)
  then have "paySecures en (\<lambda>s. (knows o1 s \<and> knowsCode r s) \<and> (\<exists>r \<in> set (pd_codes s). cashed o1 r))
      (afterwards (if b then tryAccrueAffiliateRebateForRedeem en True u q else Return ()) (GetCodeByID i))
      (pay.onSuccess (\<lambda>_ s. \<exists>r \<in> set (pd_codes s). cashed o1 r))" for b u q i
    by (intro pay.secures_retain) (auto simp: pay.onSuccess_def split: sum.splits)
  then show ?thesis
    unfolding redeemUsable_def
    by (intro pay.secures_option pay.secures_error pay.secures_orFail [OF _ secures_useAndPayOut [OF assms]]
          pay.secures_frame_orFail pay.frame_reads) auto
qed

lemma secures_redeemFound:
  assumes "codeFor o1 r"
  shows "paySecures en (\<lambda>s. knows o1 s \<and> knowsCode r s) (redeemFound en (po_UserID o1) bypassRedeemRateLimit True r)
     (pay.onSuccess (\<lambda>_ s. \<exists>r \<in> set (pd_codes s). cashed o1 r))"
  unfolding redeemFound_def refuseCode_def
  by (intro pay.secures_frame_bind pay.secures_if pay.frame_getNow pay.frame_redeem_cache pay.secures_error
        secures_redeemUsable [OF assms]) simp_all

lemma secures_redeemLocked:
  "paySecures en (\<lambda>s. knows o1 s \<and> hasCodeFor o1 s)
     (redeemLocked en (po_UserID o1) (po_RechargeCode o1) bypassRedeemRateLimit True)
     (pay.onSuccess (\<lambda>_ s. \<exists>r \<in> set (pd_codes s). cashed o1 r))"
  unfolding redeemLocked_def
proof (rule pay.secures_bind [OF _ knows_GetByCode], goal_cases)
  case (2 found)
  then show ?case
  proof (intro pay.secures_sum)
    fix r
    assume "found = Inr r"
    then show "paySecures en (\<lambda>s. (knows o1 s \<and> hasCodeFor o1 s) \<and> pay.onSuccess (\<lambda>r s. codeFor o1 r \<and> knowsCode r s) found s)
        (redeemFound en (po_UserID o1) bypassRedeemRateLimit True r) (pay.onSuccess (\<lambda>_ s. \<exists>r \<in> set (pd_codes s). cashed o1 r))"
    proof (cases "codeFor o1 r")
      case True
      then show ?thesis
        by (rule pay.secures_conseq [OF secures_redeemFound]) (use \<open>found = Inr r\<close> in auto)
    qed (use \<open>found = Inr r\<close> in \<open>simp add: pay.secures_def\<close>)
  qed (unfold refuseCode_def, intro pay.secures_if pay.secures_frame_bind pay.frame_redeem_cache pay.secures_error, simp_all)
qed simp

lemma secures_redeem:
  "paySecures en (\<lambda>s. knows o1 s \<and> hasCodeFor o1 s) (redeemForPaymentFulfillment en (po_UserID o1) (po_RechargeCode o1))
     (pay.onSuccess (\<lambda>_ s. \<exists>r \<in> set (pd_codes s). cashed o1 r))"
proof -
  have "paySecures en (\<lambda>s. knows o1 s \<and> hasCodeFor o1 s)
      (bind (redeemLocked en (po_UserID o1) (po_RechargeCode o1) bypassRedeemRateLimit True)
        (\<lambda>r. afterwards (releaseRedeemLock en (po_RechargeCode o1)) (Return r)))
      (pay.onSuccess (\<lambda>_ s. \<exists>r \<in> set (pd_codes s). cashed o1 r))"
    by (rule pay.secures_bind [OF _ secures_redeemLocked]) (auto intro!: pay.secures_keep pay.frame_redeem_cache)
  then show ?thesis
    unfolding redeemForPaymentFulfillment_def redeem_def orFail_def
    by (auto intro!: pay.secures_frame_bind pay.secures_if pay.secures_error pay.frame_redeem_cache)
qed


text \<open>Creating the code, and the whole of it.\<close>

lemma secures_CreateCode:
  "paySecures en (knows o1) (CreateCode (paymentCode o1)) (pay.onSuccess (\<lambda>_. hasCodeFor o1))"
proof -
  let ?code = "(paymentCode o1)\<lparr>rc_Code := TrimSpace (po_RechargeCode o1)\<rparr>"
  have "paySecures en (knows o1) (Create_code ?code) (pay.onSuccess (\<lambda>_. hasCodeFor o1))"
    unfolding Create_code_def
  proof (rule pay.secures_call)
    fix s
    assume "knows o1 s" and inv: "payInv s"
    then have trimmed: "TrimSpace (po_RechargeCode o1) = po_RechargeCode o1"
      by (auto simp: knows_def payInv_def wellFormed_def sameOrder_def) (metis rechargeCode_trimmed)
    let ?t = "s\<lparr>pd_codes := pd_codes s @ [?code\<lparr>rc_ID := pd_nextCode s\<rparr>], pd_nextCode := pd_nextCode s + 1\<rparr>"
    have "payInv ?t \<and> payGuar en s ?t \<and> hasCodeFor o1 ?t" if "\<forall>r \<in> set (pd_codes s). rc_Code r \<noteq> rc_Code ?code"
      using createCode_effects [OF inv that _ refl]
      by (auto simp: IsUsed_def paymentCode_def hasCodeFor_def codeFor_def trimmed)
    then show "payInv (snd (if \<exists>r \<in> set (pd_codes s). rc_Code r = rc_Code ?code then (Inl Conflict, s) else (Inr (), ?t))) \<and>
      payGuar en s (snd (if \<exists>r \<in> set (pd_codes s). rc_Code r = rc_Code ?code then (Inl Conflict, s) else (Inr (), ?t))) \<and>
      pay.onSuccess (\<lambda>_. hasCodeFor o1)
        (fst (if \<exists>r \<in> set (pd_codes s). rc_Code r = rc_Code ?code then (Inl Conflict, s) else (Inr (), ?t)))
        (snd (if \<exists>r \<in> set (pd_codes s). rc_Code r = rc_Code ?code then (Inl Conflict, s) else (Inr (), ?t)))"
      using inv by (auto simp: quiet_payGuar)
  qed simp
  then show ?thesis
    unfolding CreateCode_def Let_def
    by (auto simp: paymentCode_def intro!: pay.secures_error pay.secures_frame_bind pay.frame_getNow)
qed

lemma secures_redeemOrderCode:
  "paySecures en (\<lambda>s. knows o1 s \<and> (action = redeemActionRedeem \<longrightarrow> hasCodeFor o1 s) \<and>
        (action = redeemActionSkipCompleted \<longrightarrow> (\<exists>r \<in> set (pd_codes s). cashed o1 r)))
     (redeemOrderCode en o1 action) (pay.onSuccess (\<lambda>_ s. \<exists>r \<in> set (pd_codes s). cashed o1 r))"
proof (cases action)
  case redeemActionCreate
  then show ?thesis
    unfolding redeemOrderCode_def
    by (auto intro!: pay.secures_orFail [OF _ secures_CreateCode] pay.secures_orFail [OF _ secures_redeem] pay.secures_Return)
next
  case redeemActionRedeem
  have "paySecures en (\<lambda>s. knows o1 s \<and> hasCodeFor o1 s)
      (orFail (redeemForPaymentFulfillment en (po_UserID o1) (po_RechargeCode o1)) (\<lambda>_. Return (Inr ())))
      (pay.onSuccess (\<lambda>_ s. \<exists>r \<in> set (pd_codes s). cashed o1 r))"
    by (auto intro!: pay.secures_orFail [OF _ secures_redeem] pay.secures_Return)
  with redeemActionRedeem show ?thesis
    by (simp add: redeemOrderCode_def orFail_def)
next
  case redeemActionSkipCompleted
  then show ?thesis
    by (auto simp: redeemOrderCode_def intro!: pay.secures_done)
qed

text \<open>What a look at the code of the order says of it.\<close>

lemma secures_balanceAction:
  "paySecures en (knows o1) (GetByCode (po_RechargeCode o1))
     (\<lambda>found s. case balanceAction o1 found of Inl e \<Rightarrow> True | Inr action \<Rightarrow>
        (action = redeemActionRedeem \<longrightarrow> hasCodeFor o1 s) \<and>
        (action = redeemActionSkipCompleted \<longrightarrow> (\<exists>r \<in> set (pd_codes s). cashed o1 r)))"
proof (rule pay.secures_conseq)
  show "paySecures en (knows o1) (GetByCode (po_RechargeCode o1)) (pay.onSuccess (\<lambda>r s. r \<in> set (pd_codes s)))"
    unfolding GetByCode_def
    by (rule pay.secures_quiet) (auto simp: find_Some_iff split: option.splits)
  fix found :: "pay_error + RedeemCode" and s
  assume "pay.onSuccess (\<lambda>r s. r \<in> set (pd_codes s)) found s"
  then show "case balanceAction o1 found of Inl e \<Rightarrow> True | Inr action \<Rightarrow>
        (action = redeemActionRedeem \<longrightarrow> hasCodeFor o1 s) \<and>
        (action = redeemActionSkipCompleted \<longrightarrow> (\<exists>r \<in> set (pd_codes s). cashed o1 r))"
    by (cases found) (auto simp: balanceAction_def resolveRedeemAction_def validatePaymentRedeemCode_def hasCodeFor_def
        cashed_def codeFor_def IsUsed_def split: if_splits CodeStatus.splits)
qed simp


section \<open>Rebates and subscriptions\<close>

lemma secures_applyAffiliateRebateForOrder:
  "paySecures en (knows o1) (applyAffiliateRebateForOrder en o1) (\<lambda>_ _. True)"
proof -
  have "paySecures en (knows o1) (transaction (rebateTx en af o1 q)) (pay.onSuccess (\<lambda>_ _. True))" for af q
    unfolding transaction_def
    by (rule pay.secures_body(1)) (auto simp: knows_def dest: rebateTx_effects)
  then have tx: "paySecures en (knows o1) (transaction (rebateTx en af o1 q)) (\<lambda>_ _. True)" for af q
    by simp
  have frame: "pay.frame en (case r of Inr _ \<Rightarrow> Return (Inr ())
      | Inl e \<Rightarrow> if e = AlreadyClaimed then Return (Inr ())
                 else afterwards (writeAuditLog i act) (Return (Inl e)))" for r :: "pay_error + unit" and i act
    by (intro pay.frame_sum pay.frame_if pay.frame_bind pay.frame_audit pay.frame_Return)
  show ?thesis
    unfolding applyAffiliateRebateForOrder_def Let_def
    by (intro pay.secures_if pay.secures_option pay.secures_bind [OF _ tx] pay.secures_frame frame)
       (simp_all add: pay.frame_Return)
qed

text \<open>After the assignment of a subscription its audit entry is there, whoever made it.\<close>

lemma secures_hasPaymentSubscriptionAssignmentAudit:
  "paySecures en K (hasPaymentSubscriptionAssignmentAudit oid) (\<lambda>r s. r = Inr True \<longrightarrow> assigned s oid)" if "pay.lasting K"
proof (rule pay.secures_conseq)
  show "paySecures en K (hasPaymentSubscriptionAssignmentAudit oid) (pay.onSuccess (\<lambda>b s. b \<longrightarrow> assigned s oid))"
    unfolding hasPaymentSubscriptionAssignmentAudit_def countAudit_def
    by (rule pay.secures_quiet [OF that]) (auto simp: assigned_def)
qed auto

lemma secures_ensurePaymentSubscriptionAssigned:
  assumes "po_SubscriptionGroupID o1 = Some groupID" and "po_SubscriptionDays o1 = Some days"
  shows "paySecures en (knows o1) (ensurePaymentSubscriptionAssigned en o1 groupID days)
    (pay.onSuccess (\<lambda>_ s. assigned s (po_ID o1)))"
proof -
  let ?P = "\<lambda>_ s. assigned s (po_ID o1)"
  have body: "paySecures en (\<lambda>s. knows o1 s \<and> (already \<longrightarrow> assigned s (po_ID o1)))
      (atomically (finishTx (runs (if already then Return (Inr ()) else assignOnce en o1 groupID days)))) (pay.onSuccess ?P)"
    for already
  proof (rule pay.secures_body(2))
    fix s t and x :: unit
    assume k: "knows o1 s \<and> (already \<longrightarrow> assigned s (po_ID o1))" and inv: "payInv s"
      and run: "runs (if already then Return (Inr ()) else assignOnce en o1 groupID days) s = (Inr x, t)"
    obtain o2 where o2: "o2 \<in> set (pd_orders s)" "sameOrder o1 o2"
      using k by (auto simp: knows_def)
    show "payInv t \<and> payGuar en s t \<and> assigned t (po_ID o1)"
    proof (cases already)
      case True
      then show ?thesis using k inv run by (auto intro: quiet_payGuar)
    next
      case False
      then have "runs (assignOnce en o1 groupID days) s = (Inr x, t)" using run by simp
      from assignOnce_effects [OF inv this o2 assms] show ?thesis by blast
    qed
  qed auto
  have after: "paySecures en (\<lambda>s. (knows o1 s \<and> (already \<longrightarrow> assigned s (po_ID o1))) \<and> pay.onSuccess ?P r s)
      (case r of Inr _ \<Rightarrow> invalidateSubscriptionCaches
       | Inl e \<Rightarrow> if e = Conflict then
           bind (hasPaymentSubscriptionAssignmentAudit (po_ID o1)) (\<lambda>claimed.
             if claimed = Inr True then invalidateSubscriptionCaches else Return (Inl e))
         else Return (Inl e)) (pay.onSuccess ?P)" for already and r :: "pay_error + unit"
  proof -
    have dropped: "paySecures en K invalidateSubscriptionCaches (pay.onSuccess ?P)"
      if "pay.lasting K" "\<And>s. K s \<Longrightarrow> assigned s (po_ID o1)" for K
      by (rule pay.secures_retain [OF that(1) pay.frame_reads(11)])
         (use that(2) in \<open>auto simp: pay.onSuccess_def split: sum.splits\<close>)
    show ?thesis
      by (intro pay.secures_sum pay.secures_if pay.secures_error dropped
            pay.secures_bind [OF _ secures_hasPaymentSubscriptionAssignmentAudit]) auto
  qed
  show ?thesis
    unfolding ensurePaymentSubscriptionAssigned_def
  proof (rule pay.secures_frame_orFail)
    have found: "paySecures en (knows o1) (hasPaymentSubscriptionAssignmentAudit (po_ID o1))
        (pay.onSuccess (\<lambda>b s. b \<longrightarrow> assigned s (po_ID o1)))"
      by (rule pay.secures_conseq [OF secures_hasPaymentSubscriptionAssignmentAudit])
         (auto simp: pay.onSuccess_def split: sum.splits)
    show "paySecures en (knows o1)
        (orFail (hasPaymentSubscriptionAssignmentAudit (po_ID o1)) (\<lambda>alreadyAssigned.
         bind (atomically (finishTx (runs (if alreadyAssigned then Return (Inr ()) else assignOnce en o1 groupID days)))) (\<lambda>r.
           case r of
             Inr _ \<Rightarrow> invalidateSubscriptionCaches
           | Inl e \<Rightarrow>
               if e = Conflict then
                 bind (hasPaymentSubscriptionAssignmentAudit (po_ID o1)) (\<lambda>claimed.
                   if claimed = Inr True then invalidateSubscriptionCaches else Return (Inl e))
               else Return (Inl e)))) (pay.onSuccess ?P)" for x :: unit
      by (rule pay.secures_orFail [OF _ found], simp, rule pay.secures_bind [OF _ body], simp, rule after)
  qed (auto intro: pay.frame_rules)
qed


section \<open>The status of an order\<close>

lemma secures_markCompleted:
  "paySecures en (\<lambda>s. knows o1 s \<and> delivered s o1) (markCompleted o1 lease act) (\<lambda>_ _. True)"
proof -
  have update: "paySecures en (\<lambda>s. knows o1 s \<and> delivered s o1) (updateOrders (leased (po_ID o1) lease)
      (\<lambda>r. r\<lparr>po_Status := OrderStatusCompleted, po_CompletedAt := Some now\<rparr>)) (pay.onSuccess (\<lambda>_ _. True))" for now
    unfolding updateOrders_def
  proof (rule pay.secures_when_quiet)
    fix s
    assume k: "knows o1 s \<and> delivered s o1" and inv: "payInv s"
    obtain o2 where o2: "o2 \<in> set (pd_orders s)" "sameOrder o1 o2"
      using k by (auto simp: knows_def)
    have "delivered s o2"
      by (rule delivered_cong [OF o2(2)]) (use k in auto)
    moreover have "o3 = o2" if "o3 \<in> set (pd_orders s)" "po_ID o3 = po_ID o1" for o3
      using that o2 inv by (auto simp: payInv_def distinct_map inj_on_def sameOrder_def)
    ultimately show "quiet s (snd (Inr (length (filter (leased (po_ID o1) lease) (pd_orders s))),
        setOrders (leased (po_ID o1) lease) (\<lambda>r. r\<lparr>po_Status := OrderStatusCompleted, po_CompletedAt := Some now\<rparr>) s))"
      by (auto simp: quiet_def setOrders_def hasAudit_def list_all2_map2 leased_def evolves_def
          sameOrder_def settled_def intro!: list.rel_refl_strong)
  qed simp
  have rest: "pay.frame en (if updated = 0 then
         bind (getOrder (po_ID o1)) (\<lambda>r. case r of
           Inr current \<Rightarrow> Return (if po_Status current = OrderStatusCompleted then Inr () else Inl Conflict)
         | Inl e \<Rightarrow> Return (Inl Conflict))
       else bind (hasAuditLog (po_ID o1) act) (\<lambda>logged.
         afterwards (if logged then Return () else writeAuditLog (po_ID o1) act)
           (Return (Inr ()))))" for updated :: nat
    by (intro pay.frame_intros)
  have "paySecures en (\<lambda>s. knows o1 s \<and> delivered s o1) (markCompleted o1 lease act) (pay.onSuccess (\<lambda>_ _. True))"
    unfolding markCompleted_def
    by (rule pay.secures_frame_bind, simp, rule pay.frame_getNow, rule pay.secures_orFail [OF _ update], simp)
       (use pay.frameD [OF rest] in simp)
  then show ?thesis by simp
qed

lemma frame_statusUpdates:
  "pay.frame en (acquirePaymentFulfillmentLease o1)" "pay.frame en (markFailed oid lease cause)"
  unfolding acquirePaymentFulfillmentLease_def markFailed_def Let_def
  by (intro pay.frame_intros pay.frame_updateOrders,
      auto simp: evolves_def sameOrder_def settled_def leasable_def leased_def clearFailed_def psIsRefundStatus_def)+

lemma secures_underLease:
  assumes "\<And>lease. paySecures en (knows o1) (work lease) (\<lambda>_ _. True)"
  shows "paySecures en (knows o1) (underLease o1 work) (\<lambda>_ _. True)"
proof -
  have failed: "pay.frame en (case r of Inr _ \<Rightarrow> Return (Inr ())
       | Inl e \<Rightarrow> afterwards (markFailed (po_ID o1) lease e) (Return (Inl e)))" for r :: "pay_error + unit" and lease
    by (intro pay.frame_sum pay.frame_bind pay.frame_Return frame_statusUpdates)
  have "paySecures en (knows o1) (underLease o1 work) (pay.onSuccess (\<lambda>_ _. True))"
    unfolding underLease_def
    by (intro pay.secures_frame_orFail pay.secures_option frame_statusUpdates)
       (auto intro!: pay.secures_bind [OF _ assms] pay.frameD [OF failed] pay.secures_Return)
  then show ?thesis by simp
qed


section \<open>Fulfilment\<close>

lemma secures_rebateAndComplete:
  "paySecures en (\<lambda>s. knows o1 s \<and> delivered s o1)
     (orFail (applyAffiliateRebateForOrder en o1) (\<lambda>_. markCompleted o1 lease act)) (pay.onSuccess (\<lambda>_ _. True))"
proof -
  have rebate: "paySecures en (\<lambda>s. knows o1 s \<and> delivered s o1) (applyAffiliateRebateForOrder en o1) (pay.onSuccess (\<lambda>_ _. True))"
    by (rule pay.secures_conseq [OF secures_applyAffiliateRebateForOrder]) simp_all
  show ?thesis
    by (rule pay.secures_orFail [OF _ rebate]) (use secures_markCompleted in simp_all)
qed

lemma secures_doBalance:
  assumes "po_OrderType o1 \<noteq> OrderTypeSubscription"
  shows "paySecures en (knows o1) (doBalance en o1 lease) (\<lambda>_ _. True)"
proof -
  have paid: "paySecures en (\<lambda>s. knows o1 s \<and> (\<exists>r \<in> set (pd_codes s). cashed o1 r))
      (orFail (applyAffiliateRebateForOrder en o1) (\<lambda>_. markCompleted o1 lease act)) (pay.onSuccess (\<lambda>_ _. True))" for act
    by (rule pay.secures_conseq [OF secures_rebateAndComplete]) (use assms in \<open>auto simp: delivered_def\<close>)
  have "paySecures en (\<lambda>s. knows o1 s \<and> (action = redeemActionRedeem \<longrightarrow> hasCodeFor o1 s) \<and>
        (action = redeemActionSkipCompleted \<longrightarrow> (\<exists>r \<in> set (pd_codes s). cashed o1 r)))
      (orFail (redeemOrderCode en o1 action) (\<lambda>_. orFail (applyAffiliateRebateForOrder en o1) (\<lambda>_.
         markCompleted o1 lease act))) (pay.onSuccess (\<lambda>_ _. True))" for action act
    by (rule pay.secures_orFail [OF _ secures_redeemOrderCode], simp, rule pay.secures_conseq [OF paid]) auto
  then have "paySecures en (knows o1) (doBalance en o1 lease) (pay.onSuccess (\<lambda>_ _. True))"
    unfolding doBalance_def
    by (intro pay.secures_bind [OF _ secures_balanceAction] pay.secures_sum pay.secures_error)
       (auto elim: pay.secures_conseq)
  then show ?thesis by simp
qed

lemma secures_doSub:
  assumes "po_OrderType o1 = OrderTypeSubscription"
    and "po_SubscriptionGroupID o1 = Some gid" and "po_SubscriptionDays o1 = Some days"
  shows "paySecures en (knows o1) (doSub en o1 gid days lease) (\<lambda>_ _. True)"
proof -
  have "pay.frame en (onSubs (GetGroup gid))"
    unfolding pay.frame_def onSubs_def
  proof (rule pay.secures_atomically)
    fix s
    assume inv: "payInv s"
    then have "sd_faults (pd_sub s) = []" by (simp add: payInv_def)
    then obtain fs where "snd (runs (onSubs (GetGroup gid)) s) = s\<lparr>pd_faults := fs\<rparr>"
      using onSubs_read [of "GetGroup gid", OF GetGroup_reads] by blast
    then show "payInv (snd (case GetGroup gid (pd_sub s\<lparr>sd_faults := pd_faults s\<rparr>) of (r, sdb) \<Rightarrow>
          (map_sum SubscriptionError id r, s\<lparr>pd_sub := sdb\<lparr>sd_faults := []\<rparr>, pd_faults := sd_faults sdb\<rparr>))) \<and>
        payGuar en s (snd (case GetGroup gid (pd_sub s\<lparr>sd_faults := pd_faults s\<rparr>) of (r, sdb) \<Rightarrow>
          (map_sum SubscriptionError id r, s\<lparr>pd_sub := sdb\<lparr>sd_faults := []\<rparr>, pd_faults := sd_faults sdb\<rparr>))) \<and> True"
      using inv by (simp add: onSubs_def quiet_payInv [OF quiet_faults(1)] quiet_payGuar)
  qed simp
  moreover have "paySecures en (\<lambda>s. knows o1 s \<and> assigned s (po_ID o1))
      (orFail (applyAffiliateRebateForOrder en o1) (\<lambda>_. markCompleted o1 lease act)) (pay.onSuccess (\<lambda>_ _. True))" for act
    by (rule pay.secures_conseq [OF secures_rebateAndComplete]) (use assms in \<open>auto simp: delivered_def\<close>)
  ultimately have "paySecures en (knows o1) (doSub en o1 gid days lease) (pay.onSuccess (\<lambda>_ _. True))"
    unfolding doSub_def
    by (intro pay.secures_frame_bind pay.secures_sum pay.secures_if pay.secures_error
         pay.secures_orFail [OF _ secures_ensurePaymentSubscriptionAssigned [OF assms(2,3)]]) simp_all
  then show ?thesis by simp
qed

text \<open>An order that was read is known, and so the rest is free to use it; read again it is the same.\<close>

lemma frame_afterGetOrder:
  assumes "\<And>e. pay.frame en (k (Inl e))" and "\<And>o1. po_ID o1 = i \<Longrightarrow> paySecures en (knows o1) (k (Inr o1)) (\<lambda>_ _. True)"
  shows "pay.frame en (bind (getOrder i) k)"
  unfolding pay.frame_def
proof (rule pay.secures_bind [OF _ knows_getOrder])
  fix r
  show "paySecures en (\<lambda>s. True \<and> pay.onSuccess (\<lambda>o1 s. knows o1 s \<and> po_ID o1 = i) r s) (k r) (\<lambda>_ _. True)"
  proof (cases r)
    case (Inl e)
    then show ?thesis by (simp add: pay.frameD assms(1))
  next
    case (Inr o1)
    show ?thesis
    proof (cases "po_ID o1 = i")
      case True
      show ?thesis
        unfolding Inr by (rule pay.secures_conseq [OF assms(2) [OF True]]) simp_all
    qed (simp add: Inr pay.secures_def)
  qed
qed simp

lemma frame_afterGetOrder_orFail:
  assumes "\<And>o1. po_ID o1 = i \<Longrightarrow> paySecures en (knows o1) (k o1) (\<lambda>_ _. True)"
  shows "pay.frame en (orFail (getOrder i) k)"
  unfolding orFail_def by (rule frame_afterGetOrder) (simp_all add: pay.frame_Return assms)

lemma secures_getOrder_again:
  "paySecures en (knows o1) (getOrder (po_ID o1)) (pay.onSuccess (\<lambda>o2 s. knows o2 s \<and> sameOrder o1 o2))"
  unfolding getOrder_def
proof (rule pay.secures_quiet)
  fix s o2
  assume k: "knows o1 s" and inv: "payInv s"
    and found: "fst (case find (\<lambda>o2. po_ID o2 = po_ID o1) (pd_orders s) of None \<Rightarrow> Inl NotFound | Some o2 \<Rightarrow> Inr o2, s) = Inr o2"
  obtain o3 where o3: "o3 \<in> set (pd_orders s)" "sameOrder o1 o3"
    using k by (auto simp: knows_def)
  have o2: "o2 \<in> set (pd_orders s)" "po_ID o2 = po_ID o1"
    using found by (auto simp: find_Some_iff split: option.splits)
  then have "o2 = o3"
    using o3 inv by (auto simp: payInv_def distinct_map inj_on_def sameOrder_def)
  then show "knows o2 (snd (case find (\<lambda>o2. po_ID o2 = po_ID o1) (pd_orders s) of None \<Rightarrow> Inl NotFound | Some o2 \<Rightarrow> Inr o2, s)) \<and>
      sameOrder o1 o2"
    using o3 by (auto simp: knows_def sameOrder_def)
qed simp_all

lemma secures_afterGetOrder:
  assumes "\<And>e. pay.frame en (k (Inl e))" and "\<And>o2. sameOrder o1 o2 \<Longrightarrow> paySecures en (knows o2) (k (Inr o2)) (\<lambda>_ _. True)"
  shows "paySecures en (knows o1) (bind (getOrder (po_ID o1)) k) (\<lambda>_ _. True)"
proof (rule pay.secures_bind [OF _ secures_getOrder_again])
  fix r
  show "paySecures en (\<lambda>s. knows o1 s \<and> pay.onSuccess (\<lambda>o2 s. knows o2 s \<and> sameOrder o1 o2) r s) (k r) (\<lambda>_ _. True)"
  proof (cases r)
    case (Inl e)
    then show ?thesis by (simp add: pay.frameD assms(1))
  next
    case (Inr o2)
    show ?thesis
    proof (cases "sameOrder o1 o2")
      case True
      show ?thesis
        unfolding Inr by (rule pay.secures_conseq [OF assms(2) [OF True]]) simp_all
    qed (simp add: Inr pay.secures_def)
  qed
qed simp

lemma secures_ExecuteBalanceFulfillment:
  "po_OrderType o1 \<noteq> OrderTypeSubscription \<Longrightarrow>
     paySecures en (knows o1) (ExecuteBalanceFulfillment en (po_ID o1)) (\<lambda>_ _. True)"
  unfolding ExecuteBalanceFulfillment_def
  by (rule secures_afterGetOrder)
     (auto simp: sameOrder_def pay.frame_Return
       intro!: pay.secures_option secures_underLease secures_doBalance pay.secures_Return split: option.splits)

lemma secures_ExecuteSubscriptionFulfillment:
  "po_OrderType o1 = OrderTypeSubscription \<Longrightarrow>
     paySecures en (knows o1) (ExecuteSubscriptionFulfillment en (po_ID o1)) (\<lambda>_ _. True)"
  unfolding ExecuteSubscriptionFulfillment_def
  by (rule secures_afterGetOrder)
     (auto simp: sameOrder_def pay.frame_Return
       intro!: pay.secures_option secures_underLease secures_doSub pay.secures_Return split: option.splits)

lemma frame_executeFulfillment: "pay.frame en (executeFulfillment en oid)"
  unfolding executeFulfillment_def
  by (rule frame_afterGetOrder_orFail)
     (auto intro: secures_ExecuteBalanceFulfillment secures_ExecuteSubscriptionFulfillment)

lemma frame_alreadyProcessed: "pay.frame en (alreadyProcessed en o1)"
  unfolding alreadyProcessed_def by (intro pay.frame_intros frame_executeFulfillment)

lemma frame_toPaid: "pay.frame en (toPaid en o1 tradeNo paid)"
  unfolding toPaid_def
  by (intro pay.frame_intros frame_executeFulfillment frame_alreadyProcessed pay.frame_updateOrders)
     (auto simp: evolves_def sameOrder_def settled_def payable_def paidOrder_def clearFailed_def psIsRefundStatus_def)

end
