(* ===== verification/Payment_Refund.thy ===== *)
theory Payment_Refund
  imports Payment_Fulfilment
begin

text \<open>
  The refunds of \<open>service/payment_refund.go\<close>: a user requests one, an administrator prepares and
  executes it.  The credit is taken back first; the provider is then asked, and if it refuses or
  does not know yet, what was taken is given back.  The amount that is sent to the provider is
  computed and not looked at further.
\<close>

section \<open>Plans\<close>

datatype DeductionType = DeductionTypeNone | DeductionTypeBalance | DeductionTypeSubscription

record RefundPlan =
  rf_OrderID :: int
  rf_Order :: PaymentOrder
  rf_RefundAmount :: rat
  rf_GatewayAmount :: rat
  rf_Reason :: string
  rf_Force :: bool
  rf_DeductBalance :: bool
  rf_DeductionType :: DeductionType
  rf_BalanceToDeduct :: rat
  rf_SubDaysToDeduct :: int
  rf_SubscriptionID :: int

record RefundResult =
  re_Success :: bool
  re_Warning :: string
  re_RequireForce :: bool
  re_BalanceDeducted :: rat
  re_SubDaysDeducted :: int

definition refused :: "string \<Rightarrow> bool \<Rightarrow> RefundResult" where
  "refused warning requireForce = \<lparr>re_Success = False, re_Warning = warning, re_RequireForce = requireForce,
     re_BalanceDeducted = 0, re_SubDaysDeducted = 0\<rparr>"

section \<open>The request of a user\<close>

definition validateRefundRequest :: "int \<Rightarrow> int \<Rightarrow> PaymentOrder pay_proc" where
  "validateRefundRequest oid uid =
     bind (getOrder oid) (\<lambda>r. case r of
       Inl e \<Rightarrow> Return (Inl NotFound)
     | Inr o1 \<Rightarrow>
         if po_UserID o1 \<noteq> uid then Return (Inl (Forbidden ''no permission''))
         else if po_OrderType o1 \<noteq> OrderTypeBalance
         then Return (Inl (BadRequest ''only balance orders can request refund''))
         else if po_Status o1 \<noteq> OrderStatusCompleted
         then Return (Inl (BadRequest ''only completed orders can request refund''))
         else bind (lookupInstance getRefundOrderProviderInstance o1) (\<lambda>inst. case inst of
             Inr (Some i) \<Rightarrow>
               if \<not> pi_AllowUserRefund i
               then Return (Inl (Forbidden ''user refund is not enabled for this provider''))
               else Return (Inr o1)
           | _ \<Rightarrow> Return (Inl (Forbidden ''refund is not available for this order''))))"

definition refundRequestable :: "int \<Rightarrow> int \<Rightarrow> PaymentOrder \<Rightarrow> bool" where
  "refundRequestable oid uid r \<longleftrightarrow> po_ID r = oid \<and> po_UserID r = uid \<and> po_Status r = OrderStatusCompleted \<and>
     po_OrderType r = OrderTypeBalance"

definition RequestRefund :: "int \<Rightarrow> int \<Rightarrow> string \<Rightarrow> unit pay_proc" where
  "RequestRefund oid uid reason =
     orFail (validateRefundRequest oid uid) (\<lambda>o1.
     orFail (GetUser (po_UserID o1)) (\<lambda>u.
       if ur_Balance u < po_Amount o1 then Return (Inl (BadRequest ''refund amount exceeds balance''))
       else bind getNow (\<lambda>now.
         orFail (updateOrders (refundRequestable oid uid) (\<lambda>r. r\<lparr>po_Status := OrderStatusRefundRequested,
                   po_RefundRequestedAt := Some now, po_RefundRequestReason := Some (TrimSpace reason),
                   po_RefundRequestedBy := Some uid, po_RefundAmount := po_Amount o1\<rparr>)) (\<lambda>c.
           if c = 0 then Return (Inl Conflict)
           else afterwards (writeAuditLog oid ''REFUND_REQUESTED'') (Return (Inr ()))))))"

section \<open>Preparing a refund\<close>

text \<open>What is to be taken back; an early result refuses, and asks for \<open>force\<close>.\<close>

definition GetActiveSubscription :: "int \<Rightarrow> int \<Rightarrow> UserSubscription pay_proc" where
  "GetActiveSubscription userID groupID =
     bind getNow (\<lambda>now. onSubs (GetActiveByUserIDAndGroupID now userID groupID))"

definition prepDeduct :: "PaymentOrder \<Rightarrow> RefundPlan \<Rightarrow> bool \<Rightarrow> (pay_db, RefundResult + RefundPlan) proc" where
  "prepDeduct o1 p force =
     (if po_OrderType o1 = OrderTypeSubscription then
        (let p = p\<lparr>rf_DeductionType := DeductionTypeSubscription\<rparr>
         in case (po_SubscriptionGroupID o1, po_SubscriptionDays o1) of
              (Some gid, Some days) \<Rightarrow>
                (let p = p\<lparr>rf_SubDaysToDeduct := days\<rparr>
                 in bind (GetActiveSubscription (po_UserID o1) gid) (\<lambda>r. case r of
                      Inr sub \<Rightarrow> Return (Inr (p\<lparr>rf_SubscriptionID := us_ID sub\<rparr>))
                    | Inl e \<Rightarrow>
                        if \<not> force then Return (Inl (refused ''cannot find active subscription for deduction, use force'' True))
                        else Return (Inr p)))
            | _ \<Rightarrow> Return (Inr p))
      else bind (GetUser (po_UserID o1)) (\<lambda>r. case r of
          Inl e \<Rightarrow>
            if \<not> force then Return (Inl (refused ''cannot fetch user balance, use force'' True))
            else Return (Inr p)
        | Inr u \<Rightarrow>
            if ur_Balance u < rf_RefundAmount p \<and> \<not> force
            then Return (Inl (refused ''user balance is insufficient for deduction, use force'' True))
            else Return (Inr (p\<lparr>rf_DeductionType := DeductionTypeBalance,
                   rf_BalanceToDeduct := max 0 (min (rf_RefundAmount p) (ur_Balance u))\<rparr>))))"

definition refundReason :: "PaymentOrder \<Rightarrow> string \<Rightarrow> string" where
  "refundReason o1 reason =
     (let rr = TrimSpace reason;
          rr = (if rr = [] then psStringValue (po_RefundRequestReason o1) else rr)
      in if rr = [] then ''refund order:'' @ signedItoa (po_ID o1) else rr)"

definition PrepareRefund ::
  "pay_env \<Rightarrow> int \<Rightarrow> float64 \<Rightarrow> string \<Rightarrow> bool \<Rightarrow> bool \<Rightarrow> (RefundResult + RefundPlan) pay_proc" where
  "PrepareRefund en oid amt reason force deduct =
     bind (getOrder oid) (\<lambda>r. case r of
       Inl e \<Rightarrow> Return (Inl NotFound)
     | Inr o1 \<Rightarrow>
         if po_Status o1 \<notin> {OrderStatusCompleted, OrderStatusRefundRequested, OrderStatusRefundPending, OrderStatusRefundFailed}
         then Return (Inl (BadRequest ''order status does not allow refund''))
         else bind (lookupInstance getRefundOrderProviderInstance o1) (\<lambda>inst. case inst of
             Inl e \<Rightarrow> Return (Inl (ServiceError ''failed to look up payment provider for this order''))
           | Inr None \<Rightarrow> Return (Inl (Forbidden ''refund is not available for this order''))
           | Inr (Some i) \<Rightarrow>
               if \<not> pi_RefundEnabled i then Return (Inl (Forbidden ''refund is not enabled for this provider''))
               else (case amt of
                   Finite q \<Rightarrow>
                     (let amount = (if q \<le> 0 then po_Amount o1 else q); currency = PaymentOrderCurrency o1
                      in if amount - po_Amount o1 > paymentAmountToleranceForCurrency currency
                         then Return (Inl (BadRequest ''refund amount exceeds recharge''))
                         else (let p = \<lparr>rf_OrderID = oid, rf_Order = o1, rf_RefundAmount = amount,
                                  rf_GatewayAmount = calculateGatewayRefundAmount (en_decimal en) (po_Amount o1)
                                    (po_PayAmount o1) amount currency,
                                  rf_Reason = refundReason o1 reason, rf_Force = force, rf_DeductBalance = deduct,
                                  rf_DeductionType = DeductionTypeNone, rf_BalanceToDeduct = 0,
                                  rf_SubDaysToDeduct = 0, rf_SubscriptionID = 0\<rparr>
                               in if deduct then bind (prepDeduct o1 p force) (\<lambda>r. Return (Inr r))
                                  else Return (Inr (Inr p))))
                 | _ \<Rightarrow> Return (Inl (BadRequest ''invalid refund amount'')))))"

section \<open>Taking back and giving back\<close>

definition restoreStatus :: "RefundPlan \<Rightarrow> (pay_db, unit) proc" where
  "restoreStatus p =
     bind (updateOrder (rf_OrderID p) (\<lambda>r. r\<lparr>po_Status :=
             (if po_Status (rf_Order p) = OrderStatusRefundRequested then OrderStatusRefundRequested
              else OrderStatusCompleted)\<rparr>))
       (\<lambda>_. Return ())"

text \<open>Days that would expire the subscription revoke it instead.\<close>

definition shortenOrRevoke :: "pay_env \<Rightarrow> RefundPlan \<Rightarrow> unit pay_proc" where
  "shortenOrRevoke en p =
     bind getNow (\<lambda>now.
     bind (onSubs (ExtendSubscription (en_zones en) now (rf_SubscriptionID p) (- rf_SubDaysToDeduct p))) (\<lambda>r. case r of
       Inr _ \<Rightarrow> Return (Inr ())
     | Inl e \<Rightarrow>
         if e = SubscriptionError ErrAdjustWouldExpire
         then bind getNow (\<lambda>now. onSubs (RevokeSubscription now (rf_SubscriptionID p)))
         else Return (Inl e)))"

text \<open>The two blocks of \<open>ExecuteRefund\<close> that take the credit back, unless an earlier attempt has.\<close>

definition deductBalance :: "RefundPlan \<Rightarrow> RefundPlan pay_proc" where
  "deductBalance p =
     (if rf_DeductionType p = DeductionTypeBalance \<and> rf_BalanceToDeduct p > 0 then
        bind (hasAuditLog (rf_OrderID p) ''REFUND_ROLLBACK_FAILED'') (\<lambda>failed.
          if failed then Return (Inr (p\<lparr>rf_BalanceToDeduct := 0\<rparr>))
          else bind (DeductAvailableBalance (po_UserID (rf_Order p)) (rf_BalanceToDeduct p)) (\<lambda>r. case r of
              Inl e \<Rightarrow> afterwards (restoreStatus p) (Return (Inl e))
            | Inr deducted \<Rightarrow> Return (Inr (p\<lparr>rf_BalanceToDeduct := deducted\<rparr>))))
      else Return (Inr p))"

definition deductSubscription :: "pay_env \<Rightarrow> RefundPlan \<Rightarrow> RefundPlan pay_proc" where
  "deductSubscription en p =
     (if rf_DeductionType p = DeductionTypeSubscription \<and> rf_SubDaysToDeduct p > 0 \<and> rf_SubscriptionID p > 0 then
        bind (hasAuditLog (rf_OrderID p) ''REFUND_ROLLBACK_FAILED'') (\<lambda>failed.
          if failed then Return (Inr (p\<lparr>rf_SubDaysToDeduct := 0\<rparr>))
          else bind (shortenOrRevoke en p) (\<lambda>r. case r of
              Inl e \<Rightarrow> afterwards (restoreStatus p) (Return (Inl e))
            | Inr _ \<Rightarrow> Return (Inr p)))
      else Return (Inr p))"

definition RollbackRefund :: "pay_env \<Rightarrow> RefundPlan \<Rightarrow> (pay_db, bool) proc" where
  "RollbackRefund en p =
     bind (if rf_DeductionType p = DeductionTypeBalance \<and> rf_BalanceToDeduct p > 0
           then UpdateBalance (po_UserID (rf_Order p)) (rf_BalanceToDeduct p) else Return (Inr ())) (\<lambda>r. case r of
       Inl e \<Rightarrow> afterwards (writeAuditLog (rf_OrderID p) ''REFUND_ROLLBACK_FAILED'') (Return False)
     | Inr _ \<Rightarrow>
         if rf_DeductionType p = DeductionTypeSubscription \<and> rf_SubDaysToDeduct p > 0 \<and> rf_SubscriptionID p > 0 then
           bind getNow (\<lambda>now.
           bind (onSubs (ExtendSubscription (en_zones en) now (rf_SubscriptionID p) (rf_SubDaysToDeduct p))) (\<lambda>r. case r of
             Inl e \<Rightarrow> afterwards (writeAuditLog (rf_OrderID p) ''REFUND_ROLLBACK_FAILED'') (Return False)
           | Inr _ \<Rightarrow> Return True))
         else Return True)"

section \<open>The provider\<close>

definition ProviderStatusPending :: string where "ProviderStatusPending = ''pending''"
definition ProviderStatusSuccess :: string where "ProviderStatusSuccess = ''success''"
definition ProviderStatusFailed :: string where "ProviderStatusFailed = ''failed''"
definition ProviderStatusRefunded :: string where "ProviderStatusRefunded = ''refunded''"

definition validateRefundProviderResponse :: "RefundResponse option \<Rightarrow> pay_error + RefundResponse" where
  "validateRefundProviderResponse resp = (case resp of
     None \<Rightarrow> Inl (GatewayFailed ''payment refund response missing'')
   | Some r \<Rightarrow>
       (let status = TrimSpace (rr_Status r)
        in if status \<in> {ProviderStatusSuccess, ProviderStatusRefunded, ProviderStatusPending} then Inr r
           else if status = ProviderStatusFailed then Inl (GatewayFailed ''payment refund failed'')
           else Inl (GatewayFailed ''payment refund returned unknown status'')))"

text \<open>Any other answer stands for an error without a response.\<close>

definition refundReply :: "reply \<Rightarrow> bool \<times> RefundResponse option" where
  "refundReply r = (case r of RefundReply failed resp \<Rightarrow> (failed, resp) | _ \<Rightarrow> (True, None))"

definition getRefundProvider :: "pay_env \<Rightarrow> PaymentOrder \<Rightarrow> Provider pay_proc" where
  "getRefundProvider en o1 =
     orFail (lookupInstance getRefundOrderProviderInstance o1) (\<lambda>inst. case inst of
       None \<Rightarrow> Return (Inl (ProviderError ''refund provider instance is unavailable''))
     | Some i \<Rightarrow> providerOr (ProviderError ''create provider from instance'') (en_createProvider en i))"

definition gwRefund :: "pay_env \<Rightarrow> RefundPlan \<Rightarrow> RefundResponse pay_proc" where
  "gwRefund en p =
     (if po_PaymentTradeNo (rf_Order p) = [] then
        afterwards (writeAuditLog (po_ID (rf_Order p)) ''REFUND_NO_TRADE_NO'')
          (Return (Inr \<lparr>rr_RefundID = [], rr_Status = ProviderStatusSuccess\<rparr>))
      else orFail (getRefundProvider en (rf_Order p)) (\<lambda>prov.
        (case validateProviderSnapshotMetadata (rf_Order p) (pv_ProviderKey prov) (pv_Identity prov) of
           Some e \<Rightarrow>
             afterwards (writeAuditLog (po_ID (rf_Order p)) ''REFUND_PROVIDER_METADATA_MISMATCH'') (Return (Inl e))
         | None \<Rightarrow> bind takeReply (\<lambda>r. Return
             (case refundReply r of
                (True, Some resp) \<Rightarrow>
                  if TrimSpace (rr_Status resp) = ProviderStatusPending then Inr resp
                  else Inl (GatewayFailed ''refund'')
              | (True, None) \<Rightarrow> Inl (GatewayFailed ''refund'')
              | (False, resp) \<Rightarrow> validateRefundProviderResponse resp)))))"

section \<open>Outcomes\<close>

definition refundDone :: "RefundPlan \<Rightarrow> RefundResult" where
  "refundDone p = \<lparr>re_Success = True, re_Warning = [], re_RequireForce = False,
     re_BalanceDeducted = rf_BalanceToDeduct p, re_SubDaysDeducted = rf_SubDaysToDeduct p\<rparr>"

definition refundedOrder :: "RefundPlan \<Rightarrow> time \<Rightarrow> PaymentOrder \<Rightarrow> PaymentOrder" where
  "refundedOrder p now r = r\<lparr>
     po_Status := (if rf_RefundAmount p < po_Amount (rf_Order p) then OrderStatusPartiallyRefunded else OrderStatusRefunded),
     po_RefundAmount := rf_RefundAmount p, po_RefundReason := Some (rf_Reason p), po_RefundAt := Some now,
     po_ForceRefund := rf_Force p\<rparr>"

definition markRefundOk :: "RefundPlan \<Rightarrow> RefundResult pay_proc" where
  "markRefundOk p =
     bind getNow (\<lambda>now.
     orFail (updateOrder (rf_OrderID p) (refundedOrder p now)) (\<lambda>_.
     afterwards (writeAuditLog (rf_OrderID p) ''REFUND_SUCCESS'') (Return (Inr (refundDone p)))))"

definition markRefundOkTx :: "RefundPlan \<Rightarrow> RefundResult pay_proc" where
  "markRefundOkTx p =
     bind getNow (\<lambda>now.
     orFail (updateOrder (rf_OrderID p) (refundedOrder p now)) (\<lambda>_.
     orFail (createAudit (rf_OrderID p) ''REFUND_SUCCESS'' None) (\<lambda>_. Return (Inr (refundDone p)))))"

definition failedRefund :: "pay_error \<Rightarrow> time \<Rightarrow> PaymentOrder \<Rightarrow> PaymentOrder" where
  "failedRefund cause now r =
     r\<lparr>po_Status := OrderStatusRefundFailed, po_FailedAt := Some now, po_FailedReason := Some cause\<rparr>"

definition handleGwFail :: "pay_env \<Rightarrow> RefundPlan \<Rightarrow> pay_error \<Rightarrow> RefundResult pay_proc" where
  "handleGwFail en p gErr =
     bind (RollbackRefund en p) (\<lambda>rolledBack.
       if rolledBack then
         afterwards (restoreStatus p)
           (afterwards (writeAuditLog (rf_OrderID p) ''REFUND_GATEWAY_FAILED'')
              (Return (Inr (refused ''gateway failed, rolled back'' False))))
       else bind getNow (\<lambda>now.
         bind (updateOrder (rf_OrderID p) (failedRefund gErr now)) (\<lambda>_.
         afterwards (writeAuditLog (rf_OrderID p) ''REFUND_FAILED'') (Return (Inl (ServiceError ''refund failed''))))))"

definition pendingRefund :: "RefundPlan \<Rightarrow> PaymentOrder \<Rightarrow> PaymentOrder" where
  "pendingRefund p r = clearFailed (r\<lparr>po_Status := OrderStatusRefundPending, po_RefundAmount := rf_RefundAmount p,
     po_RefundReason := Some (rf_Reason p), po_RefundAt := None, po_ForceRefund := rf_Force p\<rparr>)"

definition markRefundPending :: "pay_env \<Rightarrow> RefundPlan \<Rightarrow> RefundResponse \<Rightarrow> RefundResult pay_proc" where
  "markRefundPending en p resp =
     bind (RollbackRefund en p) (\<lambda>rollbackOK.
     orFail (updateOrder (rf_OrderID p) (pendingRefund p)) (\<lambda>_.
     bind (createAudit (rf_OrderID p) ''REFUND_PENDING''
             (Some \<lparr>rp_RefundID = TrimSpace (rr_RefundID resp), rp_DeductionRollbackOK = rollbackOK\<rparr>)) (\<lambda>_.
     Return (Inr (refused
       (if rollbackOK then ''gateway refund is pending confirmation''
        else ''gateway refund is pending confirmation; refund deduction rollback failed'') False)))))"

definition finishRefund :: "pay_env \<Rightarrow> RefundPlan \<Rightarrow> RefundResponse \<Rightarrow> RefundResult pay_proc" where
  "finishRefund en p resp = (case validateRefundProviderResponse (Some resp) of
     Inl e \<Rightarrow> handleGwFail en p e
   | Inr resp \<Rightarrow>
       if TrimSpace (rr_Status resp) = ProviderStatusPending then markRefundPending en p resp
       else markRefundOk p)"

definition refundable :: "int \<Rightarrow> PaymentOrder \<Rightarrow> bool" where
  "refundable oid r \<longleftrightarrow> po_ID r = oid \<and> po_Status r \<in> {OrderStatusCompleted, OrderStatusRefundRequested,
     OrderStatusRefundPending, OrderStatusRefundFailed}"

definition ExecuteRefund :: "pay_env \<Rightarrow> RefundPlan \<Rightarrow> RefundResult pay_proc" where
  "ExecuteRefund en p =
     orFail (updateOrders (refundable (rf_OrderID p)) (po_Status_update (\<lambda>_. OrderStatusRefunding))) (\<lambda>c.
       if c = 0 then Return (Inl Conflict)
       else orFail (deductBalance p) (\<lambda>p.
            orFail (deductSubscription en p) (\<lambda>p.
            bind (gwRefund en p) (\<lambda>r. case r of
              Inl e \<Rightarrow> handleGwFail en p e
            | Inr resp \<Rightarrow> finishRefund en p resp))))"

section \<open>Refunds that the provider had not decided on\<close>

definition latestRefundPendingDetail :: "int \<Rightarrow> (pay_db, refundPendingAuditDetail) proc" where
  "latestRefundPendingDetail oid =
     bind (call (\<lambda>db. (Inr (filter (\<lambda>e. al_OrderID e = oid \<and> al_Action e = ''REFUND_PENDING'') (pd_audit db)), db))) (\<lambda>r.
       Return (case r of
         Inr (e # es) \<Rightarrow> (case al_Pending (last (e # es)) of
             Some detail \<Rightarrow> detail\<lparr>rp_RefundID := TrimSpace (rp_RefundID detail)\<rparr>
           | None \<Rightarrow> \<lparr>rp_RefundID = [], rp_DeductionRollbackOK = True\<rparr>)
       | _ \<Rightarrow> \<lparr>rp_RefundID = [], rp_DeductionRollbackOK = True\<rparr>))"

definition refundFinalizePlan :: "pay_env \<Rightarrow> PaymentOrder \<Rightarrow> RefundPlan" where
  "refundFinalizePlan en o1 =
     (let reason = TrimSpace (psStringValue (po_RefundReason o1))
      in \<lparr>rf_OrderID = po_ID o1, rf_Order = o1, rf_RefundAmount = po_RefundAmount o1,
          rf_GatewayAmount = calculateGatewayRefundAmount (en_decimal en) (po_Amount o1) (po_PayAmount o1)
            (po_RefundAmount o1) (PaymentOrderCurrency o1),
          rf_Reason = (if reason = [] then ''refund order:'' @ signedItoa (po_ID o1) else reason),
          rf_Force = po_ForceRefund o1, rf_DeductBalance = True, rf_DeductionType = DeductionTypeBalance,
          rf_BalanceToDeduct = (if po_OrderType o1 = OrderTypeBalance then po_RefundAmount o1 else 0),
          rf_SubDaysToDeduct = 0, rf_SubscriptionID = 0\<rparr>)"

definition applyRefundFinalDeduction :: "pay_env \<Rightarrow> RefundPlan \<Rightarrow> RefundPlan pay_proc" where
  "applyRefundFinalDeduction en p =
     orFail (if rf_DeductionType p = DeductionTypeBalance \<and> rf_BalanceToDeduct p > 0
             then orFail (DeductAvailableBalance (po_UserID (rf_Order p)) (rf_BalanceToDeduct p))
                    (\<lambda>deducted. Return (Inr (p\<lparr>rf_BalanceToDeduct := deducted\<rparr>)))
             else Return (Inr p)) (\<lambda>p.
       if rf_DeductionType p = DeductionTypeSubscription \<and> rf_SubDaysToDeduct p > 0 \<and> rf_SubscriptionID p > 0
       then orFail (shortenOrRevoke en p) (\<lambda>_. Return (Inr p))
       else Return (Inr p))"

definition pendingOrder :: "int \<Rightarrow> PaymentOrder \<Rightarrow> bool" where
  "pendingOrder oid r \<longleftrightarrow> po_ID r = oid \<and> po_Status r = OrderStatusRefundPending"

definition finalizePendingRefundSuccess :: "pay_env \<Rightarrow> RefundPlan \<Rightarrow> RefundResult pay_proc" where
  "finalizePendingRefundSuccess en p = transaction
     (orFail (updateOrders (pendingOrder (rf_OrderID p)) (po_Status_update (\<lambda>_. OrderStatusRefunding))) (\<lambda>claimed.
        if claimed = 0 then Return (Inl Conflict)
        else orFail (applyRefundFinalDeduction en p) markRefundOkTx))"

definition finalizeRefundFailed :: "PaymentOrder \<Rightarrow> pay_error \<Rightarrow> RefundResult pay_proc" where
  "finalizeRefundFailed o1 gErr =
     bind getNow (\<lambda>now.
     bind (updateOrder (po_ID o1) (failedRefund gErr now)) (\<lambda>_.
     afterwards (writeAuditLog (po_ID o1) ''REFUND_FAILED'') (Return (Inr (refused ''gateway refund failed'' False)))))"

text \<open>The provider is asked again, and the refund concluded as it says.\<close>

definition finalizeAs :: "pay_env \<Rightarrow> PaymentOrder \<Rightarrow> refundPendingAuditDetail \<Rightarrow> RefundResponse \<Rightarrow> RefundResult pay_proc" where
  "finalizeAs en o1 pendingDetail resp =
     (let plan = refundFinalizePlan en o1
      in bind (if \<not> rp_DeductionRollbackOK pendingDetail
               then Return (Inr (plan\<lparr>rf_BalanceToDeduct := 0, rf_SubDaysToDeduct := 0\<rparr>))
               else if po_OrderType o1 = OrderTypeSubscription then prepDeduct o1 plan True
               else Return (Inr plan)) (\<lambda>r. case r of
           Inl early \<Rightarrow> Return (Inr early)
         | Inr plan \<Rightarrow>
             if TrimSpace (rr_Status resp) = ProviderStatusPending
             then afterwards (writeAuditLog (po_ID o1) ''REFUND_QUERY_PENDING'')
                    (Return (Inr (refused ''gateway refund is still pending confirmation'' False)))
             else finalizePendingRefundSuccess en plan))"

definition QueryAndFinalizeRefund :: "pay_env \<Rightarrow> int \<Rightarrow> RefundResult pay_proc" where
  "QueryAndFinalizeRefund en oid =
     bind (getOrder oid) (\<lambda>r. case r of
       Inl e \<Rightarrow> Return (Inl NotFound)
     | Inr o1 \<Rightarrow>
         if po_Status o1 \<noteq> OrderStatusRefundPending
         then Return (Inl (BadRequest ''only refund pending orders can be finalized''))
         else orFail (getRefundProvider en o1) (\<lambda>prov.
           if \<not> pv_QueriesRefunds prov
           then Return (Inl (BadRequest ''this payment provider does not support refund status query''))
           else bind (latestRefundPendingDetail oid) (\<lambda>pendingDetail.
             bind takeReply (\<lambda>r. case refundReply r of
               (True, _) \<Rightarrow> Return (Inl (GatewayFailed ''query refund''))
             | (False, resp) \<Rightarrow> (case validateRefundProviderResponse resp of
                 Inl e \<Rightarrow> finalizeRefundFailed o1 e
               | Inr resp \<Rightarrow> finalizeAs en o1 pendingDetail resp)))))"

end
