(* ===== verification/Payment_Creation.thy ===== *)
theory Payment_Creation
  imports Payment_Fulfilment
begin

text \<open>
  The creation of an order in \<open>service/payment_order.go\<close>, from \<open>createOrderInTx\<close> on: the limits for
  the user, the row and its recharge code in one transaction, then the request to the provider.  The
  checks that \<open>CreateOrder\<close> makes before that, of the request and of the settings, are left out; the
  amounts they arrive at are arguments, and so are the random order numbers.
\<close>

section \<open>The selected instance\<close>

record InstanceSelection =
  is_InstanceID :: string
  is_ProviderKey :: string
  is_PaymentMode :: string
  is_Config :: "string \<Rightarrow> string"

definition paymentProviderConfigCurrency :: "string \<Rightarrow> (string \<Rightarrow> string) \<Rightarrow> string" where
  "paymentProviderConfigCurrency providerKey cfg =
     (if TrimSpace providerKey \<in> {TypeStripe, TypeAirwallex}
      then (case NormalizePaymentCurrency (cfg ''currency'') of Some currency \<Rightarrow> currency | None \<Rightarrow> DefaultPaymentCurrency)
      else DefaultPaymentCurrency)"

definition ResolveWxpayJSAPIAppID :: "(string \<Rightarrow> string) \<Rightarrow> string" where
  "ResolveWxpayJSAPIAppID config =
     (if TrimSpace (config ''mpAppId'') \<noteq> [] then TrimSpace (config ''mpAppId'') else TrimSpace (config ''appId''))"

definition paymentOrderSnapshotWxpayAppID :: "InstanceSelection \<Rightarrow> string \<Rightarrow> string" where
  "paymentOrderSnapshotWxpayAppID sel openID =
     (if TrimSpace (is_ProviderKey sel) \<noteq> TypeWxpay then []
      else if TrimSpace openID \<noteq> [] then TrimSpace (ResolveWxpayJSAPIAppID (is_Config sel))
      else TrimSpace (is_Config sel ''appId''))"

definition buildPaymentOrderProviderSnapshot ::
  "InstanceSelection option \<Rightarrow> string \<Rightarrow> (string \<times> snapshot_value) list" where
  "buildPaymentOrderProviderSnapshot selected openID = (case selected of
     None \<Rightarrow> []
   | Some sel \<Rightarrow>
       (let text1 = (\<lambda>k v. if v = [] then [] else [(k, SnapshotString v)]);
            key = TrimSpace (is_ProviderKey sel); cfg = (\<lambda>k. TrimSpace (is_Config sel k));
            currency = [(''currency'', SnapshotString (paymentProviderConfigCurrency key (is_Config sel)))];
            snapshot =
              [(''schema_version'', SnapshotNumber 2)] @
              text1 ''provider_instance_id'' (TrimSpace (is_InstanceID sel)) @
              text1 ''provider_key'' key @
              text1 ''payment_mode'' (TrimSpace (is_PaymentMode sel)) @
              (if key = TypeWxpay then text1 ''merchant_app_id'' (paymentOrderSnapshotWxpayAppID sel openID) @
                 text1 ''merchant_id'' (cfg ''mchId'') @ [(''currency'', SnapshotString DefaultPaymentCurrency)]
               else if key = TypeAlipay then text1 ''merchant_app_id'' (cfg ''appId'')
               else if key = TypeEasyPay then text1 ''merchant_id'' (cfg ''pid'')
               else if key = TypeStripe then currency
               else if key = TypeAirwallex then text1 ''merchant_id'' (cfg ''accountId'') @ currency
               else [])
        in if length snapshot = 1 then [] else snapshot))"

section \<open>The transaction\<close>

record SubscriptionPlan =
  pl_GroupID :: int
  pl_ValidityDays :: int
  pl_ValidityUnit :: string

definition psComputeValidityDays :: "int \<Rightarrow> string \<Rightarrow> int" where
  "psComputeValidityDays days unit =
     (if unit \<in> {''week'', ''weeks''} then days * 7
      else if unit \<in> {''month'', ''months''} then days * 30
      else days)"

record PaymentConfig =
  cf_MaxPendingOrders :: int
  cf_DailyLimit :: rat
  cf_OrderTimeoutMin :: int

record NewOrder =
  no_UserID :: int
  no_PaymentType :: string
  no_OrderType :: OrderType
  no_OpenID :: string
  no_Plan :: "SubscriptionPlan option"
  no_OrderAmount :: rat
  no_LimitAmount :: rat
  no_PayAmount :: rat
  no_Selection :: InstanceSelection
  no_Candidates :: "string list"

definition defaultOrderTimeoutMin :: int where "defaultOrderTimeoutMin = 30"
definition defaultMaxPendingOrders :: int where "defaultMaxPendingOrders = 3"

definition checkPendingLimit :: "int \<Rightarrow> int \<Rightarrow> unit pay_proc" where
  "checkPendingLimit userID maxPending =
     (let limit = (if maxPending \<le> 0 then defaultMaxPendingOrders else maxPending)
      in orFail (ordersWhere (\<lambda>o1. po_UserID o1 = userID \<and> po_Status o1 = OrderStatusPending)) (\<lambda>orders.
           if int (length orders) \<ge> limit then Return (Inl (BadRequest ''too_many_pending'')) else Return (Inr ())))"

definition psStartOfDayUTC :: "time \<Rightarrow> time" where
  "psStartOfDayUTC t = startOfDay UTC t"

definition dailyUse :: "PaymentOrder \<Rightarrow> rat" where
  "dailyUse o1 = (if po_OrderType o1 = OrderTypeBalance then po_PayAmount o1 else po_Amount o1)"

definition paidSince :: "int \<Rightarrow> time \<Rightarrow> PaymentOrder \<Rightarrow> bool" where
  "paidSince userID ts o1 \<longleftrightarrow> po_UserID o1 = userID \<and>
     po_Status o1 \<in> {OrderStatusPaid, OrderStatusRecharging, OrderStatusCompleted} \<and>
     (case po_PaidAt o1 of None \<Rightarrow> False | Some t \<Rightarrow> t \<ge> ts)"

definition checkDailyLimit :: "int \<Rightarrow> rat \<Rightarrow> rat \<Rightarrow> unit pay_proc" where
  "checkDailyLimit userID amount limit =
     (if limit \<le> 0 then Return (Inr ())
      else bind getNow (\<lambda>now.
        orFail (ordersWhere (paidSince userID (psStartOfDayUTC now))) (\<lambda>orders.
          if sum_list (map dailyUse orders) + amount > limit then Return (Inl (BadRequest ''daily_limit_exceeded''))
          else Return (Inr ()))))"

text \<open>Up to five candidates are tried.\<close>

fun allocateOutTradeNo :: "string list \<Rightarrow> string pay_proc" where
  "allocateOutTradeNo [] = Return (Inl (ServiceError ''generate unique out_trade_no: exhausted attempts''))"
| "allocateOutTradeNo (candidate # candidates) =
     orFail (ordersWhere (\<lambda>o1. po_OutTradeNo o1 = candidate)) (\<lambda>orders.
       if orders = [] then Return (Inr candidate) else allocateOutTradeNo candidates)"

text \<open>The unique index on the order number refuses a second order with it, unless it is empty.\<close>

definition insertOrder :: "PaymentOrder \<Rightarrow> int pay_proc" where
  "insertOrder order = call (\<lambda>db.
     if po_OutTradeNo order \<noteq> [] \<and> (\<exists>o1 \<in> set (pd_orders db). po_OutTradeNo o1 = po_OutTradeNo order)
     then (Inl Database, db)
     else (Inr (pd_nextOrder db), db\<lparr>
        pd_orders := pd_orders db @ [order\<lparr>po_ID := pd_nextOrder db, po_UpdatedAt := pd_clock db\<rparr>],
        pd_nextOrder := pd_nextOrder db + 1\<rparr>))"

definition nonEmpty :: "string \<Rightarrow> string option" where
  "nonEmpty s = (if s = [] then None else Some s)"

definition pendingRow :: "NewOrder \<Rightarrow> time \<Rightarrow> string \<Rightarrow> PaymentOrder" where
  "pendingRow req expiresAt outTradeNo =
     \<lparr>po_ID = 0, po_UserID = no_UserID req, po_Amount = no_OrderAmount req, po_PayAmount = no_PayAmount req,
      po_RechargeCode = [], po_OutTradeNo = outTradeNo, po_PaymentType = no_PaymentType req,
      po_PaymentTradeNo = [], po_OrderType = no_OrderType req,
      po_SubscriptionGroupID = map_option pl_GroupID (no_Plan req),
      po_SubscriptionDays = map_option (\<lambda>p. psComputeValidityDays (pl_ValidityDays p) (pl_ValidityUnit p)) (no_Plan req),
      po_ProviderInstanceID = nonEmpty (TrimSpace (is_InstanceID (no_Selection req))),
      po_ProviderKey = nonEmpty (TrimSpace (is_ProviderKey (no_Selection req))),
      po_ProviderSnapshot = buildPaymentOrderProviderSnapshot (Some (no_Selection req)) (no_OpenID req),
      po_Status = OrderStatusPending, po_RefundAmount = 0, po_RefundReason = None, po_RefundAt = None,
      po_ForceRefund = False, po_RefundRequestedAt = None, po_RefundRequestReason = None,
      po_RefundRequestedBy = None, po_ExpiresAt = expiresAt, po_PaidAt = None, po_CompletedAt = None,
      po_FailedAt = None, po_FailedReason = None, po_UpdatedAt = expiresAt\<rparr>"

text \<open>The remainder of \<open>time.Now().UnixNano()\<close> has its sign.\<close>

definition orderCode :: "int \<Rightarrow> time \<Rightarrow> string" where
  "orderCode i now = ''PAY-'' @ signedItoa i @ ''-'' @
     signedItoa (sgn (UnixNano now) * (\<bar>UnixNano now\<bar> mod 100000))"

definition createOrderInTx :: "PaymentConfig \<Rightarrow> NewOrder \<Rightarrow> PaymentOrder pay_proc" where
  "createOrderInTx cfg req = transaction
     (orFail (checkPendingLimit (no_UserID req) (cf_MaxPendingOrders cfg)) (\<lambda>_.
      orFail (checkDailyLimit (no_UserID req) (no_LimitAmount req) (cf_DailyLimit cfg)) (\<lambda>_.
      bind getNow (\<lambda>now.
        let tm = (if cf_OrderTimeoutMin cfg \<le> 0 then defaultOrderTimeoutMin else cf_OrderTimeoutMin cfg);
            expiresAt = now + tm * Minute
        in orFail (allocateOutTradeNo (take 5 (no_Candidates req))) (\<lambda>outTradeNo.
           orFail (insertOrder (pendingRow req expiresAt outTradeNo)) (\<lambda>i.
           bind getNow (\<lambda>now.
           orFail (updateOrder i (po_RechargeCode_update (\<lambda>_. orderCode i now))) (\<lambda>_. getOrder i))))))))"

section \<open>The request to the provider\<close>

text \<open>
  What the provider's answer changes in the order.  An answer of another kind stands for an error of
  the provider, or of what is done before it is asked.
\<close>

definition withPaymentDetails :: "InstanceSelection \<Rightarrow> string \<Rightarrow> PaymentOrder \<Rightarrow> PaymentOrder" where
  "withPaymentDetails sel tradeNo r =
     (let r = (if tradeNo = [] then r else r\<lparr>po_PaymentTradeNo := tradeNo\<rparr>);
          r = (if is_InstanceID sel = [] then r else r\<lparr>po_ProviderInstanceID := Some (is_InstanceID sel)\<rparr>)
      in if is_ProviderKey sel = [] then r else r\<lparr>po_ProviderKey := Some (is_ProviderKey sel)\<rparr>)"

definition invokeProvider :: "PaymentOrder \<Rightarrow> InstanceSelection \<Rightarrow> unit pay_proc" where
  "invokeProvider order sel =
     bind takeReply (\<lambda>r. case r of
       CreateReply tradeNo \<Rightarrow>
         orFail (updateOrder (po_ID order) (withPaymentDetails sel tradeNo)) (\<lambda>_.
         afterwards (writeAuditLog (po_ID order) ''ORDER_CREATED'') (Return (Inr ())))
     | _ \<Rightarrow> Return (Inl (ServiceError ''payment gateway error'')))"

definition CreateOrder :: "PaymentConfig \<Rightarrow> NewOrder \<Rightarrow> PaymentOrder pay_proc" where
  "CreateOrder cfg req =
     orFail (createOrderInTx cfg req) (\<lambda>order.
     bind (invokeProvider order (no_Selection req)) (\<lambda>r. case r of
       Inl e \<Rightarrow> afterwards (updateOrder (po_ID order) (po_Status_update (\<lambda>_. OrderStatusFailed))) (Return (Inl e))
     | Inr _ \<Rightarrow> Return (Inr order)))"

end
