(* ===== verification/Payment_Operations.thy ===== *)
theory Payment_Operations
  imports Payment_Safety Payment_Refund Payment_Creation
begin

text \<open>
  The other operations on payments: notifications and open orders, which fulfil orders as well,
  refunds, the creation of orders and the redemption of codes by users.
\<close>

section \<open>Notifications and open orders\<close>

lemma frame_confirmPayment: "pay.frame en (confirmPayment en oid tradeNo paid pk metadata)"
  unfolding confirmPayment_def Let_def
  by (intro pay.frame_intros pay.frame_lookups frame_toPaid)

lemma frame_HandlePaymentNotification: "pay.frame en (HandlePaymentNotification en n pk)"
  unfolding HandlePaymentNotification_def
  by (intro pay.frame_intros frame_confirmPayment)

lemma frame_settlePaid: "pay.frame en (settlePaid en o1 prov ref resp)"
  unfolding settlePaid_def Let_def
  by (intro pay.frame_intros frame_HandlePaymentNotification pay.frame_updateOrders)
     (simp add: evolves_def sameOrder_def settled_def)

lemma frame_checkPaidWithOptions: "pay.frame en (checkPaidWithOptions en o1 c)"
  unfolding checkPaidWithOptions_def Let_def
  by (intro pay.frame_intros pay.frame_lookups frame_settlePaid)

lemma frame_cancelCore:
  assumes "fs \<in> {OrderStatusCancelled, OrderStatusExpired}"
  shows "pay.frame en (cancelCore en o1 fs)"
  unfolding cancelCore_def
  by (intro pay.frame_intros frame_checkPaidWithOptions pay.frame_updateOrders)
     (use assms in \<open>auto simp: evolves_def sameOrder_def settled_def psIsRefundStatus_def\<close>)

lemma frame_expireEach: "pay.frame en (expireEach en os n)"
  by (induction os arbitrary: n) (auto intro!: pay.frame_bind pay.frame_Return frame_cancelCore)

lemma frame_reconcileEach: "pay.frame en (reconcileEach en os n)"
  by (induction os arbitrary: n) (auto intro!: pay.frame_bind pay.frame_Return frame_checkPaidWithOptions)

lemma frame_openOrders:
  "pay.frame en (CancelOrder en oid uid)" "pay.frame en (AdminCancelOrder en oid)"
  "pay.frame en (ExpireTimedOutOrders en)" "pay.frame en (VerifyOrderByOutTradeNo en ref uid)"
  "pay.frame en (ReconcilePendingPaymentOrders en)"
  unfolding CancelOrder_def AdminCancelOrder_def ExpireTimedOutOrders_def VerifyOrderByOutTradeNo_def
    ReconcilePendingPaymentOrders_def
  by ((intro pay.frame_intros frame_cancelCore frame_checkPaidWithOptions frame_expireEach frame_reconcileEach; simp)+)

lemma frame_RetryFulfillment: "pay.frame en (RetryFulfillment en oid)"
  unfolding RetryFulfillment_def
  by (intro pay.frame_intros frame_executeFulfillment)

section \<open>Transactions of steps\<close>

text \<open>A transaction is as good as its body, when several steps of it count as one.\<close>

context payment_worker
begin

lemma keeps_runs:
  assumes "\<And>r s t. guar r s \<Longrightarrow> guar s t \<Longrightarrow> guar r t"
  shows "upholds payRely payInv guar p Q s \<Longrightarrow> payInv s \<Longrightarrow>
    payInv (snd (runs p s)) \<and> guar s (snd (runs p s)) \<and> Q (fst (runs p s)) (snd (runs p s))"
proof (induction p arbitrary: s)
  case (Return x)
  then show ?case by (simp add: quiet_guar)
next
  case (Step f)
  then have *: "payInv (snd (f s)) \<and> guar s (snd (f s)) \<and> upholds payRely payInv guar (fst (f s)) Q (snd (f s))"
    using rely_refl by simp
  then have "payInv (snd (runs (fst (f s)) (snd (f s)))) \<and> guar (snd (f s)) (snd (runs (fst (f s)) (snd (f s)))) \<and>
      Q (fst (runs (fst (f s)) (snd (f s)))) (snd (runs (fst (f s)) (snd (f s))))"
    by (intro Step.IH [of "f s"]) (auto simp: fsts.simps prod_set_defs)
  with * show ?case using assms by auto
qed

lemma secures_transaction:
  assumes "\<And>r s t. guar r s \<Longrightarrow> guar s t \<Longrightarrow> guar r t" and "lasting K" and "\<And>x. lasting (P x)"
    and "secures K body (onSuccess P)"
  shows "secures K (transaction body) (onSuccess P)"
  unfolding transaction_def
proof (rule secures_body(1) [OF assms(2,3)])
  fix s x t
  assume s: "K s" "payInv s" "runs body s = (Inr x, t)"
  then have "upholds payRely payInv guar body (onSuccess P) s"
    using assms(4) by (simp add: secures_def)
  from keeps_runs [OF assms(1) this s(2)] show "payInv t \<and> guar s t \<and> P x t"
    using s(3) by simp
qed

end

section \<open>Refunds\<close>

lemma keepsSettled_trans: "keepsSettled r s \<Longrightarrow> keepsSettled s t \<Longrightarrow> keepsSettled r t"
  unfolding keepsSettled_def sameOrder_def by metis

lemma refundGuar_trans: "refundGuar r s \<Longrightarrow> refundGuar s t \<Longrightarrow> refundGuar r t"
  unfolding refundGuar_def using payRely_trans keepsSettled_trans by blast

text \<open>Steps that change only the rows of users and subscriptions, affiliates and the ledger.\<close>

definition sideways :: "pay_db \<Rightarrow> pay_db \<Rightarrow> bool" where
  "sideways s t \<longleftrightarrow> pd_codes t = pd_codes s \<and> pd_nextCode t = pd_nextCode s \<and> pd_orders t = pd_orders s \<and>
     pd_nextOrder t = pd_nextOrder s \<and> pd_audit t = pd_audit s \<and>
     (sd_faults (pd_sub s) = [] \<longrightarrow> sd_faults (pd_sub t) = [])"

lemma sideways_keeps:
  assumes "sideways s t" and "payInv s"
  shows "payInv t" and "refundGuar s t"
proof -
  have "hasAudit t = hasAudit s"
    using assms(1) by (simp add: fun_eq_iff sideways_def hasAudit_def)
  moreover from this have "delivered t = delivered s" "rebated t = rebated s"
    using assms(1) by (simp_all add: fun_eq_iff sideways_def delivered_def assigned_def rebated_def)
  ultimately show "payInv t" and "refundGuar s t"
    using assms
    by (auto simp: sideways_def payInv_def refundGuar_def payRely_def keepsSettled_def sameOrder_def
        intro!: bexI [of _ "_ :: PaymentOrder"] bexI [of _ "_ :: RedeemCode"])
qed

lemma frame_sideways:
  "(\<And>db. sideways db (snd (f db))) \<Longrightarrow> refunding.frame (call f)"
  "(\<And>db. sideways db (snd (f db))) \<Longrightarrow> refunding.frame (atomically f)"
proof -
  assume f: "\<And>db. sideways db (snd (f db))"
  have "refunding.secures (\<lambda>_. True) (call f) (refunding.onSuccess (\<lambda>_ _. True))"
    by (rule refunding.secures_call) (use sideways_keeps [OF f] in auto)
  then show "refunding.frame (call f)"
    by (simp add: refunding.frame_def)
  show "refunding.frame (atomically f)" if "\<And>db. sideways db (snd (f db))" for f :: "pay_db \<Rightarrow> 'b \<times> pay_db"
    unfolding refunding.frame_def
    by (rule refunding.secures_atomically) (use sideways_keeps [OF that] in auto)
qed

lemma frame_updateUser: "refunding.frame (updateUser i f)"
  unfolding updateUser_def by (rule frame_sideways) (simp add: sideways_def)

lemma frame_users: "refunding.frame (UpdateBalance i q)" "refunding.frame (DeductAvailableBalance i q)"
  unfolding UpdateBalance_def DeductAvailableBalance_def
  by (auto simp: sideways_def intro!: frame_updateUser refunding.frame_Return frame_sideways split: option.splits)

lemma frame_onSubs: "refunding.frame (onSubs m)"
  unfolding onSubs_def by (rule frame_sideways(2)) (simp add: sideways_def case_prod_unfold)

lemmas frame_changes = refunding.frame_intros frame_users frame_onSubs

text \<open>
  An order that was settled once has been delivered, and may be set to any status of a refund, or to
  completed, from then on.
\<close>

definition knownDelivered :: "int \<Rightarrow> pay_db \<Rightarrow> bool" where
  "knownDelivered oid s \<longleftrightarrow> (\<exists>o1. po_ID o1 = oid \<and> knows o1 s \<and> delivered s o1)"

lemma lasting_knownDelivered [simp]: "refunding.lasting (knownDelivered oid)"
  unfolding refunding.lasting_def knownDelivered_def
  using pay.lastingD [OF lasting_known(1)] pay.lastingD [OF lasting_known(4)] by metis

lemma settled_known:
  assumes "payInv s" and "o1 \<in> set (pd_orders s)" and "settled o1"
  shows "knownDelivered (po_ID o1) s"
  using assms by (auto simp: knownDelivered_def knows_def payInv_def sameOrder_def)

lemma known_row:
  assumes "payInv s" and "knownDelivered oid s" and "o1 \<in> set (pd_orders s)" and "po_ID o1 = oid"
  shows "delivered s o1"
proof -
  obtain o2 o3 where o: "po_ID o2 = oid" "delivered s o2" "o3 \<in> set (pd_orders s)" "sameOrder o2 o3"
    using assms(2) by (auto simp: knownDelivered_def knows_def)
  have "o3 = o1"
    using assms(1,3,4) o by (auto simp: payInv_def distinct_map inj_on_def sameOrder_def)
  then show ?thesis
    using delivered_cong [OF o(4,2)] by simp
qed

definition refundUpdate :: "(PaymentOrder \<Rightarrow> PaymentOrder) \<Rightarrow> bool" where
  "refundUpdate f \<longleftrightarrow> (\<forall>r now. evolves r (f (r\<lparr>po_UpdatedAt := now\<rparr>)) \<and> settled (f (r\<lparr>po_UpdatedAt := now\<rparr>)))"

lemma quiet_setOrders:
  assumes "payInv s" and "knownDelivered oid s" and "refundUpdate f" and "\<And>r. p r \<Longrightarrow> po_ID r = oid"
  shows "quiet s (setOrders p f s)"
  using assms known_row [OF assms(1,2)]
  by (auto simp: quiet_def setOrders_def hasAudit_def list_all2_map2 refundUpdate_def intro!: list.rel_refl_strong)

lemma secures_refundUpdate:
  assumes "refundUpdate f"
  shows "refunding.secures (knownDelivered oid) (updateOrder oid f) (\<lambda>_ _. True)"
proof -
  have "refunding.secures (knownDelivered oid) (updateOrder oid f) (refunding.onSuccess (\<lambda>_ _. True))"
    unfolding updateOrder_def
    by (rule refunding.secures_when_quiet) (auto intro!: quiet_setOrders assms)
  then show ?thesis by simp
qed

lemma refundUpdates:
  "refundUpdate (\<lambda>r. r\<lparr>po_Status := (if b then OrderStatusRefundRequested else OrderStatusCompleted)\<rparr>)"
  "refundUpdate (refundedOrder p now)" "refundUpdate (failedRefund cause now)" "refundUpdate (pendingRefund p)"
  "refundUpdate (po_Status_update (\<lambda>_. OrderStatusRefunding))"
  by (auto simp: refundUpdate_def evolves_def sameOrder_def settled_def psIsRefundStatus_def refundedOrder_def
      failedRefund_def pendingRefund_def clearFailed_def)

lemma secures_restoreStatus: "refunding.secures (knownDelivered (rf_OrderID p)) (restoreStatus p) (\<lambda>_ _. True)"
  unfolding restoreStatus_def
  by (rule refunding.secures_bind [OF _ secures_refundUpdate [OF refundUpdates(1)]]) (simp_all add: refunding.secures_Return)

lemma frame_RollbackRefund: "refunding.frame (RollbackRefund en p)"
  unfolding RollbackRefund_def by (intro frame_changes)

lemma frame_shortenOrRevoke: "refunding.frame (shortenOrRevoke en p)"
  unfolding shortenOrRevoke_def by (intro frame_changes)

lemma frame_gwRefund: "refunding.frame (gwRefund en p)"
  unfolding gwRefund_def getRefundProvider_def
  by (intro refunding.frame_intros refunding.frame_lookups)

text \<open>Work that ends in a status of a refund.\<close>

lemma secures_thenUpdate:
  assumes "refundUpdate f" and "\<And>x. refunding.frame (k x)"
  shows "refunding.secures (knownDelivered oid) (bind (updateOrder oid f) k) (\<lambda>_ _. True)"
  by (rule refunding.secures_bind [OF _ secures_refundUpdate [OF assms(1)]]) (simp_all add: refunding.frameD assms(2))

lemma secures_thenUpdate_orFail:
  assumes "refundUpdate f" and "\<And>x. refunding.frame (k x)"
  shows "refunding.secures (knownDelivered oid) (orFail (updateOrder oid f) k) (\<lambda>_ _. True)"
  unfolding orFail_def
  by (intro secures_thenUpdate assms refunding.frame_sum refunding.frame_Return)

lemma secures_handleGwFail: "refunding.secures (knownDelivered (rf_OrderID p)) (handleGwFail en p e) (\<lambda>_ _. True)"
  unfolding handleGwFail_def
  by (intro refunding.secures_frame_bind frame_RollbackRefund refunding.secures_if secures_thenUpdate
        refundUpdates refunding.secures_bind [OF _ secures_restoreStatus] refunding.frameD refunding.frame_intros) simp_all

lemma secures_finishRefund: "refunding.secures (knownDelivered (rf_OrderID p)) (finishRefund en p resp) (\<lambda>_ _. True)"
  unfolding finishRefund_def markRefundPending_def markRefundOk_def
  by (intro refunding.secures_sum refunding.secures_if secures_handleGwFail refunding.secures_frame_bind
        frame_RollbackRefund secures_thenUpdate_orFail refundUpdates refunding.frame_intros) simp_all


text \<open>A plan stays a plan for its order.\<close>

definition planFor :: "RefundPlan \<Rightarrow> RefundPlan \<Rightarrow> pay_db \<Rightarrow> bool" where
  "planFor p p' s \<longleftrightarrow> rf_OrderID p' = rf_OrderID p"

lemma secures_afterPlan:
  assumes "\<And>p'. rf_OrderID p' = rf_OrderID p \<Longrightarrow> refunding.secures K (k p') Q"
  shows "refunding.secures (\<lambda>s. K s \<and> planFor p p' s) (k p') Q"
proof (cases "rf_OrderID p' = rf_OrderID p")
  case True
  show ?thesis
    by (rule refunding.secures_conseq [OF assms [OF True]]) simp_all
qed (simp add: planFor_def refunding.secures_def)

lemma secures_refuse:
  "refunding.secures (knownDelivered (rf_OrderID p)) (afterwards (restoreStatus p) (Return (Inl e)))
     (refunding.onSuccess Q)"
  by (rule refunding.secures_bind [OF _ secures_restoreStatus]) (simp_all add: refunding.secures_error)

lemma secures_deductBalance:
  "refunding.secures (knownDelivered (rf_OrderID p)) (deductBalance p) (refunding.onSuccess (planFor p))"
  unfolding deductBalance_def
  by (intro refunding.secures_if refunding.secures_frame_bind refunding.frame_audit refunding.secures_sum
        secures_refuse refunding.secures_done frame_users) (simp_all add: planFor_def)

lemma secures_deductSubscription:
  "refunding.secures (knownDelivered (rf_OrderID p)) (deductSubscription en p) (refunding.onSuccess (planFor p))"
  unfolding deductSubscription_def
  by (intro refunding.secures_if refunding.secures_frame_bind refunding.frame_audit refunding.secures_sum
        secures_refuse refunding.secures_done frame_shortenOrRevoke) (simp_all add: planFor_def)

lemma secures_claimRefund:
  assumes p: "\<And>r. p r \<Longrightarrow> settled r \<and> po_ID r = oid"
  shows "refunding.secures (\<lambda>_. True) (updateOrders p (po_Status_update (\<lambda>_. OrderStatusRefunding)))
     (refunding.onSuccess (\<lambda>c s. c \<noteq> 0 \<longrightarrow> knownDelivered oid s))"
  unfolding updateOrders_def
proof (rule refunding.secures_call)
  fix s
  assume inv: "payInv s"
  let ?t = "setOrders p (po_Status_update (\<lambda>_. OrderStatusRefunding)) s"
  have quiet: "quiet s ?t"
    using p refundUpdates(5)
    by (auto simp: quiet_def setOrders_def hasAudit_def list_all2_map2 refundUpdate_def intro!: list.rel_refl_strong)
  have "knownDelivered oid ?t" if claimed: "length (filter p (pd_orders s)) \<noteq> 0"
  proof -
    obtain r where "r \<in> set (pd_orders s)" "p r"
      using claimed by (auto simp: filter_empty_conv)
    then have "knownDelivered oid s"
      using settled_known [OF inv] p by blast
    then show ?thesis
      by (rule refunding.lastingD [OF lasting_knownDelivered quiet_payRely [OF quiet]])
  qed
  then show "payInv (snd (Inr (length (filter p (pd_orders s))), ?t)) \<and>
      refundGuar s (snd (Inr (length (filter p (pd_orders s))), ?t)) \<and>
      refunding.onSuccess (\<lambda>c s. c \<noteq> 0 \<longrightarrow> knownDelivered oid s)
        (fst (Inr (length (filter p (pd_orders s))), ?t)) (snd (Inr (length (filter p (pd_orders s))), ?t))"
    using quiet_payInv [OF quiet inv] quiet_refundGuar [OF quiet] by simp
qed simp

lemma refundable_settled: "refundable oid r \<Longrightarrow> settled r \<and> po_ID r = oid" "pendingOrder oid r \<Longrightarrow> settled r \<and> po_ID r = oid"
  by (auto simp: refundable_def pendingOrder_def settled_def psIsRefundStatus_def)

lemma secures_askProvider:
  "refunding.secures (knownDelivered (rf_OrderID p))
     (bind (gwRefund en p) (\<lambda>r. case r of Inl e \<Rightarrow> handleGwFail en p e | Inr resp \<Rightarrow> finishRefund en p resp))
     (refunding.onSuccess (\<lambda>_ _. True))"
  by (simp, intro refunding.secures_frame_bind frame_gwRefund refunding.secures_sum secures_handleGwFail secures_finishRefund)
     simp

lemma frame_ExecuteRefund: "refunding.frame (ExecuteRefund en p)"
proof -
  have days: "refunding.secures (knownDelivered (rf_OrderID p)) (orFail (deductSubscription en p) (\<lambda>p.
      bind (gwRefund en p) (\<lambda>r. case r of Inl e \<Rightarrow> handleGwFail en p e | Inr resp \<Rightarrow> finishRefund en p resp)))
      (refunding.onSuccess (\<lambda>_ _. True))" for p
    by (rule refunding.secures_orFail [OF _ secures_deductSubscription], simp, rule secures_afterPlan)
       (metis secures_askProvider)
  have "refunding.secures (knownDelivered (rf_OrderID p)) (orFail (deductBalance p) (\<lambda>p.
      orFail (deductSubscription en p) (\<lambda>p.
      bind (gwRefund en p) (\<lambda>r. case r of Inl e \<Rightarrow> handleGwFail en p e | Inr resp \<Rightarrow> finishRefund en p resp))))
      (refunding.onSuccess (\<lambda>_ _. True))"
    by (rule refunding.secures_orFail [OF _ secures_deductBalance], simp, rule secures_afterPlan)
       (metis days)
  then have "refunding.secures (\<lambda>_. True) (ExecuteRefund en p) (refunding.onSuccess (\<lambda>_ _. True))"
    unfolding ExecuteRefund_def
    by (intro refunding.secures_orFail [OF _ secures_claimRefund [OF refundable_settled(1)]] refunding.secures_if refunding.secures_error)
       (auto elim: refunding.secures_conseq)
  then show ?thesis
    by (simp add: refunding.frame_def)
qed

text \<open>A refund that was pending, concluded.\<close>

lemma secures_applyRefundFinalDeduction:
  "refunding.secures K (applyRefundFinalDeduction en p) (refunding.onSuccess (planFor p))" if "refunding.lasting K"
proof -
  have first: "refunding.secures K (if rf_DeductionType p = DeductionTypeBalance \<and> rf_BalanceToDeduct p > 0
             then orFail (DeductAvailableBalance (po_UserID (rf_Order p)) (rf_BalanceToDeduct p))
                    (\<lambda>deducted. Return (Inr (p\<lparr>rf_BalanceToDeduct := deducted\<rparr>)))
             else Return (Inr p)) (refunding.onSuccess (planFor p))"
    by (intro refunding.secures_if refunding.secures_frame_orFail that frame_users refunding.secures_done)
       (simp_all add: planFor_def)
  have second: "refunding.secures K (if rf_DeductionType p' = DeductionTypeSubscription \<and> rf_SubDaysToDeduct p' > 0 \<and> rf_SubscriptionID p' > 0
       then orFail (shortenOrRevoke en p') (\<lambda>_. Return (Inr p'))
       else Return (Inr p')) (refunding.onSuccess (planFor p))" if id: "rf_OrderID p' = rf_OrderID p" for p'
    by (intro refunding.secures_if refunding.secures_frame_orFail \<open>refunding.lasting K\<close> frame_shortenOrRevoke
          refunding.secures_done) (simp_all add: planFor_def id)
  show ?thesis
    unfolding applyRefundFinalDeduction_def
    by (rule refunding.secures_orFail [OF that first], rule secures_afterPlan) (rule second)
qed

lemma secures_markRefundOkTx: "refunding.secures (knownDelivered (rf_OrderID p)) (markRefundOkTx p) (\<lambda>_ _. True)"
  unfolding markRefundOkTx_def
  by (intro refunding.secures_frame_bind secures_thenUpdate_orFail refundUpdates refunding.frame_intros) simp_all

lemma frame_finalizePendingRefundSuccess: "refunding.frame (finalizePendingRefundSuccess en p)"
proof -
  have "refunding.secures (knownDelivered (rf_OrderID p)) (orFail (applyRefundFinalDeduction en p) markRefundOkTx)
      (refunding.onSuccess (\<lambda>_ _. True))"
    by (rule refunding.secures_orFail [OF _ secures_applyRefundFinalDeduction], simp_all, rule secures_afterPlan)
       (metis secures_markRefundOkTx)
  then have "refunding.secures (\<lambda>_. True) (finalizePendingRefundSuccess en p) (refunding.onSuccess (\<lambda>_ _. True))"
    unfolding finalizePendingRefundSuccess_def
    by (intro refunding.secures_transaction refunding.secures_orFail [OF _ secures_claimRefund [OF refundable_settled(2)]]
          refunding.secures_if refunding.secures_error)
       (auto elim: refunding.secures_conseq intro: refundGuar_trans)
  then show ?thesis by (simp add: refunding.frame_def)
qed

lemma secures_finalizeRefundFailed: "refunding.secures (knownDelivered (po_ID o1)) (finalizeRefundFailed o1 e) (\<lambda>_ _. True)"
  unfolding finalizeRefundFailed_def
  by (intro refunding.secures_frame_bind secures_thenUpdate refundUpdates refunding.frame_intros) simp_all

lemma frame_prepDeduct: "refunding.frame (prepDeduct o1 p force)"
  unfolding prepDeduct_def GetActiveSubscription_def Let_def
  by (cases "po_SubscriptionGroupID o1"; cases "po_SubscriptionDays o1"; simp only: prod.case option.case;
      intro frame_changes)

lemma frame_finalizeAs: "refunding.frame (finalizeAs en o1 detail resp)"
  unfolding finalizeAs_def Let_def
  by (intro frame_changes frame_prepDeduct frame_finalizePendingRefundSuccess)

lemma secures_getSettled:
  "refunding.secures (\<lambda>_. True) (getOrder oid) (refunding.onSuccess (\<lambda>o1 s. settled o1 \<longrightarrow> knownDelivered (po_ID o1) s))"
  unfolding getOrder_def
  by (rule refunding.secures_quiet) (auto simp: find_Some_iff split: option.splits intro!: settled_known)

lemma frame_QueryAndFinalizeRefund: "refunding.frame (QueryAndFinalizeRefund en oid)"
proof -
  have detail: "refunding.frame (latestRefundPendingDetail oid)"
    unfolding latestRefundPendingDetail_def by (intro refunding.frame_intros refunding.frame_call) simp
  have asked: "refunding.secures (knownDelivered (po_ID o1))
      (case refundReply r of (True, _) \<Rightarrow> Return (Inl (GatewayFailed ''query refund''))
       | (False, resp) \<Rightarrow> (case validateRefundProviderResponse resp of
           Inl e \<Rightarrow> finalizeRefundFailed o1 e
         | Inr resp \<Rightarrow> finalizeAs en o1 pendingDetail resp)) (\<lambda>_ _. True)" for o1 r pendingDetail
  proof (cases "refundReply r")
    case (Pair failed resp)
    show ?thesis
      unfolding Pair
      by (cases failed; simp only: prod.case bool.case;
          intro refunding.secures_sum secures_finalizeRefundFailed refunding.secures_frame frame_finalizeAs
            refunding.frame_Return)
  qed
  have "refunding.secures (knownDelivered (po_ID o1)) (orFail (getRefundProvider en o1) (\<lambda>prov.
           if \<not> pv_QueriesRefunds prov
           then Return (Inl (BadRequest ''this payment provider does not support refund status query''))
           else bind (latestRefundPendingDetail oid) (\<lambda>pendingDetail.
             bind takeReply (\<lambda>r. case refundReply r of
               (True, _) \<Rightarrow> Return (Inl (GatewayFailed ''query refund''))
             | (False, resp) \<Rightarrow> (case validateRefundProviderResponse resp of
                 Inl e \<Rightarrow> finalizeRefundFailed o1 e
               | Inr resp \<Rightarrow> finalizeAs en o1 pendingDetail resp))))) (refunding.onSuccess (\<lambda>_ _. True))" for o1
    unfolding getRefundProvider_def
    by (intro refunding.secures_frame_orFail refunding.secures_if refunding.secures_error refunding.secures_frame_bind
          detail refunding.frame_intros refunding.frame_lookups) (simp_all add: asked)
  then have ask: "refunding.secures (knownDelivered (po_ID o1)) (orFail (getRefundProvider en o1) (\<lambda>prov.
           if \<not> pv_QueriesRefunds prov
           then Return (Inl (BadRequest ''this payment provider does not support refund status query''))
           else bind (latestRefundPendingDetail oid) (\<lambda>pendingDetail.
             bind takeReply (\<lambda>r. case refundReply r of
               (True, _) \<Rightarrow> Return (Inl (GatewayFailed ''query refund''))
             | (False, resp) \<Rightarrow> (case validateRefundProviderResponse resp of
                 Inl e \<Rightarrow> finalizeRefundFailed o1 e
               | Inr resp \<Rightarrow> finalizeAs en o1 pendingDetail resp))))) (\<lambda>_ _. True)" for o1
    by simp
  show ?thesis
    unfolding QueryAndFinalizeRefund_def refunding.frame_def
    by (intro refunding.secures_bind [OF _ secures_getSettled] refunding.secures_sum refunding.secures_if
          refunding.secures_frame refunding.frame_Return refunding.secures_conseq [OF ask])
       (auto simp: settled_def psIsRefundStatus_def)
qed

lemma frame_refundRequests:
  "refunding.frame (RequestRefund oid uid reason)" "refunding.frame (PrepareRefund en oid amt reason force deduct)"
proof -
  show "refunding.frame (RequestRefund oid uid reason)"
    unfolding RequestRefund_def validateRefundRequest_def
    by (intro refunding.frame_intros refunding.frame_lookups refunding.frame_updateOrders)
       (auto simp: evolves_def sameOrder_def settled_def refundRequestable_def psIsRefundStatus_def)
  have float: "refunding.frame (case amt of Finite q \<Rightarrow> f q | Infinite \<Rightarrow> Return x | NaN \<Rightarrow> Return y)"
    if "\<And>q. refunding.frame (f q)" for f :: "rat \<Rightarrow> (RefundResult + RefundPlan) pay_proc" and x y
    using that by (cases amt) (simp_all add: refunding.frame_Return)
  show "refunding.frame (PrepareRefund en oid amt reason force deduct)"
    unfolding PrepareRefund_def Let_def
    by (intro refunding.frame_intros refunding.frame_lookups frame_prepDeduct float)
qed

section \<open>Redemption by users\<close>

lemma keeps_mono:
  assumes "\<And>s t. guar s t \<Longrightarrow> guar' s t"
  shows "upholds rely inva guar p Q s \<Longrightarrow> upholds rely inva guar' p Q s"
proof (induction p arbitrary: s)
  case (Step f)
  show ?case
    unfolding upholds_Step
  proof (intro allI impI)
    fix t
    assume "rely s t" and "inva t"
    then have *: "inva (snd (f t)) \<and> guar t (snd (f t)) \<and> upholds rely inva guar (fst (f t)) Q (snd (f t))"
      using Step.prems by simp
    then have "upholds rely inva guar' (fst (f t)) Q (snd (f t))"
      by (intro Step.IH [of "f t"]) (auto simp: fsts.simps prod_set_defs)
    with * show "inva (snd (f t)) \<and> guar' t (snd (f t)) \<and> upholds rely inva guar' (fst (f t)) Q (snd (f t))"
      using assms by simp
  qed
qed simp

lemma frame_other: "refunding.frame p \<Longrightarrow> other.frame p"
  unfolding refunding.frame_def other.frame_def refunding.secures_def other.secures_def
  by (auto intro: keeps_mono [of refundGuar payRely] simp: refundGuar_def)

lemma frame_AccrueInviteRebateForOrder: "other.frame (AccrueInviteRebateForOrder en af False u q oid)"
proof -
  have "refunding.frame (accrueQuotaTx i j amount h oid)" for i j amount h
    unfolding accrueQuotaTx_def
    by (intro refunding.frame_intros frame_sideways) (simp_all add: sideways_def)
  then have "other.secures (\<lambda>_. True) (transaction (accrueQuotaTx i j amount h oid)) (other.onSuccess (\<lambda>_ _. True))" for i j amount h
    by (intro other.secures_transaction) (auto simp: other.frame_def [symmetric] intro: frame_other payRely_trans)
  then have quota: "other.frame (AccrueQuota False i j amount h oid)" for i j amount h
    by (simp add: AccrueQuota_def Let_def other.frame_def other.frame_Return other.secures_Return)
  have "other.frame (accrueFromInviter en af False u q oid invitee i)" for invitee i
    unfolding accrueFromInviter_def capRebate_def Let_def
    by (intro other.frame_intros quota)
  then show ?thesis
    unfolding AccrueInviteRebateForOrder_def by (intro other.frame_intros)
qed

lemma secures_redeemOther:
  "other.secures (knowsCode r) (transaction (useAndPayOut en u r)) (other.onSuccess (\<lambda>_ _. True))"
  unfolding transaction_def
proof (rule other.secures_body(1))
  fix s t and x :: unit
  assume k: "knowsCode r s" and inv: "payInv s" and run: "runs (useAndPayOut en u r) s = (Inr x, t)"
  have paid: "paidOut u r s t"
    by (rule useAndPayOut_paidOut [OF run]) (use inv in \<open>simp add: payInv_def\<close>)
  obtain r0 where r0: "r0 \<in> set (pd_codes s)" "sameCode r0 r"
    using k by (auto simp: knowsCode_def)
  show "payInv t \<and> payRely s t \<and> True"
    using paidOut_effects(1,2) [OF inv paid r0] by simp
qed simp_all

lemma frame_Redeem: "other.frame (Redeem en u code)"
proof -
  have rebate: "other.frame (tryAccrueAffiliateRebateForRedeem en False u q)" for q
    unfolding tryAccrueAffiliateRebateForRedeem_def
    by (intro other.frame_intros frame_AccrueInviteRebateForOrder)
  have usable: "other.secures (knowsCode r) (redeemUsable en u False r) (\<lambda>_ _. True)" for r
  proof -
    have "other.secures (knowsCode r) (redeemUsable en u False r) (other.onSuccess (\<lambda>_ _. True))"
      unfolding redeemUsable_def
      by (intro other.secures_option other.secures_error other.secures_frame_orFail other.frame_reads
            other.secures_orFail [OF _ secures_redeemOther])
         (auto intro!: other.secures_frame other.frame_intros rebate)
    then show ?thesis by simp
  qed
  have found: "other.secures (knowsCode r) (redeemFound en u policy False r) (\<lambda>_ _. True)" for policy r
    unfolding redeemFound_def
    by (intro other.secures_frame_bind other.frame_getNow other.secures_if usable other.secures_frame other.frame_lookups)
       simp_all
  have look: "other.secures (\<lambda>_. True) (GetByCode code) (other.onSuccess (\<lambda>r s. knowsCode r s))"
    unfolding GetByCode_def
    by (rule other.secures_quiet) (auto simp: find_Some_iff knowsCode_def split: option.splits intro!: bexI [rotated] nth_mem)
  have locked: "other.frame (redeemLocked en u code policy False)" for policy
    unfolding redeemLocked_def other.frame_def
    by (intro other.secures_bind [OF _ look] other.secures_sum other.secures_if other.secures_frame
          other.frame_lookups other.frame_Return other.secures_conseq [OF found]) simp_all
  show ?thesis
    unfolding Redeem_def redeem_def by (intro other.frame_intros locked)
qed

end
