(* ===== verification/Payment_System.thy ===== *)
theory Payment_System
  imports Payment_Operations
begin

text \<open>
  The creation of orders, and all operations together: what holds of every interleaving of them.
\<close>

section \<open>New orders\<close>

lemma runs_orFail_InrD:
  assumes "runs (orFail p k) s = (Inr x, t)"
  obtains y m where "runs p s = (Inr y, m)" and "runs (k y) m = (Inr x, t)"
  using assms by (auto simp: runs_orFail split: prod.splits sum.splits)

definition onlyReads :: "(pay_db, 'a) proc \<Rightarrow> bool" where
  "onlyReads p \<longleftrightarrow> (\<forall>s. \<exists>fs. snd (runs p s) = s\<lparr>pd_faults := fs\<rparr>)"

lemma faults_self: "\<exists>fs. s = s\<lparr>pd_faults := fs\<rparr>" for s :: pay_db
  by (rule exI [of _ "pd_faults s"]) simp

lemma reads_Return: "onlyReads (Return x)"
  using faults_self by (simp add: onlyReads_def)

lemma reads_call: "(\<And>db. snd (f db) = db) \<Longrightarrow> onlyReads (call f)"
  unfolding onlyReads_def
proof
  fix s
  assume "\<And>db. snd (f db) = db"
  then show "\<exists>fs. snd (runs (call f) s) = s\<lparr>pd_faults := fs\<rparr>"
    by (cases rule: payStatement_cases [of f s]) auto
qed

lemma reads_bind:
  assumes "onlyReads p" and "\<And>x. onlyReads (k x)"
  shows "onlyReads (bind p k)"
  unfolding onlyReads_def
proof
  fix s
  obtain fs where "snd (runs p s) = s\<lparr>pd_faults := fs\<rparr>"
    using assms(1) by (auto simp: onlyReads_def)
  moreover obtain gs where "snd (runs (k (fst (runs p s))) (s\<lparr>pd_faults := fs\<rparr>)) = s\<lparr>pd_faults := gs\<rparr>"
    using assms(2) [of "fst (runs p s)"] unfolding onlyReads_def
    by (elim allE [of _ "s\<lparr>pd_faults := fs\<rparr>"]) auto
  ultimately show "\<exists>fs. snd (runs (bind p k) s) = s\<lparr>pd_faults := fs\<rparr>"
    by (intro exI [of _ gs]) simp
qed

lemma reads_orFail: "onlyReads p \<Longrightarrow> (\<And>x. onlyReads (k x)) \<Longrightarrow> onlyReads (orFail p k)"
  unfolding orFail_def by (rule reads_bind) (auto intro: reads_Return split: sum.splits)

lemma reads_getNow: "onlyReads getNow"
  using faults_self by (simp add: onlyReads_def)

lemma reads_checks:
  "onlyReads (checkPendingLimit u m)" "onlyReads (checkDailyLimit u q l)" "onlyReads (allocateOutTradeNo cs)"
proof -
  have all: "onlyReads (ordersWhere p)" for p
    unfolding ordersWhere_def by (rule reads_call) simp
  show "onlyReads (checkPendingLimit u m)" "onlyReads (checkDailyLimit u q l)"
    unfolding checkPendingLimit_def checkDailyLimit_def Let_def
    by (auto intro!: reads_orFail reads_bind reads_getNow reads_Return all)
  show "onlyReads (allocateOutTradeNo cs)"
    by (induction cs) (auto intro!: reads_orFail reads_Return all)
qed

lemma reads_Inr: "onlyReads p \<Longrightarrow> runs p s = (x, t) \<Longrightarrow> \<exists>fs. t = s\<lparr>pd_faults := fs\<rparr>"
  unfolding onlyReads_def by (metis snd_conv)

definition addsOrder :: "pay_db \<Rightarrow> pay_db \<Rightarrow> bool" where
  "addsOrder s t \<longleftrightarrow> (\<exists>row fs. po_ID row = pd_nextOrder s \<and> (pd_nextOrder s > 0 \<longrightarrow> wellFormed row) \<and> \<not> settled row \<and>
     t = s\<lparr>pd_faults := fs, pd_orders := pd_orders s @ [row], pd_nextOrder := pd_nextOrder s + 1\<rparr>)"

lemma insertOrder_effect:
  assumes "runs (insertOrder order) s = (Inr i, t)"
  shows "i = pd_nextOrder s" and "\<exists>fs. t = s\<lparr>pd_faults := fs,
    pd_orders := pd_orders s @ [order\<lparr>po_ID := pd_nextOrder s, po_UpdatedAt := pd_clock s\<rparr>], pd_nextOrder := pd_nextOrder s + 1\<rparr>"
  using payStatement_Inr [OF assms [unfolded insertOrder_def runs_call]]
  by (auto split: if_splits intro: exI [of _ "tl (pd_faults s)"])

lemma updateOrder_effect:
  assumes "runs (updateOrder i f) s = (Inr x, t)"
  shows "\<exists>fs. t = (setOrders (\<lambda>o1. po_ID o1 = i) f s)\<lparr>pd_faults := fs\<rparr>"
  using payStatement_Inr [OF assms [unfolded updateOrder_def runs_call]]
  by (auto simp: setOrders_def split: if_splits intro: exI [of _ "tl (pd_faults s)"])

lemma createOrderInTx_body:
  assumes ids: "\<forall>o1 \<in> set (pd_orders s). po_ID o1 < pd_nextOrder s"
    and run: "runs (orFail (insertOrder (pendingRow req e n)) (\<lambda>i. bind getNow (\<lambda>now.
         orFail (updateOrder i (po_RechargeCode_update (\<lambda>_. orderCode i now))) (\<lambda>_. getOrder i)))) s = (Inr x, t)"
  shows "addsOrder s t"
proof -
  let ?i = "pd_nextOrder s"
  obtain m where "runs (insertOrder (pendingRow req e n)) s = (Inr ?i, m)"
    and rest: "runs (bind getNow (\<lambda>now. orFail (updateOrder ?i (po_RechargeCode_update (\<lambda>_. orderCode ?i now))) (\<lambda>_. getOrder ?i))) m = (Inr x, t)"
    using run by (elim runs_orFail_InrD) (use insertOrder_effect(1) in blast)
  then obtain fs where m: "m = s\<lparr>pd_faults := fs, pd_orders := pd_orders s @
      [(pendingRow req e n)\<lparr>po_ID := ?i, po_UpdatedAt := pd_clock s\<rparr>], pd_nextOrder := ?i + 1\<rparr>"
    using insertOrder_effect(2) by blast
  obtain y m' where upd: "runs (updateOrder ?i (po_RechargeCode_update (\<lambda>_. orderCode ?i (pd_clock m)))) m = (Inr y, m')"
    and get: "runs (getOrder ?i) m' = (Inr x, t)"
    using rest by (auto elim: runs_orFail_InrD)
  have "onlyReads (getOrder ?i)"
    unfolding getOrder_def by (rule reads_call) simp
  from reads_Inr [OF this get] obtain fs' where t: "t = m'\<lparr>pd_faults := fs'\<rparr>"
    by blast
  obtain gs where m': "m' = (setOrders (\<lambda>o1. po_ID o1 = ?i) (po_RechargeCode_update (\<lambda>_. orderCode ?i (pd_clock m))) m)\<lparr>pd_faults := gs\<rparr>"
    using updateOrder_effect [OF upd] by blast
  let ?row = "(pendingRow req e n)\<lparr>po_ID := ?i, po_UpdatedAt := pd_clock s, po_RechargeCode := orderCode ?i (pd_clock s)\<rparr>"
  have "map (\<lambda>o1. if po_ID o1 = ?i then f o1 else o1) (pd_orders s) = pd_orders s" for f
    using ids by (auto intro!: map_idI)
  then have "t = s\<lparr>pd_faults := fs', pd_orders := pd_orders s @ [?row], pd_nextOrder := ?i + 1\<rparr>"
    by (simp add: t m' m setOrders_def)
  moreover have "wellFormed ?row" if "?i > 0"
    using that by (auto simp: wellFormed_def rechargeCode_def orderCode_def)
  moreover have "\<not> settled ?row"
    by (simp add: settled_def pendingRow_def psIsRefundStatus_def)
  ultimately show ?thesis
    unfolding addsOrder_def by (intro exI [of _ ?row] exI [of _ fs']) simp_all
qed

lemma addsOrder_effects:
  assumes "payInv s" and "addsOrder s t"
  shows "payInv t" and "payRely s t"
proof -
  obtain row fs where row: "po_ID row = pd_nextOrder s" "wellFormed row" "\<not> settled row"
    and t: "t = s\<lparr>pd_faults := fs, pd_orders := pd_orders s @ [row], pd_nextOrder := pd_nextOrder s + 1\<rparr>"
    using assms by (auto simp: addsOrder_def payInv_def)
  have "delivered t = delivered s"
    by (simp add: fun_eq_iff delivered_def assigned_def hasAudit_def t)
  then show "payInv t"
    using assms(1) row by (auto simp: payInv_def t)
  show "payRely s t"
    unfolding payRely_def
    by (auto simp: t rebated_def hasAudit_def intro!: bexI [of _ "_ :: PaymentOrder"] bexI [of _ "_ :: RedeemCode"])
qed

lemma addsOrder_faults: "addsOrder (s\<lparr>pd_faults := fs\<rparr>) t \<Longrightarrow> addsOrder s t"
  by (simp add: addsOrder_def)

lemma frame_createOrderInTx: "other.frame (createOrderInTx cfg req)"
proof -
  have "other.secures (\<lambda>_. True) (createOrderInTx cfg req) (other.onSuccess (\<lambda>_ _. True))"
    unfolding createOrderInTx_def transaction_def
  proof (rule other.secures_body(1))
    fix s t and x :: PaymentOrder
    assume inv: "payInv s" and "runs (orFail (checkPendingLimit (no_UserID req) (cf_MaxPendingOrders cfg)) (\<lambda>_.
        orFail (checkDailyLimit (no_UserID req) (no_LimitAmount req) (cf_DailyLimit cfg)) (\<lambda>_.
        bind getNow (\<lambda>now.
          let tm = (if cf_OrderTimeoutMin cfg \<le> 0 then defaultOrderTimeoutMin else cf_OrderTimeoutMin cfg);
              expiresAt = now + tm * Minute
          in orFail (allocateOutTradeNo (take 5 (no_Candidates req))) (\<lambda>outTradeNo.
             orFail (insertOrder (pendingRow req expiresAt outTradeNo)) (\<lambda>i.
             bind getNow (\<lambda>now.
             orFail (updateOrder i (po_RechargeCode_update (\<lambda>_. orderCode i now))) (\<lambda>_. getOrder i)))))))) s = (Inr x, t)"
    then obtain y1 m1 y2 m2 where 1: "runs (checkPendingLimit (no_UserID req) (cf_MaxPendingOrders cfg)) s = (Inr y1, m1)"
      and 2: "runs (checkDailyLimit (no_UserID req) (no_LimitAmount req) (cf_DailyLimit cfg)) m1 = (Inr y2, m2)"
      and rest: "\<exists>e. runs (orFail (allocateOutTradeNo (take 5 (no_Candidates req))) (\<lambda>outTradeNo.
             orFail (insertOrder (pendingRow req e outTradeNo)) (\<lambda>i.
             bind getNow (\<lambda>now.
             orFail (updateOrder i (po_RechargeCode_update (\<lambda>_. orderCode i now))) (\<lambda>_. getOrder i))))) m2 = (Inr x, t)"
      unfolding Let_def by (elim runs_orFail_InrD) (simp, blast)
    obtain e n m3 where 3: "runs (allocateOutTradeNo (take 5 (no_Candidates req))) m2 = (Inr n, m3)"
      and insert: "runs (orFail (insertOrder (pendingRow req e n)) (\<lambda>i.
             bind getNow (\<lambda>now.
             orFail (updateOrder i (po_RechargeCode_update (\<lambda>_. orderCode i now))) (\<lambda>_. getOrder i)))) m3 = (Inr x, t)"
      using rest by (auto elim: runs_orFail_InrD)
    obtain fs where m3: "m3 = s\<lparr>pd_faults := fs\<rparr>"
      using reads_Inr [OF reads_checks(1) 1] reads_Inr [OF reads_checks(2) 2] reads_Inr [OF reads_checks(3) 3] by auto
    have "addsOrder m3 t"
      by (rule createOrderInTx_body [OF _ insert]) (use inv in \<open>simp add: m3 payInv_def\<close>)
    then have "addsOrder s t"
      unfolding m3 by (rule addsOrder_faults)
    from addsOrder_effects [OF inv this] show "payInv t \<and> payRely s t \<and> True"
      by simp
  qed simp_all
  then show ?thesis by (simp add: other.frame_def)
qed

text \<open>A failed request marks the order as failed, whatever has become of it.\<close>

lemma frame_updateOrder_evolves:
  assumes "\<And>r now. evolves r (f (r\<lparr>po_UpdatedAt := now\<rparr>)) \<and> (settled (f (r\<lparr>po_UpdatedAt := now\<rparr>)) \<longrightarrow> settled r)"
  shows "other.frame (updateOrder i f)"
proof -
  have keeps: "payInv (setOrders p f s) \<and> payRely s (setOrders p f s)" if inv: "payInv s" for p s
  proof -
    let ?g = "\<lambda>r. if p r then f (r\<lparr>po_UpdatedAt := pd_clock s\<rparr>) else r"
    have t: "pd_orders (setOrders p f s) = map ?g (pd_orders s)" and same: "delivered (setOrders p f s) = delivered s"
      by (simp_all add: setOrders_def fun_eq_iff delivered_def assigned_def hasAudit_def)
    have g: "evolves r (?g r)" "settled (?g r) \<Longrightarrow> settled r" for r
      using assms [of r "pd_clock s"] by (auto split: if_splits)
    have ids: "po_ID (?g r) = po_ID r" "wellFormed (?g r) = wellFormed r" "delivered s (?g r) = delivered s r" for r
      using g(1) [of r] by (auto simp: evolves_def sameOrder_def wellFormed_def delivered_def cashed_def codeFor_def)
    have "map po_ID (pd_orders (setOrders p f s)) = map po_ID (pd_orders s)"
      by (simp add: t ids(1))
    moreover have "\<forall>o1 \<in> set (pd_orders (setOrders p f s)). po_ID o1 < pd_nextOrder s \<and> wellFormed o1 \<and>
        (settled o1 \<longrightarrow> delivered s o1)"
    proof
      fix o1
      assume "o1 \<in> set (pd_orders (setOrders p f s))"
      then obtain r where r: "r \<in> set (pd_orders s)" "o1 = ?g r"
        unfolding t by (rule imageE [OF subsetD [OF eq_refl [OF set_map]]])
      then have "po_ID r < pd_nextOrder s" "wellFormed r" "settled r \<longrightarrow> delivered s r"
        using inv by (auto simp: payInv_def)
      then show "po_ID o1 < pd_nextOrder s \<and> wellFormed o1 \<and> (settled o1 \<longrightarrow> delivered s o1)"
        unfolding r(2) ids using g(2) by blast
    qed
    moreover have "payRely s (setOrders p f s)"
      unfolding payRely_def
    proof (intro conjI ballI)
      fix o1
      assume "o1 \<in> set (pd_orders s)"
      then show "\<exists>o2 \<in> set (pd_orders (setOrders p f s)). evolves o1 o2"
        unfolding t set_map by (intro bexI [of _ "?g o1"] imageI g(1))
    next
      fix r
      assume "r \<in> set (pd_codes s)"
      then show "\<exists>r' \<in> set (pd_codes (setOrders p f s)). sameCode r r' \<and> (IsUsed r \<longrightarrow> r' = r)"
        by (intro bexI [of _ r]) (simp_all add: setOrders_def)
    qed (simp_all add: setOrders_def rebated_def hasAudit_def)
    ultimately show ?thesis
      using inv by (simp add: payInv_def same) (simp add: setOrders_def)
  qed
  have "other.secures (\<lambda>_. True) (updateOrder i f) (other.onSuccess (\<lambda>_ _. True))"
    unfolding updateOrder_def by (rule other.secures_call) (use keeps in auto)
  then show ?thesis by (simp add: other.frame_def)
qed

lemma frame_CreateOrder: "other.frame (CreateOrder cfg req)"
proof -
  have details: "evolves r (withPaymentDetails sel n (r\<lparr>po_UpdatedAt := now\<rparr>)) \<and>
      (settled (withPaymentDetails sel n (r\<lparr>po_UpdatedAt := now\<rparr>)) \<longrightarrow> settled r)" for r sel n now
    by (simp add: withPaymentDetails_def Let_def evolves_def sameOrder_def settled_def)
  have invoke: "other.frame (invokeProvider order sel)" for order sel
    unfolding invokeProvider_def
  proof (rule other.frame_bind [OF other.frame_takeReply])
    fix r
    show "other.frame (case r of
         CreateReply tradeNo \<Rightarrow>
           orFail (updateOrder (po_ID order) (withPaymentDetails sel tradeNo)) (\<lambda>_.
           afterwards (writeAuditLog (po_ID order) ''ORDER_CREATED'') (Return (Inr ())))
       | _ \<Rightarrow> Return (Inl (ServiceError ''payment gateway error'')))"
      by (cases r) (auto intro!: other.frame_intros frame_updateOrder_evolves details)
  qed
  have failed: "other.frame (updateOrder i (po_Status_update (\<lambda>_. OrderStatusFailed)))" for i
    by (rule frame_updateOrder_evolves) (simp add: evolves_def sameOrder_def settled_def psIsRefundStatus_def)
  show ?thesis
    unfolding CreateOrder_def
    by (intro other.frame_intros frame_createOrderInTx invoke failed)
qed

section \<open>The system\<close>

datatype pay_call =
    Notify PaymentNotification string | Retry int | Cancel int int | AdminCancel int | ExpireOrders
  | Verify string int | Reconcile
  | AskRefund int int string | Refund int float64 string bool bool | ConcludeRefund int
  | PlaceOrder PaymentConfig NewOrder | RedeemByUser int string | Charge int rat | Tick duration

text \<open>The handler of a refund executes the plan that was prepared, unless there is an early result.\<close>

definition AdminRefund :: "pay_env \<Rightarrow> int \<Rightarrow> float64 \<Rightarrow> string \<Rightarrow> bool \<Rightarrow> bool \<Rightarrow> RefundResult pay_proc" where
  "AdminRefund en oid amt reason force deduct =
     orFail (PrepareRefund en oid amt reason force deduct) (\<lambda>r. case r of
       Inl early \<Rightarrow> Return (Inr early) | Inr p \<Rightarrow> ExecuteRefund en p)"

definition tick :: "duration \<Rightarrow> (pay_db, unit) proc" where
  "tick d = atomically (\<lambda>db. ((), db\<lparr>pd_clock := pd_clock db + d\<rparr>))"

abbreviation ignoring :: "(pay_db, 'a) proc \<Rightarrow> (pay_db, unit) proc" where
  "ignoring p \<equiv> bind p (\<lambda>_. Return ())"

fun payStart :: "pay_env \<Rightarrow> pay_call \<Rightarrow> (pay_db, unit) proc" where
  "payStart en (Notify n pk) = ignoring (HandlePaymentNotification en n pk)"
| "payStart en (Retry oid) = ignoring (RetryFulfillment en oid)"
| "payStart en (Cancel oid uid) = ignoring (CancelOrder en oid uid)"
| "payStart en (AdminCancel oid) = ignoring (AdminCancelOrder en oid)"
| "payStart en ExpireOrders = ignoring (ExpireTimedOutOrders en)"
| "payStart en (Verify ref uid) = ignoring (VerifyOrderByOutTradeNo en ref uid)"
| "payStart en Reconcile = ignoring (ReconcilePendingPaymentOrders en)"
| "payStart en (AskRefund oid uid reason) = ignoring (RequestRefund oid uid reason)"
| "payStart en (Refund oid amt reason force deduct) = ignoring (AdminRefund en oid amt reason force deduct)"
| "payStart en (ConcludeRefund oid) = ignoring (QueryAndFinalizeRefund en oid)"
| "payStart en (PlaceOrder cfg req) = ignoring (CreateOrder cfg req)"
| "payStart en (RedeemByUser u code) = ignoring (Redeem en u code)"
| "payStart en (Charge u amount) = ignoring (DeductBalance u amount)"
| "payStart en (Tick d) = tick d"

fun fulfils :: "pay_call \<Rightarrow> bool" where
  "fulfils (Notify n pk) = True" | "fulfils (Retry oid) = True" | "fulfils (Cancel oid uid) = True"
| "fulfils (AdminCancel oid) = True" | "fulfils ExpireOrders = True" | "fulfils (Verify ref uid) = True"
| "fulfils Reconcile = True" | "fulfils _ = False"

fun refunds :: "pay_call \<Rightarrow> bool" where
  "refunds (AskRefund oid uid reason) = True" | "refunds (Refund oid amt reason force deduct) = True"
| "refunds (ConcludeRefund oid) = True" | "refunds _ = False"

definition callGuar :: "pay_env \<Rightarrow> pay_call \<Rightarrow> pay_db \<Rightarrow> pay_db \<Rightarrow> bool" where
  "callGuar en c = (if fulfils c then payGuar en else if refunds c then refundGuar else payRely)"

lemma frame_AdminRefund: "refunding.frame (AdminRefund en oid amt reason force deduct)"
  unfolding AdminRefund_def
  by (intro refunding.frame_intros frame_refundRequests frame_ExecuteRefund)

lemma frame_tick: "other.frame (tick d)"
  unfolding tick_def by (rule other.frame_atomically) (auto intro: quietI)

lemma frame_DeductBalance: "other.frame (DeductBalance u amount)"
  unfolding DeductBalance_def
  by (intro frame_other refunding.frame_intros frame_updateUser frame_sideways) (simp add: sideways_def)

lemma payStart_keeps:
  "payInv s \<Longrightarrow> upholds payRely payInv (callGuar en c) (payStart en c) (\<lambda>_ _. True) s"
proof -
  have pay: "pay.frame en (payStart en c)" if "fulfils c"
    using that by (cases c) (auto intro!: pay.frame_bind pay.frame_Return frame_openOrders
        frame_HandlePaymentNotification frame_RetryFulfillment)
  have refund: "refunding.frame (payStart en c)" if "refunds c"
    using that by (cases c) (auto intro!: refunding.frame_bind refunding.frame_Return frame_refundRequests
        frame_AdminRefund frame_QueryAndFinalizeRefund)
  have rest: "other.frame (payStart en c)" if "\<not> fulfils c" "\<not> refunds c"
    using that by (cases c) (auto intro!: other.frame_bind other.frame_Return frame_CreateOrder frame_Redeem
        frame_DeductBalance frame_tick)
  assume "payInv s"
  show ?thesis
    using pay refund rest
    by (simp add: callGuar_def pay.frame_def refunding.frame_def other.frame_def pay.secures_def refunding.secures_def
        other.secures_def)
qed

lemma callGuar_rely: "callGuar en c s t \<Longrightarrow> payRely s t"
  by (auto simp: callGuar_def payGuar_def refundGuar_def split: if_splits)

interpretation payments: cooperating "payStart en" payInv "callGuar en" payRely for en
proof (rule cooperating.intro)
  show "relying payRely (callGuar en c)" for en c
    by unfold_locales (auto intro: payRely_trans callGuar_rely)
qed (rule payStart_keeps)

section \<open>What holds of every interleaving\<close>

text \<open>A code belongs to one order.\<close>

lemma cashed_distinct:
  assumes inv: "payInv s" and o1: "o1 \<in> set (pd_orders s)" "cashed o1 r" and o2: "o2 \<in> set (pd_orders s)" "cashed o2 r"
  shows "o1 = o2"
proof -
  have pos: "po_ID o1 > 0" "po_ID o2 > 0"
    using inv o1(1) o2(1) by (auto simp: payInv_def wellFormed_def)
  obtain n m where "po_RechargeCode o1 = rechargeCode (po_ID o1) n" "po_RechargeCode o2 = rechargeCode (po_ID o2) m"
    using inv o1(1) o2(1) unfolding payInv_def wellFormed_def by metis
  then have "rechargeCode (po_ID o1) n = rechargeCode (po_ID o2) m"
    using o1(2) o2(2) by (simp add: cashed_def codeFor_def)
  then have "po_ID o1 = po_ID o2"
    by (rule rechargeCode_inj [OF _ pos])
  then show ?thesis
    using inv o1(1) o2(1) by (auto simp: payInv_def distinct_map inj_on_def)
qed

text \<open>
  C99: Whatever payment operations run, interleaved in any order with refunds, new orders, the
  redemption of codes by users and charges, abandoned at any point and with database calls that fail
  before or after they take effect: a step of an operation that fulfils orders changes no balance but
  that of the user of one order, by the value of the code of that order, which is its amount but for
  1e-8; every order is credited in at most one step, and in none if its code was used before; and an
  order for a balance that counts as completed or refunded has been credited.
\<close>

theorem paid_order_credited_once:
  assumes "payInv db" and "performs (payStart en) actions (db, []) = (events, (db', ps))"
  shows "(\<forall>(c, s, t) \<in> set events. fulfils c \<longrightarrow>
      sameBalances s t \<or> (\<exists>o1 \<in> set (pd_orders s). creditsFor o1 s t)) \<and>
    (\<forall>o1. length (filter (\<lambda>(c, s, t). creditsFor o1 s t) events)
       \<le> (if \<exists>r \<in> set (pd_codes db). cashed o1 r then 0 else 1)) \<and>
    (\<forall>o1 \<in> set (pd_orders db'). settled o1 \<and> po_OrderType o1 \<noteq> OrderTypeSubscription \<longrightarrow>
       (\<exists>r \<in> set (pd_codes db'). cashed o1 r)) \<and>
    (\<forall>o1 \<in> set (pd_orders db'). \<forall>o2 \<in> set (pd_orders db'). \<forall>r. cashed o1 r \<and> cashed o2 r \<longrightarrow> o1 = o2)"
proof -
  have start: "payments.healthy en (db, [])"
    by (rule payments.healthy_start [OF assms(1)])
  have events: "events = fst (performs (payStart en) actions (db, []))" and db': "db' = fst (snd (performs (payStart en) actions (db, [])))"
    using assms(2) by simp_all
  note run = payments.performs_healthy [OF start, of actions, folded events]
  have inv: "payInv db'"
    using run by (simp add: payments.healthy_def db')
  have "sameBalances s t \<or> (\<exists>o1 \<in> set (pd_orders s). creditsFor o1 s t)" if "(c, s, t) \<in> set events" "fulfils c" for c s t
    using run that by (fastforce simp: callGuar_def payGuar_def)
  moreover have "length (filter (\<lambda>(c, s, t). creditsFor o1 s t) events) \<le> (if \<exists>r \<in> set (pd_codes db). cashed o1 r then 0 else 1)" for o1
    unfolding events
    by (rule payments.once [OF start, of "\<lambda>s. \<exists>r \<in> set (pd_codes s). cashed o1 r" "\<lambda>_. creditsFor o1" actions,
          unfolded fst_conv])
       (auto simp: creditsFor_def intro: pay.lastingD [OF lasting_cashed])
  moreover have "\<exists>r \<in> set (pd_codes db'). cashed o1 r"
    if "o1 \<in> set (pd_orders db')" "settled o1" "po_OrderType o1 \<noteq> OrderTypeSubscription" for o1
    using inv that by (auto simp: payInv_def delivered_def)
  moreover have "o1 = o2" if "o1 \<in> set (pd_orders db')" "o2 \<in> set (pd_orders db')" "cashed o1 r" "cashed o2 r" for o1 o2 r
    using cashed_distinct [OF inv] that by blast
  ultimately show ?thesis by blast
qed

text \<open>
  C99: Under the same interleavings, a step of an operation that fulfils orders changes the
  subscriptions only by assigning the days of one order to its user, and the ledger of rebates only
  by the rebate of one order; every order is assigned, and rebated, in at most one step; and a
  subscription order that counts as completed or refunded has been assigned.
\<close>

theorem paid_subscription_assigned_once:
  assumes "payInv db" and "performs (payStart en) actions (db, []) = (events, (db', ps))"
  shows "(\<forall>(c, s, t) \<in> set events. fulfils c \<longrightarrow>
      (pd_sub t = pd_sub s \<or> (\<exists>o1 \<in> set (pd_orders s). assignsFor en o1 s t)) \<and>
      (pd_ledger t = pd_ledger s \<or> (\<exists>o1 \<in> set (pd_orders s). rebatesFor o1 s t))) \<and>
    (\<forall>o1. length (filter (\<lambda>(c, s, t). assignsFor en o1 s t) events)
       \<le> (if hasAudit db (po_ID o1) [''SUBSCRIPTION_ASSIGNED''] then 0 else 1)) \<and>
    (\<forall>o1. length (filter (\<lambda>(c, s, t). rebatesFor o1 s t) events) \<le> (if rebated db (po_ID o1) then 0 else 1)) \<and>
    (\<forall>o1 \<in> set (pd_orders db'). settled o1 \<and> po_OrderType o1 = OrderTypeSubscription \<longrightarrow> assigned db' (po_ID o1))"
proof -
  have start: "payments.healthy en (db, [])"
    by (rule payments.healthy_start [OF assms(1)])
  have events: "events = fst (performs (payStart en) actions (db, []))" and db': "db' = fst (snd (performs (payStart en) actions (db, [])))"
    using assms(2) by simp_all
  note run = payments.performs_healthy [OF start, of actions, folded events]
  have inv: "payInv db'"
    using run by (simp add: payments.healthy_def db')
  have "(pd_sub t = pd_sub s \<or> (\<exists>o1 \<in> set (pd_orders s). assignsFor en o1 s t)) \<and>
      (pd_ledger t = pd_ledger s \<or> (\<exists>o1 \<in> set (pd_orders s). rebatesFor o1 s t))"
    if "(c, s, t) \<in> set events" "fulfils c" for c s t
    using run that by (fastforce simp: callGuar_def payGuar_def)
  moreover have "length (filter (\<lambda>(c, s, t). assignsFor en o1 s t) events)
      \<le> (if hasAudit db (po_ID o1) [''SUBSCRIPTION_ASSIGNED''] then 0 else 1)" for o1
    unfolding events
    by (rule payments.once [OF start, of "\<lambda>s. hasAudit s (po_ID o1) [''SUBSCRIPTION_ASSIGNED'']" "\<lambda>_. assignsFor en o1"
          actions, unfolded fst_conv])
       (auto simp: assignsFor_def payRely_def)
  moreover have "length (filter (\<lambda>(c, s, t). rebatesFor o1 s t) events) \<le> (if rebated db (po_ID o1) then 0 else 1)" for o1
    unfolding events
    by (rule payments.once [OF start, of "\<lambda>s. rebated s (po_ID o1)" "\<lambda>_. rebatesFor o1" actions, unfolded fst_conv])
       (auto simp: rebatesFor_def payRely_def)
  moreover have "assigned db' (po_ID o1)"
    if "o1 \<in> set (pd_orders db')" "settled o1" "po_OrderType o1 = OrderTypeSubscription" for o1
    using inv that by (auto simp: payInv_def delivered_def)
  ultimately show ?thesis by blast
qed

section \<open>An example\<close>

text \<open>
  Two orders of one user, for a balance and for a subscription, that the provider reports as paid
  twice each; the two notifications of an order are handled at the same time.
\<close>

definition exampleEnv :: pay_env where
  "exampleEnv = \<lparr>en_zones = \<lparr>zn_config = UTC, zn_db = UTC\<rparr>, en_affiliate = None, en_cache = True,
     en_registry = None, en_registryProvider = (\<lambda>_. None), en_createProvider = (\<lambda>_. None),
     en_decimal = \<lparr>dc_Mul = (*), dc_Div = (/), dc_Round = (\<lambda>_ q. q)\<rparr>\<rparr>"

definition exampleOrder :: "int \<Rightarrow> OrderType \<Rightarrow> PaymentOrder" where
  "exampleOrder i ot = \<lparr>po_ID = i, po_UserID = 1, po_Amount = 20, po_PayAmount = 20, po_RechargeCode = rechargeCode i 42,
     po_OutTradeNo = ''sub2_'' @ Itoa (nat i), po_PaymentType = TypeAlipay, po_PaymentTradeNo = [], po_OrderType = ot,
     po_SubscriptionGroupID = Some 3, po_SubscriptionDays = Some 30, po_ProviderInstanceID = None,
     po_ProviderKey = None, po_ProviderSnapshot = [], po_Status = OrderStatusPending, po_RefundAmount = 0,
     po_RefundReason = None, po_RefundAt = None, po_ForceRefund = False, po_RefundRequestedAt = None,
     po_RefundRequestReason = None, po_RefundRequestedBy = None, po_ExpiresAt = 0, po_PaidAt = None,
     po_CompletedAt = None, po_FailedAt = None, po_FailedReason = None, po_UpdatedAt = 0\<rparr>"

definition examplePayDb :: pay_db where
  "examplePayDb = \<lparr>pd_orders = [exampleOrder 7 OrderTypeBalance, exampleOrder 8 OrderTypeSubscription],
     pd_nextOrder = 9, pd_audit = [], pd_codes = [], pd_nextCode = 1,
     pd_users = [\<lparr>ur_ID = 1, ur_Balance = 5, ur_TotalRecharged = 0, ur_Concurrency = 1\<rparr>], pd_affiliates = [],
     pd_ledger = [], pd_sub = \<lparr>sd_subs = [], sd_groups = [\<lparr>gr_ID = 3, gr_Name = ''g'', gr_Status = ''active'',
       gr_SubscriptionType = ''subscription'', gr_DailyLimitUSD = None, gr_WeeklyLimitUSD = None,
       gr_MonthlyLimitUSD = None\<rparr>], sd_next = 1, sd_faults = []\<rparr>, pd_instances = [],
     pd_locks = [], pd_attempts = [], pd_replies = [], pd_clock = 63000000000 * Second, pd_faults = []\<rparr>"

definition exampleNotice :: "nat \<Rightarrow> PaymentNotification" where
  "exampleNotice i = \<lparr>nt_TradeNo = ''T'' @ Itoa i, nt_OrderID = ''sub2_'' @ Itoa i, nt_Amount = Finite 20,
     nt_Status = NotificationStatusSuccess, nt_Metadata = []\<rparr>"

text \<open>The two notifications of one order, a step of each in turn, and the first to its end.\<close>

definition exampleMoves :: "nat \<Rightarrow> pay_call move list" where
  "exampleMoves i = replicate 2 (Spawn (Notify (exampleNotice i) TypeAlipay)) @
     map Resume (concat (replicate 12 [0, 1]) @ replicate 16 0)"

definition exampleRun :: "nat \<Rightarrow> (pay_call \<times> pay_db \<times> pay_db) list \<times> (pay_db, pay_call) process_system" where
  "exampleRun i = performs (payStart exampleEnv) (exampleMoves i) (examplePayDb, [])"

lemma payInv_example: "payInv examplePayDb"
proof -
  have "wellFormed (exampleOrder i ot)" if "i > 0" for i ot
    using that by (auto simp: wellFormed_def exampleOrder_def)
  moreover have "\<not> settled (exampleOrder i ot)" for i ot
    by (simp add: settled_def psIsRefundStatus_def exampleOrder_def)
  ultimately show ?thesis
    by (simp add: payInv_def examplePayDb_def) (simp add: exampleOrder_def)
qed

lemma example_credit:
  "(\<lambda>db. (map ur_Balance (pd_users db), map po_Status (pd_orders db))) (fst (snd (exampleRun 7))) =
     ([25], [OrderStatusCompleted, OrderStatusPending])"
  by code_simp

lemma example_assignment:
  "(\<lambda>db. (length (sd_subs (pd_sub db)), map po_Status (pd_orders db))) (fst (snd (exampleRun 8))) =
     (1, [OrderStatusPending, OrderStatusCompleted])"
  by code_simp

theorem paid_order_credited_once_witness:
  "length (filter (\<lambda>(c, s, t). creditsFor (exampleOrder 7 OrderTypeBalance) s t) (fst (exampleRun 7))) \<le> 1 \<and>
   map ur_Balance (pd_users (fst (snd (exampleRun 7)))) = [25]"
proof -
  have "performs (payStart exampleEnv) (exampleMoves 7) (examplePayDb, []) =
      (fst (exampleRun 7), (fst (snd (exampleRun 7)), snd (snd (exampleRun 7))))"
    by (simp add: exampleRun_def)
  note once = paid_order_credited_once [OF payInv_example this, THEN conjunct2, THEN conjunct1, rule_format,
      of "exampleOrder 7 OrderTypeBalance"]
  have "pd_codes examplePayDb = []" by (simp add: examplePayDb_def)
  with once example_credit show ?thesis by simp
qed

theorem paid_subscription_assigned_once_witness:
  "length (filter (\<lambda>(c, s, t). assignsFor exampleEnv (exampleOrder 8 OrderTypeSubscription) s t) (fst (exampleRun 8))) \<le> 1 \<and>
   length (sd_subs (pd_sub (fst (snd (exampleRun 8))))) = 1"
proof -
  have "performs (payStart exampleEnv) (exampleMoves 8) (examplePayDb, []) =
      (fst (exampleRun 8), (fst (snd (exampleRun 8)), snd (snd (exampleRun 8))))"
    by (simp add: exampleRun_def)
  note once = paid_subscription_assigned_once [OF payInv_example this, THEN conjunct2, THEN conjunct1, rule_format,
      of "exampleOrder 8 OrderTypeSubscription"]
  have "hasAudit examplePayDb i as = False" for i as
    by (simp add: hasAudit_def examplePayDb_def)
  with once example_assignment show ?thesis by simp
qed

end
