(* ===== verification/Spec2Isabelle.thy ===== *)
theory Spec2Isabelle
  imports Anthropic_To_Responses Responses_To_Chat Idempotency_Concurrency Proxy_Circuit Keyword_Search Abuse_Limiter
    Chat_Bridges Chat_To_Anthropic_Content Chat_To_Responses_Stream
    Antigravity_Response Subscription_Terms Payment_System
begin

text \<open>
  Haochi is a gateway in Go between clients and suppliers of language models.  A request comes in
  over HTTP in one of three protocols (Anthropic Messages, OpenAI Responses, OpenAI Chat
  Completions), is authenticated and checked, is sent to an upstream account that may speak another
  of the protocols, and its answer, an object or a stream of server-sent events, is translated back.
  This development models the parts of \<open>backend/internal\<close> that carry logic of their own on that
  way.  Paths below are relative to \<open>src/backend/internal\<close>.

  \<^bold>\<open>The protocol translators\<close> (\<open>pkg/apicompat\<close>).  \<open>Compat_Types\<close> has the wire types of \<open>types.go\<close>,
  one record per struct.  Each direction is a theory: a record for the stream state, a definition
  for each handler (an event and a state to the emitted events and the next state), the finaliser
  that a caller runs when the upstream closes, and the conversion of a whole answer.
    \<^item> \<open>Responses_To_Anthropic\<close>: \<open>responses_to_anthropic.go\<close>.
    \<^item> \<open>Anthropic_To_Responses\<close>: \<open>anthropic_to_responses_response.go\<close>.
    \<^item> \<open>Responses_To_Chat\<close>: \<open>responses_to_chatcompletions.go\<close> and its buffered accumulator.
    \<^item> \<open>Chat_Tools\<close>, \<open>Chat_Message\<close>, \<open>Chat_To_Responses\<close>: \<open>chatcompletions_responses_bridge.go\<close>, the
      tool declarations and the response side; \<open>Chat_To_Responses_Stream\<close>: its stream refines a
      specification in which several items are open at once.
    \<^item> \<open>Chat_To_Anthropic\<close>, \<open>Chat_To_Anthropic_Content\<close>: \<open>chatcompletions_anthropic_bridge.go\<close>, the
      response side; \<open>Chat_Bridges\<close> compares it with the detour through Responses.
    \<^item> \<open>Antigravity_Stream\<close>, \<open>Antigravity_Response\<close>: \<open>pkg/antigravity/stream_transformer.go\<close> and
      \<open>response_transformer.go\<close>, Gemini answers for Anthropic clients, with the collection of a stream
      in \<open>service/antigravity_gateway_streaming.go\<close>.
  What is shown of a translator: its output is a well-formed stream of the target protocol (a
  specification automaton, which the states refine); the content survives (text, reasoning, the
  arguments of every call, usage); the streamed and the whole answer agree; calls come back to the
  declarations they were made for.  Where this needs an upstream that keeps an order of its own, the
  order is an automaton over the upstream events (\<open>itemOrder\<close>, \<open>chunkOrder\<close>, \<open>callTurn\<close>): the
  Anthropic streams are well formed for every upstream except that a late increment may name a block
  already stopped, and without exception for upstreams that do not return to a call they have left;
  the buffered accumulator, whose builders are held by value, panics on some upstreams that do.

  \<^bold>\<open>Request protection\<close>.  \<open>Idempotency_Store\<close> (\<open>repository/idempotency_repo.go\<close>),
  \<open>Idempotency\<close> and \<open>Idempotency_Concurrency\<close> (\<open>service/idempotency.go\<close>): the coordinator that runs
  a request at most once per key, over a table whose statements may fail before or after they take
  effect, alone and with the statements of several requests interleaved.  \<open>Abuse_Limiter\<close>
  (\<open>service/invalid_auth_abuse_limiter.go\<close>): the limiter of failed authentications.
  \<open>Keyword_Matcher\<close>, \<open>Keyword_Trie\<close>, \<open>Keyword_Search\<close> (\<open>service/content_moderation_keyword_matcher.go\<close>):
  the keyword filter, an Aho-Corasick automaton proved equal to plain substring search.

  \<^bold>\<open>Subscriptions\<close>.  \<open>Calendar\<close> (Go's dates in a time zone, \<open>pkg/timezone\<close>), \<open>User_Subscription\<close>
  (\<open>service/user_subscription.go\<close>: where the daily, weekly and monthly usage windows advance to and the
  limits), \<open>Subscription_Store\<close> (\<open>repository/user_subscription_repo.go\<close>, the statements on the table),
  \<open>Subscription_Service\<close> (\<open>service/subscription_service.go\<close> and the check in
  \<open>server/middleware/api_key_auth.go\<close>).  \<open>Subscription_Windows\<close> has the system of processes that run
  these statements interleaved on stale copies, and the locale \<open>quota_window\<close>; \<open>Subscription_Quotas\<close>
  its interpretations for the three windows: a quota is granted once per period and no recorded amount
  is lost.  \<open>Subscription_Admission\<close>: maintenance settles the windows and agrees with the check.
  \<open>Subscription_Terms\<close>: every operation keeps the table well formed, in a transaction of its own or
  joined to one of the caller.

  \<^bold>\<open>Payments\<close> (\<open>service/payment_*.go\<close>, \<open>redeem_service.go\<close>, \<open>affiliate_service.go\<close>).
  \<open>Payment_Orders\<close>: orders, the provider instance an order is bound to and the checks of a notification.
  \<open>Payment_Store\<close>: the tables and the statements on them (\<open>repository/redeem_code_repo.go\<close>,
  \<open>user_repo.go\<close>, \<open>affiliate_repo.go\<close>, \<open>redeem_cache.go\<close>).  \<open>Payment_Redeem\<close>: redeem codes and invitation
  rebates.  \<open>Payment_Fulfilment\<close>: from the notification of a payment to the credit or the subscription,
  with retries, cancelling, expiry and reconciliation.  \<open>Payment_Refund\<close>: refunds.  \<open>Payment_Creation\<close>:
  new orders.  Every operation is a process (\<open>Process_Logic\<close>) whose steps are single statements, whole
  transactions and answers of providers; \<open>performs\<close> interleaves any number of them, and may abandon one
  at any step.  \<open>Process_Logic\<close> has the locales \<open>relying\<close> (rely and guarantee) and \<open>cooperating\<close> (a system
  of operations); \<open>Payment_Rely\<close>, \<open>Payment_Safety\<close> and \<open>Payment_Operations\<close> show that every operation
  keeps its part, and \<open>Payment_System\<close> interprets the system and concludes that a paid order is
  credited, or assigned, at most once, and has been when it counts as completed.  Left out are the
  mails, the caches of balances and subscriptions, the checks of \<open>CreateOrder\<close> before its transaction,
  the administration of codes, users and provider instances, and the clients of the providers,
  whose answers the state has as a list.

  \<^bold>\<open>Upstream health\<close>.  \<open>Proxy_Circuit\<close> (\<open>service/openai_proxy_stream_circuit.go\<close>): the breaker that
  takes a proxy out of use after repeated disconnects.

  \<open>Gateway_Prelude\<close> is shared: Go strings and \<open>TrimSpace\<close>, UTF-8, times, association lists for maps
  the code iterates, \<open>run_machine\<close> and \<open>seqE\<close> for handlers that emit events, \<open>accepts_from\<close> for
  specification automata, the locales \<open>ordered_refinement\<close> (for upstreams that keep an order) and
  \<open>stream_refinement\<close> (for every upstream; interpreted for each translator), and the
  \<open>triple\<close> and \<open>reaches\<close> rules for composed handlers (abstraction by a function, by a relation).

  \<^bold>\<open>How the code is represented\<close>.  A Go string is its bytes.  Token counts, indices and times are
  unbounded integers (they count far below \<open>2 ^ 63\<close>); database times keep their nanoseconds;
  durations converted to float seconds are exact below 48 days, which the definitions bound.
  Random identifiers and the current time are arguments.  Parameters stand for the libraries:
  \<open>encoding/json\<close> (\<open>json_lib\<close>, \<open>content_json\<close>), SHA-256, \<open>ToUpper\<close>, \<open>ToLower\<close>, log redaction.  An
  operation that holds a mutex is one step, and so is one SQL statement.  Dollars are rational numbers.  The order in which a loop visits a Go map is an argument
  or the order of an association list.  Loops that may not end return an option
  (\<open>partial_function\<close>); that they do return is proved (\<open>matcher_size\<close>); byte lengths of keyword lists
  are assumed below \<open>2 ^ 31\<close>, the range of the automaton's 32-bit indices.

  \<^bold>\<open>Not modelled\<close>.  HTTP handlers, routing and server-sent-event formatting (glue); the generated
  ORM (\<open>ent\<close>) and repositories that only map rows; requests on their way to the upstream (the request
  side of the translators, which rewrites JSON documents member by member); the clients and token
  refreshers of the suppliers (network protocols); account selection, concurrency slots, websocket
  pools; prices; monitoring, backups, e-mail; the frontend.
\<close>

section \<open>Both translators in a row\<close>

text \<open>
  C30: a Responses stream translated to Anthropic events and back to Responses events, as when two
  gateways are chained, still delivers exactly its text, for every stream and whatever item
  identifiers the second translator draws.
\<close>

theorem chained_translators_text:
  "concat (map responsesText (fst (responsesStream now'
      (map (\<lambda>(i, e). (gen i, e)) (List.enumerate 0 (translateStream J now es))))))
   = concat (map responsesText es)"
proof -
  have "map (anthText \<circ> snd \<circ> (\<lambda>(i, e). (gen i, e))) (List.enumerate n out) = map anthText out" for n out
    by (induction out arbitrary: n) simp_all
  then show ?thesis
    by (simp add: responsesText_stream anthText_stream)
qed

end
